(* ===== verification/SupPrelude.thy ===== *)
theory SupPrelude
  imports Main "HOL-Library.Word" "HOL-Library.Monad_Syntax"
begin

unbundle bit_operations_syntax

text \<open>
  Shared vocabulary of the development: the machine types of an AMD64 host, the IPRT status
  codes used by the support driver, pointer validation, the fault monad, and the generic
  lemmas on words, maps, lists and sums that the component theories use.

  A C function that touches memory is a HOL function into \<^typ>\<open>'a option\<close>:
  \<^term>\<open>None\<close> is a \<^emph>\<open>memory fault\<close> (the code dereferences memory that is not allocated),
  \<^term>\<open>Some\<close> carries the returned value and the new state.  Faults are kept apart from the
  status codes the code returns, so that absence of faults is itself a theorem.
\<close>

section \<open>Machine types\<close>

type_synonym u8 = "8 word"
type_synonym u32 = "32 word"
type_synonym u64 = "64 word"

text \<open>Addresses and pointers (\<open>uintptr_t\<close> of an AMD64 host); \<open>NULL\<close> is 0.\<close>

type_synonym addr = "64 word"

text \<open>IPRT status codes are C \<open>int\<close>s: negative for errors, never computed with.\<close>

type_synonym rc = int

section \<open>Status codes (include/iprt/err.h, include/VBox/err.h)\<close>

abbreviation "VINF_SUCCESS \<equiv> (0::rc)"
abbreviation "VERR_GENERAL_FAILURE \<equiv> (-1::rc)"
abbreviation "VERR_INVALID_PARAMETER \<equiv> (-2::rc)"
abbreviation "VERR_INVALID_MAGIC \<equiv> (-3::rc)"
abbreviation "VERR_INVALID_HANDLE \<equiv> (-4::rc)"
abbreviation "VERR_INVALID_POINTER \<equiv> (-6::rc)"
abbreviation "VERR_NO_MEMORY \<equiv> (-8::rc)"
abbreviation "VERR_ALREADY_LOADED \<equiv> (-9::rc)"
abbreviation "VERR_PERMISSION_DENIED \<equiv> (-10::rc)"
abbreviation "VERR_VERSION_MISMATCH \<equiv> (-11::rc)"
abbreviation "VERR_WRONG_ORDER \<equiv> (-22::rc)"
abbreviation "VERR_NOT_SUPPORTED \<equiv> (-37::rc)"
abbreviation "VERR_ACCESS_DENIED \<equiv> (-38::rc)"
abbreviation "VERR_TRY_AGAIN \<equiv> (-52::rc)"
abbreviation "VERR_NOT_FOUND \<equiv> (-78::rc)"
abbreviation "VERR_PAGE_COUNT_OUT_OF_RANGE \<equiv> (-84::rc)"
abbreviation "VINF_OBJECT_DESTROYED \<equiv> (85::rc)"
abbreviation "VERR_DANGLING_OBJECTS \<equiv> (-86::rc)"
abbreviation "VERR_NO_EXEC_MEMORY \<equiv> (-96::rc)"
abbreviation "VERR_ALREADY_EXISTS \<equiv> (-105::rc)"
abbreviation "VERR_INTERNAL_ERROR \<equiv> (-225::rc)"
abbreviation "VERR_INTERNAL_ERROR_2 \<equiv> (-226::rc)"
abbreviation "VERR_INTERNAL_ERROR_3 \<equiv> (-227::rc)"
abbreviation "VERR_INTERNAL_ERROR_4 \<equiv> (-228::rc)"
abbreviation "VERR_INTERNAL_ERROR_5 \<equiv> (-229::rc)"
abbreviation "VERR_MODULE_NOT_FOUND \<equiv> (-610::rc)"
abbreviation "VERR_SUPDRV_COMPONENT_NOT_FOUND \<equiv> (-3700::rc)"
abbreviation "VERR_SUPDRV_INTERFACE_NOT_SUPPORTED \<equiv> (-3701::rc)"
abbreviation "VERR_SUPDRV_SERVICE_NOT_FOUND \<equiv> (-3702::rc)"

abbreviation RT_SUCCESS :: "rc \<Rightarrow> bool" where "RT_SUCCESS r \<equiv> 0 \<le> r"
abbreviation RT_FAILURE :: "rc \<Rightarrow> bool" where "RT_FAILURE r \<equiv> r < 0"

section \<open>Pointers\<close>

text \<open>\<open>RT_VALID_PTR\<close> for ring-0 code on AMD64: not in the first or last page, and canonical.\<close>

definition RT_VALID_PTR :: "addr \<Rightarrow> bool" where
  "RT_VALID_PTR p \<longleftrightarrow> p + 0x1000 \<ge> 0x2000 \<and>
     (p AND 0xffff800000000000 = 0xffff800000000000 \<or> p AND 0xffff800000000000 = 0)"

lemma RT_VALID_PTR_nonnull [simp]: "\<not> RT_VALID_PTR 0"
  by (simp add: RT_VALID_PTR_def)

text \<open>
  The range check the driver uses for "does this address lie in that image":
  \<open>(uintptr_t)pv - (uintptr_t)pvImage < cbImageBits\<close>, with the wrap-around of
  unsigned subtraction.
\<close>

definition in_range :: "addr \<Rightarrow> addr \<Rightarrow> u32 \<Rightarrow> bool" where
  "in_range pv pvImage cb \<longleftrightarrow> pv - pvImage < ucast cb"

section \<open>Automation collections\<close>

named_theorems sup_defs "definitions of driver operations that case analysis unfolds"
named_theorems sup_frame "which parts of the state an operation leaves alone"

section \<open>Words\<close>

lemma unat_inc:
  fixes x :: "'a::len word"
  assumes "x \<noteq> - 1"
  shows "unat (x + 1) = Suc (unat x)"
proof -
  have "1 + x \<noteq> 0" using assms by (metis add_eq_0_iff minus_minus)
  then show ?thesis by (simp add: unatSuc add.commute)
qed

lemma unat_dec: "x \<noteq> 0 \<Longrightarrow> unat (x - 1) = unat (x :: 'a::len word) - 1"
  by (simp add: unat_minus_one)

lemma word_gt_1: "1 < x \<longleftrightarrow> 1 < unat (x :: u32)"
  by (simp add: word_less_nat_alt)

lemma unat_max_u32 [simp]: "unat (- 1 :: u32) = 4294967295"
  by (simp add: unsigned_minus_1_eq_mask mask_eq_exp_minus_1)

lemma u32_no_wrap: "unat (c :: u32) < 4294967295 \<Longrightarrow> c \<noteq> - 1"
  by auto

lemma u32_wrap_bound: "c \<noteq> - 1 \<Longrightarrow> unat (c :: u32) < 4294967295"
  using unsigned_less[of c, where 'a = nat] word_unat_eq_iff[of c "- 1"] by simp

lemma u32_inc_nonzero: "c \<noteq> - 1 \<Longrightarrow> c + 1 \<noteq> (0 :: u32)"
  by (metis add.commute add_eq_0_iff minus_minus)

lemma u32_one: "c \<noteq> 0 \<Longrightarrow> \<not> 1 < c \<Longrightarrow> unat (c :: u32) = 1"
  using unat_eq_0[of c] by (simp add: word_gt_1 del: unat_eq_0)

lemma unat_u32_less: "unat (x :: u32) < 4294967296"
  using unsigned_less[of x, where 'a = nat] by simp

lemma unat_ucast_u64: "unat (ucast (x :: u32) :: u64) = unat x"
proof -
  have "unat x < 2 ^ 64" using unat_u32_less[of x] by simp
  then have "take_bit 64 (unat x) = unat x" by (rule take_bit_nat_eq_self)
  then show ?thesis by (simp add: unsigned_ucast_eq)
qed

section \<open>Runs of operations\<close>

text \<open>
  A component's API as a step function that may fault, run over a list of calls; \<open>ok\<close> is what
  the caller and the environment owe at each call.
\<close>

fun run_steps :: "('e \<Rightarrow> 's \<Rightarrow> 's option) \<Rightarrow> 'e list \<Rightarrow> 's \<Rightarrow> 's option" where
  "run_steps step [] s = Some s"
| "run_steps step (e # es) s = (case step e s of None \<Rightarrow> None | Some s' \<Rightarrow> run_steps step es s')"

fun run_ok :: "('e \<Rightarrow> 's \<Rightarrow> 's option) \<Rightarrow> ('e \<Rightarrow> 's \<Rightarrow> bool) \<Rightarrow> 'e list \<Rightarrow> 's \<Rightarrow> bool" where
  "run_ok step ok [] s = True"
| "run_ok step ok (e # es) s = (ok e s \<and> (case step e s of None \<Rightarrow> True | Some s' \<Rightarrow> run_ok step ok es s'))"

text \<open>
  The contract of such an API: a call that is in order does not fault and keeps the invariant.
  Then no run of such calls faults, and every state it reaches satisfies the invariant.
\<close>

locale guarded_api =
  fixes step :: "'e \<Rightarrow> 's \<Rightarrow> 's option"
    and ok :: "'e \<Rightarrow> 's \<Rightarrow> bool"
    and inv :: "'s \<Rightarrow> bool"
  assumes step_safe: "inv s \<Longrightarrow> ok e s \<Longrightarrow> \<exists>s'. step e s = Some s' \<and> inv s'"
begin

lemma run_safe: "inv s \<Longrightarrow> run_ok step ok es s \<Longrightarrow> \<exists>s'. run_steps step es s = Some s' \<and> inv s'"
proof (induction es arbitrary: s)
  case (Cons e es)
  from Cons.prems have "inv s" "ok e s" by simp_all
  from step_safe[OF this] obtain s1 where "step e s = Some s1" "inv s1" by blast
  with Cons show ?case by simp
qed simp

end

end
