(* ===== verification/RTMemObj.thy ===== *)
theory RTMemObj
  imports SupPrelude "HOL-Library.Multiset"
begin

text \<open>
  IPRT ring-0 memory objects (\<open>src/VBox/Runtime/r0drv/memobj-r0drv.cpp\<close>): handles for
  allocated or locked memory and for mappings of it.  A mapping handle is a child of the
  handle it maps and is listed there; freeing the parent with \<open>fFreeMappings\<close> releases the
  native mappings of the children.  The OS specific workers (\<open>rtR0MemObjNative*\<close>) are
  parameters: their status, and for allocations the object they deliver.

  \<open>mo_live\<close> records whether the native resource behind a handle is still there: a second
  \<open>rtR0MemObjNativeFree\<close> of the same object is a fault, as is any use of a freed handle.
\<close>

datatype RTR0MEMOBJTYPE = MO_PAGE | MO_LOW | MO_CONT | MO_LOCK | MO_PHYS | MO_PHYS_NC | MO_RES_VIRT | MO_MAPPING

record RTR0MEMOBJINTERNAL =
  mo_enmType :: RTR0MEMOBJTYPE
  mo_cb :: u64
  mo_pv :: addr
  mo_papMappings :: "addr list"   \<comment> \<open>\<open>uRel.Parent\<close>; the last one is the newest\<close>
  mo_cMappingsAllocated :: u32
  mo_pParent :: addr              \<comment> \<open>\<open>uRel.Child\<close>\<close>
  mo_R0Process :: u64             \<comment> \<open>of \<open>u.Lock\<close>, \<open>u.ResVirt\<close>, \<open>u.Mapping\<close>\<close>
  mo_aPhys :: "u64 \<Rightarrow> u64"       \<comment> \<open>what \<open>rtR0MemObjNativeGetPagePhysAddr\<close> answers, per page\<close>
  mo_fProtChanged :: bool         \<comment> \<open>\<open>RTR0MEMOBJ_FLAGS_PROT_CHANGED\<close>\<close>
  mo_live :: bool

type_synonym memobjs = "addr \<rightharpoonup> RTR0MEMOBJINTERNAL"

abbreviation "NIL_RTR0MEMOBJ \<equiv> (0::addr)"
abbreviation "NIL_RTR0PROCESS \<equiv> (- 1::u64)"
abbreviation "NIL_RTHCPHYS \<equiv> (- 1::u64)"
abbreviation "VERR_MEMORY_BUSY \<equiv> (-67::rc)"

definition rtR0MemObjIsMapping :: "RTR0MEMOBJINTERNAL \<Rightarrow> bool" where
  "rtR0MemObjIsMapping m \<longleftrightarrow> mo_enmType m = MO_MAPPING"

section \<open>Accessors\<close>

text \<open>
  Every accessor answers a harmless value for \<open>NIL\<close> and for pointers that are not valid, and
  otherwise dereferences the handle.
\<close>

definition RTR0MemObjAddress :: "memobjs \<Rightarrow> addr \<Rightarrow> addr option" where
  "RTR0MemObjAddress h MemObj =
     (if MemObj = NIL_RTR0MEMOBJ \<or> \<not> RT_VALID_PTR MemObj then Some 0
      else map_option mo_pv (h MemObj))"

definition RTR0MemObjAddressR3 :: "memobjs \<Rightarrow> addr \<Rightarrow> addr option" where
  "RTR0MemObjAddressR3 h MemObj =
     (if MemObj = NIL_RTR0MEMOBJ \<or> \<not> RT_VALID_PTR MemObj then Some 0
      else do {
        m \<leftarrow> h MemObj;
        if (mo_enmType m \<noteq> MO_MAPPING \<or> mo_R0Process m = NIL_RTR0PROCESS)
           \<and> (mo_enmType m \<noteq> MO_LOCK \<or> mo_R0Process m = NIL_RTR0PROCESS)
           \<and> (mo_enmType m \<noteq> MO_PHYS_NC \<or> mo_R0Process m = NIL_RTR0PROCESS)
           \<and> (mo_enmType m \<noteq> MO_RES_VIRT \<or> mo_R0Process m = NIL_RTR0PROCESS)
        then Some 0
        else Some (mo_pv m)
      })"

definition RTR0MemObjSize :: "memobjs \<Rightarrow> addr \<Rightarrow> u64 option" where
  "RTR0MemObjSize h MemObj =
     (if MemObj = NIL_RTR0MEMOBJ \<or> \<not> RT_VALID_PTR MemObj then Some 0
      else map_option mo_cb (h MemObj))"

definition RTR0MemObjGetPagePhysAddr :: "memobjs \<Rightarrow> addr \<Rightarrow> u64 \<Rightarrow> u64 option" where
  "RTR0MemObjGetPagePhysAddr h MemObj iPage =
     (if \<not> RT_VALID_PTR MemObj then Some NIL_RTHCPHYS
      else do {
        m \<leftarrow> h MemObj;
        if iPage \<ge> drop_bit 12 (mo_cb m) then Some NIL_RTHCPHYS
        else Some (mo_aPhys m iPage)
      })"

section \<open>Freeing\<close>

text \<open>The native free of one object: a fault when the resource is gone already.\<close>

definition native_free :: "(addr \<Rightarrow> rc) \<Rightarrow> addr \<Rightarrow> memobjs \<Rightarrow> (rc \<times> memobjs) option" where
  "native_free nf p h = do {
     m \<leftarrow> h p;
     if \<not> mo_live m then None
     else if RT_SUCCESS (nf p) then Some (nf p, h(p \<mapsto> m\<lparr>mo_live := False\<rparr>))
     else Some (nf p, h)
   }"

text \<open>
  The loop over the mappings, newest first (the argument is the reversed array): it stops at
  the first native free that fails and leaves that child and the older ones in the array.
\<close>

fun free_mappings :: "(addr \<Rightarrow> rc) \<Rightarrow> addr list \<Rightarrow> memobjs \<Rightarrow> (rc \<times> addr list \<times> memobjs) option" where
  "free_mappings nf [] h = Some (VINF_SUCCESS, [], h)"
| "free_mappings nf (c # cs) h = do {
     (r, h1) \<leftarrow> native_free nf c h;
     if RT_FAILURE r then Some (r, c # cs, h1) else free_mappings nf cs h1
   }"

text \<open>
  Removing a freed mapping from its parent's array: searched from the end, the hole is filled
  with the last entry.
\<close>

definition swap_remove :: "addr \<Rightarrow> addr list \<Rightarrow> addr list" where
  "swap_remove p xs = (case dropWhile (\<lambda>x. x \<noteq> p) (rev xs) of
       [] \<Rightarrow> xs
     | _ # before \<Rightarrow>
         (let i = length before in
          if i = length xs - 1 then butlast xs else butlast (xs[i := last xs])))"

definition RTR0MemObjFree :: "(addr \<Rightarrow> rc) \<Rightarrow> addr \<Rightarrow> bool \<Rightarrow> memobjs \<Rightarrow> (rc \<times> memobjs) option" where
  "RTR0MemObjFree nf MemObj fFreeMappings h =
     (if MemObj = NIL_RTR0MEMOBJ then Some (VINF_SUCCESS, h)
      else if \<not> RT_VALID_PTR MemObj then Some (VERR_INVALID_HANDLE, h)
      else do {
        m \<leftarrow> h MemObj;
        if \<not> rtR0MemObjIsMapping m \<and> mo_papMappings m \<noteq> [] \<and> \<not> fFreeMappings
        then Some (VERR_MEMORY_BUSY, h)
        else do {
          (r, left, h1) \<leftarrow> (if \<not> rtR0MemObjIsMapping m then free_mappings nf (rev (mo_papMappings m)) h
                         else Some (VINF_SUCCESS, [], h));
          m1 \<leftarrow> h1 MemObj;
          let h2 = (if rtR0MemObjIsMapping m then h1 else h1(MemObj \<mapsto> m1\<lparr>mo_papMappings := rev left\<rparr>));
          if RT_FAILURE r then Some (r, h2)
          else do {
            (r', h3) \<leftarrow> native_free nf MemObj h2;
            if RT_FAILURE r' then Some (r', h3)
            else if rtR0MemObjIsMapping m then do {
              par \<leftarrow> h3 (mo_pParent m);
              Some (r', (h3(mo_pParent m \<mapsto> par\<lparr>mo_papMappings := swap_remove MemObj (mo_papMappings par)\<rparr>))
                          (MemObj := None))
            }
            else Some (r', h3(MemObj := None))
          }
        }
      })"

section \<open>Allocating and mapping\<close>

text \<open>
  \<open>rtR0MemObjNew\<close> as the native allocators use it: a fresh handle \<open>p\<close> for a live object with
  no mappings.  \<open>p = 0\<close> stands for an allocator that failed.
\<close>

definition memobj_new :: "RTR0MEMOBJTYPE \<Rightarrow> u64 \<Rightarrow> addr \<Rightarrow> u64 \<Rightarrow> (u64 \<Rightarrow> u64) \<Rightarrow> RTR0MEMOBJINTERNAL" where
  "memobj_new ty cb pv proc phys =
     \<lparr>mo_enmType = ty, mo_cb = cb, mo_pv = pv, mo_papMappings = [], mo_cMappingsAllocated = 0, mo_pParent = 0,
      mo_R0Process = proc, mo_aPhys = phys, mo_fProtChanged = False,
      mo_live = True\<rparr>"

text \<open>The allocating functions: the native status \<open>r\<close>, and on success the handle \<open>p\<close> of the object \<open>m\<close>.\<close>

definition memobj_alloc :: "rc \<Rightarrow> addr \<Rightarrow> RTR0MEMOBJINTERNAL \<Rightarrow> memobjs \<Rightarrow> rc \<times> addr \<times> memobjs" where
  "memobj_alloc r p m h = (if RT_FAILURE r then (r, NIL_RTR0MEMOBJ, h) else (r, p, h(p \<mapsto> m)))"

text \<open>\<open>rtR0MemObjLink\<close>; \<open>fGrow\<close> is whether \<open>RTMemRealloc\<close> succeeds when the array must grow.\<close>

definition rtR0MemObjLink :: "addr \<Rightarrow> addr \<Rightarrow> bool \<Rightarrow> memobjs \<Rightarrow> (rc \<times> memobjs) option" where
  "rtR0MemObjLink pParent pChild fGrow h = do {
     par \<leftarrow> h pParent;
     ch \<leftarrow> h pChild;
     let i = length (mo_papMappings par);
     let fExpand = unat (mo_cMappingsAllocated par) \<le> i;
     if fExpand \<and> \<not> fGrow then Some (VERR_NO_MEMORY, h)
     else Some (VINF_SUCCESS, h(pParent \<mapsto> par\<lparr>mo_papMappings := mo_papMappings par @ [pChild],
                                  mo_cMappingsAllocated := (if fExpand then of_nat (i + 32)
                                                            else mo_cMappingsAllocated par)\<rparr>,
                                pChild \<mapsto> ch\<lparr>mo_pParent := pParent\<rparr>))
   }"

text \<open>
  The common part of \<open>RTR0MemObjMapUser\<close> and \<open>RTR0MemObjMapKernelEx\<close> after their argument
  checks: the native mapping (status \<open>r\<close>, handle \<open>p\<close>, object \<open>m\<close>), then the link to the
  parent, undone when it fails.  Returns the status, the new handle (0 when none) and the heap.
\<close>

definition memobj_map :: "rc \<Rightarrow> addr \<Rightarrow> RTR0MEMOBJINTERNAL \<Rightarrow> bool \<Rightarrow> addr \<Rightarrow> memobjs \<Rightarrow> (rc \<times> addr \<times> memobjs) option" where
  "memobj_map r p m fGrow MemObjToMap h =
     (if \<not> RT_VALID_PTR MemObjToMap then Some (VERR_INVALID_HANDLE, 0, h)
      else do {
        par \<leftarrow> h MemObjToMap;
        if rtR0MemObjIsMapping par \<or> mo_enmType par = MO_RES_VIRT then Some (VERR_INVALID_PARAMETER, 0, h)
        else if RT_FAILURE r then Some (r, 0, h)
        else do {
          (r', h1) \<leftarrow> rtR0MemObjLink MemObjToMap p fGrow (h(p \<mapsto> m));
          if RT_SUCCESS r' then Some (r', p, h1) else Some (r', 0, h)
        }
      })"

text \<open>
  \<open>RTR0MemObjMapKernelEx\<close> with the driver's arguments: any address, page alignment, a
  protection it accepts; the checks of offset and size, then the common part.
\<close>

definition RTR0MemObjMapKernelEx ::
  "rc \<Rightarrow> addr \<Rightarrow> RTR0MEMOBJINTERNAL \<Rightarrow> bool \<Rightarrow> addr \<Rightarrow> u64 \<Rightarrow> u64 \<Rightarrow> memobjs \<Rightarrow> (rc \<times> addr \<times> memobjs) option" where
  "RTR0MemObjMapKernelEx r p m fGrow MemObjToMap offSub cbSub h =
     (if \<not> RT_VALID_PTR MemObjToMap then Some (VERR_INVALID_HANDLE, 0, h)
      else do {
        par \<leftarrow> h MemObjToMap;
        if rtR0MemObjIsMapping par \<or> mo_enmType par = MO_RES_VIRT then Some (VERR_INVALID_PARAMETER, 0, h)
        else if offSub AND 0xfff \<noteq> 0 then Some (VERR_INVALID_PARAMETER, 0, h)
        else if \<not> offSub < mo_cb par then Some (VERR_INVALID_PARAMETER, 0, h)
        else if cbSub AND 0xfff \<noteq> 0 then Some (VERR_INVALID_PARAMETER, 0, h)
        else if \<not> cbSub \<le> mo_cb par then Some (VERR_INVALID_PARAMETER, 0, h)
        else if \<not> (offSub = 0 \<and> cbSub = 0 \<or> offSub + cbSub \<le> mo_cb par) then Some (VERR_INVALID_PARAMETER, 0, h)
        else memobj_map r p m fGrow MemObjToMap h
      })"

section \<open>Protection\<close>

definition rtR0MemObjIsProtectable :: "RTR0MEMOBJINTERNAL \<Rightarrow> bool" where
  "rtR0MemObjIsProtectable m \<longleftrightarrow> mo_enmType m \<in> {MO_PAGE, MO_LOW, MO_CONT, MO_MAPPING}"

text \<open>\<open>r\<close> is the status of \<open>rtR0MemObjNativeProtect\<close>.\<close>

definition RTR0MemObjProtect :: "rc \<Rightarrow> addr \<Rightarrow> u64 \<Rightarrow> u64 \<Rightarrow> u32 \<Rightarrow> memobjs \<Rightarrow> (rc \<times> memobjs) option" where
  "RTR0MemObjProtect r MemObj offSub cbSub fProt h =
     (if \<not> RT_VALID_PTR MemObj then Some (VERR_INVALID_HANDLE, h)
      else do {
        m \<leftarrow> h MemObj;
        if \<not> rtR0MemObjIsProtectable m then Some (VERR_INVALID_PARAMETER, h)
        else if offSub AND 0xfff \<noteq> 0 then Some (VERR_INVALID_PARAMETER, h)
        else if \<not> offSub < mo_cb m then Some (VERR_INVALID_PARAMETER, h)
        else if cbSub AND 0xfff \<noteq> 0 then Some (VERR_INVALID_PARAMETER, h)
        else if \<not> cbSub \<le> mo_cb m then Some (VERR_INVALID_PARAMETER, h)
        else if \<not> offSub + cbSub \<le> mo_cb m then Some (VERR_INVALID_PARAMETER, h)
        else if fProt AND NOT 7 \<noteq> 0 then Some (VERR_INVALID_PARAMETER, h)
        else if RT_SUCCESS r then Some (r, h(MemObj \<mapsto> m\<lparr>mo_fProtChanged := True\<rparr>))
        else Some (r, h)
      })"

section \<open>The heap of memory objects\<close>

text \<open>
  Well-formed: a handle that is no mapping has its native resource and lists, once each, the
  live mappings made of it; a live mapping is listed by its parent.  A mapping whose native
  resource is gone is a handle that was left behind when its parent was freed with
  \<open>fFreeMappings\<close>; nothing is promised of its parent.
\<close>

definition is_child :: "memobjs \<Rightarrow> addr \<Rightarrow> addr \<Rightarrow> bool" where
  "is_child h p c \<longleftrightarrow> (\<exists>m. h c = Some m \<and> mo_enmType m = MO_MAPPING \<and> mo_live m \<and> mo_pParent m = p)"

definition heap_ok :: "memobjs \<Rightarrow> bool" where
  "heap_ok h \<longleftrightarrow> (\<forall>p m. h p = Some m \<longrightarrow> RT_VALID_PTR p \<and>
     (if mo_enmType m = MO_MAPPING
      then mo_live m \<longrightarrow> (\<exists>par. h (mo_pParent m) = Some par \<and> mo_enmType par \<noteq> MO_MAPPING \<and>
                                p \<in> set (mo_papMappings par))
      else mo_live m \<and> distinct (mo_papMappings m) \<and> (\<forall>c \<in> set (mo_papMappings m). is_child h p c)))"

lemma heap_ok_valid: "heap_ok h \<Longrightarrow> h p = Some m \<Longrightarrow> RT_VALID_PTR p"
  by (simp add: heap_ok_def)

lemma heap_ok_object:
  "heap_ok h \<Longrightarrow> h p = Some m \<Longrightarrow> mo_enmType m \<noteq> MO_MAPPING \<Longrightarrow>
   mo_live m \<and> distinct (mo_papMappings m) \<and> (\<forall>c \<in> set (mo_papMappings m). is_child h p c)"
  by (simp add: heap_ok_def)

lemma heap_ok_mapping:
  "heap_ok h \<Longrightarrow> h p = Some m \<Longrightarrow> mo_enmType m = MO_MAPPING \<Longrightarrow> mo_live m \<Longrightarrow>
   \<exists>par. h (mo_pParent m) = Some par \<and> mo_enmType par \<noteq> MO_MAPPING \<and> p \<in> set (mo_papMappings par)"
  by (simp add: heap_ok_def)

lemma memobj_new_simps [simp]:
  "mo_enmType (memobj_new ty cb pv pr ph) = ty" "mo_cb (memobj_new ty cb pv pr ph) = cb"
  "mo_pv (memobj_new ty cb pv pr ph) = pv" "mo_papMappings (memobj_new ty cb pv pr ph) = []"
  "mo_pParent (memobj_new ty cb pv pr ph) = 0" "mo_live (memobj_new ty cb pv pr ph)"
  "mo_R0Process (memobj_new ty cb pv pr ph) = pr" "mo_aPhys (memobj_new ty cb pv pr ph) = ph"
  by (simp_all add: memobj_new_def)

lemma swap_remove_split:
  assumes "p \<notin> set zs"
  shows "swap_remove p (ys @ p # zs) = (if zs = [] then ys else ys @ last zs # butlast zs)"
proof -
  have d: "dropWhile (\<lambda>x. x \<noteq> p) (rev zs @ p # rev ys) = p # rev ys"
    using assms by (subst dropWhile_append2) auto
  show ?thesis
  proof (cases "zs = []")
    case False
    then have "butlast ((ys @ p # zs)[length ys := last zs]) = ys @ last zs # butlast zs"
      by (simp add: butlast_append)
    with False d show ?thesis by (simp add: swap_remove_def)
  qed (use d in \<open>simp add: swap_remove_def\<close>)
qed

lemma mset_swap_remove: "p \<in> set xs \<Longrightarrow> mset (swap_remove p xs) = mset xs - {#p#}"
proof -
  assume "p \<in> set xs"
  then obtain ys zs where xs: "xs = ys @ p # zs" "p \<notin> set zs"
    by (meson split_list_last)
  show ?thesis
  proof (cases "zs = []")
    case False
    then have "mset zs = add_mset (last zs) (mset (butlast zs))"
      by (metis append_butlast_last_id mset.simps(1) mset.simps(2) mset_append union_mset_add_mset_right add.right_neutral)
    with False xs show ?thesis by (simp add: swap_remove_split)
  qed (use xs in \<open>simp add: swap_remove_split\<close>)
qed

lemma swap_remove_distinct:
  assumes "p \<in> set xs" "distinct xs"
  shows "distinct (swap_remove p xs)" "set (swap_remove p xs) = set xs - {p}"
proof -
  have m: "mset (swap_remove p xs) = mset (remove1 p xs)"
    using assms(1) by (simp add: mset_swap_remove)
  from mset_eq_setD[OF m] assms show "set (swap_remove p xs) = set xs - {p}" by simp
  from mset_eq_imp_distinct_iff[OF m] assms show "distinct (swap_remove p xs)" by simp
qed

section \<open>Freeing never releases a native resource twice\<close>

text \<open>The handles of \<open>gone\<close> with their native resources released.\<close>

definition kill :: "addr set \<Rightarrow> memobjs \<Rightarrow> memobjs" where
  "kill gone h = (\<lambda>q. if q \<in> gone then map_option (mo_live_update (\<lambda>_. False)) (h q) else h q)"

lemma kill_empty [simp]: "kill {} h = h"
  by (simp add: kill_def)

lemma kill_other [simp]: "q \<notin> gone \<Longrightarrow> kill gone h q = h q"
  by (simp add: kill_def)

lemma kill_eq_None [simp]: "kill gone h q = None \<longleftrightarrow> h q = None"
  by (simp add: kill_def)

lemma free_mappings_kill:
  assumes "distinct cs" "\<forall>c \<in> set cs. is_child h p c"
  shows "\<exists>r gone left. cs = gone @ left \<and> free_mappings nf cs h = Some (r, left, kill (set gone) h) \<and>
    (if RT_SUCCESS r then left = [] else left \<noteq> [])"
  using assms
proof (induction cs arbitrary: h)
  case (Cons c cs)
  from Cons.prems(2) obtain m where c: "h c = Some m" "mo_live m" by (auto simp: is_child_def)
  show ?case
  proof (cases "RT_SUCCESS (nf c)")
    case False
    with c show ?thesis by (intro exI[of _ "nf c"] exI[of _ "[]"] exI[of _ "c # cs"])
         (simp add: native_free_def)
  next
    case True
    let ?h = "h(c \<mapsto> m\<lparr>mo_live := False\<rparr>)"
    have "\<forall>d \<in> set cs. is_child ?h p d" using Cons.prems by (auto simp: is_child_def)
    moreover have "distinct cs" using Cons.prems(1) by simp
    ultimately obtain r gone left where
      f: "cs = gone @ left" "free_mappings nf cs ?h = Some (r, left, kill (set gone) ?h)"
         "if RT_SUCCESS r then left = [] else left \<noteq> []" using Cons.IH[of ?h] by blast
    have "kill (set gone) ?h = kill (set (c # gone)) h"
      using c by (auto simp: kill_def)
    with f c True show ?thesis
      by (intro exI[of _ r] exI[of _ "c # gone"] exI[of _ left]) (simp add: native_free_def)
  qed
qed (auto intro!: exI[of _ "VINF_SUCCESS"])

text \<open>
  Freeing an object: busy when it has mappings and the caller does not ask to free them;
  otherwise its mappings are released in turn and then the object itself, or the call stops at
  the first native failure with everything not yet released still in place.
\<close>

lemma RTR0MemObjFree_object:
  assumes ok: "heap_ok h" and m: "h p = Some m" "mo_enmType m \<noteq> MO_MAPPING"
  shows "\<exists>r gone left. mo_papMappings m = left @ gone \<and>
    (if RT_SUCCESS r
     then left = [] \<and> RTR0MemObjFree nf p fFree h = Some (r, (kill (set gone) h)(p := None))
     else RTR0MemObjFree nf p fFree h =
       Some (r, (kill (set gone) h)(p \<mapsto> m\<lparr>mo_papMappings := left\<rparr>)))"
proof -
  let ?ms = "mo_papMappings m"
  from heap_ok_object[OF ok m] have live: "mo_live m" "distinct (rev ?ms)" "\<forall>c \<in> set (rev ?ms). is_child h p c"
    by auto
  from ok m(1) have p: "RT_VALID_PTR p" "p \<noteq> 0" by (auto dest: heap_ok_valid)
  from free_mappings_kill[OF live(2,3), of nf] obtain r gone left where
    f: "rev ?ms = gone @ left" "free_mappings nf (rev ?ms) h = Some (r, left, kill (set gone) h)"
       "if RT_SUCCESS r then left = [] else left \<noteq> []" by blast
  have "p \<notin> set gone"
  proof
    assume "p \<in> set gone"
    then have "p \<in> set (rev ?ms)" using f(1) by simp
    with live(3) m show False by (auto simp: is_child_def)
  qed
  then have kp: "kill (set gone) h p = Some m" using m(1) by simp
  have ms: "?ms = rev left @ rev gone" using f(1) by (metis rev_append rev_rev_ident)
  show ?thesis
  proof (cases "?ms \<noteq> [] \<and> \<not> fFree")
    case True
    then have "RTR0MemObjFree nf p fFree h = Some (VERR_MEMORY_BUSY, h)"
      using p m by (simp add: RTR0MemObjFree_def rtR0MemObjIsMapping_def)
    with m(1) show ?thesis
      by (intro exI[of _ VERR_MEMORY_BUSY] exI[of _ "[]"] exI[of _ ?ms]) (auto simp: fun_eq_iff)
  next
    case nb: False
    show ?thesis
    proof (cases "RT_SUCCESS r")
      case False
      with nb p m f kp ms show ?thesis
        by (intro exI[of _ r] exI[of _ "rev gone"] exI[of _ "rev left"])
           (auto simp: RTR0MemObjFree_def rtR0MemObjIsMapping_def Let_def)
    next
      case True
      with nb p m f kp ms live(1) show ?thesis
        by (intro exI[of _ "nf p"] exI[of _ "rev gone"] exI[of _ "rev left"])
           (auto simp: RTR0MemObjFree_def rtR0MemObjIsMapping_def native_free_def Let_def fun_eq_iff)
    qed
  qed
qed

text \<open>Freeing a live mapping: it leaves its parent's list, or the native free failed.\<close>

lemma RTR0MemObjFree_mapping:
  assumes ok: "heap_ok h" and m: "h p = Some m" "mo_enmType m = MO_MAPPING" "mo_live m"
    and par: "h (mo_pParent m) = Some par"
  shows "RTR0MemObjFree nf p fFree h = (if RT_SUCCESS (nf p)
     then Some (nf p, h(mo_pParent m \<mapsto> par\<lparr>mo_papMappings := swap_remove p (mo_papMappings par)\<rparr>, p := None))
     else Some (nf p, h))"
proof -
  from ok m(1) have "RT_VALID_PTR p" "p \<noteq> 0" by (auto dest: heap_ok_valid)
  moreover from heap_ok_mapping[OF ok m] par m have "p \<noteq> mo_pParent m" by auto
  ultimately show ?thesis using m par
    by (auto simp: RTR0MemObjFree_def rtR0MemObjIsMapping_def native_free_def Let_def fun_eq_iff)
qed

text \<open>What either way of freeing keeps of the heap.\<close>

lemma heap_ok_free_object:
  assumes ok: "heap_ok h" and m: "h p = Some m" "mo_enmType m \<noteq> MO_MAPPING"
    and ms: "mo_papMappings m = left @ gone"
    and h': "h' = (if fDone then (kill (set gone) h)(p := None)
                   else (kill (set gone) h)(p \<mapsto> m\<lparr>mo_papMappings := left\<rparr>))"
    and left: "fDone \<Longrightarrow> left = []"
  shows "heap_ok h'"
  unfolding heap_ok_def
proof (intro allI impI)
  fix q mq assume q: "h' q = Some mq"
  from heap_ok_object[OF ok m] ms have
    o: "mo_live m" "distinct left" "\<And>c. c \<in> set left \<Longrightarrow> is_child h p c \<and> c \<notin> set gone"
       "\<And>c. c \<in> set gone \<Longrightarrow> is_child h p c" by auto
  then have pg: "p \<notin> set gone" using m o(4)[of p] by (auto simp: is_child_def)
  have not_gone: "is_child h' b c" if "is_child h b c" "c \<notin> set gone" for b c
    using that m h' by (auto simp: is_child_def split: if_splits)
  show "RT_VALID_PTR q \<and> (if mo_enmType mq = MO_MAPPING
      then mo_live mq \<longrightarrow> (\<exists>par. h' (mo_pParent mq) = Some par \<and> mo_enmType par \<noteq> MO_MAPPING \<and>
                                 q \<in> set (mo_papMappings par))
      else mo_live mq \<and> distinct (mo_papMappings mq) \<and> (\<forall>c \<in> set (mo_papMappings mq). is_child h' q c))"
  proof (cases "q = p")
    case True
    with q h' have "mq = m\<lparr>mo_papMappings := left\<rparr>" by (auto split: if_splits)
    with True m o(1-3) ok show ?thesis by (auto dest: heap_ok_valid intro!: not_gone)
  next
    case False
    then obtain m0 where m0: "h q = Some m0" and mq: "mq = (if q \<in> set gone then m0\<lparr>mo_live := False\<rparr> else m0)"
      using q h' by (auto simp: kill_def split: if_splits)
    have v: "RT_VALID_PTR q" using ok m0 by (rule heap_ok_valid)
    show ?thesis
    proof (cases "q \<in> set gone")
      case True
      with o(4)[of q] m0 have "mo_enmType m0 = MO_MAPPING" by (auto simp: is_child_def)
      with True mq v show ?thesis by simp
    next
      case q2: False
      show ?thesis
      proof (cases "mo_enmType m0 = MO_MAPPING")
        case True
        have "\<exists>par. h' (mo_pParent m0) = Some par \<and> mo_enmType par \<noteq> MO_MAPPING \<and> q \<in> set (mo_papMappings par)"
          if "mo_live m0"
        proof -
          from heap_ok_mapping[OF ok m0 True that] obtain par where
            par: "h (mo_pParent m0) = Some par" "mo_enmType par \<noteq> MO_MAPPING" "q \<in> set (mo_papMappings par)"
            by blast
          then have "mo_pParent m0 \<notin> set gone" using o(4)[of "mo_pParent m0"] by (auto simp: is_child_def)
          with par q2 h' m ms left show ?thesis by (cases "mo_pParent m0 = p") auto
        qed
        with True q2 mq v show ?thesis by simp
      next
        case nm: False
        from heap_ok_object[OF ok m0 nm] have c: "mo_live m0" "distinct (mo_papMappings m0)"
          "\<And>c. c \<in> set (mo_papMappings m0) \<Longrightarrow> is_child h q c" by auto
        have "c \<notin> set gone" if "c \<in> set (mo_papMappings m0)" for c
          using c(3)[OF that] o(4)[of c] False by (auto simp: is_child_def)
        with c nm q2 mq v show ?thesis by (auto intro: not_gone)
      qed
    qed
  qed
qed

lemma heap_ok_free_mapping:
  assumes ok: "heap_ok h" and m: "h p = Some m" "mo_enmType m = MO_MAPPING" "mo_live m"
    and par: "h (mo_pParent m) = Some par"
  shows "heap_ok (h(mo_pParent m \<mapsto> par\<lparr>mo_papMappings := swap_remove p (mo_papMappings par)\<rparr>, p := None))"
    (is "heap_ok ?h")
  unfolding heap_ok_def
proof (intro allI impI)
  fix q mq assume q: "?h q = Some mq"
  from heap_ok_mapping[OF ok m] par have p: "mo_enmType par \<noteq> MO_MAPPING" "p \<in> set (mo_papMappings par)"
    by auto
  from heap_ok_object[OF ok par p(1)] have d: "mo_live par" "distinct (mo_papMappings par)"
    "\<And>c. c \<in> set (mo_papMappings par) \<Longrightarrow> is_child h (mo_pParent m) c" by auto
  note sr = swap_remove_distinct[OF p(2) d(2)]
  have qp: "q \<noteq> p" using q by auto
  have keep: "is_child ?h b c" if "is_child h b c" "c \<noteq> p" for b c
    using that par p(1) by (auto simp: is_child_def)
  have v: "RT_VALID_PTR q" using ok q qp par by (auto dest: heap_ok_valid split: if_splits)
  have old: "if mo_enmType mq = MO_MAPPING
      then mo_live mq \<longrightarrow> (\<exists>par. ?h (mo_pParent mq) = Some par \<and> mo_enmType par \<noteq> MO_MAPPING \<and>
                                 q \<in> set (mo_papMappings par))
      else mo_live mq \<and> distinct (mo_papMappings mq) \<and> (\<forall>c \<in> set (mo_papMappings mq). is_child ?h q c)"
    if hq: "h q = Some mq" and qn: "q \<noteq> mo_pParent m"
  proof (cases "mo_enmType mq = MO_MAPPING")
    case True
    have "\<exists>par. ?h (mo_pParent mq) = Some par \<and> mo_enmType par \<noteq> MO_MAPPING \<and> q \<in> set (mo_papMappings par)"
      if "mo_live mq"
    proof -
      from heap_ok_mapping[OF ok hq True that] obtain par' where
        par': "h (mo_pParent mq) = Some par'" "mo_enmType par' \<noteq> MO_MAPPING" "q \<in> set (mo_papMappings par')"
        by blast
      then have np: "mo_pParent mq \<noteq> p" using m by auto
      show ?thesis
      proof (cases "mo_pParent mq = mo_pParent m")
        case True
        with par' par have "par' = par" by simp
        with True np p(1) par'(3) qp sr(2) show ?thesis by simp
      next
        case False
        with par' np show ?thesis by simp
      qed
    qed
    with True show ?thesis by simp
  next
    case False
    from heap_ok_object[OF ok hq False] have c: "mo_live mq" "distinct (mo_papMappings mq)"
      "\<And>c. c \<in> set (mo_papMappings mq) \<Longrightarrow> is_child h q c" by auto
    have "c \<noteq> p" if "c \<in> set (mo_papMappings mq)" for c
      using c(3)[OF that] m qn by (auto simp: is_child_def)
    then have "\<forall>c \<in> set (mo_papMappings mq). is_child ?h q c" using c(3) keep by blast
    with c(1,2) False show ?thesis by (simp only: if_False simp_thms)
  qed
  show "RT_VALID_PTR q \<and> (if mo_enmType mq = MO_MAPPING
      then mo_live mq \<longrightarrow> (\<exists>par. ?h (mo_pParent mq) = Some par \<and> mo_enmType par \<noteq> MO_MAPPING \<and>
                                 q \<in> set (mo_papMappings par))
      else mo_live mq \<and> distinct (mo_papMappings mq) \<and> (\<forall>c \<in> set (mo_papMappings mq). is_child ?h q c))"
  proof (cases "q = mo_pParent m")
    case True
    with q qp have "mq = par\<lparr>mo_papMappings := swap_remove p (mo_papMappings par)\<rparr>" by auto
    moreover have "\<forall>c \<in> set (swap_remove p (mo_papMappings par)). is_child ?h q c"
      using True sr(2) d(3) keep by blast
    ultimately show ?thesis using v d(1) sr(1) p(1) by (simp del: fun_upd_apply)
  next
    case False
    with q qp v old show ?thesis by auto
  qed
qed

text \<open>New objects and new mappings.\<close>

lemma heap_ok_new:
  assumes "heap_ok h" "h p = None" "RT_VALID_PTR p" "ty \<noteq> MO_MAPPING"
  shows "heap_ok (h(p \<mapsto> memobj_new ty cb pv pr ph))"
  using assms unfolding heap_ok_def is_child_def
  by (auto split: if_splits) (metis option.distinct(1))+

lemma heap_ok_map:
  assumes ok: "heap_ok h" and fresh: "h p = None" "RT_VALID_PTR p"
    and m: "mo_enmType m = MO_MAPPING" "mo_live m"
    and par: "h q = Some par" "mo_enmType par \<noteq> MO_MAPPING"
  shows "heap_ok (h(q \<mapsto> par\<lparr>mo_papMappings := mo_papMappings par @ [p], mo_cMappingsAllocated := n\<rparr>,
                    p \<mapsto> m\<lparr>mo_pParent := q\<rparr>))" (is "heap_ok ?h")
  unfolding heap_ok_def
proof (intro allI impI)
  fix x mx assume x: "?h x = Some mx"
  have qp: "q \<noteq> p" using par fresh by auto
  from heap_ok_object[OF ok par] have d: "mo_live par" "distinct (mo_papMappings par)"
    "\<And>c. c \<in> set (mo_papMappings par) \<Longrightarrow> is_child h q c" by auto
  then have pn: "p \<notin> set (mo_papMappings par)" using fresh d(3)[of p] by (auto simp: is_child_def)
  have keep: "is_child ?h b c" if "is_child h b c" for b c
    using that par fresh by (auto simp: is_child_def)
  have new: "is_child ?h q p" using m by (simp add: is_child_def)
  have v: "RT_VALID_PTR x" using ok x par fresh by (auto dest: heap_ok_valid split: if_splits)
  have old: "if mo_enmType mx = MO_MAPPING
      then mo_live mx \<longrightarrow> (\<exists>par. ?h (mo_pParent mx) = Some par \<and> mo_enmType par \<noteq> MO_MAPPING \<and>
                                 x \<in> set (mo_papMappings par))
      else mo_live mx \<and> distinct (mo_papMappings mx) \<and> (\<forall>c \<in> set (mo_papMappings mx). is_child ?h x c)"
    if hx: "h x = Some mx"
  proof (cases "mo_enmType mx = MO_MAPPING")
    case True
    have "\<exists>par. ?h (mo_pParent mx) = Some par \<and> mo_enmType par \<noteq> MO_MAPPING \<and> x \<in> set (mo_papMappings par)"
      if "mo_live mx"
    proof -
      from heap_ok_mapping[OF ok hx True that] obtain par' where
        par': "h (mo_pParent mx) = Some par'" "mo_enmType par' \<noteq> MO_MAPPING" "x \<in> set (mo_papMappings par')"
        by blast
      then have "mo_pParent mx \<noteq> p" using fresh by auto
      with par' par show ?thesis by (cases "mo_pParent mx = q") simp_all
    qed
    with True show ?thesis by simp
  next
    case False
    from heap_ok_object[OF ok hx False] keep show ?thesis using False by (simp only: if_False simp_thms) blast
  qed
  show "RT_VALID_PTR x \<and> (if mo_enmType mx = MO_MAPPING
      then mo_live mx \<longrightarrow> (\<exists>par. ?h (mo_pParent mx) = Some par \<and> mo_enmType par \<noteq> MO_MAPPING \<and>
                                 x \<in> set (mo_papMappings par))
      else mo_live mx \<and> distinct (mo_papMappings mx) \<and> (\<forall>c \<in> set (mo_papMappings mx). is_child ?h x c))"
  proof (cases "x = q \<or> x = p")
    case False
    with x v old show ?thesis by (simp only: fun_upd_apply) simp
  next
    case True
    then show ?thesis
    proof
      assume "x = p"
      with x v m par qp show ?thesis by auto
    next
      assume xq: "x = q"
      with x qp have mx: "mx = par\<lparr>mo_papMappings := mo_papMappings par @ [p], mo_cMappingsAllocated := n\<rparr>"
        by simp
      have "\<forall>c \<in> set (mo_papMappings par @ [p]). is_child ?h q c" using d(3) keep new by auto
      with v d pn mx par xq show ?thesis by (simp del: fun_upd_apply)
    qed
  qed
qed

section \<open>What a client of memory objects relies on\<close>

definition obj_at :: "memobjs \<Rightarrow> addr \<Rightarrow> bool" where
  "obj_at h p \<longleftrightarrow> (\<exists>m. h p = Some m \<and> mo_enmType m \<noteq> MO_MAPPING)"

lemma obj_at_not_child: "obj_at h p \<Longrightarrow> is_child h b c \<Longrightarrow> p \<noteq> c"
  by (auto simp: obj_at_def is_child_def)

lemma is_child_parent_unique: "is_child h b c \<Longrightarrow> is_child h b' c \<Longrightarrow> b = b'"
  by (auto simp: is_child_def)

lemma obj_at_valid: "heap_ok h \<Longrightarrow> obj_at h p \<Longrightarrow> RT_VALID_PTR p"
  by (auto simp: obj_at_def dest: heap_ok_valid)

lemma is_child_valid: "heap_ok h \<Longrightarrow> is_child h b c \<Longrightarrow> RT_VALID_PTR c"
  by (auto simp: is_child_def dest: heap_ok_valid)

lemma is_child_parent: "heap_ok h \<Longrightarrow> is_child h b c \<Longrightarrow> obj_at h b"
  by (auto simp: obj_at_def is_child_def dest: heap_ok_mapping)

lemma accessors_no_fault:
  assumes "obj_at h p \<or> is_child h b p"
  shows "RTR0MemObjAddress h p \<noteq> None" "RTR0MemObjAddressR3 h p \<noteq> None"
    "RTR0MemObjSize h p \<noteq> None" "RTR0MemObjGetPagePhysAddr h p i \<noteq> None"
  using assms
  by (auto simp: RTR0MemObjAddress_def RTR0MemObjAddressR3_def RTR0MemObjSize_def
      RTR0MemObjGetPagePhysAddr_def obj_at_def is_child_def)

text \<open>Freeing a tracked handle does not fault and leaves every unrelated handle as it was.\<close>

definition keeps_others :: "addr \<Rightarrow> memobjs \<Rightarrow> memobjs \<Rightarrow> bool" where
  "keeps_others p h h' \<longleftrightarrow> (\<forall>q. obj_at h q \<longrightarrow> q \<noteq> p \<longrightarrow> obj_at h' q) \<and>
     (\<forall>b c. is_child h b c \<longrightarrow> b \<noteq> p \<longrightarrow> c \<noteq> p \<longrightarrow> is_child h' b c) \<and> (\<forall>q. h q = None \<longrightarrow> h' q = None)"

lemma keeps_others_refl [simp]: "keeps_others p h h"
  by (simp add: keeps_others_def)

lemma free_object_ok:
  assumes ok: "heap_ok h" and p: "obj_at h p"
  shows "\<exists>r h'. RTR0MemObjFree nf p fFree h = Some (r, h') \<and> heap_ok h' \<and> keeps_others p h h' \<and>
    (RT_SUCCESS r \<longrightarrow> h' p = None)"
proof -
  from p obtain m where m: "h p = Some m" "mo_enmType m \<noteq> MO_MAPPING" by (auto simp: obj_at_def)
  from RTR0MemObjFree_object[OF ok m, of nf fFree] obtain r gone left where
    g: "mo_papMappings m = left @ gone" and
    e: "if RT_SUCCESS r
        then left = [] \<and> RTR0MemObjFree nf p fFree h = Some (r, (kill (set gone) h)(p := None))
        else RTR0MemObjFree nf p fFree h = Some (r, (kill (set gone) h)(p \<mapsto> m\<lparr>mo_papMappings := left\<rparr>))"
    by blast
  define h' where "h' = (if RT_SUCCESS r then (kill (set gone) h)(p := None)
      else (kill (set gone) h)(p \<mapsto> m\<lparr>mo_papMappings := left\<rparr>))"
  have f: "RTR0MemObjFree nf p fFree h = Some (r, h')" using e by (auto simp: h'_def)
  have "heap_ok h'" by (rule heap_ok_free_object[OF ok m g h'_def]) (use e in auto)
  moreover have c: "is_child h p c" if "c \<in> set gone" for c
    using heap_ok_object[OF ok m] g that by simp
  have "obj_at h' q" if "obj_at h q" "q \<noteq> p" for q
    using that c[of q] by (auto simp: h'_def obj_at_def is_child_def kill_def)
  moreover have "is_child h' b x" if "is_child h b x" "b \<noteq> p" "x \<noteq> p" for b x
    using that c[of x] by (auto simp: h'_def is_child_def kill_def)
  ultimately show ?thesis using f m(1)
    by (intro exI[of _ r] exI[of _ h']) (auto simp: keeps_others_def h'_def)
qed

lemma free_mapping_ok:
  assumes ok: "heap_ok h" and p: "is_child h b p"
  shows "\<exists>r h'. RTR0MemObjFree nf p fFree h = Some (r, h') \<and> heap_ok h' \<and> keeps_others p h h' \<and>
    (RT_SUCCESS r \<longrightarrow> h' p = None)"
proof -
  from p obtain m where m: "h p = Some m" "mo_enmType m = MO_MAPPING" "mo_live m" "mo_pParent m = b"
    by (auto simp: is_child_def)
  from heap_ok_mapping[OF ok m(1-3)] m obtain par where
    par: "h (mo_pParent m) = Some par" "mo_enmType par \<noteq> MO_MAPPING" by auto
  note f = RTR0MemObjFree_mapping[OF ok m(1-3) par(1), of nf fFree]
  show ?thesis
  proof (cases "RT_SUCCESS (nf p)")
    case True
    with f heap_ok_free_mapping[OF ok m(1-3) par(1)] m par show ?thesis
      by (auto simp: keeps_others_def obj_at_def is_child_def)
  next
    case False
    with f ok show ?thesis by auto
  qed
qed

lemma free_ok:
  assumes ok: "heap_ok h" and p: "p = NIL_RTR0MEMOBJ \<or> obj_at h p \<or> is_child h b p"
  shows "\<exists>r h'. RTR0MemObjFree nf p fFree h = Some (r, h') \<and> heap_ok h' \<and> keeps_others p h h'"
proof (cases "p = NIL_RTR0MEMOBJ")
  case True
  with ok show ?thesis by (simp add: RTR0MemObjFree_def)
next
  case False
  with p show ?thesis using free_object_ok[OF ok] free_mapping_ok[OF ok] by blast
qed

text \<open>Allocating and mapping deliver handles a client can rely on, and disturb no others.\<close>

lemma memobj_alloc_ok:
  assumes ok: "heap_ok h" and fresh: "RT_SUCCESS r \<Longrightarrow> h p = None \<and> RT_VALID_PTR p" and ty: "ty \<noteq> MO_MAPPING"
    and a: "memobj_alloc r p (memobj_new ty cb pv pr ph) h = (r', q, h')"
  shows "r' = r \<and> heap_ok h' \<and> keeps_others 0 h h \<and> (RT_SUCCESS r \<longrightarrow> q = p \<and> obj_at h' p) \<and>
    (RT_FAILURE r \<longrightarrow> h' = h) \<and> (\<forall>q. obj_at h q \<longrightarrow> obj_at h' q) \<and> (\<forall>b c. is_child h b c \<longrightarrow> is_child h' b c) \<and>
    (\<forall>q. q \<noteq> p \<longrightarrow> h' q = h q)"
proof (cases "RT_SUCCESS r")
  case True
  with fresh heap_ok_new[OF ok _ _ ty] a ty show ?thesis
    by (auto simp: memobj_alloc_def obj_at_def is_child_def)
next
  case False
  with ok a show ?thesis by (auto simp: memobj_alloc_def)
qed

lemma memobj_map_ok:
  assumes ok: "heap_ok h" and par: "obj_at h q"
    and fresh: "RT_SUCCESS r \<Longrightarrow> h p = None \<and> RT_VALID_PTR p"
  shows "\<exists>r' c h'. memobj_map r p (memobj_new MO_MAPPING cb pv pr ph) fGrow q h = Some (r', c, h') \<and> heap_ok h' \<and>
    (if RT_SUCCESS r' then c = p \<and> is_child h' q p \<and> p \<noteq> 0 else h' = h \<and> c = 0) \<and>
    (\<forall>q. obj_at h q \<longrightarrow> obj_at h' q) \<and> (\<forall>b c. is_child h b c \<longrightarrow> is_child h' b c) \<and>
    (\<forall>x. x \<noteq> p \<longrightarrow> x \<noteq> q \<longrightarrow> h' x = h x)"
proof -
  from par obtain m where m: "h q = Some m" "mo_enmType m \<noteq> MO_MAPPING" by (auto simp: obj_at_def)
  have v: "RT_VALID_PTR q" using ok par by (rule obj_at_valid)
  let ?new = "memobj_new MO_MAPPING cb pv pr ph"
  show ?thesis
  proof (cases "mo_enmType m = MO_RES_VIRT \<or> RT_FAILURE r \<or>
      (unat (mo_cMappingsAllocated m) \<le> length (mo_papMappings m) \<and> \<not> fGrow)")
    case True
    with m v ok fresh show ?thesis
      by (auto simp: memobj_map_def rtR0MemObjIsMapping_def rtR0MemObjLink_def Let_def)
  next
    case False
    with fresh have p: "h p = None" "RT_VALID_PTR p" "p \<noteq> 0" "p \<noteq> q" using m by auto
    define n where "n = (if unat (mo_cMappingsAllocated m) \<le> length (mo_papMappings m)
      then of_nat (length (mo_papMappings m) + 32) else mo_cMappingsAllocated m)"
    define h' where "h' = h(q \<mapsto> m\<lparr>mo_papMappings := mo_papMappings m @ [p], mo_cMappingsAllocated := n\<rparr>,
      p \<mapsto> ?new\<lparr>mo_pParent := q\<rparr>)"
    have "memobj_map r p ?new fGrow q h = Some (VINF_SUCCESS, p, h')"
      using False m v p
      by (auto simp: memobj_map_def rtR0MemObjIsMapping_def rtR0MemObjLink_def Let_def n_def h'_def fun_eq_iff)
    moreover have "heap_ok h'"
      unfolding h'_def by (rule heap_ok_map[OF ok p(1,2) _ _ m]) simp_all
    ultimately show ?thesis using m p
      by (auto simp: h'_def obj_at_def is_child_def)
  qed
qed

lemma free_mappings_success:
  "\<forall>q. RT_SUCCESS (nf q) \<Longrightarrow> free_mappings nf cs h = Some (r, left, h') \<Longrightarrow> r = VINF_SUCCESS"
proof (induction cs arbitrary: h)
  case (Cons c cs)
  then have "\<not> RT_FAILURE (nf c)" by (simp add: not_less)
  with Cons show ?case by (auto simp: native_free_def split: Option.bind_splits if_splits)
qed simp

lemma RTR0MemObjFree_success:
  assumes "\<forall>q. RT_SUCCESS (nf q)" "RT_VALID_PTR p" "RTR0MemObjFree nf p True h = Some (r, h')"
  shows "RT_SUCCESS r"
proof -
  have n: "\<not> RT_FAILURE (nf q)" "RT_SUCCESS (nf q)" for q using assms(1) by (simp_all add: not_less)
  show ?thesis using assms(2,3)
    by (auto simp: RTR0MemObjFree_def native_free_def Let_def n dest!: free_mappings_success[OF assms(1)]
        split: Option.bind_splits if_splits)
qed

lemma heap_ok_flag:
  assumes "heap_ok h" "h p = Some m"
  shows "heap_ok (h(p \<mapsto> m\<lparr>mo_fProtChanged := b\<rparr>))"
proof -
  have c: "is_child (h(p \<mapsto> m\<lparr>mo_fProtChanged := b\<rparr>)) x y = is_child h x y" for x y
    using assms(2) by (auto simp: is_child_def)
  show ?thesis using assms unfolding heap_ok_def c
    by (auto split: if_splits) (metis option.inject)+
qed

lemma protect_ok:
  assumes "heap_ok h" "obj_at h p \<or> is_child h b p"
  shows "\<exists>r' h'. RTR0MemObjProtect r p off cb prot h = Some (r', h') \<and> heap_ok h' \<and>
    (\<forall>q. obj_at h q \<longrightarrow> obj_at h' q) \<and> (\<forall>b c. is_child h b c \<longrightarrow> is_child h' b c)"
proof -
  from assms obtain m where m: "h p = Some m" "RT_VALID_PTR p"
    by (auto simp: obj_at_def is_child_def dest: heap_ok_valid)
  let ?h = "h(p \<mapsto> m\<lparr>mo_fProtChanged := True\<rparr>)"
  have "obj_at h q \<Longrightarrow> obj_at ?h q" "is_child h b c \<Longrightarrow> is_child ?h b c" for q b c
    using m(1) by (auto simp: obj_at_def is_child_def)
  with m assms(1) heap_ok_flag[OF assms(1) m(1)] show ?thesis by (simp add: RTR0MemObjProtect_def)
qed

end
