(* ===== verification/RTMemObjAlloc.thy ===== *)
theory RTMemObjAlloc
  imports RTMemObj
begin

text \<open>
  The entry points of \<open>src/VBox/Runtime/r0drv/memobj-r0drv.cpp\<close> that create memory objects: each stores
  \<open>NIL\<close> in the caller's handle, checks its arguments, rounds the size up to whole pages and calls the
  native worker of the operating system, which is a parameter: from its arguments to its status, the
  address of the new object and the object.  The properties are about the rounding, whose overflow check
  is a comparison after the fact, and about what the native workers are asked for.
\<close>

section \<open>Arguments\<close>

abbreviation "PAGE_SIZE \<equiv> (0x1000::u64)"
abbreviation "PAGE_OFFSET_MASK \<equiv> (0xfff::u64)"
abbreviation "PAGE_BASE p \<equiv> p AND NOT PAGE_OFFSET_MASK"
abbreviation "RTMEM_PROT_READ \<equiv> (1::u32)"
abbreviation "RTMEM_PROT_WRITE \<equiv> (2::u32)"
abbreviation "RTMEM_PROT_EXEC \<equiv> (4::u32)"
abbreviation "RTMEM_CACHE_POLICY_DONT_CARE \<equiv> (0::u32)"
abbreviation "RTMEM_CACHE_POLICY_MMIO \<equiv> (1::u32)"
abbreviation "A_2M \<equiv> (0x200000::u64)"
abbreviation "A_4M \<equiv> (0x400000::u64)"
abbreviation "A_1G \<equiv> (0x40000000::u64)"

definition page_align :: "u64 \<Rightarrow> u64" where
  "page_align cb = (cb + PAGE_OFFSET_MASK) AND NOT PAGE_OFFSET_MASK"

text \<open>Status, what is stored in the caller's handle (nothing when the pointer to it is bad), and the heap.\<close>

type_synonym native = "rc \<times> addr \<times> RTR0MEMOBJINTERNAL"
type_synonym mo_res = "rc \<times> addr option \<times> memobjs"

definition mo_fail :: "rc \<Rightarrow> memobjs \<Rightarrow> mo_res" where
  "mo_fail r h = (r, Some NIL_RTR0MEMOBJ, h)"

definition mo_native :: "native \<Rightarrow> memobjs \<Rightarrow> mo_res" where
  "mo_native n h = (case n of (r, p, m) \<Rightarrow> case memobj_alloc r p m h of (r', p', h') \<Rightarrow> (r', Some p', h'))"

text \<open>The checks that all of them begin with: the pointer, and the size \<open>cb\<close> against \<open>cbAligned\<close>.\<close>

definition mo_checks :: "addr \<Rightarrow> u64 \<Rightarrow> u64 \<Rightarrow> memobjs \<Rightarrow> mo_res \<Rightarrow> mo_res" where
  "mo_checks pMemObj cb cbAligned h k =
     (if \<not> RT_VALID_PTR pMemObj then (VERR_INVALID_POINTER, None, h)
      else if \<not> cb > 0 then mo_fail VERR_INVALID_PARAMETER h
      else if \<not> cb \<le> cbAligned then mo_fail VERR_INVALID_PARAMETER h
      else k)"

section \<open>Allocation\<close>

definition RTR0MemObjAllocPageTag :: "(u64 \<Rightarrow> bool \<Rightarrow> native) \<Rightarrow> addr \<Rightarrow> u64 \<Rightarrow> bool \<Rightarrow> memobjs \<Rightarrow> mo_res" where
  "RTR0MemObjAllocPageTag rtR0MemObjNativeAllocPage pMemObj cb fExecutable h = (let cbAligned = page_align cb in
     mo_checks pMemObj cb cbAligned h (mo_native (rtR0MemObjNativeAllocPage cbAligned fExecutable) h))"

definition RTR0MemObjAllocLowTag :: "(u64 \<Rightarrow> bool \<Rightarrow> native) \<Rightarrow> addr \<Rightarrow> u64 \<Rightarrow> bool \<Rightarrow> memobjs \<Rightarrow> mo_res" where
  "RTR0MemObjAllocLowTag rtR0MemObjNativeAllocLow pMemObj cb fExecutable h = (let cbAligned = page_align cb in
     mo_checks pMemObj cb cbAligned h (mo_native (rtR0MemObjNativeAllocLow cbAligned fExecutable) h))"

definition RTR0MemObjAllocContTag :: "(u64 \<Rightarrow> bool \<Rightarrow> native) \<Rightarrow> addr \<Rightarrow> u64 \<Rightarrow> bool \<Rightarrow> memobjs \<Rightarrow> mo_res" where
  "RTR0MemObjAllocContTag rtR0MemObjNativeAllocCont pMemObj cb fExecutable h = (let cbAligned = page_align cb in
     mo_checks pMemObj cb cbAligned h (mo_native (rtR0MemObjNativeAllocCont cbAligned fExecutable) h))"

definition RTR0MemObjAllocPhysTag :: "(u64 \<Rightarrow> u64 \<Rightarrow> u64 \<Rightarrow> native) \<Rightarrow> addr \<Rightarrow> u64 \<Rightarrow> u64 \<Rightarrow> memobjs \<Rightarrow> mo_res" where
  "RTR0MemObjAllocPhysTag rtR0MemObjNativeAllocPhys pMemObj cb PhysHighest h = (let cbAligned = page_align cb in
     mo_checks pMemObj cb cbAligned h
       (if \<not> PhysHighest \<ge> cb then mo_fail VERR_INVALID_PARAMETER h
        else mo_native (rtR0MemObjNativeAllocPhys cbAligned PhysHighest PAGE_SIZE) h))"

definition RTR0MemObjAllocPhysExTag :: "(u64 \<Rightarrow> u64 \<Rightarrow> u64 \<Rightarrow> native) \<Rightarrow> addr \<Rightarrow> u64 \<Rightarrow> u64 \<Rightarrow> u64 \<Rightarrow> memobjs \<Rightarrow> mo_res" where
  "RTR0MemObjAllocPhysExTag rtR0MemObjNativeAllocPhys pMemObj cb PhysHighest uAlignment h = (let cbAligned = page_align cb in
     mo_checks pMemObj cb cbAligned h
       (if \<not> PhysHighest \<ge> cb then mo_fail VERR_INVALID_PARAMETER h
        else let uAlignment = (if uAlignment = 0 then PAGE_SIZE else uAlignment) in
          if uAlignment \<notin> {PAGE_SIZE, A_2M, A_4M, A_1G} then mo_fail VERR_INVALID_PARAMETER h
          else mo_native (rtR0MemObjNativeAllocPhys cbAligned PhysHighest uAlignment) h))"

definition RTR0MemObjAllocPhysNCTag :: "(u64 \<Rightarrow> u64 \<Rightarrow> native) \<Rightarrow> addr \<Rightarrow> u64 \<Rightarrow> u64 \<Rightarrow> memobjs \<Rightarrow> mo_res" where
  "RTR0MemObjAllocPhysNCTag rtR0MemObjNativeAllocPhysNC pMemObj cb PhysHighest h = (let cbAligned = page_align cb in
     mo_checks pMemObj cb cbAligned h
       (if \<not> PhysHighest \<ge> cb then mo_fail VERR_INVALID_PARAMETER h
        else mo_native (rtR0MemObjNativeAllocPhysNC cbAligned PhysHighest) h))"

section \<open>Locking, entering and reserving\<close>

text \<open>\<open>self\<close> is the calling process.\<close>

definition RTR0MemObjLockUserTag :: "(addr \<Rightarrow> u64 \<Rightarrow> u32 \<Rightarrow> u64 \<Rightarrow> native) \<Rightarrow> u64 \<Rightarrow> addr \<Rightarrow> addr \<Rightarrow> u64 \<Rightarrow> u32 \<Rightarrow> u64 \<Rightarrow> memobjs \<Rightarrow> mo_res" where
  "RTR0MemObjLockUserTag rtR0MemObjNativeLockUser self pMemObj R3Ptr cb fAccess R0Process h =
     (let cbAligned = page_align (cb + (R3Ptr AND PAGE_OFFSET_MASK)); R3PtrAligned = PAGE_BASE R3Ptr in
     mo_checks pMemObj cb cbAligned h
       (let R0Process = (if R0Process = NIL_RTR0PROCESS then self else R0Process) in
        if fAccess AND NOT (RTMEM_PROT_READ OR RTMEM_PROT_WRITE) \<noteq> 0 then mo_fail VERR_INVALID_PARAMETER h
        else if fAccess = 0 then mo_fail VERR_INVALID_PARAMETER h
        else mo_native (rtR0MemObjNativeLockUser R3PtrAligned cbAligned fAccess R0Process) h))"

definition RTR0MemObjLockKernelTag :: "(addr \<Rightarrow> u64 \<Rightarrow> u32 \<Rightarrow> native) \<Rightarrow> addr \<Rightarrow> addr \<Rightarrow> u64 \<Rightarrow> u32 \<Rightarrow> memobjs \<Rightarrow> mo_res" where
  "RTR0MemObjLockKernelTag rtR0MemObjNativeLockKernel pMemObj pv cb fAccess h =
     (let cbAligned = page_align (cb + (pv AND PAGE_OFFSET_MASK)); pvAligned = PAGE_BASE pv in
     mo_checks pMemObj cb cbAligned h
       (if \<not> RT_VALID_PTR pvAligned then mo_fail VERR_INVALID_POINTER h
        else if fAccess AND NOT (RTMEM_PROT_READ OR RTMEM_PROT_WRITE) \<noteq> 0 then mo_fail VERR_INVALID_PARAMETER h
        else if fAccess = 0 then mo_fail VERR_INVALID_PARAMETER h
        else mo_native (rtR0MemObjNativeLockKernel pvAligned cbAligned fAccess) h))"

definition RTR0MemObjEnterPhysTag :: "(u64 \<Rightarrow> u64 \<Rightarrow> u32 \<Rightarrow> native) \<Rightarrow> addr \<Rightarrow> u64 \<Rightarrow> u64 \<Rightarrow> u32 \<Rightarrow> memobjs \<Rightarrow> mo_res" where
  "RTR0MemObjEnterPhysTag rtR0MemObjNativeEnterPhys pMemObj Phys cb uCachePolicy h =
     (let cbAligned = page_align (cb + (Phys AND PAGE_OFFSET_MASK)); PhysAligned = PAGE_BASE Phys in
     mo_checks pMemObj cb cbAligned h
       (if Phys = NIL_RTHCPHYS then mo_fail VERR_INVALID_PARAMETER h
        else if uCachePolicy \<noteq> RTMEM_CACHE_POLICY_DONT_CARE \<and> uCachePolicy \<noteq> RTMEM_CACHE_POLICY_MMIO
        then mo_fail VERR_INVALID_PARAMETER h
        else mo_native (rtR0MemObjNativeEnterPhys PhysAligned cbAligned uCachePolicy) h))"

text \<open>The alignment is checked before the size here.\<close>

definition RTR0MemObjReserveKernelTag :: "(addr \<Rightarrow> u64 \<Rightarrow> u64 \<Rightarrow> native) \<Rightarrow> addr \<Rightarrow> addr \<Rightarrow> u64 \<Rightarrow> u64 \<Rightarrow> memobjs \<Rightarrow> mo_res" where
  "RTR0MemObjReserveKernelTag rtR0MemObjNativeReserveKernel pMemObj pvFixed cb uAlignment h =
     (let cbAligned = page_align cb; uAlignment = (if uAlignment = 0 then PAGE_SIZE else uAlignment) in
     if RT_VALID_PTR pMemObj \<and> uAlignment \<notin> {PAGE_SIZE, A_2M, A_4M} then mo_fail VERR_INVALID_PARAMETER h
     else mo_checks pMemObj cb cbAligned h
       (if pvFixed \<noteq> - 1 \<and> pvFixed AND (uAlignment - 1) \<noteq> 0 then mo_fail VERR_INVALID_PARAMETER h
        else mo_native (rtR0MemObjNativeReserveKernel pvFixed cbAligned uAlignment) h))"

definition RTR0MemObjReserveUserTag :: "(addr \<Rightarrow> u64 \<Rightarrow> u64 \<Rightarrow> u64 \<Rightarrow> native) \<Rightarrow> u64 \<Rightarrow> addr \<Rightarrow> addr \<Rightarrow> u64 \<Rightarrow> u64 \<Rightarrow> u64 \<Rightarrow> memobjs \<Rightarrow> mo_res" where
  "RTR0MemObjReserveUserTag rtR0MemObjNativeReserveUser self pMemObj R3PtrFixed cb uAlignment R0Process h =
     (let cbAligned = page_align cb; uAlignment = (if uAlignment = 0 then PAGE_SIZE else uAlignment) in
     if RT_VALID_PTR pMemObj \<and> uAlignment \<notin> {PAGE_SIZE, A_2M, A_4M} then mo_fail VERR_INVALID_PARAMETER h
     else mo_checks pMemObj cb cbAligned h
       (if R3PtrFixed \<noteq> - 1 \<and> R3PtrFixed AND (uAlignment - 1) \<noteq> 0 then mo_fail VERR_INVALID_PARAMETER h
        else let R0Process = (if R0Process = NIL_RTR0PROCESS then self else R0Process) in
          mo_native (rtR0MemObjNativeReserveUser R3PtrFixed cbAligned uAlignment R0Process) h))"

section \<open>Mapping\<close>

text \<open>The checks of the object to map, its alignment, address and protection; \<open>k\<close> gets the object and the alignment.\<close>

definition mo_map_checks :: "addr \<Rightarrow> addr \<Rightarrow> addr \<Rightarrow> u64 \<Rightarrow> u32 \<Rightarrow> memobjs \<Rightarrow> (RTR0MEMOBJINTERNAL \<Rightarrow> u64 \<Rightarrow> mo_res option) \<Rightarrow> mo_res option" where
  "mo_map_checks pMemObj MemObjToMap Fixed uAlignment fProt h k =
     (if \<not> RT_VALID_PTR pMemObj then Some (VERR_INVALID_POINTER, None, h)
      else if \<not> RT_VALID_PTR MemObjToMap then Some (mo_fail VERR_INVALID_HANDLE h)
      else do {
        pMemToMap \<leftarrow> h MemObjToMap;
        let uAlignment = (if uAlignment = 0 then PAGE_SIZE else uAlignment);
        if rtR0MemObjIsMapping pMemToMap then Some (mo_fail VERR_INVALID_PARAMETER h)
        else if mo_enmType pMemToMap = MO_RES_VIRT then Some (mo_fail VERR_INVALID_PARAMETER h)
        else if uAlignment \<notin> {PAGE_SIZE, A_2M, A_4M} then Some (mo_fail VERR_INVALID_PARAMETER h)
        else if Fixed \<noteq> - 1 \<and> Fixed AND (uAlignment - 1) \<noteq> 0 then Some (mo_fail VERR_INVALID_PARAMETER h)
        else if fProt = 0 then Some (mo_fail VERR_INVALID_PARAMETER h)
        else if fProt AND NOT (RTMEM_PROT_READ OR RTMEM_PROT_WRITE OR RTMEM_PROT_EXEC) \<noteq> 0 then Some (mo_fail VERR_INVALID_PARAMETER h)
        else k pMemToMap uAlignment
      })"

text \<open>The native mapping, the link to the object that is mapped, and its undoing when there is no room for it.\<close>

definition mo_map :: "native \<Rightarrow> bool \<Rightarrow> addr \<Rightarrow> memobjs \<Rightarrow> mo_res option" where
  "mo_map n fGrow MemObjToMap h = (case n of (r, p, m) \<Rightarrow>
     if RT_FAILURE r then Some (mo_fail r h)
     else do {
       (r', h1) \<leftarrow> rtR0MemObjLink MemObjToMap p fGrow (h(p \<mapsto> m));
       if RT_SUCCESS r' then Some (r', Some p, h1) else Some (mo_fail r' (h1(p := None)))
     })"

definition RTR0MemObjMapUserTag ::
  "(RTR0MEMOBJINTERNAL \<Rightarrow> addr \<Rightarrow> u64 \<Rightarrow> u32 \<Rightarrow> u64 \<Rightarrow> native) \<Rightarrow> u64 \<Rightarrow> bool \<Rightarrow> addr \<Rightarrow> addr \<Rightarrow> addr \<Rightarrow> u64 \<Rightarrow> u32 \<Rightarrow> u64 \<Rightarrow> memobjs \<Rightarrow> mo_res option" where
  "RTR0MemObjMapUserTag rtR0MemObjNativeMapUser self fGrow pMemObj MemObjToMap R3PtrFixed uAlignment fProt R0Process h =
     mo_map_checks pMemObj MemObjToMap R3PtrFixed uAlignment fProt h (\<lambda>pMemToMap uAlignment.
       let R0Process = (if R0Process = NIL_RTR0PROCESS then self else R0Process) in
       mo_map (rtR0MemObjNativeMapUser pMemToMap R3PtrFixed uAlignment fProt R0Process) fGrow MemObjToMap h)"

definition RTR0MemObjMapKernelExTag ::
  "(RTR0MEMOBJINTERNAL \<Rightarrow> addr \<Rightarrow> u64 \<Rightarrow> u32 \<Rightarrow> u64 \<Rightarrow> u64 \<Rightarrow> native) \<Rightarrow> bool \<Rightarrow> addr \<Rightarrow> addr \<Rightarrow> addr \<Rightarrow> u64 \<Rightarrow> u32 \<Rightarrow> u64 \<Rightarrow> u64 \<Rightarrow> memobjs \<Rightarrow> mo_res option" where
  "RTR0MemObjMapKernelExTag rtR0MemObjNativeMapKernel fGrow pMemObj MemObjToMap pvFixed uAlignment fProt offSub cbSub h =
     mo_map_checks pMemObj MemObjToMap pvFixed uAlignment fProt h (\<lambda>pMemToMap uAlignment.
       if offSub AND PAGE_OFFSET_MASK \<noteq> 0 then Some (mo_fail VERR_INVALID_PARAMETER h)
       else if \<not> offSub < mo_cb pMemToMap then Some (mo_fail VERR_INVALID_PARAMETER h)
       else if cbSub AND PAGE_OFFSET_MASK \<noteq> 0 then Some (mo_fail VERR_INVALID_PARAMETER h)
       else if \<not> cbSub \<le> mo_cb pMemToMap then Some (mo_fail VERR_INVALID_PARAMETER h)
       else if \<not> (offSub = 0 \<and> cbSub = 0 \<or> offSub + cbSub \<le> mo_cb pMemToMap) then Some (mo_fail VERR_INVALID_PARAMETER h)
       else let cbSub = (if offSub = 0 \<and> cbSub = mo_cb pMemToMap then 0 else cbSub) in
         mo_map (rtR0MemObjNativeMapKernel pMemToMap pvFixed uAlignment fProt offSub cbSub) fGrow MemObjToMap h)"

definition RTR0MemObjMapKernelTag ::
  "(RTR0MEMOBJINTERNAL \<Rightarrow> addr \<Rightarrow> u64 \<Rightarrow> u32 \<Rightarrow> u64 \<Rightarrow> u64 \<Rightarrow> native) \<Rightarrow> bool \<Rightarrow> addr \<Rightarrow> addr \<Rightarrow> addr \<Rightarrow> u64 \<Rightarrow> u32 \<Rightarrow> memobjs \<Rightarrow> mo_res option" where
  "RTR0MemObjMapKernelTag rtR0MemObjNativeMapKernel fGrow pMemObj MemObjToMap pvFixed uAlignment fProt h =
     RTR0MemObjMapKernelExTag rtR0MemObjNativeMapKernel fGrow pMemObj MemObjToMap pvFixed uAlignment fProt 0 0 h"

section \<open>Rounding\<close>

lemma and_not_4095: "(x::u64) AND NOT 0xfff = push_bit 12 (drop_bit 12 x)"
proof -
  have m: "(0xfff::u64) = mask 12" by (simp add: mask_eq_exp_minus_1)
  show ?thesis unfolding m by (rule bit_word_eqI) (auto simp: bit_and_iff bit_not_iff bit_mask_iff bit_push_bit_iff bit_drop_bit_eq)
qed

lemma unat_page_base: "unat (PAGE_BASE (x::u64)) = unat x div 4096 * 4096"
proof -
  have "unat x div 4096 * 4096 \<le> unat x" by simp
  also have "unat x < 2 ^ 64" using unsigned_less[where ?'a = nat, of x] by simp
  finally have "unat x div 4096 * 4096 < 2 ^ 64" .
  moreover have "unat (push_bit 12 (drop_bit 12 x)) = take_bit 64 (push_bit 12 (unat x div 4096))"
    by (simp only: unsigned_push_bit_eq unat_drop_bit_eq drop_bit_eq_div) (simp add: unat_div)
  ultimately show ?thesis unfolding and_not_4095 by (simp add: take_bit_nat_eq_self push_bit_eq_mult)
qed

lemma unat_page_offset: "unat ((x::u64) AND PAGE_OFFSET_MASK) = unat x mod 4096"
proof -
  have m: "(0xfff::u64) = mask 12" by (simp add: mask_eq_exp_minus_1)
  have "unat (take_bit 12 x) = take_bit 12 (unat x)" by (rule unsigned_take_bit_eq)
  then show ?thesis unfolding m take_bit_eq_mask[symmetric] by (simp add: take_bit_eq_mod)
qed

text \<open>The check after the fact is enough: a size that passes it has been rounded without wrapping around.\<close>

lemma page_align_exact:
  assumes cb: "cb \<noteq> 0" "cb \<le> page_align (cb + off)" and off: "unat off < 4096"
  shows "unat (page_align (cb + off)) = (unat cb + unat off + 4095) div 4096 * 4096"
proof -
  let ?n = "unat cb + unat off + 4095"
  have u: "unat (cb + off + 0xfff) = ?n mod 2 ^ 64" by (simp add: unat_word_ariths mod_simps)
  then have a: "unat (page_align (cb + off)) = ?n mod 2 ^ 64 div 4096 * 4096" by (simp only: page_align_def unat_page_base u)
  have "?n < 2 ^ 64"
  proof (rule ccontr)
    assume w: "\<not> ?n < 2 ^ 64"
    have c: "unat cb < 2 ^ 64" "unat cb \<noteq> 0" using unsigned_less[where ?'a = nat, of cb] cb(1) by (simp_all add: unat_eq_0)
    with w off have "?n - 2 ^ 64 < unat cb" by simp
    moreover have "?n - 2 ^ 64 < 2 ^ 64" using c off by simp
    then have "?n mod 2 ^ 64 = ?n - 2 ^ 64" using w by (simp add: le_mod_geq)
    ultimately have "unat (page_align (cb + off)) < unat cb" unfolding a by (metis div_times_less_eq_dividend le_less_trans)
    with cb(2) show False by (simp add: word_le_nat_alt)
  qed
  with a show ?thesis by simp
qed

lemma page_align_covers:
  assumes "cb \<noteq> 0" "cb \<le> page_align (cb + (p AND PAGE_OFFSET_MASK))"
  shows "unat (PAGE_BASE p) mod 4096 = 0 \<and> unat (page_align (cb + (p AND PAGE_OFFSET_MASK))) mod 4096 = 0 \<and>
    unat (PAGE_BASE p) \<le> unat p \<and> unat p < unat (PAGE_BASE p) + 4096 \<and>
    unat p + unat cb \<le> unat (PAGE_BASE p) + unat (page_align (cb + (p AND PAGE_OFFSET_MASK))) \<and>
    unat (PAGE_BASE p) + unat (page_align (cb + (p AND PAGE_OFFSET_MASK))) < unat p + unat cb + 4096"
proof -
  let ?o = "p AND PAGE_OFFSET_MASK"
  have o: "unat ?o = unat p mod 4096" by (rule unat_page_offset)
  then have s: "unat (page_align (cb + ?o)) = (unat cb + unat p mod 4096 + 4095) div 4096 * 4096"
    using page_align_exact[OF assms] by simp
  have d: "unat p = unat p div 4096 * 4096 + unat p mod 4096" by simp
  define k r where "k = unat p div 4096" and "r = unat p mod 4096"
  have kr: "unat p = k * 4096 + r" "r < 4096" using d by (simp_all add: k_def r_def)
  have "n \<le> (n + 4095) div 4096 * 4096" "(n + 4095) div 4096 * 4096 < n + 4096" for n :: nat by simp_all
  from this[of "unat cb + r"] show ?thesis
    unfolding unat_page_base s using kr by (simp add: k_def[symmetric] r_def[symmetric])
qed

section \<open>Properties\<close>

text \<open>
  What a creating function does: it fails before the native call, stores \<open>NIL\<close> unless the pointer to
  the handle is bad, and changes nothing; or its answer is that of the native worker for some arguments that
  satisfy \<open>Q\<close>.
\<close>

definition mo_creates :: "'a set \<Rightarrow> ('a \<Rightarrow> native) \<Rightarrow> memobjs \<Rightarrow> mo_res \<Rightarrow> bool" where
  "mo_creates A n h r \<longleftrightarrow> (\<exists>rc p. r = (rc, p, h) \<and> RT_FAILURE rc \<and> p \<in> {None, Some NIL_RTR0MEMOBJ}) \<or> (\<exists>x \<in> A. r = mo_native (n x) h)"

lemma mo_creates_fail [intro]: "RT_FAILURE rc \<Longrightarrow> mo_creates A n h (mo_fail rc h)"
  by (auto simp: mo_creates_def mo_fail_def)

lemma mo_creates_native [intro]: "x \<in> A \<Longrightarrow> mo_creates A n h (mo_native (n x) h)"
  by (auto simp: mo_creates_def)

lemma mo_creates_checks:
  "(cb \<noteq> 0 \<Longrightarrow> cb \<le> cbAligned \<Longrightarrow> mo_creates A n h k) \<Longrightarrow> mo_creates A n h (mo_checks pMemObj cb cbAligned h k)"
  by (auto simp: mo_checks_def mo_creates_def mo_fail_def word_greater_zero_iff)

lemma mo_creates_if: "(c \<Longrightarrow> mo_creates A n h x) \<Longrightarrow> (\<not> c \<Longrightarrow> mo_creates A n h y) \<Longrightarrow> mo_creates A n h (if c then x else y)"
  by simp

lemma RT_FAILURE_codes: "RT_FAILURE VERR_INVALID_PARAMETER" "RT_FAILURE VERR_INVALID_POINTER" "RT_FAILURE VERR_INVALID_HANDLE"
  by simp_all

lemmas mo_rules = mo_creates_checks mo_creates_if mo_creates_fail RT_FAILURE_codes

lemma access_values:
  assumes "(x::u32) AND NOT (RTMEM_PROT_READ OR RTMEM_PROT_WRITE) = 0" "x \<noteq> 0"
  shows "x \<in> {1, 2, 3}"
proof -
  have m: "(RTMEM_PROT_READ OR RTMEM_PROT_WRITE) = mask 2" by (simp add: mask_eq_exp_minus_1)
  have "\<not> bit x n" if "2 \<le> n" "n < 32" for n
  proof -
    have "\<not> bit (x AND NOT (mask 2)) n" using assms(1) unfolding m by simp
    with that show ?thesis by (simp add: bit_and_iff bit_not_iff bit_mask_iff)
  qed
  then have "take_bit 2 x = x" by (intro bit_word_eqI) (auto simp: bit_take_bit_iff intro: leI)
  then have "unat x = take_bit 2 (unat x)" by (metis unsigned_take_bit_eq)
  also have "\<dots> < 4" using take_bit_nat_less_exp[of 2 "unat x"] by simp
  finally have "unat x \<in> {0, 1, 2, 3}" by auto
  moreover have "unat x \<noteq> 0" using assms(2) by (simp add: unat_eq_0)
  ultimately have "unat x = unat (1::u32) \<or> unat x = unat (2::u32) \<or> unat x = unat (3::u32)" by simp
  then show ?thesis unfolding word_unat_eq_iff[symmetric] by blast
qed

text \<open>C19: Memory that is locked covers the request: a request to lock memory of a process fails without a trace, or
  the native worker is asked for whole pages, aligned, with the wanted access, that cover the range
  exactly: no byte is left out, and no page without a byte of the range is locked.  No size wraps around.\<close>

theorem lock_user_covers:
  "mo_creates {(base, size, proc). unat base mod 4096 = 0 \<and> unat size mod 4096 = 0 \<and>
      unat base \<le> unat R3Ptr \<and> unat R3Ptr < unat base + 4096 \<and>
      unat R3Ptr + unat cb \<le> unat base + unat size \<and> unat base + unat size < unat R3Ptr + unat cb + 4096 \<and>
      fAccess \<in> {1, 2, 3} \<and> proc = (if R0Process = NIL_RTR0PROCESS then self else R0Process)}
    (\<lambda>(base, size, proc). native base size fAccess proc) h
    (RTR0MemObjLockUserTag native self pMemObj R3Ptr cb fAccess R0Process h)" (is "mo_creates ?A ?n h _")
proof -
  have "mo_creates ?A ?n h (mo_native (?n (PAGE_BASE R3Ptr, page_align (cb + (R3Ptr AND PAGE_OFFSET_MASK)),
      if R0Process = NIL_RTR0PROCESS then self else R0Process)) h)"
    if "cb \<noteq> 0" "cb \<le> page_align (cb + (R3Ptr AND PAGE_OFFSET_MASK))" "fAccess AND NOT (RTMEM_PROT_READ OR RTMEM_PROT_WRITE) = 0" "fAccess \<noteq> 0"
    using page_align_covers[OF that(1,2)] access_values[OF that(3,4)] by (intro mo_creates_native) simp
  then show ?thesis
    unfolding RTR0MemObjLockUserTag_def Let_def prod.case by (intro mo_rules) simp_all
qed

section \<open>The entry points together\<close>

text \<open>A native worker that succeeds delivers a new object at a fresh address.\<close>

definition native_ok :: "(RTR0MEMOBJTYPE \<Rightarrow> bool) \<Rightarrow> memobjs \<Rightarrow> native \<Rightarrow> bool" where
  "native_ok T h n \<longleftrightarrow> (case n of (r, p, m) \<Rightarrow> RT_SUCCESS r \<longrightarrow> h p = None \<and> RT_VALID_PTR p \<and>
     (\<exists>ty cb pv pr ph. m = memobj_new ty cb pv pr ph \<and> T ty))"

abbreviation "alloc_ok \<equiv> native_ok (\<lambda>ty. ty \<noteq> MO_MAPPING)"
abbreviation "map_ok \<equiv> native_ok (\<lambda>ty. ty = MO_MAPPING)"

datatype mo_op =
    MAllocPage "u64 \<Rightarrow> bool \<Rightarrow> native" addr u64 bool
  | MAllocLow "u64 \<Rightarrow> bool \<Rightarrow> native" addr u64 bool
  | MAllocCont "u64 \<Rightarrow> bool \<Rightarrow> native" addr u64 bool
  | MAllocPhys "u64 \<Rightarrow> u64 \<Rightarrow> u64 \<Rightarrow> native" addr u64 u64
  | MAllocPhysEx "u64 \<Rightarrow> u64 \<Rightarrow> u64 \<Rightarrow> native" addr u64 u64 u64
  | MAllocPhysNC "u64 \<Rightarrow> u64 \<Rightarrow> native" addr u64 u64
  | MLockUser "addr \<Rightarrow> u64 \<Rightarrow> u32 \<Rightarrow> u64 \<Rightarrow> native" u64 addr addr u64 u32 u64
  | MLockKernel "addr \<Rightarrow> u64 \<Rightarrow> u32 \<Rightarrow> native" addr addr u64 u32
  | MEnterPhys "u64 \<Rightarrow> u64 \<Rightarrow> u32 \<Rightarrow> native" addr u64 u64 u32
  | MReserveKernel "addr \<Rightarrow> u64 \<Rightarrow> u64 \<Rightarrow> native" addr addr u64 u64
  | MReserveUser "addr \<Rightarrow> u64 \<Rightarrow> u64 \<Rightarrow> u64 \<Rightarrow> native" u64 addr addr u64 u64 u64
  | MMapUser "RTR0MEMOBJINTERNAL \<Rightarrow> addr \<Rightarrow> u64 \<Rightarrow> u32 \<Rightarrow> u64 \<Rightarrow> native" u64 bool addr addr addr u64 u32 u64
  | MMapKernel "RTR0MEMOBJINTERNAL \<Rightarrow> addr \<Rightarrow> u64 \<Rightarrow> u32 \<Rightarrow> u64 \<Rightarrow> u64 \<Rightarrow> native" bool addr addr addr u64 u32 u64 u64
  | MFree "addr \<Rightarrow> rc" addr bool
  | MProtect rc addr u64 u64 u32

abbreviation mo_heap :: "mo_res \<Rightarrow> memobjs" where
  "mo_heap r \<equiv> snd (snd r)"

fun moStep :: "mo_op \<Rightarrow> memobjs \<Rightarrow> memobjs option" where
  "moStep (MAllocPage n p cb x) h = Some (mo_heap (RTR0MemObjAllocPageTag n p cb x h))"
| "moStep (MAllocLow n p cb x) h = Some (mo_heap (RTR0MemObjAllocLowTag n p cb x h))"
| "moStep (MAllocCont n p cb x) h = Some (mo_heap (RTR0MemObjAllocContTag n p cb x h))"
| "moStep (MAllocPhys n p cb hi) h = Some (mo_heap (RTR0MemObjAllocPhysTag n p cb hi h))"
| "moStep (MAllocPhysEx n p cb hi al) h = Some (mo_heap (RTR0MemObjAllocPhysExTag n p cb hi al h))"
| "moStep (MAllocPhysNC n p cb hi) h = Some (mo_heap (RTR0MemObjAllocPhysNCTag n p cb hi h))"
| "moStep (MLockUser n self p R3Ptr cb acc proc) h = Some (mo_heap (RTR0MemObjLockUserTag n self p R3Ptr cb acc proc h))"
| "moStep (MLockKernel n p pv cb acc) h = Some (mo_heap (RTR0MemObjLockKernelTag n p pv cb acc h))"
| "moStep (MEnterPhys n p Phys cb pol) h = Some (mo_heap (RTR0MemObjEnterPhysTag n p Phys cb pol h))"
| "moStep (MReserveKernel n p pv cb al) h = Some (mo_heap (RTR0MemObjReserveKernelTag n p pv cb al h))"
| "moStep (MReserveUser n self p R3Ptr cb al proc) h = Some (mo_heap (RTR0MemObjReserveUserTag n self p R3Ptr cb al proc h))"
| "moStep (MMapUser n self fGrow p q Fixed al prot proc) h = map_option mo_heap (RTR0MemObjMapUserTag n self fGrow p q Fixed al prot proc h)"
| "moStep (MMapKernel n fGrow p q Fixed al prot off cb) h = map_option mo_heap (RTR0MemObjMapKernelExTag n fGrow p q Fixed al prot off cb h)"
| "moStep (MFree nf p fFree) h = map_option snd (RTR0MemObjFree nf p fFree h)"
| "moStep (MProtect r p off cb prot) h = map_option snd (RTR0MemObjProtect r p off cb prot h)"

text \<open>A handle that is passed is one of a live object or mapping.\<close>

definition handle_live :: "memobjs \<Rightarrow> addr \<Rightarrow> bool" where
  "handle_live h p \<longleftrightarrow> (RT_VALID_PTR p \<longrightarrow> obj_at h p \<or> (\<exists>b. is_child h b p))"

fun moOpOk :: "mo_op \<Rightarrow> memobjs \<Rightarrow> bool" where
  "moOpOk (MAllocPage n p cb x) h \<longleftrightarrow> (\<forall>a b. alloc_ok h (n a b))"
| "moOpOk (MAllocLow n p cb x) h \<longleftrightarrow> (\<forall>a b. alloc_ok h (n a b))"
| "moOpOk (MAllocCont n p cb x) h \<longleftrightarrow> (\<forall>a b. alloc_ok h (n a b))"
| "moOpOk (MAllocPhys n p cb hi) h \<longleftrightarrow> (\<forall>a b c. alloc_ok h (n a b c))"
| "moOpOk (MAllocPhysEx n p cb hi al) h \<longleftrightarrow> (\<forall>a b c. alloc_ok h (n a b c))"
| "moOpOk (MAllocPhysNC n p cb hi) h \<longleftrightarrow> (\<forall>a b. alloc_ok h (n a b))"
| "moOpOk (MLockUser n self p R3Ptr cb acc proc) h \<longleftrightarrow> (\<forall>a b c d. alloc_ok h (n a b c d))"
| "moOpOk (MLockKernel n p pv cb acc) h \<longleftrightarrow> (\<forall>a b c. alloc_ok h (n a b c))"
| "moOpOk (MEnterPhys n p Phys cb pol) h \<longleftrightarrow> (\<forall>a b c. alloc_ok h (n a b c))"
| "moOpOk (MReserveKernel n p pv cb al) h \<longleftrightarrow> (\<forall>a b c. alloc_ok h (n a b c))"
| "moOpOk (MReserveUser n self p R3Ptr cb al proc) h \<longleftrightarrow> (\<forall>a b c d. alloc_ok h (n a b c d))"
| "moOpOk (MMapUser n self fGrow p q Fixed al prot proc) h \<longleftrightarrow> handle_live h q \<and> (\<forall>a b c d e. map_ok h (n a b c d e))"
| "moOpOk (MMapKernel n fGrow p q Fixed al prot off cb) h \<longleftrightarrow> handle_live h q \<and> (\<forall>a b c d e f. map_ok h (n a b c d e f))"
| "moOpOk (MFree nf p fFree) h \<longleftrightarrow> handle_live h p"
| "moOpOk (MProtect r p off cb prot) h \<longleftrightarrow> handle_live h p"

lemma mo_native_heap:
  assumes "heap_ok h" "alloc_ok h n"
  shows "heap_ok (mo_heap (mo_native n h))"
proof -
  obtain r p m where n: "n = (r, p, m)" by (cases n) auto
  show ?thesis
  proof (cases "RT_SUCCESS r")
    case True
    with assms n obtain ty cb pv pr ph where "h p = None" "RT_VALID_PTR p" "m = memobj_new ty cb pv pr ph" "ty \<noteq> MO_MAPPING"
      by (auto simp: native_ok_def)
    with heap_ok_new[OF assms(1)] True n show ?thesis by (simp add: mo_native_def memobj_alloc_def)
  qed (use assms n in \<open>auto simp: mo_native_def memobj_alloc_def\<close>)
qed

lemma mo_checks_heap: "heap_ok h \<Longrightarrow> heap_ok (mo_heap k) \<Longrightarrow> heap_ok (mo_heap (mo_checks p cb cbAligned h k))"
  by (simp add: mo_checks_def mo_fail_def)

lemma mo_fail_heap: "heap_ok h \<Longrightarrow> heap_ok (mo_heap (mo_fail r h))"
  by (simp add: mo_fail_def)

lemma mo_if_heap: "heap_ok (mo_heap x) \<Longrightarrow> heap_ok (mo_heap y) \<Longrightarrow> heap_ok (mo_heap (if c then x else y))"
  by simp

lemmas mo_heap_rules = mo_checks_heap mo_if_heap mo_fail_heap mo_native_heap

lemmas mo_alloc_defs = RTR0MemObjAllocPageTag_def RTR0MemObjAllocLowTag_def RTR0MemObjAllocContTag_def RTR0MemObjAllocPhysTag_def
  RTR0MemObjAllocPhysExTag_def RTR0MemObjAllocPhysNCTag_def RTR0MemObjLockUserTag_def RTR0MemObjLockKernelTag_def RTR0MemObjEnterPhysTag_def
  RTR0MemObjReserveKernelTag_def RTR0MemObjReserveUserTag_def

text \<open>With the arguments of the support driver (any address, page alignment, read and write) the mapping
  functions are \<^const>\<open>memobj_map\<close>.\<close>

lemma map_checks_object:
  assumes "heap_ok h" "handle_live h q"
    and "\<And>par al. h q = Some par \<Longrightarrow> mo_enmType par \<noteq> MO_MAPPING \<Longrightarrow> mo_enmType par \<noteq> MO_RES_VIRT \<Longrightarrow> RT_VALID_PTR q \<Longrightarrow>
      \<exists>r. k par al = Some r \<and> heap_ok (mo_heap r)"
  shows "\<exists>r. mo_map_checks p q Fixed al0 prot h k = Some r \<and> heap_ok (mo_heap r)"
proof -
  have f: "\<exists>r. (if c then Some (mo_fail rc h) else x) = Some r \<and> heap_ok (mo_heap r)" if "\<not> c \<Longrightarrow> \<exists>r. x = Some r \<and> heap_ok (mo_heap r)" for c rc x
    using that assms(1) by (simp add: mo_fail_def)
  show ?thesis
  proof (cases "RT_VALID_PTR p \<and> RT_VALID_PTR q")
    case True
    with assms(2) obtain par where par: "h q = Some par" by (auto simp: handle_live_def obj_at_def is_child_def)
    show ?thesis
      unfolding mo_map_checks_def par bind.bind_lunit Let_def rtR0MemObjIsMapping_def
      using True by (simp only: simp_thms if_False) (intro f assms(3)[OF par]; simp)
  qed (use assms(1) in \<open>auto simp: mo_map_checks_def mo_fail_def\<close>)
qed

lemma mo_map_eq:
  assumes "h q = Some par" "mo_enmType par \<noteq> MO_MAPPING" "mo_enmType par \<noteq> MO_RES_VIRT" "RT_VALID_PTR q" "RT_SUCCESS r \<longrightarrow> h p = None"
  shows "mo_map (r, p, m) fGrow q h = map_option (\<lambda>(r', c, h'). (r', Some c, h')) (memobj_map r p m fGrow q h)"
proof -
  have u: "h(p := None) = h" if "h p = None" using that by (simp add: fun_eq_iff)
  show ?thesis
    using assms u by (cases "RT_SUCCESS r")
      (auto simp: mo_map_def memobj_map_def rtR0MemObjIsMapping_def mo_fail_def rtR0MemObjLink_def Let_def split: Option.bind_splits)
qed

lemma mo_map_heap:
  assumes ok: "heap_ok h" and q: "h q = Some par" "mo_enmType par \<noteq> MO_MAPPING" "mo_enmType par \<noteq> MO_RES_VIRT" "RT_VALID_PTR q" and n: "map_ok h n"
  shows "\<exists>r. mo_map n fGrow q h = Some r \<and> heap_ok (mo_heap r)"
proof -
  obtain r p m where e: "n = (r, p, m)" by (cases n) auto
  show ?thesis
  proof (cases "RT_SUCCESS r")
    case True
    with n e obtain cb pv pr ph where m: "h p = None" "RT_VALID_PTR p" "m = memobj_new MO_MAPPING cb pv pr ph" by (auto simp: native_ok_def)
    have "obj_at h q" using q by (simp add: obj_at_def)
    from memobj_map_ok[OF ok this, of r p cb pv pr ph fGrow] m mo_map_eq[where h = h and q = q and par = par and r = r and p = p and m = m and fGrow = fGrow, OF q] show ?thesis
      by (auto simp: e)
  qed (use ok e in \<open>auto simp: mo_map_def mo_fail_def\<close>)
qed

lemma moStep_safe:
  assumes ok: "heap_ok h" and op: "moOpOk op h"
  shows "\<exists>h'. moStep op h = Some h' \<and> heap_ok h'"
proof (cases op)
  case (MFree nf p fFree)
  show ?thesis
  proof (cases "RT_VALID_PTR p")
    case True
    with op MFree obtain b where "obj_at h p \<or> is_child h b p" by (auto simp: handle_live_def)
    with free_ok[OF ok] MFree show ?thesis by fastforce
  qed (use ok MFree in \<open>simp add: RTR0MemObjFree_def\<close>)
next
  case (MProtect r p off cb prot)
  show ?thesis
  proof (cases "RT_VALID_PTR p")
    case True
    with op MProtect obtain b where "obj_at h p \<or> is_child h b p" by (auto simp: handle_live_def)
    with protect_ok[OF ok] MProtect show ?thesis by fastforce
  qed (use ok MProtect in \<open>simp add: RTR0MemObjProtect_def\<close>)
next
  case (MMapUser n self fGrow p q Fixed al prot proc)
  have "\<exists>r. RTR0MemObjMapUserTag n self fGrow p q Fixed al prot proc h = Some r \<and> heap_ok (mo_heap r)"
    unfolding RTR0MemObjMapUserTag_def Let_def
    by (rule map_checks_object[OF ok]) (use op MMapUser mo_map_heap[OF ok] in simp_all)
  with MMapUser show ?thesis by auto
next
  case (MMapKernel n fGrow p q Fixed al prot off cb)
  have "\<exists>r. RTR0MemObjMapKernelExTag n fGrow p q Fixed al prot off cb h = Some r \<and> heap_ok (mo_heap r)"
    unfolding RTR0MemObjMapKernelExTag_def Let_def
    by (rule map_checks_object[OF ok]) (use op MMapKernel mo_map_heap[OF ok] ok in \<open>simp_all add: mo_fail_def\<close>)
  with MMapKernel show ?thesis by auto
qed (use op in \<open>simp_all only: moStep.simps moOpOk.simps mo_alloc_defs Let_def option.inject simp_thms\<close>, (intro mo_heap_rules ok; simp only:)+)

interpretation moapi: guarded_api moStep moOpOk heap_ok
  by unfold_locales (rule moStep_safe)

text \<open>C18: Memory objects stay consistent: in every run of allocations, locks, reservations, mappings, protection
  changes and frees on live handles no call faults or releases a native resource twice, and every object
  lists exactly its live mappings, whichever calls and native workers fail on the way.\<close>

theorem mo_api_safe:
  "heap_ok h \<Longrightarrow> run_ok moStep moOpOk ops h \<Longrightarrow> \<exists>h'. run_steps moStep ops h = Some h' \<and> heap_ok h'"
  by (rule moapi.run_safe)

text \<open>C20: What the support driver's model assumes of mappings holds: for no fixed address
  (-1), the default alignment and every non-empty set of access rights (the driver passes read, read and write, and
  read, write and execute), the whole entry points for mapping into a process and into the kernel, all of their
  checks included, are the workers that the session memory is built on, whatever the native call answers.\<close>

theorem map_refines:
  assumes "RT_VALID_PTR pMemObj" "RT_SUCCESS r \<longrightarrow> h p = None" and prot: "fProt \<noteq> 0" "fProt AND NOT (RTMEM_PROT_READ OR RTMEM_PROT_WRITE OR RTMEM_PROT_EXEC) = 0"
  shows "RTR0MemObjMapUserTag (\<lambda>_ _ _ _ _. (r, p, m)) self fGrow pMemObj q (- 1) 0 fProt proc h =
      map_option (\<lambda>(r', c, h'). (r', Some c, h')) (memobj_map r p m fGrow q h) \<and>
    RTR0MemObjMapKernelExTag (\<lambda>_ _ _ _ _ _. (r, p, m)) fGrow pMemObj q (- 1) 0 fProt offSub cbSub h =
      map_option (\<lambda>(r', c, h'). (r', Some c, h')) (RTR0MemObjMapKernelEx r p m fGrow q offSub cbSub h)"
proof (cases "RT_VALID_PTR q \<and> h q \<noteq> None")
  case False
  with assms(1) show ?thesis
    by (auto simp: RTR0MemObjMapUserTag_def RTR0MemObjMapKernelExTag_def RTR0MemObjMapKernelEx_def mo_map_checks_def memobj_map_def mo_fail_def)
next
  case True
  then obtain par where par: "h q = Some par" "RT_VALID_PTR q" by auto
  show ?thesis
  proof (cases "mo_enmType par = MO_MAPPING \<or> mo_enmType par = MO_RES_VIRT")
    case True
    with par assms(1) show ?thesis
      by (auto simp: RTR0MemObjMapUserTag_def RTR0MemObjMapKernelExTag_def RTR0MemObjMapKernelEx_def mo_map_checks_def memobj_map_def mo_fail_def
          rtR0MemObjIsMapping_def)
  next
    case False
    with mo_map_eq[where h = h and q = q and par = par and r = r and p = p and m = m and fGrow = fGrow] par assms(2) have
      e: "mo_map (r, p, m) fGrow q h = map_option (\<lambda>(r', c, h'). (r', Some c, h')) (memobj_map r p m fGrow q h)" by blast
    from prot have "mo_map_checks pMemObj q (- 1) 0 fProt h k = k par PAGE_SIZE" for k
      using False par assms(1) by (simp add: mo_map_checks_def rtR0MemObjIsMapping_def)
    then show ?thesis using False par
      by (simp add: RTR0MemObjMapUserTag_def RTR0MemObjMapKernelExTag_def RTR0MemObjMapKernelEx_def rtR0MemObjIsMapping_def e mo_fail_def)
  qed
qed

section \<open>Witnesses\<close>

definition page_native :: "u64 \<Rightarrow> bool \<Rightarrow> native" where
  "page_native cb fExecutable = (0, 0x60000, memobj_new MO_PAGE cb 0xffff800000100000 NIL_RTR0PROCESS (\<lambda>i. 0x100000 + push_bit 12 i))"

definition map_native :: native where
  "map_native = (0, 0x61000, memobj_new MO_MAPPING 0x1000 0x7f0000000000 4711 (\<lambda>i. 0x100000 + push_bit 12 i))"

definition page_heap :: memobjs where
  "page_heap = [0x60000 \<mapsto> memobj_new MO_PAGE 0x1000 0xffff800000100000 NIL_RTR0PROCESS (\<lambda>i. 0x100000 + push_bit 12 i)]"

lemma page_heap_alloc: "RTR0MemObjAllocPageTag page_native 0x50000 100 False Map.empty = (0, Some 0x60000, page_heap)"
  by (simp add: RTR0MemObjAllocPageTag_def page_align_def mo_checks_def mo_native_def page_native_def memobj_alloc_def page_heap_def
      RT_VALID_PTR_def)

lemma natives_ok: "h 0x60000 = None \<Longrightarrow> alloc_ok h (page_native a b)" "map_ok page_heap map_native" "handle_live page_heap 0x60000"
proof -
  show "h 0x60000 = None \<Longrightarrow> alloc_ok h (page_native a b)"
    unfolding native_ok_def page_native_def prod.case
    by (intro impI conjI exI, simp, simp add: RT_VALID_PTR_def, rule refl) simp
  show "map_ok page_heap map_native"
    unfolding native_ok_def map_native_def prod.case by (auto simp: RT_VALID_PTR_def page_heap_def)
  show "handle_live page_heap 0x60000" by (simp add: handle_live_def obj_at_def page_heap_def)
qed

theorem mo_api_safe_witness:
  "\<exists>h. run_steps moStep [MAllocPage page_native 0x50000 100 False,
     MMapUser (\<lambda>_ _ _ _ _. map_native) 4711 True 0x50000 0x60000 (- 1) 0 3 4711] Map.empty = Some h \<and> heap_ok h"
proof -
  have "heap_ok Map.empty" by (simp add: heap_ok_def)
  moreover have "run_ok moStep moOpOk [MAllocPage page_native 0x50000 100 False,
     MMapUser (\<lambda>_ _ _ _ _. map_native) 4711 True 0x50000 0x60000 (- 1) 0 3 4711] Map.empty"
    using page_heap_alloc natives_ok by (simp split: option.split)
  ultimately show ?thesis by (rule mo_api_safe)
qed

theorem map_refines_witness:
  "\<exists>h. RTR0MemObjMapUserTag (\<lambda>_ _ _ _ _. map_native) 4711 True 0x50000 0x60000 (- 1) 0 7 4711 page_heap = Some (0, Some 0x61000, h)"
proof -
  have "RT_VALID_PTR 0x50000" "page_heap 0x61000 = None" by (simp_all add: RT_VALID_PTR_def page_heap_def)
  from map_refines[OF this(1), of 0 page_heap "0x61000" 7] this(2) show ?thesis
    by (auto simp: map_native_def memobj_map_def page_heap_def rtR0MemObjIsMapping_def rtR0MemObjLink_def RT_VALID_PTR_def)
qed

end
