(* ===== verification/SupUsage.thy ===== *)
theory SupUsage
  imports SupPrelude
begin

text \<open>
  Per-session usage records and the accounting they serve.  The driver keeps, for every
  registered object and every loaded image, a global counter \<open>cUsage\<close>, and in every session
  a singly linked list of records that say how often this session uses which object
  (\<open>SUPDRVUSAGE\<close>) or image (\<open>SUPDRVLDRUSAGE\<close>).  The two structs have the same shape, a
  pointer and a counter, so one record type and one set of list walks model both.

  \<open>refcounting\<close> is the interface: what retaining and releasing do to the global counters
  and to the records.  From it follow once, for both uses, that the counters stay equal to
  the number of references held and that nothing is destroyed while it is referenced.
\<close>

section \<open>Usage records\<close>

record usage =
  u_ref :: addr      \<comment> \<open>\<open>pObj\<close> of \<open>SUPDRVUSAGE\<close>, \<open>pImage\<close> of \<open>SUPDRVLDRUSAGE\<close>\<close>
  u_cUsage :: u32

lemma usage_overwrite [simp]:
  "(u :: usage)\<lparr>u_ref := p, u_cUsage := c\<rparr> = \<lparr>u_ref = p, u_cUsage = c\<rparr>"
  by (cases u) simp

text \<open>The walk \<open>while (pUsage && pUsage->p != p) pUsage = pUsage->pNext\<close>.\<close>

fun usage_find :: "addr \<Rightarrow> usage list \<Rightarrow> usage option" where
  "usage_find p [] = None"
| "usage_find p (u # us) = (if u_ref u = p then Some u else usage_find p us)"

text \<open>\<open>pUsage->cUsage++\<close> on the record found by the walk.\<close>

fun usage_inc :: "addr \<Rightarrow> usage list \<Rightarrow> usage list" where
  "usage_inc p [] = []"
| "usage_inc p (u # us) =
     (if u_ref u = p then u\<lparr>u_cUsage := u_cUsage u + 1\<rparr> # us else u # usage_inc p us)"

text \<open>\<open>pUsage->cUsage--\<close> on the record found by the walk.\<close>

fun usage_dec :: "addr \<Rightarrow> usage list \<Rightarrow> usage list" where
  "usage_dec p [] = []"
| "usage_dec p (u # us) =
     (if u_ref u = p then u\<lparr>u_cUsage := u_cUsage u - 1\<rparr> # us else u # usage_dec p us)"

text \<open>Unlinking the record found by the walk.\<close>

fun usage_unlink :: "addr \<Rightarrow> usage list \<Rightarrow> usage list" where
  "usage_unlink p [] = []"
| "usage_unlink p (u # us) = (if u_ref u = p then us else u # usage_unlink p us)"

section \<open>How often a list of records refers to something\<close>

fun held :: "addr \<Rightarrow> usage list \<Rightarrow> nat" where
  "held p [] = 0"
| "held p (u # us) = (if u_ref u = p then unat (u_cUsage u) else 0) + held p us"

text \<open>Well-formed record lists: one record per target, and no record with count 0.\<close>

definition usages_ok :: "usage list \<Rightarrow> bool" where
  "usages_ok us \<longleftrightarrow> distinct (map u_ref us) \<and> (\<forall>u \<in> set us. u_cUsage u \<noteq> 0)"

lemma usages_ok_Nil [simp]: "usages_ok []"
  by (simp add: usages_ok_def)

lemma usages_ok_Cons [simp]:
  "usages_ok (u # us) \<longleftrightarrow> u_ref u \<notin> u_ref ` set us \<and> u_cUsage u \<noteq> 0 \<and> usages_ok us"
  by (auto simp: usages_ok_def)

lemma usage_find_SomeD: "usage_find p us = Some u \<Longrightarrow> u \<in> set us \<and> u_ref u = p"
  by (induction us) (auto split: if_splits)

lemma usage_find_None_iff: "usage_find p us = None \<longleftrightarrow> p \<notin> u_ref ` set us"
  by (induction us) auto

lemma held_0 [simp]: "p \<notin> u_ref ` set us \<Longrightarrow> held p us = 0"
  by (induction us) auto

lemma held_find:
  "usages_ok us \<Longrightarrow> held p us = (case usage_find p us of None \<Rightarrow> 0 | Some u \<Rightarrow> unat (u_cUsage u))"
  by (induction us) auto

lemma held_eq_0_iff: "usages_ok us \<Longrightarrow> held p us = 0 \<longleftrightarrow> usage_find p us = None"
  by (auto simp: held_find unat_eq_0 dest!: usage_find_SomeD split: option.split)
     (auto simp: usages_ok_def)

lemma set_usage_inc [simp]: "u_ref ` set (usage_inc p us) = u_ref ` set us"
  by (induction us) auto

lemma set_usage_dec [simp]: "u_ref ` set (usage_dec p us) = u_ref ` set us"
  by (induction us) auto

lemma set_usage_unlink: "usages_ok us \<Longrightarrow> u_ref ` set (usage_unlink p us) = u_ref ` set us - {p}"
proof (induction us)
  case (Cons v us)
  then show ?case by (cases "u_ref v = p") auto
qed simp

lemma usages_ok_unlink: "usages_ok us \<Longrightarrow> usages_ok (usage_unlink p us)"
  by (induction us) (auto simp: set_usage_unlink)

lemma usages_ok_inc:
  "usages_ok us \<Longrightarrow> held p us < 4294967295 \<Longrightarrow> usages_ok (usage_inc p us)"
proof (induction us)
  case (Cons v us)
  show ?case
  proof (cases "u_ref v = p")
    case True
    with Cons.prems have "unat (u_cUsage v) < 4294967295" by simp
    then have "unat (u_cUsage v + 1) \<noteq> 0"
      by (simp add: unat_inc u32_no_wrap)
    then have "u_cUsage v + 1 \<noteq> 0" by (metis unat_0)
    with True Cons.prems show ?thesis by simp
  next
    case False
    with Cons show ?thesis by simp
  qed
qed simp

lemma usages_ok_dec:
  "usages_ok us \<Longrightarrow> usage_find p us = Some u \<Longrightarrow> 1 < u_cUsage u \<Longrightarrow> usages_ok (usage_dec p us)"
  by (induction us) (auto split: if_splits)

lemma held_inc:
  assumes "usages_ok us" "usage_find p us \<noteq> None" "held p us < 4294967295"
  shows "held q (usage_inc p us) = (if q = p then Suc (held q us) else held q us)"
  using assms
proof (induction us)
  case (Cons v us)
  show ?case
  proof (cases "u_ref v = p")
    case True
    with Cons.prems have "held p us = 0" by simp
    with True Cons.prems have "unat (u_cUsage v) < 4294967295" by simp
    then have "unat (u_cUsage v + 1) = Suc (unat (u_cUsage v))"
      by (intro unat_inc u32_no_wrap)
    with True show ?thesis by simp
  next
    case False
    with Cons show ?thesis by simp
  qed
qed simp

lemma held_dec:
  assumes "usages_ok us" "usage_find p us \<noteq> None"
  shows "held q (usage_dec p us) = (if q = p then held q us - 1 else held q us)"
  using assms
proof (induction us)
  case (Cons v us)
  then show ?case
    by (cases "u_ref v = p") (auto simp: unat_dec unat_gt_0 word_neq_0_conv)
qed simp

lemma held_unlink: "usages_ok us \<Longrightarrow> held q (usage_unlink p us) = (if q = p then 0 else held q us)"
  by (induction us) auto

section \<open>The account: global counters and the records of all sessions\<close>

text \<open>
  An account is the pair of the global counters of what is alive and the record lists of the
  open sessions.  Its operations are the abstract specification of reference counting in the
  driver; they are partial, and undefined where the code must not go.
\<close>

type_synonym acct = "(addr \<rightharpoonup> u32) \<times> (addr \<rightharpoonup> usage list)"

definition usage_retain :: "addr \<Rightarrow> usage list \<Rightarrow> usage list" where
  "usage_retain p us = (case usage_find p us of
       Some u \<Rightarrow> usage_inc p us
     | None \<Rightarrow> \<lparr>u_ref = p, u_cUsage = 1\<rparr> # us)"

definition acct_create :: "addr \<Rightarrow> addr \<Rightarrow> acct \<Rightarrow> acct option" where
  "acct_create a p G = (case (fst G p, snd G a) of
       (None, Some us) \<Rightarrow> Some ((fst G)(p \<mapsto> 1), (snd G)(a \<mapsto> \<lparr>u_ref = p, u_cUsage = 1\<rparr> # us))
     | _ \<Rightarrow> None)"

definition acct_retain :: "addr \<Rightarrow> addr \<Rightarrow> acct \<Rightarrow> acct option" where
  "acct_retain a p G = (case (fst G p, snd G a) of
       (Some c, Some us) \<Rightarrow> Some ((fst G)(p \<mapsto> c + 1), (snd G)(a \<mapsto> usage_retain p us))
     | _ \<Rightarrow> None)"

definition acct_release :: "addr \<Rightarrow> addr \<Rightarrow> acct \<Rightarrow> acct option" where
  "acct_release a p G = (case (fst G p, snd G a) of
       (Some c, Some us) \<Rightarrow> (case usage_find p us of
           None \<Rightarrow> None
         | Some u \<Rightarrow>
             if 1 < u_cUsage u
             then Some ((fst G)(p \<mapsto> c - 1), (snd G)(a \<mapsto> usage_dec p us))
             else Some ((fst G)(p := (if 1 < c then Some (c - 1) else None)),
                        (snd G)(a \<mapsto> usage_unlink p us)))
     | _ \<Rightarrow> None)"

text \<open>Dropping the first record of a closing session with all the references it counts.\<close>

definition acct_drop :: "addr \<Rightarrow> acct \<Rightarrow> acct option" where
  "acct_drop a G = (case snd G a of
       Some (u # us) \<Rightarrow> (case fst G (u_ref u) of
           Some c \<Rightarrow> Some ((fst G)(u_ref u := (if u_cUsage u < c then Some (c - u_cUsage u) else None)),
                          (snd G)(a \<mapsto> us))
         | None \<Rightarrow> None)
     | _ \<Rightarrow> None)"

definition acct_open :: "addr \<Rightarrow> acct \<Rightarrow> acct option" where
  "acct_open a G = (if snd G a = None then Some (fst G, (snd G)(a \<mapsto> [])) else None)"

definition acct_close :: "addr \<Rightarrow> acct \<Rightarrow> acct option" where
  "acct_close a G = (if snd G a = Some [] then Some (fst G, (snd G)(a := None)) else None)"

text \<open>The number of references to \<open>p\<close> over all sessions, and the balance of an account.\<close>

definition total_held :: "(addr \<rightharpoonup> usage list) \<Rightarrow> addr \<Rightarrow> nat" where
  "total_held m p = (\<Sum>a \<in> dom m. held p (the (m a)))"

definition counted :: "acct \<Rightarrow> addr \<Rightarrow> nat" where
  "counted G p = (case fst G p of None \<Rightarrow> 0 | Some c \<Rightarrow> unat c)"

text \<open>
  An account with \<open>e p\<close> references to \<open>p\<close> that no session holds: every counter is the number of
  references held plus \<open>e\<close>.  A balanced account has none.
\<close>

definition accounted :: "(addr \<Rightarrow> nat) \<Rightarrow> acct \<Rightarrow> bool" where
  "accounted e G \<longleftrightarrow> finite (dom (snd G)) \<and> (\<forall>a us. snd G a = Some us \<longrightarrow> usages_ok us) \<and>
     (\<forall>p. counted G p = total_held (snd G) p + e p) \<and> (\<forall>p. fst G p \<noteq> Some 0)"

abbreviation balanced :: "acct \<Rightarrow> bool" where
  "balanced \<equiv> accounted (\<lambda>_. 0)"

lemma balanced_def:
  "balanced G \<longleftrightarrow> finite (dom (snd G)) \<and> (\<forall>a us. snd G a = Some us \<longrightarrow> usages_ok us) \<and>
     (\<forall>p. (case fst G p of None \<Rightarrow> 0 | Some c \<Rightarrow> unat c) = total_held (snd G) p) \<and>
     (\<forall>p. fst G p \<noteq> Some 0)"
  by (simp add: accounted_def counted_def)

lemma counted_simps [simp]: "fst G p = None \<Longrightarrow> counted G p = 0" "fst G p = Some c \<Longrightarrow> counted G p = unat c"
  by (simp_all add: counted_def)

lemma total_held_upd:
  assumes "finite (dom m)" "m a = Some us"
  shows "total_held (m(a \<mapsto> us')) p + held p us = total_held m p + held p us'"
proof -
  have d: "dom (m(a \<mapsto> us')) = dom m" using assms(2) by auto
  have a: "a \<in> dom m" using assms(2) by auto
  have "total_held m p = held p us + (\<Sum>b \<in> dom m - {a}. held p (the (m b)))"
    unfolding total_held_def using assms by (subst sum.remove[OF _ a]) auto
  moreover have "total_held (m(a \<mapsto> us')) p = held p us' + (\<Sum>b \<in> dom m - {a}. held p (the (m b)))"
    unfolding total_held_def d using assms(1) by (subst sum.remove[OF _ a]) auto
  ultimately show ?thesis by simp
qed

lemma total_held_ge: "finite (dom m) \<Longrightarrow> m a = Some us \<Longrightarrow> held p us \<le> total_held m p"
  unfolding total_held_def by (metis domI member_le_sum option.sel zero_le)

lemma total_held_new: "finite (dom m) \<Longrightarrow> m a = None \<Longrightarrow> total_held (m(a \<mapsto> [])) p = total_held m p"
  unfolding total_held_def
  by (simp add: domIff) (rule sum.cong, auto)

lemma total_held_del:
  assumes "finite (dom m)" "m a = Some []"
  shows "total_held (m(a := None)) p = total_held m p"
proof -
  have a: "a \<in> dom m" using assms(2) by auto
  show ?thesis
    unfolding total_held_def using assms by (subst sum.remove[OF _ a, of "\<lambda>b. held p (the (m b))"]) auto
qed

lemma accounted_ok: "accounted e G \<Longrightarrow> snd G a = Some us \<Longrightarrow> usages_ok us"
  by (simp add: accounted_def)

lemma accounted_held_le:
  assumes "accounted e G" "snd G a = Some us"
  shows "held p us + e p \<le> counted G p"
  using assms total_held_ge[of "snd G" a us p] by (simp add: accounted_def)

text \<open>In an account every record points to something alive and counts at most its counter.\<close>

lemma accounted_record:
  assumes "accounted e G" "snd G a = Some us" "u \<in> set us"
  shows "\<exists>c. fst G (u_ref u) = Some c \<and> u_cUsage u \<le> c \<and> u_cUsage u \<noteq> 0"
proof -
  have ok: "usages_ok us" by (rule accounted_ok[OF assms(1,2)])
  from ok assms(3) have "held (u_ref u) us = unat (u_cUsage u) \<and> u_cUsage u \<noteq> 0"
    by (induction us) auto
  with accounted_held_le[OF assms(1,2), of "u_ref u"] show ?thesis
    by (cases "fst G (u_ref u)") (auto simp: word_le_nat_alt unat_eq_0)
qed

text \<open>Updating one counter and one record list keeps the account when both move alike.\<close>

lemma accounted_update:
  assumes b: "accounted e G" and m: "snd G a = Some us" and ok: "usages_ok us'"
    and other: "\<And>q. q \<noteq> p \<Longrightarrow> held q us' = held q us"
    and same: "(case c' of None \<Rightarrow> 0 | Some c \<Rightarrow> unat c) + held p us = counted G p + held p us'"
    and nz: "c' \<noteq> Some 0"
  shows "accounted e ((fst G)(p := c'), (snd G)(a \<mapsto> us'))"
proof -
  have f: "finite (dom (snd G))" using b by (simp add: accounted_def)
  have t: "total_held ((snd G)(a \<mapsto> us')) q + held q us = total_held (snd G) q + held q us'" for q
    by (rule total_held_upd[OF f m])
  have g: "counted G q = total_held (snd G) q + e q" for q
    using b by (simp add: accounted_def)
  have "counted ((fst G)(p := c'), (snd G)(a \<mapsto> us')) q = total_held ((snd G)(a \<mapsto> us')) q + e q" for q
    using t[of q] g[of q] other[of q] same by (cases "q = p") (auto simp: counted_def)
  moreover have "\<forall>b vs. ((snd G)(a \<mapsto> us')) b = Some vs \<longrightarrow> usages_ok vs"
    using b ok by (auto simp: accounted_def)
  moreover have "\<forall>q. ((fst G)(p := c')) q \<noteq> Some 0"
    using b nz by (simp add: accounted_def)
  ultimately show ?thesis using f by (simp add: accounted_def)
qed

section \<open>The operations of an account keep the account\<close>

lemma acct_open_accounted: "acct_open a G = Some G' \<Longrightarrow> accounted e G \<Longrightarrow> accounted e G'"
  by (auto simp: acct_open_def accounted_def counted_def total_held_new split: if_splits)

lemma acct_close_accounted: "acct_close a G = Some G' \<Longrightarrow> accounted e G \<Longrightarrow> accounted e G'"
  by (auto simp: acct_close_def accounted_def counted_def total_held_del split: if_splits)

lemma acct_create_accounted:
  assumes c: "acct_create a p G = Some G'" and b: "accounted e G"
  shows "accounted e G'"
proof -
  from c obtain us where p: "fst G p = None" and a: "snd G a = Some us"
    and G': "G' = ((fst G)(p := Some 1), (snd G)(a \<mapsto> \<lparr>u_ref = p, u_cUsage = 1\<rparr> # us))"
    by (auto simp: acct_create_def split: option.splits)
  have "held p us = 0" using accounted_held_le[OF b a, of p] p by simp
  with accounted_ok[OF b a] have "p \<notin> u_ref ` set us"
    by (simp add: held_eq_0_iff usage_find_None_iff)
  with accounted_ok[OF b a] p show ?thesis
    unfolding G' by (intro accounted_update[OF b a]) auto
qed

lemma usages_ok_retain:
  "usages_ok us \<Longrightarrow> held p us < 4294967295 \<Longrightarrow> usages_ok (usage_retain p us)"
  by (auto simp: usage_retain_def usages_ok_inc usage_find_None_iff split: option.splits)

lemma held_retain:
  "usages_ok us \<Longrightarrow> held p us < 4294967295 \<Longrightarrow>
   held q (usage_retain p us) = (if q = p then Suc (held q us) else held q us)"
  by (auto simp: usage_retain_def held_inc usage_find_None_iff split: option.splits)

lemma acct_retain_accounted:
  assumes r: "acct_retain a p G = Some G'" and b: "accounted e G" and c: "fst G p \<noteq> Some (- 1)"
  shows "accounted e G'"
proof -
  from r obtain c where p: "fst G p = Some c" and "\<exists>us. snd G a = Some us \<and>
      G' = ((fst G)(p := Some (c + 1)), (snd G)(a \<mapsto> usage_retain p us))"
    by (auto simp: acct_retain_def split: option.splits)
  then obtain us where a: "snd G a = Some us"
    and G': "G' = ((fst G)(p := Some (c + 1)), (snd G)(a \<mapsto> usage_retain p us))" by blast
  have cm: "c \<noteq> - 1" using c p by simp
  then have "unat c < 4294967295" by (rule u32_wrap_bound)
  then have h: "held p us < 4294967295"
    using accounted_held_le[OF b a, of p] p by simp
  have nz: "c + 1 \<noteq> 0" using cm by (rule u32_inc_nonzero)
  show ?thesis
    unfolding G' using accounted_ok[OF b a] h p cm nz
    by (intro accounted_update[OF b a]) (auto simp: usages_ok_retain held_retain unat_inc)
qed

lemma acct_release_accounted:
  assumes r: "acct_release a p G = Some G'" and b: "accounted e G"
  shows "accounted e G'"
proof -
  from r obtain c us u where p: "fst G p = Some c" and a: "snd G a = Some us"
    and u: "usage_find p us = Some u"
    and G': "G' = (if 1 < u_cUsage u
        then ((fst G)(p := Some (c - 1)), (snd G)(a \<mapsto> usage_dec p us))
        else ((fst G)(p := (if 1 < c then Some (c - 1) else None)), (snd G)(a \<mapsto> usage_unlink p us)))"
    by (auto simp: acct_release_def split: option.splits if_splits)
  note ok = accounted_ok[OF b a]
  have hp: "held p us = unat (u_cUsage u)" using ok u by (simp add: held_find)
  have u0: "u_cUsage u \<noteq> 0" using ok u by (auto simp: usages_ok_def dest: usage_find_SomeD)
  have le: "unat (u_cUsage u) \<le> unat c" using accounted_held_le[OF b a, of p] p hp by simp
  have c0: "c \<noteq> 0" using b p by (auto simp: accounted_def counted_def)
  then have cpos: "0 < unat c" by (simp add: unat_gt_0)
  show ?thesis
  proof (cases "1 < u_cUsage u")
    case True
    then have gt: "1 < unat (u_cUsage u)" by (simp add: word_gt_1)
    then have "1 < c" using le by (simp add: word_gt_1)
    then have "c - 1 \<noteq> 0" by auto
    with True show ?thesis
      unfolding G' if_P[OF True] using ok u p hp le c0 gt True
      by (intro accounted_update[OF b a]) (auto simp: usages_ok_dec held_dec unat_dec unat_gt_0)
  next
    case False
    have u1: "unat (u_cUsage u) = 1" using u0 False by (rule u32_one)
    have "1 < c \<Longrightarrow> c - 1 \<noteq> 0" by auto
    moreover have "\<not> 1 < c \<Longrightarrow> unat c = 1" by (rule u32_one[OF c0])
    ultimately show ?thesis
      unfolding G' if_not_P[OF False] using ok u p hp cpos c0 u1
      by (intro accounted_update[OF b a]) (auto simp: usages_ok_unlink held_unlink unat_dec)
  qed
qed

lemma acct_drop_accounted:
  assumes d: "acct_drop a G = Some G'" and b: "accounted e G"
  shows "accounted e G'"
proof -
  from d obtain u us c where a: "snd G a = Some (u # us)" and p: "fst G (u_ref u) = Some c"
    and G': "G' = ((fst G)(u_ref u := (if u_cUsage u < c then Some (c - u_cUsage u) else None)), (snd G)(a \<mapsto> us))"
    by (auto simp: acct_drop_def split: option.splits list.splits)
  note ok = accounted_ok[OF b a]
  have le: "unat (u_cUsage u) \<le> unat c" using accounted_held_le[OF b a, of "u_ref u"] p ok by simp
  have "u_cUsage u < c \<Longrightarrow> unat (c - u_cUsage u) = unat c - unat (u_cUsage u)"
    by (simp add: unat_sub)
  moreover have "\<not> u_cUsage u < c \<Longrightarrow> unat c = unat (u_cUsage u)"
    using le by (simp add: word_less_nat_alt)
  moreover have "u_cUsage u < c \<Longrightarrow> c - u_cUsage u \<noteq> 0" by auto
  ultimately show ?thesis
    unfolding G' using ok p le by (intro accounted_update[OF b a]) auto
qed

section \<open>The interface of a reference counted resource\<close>

text \<open>
  A provider of reference counting (the object table, the image list) abstracts its state to
  an account and promises that its operations, where they succeed, are the operations of the
  account.  The client lemmas are proved here once: balance is kept, a referenced thing is
  alive, and releasing the last reference is exactly what ends its life.
\<close>

locale refcounting =
  fixes acct :: "'s \<Rightarrow> acct"
    and retain :: "addr \<Rightarrow> addr \<Rightarrow> 's \<Rightarrow> 's option"
    and release :: "addr \<Rightarrow> addr \<Rightarrow> 's \<Rightarrow> 's option"
  assumes retain_law: "retain a p s = Some s' \<Longrightarrow> acct_retain a p (acct s) = Some (acct s')"
    and release_law: "accounted e (acct s) \<Longrightarrow> release a p s = Some s' \<Longrightarrow> acct_release a p (acct s) = Some (acct s')"
begin

lemma retain_keeps_balance:
  "retain a p s = Some s' \<Longrightarrow> accounted e (acct s) \<Longrightarrow> fst (acct s) p \<noteq> Some (- 1) \<Longrightarrow> accounted e (acct s')"
  by (rule acct_retain_accounted[OF retain_law])

lemma release_keeps_balance:
  assumes "release a p s = Some s'" "accounted e (acct s)"
  shows "accounted e (acct s')"
  by (rule acct_release_accounted[OF release_law[OF assms(2,1)] assms(2)])

lemma referenced_alive:
  assumes "accounted e (acct s)" "snd (acct s) a = Some us" "0 < held p us"
  shows "\<exists>c. fst (acct s) p = Some c \<and> 0 < unat c"
  using accounted_held_le[OF assms(1,2), of p] assms(3) by (cases "fst (acct s) p") auto

lemma release_destroys_iff_last:
  assumes r: "release a p s = Some s'" and b: "accounted e (acct s)"
  shows "fst (acct s') p = None \<longleftrightarrow> total_held (snd (acct s)) p + e p = 1"
proof -
  from release_law[OF b r] obtain c us u where p: "fst (acct s) p = Some c"
    and a: "snd (acct s) a = Some us" and u: "usage_find p us = Some u"
    and c': "fst (acct s') p = (if 1 < u_cUsage u \<or> 1 < c then Some (c - 1) else None)"
    by (auto simp: acct_release_def split: option.splits if_splits) (metis fst_conv fun_upd_same)+
  have t: "total_held (snd (acct s)) p + e p = unat c" and c0: "c \<noteq> 0"
    using b p by (auto simp: accounted_def counted_def dest!: spec[of _ p])
  have "held p us = unat (u_cUsage u)" using accounted_ok[OF b a] u by (simp add: held_find)
  with accounted_held_le[OF b a, of p] p have "1 < u_cUsage u \<Longrightarrow> 1 < c"
    by (simp add: word_gt_1)
  then show ?thesis using c' t u32_one[OF c0] by (auto simp: word_gt_1)
qed

end

text \<open>A counter that goes up without a record: one more reference that nobody holds.\<close>

lemma accounted_leak:
  assumes "accounted e G" "fst G p = Some c" "c \<noteq> - 1"
  shows "accounted (e(p := Suc (e p))) ((fst G)(p \<mapsto> c + 1), snd G)"
proof -
  have "counted ((fst G)(p \<mapsto> c + 1), snd G) q = total_held (snd G) q + (e(p := Suc (e p))) q" for q
    using assms unat_inc[OF assms(3)] by (auto simp: accounted_def counted_def dest!: spec[of _ q])
  with assms u32_inc_nonzero[OF assms(3)] show ?thesis by (auto simp: accounted_def)
qed

lemma accounted_new_leak:
  assumes "accounted e G" "fst G p = None"
  shows "accounted (e(p := 1)) ((fst G)(p \<mapsto> 1), snd G)"
proof -
  have "counted ((fst G)(p \<mapsto> 1), snd G) q = total_held (snd G) q + (e(p := 1)) q" for q
    using assms by (auto simp: accounted_def counted_def dest!: spec[of _ q])
  with assms show ?thesis by (auto simp: accounted_def)
qed

text \<open>Retaining something that is not alive yet is creating it.\<close>

lemma usage_retain_new:
  assumes "accounted e G" "snd G a = Some us" "fst G p = None"
  shows "usage_retain p us = \<lparr>u_ref = p, u_cUsage = 1\<rparr> # us"
proof -
  have "held p us = 0" using accounted_held_le[OF assms(1,2), of p] assms(3) by simp
  then show ?thesis
    using accounted_ok[OF assms(1,2)] by (simp add: held_eq_0_iff usage_retain_def)
qed

end
