(* ===== verification/RTHandleTable.thy ===== *)
theory RTHandleTable
  imports SupPrelude
begin

text \<open>
  The IPRT handle table (\<open>src/VBox/Runtime/common/misc/handletable.h\<close>, \<open>handletable.cpp\<close>,
  \<open>handletablectx.cpp\<close>), in the flavour with contexts that the sessions of the support driver
  use: a two level table of entries, whose unused entries are chained into a first-in first-out
  free list by index.  An unused entry is told from a used one by the two lowest bits of its
  first word.  The table is a value of its own; the callbacks that retain and delete objects work
  on the state \<open>'s\<close> around it and are arguments (a table without a retain callback is one whose
  callback always succeeds and does nothing).  The spinlock only shows in where the code lets go
  of it: allocation is split there into sections, each of which is atomic.
\<close>

section \<open>The table\<close>

definition RTHT_LEVEL2_ENTRIES :: nat where
  "RTHT_LEVEL2_ENTRIES = 2048"

abbreviation "RTHT_LEVEL1_DYN_ALLOC_THRESHOLD \<equiv> (256::nat)"
abbreviation "NIL_RTHT_INDEX \<equiv> (- 1::u32)"
abbreviation "RTHANDLETABLE_MAGIC \<equiv> (0x19830808::u32)"
abbreviation "RTHANDLETABLE_FLAGS_CONTEXT \<equiv> (1::u32)"
abbreviation "RTHANDLETABLE_FLAGS_LOCKED \<equiv> (2::u32)"
abbreviation "RTHANDLETABLE_FLAGS_LOCKED_IRQ_SAFE \<equiv> (4::u32)"
abbreviation "RTHANDLETABLE_FLAGS_MASK \<equiv> (7::u32)"
abbreviation "VERR_NO_MORE_HANDLES \<equiv> (-81::rc)"
abbreviation "VERR_INVALID_FUNCTION \<equiv> (-36::rc)"

record RTHTENTRYCTX =
  he_pvObj :: addr
  he_pvCtx :: addr

record RTHANDLETABLEINT =
  ht_u32Magic :: u32
  ht_fFlags :: u32
  ht_uBase :: u32
  ht_cCur :: u32
  ht_papvLevel1 :: "RTHTENTRYCTX list option list"   \<comment> \<open>and \<open>cLevel1\<close>, its length\<close>
  ht_cMax :: u32
  ht_cCurAllocated :: u32
  ht_iFreeHead :: u32
  ht_iFreeTail :: u32

definition RTHT_IS_FREE :: "addr \<Rightarrow> bool" where
  "RTHT_IS_FREE pvObj \<longleftrightarrow> pvObj AND 3 = 3"

definition RTHT_SET_FREE_IDX :: "u32 \<Rightarrow> RTHTENTRYCTX \<Rightarrow> RTHTENTRYCTX" where
  "RTHT_SET_FREE_IDX idx e = e\<lparr>he_pvObj := push_bit 2 (ucast idx) OR 3\<rparr>"

definition RTHT_GET_FREE_IDX :: "RTHTENTRYCTX \<Rightarrow> u32" where
  "RTHT_GET_FREE_IDX e = ucast (drop_bit 2 (he_pvObj e))"

text \<open>
  The pointer to an entry is its index; the lookup also tells what it points to.  The first
  level array is read at \<open>i / RTHT_LEVEL2_ENTRIES\<close> without a check of its own.
\<close>

definition rtHandleTableLookupWithCtxIdx :: "RTHANDLETABLEINT \<Rightarrow> u32 \<Rightarrow> RTHTENTRYCTX option option" where
  "rtHandleTableLookupWithCtxIdx t i =
     (if i < ht_cCur t
      then (let i1 = unat i div RTHT_LEVEL2_ENTRIES; i2 = unat i mod RTHT_LEVEL2_ENTRIES in
            if i1 < length (ht_papvLevel1 t)
            then (case ht_papvLevel1 t ! i1 of
                    None \<Rightarrow> Some None
                  | Some paTable \<Rightarrow> if i2 < length paTable then Some (Some (paTable ! i2)) else None)
            else None)
      else Some None)"

definition rtHandleTableLookupWithCtx :: "RTHANDLETABLEINT \<Rightarrow> u32 \<Rightarrow> RTHTENTRYCTX option option" where
  "rtHandleTableLookupWithCtx t h = rtHandleTableLookupWithCtxIdx t (h - ht_uBase t)"

text \<open>Storing through such a pointer.\<close>

definition ht_put :: "u32 \<Rightarrow> RTHTENTRYCTX \<Rightarrow> RTHANDLETABLEINT \<Rightarrow> RTHANDLETABLEINT" where
  "ht_put i e t = (let i1 = unat i div RTHT_LEVEL2_ENTRIES in
     t\<lparr>ht_papvLevel1 := (ht_papvLevel1 t)
        [i1 := map_option (\<lambda>pa. pa[unat i mod RTHT_LEVEL2_ENTRIES := e]) (ht_papvLevel1 t ! i1)]\<rparr>)"

section \<open>Creating a table\<close>

text \<open>\<open>fAlloc\<close> and \<open>rcLock\<close> are what the heap and \<open>RTSpinlockCreate\<close> answer.\<close>

definition RTHandleTableCreateEx ::
  "u32 \<Rightarrow> u32 \<Rightarrow> u32 \<Rightarrow> bool \<Rightarrow> rc \<Rightarrow> rc \<times> RTHANDLETABLEINT option" where
  "RTHandleTableCreateEx fFlags uBase cMax fAlloc rcLock =
     (if fFlags AND NOT RTHANDLETABLE_FLAGS_MASK \<noteq> 0 then (VERR_INVALID_PARAMETER, None)
      else if fFlags AND RTHANDLETABLE_FLAGS_LOCKED \<noteq> 0 \<and> fFlags AND RTHANDLETABLE_FLAGS_LOCKED_IRQ_SAFE \<noteq> 0
      then (VERR_INVALID_PARAMETER, None)
      else if \<not> 0 < cMax then (VERR_INVALID_PARAMETER, None)
      else if \<not> uBase \<le> - 1 - cMax then (VERR_INVALID_PARAMETER, None)
      else
        let n = of_nat RTHT_LEVEL2_ENTRIES :: u32;
            cMax1 = (if - 1 - n \<le> cMax then - 1 - n + 1 else cMax);
            cMax2 = (cMax1 + n - 1) div n * n;
            cLevel1 = unat (cMax2 div n) in
        if \<not> fAlloc then (VERR_NO_MEMORY, None)
        else if fFlags AND (RTHANDLETABLE_FLAGS_LOCKED OR RTHANDLETABLE_FLAGS_LOCKED_IRQ_SAFE) \<noteq> 0 \<and> RT_FAILURE rcLock
        then (rcLock, None)
        else (VINF_SUCCESS, Some
          \<lparr>ht_u32Magic = RTHANDLETABLE_MAGIC, ht_fFlags = fFlags, ht_uBase = uBase, ht_cCur = 0,
           ht_papvLevel1 = (if cLevel1 < RTHT_LEVEL1_DYN_ALLOC_THRESHOLD then replicate cLevel1 None else []),
           ht_cMax = cMax2, ht_cCurAllocated = 0, ht_iFreeHead = NIL_RTHT_INDEX, ht_iFreeTail = NIL_RTHT_INDEX\<rparr>))"

section \<open>Allocation\<close>

text \<open>
  The first section under the lock: take the head of the free list; otherwise the table is full,
  or has to be expanded, perhaps together with the first level array (whose new size goes along,
  0 for no change).
\<close>

datatype ht_grab = Grabbed u32 | Full | Expand u32

definition ht_alloc_grab :: "addr \<Rightarrow> addr \<Rightarrow> RTHANDLETABLEINT \<Rightarrow> (ht_grab \<times> RTHANDLETABLEINT) option" where
  "ht_alloc_grab pvObj pvCtx t =
     (let i = ht_iFreeHead t in
      if i \<noteq> NIL_RTHT_INDEX
      then do {
        pe \<leftarrow> rtHandleTableLookupWithCtxIdx t i;
        pFree \<leftarrow> pe;
        let t1 = (if i = ht_iFreeTail t then t\<lparr>ht_iFreeTail := NIL_RTHT_INDEX, ht_iFreeHead := NIL_RTHT_INDEX\<rparr>
                  else t\<lparr>ht_iFreeHead := RTHT_GET_FREE_IDX pFree\<rparr>);
        Some (Grabbed (i + ht_uBase t),
              ht_put i \<lparr>he_pvObj = pvObj, he_pvCtx = pvCtx\<rparr> (t1\<lparr>ht_cCurAllocated := ht_cCurAllocated t1 + 1\<rparr>))
      }
      else if ht_cMax t \<le> ht_cCur t then Some (Full, t)
      else
        let iLevel1 = unat (ht_cCur t) div RTHT_LEVEL2_ENTRIES;
            cLevel1 = (if length (ht_papvLevel1 t) \<le> iLevel1 then of_nat (length (ht_papvLevel1 t)) + 512 else 0 :: u32);
            n = of_nat RTHT_LEVEL2_ENTRIES in
        Some (Expand (if ht_cMax t div n < cLevel1 then ht_cMax t div n else cLevel1), t))"

text \<open>The second section: put the larger first level array in place, unless someone else was faster.\<close>

definition ht_alloc_level1 :: "u32 \<Rightarrow> RTHANDLETABLEINT \<Rightarrow> RTHANDLETABLEINT" where
  "ht_alloc_level1 cLevel1 t =
     (if cLevel1 \<noteq> 0 \<and> length (ht_papvLevel1 t) < unat cLevel1
      then t\<lparr>ht_papvLevel1 := ht_papvLevel1 t @ replicate (unat cLevel1 - length (ht_papvLevel1 t)) None\<rparr>
      else t)"

text \<open>The third one: insert the new second level table and append its entries to the free list.\<close>

definition ht_new_table :: "u32 \<Rightarrow> RTHTENTRYCTX list" where
  "ht_new_table cCur =
     map (\<lambda>i. RTHT_SET_FREE_IDX (of_nat (i + 1) + cCur) \<lparr>he_pvObj = 0, he_pvCtx = NOT 7\<rparr>) [0..<RTHT_LEVEL2_ENTRIES - 1]
     @ [RTHT_SET_FREE_IDX NIL_RTHT_INDEX \<lparr>he_pvObj = 0, he_pvCtx = NOT 7\<rparr>]"

definition ht_alloc_insert :: "RTHANDLETABLEINT \<Rightarrow> RTHANDLETABLEINT option" where
  "ht_alloc_insert t =
     (let iLevel1New = unat (ht_cCur t) div RTHT_LEVEL2_ENTRIES in
      if iLevel1New < length (ht_papvLevel1 t) \<and> ht_cCur t < ht_cMax t
      then do {
        let t1 = t\<lparr>ht_papvLevel1 := (ht_papvLevel1 t)[iLevel1New := Some (ht_new_table (ht_cCur t))]\<rparr>;
        t2 \<leftarrow> (if ht_iFreeTail t1 = NIL_RTHT_INDEX then Some (t1\<lparr>ht_iFreeHead := ht_cCur t1\<rparr>)
               else do {
                 pe \<leftarrow> rtHandleTableLookupWithCtxIdx t1 (ht_iFreeTail t1);
                 pPrev \<leftarrow> pe;
                 Some (ht_put (ht_iFreeTail t1) (RTHT_SET_FREE_IDX (ht_cCur t1) pPrev) t1)
               });
        Some (t2\<lparr>ht_iFreeTail := ht_cCur t2 + of_nat RTHT_LEVEL2_ENTRIES - 1,
                 ht_cCur := ht_cCur t2 + of_nat RTHT_LEVEL2_ENTRIES\<rparr>)
      }
      else Some t)"

text \<open>
  The loop, when nobody else uses the table meanwhile.  \<open>fLevel1\<close> and \<open>fTable\<close>: whether the heap
  has room for a first level array and for a second level table.
\<close>

partial_function (option) ht_alloc_loop ::
  "addr \<Rightarrow> addr \<Rightarrow> bool \<Rightarrow> bool \<Rightarrow> RTHANDLETABLEINT \<Rightarrow> ((rc \<times> u32) \<times> RTHANDLETABLEINT) option" where
  "ht_alloc_loop pvObj pvCtx fLevel1 fTable t = do {
     (g, t1) \<leftarrow> ht_alloc_grab pvObj pvCtx t;
     case g of
       Grabbed h \<Rightarrow> Some ((VINF_SUCCESS, h), t1)
     | Full \<Rightarrow> Some ((VERR_NO_MORE_HANDLES, ht_uBase t - 1), t1)
     | Expand cLevel1 \<Rightarrow>
         if cLevel1 \<noteq> 0 \<and> \<not> fLevel1 then Some ((VERR_NO_MEMORY, ht_uBase t - 1), t1)
         else if \<not> fTable then Some ((VERR_NO_MEMORY, ht_uBase t - 1), t1)
         else do {
           t2 \<leftarrow> ht_alloc_insert (ht_alloc_level1 cLevel1 t1);
           ht_alloc_loop pvObj pvCtx fLevel1 fTable t2
         }
   }"

definition RTHandleTableAllocWithCtx ::
  "addr \<Rightarrow> addr \<Rightarrow> bool \<Rightarrow> bool \<Rightarrow> RTHANDLETABLEINT \<Rightarrow> ((rc \<times> u32) \<times> RTHANDLETABLEINT) option" where
  "RTHandleTableAllocWithCtx pvObj pvCtx fLevel1 fTable t =
     (if ht_u32Magic t \<noteq> RTHANDLETABLE_MAGIC then Some ((VERR_INVALID_HANDLE, 0), t)
      else if ht_fFlags t AND RTHANDLETABLE_FLAGS_CONTEXT = 0 then Some ((VERR_INVALID_FUNCTION, 0), t)
      else if RTHT_IS_FREE pvObj then Some ((VERR_INVALID_PARAMETER, 0), t)
      else ht_alloc_loop pvObj pvCtx fLevel1 fTable t)"

section \<open>Lookup, freeing, destruction\<close>

text \<open>
  Both return the object (0 for NULL) after the retain callback has counted a reference on it.
  The error statuses of these three functions that only a dead or wrongly made table gives
  return early.
\<close>

definition RTHandleTableLookupWithCtx ::
  "(addr \<Rightarrow> 's \<Rightarrow> (rc \<times> 's) option) \<Rightarrow> u32 \<Rightarrow> addr \<Rightarrow> RTHANDLETABLEINT \<Rightarrow> 's \<Rightarrow> (addr \<times> 's) option" where
  "RTHandleTableLookupWithCtx pfnRetain h pvCtx t s =
     (if ht_u32Magic t \<noteq> RTHANDLETABLE_MAGIC then Some (0, s)
      else if ht_fFlags t AND RTHANDLETABLE_FLAGS_CONTEXT = 0 then Some (0, s)
      else do {
        pe \<leftarrow> rtHandleTableLookupWithCtx t h;
        case pe of
          None \<Rightarrow> Some (0, s)
        | Some e \<Rightarrow>
            if he_pvCtx e = pvCtx \<and> \<not> RTHT_IS_FREE (he_pvObj e)
            then do {
              (rc, s1) \<leftarrow> pfnRetain (he_pvObj e) s;
              Some (if RT_FAILURE rc then 0 else he_pvObj e, s1)
            }
            else Some (0, s)
      })"

text \<open>Appending an entry to the free list.\<close>

definition ht_link_free :: "u32 \<Rightarrow> RTHTENTRYCTX \<Rightarrow> RTHANDLETABLEINT \<Rightarrow> RTHANDLETABLEINT option" where
  "ht_link_free i e t = do {
     let t1 = ht_put i (RTHT_SET_FREE_IDX NIL_RTHT_INDEX (e\<lparr>he_pvCtx := NOT 7\<rparr>)) t;
     t2 \<leftarrow> (if ht_iFreeTail t1 = NIL_RTHT_INDEX then Some (t1\<lparr>ht_iFreeTail := i, ht_iFreeHead := i\<rparr>)
            else do {
              pe \<leftarrow> rtHandleTableLookupWithCtxIdx t1 (ht_iFreeTail t1);
              pPrev \<leftarrow> pe;
              Some ((ht_put (ht_iFreeTail t1) (RTHT_SET_FREE_IDX i pPrev) t1)\<lparr>ht_iFreeTail := i\<rparr>)
            });
     Some (t2\<lparr>ht_cCurAllocated := ht_cCurAllocated t2 - 1\<rparr>)
   }"

definition RTHandleTableFreeWithCtx ::
  "(addr \<Rightarrow> 's \<Rightarrow> (rc \<times> 's) option) \<Rightarrow> u32 \<Rightarrow> addr \<Rightarrow> RTHANDLETABLEINT \<Rightarrow> 's \<Rightarrow>
   (addr \<times> RTHANDLETABLEINT \<times> 's) option" where
  "RTHandleTableFreeWithCtx pfnRetain h pvCtx t s =
     (if ht_u32Magic t \<noteq> RTHANDLETABLE_MAGIC then Some (0, t, s)
      else if ht_fFlags t AND RTHANDLETABLE_FLAGS_CONTEXT = 0 then Some (0, t, s)
      else do {
        pe \<leftarrow> rtHandleTableLookupWithCtx t h;
        case pe of
          None \<Rightarrow> Some (0, t, s)
        | Some e \<Rightarrow>
            if he_pvCtx e = pvCtx \<and> \<not> RTHT_IS_FREE (he_pvObj e)
            then do {
              (rc, s1) \<leftarrow> pfnRetain (he_pvObj e) s;
              if RT_FAILURE rc \<or> he_pvObj e = 0 then Some (0, t, s1)
              else do {
                t1 \<leftarrow> ht_link_free (h - ht_uBase t) e t;
                Some (he_pvObj e, t1, s1)
              }
            }
            else Some (0, t, s)
      })"

text \<open>
  Destruction with a delete callback (\<open>pfnDelete\<close> gets the handle, the object and the context):
  the walk over the second level tables, which ends early when all used entries were seen.  The
  magic is inverted and all blocks are freed, so the table is gone afterwards.
\<close>

fun ht_delete_entries ::
  "(u32 \<Rightarrow> addr \<Rightarrow> addr \<Rightarrow> 's \<Rightarrow> 's option) \<Rightarrow> u32 \<Rightarrow> RTHTENTRYCTX list \<Rightarrow> u32 \<Rightarrow> 's \<Rightarrow> (u32 \<times> 's) option" where
  "ht_delete_entries pfnDelete h [] cLeft s = Some (cLeft, s)"
| "ht_delete_entries pfnDelete h (e # es) cLeft s =
     (if \<not> RTHT_IS_FREE (he_pvObj e)
      then do {
        s1 \<leftarrow> pfnDelete h (he_pvObj e) (he_pvCtx e) s;
        ht_delete_entries pfnDelete (h + 1) es (cLeft - 1) s1
      }
      else ht_delete_entries pfnDelete (h + 1) es cLeft s)"

fun ht_delete_tables ::
  "(u32 \<Rightarrow> addr \<Rightarrow> addr \<Rightarrow> 's \<Rightarrow> 's option) \<Rightarrow> u32 \<Rightarrow> RTHTENTRYCTX list option list \<Rightarrow> u32 \<Rightarrow> 's \<Rightarrow> 's option" where
  "ht_delete_tables pfnDelete h [] cLeft s = Some s"
| "ht_delete_tables pfnDelete h (pa # pas) cLeft s =
     (if 0 < cLeft
      then do {
        (cLeft1, s1) \<leftarrow> (case pa of None \<Rightarrow> Some (cLeft, s) | Some es \<Rightarrow> ht_delete_entries pfnDelete h es cLeft s);
        ht_delete_tables pfnDelete (h + of_nat RTHT_LEVEL2_ENTRIES) pas cLeft1 s1
      }
      else Some s)"

definition RTHandleTableDestroy ::
  "(u32 \<Rightarrow> addr \<Rightarrow> addr \<Rightarrow> 's \<Rightarrow> 's option) \<Rightarrow> RTHANDLETABLEINT option \<Rightarrow> 's \<Rightarrow>
   (rc \<times> RTHANDLETABLEINT option \<times> 's) option" where
  "RTHandleTableDestroy pfnDelete hHandleTable s = (case hHandleTable of
     None \<Rightarrow> Some (VINF_SUCCESS, None, s)
   | Some t \<Rightarrow>
       if ht_u32Magic t \<noteq> RTHANDLETABLE_MAGIC then Some (VERR_INVALID_HANDLE, Some t, s)
       else do {
         s1 \<leftarrow> ht_delete_tables pfnDelete (ht_uBase t) (ht_papvLevel1 t) (ht_cCurAllocated t) s;
         Some (VINF_SUCCESS, None, s1)
       })"

section \<open>Well-formed tables\<close>

text \<open>An entry below \<open>cCur\<close>, without the checks.\<close>

definition ht_ent :: "RTHANDLETABLEINT \<Rightarrow> u32 \<Rightarrow> RTHTENTRYCTX" where
  "ht_ent t i = the (ht_papvLevel1 t ! (unat i div RTHT_LEVEL2_ENTRIES)) ! (unat i mod RTHT_LEVEL2_ENTRIES)"

text \<open>
  The shape: sizes are multiples of the second level size, exactly the first \<open>cCur\<close> entries are
  backed by second level tables, and the first level array is never larger than needed.
\<close>

definition ht_shape :: "RTHANDLETABLEINT \<Rightarrow> bool" where
  "ht_shape t \<longleftrightarrow>
     RTHT_LEVEL2_ENTRIES dvd unat (ht_cMax t) \<and> RTHT_LEVEL2_ENTRIES dvd unat (ht_cCur t) \<and> ht_cCur t \<le> ht_cMax t \<and>
     unat (ht_cCur t) div RTHT_LEVEL2_ENTRIES \<le> length (ht_papvLevel1 t) \<and>
     length (ht_papvLevel1 t) \<le> unat (ht_cMax t) div RTHT_LEVEL2_ENTRIES \<and>
     (\<forall>k < unat (ht_cCur t) div RTHT_LEVEL2_ENTRIES.
        \<exists>pa. ht_papvLevel1 t ! k = Some pa \<and> length pa = RTHT_LEVEL2_ENTRIES) \<and>
     (\<forall>k. unat (ht_cCur t) div RTHT_LEVEL2_ENTRIES \<le> k \<longrightarrow> k < length (ht_papvLevel1 t) \<longrightarrow> ht_papvLevel1 t ! k = None)"

text \<open>The free list as the list of its indices.\<close>

definition ht_chain :: "RTHANDLETABLEINT \<Rightarrow> u32 list \<Rightarrow> bool" where
  "ht_chain t fl \<longleftrightarrow> distinct fl \<and> set fl = {i. i < ht_cCur t \<and> RTHT_IS_FREE (he_pvObj (ht_ent t i))} \<and>
     ht_iFreeHead t = (if fl = [] then NIL_RTHT_INDEX else hd fl) \<and>
     ht_iFreeTail t = (if fl = [] then NIL_RTHT_INDEX else last fl) \<and>
     (\<forall>k. Suc k < length fl \<longrightarrow> RTHT_GET_FREE_IDX (ht_ent t (fl ! k)) = fl ! Suc k) \<and>
     unat (ht_cCurAllocated t) + length fl = unat (ht_cCur t)"

definition ht_ok :: "RTHANDLETABLEINT \<Rightarrow> bool" where
  "ht_ok t \<longleftrightarrow> ht_u32Magic t = RTHANDLETABLE_MAGIC \<and> ht_fFlags t AND RTHANDLETABLE_FLAGS_CONTEXT \<noteq> 0 \<and>
     ht_shape t \<and> (\<exists>fl. ht_chain t fl)"

text \<open>What the table is for: a finite map from handles to objects with their contexts.\<close>

definition ht_map :: "RTHANDLETABLEINT \<Rightarrow> u32 \<rightharpoonup> addr \<times> addr" where
  "ht_map t h = (let i = h - ht_uBase t in
     if i < ht_cCur t \<and> \<not> RTHT_IS_FREE (he_pvObj (ht_ent t i))
     then Some (he_pvObj (ht_ent t i), he_pvCtx (ht_ent t i)) else None)"

lemma L2_pos [simp]: "0 < RTHT_LEVEL2_ENTRIES" and L2_small: "RTHT_LEVEL2_ENTRIES = 2048"
  by (simp_all add: RTHT_LEVEL2_ENTRIES_def)

lemma unat_L2 [simp]: "unat (of_nat RTHT_LEVEL2_ENTRIES :: u32) = RTHT_LEVEL2_ENTRIES"
  by (simp add: L2_small)

lemma RTHT_IS_FREE_set [simp]: "RTHT_IS_FREE (he_pvObj (RTHT_SET_FREE_IDX i e))"
  unfolding RTHT_IS_FREE_def RTHT_SET_FREE_IDX_def
  by (simp add: bit_eq_iff bit_simps)

lemma RTHT_GET_SET [simp]: "RTHT_GET_FREE_IDX (RTHT_SET_FREE_IDX i e) = i"
proof -
  have "ucast (drop_bit 2 (push_bit 2 (ucast i)) :: u64) = i"
    by (rule bit_word_eqI) (auto simp: bit_simps)
  then show ?thesis by (simp add: RTHT_GET_FREE_IDX_def RTHT_SET_FREE_IDX_def)
qed

lemma SET_ctx [simp]: "he_pvCtx (RTHT_SET_FREE_IDX i e) = he_pvCtx e"
  by (simp add: RTHT_SET_FREE_IDX_def)

section \<open>Access\<close>

lemma ht_slot:
  assumes "ht_shape t" "i < ht_cCur t"
  shows "unat i div RTHT_LEVEL2_ENTRIES < unat (ht_cCur t) div RTHT_LEVEL2_ENTRIES"
proof -
  from assms(1) obtain q where q: "unat (ht_cCur t) = RTHT_LEVEL2_ENTRIES * q" by (auto simp: ht_shape_def dvd_def)
  with assms(2) have "unat i < RTHT_LEVEL2_ENTRIES * q" by (simp add: word_less_nat_alt)
  then have "unat i div RTHT_LEVEL2_ENTRIES < q" by (simp add: less_mult_imp_div_less mult.commute)
  with q show ?thesis by simp
qed

lemma ht_table:
  assumes "ht_shape t" "i < ht_cCur t"
  shows "\<exists>pa. unat i div RTHT_LEVEL2_ENTRIES < length (ht_papvLevel1 t) \<and>
    ht_papvLevel1 t ! (unat i div RTHT_LEVEL2_ENTRIES) = Some pa \<and> length pa = RTHT_LEVEL2_ENTRIES"
  using assms(1) ht_slot[OF assms] unfolding ht_shape_def by (meson order_less_le_trans)

lemma lookupIdx_ok:
  "ht_shape t \<Longrightarrow> rtHandleTableLookupWithCtxIdx t i = Some (if i < ht_cCur t then Some (ht_ent t i) else None)"
  using ht_table[of t i] by (auto simp: rtHandleTableLookupWithCtxIdx_def ht_ent_def Let_def)

lemma ht_put_simps [simp]:
  "ht_u32Magic (ht_put i e t) = ht_u32Magic t" "ht_fFlags (ht_put i e t) = ht_fFlags t"
  "ht_uBase (ht_put i e t) = ht_uBase t" "ht_cCur (ht_put i e t) = ht_cCur t"
  "ht_cMax (ht_put i e t) = ht_cMax t" "ht_cCurAllocated (ht_put i e t) = ht_cCurAllocated t"
  "ht_iFreeHead (ht_put i e t) = ht_iFreeHead t" "ht_iFreeTail (ht_put i e t) = ht_iFreeTail t"
  "length (ht_papvLevel1 (ht_put i e t)) = length (ht_papvLevel1 t)"
  by (simp_all add: ht_put_def Let_def)

lemma ht_shape_put:
  assumes "ht_shape t" "i < ht_cCur t"
  shows "ht_shape (ht_put i e t)"
proof -
  let ?k = "unat i div RTHT_LEVEL2_ENTRIES"
  from ht_table[OF assms] obtain pa where pa: "?k < length (ht_papvLevel1 t)" "ht_papvLevel1 t ! ?k = Some pa"
    "length pa = RTHT_LEVEL2_ENTRIES" by blast
  have l: "ht_papvLevel1 (ht_put i e t) ! k =
      (if k = ?k then Some (pa[unat i mod RTHT_LEVEL2_ENTRIES := e]) else ht_papvLevel1 t ! k)" for k
    using pa by (simp add: ht_put_def Let_def nth_list_update)
  show ?thesis using assms(1) pa ht_slot[OF assms] unfolding ht_shape_def ht_put_simps l
    by (auto split: if_splits)
qed

lemma ht_ent_put:
  assumes "ht_shape t" "i < ht_cCur t" "j < ht_cCur t"
  shows "ht_ent (ht_put i e t) j = (if j = i then e else ht_ent t j)"
proof -
  let ?n = RTHT_LEVEL2_ENTRIES
  from ht_table[OF assms(1,2)] obtain pa where pa: "unat i div ?n < length (ht_papvLevel1 t)"
    "ht_papvLevel1 t ! (unat i div ?n) = Some pa" "length pa = ?n" by blast
  have inj: "j = i" if "unat j div ?n = unat i div ?n" "unat j mod ?n = unat i mod ?n"
    using that by (metis div_mult_mod_eq word_unat_eq_iff)
  show ?thesis
  proof (cases "unat j div ?n = unat i div ?n")
    case True
    have "unat i mod ?n < ?n" by simp
    with True inj pa show ?thesis
      by (auto simp: ht_ent_def ht_put_def Let_def nth_list_update)
  next
    case False
    with pa show ?thesis by (auto simp: ht_ent_def ht_put_def Let_def nth_list_update)
  qed
qed

lemma ht_ent_cong: "ht_papvLevel1 t = ht_papvLevel1 t' \<Longrightarrow> ht_ent t = ht_ent t'"
  by (simp add: ht_ent_def fun_eq_iff)

lemma ht_ent_upd [simp]:
  "ht_ent (t\<lparr>ht_iFreeHead := a\<rparr>) = ht_ent t" "ht_ent (t\<lparr>ht_iFreeTail := a\<rparr>) = ht_ent t"
  "ht_ent (t\<lparr>ht_cCurAllocated := a\<rparr>) = ht_ent t" "ht_ent (t\<lparr>ht_cCur := a\<rparr>) = ht_ent t"
  by (rule ht_ent_cong, simp)+

lemma ht_shape_upd [simp]:
  "ht_shape (t\<lparr>ht_iFreeHead := a\<rparr>) = ht_shape t" "ht_shape (t\<lparr>ht_iFreeTail := a\<rparr>) = ht_shape t"
  "ht_shape (t\<lparr>ht_cCurAllocated := a\<rparr>) = ht_shape t"
  by (simp_all add: ht_shape_def)

lemma ht_put_upd [simp]:
  "ht_put i e (t\<lparr>ht_iFreeHead := a\<rparr>) = (ht_put i e t)\<lparr>ht_iFreeHead := a\<rparr>"
  "ht_put i e (t\<lparr>ht_iFreeTail := a\<rparr>) = (ht_put i e t)\<lparr>ht_iFreeTail := a\<rparr>"
  "ht_put i e (t\<lparr>ht_cCurAllocated := a\<rparr>) = (ht_put i e t)\<lparr>ht_cCurAllocated := a\<rparr>"
  by (simp_all add: ht_put_def Let_def)

section \<open>Each section keeps the table well-formed\<close>

lemma not_nil: "i < (c :: u32) \<Longrightarrow> i \<noteq> NIL_RTHT_INDEX"
  using word_order.extremum[of c] by auto

lemma cCur_bound:
  assumes "ht_shape t" shows "unat (ht_cCur t) < 4294967296"
  by (rule unat_u32_less)

lemma ht_map_none:
  "RTHT_IS_FREE (he_pvObj (ht_ent t i)) \<Longrightarrow> ht_map t (i + ht_uBase t) = None"
  by (simp add: ht_map_def)

text \<open>Storing a used entry, and storing a free one, as updates of the map.\<close>

lemma ht_map_put:
  assumes "ht_shape t" "i < ht_cCur t"
  shows "ht_map (ht_put i e t) = (ht_map t)(i + ht_uBase t :=
    (if RTHT_IS_FREE (he_pvObj e) then None else Some (he_pvObj e, he_pvCtx e)))"
proof
  fix h
  show "ht_map (ht_put i e t) h = ((ht_map t)(i + ht_uBase t :=
    (if RTHT_IS_FREE (he_pvObj e) then None else Some (he_pvObj e, he_pvCtx e)))) h"
  proof (cases "h - ht_uBase t < ht_cCur t")
    case True
    have "h = i + ht_uBase t \<longleftrightarrow> h - ht_uBase t = i" by (auto simp: algebra_simps)
    with True show ?thesis by (simp add: ht_map_def Let_def ht_ent_put[OF assms])
  next
    case False
    then have "h \<noteq> i + ht_uBase t" using assms(2) by auto
    with False show ?thesis by (simp add: ht_map_def)
  qed
qed

lemma ht_map_cong:
  "ht_uBase t' = ht_uBase t \<Longrightarrow> ht_cCur t' = ht_cCur t \<Longrightarrow> (\<And>i. i < ht_cCur t \<Longrightarrow> ht_ent t' i = ht_ent t i) \<Longrightarrow>
   ht_map t' = ht_map t"
  by (rule ext, rename_tac h, case_tac "h - ht_uBase t < ht_cCur t") (simp_all add: ht_map_def Let_def)

lemma ht_map_upd [simp]:
  "ht_map (t\<lparr>ht_iFreeHead := a\<rparr>) = ht_map t" "ht_map (t\<lparr>ht_iFreeTail := a\<rparr>) = ht_map t"
  "ht_map (t\<lparr>ht_cCurAllocated := a\<rparr>) = ht_map t"
  by (rule ht_map_cong, simp_all)+

text \<open>What no operation changes.\<close>

definition ht_same :: "RTHANDLETABLEINT \<Rightarrow> RTHANDLETABLEINT \<Rightarrow> bool" where
  "ht_same t t' \<longleftrightarrow> ht_u32Magic t' = ht_u32Magic t \<and> ht_fFlags t' = ht_fFlags t \<and>
     ht_uBase t' = ht_uBase t \<and> ht_cMax t' = ht_cMax t"

lemma ht_chain_free: "ht_chain t fl \<Longrightarrow> i \<in> set fl \<Longrightarrow> i < ht_cCur t \<and> RTHT_IS_FREE (he_pvObj (ht_ent t i))"
  by (simp add: ht_chain_def)

lemma grab_some:
  assumes sh: "ht_shape t" and ch: "ht_chain t (i # fl)" and obj: "\<not> RTHT_IS_FREE obj"
  shows "\<exists>t'. ht_alloc_grab obj ctx t = Some (Grabbed (i + ht_uBase t), t') \<and> ht_shape t' \<and> ht_chain t' fl \<and>
    ht_same t t' \<and> ht_map t (i + ht_uBase t) = None \<and> ht_map t' = (ht_map t)(i + ht_uBase t \<mapsto> (obj, ctx)) \<and>
    ht_cCur t' = ht_cCur t"
proof -
  from ht_chain_free[OF ch, of i] have i: "i < ht_cCur t" and fr: "RTHT_IS_FREE (he_pvObj (ht_ent t i))" by auto
  from ch have hd: "ht_iFreeHead t = i" and tl: "ht_iFreeTail t = last (i # fl)" and dist: "distinct (i # fl)"
    and st: "set (i # fl) = {j. j < ht_cCur t \<and> RTHT_IS_FREE (he_pvObj (ht_ent t j))}"
    and nx: "\<And>k. Suc k < length (i # fl) \<Longrightarrow> RTHT_GET_FREE_IDX (ht_ent t ((i # fl) ! k)) = (i # fl) ! Suc k"
    and ln: "unat (ht_cCurAllocated t) + length (i # fl) = unat (ht_cCur t)"
    by (auto simp: ht_chain_def)
  have lasti: "last (i # fl) = i \<longleftrightarrow> fl = []" using dist by (cases fl) auto
  have gi: "RTHT_GET_FREE_IDX (ht_ent t i) = hd fl" if "fl \<noteq> []"
    using nx[of 0] that by (cases fl) auto
  let ?e = "\<lparr>he_pvObj = obj, he_pvCtx = ctx\<rparr>"
  define t' where "t' = (ht_put i ?e t)\<lparr>ht_iFreeHead := (if fl = [] then NIL_RTHT_INDEX else hd fl),
    ht_iFreeTail := (if fl = [] then NIL_RTHT_INDEX else last fl), ht_cCurAllocated := ht_cCurAllocated t + 1\<rparr>"
  have g: "ht_alloc_grab obj ctx t = Some (Grabbed (i + ht_uBase t), t')"
    using hd tl not_nil[OF i] i gi lasti
    by (auto simp: ht_alloc_grab_def lookupIdx_ok[OF sh] Let_def t'_def intro!: RTHANDLETABLEINT.equality)
  have ent: "ht_ent t' j = (if j = i then ?e else ht_ent t j)" if "j < ht_cCur t" for j
    using ht_ent_put[OF sh i that] by (simp add: t'_def)
  have "unat (ht_cCurAllocated t) < 4294967295" using ln unat_u32_less[of "ht_cCur t"] by simp
  from unat_inc[OF u32_no_wrap[OF this]] ln
  have "unat (ht_cCurAllocated t') + length fl = unat (ht_cCur t')" by (simp add: t'_def)
  moreover have "set fl = {j. j < ht_cCur t' \<and> RTHT_IS_FREE (he_pvObj (ht_ent t' j))}"
  proof -
    have "set fl = set (i # fl) - {i}" using dist by auto
    also have "\<dots> = {j. j < ht_cCur t' \<and> RTHT_IS_FREE (he_pvObj (ht_ent t' j))}"
      unfolding st using obj ent by (auto simp: t'_def split: if_splits)
    finally show ?thesis .
  qed
  moreover have "RTHT_GET_FREE_IDX (ht_ent t' (fl ! k)) = fl ! Suc k" if "Suc k < length fl" for k
  proof -
    have "fl ! k \<in> set fl" using that by simp
    then have "fl ! k \<noteq> i" "fl ! k < ht_cCur t" using dist st by auto
    with ent nx[of "Suc k"] that show ?thesis by simp
  qed
  ultimately have "ht_chain t' fl" using dist by (simp add: ht_chain_def t'_def)
  moreover have "ht_shape t'" using ht_shape_put[OF sh i] by (simp add: t'_def)
  moreover have "ht_map t' = (ht_map t)(i + ht_uBase t \<mapsto> (obj, ctx))"
    using ht_map_put[OF sh i, of ?e] obj by (simp add: t'_def)
  ultimately show ?thesis using g ht_map_none[OF fr] by (intro exI[of _ t']) (simp add: ht_same_def t'_def)
qed

lemma grab_none:
  assumes "ht_chain t []"
  shows "ht_alloc_grab obj ctx t = Some (if ht_cMax t \<le> ht_cCur t then Full
     else Expand (let n = ht_cMax t div of_nat RTHT_LEVEL2_ENTRIES;
                      c = (if length (ht_papvLevel1 t) \<le> unat (ht_cCur t) div RTHT_LEVEL2_ENTRIES
                           then of_nat (length (ht_papvLevel1 t)) + 512 else 0)
                  in if n < c then n else c), t)"
  using assms by (simp add: ht_chain_def ht_alloc_grab_def Let_def)

lemma ht_chain_cong:
  assumes "ht_chain t fl" "ht_cCur t' = ht_cCur t" "\<And>i. i < ht_cCur t \<Longrightarrow> ht_ent t' i = ht_ent t i"
    "ht_iFreeHead t' = ht_iFreeHead t" "ht_iFreeTail t' = ht_iFreeTail t" "ht_cCurAllocated t' = ht_cCurAllocated t"
  shows "ht_chain t' fl"
proof -
  have "set fl \<subseteq> {i. i < ht_cCur t}" using assms(1) by (auto simp: ht_chain_def)
  then have "fl ! k < ht_cCur t" if "k < length fl" for k using that by (auto simp: subset_iff)
  with assms show ?thesis by (auto simp: ht_chain_def)
qed

lemma level1_ok:
  assumes sh: "ht_shape t" and ch: "ht_chain t fl" and c: "unat c \<le> unat (ht_cMax t) div RTHT_LEVEL2_ENTRIES"
  shows "ht_shape (ht_alloc_level1 c t) \<and> ht_chain (ht_alloc_level1 c t) fl \<and> ht_map (ht_alloc_level1 c t) = ht_map t \<and>
    ht_same t (ht_alloc_level1 c t) \<and> ht_cCur (ht_alloc_level1 c t) = ht_cCur t"
proof (cases "c \<noteq> 0 \<and> length (ht_papvLevel1 t) < unat c")
  case False
  with sh ch show ?thesis by (auto simp: ht_alloc_level1_def ht_same_def)
next
  case True
  let ?t = "ht_alloc_level1 c t"
  from True have l: "ht_papvLevel1 ?t = ht_papvLevel1 t @ replicate (unat c - length (ht_papvLevel1 t)) None"
    and s: "ht_cCur ?t = ht_cCur t" "ht_cMax ?t = ht_cMax t" "ht_iFreeHead ?t = ht_iFreeHead t"
      "ht_iFreeTail ?t = ht_iFreeTail t" "ht_cCurAllocated ?t = ht_cCurAllocated t" "ht_same t ?t" "ht_uBase ?t = ht_uBase t"
    by (auto simp: ht_alloc_level1_def ht_same_def)
  have e: "ht_ent ?t i = ht_ent t i" if "i < ht_cCur t" for i
    using ht_table[OF sh that] by (auto simp: ht_ent_def l nth_append)
  have "ht_shape ?t" using sh True c unfolding ht_shape_def s l by (auto simp: nth_append)
  moreover have "ht_chain ?t fl" by (rule ht_chain_cong[OF ch s(1) e s(3-5)])
  moreover have "ht_map ?t = ht_map t" by (rule ht_map_cong[OF s(7,1) e])
  ultimately show ?thesis using s by simp
qed

text \<open>The indices of a second level table that is inserted at \<open>c\<close>.\<close>

definition ht_new_idx :: "u32 \<Rightarrow> u32 list" where
  "ht_new_idx c = map (\<lambda>j. of_nat j + c) [0..<RTHT_LEVEL2_ENTRIES]"

lemma ht_new_table_nth:
  "j < RTHT_LEVEL2_ENTRIES \<Longrightarrow> ht_new_table c ! j = RTHT_SET_FREE_IDX
     (if Suc j = RTHT_LEVEL2_ENTRIES then NIL_RTHT_INDEX else of_nat (Suc j) + c) \<lparr>he_pvObj = 0, he_pvCtx = NOT 7\<rparr>"
  by (auto simp: ht_new_table_def nth_append)

lemma ht_new_table_length [simp]: "length (ht_new_table c) = RTHT_LEVEL2_ENTRIES"
  by (simp add: ht_new_table_def)

lemma ht_new_idx_simps [simp]:
  "length (ht_new_idx c) = RTHT_LEVEL2_ENTRIES" "ht_new_idx c \<noteq> []" "hd (ht_new_idx c) = c"
  "last (ht_new_idx c) = c + of_nat RTHT_LEVEL2_ENTRIES - 1"
proof -
  have n: "[0..<RTHT_LEVEL2_ENTRIES] \<noteq> []" by simp
  then show "length (ht_new_idx c) = RTHT_LEVEL2_ENTRIES" "ht_new_idx c \<noteq> []"
    by (simp_all add: ht_new_idx_def)
  show "hd (ht_new_idx c) = c" using n by (simp add: ht_new_idx_def hd_map)
  have "of_nat (RTHT_LEVEL2_ENTRIES - 1) + c = c + of_nat RTHT_LEVEL2_ENTRIES - (1 :: u32)"
    by (simp add: of_nat_diff L2_small)
  then show "last (ht_new_idx c) = c + of_nat RTHT_LEVEL2_ENTRIES - 1"
    using n by (simp add: ht_new_idx_def last_map)
qed

lemma ht_new_idx_unat:
  fixes c :: u32
  assumes "unat c + RTHT_LEVEL2_ENTRIES < 4294967296" "j < RTHT_LEVEL2_ENTRIES"
  shows "unat (of_nat j + c) = unat c + j"
proof -
  have "j < 4294967296" using assms(2) by (simp add: L2_small)
  then have "unat (of_nat j :: u32) = j" by (simp add: unat_of_nat take_bit_nat_eq_self)
  moreover have "unat (of_nat j :: u32) + unat c < 2 ^ LENGTH(32)" using assms calculation by simp
  ultimately show ?thesis using unat_add_lem[THEN iffD1, of "of_nat j" c] by simp
qed

lemma ht_new_idx_set:
  assumes "unat c + RTHT_LEVEL2_ENTRIES < 4294967296"
  shows "distinct (ht_new_idx c)" "set (ht_new_idx c) = {i. c \<le> i \<and> unat i < unat c + RTHT_LEVEL2_ENTRIES}"
proof -
  note u = ht_new_idx_unat[OF assms]
  have "inj_on (\<lambda>j. of_nat j + c) {0..<RTHT_LEVEL2_ENTRIES}"
    by (rule inj_onI) (metis u add_left_cancel atLeastLessThan_iff)
  then show "distinct (ht_new_idx c)" by (simp add: ht_new_idx_def distinct_map)
  show "set (ht_new_idx c) = {i. c \<le> i \<and> unat i < unat c + RTHT_LEVEL2_ENTRIES}"
  proof (intro set_eqI iffI)
    fix i assume "i \<in> set (ht_new_idx c)"
    then show "i \<in> {i. c \<le> i \<and> unat i < unat c + RTHT_LEVEL2_ENTRIES}"
      by (auto simp: ht_new_idx_def u word_le_nat_alt)
  next
    fix i assume "i \<in> {i. c \<le> i \<and> unat i < unat c + RTHT_LEVEL2_ENTRIES}"
    then have j: "unat i - unat c < RTHT_LEVEL2_ENTRIES" "unat c + (unat i - unat c) = unat i"
      by (auto simp: word_le_nat_alt)
    then have "of_nat (unat i - unat c) + c = i" using u[OF j(1)] by (metis word_unat_eq_iff)
    with j(1) show "i \<in> set (ht_new_idx c)" by (force simp: ht_new_idx_def)
  qed
qed

text \<open>Appending a chain of free entries to the free list: what freeing and expanding share.\<close>

lemma chain_append:
  assumes sh: "ht_shape t" and d: "distinct (fl @ new)" and ne: "new \<noteq> []"
    and st: "set (fl @ new) = {i. i < ht_cCur t \<and> RTHT_IS_FREE (he_pvObj (ht_ent t i))}"
    and n1: "\<And>k. Suc k < length fl \<Longrightarrow> RTHT_GET_FREE_IDX (ht_ent t (fl ! k)) = fl ! Suc k"
    and n2: "\<And>k. Suc k < length new \<Longrightarrow> RTHT_GET_FREE_IDX (ht_ent t (new ! k)) = new ! Suc k"
    and a: "unat (ht_cCurAllocated t) + length fl + length new = unat (ht_cCur t)"
    and t': "t' = (if fl = [] then t\<lparr>ht_iFreeHead := hd new\<rparr>
        else (ht_put (last fl) (RTHT_SET_FREE_IDX (hd new) e) t)\<lparr>ht_iFreeHead := hd fl\<rparr>)\<lparr>ht_iFreeTail := last new\<rparr>"
  shows "ht_shape t' \<and> ht_chain t' (fl @ new) \<and> ht_map t' = ht_map t"
proof -
  have fl: "i < ht_cCur t" "RTHT_IS_FREE (he_pvObj (ht_ent t i))" if "i \<in> set fl \<union> set new" for i
    using that st by auto
  have lst: "last fl < ht_cCur t" if "fl \<noteq> []" using fl that by simp
  have ent: "ht_ent t' i = (if fl \<noteq> [] \<and> i = last fl then RTHT_SET_FREE_IDX (hd new) e else ht_ent t i)"
    if "i < ht_cCur t" for i
    using t' lst ht_ent_put[OF sh lst that] by auto
  have cc: "ht_cCur t' = ht_cCur t" using t' by simp
  have free: "RTHT_IS_FREE (he_pvObj (ht_ent t' i)) \<longleftrightarrow> RTHT_IS_FREE (he_pvObj (ht_ent t i))"
    if "i < ht_cCur t" for i
    using ent[OF that] fl(2)[of i] by auto
  have s: "set (fl @ new) = {i. i < ht_cCur t' \<and> RTHT_IS_FREE (he_pvObj (ht_ent t' i))}"
    unfolding st cc using free by auto
  have nx: "RTHT_GET_FREE_IDX (ht_ent t' ((fl @ new) ! k)) = (fl @ new) ! Suc k"
    if k: "Suc k < length (fl @ new)" for k
  proof -
    have "(fl @ new) ! k \<in> set fl \<union> set new" using k by (metis Suc_lessD nth_mem set_append)
    from ent[OF fl(1)[OF this]]
    have e: "ht_ent t' ((fl @ new) ! k) = (if fl \<noteq> [] \<and> (fl @ new) ! k = last fl then RTHT_SET_FREE_IDX (hd new) e
        else ht_ent t ((fl @ new) ! k))" .
    have l: "(fl @ new) ! k = last fl \<longleftrightarrow> Suc k = length fl" if "fl \<noteq> []"
    proof -
      have "last fl = (fl @ new) ! (length fl - 1)" using that by (simp add: last_conv_nth nth_append)
      then show ?thesis using d k that nth_eq_iff_index_eq[OF d, of k "length fl - 1"] by (cases fl) auto
    qed
    consider "Suc k < length fl" | "Suc k = length fl" | "length fl \<le> k" by linarith
    then show ?thesis
    proof cases
      case 1
      with e l n1[of k] show ?thesis by (cases "fl = []") (simp_all add: nth_append)
    next
      case 2
      then have "fl \<noteq> []" by auto
      with 2 e l ne show ?thesis by (simp add: nth_append hd_conv_nth)
    next
      case 3
      then obtain j where j: "k = length fl + j" by (metis le_add_diff_inverse)
      with k have "Suc j < length new" by simp
      with e l 3 j n2[of j] show ?thesis by (cases "fl = []") (simp_all add: nth_append)
    qed
  qed
  have "ht_chain t' (fl @ new)"
    using d s nx a ne t' unfolding ht_chain_def by auto
  moreover have "ht_shape t'" using t' sh ht_shape_put[OF sh lst] by auto
  moreover have "ht_map t' = ht_map t"
  proof (cases "fl = []")
    case True with t' show ?thesis by simp
  next
    case False
    have "ht_map t (last fl + ht_uBase t) = None" using ht_map_none fl(2)[of "last fl"] False by simp
    with False t' ht_map_put[OF sh lst[OF False], of "RTHT_SET_FREE_IDX (hd new) e"] show ?thesis
      by (simp add: fun_upd_idem)
  qed
  ultimately show ?thesis by simp
qed

text \<open>Inserting a second level table behind the current ones.\<close>

definition ht_grown :: "RTHANDLETABLEINT \<Rightarrow> RTHANDLETABLEINT" where
  "ht_grown t = t\<lparr>ht_papvLevel1 := (ht_papvLevel1 t)
      [unat (ht_cCur t) div RTHT_LEVEL2_ENTRIES := Some (ht_new_table (ht_cCur t))],
    ht_cCur := ht_cCur t + of_nat RTHT_LEVEL2_ENTRIES\<rparr>"

lemma ht_room:
  assumes "ht_shape t" "ht_cCur t < ht_cMax t"
  shows "unat (ht_cCur t) + RTHT_LEVEL2_ENTRIES \<le> unat (ht_cMax t)"
    "unat (ht_cCur t + of_nat RTHT_LEVEL2_ENTRIES) = unat (ht_cCur t) + RTHT_LEVEL2_ENTRIES"
    "unat (ht_cCur t) + RTHT_LEVEL2_ENTRIES < 4294967296"
proof -
  from assms(1) obtain q m where q: "unat (ht_cCur t) = RTHT_LEVEL2_ENTRIES * q" "unat (ht_cMax t) = RTHT_LEVEL2_ENTRIES * m"
    unfolding ht_shape_def dvd_def by auto
  with assms(2) have "q < m" by (simp add: word_less_nat_alt)
  then have "RTHT_LEVEL2_ENTRIES * Suc q \<le> RTHT_LEVEL2_ENTRIES * m" by (intro mult_le_mono2) simp
  with q show le: "unat (ht_cCur t) + RTHT_LEVEL2_ENTRIES \<le> unat (ht_cMax t)" by simp
  with unat_u32_less[of "ht_cMax t"] show lt: "unat (ht_cCur t) + RTHT_LEVEL2_ENTRIES < 4294967296" by simp
  then have "unat (ht_cCur t) + unat (of_nat RTHT_LEVEL2_ENTRIES :: u32) < 2 ^ LENGTH(32)" by simp
  from unat_add_lem[THEN iffD1, OF this]
  show "unat (ht_cCur t + of_nat RTHT_LEVEL2_ENTRIES) = unat (ht_cCur t) + RTHT_LEVEL2_ENTRIES" by simp
qed

lemma ht_div_dvd: "RTHT_LEVEL2_ENTRIES dvd a \<Longrightarrow> (a + RTHT_LEVEL2_ENTRIES) div RTHT_LEVEL2_ENTRIES = Suc (a div RTHT_LEVEL2_ENTRIES)"
  by simp

lemma grown_shape:
  assumes sh: "ht_shape t" and r: "ht_cCur t < ht_cMax t"
    and l: "unat (ht_cCur t) div RTHT_LEVEL2_ENTRIES < length (ht_papvLevel1 t)"
  shows "ht_shape (ht_grown t)"
proof -
  note R = ht_room[OF sh r]
  have "ht_cCur t + of_nat RTHT_LEVEL2_ENTRIES \<le> ht_cMax t" using R(1,2) by (simp add: word_le_nat_alt)
  with sh R l show ?thesis unfolding ht_shape_def ht_grown_def
    by (auto simp: nth_list_update less_Suc_eq)
qed

lemma grown_ent:
  assumes sh: "ht_shape t" and r: "ht_cCur t < ht_cMax t"
    and l: "unat (ht_cCur t) div RTHT_LEVEL2_ENTRIES < length (ht_papvLevel1 t)"
  shows "i < ht_cCur t \<Longrightarrow> ht_ent (ht_grown t) i = ht_ent t i"
    "j < RTHT_LEVEL2_ENTRIES \<Longrightarrow> ht_ent (ht_grown t) (of_nat j + ht_cCur t) = ht_new_table (ht_cCur t) ! j"
proof -
  assume i: "i < ht_cCur t"
  show "ht_ent (ht_grown t) i = ht_ent t i"
    using ht_slot[OF sh i] l by (simp add: ht_ent_def ht_grown_def)
next
  assume j: "j < RTHT_LEVEL2_ENTRIES"
  note R = ht_room[OF sh r]
  from sh obtain q where q: "unat (ht_cCur t) = RTHT_LEVEL2_ENTRIES * q" unfolding ht_shape_def dvd_def by auto
  have "unat (of_nat j + ht_cCur t) = RTHT_LEVEL2_ENTRIES * q + j"
    using ht_new_idx_unat[OF R(3) j] q by simp
  then have "unat (of_nat j + ht_cCur t) div RTHT_LEVEL2_ENTRIES = q" "unat (of_nat j + ht_cCur t) mod RTHT_LEVEL2_ENTRIES = j"
    using j by simp_all
  moreover have "unat (ht_cCur t) div RTHT_LEVEL2_ENTRIES = q" using q by simp
  ultimately show "ht_ent (ht_grown t) (of_nat j + ht_cCur t) = ht_new_table (ht_cCur t) ! j"
    using l by (simp add: ht_ent_def ht_grown_def)
qed

lemma less_cCur_le:
  assumes sh: "ht_shape t" and r: "ht_cCur t < ht_cMax t" and i: "i < ht_cCur t"
  shows "i < ht_cCur (ht_grown t)"
  using ht_room(2)[OF sh r] i by (simp add: ht_grown_def word_less_nat_alt)

lemma grown_new:
  assumes sh: "ht_shape t" and r: "ht_cCur t < ht_cMax t"
    and i: "i < ht_cCur (ht_grown t)" "\<not> i < ht_cCur t"
  shows "\<exists>j < RTHT_LEVEL2_ENTRIES. i = of_nat j + ht_cCur t"
proof -
  from i ht_room(2)[OF sh r] have "i \<in> set (ht_new_idx (ht_cCur t))"
    unfolding ht_new_idx_set(2)[OF ht_room(3)[OF sh r]]
    by (simp add: ht_grown_def word_less_nat_alt word_le_nat_alt)
  then show ?thesis by (auto simp: ht_new_idx_def)
qed

text \<open>The insertion, its result written out.\<close>

definition ht_inserted :: "RTHANDLETABLEINT \<Rightarrow> RTHANDLETABLEINT" where
  "ht_inserted t =
     (if ht_iFreeTail t = NIL_RTHT_INDEX then (ht_grown t)\<lparr>ht_iFreeHead := ht_cCur t\<rparr>
      else ht_put (ht_iFreeTail t) (RTHT_SET_FREE_IDX (ht_cCur t) (ht_ent t (ht_iFreeTail t))) (ht_grown t))
     \<lparr>ht_iFreeTail := ht_cCur t + of_nat RTHT_LEVEL2_ENTRIES - 1\<rparr>"

lemma chain_tail:
  assumes "ht_chain t fl" "ht_iFreeTail t \<noteq> NIL_RTHT_INDEX"
  shows "fl \<noteq> [] \<and> ht_iFreeTail t = last fl \<and> ht_iFreeTail t < ht_cCur t"
  using assms by (auto simp: ht_chain_def split: if_splits)

lemma insert_eq:
  assumes sh: "ht_shape t" and ch: "ht_chain t fl" and r: "ht_cCur t < ht_cMax t"
    and l: "unat (ht_cCur t) div RTHT_LEVEL2_ENTRIES < length (ht_papvLevel1 t)"
  shows "ht_alloc_insert t = Some (ht_inserted t)"
proof (cases "ht_iFreeTail t = NIL_RTHT_INDEX")
  case True
  with r l show ?thesis by (simp add: ht_alloc_insert_def ht_inserted_def ht_grown_def Let_def)
next
  case False
  with chain_tail[OF ch] have tl: "ht_iFreeTail t < ht_cCur t" by blast
  let ?t1 = "t\<lparr>ht_papvLevel1 := (ht_papvLevel1 t)
    [unat (ht_cCur t) div RTHT_LEVEL2_ENTRIES := Some (ht_new_table (ht_cCur t))]\<rparr>"
  have "rtHandleTableLookupWithCtxIdx ?t1 (ht_iFreeTail t) = Some (Some (ht_ent t (ht_iFreeTail t)))"
    using ht_table[OF sh tl] ht_slot[OF sh tl] tl
    by (auto simp: rtHandleTableLookupWithCtxIdx_def ht_ent_def Let_def)
  with False r l show ?thesis
    by (simp add: ht_alloc_insert_def ht_inserted_def ht_grown_def Let_def ht_put_def)
qed

lemma insert_ok:
  assumes sh: "ht_shape t" and ch: "ht_chain t fl"
  shows "\<exists>t'. ht_alloc_insert t = Some t' \<and> ht_shape t' \<and> ht_map t' = ht_map t \<and> ht_same t t' \<and>
    (if ht_cCur t < ht_cMax t \<and> unat (ht_cCur t) div RTHT_LEVEL2_ENTRIES < length (ht_papvLevel1 t)
     then ht_chain t' (fl @ ht_new_idx (ht_cCur t)) else t' = t)"
proof (cases "ht_cCur t < ht_cMax t \<and> unat (ht_cCur t) div RTHT_LEVEL2_ENTRIES < length (ht_papvLevel1 t)")
  case False
  then have "ht_alloc_insert t = Some t" by (auto simp: ht_alloc_insert_def Let_def)
  with False sh show ?thesis by (auto simp: ht_same_def)
next
  case True
  then have r: "ht_cCur t < ht_cMax t" and l: "unat (ht_cCur t) div RTHT_LEVEL2_ENTRIES < length (ht_papvLevel1 t)"
    by auto
  let ?c = "ht_cCur t" and ?g = "ht_grown t"
  note R = ht_room[OF sh r] and E = grown_ent[OF sh r l] and I = ht_new_idx_set[OF ht_room(3)[OF sh r]]
  have c: "ht_cCur ?g = ?c + of_nat RTHT_LEVEL2_ENTRIES" by (simp add: ht_grown_def)
  from ch have D: "distinct fl" and S: "set fl = {i. i < ?c \<and> RTHT_IS_FREE (he_pvObj (ht_ent t i))}"
    and N: "\<And>k. Suc k < length fl \<Longrightarrow> RTHT_GET_FREE_IDX (ht_ent t (fl ! k)) = fl ! Suc k"
    and A: "unat (ht_cCurAllocated t) + length fl = unat ?c"
    and H: "ht_iFreeHead t = (if fl = [] then NIL_RTHT_INDEX else hd fl)"
      "ht_iFreeTail t = (if fl = [] then NIL_RTHT_INDEX else last fl)"
    by (auto simp: ht_chain_def)
  have nidx: "ht_new_idx ?c ! k = of_nat k + ?c" if "k < RTHT_LEVEL2_ENTRIES" for k
    using that by (simp add: ht_new_idx_def)
  have newfree: "RTHT_IS_FREE (he_pvObj (ht_ent ?g i))" if "i \<in> set (ht_new_idx ?c)" for i
    using that E(2) by (auto simp: ht_new_idx_def ht_new_table_nth)
  have lt: "i < ht_cCur ?g \<longleftrightarrow> i < ?c \<or> i \<in> set (ht_new_idx ?c)" for i
    unfolding I(2) c using R(2) by (auto simp: word_less_nat_alt word_le_nat_alt)
  have st: "set (fl @ ht_new_idx ?c) = {i. i < ht_cCur ?g \<and> RTHT_IS_FREE (he_pvObj (ht_ent ?g i))}"
  proof -
    have "i \<notin> set (ht_new_idx ?c)" if "i < ?c" for i using that by (auto simp: I(2))
    with S E(1) newfree show ?thesis unfolding lt by auto
  qed
  have tl: "ht_inserted t = (if fl = [] then ?g\<lparr>ht_iFreeHead := hd (ht_new_idx ?c)\<rparr>
        else (ht_put (last fl) (RTHT_SET_FREE_IDX (hd (ht_new_idx ?c)) (ht_ent t (last fl))) ?g)\<lparr>ht_iFreeHead := hd fl\<rparr>)
      \<lparr>ht_iFreeTail := last (ht_new_idx ?c)\<rparr>"
  proof (cases "fl = []")
    case True with H show ?thesis by (simp add: ht_inserted_def)
  next
    case False
    then have "last fl < ?c" using S last_in_set by auto
    then have "last fl \<noteq> NIL_RTHT_INDEX" by (rule not_nil)
    moreover have "ht_put (last fl) e ?g = (ht_put (last fl) e ?g)\<lparr>ht_iFreeHead := hd fl\<rparr>" for e
      using H False by (simp add: ht_grown_def ht_put_def Let_def)
    ultimately show ?thesis using H False by (simp add: ht_inserted_def)
  qed
  have flE: "fl ! k < ?c" if "k < length fl" for k using S that nth_mem by blast
  have "ht_shape (ht_inserted t) \<and> ht_chain (ht_inserted t) (fl @ ht_new_idx ?c) \<and> ht_map (ht_inserted t) = ht_map ?g"
  proof (rule chain_append[OF grown_shape[OF sh r l] _ _ st _ _ _ tl])
    show "distinct (fl @ ht_new_idx ?c)" using D I S by auto
    show "RTHT_GET_FREE_IDX (ht_ent ?g (fl ! k)) = fl ! Suc k" if "Suc k < length fl" for k
      using N[OF that] E(1)[OF flE] that by simp
    show "RTHT_GET_FREE_IDX (ht_ent ?g (ht_new_idx ?c ! k)) = ht_new_idx ?c ! Suc k" if "Suc k < length (ht_new_idx ?c)" for k
      using that E(2)[of k] by (simp add: nidx ht_new_table_nth)
    show "unat (ht_cCurAllocated ?g) + length fl + length (ht_new_idx ?c) = unat (ht_cCur ?g)"
      using A R(2) unfolding c by (simp add: ht_grown_def)
  qed simp
  moreover have "ht_map ?g = ht_map t"
  proof
    fix h
    let ?i = "h - ht_uBase t"
    have b: "ht_uBase ?g = ht_uBase t" by (simp add: ht_grown_def)
    consider "?i < ?c" | "\<not> ?i < ?c" "?i < ht_cCur ?g" | "\<not> ?i < ?c" "\<not> ?i < ht_cCur ?g" by blast
    then show "ht_map ?g h = ht_map t h"
    proof cases
      case 1
      with lt[of ?i] E(1)[OF 1] b show ?thesis by (simp add: ht_map_def Let_def)
    next
      case 2
      with lt[of ?i] newfree[of ?i] b show ?thesis by (simp add: ht_map_def Let_def)
    next
      case 3
      with b show ?thesis by (simp add: ht_map_def Let_def)
    qed
  qed
  moreover have "ht_same t (ht_inserted t)" by (simp add: ht_same_def ht_inserted_def ht_grown_def)
  ultimately show ?thesis using insert_eq[OF sh ch r l] True by simp
qed

lemma card_below: "card {j. j < c} = unat (c :: u32)"
proof -
  have "\<exists>j < c. n = unat j" if "n < unat c" for n
  proof -
    have "n < 2 ^ 32" using that unat_u32_less[of c] by simp
    then have "unat (of_nat n :: u32) = n" by (simp add: unat_of_nat take_bit_nat_eq_self)
    with that show ?thesis by (metis word_less_nat_alt)
  qed
  then have "unat ` {j. j < c} = {..<unat c}" by (auto simp: word_less_nat_alt)
  moreover have "inj_on unat {j. j < c}" by (rule inj_onI) (simp add: word_unat_eq_iff)
  ultimately show ?thesis by (metis card_image card_lessThan)
qed

lemma link_free_ok:
  assumes sh: "ht_shape t" and ch: "ht_chain t fl" and i: "i < ht_cCur t" and used: "\<not> RTHT_IS_FREE (he_pvObj (ht_ent t i))"
  shows "\<exists>t'. ht_link_free i e t = Some t' \<and> ht_shape t' \<and> ht_chain t' (fl @ [i]) \<and> ht_same t t' \<and>
    ht_map t' = (ht_map t)(i + ht_uBase t := None) \<and> ht_cCur t' = ht_cCur t"
proof -
  let ?e = "RTHT_SET_FREE_IDX NIL_RTHT_INDEX (e\<lparr>he_pvCtx := NOT 7\<rparr>)"
  define T where "T = (ht_put i ?e t)\<lparr>ht_cCurAllocated := ht_cCurAllocated t - 1\<rparr>"
  from ch have D: "distinct fl" and S: "set fl = {i. i < ht_cCur t \<and> RTHT_IS_FREE (he_pvObj (ht_ent t i))}"
    and N: "\<And>k. Suc k < length fl \<Longrightarrow> RTHT_GET_FREE_IDX (ht_ent t (fl ! k)) = fl ! Suc k"
    and A: "unat (ht_cCurAllocated t) + length fl = unat (ht_cCur t)"
    and H: "ht_iFreeHead t = (if fl = [] then NIL_RTHT_INDEX else hd fl)"
      "ht_iFreeTail t = (if fl = [] then NIL_RTHT_INDEX else last fl)"
    by (auto simp: ht_chain_def)
  have shT: "ht_shape T" using ht_shape_put[OF sh i] by (simp add: T_def)
  have ent: "ht_ent T j = (if j = i then ?e else ht_ent t j)" if "j < ht_cCur t" for j
    using ht_ent_put[OF sh i that] by (simp add: T_def)
  have notin: "i \<notin> set fl" using S used by simp
  have "length fl < unat (ht_cCur t)"
  proof -
    have "length (i # fl) = card (set (i # fl))" using D notin by (simp add: distinct_card)
    also have "\<dots> \<le> card {j. j < ht_cCur t}"
      by (rule card_mono) (use S i in auto)
    also have "\<dots> = unat (ht_cCur t)" by (rule card_below)
    finally show ?thesis by simp
  qed
  with A have "ht_cCurAllocated t \<noteq> 0" by auto
  then have A': "unat (ht_cCurAllocated T) + length fl + length [i] = unat (ht_cCur T)"
    using A unat_dec[of "ht_cCurAllocated t"] unat_eq_0[of "ht_cCurAllocated t"] by (simp add: T_def del: unat_eq_0)
  define t' where "t' = (if fl = [] then T\<lparr>ht_iFreeHead := hd [i]\<rparr>
      else (ht_put (last fl) (RTHT_SET_FREE_IDX (hd [i]) (ht_ent T (last fl))) T)\<lparr>ht_iFreeHead := hd fl\<rparr>)
    \<lparr>ht_iFreeTail := last [i]\<rparr>"
  have flE: "j < ht_cCur t \<and> j \<noteq> i" if "j \<in> set fl" for j using S that notin by auto
  have "ht_shape t' \<and> ht_chain t' (fl @ [i]) \<and> ht_map t' = ht_map T"
  proof (rule chain_append[OF shT _ _ _ _ _ A' t'_def])
    show "distinct (fl @ [i])" using D notin by simp
    show "set (fl @ [i]) = {i. i < ht_cCur T \<and> RTHT_IS_FREE (he_pvObj (ht_ent T i))}"
      using S i ent by (auto simp: T_def split: if_splits)
    show "RTHT_GET_FREE_IDX (ht_ent T (fl ! k)) = fl ! Suc k" if "Suc k < length fl" for k
    proof -
      have "fl ! k \<in> set fl" using that by simp
      from flE[OF this] show ?thesis using N[OF that] ent by simp
    qed
  qed simp_all
  moreover have "ht_link_free i e t = Some t'"
  proof (cases "fl = []")
    case True
    with H show ?thesis
      by (simp add: ht_link_free_def t'_def T_def Let_def)
  next
    case False
    then have "last fl \<in> set fl" by simp
    from flE[OF this] have l: "last fl < ht_cCur t" by simp
    have "ht_shape (ht_put i ?e t)" by (rule ht_shape_put[OF sh i])
    note lk = lookupIdx_ok[OF this, of "last fl"]
    show ?thesis using H False l not_nil[OF l] lk
      by (simp add: ht_link_free_def t'_def T_def Let_def)
  qed
  moreover have "ht_map T = (ht_map t)(i + ht_uBase t := None)"
    using ht_map_put[OF sh i, of ?e] by (simp add: T_def)
  ultimately show ?thesis by (auto simp: ht_same_def t'_def T_def)
qed

section \<open>The operations as a whole\<close>

text \<open>Handles of a full table: every index below \<open>cMax\<close> is in use.\<close>

definition ht_full :: "RTHANDLETABLEINT \<Rightarrow> bool" where
  "ht_full t \<longleftrightarrow> (\<forall>i. i < ht_cMax t \<longrightarrow> ht_map t (i + ht_uBase t) \<noteq> None)"

lemma chain_nil_full:
  assumes "ht_chain t []" "ht_cMax t \<le> ht_cCur t"
  shows "ht_full t"
  using assms by (auto simp: ht_chain_def ht_full_def ht_map_def Let_def)

lemma alloc_expand_room:
  assumes sh: "ht_shape t" and r: "ht_cCur t < ht_cMax t"
    and c: "c = (let n = ht_cMax t div of_nat RTHT_LEVEL2_ENTRIES;
                     c = (if length (ht_papvLevel1 t) \<le> unat (ht_cCur t) div RTHT_LEVEL2_ENTRIES
                          then of_nat (length (ht_papvLevel1 t)) + 512 else 0)
                 in if n < c then n else c)"
  shows "unat c \<le> unat (ht_cMax t) div RTHT_LEVEL2_ENTRIES"
    "unat (ht_cCur t) div RTHT_LEVEL2_ENTRIES < length (ht_papvLevel1 (ht_alloc_level1 c t))"
proof -
  let ?n = RTHT_LEVEL2_ENTRIES and ?l = "length (ht_papvLevel1 t)"
  have m: "unat (ht_cMax t div of_nat ?n) = unat (ht_cMax t) div ?n" by (simp add: unat_div)
  from ht_room(1)[OF sh r] have q: "unat (ht_cCur t) div ?n < unat (ht_cMax t) div ?n"
    by (metis L2_pos Suc_le_lessD div_add_self2 div_le_mono add.commute less_numeral_extra(3) plus_1_eq_Suc)
  have "unat (ht_cMax t) div ?n < 2097152" using unat_u32_less[of "ht_cMax t"] by (simp add: L2_small less_mult_imp_div_less)
  moreover have lm: "?l \<le> unat (ht_cMax t) div ?n" and lq: "unat (ht_cCur t) div ?n \<le> ?l" using sh by (simp_all add: ht_shape_def)
  ultimately have lb: "?l + 512 < 4294967296" by simp
  have "(of_nat ?l + 512 :: u32) = of_nat (?l + 512)" by simp
  then have u: "unat (of_nat ?l + 512 :: u32) = ?l + 512"
    using lb by (simp add: unat_of_nat take_bit_nat_eq_self del: of_nat_add)
  show b: "unat c \<le> unat (ht_cMax t) div ?n"
    using c m u by (auto simp: Let_def word_less_nat_alt)
  show "unat (ht_cCur t) div ?n < length (ht_papvLevel1 (ht_alloc_level1 c t))"
  proof (cases "?l \<le> unat (ht_cCur t) div ?n")
    case False
    then have "?l \<le> length (ht_papvLevel1 (ht_alloc_level1 c t))" by (simp add: ht_alloc_level1_def)
    with False show ?thesis by simp
  next
    case True
    with lq have l: "?l = unat (ht_cCur t) div ?n" by simp
    have uc: "unat c = min (unat (ht_cMax t) div ?n) (?l + 512)"
      using c m u True by (auto simp: Let_def word_less_nat_alt)
    with l q have "?l < unat c" "c \<noteq> 0" by (auto simp del: unat_eq_0)
    then show ?thesis using l by (simp add: ht_alloc_level1_def)
  qed
qed

lemma ht_loop_head:
  "ht_alloc_grab pvObj pvCtx t = Some (Grabbed h, t1) \<Longrightarrow>
   ht_alloc_loop pvObj pvCtx fL fT t = Some ((VINF_SUCCESS, h), t1)"
  by (simp add: ht_alloc_loop.simps)

lemma alloc_loop_spec:
  assumes sh: "ht_shape t" and ch: "ht_chain t fl" and obj: "\<not> RTHT_IS_FREE obj"
  shows "\<exists>r h t' fl'. ht_alloc_loop obj ctx fL fT t = Some ((r, h), t') \<and> ht_shape t' \<and> ht_chain t' fl' \<and> ht_same t t' \<and>
    (r = VINF_SUCCESS \<and> ht_map t h = None \<and> ht_map t' = (ht_map t)(h \<mapsto> (obj, ctx)) \<or>
     r = VERR_NO_MORE_HANDLES \<and> h = ht_uBase t - 1 \<and> t' = t \<and> ht_full t \<or>
     r = VERR_NO_MEMORY \<and> h = ht_uBase t - 1 \<and> t' = t \<and> \<not> (fL \<and> fT))"
proof (cases fl)
  case (Cons i fl')
  from grab_some[OF sh ch[unfolded Cons] obj, of ctx] obtain t'
    where "ht_alloc_grab obj ctx t = Some (Grabbed (i + ht_uBase t), t')" "ht_shape t'" "ht_chain t' fl'" "ht_same t t'"
      "ht_map t (i + ht_uBase t) = None" "ht_map t' = (ht_map t)(i + ht_uBase t \<mapsto> (obj, ctx))" by blast
  then show ?thesis by (intro exI[of _ VINF_SUCCESS] exI) (auto dest: ht_loop_head)
next
  case Nil
  note g = grab_none[OF ch[unfolded Nil], of obj ctx]
  show ?thesis
  proof (cases "ht_cMax t \<le> ht_cCur t")
    case True
    with g have "ht_alloc_loop obj ctx fL fT t = Some ((VERR_NO_MORE_HANDLES, ht_uBase t - 1), t)"
      by (simp add: ht_alloc_loop.simps)
    moreover have "ht_full t" by (rule chain_nil_full[OF ch[unfolded Nil] True])
    ultimately show ?thesis using sh ch by (auto simp: ht_same_def)
  next
    case False
    then have r: "ht_cCur t < ht_cMax t" by simp
    define c where "c = (let n = ht_cMax t div of_nat RTHT_LEVEL2_ENTRIES;
        c = (if length (ht_papvLevel1 t) \<le> unat (ht_cCur t) div RTHT_LEVEL2_ENTRIES
             then of_nat (length (ht_papvLevel1 t)) + 512 else 0) in if n < c then n else c)"
    have g': "ht_alloc_grab obj ctx t = Some (Expand c, t)" using g False by (simp add: c_def)
    note room = alloc_expand_room[OF sh r c_def]
    show ?thesis
    proof (cases "(c \<noteq> 0 \<and> \<not> fL) \<or> \<not> fT")
      case True
      with g' have "ht_alloc_loop obj ctx fL fT t = Some ((VERR_NO_MEMORY, ht_uBase t - 1), t)"
        by (auto simp: ht_alloc_loop.simps)
      with True sh ch show ?thesis by (auto simp: ht_same_def)
    next
      case False
      let ?t1 = "ht_alloc_level1 c t"
      from level1_ok[OF sh ch room(1)] have t1: "ht_shape ?t1" "ht_chain ?t1 fl" "ht_map ?t1 = ht_map t" "ht_same t ?t1"
        "ht_cCur ?t1 = ht_cCur t" by auto
      from insert_ok[OF t1(1,2)] room(2) t1(4,5) r obtain t2 where t2: "ht_alloc_insert ?t1 = Some t2" "ht_shape t2"
        "ht_map t2 = ht_map t" "ht_same ?t1 t2" "ht_chain t2 (ht_new_idx (ht_cCur t))"
        using Nil by (auto simp: ht_same_def t1(3))
      then obtain i fl' where "ht_chain t2 (i # fl')" by (cases "ht_new_idx (ht_cCur t)") auto
      from grab_some[OF t2(2) this obj, of ctx] obtain t3
        where t3: "ht_alloc_grab obj ctx t2 = Some (Grabbed (i + ht_uBase t2), t3)" "ht_shape t3" "ht_chain t3 fl'"
          "ht_same t2 t3" "ht_map t2 (i + ht_uBase t2) = None"
          "ht_map t3 = (ht_map t2)(i + ht_uBase t2 \<mapsto> (obj, ctx))" by blast
      have "ht_alloc_loop obj ctx fL fT t = ht_alloc_loop obj ctx fL fT t2"
        using False g' t2(1) by (subst ht_alloc_loop.simps) auto
      also have "\<dots> = Some ((VINF_SUCCESS, i + ht_uBase t2), t3)" by (rule ht_loop_head[OF t3(1)])
      finally show ?thesis using t3 t2(3,4) t1(4) by (auto simp: ht_same_def)
    qed
  qed
qed

lemma ht_ok_cases:
  assumes "ht_ok t"
  obtains fl where "ht_u32Magic t = RTHANDLETABLE_MAGIC" "ht_fFlags t AND RTHANDLETABLE_FLAGS_CONTEXT \<noteq> 0"
    "ht_shape t" "ht_chain t fl"
  using assms by (auto simp: ht_ok_def)

lemma ht_okI: "ht_same t t' \<Longrightarrow> ht_ok t \<Longrightarrow> ht_shape t' \<Longrightarrow> ht_chain t' fl \<Longrightarrow> ht_ok t'"
  by (auto simp: ht_ok_def ht_same_def)

lemma alloc_spec:
  assumes ok: "ht_ok t" and obj: "\<not> RTHT_IS_FREE obj"
  shows "\<exists>r h t'. RTHandleTableAllocWithCtx obj ctx fL fT t = Some ((r, h), t') \<and> ht_ok t' \<and> ht_same t t' \<and>
    (r = VINF_SUCCESS \<and> ht_map t h = None \<and> ht_map t' = (ht_map t)(h \<mapsto> (obj, ctx)) \<or>
     r = VERR_NO_MORE_HANDLES \<and> h = ht_uBase t - 1 \<and> t' = t \<and> ht_full t \<or>
     r = VERR_NO_MEMORY \<and> h = ht_uBase t - 1 \<and> t' = t \<and> \<not> (fL \<and> fT))"
proof -
  from ok obtain fl where t: "ht_u32Magic t = RTHANDLETABLE_MAGIC" "ht_fFlags t AND RTHANDLETABLE_FLAGS_CONTEXT \<noteq> 0"
    "ht_shape t" "ht_chain t fl" by (rule ht_ok_cases)
  have "RTHandleTableAllocWithCtx obj ctx fL fT t = ht_alloc_loop obj ctx fL fT t"
    using t(1,2) obj by (simp add: RTHandleTableAllocWithCtx_def)
  with alloc_loop_spec[OF t(3,4) obj, of ctx fL fT] show ?thesis
    using ht_okI[OF _ ok] by (metis (no_types, lifting))
qed

lemma ht_lookup_map:
  assumes "ht_shape t"
  shows "\<exists>pe. rtHandleTableLookupWithCtx t h = Some pe \<and>
    (case ht_map t h of
       None \<Rightarrow> (case pe of None \<Rightarrow> True | Some e \<Rightarrow> RTHT_IS_FREE (he_pvObj e))
     | Some (obj, ctx) \<Rightarrow> pe = Some \<lparr>he_pvObj = obj, he_pvCtx = ctx\<rparr> \<and> \<not> RTHT_IS_FREE obj \<and>
         h - ht_uBase t < ht_cCur t \<and> ht_ent t (h - ht_uBase t) = \<lparr>he_pvObj = obj, he_pvCtx = ctx\<rparr>)"
  by (auto simp: rtHandleTableLookupWithCtx_def lookupIdx_ok[OF assms] ht_map_def Let_def)

lemma lookup_spec:
  assumes ok: "ht_ok t"
  shows "RTHandleTableLookupWithCtx retain h ctx t s =
    (case ht_map t h of
       Some (obj, ctx') \<Rightarrow> if ctx' = ctx
         then do { (rc, s1) \<leftarrow> retain obj s; Some (if RT_FAILURE rc then 0 else obj, s1) } else Some (0, s)
     | None \<Rightarrow> Some (0, s))"
proof -
  from ok obtain fl where t: "ht_u32Magic t = RTHANDLETABLE_MAGIC" "ht_fFlags t AND RTHANDLETABLE_FLAGS_CONTEXT \<noteq> 0"
    "ht_shape t" "ht_chain t fl" by (rule ht_ok_cases)
  from ht_lookup_map[OF t(3), of h] t(1,2) show ?thesis
    by (auto simp: RTHandleTableLookupWithCtx_def split: option.splits Option.bind_splits)
qed

lemma free_spec:
  assumes ok: "ht_ok t"
  shows "case ht_map t h of
       Some (obj, ctx') \<Rightarrow> if ctx' = ctx
         then \<exists>t'. ht_ok t' \<and> ht_same t t' \<and> ht_map t' = (ht_map t)(h := None) \<and>
           RTHandleTableFreeWithCtx retain h ctx t s =
             do { (rc, s1) \<leftarrow> retain obj s; Some (if RT_FAILURE rc \<or> obj = 0 then (0, t, s1) else (obj, t', s1)) }
         else RTHandleTableFreeWithCtx retain h ctx t s = Some (0, t, s)
     | None \<Rightarrow> RTHandleTableFreeWithCtx retain h ctx t s = Some (0, t, s)"
proof -
  from ok obtain fl where t: "ht_u32Magic t = RTHANDLETABLE_MAGIC" "ht_fFlags t AND RTHANDLETABLE_FLAGS_CONTEXT \<noteq> 0"
    "ht_shape t" "ht_chain t fl" by (rule ht_ok_cases)
  show ?thesis
  proof (cases "ht_map t h")
    case None
    with ht_lookup_map[OF t(3), of h] t(1,2) show ?thesis
      by (auto simp: RTHandleTableFreeWithCtx_def split: option.splits)
  next
    case (Some oc)
    obtain obj ctx' where oc: "oc = (obj, ctx')" by fastforce
    let ?e = "\<lparr>he_pvObj = obj, he_pvCtx = ctx'\<rparr>" and ?i = "h - ht_uBase t"
    from ht_lookup_map[OF t(3), of h] Some oc
    have lk: "rtHandleTableLookupWithCtx t h = Some (Some ?e)" and nf: "\<not> RTHT_IS_FREE obj"
      and i: "?i < ht_cCur t" and en: "ht_ent t ?i = ?e" by auto
    show ?thesis
    proof (cases "ctx' = ctx")
      case False
      with Some oc lk t(1,2) show ?thesis by (simp add: RTHandleTableFreeWithCtx_def)
    next
      case True
      from link_free_ok[OF t(3,4) i, of ?e] en nf obtain t' where t': "ht_link_free ?i ?e t = Some t'" "ht_shape t'"
        "ht_chain t' (fl @ [?i])" "ht_same t t'" "ht_map t' = (ht_map t)(h := None)" by auto
      have "RTHandleTableFreeWithCtx retain h ctx t s =
          do { (rc, s1) \<leftarrow> retain obj s; Some (if RT_FAILURE rc \<or> obj = 0 then (0, t, s1) else (obj, t', s1)) }"
        using t(1,2) lk nf True t'(1)
        by (auto simp: RTHandleTableFreeWithCtx_def split: Option.bind_splits)
      with Some oc True ht_okI[OF t'(4) ok t'(2,3)] t'(4,5) show ?thesis by auto
    qed
  qed
qed

lemma unat_round:
  fixes x :: u32
  shows "unat (x div of_nat RTHT_LEVEL2_ENTRIES * of_nat RTHT_LEVEL2_ENTRIES) =
    unat x div RTHT_LEVEL2_ENTRIES * RTHT_LEVEL2_ENTRIES"
proof -
  have "unat x div RTHT_LEVEL2_ENTRIES * RTHT_LEVEL2_ENTRIES \<le> unat x"
    by (rule div_times_less_eq_dividend)
  from order_le_less_trans[OF this unat_u32_less]
  have "unat x div RTHT_LEVEL2_ENTRIES * RTHT_LEVEL2_ENTRIES < 4294967296" .
  then have "unat (x div of_nat RTHT_LEVEL2_ENTRIES) * unat (of_nat RTHT_LEVEL2_ENTRIES :: u32) < 2 ^ LENGTH(32)"
    by (simp add: unat_div)
  from unat_mult_lem[THEN iffD1, OF this] show ?thesis by (simp add: unat_div)
qed

lemma create_spec:
  assumes "RTHandleTableCreateEx fFlags uBase cMax al rcL = (r, ot)"
  shows "(ot = None \<longleftrightarrow> r \<noteq> VINF_SUCCESS) \<and>
    (\<forall>t. ot = Some t \<longrightarrow> ht_shape t \<and> ht_chain t [] \<and> ht_map t = Map.empty \<and> ht_u32Magic t = RTHANDLETABLE_MAGIC \<and>
       ht_fFlags t = fFlags \<and> ht_uBase t = uBase \<and> ht_cCurAllocated t = 0)"
proof -
  have m: "unat (x div of_nat RTHT_LEVEL2_ENTRIES * of_nat RTHT_LEVEL2_ENTRIES div of_nat RTHT_LEVEL2_ENTRIES) =
    unat x div RTHT_LEVEL2_ENTRIES" for x :: u32
    by (simp add: unat_div unat_round)
  show ?thesis
  proof (cases ot)
    case None
    with assms show ?thesis by (auto simp: RTHandleTableCreateEx_def Let_def split: if_splits)
  next
    case (Some t)
    have "r = VINF_SUCCESS" "ht_cCur t = 0" "ht_u32Magic t = RTHANDLETABLE_MAGIC" "ht_fFlags t = fFlags" "ht_uBase t = uBase"
      "ht_cCurAllocated t = 0" "ht_iFreeHead t = NIL_RTHT_INDEX" "ht_iFreeTail t = NIL_RTHT_INDEX"
      using assms Some by (auto simp: RTHandleTableCreateEx_def Let_def split: if_splits)
    moreover obtain x :: u32 where "ht_cMax t = x div of_nat RTHT_LEVEL2_ENTRIES * of_nat RTHT_LEVEL2_ENTRIES"
      "ht_papvLevel1 t = (if unat (ht_cMax t div of_nat RTHT_LEVEL2_ENTRIES) < RTHT_LEVEL1_DYN_ALLOC_THRESHOLD
        then replicate (unat (ht_cMax t div of_nat RTHT_LEVEL2_ENTRIES)) None else [])"
      using assms Some by (auto simp: RTHandleTableCreateEx_def Let_def split: if_splits)
    ultimately show ?thesis using Some
      by (auto simp: ht_shape_def ht_chain_def ht_map_def Let_def m unat_round)
  qed
qed

section \<open>Destruction\<close>

text \<open>The used entries of a list of entries, with their handles, and calling the delete callback on them.\<close>

fun ht_used :: "u32 \<Rightarrow> RTHTENTRYCTX list \<Rightarrow> (u32 \<times> addr \<times> addr) list" where
  "ht_used h [] = []"
| "ht_used h (e # es) = (if RTHT_IS_FREE (he_pvObj e) then [] else [(h, he_pvObj e, he_pvCtx e)]) @ ht_used (h + 1) es"

fun delete_all :: "(u32 \<Rightarrow> addr \<Rightarrow> addr \<Rightarrow> 's \<Rightarrow> 's option) \<Rightarrow> (u32 \<times> addr \<times> addr) list \<Rightarrow> 's \<Rightarrow> 's option" where
  "delete_all D [] s = Some s"
| "delete_all D ((h, obj, ctx) # xs) s = do { s1 \<leftarrow> D h obj ctx s; delete_all D xs s1 }"

lemma delete_all_append: "delete_all D (xs @ ys) s = do { s1 \<leftarrow> delete_all D xs s; delete_all D ys s1 }"
  by (induction D xs s rule: delete_all.induct) (auto split: Option.bind_splits)

lemma delete_entries_used:
  "ht_delete_entries D h es c s =
   map_option (\<lambda>s1. (c - of_nat (length (ht_used h es)), s1)) (delete_all D (ht_used h es) s)"
proof (induction es arbitrary: h c s)
  case (Cons e es)
  show ?case
  proof (cases "RTHT_IS_FREE (he_pvObj e)")
    case False
    then show ?thesis by (cases "D h (he_pvObj e) (he_pvCtx e) s") (simp_all add: Cons.IH algebra_simps)
  qed (simp add: Cons.IH)
qed simp

lemma ht_used_append: "ht_used h (xs @ ys) = ht_used h xs @ ht_used (h + of_nat (length xs)) ys"
  by (induction xs arbitrary: h) (simp_all add: algebra_simps)

lemma delete_tables_used:
  assumes "\<And>es. es \<in> set tabs \<Longrightarrow> length es = RTHT_LEVEL2_ENTRIES"
    "c = of_nat (length (ht_used h (concat tabs)))" "length (ht_used h (concat tabs)) < 4294967296"
  shows "ht_delete_tables D h (map Some tabs @ replicate k None) c s = delete_all D (ht_used h (concat tabs)) s"
  using assms
proof (induction tabs arbitrary: h c s)
  case Nil
  then show ?case by (cases k) simp_all
next
  case (Cons es tabs)
  let ?h = "h + of_nat RTHT_LEVEL2_ENTRIES"
  have u: "ht_used h (concat (es # tabs)) = ht_used h es @ ht_used ?h (concat tabs)"
    using Cons.prems(1)[of es] by (simp add: ht_used_append)
  show ?case
  proof (cases "0 < c")
    case False
    then have "c = 0" by (simp add: word_neq_0_conv[symmetric])
    then have "(of_nat (length (ht_used h (concat (es # tabs)))) :: u32) = 0" using Cons.prems(2) by simp
    then have "ht_used h (concat (es # tabs)) = []"
      using Cons.prems(3) by (simp add: word_of_nat_eq_0_iff dvd_imp_le del: length_0_conv) (metis dvd_imp_le length_greater_0_conv not_less)
    with False show ?thesis by simp
  next
    case True
    have c: "c - of_nat (length (ht_used h es)) = of_nat (length (ht_used ?h (concat tabs)))"
      using Cons.prems(2) u by simp
    have l: "length (ht_used ?h (concat tabs)) < 4294967296" using Cons.prems(3) u by simp
    have "ht_delete_tables D ?h (map Some tabs @ replicate k None) (c - of_nat (length (ht_used h es))) s1 =
        delete_all D (ht_used ?h (concat tabs)) s1" for s1
      by (rule Cons.IH[OF _ c l]) (use Cons.prems(1) in auto)
    with True show ?thesis
      by (cases "delete_all D (ht_used h es) s") (simp_all add: u[simplified] delete_entries_used delete_all_append)
  qed
qed

text \<open>All entries of a table in index order, and the used ones with their handles.\<close>

definition ht_flat :: "RTHANDLETABLEINT \<Rightarrow> RTHTENTRYCTX list" where
  "ht_flat t = concat (map the (take (unat (ht_cCur t) div RTHT_LEVEL2_ENTRIES) (ht_papvLevel1 t)))"

definition ht_live :: "RTHANDLETABLEINT \<Rightarrow> (u32 \<times> addr \<times> addr) list" where
  "ht_live t = ht_used (ht_uBase t) (ht_flat t)"

lemma concat_nth:
  assumes "\<And>xs. xs \<in> set xss \<Longrightarrow> length xs = n" "0 < n" "i < length xss * n"
  shows "concat xss ! i = xss ! (i div n) ! (i mod n)"
  using assms
proof (induction xss arbitrary: i)
  case (Cons xs xss)
  show ?case
  proof (cases "i < n")
    case True
    with Cons.prems(1)[of xs] show ?thesis by (simp add: nth_append)
  next
    case False
    then obtain k where k: "i = n + k" by (metis le_add_diff_inverse not_less)
    from Cons.IH[of k] Cons.prems k have "concat xss ! k = xss ! (k div n) ! (k mod n)" by simp
    with k Cons.prems(1)[of xs] Cons.prems(2) show ?thesis by (simp add: nth_append div_add_self1)
  qed
qed simp

lemma concat_length: "(\<And>xs. xs \<in> set xss \<Longrightarrow> length xs = n) \<Longrightarrow> length (concat xss) = length xss * n"
  by (induction xss) auto

lemma flat_tables:
  assumes "ht_shape t"
  shows "\<exists>tabs k. ht_papvLevel1 t = map Some tabs @ replicate k None \<and> ht_flat t = concat tabs \<and>
    length tabs = unat (ht_cCur t) div RTHT_LEVEL2_ENTRIES \<and> (\<forall>es \<in> set tabs. length es = RTHT_LEVEL2_ENTRIES)"
proof -
  let ?q = "unat (ht_cCur t) div RTHT_LEVEL2_ENTRIES" and ?L = "ht_papvLevel1 t"
  let ?tabs = "map the (take ?q ?L)"
  have q: "?q \<le> length ?L" using assms by (simp add: ht_shape_def)
  have S: "\<exists>pa. ?L ! k = Some pa \<and> length pa = RTHT_LEVEL2_ENTRIES" if "k < ?q" for k
    using assms that by (simp add: ht_shape_def)
  have "drop ?q ?L = replicate (length ?L - ?q) None"
    by (rule nth_equalityI) (use assms in \<open>auto simp: ht_shape_def\<close>)
  moreover have "take ?q ?L = map Some ?tabs"
    by (rule nth_equalityI) (use q S in fastforce)+
  ultimately have "?L = map Some ?tabs @ replicate (length ?L - ?q) None"
    by (metis append_take_drop_id)
  moreover have "\<forall>es \<in> set ?tabs. length es = RTHT_LEVEL2_ENTRIES"
    using q S by (fastforce simp: in_set_conv_nth)
  ultimately show ?thesis using q by (intro exI[of _ ?tabs] exI conjI) (simp_all add: ht_flat_def)
qed

lemma flat_nth:
  assumes "ht_shape t"
  shows "length (ht_flat t) = unat (ht_cCur t)" "i < ht_cCur t \<Longrightarrow> ht_flat t ! unat i = ht_ent t i"
proof -
  from flat_tables[OF assms] obtain tabs k where t: "ht_papvLevel1 t = map Some tabs @ replicate k None"
    "ht_flat t = concat tabs" "length tabs = unat (ht_cCur t) div RTHT_LEVEL2_ENTRIES"
    "\<And>es. es \<in> set tabs \<Longrightarrow> length es = RTHT_LEVEL2_ENTRIES" by blast
  have d: "length tabs * RTHT_LEVEL2_ENTRIES = unat (ht_cCur t)" using assms t(3) by (simp add: ht_shape_def)
  with concat_length[OF t(4)] t(2) show "length (ht_flat t) = unat (ht_cCur t)" by simp
  assume i: "i < ht_cCur t"
  then have "unat i < length tabs * RTHT_LEVEL2_ENTRIES" using d by (simp add: word_less_nat_alt)
  from concat_nth[OF t(4) L2_pos this] ht_slot[OF assms i] t(1,2,3) show "ht_flat t ! unat i = ht_ent t i"
    by (simp add: ht_ent_def nth_append)
qed

lemma used_set:
  "set (ht_used h es) = {(h + of_nat i, he_pvObj (es ! i), he_pvCtx (es ! i)) | i. i < length es \<and> \<not> RTHT_IS_FREE (he_pvObj (es ! i))}"
proof (induction es arbitrary: h)
  case (Cons e es)
  have "{(h + of_nat i, he_pvObj ((e # es) ! i), he_pvCtx ((e # es) ! i)) | i. i < length (e # es) \<and> \<not> RTHT_IS_FREE (he_pvObj ((e # es) ! i))}
    = (if RTHT_IS_FREE (he_pvObj e) then {} else {(h, he_pvObj e, he_pvCtx e)}) \<union>
      {(h + 1 + of_nat i, he_pvObj (es ! i), he_pvCtx (es ! i)) | i. i < length es \<and> \<not> RTHT_IS_FREE (he_pvObj (es ! i))}"
    (is "?A = ?B \<union> ?C")
  proof (intro set_eqI iffI)
    fix x assume "x \<in> ?A"
    then obtain i where i: "x = (h + of_nat i, he_pvObj ((e # es) ! i), he_pvCtx ((e # es) ! i))" "i < length (e # es)"
      "\<not> RTHT_IS_FREE (he_pvObj ((e # es) ! i))" by auto
    then show "x \<in> ?B \<union> ?C" by (cases i) (auto simp: add.assoc)
  next
    fix x assume "x \<in> ?B \<union> ?C"
    then consider "x = (h, he_pvObj e, he_pvCtx e)" "\<not> RTHT_IS_FREE (he_pvObj e)"
      | i where "x = (h + 1 + of_nat i, he_pvObj (es ! i), he_pvCtx (es ! i))" "i < length es" "\<not> RTHT_IS_FREE (he_pvObj (es ! i))"
      by (auto split: if_splits)
    then show "x \<in> ?A"
    proof cases
      case 1 then show ?thesis by (intro CollectI exI[of _ 0]) simp
    next
      case 2 then show ?thesis by (intro CollectI exI[of _ "Suc i"]) (simp add: add.assoc)
    qed
  qed
  then show ?case by (simp add: Cons.IH)
qed simp

lemma used_distinct: "length es \<le> 4294967296 \<Longrightarrow> distinct (map fst (ht_used h es))"
proof (induction es arbitrary: h)
  case (Cons e es)
  have "h + 1 + of_nat i \<noteq> h" if "i < length es" for i
  proof -
    have "unat (of_nat (Suc i) :: u32) = Suc i" using that Cons.prems
      by (simp add: unat_of_nat take_bit_nat_eq_self del: of_nat_Suc)
    then have "(of_nat (Suc i) :: u32) \<noteq> 0" by (metis nat.distinct(1) unat_0)
    then show ?thesis by (simp add: add.assoc)
  qed
  then have "h \<notin> fst ` set (ht_used (h + 1) es)" by (auto simp: used_set)
  with Cons show ?case by simp
qed simp

lemma live_map:
  assumes "ht_shape t"
  shows "(h, obj, ctx) \<in> set (ht_live t) \<longleftrightarrow> ht_map t h = Some (obj, ctx)"
proof
  assume "(h, obj, ctx) \<in> set (ht_live t)"
  then obtain i where i: "h = ht_uBase t + of_nat i" "obj = he_pvObj (ht_flat t ! i)" "ctx = he_pvCtx (ht_flat t ! i)"
    "i < unat (ht_cCur t)" "\<not> RTHT_IS_FREE (he_pvObj (ht_flat t ! i))"
    by (auto simp: ht_live_def used_set flat_nth(1)[OF assms])
  then have "i < 4294967296" using unat_u32_less[of "ht_cCur t"] by simp
  then have u: "unat (of_nat i :: u32) = i" by (simp add: unat_of_nat take_bit_nat_eq_self)
  then have "of_nat i < ht_cCur t" using i(4) by (simp add: word_less_nat_alt)
  with i u flat_nth(2)[OF assms this] show "ht_map t h = Some (obj, ctx)"
    by (simp add: ht_map_def Let_def)
next
  let ?i = "h - ht_uBase t"
  assume "ht_map t h = Some (obj, ctx)"
  then have i: "?i < ht_cCur t" "\<not> RTHT_IS_FREE (he_pvObj (ht_ent t ?i))" "obj = he_pvObj (ht_ent t ?i)" "ctx = he_pvCtx (ht_ent t ?i)"
    by (auto simp: ht_map_def Let_def split: if_splits)
  have "h = ht_uBase t + of_nat (unat ?i)" by simp
  moreover have "unat ?i < length (ht_flat t)" using i(1) by (simp add: flat_nth(1)[OF assms] word_less_nat_alt)
  ultimately show "(h, obj, ctx) \<in> set (ht_live t)"
    unfolding ht_live_def used_set using i flat_nth(2)[OF assms i(1)]
    by (intro CollectI exI[of _ "unat ?i"]) simp
qed

lemma live_distinct: "ht_shape t \<Longrightarrow> distinct (map fst (ht_live t))"
  using used_distinct[of "ht_flat t"] flat_nth(1)[of t] unat_u32_less[of "ht_cCur t"]
  by (simp add: ht_live_def)

lemma live_dom: "ht_shape t \<Longrightarrow> fst ` set (ht_live t) = dom (ht_map t)"
  using live_map[of t] by (force simp: image_iff)

lemma live_length:
  assumes sh: "ht_shape t" and ch: "ht_chain t fl"
  shows "length (ht_live t) = unat (ht_cCurAllocated t)"
proof -
  let ?U = "{i. i < ht_cCur t \<and> \<not> RTHT_IS_FREE (he_pvObj (ht_ent t i))}"
  have "length (ht_live t) = card (dom (ht_map t))"
    using live_distinct[OF sh] live_dom[OF sh] by (metis distinct_card length_map set_map)
  also have "dom (ht_map t) = (\<lambda>i. i + ht_uBase t) ` ?U"
  proof (intro set_eqI iffI)
    fix h assume "h \<in> dom (ht_map t)"
    then have "h - ht_uBase t \<in> ?U" by (auto simp: ht_map_def Let_def split: if_splits)
    then show "h \<in> (\<lambda>i. i + ht_uBase t) ` ?U" by (metis (no_types, lifting) diff_add_cancel image_eqI)
  qed (auto simp: ht_map_def Let_def)
  also have "card \<dots> = card ?U" by (rule card_image) (simp add: inj_on_def)
  also have "\<dots> = card ({i. i < ht_cCur t} - set fl)"
    using ch by (intro arg_cong[of _ _ card]) (auto simp: ht_chain_def)
  also have "\<dots> = card {i. i < ht_cCur t} - card (set fl)"
    by (rule card_Diff_subset) (use ch in \<open>auto simp: ht_chain_def\<close>)
  also have "\<dots> = unat (ht_cCur t) - length fl"
    using ch distinct_card[of fl] by (simp only: card_below ht_chain_def)
  moreover have "unat (ht_cCurAllocated t) + length fl = unat (ht_cCur t)" using ch by (simp add: ht_chain_def)
  ultimately show ?thesis by linarith
qed

lemma destroy_spec:
  assumes "ht_ok t"
  shows "RTHandleTableDestroy D (Some t) s =
    map_option (\<lambda>s1. (VINF_SUCCESS, None, s1)) (delete_all D (ht_live t) s)"
proof -
  from assms obtain fl where t: "ht_u32Magic t = RTHANDLETABLE_MAGIC" "ht_shape t" "ht_chain t fl" by (auto simp: ht_ok_def)
  from flat_tables[OF t(2)] obtain tabs k where f: "ht_papvLevel1 t = map Some tabs @ replicate k None"
    "ht_flat t = concat tabs" "\<And>es. es \<in> set tabs \<Longrightarrow> length es = RTHT_LEVEL2_ENTRIES" by blast
  have l: "length (ht_used (ht_uBase t) (concat tabs)) = unat (ht_cCurAllocated t)"
    using live_length[OF t(2,3)] by (simp add: ht_live_def f(2))
  have "ht_delete_tables D (ht_uBase t) (map Some tabs @ replicate k None) (ht_cCurAllocated t) s =
      delete_all D (ht_used (ht_uBase t) (concat tabs)) s"
    using l unat_u32_less[of "ht_cCurAllocated t"] by (intro delete_tables_used[OF f(3)]) simp_all
  then show ?thesis using t(1)
    by (cases "delete_all D (ht_live t) s") (simp_all add: RTHandleTableDestroy_def f(1) ht_live_def f(2))
qed

section \<open>Interleaved use\<close>

text \<open>
  Several threads share a table; each operation runs in the atomic sections between which it does
  not hold the lock.  \<open>SGrab\<close>, \<open>SLevel1\<close> and \<open>SInsert\<close> are the sections of an allocation (a thread
  may arrive at the latter two with a size it computed long ago), \<open>SLookup\<close> and \<open>SFree\<close> the others,
  with the status the retain callback gives.  Any interleaving is a sequence of sections.
\<close>

datatype ht_sec =
    SGrab addr addr | SLevel1 u32 | SInsert | SLookup u32 addr rc | SFree u32 addr rc

fun ht_sec_step :: "ht_sec \<Rightarrow> RTHANDLETABLEINT \<Rightarrow> ((u32 \<times> addr) option \<times> RTHANDLETABLEINT) option" where
  "ht_sec_step (SGrab obj ctx) t = (case ht_alloc_grab obj ctx t of
     None \<Rightarrow> None
   | Some (g, t1) \<Rightarrow> Some (case g of Grabbed h \<Rightarrow> Some (h, obj) | _ \<Rightarrow> None, t1))"
| "ht_sec_step (SLevel1 c) t = Some (None, ht_alloc_level1 c t)"
| "ht_sec_step SInsert t = map_option (Pair None) (ht_alloc_insert t)"
| "ht_sec_step (SLookup h ctx rc) t = (case RTHandleTableLookupWithCtx (\<lambda>_ s. Some (rc, s)) h ctx t () of
     None \<Rightarrow> None | Some (obj, _) \<Rightarrow> Some (if obj = 0 then None else Some (h, obj), t))"
| "ht_sec_step (SFree h ctx rc) t = (case RTHandleTableFreeWithCtx (\<lambda>_ s. Some (rc, s)) h ctx t () of
     None \<Rightarrow> None | Some (obj, t1, _) \<Rightarrow> Some (if obj = 0 then None else Some (h, obj), t1))"

text \<open>What the callers owe: aligned objects, and sizes an allocation can have computed.\<close>

fun ht_sec_ok :: "ht_sec \<Rightarrow> RTHANDLETABLEINT \<Rightarrow> bool" where
  "ht_sec_ok (SGrab obj ctx) t \<longleftrightarrow> \<not> RTHT_IS_FREE obj \<and> obj \<noteq> 0"
| "ht_sec_ok (SLevel1 c) t \<longleftrightarrow> unat c \<le> unat (ht_cMax t) div RTHT_LEVEL2_ENTRIES"
| "ht_sec_ok _ t \<longleftrightarrow> True"

text \<open>The specification: what the outcome of a section does to a finite map (\<open>None\<close>: not allowed).\<close>

fun map_sec :: "ht_sec \<Rightarrow> (u32 \<times> addr) option \<Rightarrow> (u32 \<rightharpoonup> addr \<times> addr) \<Rightarrow> (u32 \<rightharpoonup> addr \<times> addr) option" where
  "map_sec (SGrab obj ctx) None m = Some m"
| "map_sec (SGrab obj ctx) (Some (h, obj')) m =
     (if m h = None \<and> obj' = obj then Some (m(h \<mapsto> (obj, ctx))) else None)"
| "map_sec (SLookup h ctx rc) out m =
     (if out = (case m h of Some (obj, ctx') \<Rightarrow> if ctx' = ctx \<and> RT_SUCCESS rc then Some (h, obj) else None | None \<Rightarrow> None)
      then Some m else None)"
| "map_sec (SFree h ctx rc) out m =
     (case m h of
        Some (obj, ctx') \<Rightarrow>
          if ctx' = ctx \<and> RT_SUCCESS rc
          then (if out = Some (h, obj) then Some (m(h := None)) else None)
          else (if out = None then Some m else None)
      | None \<Rightarrow> if out = None then Some m else None)"
| "map_sec _ out m = (if out = None then Some m else None)"

definition ht_inv :: "RTHANDLETABLEINT \<Rightarrow> bool" where
  "ht_inv t \<longleftrightarrow> ht_ok t \<and> (\<forall>h obj ctx. ht_map t h = Some (obj, ctx) \<longrightarrow> obj \<noteq> 0)"

text \<open>The table and the map side by side: a step of the table that the map does not allow is stuck.\<close>

fun ht_lockstep :: "ht_sec \<Rightarrow> RTHANDLETABLEINT \<times> (u32 \<rightharpoonup> addr \<times> addr) \<Rightarrow>
    (RTHANDLETABLEINT \<times> (u32 \<rightharpoonup> addr \<times> addr)) option" where
  "ht_lockstep sec (t, m) = do {
     (out, t1) \<leftarrow> ht_sec_step sec t;
     m1 \<leftarrow> map_sec sec out m;
     Some (t1, m1)
   }"

lemma ht_sec_refines:
  assumes inv: "ht_inv t" and ok: "ht_sec_ok sec t"
  shows "\<exists>out t'. ht_sec_step sec t = Some (out, t') \<and> ht_inv t' \<and> map_sec sec out (ht_map t) = Some (ht_map t')"
proof -
  from inv have okt: "ht_ok t" and nn: "\<And>h obj ctx. ht_map t h = Some (obj, ctx) \<Longrightarrow> obj \<noteq> 0"
    by (auto simp: ht_inv_def)
  then have nz: "ht_map t h \<noteq> Some (0, ctx)" for h ctx by blast
  from okt obtain fl where t: "ht_u32Magic t = RTHANDLETABLE_MAGIC" "ht_fFlags t AND RTHANDLETABLE_FLAGS_CONTEXT \<noteq> 0"
    "ht_shape t" "ht_chain t fl" by (rule ht_ok_cases)
  show ?thesis
  proof (cases sec)
    case (SGrab obj ctx)
    show ?thesis
    proof (cases fl)
      case Nil
      with SGrab inv grab_none[of t obj ctx] t(4) show ?thesis by auto
    next
      case (Cons i fl')
      from grab_some[OF t(3) t(4)[unfolded Cons], of obj ctx] ok SGrab obtain t'
        where g: "ht_alloc_grab obj ctx t = Some (Grabbed (i + ht_uBase t), t')" "ht_shape t'" "ht_chain t' fl'" "ht_same t t'"
          "ht_map t (i + ht_uBase t) = None" "ht_map t' = (ht_map t)(i + ht_uBase t \<mapsto> (obj, ctx))" by auto
      from ht_okI[OF g(4) okt g(2,3)] g(6) nn ok SGrab have "ht_inv t'" by (auto simp: ht_inv_def)
      with g SGrab show ?thesis by simp
    qed
  next
    case (SLevel1 c)
    with level1_ok[OF t(3,4), of c] ok ht_okI[OF _ okt] nz show ?thesis by (auto simp: ht_inv_def)
  next
    case SInsert
    from insert_ok[OF t(3,4)] obtain t' where t': "ht_alloc_insert t = Some t'" "ht_shape t'" "ht_map t' = ht_map t" "ht_same t t'"
      "\<exists>fl'. ht_chain t' fl'" using t(4) by (auto split: if_splits)
    with SInsert ht_okI[OF _ okt] nz show ?thesis by (auto simp: ht_inv_def)
  next
    case (SLookup h ctx rc)
    with inv nn[of h] show ?thesis by (auto simp: lookup_spec[OF okt] split: option.splits)
  next
    case (SFree h ctx rc)
    note f = free_spec[OF okt, where h = h and ctx = ctx and retain = "\<lambda>_ s. Some (rc, s)" and s = "()"]
    show ?thesis
    proof (cases "ht_map t h")
      case None
      with f SFree inv show ?thesis by simp
    next
      case (Some oc)
      obtain obj ctx' where oc: "oc = (obj, ctx')" by fastforce
      show ?thesis
      proof (cases "ctx' = ctx \<and> RT_SUCCESS rc")
        case False
        with f SFree inv Some oc show ?thesis by (auto split: if_splits)
      next
        case True
        with f Some oc nn[of h] obtain t' where t': "ht_ok t'" "ht_map t' = (ht_map t)(h := None)"
          "RTHandleTableFreeWithCtx (\<lambda>_ s. Some (rc, s)) h ctx t () = Some (obj, t', ())" "obj \<noteq> 0" by auto
        with True SFree Some oc nn show ?thesis by (auto simp: ht_inv_def)
      qed
    qed
  qed
qed

interpretation htapi: guarded_api ht_lockstep "\<lambda>sec (t, m). ht_sec_ok sec t" "\<lambda>(t, m). ht_inv t \<and> m = ht_map t"
proof unfold_locales
  fix sec and s :: "RTHANDLETABLEINT \<times> (u32 \<rightharpoonup> addr \<times> addr)"
  assume "case s of (t, m) \<Rightarrow> ht_inv t \<and> m = ht_map t" "case s of (t, m) \<Rightarrow> ht_sec_ok sec t"
  moreover obtain t m where s: "s = (t, m)" by fastforce
  ultimately obtain out t' where "ht_sec_step sec t = Some (out, t')" "ht_inv t'" "map_sec sec out (ht_map t) = Some (ht_map t')"
    "m = ht_map t" using ht_sec_refines[of t sec] by auto
  with s show "\<exists>s'. ht_lockstep sec s = Some s' \<and> (case s' of (t, m) \<Rightarrow> ht_inv t \<and> m = ht_map t)" by simp
qed

section \<open>Properties\<close>

text \<open>The table a session gets: handles from 1, 16 second level tables at most.\<close>

definition session_table :: "RTHANDLETABLEINT" where
  "session_table = the (snd (RTHandleTableCreateEx (RTHANDLETABLE_FLAGS_LOCKED_IRQ_SAFE OR RTHANDLETABLE_FLAGS_CONTEXT) 1 32768 True 0))"

lemma session_base_ok: "(1::u32) \<le> - 32769"
  by code_simp

lemma session_table_created:
  "RTHandleTableCreateEx (RTHANDLETABLE_FLAGS_LOCKED_IRQ_SAFE OR RTHANDLETABLE_FLAGS_CONTEXT) 1 32768 True 0 = (VINF_SUCCESS, Some session_table)"
  using session_base_ok by (simp add: session_table_def RTHandleTableCreateEx_def Let_def)

lemma session_table_inv: "ht_inv session_table" "ht_map session_table = Map.empty" "ht_uBase session_table = 1"
  "ht_chain session_table []" "ht_shape session_table" "ht_cMax session_table = 32768"
proof -
  have c: "ht_shape session_table" "ht_chain session_table []" "ht_map session_table = Map.empty"
    "ht_u32Magic session_table = RTHANDLETABLE_MAGIC" "ht_uBase session_table = 1"
    "ht_fFlags session_table = RTHANDLETABLE_FLAGS_LOCKED_IRQ_SAFE OR RTHANDLETABLE_FLAGS_CONTEXT"
    using create_spec[OF session_table_created] by auto
  then show "ht_inv session_table" by (auto simp: ht_inv_def ht_ok_def)
  show "ht_map session_table = Map.empty" "ht_uBase session_table = 1" "ht_chain session_table []" "ht_shape session_table"
    using c by auto
  show "ht_cMax session_table = 32768"
    using session_base_ok by (simp add: session_table_def RTHandleTableCreateEx_def Let_def L2_small)
qed

text \<open>C29: However the locked sections of concurrent allocations, lookups and frees interleave, the
  handle table does not fault and behaves as a finite map: an allocation only gives out a handle that
  is not in use, a lookup finds exactly what was stored under handle and context, and only a
  successful free takes a handle away.\<close>

theorem handle_table_is_map:
  assumes "ht_inv t" "run_ok ht_lockstep (\<lambda>sec (t, m). ht_sec_ok sec t) secs (t, ht_map t)"
  shows "\<exists>t'. run_steps ht_lockstep secs (t, ht_map t) = Some (t', ht_map t') \<and> ht_inv t'"
  using htapi.run_safe[of "(t, ht_map t)" secs] assms by auto

lemma first_grab:
  "ht_alloc_grab obj ctx session_table = Some (Expand 0, session_table)"
proof -
  have l: "length (ht_papvLevel1 session_table) = 16" "ht_cCur session_table = 0"
    using session_base_ok by (simp_all add: session_table_def RTHandleTableCreateEx_def Let_def L2_small)
  show ?thesis using grab_none[OF session_table_inv(4)] l by (simp add: session_table_inv(6) Let_def)
qed

theorem handle_table_is_map_witness:
  "\<exists>t'. run_steps ht_lockstep [SGrab 0x20000 4, SLevel1 0, SLevel1 16, SInsert, SLookup 7 4 0, SFree 0 4 0]
     (session_table, ht_map session_table) = Some (t', ht_map t') \<and> ht_inv t'"
proof (rule handle_table_is_map[OF session_table_inv(1)])
  have "unat (ht_cMax session_table) div RTHT_LEVEL2_ENTRIES = 16" by (simp add: session_table_inv(6) L2_small)
  moreover have "ht_cMax (ht_alloc_level1 c t) = ht_cMax t" for c t by (simp add: ht_alloc_level1_def)
  ultimately show "run_ok ht_lockstep (\<lambda>sec (t, m). ht_sec_ok sec t)
     [SGrab 0x20000 4, SLevel1 0, SLevel1 16, SInsert, SLookup 7 4 0, SFree 0 4 0] (session_table, ht_map session_table)"
    by (simp add: first_grab RTHT_IS_FREE_def split: option.split)
qed

text \<open>C30: An allocation on a well-formed table returns (its loop ends), and gives a handle that was
  not in use and now leads to the object; it fails only when all handles are in use or memory is
  short, and then changes nothing.\<close>

theorem handle_alloc_returns:
  assumes "ht_ok t" "\<not> RTHT_IS_FREE obj"
  shows "\<exists>r h t'. RTHandleTableAllocWithCtx obj ctx fL fT t = Some ((r, h), t') \<and> ht_ok t' \<and>
    (if r = VINF_SUCCESS then ht_map t h = None \<and> ht_map t' = (ht_map t)(h \<mapsto> (obj, ctx))
     else t' = t \<and> h = ht_uBase t - 1 \<and>
       (r = VERR_NO_MORE_HANDLES \<and> ht_full t \<or> r = VERR_NO_MEMORY \<and> \<not> (fL \<and> fT)))"
proof -
  from alloc_spec[OF assms, of ctx fL fT] obtain r h t' where
    a: "RTHandleTableAllocWithCtx obj ctx fL fT t = Some ((r, h), t')" "ht_ok t'" and
    c: "r = VINF_SUCCESS \<and> ht_map t h = None \<and> ht_map t' = (ht_map t)(h \<mapsto> (obj, ctx)) \<or>
     r = VERR_NO_MORE_HANDLES \<and> h = ht_uBase t - 1 \<and> t' = t \<and> ht_full t \<or>
     r = VERR_NO_MEMORY \<and> h = ht_uBase t - 1 \<and> t' = t \<and> \<not> (fL \<and> fT)" by blast
  show ?thesis by (intro exI[of _ r] exI[of _ h] exI[of _ t'] conjI) (use a c in auto)
qed

theorem handle_alloc_returns_witness:
  "\<exists>h t'. RTHandleTableAllocWithCtx 0x20000 4 True True session_table = Some ((VINF_SUCCESS, h), t') \<and>
    ht_map t' = [h \<mapsto> (0x20000, 4)]"
proof -
  have "\<not> ht_full session_table"
    using session_table_inv(2) by (auto simp: ht_full_def session_table_inv(6) intro!: exI[of _ 0])
  moreover have "ht_ok session_table" using session_table_inv(1) by (simp add: ht_inv_def)
  ultimately show ?thesis using handle_alloc_returns[where t = session_table and obj = "0x20000" and ctx = 4 and fL = True and fT = True] session_table_inv(2)
    by (auto simp: RTHT_IS_FREE_def split: if_splits)
qed

text \<open>Destroying a table calls the delete callback exactly once for every handle in use, with its
  object and context, and for nothing else.\<close>

theorem handle_destroy_visits_all:
  assumes "ht_ok t"
  shows "\<exists>live. RTHandleTableDestroy D (Some t) s =
      map_option (\<lambda>s1. (VINF_SUCCESS, None, s1)) (delete_all D live s) \<and>
    distinct (map fst live) \<and> (\<forall>h obj ctx. (h, obj, ctx) \<in> set live \<longleftrightarrow> ht_map t h = Some (obj, ctx))"
proof -
  from assms have sh: "ht_shape t" by (auto simp: ht_ok_def)
  show ?thesis
    by (intro exI[of _ "ht_live t"] conjI allI destroy_spec[OF assms] live_distinct[OF sh] live_map[OF sh])
qed

theorem handle_destroy_visits_all_witness:
  "\<exists>h t. ht_ok t \<and> ht_map t = [h \<mapsto> (0x20000, 4)] \<and>
    RTHandleTableDestroy (\<lambda>h obj ctx xs. Some (xs @ [(h, obj, ctx)])) (Some t) [] = Some (VINF_SUCCESS, None, [(h, 0x20000, 4)])"
proof -
  have ok: "ht_ok session_table" using session_table_inv(1) by (simp add: ht_inv_def)
  have nf: "\<not> RTHT_IS_FREE 0x20000" by (simp add: RTHT_IS_FREE_def)
  have "\<not> ht_full session_table"
    using session_table_inv(2) by (auto simp: ht_full_def session_table_inv(6) intro!: exI[of _ 0])
  with alloc_spec[OF ok nf, where ctx = 4 and fL = True and fT = True] session_table_inv(2) obtain h t where
    t: "ht_ok t" "ht_map t = [h \<mapsto> (0x20000, 4)]" by auto
  let ?D = "\<lambda>h obj ctx xs. Some (xs @ [(h, obj, ctx)])"
  from handle_destroy_visits_all[OF t(1), of ?D "[]"] obtain live where
    l: "RTHandleTableDestroy ?D (Some t) [] = map_option (\<lambda>s1. (VINF_SUCCESS, None, s1)) (delete_all ?D live [])"
    "distinct (map fst live)" "\<forall>h obj ctx. (h, obj, ctx) \<in> set live \<longleftrightarrow> ht_map t h = Some (obj, ctx)" by blast
  have "set live = {(h, 0x20000, 4)}" using l(3) t(2) by (auto split: if_splits)
  moreover have "distinct live" using l(2) by (simp add: distinct_map)
  ultimately have "live = [(h, 0x20000, 4)]"
    using distinct_card[of live] by (cases live; cases "tl live") auto
  then show ?thesis using l(1) t by (intro exI[of _ h] exI[of _ t] conjI) simp_all
qed

end
