(* ===== verification/SupTypes.thy ===== *)
theory SupTypes
  imports SupUsage RTMemObj RTHandleTable
begin

text \<open>
  The data of the support driver (\<open>SUPDrvInternal.h\<close>): registered objects, loaded images,
  memory bundles, component factories, sessions and the device extension.  Singly linked
  lists are HOL lists in list order; heap blocks that the code names by pointer (objects,
  images, sessions, memory objects) live in partial maps from addresses, and an address that
  is not in the map is not allocated.
\<close>

section \<open>Constants\<close>

abbreviation "BIRD \<equiv> (0x64726962::u32)"
abbreviation "BIRD_INV \<equiv> (0x62697264::u32)"
abbreviation "SUPDRVOBJ_MAGIC \<equiv> (0x18900915::u32)"
abbreviation "SUPDRVOBJ_MAGIC_DEAD \<equiv> (0x19760112::u32)"
abbreviation "NIL_RTUID \<equiv> (- 1::u32)"
abbreviation "NIL_RTGID \<equiv> (- 1::u32)"
abbreviation "NIL_RTPROCESS \<equiv> (- 1::u32)"
abbreviation "NIL_RTNATIVETHREAD \<equiv> (- 1::u64)"

text \<open>\<open>SUPDRVOBJTYPE\<close> as the \<open>int\<close> it is passed as; the values between the two bounds are valid.\<close>

abbreviation "SUPDRVOBJTYPE_INVALID \<equiv> (0::int)"
abbreviation "SUPDRVOBJTYPE_SEM_EVENT \<equiv> (4::int)"
abbreviation "SUPDRVOBJTYPE_SEM_EVENT_MULTI \<equiv> (5::int)"
abbreviation "SUPDRVOBJTYPE_END \<equiv> (7::int)"

section \<open>Registered objects\<close>

record SUPDRVOBJ =
  o_u32Magic :: u32
  o_enmType :: int
  o_pfnDestructor :: addr
  o_pvUser1 :: addr
  o_pvUser2 :: addr
  o_cUsage :: u32
  o_CreatorUid :: u32
  o_CreatorGid :: u32
  o_CreatorProcess :: u32

section \<open>Session memory\<close>

datatype SUPDRVMEMREFTYPE =
    MEMREF_TYPE_UNUSED | MEMREF_TYPE_LOCKED | MEMREF_TYPE_CONT | MEMREF_TYPE_LOW
  | MEMREF_TYPE_MEM | MEMREF_TYPE_PAGE

record SUPDRVMEMREF =
  mr_MemObj :: addr
  mr_MapObjR3 :: addr
  mr_eType :: SUPDRVMEMREFTYPE

record SUPDRVBUNDLE =
  b_aMem :: "SUPDRVMEMREF list"   \<comment> \<open>64 entries\<close>
  b_cUsed :: u32

section \<open>Loaded images\<close>

text \<open>\<open>uState\<close> holds the IOCtl code of the last loader operation.\<close>

datatype ldr_state = SUP_IOCTL_LDR_OPEN | SUP_IOCTL_LDR_LOAD | SUP_IOCTL_LDR_FREE

record SUPLDRSYM =
  sym_offName :: u32
  sym_offSymbol :: u32

record SUPDRVLDRIMAGE =
  i_pvImage :: addr
  i_pvImageAlloc :: addr
  i_cbImageWithTabs :: u32
  i_cbImageBits :: u32
  i_paSymbols :: "SUPLDRSYM list"   \<comment> \<open>and \<open>cSymbols\<close>, its length\<close>
  i_pachStrTab :: "u8 list"         \<comment> \<open>and \<open>cbStrTab\<close>, its length\<close>
  i_pfnModuleInit :: addr
  i_pfnModuleTerm :: addr
  i_pfnServiceReqHandler :: addr
  i_uState :: ldr_state
  i_cUsage :: u32
  i_fNative :: bool
  i_szName :: "u8 list"             \<comment> \<open>without the terminator, at most 31 bytes\<close>
  i_abBits :: "u8 list"             \<comment> \<open>not a field: the bytes at \<open>pvImage\<close>\<close>

section \<open>Component factories\<close>

text \<open>The factory structure of a client driver, and its registration record.\<close>

record SUPDRVFACTORY =
  f_szName :: "u8 list"             \<comment> \<open>the 56 byte array\<close>
  f_pfnQueryFactoryInterface :: addr

record SUPDRVFACTORYREG =
  r_pFactory :: addr
  r_pSession :: addr
  r_cchName :: nat

section \<open>The global information page\<close>

datatype SUPGIPMODE = SUPGIPMODE_INVALID | SUPGIPMODE_SYNC_TSC | SUPGIPMODE_ASYNC_TSC

datatype SUPGIPCPUSTATE =
    SUPGIPCPUSTATE_INVALID | SUPGIPCPUSTATE_ABSENT | SUPGIPCPUSTATE_OFFLINE | SUPGIPCPUSTATE_ONLINE

text \<open>A bitmap of \<open>RTCPUSET_MAX_CPUS\<close> bits (four 64 bit words, the first one lowest).\<close>

type_synonym RTCPUSET = "256 word"

record SUPGIPCPU =
  gc_u32TransactionId :: u32
  gc_u32UpdateIntervalTSC :: u32
  gc_u64NanoTS :: u64
  gc_u64TSC :: u64
  gc_u64CpuHz :: u64
  gc_cErrors :: u32
  gc_iTSCHistoryHead :: u32
  gc_au32TSCHistory :: "u32 list"      \<comment> \<open>8 entries\<close>
  gc_u32PrevUpdateIntervalNS :: u32
  gc_enmState :: SUPGIPCPUSTATE
  gc_idCpu :: u32
  gc_iCpuSet :: "16 word"
  gc_idApic :: "16 word"

record SUPGLOBALINFOPAGE =
  g_u32Magic :: u32
  g_u32Version :: u32
  g_u32Mode :: SUPGIPMODE
  g_cCpus :: "16 word"
  g_cPages :: "16 word"
  g_u32UpdateHz :: u32
  g_u32UpdateIntervalNS :: u32
  g_u64NanoTSLastUpdateHz :: u64
  g_OnlineCpuSet :: RTCPUSET
  g_PresentCpuSet :: RTCPUSET
  g_PossibleCpuSet :: RTCPUSET
  g_cOnlineCpus :: "16 word"
  g_cPresentCpus :: "16 word"
  g_cPossibleCpus :: "16 word"
  g_idCpuMax :: u32
  g_aiCpuFromApicId :: "16 word list"      \<comment> \<open>256 entries\<close>
  g_aiCpuFromCpuSetIdx :: "16 word list"   \<comment> \<open>256 entries\<close>
  g_aCPUs :: "SUPGIPCPU list"              \<comment> \<open>as many as were allocated behind the page\<close>

section \<open>Sessions, the device extension, the driver\<close>

record SUPDRVSESSION =
  s_u32Cookie :: u32
  s_fUnrestricted :: bool
  s_cRefs :: u32
  s_hHandleTable :: "RTHANDLETABLEINT option"   \<comment> \<open>\<open>None\<close> is \<open>NIL_RTHANDLETABLE\<close>\<close>
  s_pVM :: addr
  s_pLdrUsage :: "usage list"
  s_GipMapObjR3 :: addr
  s_fGipReferenced :: bool
  s_Bundle :: "SUPDRVBUNDLE list"   \<comment> \<open>the embedded bundle first, then the \<open>pNext\<close> chain\<close>
  s_pUsage :: "usage list"
  s_Uid :: u32
  s_Gid :: u32
  s_Process :: u32
  s_R0Process :: u64

record SUPDRVDEVEXT =
  d_u32Cookie :: u32
  d_pObjs :: "addr list"
  d_pUsageFree :: "usage list"
  d_pvVMMR0 :: addr
  d_pfnVMMR0EntryInt :: addr
  d_pfnVMMR0EntryFast :: addr
  d_pfnVMMR0EntryEx :: addr
  d_pLdrImages :: "addr list"
  d_pLdrInitImage :: addr
  d_hLdrInitThread :: u64
  d_hGipSpinlock :: bool                   \<comment> \<open>whether it is held\<close>
  d_pGip :: addr
  d_HCPhysGip :: u64
  d_cGipUsers :: u32
  d_GipMemObj :: addr
  d_pGipTimer :: addr
  d_fGipTimerRunning :: bool               \<comment> \<open>the state of that timer\<close>
  d_u32SystemTimerGranularityGrant :: u32
  d_idGipMaster :: u32
  d_pComponentFactoryHead :: "SUPDRVFACTORYREG list"

text \<open>
  Calls out of the driver, in the order they are made: object destructors, image
  initialisation and termination callbacks, the VMMR0 entry points, service requests, and the
  operations on IPRT semaphores.
\<close>

datatype sem_kind = SemEvent | SemEventMulti

datatype sem_call = SemDestroy | SemSignal | SemReset | SemWaitEx u32 u64

datatype ext_call =
    Call_Destructor addr addr addr addr   \<comment> \<open>function, object, \<open>pvUser1\<close>, \<open>pvUser2\<close>\<close>
  | Call_ModuleInit addr addr             \<comment> \<open>function, image\<close>
  | Call_ModuleTerm addr addr
  | Call_EntryFast addr addr u32 u32      \<comment> \<open>function, VM, CPU id, operation\<close>
  | Call_EntryEx addr addr u32 u32 addr u64 addr
      \<comment> \<open>function, VM, CPU id, operation, request packet, argument, session\<close>
  | Call_Service addr addr u32 u64        \<comment> \<open>function, session, operation, argument\<close>
  | Call_QueryFactory addr addr addr      \<comment> \<open>function, factory, session\<close>
  | Call_Sem sem_kind sem_call addr       \<comment> \<open>\<open>RTSemEvent\<close>\<^emph>\<open>Xyz\<close> or \<open>RTSemEventMulti\<close>\<^emph>\<open>Xyz\<close> on a semaphore\<close>

record supdrv =
  devext :: SUPDRVDEVEXT
  sessions :: "addr \<rightharpoonup> SUPDRVSESSION"
  objs :: "addr \<rightharpoonup> SUPDRVOBJ"
  imgs :: "addr \<rightharpoonup> SUPDRVLDRIMAGE"
  memobjs :: memobjs
  factories :: "addr \<rightharpoonup> SUPDRVFACTORY"
  gips :: "addr \<rightharpoonup> SUPGLOBALINFOPAGE"
  g_pSUPGlobalInfoPage :: addr
  calls :: "ext_call list"

definition SUP_IS_SESSION_VALID :: "addr \<Rightarrow> SUPDRVSESSION \<Rightarrow> bool" where
  "SUP_IS_SESSION_VALID pSession ss \<longleftrightarrow> RT_VALID_PTR pSession \<and> s_u32Cookie ss = BIRD_INV"

section \<open>Writing through a pointer\<close>

definition upd_devext :: "(SUPDRVDEVEXT \<Rightarrow> SUPDRVDEVEXT) \<Rightarrow> supdrv \<Rightarrow> supdrv" where
  "upd_devext f s = s\<lparr>devext := f (devext s)\<rparr>"

definition put_session :: "addr \<Rightarrow> SUPDRVSESSION \<Rightarrow> supdrv \<Rightarrow> supdrv" where
  "put_session a ss s = s\<lparr>sessions := (sessions s)(a \<mapsto> ss)\<rparr>"

definition put_obj :: "addr \<Rightarrow> SUPDRVOBJ \<Rightarrow> supdrv \<Rightarrow> supdrv" where
  "put_obj p ob s = s\<lparr>objs := (objs s)(p \<mapsto> ob)\<rparr>"

definition put_img :: "addr \<Rightarrow> SUPDRVLDRIMAGE \<Rightarrow> supdrv \<Rightarrow> supdrv" where
  "put_img p im s = s\<lparr>imgs := (imgs s)(p \<mapsto> im)\<rparr>"

definition put_gip :: "addr \<Rightarrow> SUPGLOBALINFOPAGE \<Rightarrow> supdrv \<Rightarrow> supdrv" where
  "put_gip p g s = s\<lparr>gips := (gips s)(p \<mapsto> g)\<rparr>"

definition log_call :: "ext_call \<Rightarrow> supdrv \<Rightarrow> supdrv" where
  "log_call c s = s\<lparr>calls := calls s @ [c]\<rparr>"

lemma put_simps [simp]:
  "devext (put_session a ss s) = devext s" "sessions (put_session a ss s) = (sessions s)(a \<mapsto> ss)"
  "objs (put_session a ss s) = objs s" "imgs (put_session a ss s) = imgs s"
  "memobjs (put_session a ss s) = memobjs s" "factories (put_session a ss s) = factories s"
  "calls (put_session a ss s) = calls s"
  "devext (put_obj p ob s) = devext s" "sessions (put_obj p ob s) = sessions s"
  "objs (put_obj p ob s) = (objs s)(p \<mapsto> ob)" "imgs (put_obj p ob s) = imgs s"
  "memobjs (put_obj p ob s) = memobjs s" "factories (put_obj p ob s) = factories s"
  "calls (put_obj p ob s) = calls s"
  "devext (put_img p im s) = devext s" "sessions (put_img p im s) = sessions s"
  "objs (put_img p im s) = objs s" "imgs (put_img p im s) = (imgs s)(p \<mapsto> im)"
  "memobjs (put_img p im s) = memobjs s" "factories (put_img p im s) = factories s"
  "calls (put_img p im s) = calls s"
  "gips (put_session a ss s) = gips s" "gips (put_obj p ob s) = gips s" "gips (put_img p im s) = gips s"
  "g_pSUPGlobalInfoPage (put_session a ss s) = g_pSUPGlobalInfoPage s"
  "g_pSUPGlobalInfoPage (put_obj p ob s) = g_pSUPGlobalInfoPage s"
  "g_pSUPGlobalInfoPage (put_img p im s) = g_pSUPGlobalInfoPage s"
  by (simp_all add: put_session_def put_obj_def put_img_def)

lemma put_gip_simps [simp]:
  "devext (put_gip p g s) = devext s" "sessions (put_gip p g s) = sessions s" "objs (put_gip p g s) = objs s"
  "imgs (put_gip p g s) = imgs s" "memobjs (put_gip p g s) = memobjs s" "factories (put_gip p g s) = factories s"
  "calls (put_gip p g s) = calls s" "gips (put_gip p g s) = (gips s)(p \<mapsto> g)"
  "g_pSUPGlobalInfoPage (put_gip p g s) = g_pSUPGlobalInfoPage s"
  by (simp_all add: put_gip_def)

lemma upd_devext_simps [simp]:
  "devext (upd_devext f s) = f (devext s)" "sessions (upd_devext f s) = sessions s"
  "objs (upd_devext f s) = objs s" "imgs (upd_devext f s) = imgs s"
  "memobjs (upd_devext f s) = memobjs s" "factories (upd_devext f s) = factories s"
  "calls (upd_devext f s) = calls s" "gips (upd_devext f s) = gips s"
  "g_pSUPGlobalInfoPage (upd_devext f s) = g_pSUPGlobalInfoPage s"
  by (simp_all add: upd_devext_def)

lemma log_call_simps [simp]:
  "devext (log_call c s) = devext s" "sessions (log_call c s) = sessions s"
  "objs (log_call c s) = objs s" "imgs (log_call c s) = imgs s"
  "memobjs (log_call c s) = memobjs s" "factories (log_call c s) = factories s"
  "calls (log_call c s) = calls s @ [c]" "gips (log_call c s) = gips s"
  "g_pSUPGlobalInfoPage (log_call c s) = g_pSUPGlobalInfoPage s"
  by (simp_all add: log_call_def)

section \<open>Promises of the callers\<close>

text \<open>
  Two promises that the shipped callers keep and the driver does not check.  \<open>VMMR0_At_Base\<close>: a load
  request for VMMR0 gives the load address of its own image as the VMMR0 handle.  \<open>GIP_Ref_Mapped\<close>: a
  session that is closed with a reference to the global info page also has a ring-3 mapping of the
  page.  The invariants below take the set of the promises that are kept.  With the empty set they
  hold for any caller; each promise in the set adds what the driver can only guarantee with it.
\<close>

datatype promise = VMMR0_At_Base | GIP_Ref_Mapped

end
