(* ===== verification/SupObj.thy ===== *)
theory SupObj
  imports SupTypes
begin

text \<open>
  Registered objects (\<open>SUPR0ObjRegister\<close>, \<open>SUPR0ObjAddRefEx\<close>, \<open>SUPR0ObjRelease\<close>,
  \<open>SUPR0ObjVerifyAccess\<close>) and the object part of session cleanup.  Results of the memory
  allocator are arguments: \<open>pNew\<close> is what \<open>RTMemAlloc\<close> returns for the object (0 for NULL),
  \<open>fAlloc\<close> whether the allocation of a usage record succeeds.  Linux leaves
  \<open>supdrvOSObjInitCreator\<close> and \<open>supdrvOSObjCanAccess\<close> empty, so they add nothing here.
\<close>

section \<open>Operations\<close>

text \<open>Running the destructor, if there is still one, and freeing the object.\<close>

definition objDestroy :: "addr \<Rightarrow> SUPDRVOBJ \<Rightarrow> supdrv \<Rightarrow> supdrv" where
  "objDestroy p ob s =
     (if o_pfnDestructor ob \<noteq> 0
      then log_call (Call_Destructor (o_pfnDestructor ob) p (o_pvUser1 ob) (o_pvUser2 ob)) s else s)
     \<lparr>objs := (objs s)(p := None)\<rparr>"

text \<open>Unlinking an object from the global list (nothing happens when it is not there).\<close>

definition objUnlink :: "addr \<Rightarrow> supdrv \<Rightarrow> supdrv" where
  "objUnlink p = upd_devext (\<lambda>d. d\<lparr>d_pObjs := remove1 p (d_pObjs d)\<rparr>)"

text \<open>The locked part of registration: link the object and the session's usage record.\<close>

definition objInsert :: "addr \<Rightarrow> addr \<Rightarrow> SUPDRVOBJ \<Rightarrow> supdrv \<Rightarrow> supdrv option" where
  "objInsert pSession p ob s = do {
     ss \<leftarrow> sessions s pSession;
     Some (put_session pSession (ss\<lparr>s_pUsage := \<lparr>u_ref = p, u_cUsage = 1\<rparr> # s_pUsage ss\<rparr>)
            (upd_devext (\<lambda>d. d\<lparr>d_pObjs := p # d_pObjs d\<rparr>) (put_obj p ob s)))
   }"

definition SUPR0ObjRegister ::
  "addr \<Rightarrow> int \<Rightarrow> addr \<Rightarrow> addr \<Rightarrow> addr \<Rightarrow> addr \<Rightarrow> bool \<Rightarrow> supdrv \<Rightarrow> (addr \<times> supdrv) option" where
  "SUPR0ObjRegister pSession enmType pfnDestructor pvUser1 pvUser2 pNew fAlloc s = do {
     ss \<leftarrow> sessions s pSession;
     if \<not> SUP_IS_SESSION_VALID pSession ss then Some (0, s)
     else if \<not> (SUPDRVOBJTYPE_INVALID < enmType \<and> enmType < SUPDRVOBJTYPE_END) then Some (0, s)
     else if \<not> RT_VALID_PTR pfnDestructor then Some (0, s)
     else if pNew = 0 then Some (0, s)
     else do {
       let ob = \<lparr>o_u32Magic = SUPDRVOBJ_MAGIC, o_enmType = enmType, o_pfnDestructor = pfnDestructor,
                 o_pvUser1 = pvUser1, o_pvUser2 = pvUser2, o_cUsage = 1,
                 o_CreatorUid = s_Uid ss, o_CreatorGid = s_Gid ss, o_CreatorProcess = s_Process ss\<rparr>;
       case d_pUsageFree (devext s) of
         u # us \<Rightarrow> do {
           s' \<leftarrow> objInsert pSession pNew ob (upd_devext (\<lambda>d. d\<lparr>d_pUsageFree := us\<rparr>) s);
           Some (pNew, s')
         }
       | [] \<Rightarrow>
           if \<not> fAlloc then Some (0, s)
           else do { s' \<leftarrow> objInsert pSession pNew ob s; Some (pNew, s') }
     }
   }"

text \<open>
  The second locked part of \<open>SUPR0ObjAddRefEx\<close>, entered with the preallocated usage record, if
  there is one: count the reference on the object, then on the session's record or on a new
  one; without a record to use, take the reference back.  An unused record goes to the free
  list.
\<close>

definition objAddRefLocked :: "addr \<Rightarrow> addr \<Rightarrow> usage option \<Rightarrow> supdrv \<Rightarrow> (rc \<times> supdrv) option" where
  "objAddRefLocked p pSession pUsagePre s = do {
     ss \<leftarrow> sessions s pSession;
     ob \<leftarrow> objs s p;
     let ob1 = ob\<lparr>o_cUsage := o_cUsage ob + 1\<rparr>;
     case usage_find p (s_pUsage ss) of
       Some u \<Rightarrow>
         (let s1 = put_session pSession (ss\<lparr>s_pUsage := usage_inc p (s_pUsage ss)\<rparr>) (put_obj p ob1 s) in
          Some (VINF_SUCCESS,
                (case pUsagePre of None \<Rightarrow> s1
                 | Some u' \<Rightarrow> upd_devext (\<lambda>d. d\<lparr>d_pUsageFree := u' # d_pUsageFree d\<rparr>) s1)))
     | None \<Rightarrow>
         (case pUsagePre of
            Some u' \<Rightarrow>
              Some (VINF_SUCCESS,
                    put_session pSession
                      (ss\<lparr>s_pUsage := u'\<lparr>u_ref := p, u_cUsage := 1\<rparr> # s_pUsage ss\<rparr>) (put_obj p ob1 s))
          | None \<Rightarrow> Some (VERR_TRY_AGAIN, put_obj p (ob1\<lparr>o_cUsage := o_cUsage ob1 - 1\<rparr>) s))
   }"

definition SUPR0ObjAddRefEx :: "addr \<Rightarrow> addr \<Rightarrow> bool \<Rightarrow> bool \<Rightarrow> supdrv \<Rightarrow> (rc \<times> supdrv) option" where
  "SUPR0ObjAddRefEx pvObj pSession fNoBlocking fAlloc s = do {
     ss \<leftarrow> sessions s pSession;
     if \<not> SUP_IS_SESSION_VALID pSession ss then Some (VERR_INVALID_PARAMETER, s)
     else if \<not> RT_VALID_PTR pvObj then Some (VERR_INVALID_POINTER, s)
     else do {
       ob \<leftarrow> objs s pvObj;
       if o_u32Magic ob \<noteq> SUPDRVOBJ_MAGIC \<and> o_u32Magic ob \<noteq> SUPDRVOBJ_MAGIC_DEAD
       then Some (VERR_INVALID_PARAMETER, s)
       else if o_u32Magic ob \<noteq> SUPDRVOBJ_MAGIC then Some (VERR_WRONG_ORDER, s)
       else case d_pUsageFree (devext s) of
         u # us \<Rightarrow> objAddRefLocked pvObj pSession (Some u) (upd_devext (\<lambda>d. d\<lparr>d_pUsageFree := us\<rparr>) s)
       | [] \<Rightarrow>
           if fNoBlocking then objAddRefLocked pvObj pSession None s
           else if \<not> fAlloc then Some (VERR_NO_MEMORY, s)
           else objAddRefLocked pvObj pSession (Some \<lparr>u_ref = 0, u_cUsage = 0\<rparr>) s
     }
   }"

definition SUPR0ObjAddRef :: "addr \<Rightarrow> addr \<Rightarrow> bool \<Rightarrow> supdrv \<Rightarrow> (rc \<times> supdrv) option" where
  "SUPR0ObjAddRef pvObj pSession fAlloc s = SUPR0ObjAddRefEx pvObj pSession False fAlloc s"

definition SUPR0ObjRelease :: "addr \<Rightarrow> addr \<Rightarrow> supdrv \<Rightarrow> (rc \<times> supdrv) option" where
  "SUPR0ObjRelease pvObj pSession s = do {
     ss \<leftarrow> sessions s pSession;
     if \<not> SUP_IS_SESSION_VALID pSession ss then Some (VERR_INVALID_PARAMETER, s)
     else if \<not> RT_VALID_PTR pvObj then Some (VERR_INVALID_PARAMETER, s)
     else do {
       ob \<leftarrow> objs s pvObj;
       if o_u32Magic ob \<noteq> SUPDRVOBJ_MAGIC then Some (VERR_INVALID_PARAMETER, s)
       else case usage_find pvObj (s_pUsage ss) of
         None \<Rightarrow> Some (VERR_INVALID_PARAMETER, s)
       | Some u \<Rightarrow>
           if 1 < u_cUsage u
           then Some (VINF_SUCCESS,
                  put_session pSession (ss\<lparr>s_pUsage := usage_dec pvObj (s_pUsage ss)\<rparr>)
                    (put_obj pvObj (ob\<lparr>o_cUsage := o_cUsage ob - 1\<rparr>) s))
           else do {
             let s1 = upd_devext (\<lambda>d. d\<lparr>d_pUsageFree := u # d_pUsageFree d\<rparr>)
                        (put_session pSession (ss\<lparr>s_pUsage := usage_unlink pvObj (s_pUsage ss)\<rparr>) s);
             if 1 < o_cUsage ob
             then Some (VINF_SUCCESS, put_obj pvObj (ob\<lparr>o_cUsage := o_cUsage ob - 1\<rparr>) s1)
             else Some (VINF_OBJECT_DESTROYED,
                    objDestroy pvObj (ob\<lparr>o_u32Magic := SUPDRVOBJ_MAGIC_DEAD\<rparr>)
                      (objUnlink pvObj (put_obj pvObj (ob\<lparr>o_u32Magic := SUPDRVOBJ_MAGIC_DEAD\<rparr>) s1)))
           }
     }
   }"

definition SUPR0ObjVerifyAccess :: "addr \<Rightarrow> addr \<Rightarrow> supdrv \<Rightarrow> rc option" where
  "SUPR0ObjVerifyAccess pvObj pSession s = do {
     ss \<leftarrow> sessions s pSession;
     if \<not> SUP_IS_SESSION_VALID pSession ss then Some VERR_INVALID_PARAMETER
     else if \<not> RT_VALID_PTR pvObj then Some VERR_INVALID_PARAMETER
     else do {
       ob \<leftarrow> objs s pvObj;
       if o_u32Magic ob \<noteq> SUPDRVOBJ_MAGIC then Some VERR_INVALID_PARAMETER
       else if o_CreatorUid ob = s_Uid ss then Some VINF_SUCCESS
       else Some VERR_PERMISSION_DENIED
     }
   }"

text \<open>
  The object loop of \<open>supdrvCleanupSession\<close>: pop the session's records one by one, subtract
  the record's count from the object, and destroy the object when nothing is left.  The
  records are freed, not recycled, and the magic is not touched on this path.
\<close>

fun cleanupObjs :: "usage list \<Rightarrow> addr \<Rightarrow> supdrv \<Rightarrow> supdrv option" where
  "cleanupObjs [] pSession s = Some s"
| "cleanupObjs (u # us) pSession s = do {
     ss \<leftarrow> sessions s pSession;
     ob \<leftarrow> objs s (u_ref u);
     let s1 = put_session pSession (ss\<lparr>s_pUsage := us\<rparr>) s;
     cleanupObjs us pSession
       (if u_cUsage u < o_cUsage ob
        then put_obj (u_ref u) (ob\<lparr>o_cUsage := o_cUsage ob - u_cUsage u\<rparr>) s1
        else objDestroy (u_ref u) ob (objUnlink (u_ref u) s1))
   }"

definition supdrvCleanupSession_objs :: "addr \<Rightarrow> supdrv \<Rightarrow> supdrv option" where
  "supdrvCleanupSession_objs pSession s = do {
     ss \<leftarrow> sessions s pSession;
     cleanupObjs (s_pUsage ss) pSession s
   }"

section \<open>The account of the object table, and its invariant\<close>

definition obj_acct :: "supdrv \<Rightarrow> acct" where
  "obj_acct s = ((\<lambda>p. map_option o_cUsage (objs s p)), (\<lambda>a. map_option s_pUsage (sessions s a)))"

text \<open>
  Between operations: the global list holds exactly the allocated objects, once each, all
  with the live magic and non-NULL, and their counters balance the sessions' records.
\<close>

definition obj_inv :: "supdrv \<Rightarrow> bool" where
  "obj_inv s \<longleftrightarrow> distinct (d_pObjs (devext s)) \<and> set (d_pObjs (devext s)) = dom (objs s) \<and>
     (\<forall>p ob. objs s p = Some ob \<longrightarrow> o_u32Magic ob = SUPDRVOBJ_MAGIC \<and> RT_VALID_PTR p) \<and>
     balanced (obj_acct s)"

lemma obj_acct_put_obj [simp]:
  "obj_acct (put_obj p ob s) = ((fst (obj_acct s))(p \<mapsto> o_cUsage ob), snd (obj_acct s))"
  by (auto simp: obj_acct_def)

lemma obj_acct_put_session [simp]:
  "obj_acct (put_session a ss s) = (fst (obj_acct s), (snd (obj_acct s))(a \<mapsto> s_pUsage ss))"
  by (auto simp: obj_acct_def)

lemma obj_acct_upd_devext [simp]: "obj_acct (upd_devext f s) = obj_acct s"
  by (simp add: obj_acct_def)

lemma obj_acct_unlink [simp]: "obj_acct (objUnlink p s) = obj_acct s"
  by (simp add: objUnlink_def)

lemma objDestroy_simps [simp]:
  "devext (objDestroy p ob s) = devext s" "sessions (objDestroy p ob s) = sessions s"
  "objs (objDestroy p ob s) = (objs s)(p := None)" "imgs (objDestroy p ob s) = imgs s"
  "memobjs (objDestroy p ob s) = memobjs s" "factories (objDestroy p ob s) = factories s"
  by (auto simp: objDestroy_def)

lemma objDestroy_calls:
  "calls (objDestroy p ob s) = calls s @ (if o_pfnDestructor ob \<noteq> 0
     then [Call_Destructor (o_pfnDestructor ob) p (o_pvUser1 ob) (o_pvUser2 ob)] else [])"
  by (simp add: objDestroy_def)

lemma objUnlink_simps [simp]:
  "d_pObjs (devext (objUnlink p s)) = remove1 p (d_pObjs (devext s))"
  "sessions (objUnlink p s) = sessions s" "objs (objUnlink p s) = objs s"
  "imgs (objUnlink p s) = imgs s" "memobjs (objUnlink p s) = memobjs s"
  "calls (objUnlink p s) = calls s" "factories (objUnlink p s) = factories s"
  by (auto simp: objUnlink_def)

lemma obj_acct_destroy [simp]:
  "obj_acct (objDestroy p ob s) = ((fst (obj_acct s))(p := None), snd (obj_acct s))"
  by (auto simp: obj_acct_def)

lemma fst_obj_acct [simp]: "fst (obj_acct s) p = map_option o_cUsage (objs s p)"
  by (simp add: obj_acct_def)

lemma snd_obj_acct [simp]: "snd (obj_acct s) a = map_option s_pUsage (sessions s a)"
  by (simp add: obj_acct_def)

section \<open>Refinement of the account\<close>

text \<open>The successful calls as state transformers.\<close>

definition objRetain :: "bool \<Rightarrow> bool \<Rightarrow> addr \<Rightarrow> addr \<Rightarrow> supdrv \<Rightarrow> supdrv option" where
  "objRetain fNoBlocking fAlloc a p s = (case SUPR0ObjAddRefEx p a fNoBlocking fAlloc s of
       Some (r, s') \<Rightarrow> if r = VINF_SUCCESS then Some s' else None
     | None \<Rightarrow> None)"

definition objRelease :: "addr \<Rightarrow> addr \<Rightarrow> supdrv \<Rightarrow> supdrv option" where
  "objRelease a p s = (case SUPR0ObjRelease p a s of
       Some (r, s') \<Rightarrow> if RT_SUCCESS r then Some s' else None
     | None \<Rightarrow> None)"

lemma objAddRefLocked_acct:
  "objAddRefLocked p a pre s = Some (VINF_SUCCESS, s') \<Longrightarrow> acct_retain a p (obj_acct s) = Some (obj_acct s')"
  by (auto simp: objAddRefLocked_def acct_retain_def usage_retain_def Let_def
      split: Option.bind_splits option.splits)

lemma objRetain_refines:
  "objRetain nb al a p s = Some s' \<Longrightarrow> acct_retain a p (obj_acct s) = Some (obj_acct s')"
  by (auto simp: objRetain_def SUPR0ObjAddRefEx_def
      split: Option.bind_splits option.splits if_splits list.splits
      dest!: objAddRefLocked_acct)

lemma objRelease_refines:
  "objRelease a p s = Some s' \<Longrightarrow> acct_release a p (obj_acct s) = Some (obj_acct s')"
  by (auto simp: objRelease_def SUPR0ObjRelease_def acct_release_def Let_def
      split: Option.bind_splits option.splits if_splits)

lemma release_law_live: "objRelease a p s = Some s' \<Longrightarrow> objs s p \<noteq> None"
  by (drule objRelease_refines) (auto simp: acct_release_def split: option.splits)

interpretation objref: refcounting obj_acct "objRetain nb al" objRelease for nb al
  by unfold_locales (auto intro: objRetain_refines objRelease_refines)

section \<open>The invariant is kept\<close>

text \<open>What \<open>RTMemAlloc\<close> may return for a new object: NULL, or a valid block not in use.\<close>

definition fresh_obj :: "addr \<Rightarrow> supdrv \<Rightarrow> bool" where
  "fresh_obj p s \<longleftrightarrow> p = 0 \<or> (RT_VALID_PTR p \<and> objs s p = None)"

lemma objRegister_acct:
  assumes "SUPR0ObjRegister a ty d u1 u2 p al s = Some (r, s')" "fresh_obj p s" "r \<noteq> 0"
  shows "r = p \<and> acct_create a p (obj_acct s) = Some (obj_acct s') \<and>
    d_pObjs (devext s') = p # d_pObjs (devext s) \<and>
    (\<exists>ob. objs s' = (objs s)(p \<mapsto> ob) \<and> o_u32Magic ob = SUPDRVOBJ_MAGIC \<and> o_pfnDestructor ob = d) \<and>
    RT_VALID_PTR p \<and> RT_VALID_PTR d \<and> objs s p = None \<and> calls s' = calls s"
  using assms
  by (auto simp: SUPR0ObjRegister_def objInsert_def acct_create_def fresh_obj_def Let_def
      split: Option.bind_splits option.splits if_splits list.splits)

lemma objRegister_fail: "SUPR0ObjRegister a ty d u1 u2 p al s = Some (0, s') \<Longrightarrow> s' = s"
  by (auto simp: SUPR0ObjRegister_def objInsert_def Let_def
      split: Option.bind_splits option.splits if_splits list.splits)

lemma obj_inv_balanced: "obj_inv s \<Longrightarrow> balanced (obj_acct s)"
  by (simp add: obj_inv_def)

lemma obj_inv_register:
  assumes "SUPR0ObjRegister a ty d u1 u2 p al s = Some (r, s')" "fresh_obj p s" "obj_inv s"
  shows "obj_inv s'"
proof (cases "r = 0")
  case True
  with assms show ?thesis using objRegister_fail by blast
next
  case False
  note f = objRegister_acct[OF assms(1,2) False]
  from f have "balanced (obj_acct s')"
    using acct_create_accounted obj_inv_balanced[OF assms(3)] by blast
  with f assms(3) show ?thesis by (auto simp: obj_inv_def split: if_splits)
qed

text \<open>An object with its counter blanked out: what retaining and releasing never touch.\<close>

definition obj_sig :: "SUPDRVOBJ \<Rightarrow> SUPDRVOBJ" where
  "obj_sig ob = ob\<lparr>o_cUsage := 0\<rparr>"

definition same_objs :: "supdrv \<Rightarrow> supdrv \<Rightarrow> bool" where
  "same_objs s s' \<longleftrightarrow> (\<forall>q. map_option obj_sig (objs s' q) = map_option obj_sig (objs s q)) \<and>
     d_pObjs (devext s') = d_pObjs (devext s) \<and> calls s' = calls s"

lemma obj_sig_upd [simp]: "obj_sig (ob\<lparr>o_cUsage := c\<rparr>) = obj_sig ob"
  by (simp add: obj_sig_def)

lemma obj_sig_sel:
  "obj_sig ob = obj_sig ob' \<Longrightarrow> o_u32Magic ob = o_u32Magic ob' \<and> o_pfnDestructor ob = o_pfnDestructor ob'"
  by (cases ob; cases ob') (simp add: obj_sig_def)

lemma same_objs_refl [simp]: "same_objs s s"
  by (simp add: same_objs_def)

lemma same_objs_dom: "same_objs s s' \<Longrightarrow> dom (objs s') = dom (objs s)"
  unfolding same_objs_def dom_def by (metis (no_types, lifting) map_option_is_None)

lemma same_objs_inv:
  assumes "same_objs s s'" "obj_inv s" "balanced (obj_acct s')"
  shows "obj_inv s'"
proof -
  have "o_u32Magic ob' = SUPDRVOBJ_MAGIC \<and> RT_VALID_PTR p" if "objs s' p = Some ob'" for p ob'
  proof -
    from that assms(1) obtain ob where "objs s p = Some ob" "obj_sig ob' = obj_sig ob"
      unfolding same_objs_def by (metis map_option_eq_Some option.map(2))
    with assms(2) show ?thesis by (auto simp: obj_inv_def dest: obj_sig_sel)
  qed
  with assms same_objs_dom[OF assms(1)] show ?thesis
    by (simp add: obj_inv_def same_objs_def)
qed

lemma objAddRefEx_same:
  "SUPR0ObjAddRefEx p a nb al s = Some (r, s') \<Longrightarrow> same_objs s s'"
  by (auto simp: SUPR0ObjAddRefEx_def objAddRefLocked_def Let_def same_objs_def
      split: Option.bind_splits option.splits if_splits list.splits)

text \<open>Failing calls change nothing but, at most, which record the free list offers.\<close>

lemma objAddRefEx_fail:
  "SUPR0ObjAddRefEx p a nb al s = Some (r, s') \<Longrightarrow> r \<noteq> VINF_SUCCESS \<Longrightarrow> obj_acct s' = obj_acct s"
  by (auto simp: SUPR0ObjAddRefEx_def objAddRefLocked_def Let_def fun_eq_iff obj_acct_def
      split: Option.bind_splits option.splits if_splits list.splits)

lemma obj_inv_addref:
  assumes ar: "SUPR0ObjAddRefEx p a nb al s = Some (r, s')" and inv: "obj_inv s"
    and nomax: "\<And>ob. objs s p = Some ob \<Longrightarrow> o_cUsage ob \<noteq> - 1"
  shows "obj_inv s'"
proof -
  have "balanced (obj_acct s')"
  proof (cases "r = VINF_SUCCESS")
    case True
    then have "objRetain nb al a p s = Some s'" using ar by (simp add: objRetain_def)
    then show ?thesis
      by (rule objref.retain_keeps_balance) (use obj_inv_balanced[OF inv] nomax in auto)
  next
    case False
    from objAddRefEx_fail[OF ar False] obj_inv_balanced[OF inv] show ?thesis by simp
  qed
  with objAddRefEx_same[OF ar] inv show ?thesis by (blast intro: same_objs_inv)
qed

lemma objRelease_kept:
  "SUPR0ObjRelease p a s = Some (r, s') \<Longrightarrow> r \<noteq> VINF_OBJECT_DESTROYED \<Longrightarrow>
   same_objs s s' \<and> (RT_FAILURE r \<longrightarrow> s' = s) \<and> (RT_SUCCESS r \<longrightarrow> r = VINF_SUCCESS)"
  by (auto simp: SUPR0ObjRelease_def Let_def same_objs_def split: Option.bind_splits option.splits if_splits)

lemma objRelease_destroyed:
  "SUPR0ObjRelease p a s = Some (VINF_OBJECT_DESTROYED, s') \<Longrightarrow>
   objs s' = (objs s)(p := None) \<and> d_pObjs (devext s') = remove1 p (d_pObjs (devext s)) \<and>
   (\<exists>ob. objs s p = Some ob \<and> calls s' = calls s @ (if o_pfnDestructor ob \<noteq> 0
      then [Call_Destructor (o_pfnDestructor ob) p (o_pvUser1 ob) (o_pvUser2 ob)] else []))"
  by (auto simp: SUPR0ObjRelease_def Let_def objDestroy_calls
      split: Option.bind_splits option.splits if_split_asm)

lemma obj_inv_release:
  assumes rel: "SUPR0ObjRelease p a s = Some (r, s')" and inv: "obj_inv s"
  shows "obj_inv s'"
proof (cases "RT_SUCCESS r")
  case False
  with objRelease_kept[OF rel] inv show ?thesis by simp
next
  case True
  then have "objRelease a p s = Some s'" using rel by (simp add: objRelease_def)
  then have bal: "balanced (obj_acct s')"
    by (rule objref.release_keeps_balance) (rule obj_inv_balanced[OF inv])
  show ?thesis
  proof (cases "r = VINF_OBJECT_DESTROYED")
    case True
    with objRelease_destroyed rel bal inv show ?thesis by (auto simp: obj_inv_def)
  next
    case False
    with objRelease_kept[OF rel] bal inv show ?thesis by (blast intro: same_objs_inv)
  qed
qed

section \<open>Session cleanup\<close>

text \<open>The state after one round of the cleanup loop.\<close>

definition objDrop :: "usage \<Rightarrow> usage list \<Rightarrow> addr \<Rightarrow> SUPDRVSESSION \<Rightarrow> SUPDRVOBJ \<Rightarrow> supdrv \<Rightarrow> supdrv" where
  "objDrop u us a ss ob s = (let s1 = put_session a (ss\<lparr>s_pUsage := us\<rparr>) s in
     if u_cUsage u < o_cUsage ob
     then put_obj (u_ref u) (ob\<lparr>o_cUsage := o_cUsage ob - u_cUsage u\<rparr>) s1
     else objDestroy (u_ref u) ob (objUnlink (u_ref u) s1))"

lemma cleanupObjs_Cons:
  "sessions s a = Some ss \<Longrightarrow> objs s (u_ref u) = Some ob \<Longrightarrow>
   cleanupObjs (u # us) a s = cleanupObjs us a (objDrop u us a ss ob s)"
  by (simp add: objDrop_def Let_def)

declare cleanupObjs.simps(2) [simp del]

lemma objDrop_refines:
  "sessions s a = Some ss \<Longrightarrow> s_pUsage ss = u # us \<Longrightarrow> objs s (u_ref u) = Some ob \<Longrightarrow>
   acct_drop a (obj_acct s) = Some (obj_acct (objDrop u us a ss ob s))"
  by (simp add: acct_drop_def objDrop_def Let_def)

lemma obj_inv_drop:
  assumes "obj_inv s" "sessions s a = Some ss" "s_pUsage ss = u # us" "objs s (u_ref u) = Some ob"
  shows "obj_inv (objDrop u us a ss ob s)"
proof -
  have "balanced (obj_acct (objDrop u us a ss ob s))"
    using acct_drop_accounted[OF objDrop_refines[OF assms(2-4)]] assms(1) by (simp add: obj_inv_def)
  then show ?thesis
    using assms unfolding obj_inv_def objDrop_def Let_def by (auto split: if_splits)
qed

lemma obj_inv_record:
  assumes "obj_inv s" "sessions s a = Some ss" "u \<in> set (s_pUsage ss)"
  shows "\<exists>ob. objs s (u_ref u) = Some ob \<and> u_cUsage u \<le> o_cUsage ob \<and> u_cUsage u \<noteq> 0"
  using accounted_record[OF obj_inv_balanced[OF assms(1)], of a "s_pUsage ss" u] assms(2,3) by auto

lemma obj_inv_usages:
  "obj_inv s \<Longrightarrow> sessions s a = Some ss \<Longrightarrow> usages_ok (s_pUsage ss)"
  using accounted_ok[OF obj_inv_balanced, of s a "s_pUsage ss"] by simp

text \<open>What cleanup leaves of an object, and which destructors it runs, as functions of the records.\<close>

definition obj_after :: "usage list \<Rightarrow> addr \<Rightarrow> SUPDRVOBJ option \<Rightarrow> SUPDRVOBJ option" where
  "obj_after us p mob = (case mob of None \<Rightarrow> None | Some ob \<Rightarrow>
     if held p us = 0 then Some ob
     else if held p us < unat (o_cUsage ob)
     then Some (ob\<lparr>o_cUsage := o_cUsage ob - of_nat (held p us)\<rparr>) else None)"

fun dtor_calls :: "usage list \<Rightarrow> (addr \<rightharpoonup> SUPDRVOBJ) \<Rightarrow> ext_call list" where
  "dtor_calls [] h = []"
| "dtor_calls (u # us) h = (case h (u_ref u) of None \<Rightarrow> [] | Some ob \<Rightarrow>
      if u_cUsage u < o_cUsage ob \<or> o_pfnDestructor ob = 0 then []
      else [Call_Destructor (o_pfnDestructor ob) (u_ref u) (o_pvUser1 ob) (o_pvUser2 ob)])
    @ dtor_calls us h"

lemma dtor_calls_cong:
  "(\<And>u. u \<in> set us \<Longrightarrow> h (u_ref u) = h' (u_ref u)) \<Longrightarrow> dtor_calls us h = dtor_calls us h'"
  by (induction us) auto

lemma cleanupObjs_spec:
  assumes "obj_inv s" "sessions s a = Some ss" "s_pUsage ss = us"
  shows "\<exists>s'. cleanupObjs us a s = Some s' \<and> obj_inv s' \<and>
    sessions s' = (sessions s)(a \<mapsto> ss\<lparr>s_pUsage := []\<rparr>) \<and>
    (\<forall>p. objs s' p = obj_after us p (objs s p)) \<and>
    calls s' = calls s @ dtor_calls us (objs s) \<and>
    imgs s' = imgs s \<and> memobjs s' = memobjs s \<and> factories s' = factories s \<and>
    d_pUsageFree (devext s') = d_pUsageFree (devext s)"
  using assms
proof (induction us arbitrary: s ss)
  case Nil
  then have "ss\<lparr>s_pUsage := []\<rparr> = ss" by simp
  with Nil show ?case by (auto simp: obj_after_def fun_upd_idem split: option.split)
next
  case (Cons u us)
  from obj_inv_record[OF Cons.prems(1,2)] Cons.prems(3) obtain ob
    where ob: "objs s (u_ref u) = Some ob" and le: "u_cUsage u \<le> o_cUsage ob" and nz: "u_cUsage u \<noteq> 0"
    by auto
  let ?t = "objDrop u us a ss ob s"
  have t: "sessions ?t = (sessions s)(a \<mapsto> ss\<lparr>s_pUsage := us\<rparr>)" "imgs ?t = imgs s"
    "memobjs ?t = memobjs s" "factories ?t = factories s"
    "d_pUsageFree (devext ?t) = d_pUsageFree (devext s)"
    "calls ?t = calls s @ dtor_calls [u] (objs s)"
    "\<And>p. p \<noteq> u_ref u \<Longrightarrow> objs ?t p = objs s p"
    "objs ?t (u_ref u) = (if u_cUsage u < o_cUsage ob
       then Some (ob\<lparr>o_cUsage := o_cUsage ob - u_cUsage u\<rparr>) else None)"
    using ob by (auto simp: objDrop_def Let_def objDestroy_calls objUnlink_def)
  have ok: "usages_ok (u # us)" using obj_inv_usages[OF Cons.prems(1,2)] Cons.prems(3) by simp
  have inv: "obj_inv ?t" by (rule obj_inv_drop[OF Cons.prems ob])
  have "sessions ?t a = Some (ss\<lparr>s_pUsage := us\<rparr>)" "s_pUsage (ss\<lparr>s_pUsage := us\<rparr>) = us"
    using t(1) by simp_all
  from Cons.IH[OF inv this] obtain s' where s': "cleanupObjs us a ?t = Some s'" "obj_inv s'"
    "sessions s' = (sessions ?t)(a \<mapsto> ss\<lparr>s_pUsage := us\<rparr>\<lparr>s_pUsage := []\<rparr>)"
    "\<forall>p. objs s' p = obj_after us p (objs ?t p)" "calls s' = calls ?t @ dtor_calls us (objs ?t)"
    "imgs s' = imgs ?t" "memobjs s' = memobjs ?t" "factories s' = factories ?t"
    "d_pUsageFree (devext s') = d_pUsageFree (devext ?t)"
    by blast
  have "dtor_calls us (objs ?t) = dtor_calls us (objs s)"
    using ok t(7) by (intro dtor_calls_cong) (metis image_eqI usages_ok_Cons)
  moreover have "obj_after us p (objs ?t p) = obj_after (u # us) p (objs s p)" for p
    using ok ob nz t(7,8) by (cases "p = u_ref u") (auto simp: obj_after_def word_less_nat_alt unat_eq_0 split: option.split)
  moreover have "sessions s' = (sessions s)(a \<mapsto> ss\<lparr>s_pUsage := []\<rparr>)"
    using s'(3) t(1) by (auto simp: fun_eq_iff)
  ultimately show ?case
    using s'(1,2,4-) t(2-6) cleanupObjs_Cons[OF Cons.prems(2) ob]
    by (intro exI[of _ s'] conjI) (simp_all del: fun_upd_apply)
qed

section \<open>The object API as a whole\<close>

datatype obj_op =
    ORegister addr int addr addr addr addr bool
  | OAddRef addr addr bool bool
  | ORelease addr addr
  | OCleanup addr

fun objStep :: "obj_op \<Rightarrow> supdrv \<Rightarrow> supdrv option" where
  "objStep (ORegister a ty d u1 u2 p al) s = map_option snd (SUPR0ObjRegister a ty d u1 u2 p al s)"
| "objStep (OAddRef p a nb al) s = map_option snd (SUPR0ObjAddRefEx p a nb al s)"
| "objStep (ORelease p a) s = map_option snd (SUPR0ObjRelease p a s)"
| "objStep (OCleanup a) s = supdrvCleanupSession_objs a s"

text \<open>
  What a call owes: an open session, an allocator that returns fresh blocks, object pointers
  that are either rejected by the pointer check or point to a registered object, and a
  counter that is not at its maximum before it is incremented.
\<close>

fun objOpOk :: "obj_op \<Rightarrow> supdrv \<Rightarrow> bool" where
  "objOpOk (ORegister a ty d u1 u2 p al) s \<longleftrightarrow> sessions s a \<noteq> None \<and> fresh_obj p s"
| "objOpOk (OAddRef p a nb al) s \<longleftrightarrow> sessions s a \<noteq> None \<and>
     (RT_VALID_PTR p \<longrightarrow> (case objs s p of None \<Rightarrow> False | Some ob \<Rightarrow> o_cUsage ob \<noteq> - 1))"
| "objOpOk (ORelease p a) s \<longleftrightarrow> sessions s a \<noteq> None \<and> (RT_VALID_PTR p \<longrightarrow> objs s p \<noteq> None)"
| "objOpOk (OCleanup a) s \<longleftrightarrow> sessions s a \<noteq> None"

lemma objRegister_no_fault:
  "sessions s a \<noteq> None \<Longrightarrow> \<exists>r s'. SUPR0ObjRegister a ty d u1 u2 p al s = Some (r, s')"
  by (auto simp: SUPR0ObjRegister_def objInsert_def Let_def split: list.split)

lemma objAddRefLocked_no_fault:
  "sessions s a \<noteq> None \<Longrightarrow> objs s p \<noteq> None \<Longrightarrow> \<exists>r s'. objAddRefLocked p a pre s = Some (r, s')"
  by (auto simp: objAddRefLocked_def Let_def split: option.split)

lemma objAddRef_no_fault:
  "sessions s a \<noteq> None \<Longrightarrow> (RT_VALID_PTR p \<longrightarrow> objs s p \<noteq> None) \<Longrightarrow>
   \<exists>r s'. SUPR0ObjAddRefEx p a nb al s = Some (r, s')"
  by (auto simp: SUPR0ObjAddRefEx_def split: list.split intro!: objAddRefLocked_no_fault)

lemma objRelease_no_fault:
  "sessions s a \<noteq> None \<Longrightarrow> (RT_VALID_PTR p \<longrightarrow> objs s p \<noteq> None) \<Longrightarrow>
   \<exists>r s'. SUPR0ObjRelease p a s = Some (r, s')"
  by (auto simp: SUPR0ObjRelease_def Let_def split: option.split)

lemma objStep_safe:
  assumes inv: "obj_inv s" and ok: "objOpOk e s"
  shows "\<exists>s'. objStep e s = Some s' \<and> obj_inv s'"
proof (cases e)
  case (ORegister a ty d u1 u2 p al)
  with ok obtain r s' where "SUPR0ObjRegister a ty d u1 u2 p al s = Some (r, s')"
    using objRegister_no_fault by fastforce
  with obj_inv_register[OF this _ inv] ok ORegister show ?thesis by auto
next
  case (OAddRef p a nb al)
  with ok obtain r s' where e: "SUPR0ObjAddRefEx p a nb al s = Some (r, s')"
    using objAddRef_no_fault[of s a p nb al] by (auto split: option.splits)
  have "o_cUsage ob \<noteq> - 1" if "objs s p = Some ob" for ob
    using ok OAddRef that inv by (auto simp: obj_inv_def)
  with obj_inv_addref[OF e inv] e OAddRef show ?thesis by auto
next
  case (ORelease p a)
  with ok obtain r s' where "SUPR0ObjRelease p a s = Some (r, s')"
    using objRelease_no_fault[of s a p] by auto
  with obj_inv_release[OF this inv] ORelease show ?thesis by auto
next
  case (OCleanup a)
  with ok obtain ss where "sessions s a = Some ss" by auto
  with cleanupObjs_spec[OF inv this refl] OCleanup show ?thesis
    by (auto simp: supdrvCleanupSession_objs_def)
qed

interpretation objapi: guarded_api objStep objOpOk obj_inv
  by unfold_locales (rule objStep_safe)

section \<open>The references of every session\<close>

text \<open>
  The references a session has by the answers of its calls: a registration that returns an object is
  one, a successful retain one more, a successful release one less, and session cleanup takes all of
  them.  The driver's record of the same is the count of its usage record.
\<close>

fun refs_step :: "obj_op \<Rightarrow> supdrv \<Rightarrow> (addr \<Rightarrow> addr \<Rightarrow> nat) \<Rightarrow> addr \<Rightarrow> addr \<Rightarrow> nat" where
  "refs_step (ORegister a ty d u1 u2 p al) s m = (case SUPR0ObjRegister a ty d u1 u2 p al s of
     Some (r, _) \<Rightarrow> if r \<noteq> 0 then m(a := (m a)(r := 1)) else m | None \<Rightarrow> m)"
| "refs_step (OAddRef p a nb al) s m = (case SUPR0ObjAddRefEx p a nb al s of
     Some (r, _) \<Rightarrow> if r = VINF_SUCCESS then m(a := (m a)(p := m a p + 1)) else m | None \<Rightarrow> m)"
| "refs_step (ORelease p a) s m = (case SUPR0ObjRelease p a s of
     Some (r, _) \<Rightarrow> if RT_SUCCESS r then m(a := (m a)(p := m a p - 1)) else m | None \<Rightarrow> m)"
| "refs_step (OCleanup a) s m = m(a := (\<lambda>_. 0))"

fun refs_run :: "obj_op list \<Rightarrow> supdrv \<Rightarrow> (addr \<Rightarrow> addr \<Rightarrow> nat) \<Rightarrow> addr \<Rightarrow> addr \<Rightarrow> nat" where
  "refs_run [] s m = m"
| "refs_run (e # es) s m = (case objStep e s of None \<Rightarrow> m | Some t \<Rightarrow> refs_run es t (refs_step e s m))"

definition refs_held :: "supdrv \<Rightarrow> addr \<Rightarrow> addr \<Rightarrow> nat" where
  "refs_held s a p = (case snd (obj_acct s) a of None \<Rightarrow> 0 | Some us \<Rightarrow> held p us)"

lemma held_le_count:
  assumes "obj_inv s" "sessions s a = Some ss" "objs s p = Some ob"
  shows "held p (s_pUsage ss) \<le> unat (o_cUsage ob)"
proof (cases "usage_find p (s_pUsage ss)")
  case None
  then show ?thesis by (simp add: usage_find_None_iff)
next
  case (Some u)
  then have u: "u \<in> set (s_pUsage ss)" "u_ref u = p" by (auto dest: usage_find_SomeD)
  with obj_inv_record[OF assms(1,2) u(1)] assms(3) Some obj_inv_usages[OF assms(1,2)] show ?thesis
    by (auto simp: held_find word_le_nat_alt)
qed

lemma register_refs:
  assumes inv: "obj_inv s" and fr: "fresh_obj p s" and e: "SUPR0ObjRegister a ty d u1 u2 p al s = Some (r, t)"
  shows "refs_held t = refs_step (ORegister a ty d u1 u2 p al) s (refs_held s)"
proof (cases "r = 0")
  case True
  then have "t = s" using objRegister_fail e by blast
  with True e show ?thesis by simp
next
  case False
  from objRegister_acct[OF e fr False] have r: "r = p" "objs s p = None"
    and c: "acct_create a p (obj_acct s) = Some (obj_acct t)" by auto
  from c obtain ss where ss: "sessions s a = Some ss"
    and t: "snd (obj_acct t) = (snd (obj_acct s))(a \<mapsto> \<lparr>u_ref = p, u_cUsage = 1\<rparr> # s_pUsage ss)"
    by (auto simp: acct_create_def split: option.splits) (metis snd_conv)
  have "p \<notin> u_ref ` set (s_pUsage ss)" using obj_inv_record[OF inv ss] r(2) by fastforce
  then have "held q (\<lparr>u_ref = p, u_cUsage = 1\<rparr> # s_pUsage ss) = (if q = p then 1 else held q (s_pUsage ss))" for q by simp
  then show ?thesis using e False r(1) ss by (auto simp: refs_held_def t fun_eq_iff simp del: held.simps)
qed

lemma addref_refs:
  assumes inv: "obj_inv s" and nomax: "\<And>ob. objs s p = Some ob \<Longrightarrow> o_cUsage ob \<noteq> - 1"
    and e: "SUPR0ObjAddRefEx p a nb al s = Some (r, t)"
  shows "refs_held t = refs_step (OAddRef p a nb al) s (refs_held s)"
proof (cases "r = VINF_SUCCESS")
  case False
  with objAddRefEx_fail[OF e] e show ?thesis by (simp add: refs_held_def fun_eq_iff)
next
  case True
  then have "objRetain nb al a p s = Some t" using e by (simp add: objRetain_def)
  from objRetain_refines[OF this] obtain ss ob where ss: "sessions s a = Some ss" and ob: "objs s p = Some ob"
    and t: "snd (obj_acct t) = (snd (obj_acct s))(a \<mapsto> usage_retain p (s_pUsage ss))"
    by (auto simp: acct_retain_def split: option.splits) (metis snd_conv)
  have "unat (o_cUsage ob) < 4294967295" by (rule u32_wrap_bound[OF nomax[OF ob]])
  then have "held p (s_pUsage ss) < 4294967295" using held_le_count[OF inv ss ob] by simp
  with held_retain[OF obj_inv_usages[OF inv ss] this] e True ss show ?thesis
    by (auto simp: refs_held_def t fun_eq_iff)
qed

lemma release_refs:
  assumes inv: "obj_inv s" and e: "SUPR0ObjRelease p a s = Some (r, t)"
  shows "refs_held t = refs_step (ORelease p a) s (refs_held s)"
proof (cases "RT_SUCCESS r")
  case False
  with objRelease_kept[OF e] e show ?thesis by auto
next
  case True
  then have "objRelease a p s = Some t" using e by (simp add: objRelease_def)
  from objRelease_refines[OF this] have rel: "acct_release a p (obj_acct s) = Some (obj_acct t)" .
  then obtain ss u where ss: "sessions s a = Some ss" and u: "usage_find p (s_pUsage ss) = Some u"
    by (auto simp: acct_release_def split: option.splits)
  from rel obtain ob where ob: "objs s p = Some ob" by (auto simp: acct_release_def split: option.splits)
  have "snd (obj_acct t) = snd (the (acct_release a p (obj_acct s)))" by (simp add: rel)
  then have t: "snd (obj_acct t) = (snd (obj_acct s))(a \<mapsto> (if 1 < u_cUsage u then usage_dec p (s_pUsage ss) else usage_unlink p (s_pUsage ss)))"
    by (simp add: acct_release_def ss u ob)
  note ok = obj_inv_usages[OF inv ss]
  have h: "held p (s_pUsage ss) = unat (u_cUsage u)" using u by (simp add: held_find[OF ok])
  have "held q (if 1 < u_cUsage u then usage_dec p (s_pUsage ss) else usage_unlink p (s_pUsage ss)) =
      (if q = p then held q (s_pUsage ss) - 1 else held q (s_pUsage ss))" for q
    using u held_dec[OF ok, of p q] held_unlink[OF ok, of q p] h by (auto simp: not_less word_le_nat_alt)
  then show ?thesis using e True ss by (auto simp: refs_held_def t fun_eq_iff)
qed

lemma objStep_refs:
  assumes inv: "obj_inv s" and ok: "objOpOk e s" and e: "objStep e s = Some t"
  shows "refs_held t = refs_step e s (refs_held s)"
proof (cases e)
  case (ORegister a ty d u1 u2 p al)
  with e obtain r where "SUPR0ObjRegister a ty d u1 u2 p al s = Some (r, t)" by auto
  with register_refs[OF inv _ this] ok ORegister show ?thesis by auto
next
  case (OAddRef p a nb al)
  with e obtain r where r: "SUPR0ObjAddRefEx p a nb al s = Some (r, t)" by auto
  have "o_cUsage ob \<noteq> - 1" if "objs s p = Some ob" for ob
    using ok OAddRef that inv by (auto simp: obj_inv_def)
  from addref_refs[OF inv this r] show ?thesis by (simp only: OAddRef)
next
  case (ORelease p a)
  with e obtain r where "SUPR0ObjRelease p a s = Some (r, t)" by auto
  from release_refs[OF inv this] show ?thesis by (simp only: ORelease)
next
  case (OCleanup a)
  with ok obtain ss where ss: "sessions s a = Some ss" by auto
  from cleanupObjs_spec[OF inv ss refl] e OCleanup ss
  have "sessions t = (sessions s)(a \<mapsto> ss\<lparr>s_pUsage := []\<rparr>)" by (auto simp: supdrvCleanupSession_objs_def)
  then show ?thesis using OCleanup by (auto simp: refs_held_def fun_eq_iff)
qed

lemma refs_run_held:
  "obj_inv s \<Longrightarrow> run_ok objStep objOpOk ops s \<Longrightarrow>
   \<exists>t. run_steps objStep ops s = Some t \<and> obj_inv t \<and> refs_held t = refs_run ops s (refs_held s)"
proof (induction ops arbitrary: s)
  case (Cons e es)
  then have ok: "objOpOk e s" by simp
  from objStep_safe[OF Cons.prems(1) ok] obtain t where t: "objStep e s = Some t" "obj_inv t" by blast
  from Cons.IH[OF t(2)] Cons.prems(2) t(1) objStep_refs[OF Cons.prems(1) ok t(1)] show ?case by simp
qed simp

text \<open>The invariant in terms of these references.\<close>

lemma refs_held_exact:
  assumes inv: "obj_inv t"
  shows "case objs t p of None \<Rightarrow> \<forall>a. refs_held t a p = 0
     | Some ob \<Rightarrow> o_u32Magic ob = SUPDRVOBJ_MAGIC \<and> p \<in> set (d_pObjs (devext t)) \<and> o_cUsage ob \<noteq> 0 \<and>
         unat (o_cUsage ob) = (\<Sum>a \<in> dom (sessions t). refs_held t a p)"
proof -
  have bal: "balanced (obj_acct t)" by (rule obj_inv_balanced[OF inv])
  have "total_held (snd (obj_acct t)) p = (\<Sum>a \<in> dom (sessions t). refs_held t a p)"
    unfolding total_held_def by (rule sum.cong) (auto simp: refs_held_def obj_acct_def dom_def)
  moreover have "(case objs t p of None \<Rightarrow> 0 | Some ob \<Rightarrow> unat (o_cUsage ob)) = total_held (snd (obj_acct t)) p"
    using bal unfolding accounted_def counted_def by (cases "objs t p") (auto dest: spec[of _ p])
  ultimately have cnt: "(case objs t p of None \<Rightarrow> 0 | Some ob \<Rightarrow> unat (o_cUsage ob)) = (\<Sum>a \<in> dom (sessions t). refs_held t a p)"
    by simp
  have nz: "objs t p = Some ob \<Longrightarrow> o_cUsage ob \<noteq> 0" for ob using bal unfolding balanced_def by auto
  have fin: "finite (dom (sessions t))" using bal unfolding balanced_def by (simp add: obj_acct_def dom_def)
  have out: "a \<notin> dom (sessions t) \<Longrightarrow> refs_held t a p = 0" for a by (simp add: refs_held_def domIff)
  have "objs t p = None \<Longrightarrow> refs_held t a p = 0" for a
    using cnt fin out[of a] by (cases "a \<in> dom (sessions t)") auto
  then show ?thesis using cnt nz inv by (cases "objs t p") (auto simp: obj_inv_def)
qed

section \<open>Properties\<close>

text \<open>A small driver state for the witnesses: one open session and nothing registered.\<close>

definition session0 :: SUPDRVSESSION where
  "session0 = \<lparr>s_u32Cookie = BIRD_INV, s_fUnrestricted = True, s_cRefs = 1, s_hHandleTable = Some session_table, s_pVM = 0, s_pLdrUsage = [],
     s_GipMapObjR3 = 0, s_fGipReferenced = False,
     s_Bundle = [\<lparr>b_aMem = replicate 64 \<lparr>mr_MemObj = 0, mr_MapObjR3 = 0, mr_eType = MEMREF_TYPE_UNUSED\<rparr>,
                  b_cUsed = 0\<rparr>],
     s_pUsage = [], s_Uid = 1000, s_Gid = 1000, s_Process = 77, s_R0Process = 4711\<rparr>"

definition devext0 :: SUPDRVDEVEXT where
  "devext0 = \<lparr>d_u32Cookie = BIRD, d_pObjs = [], d_pUsageFree = [], d_pvVMMR0 = 0,
     d_pfnVMMR0EntryInt = 0, d_pfnVMMR0EntryFast = 0, d_pfnVMMR0EntryEx = 0, d_pLdrImages = [],
     d_pLdrInitImage = 0, d_hLdrInitThread = NIL_RTNATIVETHREAD, d_hGipSpinlock = False, d_pGip = 0x9000, d_HCPhysGip = 0x5000,
     d_cGipUsers = 0, d_GipMemObj = 0x8000, d_pGipTimer = 0x7000, d_fGipTimerRunning = False,
     d_u32SystemTimerGranularityGrant = 0, d_idGipMaster = 0, d_pComponentFactoryHead = []\<rparr>"

definition driver0 :: supdrv where
  "driver0 = \<lparr>devext = devext0, sessions = [0x10000 \<mapsto> session0], objs = Map.empty, imgs = Map.empty,
     memobjs = Map.empty, factories = Map.empty, gips = Map.empty, g_pSUPGlobalInfoPage = 0, calls = []\<rparr>"

lemma driver0_simps [simp]:
  "devext driver0 = devext0" "sessions driver0 = [0x10000 \<mapsto> session0]" "objs driver0 = Map.empty"
  "imgs driver0 = Map.empty" "memobjs driver0 = Map.empty" "factories driver0 = Map.empty" "calls driver0 = []"
  by (simp_all add: driver0_def)

lemma obj_inv_driver0: "obj_inv driver0"
  by (simp add: obj_inv_def balanced_def total_held_def obj_acct_def devext0_def session0_def dom_def)

text \<open>C6: Every run of registrations, retains, releases and session cleanups whose calls are in
  order (open session, fresh blocks, registered or rejected object pointers, no counter at its
  32 bit maximum) executes without a memory fault, and afterwards the object list, the object
  counters and the usage records of all sessions agree.\<close>

theorem obj_api_safe:
  "obj_inv s \<Longrightarrow> run_ok objStep objOpOk ops s \<Longrightarrow>
   \<exists>s'. run_steps objStep ops s = Some s' \<and> obj_inv s'"
  by (rule objapi.run_safe)

theorem obj_api_safe_witness:
  "\<exists>s'. run_steps objStep [ORegister 0x10000 1 0x7000 5 6 0x20000 True, OAddRef 0x20000 0x10000 False True,
      ORelease 0x20000 0x10000, OCleanup 0x10000] driver0 = Some s' \<and> obj_inv s'"
  by (rule obj_api_safe[OF obj_inv_driver0])
     (simp add: fresh_obj_def RT_VALID_PTR_def SUPR0ObjRegister_def SUP_IS_SESSION_VALID_def session0_def
       devext0_def objInsert_def Let_def SUPR0ObjAddRefEx_def objAddRefLocked_def SUPR0ObjRelease_def
       split: option.split)

text \<open>C9: A successful release by a session reports destruction exactly when the session held the
  last reference of all sessions; then the object is gone from list and heap and its destructor
  has been called, once, with the registered arguments.  Otherwise no destructor runs and the
  object stays.\<close>

theorem obj_release_destroys_last:
  assumes "obj_inv s" "SUPR0ObjRelease p a s = Some (r, s')" "RT_SUCCESS r"
  shows "(r = VINF_OBJECT_DESTROYED \<longleftrightarrow> total_held (snd (obj_acct s)) p = 1) \<and>
    (if r = VINF_OBJECT_DESTROYED
     then p \<notin> set (d_pObjs (devext s')) \<and> objs s' = (objs s)(p := None) \<and>
       (\<exists>ob. objs s p = Some ob \<and> calls s' = calls s @ (if o_pfnDestructor ob = 0 then []
          else [Call_Destructor (o_pfnDestructor ob) p (o_pvUser1 ob) (o_pvUser2 ob)]))
     else p \<in> set (d_pObjs (devext s')) \<and> calls s' = calls s)"
proof -
  have rel: "objRelease a p s = Some s'" using assms(2,3) by (simp add: objRelease_def)
  have bal: "balanced (obj_acct s)" by (rule obj_inv_balanced[OF assms(1)])
  have last: "objs s' p = None \<longleftrightarrow> total_held (snd (obj_acct s)) p = 1"
    using objref.release_destroys_iff_last[OF rel bal] by simp
  have inv': "obj_inv s'" by (rule obj_inv_release[OF assms(2,1)])
  show ?thesis
  proof (cases "r = VINF_OBJECT_DESTROYED")
    case True
    then obtain ob where "objs s p = Some ob" "objs s' = (objs s)(p := None)"
      "calls s' = calls s @ (if o_pfnDestructor ob \<noteq> 0
         then [Call_Destructor (o_pfnDestructor ob) p (o_pvUser1 ob) (o_pvUser2 ob)] else [])"
      using objRelease_destroyed assms(2) by blast
    with True last inv' show ?thesis by (auto simp: obj_inv_def)
  next
    case False
    then have same: "same_objs s s'" using objRelease_kept[OF assms(2)] by simp
    have "objs s p \<noteq> None" using release_law_live[OF rel] by simp
    with same_objs_dom[OF same] have "objs s' p \<noteq> None" by auto
    with False last inv' same show ?thesis by (auto simp: obj_inv_def same_objs_def)
  qed
qed

text \<open>A state with one registered object, held once.\<close>

definition obj1 :: SUPDRVOBJ where
  "obj1 = \<lparr>o_u32Magic = SUPDRVOBJ_MAGIC, o_enmType = 1, o_pfnDestructor = 0x7000, o_pvUser1 = 5,
     o_pvUser2 = 6, o_cUsage = 1, o_CreatorUid = 1000, o_CreatorGid = 1000, o_CreatorProcess = 77\<rparr>"

definition driver1 :: supdrv where
  "driver1 = driver0\<lparr>devext := devext0\<lparr>d_pObjs := [0x20000]\<rparr>, objs := [0x20000 \<mapsto> obj1],
     sessions := [0x10000 \<mapsto> session0\<lparr>s_pUsage := [\<lparr>u_ref = 0x20000, u_cUsage = 1\<rparr>]\<rparr>]\<rparr>"

lemma obj_inv_driver1: "obj_inv driver1"
proof -
  have "obj_acct driver1 = ([0x20000 \<mapsto> 1], [0x10000 \<mapsto> [\<lparr>u_ref = 0x20000, u_cUsage = 1\<rparr>]])"
    by (auto simp: obj_acct_def driver1_def obj1_def)
  then have "balanced (obj_acct driver1)"
    by (simp add: balanced_def total_held_def split: option.split)
  then show ?thesis
    by (auto simp: obj_inv_def driver1_def obj1_def RT_VALID_PTR_def split: if_splits)
qed

theorem obj_release_destroys_last_witness:
  "\<exists>s'. SUPR0ObjRelease 0x20000 0x10000 driver1 = Some (VINF_OBJECT_DESTROYED, s') \<and>
     calls s' = [Call_Destructor 0x7000 0x20000 5 6] \<and> d_pObjs (devext s') = []"
proof -
  have "\<exists>s'. SUPR0ObjRelease 0x20000 0x10000 driver1 = Some (VINF_OBJECT_DESTROYED, s')"
    by (simp add: SUPR0ObjRelease_def driver1_def session0_def obj1_def SUP_IS_SESSION_VALID_def
        RT_VALID_PTR_def Let_def)
  then obtain s' where r: "SUPR0ObjRelease 0x20000 0x10000 driver1 = Some (VINF_OBJECT_DESTROYED, s')"
    by blast
  from obj_release_destroys_last[OF obj_inv_driver1 r] obj_inv_release[OF r obj_inv_driver1] r
  show ?thesis by (auto simp: driver1_def obj1_def obj_inv_def)
qed

text \<open>C15: The driver counts references exactly.  From a driver with no objects, whatever registrations,
  retains, releases and session cleanups come in whichever order, an object is there just as long as
  some session has, by the answers of its calls, taken more references than it gave back; its counter
  is the sum of these over all sessions, and it is linked and has the live magic.\<close>

theorem obj_counts_exact:
  assumes "objs s = Map.empty" "d_pObjs (devext s) = []" "finite (dom (sessions s))"
    and "\<forall>a ss. sessions s a = Some ss \<longrightarrow> s_pUsage ss = []" and "run_ok objStep objOpOk ops s"
  shows "\<exists>t. run_steps objStep ops s = Some t \<and> (\<forall>p.
    (case objs t p of
       None \<Rightarrow> \<forall>a. refs_run ops s (\<lambda>_ _. 0) a p = 0
     | Some ob \<Rightarrow> o_u32Magic ob = SUPDRVOBJ_MAGIC \<and> p \<in> set (d_pObjs (devext t)) \<and> o_cUsage ob \<noteq> 0 \<and>
         unat (o_cUsage ob) = (\<Sum>a \<in> dom (sessions t). refs_run ops s (\<lambda>_ _. 0) a p)))"
proof -
  have z: "refs_held s = (\<lambda>_ _. 0)" using assms(4) by (auto simp: refs_held_def fun_eq_iff split: option.split)
  have "finite (dom (snd (obj_acct s)))" using assms(3) by (simp add: obj_acct_def dom_def)
  then have "balanced (obj_acct s)"
    using assms(1,4) unfolding accounted_def counted_def total_held_def by (auto simp: dom_def)
  then have "obj_inv s" using assms(1,2) by (simp add: obj_inv_def)
  from refs_run_held[OF this assms(5)] obtain t where
    t: "run_steps objStep ops s = Some t" "obj_inv t" "refs_held t = refs_run ops s (\<lambda>_ _. 0)" unfolding z by blast
  from t(1) refs_held_exact[OF t(2), unfolded t(3)] show ?thesis by blast
qed

theorem obj_counts_exact_witness:
  "\<exists>t ob. run_steps objStep [ORegister 0x10000 1 0x7000 5 6 0x20000 True, OAddRef 0x20000 0x10000 False True] driver0 = Some t \<and>
     objs t 0x20000 = Some ob \<and> unat (o_cUsage ob) = 2"
proof -
  let ?ops = "[ORegister 0x10000 1 0x7000 5 6 0x20000 True, OAddRef 0x20000 0x10000 False True]"
  have s0: "SUP_IS_SESSION_VALID 0x10000 session0" by (simp add: SUP_IS_SESSION_VALID_def RT_VALID_PTR_def session0_def)
  have ok: "run_ok objStep objOpOk ?ops driver0"
    by (simp add: fresh_obj_def RT_VALID_PTR_def SUPR0ObjRegister_def SUP_IS_SESSION_VALID_def session0_def
       devext0_def objInsert_def Let_def split: option.split)
  have n: "\<forall>a ss. sessions driver0 a = Some ss \<longrightarrow> s_pUsage ss = []" by (auto simp: session0_def split: if_splits)
  have d: "objs driver0 = Map.empty" "d_pObjs (devext driver0) = []" "finite (dom (sessions driver0))" by (simp_all add: devext0_def)
  from obj_counts_exact[OF d n ok] obtain t where t: "run_steps objStep ?ops driver0 = Some t"
    "\<forall>p. case objs t p of None \<Rightarrow> \<forall>a. refs_run ?ops driver0 (\<lambda>_ _. 0) a p = 0
     | Some ob \<Rightarrow> o_u32Magic ob = SUPDRVOBJ_MAGIC \<and> p \<in> set (d_pObjs (devext t)) \<and> o_cUsage ob \<noteq> 0 \<and>
         unat (o_cUsage ob) = (\<Sum>a \<in> dom (sessions t). refs_run ?ops driver0 (\<lambda>_ _. 0) a p)"
    by blast
  have r: "refs_run ?ops driver0 (\<lambda>_ _. 0) 0x10000 0x20000 = 2"
    using s0 by (simp add: SUPR0ObjRegister_def RT_VALID_PTR_def devext0_def objInsert_def Let_def session0_def
        SUPR0ObjAddRefEx_def objAddRefLocked_def SUP_IS_SESSION_VALID_def)
  obtain ss where "sessions t = [0x10000 \<mapsto> ss]"
    using t(1) s0 by (simp add: SUPR0ObjRegister_def RT_VALID_PTR_def devext0_def objInsert_def Let_def session0_def
        SUPR0ObjAddRefEx_def objAddRefLocked_def SUP_IS_SESSION_VALID_def) (erule_tac x = "the (sessions t 0x10000)" in meta_allE, force)
  then have "dom (sessions t) = {0x10000}" by simp
  with t(2)[rule_format, of "0x20000"] r t(1) show ?thesis by (auto split: option.splits)
qed

text \<open>Cleaning up a session never faults and releases every object reference the session
  holds: its record list becomes empty, each object loses exactly the references the session
  had, objects whose last references these were are destroyed with their destructors called
  once each in record order, and other sessions are untouched.\<close>

theorem obj_cleanup_releases_all:
  assumes "obj_inv s" "sessions s a = Some ss"
  shows "\<exists>s'. supdrvCleanupSession_objs a s = Some s' \<and> obj_inv s' \<and>
    sessions s' = (sessions s)(a \<mapsto> ss\<lparr>s_pUsage := []\<rparr>) \<and>
    (\<forall>p. objs s' p = obj_after (s_pUsage ss) p (objs s p)) \<and>
    calls s' = calls s @ dtor_calls (s_pUsage ss) (objs s)"
  using cleanupObjs_spec[OF assms refl] assms(2) by (auto simp: supdrvCleanupSession_objs_def)

theorem obj_cleanup_releases_all_witness:
  "\<exists>s'. supdrvCleanupSession_objs 0x10000 driver1 = Some s' \<and> objs s' 0x20000 = None \<and>
    calls s' = [Call_Destructor 0x7000 0x20000 5 6]"
proof -
  have a: "sessions driver1 0x10000 = Some (session0\<lparr>s_pUsage := [\<lparr>u_ref = 0x20000, u_cUsage = 1\<rparr>]\<rparr>)"
    by (simp add: driver1_def)
  from obj_cleanup_releases_all[OF obj_inv_driver1 a] show ?thesis
    by (auto simp: driver1_def obj1_def obj_after_def)
qed

text \<open>Access to an object is granted exactly to sessions of the user id that created it
  (no operating system hook decides otherwise on Linux).\<close>

theorem obj_access_creator_only:
  assumes "sessions s a = Some ss" "SUP_IS_SESSION_VALID a ss" "RT_VALID_PTR p"
    "objs s p = Some ob" "o_u32Magic ob = SUPDRVOBJ_MAGIC"
  shows "SUPR0ObjVerifyAccess p a s =
    Some (if o_CreatorUid ob = s_Uid ss then VINF_SUCCESS else VERR_PERMISSION_DENIED)"
  using assms by (simp add: SUPR0ObjVerifyAccess_def)

theorem obj_access_creator_only_witness:
  "SUPR0ObjVerifyAccess 0x20000 0x10000 driver1 = Some VINF_SUCCESS"
proof -
  let ?ss = "session0\<lparr>s_pUsage := [\<lparr>u_ref = 0x20000, u_cUsage = 1\<rparr>]\<rparr>"
  have "sessions driver1 0x10000 = Some ?ss" "SUP_IS_SESSION_VALID 0x10000 ?ss" "RT_VALID_PTR 0x20000"
    "objs driver1 0x20000 = Some obj1" "o_u32Magic obj1 = SUPDRVOBJ_MAGIC"
    by (simp_all add: driver1_def obj1_def session0_def SUP_IS_SESSION_VALID_def RT_VALID_PTR_def)
  from obj_access_creator_only[OF this] show ?thesis by (simp add: obj1_def session0_def)
qed

end
