(* ===== verification/SupMem.thy ===== *)
theory SupMem
  imports SupObj
begin

text \<open>
  Memory a session owns: the bundles of 64 \<open>SUPDRVMEMREF\<close> entries (\<open>supdrvMemAdd\<close>,
  \<open>supdrvMemRelease\<close>), the allocating and locking calls (\<open>SUPR0LockMem\<close>, \<open>SUPR0ContAlloc\<close>,
  \<open>SUPR0LowAlloc\<close>, \<open>SUPR0MemAlloc\<close>, \<open>SUPR0PageAllocEx\<close>) and their inverses, the queries and
  mappings (\<open>SUPR0MemGetPhys\<close>, \<open>SUPR0PageMapKernel\<close>, \<open>SUPR0PageProtect\<close>), and the memory part of
  session cleanup.
\<close>

section \<open>The environment of a call\<close>

text \<open>
  What the operating system delivers during one call: the native status and the handle, address
  and physical pages of an allocation, the same of a mapping, whether the two small heap
  allocations of the call succeed, the status of each native free, of a protection change, and
  the current process.
\<close>

record memenv =
  e_rcAlloc :: rc
  e_hAlloc :: addr
  e_pvAlloc :: addr
  e_aPhys :: "u64 \<Rightarrow> u64"
  e_rcMap :: rc
  e_hMap :: addr
  e_pvMap :: addr
  e_fGrow :: bool
  e_fBundle :: bool
  e_nf :: "addr \<Rightarrow> rc"
  e_rcProtect :: "addr \<Rightarrow> rc"
  e_R0Process :: u64

definition memobj_map_user :: "memenv \<Rightarrow> addr \<Rightarrow> u64 \<Rightarrow> memobjs \<Rightarrow> (rc \<times> addr \<times> memobjs) option" where
  "memobj_map_user env MemObj cb h =
     memobj_map (e_rcMap env) (e_hMap env)
       (memobj_new MO_MAPPING cb (e_pvMap env) (e_R0Process env) (e_aPhys env)) (e_fGrow env) MemObj h"

section \<open>Bundles\<close>

definition memref0 :: SUPDRVMEMREF where
  "memref0 = \<lparr>mr_MemObj = NIL_RTR0MEMOBJ, mr_MapObjR3 = NIL_RTR0MEMOBJ, mr_eType = MEMREF_TYPE_UNUSED\<rparr>"

text \<open>The first entry without a memory object.\<close>

fun free_slot :: "SUPDRVMEMREF list \<Rightarrow> nat option" where
  "free_slot [] = None"
| "free_slot (m # ms) = (if mr_MemObj m = NIL_RTR0MEMOBJ then Some 0 else map_option Suc (free_slot ms))"

text \<open>
  The search loop of \<open>supdrvMemAdd\<close> with its store: \<open>None\<close> when no bundle takes the entry.  A
  bundle whose counter promises a free entry that is not there is passed over, as the code does
  when assertions are compiled out.
\<close>

fun bundle_add :: "SUPDRVMEMREF \<Rightarrow> SUPDRVBUNDLE list \<Rightarrow> SUPDRVBUNDLE list option" where
  "bundle_add Mem [] = None"
| "bundle_add Mem (b # bs) =
     (case (if b_cUsed b < 64 then free_slot (b_aMem b) else None) of
        Some i \<Rightarrow> Some (b\<lparr>b_cUsed := b_cUsed b + 1, b_aMem := (b_aMem b)[i := Mem]\<rparr> # bs)
      | None \<Rightarrow> map_option ((#) b) (bundle_add Mem bs))"

definition supdrvMemAdd :: "SUPDRVMEMREF \<Rightarrow> addr \<Rightarrow> bool \<Rightarrow> supdrv \<Rightarrow> (rc \<times> supdrv) option" where
  "supdrvMemAdd Mem pSession fAlloc s = do {
     ss \<leftarrow> sessions s pSession;
     case bundle_add Mem (s_Bundle ss) of
       Some bs \<Rightarrow> Some (VINF_SUCCESS, put_session pSession (ss\<lparr>s_Bundle := bs\<rparr>) s)
     | None \<Rightarrow>
         if \<not> fAlloc then Some (VERR_NO_MEMORY, s)
         else (case s_Bundle ss of
             [] \<Rightarrow> None
           | b # bs \<Rightarrow> Some (VINF_SUCCESS, put_session pSession
               (ss\<lparr>s_Bundle := b # \<lparr>b_aMem = (replicate 64 memref0)[63 := Mem], b_cUsed = 1\<rparr> # bs\<rparr>) s))
   }"

text \<open>
  The search loops that evaluate a condition on every entry of every bundle in use.  The
  condition may read memory objects, so it may fault.
\<close>

fun entry_find :: "(SUPDRVMEMREF \<Rightarrow> bool option) \<Rightarrow> SUPDRVMEMREF list \<Rightarrow> nat option option" where
  "entry_find P [] = Some None"
| "entry_find P (m # ms) = do {
     hit \<leftarrow> P m;
     if hit then Some (Some 0) else map_option (map_option Suc) (entry_find P ms)
   }"

fun bundle_find :: "(SUPDRVMEMREF \<Rightarrow> bool option) \<Rightarrow> SUPDRVBUNDLE list \<Rightarrow> (nat \<times> nat) option option" where
  "bundle_find P [] = Some None"
| "bundle_find P (b # bs) = do {
     hit \<leftarrow> (if 0 < b_cUsed b then entry_find P (b_aMem b) else Some None);
     case hit of
       Some i \<Rightarrow> Some (Some (0, i))
     | None \<Rightarrow> map_option (map_option (\<lambda>(j, i). (Suc j, i))) (bundle_find P bs)
   }"

text \<open>
  The variant of \<open>SUPR0PageMapKernel\<close> and \<open>SUPR0PageProtect\<close>: their \<open>break\<close> leaves the loop over
  the entries only, so a match in a later bundle replaces the earlier one.
\<close>

fun bundle_find_last :: "(SUPDRVMEMREF \<Rightarrow> bool option) \<Rightarrow> SUPDRVBUNDLE list \<Rightarrow> SUPDRVMEMREF option \<Rightarrow>
    SUPDRVMEMREF option option" where
  "bundle_find_last P [] found = Some found"
| "bundle_find_last P (b # bs) found = do {
     hit \<leftarrow> (if 0 < b_cUsed b then entry_find P (b_aMem b) else Some None);
     bundle_find_last P bs (case hit of Some i \<Rightarrow> Some (b_aMem b ! i) | None \<Rightarrow> found)
   }"

text \<open>The match on type and address that release and the physical address query share.\<close>

definition mem_match :: "memobjs \<Rightarrow> addr \<Rightarrow> SUPDRVMEMREFTYPE \<Rightarrow> SUPDRVMEMREF \<Rightarrow> bool option" where
  "mem_match h uPtr eType m =
     (if mr_eType m = eType \<and> mr_MemObj m \<noteq> NIL_RTR0MEMOBJ
      then do {
        pv \<leftarrow> RTR0MemObjAddress h (mr_MemObj m);
        if pv = uPtr then Some True
        else if mr_MapObjR3 m \<noteq> NIL_RTR0MEMOBJ
        then do { pvR3 \<leftarrow> RTR0MemObjAddressR3 h (mr_MapObjR3 m); Some (pvR3 = uPtr) }
        else Some False
      }
      else Some False)"

definition bundles_clear :: "nat \<Rightarrow> nat \<Rightarrow> SUPDRVBUNDLE list \<Rightarrow> SUPDRVBUNDLE list" where
  "bundles_clear j i bs = bs[j := (bs ! j)\<lparr>b_aMem := (b_aMem (bs ! j))[i := memref0]\<rparr>]"

text \<open>
  Freeing what an entry records: the ring-3 mapping, if there is one, then the object with all
  mappings that are left.  Failures are asserted not to happen and ignored.
\<close>

definition mem_free_ref :: "(addr \<Rightarrow> rc) \<Rightarrow> SUPDRVMEMREF \<Rightarrow> memobjs \<Rightarrow> memobjs option" where
  "mem_free_ref nf Mem h = do {
     (_, h1) \<leftarrow> (if mr_MapObjR3 Mem \<noteq> NIL_RTR0MEMOBJ then RTR0MemObjFree nf (mr_MapObjR3 Mem) False h
                else Some (VINF_SUCCESS, h));
     (_, h2) \<leftarrow> (if mr_MemObj Mem \<noteq> NIL_RTR0MEMOBJ then RTR0MemObjFree nf (mr_MemObj Mem) True h1
                else Some (VINF_SUCCESS, h1));
     Some h2
   }"

definition supdrvMemRelease :: "addr \<Rightarrow> addr \<Rightarrow> SUPDRVMEMREFTYPE \<Rightarrow> memenv \<Rightarrow> supdrv \<Rightarrow> (rc \<times> supdrv) option" where
  "supdrvMemRelease pSession uPtr eType env s =
     (if uPtr = 0 then Some (VERR_INVALID_PARAMETER, s)
      else do {
        ss \<leftarrow> sessions s pSession;
        hit \<leftarrow> bundle_find (mem_match (memobjs s) uPtr eType) (s_Bundle ss);
        case hit of
          None \<Rightarrow> Some (VERR_INVALID_PARAMETER, s)
        | Some (j, i) \<Rightarrow> do {
            let Mem = b_aMem (s_Bundle ss ! j) ! i;
            let s1 = put_session pSession (ss\<lparr>s_Bundle := bundles_clear j i (s_Bundle ss)\<rparr>) s;
            h1 \<leftarrow> mem_free_ref (e_nf env) Mem (memobjs s1);
            Some (VINF_SUCCESS, s1\<lparr>memobjs := h1\<rparr>)
          }
      })"

section \<open>Locking and allocating\<close>

text \<open>
  The result of a call with output parameters: status, ring-0 address, ring-3 address, physical
  pages.  An output that the code does not write is 0 or the empty list.
\<close>

type_synonym mem_out = "rc \<times> addr \<times> addr \<times> u64 list"

text \<open>
  The countdown loop of \<open>SUPR0LockMem\<close> over the pages: stops at a page without an address.  The
  list is what has been written, from the stopping page on.
\<close>

fun lock_pages :: "memobjs \<Rightarrow> addr \<Rightarrow> nat \<Rightarrow> u64 list \<Rightarrow> (rc \<times> u64 list) option" where
  "lock_pages h MemObj 0 acc = Some (VINF_SUCCESS, acc)"
| "lock_pages h MemObj (Suc n) acc = do {
     p \<leftarrow> RTR0MemObjGetPagePhysAddr h MemObj (of_nat n);
     if p = NIL_RTHCPHYS then Some (VERR_INTERNAL_ERROR, p # acc) else lock_pages h MemObj n (p # acc)
   }"

text \<open>The loops that copy the addresses of all pages.\<close>

fun phys_pages :: "memobjs \<Rightarrow> addr \<Rightarrow> nat \<Rightarrow> u64 list \<Rightarrow> u64 list option" where
  "phys_pages h MemObj 0 acc = Some acc"
| "phys_pages h MemObj (Suc n) acc = do {
     p \<leftarrow> RTR0MemObjGetPagePhysAddr h MemObj (of_nat n);
     phys_pages h MemObj n (p # acc)
   }"

definition SUPR0LockMem :: "addr \<Rightarrow> addr \<Rightarrow> u32 \<Rightarrow> addr \<Rightarrow> memenv \<Rightarrow> supdrv \<Rightarrow> (mem_out \<times> supdrv) option" where
  "SUPR0LockMem pSession pvR3 cPages paPages env s = do {
     ss \<leftarrow> sessions s pSession;
     if \<not> SUP_IS_SESSION_VALID pSession ss then Some ((VERR_INVALID_PARAMETER, 0, 0, []), s)
     else if \<not> RT_VALID_PTR paPages then Some ((VERR_INVALID_PARAMETER, 0, 0, []), s)
     else if (pvR3 + 0xfff) AND NOT 0xfff \<noteq> pvR3 \<or> pvR3 = 0 then Some ((VERR_INVALID_PARAMETER, 0, 0, []), s)
     else do {
       let (rc, MemObj, h1) = memobj_alloc (e_rcAlloc env) (e_hAlloc env)
         (memobj_new MO_LOCK (push_bit 12 (ucast cPages)) pvR3 (e_R0Process env) (e_aPhys env)) (memobjs s);
       let s1 = s\<lparr>memobjs := h1\<rparr>;
       if RT_FAILURE rc then Some ((rc, 0, 0, []), s1)
       else do {
         (rc1, pages) \<leftarrow> lock_pages h1 MemObj (unat cPages) [];
         (rc2, s2) \<leftarrow> (if RT_SUCCESS rc1
            then supdrvMemAdd \<lparr>mr_MemObj = MemObj, mr_MapObjR3 = NIL_RTR0MEMOBJ, mr_eType = MEMREF_TYPE_LOCKED\<rparr>
                   pSession (e_fBundle env) s1
            else Some (rc1, s1));
         if RT_FAILURE rc2
         then do {
           (_, h2) \<leftarrow> RTR0MemObjFree (e_nf env) MemObj False (memobjs s2);
           Some ((rc2, 0, 0, pages), s2\<lparr>memobjs := h2\<rparr>)
         }
         else Some ((rc2, 0, 0, pages), s2)
       }
     }
   }"

definition SUPR0UnlockMem :: "addr \<Rightarrow> addr \<Rightarrow> memenv \<Rightarrow> supdrv \<Rightarrow> (rc \<times> supdrv) option" where
  "SUPR0UnlockMem pSession pvR3 env s = do {
     ss \<leftarrow> sessions s pSession;
     if \<not> SUP_IS_SESSION_VALID pSession ss then Some (VERR_INVALID_PARAMETER, s)
     else supdrvMemRelease pSession pvR3 MEMREF_TYPE_LOCKED env s
   }"

text \<open>
  What the four allocating calls do once they have the memory object: map it into the process
  (unless no ring-3 mapping is wanted), record both in the session, and on a failure free what
  was made.  Answers the recorded entry.
\<close>

definition mem_map_add ::
  "SUPDRVMEMREFTYPE \<Rightarrow> bool \<Rightarrow> u64 \<Rightarrow> addr \<Rightarrow> addr \<Rightarrow> memenv \<Rightarrow> supdrv \<Rightarrow> (rc \<times> SUPDRVMEMREF \<times> supdrv) option" where
  "mem_map_add eType fMap cb pSession MemObj env s = do {
     (rc, MapObj, h1) \<leftarrow> (if fMap then memobj_map_user env MemObj cb (memobjs s)
                          else Some (VINF_SUCCESS, NIL_RTR0MEMOBJ, memobjs s));
     if RT_SUCCESS rc
     then do {
       let Mem = \<lparr>mr_MemObj = MemObj, mr_MapObjR3 = MapObj, mr_eType = eType\<rparr>;
       (rc, s2) \<leftarrow> supdrvMemAdd Mem pSession (e_fBundle env) (s\<lparr>memobjs := h1\<rparr>);
       if rc = VINF_SUCCESS then Some (rc, Mem, s2)
       else do {
         (_, h2) \<leftarrow> RTR0MemObjFree (e_nf env) MapObj False (memobjs s2);
         (_, h3) \<leftarrow> RTR0MemObjFree (e_nf env) MemObj False h2;
         Some (rc, memref0, s2\<lparr>memobjs := h3\<rparr>)
       }
     }
     else do {
       (_, h2) \<leftarrow> RTR0MemObjFree (e_nf env) MemObj False h1;
       Some (rc, memref0, s\<lparr>memobjs := h2\<rparr>)
     }
   }"

definition SUPR0ContAlloc :: "addr \<Rightarrow> u32 \<Rightarrow> addr \<Rightarrow> addr \<Rightarrow> addr \<Rightarrow> memenv \<Rightarrow> supdrv \<Rightarrow> (mem_out \<times> supdrv) option" where
  "SUPR0ContAlloc pSession cPages ppvR0 ppvR3 pHCPhys env s = do {
     ss \<leftarrow> sessions s pSession;
     if \<not> SUP_IS_SESSION_VALID pSession ss then Some ((VERR_INVALID_PARAMETER, 0, 0, []), s)
     else if ppvR3 = 0 \<or> ppvR0 = 0 \<or> pHCPhys = 0 then Some ((VERR_INVALID_PARAMETER, 0, 0, []), s)
     else if cPages < 1 \<or> cPages \<ge> 256 then Some ((VERR_PAGE_COUNT_OUT_OF_RANGE, 0, 0, []), s)
     else do {
       let cb = ucast (push_bit 12 cPages);
       let (rc, MemObj, h1) = memobj_alloc (e_rcAlloc env) (e_hAlloc env)
         (memobj_new MO_CONT cb (e_pvAlloc env) NIL_RTR0PROCESS (e_aPhys env)) (memobjs s);
       if RT_FAILURE rc then Some ((rc, 0, 0, []), s\<lparr>memobjs := h1\<rparr>)
       else do {
         (rc, Mem, s2) \<leftarrow> mem_map_add MEMREF_TYPE_CONT True cb pSession MemObj env (s\<lparr>memobjs := h1\<rparr>);
         if rc = VINF_SUCCESS
         then do {
           pvR0 \<leftarrow> RTR0MemObjAddress (memobjs s2) (mr_MemObj Mem);
           pvR3 \<leftarrow> RTR0MemObjAddressR3 (memobjs s2) (mr_MapObjR3 Mem);
           HCPhys \<leftarrow> RTR0MemObjGetPagePhysAddr (memobjs s2) (mr_MemObj Mem) 0;
           Some ((VINF_SUCCESS, pvR0, pvR3, [HCPhys]), s2)
         }
         else Some ((rc, 0, 0, []), s2)
       }
     }
   }"

definition SUPR0ContFree :: "addr \<Rightarrow> addr \<Rightarrow> memenv \<Rightarrow> supdrv \<Rightarrow> (rc \<times> supdrv) option" where
  "SUPR0ContFree pSession uPtr env s = do {
     ss \<leftarrow> sessions s pSession;
     if \<not> SUP_IS_SESSION_VALID pSession ss then Some (VERR_INVALID_PARAMETER, s)
     else supdrvMemRelease pSession uPtr MEMREF_TYPE_CONT env s
   }"

definition SUPR0LowAlloc :: "addr \<Rightarrow> u32 \<Rightarrow> addr \<Rightarrow> addr \<Rightarrow> addr \<Rightarrow> memenv \<Rightarrow> supdrv \<Rightarrow> (mem_out \<times> supdrv) option" where
  "SUPR0LowAlloc pSession cPages ppvR0 ppvR3 paPages env s = do {
     ss \<leftarrow> sessions s pSession;
     if \<not> SUP_IS_SESSION_VALID pSession ss then Some ((VERR_INVALID_PARAMETER, 0, 0, []), s)
     else if ppvR3 = 0 \<or> ppvR0 = 0 \<or> paPages = 0 then Some ((VERR_INVALID_PARAMETER, 0, 0, []), s)
     else if cPages < 1 \<or> cPages \<ge> 256 then Some ((VERR_PAGE_COUNT_OUT_OF_RANGE, 0, 0, []), s)
     else do {
       let cb = ucast (push_bit 12 cPages);
       let (rc, MemObj, h1) = memobj_alloc (e_rcAlloc env) (e_hAlloc env)
         (memobj_new MO_LOW cb (e_pvAlloc env) NIL_RTR0PROCESS (e_aPhys env)) (memobjs s);
       if RT_FAILURE rc then Some ((rc, 0, 0, []), s\<lparr>memobjs := h1\<rparr>)
       else do {
         (rc, Mem, s2) \<leftarrow> mem_map_add MEMREF_TYPE_LOW True cb pSession MemObj env (s\<lparr>memobjs := h1\<rparr>);
         if rc = VINF_SUCCESS
         then do {
           pages \<leftarrow> phys_pages (memobjs s2) (mr_MemObj Mem) (unat cPages) [];
           pvR0 \<leftarrow> RTR0MemObjAddress (memobjs s2) (mr_MemObj Mem);
           pvR3 \<leftarrow> RTR0MemObjAddressR3 (memobjs s2) (mr_MapObjR3 Mem);
           Some ((VINF_SUCCESS, pvR0, pvR3, pages), s2)
         }
         else Some ((rc, 0, 0, []), s2)
       }
     }
   }"

definition SUPR0LowFree :: "addr \<Rightarrow> addr \<Rightarrow> memenv \<Rightarrow> supdrv \<Rightarrow> (rc \<times> supdrv) option" where
  "SUPR0LowFree pSession uPtr env s = do {
     ss \<leftarrow> sessions s pSession;
     if \<not> SUP_IS_SESSION_VALID pSession ss then Some (VERR_INVALID_PARAMETER, s)
     else supdrvMemRelease pSession uPtr MEMREF_TYPE_LOW env s
   }"

definition SUPR0MemAlloc :: "addr \<Rightarrow> u32 \<Rightarrow> addr \<Rightarrow> addr \<Rightarrow> memenv \<Rightarrow> supdrv \<Rightarrow> (mem_out \<times> supdrv) option" where
  "SUPR0MemAlloc pSession cb ppvR0 ppvR3 env s = do {
     ss \<leftarrow> sessions s pSession;
     if \<not> SUP_IS_SESSION_VALID pSession ss then Some ((VERR_INVALID_PARAMETER, 0, 0, []), s)
     else if \<not> RT_VALID_PTR ppvR0 then Some ((VERR_INVALID_POINTER, 0, 0, []), s)
     else if \<not> RT_VALID_PTR ppvR3 then Some ((VERR_INVALID_POINTER, 0, 0, []), s)
     else if cb < 1 \<or> cb \<ge> 0x400000 then Some ((VERR_INVALID_PARAMETER, 0, 0, []), s)
     else do {
       let cbAligned = ucast ((cb + 0xfff) AND NOT 0xfff);
       let (rc, MemObj, h1) = memobj_alloc (e_rcAlloc env) (e_hAlloc env)
         (memobj_new MO_PAGE cbAligned (e_pvAlloc env) NIL_RTR0PROCESS (e_aPhys env)) (memobjs s);
       if RT_FAILURE rc then Some ((rc, 0, 0, []), s\<lparr>memobjs := h1\<rparr>)
       else do {
         (rc, Mem, s2) \<leftarrow> mem_map_add MEMREF_TYPE_MEM True cbAligned pSession MemObj env (s\<lparr>memobjs := h1\<rparr>);
         if rc = VINF_SUCCESS
         then do {
           pvR0 \<leftarrow> RTR0MemObjAddress (memobjs s2) (mr_MemObj Mem);
           pvR3 \<leftarrow> RTR0MemObjAddressR3 (memobjs s2) (mr_MapObjR3 Mem);
           Some ((VINF_SUCCESS, pvR0, pvR3, []), s2)
         }
         else Some ((rc, 0, 0, []), s2)
       }
     }
   }"

definition SUPR0MemFree :: "addr \<Rightarrow> addr \<Rightarrow> memenv \<Rightarrow> supdrv \<Rightarrow> (rc \<times> supdrv) option" where
  "SUPR0MemFree pSession uPtr env s = do {
     ss \<leftarrow> sessions s pSession;
     if \<not> SUP_IS_SESSION_VALID pSession ss then Some (VERR_INVALID_PARAMETER, s)
     else supdrvMemRelease pSession uPtr MEMREF_TYPE_MEM env s
   }"

abbreviation "VBOX_MAX_ALLOC_PAGE_COUNT \<equiv> (0x10000::u32)"

text \<open>Without a ring-3 mapping, the page addresses are read through the handle of that mapping all the same.\<close>

definition SUPR0PageAllocEx ::
  "addr \<Rightarrow> u32 \<Rightarrow> u32 \<Rightarrow> addr \<Rightarrow> addr \<Rightarrow> addr \<Rightarrow> memenv \<Rightarrow> supdrv \<Rightarrow> (mem_out \<times> supdrv) option" where
  "SUPR0PageAllocEx pSession cPages fFlags ppvR3 ppvR0 paPages env s = do {
     ss \<leftarrow> sessions s pSession;
     if \<not> SUP_IS_SESSION_VALID pSession ss then Some ((VERR_INVALID_PARAMETER, 0, 0, []), s)
     else if ppvR3 \<noteq> 0 \<and> \<not> RT_VALID_PTR ppvR3 then Some ((VERR_INVALID_POINTER, 0, 0, []), s)
     else if ppvR0 \<noteq> 0 \<and> \<not> RT_VALID_PTR ppvR0 then Some ((VERR_INVALID_POINTER, 0, 0, []), s)
     else if \<not> (ppvR3 \<noteq> 0 \<or> ppvR0 \<noteq> 0) then Some ((VERR_INVALID_PARAMETER, 0, 0, []), s)
     else if fFlags \<noteq> 0 then Some ((VERR_INVALID_PARAMETER, 0, 0, []), s)
     else if cPages < 1 \<or> cPages > VBOX_MAX_ALLOC_PAGE_COUNT
     then Some ((VERR_PAGE_COUNT_OUT_OF_RANGE, 0, 0, []), s)
     else do {
       let cb = ucast cPages * 0x1000;
       let (rc, MemObj, h1) = memobj_alloc (e_rcAlloc env) (e_hAlloc env)
         (memobj_new (if ppvR0 \<noteq> 0 then MO_PAGE else MO_PHYS_NC) cb
            (if ppvR0 \<noteq> 0 then e_pvAlloc env else 0) NIL_RTR0PROCESS (e_aPhys env)) (memobjs s);
       if RT_FAILURE rc then Some ((rc, 0, 0, []), s\<lparr>memobjs := h1\<rparr>)
       else do {
         (rc, Mem, s2) \<leftarrow> mem_map_add MEMREF_TYPE_PAGE (ppvR3 \<noteq> 0) cb pSession MemObj env (s\<lparr>memobjs := h1\<rparr>);
         if rc = VINF_SUCCESS
         then do {
           pvR3 \<leftarrow> (if ppvR3 \<noteq> 0 then RTR0MemObjAddressR3 (memobjs s2) (mr_MapObjR3 Mem) else Some 0);
           pvR0 \<leftarrow> (if ppvR0 \<noteq> 0 then RTR0MemObjAddress (memobjs s2) (mr_MemObj Mem) else Some 0);
           pages \<leftarrow> (if paPages \<noteq> 0 then phys_pages (memobjs s2) (mr_MapObjR3 Mem) (unat cPages) [] else Some []);
           Some ((VINF_SUCCESS, pvR0, pvR3, pages), s2)
         }
         else Some ((rc, 0, 0, []), s2)
       }
     }
   }"

definition SUPR0PageFree :: "addr \<Rightarrow> addr \<Rightarrow> memenv \<Rightarrow> supdrv \<Rightarrow> (rc \<times> supdrv) option" where
  "SUPR0PageFree pSession pvR3 env s = do {
     ss \<leftarrow> sessions s pSession;
     if \<not> SUP_IS_SESSION_VALID pSession ss then Some (VERR_INVALID_PARAMETER, s)
     else supdrvMemRelease pSession pvR3 MEMREF_TYPE_PAGE env s
   }"

section \<open>Queries, kernel mappings, protection\<close>

definition SUPR0MemGetPhys :: "addr \<Rightarrow> addr \<Rightarrow> addr \<Rightarrow> supdrv \<Rightarrow> (rc \<times> u64 list) option" where
  "SUPR0MemGetPhys pSession uPtr paPages s = do {
     ss \<leftarrow> sessions s pSession;
     if \<not> SUP_IS_SESSION_VALID pSession ss then Some (VERR_INVALID_PARAMETER, [])
     else if \<not> RT_VALID_PTR paPages then Some (VERR_INVALID_POINTER, [])
     else if uPtr = 0 then Some (VERR_INVALID_PARAMETER, [])
     else do {
       hit \<leftarrow> bundle_find (mem_match (memobjs s) uPtr MEMREF_TYPE_MEM) (s_Bundle ss);
       case hit of
         None \<Rightarrow> Some (VERR_INVALID_PARAMETER, [])
       | Some (j, i) \<Rightarrow> do {
           let MemObj = mr_MemObj (b_aMem (s_Bundle ss ! j) ! i);
           cb \<leftarrow> RTR0MemObjSize (memobjs s) MemObj;
           pages \<leftarrow> phys_pages (memobjs s) MemObj (unat (drop_bit 12 cb)) [];
           Some (VINF_SUCCESS, pages)
         }
     }
   }"

definition map_kernel_match :: "memobjs \<Rightarrow> addr \<Rightarrow> SUPDRVMEMREF \<Rightarrow> bool option" where
  "map_kernel_match h pvR3 m =
     (if mr_eType m = MEMREF_TYPE_PAGE \<and> mr_MemObj m \<noteq> NIL_RTR0MEMOBJ \<and> mr_MapObjR3 m \<noteq> NIL_RTR0MEMOBJ
      then do { pv \<leftarrow> RTR0MemObjAddressR3 h (mr_MapObjR3 m); Some (pv = pvR3) }
      else if mr_eType m = MEMREF_TYPE_LOCKED \<and> mr_MemObj m \<noteq> NIL_RTR0MEMOBJ \<and> mr_MapObjR3 m = NIL_RTR0MEMOBJ
      then do { pv \<leftarrow> RTR0MemObjAddressR3 h (mr_MemObj m); Some (pv = pvR3) }
      else Some False)"

text \<open>The range check both calls make; offset and size are added in 32 bits.\<close>

definition sub_range_ok :: "u32 \<Rightarrow> u32 \<Rightarrow> u64 \<Rightarrow> bool" where
  "sub_range_ok offSub cbSub cbMemObj \<longleftrightarrow>
     ucast offSub < cbMemObj \<and> ucast cbSub \<le> cbMemObj \<and> ucast (offSub + cbSub) \<le> cbMemObj"

definition SUPR0PageMapKernel ::
  "addr \<Rightarrow> addr \<Rightarrow> u32 \<Rightarrow> u32 \<Rightarrow> u32 \<Rightarrow> addr \<Rightarrow> memenv \<Rightarrow> supdrv \<Rightarrow> (rc \<times> addr \<times> supdrv) option" where
  "SUPR0PageMapKernel pSession pvR3 offSub cbSub fFlags ppvR0 env s = do {
     ss \<leftarrow> sessions s pSession;
     if \<not> SUP_IS_SESSION_VALID pSession ss then Some (VERR_INVALID_PARAMETER, 0, s)
     else if ppvR0 \<noteq> 0 \<and> \<not> RT_VALID_PTR ppvR0 then Some (VERR_INVALID_POINTER, 0, s)
     else if fFlags \<noteq> 0 then Some (VERR_INVALID_PARAMETER, 0, s)
     else if offSub AND 0xfff \<noteq> 0 then Some (VERR_INVALID_PARAMETER, 0, s)
     else if cbSub AND 0xfff \<noteq> 0 then Some (VERR_INVALID_PARAMETER, 0, s)
     else if cbSub = 0 then Some (VERR_INVALID_PARAMETER, 0, s)
     else do {
       found \<leftarrow> bundle_find_last (map_kernel_match (memobjs s) pvR3) (s_Bundle ss) None;
       case found of
         None \<Rightarrow> Some (VERR_INVALID_PARAMETER, 0, s)
       | Some m \<Rightarrow> do {
           cbMemObj \<leftarrow> RTR0MemObjSize (memobjs s) (mr_MemObj m);
           if sub_range_ok offSub cbSub cbMemObj
           then do {
             (rc, hMapObj, h1) \<leftarrow> RTR0MemObjMapKernelEx (e_rcMap env) (e_hMap env)
               (memobj_new MO_MAPPING (ucast cbSub) (e_pvMap env) NIL_RTR0PROCESS (e_aPhys env)) (e_fGrow env)
               (mr_MemObj m) (ucast offSub) (ucast cbSub) (memobjs s);
             if RT_SUCCESS rc
             then (if ppvR0 = 0 then None
                   else do { pv \<leftarrow> RTR0MemObjAddress h1 hMapObj; Some (rc, pv, s\<lparr>memobjs := h1\<rparr>) })
             else Some (rc, 0, s\<lparr>memobjs := h1\<rparr>)
           }
           else Some (VERR_INVALID_PARAMETER, 0, s)
         }
     }
   }"

definition protect_match :: "memobjs \<Rightarrow> addr \<Rightarrow> addr \<Rightarrow> SUPDRVMEMREF \<Rightarrow> bool option" where
  "protect_match h pvR3 pvR0 m =
     (if mr_eType m = MEMREF_TYPE_PAGE \<and> mr_MemObj m \<noteq> NIL_RTR0MEMOBJ
         \<and> (mr_MapObjR3 m \<noteq> NIL_RTR0MEMOBJ \<or> pvR3 = 0)
      then do {
        ok0 \<leftarrow> (if pvR0 = 0 then Some True else do { pv \<leftarrow> RTR0MemObjAddress h (mr_MemObj m); Some (pv = pvR0) });
        if \<not> ok0 then Some False
        else if pvR3 = 0 then Some True
        else do { pv \<leftarrow> RTR0MemObjAddressR3 h (mr_MapObjR3 m); Some (pv = pvR3) }
      }
      else Some False)"

definition SUPR0PageProtect ::
  "addr \<Rightarrow> addr \<Rightarrow> addr \<Rightarrow> u32 \<Rightarrow> u32 \<Rightarrow> u32 \<Rightarrow> memenv \<Rightarrow> supdrv \<Rightarrow> (rc \<times> supdrv) option" where
  "SUPR0PageProtect pSession pvR3 pvR0 offSub cbSub fProt env s = do {
     ss \<leftarrow> sessions s pSession;
     if \<not> SUP_IS_SESSION_VALID pSession ss then Some (VERR_INVALID_PARAMETER, s)
     else if fProt AND NOT 7 \<noteq> 0 then Some (VERR_INVALID_PARAMETER, s)
     else if offSub AND 0xfff \<noteq> 0 then Some (VERR_INVALID_PARAMETER, s)
     else if cbSub AND 0xfff \<noteq> 0 then Some (VERR_INVALID_PARAMETER, s)
     else if cbSub = 0 then Some (VERR_INVALID_PARAMETER, s)
     else do {
       found \<leftarrow> bundle_find_last (protect_match (memobjs s) pvR3 pvR0) (s_Bundle ss) None;
       let hMemObjR0 = (case found of Some m \<Rightarrow> if pvR0 \<noteq> 0 then mr_MemObj m else NIL_RTR0MEMOBJ
                                    | None \<Rightarrow> NIL_RTR0MEMOBJ);
       let hMemObjR3 = (case found of Some m \<Rightarrow> if pvR3 \<noteq> 0 then mr_MapObjR3 m else NIL_RTR0MEMOBJ
                                    | None \<Rightarrow> NIL_RTR0MEMOBJ);
       if hMemObjR0 = NIL_RTR0MEMOBJ \<and> hMemObjR3 = NIL_RTR0MEMOBJ then Some (VERR_INVALID_PARAMETER, s)
       else do {
         cbMemObj \<leftarrow> RTR0MemObjSize (memobjs s) (if hMemObjR0 \<noteq> 0 then hMemObjR0 else hMemObjR3);
         if sub_range_ok offSub cbSub cbMemObj
         then do {
           (rc, h1) \<leftarrow> (if hMemObjR3 \<noteq> 0
              then RTR0MemObjProtect (e_rcProtect env hMemObjR3) hMemObjR3 (ucast offSub) (ucast cbSub) fProt (memobjs s)
              else Some (VINF_SUCCESS, memobjs s));
           (rc, h2) \<leftarrow> (if hMemObjR0 \<noteq> 0 \<and> RT_SUCCESS rc
              then RTR0MemObjProtect (e_rcProtect env hMemObjR0) hMemObjR0 (ucast offSub) (ucast cbSub) fProt h1
              else Some (rc, h1));
           Some (rc, s\<lparr>memobjs := h2\<rparr>)
         }
         else Some (VERR_INVALID_PARAMETER, s)
       }
     }
   }"

section \<open>Session cleanup\<close>

text \<open>
  The memory loop of \<open>supdrvCleanupSession\<close>: for every recorded object free the ring-3 mapping,
  then the object with whatever mappings it still has, and clear the entry; then free every
  bundle but the embedded one.
\<close>

fun free_entries :: "(addr \<Rightarrow> rc) \<Rightarrow> SUPDRVMEMREF list \<Rightarrow> memobjs \<Rightarrow> (SUPDRVMEMREF list \<times> memobjs) option" where
  "free_entries nf [] h = Some ([], h)"
| "free_entries nf (m # ms) h =
     (if mr_MemObj m \<noteq> NIL_RTR0MEMOBJ
      then do {
        h1 \<leftarrow> mem_free_ref nf m h;
        (ms', h3) \<leftarrow> free_entries nf ms h1;
        Some (m\<lparr>mr_MapObjR3 := NIL_RTR0MEMOBJ, mr_MemObj := NIL_RTR0MEMOBJ, mr_eType := MEMREF_TYPE_UNUSED\<rparr> # ms', h3)
      }
      else do {
        (ms', h3) \<leftarrow> free_entries nf ms h;
        Some (m # ms', h3)
      })"

fun free_bundles :: "(addr \<Rightarrow> rc) \<Rightarrow> SUPDRVBUNDLE list \<Rightarrow> memobjs \<Rightarrow> (SUPDRVBUNDLE list \<times> memobjs) option" where
  "free_bundles nf [] h = Some ([], h)"
| "free_bundles nf (b # bs) h = do {
     (ms, h1) \<leftarrow> free_entries nf (b_aMem b) h;
     (bs', h2) \<leftarrow> free_bundles nf bs h1;
     Some (b\<lparr>b_aMem := ms, b_cUsed := 0\<rparr> # bs', h2)
   }"

definition supdrvCleanupSession_mem :: "addr \<Rightarrow> memenv \<Rightarrow> supdrv \<Rightarrow> supdrv option" where
  "supdrvCleanupSession_mem pSession env s = do {
     ss \<leftarrow> sessions s pSession;
     (bs, h) \<leftarrow> free_bundles (e_nf env) (s_Bundle ss) (memobjs s);
     Some (put_session pSession (ss\<lparr>s_Bundle := take 1 bs\<rparr>) (s\<lparr>memobjs := h\<rparr>))
   }"

section \<open>Entries, bundles and the invariant\<close>

abbreviation mem_used :: "SUPDRVMEMREF \<Rightarrow> bool" where "mem_used m \<equiv> mr_MemObj m \<noteq> NIL_RTR0MEMOBJ"

definition all_refs :: "SUPDRVBUNDLE list \<Rightarrow> SUPDRVMEMREF list" where
  "all_refs bs = concat (map b_aMem bs)"

definition used_refs :: "SUPDRVBUNDLE list \<Rightarrow> SUPDRVMEMREF list" where
  "used_refs bs = filter mem_used (all_refs bs)"

abbreviation mem_handles :: "SUPDRVSESSION \<Rightarrow> addr list" where
  "mem_handles ss \<equiv> map mr_MemObj (used_refs (s_Bundle ss))"

text \<open>
  An entry in use names a memory object and, at most, a live mapping of that object; an unused
  entry is blank.
\<close>

definition entry_ok :: "memobjs \<Rightarrow> SUPDRVMEMREF \<Rightarrow> bool" where
  "entry_ok h m \<longleftrightarrow> (if mem_used m
     then obj_at h (mr_MemObj m) \<and> mr_eType m \<noteq> MEMREF_TYPE_UNUSED \<and>
       (mr_MapObjR3 m = NIL_RTR0MEMOBJ \<or> is_child h (mr_MemObj m) (mr_MapObjR3 m))
     else m = memref0)"

definition bundle_ok :: "SUPDRVBUNDLE \<Rightarrow> bool" where
  "bundle_ok b \<longleftrightarrow> length (b_aMem b) = 64 \<and> length (filter mem_used (b_aMem b)) \<le> unat (b_cUsed b) \<and>
     unat (b_cUsed b) \<le> 64"

definition sess_mem_ok :: "memobjs \<Rightarrow> SUPDRVBUNDLE list \<Rightarrow> bool" where
  "sess_mem_ok h bs \<longleftrightarrow> bs \<noteq> [] \<and> (\<forall>b \<in> set bs. bundle_ok b) \<and> (\<forall>m \<in> set (all_refs bs). entry_ok h m) \<and>
     distinct (map mr_MemObj (used_refs bs))"

definition mem_inv :: "supdrv \<Rightarrow> bool" where
  "mem_inv s \<longleftrightarrow> heap_ok (memobjs s) \<and>
     (\<forall>a ss. sessions s a = Some ss \<longrightarrow> sess_mem_ok (memobjs s) (s_Bundle ss)) \<and>
     (\<forall>a ss b ss'. sessions s a = Some ss \<longrightarrow> sessions s b = Some ss' \<longrightarrow> a \<noteq> b \<longrightarrow>
        set (mem_handles ss) \<inter> set (mem_handles ss') = {})"

lemma memref0_simps [simp]:
  "mr_MemObj memref0 = 0" "mr_MapObjR3 memref0 = 0" "mr_eType memref0 = MEMREF_TYPE_UNUSED"
  by (simp_all add: memref0_def)

lemma entry_ok_memref0 [simp]: "entry_ok h memref0"
  by (simp add: entry_ok_def)

lemma all_refs_simps [simp]: "all_refs [] = []" "all_refs (b # bs) = b_aMem b @ all_refs bs"
  by (simp_all add: all_refs_def)

lemma used_refs_simps [simp]:
  "used_refs [] = []" "used_refs (b # bs) = filter mem_used (b_aMem b) @ used_refs bs"
  by (simp_all add: used_refs_def)

lemma set_used_refs: "m \<in> set (used_refs bs) \<longleftrightarrow> m \<in> set (all_refs bs) \<and> mem_used m"
  by (auto simp: used_refs_def)

text \<open>How a heap change that spares an entry's handles keeps the entry.\<close>

lemma entry_ok_keep:
  assumes "keeps_others p h h'" "entry_ok h m"
    and "obj_at h p \<and> p \<noteq> mr_MemObj m \<or> is_child h q p \<and> q \<noteq> mr_MemObj m"
  shows "entry_ok h' m"
proof (cases "mem_used m")
  case False
  with assms(2) show ?thesis by (simp add: entry_ok_def)
next
  case True
  with assms(2) have o: "obj_at h (mr_MemObj m)" and t: "mr_eType m \<noteq> MEMREF_TYPE_UNUSED"
    and c: "mr_MapObjR3 m = 0 \<or> is_child h (mr_MemObj m) (mr_MapObjR3 m)" by (auto simp: entry_ok_def)
  from assms(3) o have p: "p \<noteq> mr_MemObj m" using obj_at_not_child by blast
  with assms(1) o have "obj_at h' (mr_MemObj m)" by (auto simp: keeps_others_def)
  moreover have "is_child h' (mr_MemObj m) (mr_MapObjR3 m)" if "is_child h (mr_MemObj m) (mr_MapObjR3 m)"
  proof -
    have "p \<noteq> mr_MapObjR3 m" using assms(3) that obj_at_not_child is_child_parent_unique by blast
    with that p assms(1) show ?thesis by (auto simp: keeps_others_def)
  qed
  ultimately show ?thesis using True t c by (auto simp: entry_ok_def)
qed

lemma entry_ok_mono:
  assumes "entry_ok h m" "\<forall>q. obj_at h q \<longrightarrow> obj_at h' q" "\<forall>b c. is_child h b c \<longrightarrow> is_child h' b c"
  shows "entry_ok h' m"
  using assms unfolding entry_ok_def by (auto split: if_splits)

lemma mem_free_ref_ok:
  assumes ok: "heap_ok h" and m: "entry_ok h m" "mem_used m"
  shows "\<exists>h'. mem_free_ref nf m h = Some h' \<and> heap_ok h' \<and> (\<forall>q. h q = None \<longrightarrow> h' q = None) \<and>
    (\<forall>m'. entry_ok h m' \<longrightarrow> mr_MemObj m' \<noteq> mr_MemObj m \<longrightarrow> entry_ok h' m') \<and>
    ((\<forall>q. RT_SUCCESS (nf q)) \<longrightarrow> h' (mr_MemObj m) = None)"
proof -
  let ?o = "mr_MemObj m" and ?c = "mr_MapObjR3 m"
  from m have o: "obj_at h ?o" and c: "?c = 0 \<or> is_child h ?o ?c" by (auto simp: entry_ok_def)
  have "\<exists>r h1. (if ?c \<noteq> 0 then RTR0MemObjFree nf ?c False h else Some (VINF_SUCCESS, h)) = Some (r, h1) \<and>
    heap_ok h1 \<and> obj_at h1 ?o \<and> (\<forall>q. h q = None \<longrightarrow> h1 q = None) \<and>
    (\<forall>m'. entry_ok h m' \<longrightarrow> mr_MemObj m' \<noteq> ?o \<longrightarrow> entry_ok h1 m')"
  proof (cases "?c = 0")
    case True
    with ok o show ?thesis by auto
  next
    case False
    with c have ch: "is_child h ?o ?c" by simp
    from free_mapping_ok[OF ok ch, of nf False] obtain r h1 where
      f: "RTR0MemObjFree nf ?c False h = Some (r, h1)" "heap_ok h1" "keeps_others ?c h h1" by blast
    from f(3) o obj_at_not_child[OF o ch] have "obj_at h1 ?o" "\<forall>q. h q = None \<longrightarrow> h1 q = None"
      by (auto simp: keeps_others_def)
    moreover have "entry_ok h1 m'" if "entry_ok h m'" "mr_MemObj m' \<noteq> ?o" for m'
      using entry_ok_keep[OF f(3) that(1), of ?o] ch that(2) by auto
    ultimately show ?thesis using f False by auto
  qed
  then obtain r h1 where h1: "(if ?c \<noteq> 0 then RTR0MemObjFree nf ?c False h else Some (VINF_SUCCESS, h)) = Some (r, h1)"
    "heap_ok h1" "obj_at h1 ?o" "\<forall>q. h q = None \<longrightarrow> h1 q = None"
    "\<forall>m'. entry_ok h m' \<longrightarrow> mr_MemObj m' \<noteq> ?o \<longrightarrow> entry_ok h1 m'" by blast
  from free_object_ok[OF h1(2,3), of nf True] obtain r' h2 where
    h2: "RTR0MemObjFree nf ?o True h1 = Some (r', h2)" "heap_ok h2" "keeps_others ?o h1 h2"
    "RT_SUCCESS r' \<longrightarrow> h2 ?o = None" by blast
  have "(\<forall>q. RT_SUCCESS (nf q)) \<longrightarrow> h2 ?o = None"
    using RTR0MemObjFree_success[OF _ obj_at_valid[OF h1(2,3)] h2(1)] h2(4) by blast
  moreover have "entry_ok h2 m'" if "entry_ok h m'" "mr_MemObj m' \<noteq> ?o" for m'
    using entry_ok_keep[OF h2(3), of m'] h1(3,5) that by auto
  moreover have "\<forall>q. h q = None \<longrightarrow> h2 q = None" using h1(4) h2(3) by (auto simp: keeps_others_def)
  ultimately show ?thesis using h1 h2 m(2) unfolding mem_free_ref_def by auto
qed

text \<open>Searching.\<close>

lemma free_slot_Some: "free_slot ms = Some i \<Longrightarrow> i < length ms \<and> \<not> mem_used (ms ! i)"
  by (induction ms arbitrary: i) (auto split: if_splits)

lemma free_slot_None: "free_slot ms = None \<longleftrightarrow> filter mem_used ms = ms"
  by (induction ms) (auto dest: filter_eq_ConsD)

lemma entry_find_Some: "entry_find P ms = Some (Some i) \<Longrightarrow> i < length ms \<and> P (ms ! i) = Some True"
  by (induction ms arbitrary: i) (auto split: Option.bind_splits if_splits)

lemma entry_find_no_fault: "(\<And>m. m \<in> set ms \<Longrightarrow> P m \<noteq> None) \<Longrightarrow> \<exists>r. entry_find P ms = Some r"
proof (induction ms)
  case (Cons m ms)
  from Cons.prems[of m] obtain b where "P m = Some b" by auto
  moreover from Cons obtain r where "entry_find P ms = Some r" by auto
  ultimately show ?case by simp
qed simp

lemma bundle_find_Some:
  "bundle_find P bs = Some (Some (j, i)) \<Longrightarrow>
   j < length bs \<and> i < length (b_aMem (bs ! j)) \<and> P (b_aMem (bs ! j) ! i) = Some True"
  by (induction bs arbitrary: j) (auto split: Option.bind_splits option.splits if_splits dest: entry_find_Some)

lemma bundle_find_no_fault:
  "(\<And>m. m \<in> set (all_refs bs) \<Longrightarrow> P m \<noteq> None) \<Longrightarrow> \<exists>r. bundle_find P bs = Some r"
proof (induction bs)
  case (Cons b bs)
  from Cons obtain r where r: "bundle_find P bs = Some r" by auto
  obtain e where "entry_find P (b_aMem b) = Some e"
    using entry_find_no_fault[of "b_aMem b" P] Cons.prems by auto
  with r show ?case by (cases e) auto
qed simp

lemma bundle_find_last_Some:
  "bundle_find_last P bs f = Some (Some m) \<Longrightarrow> f = Some m \<or> (m \<in> set (all_refs bs) \<and> P m = Some True)"
proof (induction bs arbitrary: f)
  case (Cons b bs)
  then obtain hit where hit: "(if 0 < b_cUsed b then entry_find P (b_aMem b) else Some None) = Some hit"
    and rest: "bundle_find_last P bs (case hit of Some i \<Rightarrow> Some (b_aMem b ! i) | None \<Rightarrow> f) = Some (Some m)"
    by (auto split: Option.bind_splits)
  from Cons.IH[OF rest] hit show ?case
    by (auto split: option.splits if_splits dest: entry_find_Some)
qed simp

lemma bundle_find_last_no_fault:
  "(\<And>m. m \<in> set (all_refs bs) \<Longrightarrow> P m \<noteq> None) \<Longrightarrow> \<exists>r. bundle_find_last P bs f = Some r"
proof (induction bs arbitrary: f)
  case (Cons b bs)
  obtain e where e: "(if 0 < b_cUsed b then entry_find P (b_aMem b) else Some None) = Some e"
    using entry_find_no_fault[of "b_aMem b" P] Cons.prems by (cases "0 < b_cUsed b") auto
  have "\<And>m. m \<in> set (all_refs bs) \<Longrightarrow> P m \<noteq> None" using Cons.prems by simp
  from Cons.IH[OF this, of "case e of Some i \<Rightarrow> Some (b_aMem b ! i) | None \<Rightarrow> f"] e show ?case by simp
qed simp

text \<open>Storing and clearing.\<close>

lemma mset_filter_store:
  assumes "i < length ms" "\<not> mem_used (ms ! i)" "mem_used m"
  shows "mset (filter mem_used (ms[i := m])) = add_mset m (mset (filter mem_used ms))"
  using assms by (simp add: mset_update filter_diff_mset)

lemma mset_filter_clear:
  assumes "i < length ms" "mem_used (ms ! i)"
  shows "mset (filter mem_used (ms[i := memref0])) = mset (filter mem_used ms) - {#ms ! i#}"
  using assms by (simp add: mset_update filter_diff_mset)

lemma bundle_add_ok:
  assumes "bundle_add Mem bs = Some bs'" "mem_used Mem" "\<forall>b \<in> set bs. bundle_ok b"
  shows "mset (used_refs bs') = add_mset Mem (mset (used_refs bs)) \<and> (\<forall>b \<in> set bs'. bundle_ok b) \<and>
    set (all_refs bs') \<subseteq> insert Mem (set (all_refs bs)) \<and> length bs' = length bs"
  using assms
proof (induction bs arbitrary: bs')
  case (Cons b bs)
  show ?case
  proof (cases "if b_cUsed b < 64 then free_slot (b_aMem b) else None")
    case None
    with Cons.prems(1) obtain bs1 where bs1: "bundle_add Mem bs = Some bs1" "bs' = b # bs1" by auto
    with Cons.IH[OF bs1(1) Cons.prems(2)] Cons.prems(3) show ?thesis by auto
  next
    case (Some i)
    then have c: "b_cUsed b < 64" and i: "i < length (b_aMem b)" "\<not> mem_used (b_aMem b ! i)"
      by (auto dest: free_slot_Some split: if_splits)
    from Cons.prems(1) Some have bs': "bs' = b\<lparr>b_cUsed := b_cUsed b + 1, b_aMem := (b_aMem b)[i := Mem]\<rparr> # bs"
      by simp
    have "b_cUsed b \<noteq> - 1" using c by auto
    then have u: "unat (b_cUsed b + 1) = Suc (unat (b_cUsed b))" by (rule unat_inc)
    have "unat (b_cUsed b) < 64" using c by (simp add: word_less_nat_alt)
    moreover note m = mset_filter_store[OF i Cons.prems(2)]
    moreover have "length (filter mem_used ((b_aMem b)[i := Mem])) = Suc (length (filter mem_used (b_aMem b)))"
      using m by (metis size_mset size_add_mset)
    ultimately show ?thesis using bs' Cons.prems(3) u set_update_subset_insert[of "b_aMem b" i Mem]
      by (auto simp: bundle_ok_def)
  qed
qed simp

text \<open>The branch asserted to be impossible: the counter promises a free entry and there is none.\<close>

lemma bundle_ok_free_slot: "bundle_ok b \<Longrightarrow> b_cUsed b < 64 \<Longrightarrow> \<exists>i. free_slot (b_aMem b) = Some i"
proof (rule ccontr)
  assume b: "bundle_ok b" "b_cUsed b < 64" "\<not> (\<exists>i. free_slot (b_aMem b) = Some i)"
  then have "free_slot (b_aMem b) = None" by (cases "free_slot (b_aMem b)") auto
  then have "filter mem_used (b_aMem b) = b_aMem b" by (simp add: free_slot_None)
  with b show False by (auto simp: bundle_ok_def word_less_nat_alt)
qed

lemma all_refs_nth: "j < length bs \<Longrightarrow> i < length (b_aMem (bs ! j)) \<Longrightarrow> b_aMem (bs ! j) ! i \<in> set (all_refs bs)"
  by (auto simp: all_refs_def intro!: bexI[of _ "bs ! j"])

lemma bundles_clear_ok:
  assumes "j < length bs" "i < length (b_aMem (bs ! j))" "mem_used (b_aMem (bs ! j) ! i)" "\<forall>b \<in> set bs. bundle_ok b"
  shows "mset (used_refs (bundles_clear j i bs)) = mset (used_refs bs) - {#b_aMem (bs ! j) ! i#} \<and>
    (\<forall>b \<in> set (bundles_clear j i bs). bundle_ok b) \<and>
    set (all_refs (bundles_clear j i bs)) \<subseteq> insert memref0 (set (all_refs bs)) \<and>
    bundles_clear j i bs \<noteq> []"
  using assms
proof (induction bs arbitrary: j)
  case (Cons b bs)
  show ?case
  proof (cases j)
    case 0
    with Cons.prems have i: "i < length (b_aMem b)" "mem_used (b_aMem b ! i)" by auto
    note m = mset_filter_clear[OF i]
    have bs': "bundles_clear j i (b # bs) = b\<lparr>b_aMem := (b_aMem b)[i := memref0]\<rparr> # bs"
      using 0 by (simp add: bundles_clear_def)
    have "b_aMem b ! i \<in> set (filter mem_used (b_aMem b))" using i by simp
    then have "{#b_aMem b ! i#} \<subseteq># mset (filter mem_used (b_aMem b))"
      by (simp add: in_multiset_in_set del: mset_filter)
    moreover have "length (filter mem_used ((b_aMem b)[i := memref0])) \<le> length (filter mem_used (b_aMem b))"
      using m by (metis size_mset diff_subset_eq_self size_mset_mono)
    ultimately show ?thesis using bs' 0 Cons.prems(4) m set_update_subset_insert[of "b_aMem b" i memref0]
      by (auto simp: bundle_ok_def subset_mset.add_diff_assoc2 simp del: mset_filter)
  next
    case (Suc j')
    have bs': "bundles_clear j i (b # bs) = b # bundles_clear j' i bs"
      using Suc by (simp add: bundles_clear_def)
    from Suc Cons.prems have p: "j' < length bs" "i < length (b_aMem (bs ! j'))"
      "mem_used (b_aMem (bs ! j') ! i)" "\<forall>b \<in> set bs. bundle_ok b" by auto
    from all_refs_nth[OF p(1,2)] p(3) have "{#b_aMem (bs ! j') ! i#} \<subseteq># mset (used_refs bs)"
      by (simp add: set_used_refs in_multiset_in_set)
    with Cons.IH[OF p] bs' Suc Cons.prems(4) show ?thesis
      by (auto simp: subset_mset.add_diff_assoc)
  qed
qed simp

section \<open>Keeping the invariant\<close>

lemma mem_inv_heap: "mem_inv s \<Longrightarrow> heap_ok (memobjs s)"
  by (simp add: mem_inv_def)

lemma mem_inv_session: "mem_inv s \<Longrightarrow> sessions s a = Some ss \<Longrightarrow> sess_mem_ok (memobjs s) (s_Bundle ss)"
  by (simp add: mem_inv_def)

lemma mem_inv_entry:
  "mem_inv s \<Longrightarrow> sessions s a = Some ss \<Longrightarrow> m \<in> set (all_refs (s_Bundle ss)) \<Longrightarrow> entry_ok (memobjs s) m"
  using mem_inv_session[of s a ss] by (simp add: sess_mem_ok_def)

lemma mem_inv_apart:
  "mem_inv s \<Longrightarrow> sessions s a = Some ss \<Longrightarrow> sessions s b = Some ss' \<Longrightarrow> a \<noteq> b \<Longrightarrow>
   set (mem_handles ss) \<inter> set (mem_handles ss') = {}"
  by (simp only: mem_inv_def) blast

text \<open>
  The general step: session \<open>a\<close> gets new bundles and the heap changes, such that the entries of
  the other sessions stay good and \<open>a\<close> takes over no object of theirs.
\<close>

lemma mem_inv_step:
  assumes inv: "mem_inv s" and ss: "sessions s a = Some ss"
    and s': "sessions s' = (sessions s)(a \<mapsto> ss')" "heap_ok (memobjs s')"
    and own: "sess_mem_ok (memobjs s') (s_Bundle ss')"
    and other: "\<And>b ssb m. b \<noteq> a \<Longrightarrow> sessions s b = Some ssb \<Longrightarrow> m \<in> set (all_refs (s_Bundle ssb)) \<Longrightarrow>
        entry_ok (memobjs s) m \<Longrightarrow> entry_ok (memobjs s') m"
    and apart: "\<And>b ssb. b \<noteq> a \<Longrightarrow> sessions s b = Some ssb \<Longrightarrow> set (mem_handles ss') \<inter> set (mem_handles ssb) = {}"
  shows "mem_inv s'"
  unfolding mem_inv_def
proof (intro conjI allI impI)
  show "heap_ok (memobjs s')" by fact
next
  fix b ssb assume b: "sessions s' b = Some ssb"
  show "sess_mem_ok (memobjs s') (s_Bundle ssb)"
  proof (cases "b = a")
    case True
    with b s' own show ?thesis by simp
  next
    case False
    with b s' have b': "sessions s b = Some ssb" by simp
    from mem_inv_session[OF inv b'] other[OF False b'] show ?thesis by (simp add: sess_mem_ok_def)
  qed
next
  fix b ssb c ssc assume "sessions s' b = Some ssb" "sessions s' c = Some ssc" "b \<noteq> c"
  with s' apart inv show "set (mem_handles ssb) \<inter> set (mem_handles ssc) = {}"
    unfolding mem_inv_def by (cases "b = a"; cases "c = a") (simp_all, blast+)
qed

text \<open>A heap change alone.\<close>

lemma mem_inv_heap_step:
  assumes inv: "mem_inv s" and h: "heap_ok h"
    and keep: "\<And>a ss m. sessions s a = Some ss \<Longrightarrow> m \<in> set (all_refs (s_Bundle ss)) \<Longrightarrow>
        entry_ok (memobjs s) m \<Longrightarrow> entry_ok h m"
  shows "mem_inv (s\<lparr>memobjs := h\<rparr>)"
  using assms unfolding mem_inv_def sess_mem_ok_def by simp

text \<open>What an entry in use lets the search loops read.\<close>

lemma entry_reads:
  assumes "entry_ok h m"
  shows "mem_match h u ty m \<noteq> None" "map_kernel_match h u m \<noteq> None" "protect_match h u v m \<noteq> None"
proof -
  have o: "\<exists>pv. RTR0MemObjAddress h (mr_MemObj m) = Some pv" "\<exists>pv. RTR0MemObjAddressR3 h (mr_MemObj m) = Some pv"
    if "mem_used m"
    using assms that accessors_no_fault[of h "mr_MemObj m" 0] by (auto simp: entry_ok_def)
  have c: "\<exists>pv. RTR0MemObjAddressR3 h (mr_MapObjR3 m) = Some pv"
  proof (cases "mr_MapObjR3 m = 0")
    case True
    then show ?thesis by (simp add: RTR0MemObjAddressR3_def)
  next
    case False
    with assms have "is_child h (mr_MemObj m) (mr_MapObjR3 m)" by (auto simp: entry_ok_def split: if_splits)
    with accessors_no_fault[of h "mr_MapObjR3 m"] show ?thesis by auto
  qed
  show "mem_match h u ty m \<noteq> None" using o c by (auto simp: mem_match_def ex_bool_eq split: if_splits)
  show "map_kernel_match h u m \<noteq> None" using o c by (auto simp: map_kernel_match_def ex_bool_eq split: if_splits)
  show "protect_match h u v m \<noteq> None" using o c by (auto simp: protect_match_def ex_bool_eq split: if_splits)
qed

lemma mem_match_used: "mem_match h u ty m = Some True \<Longrightarrow> mem_used m \<and> mr_eType m = ty"
  by (auto simp: mem_match_def split: if_splits)

lemma distinct_remove_mset:
  assumes "mset ys = mset xs - {#x#}" "x \<in> set xs" "distinct (map f xs)"
  shows "distinct (map f ys)" "set (map f ys) = set (map f xs) - {f x}"
proof -
  have m: "mset ys = mset (remove1 x xs)" using assms(1) by simp
  from split_list[OF assms(2)] obtain us vs where xs: "xs = us @ x # vs" by blast
  with assms(3) have "x \<notin> set us" by auto
  then have r: "remove1 x xs = us @ vs" using xs by (simp add: remove1_append)
  with m have mm: "mset (map f ys) = mset (map f (us @ vs))" by simp
  have d: "distinct (map f (us @ vs))" "set (map f (us @ vs)) = set (map f xs) - {f x}"
    using assms(3) xs by auto
  show "distinct (map f ys)" using mset_eq_imp_distinct_iff[OF mm] d(1) by blast
  show "set (map f ys) = set (map f xs) - {f x}" using mset_eq_setD[OF mm] d(2) by simp
qed

text \<open>
  Releasing: either nothing matches and nothing changes, or one entry that matches is blanked
  and what it records is freed.
\<close>

lemma supdrvMemRelease_ok:
  assumes inv: "mem_inv s" and ss: "sessions s a = Some ss"
  shows "\<exists>r s'. supdrvMemRelease a u ty env s = Some (r, s') \<and> mem_inv s' \<and>
    (r = VERR_INVALID_PARAMETER \<and> s' = s \<or>
     r = VINF_SUCCESS \<and> (\<exists>m ss'. m \<in> set (used_refs (s_Bundle ss)) \<and> mem_match (memobjs s) u ty m = Some True \<and>
       s' = s\<lparr>sessions := (sessions s)(a \<mapsto> ss'), memobjs := memobjs s'\<rparr> \<and>
       ss' = ss\<lparr>s_Bundle := s_Bundle ss'\<rparr> \<and>
       mset (used_refs (s_Bundle ss')) = mset (used_refs (s_Bundle ss)) - {#m#} \<and>
       mem_free_ref (e_nf env) m (memobjs s) = Some (memobjs s')))"
proof (cases "u = 0")
  case True
  with inv show ?thesis by (simp add: supdrvMemRelease_def)
next
  case False
  let ?P = "mem_match (memobjs s) u ty" and ?bs = "s_Bundle ss"
  have sm: "sess_mem_ok (memobjs s) ?bs" by (rule mem_inv_session[OF inv ss])
  have "\<And>m. m \<in> set (all_refs ?bs) \<Longrightarrow> ?P m \<noteq> None"
    using mem_inv_entry[OF inv ss] entry_reads(1) by blast
  then obtain hit where hit: "bundle_find ?P ?bs = Some hit" using bundle_find_no_fault by blast
  show ?thesis
  proof (cases hit)
    case None
    with False hit ss inv show ?thesis by (simp add: supdrvMemRelease_def)
  next
    case (Some ji)
    then obtain j i where ji: "hit = Some (j, i)" by (cases ji) auto
    define m where "m = b_aMem (?bs ! j) ! i"
    from bundle_find_Some[of ?P ?bs j i] hit ji have
      b: "j < length ?bs" "i < length (b_aMem (?bs ! j))" "?P m = Some True" by (auto simp: m_def)
    from mem_match_used[OF b(3)] have used: "mem_used m" by simp
    have mem: "m \<in> set (all_refs ?bs)" using all_refs_nth[OF b(1,2)] by (simp add: m_def)
    have bok: "\<forall>b \<in> set ?bs. bundle_ok b" using sm by (simp add: sess_mem_ok_def)
    let ?bs' = "bundles_clear j i ?bs"
    have clr: "mset (used_refs ?bs') = mset (used_refs ?bs) - {#m#}" "\<forall>b \<in> set ?bs'. bundle_ok b"
      "set (all_refs ?bs') \<subseteq> insert memref0 (set (all_refs ?bs))" "?bs' \<noteq> []"
      using bundles_clear_ok[OF b(1,2) used[unfolded m_def] bok] by (simp_all add: m_def)
    have mu: "m \<in> set (used_refs ?bs)" using mem used by (simp add: set_used_refs)
    have dis: "distinct (map mr_MemObj (used_refs ?bs))" using sm by (simp add: sess_mem_ok_def)
    note dm = distinct_remove_mset[OF clr(1) mu dis]
    from mem_free_ref_ok[OF mem_inv_heap[OF inv] mem_inv_entry[OF inv ss mem] used, of "e_nf env"]
    obtain h' where h': "mem_free_ref (e_nf env) m (memobjs s) = Some h'" "heap_ok h'"
      and keep: "\<forall>m'. entry_ok (memobjs s) m' \<longrightarrow> mr_MemObj m' \<noteq> mr_MemObj m \<longrightarrow> entry_ok h' m'" by blast
    let ?ss' = "ss\<lparr>s_Bundle := ?bs'\<rparr>"
    let ?s' = "put_session a ?ss' s\<lparr>memobjs := h'\<rparr>"
    have e: "supdrvMemRelease a u ty env s = Some (VINF_SUCCESS, ?s')"
      using False ss hit ji h'(1) by (simp add: supdrvMemRelease_def m_def)
    have "mem_inv ?s'"
    proof (rule mem_inv_step[OF inv ss, where ss' = ?ss'])
      show "sessions ?s' = (sessions s)(a \<mapsto> ?ss')" "heap_ok (memobjs ?s')" using h'(2) by simp_all
      have "entry_ok h' m'" if m': "m' \<in> set (all_refs ?bs')" for m'
      proof (cases "mem_used m'")
        case True
        then have "m' \<in> set (used_refs ?bs')" using m' by (simp add: set_used_refs)
        then have "mr_MemObj m' \<noteq> mr_MemObj m" using dm(2) by (metis Diff_iff image_eqI set_map singletonI)
        moreover have "m' \<in> set (all_refs ?bs)" using m' clr(3) True by auto
        ultimately show ?thesis using keep mem_inv_entry[OF inv ss] by blast
      next
        case False
        then have "m' = memref0" using m' clr(3) mem_inv_entry[OF inv ss] by (auto simp: entry_ok_def)
        then show ?thesis by simp
      qed
      then show "sess_mem_ok (memobjs ?s') (s_Bundle ?ss')"
        using clr dm by (simp add: sess_mem_ok_def)
    next
      fix b ssb m' assume b: "b \<noteq> a" "sessions s b = Some ssb" "m' \<in> set (all_refs (s_Bundle ssb))"
        "entry_ok (memobjs s) m'"
      show "entry_ok (memobjs ?s') m'"
      proof (cases "mem_used m'")
        case True
        then have "mr_MemObj m' \<in> set (mem_handles ssb)" using b(3) by (simp add: set_used_refs)
        moreover have "mr_MemObj m \<in> set (mem_handles ss)" using mu by simp
        ultimately have "mr_MemObj m' \<noteq> mr_MemObj m" using mem_inv_apart[OF inv ss b(2)] b(1) by auto
        with keep b(4) show ?thesis by simp
      next
        case False
        with b(4) show ?thesis by (simp add: entry_ok_def)
      qed
    next
      fix b ssb assume "b \<noteq> a" "sessions s b = Some ssb"
      then have "set (mem_handles ss) \<inter> set (mem_handles ssb) = {}" using mem_inv_apart[OF inv ss] by auto
      with dm(2) show "set (mem_handles ?ss') \<inter> set (mem_handles ssb) = {}" by auto
    qed
    then show ?thesis using e mu b(3) clr(1) h'(1)
      by (intro exI[of _ VINF_SUCCESS] exI[of _ ?s'] conjI disjI2 exI[of _ m] exI[of _ ?ss'])
         (auto simp: put_session_def)
  qed
qed

text \<open>Recording: the entry must name an object no session has.\<close>

definition untracked :: "addr \<Rightarrow> supdrv \<Rightarrow> bool" where
  "untracked p s \<longleftrightarrow> (\<forall>b ssb. sessions s b = Some ssb \<longrightarrow> p \<notin> set (mem_handles ssb))"

lemma untrackedD: "untracked p s \<Longrightarrow> sessions s b = Some ssb \<Longrightarrow> p \<notin> set (mem_handles ssb)"
  by (simp add: untracked_def)

lemma untracked_heap [simp]: "untracked p (s\<lparr>memobjs := h\<rparr>) = untracked p s"
  by (simp add: untracked_def)

lemma supdrvMemAdd_ok:
  assumes inv: "mem_inv s" and ss: "sessions s a = Some ss" and m: "entry_ok (memobjs s) m" "mem_used m"
    and new: "untracked (mr_MemObj m) s"
  shows "\<exists>r s'. supdrvMemAdd m a fAlloc s = Some (r, s') \<and> mem_inv s' \<and>
    (r \<noteq> VINF_SUCCESS \<longrightarrow> s' = s \<and> RT_FAILURE r) \<and>
    (r = VINF_SUCCESS \<longrightarrow> (\<exists>bs'. s' = put_session a (ss\<lparr>s_Bundle := bs'\<rparr>) s \<and>
       mset (used_refs bs') = add_mset m (mset (used_refs (s_Bundle ss)))))"
proof -
  let ?bs = "s_Bundle ss"
  have sm: "sess_mem_ok (memobjs s) ?bs" by (rule mem_inv_session[OF inv ss])
  have step: "mem_inv (put_session a (ss\<lparr>s_Bundle := bs'\<rparr>) s)"
    if u: "mset (used_refs bs') = add_mset m (mset (used_refs ?bs))" and b: "\<forall>b \<in> set bs'. bundle_ok b"
      and sub: "set (all_refs bs') \<subseteq> insert memref0 (insert m (set (all_refs ?bs)))" and ne: "bs' \<noteq> []" for bs'
  proof (rule mem_inv_step[OF inv ss, where ss' = "ss\<lparr>s_Bundle := bs'\<rparr>"])
    have mm: "mset (map mr_MemObj (used_refs bs')) = mset (mr_MemObj m # mem_handles ss)" using u by simp
    have "distinct (mr_MemObj m # mem_handles ss)" using untrackedD[OF new ss] sm by (simp add: sess_mem_ok_def)
    then have d: "distinct (map mr_MemObj (used_refs bs'))" using mset_eq_imp_distinct_iff[OF mm] by blast
    have "entry_ok (memobjs s) m'" if "m' \<in> set (all_refs bs')" for m'
      using that sub m(1) mem_inv_entry[OF inv ss] by auto
    then show "sess_mem_ok (memobjs (put_session a (ss\<lparr>s_Bundle := bs'\<rparr>) s)) (s_Bundle (ss\<lparr>s_Bundle := bs'\<rparr>))"
      using b ne d by (simp add: sess_mem_ok_def)
    fix b ssb assume b: "b \<noteq> a" "sessions s b = Some ssb"
    have "set (map mr_MemObj (used_refs bs')) = insert (mr_MemObj m) (set (mem_handles ss))"
      using mset_eq_setD[OF mm] by simp
    then show "set (mem_handles (ss\<lparr>s_Bundle := bs'\<rparr>)) \<inter> set (mem_handles ssb) = {}"
      using untrackedD[OF new b(2)] mem_inv_apart[OF inv ss b(2)] b(1) by auto
  qed (use mem_inv_heap[OF inv] in auto)
  show ?thesis
  proof (cases "bundle_add m ?bs")
    case (Some bs')
    from bundle_add_ok[OF Some m(2)] sm have p: "mset (used_refs bs') = add_mset m (mset (used_refs ?bs))"
      "\<forall>b \<in> set bs'. bundle_ok b" "set (all_refs bs') \<subseteq> insert m (set (all_refs ?bs))" "length bs' = length ?bs"
      by (auto simp: sess_mem_ok_def)
    then have "mem_inv (put_session a (ss\<lparr>s_Bundle := bs'\<rparr>) s)"
      using sm by (intro step) (auto simp: sess_mem_ok_def)
    with Some ss p(1) show ?thesis by (auto simp: supdrvMemAdd_def)
  next
    case None
    show ?thesis
    proof (cases "fAlloc")
      case False
      with None ss inv show ?thesis by (simp add: supdrvMemAdd_def)
    next
      case True
      from sm obtain b bs where bs: "?bs = b # bs" by (auto simp: sess_mem_ok_def neq_Nil_conv)
      let ?new = "\<lparr>b_aMem = (replicate 64 memref0)[63 := m], b_cUsed = 1\<rparr>"
      have "filter mem_used (replicate 64 memref0) = []" by simp
      then have f: "mset (filter mem_used ((replicate 64 memref0)[63 := m])) = {#m#}"
        using mset_filter_store[of 63 "replicate 64 memref0" m] m(2) by simp
      then have "length (filter mem_used ((replicate 64 memref0)[63 := m])) = 1"
        by (metis size_mset size_single)
      then have "bundle_ok ?new" by (simp add: bundle_ok_def)
      moreover have "set ((replicate 64 memref0)[63 := m]) \<subseteq> {m, memref0}"
        using set_update_subset_insert[of "replicate 64 memref0" 63 m] by auto
      ultimately have "mem_inv (put_session a (ss\<lparr>s_Bundle := b # ?new # bs\<rparr>) s)"
        using sm f bs by (intro step) (auto simp: sess_mem_ok_def simp del: mset_filter)
      with None True ss bs f show ?thesis
        by (auto simp: supdrvMemAdd_def simp del: mset_filter intro!: exI[of _ "b # ?new # bs"])
    qed
  qed
qed

text \<open>What the environment owes: fresh handles, distinct within one call.\<close>

definition env_ok :: "memenv \<Rightarrow> supdrv \<Rightarrow> bool" where
  "env_ok env s \<longleftrightarrow> (RT_SUCCESS (e_rcAlloc env) \<longrightarrow> memobjs s (e_hAlloc env) = None \<and> RT_VALID_PTR (e_hAlloc env)) \<and>
     (RT_SUCCESS (e_rcMap env) \<longrightarrow> memobjs s (e_hMap env) = None \<and> RT_VALID_PTR (e_hMap env)) \<and>
     e_hAlloc env \<noteq> e_hMap env"

lemma handle_allocated:
  "mem_inv s \<Longrightarrow> sessions s a = Some ss \<Longrightarrow> p \<in> set (mem_handles ss) \<Longrightarrow> memobjs s p \<noteq> None"
  by (auto simp: set_used_refs entry_ok_def obj_at_def dest!: mem_inv_entry)

text \<open>An allocation: the invariant holds, and no session has the new object yet.\<close>

lemma alloc_step:
  assumes inv: "mem_inv s" and env: "env_ok env s" and ty: "ty \<noteq> MO_MAPPING"
    and a: "memobj_alloc (e_rcAlloc env) (e_hAlloc env) (memobj_new ty cb pv pr ph) (memobjs s) = (rc, MemObj, h1)"
  shows "rc = e_rcAlloc env \<and> (RT_FAILURE rc \<longrightarrow> h1 = memobjs s) \<and>
    (RT_SUCCESS rc \<longrightarrow> MemObj = e_hAlloc env \<and> mem_inv (s\<lparr>memobjs := h1\<rparr>) \<and> obj_at h1 MemObj \<and>
      (RT_SUCCESS (e_rcMap env) \<longrightarrow> h1 (e_hMap env) = None \<and> RT_VALID_PTR (e_hMap env)) \<and>
      untracked MemObj s)"
proof -
  have fresh: "RT_SUCCESS (e_rcAlloc env) \<Longrightarrow> memobjs s (e_hAlloc env) = None \<and> RT_VALID_PTR (e_hAlloc env)"
    using env by (simp add: env_ok_def)
  from memobj_alloc_ok[OF mem_inv_heap[OF inv] fresh ty a]
  have m: "rc = e_rcAlloc env" "heap_ok h1" "RT_FAILURE rc \<longrightarrow> h1 = memobjs s"
    "RT_SUCCESS rc \<longrightarrow> MemObj = e_hAlloc env \<and> obj_at h1 MemObj"
    "\<forall>q. obj_at (memobjs s) q \<longrightarrow> obj_at h1 q" "\<forall>b c. is_child (memobjs s) b c \<longrightarrow> is_child h1 b c"
    "\<forall>q. q \<noteq> e_hAlloc env \<longrightarrow> h1 q = memobjs s q" by auto
  have "mem_inv (s\<lparr>memobjs := h1\<rparr>)"
    by (rule mem_inv_heap_step[OF inv m(2)]) (rule entry_ok_mono[OF _ m(5,6)])
  moreover have "RT_SUCCESS (e_rcMap env) \<Longrightarrow> h1 (e_hMap env) = None \<and> RT_VALID_PTR (e_hMap env)"
    using m(7) env by (metis env_ok_def)
  moreover have "RT_SUCCESS rc \<Longrightarrow> untracked MemObj s"
    unfolding untracked_def using m(1,4) fresh handle_allocated[OF inv] by metis
  ultimately show ?thesis using m by blast
qed

lemma mem_inv_free_untracked:
  assumes inv: "mem_inv s" and p: "obj_at (memobjs s) p \<or> is_child (memobjs s) q p"
    and new: "untracked p s" "untracked q s"
  shows "\<exists>r h'. RTR0MemObjFree nf p fFree (memobjs s) = Some (r, h') \<and> mem_inv (s\<lparr>memobjs := h'\<rparr>) \<and>
    keeps_others p (memobjs s) h'"
proof -
  from p free_ok[OF mem_inv_heap[OF inv], of p q nf fFree] obtain r h' where
    f: "RTR0MemObjFree nf p fFree (memobjs s) = Some (r, h')" "heap_ok h'" "keeps_others p (memobjs s) h'" by blast
  have "mem_inv (s\<lparr>memobjs := h'\<rparr>)"
  proof (rule mem_inv_heap_step[OF inv f(2)])
    fix a ss m assume s: "sessions s a = Some ss" "m \<in> set (all_refs (s_Bundle ss))" "entry_ok (memobjs s) m"
    show "entry_ok h' m"
    proof (cases "mem_used m")
      case True
      then have "mr_MemObj m \<in> set (mem_handles ss)" using s(2) by (simp add: set_used_refs)
      with untrackedD[OF new(1) s(1)] untrackedD[OF new(2) s(1)] have "p \<noteq> mr_MemObj m" "q \<noteq> mr_MemObj m" by auto
      with p show ?thesis by (intro entry_ok_keep[OF f(3) s(3), of q]) auto
    next
      case False
      with s(3) show ?thesis by (simp add: entry_ok_def)
    qed
  qed
  with f show ?thesis by blast
qed

text \<open>The common tail of the allocating calls.\<close>

lemma mem_map_add_ok:
  assumes inv: "mem_inv s" and ss: "sessions s a = Some ss" and o: "obj_at (memobjs s) MemObj"
    and ty: "eType \<noteq> MEMREF_TYPE_UNUSED"
    and fresh: "RT_SUCCESS (e_rcMap env) \<Longrightarrow> memobjs s (e_hMap env) = None \<and> RT_VALID_PTR (e_hMap env)"
    and new: "untracked MemObj s"
  shows "\<exists>r m s'. mem_map_add eType fMap cb a MemObj env s = Some (r, m, s') \<and> mem_inv s' \<and>
    (r = VINF_SUCCESS \<longrightarrow> mr_MemObj m = MemObj \<and> mr_eType m = eType \<and> entry_ok (memobjs s') m \<and> mem_used m \<and>
      (mr_MapObjR3 m \<noteq> 0 \<longleftrightarrow> fMap) \<and>
      (\<exists>ss'. sessions s' = (sessions s)(a \<mapsto> ss') \<and> ss' = ss\<lparr>s_Bundle := s_Bundle ss'\<rparr> \<and>
        mset (used_refs (s_Bundle ss')) = add_mset m (mset (used_refs (s_Bundle ss))))) \<and>
    (r \<noteq> VINF_SUCCESS \<longrightarrow> sessions s' = sessions s)"
proof -
  have mo0: "MemObj \<noteq> 0" using obj_at_valid[OF mem_inv_heap[OF inv] o] by auto
  let ?map = "if fMap then memobj_map_user env MemObj cb (memobjs s) else Some (VINF_SUCCESS, NIL_RTR0MEMOBJ, memobjs s)"
  have "\<exists>r' c h1. ?map = Some (r', c, h1) \<and> heap_ok h1 \<and>
      (\<forall>q. obj_at (memobjs s) q \<longrightarrow> obj_at h1 q) \<and> (\<forall>b c. is_child (memobjs s) b c \<longrightarrow> is_child h1 b c) \<and>
      (RT_SUCCESS r' \<longrightarrow> (if fMap then is_child h1 MemObj c \<and> c \<noteq> 0 else c = 0))"
  proof (cases fMap)
    case True
    from memobj_map_ok[OF mem_inv_heap[OF inv] o, of "e_rcMap env" "e_hMap env"] fresh
    obtain r' c h1 where "memobj_map_user env MemObj cb (memobjs s) = Some (r', c, h1)" "heap_ok h1"
      "if RT_SUCCESS r' then c = e_hMap env \<and> is_child h1 MemObj (e_hMap env) \<and> e_hMap env \<noteq> 0
       else h1 = memobjs s \<and> c = 0"
      "\<forall>q. obj_at (memobjs s) q \<longrightarrow> obj_at h1 q" "\<forall>b c. is_child (memobjs s) b c \<longrightarrow> is_child h1 b c"
      unfolding memobj_map_user_def by blast
    with True show ?thesis by auto
  next
    case False
    then show ?thesis using mem_inv_heap[OF inv] by simp
  qed
  then obtain r' c h1 where mp: "?map = Some (r', c, h1)" "heap_ok h1"
      "\<forall>q. obj_at (memobjs s) q \<longrightarrow> obj_at h1 q" "\<forall>b c. is_child (memobjs s) b c \<longrightarrow> is_child h1 b c"
      "RT_SUCCESS r' \<longrightarrow> (if fMap then is_child h1 MemObj c \<and> c \<noteq> 0 else c = 0)" by blast
  let ?s1 = "s\<lparr>memobjs := h1\<rparr>"
  have inv1: "mem_inv ?s1"
    by (rule mem_inv_heap_step[OF inv mp(2)]) (rule entry_ok_mono[OF _ mp(3,4)])
  have o1: "obj_at (memobjs ?s1) MemObj" using mp(3) o by simp
  have new1: "untracked MemObj ?s1" using new by simp
  show ?thesis
  proof (cases "RT_SUCCESS r'")
    case False
    from mem_inv_free_untracked[OF inv1, of MemObj MemObj "e_nf env" False] o1 new1
    obtain r2 h2 where "RTR0MemObjFree (e_nf env) MemObj False h1 = Some (r2, h2)" "mem_inv (s\<lparr>memobjs := h2\<rparr>)"
      by auto
    with False mp(1) show ?thesis by (auto simp: mem_map_add_def)
  next
    case True
    let ?m = "\<lparr>mr_MemObj = MemObj, mr_MapObjR3 = c, mr_eType = eType\<rparr>"
    have em: "entry_ok (memobjs ?s1) ?m" using o1 mp(5) True ty mo0 by (auto simp: entry_ok_def split: if_splits)
    have ss1: "sessions ?s1 a = Some ss" using ss by simp
    have "untracked (mr_MemObj ?m) ?s1" using new by simp
    from supdrvMemAdd_ok[OF inv1 ss1 em _ this, where fAlloc = "e_fBundle env"] mo0 obtain r2 s2 where
      ad: "supdrvMemAdd ?m a (e_fBundle env) ?s1 = Some (r2, s2)" "mem_inv s2"
        "r2 \<noteq> VINF_SUCCESS \<Longrightarrow> s2 = ?s1"
        "r2 = VINF_SUCCESS \<Longrightarrow> \<exists>bs'. s2 = put_session a (ss\<lparr>s_Bundle := bs'\<rparr>) ?s1 \<and>
           mset (used_refs bs') = add_mset ?m (mset (used_refs (s_Bundle ss)))" by auto
    show ?thesis
    proof (cases "r2 = VINF_SUCCESS")
      case r2: True
      from ad(4)[OF r2] obtain bs' where bs': "s2 = put_session a (ss\<lparr>s_Bundle := bs'\<rparr>) ?s1"
        "mset (used_refs bs') = add_mset ?m (mset (used_refs (s_Bundle ss)))" by blast
      have e: "mem_map_add eType fMap cb a MemObj env s = Some (VINF_SUCCESS, ?m, s2)"
        using True mp(1) ad(1) r2 by (simp add: mem_map_add_def)
      have "mr_MapObjR3 ?m \<noteq> 0 \<longleftrightarrow> fMap" using mp(5) True by (auto split: if_splits)
      with e ad(2) bs' em mo0 show ?thesis
        by (intro exI[of _ VINF_SUCCESS] exI[of _ ?m] exI[of _ s2]) (auto intro!: exI[of _ "ss\<lparr>s_Bundle := bs'\<rparr>"])
    next
      case r2: False
      with ad(3) have s2: "s2 = ?s1" by simp
      have "\<exists>r3 h2. RTR0MemObjFree (e_nf env) c False h1 = Some (r3, h2) \<and> mem_inv (s\<lparr>memobjs := h2\<rparr>) \<and> obj_at h2 MemObj"
      proof (cases "c = 0")
        case True
        with inv1 o1 show ?thesis by (simp add: RTR0MemObjFree_def)
      next
        case False
        with mp(5) True have ch: "is_child h1 MemObj c" by (auto split: if_splits)
        then have "untracked c ?s1"
          using mem_inv_entry[OF inv1] obj_at_not_child[OF _ ch]
          by (fastforce simp: untracked_def set_used_refs entry_ok_def)
        from mem_inv_free_untracked[OF inv1 _ this new1, of "e_nf env" False] ch
        obtain r3 h2 where f: "RTR0MemObjFree (e_nf env) c False h1 = Some (r3, h2)" "mem_inv (s\<lparr>memobjs := h2\<rparr>)"
          "keeps_others c h1 h2" by auto
        then have "obj_at h2 MemObj" using o1 obj_at_not_child[OF _ ch, of MemObj] by (auto simp: keeps_others_def)
        with f show ?thesis by blast
      qed
      then obtain r3 h2 where f: "RTR0MemObjFree (e_nf env) c False h1 = Some (r3, h2)" "mem_inv (s\<lparr>memobjs := h2\<rparr>)"
        "obj_at h2 MemObj" by blast
      from mem_inv_free_untracked[OF f(2), of MemObj MemObj "e_nf env" False] f(3) new
      obtain r4 h3 where "RTR0MemObjFree (e_nf env) MemObj False h2 = Some (r4, h3)" "mem_inv (s\<lparr>memobjs := h3\<rparr>)"
        by auto
      with f(1) True r2 s2 mp(1) ad(1) show ?thesis by (auto simp: mem_map_add_def)
    qed
  qed
qed

text \<open>Cleanup blanks every entry and frees what they recorded.\<close>

lemma free_entries_ok:
  assumes "heap_ok h" "\<forall>m \<in> set ms. entry_ok h m" "distinct (map mr_MemObj (filter mem_used ms))"
  shows "\<exists>h'. free_entries nf ms h = Some (replicate (length ms) memref0, h') \<and> heap_ok h' \<and>
    (\<forall>q. h q = None \<longrightarrow> h' q = None) \<and>
    (\<forall>m. entry_ok h m \<longrightarrow> mr_MemObj m \<notin> mr_MemObj ` set (filter mem_used ms) \<longrightarrow> entry_ok h' m) \<and>
    ((\<forall>q. RT_SUCCESS (nf q)) \<longrightarrow> (\<forall>m \<in> set (filter mem_used ms). h' (mr_MemObj m) = None))"
  using assms
proof (induction ms arbitrary: h)
  case (Cons m ms)
  show ?case
  proof (cases "mem_used m")
    case False
    then have "m = memref0" using Cons.prems(2) by (simp add: entry_ok_def)
    moreover from Cons.IH[OF Cons.prems(1)] Cons.prems(2,3) False obtain h' where
      "free_entries nf ms h = Some (replicate (length ms) memref0, h')" "heap_ok h'"
      "\<forall>q. h q = None \<longrightarrow> h' q = None"
      "\<forall>m. entry_ok h m \<longrightarrow> mr_MemObj m \<notin> mr_MemObj ` set (filter mem_used ms) \<longrightarrow> entry_ok h' m"
      "(\<forall>q. RT_SUCCESS (nf q)) \<longrightarrow> (\<forall>m \<in> set (filter mem_used ms). h' (mr_MemObj m) = None)" by auto
    ultimately show ?thesis using False by auto
  next
    case True
    from Cons.prems(2) have "entry_ok h m" by simp
    from mem_free_ref_ok[OF Cons.prems(1) this True, of nf] obtain h1 where
      h1: "mem_free_ref nf m h = Some h1" "heap_ok h1" "\<forall>q. h q = None \<longrightarrow> h1 q = None"
      "\<forall>m'. entry_ok h m' \<longrightarrow> mr_MemObj m' \<noteq> mr_MemObj m \<longrightarrow> entry_ok h1 m'"
      "(\<forall>q. RT_SUCCESS (nf q)) \<longrightarrow> h1 (mr_MemObj m) = None" by blast
    have d: "mr_MemObj m \<notin> mr_MemObj ` set (filter mem_used ms)"
      using Cons.prems(3) True by simp
    have "entry_ok h1 m'" if "m' \<in> set ms" for m'
    proof (cases "mem_used m'")
      case True
      then have "mr_MemObj m' \<in> mr_MemObj ` set (filter mem_used ms)" using that by auto
      then have "mr_MemObj m' \<noteq> mr_MemObj m" using d by auto
      with h1(4) Cons.prems(2) that show ?thesis by simp
    next
      case False
      with Cons.prems(2) that show ?thesis by (simp add: entry_ok_def)
    qed
    moreover have "distinct (map mr_MemObj (filter mem_used ms))" using Cons.prems(3) by (auto split: if_splits)
    ultimately obtain h' where h': "free_entries nf ms h1 = Some (replicate (length ms) memref0, h')" "heap_ok h'"
      "\<forall>q. h1 q = None \<longrightarrow> h' q = None"
      "\<forall>m. entry_ok h1 m \<longrightarrow> mr_MemObj m \<notin> mr_MemObj ` set (filter mem_used ms) \<longrightarrow> entry_ok h' m"
      "(\<forall>q. RT_SUCCESS (nf q)) \<longrightarrow> (\<forall>m \<in> set (filter mem_used ms). h' (mr_MemObj m) = None)"
      using Cons.IH[OF h1(2)] by blast
    have "m\<lparr>mr_MapObjR3 := 0, mr_MemObj := 0, mr_eType := MEMREF_TYPE_UNUSED\<rparr> = memref0"
      by (cases m) (simp add: memref0_def)
    with h1 h' True show ?thesis by auto
  qed
qed simp

lemma free_bundles_ok:
  assumes "heap_ok h" "\<forall>m \<in> set (all_refs bs). entry_ok h m" "distinct (map mr_MemObj (used_refs bs))"
  shows "\<exists>h'. free_bundles nf bs h = Some (map (\<lambda>b. b\<lparr>b_aMem := replicate (length (b_aMem b)) memref0, b_cUsed := 0\<rparr>) bs, h') \<and>
    heap_ok h' \<and> (\<forall>q. h q = None \<longrightarrow> h' q = None) \<and>
    (\<forall>m. entry_ok h m \<longrightarrow> mr_MemObj m \<notin> mr_MemObj ` set (used_refs bs) \<longrightarrow> entry_ok h' m) \<and>
    ((\<forall>q. RT_SUCCESS (nf q)) \<longrightarrow> (\<forall>m \<in> set (used_refs bs). h' (mr_MemObj m) = None))"
  using assms
proof (induction bs arbitrary: h)
  case (Cons b bs)
  have p: "\<forall>m \<in> set (b_aMem b). entry_ok h m" "distinct (map mr_MemObj (filter mem_used (b_aMem b)))"
    "\<forall>m \<in> set (all_refs bs). entry_ok h m" "distinct (map mr_MemObj (used_refs bs))"
    "mr_MemObj ` set (filter mem_used (b_aMem b)) \<inter> mr_MemObj ` set (used_refs bs) = {}"
    using Cons.prems by auto
  from free_entries_ok[OF Cons.prems(1) p(1,2), of nf] obtain h1 where
    h1: "free_entries nf (b_aMem b) h = Some (replicate (length (b_aMem b)) memref0, h1)" "heap_ok h1"
      "\<forall>q. h q = None \<longrightarrow> h1 q = None"
      "\<forall>m. entry_ok h m \<longrightarrow> mr_MemObj m \<notin> mr_MemObj ` set (filter mem_used (b_aMem b)) \<longrightarrow> entry_ok h1 m"
      "(\<forall>q. RT_SUCCESS (nf q)) \<longrightarrow> (\<forall>m \<in> set (filter mem_used (b_aMem b)). h1 (mr_MemObj m) = None)" by blast
  have "entry_ok h1 m" if "m \<in> set (all_refs bs)" for m
  proof (cases "mem_used m")
    case True
    then have "m \<in> set (used_refs bs)" using that by (simp add: set_used_refs)
    then have "mr_MemObj m \<notin> mr_MemObj ` set (filter mem_used (b_aMem b))" using p(5) by blast
    with h1(4) p(3) that show ?thesis by blast
  next
    case False
    with p(3) that show ?thesis by (simp add: entry_ok_def)
  qed
  then obtain h' where h': "free_bundles nf bs h1 =
      Some (map (\<lambda>b. b\<lparr>b_aMem := replicate (length (b_aMem b)) memref0, b_cUsed := 0\<rparr>) bs, h')" "heap_ok h'"
      "\<forall>q. h1 q = None \<longrightarrow> h' q = None"
      "\<forall>m. entry_ok h1 m \<longrightarrow> mr_MemObj m \<notin> mr_MemObj ` set (used_refs bs) \<longrightarrow> entry_ok h' m"
      "(\<forall>q. RT_SUCCESS (nf q)) \<longrightarrow> (\<forall>m \<in> set (used_refs bs). h' (mr_MemObj m) = None)"
    using Cons.IH[OF h1(2) _ p(4)] by blast
  have "entry_ok h' m" if "entry_ok h m" "mr_MemObj m \<notin> mr_MemObj ` set (used_refs (b # bs))" for m
  proof -
    have "mr_MemObj m \<notin> mr_MemObj ` set (filter mem_used (b_aMem b))" "mr_MemObj m \<notin> mr_MemObj ` set (used_refs bs)"
      using that(2) by auto
    with h1(4) h'(4) that(1) show ?thesis by blast
  qed
  with h1 h' show ?case by auto
qed simp

lemma cleanup_mem_ok:
  assumes inv: "mem_inv s" and ss: "sessions s a = Some ss"
  shows "\<exists>h'. supdrvCleanupSession_mem a env s =
      Some (s\<lparr>sessions := (sessions s)(a \<mapsto> ss\<lparr>s_Bundle := [\<lparr>b_aMem = replicate 64 memref0, b_cUsed = 0\<rparr>]\<rparr>), memobjs := h'\<rparr>) \<and>
    mem_inv (s\<lparr>sessions := (sessions s)(a \<mapsto> ss\<lparr>s_Bundle := [\<lparr>b_aMem = replicate 64 memref0, b_cUsed = 0\<rparr>]\<rparr>), memobjs := h'\<rparr>) \<and>
    ((\<forall>q. RT_SUCCESS (e_nf env q)) \<longrightarrow> (\<forall>p \<in> set (mem_handles ss). h' p = None))"
proof -
  let ?bs = "s_Bundle ss"
  have sm: "sess_mem_ok (memobjs s) ?bs" by (rule mem_inv_session[OF inv ss])
  then have e: "\<forall>m \<in> set (all_refs ?bs). entry_ok (memobjs s) m" and d: "distinct (mem_handles ss)"
    and ne: "?bs \<noteq> []" and bk: "bundle_ok (hd ?bs)" by (auto simp: sess_mem_ok_def)
  from free_bundles_ok[OF mem_inv_heap[OF inv] e d, of "e_nf env"] obtain h' where
    h': "free_bundles (e_nf env) ?bs (memobjs s) =
      Some (map (\<lambda>b. b\<lparr>b_aMem := replicate (length (b_aMem b)) memref0, b_cUsed := 0\<rparr>) ?bs, h')" "heap_ok h'"
    "\<forall>m. entry_ok (memobjs s) m \<longrightarrow> mr_MemObj m \<notin> mr_MemObj ` set (used_refs ?bs) \<longrightarrow> entry_ok h' m"
    "(\<forall>q. RT_SUCCESS (e_nf env q)) \<longrightarrow> (\<forall>m \<in> set (used_refs ?bs). h' (mr_MemObj m) = None)" by blast
  let ?b = "\<lparr>b_aMem = replicate 64 memref0, b_cUsed = 0\<rparr> :: SUPDRVBUNDLE"
  have "take 1 (map (\<lambda>b. b\<lparr>b_aMem := replicate (length (b_aMem b)) memref0, b_cUsed := 0\<rparr>) ?bs) = [?b]"
    using ne bk by (cases ?bs; cases "hd ?bs") (auto simp: bundle_ok_def)
  then have e: "supdrvCleanupSession_mem a env s =
      Some (s\<lparr>sessions := (sessions s)(a \<mapsto> ss\<lparr>s_Bundle := [?b]\<rparr>), memobjs := h'\<rparr>)"
    using ss h'(1) by (simp add: supdrvCleanupSession_mem_def put_session_def)
  have "mem_inv (s\<lparr>sessions := (sessions s)(a \<mapsto> ss\<lparr>s_Bundle := [?b]\<rparr>), memobjs := h'\<rparr>)" (is "mem_inv ?s'")
  proof (rule mem_inv_step[OF inv ss, where ss' = "ss\<lparr>s_Bundle := [?b]\<rparr>"])
    show "sess_mem_ok (memobjs ?s') (s_Bundle (ss\<lparr>s_Bundle := [?b]\<rparr>))"
      by (auto simp: sess_mem_ok_def bundle_ok_def)
    fix b ssb assume b: "b \<noteq> a" "sessions s b = Some ssb"
    show "set (mem_handles (ss\<lparr>s_Bundle := [?b]\<rparr>)) \<inter> set (mem_handles ssb) = {}" by simp
    fix m assume m: "m \<in> set (all_refs (s_Bundle ssb))" "entry_ok (memobjs s) m"
    show "entry_ok (memobjs ?s') m"
    proof (cases "mem_used m")
      case True
      then have "mr_MemObj m \<in> set (mem_handles ssb)" using m(1) by (simp add: set_used_refs)
      with mem_inv_apart[OF inv ss b(2)] b(1) have "mr_MemObj m \<notin> mr_MemObj ` set (used_refs ?bs)"
        by auto
      with h'(3) m(2) show ?thesis by simp
    next
      case False
      with m(2) show ?thesis by (simp add: entry_ok_def)
    qed
  qed (use h'(2) in auto)
  with e h'(4) show ?thesis by auto
qed

section \<open>Every call of the memory API keeps the invariant and does not fault\<close>

lemma phys_pages_no_fault:
  assumes "p = 0 \<or> obj_at h p \<or> is_child h b p"
  shows "\<exists>ps. phys_pages h p n acc = Some ps"
proof (induction n arbitrary: acc)
  case (Suc n)
  have "RTR0MemObjGetPagePhysAddr h p (of_nat n) \<noteq> None"
    using assms accessors_no_fault(4)[of h p b] by (auto simp: RTR0MemObjGetPagePhysAddr_def)
  with Suc show ?case by auto
qed simp

lemma lock_pages_no_fault:
  assumes "obj_at h p"
  shows "\<exists>r ps. lock_pages h p n acc = Some (r, ps) \<and> (RT_SUCCESS r \<longrightarrow> r = VINF_SUCCESS)"
proof (induction n arbitrary: acc)
  case (Suc n)
  have "RTR0MemObjGetPagePhysAddr h p (of_nat n) \<noteq> None"
    using assms accessors_no_fault(4)[of h p 0] by auto
  with Suc show ?case by auto
qed simp

lemma entry_addresses:
  assumes "entry_ok h m" "mem_used m"
  shows "\<exists>pv. RTR0MemObjAddress h (mr_MemObj m) = Some pv"
    "\<exists>pv. RTR0MemObjAddressR3 h (mr_MapObjR3 m) = Some pv"
    "\<exists>cb. RTR0MemObjSize h (mr_MemObj m) = Some cb"
    "\<exists>p. RTR0MemObjGetPagePhysAddr h (mr_MemObj m) i = Some p"
    "\<exists>ps. phys_pages h (mr_MemObj m) n acc = Some ps"
    "\<exists>ps. phys_pages h (mr_MapObjR3 m) n acc = Some ps"
proof -
  have o: "obj_at h (mr_MemObj m)" and c: "mr_MapObjR3 m = 0 \<or> is_child h (mr_MemObj m) (mr_MapObjR3 m)"
    using assms by (auto simp: entry_ok_def)
  show "\<exists>pv. RTR0MemObjAddress h (mr_MemObj m) = Some pv" "\<exists>cb. RTR0MemObjSize h (mr_MemObj m) = Some cb"
    "\<exists>p. RTR0MemObjGetPagePhysAddr h (mr_MemObj m) i = Some p"
    using accessors_no_fault[of h "mr_MemObj m" 0] o by auto
  show "\<exists>pv. RTR0MemObjAddressR3 h (mr_MapObjR3 m) = Some pv"
  proof (cases "mr_MapObjR3 m = 0")
    case False
    with c accessors_no_fault(2)[of h "mr_MapObjR3 m"] show ?thesis by auto
  qed (simp add: RTR0MemObjAddressR3_def)
  show "\<exists>ps. phys_pages h (mr_MemObj m) n acc = Some ps" "\<exists>ps. phys_pages h (mr_MapObjR3 m) n acc = Some ps"
    using phys_pages_no_fault o c by blast+
qed

text \<open>The four allocating calls, from their common parts.\<close>

lemma alloc_map_add_ok:
  assumes inv: "mem_inv s" and ss: "sessions s a = Some ss" and env: "env_ok env s"
    and ty: "ty \<noteq> MO_MAPPING" "eType \<noteq> MEMREF_TYPE_UNUSED"
    and a: "memobj_alloc (e_rcAlloc env) (e_hAlloc env) (memobj_new ty cb pv pr ph) (memobjs s) = (rc, MemObj, h1)"
    and rc: "RT_SUCCESS rc"
  shows "\<exists>r m s'. mem_map_add eType fMap cb' a MemObj env (s\<lparr>memobjs := h1\<rparr>) = Some (r, m, s') \<and> mem_inv s' \<and>
    (r = VINF_SUCCESS \<longrightarrow> entry_ok (memobjs s') m \<and> mem_used m \<and> mr_eType m = eType \<and> (mr_MapObjR3 m \<noteq> 0 \<longleftrightarrow> fMap) \<and>
      mr_MemObj m = e_hAlloc env \<and>
      (\<exists>ss'. sessions s' = (sessions s)(a \<mapsto> ss') \<and> ss' = ss\<lparr>s_Bundle := s_Bundle ss'\<rparr> \<and>
        mset (used_refs (s_Bundle ss')) = add_mset m (mset (used_refs (s_Bundle ss))))) \<and>
    (r \<noteq> VINF_SUCCESS \<longrightarrow> sessions s' = sessions s)"
proof -
  from alloc_step[OF inv env ty(1) a] rc have p: "MemObj = e_hAlloc env" "mem_inv (s\<lparr>memobjs := h1\<rparr>)" "obj_at h1 MemObj"
    "RT_SUCCESS (e_rcMap env) \<Longrightarrow> h1 (e_hMap env) = None \<and> RT_VALID_PTR (e_hMap env)" "untracked MemObj s" by auto
  have "sessions (s\<lparr>memobjs := h1\<rparr>) a = Some ss" "obj_at (memobjs (s\<lparr>memobjs := h1\<rparr>)) MemObj"
    "untracked MemObj (s\<lparr>memobjs := h1\<rparr>)" using ss p by simp_all
  from mem_map_add_ok[OF p(2) this(1,2) ty(2) _ this(3), of env fMap cb'] p(1,4) show ?thesis by fastforce
qed

lemma alloc_inv:
  "mem_inv s \<Longrightarrow> env_ok env s \<Longrightarrow> ty \<noteq> MO_MAPPING \<Longrightarrow>
   memobj_alloc (e_rcAlloc env) (e_hAlloc env) (memobj_new ty cb pv pr ph) (memobjs s) = (rc, MemObj, h1) \<Longrightarrow>
   mem_inv (s\<lparr>memobjs := h1\<rparr>)"
  by (frule (3) alloc_step) (cases "RT_SUCCESS rc", auto)

text \<open>What a successful allocating call has done to its session.\<close>

definition mem_recorded :: "addr \<Rightarrow> SUPDRVMEMREFTYPE \<Rightarrow> memenv \<Rightarrow> supdrv \<Rightarrow> supdrv \<Rightarrow> bool" where
  "mem_recorded a eType env s s' \<longleftrightarrow> (\<exists>ss ss' m. sessions s a = Some ss \<and> sessions s' = (sessions s)(a \<mapsto> ss') \<and>
     ss' = ss\<lparr>s_Bundle := s_Bundle ss'\<rparr> \<and> mr_MemObj m = e_hAlloc env \<and> mr_eType m = eType \<and>
     entry_ok (memobjs s') m \<and> mset (used_refs (s_Bundle ss')) = add_mset m (mset (used_refs (s_Bundle ss))))"

definition alloc_post :: "addr \<Rightarrow> SUPDRVMEMREFTYPE \<Rightarrow> memenv \<Rightarrow> supdrv \<Rightarrow> (mem_out \<times> supdrv) option \<Rightarrow> bool" where
  "alloc_post a eType env s res \<longleftrightarrow> (\<exists>out s'. res = Some (out, s') \<and> mem_inv s' \<and>
     (if fst out = VINF_SUCCESS then mem_recorded a eType env s s' else sessions s' = sessions s))"

lemma alloc_post_fail: "mem_inv s \<Longrightarrow> r \<noteq> VINF_SUCCESS \<Longrightarrow> alloc_post a eType env s (Some ((r, 0, 0, []), s))"
  by (simp add: alloc_post_def)

lemma alloc_postI:
  "res = Some (out, s') \<Longrightarrow> mem_inv s' \<Longrightarrow>
   (if fst out = VINF_SUCCESS then mem_recorded a eType env s s' else sessions s' = sessions s) \<Longrightarrow>
   alloc_post a eType env s res"
  unfolding alloc_post_def by blast

lemma alloc_tail_ok:
  assumes inv: "mem_inv s" and ss: "sessions s a = Some ss" and env: "env_ok env s"
    and ty: "ty \<noteq> MO_MAPPING" "eType \<noteq> MEMREF_TYPE_UNUSED"
    and out: "\<And>s2 m. entry_ok (memobjs s2) m \<Longrightarrow> mem_used m \<Longrightarrow>
        \<exists>r0 r3 ps. outf s2 m = Some ((VINF_SUCCESS, r0, r3, ps), s2)"
  shows "alloc_post a eType env s
    (case memobj_alloc (e_rcAlloc env) (e_hAlloc env) (memobj_new ty cb pv pr ph) (memobjs s) of
       (rc, MemObj, h1) \<Rightarrow>
         if RT_FAILURE rc then Some ((rc, 0, 0, []), s\<lparr>memobjs := h1\<rparr>)
         else do {
           (rc, Mem, s2) \<leftarrow> mem_map_add eType fMap cb' a MemObj env (s\<lparr>memobjs := h1\<rparr>);
           if rc = VINF_SUCCESS then outf s2 Mem else Some ((rc, 0, 0, []), s2)
         })"
proof -
  obtain rc MemObj h1 where a: "memobj_alloc (e_rcAlloc env) (e_hAlloc env) (memobj_new ty cb pv pr ph) (memobjs s)
      = (rc, MemObj, h1)" by (metis prod_cases3)
  show ?thesis
  proof (cases "RT_SUCCESS rc")
    case False
    with a alloc_inv[OF inv env ty(1) a] show ?thesis by (auto simp: alloc_post_def)
  next
    case True
    from alloc_map_add_ok[OF inv ss env ty a True, of fMap cb'] obtain r m s' where
      m: "mem_map_add eType fMap cb' a MemObj env (s\<lparr>memobjs := h1\<rparr>) = Some (r, m, s')" "mem_inv s'"
        "r = VINF_SUCCESS \<longrightarrow> entry_ok (memobjs s') m \<and> mem_used m \<and> mem_recorded a eType env s s'"
        "r \<noteq> VINF_SUCCESS \<longrightarrow> sessions s' = sessions s"
      using ss by (fastforce simp: mem_recorded_def)
    show ?thesis
    proof (cases "r = VINF_SUCCESS")
      case r: True
      with m out[of s' m] obtain r0 r3 ps where "outf s' m = Some ((VINF_SUCCESS, r0, r3, ps), s')" by auto
      with r a True m show ?thesis by (intro alloc_postI[of _ "(VINF_SUCCESS, r0, r3, ps)" s']) auto
    next
      case r: False
      with a True m show ?thesis by (intro alloc_postI[of _ "(r, 0, 0, [])" s']) auto
    qed
  qed
qed

lemma ContAlloc_ok:
  assumes "mem_inv s" "sessions s a = Some ss" "env_ok env s"
  shows "alloc_post a MEMREF_TYPE_CONT env s (SUPR0ContAlloc a cPages p0 p3 pp env s)"
proof -
  have "\<exists>r0 r3 ps. (do {
      pvR0 \<leftarrow> RTR0MemObjAddress (memobjs s2) (mr_MemObj Mem);
      pvR3 \<leftarrow> RTR0MemObjAddressR3 (memobjs s2) (mr_MapObjR3 Mem);
      HCPhys \<leftarrow> RTR0MemObjGetPagePhysAddr (memobjs s2) (mr_MemObj Mem) 0;
      Some ((VINF_SUCCESS, pvR0, pvR3, [HCPhys]), s2) }) = Some ((VINF_SUCCESS, r0, r3, ps), s2)"
    if "entry_ok (memobjs s2) Mem" "mem_used Mem" for s2 Mem
    using entry_addresses(1,2)[OF that] entry_addresses(4)[OF that, of 0] by auto
  from alloc_tail_ok[OF assms, of MO_CONT MEMREF_TYPE_CONT, OF _ _ this] assms(1,2) show ?thesis
    by (simp add: SUPR0ContAlloc_def alloc_post_fail Let_def)
qed

lemma LowAlloc_ok:
  assumes "mem_inv s" "sessions s a = Some ss" "env_ok env s"
  shows "alloc_post a MEMREF_TYPE_LOW env s (SUPR0LowAlloc a cPages p0 p3 pp env s)"
proof -
  have "\<exists>r0 r3 ps. (do {
      pages \<leftarrow> phys_pages (memobjs s2) (mr_MemObj Mem) (unat cPages) [];
      pvR0 \<leftarrow> RTR0MemObjAddress (memobjs s2) (mr_MemObj Mem);
      pvR3 \<leftarrow> RTR0MemObjAddressR3 (memobjs s2) (mr_MapObjR3 Mem);
      Some ((VINF_SUCCESS, pvR0, pvR3, pages), s2) }) = Some ((VINF_SUCCESS, r0, r3, ps), s2)"
    if "entry_ok (memobjs s2) Mem" "mem_used Mem" for s2 Mem
    using entry_addresses(1,2)[OF that] entry_addresses(5)[OF that, of "unat cPages" "[]"] by auto
  from alloc_tail_ok[OF assms, of MO_LOW MEMREF_TYPE_LOW, OF _ _ this] assms(1,2) show ?thesis
    by (simp add: SUPR0LowAlloc_def alloc_post_fail Let_def)
qed

lemma MemAlloc_ok:
  assumes "mem_inv s" "sessions s a = Some ss" "env_ok env s"
  shows "alloc_post a MEMREF_TYPE_MEM env s (SUPR0MemAlloc a cb p0 p3 env s)"
proof -
  have "\<exists>r0 r3 ps. (do {
      pvR0 \<leftarrow> RTR0MemObjAddress (memobjs s2) (mr_MemObj Mem);
      pvR3 \<leftarrow> RTR0MemObjAddressR3 (memobjs s2) (mr_MapObjR3 Mem);
      Some ((VINF_SUCCESS, pvR0, pvR3, []), s2) }) = Some ((VINF_SUCCESS, r0, r3, ps), s2)"
    if "entry_ok (memobjs s2) Mem" "mem_used Mem" for s2 Mem
    using entry_addresses(1,2)[OF that] by auto
  from alloc_tail_ok[OF assms, of MO_PAGE MEMREF_TYPE_MEM, OF _ _ this] assms(1,2) show ?thesis
    by (simp add: SUPR0MemAlloc_def alloc_post_fail Let_def)
qed

text \<open>The same reads as rewrite rules.\<close>

lemma entry_binds:
  assumes "entry_ok h m" "mem_used m"
  shows "(RTR0MemObjAddress h (mr_MemObj m) \<bind> f) = f (the (RTR0MemObjAddress h (mr_MemObj m)))"
    "(RTR0MemObjAddressR3 h (mr_MapObjR3 m) \<bind> f) = f (the (RTR0MemObjAddressR3 h (mr_MapObjR3 m)))"
    "(phys_pages h (mr_MapObjR3 m) n acc \<bind> g) = g (the (phys_pages h (mr_MapObjR3 m) n acc))"
  using entry_addresses(1,2)[OF assms] entry_addresses(6)[OF assms, of n acc] by auto

lemma PageAllocEx_ok:
  assumes "mem_inv s" "sessions s a = Some ss" "env_ok env s"
  shows "alloc_post a MEMREF_TYPE_PAGE env s (SUPR0PageAllocEx a cPages fl p3 p0 pp env s)"
proof (cases "p0 = 0")
  case True
  show ?thesis
    by (cases "pp = 0"; cases "p3 = 0")
       (simp_all add: True SUPR0PageAllocEx_def alloc_post_fail Let_def assms,
        (intro impI alloc_tail_ok[OF assms]; simp add: entry_binds)+)
next
  case False
  show ?thesis
    by (cases "pp = 0"; cases "p3 = 0")
       (simp_all add: False SUPR0PageAllocEx_def alloc_post_fail Let_def assms,
        (intro impI alloc_tail_ok[OF assms]; simp add: entry_binds)+)
qed

lemma LockMem_ok:
  assumes inv: "mem_inv s" and ss: "sessions s a = Some ss" and env: "env_ok env s"
  shows "alloc_post a MEMREF_TYPE_LOCKED env s (SUPR0LockMem a pvR3 cPages pp env s)"
proof -
  obtain rc MemObj h1 where a: "memobj_alloc (e_rcAlloc env) (e_hAlloc env)
      (memobj_new MO_LOCK (push_bit 12 (ucast cPages)) pvR3 (e_R0Process env) (e_aPhys env)) (memobjs s)
      = (rc, MemObj, h1)" by (metis prod_cases3)
  show ?thesis
  proof (cases "SUP_IS_SESSION_VALID a ss \<and> RT_VALID_PTR pp \<and> \<not> ((pvR3 + 0xfff) AND NOT 0xfff \<noteq> pvR3 \<or> pvR3 = 0)")
    case False
    with ss inv show ?thesis by (auto simp: SUPR0LockMem_def alloc_post_fail)
  next
    case good: True
    show ?thesis
    proof (cases "RT_SUCCESS rc")
      case False
      with good ss a alloc_inv[OF inv env _ a] show ?thesis
        by (auto simp: SUPR0LockMem_def alloc_post_def Let_def)
    next
      case True
      let ?s1 = "s\<lparr>memobjs := h1\<rparr>"
      from alloc_step[OF inv env _ a] True have o: "MemObj = e_hAlloc env" "mem_inv ?s1" "obj_at h1 MemObj"
        "untracked MemObj s" by auto
      from lock_pages_no_fault[OF o(3), of "unat cPages" "[]"] obtain r1 ps where
        lp: "lock_pages h1 MemObj (unat cPages) [] = Some (r1, ps)" "RT_SUCCESS r1 \<longrightarrow> r1 = VINF_SUCCESS" by blast
      let ?m = "\<lparr>mr_MemObj = MemObj, mr_MapObjR3 = 0, mr_eType = MEMREF_TYPE_LOCKED\<rparr>"
      have used: "MemObj \<noteq> 0" using obj_at_valid[OF mem_inv_heap[OF o(2)], of MemObj] o(3) by auto
      then have em: "entry_ok (memobjs ?s1) ?m" using o(3) by (simp add: entry_ok_def)
      have "sessions ?s1 a = Some ss" "mem_used ?m" "untracked (mr_MemObj ?m) ?s1" using ss used o(4) by simp_all
      from supdrvMemAdd_ok[OF o(2) this(1) em this(2,3), of "e_fBundle env"] obtain r2 s2 where
        ad: "supdrvMemAdd ?m a (e_fBundle env) ?s1 = Some (r2, s2)" "mem_inv s2"
          "r2 \<noteq> VINF_SUCCESS \<longrightarrow> s2 = ?s1 \<and> RT_FAILURE r2"
          "r2 = VINF_SUCCESS \<longrightarrow> (\<exists>bs'. s2 = put_session a (ss\<lparr>s_Bundle := bs'\<rparr>) ?s1 \<and>
             mset (used_refs bs') = add_mset ?m (mset (used_refs (s_Bundle ss))))" by blast
      from mem_inv_free_untracked[OF o(2), of MemObj MemObj "e_nf env" False] o(3,4) obtain r3 h2 where
        fr: "RTR0MemObjFree (e_nf env) MemObj False h1 = Some (r3, h2)" "mem_inv (s\<lparr>memobjs := h2\<rparr>)" by auto
      show ?thesis
      proof (cases "RT_SUCCESS r1 \<and> r2 = VINF_SUCCESS")
        case ok: True
        with ad(4) obtain bs' where "s2 = put_session a (ss\<lparr>s_Bundle := bs'\<rparr>) ?s1"
          "mset (used_refs bs') = add_mset ?m (mset (used_refs (s_Bundle ss)))" by auto
        then have "mem_recorded a MEMREF_TYPE_LOCKED env s s2"
          using ss em o(1) unfolding mem_recorded_def
          by (intro exI[of _ ss] exI[of _ "ss\<lparr>s_Bundle := bs'\<rparr>"] exI[of _ ?m]) auto
        with ok ad(1,2) lp(1) good ss a True show ?thesis
          by (intro alloc_postI[of _ "(VINF_SUCCESS, 0, 0, ps)" s2]) (auto simp: SUPR0LockMem_def Let_def)
      next
        case bad: False
        with ad(1,3) lp good ss a True fr show ?thesis
          by (intro alloc_postI[of _ "((if RT_SUCCESS r1 then r2 else r1), 0, 0, ps)" "s\<lparr>memobjs := h2\<rparr>"])
             (auto simp: SUPR0LockMem_def Let_def)
      qed
    qed
  qed
qed

text \<open>The five freeing calls.\<close>

definition mem_free_fn :: "SUPDRVMEMREFTYPE \<Rightarrow> addr \<Rightarrow> addr \<Rightarrow> memenv \<Rightarrow> supdrv \<Rightarrow> (rc \<times> supdrv) option" where
  "mem_free_fn ty = (case ty of MEMREF_TYPE_LOCKED \<Rightarrow> SUPR0UnlockMem | MEMREF_TYPE_CONT \<Rightarrow> SUPR0ContFree
     | MEMREF_TYPE_LOW \<Rightarrow> SUPR0LowFree | MEMREF_TYPE_MEM \<Rightarrow> SUPR0MemFree | MEMREF_TYPE_PAGE \<Rightarrow> SUPR0PageFree
     | MEMREF_TYPE_UNUSED \<Rightarrow> (\<lambda>a u env s. Some (VERR_INVALID_PARAMETER, s)))"

lemmas mem_free_defs = SUPR0UnlockMem_def SUPR0ContFree_def SUPR0LowFree_def SUPR0MemFree_def SUPR0PageFree_def

lemma mem_free_fn_eq:
  "sessions s a = Some ss \<Longrightarrow> ty \<noteq> MEMREF_TYPE_UNUSED \<Longrightarrow>
   mem_free_fn ty a u env s = (if SUP_IS_SESSION_VALID a ss then supdrvMemRelease a u ty env s
     else Some (VERR_INVALID_PARAMETER, s))"
  by (cases ty) (simp_all add: mem_free_fn_def mem_free_defs)

lemma mem_free_ok:
  assumes "mem_inv s" "sessions s a = Some ss"
  shows "\<exists>r s'. mem_free_fn ty a u env s = Some (r, s') \<and> mem_inv s'"
proof (cases "ty = MEMREF_TYPE_UNUSED")
  case False
  from supdrvMemRelease_ok[OF assms, of u ty env] assms show ?thesis
    by (auto simp: mem_free_fn_eq[OF assms(2) False])
qed (use assms in \<open>simp add: mem_free_fn_def\<close>)

text \<open>Mapping into the kernel and changing protection.\<close>

lemma find_last_tracked:
  assumes inv: "mem_inv s" and ss: "sessions s a = Some ss" and P: "\<And>m. entry_ok (memobjs s) m \<Longrightarrow> P m \<noteq> None"
  shows "\<exists>f. bundle_find_last P (s_Bundle ss) None = Some f \<and>
    (\<forall>m. f = Some m \<longrightarrow> entry_ok (memobjs s) m \<and> m \<in> set (all_refs (s_Bundle ss)) \<and> P m = Some True)"
proof -
  have "\<And>m. m \<in> set (all_refs (s_Bundle ss)) \<Longrightarrow> P m \<noteq> None" using mem_inv_entry[OF inv ss] P by blast
  then obtain f where f: "bundle_find_last P (s_Bundle ss) None = Some f"
    using bundle_find_last_no_fault by metis
  have "entry_ok (memobjs s) m \<and> m \<in> set (all_refs (s_Bundle ss)) \<and> P m = Some True" if "f = Some m" for m
    using bundle_find_last_Some[of P "s_Bundle ss" None m] f that mem_inv_entry[OF inv ss] by auto
  with f show ?thesis by blast
qed

lemma map_kernel_match_used: "map_kernel_match h u m = Some True \<Longrightarrow> mem_used m"
  by (auto simp: map_kernel_match_def split: if_splits)

lemma protect_match_used:
  "protect_match h u v m = Some True \<Longrightarrow> mem_used m \<and> (u \<noteq> 0 \<longrightarrow> mr_MapObjR3 m \<noteq> 0)"
  by (auto simp: protect_match_def split: if_splits)

lemma PageMapKernel_ok:
  assumes inv: "mem_inv s" and ss: "sessions s a = Some ss" and env: "env_ok env s" and p0: "p0 \<noteq> 0"
  shows "\<exists>r pv s'. SUPR0PageMapKernel a pvR3 off cb fl p0 env s = Some (r, pv, s') \<and> mem_inv s' \<and> sessions s' = sessions s"
proof (cases "SUP_IS_SESSION_VALID a ss \<and> RT_VALID_PTR p0 \<and> fl = 0 \<and> off AND 0xfff = 0 \<and> cb AND 0xfff = 0 \<and> cb \<noteq> 0")
  case False
  with ss inv p0 show ?thesis by (auto simp: SUPR0PageMapKernel_def)
next
  case good: True
  obtain f where
    f: "bundle_find_last (map_kernel_match (memobjs s) pvR3) (s_Bundle ss) None = Some f"
    and fm: "\<forall>m. f = Some m \<longrightarrow> entry_ok (memobjs s) m \<and> map_kernel_match (memobjs s) pvR3 m = Some True"
    using find_last_tracked[OF inv ss, of "map_kernel_match (memobjs s) pvR3"] entry_reads(2) by blast
  show ?thesis
  proof (cases f)
    case None
    with good f ss inv show ?thesis by (simp add: SUPR0PageMapKernel_def)
  next
    case (Some m)
    with fm map_kernel_match_used have m: "entry_ok (memobjs s) m" "mem_used m" by auto
    then have o: "obj_at (memobjs s) (mr_MemObj m)" by (simp add: entry_ok_def)
    then obtain mo where mo: "memobjs s (mr_MemObj m) = Some mo" "RT_VALID_PTR (mr_MemObj m)" "mo_enmType mo \<noteq> MO_MAPPING"
      using obj_at_valid[OF mem_inv_heap[OF inv]] by (auto simp: obj_at_def)
    from entry_addresses(3)[OF m] obtain cbm where cbm: "RTR0MemObjSize (memobjs s) (mr_MemObj m) = Some cbm" by blast
    let ?new = "memobj_new MO_MAPPING (ucast cb) (e_pvMap env) NIL_RTR0PROCESS (e_aPhys env)"
    have fresh: "RT_SUCCESS (e_rcMap env) \<Longrightarrow> memobjs s (e_hMap env) = None \<and> RT_VALID_PTR (e_hMap env)"
      using env by (simp add: env_ok_def)
    let ?call = "RTR0MemObjMapKernelEx (e_rcMap env) (e_hMap env) ?new (e_fGrow env) (mr_MemObj m) (ucast off) (ucast cb) (memobjs s)"
    have "\<exists>r c h1. ?call = Some (r, c, h1) \<and> mem_inv (s\<lparr>memobjs := h1\<rparr>) \<and> (RT_SUCCESS r \<longrightarrow> is_child h1 (mr_MemObj m) c)"
    proof (cases "?call = memobj_map (e_rcMap env) (e_hMap env) ?new (e_fGrow env) (mr_MemObj m) (memobjs s)")
      case False
      with mo inv show ?thesis by (auto simp: RTR0MemObjMapKernelEx_def split: if_splits)
    next
      case True
      from memobj_map_ok[OF mem_inv_heap[OF inv] o, of "e_rcMap env" "e_hMap env"] fresh obtain r c h1 where
        mp: "?call = Some (r, c, h1)" "heap_ok h1"
          "if RT_SUCCESS r then c = e_hMap env \<and> is_child h1 (mr_MemObj m) (e_hMap env) \<and> e_hMap env \<noteq> 0
           else h1 = memobjs s \<and> c = 0"
          "\<forall>q. obj_at (memobjs s) q \<longrightarrow> obj_at h1 q" "\<forall>b c. is_child (memobjs s) b c \<longrightarrow> is_child h1 b c"
        unfolding True by blast
      have "mem_inv (s\<lparr>memobjs := h1\<rparr>)"
        by (rule mem_inv_heap_step[OF inv mp(2)]) (rule entry_ok_mono[OF _ mp(4,5)])
      with mp(1,3) show ?thesis by (auto split: if_splits)
    qed
    then obtain r c h1 where c: "?call = Some (r, c, h1)" "mem_inv (s\<lparr>memobjs := h1\<rparr>)"
      "RT_SUCCESS r \<longrightarrow> is_child h1 (mr_MemObj m) c" by blast
    have "\<exists>pv. RTR0MemObjAddress h1 c = Some pv" if "RT_SUCCESS r"
      using c(3) that accessors_no_fault(1)[of h1 c "mr_MemObj m"] by auto
    with good f ss inv Some cbm c p0 show ?thesis
      by (cases "RT_SUCCESS r") (auto simp: SUPR0PageMapKernel_def Let_def)
  qed
qed

lemma mem_inv_protect:
  assumes inv: "mem_inv s" and p: "obj_at (memobjs s) p \<or> is_child (memobjs s) b p"
  shows "\<exists>r' h'. RTR0MemObjProtect r p off cb prot (memobjs s) = Some (r', h') \<and> mem_inv (s\<lparr>memobjs := h'\<rparr>) \<and>
    (\<forall>q. obj_at (memobjs s) q \<longrightarrow> obj_at h' q)"
proof -
  from protect_ok[OF mem_inv_heap[OF inv] p, of r off cb prot] obtain r' h' where
    h': "RTR0MemObjProtect r p off cb prot (memobjs s) = Some (r', h')" "heap_ok h'"
      "\<forall>q. obj_at (memobjs s) q \<longrightarrow> obj_at h' q" "\<forall>b c. is_child (memobjs s) b c \<longrightarrow> is_child h' b c" by blast
  have "mem_inv (s\<lparr>memobjs := h'\<rparr>)"
    by (rule mem_inv_heap_step[OF inv h'(2)]) (rule entry_ok_mono[OF _ h'(3,4)])
  with h' show ?thesis by blast
qed

lemma PageProtect_ok:
  assumes inv: "mem_inv s" and ss: "sessions s a = Some ss"
  shows "\<exists>r s'. SUPR0PageProtect a pvR3 pvR0 off cb prot env s = Some (r, s') \<and> mem_inv s' \<and> sessions s' = sessions s"
proof (cases "SUP_IS_SESSION_VALID a ss \<and> prot AND NOT 7 = 0 \<and> off AND 0xfff = 0 \<and> cb AND 0xfff = 0 \<and> cb \<noteq> 0")
  case False
  with ss inv show ?thesis by (auto simp: SUPR0PageProtect_def)
next
  case good: True
  obtain f where f: "bundle_find_last (protect_match (memobjs s) pvR3 pvR0) (s_Bundle ss) None = Some f"
    and fm: "\<forall>m. f = Some m \<longrightarrow> entry_ok (memobjs s) m \<and> protect_match (memobjs s) pvR3 pvR0 m = Some True"
    using find_last_tracked[OF inv ss, of "protect_match (memobjs s) pvR3 pvR0"] entry_reads(3) by blast
  show ?thesis
  proof (cases "\<exists>m. f = Some m \<and> (pvR0 \<noteq> 0 \<or> pvR3 \<noteq> 0)")
    case False
    with good f ss inv show ?thesis by (auto simp: SUPR0PageProtect_def Let_def split: option.split)
  next
    case True
    then obtain m where m: "f = Some m" "pvR0 \<noteq> 0 \<or> pvR3 \<noteq> 0" by blast
    define hR0 where "hR0 = (if pvR0 \<noteq> 0 then mr_MemObj m else 0)"
    define hR3 where "hR3 = (if pvR3 \<noteq> 0 then mr_MapObjR3 m else 0)"
    from fm m have e: "entry_ok (memobjs s) m" "protect_match (memobjs s) pvR3 pvR0 m = Some True" by auto
    note u = protect_match_used[OF e(2)]
    have o: "obj_at (memobjs s) (mr_MemObj m)" using e(1) u by (simp add: entry_ok_def)
    have hs: "hR0 = 0 \<or> obj_at (memobjs s) hR0" "hR3 = 0 \<or> is_child (memobjs s) (mr_MemObj m) hR3"
      "hR0 \<noteq> 0 \<or> hR3 \<noteq> 0"
      using e(1) u m(2) o by (auto simp: entry_ok_def hR0_def hR3_def)
    obtain cbm where cbm: "RTR0MemObjSize (memobjs s) (if hR0 \<noteq> 0 then hR0 else hR3) = Some cbm"
      using hs accessors_no_fault(3)[of "memobjs s" hR0 0] accessors_no_fault(3)[of "memobjs s" hR3 "mr_MemObj m"]
      by (cases "hR0 = 0") auto
    have "\<exists>r1 h1. (if hR3 \<noteq> 0 then RTR0MemObjProtect (e_rcProtect env hR3) hR3 (ucast off) (ucast cb) prot (memobjs s)
        else Some (VINF_SUCCESS, memobjs s)) = Some (r1, h1) \<and> mem_inv (s\<lparr>memobjs := h1\<rparr>) \<and> (hR0 \<noteq> 0 \<longrightarrow> obj_at h1 hR0)"
      using mem_inv_protect[OF inv, of hR3 "mr_MemObj m" "e_rcProtect env hR3" "ucast off" "ucast cb" prot] hs inv by auto
    then obtain r1 h1 where p1: "(if hR3 \<noteq> 0 then RTR0MemObjProtect (e_rcProtect env hR3) hR3 (ucast off) (ucast cb) prot (memobjs s)
        else Some (VINF_SUCCESS, memobjs s)) = Some (r1, h1)" "mem_inv (s\<lparr>memobjs := h1\<rparr>)" "hR0 \<noteq> 0 \<longrightarrow> obj_at h1 hR0" by blast
    have "\<exists>r2 h2. (if hR0 \<noteq> 0 \<and> RT_SUCCESS r1
        then RTR0MemObjProtect (e_rcProtect env hR0) hR0 (ucast off) (ucast cb) prot h1
        else Some (r1, h1)) = Some (r2, h2) \<and> mem_inv (s\<lparr>memobjs := h2\<rparr>)"
      using mem_inv_protect[OF p1(2), of hR0 0 "e_rcProtect env hR0" "ucast off" "ucast cb" prot] p1(2,3) by auto
    then obtain r2 h2 where p2: "(if hR0 \<noteq> 0 \<and> RT_SUCCESS r1
        then RTR0MemObjProtect (e_rcProtect env hR0) hR0 (ucast off) (ucast cb) prot h1
        else Some (r1, h1)) = Some (r2, h2)" "mem_inv (s\<lparr>memobjs := h2\<rparr>)" by blast
    have "SUPR0PageProtect a pvR3 pvR0 off cb prot env s =
      (if sub_range_ok off cb cbm then Some (r2, s\<lparr>memobjs := h2\<rparr>) else Some (VERR_INVALID_PARAMETER, s))"
      using good f ss m(1) hs(3) cbm p1(1) p2(1)
      by (simp add: SUPR0PageProtect_def flip: hR0_def hR3_def del: if_split) (use hs(3) in blast)
    with p2(2) inv show ?thesis by auto
  qed
qed

lemma MemGetPhys_ok:
  assumes inv: "mem_inv s" and ss: "sessions s a = Some ss"
  shows "\<exists>r ps. SUPR0MemGetPhys a u pp s = Some (r, ps)"
proof (cases "SUP_IS_SESSION_VALID a ss \<and> RT_VALID_PTR pp \<and> u \<noteq> 0")
  case False
  with ss show ?thesis by (auto simp: SUPR0MemGetPhys_def)
next
  case True
  let ?P = "mem_match (memobjs s) u MEMREF_TYPE_MEM"
  have "\<And>m. m \<in> set (all_refs (s_Bundle ss)) \<Longrightarrow> ?P m \<noteq> None"
    using mem_inv_entry[OF inv ss] entry_reads(1) by blast
  then obtain hit where hit: "bundle_find ?P (s_Bundle ss) = Some hit" using bundle_find_no_fault by blast
  show ?thesis
  proof (cases hit)
    case None
    with True hit ss show ?thesis by (simp add: SUPR0MemGetPhys_def)
  next
    case (Some ji)
    then obtain j i where ji: "hit = Some (j, i)" by (cases ji) auto
    let ?m = "b_aMem (s_Bundle ss ! j) ! i"
    from bundle_find_Some[of ?P "s_Bundle ss" j i] hit ji have
      b: "j < length (s_Bundle ss)" "i < length (b_aMem (s_Bundle ss ! j))" "?P ?m = Some True" by auto
    have e: "entry_ok (memobjs s) ?m" "mem_used ?m"
      using mem_inv_entry[OF inv ss all_refs_nth[OF b(1,2)]] mem_match_used[OF b(3)] by auto
    from entry_addresses(3)[OF e] obtain cb where cb: "RTR0MemObjSize (memobjs s) (mr_MemObj ?m) = Some cb" by blast
    from entry_addresses(5)[OF e, of "unat (drop_bit 12 cb)" "[]"] cb True hit ji ss show ?thesis
      by (auto simp: SUPR0MemGetPhys_def)
  qed
qed

section \<open>The memory API as a whole\<close>

datatype mem_op =
    MLock addr addr u32 addr memenv
  | MCont addr u32 addr addr addr memenv
  | MLow addr u32 addr addr addr memenv
  | MMem addr u32 addr addr memenv
  | MPage addr u32 u32 addr addr addr memenv
  | MFree SUPDRVMEMREFTYPE addr addr memenv
  | MMapKernel addr addr u32 u32 u32 addr memenv
  | MProtect addr addr addr u32 u32 u32 memenv
  | MGetPhys addr addr addr
  | MCleanup addr memenv

fun memStep :: "mem_op \<Rightarrow> supdrv \<Rightarrow> supdrv option" where
  "memStep (MLock a u n pp env) s = map_option snd (SUPR0LockMem a u n pp env s)"
| "memStep (MCont a n p0 p3 pp env) s = map_option snd (SUPR0ContAlloc a n p0 p3 pp env s)"
| "memStep (MLow a n p0 p3 pp env) s = map_option snd (SUPR0LowAlloc a n p0 p3 pp env s)"
| "memStep (MMem a cb p0 p3 env) s = map_option snd (SUPR0MemAlloc a cb p0 p3 env s)"
| "memStep (MPage a n fl p3 p0 pp env) s = map_option snd (SUPR0PageAllocEx a n fl p3 p0 pp env s)"
| "memStep (MFree ty a u env) s = map_option snd (mem_free_fn ty a u env s)"
| "memStep (MMapKernel a u off cb fl p0 env) s = map_option (snd \<circ> snd) (SUPR0PageMapKernel a u off cb fl p0 env s)"
| "memStep (MProtect a u v off cb prot env) s = map_option snd (SUPR0PageProtect a u v off cb prot env s)"
| "memStep (MGetPhys a u pp) s = map_option (\<lambda>_. s) (SUPR0MemGetPhys a u pp s)"
| "memStep (MCleanup a env) s = supdrvCleanupSession_mem a env s"

text \<open>What a call owes: an open session, fresh handles, and for a kernel mapping a place for its address.\<close>

fun memOpOk :: "mem_op \<Rightarrow> supdrv \<Rightarrow> bool" where
  "memOpOk (MLock a u n pp env) s \<longleftrightarrow> sessions s a \<noteq> None \<and> env_ok env s"
| "memOpOk (MCont a n p0 p3 pp env) s \<longleftrightarrow> sessions s a \<noteq> None \<and> env_ok env s"
| "memOpOk (MLow a n p0 p3 pp env) s \<longleftrightarrow> sessions s a \<noteq> None \<and> env_ok env s"
| "memOpOk (MMem a cb p0 p3 env) s \<longleftrightarrow> sessions s a \<noteq> None \<and> env_ok env s"
| "memOpOk (MPage a n fl p3 p0 pp env) s \<longleftrightarrow> sessions s a \<noteq> None \<and> env_ok env s"
| "memOpOk (MFree ty a u env) s \<longleftrightarrow> sessions s a \<noteq> None"
| "memOpOk (MMapKernel a u off cb fl p0 env) s \<longleftrightarrow> sessions s a \<noteq> None \<and> env_ok env s \<and> p0 \<noteq> 0"
| "memOpOk (MProtect a u v off cb prot env) s \<longleftrightarrow> sessions s a \<noteq> None"
| "memOpOk (MGetPhys a u pp) s \<longleftrightarrow> sessions s a \<noteq> None"
| "memOpOk (MCleanup a env) s \<longleftrightarrow> sessions s a \<noteq> None"

lemma alloc_post_step: "alloc_post a ty env s res \<Longrightarrow> \<exists>s'. map_option snd res = Some s' \<and> mem_inv s'"
  by (auto simp: alloc_post_def)

lemma memStep_safe:
  assumes inv: "mem_inv s" and ok: "memOpOk e s"
  shows "\<exists>s'. memStep e s = Some s' \<and> mem_inv s'"
proof (cases e)
  case (MLock a u n pp env)
  with ok show ?thesis using alloc_post_step[OF LockMem_ok[OF inv]] by auto
next
  case (MCont a n p0 p3 pp env)
  with ok show ?thesis using alloc_post_step[OF ContAlloc_ok[OF inv]] by auto
next
  case (MLow a n p0 p3 pp env)
  with ok show ?thesis using alloc_post_step[OF LowAlloc_ok[OF inv]] by auto
next
  case (MMem a cb p0 p3 env)
  with ok show ?thesis using alloc_post_step[OF MemAlloc_ok[OF inv]] by auto
next
  case (MPage a n fl p3 p0 pp env)
  with ok show ?thesis using alloc_post_step[OF PageAllocEx_ok[OF inv]] by auto
next
  case (MFree ty a u env)
  with ok mem_free_ok[OF inv, of a _ ty u env] show ?thesis by fastforce
next
  case (MMapKernel a u off cb fl p0 env)
  with ok PageMapKernel_ok[OF inv, of a _ env p0 u off cb fl] show ?thesis by fastforce
next
  case (MProtect a u v off cb prot env)
  with ok PageProtect_ok[OF inv, of a _ u v off cb prot env] show ?thesis by fastforce
next
  case (MGetPhys a u pp)
  with ok MemGetPhys_ok[OF inv, of a _ u pp] inv show ?thesis by fastforce
next
  case (MCleanup a env)
  with ok cleanup_mem_ok[OF inv, of a _ env] show ?thesis by fastforce
qed

interpretation memapi: guarded_api memStep memOpOk mem_inv
  by unfold_locales (rule memStep_safe)

section \<open>Failed allocations\<close>

lemma supdrvMemAdd_fail: "supdrvMemAdd m a f s = Some (r, s') \<Longrightarrow> r \<noteq> VINF_SUCCESS \<Longrightarrow> s' = s"
  by (auto simp: supdrvMemAdd_def split: Option.bind_splits option.splits if_splits list.splits)

lemma swap_remove_single [simp]: "swap_remove p [p] = []"
  by (simp add: swap_remove_def)

lemma fresh_undo: "h p = None \<Longrightarrow> (h(p \<mapsto> m))(p := None) = h"
  by (simp add: fun_upd_idem)

lemma free_fresh:
  assumes "RT_SUCCESS (nf q)" "RT_VALID_PTR q" "h q = None" "mo_enmType m \<noteq> MO_MAPPING" "mo_papMappings m = []" "mo_live m"
  shows "RTR0MemObjFree nf q f (h(q \<mapsto> m)) = Some (nf q, h)"
proof -
  have "q \<noteq> 0" using assms(2) by auto
  with assms show ?thesis
    by (simp add: RTR0MemObjFree_def rtR0MemObjIsMapping_def native_free_def Let_def fun_upd_idem)
qed

lemma free_fresh_mapping:
  assumes "RT_SUCCESS (nf p)" "RT_VALID_PTR p" "h p = None" "h q = None" "p \<noteq> q" "mo_enmType m \<noteq> MO_MAPPING"
    "mo_papMappings m = [p]" "mo_enmType c = MO_MAPPING" "mo_live c" "mo_pParent c = q"
  shows "RTR0MemObjFree nf p f (h(q \<mapsto> m, p \<mapsto> c)) = Some (nf p, h(q \<mapsto> m\<lparr>mo_papMappings := []\<rparr>))"
proof -
  have "p \<noteq> 0" using assms(2) by auto
  moreover have "(h(q \<mapsto> m, p \<mapsto> c\<lparr>mo_live := False\<rparr>))(q \<mapsto> m\<lparr>mo_papMappings := []\<rparr>, p := None) = h(q \<mapsto> m\<lparr>mo_papMappings := []\<rparr>)"
    using assms(3,5) by auto
  ultimately show ?thesis using assms
    by (simp add: RTR0MemObjFree_def rtR0MemObjIsMapping_def native_free_def Let_def)
qed

text \<open>The tail of an allocating call that fails undoes the allocation as well.\<close>

lemma mem_map_add_fail:
  assumes nf: "\<forall>q. RT_SUCCESS (e_nf env q)" and q: "memobjs s q = None" "RT_VALID_PTR q"
    and p: "RT_SUCCESS (e_rcMap env) \<longrightarrow> memobjs s (e_hMap env) = None \<and> RT_VALID_PTR (e_hMap env)" "q \<noteq> e_hMap env"
    and ty: "ty \<noteq> MO_MAPPING"
    and r: "mem_map_add eType fMap cb' a q env (s\<lparr>memobjs := (memobjs s)(q \<mapsto> memobj_new ty cb pv pr ph)\<rparr>) = Some (r, m, s')"
      "r \<noteq> VINF_SUCCESS"
  shows "s' = s"
proof -
  let ?o = "memobj_new ty cb pv pr ph" and ?h = "memobjs s" and ?p = "e_hMap env"
  let ?h1 = "?h(q \<mapsto> ?o)"
  have nfq: "RT_SUCCESS (e_nf env x)" for x using nf by simp
  have f1: "RTR0MemObjFree (e_nf env) q False ?h1 = Some (e_nf env q, ?h)"
    by (rule free_fresh) (use nfq q ty in simp_all)
  have undo: "s\<lparr>memobjs := ?h\<rparr> = s" by simp
  show ?thesis
  proof (cases fMap)
    case False
    have n0: "RTR0MemObjFree (e_nf env) 0 False h = Some (VINF_SUCCESS, h)" for h by (simp add: RTR0MemObjFree_def)
    from False r show ?thesis
      by (auto simp: mem_map_add_def Let_def n0 f1 split: Option.bind_splits if_splits dest!: supdrvMemAdd_fail)
  next
    case True
    let ?c = "memobj_new MO_MAPPING cb' (e_pvMap env) (e_R0Process env) (e_aPhys env)"
    show ?thesis
    proof (cases "RT_SUCCESS (e_rcMap env) \<and> ty \<noteq> MO_RES_VIRT \<and> e_fGrow env")
      case False
      then have "\<exists>r'. memobj_map_user env q cb' ?h1 = Some (r', 0, ?h1) \<and> RT_FAILURE r'"
        using q ty p by (auto simp: memobj_map_user_def memobj_map_def rtR0MemObjIsMapping_def rtR0MemObjLink_def Let_def memobj_new_def)
      with True r f1 show ?thesis
        by (auto simp: mem_map_add_def Let_def split: Option.bind_splits if_splits)
    next
      case mapped: True
      then have pp: "?h ?p = None" "RT_VALID_PTR ?p" using p by auto
      let ?h2 = "?h(q \<mapsto> ?o\<lparr>mo_cMappingsAllocated := 32, mo_papMappings := [?p]\<rparr>, ?p \<mapsto> ?c\<lparr>mo_pParent := q\<rparr>)"
      have m: "memobj_map_user env q cb' ?h1 = Some (VINF_SUCCESS, ?p, ?h2)"
        using mapped q ty p pp
        by (auto simp: memobj_map_user_def memobj_map_def rtR0MemObjIsMapping_def rtR0MemObjLink_def Let_def
            memobj_new_def fun_eq_iff)
      have f2: "RTR0MemObjFree (e_nf env) ?p False ?h2 =
          Some (e_nf env ?p, ?h(q \<mapsto> ?o\<lparr>mo_cMappingsAllocated := 32, mo_papMappings := []\<rparr>))"
        using free_fresh_mapping[of "e_nf env" ?p ?h q "?o\<lparr>mo_cMappingsAllocated := 32, mo_papMappings := [?p]\<rparr>"
            "?c\<lparr>mo_pParent := q\<rparr>" False] nfq pp q p(2) ty by simp
      have f3: "RTR0MemObjFree (e_nf env) q False (?h(q \<mapsto> ?o\<lparr>mo_cMappingsAllocated := 32, mo_papMappings := []\<rparr>)) =
          Some (e_nf env q, ?h)"
        by (rule free_fresh) (use nfq q ty in simp_all)
      from True r m show ?thesis
        by (auto simp: mem_map_add_def Let_def f2 f3 split: Option.bind_splits if_splits dest!: supdrvMemAdd_fail)
    qed
  qed
qed

lemma alloc_tail_fail:
  assumes nf: "\<forall>q. RT_SUCCESS (e_nf env q)" and env: "env_ok env s" and ty: "ty \<noteq> MO_MAPPING"
    and out: "\<And>s2 m res. outf s2 m = Some res \<Longrightarrow> fst (fst res) = VINF_SUCCESS"
    and r: "(case memobj_alloc (e_rcAlloc env) (e_hAlloc env) (memobj_new ty cb pv pr ph) (memobjs s) of
       (rc, MemObj, h1) \<Rightarrow>
         if RT_FAILURE rc then Some ((rc, 0, 0, []), s\<lparr>memobjs := h1\<rparr>)
         else do {
           (rc, Mem, s2) \<leftarrow> mem_map_add eType fMap cb' a MemObj env (s\<lparr>memobjs := h1\<rparr>);
           if rc = VINF_SUCCESS then outf s2 Mem else Some ((rc, 0, 0, []), s2)
         }) = Some (res, s')" and bad: "fst res \<noteq> VINF_SUCCESS"
  shows "s' = s"
proof (cases "RT_SUCCESS (e_rcAlloc env)")
  case False
  with r show ?thesis by (auto simp: memobj_alloc_def)
next
  case True
  let ?t = "s\<lparr>memobjs := (memobjs s)(e_hAlloc env \<mapsto> memobj_new ty cb pv pr ph)\<rparr>"
  from True r have "(mem_map_add eType fMap cb' a (e_hAlloc env) env ?t \<bind>
      (\<lambda>(rc, Mem, s2). if rc = VINF_SUCCESS then outf s2 Mem else Some ((rc, 0, 0, []), s2))) = Some (res, s')"
    by (simp add: memobj_alloc_def)
  then obtain rc m s2 where m: "mem_map_add eType fMap cb' a (e_hAlloc env) env ?t = Some (rc, m, s2)"
    and o: "(if rc = VINF_SUCCESS then outf s2 m else Some ((rc, 0, 0, []), s2)) = Some (res, s')"
    by (auto split: Option.bind_splits)
  have "rc \<noteq> VINF_SUCCESS" using o bad out[of s2 m "(res, s')"] by auto
  with m o have "mem_map_add eType fMap cb' a (e_hAlloc env) env ?t = Some (rc, m, s')" "rc \<noteq> VINF_SUCCESS"
    by simp_all
  then show ?thesis using env True
    by (intro mem_map_add_fail[OF nf _ _ _ _ ty]) (auto simp: env_ok_def)
qed

text \<open>Locking, too.\<close>

lemma lock_pages_rc: "lock_pages h MemObj n acc = Some (r, ps) \<Longrightarrow> r = VINF_SUCCESS \<or> RT_FAILURE r"
  by (induction n arbitrary: acc) (auto split: Option.bind_splits if_splits)

lemma supdrvMemAdd_rc: "supdrvMemAdd m a f s = Some (r, t) \<Longrightarrow> r = VINF_SUCCESS \<or> RT_FAILURE r \<and> t = s"
  by (auto simp: supdrvMemAdd_def split: Option.bind_splits option.splits if_splits list.splits)

lemma LockMem_fail:
  assumes nf: "\<forall>q. RT_SUCCESS (e_nf env q)" and env: "env_ok env s"
    and r: "SUPR0LockMem a pvR3 n pp env s = Some (res, s')" and bad: "fst res \<noteq> VINF_SUCCESS"
  shows "s' = s"
proof (cases "RT_SUCCESS (e_rcAlloc env)")
  case False
  with r show ?thesis by (auto simp: SUPR0LockMem_def memobj_alloc_def split: Option.bind_splits if_splits)
next
  case True
  let ?q = "e_hAlloc env" and ?o = "memobj_new MO_LOCK (push_bit 12 (ucast n)) pvR3 (e_R0Process env) (e_aPhys env)"
  have "RTR0MemObjFree (e_nf env) ?q False ((memobjs s)(?q \<mapsto> ?o)) = Some (e_nf env ?q, memobjs s)"
    by (rule free_fresh) (use nf env True in \<open>simp_all add: env_ok_def\<close>)
  with True r bad show ?thesis
    by (auto simp: SUPR0LockMem_def memobj_alloc_def Let_def split: Option.bind_splits if_splits dest!: supdrvMemAdd_rc lock_pages_rc)
qed

section \<open>Properties\<close>

text \<open>
  C8: Every run of locking, allocating, freeing, mapping, protecting and querying calls and of
  session cleanups, in any order and with any outcome of every operating system call, executes
  without a memory fault: no memory object handle is used after it was freed and no native
  resource is released twice, even where native frees fail.  Afterwards the sessions' records
  and the memory objects still agree.
\<close>

theorem mem_api_safe:
  "mem_inv s \<Longrightarrow> run_ok memStep memOpOk ops s \<Longrightarrow>
   \<exists>s'. run_steps memStep ops s = Some s' \<and> mem_inv s'"
  by (rule memapi.run_safe)

definition env0 :: memenv where
  "env0 = \<lparr>e_rcAlloc = 0, e_hAlloc = 0xA000, e_pvAlloc = 0xffff800000100000, e_aPhys = (\<lambda>i. 0x100000 + push_bit 12 i),
     e_rcMap = 0, e_hMap = 0xB000, e_pvMap = 0x7f0000000000, e_fGrow = True, e_fBundle = True,
     e_nf = (\<lambda>_. 0), e_rcProtect = (\<lambda>_. 0), e_R0Process = 4711\<rparr>"

lemma session0_bundle: "s_Bundle session0 = [\<lparr>b_aMem = replicate 64 memref0, b_cUsed = 0\<rparr>]"
  by (simp add: session0_def memref0_def)

lemma mem_inv_driver0: "mem_inv driver0"
proof -
  have "sess_mem_ok Map.empty [\<lparr>b_aMem = replicate 64 memref0, b_cUsed = 0\<rparr>]"
    by (auto simp: sess_mem_ok_def bundle_ok_def)
  then show ?thesis by (auto simp: mem_inv_def heap_ok_def session0_bundle split: if_splits)
qed

lemma env_ok_driver0: "env_ok env0 driver0"
  by (simp add: env_ok_def env0_def RT_VALID_PTR_def)

theorem mem_api_safe_witness:
  "\<exists>s'. run_steps memStep [MCont 0x10000 4 0x3000 0x3008 0x3010 env0, MCleanup 0x10000 env0] driver0 = Some s' \<and> mem_inv s'"
proof (rule mem_api_safe[OF mem_inv_driver0])
  have s: "sessions driver0 0x10000 = Some session0" by simp
  from ContAlloc_ok[OF mem_inv_driver0 s env_ok_driver0, where cPages = "4" and ?p0.0 = "0x3000" and ?p3.0 = "0x3008" and pp = "0x3010"]
  show "run_ok memStep memOpOk [MCont 0x10000 4 0x3000 0x3008 0x3010 env0, MCleanup 0x10000 env0] driver0"
    using env_ok_driver0 by (auto simp: alloc_post_def mem_recorded_def split: if_splits option.split)
qed

text \<open>
  What a free leaves alone when the system takes back all memory: every memory object but the one
  that is freed and its mappings, which are gone.
\<close>

definition frees_only :: "addr set \<Rightarrow> memobjs \<Rightarrow> memobjs \<Rightarrow> bool" where
  "frees_only S h h' \<longleftrightarrow> (\<forall>q. q \<notin> S \<longrightarrow> (\<forall>b \<in> S. \<not> is_child h b q) \<longrightarrow> h' q = h q) \<and>
     (\<forall>b q. is_child h' b q \<longrightarrow> is_child h b q)"

lemma frees_only_refl: "frees_only {} h h"
  by (simp add: frees_only_def)

lemma frees_only_trans: "frees_only S h h1 \<Longrightarrow> frees_only T h1 h2 \<Longrightarrow> frees_only (S \<union> T) h h2"
  unfolding frees_only_def by (metis Un_iff)

lemma object_frees_only:
  assumes ok: "heap_ok h" and o: "obj_at h p" and nf: "\<forall>q. RT_SUCCESS (nf q)"
    and f: "RTR0MemObjFree nf p True h = Some (r, h')"
  shows "frees_only {p} h h'"
proof -
  from o obtain m where m: "h p = Some m" "mo_enmType m \<noteq> MO_MAPPING" by (auto simp: obj_at_def)
  have "RT_SUCCESS r" by (rule RTR0MemObjFree_success[OF nf obj_at_valid[OF ok o] f])
  with RTR0MemObjFree_object[OF ok m, of nf True] f have h': "h' = (kill (set (mo_papMappings m)) h)(p := None)"
    by (auto split: if_splits)
  have c: "is_child h p q" if "q \<in> set (mo_papMappings m)" for q
    using ok m that unfolding heap_ok_def by (metis (no_types, lifting))
  show ?thesis unfolding frees_only_def
  proof (intro conjI allI impI)
    fix q assume "q \<notin> {p}" "\<forall>b \<in> {p}. \<not> is_child h b q"
    with c have "q \<notin> set (mo_papMappings m)" "q \<noteq> p" by auto
    then show "h' q = h q" by (simp add: h')
  next
    fix b q assume "is_child h' b q"
    then show "is_child h b q" by (auto simp: h' is_child_def kill_def split: if_splits)
  qed
qed

lemma mapping_frees_only:
  assumes ok: "heap_ok h" and c: "is_child h p c" and nf: "\<forall>q. RT_SUCCESS (nf q)"
    and f: "RTR0MemObjFree nf c False h = Some (r, h')"
  shows "frees_only {p} h h' \<and> h' c = None"
proof -
  from c obtain m where m: "h c = Some m" "mo_enmType m = MO_MAPPING" "mo_live m" "mo_pParent m = p" by (auto simp: is_child_def)
  from heap_ok_mapping[OF ok m(1-3)] m obtain par where par: "h (mo_pParent m) = Some par" "mo_enmType par \<noteq> MO_MAPPING" by auto
  have n: "RT_SUCCESS (nf c)" using nf by blast
  have h': "h' = h(p \<mapsto> par\<lparr>mo_papMappings := swap_remove c (mo_papMappings par)\<rparr>, c := None)"
    using RTR0MemObjFree_mapping[OF ok m(1-3) par(1), of nf False] f n m(4) by simp
  have "frees_only {p} h h'" unfolding frees_only_def
  proof (intro conjI allI impI)
    fix q assume "q \<notin> {p}" "\<forall>b \<in> {p}. \<not> is_child h b q"
    with c show "h' q = h q" by (auto simp: h')
  next
    fix b q assume "is_child h' b q"
    then show "is_child h b q" using par m(4) by (auto simp: h' is_child_def split: if_splits)
  qed
  then show ?thesis by (simp add: h')
qed

lemma mem_free_ref_only:
  assumes ok: "heap_ok h" and m: "entry_ok h m" "mem_used m" and nf: "\<forall>q. RT_SUCCESS (nf q)"
    and f: "mem_free_ref nf m h = Some h'"
  shows "frees_only {mr_MemObj m} h h' \<and> (mr_MapObjR3 m \<noteq> 0 \<longrightarrow> h' (mr_MapObjR3 m) = None)"
proof -
  let ?o = "mr_MemObj m" and ?c = "mr_MapObjR3 m"
  from m have o: "obj_at h ?o" and c: "?c = 0 \<or> is_child h ?o ?c" by (auto simp: entry_ok_def)
  from f m(2) obtain r h1 r2 where h1: "(if ?c \<noteq> 0 then RTR0MemObjFree nf ?c False h else Some (VINF_SUCCESS, h)) = Some (r, h1)"
    and h2: "RTR0MemObjFree nf ?o True h1 = Some (r2, h')"
    by (auto simp: mem_free_ref_def split: Option.bind_splits)
  have s1: "heap_ok h1 \<and> obj_at h1 ?o \<and> frees_only {?o} h h1 \<and> (?c \<noteq> 0 \<longrightarrow> h1 ?c = None)"
  proof (cases "?c = 0")
    case True
    with h1 ok o show ?thesis by (simp add: frees_only_def)
  next
    case False
    with c have ch: "is_child h ?o ?c" by simp
    from False h1 have e: "RTR0MemObjFree nf ?c False h = Some (r, h1)" by simp
    from free_mapping_ok[OF ok ch, of nf False] e have "heap_ok h1" "keeps_others ?c h h1" by auto
    moreover from this o obj_at_not_child[OF o ch] have "obj_at h1 ?o" by (auto simp: keeps_others_def)
    ultimately show ?thesis using mapping_frees_only[OF ok ch nf e] by simp
  qed
  then have s: "heap_ok h1" "obj_at h1 ?o" "frees_only {?o} h h1" "?c \<noteq> 0 \<longrightarrow> h1 ?c = None" by simp_all
  from free_object_ok[OF s(1,2), of nf True] h2 have "keeps_others ?o h1 h'" by auto
  then have "?c \<noteq> 0 \<longrightarrow> h' ?c = None" using s(4) by (auto simp: keeps_others_def)
  with frees_only_trans[OF s(3) object_frees_only[OF s(1,2) nf h2]] show ?thesis by simp
qed

lemma free_entries_only:
  assumes "heap_ok h" "\<forall>m \<in> set ms. entry_ok h m" "distinct (map mr_MemObj (filter mem_used ms))" "\<forall>q. RT_SUCCESS (nf q)"
    "free_entries nf ms h = Some (ms', h')"
  shows "frees_only (mr_MemObj ` set (filter mem_used ms)) h h' \<and>
    (\<forall>m \<in> set (filter mem_used ms). mr_MapObjR3 m \<noteq> 0 \<longrightarrow> h' (mr_MapObjR3 m) = None)"
  using assms
proof (induction ms arbitrary: h ms')
  case Nil
  then show ?case by (simp add: frees_only_refl)
next
  case (Cons m ms)
  show ?case
  proof (cases "mem_used m")
    case False
    with Cons.prems obtain ms2 where "free_entries nf ms h = Some (ms2, h')" by (auto split: Option.bind_splits)
    with Cons.IH[OF Cons.prems(1)] Cons.prems(2-4) False show ?thesis by auto
  next
    case True
    with Cons.prems(5) obtain h1 ms2 where h1: "mem_free_ref nf m h = Some h1" and h2: "free_entries nf ms h1 = Some (ms2, h')"
      by (auto split: Option.bind_splits)
    from Cons.prems(2) have e: "entry_ok h m" by simp
    from mem_free_ref_ok[OF Cons.prems(1) e True, of nf] h1 have k: "heap_ok h1"
      "\<forall>m'. entry_ok h m' \<longrightarrow> mr_MemObj m' \<noteq> mr_MemObj m \<longrightarrow> entry_ok h1 m'" by auto
    have d: "mr_MemObj m \<notin> mr_MemObj ` set (filter mem_used ms)" using Cons.prems(3) True by simp
    have en: "entry_ok h1 m'" if "m' \<in> set ms" for m'
    proof (cases "mem_used m'")
      case True
      then have "mr_MemObj m' \<in> mr_MemObj ` set (filter mem_used ms)" using that by auto
      then have "mr_MemObj m' \<noteq> mr_MemObj m" using d by auto
      with k(2) Cons.prems(2) that show ?thesis by simp
    next
      case False
      with Cons.prems(2) that show ?thesis by (simp add: entry_ok_def)
    qed
    have dm: "distinct (map mr_MemObj (filter mem_used ms))" using Cons.prems(3) by (auto split: if_splits)
    from Cons.IH[OF k(1) _ dm Cons.prems(4) h2] en have I: "frees_only (mr_MemObj ` set (filter mem_used ms)) h1 h'"
      "\<forall>m \<in> set (filter mem_used ms). mr_MapObjR3 m \<noteq> 0 \<longrightarrow> h' (mr_MapObjR3 m) = None" by blast+
    note M = mem_free_ref_only[OF Cons.prems(1) e True Cons.prems(4) h1]
    have "\<forall>q. h1 q = None \<longrightarrow> h' q = None" using free_entries_ok[OF k(1) _ dm, of nf] en h2 by auto
    with M have "mr_MapObjR3 m \<noteq> 0 \<longrightarrow> h' (mr_MapObjR3 m) = None" by blast
    with I(2) frees_only_trans[OF conjunct1[OF M] I(1)] True show ?thesis by simp
  qed
qed

lemma free_bundles_only:
  assumes "heap_ok h" "\<forall>m \<in> set (all_refs bs). entry_ok h m" "distinct (map mr_MemObj (used_refs bs))" "\<forall>q. RT_SUCCESS (nf q)"
    "free_bundles nf bs h = Some (bs', h')"
  shows "frees_only (mr_MemObj ` set (used_refs bs)) h h' \<and>
    (\<forall>m \<in> set (used_refs bs). mr_MapObjR3 m \<noteq> 0 \<longrightarrow> h' (mr_MapObjR3 m) = None)"
  using assms
proof (induction bs arbitrary: h bs')
  case Nil
  then show ?case by (simp add: frees_only_refl used_refs_def all_refs_def)
next
  case (Cons b bs)
  have p: "\<forall>m \<in> set (b_aMem b). entry_ok h m" "distinct (map mr_MemObj (filter mem_used (b_aMem b)))"
    "\<forall>m \<in> set (all_refs bs). entry_ok h m" "distinct (map mr_MemObj (used_refs bs))"
    "mr_MemObj ` set (filter mem_used (b_aMem b)) \<inter> mr_MemObj ` set (used_refs bs) = {}"
    using Cons.prems by auto
  from Cons.prems(5) obtain ms1 h1 bs2 where h1: "free_entries nf (b_aMem b) h = Some (ms1, h1)"
    and h2: "free_bundles nf bs h1 = Some (bs2, h')" by (auto split: Option.bind_splits)
  from free_entries_ok[OF Cons.prems(1) p(1,2), of nf] h1 have k: "heap_ok h1"
    "\<forall>m. entry_ok h m \<longrightarrow> mr_MemObj m \<notin> mr_MemObj ` set (filter mem_used (b_aMem b)) \<longrightarrow> entry_ok h1 m" by auto
  have en: "entry_ok h1 m" if "m \<in> set (all_refs bs)" for m
  proof (cases "mem_used m")
    case True
    then have "m \<in> set (used_refs bs)" using that by (simp add: set_used_refs)
    then have "mr_MemObj m \<notin> mr_MemObj ` set (filter mem_used (b_aMem b))" using p(5) by blast
    with k(2) p(3) that show ?thesis by blast
  next
    case False
    with p(3) that show ?thesis by (simp add: entry_ok_def)
  qed
  note E = free_entries_only[OF Cons.prems(1) p(1,2) Cons.prems(4) h1]
  from Cons.IH[OF k(1) _ p(4) Cons.prems(4) h2] en have I: "frees_only (mr_MemObj ` set (used_refs bs)) h1 h'"
    "\<forall>m \<in> set (used_refs bs). mr_MapObjR3 m \<noteq> 0 \<longrightarrow> h' (mr_MapObjR3 m) = None" by blast+
  have n: "\<forall>q. h1 q = None \<longrightarrow> h' q = None" using free_bundles_ok[OF k(1) _ p(4), of nf] en h2 by auto
  have u: "used_refs (b # bs) = filter mem_used (b_aMem b) @ used_refs bs" by (simp add: used_refs_def all_refs_def)
  from E I n frees_only_trans[OF conjunct1[OF E] I(1)] show ?case by (auto simp: u image_Un)
qed

lemma cleanup_mem_only:
  assumes inv: "mem_inv s" and ss: "sessions s a = Some ss" and nf: "\<forall>q. RT_SUCCESS (e_nf env q)"
    and c: "supdrvCleanupSession_mem a env s = Some s'"
  shows "frees_only (set (mem_handles ss)) (memobjs s) (memobjs s') \<and>
    (\<forall>m \<in> set (used_refs (s_Bundle ss)). mr_MapObjR3 m \<noteq> 0 \<longrightarrow> memobjs s' (mr_MapObjR3 m) = None)"
proof -
  have "sess_mem_ok (memobjs s) (s_Bundle ss)" by (rule mem_inv_session[OF inv ss])
  then have e: "\<forall>m \<in> set (all_refs (s_Bundle ss)). entry_ok (memobjs s) m" and d: "distinct (mem_handles ss)"
    by (auto simp: sess_mem_ok_def)
  from c ss obtain bs h where b: "free_bundles (e_nf env) (s_Bundle ss) (memobjs s) = Some (bs, h)" and s': "memobjs s' = h"
    by (auto simp: supdrvCleanupSession_mem_def split: Option.bind_splits)
  from free_bundles_only[OF mem_inv_heap[OF inv] e d nf b] show ?thesis by (simp add: s')
qed

text \<open>
  C13: Closing a session frees everything it has and nothing else: if native frees succeed, then after
  cleanup every memory object the session had recorded is gone, its ring-3 mappings are gone and no
  mapping of it is left, every other memory object is as it was, those of other sessions included,
  the embedded bundle is blank and the only one left, and objects, images, factories, device state and
  all other sessions are unchanged.
\<close>

theorem mem_cleanup_frees_all:
  assumes "mem_inv s" "sessions s a = Some ss" "\<forall>q. RT_SUCCESS (e_nf env q)"
  shows "\<exists>h'. supdrvCleanupSession_mem a env s =
      Some (s\<lparr>sessions := (sessions s)(a \<mapsto> ss\<lparr>s_Bundle := [\<lparr>b_aMem = replicate 64 memref0, b_cUsed = 0\<rparr>]\<rparr>),
              memobjs := h'\<rparr>) \<and>
    (\<forall>p \<in> set (mem_handles ss). h' p = None \<and> (\<forall>q. \<not> is_child h' p q)) \<and>
    (\<forall>m \<in> set (used_refs (s_Bundle ss)). mr_MapObjR3 m \<noteq> NIL_RTR0MEMOBJ \<longrightarrow> h' (mr_MapObjR3 m) = None) \<and>
    (\<forall>q. q \<notin> set (mem_handles ss) \<longrightarrow> (\<forall>p \<in> set (mem_handles ss). \<not> is_child (memobjs s) p q) \<longrightarrow> h' q = memobjs s q)"
proof -
  let ?t = "\<lambda>h. s\<lparr>sessions := (sessions s)(a \<mapsto> ss\<lparr>s_Bundle := [\<lparr>b_aMem = replicate 64 memref0, b_cUsed = 0\<rparr>]\<rparr>), memobjs := h\<rparr>"
  from cleanup_mem_ok[OF assms(1,2), of env] assms(3) obtain h' where
    h': "supdrvCleanupSession_mem a env s = Some (?t h')" "mem_inv (?t h')" "\<forall>p \<in> set (mem_handles ss). h' p = None"
    by (elim exE conjE) blast
  from cleanup_mem_only[OF assms h'(1)] have o: "frees_only (set (mem_handles ss)) (memobjs s) h'"
    "\<forall>m \<in> set (used_refs (s_Bundle ss)). mr_MapObjR3 m \<noteq> 0 \<longrightarrow> h' (mr_MapObjR3 m) = None" by simp_all
  have "\<not> is_child h' p q" if "p \<in> set (mem_handles ss)" for p q
  proof
    assume "is_child h' p q"
    then obtain m where m: "h' q = Some m" "mo_enmType m = MO_MAPPING" "mo_live m" "mo_pParent m = p" by (auto simp: is_child_def)
    have "heap_ok h'" using mem_inv_heap[OF h'(2)] by simp
    from heap_ok_mapping[OF this m(1-3)] m(4) h'(3) that show False by auto
  qed
  with h'(1,3) o show ?thesis unfolding frees_only_def by (intro exI[of _ h'] conjI) blast+
qed

text \<open>A session with one recorded object and a counter that says 64.\<close>

definition mo1 :: RTR0MEMOBJINTERNAL where
  "mo1 = memobj_new MO_LOCK 0x1000 0x5000 4711 (\<lambda>_. 0x100000)"

definition bundle1 :: SUPDRVBUNDLE where
  "bundle1 = \<lparr>b_aMem = \<lparr>mr_MemObj = 0xA000, mr_MapObjR3 = 0, mr_eType = MEMREF_TYPE_LOCKED\<rparr> # replicate 63 memref0,
     b_cUsed = 64\<rparr>"

definition driver2 :: supdrv where
  "driver2 = driver0\<lparr>memobjs := [0xA000 \<mapsto> mo1], sessions := [0x10000 \<mapsto> session0\<lparr>s_Bundle := [bundle1]\<rparr>]\<rparr>"

lemma bundle1_used: "filter mem_used (b_aMem bundle1) = [\<lparr>mr_MemObj = 0xA000, mr_MapObjR3 = 0, mr_eType = MEMREF_TYPE_LOCKED\<rparr>]"
  by (simp add: bundle1_def)

lemma mem_inv_driver2: "mem_inv driver2"
proof -
  have h: "heap_ok [0xA000 \<mapsto> mo1]"
    by (auto simp: heap_ok_def mo1_def RT_VALID_PTR_def split: if_splits)
  have "entry_ok [0xA000 \<mapsto> mo1] m" if "m \<in> set (b_aMem bundle1)" for m
    using that by (auto simp: bundle1_def entry_ok_def obj_at_def mo1_def)
  moreover have "bundle_ok bundle1"
    using bundle1_used by (simp add: bundle_ok_def) (simp add: bundle1_def)
  ultimately have "sess_mem_ok [0xA000 \<mapsto> mo1] [bundle1]"
    using bundle1_used by (auto simp: sess_mem_ok_def)
  with h show ?thesis by (auto simp: mem_inv_def driver2_def split: if_splits)
qed

theorem mem_cleanup_frees_all_witness:
  "\<exists>h'. supdrvCleanupSession_mem 0x10000 env0 driver2 =
      Some (driver2\<lparr>sessions := [0x10000 \<mapsto> session0\<lparr>s_Bundle := [\<lparr>b_aMem = replicate 64 memref0, b_cUsed = 0\<rparr>]\<rparr>],
              memobjs := h'\<rparr>) \<and> h' 0xA000 = None"
proof -
  have s: "sessions driver2 0x10000 = Some (session0\<lparr>s_Bundle := [bundle1]\<rparr>)" by (simp add: driver2_def)
  have nf: "\<forall>q. RT_SUCCESS (e_nf env0 q)" by (simp add: env0_def)
  from mem_cleanup_frees_all[OF mem_inv_driver2 s nf] show ?thesis
    using bundle1_used by (auto simp: driver2_def)
qed

text \<open>
  C16: An allocating or locking call that fails leaves nothing behind: as long as the native frees
  succeed the driver state is exactly what it was, whichever of its steps failed (the allocation or
  the locking, a page without an address, the ring-3 mapping, the link to the parent, the record).
\<close>

theorem mem_failed_alloc_no_trace:
  assumes "env_ok env s" "\<forall>q. RT_SUCCESS (e_nf env q)"
    "res = SUPR0ContAlloc a n p0 p3 pp env s \<or> res = SUPR0LowAlloc a n p0 p3 pp env s \<or>
     res = SUPR0MemAlloc a n p0 p3 env s \<or> res = SUPR0PageAllocEx a n fl p3 p0 pp env s \<or>
     res = SUPR0LockMem a p3 n pp env s"
    "res = Some (out, s')" "fst out \<noteq> VINF_SUCCESS"
  shows "s' = s"
proof -
  note tail = alloc_tail_fail[OF assms(2,1) _ _ _ assms(5)]
  from assms(3) consider
      "SUPR0ContAlloc a n p0 p3 pp env s = Some (out, s')" | "SUPR0LowAlloc a n p0 p3 pp env s = Some (out, s')"
    | "SUPR0MemAlloc a n p0 p3 env s = Some (out, s')" | "SUPR0PageAllocEx a n fl p3 p0 pp env s = Some (out, s')"
    | "SUPR0LockMem a p3 n pp env s = Some (out, s')"
    using assms(4) by auto
  then show ?thesis
  proof cases
    case 1
    then show ?thesis
      by (auto simp: SUPR0ContAlloc_def Let_def split: Option.bind_splits if_split_asm
          elim!: tail[rotated 2] split: Option.bind_split_asm)
  next
    case 2
    then show ?thesis
      by (auto simp: SUPR0LowAlloc_def Let_def split: Option.bind_splits if_split_asm elim!: tail[rotated 2])
  next
    case 3
    then show ?thesis
      by (auto simp: SUPR0MemAlloc_def Let_def split: Option.bind_splits if_split_asm elim!: tail[rotated 2])
  next
    case 4
    then show ?thesis
      by (auto simp: SUPR0PageAllocEx_def Let_def split: Option.bind_splits if_split_asm elim!: tail[rotated 2])
  next
    case 5
    show ?thesis by (rule LockMem_fail[OF assms(2,1) 5 assms(5)])
  qed
qed

theorem mem_failed_alloc_no_trace_witness:
  "SUPR0ContAlloc 0x10000 4 0x3000 0x3008 0x3010 (env0\<lparr>e_rcMap := VERR_NO_MEMORY\<rparr>) driver0 =
     Some ((VERR_NO_MEMORY, 0, 0, []), driver0)"
proof -
  let ?env = "env0\<lparr>e_rcMap := VERR_NO_MEMORY\<rparr>"
  have v: "RT_VALID_PTR 0xA000" "RT_VALID_PTR 0xB000" by (simp_all add: RT_VALID_PTR_def)
  have ok: "env_ok ?env driver0" "\<forall>q. RT_SUCCESS (e_nf ?env q)" using v by (simp_all add: env_ok_def env0_def)
  have "SUP_IS_SESSION_VALID 0x10000 session0" by (simp add: SUP_IS_SESSION_VALID_def RT_VALID_PTR_def session0_def)
  then obtain s' where r: "SUPR0ContAlloc 0x10000 4 0x3000 0x3008 0x3010 ?env driver0 = Some ((VERR_NO_MEMORY, 0, 0, []), s')"
    using v by (simp add: SUPR0ContAlloc_def env0_def memobj_alloc_def mem_map_add_def memobj_map_user_def
        memobj_map_def RTR0MemObjFree_def rtR0MemObjIsMapping_def native_free_def Let_def)
  with mem_failed_alloc_no_trace[OF ok _ r] have "s' = driver0" by fastforce
  with r show ?thesis by simp
qed

text \<open>
  The range check of the kernel mapping and protection calls adds offset and size in 32
  bits; for objects of at most 2 GB (all that \<open>SUPR0PageAllocEx\<close> allocates) it is nevertheless
  exact: it accepts just the non-overflowing ranges inside the object.
\<close>

theorem sub_range_ok_exact:
  assumes "cbMemObj \<le> 0x80000000"
  shows "sub_range_ok offSub cbSub cbMemObj \<longleftrightarrow>
    unat offSub < unat cbMemObj \<and> unat offSub + unat cbSub \<le> unat cbMemObj"
proof -
  have m: "unat cbMemObj \<le> 0x80000000" using assms by (simp add: word_le_nat_alt)
  have "unat (offSub + cbSub) = unat offSub + unat cbSub"
    if "unat offSub < unat cbMemObj" "unat cbSub \<le> unat cbMemObj"
    using that m by (subst unat_add_lem[THEN iffD1]) simp_all
  then show ?thesis
    by (auto simp: sub_range_ok_def word_less_nat_alt word_le_nat_alt unat_ucast_u64)
qed

theorem sub_range_ok_exact_witness:
  "sub_range_ok 0x1000 0x2000 0x3000 \<and> \<not> sub_range_ok 0x1000 0x3000 0x3000"
  by (simp add: sub_range_ok_exact)

text \<open>
  Beyond 2 GB the driver's own check is too weak: for a locked range of 2 GB and one page
  it accepts an offset and a size that together reach past the end by 2 GB.
\<close>

theorem sub_range_ok_wraps:
  "sub_range_ok 0x80000000 0x80001000 0x80002000 \<and>
   unat (0x80002000::u64) < unat (0x80000000::u32) + unat (0x80001000::u32)"
  by (simp add: sub_range_ok_def)

lemma map_kernel_child:
  assumes "RTR0MemObjMapKernelEx r p (memobj_new MO_MAPPING cb pv pr ph) fGrow q off sz h = Some (rc, c, h1)" "RT_SUCCESS rc"
  shows "c = p \<and> is_child h1 q p"
  using assms
  by (auto simp: RTR0MemObjMapKernelEx_def memobj_map_def rtR0MemObjLink_def is_child_def memobj_new_def Let_def
      split: Option.bind_splits if_splits)

lemma page_dvd: "x AND 0xfff = 0 \<Longrightarrow> 4096 dvd unat (x :: u32)"
proof -
  assume "x AND 0xfff = 0"
  moreover have "(0xfff :: u32) = mask 12" by (simp add: mask_eq_exp_minus_1)
  ultimately have "take_bit 12 x = 0" by (simp add: take_bit_eq_mask)
  then have "take_bit 12 (unat x) = 0" by (metis unsigned_take_bit_eq unsigned_0)
  then show ?thesis by (simp add: take_bit_eq_mod dvd_eq_mod_eq_0)
qed

text \<open>
  C21: A successful kernel mapping is a mapping of a memory object that the calling session has
  recorded as allocated or locked pages at the ring-3 address given; its range is page aligned, not
  empty and inside that object whatever the 32 bit arithmetic says; the address returned is that of
  the new mapping; and all sessions' records are as they were.
\<close>

theorem map_kernel_in_object:
  assumes "mem_inv s" "sessions s a = Some ss"
    "SUPR0PageMapKernel a pvR3 offSub cbSub fl p0 env s = Some (r, pv, s')" "RT_SUCCESS r"
  shows "\<exists>m mo. m \<in> set (used_refs (s_Bundle ss)) \<and> mr_eType m \<in> {MEMREF_TYPE_PAGE, MEMREF_TYPE_LOCKED} \<and>
    map_kernel_match (memobjs s) pvR3 m = Some True \<and>
    memobjs s (mr_MemObj m) = Some mo \<and> unat offSub + unat cbSub \<le> unat (mo_cb mo) \<and>
    4096 dvd unat offSub \<and> 4096 dvd unat cbSub \<and> cbSub \<noteq> 0 \<and>
    is_child (memobjs s') (mr_MemObj m) (e_hMap env) \<and> RTR0MemObjAddress (memobjs s') (e_hMap env) = Some pv \<and>
    sessions s' = sessions s"
proof -
  obtain f where f: "bundle_find_last (map_kernel_match (memobjs s) pvR3) (s_Bundle ss) None = Some f"
    and fm: "\<forall>m. f = Some m \<longrightarrow> m \<in> set (all_refs (s_Bundle ss)) \<and> map_kernel_match (memobjs s) pvR3 m = Some True"
    using find_last_tracked[OF assms(1,2), of "map_kernel_match (memobjs s) pvR3"] entry_reads(2) by blast
  from assms(2-4) f obtain m rc c h1 where m: "f = Some m" and s': "sessions s' = sessions s" "memobjs s' = h1" and rc: "RT_SUCCESS rc" and
    call: "RTR0MemObjMapKernelEx (e_rcMap env) (e_hMap env) (memobj_new MO_MAPPING (ucast cbSub) (e_pvMap env) NIL_RTR0PROCESS (e_aPhys env))
      (e_fGrow env) (mr_MemObj m) (ucast offSub) (ucast cbSub) (memobjs s) = Some (rc, c, h1)" and cb: "cbSub \<noteq> 0"
    and al: "offSub AND 0xfff = 0" "cbSub AND 0xfff = 0" and pv: "RTR0MemObjAddress h1 c = Some pv"
    by (auto simp: SUPR0PageMapKernel_def split: Option.bind_splits option.splits if_splits)
  from fm m have e: "m \<in> set (all_refs (s_Bundle ss))" "map_kernel_match (memobjs s) pvR3 m = Some True" by auto
  then have u: "mem_used m" "mr_eType m \<in> {MEMREF_TYPE_PAGE, MEMREF_TYPE_LOCKED}"
    by (auto simp: map_kernel_match_def split: if_splits)
  from call rc obtain mo where mo: "memobjs s (mr_MemObj m) = Some mo" and
    rng: "ucast offSub < mo_cb mo" "ucast cbSub \<le> mo_cb mo"
      "ucast offSub + ucast cbSub \<le> mo_cb mo \<or> (ucast cbSub :: u64) = 0"
    by (auto simp: RTR0MemObjMapKernelEx_def split: Option.bind_splits if_splits)
  have "(ucast cbSub :: u64) \<noteq> 0" using cb unat_ucast_u64[of cbSub] by (metis unat_0 unsigned_eq_0_iff)
  moreover have "unat (ucast offSub + ucast cbSub :: u64) = unat offSub + unat cbSub"
    using unat_u32_less[of offSub] unat_u32_less[of cbSub] by (subst unat_add_lem[THEN iffD1]) (simp_all add: unat_ucast_u64)
  ultimately have "unat offSub + unat cbSub \<le> unat (mo_cb mo)"
    using rng(3) by (simp add: word_le_nat_alt)
  moreover have "c = e_hMap env \<and> is_child h1 (mr_MemObj m) c"
    using map_kernel_child[OF call rc] by simp
  ultimately show ?thesis using mo u e s' pv cb al by (auto simp: set_used_refs page_dvd)
qed

lemma driver2_map_kernel:
  "\<exists>pv s'. SUPR0PageMapKernel 0x10000 0x5000 0 0x1000 0 0x3000 env0 driver2 = Some (VINF_SUCCESS, pv, s')"
  by (simp add: SUPR0PageMapKernel_def driver2_def SUP_IS_SESSION_VALID_def RT_VALID_PTR_def session0_def
      bundle1_def map_kernel_match_def RTR0MemObjAddressR3_def mo1_def RTR0MemObjSize_def sub_range_ok_def
      RTR0MemObjMapKernelEx_def rtR0MemObjIsMapping_def env0_def memobj_map_def rtR0MemObjLink_def Let_def
      RTR0MemObjAddress_def)

theorem map_kernel_in_object_witness:
  "\<exists>m mo. m \<in> set (b_aMem bundle1) \<and> memobjs driver2 (mr_MemObj m) = Some mo \<and>
     unat (0::u32) + unat (0x1000::u32) \<le> unat (mo_cb mo)"
proof -
  have s: "sessions driver2 0x10000 = Some (session0\<lparr>s_Bundle := [bundle1]\<rparr>)" by (simp add: driver2_def)
  from driver2_map_kernel obtain pv s' where
    r: "SUPR0PageMapKernel 0x10000 0x5000 0 0x1000 0 0x3000 env0 driver2 = Some (VINF_SUCCESS, pv, s')" by blast
  from map_kernel_in_object[OF mem_inv_driver2 s r] show ?thesis by (auto simp: set_used_refs)
qed

lemma bundle_add_full: "\<forall>b \<in> set bs. b_cUsed b = 64 \<Longrightarrow> bundle_add m bs = None"
  by (induction bs) auto

text \<open>
  Releasing memory never takes the bundle counters back: they keep their values, so a
  session whose bundles have all counted to 64 gets a new bundle for its next allocation although
  the released entry is free; the chain of bundles only grows until the session is closed.
\<close>

theorem bundle_counter_only_grows:
  assumes "mem_inv s" "sessions s a = Some ss" "\<forall>b \<in> set (s_Bundle ss). b_cUsed b = 64"
    "supdrvMemRelease a u ty env s = Some (VINF_SUCCESS, s')" "supdrvMemAdd m a True s' = Some (VINF_SUCCESS, s'')"
  shows "\<exists>ss' ss''. sessions s' a = Some ss' \<and> sessions s'' a = Some ss'' \<and>
    map b_cUsed (s_Bundle ss') = map b_cUsed (s_Bundle ss) \<and>
    (\<exists>b \<in> set (s_Bundle ss'). \<exists>i. free_slot (b_aMem b) = Some i) \<and>
    length (s_Bundle ss'') = Suc (length (s_Bundle ss))"
proof -
  let ?bs = "s_Bundle ss"
  let ?P = "mem_match (memobjs s) u ty"
  from assms(2,4) obtain j i h where hit: "bundle_find ?P ?bs = Some (Some (j, i))"
    and s': "s' = put_session a (ss\<lparr>s_Bundle := bundles_clear j i ?bs\<rparr>) s\<lparr>memobjs := h\<rparr>"
    by (auto simp: supdrvMemRelease_def Let_def split: Option.bind_splits option.splits if_splits)
  from bundle_find_Some[OF hit] have j: "j < length ?bs" "i < length (b_aMem (?bs ! j))" by auto
  let ?bs' = "bundles_clear j i ?bs"
  have "map b_cUsed ?bs' = (map b_cUsed ?bs)[j := b_cUsed (?bs ! j)]"
    by (simp add: bundles_clear_def map_update)
  also have "\<dots> = map b_cUsed ?bs" using j(1) by (metis list_update_id nth_map)
  finally have c: "map b_cUsed ?bs' = map b_cUsed ?bs" .
  have "free_slot ms \<noteq> None" if "i < length ms" "\<not> mem_used (ms ! i)" for ms
    using that by (auto simp del: not_None_eq simp: free_slot_None filter_id_conv intro!: bexI[of _ "ms ! i"])
  from this[of "(b_aMem (?bs ! j))[i := memref0]"] j have
    "\<exists>k. free_slot (b_aMem (?bs' ! j)) = Some k" by (simp add: bundles_clear_def)
  moreover have "?bs' ! j \<in> set ?bs'" using j(1) by (simp add: bundles_clear_def set_update_memI)
  ultimately have f: "\<exists>b \<in> set ?bs'. \<exists>k. free_slot (b_aMem b) = Some k" by blast
  have "\<forall>b \<in> set ?bs'. b_cUsed b = 64"
    using assms(3) c by (metis (no_types, lifting) image_iff list.set_map)
  then have "bundle_add m ?bs' = None" by (rule bundle_add_full)
  with assms(5) s' obtain b bs where "?bs' = b # bs"
    "s'' = put_session a (ss\<lparr>s_Bundle := b # \<lparr>b_aMem = (replicate 64 memref0)[63 := m], b_cUsed = 1\<rparr> # bs\<rparr>) s'"
    by (auto simp: supdrvMemAdd_def split: list.splits)
  moreover have "length ?bs' = length ?bs" by (simp add: bundles_clear_def)
  ultimately show ?thesis using c f s' by auto
qed

lemma phys_pages_nil: "phys_pages h 0 n acc = Some (replicate n NIL_RTHCPHYS @ acc)"
  by (induction n arbitrary: acc) (simp_all add: RTR0MemObjGetPagePhysAddr_def replicate_app_Cons_same)

text \<open>
  An allocation without a ring-3 mapping that asks for the page addresses succeeds but
  answers no address at all: every page gets the \<open>NIL\<close> address, because the loop asks the handle
  of the missing mapping.
\<close>

theorem page_alloc_no_r3_no_addresses:
  assumes "SUPR0PageAllocEx a cPages fl 0 ppvR0 paPages env s = Some ((VINF_SUCCESS, r0, r3, pages), s')"
    "sessions s a = Some ss" "paPages \<noteq> 0"
  shows "pages = replicate (unat cPages) NIL_RTHCPHYS"
proof -
  have "mr_MapObjR3 m = 0" if "mem_map_add ty False cb a ob env t = Some (VINF_SUCCESS, m, s2)" for ty cb ob t m s2
    using that by (auto simp: mem_map_add_def Let_def split: Option.bind_splits if_splits)
  with assms phys_pages_nil show ?thesis
    by (auto simp: SUPR0PageAllocEx_def Let_def split: Option.bind_splits if_splits prod.splits)
qed

theorem page_alloc_no_r3_no_addresses_witness:
  "\<exists>r0 r3 s'. SUPR0PageAllocEx 0x10000 2 0 0 0x3000 0x3010 env0 driver0 =
     Some ((VINF_SUCCESS, r0, r3, [NIL_RTHCPHYS, NIL_RTHCPHYS]), s')"
proof -
  have s: "sessions driver0 0x10000 = Some session0" by simp
  have "\<exists>r0 r3 ps s'. SUPR0PageAllocEx 0x10000 2 0 0 0x3000 0x3010 env0 driver0 = Some ((VINF_SUCCESS, r0, r3, ps), s')"
  proof -
    have "replicate 64 memref0 = memref0 # replicate 63 memref0" by (simp add: numeral_eq_Suc)
    then have "bundle_add m (s_Bundle session0) \<noteq> None" for m by (simp add: session0_bundle)
    then obtain bs where bs: "bundle_add \<lparr>mr_MemObj = 0xA000, mr_MapObjR3 = 0, mr_eType = MEMREF_TYPE_PAGE\<rparr> (s_Bundle session0) = Some bs"
      by blast
    have "SUP_IS_SESSION_VALID 0x10000 session0" by (simp add: SUP_IS_SESSION_VALID_def RT_VALID_PTR_def session0_def)
    moreover have "RT_VALID_PTR 0x3000" "RT_VALID_PTR 0xA000" by (simp_all add: RT_VALID_PTR_def)
    ultimately show ?thesis using bs
      by (auto simp: SUPR0PageAllocEx_def env0_def memobj_alloc_def mem_map_add_def Let_def supdrvMemAdd_def
          RTR0MemObjAddress_def phys_pages_nil)
  qed
  then obtain r0 r3 ps s' where
    r: "SUPR0PageAllocEx 0x10000 2 0 0 0x3000 0x3010 env0 driver0 = Some ((VINF_SUCCESS, r0, r3, ps), s')" by blast
  from page_alloc_no_r3_no_addresses[OF r s] have "ps = replicate 2 NIL_RTHCPHYS" by simp
  moreover have "replicate 2 x = [x, x]" for x :: u64 by (simp add: numeral_2_eq_2)
  ultimately have "ps = [NIL_RTHCPHYS, NIL_RTHCPHYS]" by simp
  with r show ?thesis by blast
qed

theorem bundle_counter_only_grows_witness:
  "\<exists>s' s'' ss''. supdrvMemRelease 0x10000 0x5000 MEMREF_TYPE_LOCKED env0 driver2 = Some (VINF_SUCCESS, s') \<and>
     supdrvMemAdd memref0 0x10000 True s' = Some (VINF_SUCCESS, s'') \<and> sessions s'' 0x10000 = Some ss'' \<and>
     length (s_Bundle ss'') = 2"
proof -
  have s: "sessions driver2 0x10000 = Some (session0\<lparr>s_Bundle := [bundle1]\<rparr>)" by (simp add: driver2_def)
  have c: "\<forall>b \<in> set (s_Bundle (session0\<lparr>s_Bundle := [bundle1]\<rparr>)). b_cUsed b = 64" by (simp add: bundle1_def)
  have "\<exists>s'. supdrvMemRelease 0x10000 0x5000 MEMREF_TYPE_LOCKED env0 driver2 = Some (VINF_SUCCESS, s')"
    by (simp add: supdrvMemRelease_def driver2_def bundle1_def mem_match_def RTR0MemObjAddress_def RT_VALID_PTR_def
        mo1_def mem_free_ref_def RTR0MemObjFree_def rtR0MemObjIsMapping_def native_free_def env0_def Let_def)
  then obtain s' where r: "supdrvMemRelease 0x10000 0x5000 MEMREF_TYPE_LOCKED env0 driver2 = Some (VINF_SUCCESS, s')" by blast
  have "\<exists>s''. supdrvMemAdd memref0 0x10000 True s' = Some (VINF_SUCCESS, s'')"
    using r by (auto simp: supdrvMemRelease_def driver2_def bundles_clear_def supdrvMemAdd_def Let_def
        split: Option.bind_splits option.splits if_splits list.splits)
  then obtain s'' where a: "supdrvMemAdd memref0 0x10000 True s' = Some (VINF_SUCCESS, s'')" by blast
  from bundle_counter_only_grows[OF mem_inv_driver2 s c r a] r a show ?thesis by auto
qed

end
