(* ===== verification/SupLdr.thy ===== *)
theory SupLdr
  imports SupObj
begin

text \<open>
  The ring-0 image loader of the driver: opening, loading and freeing images, symbol lookup
  for user mode and for other drivers, the VMMR0 entry points, service calls, and the image
  part of session cleanup.  On Linux the native loader hooks (\<open>supdrvOSLdr*\<close>) answer
  \<open>VERR_NOT_SUPPORTED\<close>, so images are always copied into executable memory.

  A session names an image by its load address; the walk over the session's usage records
  reads every image it passes, so a record that outlived its image is a memory fault here.
\<close>

section \<open>Requests and environment\<close>

text \<open>The \<open>EP\<close> union with its tag; \<open>EP_OTHER\<close> is any undefined tag value.\<close>

datatype SUPLDRLOADEP =
    EP_NOTHING
  | EP_VMMR0 (ep_pvVMMR0: addr) (ep_EntryInt: addr) (ep_EntryFast: addr) (ep_EntryEx: addr)
  | EP_SERVICE (ep_pfnServiceReq: addr) (ep_apvReserved: "addr list")
  | EP_OTHER

record SUPLDRLOAD =
  ll_pfnModuleInit :: addr
  ll_pfnModuleTerm :: addr
  ll_EP :: SUPLDRLOADEP
  ll_pvImageBase :: addr
  ll_cbImageBits :: u32
  ll_offSymbols :: u32
  ll_cSymbols :: u32
  ll_offStrTab :: u32
  ll_cbStrTab :: u32
  ll_cbImageWithTabs :: u32
  ll_abImage :: "u8 list"           \<comment> \<open>\<open>cbImageWithTabs\<close> bytes\<close>

text \<open>
  Heap allocations of one call (0 or False for a failure), the status of the module's
  initialisation function and of a service request handler.
\<close>

record ldrenv =
  le_pNew :: addr
  le_pvExec :: addr
  le_fUsage :: bool
  le_fStrTab :: bool
  le_fSymbols :: bool
  le_rcInit :: rc
  le_rcService :: rc

section \<open>Bytes\<close>

definition bytes_at :: "u8 list \<Rightarrow> nat \<Rightarrow> nat \<Rightarrow> u8 list option" where
  "bytes_at bs off n = (if off + n \<le> length bs then Some (take n (drop off bs)) else None)"

definition le32 :: "u8 list \<Rightarrow> u32" where
  "le32 bs = foldr (\<lambda>b acc. ucast b + push_bit 8 acc) (take 4 bs) 0"

text \<open>The symbol table as the bytes of \<open>cSymbols\<close> entries of two 32 bit fields.\<close>

fun syms_of_bytes :: "nat \<Rightarrow> u8 list \<Rightarrow> SUPLDRSYM list" where
  "syms_of_bytes 0 bs = []"
| "syms_of_bytes (Suc n) bs =
     \<lparr>sym_offName = le32 bs, sym_offSymbol = le32 (drop 4 bs)\<rparr> # syms_of_bytes n (drop 8 bs)"

section \<open>Usage records and entry points\<close>

text \<open>The walk for the usage record of the image at a load address.\<close>

fun ldr_find :: "(addr \<rightharpoonup> SUPDRVLDRIMAGE) \<Rightarrow> addr \<Rightarrow> usage list \<Rightarrow> usage option option" where
  "ldr_find h pvBase [] = Some None"
| "ldr_find h pvBase (u # us) = do {
     im \<leftarrow> h (u_ref u);
     if i_pvImage im = pvBase then Some (Some u) else ldr_find h pvBase us
   }"

definition supdrvLdrAddUsage :: "addr \<Rightarrow> addr \<Rightarrow> bool \<Rightarrow> supdrv \<Rightarrow> (rc \<times> supdrv) option" where
  "supdrvLdrAddUsage pSession pImage fAlloc s = do {
     ss \<leftarrow> sessions s pSession;
     case usage_find pImage (s_pLdrUsage ss) of
       Some u \<Rightarrow> Some (VINF_SUCCESS, put_session pSession (ss\<lparr>s_pLdrUsage := usage_inc pImage (s_pLdrUsage ss)\<rparr>) s)
     | None \<Rightarrow>
         if \<not> fAlloc then Some (VERR_INTERNAL_ERROR_5, s)
         else Some (VINF_SUCCESS, put_session pSession
                (ss\<lparr>s_pLdrUsage := \<lparr>u_ref = pImage, u_cUsage = 1\<rparr> # s_pLdrUsage ss\<rparr>) s)
   }"

definition supdrvLdrSetVMMR0EPs :: "addr \<Rightarrow> addr \<Rightarrow> addr \<Rightarrow> addr \<Rightarrow> supdrv \<Rightarrow> rc \<times> supdrv" where
  "supdrvLdrSetVMMR0EPs pvVMMR0 pvInt pvFast pvEx s =
     (let d = devext s in
      if d_pvVMMR0 d = 0
      then (VINF_SUCCESS, s\<lparr>devext := d\<lparr>d_pvVMMR0 := pvVMMR0, d_pfnVMMR0EntryInt := pvInt,
              d_pfnVMMR0EntryFast := pvFast, d_pfnVMMR0EntryEx := pvEx\<rparr>\<rparr>)
      else if d_pvVMMR0 d \<noteq> pvVMMR0 \<or> d_pfnVMMR0EntryInt d \<noteq> pvInt \<or> d_pfnVMMR0EntryFast d \<noteq> pvFast
              \<or> d_pfnVMMR0EntryEx d \<noteq> pvEx
      then (VERR_INVALID_PARAMETER, s)
      else (VINF_SUCCESS, s))"

definition supdrvLdrUnsetVMMR0EPs :: "supdrv \<Rightarrow> supdrv" where
  "supdrvLdrUnsetVMMR0EPs = upd_devext (\<lambda>d. d\<lparr>d_pvVMMR0 := 0, d_pfnVMMR0EntryInt := 0,
     d_pfnVMMR0EntryFast := 0, d_pfnVMMR0EntryEx := 0\<rparr>)"

section \<open>Freeing an image\<close>

text \<open>Objects whose destructor lies inside the image lose it.\<close>

fun ldr_clear_dtors :: "SUPDRVLDRIMAGE \<Rightarrow> addr list \<Rightarrow> supdrv \<Rightarrow> supdrv option" where
  "ldr_clear_dtors im [] s = Some s"
| "ldr_clear_dtors im (p # ps) s = do {
     ob \<leftarrow> objs s p;
     ldr_clear_dtors im ps
       (if in_range (o_pfnDestructor ob) (i_pvImage im) (i_cbImageBits im)
        then put_obj p (ob\<lparr>o_pfnDestructor := 0\<rparr>) s else s)
   }"

definition supdrvLdrFree :: "addr \<Rightarrow> supdrv \<Rightarrow> supdrv option" where
  "supdrvLdrFree pImage s =
     (if pImage \<notin> set (d_pLdrImages (devext s)) then None
      else do {
        im \<leftarrow> imgs s pImage;
        let s1 = upd_devext (\<lambda>d. d\<lparr>d_pLdrImages := remove1 pImage (d_pLdrImages d)\<rparr>) s;
        let s2 = (if d_pvVMMR0 (devext s1) = i_pvImage im then supdrvLdrUnsetVMMR0EPs s1 else s1);
        s3 \<leftarrow> ldr_clear_dtors im (d_pObjs (devext s2)) s2;
        let s4 = (if i_pfnModuleTerm im \<noteq> 0 \<and> i_uState im = SUP_IOCTL_LDR_LOAD
                  then log_call (Call_ModuleTerm (i_pfnModuleTerm im) pImage) s3 else s3);
        Some (s4\<lparr>imgs := (imgs s4)(pImage := None)\<rparr>)
      })"

section \<open>Opening\<close>

text \<open>
  The walk over the image list for a name.  The code compares the bytes before the terminator
  and that the stored name has its terminator there, which is equality of the names.
\<close>

fun ldr_by_name :: "(addr \<rightharpoonup> SUPDRVLDRIMAGE) \<Rightarrow> u8 list \<Rightarrow> addr list \<Rightarrow> addr option option" where
  "ldr_by_name h szName [] = Some None"
| "ldr_by_name h szName (p # ps) = do {
     im \<leftarrow> h p;
     if i_szName im = szName then Some (Some p) else ldr_by_name h szName ps
   }"

definition ldr_image_new :: "addr \<Rightarrow> u8 list \<Rightarrow> u32 \<Rightarrow> u32 \<Rightarrow> SUPDRVLDRIMAGE" where
  "ldr_image_new pvExec szName cbImageWithTabs cbImageBits =
     \<lparr>i_pvImage = (pvExec + 31) AND NOT 31, i_pvImageAlloc = pvExec, i_cbImageWithTabs = cbImageWithTabs,
      i_cbImageBits = cbImageBits, i_paSymbols = [], i_pachStrTab = [], i_pfnModuleInit = 0,
      i_pfnModuleTerm = 0, i_pfnServiceReqHandler = 0, i_uState = SUP_IOCTL_LDR_OPEN, i_cUsage = 1,
      i_fNative = False, i_szName = szName, i_abBits = []\<rparr>"

text \<open>Answers the status, the load address, \<open>fNeedsLoading\<close> and \<open>fNativeLoader\<close>.\<close>

definition supdrvIOCtl_LdrOpen ::
  "addr \<Rightarrow> u8 list \<Rightarrow> u32 \<Rightarrow> u32 \<Rightarrow> ldrenv \<Rightarrow> supdrv \<Rightarrow> ((rc \<times> addr \<times> bool \<times> bool) \<times> supdrv) option" where
  "supdrvIOCtl_LdrOpen pSession szName cbImageWithTabs cbImageBits env s = do {
     hit \<leftarrow> ldr_by_name (imgs s) szName (d_pLdrImages (devext s));
     case hit of
       Some p \<Rightarrow> do {
         im \<leftarrow> imgs s p;
         let s1 = put_img p (im\<lparr>i_cUsage := i_cUsage im + 1\<rparr>) s;
         (_, s2) \<leftarrow> supdrvLdrAddUsage pSession p (le_fUsage env) s1;
         Some ((VINF_SUCCESS, i_pvImage im, i_uState im = SUP_IOCTL_LDR_OPEN, i_fNative im), s2)
       }
     | None \<Rightarrow>
         if le_pNew env = 0 then Some ((VERR_INTERNAL_ERROR_2, 0, False, False), s)
         else if le_pvExec env = 0 then Some ((VERR_NO_EXEC_MEMORY, 0, False, False), s)
         else do {
           let im = ldr_image_new (le_pvExec env) szName cbImageWithTabs cbImageBits;
           let s1 = upd_devext (\<lambda>d. d\<lparr>d_pLdrImages := le_pNew env # d_pLdrImages d\<rparr>) (put_img (le_pNew env) im s);
           (_, s2) \<leftarrow> supdrvLdrAddUsage pSession (le_pNew env) (le_fUsage env) s1;
           Some ((VINF_SUCCESS, i_pvImage im, True, i_fNative im), s2)
         }
   }"

section \<open>Loading\<close>

definition supdrvLdrValidatePointer :: "SUPDRVLDRIMAGE \<Rightarrow> addr \<Rightarrow> bool \<Rightarrow> rc" where
  "supdrvLdrValidatePointer im pv fMayBeNull =
     (if \<not> fMayBeNull \<or> pv \<noteq> 0
      then if \<not> in_range pv (i_pvImage im) (i_cbImageBits im) then VERR_INVALID_PARAMETER
           else if i_fNative im then VERR_NOT_SUPPORTED
           else VINF_SUCCESS
      else VINF_SUCCESS)"

text \<open>The entry point checks: the first that fails decides.\<close>

fun ldr_validate_all :: "SUPDRVLDRIMAGE \<Rightarrow> addr list \<Rightarrow> rc" where
  "ldr_validate_all im [] = VINF_SUCCESS"
| "ldr_validate_all im (pv # pvs) =
     (let rc = supdrvLdrValidatePointer im pv False in
      if RT_FAILURE rc then rc else ldr_validate_all im pvs)"

definition ldrLoad_validateEP :: "SUPDRVLDRIMAGE \<Rightarrow> SUPLDRLOADEP \<Rightarrow> rc" where
  "ldrLoad_validateEP im ep = (case ep of
       EP_NOTHING \<Rightarrow> VINF_SUCCESS
     | EP_VMMR0 pv pvInt pvFast pvEx \<Rightarrow> ldr_validate_all im [pv, pvInt, pvFast, pvEx]
     | EP_SERVICE pfn reserved \<Rightarrow>
         (let rc = ldr_validate_all im [pfn] in
          if RT_FAILURE rc then rc
          else if \<exists>r \<in> set reserved. r \<noteq> 0 then VERR_INVALID_PARAMETER
          else VINF_SUCCESS)
     | EP_OTHER \<Rightarrow> VERR_INVALID_PARAMETER)"

definition ldrLoad_validate :: "SUPDRVLDRIMAGE \<Rightarrow> SUPLDRLOAD \<Rightarrow> rc" where
  "ldrLoad_validate im req =
     (let rcEP = ldrLoad_validateEP im (ll_EP req);
          rcInit = supdrvLdrValidatePointer im (ll_pfnModuleInit req) True;
          rcTerm = supdrvLdrValidatePointer im (ll_pfnModuleTerm req) True in
      if RT_FAILURE rcEP then rcEP else if RT_FAILURE rcInit then rcInit else rcTerm)"

text \<open>Copying the string and symbol tables out of the request.\<close>

definition ldrLoad_tables :: "SUPDRVLDRIMAGE \<Rightarrow> SUPLDRLOAD \<Rightarrow> ldrenv \<Rightarrow> (rc \<times> SUPDRVLDRIMAGE) option" where
  "ldrLoad_tables im req env = do {
     (rc, im1) \<leftarrow>
       (if ll_cbStrTab req = 0 then Some (VINF_SUCCESS, im)
        else if \<not> le_fStrTab env then Some (VERR_INTERNAL_ERROR_3, im)
        else do {
          tab \<leftarrow> bytes_at (ll_abImage req) (unat (ll_offStrTab req)) (unat (ll_cbStrTab req));
          Some (VINF_SUCCESS, im\<lparr>i_pachStrTab := tab\<rparr>)
        });
     if RT_FAILURE rc \<or> ll_cSymbols req = 0 then Some (rc, im1)
     else if \<not> le_fSymbols env then Some (VERR_INTERNAL_ERROR_4, im1)
     else do {
       tab \<leftarrow> bytes_at (ll_abImage req) (unat (ll_offSymbols req)) (unat (ll_cSymbols req) * 8);
       Some (rc, im1\<lparr>i_paSymbols := syms_of_bytes (unat (ll_cSymbols req)) tab\<rparr>)
     }
   }"

text \<open>Copying the bits.\<close>

definition ldrLoad_bits :: "SUPDRVLDRIMAGE \<Rightarrow> SUPLDRLOAD \<Rightarrow> (rc \<times> SUPDRVLDRIMAGE) option" where
  "ldrLoad_bits im req =
     (let im1 = im\<lparr>i_uState := SUP_IOCTL_LDR_LOAD, i_pfnModuleInit := ll_pfnModuleInit req,
                   i_pfnModuleTerm := ll_pfnModuleTerm req\<rparr> in
      if i_fNative im1 then Some (VERR_NOT_SUPPORTED, im1)
      else do {
        bits \<leftarrow> bytes_at (ll_abImage req) 0 (unat (i_cbImageBits im1));
        Some (VINF_SUCCESS, im1\<lparr>i_abBits := bits\<rparr>)
      })"

text \<open>Entering the entry points of the request.\<close>

definition ldrLoad_entry_points :: "SUPDRVLDRIMAGE \<Rightarrow> SUPLDRLOAD \<Rightarrow> supdrv \<Rightarrow> rc \<times> SUPDRVLDRIMAGE \<times> supdrv" where
  "ldrLoad_entry_points im req s = (case ll_EP req of
       EP_VMMR0 pv pvInt pvFast pvEx \<Rightarrow>
         (let (rc, s') = supdrvLdrSetVMMR0EPs pv pvInt pvFast pvEx s in (rc, im, s'))
     | EP_SERVICE pfn reserved \<Rightarrow> (VINF_SUCCESS, im\<lparr>i_pfnServiceReqHandler := pfn\<rparr>, s)
     | _ \<Rightarrow> (VINF_SUCCESS, im, s))"

text \<open>What a failed load resets in the image.\<close>

definition ldr_image_unload :: "SUPDRVLDRIMAGE \<Rightarrow> SUPDRVLDRIMAGE" where
  "ldr_image_unload im = im\<lparr>i_uState := SUP_IOCTL_LDR_OPEN, i_pfnModuleInit := 0, i_pfnModuleTerm := 0,
     i_pfnServiceReqHandler := 0, i_pachStrTab := [], i_paSymbols := []\<rparr>"

text \<open>
  Calling the module's initialisation function; while it runs the device extension names the
  image and the thread.  If it fails and the VMMR0 handle is this image, the entry points go.
\<close>

definition ldrLoad_init :: "addr \<Rightarrow> SUPDRVLDRIMAGE \<Rightarrow> ldrenv \<Rightarrow> supdrv \<Rightarrow> rc \<times> supdrv" where
  "ldrLoad_init p im env s =
     (let s1 = upd_devext (\<lambda>d. d\<lparr>d_pLdrInitImage := 0, d_hLdrInitThread := NIL_RTNATIVETHREAD\<rparr>)
                 (log_call (Call_ModuleInit (i_pfnModuleInit im) p) s) in
      (le_rcInit env,
       if RT_FAILURE (le_rcInit env) \<and> d_pvVMMR0 (devext s1) = i_pvImage im
       then supdrvLdrUnsetVMMR0EPs s1 else s1))"

text \<open>The last steps of a load: store the image, run its initialisation, undo on failure.\<close>

definition ldrLoad_finish :: "addr \<Rightarrow> SUPDRVLDRIMAGE \<Rightarrow> rc \<Rightarrow> ldrenv \<Rightarrow> supdrv \<Rightarrow> rc \<times> supdrv" where
  "ldrLoad_finish p im3 rc3 env s3 =
     (let s4 = put_img p im3 s3;
          (rc5, s5) = (if RT_SUCCESS rc3 \<and> i_pfnModuleInit im3 \<noteq> 0 then ldrLoad_init p im3 env s4 else (rc3, s4)) in
      (rc5, if RT_FAILURE rc5 then put_img p (ldr_image_unload im3) s5 else s5))"

definition supdrvIOCtl_LdrLoad :: "addr \<Rightarrow> SUPLDRLOAD \<Rightarrow> ldrenv \<Rightarrow> supdrv \<Rightarrow> (rc \<times> supdrv) option" where
  "supdrvIOCtl_LdrLoad pSession req env s = do {
     ss \<leftarrow> sessions s pSession;
     hit \<leftarrow> ldr_find (imgs s) (ll_pvImageBase req) (s_pLdrUsage ss);
     case hit of
       None \<Rightarrow> Some (VERR_INVALID_HANDLE, s)
     | Some u \<Rightarrow> do {
         im \<leftarrow> imgs s (u_ref u);
         if i_cbImageWithTabs im \<noteq> ll_cbImageWithTabs req \<or> i_cbImageBits im \<noteq> ll_cbImageBits req
         then Some (VERR_INVALID_HANDLE, s)
         else if i_uState im \<noteq> SUP_IOCTL_LDR_OPEN then Some (VERR_ALREADY_LOADED, s)
         else if RT_FAILURE (ldrLoad_validate im req) then Some (ldrLoad_validate im req, s)
         else do {
           (rc1, im1) \<leftarrow> ldrLoad_tables im req env;
           (rc2, im2) \<leftarrow> (if RT_SUCCESS rc1 then ldrLoad_bits im1 req else Some (rc1, im1));
           let (rc3, im3, s3) = (if RT_SUCCESS rc2 then ldrLoad_entry_points im2 req s else (rc2, im2, s));
           Some (ldrLoad_finish (u_ref u) im3 rc3 env s3)
         }
       }
   }"

section \<open>Freeing by a session\<close>

text \<open>Whether the destructor of one of the objects lies in the image.\<close>

fun ldr_has_dtor :: "(addr \<rightharpoonup> SUPDRVOBJ) \<Rightarrow> SUPDRVLDRIMAGE \<Rightarrow> addr list \<Rightarrow> bool option" where
  "ldr_has_dtor h im [] = Some False"
| "ldr_has_dtor h im (p # ps) = do {
     ob \<leftarrow> h p;
     if in_range (o_pfnDestructor ob) (i_pvImage im) (i_cbImageBits im) then Some True else ldr_has_dtor h im ps
   }"

text \<open>
  The last reference of the session or of all sessions is only given up when no object (of the
  session, or at all) has its destructor in the image; otherwise the image is left for the
  session cleanup, and the call reports success all the same.
\<close>

definition supdrvIOCtl_LdrFree :: "addr \<Rightarrow> addr \<Rightarrow> supdrv \<Rightarrow> (rc \<times> supdrv) option" where
  "supdrvIOCtl_LdrFree pSession pvImageBase s = do {
     ss \<leftarrow> sessions s pSession;
     hit \<leftarrow> ldr_find (imgs s) pvImageBase (s_pLdrUsage ss);
     case hit of
       None \<Rightarrow> Some (VERR_INVALID_HANDLE, s)
     | Some u \<Rightarrow> do {
         im \<leftarrow> imgs s (u_ref u);
         if i_cUsage im \<le> 1 \<or> u_cUsage u \<le> 1
         then do {
           fDangling \<leftarrow> (if i_cUsage im \<le> 1 then ldr_has_dtor (objs s) im (d_pObjs (devext s))
                        else ldr_has_dtor (objs s) im (map u_ref (s_pUsage ss)));
           if \<not> fDangling
           then do {
             let s1 = put_session pSession (ss\<lparr>s_pLdrUsage := usage_unlink (u_ref u) (s_pLdrUsage ss)\<rparr>) s;
             if i_cUsage im \<le> 1
             then do { s2 \<leftarrow> supdrvLdrFree (u_ref u) s1; Some (VINF_SUCCESS, s2) }
             else Some (VINF_SUCCESS, put_img (u_ref u) (im\<lparr>i_cUsage := i_cUsage im - 1\<rparr>) s1)
           }
           else Some (VINF_SUCCESS, s)
         }
         else Some (VINF_SUCCESS,
                put_session pSession (ss\<lparr>s_pLdrUsage := usage_dec (u_ref u) (s_pLdrUsage ss)\<rparr>)
                  (put_img (u_ref u) (im\<lparr>i_cUsage := i_cUsage im - 1\<rparr>) s))
       }
   }"

section \<open>Symbols and services\<close>

text \<open>
  The search through the symbol table.  The key is the symbol with its terminator; an entry
  whose name would reach past the string table is skipped without reading.
\<close>

fun ldr_sym :: "u8 list \<Rightarrow> u8 list \<Rightarrow> SUPLDRSYM list \<Rightarrow> u32 option" where
  "ldr_sym tab key [] = None"
| "ldr_sym tab key (sy # sys) =
     (if bytes_at tab (unat (sym_offName sy)) (length key) = Some key then Some (sym_offSymbol sy)
      else ldr_sym tab key sys)"

definition supdrvIOCtl_LdrGetSymbol :: "addr \<Rightarrow> addr \<Rightarrow> u8 list \<Rightarrow> supdrv \<Rightarrow> (rc \<times> addr) option" where
  "supdrvIOCtl_LdrGetSymbol pSession pvImageBase szSymbol s = do {
     ss \<leftarrow> sessions s pSession;
     hit \<leftarrow> ldr_find (imgs s) pvImageBase (s_pLdrUsage ss);
     case hit of
       None \<Rightarrow> Some (VERR_INVALID_HANDLE, 0)
     | Some u \<Rightarrow> do {
         im \<leftarrow> imgs s (u_ref u);
         if i_uState im \<noteq> SUP_IOCTL_LDR_LOAD then Some (VERR_ALREADY_LOADED, 0)
         else (case ldr_sym (i_pachStrTab im) (szSymbol @ [0]) (i_paSymbols im) of
             Some off \<Rightarrow> Some (VINF_SUCCESS, i_pvImage im + scast off)
           | None \<Rightarrow> Some (VERR_GENERAL_FAILURE, 0))
       }
   }"

text \<open>
  The lookup for other drivers.  Module and symbol are given by pointer and by the string
  found there (without the terminator); \<open>aFunctions\<close> is the export table.  Input and output
  share the request's union, so a lookup that finds nothing leaves the module pointer in
  \<open>pfnSymbol\<close>.
\<close>

definition supdrvIDC_LdrGetSymbol ::
  "addr \<Rightarrow> addr \<Rightarrow> u8 list \<Rightarrow> addr \<Rightarrow> u8 list \<Rightarrow> (u8 list \<times> addr) list \<Rightarrow> ldrenv \<Rightarrow> supdrv \<Rightarrow>
    ((rc \<times> addr) \<times> supdrv) option" where
  "supdrvIDC_LdrGetSymbol pSession pszModule szModule pszSymbol szSymbol aFunctions env s =
     (if \<not> RT_VALID_PTR pszSymbol then Some ((VERR_INVALID_POINTER, pszModule), s)
      else if \<not> length szSymbol < 512 then Some ((VERR_INVALID_PARAMETER, pszModule), s)
      else if pszModule \<noteq> 0 \<and> \<not> RT_VALID_PTR pszModule then Some ((VERR_INVALID_POINTER, pszModule), s)
      else if pszModule \<noteq> 0 \<and> \<not> length szModule < 64 then Some ((VERR_INVALID_PARAMETER, pszModule), s)
      else if pszModule = 0 \<or> szModule = [0x53, 0x75, 0x70, 0x44, 0x72, 0x76]
      then (case map_of aFunctions szSymbol of
          Some pfn \<Rightarrow> Some ((VINF_SUCCESS, pfn), s)
        | None \<Rightarrow> Some ((VINF_SUCCESS, pszModule), s))
      else do {
        hit \<leftarrow> ldr_by_name (imgs s) szModule (d_pLdrImages (devext s));
        case hit of
          None \<Rightarrow> Some ((VERR_MODULE_NOT_FOUND, pszModule), s)
        | Some p \<Rightarrow> do {
            im \<leftarrow> imgs s p;
            if i_uState im \<noteq> SUP_IOCTL_LDR_LOAD then Some ((VERR_WRONG_ORDER, pszModule), s)
            else (case ldr_sym (i_pachStrTab im) (szSymbol @ [0]) (i_paSymbols im) of
                None \<Rightarrow> Some ((VINF_SUCCESS, pszModule), s)
              | Some off \<Rightarrow> do {
                  (rc, s1) \<leftarrow> supdrvLdrAddUsage pSession p (le_fUsage env) s;
                  Some ((rc, i_pvImage im + scast off), s1)
                })
          }
      })"

text \<open>The handler of the first image the session uses that has one and bears the name.\<close>

fun ldr_service :: "(addr \<rightharpoonup> SUPDRVLDRIMAGE) \<Rightarrow> u8 list \<Rightarrow> usage list \<Rightarrow> addr option" where
  "ldr_service h szName [] = Some 0"
| "ldr_service h szName (u # us) = do {
     im \<leftarrow> h (u_ref u);
     if i_pfnServiceReqHandler im \<noteq> 0 \<and> i_szName im = szName then Some (i_pfnServiceReqHandler im)
     else ldr_service h szName us
   }"

definition supdrvIOCtl_CallServiceModule ::
  "addr \<Rightarrow> u8 list \<Rightarrow> u32 \<Rightarrow> u64 \<Rightarrow> ldrenv \<Rightarrow> supdrv \<Rightarrow> (rc \<times> supdrv) option" where
  "supdrvIOCtl_CallServiceModule pSession szName uOperation u64Arg env s = do {
     ss \<leftarrow> sessions s pSession;
     pfn \<leftarrow> ldr_service (imgs s) szName (s_pLdrUsage ss);
     if pfn \<noteq> 0 then Some (le_rcService env, log_call (Call_Service pfn pSession uOperation u64Arg) s)
     else Some (VERR_SUPDRV_SERVICE_NOT_FOUND, s)
   }"

section \<open>Session cleanup\<close>

text \<open>The image loop of \<open>supdrvCleanupSession\<close>; the session's list is already unhooked.\<close>

fun cleanupImgs :: "usage list \<Rightarrow> supdrv \<Rightarrow> supdrv option" where
  "cleanupImgs [] s = Some s"
| "cleanupImgs (u # us) s = do {
     im \<leftarrow> imgs s (u_ref u);
     s1 \<leftarrow> (if u_cUsage u < i_cUsage im
           then Some (put_img (u_ref u) (im\<lparr>i_cUsage := i_cUsage im - u_cUsage u\<rparr>) s)
           else supdrvLdrFree (u_ref u) s);
     cleanupImgs us s1
   }"

definition supdrvCleanupSession_ldr :: "addr \<Rightarrow> supdrv \<Rightarrow> supdrv option" where
  "supdrvCleanupSession_ldr pSession s = do {
     ss \<leftarrow> sessions s pSession;
     cleanupImgs (s_pLdrUsage ss) (put_session pSession (ss\<lparr>s_pLdrUsage := []\<rparr>) s)
   }"

section \<open>The account of the images, and the invariant\<close>

definition img_acct :: "supdrv \<Rightarrow> acct" where
  "img_acct s = ((\<lambda>p. map_option i_cUsage (imgs s p)), (\<lambda>a. map_option s_pLdrUsage (sessions s a)))"

lemma img_acct_put_img [simp]:
  "img_acct (put_img p im s) = ((fst (img_acct s))(p \<mapsto> i_cUsage im), snd (img_acct s))"
  by (auto simp: img_acct_def)

lemma img_acct_put_session [simp]:
  "img_acct (put_session a ss s) = (fst (img_acct s), (snd (img_acct s))(a \<mapsto> s_pLdrUsage ss))"
  by (auto simp: img_acct_def)

lemma img_acct_upd_devext [simp]: "img_acct (upd_devext f s) = img_acct s"
  by (simp add: img_acct_def)

lemma fst_img_acct [simp]: "fst (img_acct s) p = map_option i_cUsage (imgs s p)"
  by (simp add: img_acct_def)

lemma snd_img_acct [simp]: "snd (img_acct s) a = map_option s_pLdrUsage (sessions s a)"
  by (simp add: img_acct_def)

lemma img_acct_cong: "imgs s = imgs t \<Longrightarrow> sessions s = sessions t \<Longrightarrow> img_acct s = img_acct t"
  by (simp add: img_acct_def)

text \<open>A pointer into the bits of an image, or no pointer.\<close>

definition ep_ok :: "SUPDRVLDRIMAGE \<Rightarrow> addr \<Rightarrow> bool" where
  "ep_ok im pv \<longleftrightarrow> pv = 0 \<or> in_range pv (i_pvImage im) (i_cbImageBits im)"

text \<open>
  An allocated image is open or loaded and its bits are part of it; its callbacks point into its bits and exist only while
  it is loaded; a loaded image has all its bits.
\<close>

definition img_ok :: "SUPDRVLDRIMAGE \<Rightarrow> bool" where
  "img_ok im \<longleftrightarrow> i_uState im \<noteq> SUP_IOCTL_LDR_FREE \<and> \<not> i_fNative im \<and> i_pvImage im \<noteq> 0 \<and> i_cbImageBits im \<le> i_cbImageWithTabs im \<and>
     ep_ok im (i_pfnModuleInit im) \<and> ep_ok im (i_pfnModuleTerm im) \<and> ep_ok im (i_pfnServiceReqHandler im) \<and>
     (i_uState im = SUP_IOCTL_LDR_OPEN \<longrightarrow> i_pfnModuleInit im = 0 \<and> i_pfnModuleTerm im = 0 \<and> i_pfnServiceReqHandler im = 0) \<and>
     (i_uState im = SUP_IOCTL_LDR_LOAD \<longrightarrow> length (i_abBits im) = unat (i_cbImageBits im))"

text \<open>The VMMR0 entry points: all unset, or inside the bits of a loaded image with that handle.\<close>

definition vmmr0_ok :: "SUPDRVDEVEXT \<Rightarrow> (addr \<rightharpoonup> SUPDRVLDRIMAGE) \<Rightarrow> bool" where
  "vmmr0_ok d h \<longleftrightarrow>
     (if d_pvVMMR0 d = 0 then d_pfnVMMR0EntryInt d = 0 \<and> d_pfnVMMR0EntryFast d = 0 \<and> d_pfnVMMR0EntryEx d = 0
      else \<exists>p im. h p = Some im \<and> i_uState im = SUP_IOCTL_LDR_LOAD \<and> i_pvImage im = d_pvVMMR0 d \<and>
        (\<forall>pv \<in> {d_pfnVMMR0EntryInt d, d_pfnVMMR0EntryFast d, d_pfnVMMR0EntryEx d}.
           in_range pv (i_pvImage im) (i_cbImageBits im)))"

definition ldr_inv :: "promise set \<Rightarrow> supdrv \<Rightarrow> bool" where
  "ldr_inv K s \<longleftrightarrow> obj_inv s \<and> distinct (d_pLdrImages (devext s)) \<and> set (d_pLdrImages (devext s)) = dom (imgs s) \<and>
     (\<forall>p im. imgs s p = Some im \<longrightarrow> img_ok im) \<and>
     (\<forall>p q im im'. imgs s p = Some im \<longrightarrow> imgs s q = Some im' \<longrightarrow> i_szName im = i_szName im' \<longrightarrow> p = q) \<and>
     (VMMR0_At_Base \<in> K \<longrightarrow> vmmr0_ok (devext s) (imgs s)) \<and> (\<exists>e. accounted e (img_acct s))"

lemma ldr_inv_obj: "ldr_inv K s \<Longrightarrow> obj_inv s"
  by (simp add: ldr_inv_def)

lemma ldr_inv_img: "ldr_inv K s \<Longrightarrow> imgs s p = Some im \<Longrightarrow> img_ok im"
  by (simp add: ldr_inv_def)

lemma ldr_inv_list: "ldr_inv K s \<Longrightarrow> p \<in> set (d_pLdrImages (devext s)) \<longleftrightarrow> imgs s p \<noteq> None"
  by (auto simp: ldr_inv_def)

lemma ldr_inv_usage:
  assumes "ldr_inv K s" "sessions s a = Some ss" "u \<in> set (s_pLdrUsage ss)"
  shows "\<exists>im. imgs s (u_ref u) = Some im \<and> u_cUsage u \<le> i_cUsage im \<and> u_cUsage u \<noteq> 0"
proof -
  from assms(1) obtain e where "accounted e (img_acct s)" by (auto simp: ldr_inv_def)
  from accounted_record[OF this, of a "s_pLdrUsage ss" u] assms(2,3) show ?thesis by auto
qed

text \<open>The walks do not fault, and find what they look for.\<close>

lemma ldr_find_ok:
  "(\<And>u. u \<in> set us \<Longrightarrow> h (u_ref u) \<noteq> None) \<Longrightarrow>
   \<exists>r. ldr_find h base us = Some r \<and>
     (\<forall>u. r = Some u \<longrightarrow> u \<in> set us \<and> usage_find (u_ref u) us = Some u \<and>
        (\<exists>im. h (u_ref u) = Some im \<and> i_pvImage im = base))"
proof (induction us)
  case (Cons v us)
  from Cons.prems[of v] obtain im where im: "h (u_ref v) = Some im" by auto
  from Cons obtain r where r: "ldr_find h base us = Some r"
    "\<forall>u. r = Some u \<longrightarrow> u \<in> set us \<and> usage_find (u_ref u) us = Some u \<and>
        (\<exists>im. h (u_ref u) = Some im \<and> i_pvImage im = base)" by auto
  show ?case
  proof (cases "i_pvImage im = base")
    case True
    with im show ?thesis by simp
  next
    case False
    have "u_ref v \<noteq> u_ref u" if "r = Some u" for u using r(2) that im False by auto
    with False im r show ?thesis by auto
  qed
qed simp

lemma ldr_by_name_ok:
  "(\<And>p. p \<in> set ps \<Longrightarrow> h p \<noteq> None) \<Longrightarrow>
   \<exists>r. ldr_by_name h name ps = Some r \<and>
     (case r of None \<Rightarrow> \<forall>p \<in> set ps. \<forall>im. h p = Some im \<longrightarrow> i_szName im \<noteq> name
      | Some p \<Rightarrow> p \<in> set ps \<and> (\<exists>im. h p = Some im \<and> i_szName im = name))"
proof (induction ps)
  case (Cons q ps)
  from Cons.prems[of q] obtain im where im: "h q = Some im" by auto
  from Cons obtain r where r: "ldr_by_name h name ps = Some r"
    "case r of None \<Rightarrow> \<forall>p \<in> set ps. \<forall>im. h p = Some im \<longrightarrow> i_szName im \<noteq> name
      | Some p \<Rightarrow> p \<in> set ps \<and> (\<exists>im. h p = Some im \<and> i_szName im = name)" by auto
  from im r show ?case by (cases "i_szName im = name") (auto split: option.splits)
qed simp

lemma ldr_has_dtor_ok:
  "set ps \<subseteq> dom h \<Longrightarrow> ldr_has_dtor h im ps = Some (\<exists>p \<in> set ps. \<exists>ob. h p = Some ob \<and>
     in_range (o_pfnDestructor ob) (i_pvImage im) (i_cbImageBits im))"
  by (induction ps) auto

definition clear_dtor :: "SUPDRVLDRIMAGE \<Rightarrow> SUPDRVOBJ \<Rightarrow> SUPDRVOBJ" where
  "clear_dtor im ob = (if in_range (o_pfnDestructor ob) (i_pvImage im) (i_cbImageBits im)
     then ob\<lparr>o_pfnDestructor := 0\<rparr> else ob)"

lemma clear_dtor_simps [simp]:
  "o_u32Magic (clear_dtor im ob) = o_u32Magic ob" "o_cUsage (clear_dtor im ob) = o_cUsage ob"
  "clear_dtor im (clear_dtor im ob) = clear_dtor im ob"
  by (auto simp: clear_dtor_def)

lemma ldr_clear_dtors_ok:
  "set ps \<subseteq> dom (objs s) \<Longrightarrow> ldr_clear_dtors im ps s =
     Some (s\<lparr>objs := (\<lambda>q. if q \<in> set ps then map_option (clear_dtor im) (objs s q) else objs s q)\<rparr>)"
proof (induction ps arbitrary: s)
  case (Cons p ps)
  then obtain ob where ob: "objs s p = Some ob" by auto
  let ?t = "if in_range (o_pfnDestructor ob) (i_pvImage im) (i_cbImageBits im)
        then put_obj p (ob\<lparr>o_pfnDestructor := 0\<rparr>) s else s"
  have t: "?t = s\<lparr>objs := (objs s)(p \<mapsto> clear_dtor im ob)\<rparr>"
    using ob by (auto simp: clear_dtor_def put_obj_def fun_upd_idem)
  have "set ps \<subseteq> dom (objs ?t)" using Cons.prems unfolding t by auto
  note Cons.IH[OF this]
  moreover have "(\<lambda>q. if q \<in> set ps then map_option (clear_dtor im) (objs ?t q) else objs ?t q) =
      (\<lambda>q. if q \<in> set (p # ps) then map_option (clear_dtor im) (objs s q) else objs s q)"
    unfolding t using ob by (auto simp: fun_eq_iff)
  ultimately have "ldr_clear_dtors im ps ?t =
      Some (s\<lparr>objs := (\<lambda>q. if q \<in> set (p # ps) then map_option (clear_dtor im) (objs s q) else objs s q)\<rparr>)"
    unfolding t by simp
  with ob show ?case by simp
qed simp

section \<open>Freeing an image keeps the rest in order\<close>

text \<open>Everything of the invariant but the account.\<close>

definition ldr_base :: "promise set \<Rightarrow> supdrv \<Rightarrow> bool" where
  "ldr_base K s \<longleftrightarrow> obj_inv s \<and> distinct (d_pLdrImages (devext s)) \<and> set (d_pLdrImages (devext s)) = dom (imgs s) \<and>
     (\<forall>p im. imgs s p = Some im \<longrightarrow> img_ok im) \<and>
     (\<forall>p q im im'. imgs s p = Some im \<longrightarrow> imgs s q = Some im' \<longrightarrow> i_szName im = i_szName im' \<longrightarrow> p = q) \<and>
     (VMMR0_At_Base \<in> K \<longrightarrow> vmmr0_ok (devext s) (imgs s))"

lemma ldr_base_vmmr0: "ldr_base K s \<Longrightarrow> VMMR0_At_Base \<in> K \<Longrightarrow> vmmr0_ok (devext s) (imgs s)"
  by (simp add: ldr_base_def)

lemma ldr_base_img: "ldr_base K s \<Longrightarrow> imgs s p = Some im \<Longrightarrow> img_ok im"
  by (simp add: ldr_base_def)

lemma ldr_inv_base: "ldr_inv K s \<longleftrightarrow> ldr_base K s \<and> (\<exists>e. accounted e (img_acct s))"
  by (auto simp: ldr_inv_def ldr_base_def)

lemma obj_inv_cong:
  assumes "obj_inv s" "d_pObjs (devext t) = d_pObjs (devext s)" "\<And>a. map_option s_pUsage (sessions t a) = map_option s_pUsage (sessions s a)"
    "\<And>p. map_option (\<lambda>ob. (o_u32Magic ob, o_cUsage ob)) (objs t p) = map_option (\<lambda>ob. (o_u32Magic ob, o_cUsage ob)) (objs s p)"
  shows "obj_inv t"
proof -
  have c: "map_option o_cUsage (objs t p) = map_option o_cUsage (objs s p)" for p
    using assms(4)[of p] by (cases "objs t p"; cases "objs s p") auto
  have "obj_acct t = obj_acct s"
    unfolding obj_acct_def using c assms(3) by simp
  moreover have "objs t p = None \<longleftrightarrow> objs s p = None" for p
    using c[of p] by (cases "objs t p"; cases "objs s p") auto
  then have "dom (objs t) = dom (objs s)" by (auto simp: dom_def)
  moreover have "o_u32Magic ob = SUPDRVOBJ_MAGIC \<and> RT_VALID_PTR p" if "objs t p = Some ob" for p ob
    using assms(1) assms(4)[of p] that by (cases "objs s p") (auto simp: obj_inv_def)
  ultimately show ?thesis using assms(1,2) by (simp add: obj_inv_def)
qed

definition objs_cleared :: "SUPDRVLDRIMAGE \<Rightarrow> supdrv \<Rightarrow> addr \<rightharpoonup> SUPDRVOBJ" where
  "objs_cleared im s = (\<lambda>q. map_option (clear_dtor im) (objs s q))"

definition term_calls :: "addr \<Rightarrow> SUPDRVLDRIMAGE \<Rightarrow> ext_call list" where
  "term_calls p im = (if i_pfnModuleTerm im \<noteq> 0 \<and> i_uState im = SUP_IOCTL_LDR_LOAD
     then [Call_ModuleTerm (i_pfnModuleTerm im) p] else [])"

lemma supdrvLdrFree_eq:
  assumes base: "ldr_base K s" and im: "imgs s p = Some im"
  shows "supdrvLdrFree p s = Some (s\<lparr>
    devext := (devext s)\<lparr>d_pLdrImages := remove1 p (d_pLdrImages (devext s)),
      d_pvVMMR0 := (if d_pvVMMR0 (devext s) = i_pvImage im then 0 else d_pvVMMR0 (devext s)),
      d_pfnVMMR0EntryInt := (if d_pvVMMR0 (devext s) = i_pvImage im then 0 else d_pfnVMMR0EntryInt (devext s)),
      d_pfnVMMR0EntryFast := (if d_pvVMMR0 (devext s) = i_pvImage im then 0 else d_pfnVMMR0EntryFast (devext s)),
      d_pfnVMMR0EntryEx := (if d_pvVMMR0 (devext s) = i_pvImage im then 0 else d_pfnVMMR0EntryEx (devext s))\<rparr>,
    objs := objs_cleared im s, imgs := (imgs s)(p := None), calls := calls s @ term_calls p im\<rparr>)"
proof -
  have p: "p \<in> set (d_pLdrImages (devext s))" using base im by (auto simp: ldr_base_def)
  have o: "set (d_pObjs (devext s)) = dom (objs s)" using base by (simp add: ldr_base_def obj_inv_def)
  have c: "(\<lambda>q. if q \<in> set (d_pObjs (devext s)) then map_option (clear_dtor im) (objs s q) else objs s q) = objs_cleared im s"
    unfolding o objs_cleared_def by (auto simp: fun_eq_iff dom_def)
  have cl: "ldr_clear_dtors im (d_pObjs (devext s)) t = Some (t\<lparr>objs := objs_cleared im s\<rparr>)" if "objs t = objs s" for t
  proof -
    have "set (d_pObjs (devext s)) \<subseteq> dom (objs t)" using o that by simp
    from ldr_clear_dtors_ok[OF this, of im] show ?thesis unfolding that c .
  qed
  show ?thesis
  proof (cases "d_pvVMMR0 (devext s) = i_pvImage im")
    case True
    with p im show ?thesis
      by (simp add: supdrvLdrFree_def Let_def term_calls_def supdrvLdrUnsetVMMR0EPs_def upd_devext_def log_call_def cl)
  next
    case False
    with p im show ?thesis
      by (simp add: supdrvLdrFree_def Let_def term_calls_def upd_devext_def log_call_def cl)
  qed
qed

lemma ldr_base_free:
  assumes base: "ldr_base K s" and im: "imgs s p = Some im" and f: "supdrvLdrFree p s = Some s'"
  shows "ldr_base K s' \<and> imgs s' = (imgs s)(p := None) \<and> sessions s' = sessions s \<and>
    objs s' = objs_cleared im s \<and> calls s' = calls s @ term_calls p im \<and>
    memobjs s' = memobjs s \<and> factories s' = factories s"
proof -
  have s': "imgs s' = (imgs s)(p := None)" "sessions s' = sessions s" "objs s' = objs_cleared im s"
    "calls s' = calls s @ term_calls p im" "memobjs s' = memobjs s" "factories s' = factories s"
    "d_pLdrImages (devext s') = remove1 p (d_pLdrImages (devext s))" "d_pObjs (devext s') = d_pObjs (devext s)"
    "d_pvVMMR0 (devext s') = (if d_pvVMMR0 (devext s) = i_pvImage im then 0 else d_pvVMMR0 (devext s))"
    "d_pfnVMMR0EntryInt (devext s') = (if d_pvVMMR0 (devext s) = i_pvImage im then 0 else d_pfnVMMR0EntryInt (devext s))"
    "d_pfnVMMR0EntryFast (devext s') = (if d_pvVMMR0 (devext s) = i_pvImage im then 0 else d_pfnVMMR0EntryFast (devext s))"
    "d_pfnVMMR0EntryEx (devext s') = (if d_pvVMMR0 (devext s) = i_pvImage im then 0 else d_pfnVMMR0EntryEx (devext s))"
    using f unfolding supdrvLdrFree_eq[OF base im] by (auto simp del: if_split)
  have "obj_inv s'"
    by (rule obj_inv_cong[of s]) (use base s' in \<open>auto simp: ldr_base_def objs_cleared_def option.map_comp o_def\<close>)
  moreover have "vmmr0_ok (devext s') (imgs s')" if K: "VMMR0_At_Base \<in> K"
  proof (cases "d_pvVMMR0 (devext s) = i_pvImage im \<or> d_pvVMMR0 (devext s) = 0")
    case True
    moreover have "vmmr0_ok (devext s) (imgs s)" by (rule ldr_base_vmmr0[OF base K])
    ultimately show ?thesis unfolding vmmr0_ok_def s' by (auto split: if_splits)
  next
    case False
    with ldr_base_vmmr0[OF base K] obtain q im' where q: "imgs s q = Some im'" "i_uState im' = SUP_IOCTL_LDR_LOAD" "i_pvImage im' = d_pvVMMR0 (devext s)"
      "\<forall>pv \<in> {d_pfnVMMR0EntryInt (devext s), d_pfnVMMR0EntryFast (devext s), d_pfnVMMR0EntryEx (devext s)}.
         in_range pv (i_pvImage im') (i_cbImageBits im')" unfolding vmmr0_ok_def by auto
    with False im have "q \<noteq> p" by auto
    with q False show ?thesis unfolding vmmr0_ok_def s' by (auto intro!: exI[of _ q])
  qed
  moreover have "distinct (d_pLdrImages (devext s'))" "set (d_pLdrImages (devext s')) = dom (imgs s')"
    using base unfolding s' ldr_base_def by auto
  moreover have "img_ok im'" if "imgs s' q = Some im'" for q im'
    using base that unfolding s' ldr_base_def by (auto split: if_splits)
  moreover have "q = q'" if "imgs s' q = Some i1" "imgs s' q' = Some i2" "i_szName i1 = i_szName i2" for q q' i1 i2
    using base that unfolding s' ldr_base_def by (auto split: if_splits)
  ultimately show ?thesis using s'(1-6) unfolding ldr_base_def by blast
qed

lemma ldr_base_calls: "ldr_base K s \<Longrightarrow> ldr_base K (s\<lparr>calls := c\<rparr>)"
proof -
  assume b: "ldr_base K s"
  have "obj_inv (s\<lparr>calls := c\<rparr>)" by (rule obj_inv_cong[of s]) (use b in \<open>simp_all add: ldr_base_def\<close>)
  moreover have "devext (s\<lparr>calls := c\<rparr>) = devext s" "imgs (s\<lparr>calls := c\<rparr>) = imgs s" by simp_all
  ultimately show ?thesis using b unfolding ldr_base_def by simp
qed

text \<open>Changes that leave names, load addresses, states and entry points of images alone.\<close>

lemma ldr_base_put_session:
  "ldr_base K s \<Longrightarrow> sessions s a = Some ss \<Longrightarrow> s_pUsage ss' = s_pUsage ss \<Longrightarrow> ldr_base K (put_session a ss' s)"
  unfolding ldr_base_def
  by (intro conjI; (elim conjE)?; (rule obj_inv_cong[of s])?) auto

lemma vmmr0_ok_frame [simp]:
  "vmmr0_ok (d\<lparr>d_pLdrImages := ps\<rparr>) h = vmmr0_ok d h"
  "vmmr0_ok (d\<lparr>d_pLdrInitImage := p\<rparr>) h = vmmr0_ok d h"
  "vmmr0_ok (d\<lparr>d_hLdrInitThread := t\<rparr>) h = vmmr0_ok d h"
  by (simp_all add: vmmr0_ok_def)

lemma vmmr0_ok_upd:
  assumes "vmmr0_ok d h"
    and "\<And>im. h p = Some im \<Longrightarrow> i_uState im = SUP_IOCTL_LDR_LOAD \<Longrightarrow> i_uState im' = SUP_IOCTL_LDR_LOAD \<and>
           i_pvImage im' = i_pvImage im \<and> i_cbImageBits im' = i_cbImageBits im"
  shows "vmmr0_ok d (h(p \<mapsto> im'))"
proof (cases "d_pvVMMR0 d = 0")
  case True
  then show ?thesis using assms by (auto simp: vmmr0_ok_def)
next
  case False
  with assms(1) obtain q im where q: "h q = Some im" "i_uState im = SUP_IOCTL_LDR_LOAD" "i_pvImage im = d_pvVMMR0 d"
    "\<forall>pv \<in> {d_pfnVMMR0EntryInt d, d_pfnVMMR0EntryFast d, d_pfnVMMR0EntryEx d}.
       in_range pv (i_pvImage im) (i_cbImageBits im)" by (auto simp: vmmr0_ok_def)
  with assms(2)[of im] False show ?thesis
    by (cases "q = p") (auto simp: vmmr0_ok_def intro!: exI[of _ q])
qed

lemma ldr_base_put_img:
  assumes "ldr_base K s" "imgs s p = Some im" "img_ok im'" "i_szName im' = i_szName im"
    and d: "\<And>h. vmmr0_ok (devext s) h \<Longrightarrow> h = imgs s \<Longrightarrow> VMMR0_At_Base \<in> K \<Longrightarrow> vmmr0_ok (f (devext s)) (h(p \<mapsto> im'))"
      "d_pObjs (f (devext s)) = d_pObjs (devext s)" "d_pLdrImages (f (devext s)) = d_pLdrImages (devext s)"
  shows "ldr_base K (put_img p im' (upd_devext f s))"
proof -
  have "obj_inv (put_img p im' (upd_devext f s))"
    by (rule obj_inv_cong[of s]) (use assms in \<open>auto simp: ldr_base_def\<close>)
  moreover have "vmmr0_ok (f (devext s)) ((imgs s)(p \<mapsto> im'))" if K: "VMMR0_At_Base \<in> K"
    by (rule d(1)[OF ldr_base_vmmr0[OF assms(1) K] refl K])
  ultimately show ?thesis using assms
    unfolding ldr_base_def put_simps upd_devext_simps d
    by (auto split: if_splits)
qed

lemma ldr_base_put_count:
  assumes "ldr_base K s" "imgs s p = Some im"
  shows "ldr_base K (put_img p (im\<lparr>i_cUsage := c\<rparr>) s)"
proof -
  have "img_ok (im\<lparr>i_cUsage := c\<rparr>)" using assms by (auto simp: ldr_base_def img_ok_def ep_ok_def)
  then have "ldr_base K (put_img p (im\<lparr>i_cUsage := c\<rparr>) (upd_devext id s))"
    by (rule ldr_base_put_img[OF assms]) (use assms(2) in \<open>auto intro: vmmr0_ok_upd\<close>)
  then show ?thesis by (simp add: upd_devext_def)
qed

section \<open>Every loader operation keeps the invariant\<close>

lemma img_put_session_acct:
  "sessions s a = Some ss \<Longrightarrow>
   img_acct (put_session a (ss\<lparr>s_pLdrUsage := us\<rparr>) s) = (fst (img_acct s), (snd (img_acct s))(a \<mapsto> us))"
  by simp

lemma LdrFree_ok:
  assumes inv: "ldr_inv K s" and ss: "sessions s a = Some ss"
  shows "\<exists>r s'. supdrvIOCtl_LdrFree a base s = Some (r, s') \<and> ldr_inv K s' \<and> objs s' = objs s \<and>
    (s' = s \<or> (\<exists>u im. u \<in> set (s_pLdrUsage ss) \<and> imgs s (u_ref u) = Some im \<and> i_pvImage im = base \<and>
       acct_release a (u_ref u) (img_acct s) = Some (img_acct s') \<and>
       (imgs s' (u_ref u) = None \<longrightarrow> (\<forall>q ob. objs s q = Some ob \<longrightarrow>
          \<not> in_range (o_pfnDestructor ob) (i_pvImage im) (i_cbImageBits im)) \<and>
          calls s' = calls s @ term_calls (u_ref u) im) \<and>
       (imgs s' (u_ref u) \<noteq> None \<longrightarrow> calls s' = calls s)))"
proof -
  from inv obtain e where e: "accounted e (img_acct s)" and base: "ldr_base K s" by (auto simp: ldr_inv_base)
  have live: "imgs s (u_ref u) \<noteq> None" if "u \<in> set (s_pLdrUsage ss)" for u
    using ldr_inv_usage[OF inv ss that] by auto
  from ldr_find_ok[of "s_pLdrUsage ss" "imgs s" base] live obtain hit where
    hit: "ldr_find (imgs s) base (s_pLdrUsage ss) = Some hit" and
    hu: "\<forall>u. hit = Some u \<longrightarrow> u \<in> set (s_pLdrUsage ss) \<and> usage_find (u_ref u) (s_pLdrUsage ss) = Some u \<and>
        (\<exists>im. imgs s (u_ref u) = Some im \<and> i_pvImage im = base)" by blast
  show ?thesis
  proof (cases hit)
    case None
    with hit ss inv show ?thesis by (simp add: supdrvIOCtl_LdrFree_def)
  next
    case (Some u)
    with hu obtain im where u: "u \<in> set (s_pLdrUsage ss)" "usage_find (u_ref u) (s_pLdrUsage ss) = Some u"
      "imgs s (u_ref u) = Some im" "i_pvImage im = base" by auto
    have cnt: "u_cUsage u \<le> i_cUsage im" "i_cUsage im \<noteq> 0"
      using ldr_inv_usage[OF inv ss u(1)] u(3) e by (auto simp: accounted_def)
    let ?p = "u_ref u" and ?us = "s_pLdrUsage ss"
    have dom: "set (d_pObjs (devext s)) \<subseteq> dom (objs s)" "set (map u_ref (s_pUsage ss)) \<subseteq> dom (objs s)"
      using ldr_inv_obj[OF inv] obj_inv_record[OF ldr_inv_obj[OF inv] ss] by (auto simp: obj_inv_def)
    have oset: "set (d_pObjs (devext s)) = dom (objs s)" using ldr_inv_obj[OF inv] by (simp add: obj_inv_def)
    define dang where "dang = (if i_cUsage im \<le> 1 then ldr_has_dtor (objs s) im (d_pObjs (devext s))
                        else ldr_has_dtor (objs s) im (map u_ref (s_pUsage ss)))"
    obtain fD where fD: "dang = Some fD"
      unfolding dang_def using ldr_has_dtor_ok[OF dom(1), of im] ldr_has_dtor_ok[OF dom(2), of im]
      by (cases "i_cUsage im \<le> 1") auto
    let ?s1 = "put_session a (ss\<lparr>s_pLdrUsage := usage_unlink ?p ?us\<rparr>) s"
    have base1: "ldr_base K ?s1" by (rule ldr_base_put_session[OF base ss]) simp
    show ?thesis
    proof (cases "i_cUsage im \<le> 1 \<or> u_cUsage u \<le> 1")
      case False
      let ?s2 = "put_session a (ss\<lparr>s_pLdrUsage := usage_dec ?p ?us\<rparr>) (put_img ?p (im\<lparr>i_cUsage := i_cUsage im - 1\<rparr>) s)"
      have r: "supdrvIOCtl_LdrFree a base s = Some (VINF_SUCCESS, ?s2)"
        using hit Some ss u False by (simp add: supdrvIOCtl_LdrFree_def)
      have "ldr_base K (put_img ?p (im\<lparr>i_cUsage := i_cUsage im - 1\<rparr>) s)" by (rule ldr_base_put_count[OF base u(3)])
      then have b: "ldr_base K ?s2" by (rule ldr_base_put_session) (use ss in simp_all)
      have ar: "acct_release a ?p (img_acct s) = Some (img_acct ?s2)"
        using u ss False by (simp add: acct_release_def not_le)
      with acct_release_accounted[OF ar e] b have "ldr_inv K ?s2" by (auto simp: ldr_inv_base simp del: img_acct_put_session img_acct_put_img)
      with r ar u show ?thesis by (intro exI[of _ VINF_SUCCESS] exI[of _ ?s2]) auto
    next
      case last: True
      then have u1: "\<not> 1 < u_cUsage u" using cnt(1) by auto
      show ?thesis
      proof (cases fD)
        case True
        with hit Some ss u last fD inv show ?thesis by (simp add: supdrvIOCtl_LdrFree_def dang_def)
      next
        case nd: False
        show ?thesis
        proof (cases "i_cUsage im \<le> 1")
          case True
          have im1: "imgs ?s1 ?p = Some im" using u(3) by simp
          from supdrvLdrFree_eq[OF base1 im1] obtain s2 where f: "supdrvLdrFree ?p ?s1 = Some s2" by blast
          note fb = ldr_base_free[OF base1 im1 f]
          have r: "supdrvIOCtl_LdrFree a base s = Some (VINF_SUCCESS, s2)"
            using hit Some ss u True fD nd f by (simp add: supdrvIOCtl_LdrFree_def dang_def)
          have "img_acct s2 = ((fst (img_acct s))(?p := None), (snd (img_acct s))(a \<mapsto> usage_unlink ?p ?us))"
            using fb by (auto simp: img_acct_def)
          then have ar: "acct_release a ?p (img_acct s) = Some (img_acct s2)"
            using u ss u1 True by (auto simp: acct_release_def not_less)
          from acct_release_accounted[OF ar e] fb have "ldr_inv K s2" by (auto simp: ldr_inv_base)
          moreover have nodtor: "\<not> in_range (o_pfnDestructor ob) (i_pvImage im) (i_cbImageBits im)" if "objs s q = Some ob" for q ob
            using fD nd True ldr_has_dtor_ok[OF dom(1), of im] that oset by (auto simp: dang_def)
          moreover have "objs s2 = objs s"
          proof (rule ext)
            fix q show "objs s2 q = objs s q"
              using fb nodtor[of q] by (cases "objs s q") (auto simp: objs_cleared_def clear_dtor_def)
          qed
          ultimately show ?thesis using r ar u fb by (intro exI[of _ VINF_SUCCESS] exI[of _ s2]) auto
        next
          case False
          let ?s2 = "put_img ?p (im\<lparr>i_cUsage := i_cUsage im - 1\<rparr>) ?s1"
          have r: "supdrvIOCtl_LdrFree a base s = Some (VINF_SUCCESS, ?s2)"
            using hit Some ss u last False fD nd by (simp add: supdrvIOCtl_LdrFree_def dang_def)
          have b: "ldr_base K ?s2" by (rule ldr_base_put_count[OF base1]) (use u in simp)
          have ar: "acct_release a ?p (img_acct s) = Some (img_acct ?s2)"
            using u ss u1 False by (auto simp: acct_release_def not_le)
          with acct_release_accounted[OF ar e] b have "ldr_inv K ?s2" by (auto simp: ldr_inv_base simp del: img_acct_put_session img_acct_put_img)
          with r ar u show ?thesis by (intro exI[of _ VINF_SUCCESS] exI[of _ ?s2]) auto
        qed
      qed
    qed
  qed
qed

text \<open>What a usage record costs: nothing on failure, a record for the session on success.\<close>

lemma supdrvLdrAddUsage_ok:
  assumes "sessions s a = Some ss"
  shows "\<exists>rc s'. supdrvLdrAddUsage a p al s = Some (rc, s') \<and>
    (s' = s \<and> RT_FAILURE rc \<and> \<not> al \<or>
     rc = VINF_SUCCESS \<and> s' = put_session a (ss\<lparr>s_pLdrUsage := usage_retain p (s_pLdrUsage ss)\<rparr>) s)"
  using assms by (auto simp: supdrvLdrAddUsage_def usage_retain_def split: option.split)

definition ldrOpenOk :: "addr \<Rightarrow> u8 list \<Rightarrow> u32 \<Rightarrow> u32 \<Rightarrow> ldrenv \<Rightarrow> supdrv \<Rightarrow> bool" where
  "ldrOpenOk a name cbTabs cbBits env s \<longleftrightarrow> sessions s a \<noteq> None \<and> cbBits < cbTabs \<and>
     (le_pNew env = 0 \<or> imgs s (le_pNew env) = None) \<and>
     (le_pvExec env = 0 \<or> (le_pvExec env + 31) AND NOT 31 \<noteq> 0) \<and> (\<forall>p \<in> dom (imgs s). fst (img_acct s) p \<noteq> Some (- 1))"

lemma LdrOpen_ok:
  assumes inv: "ldr_inv K s" and ok: "ldrOpenOk a name cbTabs cbBits env s"
  shows "\<exists>r s'. supdrvIOCtl_LdrOpen a name cbTabs cbBits env s = Some (r, s') \<and> ldr_inv K s'"
proof -
  from ok obtain ss where ss: "sessions s a = Some ss" by (auto simp: ldrOpenOk_def)
  from inv obtain e where e: "accounted e (img_acct s)" and base: "ldr_base K s" by (auto simp: ldr_inv_base)
  have "\<exists>r. ldr_by_name (imgs s) name (d_pLdrImages (devext s)) = Some r \<and>
     (case r of None \<Rightarrow> \<forall>p \<in> set (d_pLdrImages (devext s)). \<forall>im. imgs s p = Some im \<longrightarrow> i_szName im \<noteq> name
      | Some p \<Rightarrow> p \<in> set (d_pLdrImages (devext s)) \<and> (\<exists>im. imgs s p = Some im \<and> i_szName im = name))"
    by (rule ldr_by_name_ok) (use ldr_inv_list[OF inv] in auto)
  then obtain hit where hit: "ldr_by_name (imgs s) name (d_pLdrImages (devext s)) = Some hit"
    and h: "case hit of None \<Rightarrow> \<forall>p im. imgs s p = Some im \<longrightarrow> i_szName im \<noteq> name
      | Some p \<Rightarrow> \<exists>im. imgs s p = Some im"
    using ldr_inv_list[OF inv] by (fastforce split: option.splits)
  show ?thesis
  proof (cases hit)
    case (Some p)
    with h obtain im where im: "imgs s p = Some im" by auto
    have nm: "i_cUsage im \<noteq> - 1" using ok im by (auto simp: ldrOpenOk_def)
    let ?s1 = "put_img p (im\<lparr>i_cUsage := i_cUsage im + 1\<rparr>) s"
    have base1: "ldr_base K ?s1" by (rule ldr_base_put_count[OF base im])
    obtain rc s' where r: "supdrvLdrAddUsage a p (le_fUsage env) ?s1 = Some (rc, s')"
      and s': "s' = ?s1 \<or> s' = put_session a (ss\<lparr>s_pLdrUsage := usage_retain p (s_pLdrUsage ss)\<rparr>) ?s1"
      using supdrvLdrAddUsage_ok[of ?s1 a ss p "le_fUsage env"] ss by auto
    from s' have "ldr_inv K s'"
    proof
      assume t: "s' = ?s1"
      have "accounted (e(p := Suc (e p))) (img_acct ?s1)"
        using accounted_leak[OF e, of p "i_cUsage im"] im nm by simp
      with base1 t show ?thesis by (auto simp: ldr_inv_base)
    next
      assume t: "s' = put_session a (ss\<lparr>s_pLdrUsage := usage_retain p (s_pLdrUsage ss)\<rparr>) ?s1"
      have "acct_retain a p (img_acct s) = Some (img_acct s')"
        using im ss t by (simp add: acct_retain_def)
      from acct_retain_accounted[OF this e] im nm have "accounted e (img_acct s')" by simp
      moreover have "ldr_base K s'" unfolding t by (rule ldr_base_put_session[OF base1]) (use ss in simp_all)
      ultimately show ?thesis by (auto simp: ldr_inv_base)
    qed
    with hit Some im r show ?thesis by (simp add: supdrvIOCtl_LdrOpen_def Let_def)
  next
    case None
    show ?thesis
    proof (cases "le_pNew env = 0 \<or> le_pvExec env = 0")
      case True
      with hit None inv show ?thesis by (auto simp: supdrvIOCtl_LdrOpen_def)
    next
      case False
      let ?p = "le_pNew env" and ?im = "ldr_image_new (le_pvExec env) name cbTabs cbBits"
      have fr: "imgs s ?p = None" using ok False by (auto simp: ldrOpenOk_def)
      let ?s1 = "upd_devext (\<lambda>d. d\<lparr>d_pLdrImages := ?p # d_pLdrImages d\<rparr>) (put_img ?p ?im s)"
      have imok: "img_ok ?im" using ok False by (auto simp: ldr_image_new_def img_ok_def ep_ok_def ldrOpenOk_def)
      have nmim: "i_szName ?im = name" "i_cUsage ?im = 1" by (simp_all add: ldr_image_new_def)
      have "obj_inv ?s1" by (rule obj_inv_cong[of s]) (use ldr_inv_obj[OF inv] in auto)
      moreover have "vmmr0_ok (devext ?s1) (imgs ?s1)" if K: "VMMR0_At_Base \<in> K"
        using vmmr0_ok_upd[OF ldr_base_vmmr0[OF base K], of ?p ?im] fr by simp
      ultimately have base1: "ldr_base K ?s1"
        using base fr h None imok nmim unfolding ldr_base_def by (auto split: if_splits)
      obtain rc s' where r: "supdrvLdrAddUsage a ?p (le_fUsage env) ?s1 = Some (rc, s')"
        and s': "s' = ?s1 \<or> s' = put_session a (ss\<lparr>s_pLdrUsage := usage_retain ?p (s_pLdrUsage ss)\<rparr>) ?s1"
        using supdrvLdrAddUsage_ok[of ?s1 a ss ?p "le_fUsage env"] ss by auto
      have "ldr_base K s' \<and> (\<exists>e. accounted e (img_acct s'))"
        using s'
      proof
        assume t: "s' = ?s1"
        show ?thesis unfolding t
          using base1 accounted_new_leak[OF e, of ?p] fr nmim by auto
      next
        assume t: "s' = put_session a (ss\<lparr>s_pLdrUsage := usage_retain ?p (s_pLdrUsage ss)\<rparr>) ?s1"
        have "acct_create a ?p (img_acct s) = Some (img_acct s')"
          using fr ss t nmim usage_retain_new[OF e, of a "s_pLdrUsage ss" ?p] by (simp add: acct_create_def)
        from acct_create_accounted[OF this e] have "accounted e (img_acct s')" .
        moreover have "ldr_base K s'" unfolding t by (rule ldr_base_put_session[OF base1]) (use ss in simp_all)
        ultimately show ?thesis by blast
      qed
      then have "ldr_inv K s'" by (simp add: ldr_inv_base)
      moreover from hit None False r
      have "supdrvIOCtl_LdrOpen a name cbTabs cbBits env s = Some ((VINF_SUCCESS, i_pvImage ?im, True, i_fNative ?im), s')"
        by (simp add: supdrvIOCtl_LdrOpen_def Let_def)
      ultimately show ?thesis by blast
    qed
  qed
qed

text \<open>
  What the IOCtl dispatcher has checked of a load request: the tables lie in the bytes of the
  request.  Of callers that keep the promise, a VMMR0 handle is the load address of the image.
\<close>

definition ldrLoadOk :: "promise set \<Rightarrow> SUPLDRLOAD \<Rightarrow> bool" where
  "ldrLoadOk K req \<longleftrightarrow> length (ll_abImage req) = unat (ll_cbImageWithTabs req) \<and>
     (ll_cSymbols req \<noteq> 0 \<longrightarrow> unat (ll_offSymbols req) + unat (ll_cSymbols req) * 8 \<le> unat (ll_cbImageWithTabs req)) \<and>
     (ll_cbStrTab req \<noteq> 0 \<longrightarrow> unat (ll_offStrTab req) + unat (ll_cbStrTab req) \<le> unat (ll_cbImageWithTabs req)) \<and>
     (VMMR0_At_Base \<in> K \<longrightarrow> (case ll_EP req of EP_VMMR0 pv _ _ _ \<Rightarrow> pv = ll_pvImageBase req | _ \<Rightarrow> True))"

lemma ldrLoad_tables_ok:
  assumes "ldrLoadOk K req"
  shows "\<exists>rc tab syms. ldrLoad_tables im req env = Some (rc, im\<lparr>i_pachStrTab := tab, i_paSymbols := syms\<rparr>) \<and>
    (RT_SUCCESS rc \<longrightarrow> (ll_cbStrTab req \<noteq> 0 \<longrightarrow> bytes_at (ll_abImage req) (unat (ll_offStrTab req)) (unat (ll_cbStrTab req)) = Some tab) \<and>
       (ll_cSymbols req \<noteq> 0 \<longrightarrow> syms = syms_of_bytes (unat (ll_cSymbols req))
           (take (unat (ll_cSymbols req) * 8) (drop (unat (ll_offSymbols req)) (ll_abImage req)))))"
proof -
  have e: "im\<lparr>i_pachStrTab := t\<rparr> = im\<lparr>i_pachStrTab := t, i_paSymbols := i_paSymbols im\<rparr>"
    "im\<lparr>i_paSymbols := y\<rparr> = im\<lparr>i_pachStrTab := i_pachStrTab im, i_paSymbols := y\<rparr>"
    "im = im\<lparr>i_pachStrTab := i_pachStrTab im, i_paSymbols := i_paSymbols im\<rparr>" for t y by simp_all
  show ?thesis
  proof (cases "ll_cbStrTab req = 0")
    case True
    with assms show ?thesis
      by (auto simp: ldrLoad_tables_def ldrLoadOk_def bytes_at_def Let_def) (metis e)+
  next
    case False
    with assms show ?thesis
      by (auto simp: ldrLoad_tables_def ldrLoadOk_def bytes_at_def Let_def) (metis e)+
  qed
qed

lemma supdrvLdrValidatePointer_ok:
  "RT_SUCCESS (supdrvLdrValidatePointer im pv b) \<Longrightarrow> ep_ok im pv"
  "RT_SUCCESS (supdrvLdrValidatePointer im pv False) \<Longrightarrow> in_range pv (i_pvImage im) (i_cbImageBits im)"
  by (auto simp: supdrvLdrValidatePointer_def ep_ok_def split: if_splits)

lemma ldr_validate_all_ok:
  "RT_SUCCESS (ldr_validate_all im pvs) \<Longrightarrow> \<forall>pv \<in> set pvs. in_range pv (i_pvImage im) (i_cbImageBits im)"
  by (induction pvs) (auto simp: Let_def not_less split: if_splits dest: supdrvLdrValidatePointer_ok(2))

lemma ldrLoad_validate_ok:
  assumes "RT_SUCCESS (ldrLoad_validate im req)"
  shows "ep_ok im (ll_pfnModuleInit req)" "ep_ok im (ll_pfnModuleTerm req)"
    "case ll_EP req of EP_VMMR0 pv i f x \<Rightarrow> \<forall>v \<in> {pv, i, f, x}. in_range v (i_pvImage im) (i_cbImageBits im)
     | EP_SERVICE pfn _ \<Rightarrow> in_range pfn (i_pvImage im) (i_cbImageBits im) | EP_NOTHING \<Rightarrow> True | EP_OTHER \<Rightarrow> False"
proof -
  show "ep_ok im (ll_pfnModuleInit req)" "ep_ok im (ll_pfnModuleTerm req)"
    using assms by (auto simp: ldrLoad_validate_def Let_def not_less split: if_splits intro: supdrvLdrValidatePointer_ok(1))
  have "RT_SUCCESS (ldrLoad_validateEP im (ll_EP req))"
    using assms by (auto simp: ldrLoad_validate_def Let_def not_less split: if_splits)
  then show "case ll_EP req of EP_VMMR0 pv i f x \<Rightarrow> \<forall>v \<in> {pv, i, f, x}. in_range v (i_pvImage im) (i_cbImageBits im)
     | EP_SERVICE pfn _ \<Rightarrow> in_range pfn (i_pvImage im) (i_cbImageBits im) | EP_NOTHING \<Rightarrow> True | EP_OTHER \<Rightarrow> False"
    by (auto simp del: ldr_validate_all.simps simp: ldrLoad_validateEP_def not_less Let_def split: SUPLDRLOADEP.splits if_splits
        dest!: ldr_validate_all_ok)
qed

text \<open>
  The effect of a load request on the driver: nothing, or the image is replaced by one with the
  same name, address, sizes and counter, and the entry points of the driver may change.
\<close>

lemma LdrLoad_entry_points_ok:
  assumes base: "ldr_base K s" and im: "imgs s p = Some im" and st: "i_uState im = SUP_IOCTL_LDR_OPEN"
    and val: "RT_SUCCESS (ldrLoad_validate im req)" and ok: "ldrLoadOk K req" and b: "i_pvImage im = ll_pvImageBase req"
    and im2: "im2 = im\<lparr>i_pachStrTab := tab, i_paSymbols := syms, i_uState := SUP_IOCTL_LDR_LOAD,
        i_pfnModuleInit := ll_pfnModuleInit req, i_pfnModuleTerm := ll_pfnModuleTerm req, i_abBits := bits\<rparr>"
    and bits: "length bits = unat (i_cbImageBits im)"
    and r: "ldrLoad_entry_points im2 req s = (rc, im3, s3)"
  shows "ldr_base K (put_img p im3 s3) \<and> (\<exists>f. s3 = upd_devext f s \<and> d_pLdrImages (f (devext s)) = d_pLdrImages (devext s) \<and>
      d_pObjs (f (devext s)) = d_pObjs (devext s)) \<and> (RT_FAILURE rc \<longrightarrow> s3 = s) \<and>
    (\<exists>pfn. im3 = im2\<lparr>i_pfnServiceReqHandler := pfn\<rparr> \<and> ep_ok im pfn)"
proof -
  note v = ldrLoad_validate_ok[OF val]
  have imok: "img_ok im" using base im by (simp add: ldr_base_def)
  obtain pfn where im3: "im3 = im2\<lparr>i_pfnServiceReqHandler := pfn\<rparr>" and pfn: "ep_ok im pfn"
  proof (cases "ll_EP req")
    case (EP_SERVICE pfn res)
    with r v(3) show ?thesis by (intro that[of pfn]) (auto simp: ldrLoad_entry_points_def ep_ok_def)
  next
    case EP_NOTHING
    then show ?thesis using r imok im2
      by (intro that[of "i_pfnServiceReqHandler im"]) (auto simp: ldrLoad_entry_points_def img_ok_def)
  next
    case EP_VMMR0
    then show ?thesis using r imok im2
      by (intro that[of "i_pfnServiceReqHandler im"]) (auto simp: ldrLoad_entry_points_def img_ok_def split: prod.splits)
  next
    case EP_OTHER
    then show ?thesis using r imok im2
      by (intro that[of "i_pfnServiceReqHandler im"]) (auto simp: ldrLoad_entry_points_def img_ok_def)
  qed
  have im3ok: "img_ok im3"
    using imok v(1,2) bits pfn unfolding im3 im2 by (simp add: img_ok_def ep_ok_def)
  have s3: "\<exists>f. s3 = upd_devext f s \<and> d_pLdrImages (f (devext s)) = d_pLdrImages (devext s) \<and>
      d_pObjs (f (devext s)) = d_pObjs (devext s) \<and> (RT_FAILURE rc \<longrightarrow> s3 = s) \<and>
      (VMMR0_At_Base \<in> K \<longrightarrow> vmmr0_ok (devext s) (imgs s) \<longrightarrow> vmmr0_ok (f (devext s)) ((imgs s)(p \<mapsto> im3)))"
  proof (cases "s3 = s")
    case True
    have "vmmr0_ok (devext s) (imgs s) \<longrightarrow> vmmr0_ok (devext s) ((imgs s)(p \<mapsto> im3))"
      using im st by (auto intro!: vmmr0_ok_upd)
    with True show ?thesis by (intro exI[of _ id]) (simp add: upd_devext_def)
  next
    case False
    then obtain pv i f x where ep: "ll_EP req = EP_VMMR0 pv i f x" and rc: "rc = VINF_SUCCESS"
      and s3: "s3 = upd_devext (\<lambda>d. d\<lparr>d_pvVMMR0 := pv, d_pfnVMMR0EntryInt := i,
              d_pfnVMMR0EntryFast := f, d_pfnVMMR0EntryEx := x\<rparr>) s"
      using r by (auto simp: ldrLoad_entry_points_def supdrvLdrSetVMMR0EPs_def Let_def upd_devext_def
          split: SUPLDRLOADEP.splits if_splits prod.splits)
    have "vmmr0_ok ((devext s)\<lparr>d_pvVMMR0 := pv, d_pfnVMMR0EntryInt := i,
              d_pfnVMMR0EntryFast := f, d_pfnVMMR0EntryEx := x\<rparr>) ((imgs s)(p \<mapsto> im3))" if "VMMR0_At_Base \<in> K"
    proof -
      have "pv = i_pvImage im" using ok ep b that by (simp add: ldrLoadOk_def)
      with v(3) ep imok show ?thesis unfolding im3 im2 by (auto simp: vmmr0_ok_def img_ok_def intro!: exI[of _ p])
    qed
    with rc show ?thesis
      unfolding s3 by (intro exI[of _ "\<lambda>d. d\<lparr>d_pvVMMR0 := pv, d_pfnVMMR0EntryInt := i,
              d_pfnVMMR0EntryFast := f, d_pfnVMMR0EntryEx := x\<rparr>"]) simp
  qed
  then obtain f where f: "s3 = upd_devext f s" "d_pLdrImages (f (devext s)) = d_pLdrImages (devext s)"
      "d_pObjs (f (devext s)) = d_pObjs (devext s)" "RT_FAILURE rc \<longrightarrow> s3 = s"
      "VMMR0_At_Base \<in> K \<longrightarrow> vmmr0_ok (devext s) (imgs s) \<longrightarrow> vmmr0_ok (f (devext s)) ((imgs s)(p \<mapsto> im3))" by blast
  have "ldr_base K (put_img p im3 (upd_devext f s))"
    by (rule ldr_base_put_img[OF base im im3ok]) (use f in \<open>auto simp: im3 im2\<close>)
  with f im3 pfn show ?thesis by blast
qed

lemma img_ok_unload: "img_ok im \<Longrightarrow> img_ok (ldr_image_unload im)"
  by (simp add: img_ok_def ldr_image_unload_def ep_ok_def)

lemma vmmr0_ok_other:
  assumes "vmmr0_ok d h" "h p = Some im" "d_pvVMMR0 d = 0 \<or> d_pvVMMR0 d \<noteq> i_pvImage im"
  shows "vmmr0_ok d (h(p \<mapsto> im'))"
proof (cases "d_pvVMMR0 d = 0")
  case True
  then show ?thesis using assms by (auto simp: vmmr0_ok_def)
next
  case False
  with assms(1) obtain q im2 where q: "h q = Some im2" "i_uState im2 = SUP_IOCTL_LDR_LOAD" "i_pvImage im2 = d_pvVMMR0 d"
    "\<forall>pv \<in> {d_pfnVMMR0EntryInt d, d_pfnVMMR0EntryFast d, d_pfnVMMR0EntryEx d}.
       in_range pv (i_pvImage im2) (i_cbImageBits im2)" by (auto simp: vmmr0_ok_def)
  with assms(2,3) False have "q \<noteq> p" by auto
  with q False show ?thesis by (auto simp: vmmr0_ok_def intro!: exI[of _ q])
qed

lemma ldrLoad_finish_ok:
  assumes base: "ldr_base K (put_img p im3 s3)"
    and fin: "ldrLoad_finish p im3 rc3 env s3 = (rc5, s5)"
    and rc3: "RT_FAILURE rc3 \<Longrightarrow> ldr_base K s3 \<and> (\<exists>im. imgs s3 p = Some im \<and> i_uState im = SUP_IOCTL_LDR_OPEN)"
  shows "ldr_base K s5 \<and> objs s5 = objs s3 \<and> sessions s5 = sessions s3 \<and> memobjs s5 = memobjs s3 \<and>
    factories s5 = factories s3 \<and>
    imgs s5 = (imgs s3)(p \<mapsto> (if RT_FAILURE rc5 then ldr_image_unload im3 else im3)) \<and>
    calls s5 = calls s3 @ (if RT_SUCCESS rc3 \<and> i_pfnModuleInit im3 \<noteq> 0 then [Call_ModuleInit (i_pfnModuleInit im3) p] else [])"
proof -
  let ?s4 = "put_img p im3 s3"
  let ?d = "\<lambda>d. d\<lparr>d_pLdrInitImage := 0, d_hLdrInitThread := NIL_RTNATIVETHREAD\<rparr>"
  have im3: "imgs ?s4 p = Some im3" by simp
  have ok3: "img_ok im3" by (rule ldr_base_img[OF base im3])
  note ok0 = img_ok_unload[OF ok3]
  have nm: "i_szName (ldr_image_unload im3) = i_szName im3" by (simp add: ldr_image_unload_def)
  show ?thesis
  proof (cases "RT_SUCCESS rc3 \<and> i_pfnModuleInit im3 \<noteq> 0")
    case False
    have "ldr_base K (put_img p (ldr_image_unload im3) (upd_devext id ?s4))" if f: "RT_FAILURE rc3"
    proof (rule ldr_base_put_img[OF base im3 ok0 nm])
      fix h assume h: "vmmr0_ok (devext ?s4) h" "h = imgs ?s4" and K: "VMMR0_At_Base \<in> K"
      from rc3[OF f] obtain im where o: "vmmr0_ok (devext s3) (imgs s3)" "imgs s3 p = Some im" "i_uState im = SUP_IOCTL_LDR_OPEN"
        using K by (auto dest: ldr_base_vmmr0)
      have "vmmr0_ok (devext s3) ((imgs s3)(p \<mapsto> ldr_image_unload im3))"
        by (rule vmmr0_ok_upd[OF o(1)]) (use o in auto)
      with h show "vmmr0_ok (id (devext ?s4)) (h(p \<mapsto> ldr_image_unload im3))" by simp
    qed auto
    then show ?thesis using False fin base
      by (auto simp: ldrLoad_finish_def Let_def upd_devext_def put_img_def)
  next
    case True
    let ?f = "\<lambda>d. if RT_FAILURE (le_rcInit env) \<and> d_pvVMMR0 d = i_pvImage im3
       then (?d d)\<lparr>d_pvVMMR0 := 0, d_pfnVMMR0EntryInt := 0, d_pfnVMMR0EntryFast := 0, d_pfnVMMR0EntryEx := 0\<rparr> else ?d d"
    let ?im = "if RT_FAILURE (le_rcInit env) then ldr_image_unload im3 else im3"
    have b5: "ldr_base K (put_img p ?im (upd_devext ?f ?s4))"
    proof (rule ldr_base_put_img[OF base im3])
      show "img_ok ?im" using ok0 ok3 by simp
      show "i_szName ?im = i_szName im3" using nm by simp
      fix h assume h: "vmmr0_ok (devext ?s4) h" "h = imgs ?s4"
      show "vmmr0_ok (?f (devext ?s4)) (h(p \<mapsto> ?im))"
      proof (cases "RT_FAILURE (le_rcInit env)")
        case True
        show ?thesis
        proof (cases "d_pvVMMR0 (devext s3) = i_pvImage im3")
          case True
          then show ?thesis using \<open>RT_FAILURE (le_rcInit env)\<close> by (simp add: vmmr0_ok_def)
        next
          case False
          have "vmmr0_ok (devext s3) (h(p \<mapsto> ?im))"
            by (rule vmmr0_ok_other[of _ _ _ im3]) (use h False in auto)
          with False show ?thesis by simp
        qed
      next
        case False
        with h show ?thesis by (simp add: fun_upd_idem)
      qed
    qed auto
    have s5: "rc5 = le_rcInit env" "s5 = (put_img p ?im (upd_devext ?f ?s4))\<lparr>calls := calls s3 @ [Call_ModuleInit (i_pfnModuleInit im3) p]\<rparr>"
      using fin True
      by (auto simp: ldrLoad_finish_def ldrLoad_init_def Let_def upd_devext_def put_img_def log_call_def supdrvLdrUnsetVMMR0EPs_def)
    have "ldr_base K s5" using b5 unfolding s5(2) by (rule ldr_base_calls)
    moreover have "imgs s5 = (imgs s3)(p \<mapsto> (if RT_FAILURE rc5 then ldr_image_unload im3 else im3))"
      "objs s5 = objs s3" "sessions s5 = sessions s3" "memobjs s5 = memobjs s3" "factories s5 = factories s3"
      "calls s5 = calls s3 @ [Call_ModuleInit (i_pfnModuleInit im3) p]" by (simp_all add: s5)
    ultimately show ?thesis using True by simp
  qed
qed

lemma ldr_base_put_tables:
  assumes "ldr_base K s" "imgs s p = Some im"
  shows "ldr_base K (put_img p (im\<lparr>i_pachStrTab := tab, i_paSymbols := syms\<rparr>) s)"
proof -
  have "img_ok (im\<lparr>i_pachStrTab := tab, i_paSymbols := syms\<rparr>)"
    using ldr_base_img[OF assms] by (simp add: img_ok_def ep_ok_def)
  then have "ldr_base K (put_img p (im\<lparr>i_pachStrTab := tab, i_paSymbols := syms\<rparr>) (upd_devext id s))"
    by (rule ldr_base_put_img[OF assms]) (use assms(2) in \<open>auto intro: vmmr0_ok_upd\<close>)
  then show ?thesis by (simp add: upd_devext_def)
qed

text \<open>What a load that is accepted does, from the image on.\<close>

lemma LdrLoad_run:
  assumes base: "ldr_base K s" and im: "imgs s p = Some im" and st: "i_uState im = SUP_IOCTL_LDR_OPEN"
    and val: "RT_SUCCESS (ldrLoad_validate im req)" and ok: "ldrLoadOk K req"
    and eq: "i_pvImage im = ll_pvImageBase req" "i_cbImageWithTabs im = ll_cbImageWithTabs req"
      "i_cbImageBits im = ll_cbImageBits req"
    and t: "ldrLoad_tables im req env = Some (rc1, im1)"
    and r: "(if RT_SUCCESS rc1 then ldrLoad_bits im1 req else Some (rc1, im1)) = Some (rc2, im2)"
    and ep: "(if RT_SUCCESS rc2 then ldrLoad_entry_points im2 req s else (rc2, im2, s)) = (rc3, im3, s3)"
    and fin: "ldrLoad_finish p im3 rc3 env s3 = (rc5, s5)"
  shows "ldr_base K s5 \<and> objs s5 = objs s \<and> sessions s5 = sessions s \<and> memobjs s5 = memobjs s \<and> factories s5 = factories s \<and>
    (\<exists>im'. imgs s5 = (imgs s)(p \<mapsto> im') \<and> i_cUsage im' = i_cUsage im \<and>
       (if RT_SUCCESS rc5
        then i_uState im' = SUP_IOCTL_LDR_LOAD \<and> i_abBits im' = take (unat (ll_cbImageBits req)) (ll_abImage req)
        else i_uState im' = SUP_IOCTL_LDR_OPEN)) \<and>
    (calls s5 = calls s \<or> ll_pfnModuleInit req \<noteq> 0 \<and> calls s5 = calls s @ [Call_ModuleInit (ll_pfnModuleInit req) p])"
proof -
  have nn: "\<not> i_fNative im" "i_cbImageBits im \<le> i_cbImageWithTabs im" using ldr_base_img[OF base im] by (simp_all add: img_ok_def)
  obtain tab syms where im1: "im1 = im\<lparr>i_pachStrTab := tab, i_paSymbols := syms\<rparr>"
    using ldrLoad_tables_ok[OF ok, of im env] t by auto
  show ?thesis
  proof (cases "RT_SUCCESS rc1")
    case False
    with r ep have e: "rc3 = rc1" "im3 = im1" "s3 = s" by auto
    have "ldr_base K (put_img p im3 s3)" unfolding e im1 by (rule ldr_base_put_tables[OF base im])
    from ldrLoad_finish_ok[OF this fin] base im st e False fin show ?thesis
      by (auto simp: im1 ldr_image_unload_def ldrLoad_finish_def)
  next
    case True
    let ?bits = "take (unat (ll_cbImageBits req)) (ll_abImage req)"
    let ?im2 = "im\<lparr>i_pachStrTab := tab, i_paSymbols := syms, i_uState := SUP_IOCTL_LDR_LOAD,
        i_pfnModuleInit := ll_pfnModuleInit req, i_pfnModuleTerm := ll_pfnModuleTerm req, i_abBits := ?bits\<rparr>"
    have len: "length ?bits = unat (i_cbImageBits im)"
      using ok nn(2) eq by (simp add: ldrLoadOk_def word_le_nat_alt)
    have e2: "rc2 = VINF_SUCCESS" "im2 = ?im2"
      using r True nn ok eq by (auto simp: ldrLoad_bits_def im1 bytes_at_def ldrLoadOk_def word_le_nat_alt)
    have ep': "ldrLoad_entry_points ?im2 req s = (rc3, im3, s3)" using ep e2 by simp
    note E = LdrLoad_entry_points_ok[OF base im st val ok eq(1) refl len ep']
    then obtain f pfn where f: "ldr_base K (put_img p im3 s3)" "s3 = upd_devext f s" "RT_FAILURE rc3 \<longrightarrow> s3 = s"
      "im3 = ?im2\<lparr>i_pfnServiceReqHandler := pfn\<rparr>" by blast
    have "RT_FAILURE rc3 \<Longrightarrow> ldr_base K s3 \<and> (\<exists>im. imgs s3 p = Some im \<and> i_uState im = SUP_IOCTL_LDR_OPEN)"
      using f base im st by auto
    note F = ldrLoad_finish_ok[OF f(1) fin this]
    have "imgs s5 = (imgs s)(p \<mapsto> (if RT_FAILURE rc5 then ldr_image_unload im3 else im3))"
      "calls s5 = calls s @ (if RT_SUCCESS rc3 \<and> i_pfnModuleInit im3 \<noteq> 0 then [Call_ModuleInit (i_pfnModuleInit im3) p] else [])"
      using F f(2) by simp_all
    with F show ?thesis
      by (intro conjI exI[of _ "if RT_FAILURE rc5 then ldr_image_unload im3 else im3"])
         (auto simp: f(2,4) ldr_image_unload_def)
  qed
qed

text \<open>The session's records of live images, for the walk.\<close>

lemma ldr_find_inv:
  assumes inv: "ldr_inv K s" and ss: "sessions s a = Some ss"
  obtains (missing) "ldr_find (imgs s) base (s_pLdrUsage ss) = Some None"
  | (found) u im where "ldr_find (imgs s) base (s_pLdrUsage ss) = Some (Some u)" "u \<in> set (s_pLdrUsage ss)"
      "imgs s (u_ref u) = Some im" "i_pvImage im = base"
proof -
  have live: "imgs s (u_ref u) \<noteq> None" if "u \<in> set (s_pLdrUsage ss)" for u
    using ldr_inv_usage[OF inv ss that] by auto
  from ldr_find_ok[of "s_pLdrUsage ss" "imgs s" base] live obtain hit where
    "ldr_find (imgs s) base (s_pLdrUsage ss) = Some hit" and
    "\<forall>u. hit = Some u \<longrightarrow> u \<in> set (s_pLdrUsage ss) \<and> usage_find (u_ref u) (s_pLdrUsage ss) = Some u \<and>
        (\<exists>im. imgs s (u_ref u) = Some im \<and> i_pvImage im = base)" by blast
  then show ?thesis using that by (cases hit) auto
qed

text \<open>What a load request does to the driver, failures included.\<close>

definition ldr_load_effect :: "addr \<Rightarrow> SUPDRVLDRIMAGE \<Rightarrow> SUPLDRLOAD \<Rightarrow> rc \<Rightarrow> supdrv \<Rightarrow> supdrv \<Rightarrow> bool" where
  "ldr_load_effect p im req r s s' \<longleftrightarrow>
     objs s' = objs s \<and> sessions s' = sessions s \<and>
     (\<exists>im'. imgs s' = (imgs s)(p \<mapsto> im') \<and> i_cUsage im' = i_cUsage im \<and>
       (if RT_SUCCESS r
        then i_uState im' = SUP_IOCTL_LDR_LOAD \<and> i_abBits im' = take (unat (ll_cbImageBits req)) (ll_abImage req)
        else i_uState im' = SUP_IOCTL_LDR_OPEN)) \<and>
     (calls s' = calls s \<or> calls s' = calls s @ [Call_ModuleInit (ll_pfnModuleInit req) p] \<and>
        in_range (ll_pfnModuleInit req) (i_pvImage im) (i_cbImageBits im))"

lemma LdrLoad_ok:
  assumes inv: "ldr_inv K s" and ss: "sessions s a = Some ss" and ok: "ldrLoadOk K req"
  shows "\<exists>r s'. supdrvIOCtl_LdrLoad a req env s = Some (r, s') \<and> ldr_inv K s' \<and>
    (s' = s \<and> RT_FAILURE r \<or>
     (\<exists>u im. u \<in> set (s_pLdrUsage ss) \<and> imgs s (u_ref u) = Some im \<and> i_uState im = SUP_IOCTL_LDR_OPEN \<and>
        i_pvImage im = ll_pvImageBase req \<and> i_cbImageBits im = ll_cbImageBits req \<and>
        ldr_load_effect (u_ref u) im req r s s'))"
proof (cases rule: ldr_find_inv[OF inv ss, of "ll_pvImageBase req"])
  case 1
  with ss inv show ?thesis by (simp add: supdrvIOCtl_LdrLoad_def)
next
  case (2 u im)
  from inv obtain e where e: "accounted e (img_acct s)" and base: "ldr_base K s" by (auto simp: ldr_inv_base)
  show ?thesis
  proof (cases "i_cbImageWithTabs im \<noteq> ll_cbImageWithTabs req \<or> i_cbImageBits im \<noteq> ll_cbImageBits req \<or>
      i_uState im \<noteq> SUP_IOCTL_LDR_OPEN \<or> RT_FAILURE (ldrLoad_validate im req)")
    case True
    with 2 ss inv show ?thesis by (auto simp: supdrvIOCtl_LdrLoad_def)
  next
    case False
    then have c: "i_cbImageWithTabs im = ll_cbImageWithTabs req" "i_cbImageBits im = ll_cbImageBits req"
      "i_uState im = SUP_IOCTL_LDR_OPEN" "RT_SUCCESS (ldrLoad_validate im req)" by auto
    obtain rc1 im1 where t: "ldrLoad_tables im req env = Some (rc1, im1)"
      using ldrLoad_tables_ok[OF ok, of im env] by blast
    have nn: "\<not> i_fNative im1" "i_cbImageBits im1 \<le> ll_cbImageWithTabs req"
      using ldr_base_img[OF base 2(3)] ldrLoad_tables_ok[OF ok, of im env] t c by (auto simp: img_ok_def)
    obtain rc2 im2 where r: "(if RT_SUCCESS rc1 then ldrLoad_bits im1 req else Some (rc1, im1)) = Some (rc2, im2)"
      using nn ok by (cases "RT_SUCCESS rc1") (auto simp: ldrLoad_bits_def bytes_at_def ldrLoadOk_def word_le_nat_alt)
    obtain rc3 im3 s3 where ep: "(if RT_SUCCESS rc2 then ldrLoad_entry_points im2 req s else (rc2, im2, s)) = (rc3, im3, s3)"
      by (cases "if RT_SUCCESS rc2 then ldrLoad_entry_points im2 req s else (rc2, im2, s)")
    obtain rc5 s5 where fin: "ldrLoad_finish (u_ref u) im3 rc3 env s3 = (rc5, s5)" by fastforce
    have res: "supdrvIOCtl_LdrLoad a req env s = Some (rc5, s5)"
      using ss 2 c t r ep fin by (simp add: supdrvIOCtl_LdrLoad_def)
    note R = LdrLoad_run[OF base 2(3) c(3,4) ok 2(4) c(1,2) t r ep fin]
    then have "img_acct s5 = img_acct s" using 2(3) by (auto simp: img_acct_def fun_eq_iff)
    with e R have inv': "ldr_inv K s5" by (auto simp: ldr_inv_base)
    have "ll_pfnModuleInit req \<noteq> 0 \<Longrightarrow> in_range (ll_pfnModuleInit req) (i_pvImage im) (i_cbImageBits im)"
      using ldrLoad_validate_ok(1)[OF c(4)] by (simp add: ep_ok_def)
    with R have "ldr_load_effect (u_ref u) im req rc5 s s5" unfolding ldr_load_effect_def by blast
    with res inv' 2 c show ?thesis by blast
  qed
qed

lemma LdrGetSymbol_ok:
  assumes inv: "ldr_inv K s" and ss: "sessions s a = Some ss"
  shows "\<exists>r pv. supdrvIOCtl_LdrGetSymbol a base szSym s = Some (r, pv) \<and> (RT_SUCCESS r \<longrightarrow>
    (\<exists>u im sy. u \<in> set (s_pLdrUsage ss) \<and> imgs s (u_ref u) = Some im \<and> i_pvImage im = base \<and>
       i_uState im = SUP_IOCTL_LDR_LOAD \<and> ldr_sym (i_pachStrTab im) (szSym @ [0]) (i_paSymbols im) = Some sy \<and>
       pv = base + scast sy))"
proof (cases rule: ldr_find_inv[OF inv ss, of base])
  case 1
  with ss show ?thesis by (simp add: supdrvIOCtl_LdrGetSymbol_def)
next
  case (2 u im)
  with ss show ?thesis
    by (cases "i_uState im = SUP_IOCTL_LDR_LOAD") (auto simp: supdrvIOCtl_LdrGetSymbol_def split: option.split)
qed

lemma ldr_service_ok:
  "(\<And>u. u \<in> set us \<Longrightarrow> h (u_ref u) \<noteq> None) \<Longrightarrow>
   \<exists>pfn. ldr_service h name us = Some pfn \<and> (pfn \<noteq> 0 \<longrightarrow> (\<exists>u \<in> set us. \<exists>im. h (u_ref u) = Some im \<and>
      i_pfnServiceReqHandler im = pfn \<and> i_szName im = name))"
proof (induction us)
  case (Cons v us)
  from Cons.prems[of v] obtain im where im: "h (u_ref v) = Some im" by auto
  from Cons obtain pfn where "ldr_service h name us = Some pfn" "pfn \<noteq> 0 \<longrightarrow> (\<exists>u \<in> set us. \<exists>im. h (u_ref u) = Some im \<and>
      i_pfnServiceReqHandler im = pfn \<and> i_szName im = name)" by auto
  with im show ?case by (cases "i_pfnServiceReqHandler im \<noteq> 0 \<and> i_szName im = name") auto
qed simp

lemma ldr_inv_calls: "ldr_inv K s \<Longrightarrow> ldr_inv K (log_call c s)"
  using ldr_base_calls[of K s "calls s @ [c]"] by (auto simp: ldr_inv_base log_call_def img_acct_def)

lemma CallService_ok:
  assumes inv: "ldr_inv K s" and ss: "sessions s a = Some ss"
  shows "\<exists>r s'. supdrvIOCtl_CallServiceModule a name op arg env s = Some (r, s') \<and> ldr_inv K s' \<and>
    (s' = s \<or> (\<exists>u im pfn. u \<in> set (s_pLdrUsage ss) \<and> imgs s (u_ref u) = Some im \<and> i_szName im = name \<and>
       pfn = i_pfnServiceReqHandler im \<and> in_range pfn (i_pvImage im) (i_cbImageBits im) \<and>
       i_uState im = SUP_IOCTL_LDR_LOAD \<and> s' = log_call (Call_Service pfn a op arg) s))"
proof -
  have live: "imgs s (u_ref u) \<noteq> None" if "u \<in> set (s_pLdrUsage ss)" for u
    using ldr_inv_usage[OF inv ss that] by auto
  from ldr_service_ok[of "s_pLdrUsage ss" "imgs s" name] live obtain pfn where
    p: "ldr_service (imgs s) name (s_pLdrUsage ss) = Some pfn"
    "pfn \<noteq> 0 \<longrightarrow> (\<exists>u \<in> set (s_pLdrUsage ss). \<exists>im. imgs s (u_ref u) = Some im \<and>
      i_pfnServiceReqHandler im = pfn \<and> i_szName im = name)" by blast
  show ?thesis
  proof (cases "pfn = 0")
    case True
    with p ss inv show ?thesis by (simp add: supdrvIOCtl_CallServiceModule_def)
  next
    case False
    with p obtain u im where u: "u \<in> set (s_pLdrUsage ss)" "imgs s (u_ref u) = Some im"
      "i_pfnServiceReqHandler im = pfn" "i_szName im = name" by blast
    have "in_range pfn (i_pvImage im) (i_cbImageBits im) \<and> i_uState im = SUP_IOCTL_LDR_LOAD"
      using ldr_inv_img[OF inv u(2)] u(3) False by (cases "i_uState im") (auto simp: img_ok_def ep_ok_def)
    with p False ss u ldr_inv_calls[OF inv] show ?thesis
      by (simp add: supdrvIOCtl_CallServiceModule_def)
         (intro disjI2 exI[of _ u] conjI exI[of _ im]; simp)
  qed
qed

end
