(* ===== verification/SupLdrApi.thy ===== *)
theory SupLdrApi
  imports SupLdr
begin

text \<open>
  The loader as its clients see it: the image part of session cleanup, the API as a step
  function with its safety contract, images as a reference counted resource, and the
  properties of the loader.
\<close>

section \<open>Session cleanup\<close>

text \<open>No live object has its destructor in the image, except objects without one.\<close>

definition no_dtor_in :: "SUPDRVLDRIMAGE \<Rightarrow> supdrv \<Rightarrow> bool" where
  "no_dtor_in im s \<longleftrightarrow> (\<forall>q ob. objs s q = Some ob \<longrightarrow> o_pfnDestructor ob = 0 \<or>
     \<not> in_range (o_pfnDestructor ob) (i_pvImage im) (i_cbImageBits im))"

text \<open>What the image loop of the cleanup leaves: the account of the closing session is \<open>us\<close> still to go.\<close>

definition ldr_closing :: "promise set \<Rightarrow> (addr \<Rightarrow> nat) \<Rightarrow> addr \<Rightarrow> usage list \<Rightarrow> supdrv \<Rightarrow> bool" where
  "ldr_closing K e a us s \<longleftrightarrow> ldr_base K s \<and> accounted e (fst (img_acct s), (snd (img_acct s))(a \<mapsto> us))"

definition objs_shrunk :: "supdrv \<Rightarrow> supdrv \<Rightarrow> bool" where
  "objs_shrunk s s' \<longleftrightarrow> (\<forall>q. map_option (\<lambda>ob. ob\<lparr>o_pfnDestructor := 0\<rparr>) (objs s' q) =
       map_option (\<lambda>ob. ob\<lparr>o_pfnDestructor := 0\<rparr>) (objs s q)) \<and>
     (\<forall>q ob'. objs s' q = Some ob' \<longrightarrow> o_pfnDestructor ob' = 0 \<or> objs s q = Some ob')"

lemma objs_shrunk_refl [simp]: "objs s' = objs s \<Longrightarrow> objs_shrunk s s'"
  by (simp add: objs_shrunk_def)

lemma objs_shrunk_trans: "objs_shrunk s t \<Longrightarrow> objs_shrunk t u \<Longrightarrow> objs_shrunk s u"
  unfolding objs_shrunk_def by metis

lemma objs_shrunk_no_dtor: "objs_shrunk s t \<Longrightarrow> no_dtor_in im s \<Longrightarrow> no_dtor_in im t"
  unfolding objs_shrunk_def no_dtor_in_def by metis

lemma clear_dtor_cases:
  "(clear_dtor im ob)\<lparr>o_pfnDestructor := 0\<rparr> = ob\<lparr>o_pfnDestructor := 0\<rparr>"
  "o_pfnDestructor (clear_dtor im ob) = 0 \<or>
   clear_dtor im ob = ob \<and> \<not> in_range (o_pfnDestructor ob) (i_pvImage im) (i_cbImageBits im)"
  by (auto simp: clear_dtor_def)

lemma objs_shrunk_cleared: "objs s' = objs_cleared im s \<Longrightarrow> objs_shrunk s s' \<and> no_dtor_in im s'"
  by (auto simp: objs_shrunk_def no_dtor_in_def objs_cleared_def option.map_comp o_def clear_dtor_cases(1))
     (metis clear_dtor_cases(2))+

text \<open>A call of the termination function of a live image, which lies inside its bits.\<close>

definition term_call_of :: "(addr \<rightharpoonup> SUPDRVLDRIMAGE) \<Rightarrow> ext_call \<Rightarrow> bool" where
  "term_call_of h c \<longleftrightarrow> (\<exists>p im. h p = Some im \<and> c = Call_ModuleTerm (i_pfnModuleTerm im) p \<and>
     i_uState im = SUP_IOCTL_LDR_LOAD \<and> in_range (i_pfnModuleTerm im) (i_pvImage im) (i_cbImageBits im))"

lemma term_call_of_inside: "term_call_of h c \<Longrightarrow> \<exists>p im pfn. h p = Some im \<and>
    in_range pfn (i_pvImage im) (i_cbImageBits im) \<and> c = Call_ModuleTerm pfn p"
  by (auto simp: term_call_of_def)

lemma term_calls_of: "img_ok im \<Longrightarrow> h p = Some im \<Longrightarrow> \<forall>c \<in> set (term_calls p im). term_call_of h c"
  by (auto simp: term_calls_def term_call_of_def img_ok_def ep_ok_def)

lemma term_call_of_mono:
  assumes "\<And>p im. h' p = Some im \<Longrightarrow> \<exists>d. h p = Some (im\<lparr>i_cUsage := d\<rparr>)" "term_call_of h' c"
  shows "term_call_of h c"
proof -
  from assms(2) obtain p im where c: "h' p = Some im" "c = Call_ModuleTerm (i_pfnModuleTerm im) p"
     "i_uState im = SUP_IOCTL_LDR_LOAD" "in_range (i_pfnModuleTerm im) (i_pvImage im) (i_cbImageBits im)"
    by (auto simp: term_call_of_def)
  from assms(1)[OF c(1)] obtain d where "h p = Some (im\<lparr>i_cUsage := d\<rparr>)" by blast
  with c show ?thesis unfolding term_call_of_def by (intro exI[of _ p] exI[of _ "im\<lparr>i_cUsage := d\<rparr>"]) simp
qed

lemma cleanupImgs_ok:
  assumes "ldr_closing K e a us s"
  shows "\<exists>s'. cleanupImgs us s = Some s' \<and> ldr_closing K e a [] s' \<and> sessions s' = sessions s \<and> objs_shrunk s s' \<and>
    memobjs s' = memobjs s \<and> factories s' = factories s \<and>
    (\<forall>p im. imgs s p = Some im \<longrightarrow> imgs s' p = None \<longrightarrow> no_dtor_in im s') \<and>
    (\<forall>p im'. imgs s' p = Some im' \<longrightarrow> (\<exists>c. imgs s p = Some (im'\<lparr>i_cUsage := c\<rparr>))) \<and>
    (\<exists>cs. calls s' = calls s @ cs \<and> (\<forall>c \<in> set cs. term_call_of (imgs s) c))"
  using assms
proof (induction us arbitrary: s)
  case Nil
  have "\<exists>c. im = im\<lparr>i_cUsage := c\<rparr>" for im :: SUPDRVLDRIMAGE by (intro exI[of _ "i_cUsage im"]) simp
  with Nil show ?case by (auto simp: exI[of _ "[]"])
next
  case (Cons u us)
  let ?G = "(fst (img_acct s), (snd (img_acct s))(a \<mapsto> u # us))"
  from Cons.prems have base: "ldr_base K s" and e: "accounted e ?G" by (auto simp: ldr_closing_def)
  from accounted_record[OF e, of a "u # us" u] obtain im where im: "imgs s (u_ref u) = Some im"
    and le: "u_cUsage u \<le> i_cUsage im" and nz: "u_cUsage u \<noteq> 0" by auto
  have drop: "accounted e ((fst (img_acct s))(u_ref u := (if u_cUsage u < i_cUsage im then Some (i_cUsage im - u_cUsage u) else None)),
      (snd (img_acct s))(a \<mapsto> us))"
    by (rule acct_drop_accounted[OF _ e, of a]) (use im in \<open>simp add: acct_drop_def\<close>)
  obtain t where t: "(if u_cUsage u < i_cUsage im then Some (put_img (u_ref u) (im\<lparr>i_cUsage := i_cUsage im - u_cUsage u\<rparr>) s)
           else supdrvLdrFree (u_ref u) s) = Some t" and c: "ldr_closing K e a us t" "sessions t = sessions s" "objs_shrunk s t"
    "memobjs t = memobjs s" "factories t = factories s" "imgs t (u_ref u) = None \<longrightarrow> no_dtor_in im t"
    "\<And>p. p \<noteq> u_ref u \<Longrightarrow> imgs t p = imgs s p"
    "\<And>im'. imgs t (u_ref u) = Some im' \<Longrightarrow> \<exists>c. im = im'\<lparr>i_cUsage := c\<rparr>"
    "\<exists>cs. calls t = calls s @ cs \<and> (\<forall>c \<in> set cs. term_call_of (imgs s) c)"
  proof (cases "u_cUsage u < i_cUsage im")
    case True
    have "\<exists>c. im = im\<lparr>i_cUsage := d\<rparr>\<lparr>i_cUsage := c\<rparr>" for d by (intro exI[of _ "i_cUsage im"]) simp
    with True drop ldr_base_put_count[OF base im] show ?thesis
      by (intro that[of "put_img (u_ref u) (im\<lparr>i_cUsage := i_cUsage im - u_cUsage u\<rparr>) s"]) (auto simp: ldr_closing_def)
  next
    case False
    from supdrvLdrFree_eq[OF base im] obtain t where f: "supdrvLdrFree (u_ref u) s = Some t" by blast
    note fb = ldr_base_free[OF base im f]
    have "img_acct t = ((fst (img_acct s))(u_ref u := None), snd (img_acct s))"
      using fb by (auto simp: img_acct_def)
    with fb f False drop objs_shrunk_cleared[of t im s] term_calls_of[where h = "imgs s", OF ldr_base_img[OF base im] im] show ?thesis
      by (intro that[of t]) (auto simp: ldr_closing_def)
  qed
  from Cons.IH[OF c(1)] obtain s' where s': "cleanupImgs us t = Some s'" "ldr_closing K e a [] s'" "sessions s' = sessions t"
    "objs_shrunk t s'" "memobjs s' = memobjs t" "factories s' = factories t"
    "\<forall>p im. imgs t p = Some im \<longrightarrow> imgs s' p = None \<longrightarrow> no_dtor_in im s'"
    "\<forall>p im'. imgs s' p = Some im' \<longrightarrow> (\<exists>c. imgs t p = Some (im'\<lparr>i_cUsage := c\<rparr>))"
    "\<exists>cs. calls s' = calls t @ cs \<and> (\<forall>c \<in> set cs. term_call_of (imgs t) c)" by blast
  have nd_cnt: "no_dtor_in (im\<lparr>i_cUsage := c\<rparr>) x = no_dtor_in im x" for im c x by (simp add: no_dtor_in_def)
  have nd: "no_dtor_in i s'" if i: "imgs s p = Some i" and n: "imgs s' p = None" for p i
  proof (cases "p = u_ref u")
    case True
    with i im have [simp]: "i = im" by simp
    show ?thesis
    proof (cases "imgs t (u_ref u)")
      case None
      with c(6) s'(4) show ?thesis by (simp add: objs_shrunk_no_dtor)
    next
      case (Some im')
      with c(8) obtain d where d: "im = im'\<lparr>i_cUsage := d\<rparr>" by blast
      have "no_dtor_in im' s'" using s'(7) Some n True by blast
      then show ?thesis by (simp add: d nd_cnt)
    qed
  next
    case False
    have "imgs t p = Some i" using c(7)[OF False] i by simp
    with n s'(7) show ?thesis by blast
  qed
  have bk: "\<exists>d. imgs s p = Some (i'\<lparr>i_cUsage := d\<rparr>)" if "imgs t p = Some i'" for p i'
  proof (cases "p = u_ref u")
    case True
    with that im c(8) show ?thesis by auto
  next
    case False
    with that c(7)[OF False] show ?thesis by (intro exI[of _ "i_cUsage i'"]) simp
  qed
  have cl: "\<exists>cs. calls s' = calls s @ cs \<and> (\<forall>c \<in> set cs. term_call_of (imgs s) c)"
  proof -
    from c(9) s'(9) obtain cs cs' where "calls s' = calls s @ cs @ cs'" "\<forall>c \<in> set cs. term_call_of (imgs s) c"
      "\<forall>c \<in> set cs'. term_call_of (imgs t) c" by auto
    moreover have "\<And>c. term_call_of (imgs t) c \<Longrightarrow> term_call_of (imgs s) c"
      by (rule term_call_of_mono[OF bk])
    ultimately show ?thesis by (intro exI[of _ "cs @ cs'"]) auto
  qed
  have old: "\<exists>d. imgs s p = Some (i'\<lparr>i_cUsage := d\<rparr>)" if "imgs s' p = Some i'" for p i'
    using that s'(8) bk by fastforce
  show ?case
    using im t s' c nd old cl objs_shrunk_trans[OF c(3) s'(4)] by (intro exI[of _ s'] conjI) auto
qed

lemma cleanup_ldr_ok:
  assumes inv: "ldr_inv K s" and ss: "sessions s a = Some ss"
  shows "\<exists>s'. supdrvCleanupSession_ldr a s = Some s' \<and> ldr_inv K s' \<and>
    sessions s' = (sessions s)(a \<mapsto> ss\<lparr>s_pLdrUsage := []\<rparr>) \<and> objs_shrunk s s' \<and> memobjs s' = memobjs s \<and> factories s' = factories s \<and>
    (\<forall>p im. imgs s p = Some im \<longrightarrow> imgs s' p = None \<longrightarrow> no_dtor_in im s') \<and>
    (\<forall>p im'. imgs s' p = Some im' \<longrightarrow> (\<exists>c. imgs s p = Some (im'\<lparr>i_cUsage := c\<rparr>))) \<and>
    (\<exists>cs. calls s' = calls s @ cs \<and> (\<forall>c \<in> set cs. term_call_of (imgs s) c))"
proof -
  from inv obtain e where e: "accounted e (img_acct s)" and base: "ldr_base K s" by (auto simp: ldr_inv_base)
  let ?t = "put_session a (ss\<lparr>s_pLdrUsage := []\<rparr>) s" and ?us = "s_pLdrUsage ss"
  have "ldr_base K ?t" by (rule ldr_base_put_session[OF base ss]) simp
  moreover have "(snd (img_acct s))(a \<mapsto> ?us) = snd (img_acct s)" using ss by (simp add: fun_upd_idem)
  then have "(fst (img_acct ?t), (snd (img_acct ?t))(a \<mapsto> ?us)) = img_acct s" by simp
  ultimately have "ldr_closing K e a ?us ?t" using e by (simp only: ldr_closing_def)
  from cleanupImgs_ok[OF this] obtain s' where s': "cleanupImgs ?us ?t = Some s'" "ldr_closing K e a [] s'" "sessions s' = sessions ?t"
    "objs_shrunk ?t s'" "memobjs s' = memobjs s" "factories s' = factories s"
    "\<forall>p im. imgs s p = Some im \<longrightarrow> imgs s' p = None \<longrightarrow> no_dtor_in im s'"
    "\<forall>p im'. imgs s' p = Some im' \<longrightarrow> (\<exists>c. imgs s p = Some (im'\<lparr>i_cUsage := c\<rparr>))"
    "\<exists>cs. calls s' = calls s @ cs \<and> (\<forall>c \<in> set cs. term_call_of (imgs s) c)" by auto
  have "(snd (img_acct s'))(a \<mapsto> []) = snd (img_acct s')" using s'(3) by (simp add: fun_upd_idem)
  then have "ldr_inv K s'" using s'(2) by (auto simp: ldr_closing_def ldr_inv_base)
  moreover have "objs_shrunk s s'" using s'(4) by (simp add: objs_shrunk_def)
  moreover have "sessions s' = (sessions s)(a \<mapsto> ss\<lparr>s_pLdrUsage := []\<rparr>)" using s'(3) by simp
  moreover have "supdrvCleanupSession_ldr a s = Some s'"
    using ss s'(1) by (simp add: supdrvCleanupSession_ldr_def)
  ultimately show ?thesis using s' by (intro exI[of _ s'] conjI) assumption+
qed

section \<open>The loader API as a whole\<close>

datatype ldr_op =
    LOpen addr "u8 list" u32 u32 ldrenv
  | LLoad addr SUPLDRLOAD ldrenv
  | LFree addr addr
  | LGetSymbol addr addr "u8 list"
  | LService addr "u8 list" u32 u64 ldrenv
  | LCleanup addr

fun ldrStep :: "ldr_op \<Rightarrow> supdrv \<Rightarrow> supdrv option" where
  "ldrStep (LOpen a name cbTabs cbBits env) s = map_option snd (supdrvIOCtl_LdrOpen a name cbTabs cbBits env s)"
| "ldrStep (LLoad a req env) s = map_option snd (supdrvIOCtl_LdrLoad a req env s)"
| "ldrStep (LFree a base) s = map_option snd (supdrvIOCtl_LdrFree a base s)"
| "ldrStep (LGetSymbol a base szSym) s = map_option (\<lambda>_. s) (supdrvIOCtl_LdrGetSymbol a base szSym s)"
| "ldrStep (LService a name op arg env) s = map_option snd (supdrvIOCtl_CallServiceModule a name op arg env s)"
| "ldrStep (LCleanup a) s = supdrvCleanupSession_ldr a s"

fun ldrOpOk :: "promise set \<Rightarrow> ldr_op \<Rightarrow> supdrv \<Rightarrow> bool" where
  "ldrOpOk K (LOpen a name cbTabs cbBits env) s \<longleftrightarrow> ldrOpenOk a name cbTabs cbBits env s"
| "ldrOpOk K (LLoad a req env) s \<longleftrightarrow> sessions s a \<noteq> None \<and> ldrLoadOk K req"
| "ldrOpOk K (LFree a base) s \<longleftrightarrow> sessions s a \<noteq> None"
| "ldrOpOk K (LGetSymbol a base szSym) s \<longleftrightarrow> sessions s a \<noteq> None"
| "ldrOpOk K (LService a name op arg env) s \<longleftrightarrow> sessions s a \<noteq> None"
| "ldrOpOk K (LCleanup a) s \<longleftrightarrow> sessions s a \<noteq> None"

lemma ldrStep_safe:
  assumes inv: "ldr_inv K s" and ok: "ldrOpOk K op s"
  shows "\<exists>s'. ldrStep op s = Some s' \<and> ldr_inv K s'"
proof (cases op)
  case (LOpen a name cbTabs cbBits env)
  with LdrOpen_ok[OF inv, of a name cbTabs cbBits env] ok show ?thesis by auto
next
  case (LLoad a req env)
  with ok obtain ss where "sessions s a = Some ss" "ldrLoadOk K req" by auto
  from LdrLoad_ok[OF inv this, of env] LLoad show ?thesis by auto
next
  case (LFree a base)
  with ok obtain ss where "sessions s a = Some ss" by auto
  from LdrFree_ok[OF inv this, of base] LFree show ?thesis by auto
next
  case (LGetSymbol a base szSym)
  with ok obtain ss where "sessions s a = Some ss" by auto
  from LdrGetSymbol_ok[OF inv this, of base szSym] LGetSymbol inv show ?thesis by auto
next
  case (LService a name oper arg env)
  with ok obtain ss where "sessions s a = Some ss" by auto
  from CallService_ok[OF inv this, of name oper arg env] LService show ?thesis by auto
next
  case (LCleanup a)
  with ok obtain ss where "sessions s a = Some ss" by auto
  from cleanup_ldr_ok[OF inv this] LCleanup show ?thesis by auto
qed

interpretation ldrapi: guarded_api ldrStep "ldrOpOk K" "ldr_inv K" for K
  by unfold_locales (rule ldrStep_safe)

text \<open>
  Reference counting of images, seen through the calls a session makes: opening by the name of
  a present image (with memory for a usage record), and freeing by its address, where that
  gives the reference up.
\<close>

definition ldrRetain :: "ldrenv \<Rightarrow> addr \<Rightarrow> addr \<Rightarrow> supdrv \<Rightarrow> supdrv option" where
  "ldrRetain env a p s = do {
     im \<leftarrow> imgs s p;
     (_, s') \<leftarrow> supdrvIOCtl_LdrOpen a (i_szName im) (i_cbImageWithTabs im) (i_cbImageBits im) env s;
     if ldr_by_name (imgs s) (i_szName im) (d_pLdrImages (devext s)) = Some (Some p) \<and> le_fUsage env then Some s' else None
   }"

definition ldrRelease :: "addr \<Rightarrow> addr \<Rightarrow> supdrv \<Rightarrow> supdrv option" where
  "ldrRelease a p s = do {
     im \<leftarrow> imgs s p;
     ss \<leftarrow> sessions s a;
     (_, s') \<leftarrow> supdrvIOCtl_LdrFree a (i_pvImage im) s;
     ss' \<leftarrow> sessions s' a;
     if held p (s_pLdrUsage ss') < held p (s_pLdrUsage ss) then Some s' else None
   }"

lemma ldr_clear_dtors_frame:
  "ldr_clear_dtors im ps s = Some s' \<Longrightarrow> imgs s' = imgs s \<and> sessions s' = sessions s"
  by (induction ps arbitrary: s) (auto split: Option.bind_splits if_splits)

lemma supdrvLdrFree_frame:
  "supdrvLdrFree p s = Some s' \<Longrightarrow> imgs s' = (imgs s)(p := None) \<and> sessions s' = sessions s"
  by (auto simp: supdrvLdrFree_def Let_def supdrvLdrUnsetVMMR0EPs_def
      split: Option.bind_splits if_splits dest!: ldr_clear_dtors_frame)

lemma ldrRetain_refines: "ldrRetain env a p s = Some s' \<Longrightarrow> acct_retain a p (img_acct s) = Some (img_acct s')"
  by (auto simp: ldrRetain_def supdrvIOCtl_LdrOpen_def supdrvLdrAddUsage_def acct_retain_def usage_retain_def Let_def
      split: Option.bind_splits option.splits if_splits)

lemma held_unlink_other: "usages_ok us \<Longrightarrow> held p (usage_unlink q us) < held p us \<Longrightarrow> p = q"
  by (auto simp: held_unlink split: if_splits)

lemma ldr_find_Some: "ldr_find h base us = Some (Some u) \<Longrightarrow> u \<in> set us"
  by (induction us) (auto split: Option.bind_splits if_splits)

lemma usage_find_in: "usages_ok us \<Longrightarrow> u \<in> set us \<Longrightarrow> usage_find (u_ref u) us = Some u"
  by (induction us) (auto intro: image_eqI)

lemma ldrRelease_refines:
  assumes e: "accounted e (img_acct s)" and r: "ldrRelease a p s = Some s'"
  shows "acct_release a p (img_acct s) = Some (img_acct s')"
proof -
  from r obtain im ss rc ss' where im: "imgs s p = Some im" and ss: "sessions s a = Some ss"
    and f: "supdrvIOCtl_LdrFree a (i_pvImage im) s = Some (rc, s')" and ss': "sessions s' a = Some ss'"
    and lt: "held p (s_pLdrUsage ss') < held p (s_pLdrUsage ss)"
    by (auto simp: ldrRelease_def split: Option.bind_splits if_splits)
  let ?us = "s_pLdrUsage ss"
  have ok: "usages_ok ?us" using accounted_ok[OF e, of a] ss by simp
  have "s' \<noteq> s" using ss ss' lt by auto
  then obtain u i where u: "ldr_find (imgs s) (i_pvImage im) ?us = Some (Some u)" "imgs s (u_ref u) = Some i"
    using f ss by (auto simp: supdrvIOCtl_LdrFree_def split: Option.bind_splits option.splits)
  have uin: "u \<in> set ?us" by (rule ldr_find_Some[OF u(1)])
  note uf = usage_find_in[OF ok uin]
  have cnt: "u_cUsage u \<le> i_cUsage i" using accounted_record[OF e, of a ?us u] uin ss u(2) by auto
  show ?thesis
  proof (cases "1 < u_cUsage u")
    case True
    then have n: "\<not> i_cUsage i \<le> 1" "\<not> u_cUsage u \<le> 1" using cnt by auto
    with f ss u have s': "s' = put_session a (ss\<lparr>s_pLdrUsage := usage_dec (u_ref u) ?us\<rparr>) (put_img (u_ref u) (i\<lparr>i_cUsage := i_cUsage i - 1\<rparr>) s)"
      by (auto simp: supdrvIOCtl_LdrFree_def)
    with lt ss' ok uf have "p = u_ref u" by (auto simp: held_dec split: if_splits)
    with s' True u(2) uf ss show ?thesis by (simp add: acct_release_def)
  next
    case False
    then have l: "u_cUsage u \<le> 1" by auto
    let ?s1 = "put_session a (ss\<lparr>s_pLdrUsage := usage_unlink (u_ref u) ?us\<rparr>) s"
    have "(if i_cUsage i \<le> 1 then supdrvLdrFree (u_ref u) ?s1 else Some (put_img (u_ref u) (i\<lparr>i_cUsage := i_cUsage i - 1\<rparr>) ?s1)) = Some s'"
      using f ss u l \<open>s' \<noteq> s\<close> by (auto simp: supdrvIOCtl_LdrFree_def Let_def split: Option.bind_splits if_splits)
    then have im': "sessions s' = sessions ?s1" "imgs s' = (imgs s)(u_ref u := (if 1 < i_cUsage i then Some (i\<lparr>i_cUsage := i_cUsage i - 1\<rparr>) else None))"
      by (auto split: if_splits dest!: supdrvLdrFree_frame)
    with lt ss' have "p = u_ref u" by (auto intro: held_unlink_other[OF ok])
    with im' False u(2) uf ss show ?thesis by (auto simp: acct_release_def img_acct_def fun_eq_iff)
  qed
qed

interpretation imgref: refcounting img_acct "ldrRetain env" ldrRelease for env
  by unfold_locales (auto intro: ldrRetain_refines ldrRelease_refines)

section \<open>Properties\<close>

text \<open>An environment in which every allocation succeeds, and a request for an image of 16 bytes
  with one symbol, \<open>foo\<close> at offset 4.\<close>

definition ldrenv0 :: ldrenv where
  "ldrenv0 = \<lparr>le_pNew = 0x30000, le_pvExec = 0x40000, le_fUsage = True, le_fStrTab = True, le_fSymbols = True,
     le_rcInit = VINF_SUCCESS, le_rcService = VINF_SUCCESS\<rparr>"

definition load0 :: SUPLDRLOAD where
  "load0 = \<lparr>ll_pfnModuleInit = 0, ll_pfnModuleTerm = 0x40008, ll_EP = EP_NOTHING, ll_pvImageBase = 0x40000,
     ll_cbImageBits = 16, ll_offSymbols = 16, ll_cSymbols = 1, ll_offStrTab = 24, ll_cbStrTab = 4,
     ll_cbImageWithTabs = 28,
     ll_abImage = [1, 2, 3, 4, 5, 6, 7, 8, 9, 10, 11, 12, 13, 14, 15, 16, 0, 0, 0, 0, 4, 0, 0, 0, 0x66, 0x6f, 0x6f, 0]\<rparr>"

lemma ldr_inv_driver0: "ldr_inv K driver0"
proof -
  have a: "img_acct driver0 = (Map.empty, [0x10000 \<mapsto> []])"
    by (auto simp: img_acct_def session0_def)
  have "accounted (\<lambda>_. 0) (img_acct driver0)"
    unfolding a by (simp add: accounted_def counted_def total_held_def)
  then show ?thesis
    using obj_inv_driver0 by (auto simp: ldr_inv_def vmmr0_ok_def devext0_def)
qed

text \<open>C7: Every run of loader operations (opening, loading, freeing, looking up, calling, cleaning
  up) by open sessions, on requests whose tables lie inside the request and with fresh
  allocations, executes without a memory fault.  Afterwards the image list holds exactly the
  allocated images, their callbacks lie inside the bits of loaded images, and no usage record of a session
  outlives its image.  This is so for every \<open>K\<close>.  The VMMR0 entry points lie inside the bits of a loaded image
  as well when \<^const>\<open>VMMR0_At_Base\<close> is in \<open>K\<close>: the load requests for VMMR0 then name their own load address,
  which the driver does not check, and with another one the entry points outlive the image.\<close>

theorem ldr_api_safe:
  "ldr_inv K s \<Longrightarrow> run_ok ldrStep (ldrOpOk K) ops s \<Longrightarrow>
   \<exists>s'. run_steps ldrStep ops s = Some s' \<and> ldr_inv K s'"
  by (rule ldrapi.run_safe)

theorem ldr_api_safe_witness:
  "\<exists>s'. run_steps ldrStep [LOpen 0x10000 [0x6d] 28 16 ldrenv0, LLoad 0x10000 load0 ldrenv0,
     LGetSymbol 0x10000 0x40000 [0x66, 0x6f, 0x6f], LFree 0x10000 0x40000, LCleanup 0x10000] driver0 = Some s' \<and> ldr_inv UNIV s'"
  apply (rule ldr_api_safe[OF ldr_inv_driver0])
  apply (simp add: ldrOpenOk_def supdrvIOCtl_LdrOpen_def session0_def devext0_def ldrenv0_def ldr_image_new_def
     supdrvLdrAddUsage_def Let_def)
  apply (simp add: supdrvIOCtl_LdrLoad_def load0_def ldrLoadOk_def)
  apply (simp add: ldrLoad_validate_def ldrLoad_validateEP_def supdrvLdrValidatePointer_def in_range_def)
  apply (simp add: ldrLoad_tables_def bytes_at_def ldrLoad_bits_def ldrLoad_entry_points_def ldrLoad_finish_def Let_def)
  apply (simp add: supdrvIOCtl_LdrGetSymbol_def supdrvIOCtl_LdrFree_def supdrvLdrFree_def supdrvLdrUnsetVMMR0EPs_def
     devext0_def split: option.split)
  done

text \<open>A driver with that image loaded, used once by the session.\<close>

definition img1 :: SUPDRVLDRIMAGE where
  "img1 = \<lparr>i_pvImage = 0x40000, i_pvImageAlloc = 0x40000, i_cbImageWithTabs = 28, i_cbImageBits = 16,
     i_paSymbols = [\<lparr>sym_offName = 0, sym_offSymbol = 4\<rparr>], i_pachStrTab = [0x66, 0x6f, 0x6f, 0],
     i_pfnModuleInit = 0, i_pfnModuleTerm = 0x40008, i_pfnServiceReqHandler = 0x4000c,
     i_uState = SUP_IOCTL_LDR_LOAD, i_cUsage = 1, i_fNative = False, i_szName = [0x6d],
     i_abBits = [1, 2, 3, 4, 5, 6, 7, 8, 9, 10, 11, 12, 13, 14, 15, 16]\<rparr>"

definition driver3 :: supdrv where
  "driver3 = driver0\<lparr>devext := devext0\<lparr>d_pLdrImages := [0x30000]\<rparr>, imgs := [0x30000 \<mapsto> img1],
     sessions := [0x10000 \<mapsto> session0\<lparr>s_pLdrUsage := [\<lparr>u_ref = 0x30000, u_cUsage = 1\<rparr>]\<rparr>, 0x11000 \<mapsto> session0]\<rparr>"

lemma driver3_simps [simp]:
  "devext driver3 = devext0\<lparr>d_pLdrImages := [0x30000]\<rparr>" "objs driver3 = Map.empty" "imgs driver3 = [0x30000 \<mapsto> img1]"
  "sessions driver3 = [0x10000 \<mapsto> session0\<lparr>s_pLdrUsage := [\<lparr>u_ref = 0x30000, u_cUsage = 1\<rparr>]\<rparr>, 0x11000 \<mapsto> session0]"
  "calls driver3 = []" "memobjs driver3 = Map.empty" "factories driver3 = Map.empty"
  by (simp_all add: driver3_def)

lemma ldr_inv_driver3: "ldr_inv K driver3"
proof -
  have a: "img_acct driver3 = ([0x30000 \<mapsto> 1], [0x10000 \<mapsto> [\<lparr>u_ref = 0x30000, u_cUsage = 1\<rparr>], 0x11000 \<mapsto> []])"
    by (auto simp: img_acct_def session0_def img1_def)
  have "total_held [0x10000 \<mapsto> [\<lparr>u_ref = 0x30000, u_cUsage = 1\<rparr>], 0x11000 \<mapsto> []] p = (if p = 0x30000 then 1 else 0)" for p
    by (simp add: total_held_def)
  then have acc: "accounted (\<lambda>_. 0) (img_acct driver3)"
    unfolding a by (auto simp: accounted_def counted_def)
  have "obj_acct driver3 = (Map.empty, [0x10000 \<mapsto> [], 0x11000 \<mapsto> []])"
    by (auto simp: obj_acct_def session0_def)
  then have "balanced (obj_acct driver3)" by (simp add: balanced_def total_held_def)
  then have "obj_inv driver3" by (simp add: obj_inv_def devext0_def)
  moreover have "img_ok img1" by (simp add: img_ok_def img1_def ep_ok_def in_range_def)
  ultimately show ?thesis using acc
    by (auto simp: ldr_inv_def vmmr0_ok_def devext0_def split: if_splits)
qed

text \<open>C10: Freeing by a session always succeeds or rejects the handle, never faults, and never
  takes an image away from an object: if the call destroys the image, no live object has its
  destructor inside it, so no object changes.\<close>

theorem ldr_free_respects_destructors:
  assumes "ldr_inv K s" "sessions s a = Some ss"
  shows "\<exists>r s'. supdrvIOCtl_LdrFree a base s = Some (r, s') \<and> objs s' = objs s \<and> r \<in> {VINF_SUCCESS, VERR_INVALID_HANDLE} \<and>
    (\<forall>p im. imgs s p = Some im \<longrightarrow> imgs s' p = None \<longrightarrow>
       (\<forall>q ob. objs s q = Some ob \<longrightarrow> \<not> in_range (o_pfnDestructor ob) (i_pvImage im) (i_cbImageBits im)))"
proof -
  from LdrFree_ok[OF assms, of base] obtain r s' where r: "supdrvIOCtl_LdrFree a base s = Some (r, s')" "objs s' = objs s"
    and f: "s' = s \<or> (\<exists>u im. u \<in> set (s_pLdrUsage ss) \<and> imgs s (u_ref u) = Some im \<and> i_pvImage im = base \<and>
       acct_release a (u_ref u) (img_acct s) = Some (img_acct s') \<and>
       (imgs s' (u_ref u) = None \<longrightarrow> (\<forall>q ob. objs s q = Some ob \<longrightarrow>
          \<not> in_range (o_pfnDestructor ob) (i_pvImage im) (i_cbImageBits im)) \<and>
          calls s' = calls s @ term_calls (u_ref u) im) \<and>
       (imgs s' (u_ref u) \<noteq> None \<longrightarrow> calls s' = calls s))" by (elim exE conjE) (rule that)
  have "r \<in> {VINF_SUCCESS, VERR_INVALID_HANDLE}"
    using r(1) by (auto simp: supdrvIOCtl_LdrFree_def Let_def split: Option.bind_splits option.splits if_splits)
  moreover have "\<forall>q ob. objs s q = Some ob \<longrightarrow> \<not> in_range (o_pfnDestructor ob) (i_pvImage im) (i_cbImageBits im)"
    if p: "imgs s p = Some im" "imgs s' p = None" for p im
  proof -
    from p have ne: "s' \<noteq> s" by auto
    from f ne have "\<exists>u i. u \<in> set (s_pLdrUsage ss) \<and> imgs s (u_ref u) = Some i \<and> acct_release a (u_ref u) (img_acct s) = Some (img_acct s') \<and>
      (imgs s' (u_ref u) = None \<longrightarrow> (\<forall>q ob. objs s q = Some ob \<longrightarrow> \<not> in_range (o_pfnDestructor ob) (i_pvImage i) (i_cbImageBits i)))"
      by metis
    then obtain u :: usage and i where u: "imgs s (u_ref u) = Some i" "acct_release a (u_ref u) (img_acct s) = Some (img_acct s')"
      "imgs s' (u_ref u) = None \<longrightarrow> (\<forall>q ob. objs s q = Some ob \<longrightarrow> \<not> in_range (o_pfnDestructor ob) (i_pvImage i) (i_cbImageBits i))"
      by (elim exE conjE) (rule that)
    have "fst (img_acct s') q = fst (img_acct s) q" if "q \<noteq> u_ref u" for q
      using u(2) that by (auto simp: acct_release_def split: option.splits if_splits) (metis fst_conv fst_img_acct fun_upd_other)+
    with p have "p = u_ref u" by (metis fst_img_acct option.map_disc_iff option.distinct(1))
    with u p show ?thesis by auto
  qed
  ultimately show ?thesis using r by blast
qed

theorem ldr_free_respects_destructors_witness:
  "\<exists>r s'. supdrvIOCtl_LdrFree 0x10000 0x40000 driver3 = Some (r, s') \<and> r \<in> {VINF_SUCCESS, VERR_INVALID_HANDLE}"
proof -
  have "sessions driver3 0x10000 = Some (session0\<lparr>s_pLdrUsage := [\<lparr>u_ref = 0x30000, u_cUsage = 1\<rparr>]\<rparr>)" by simp
  from ldr_free_respects_destructors[OF ldr_inv_driver3 this] show ?thesis by blast
qed

text \<open>C14: An image whose reference a session gives up is destroyed exactly when that was the last
  reference anyone holds on it, counting the openings whose usage record could not be
  allocated (\<open>e\<close>).\<close>

theorem ldr_image_destroyed_iff_last:
  assumes "accounted e (img_acct s)" "ldrRelease a p s = Some s'"
  shows "imgs s' p = None \<longleftrightarrow> total_held (snd (img_acct s)) p + e p = 1"
  using imgref.release_destroys_iff_last[OF assms(2,1)] by simp

theorem ldr_image_destroyed_iff_last_witness:
  "\<exists>s'. ldrRelease 0x10000 0x30000 driver3 = Some s' \<and> imgs s' 0x30000 = None"
proof -
  have a: "img_acct driver3 = ([0x30000 \<mapsto> 1], [0x10000 \<mapsto> [\<lparr>u_ref = 0x30000, u_cUsage = 1\<rparr>], 0x11000 \<mapsto> []])"
    by (auto simp: img_acct_def session0_def img1_def)
  have t: "total_held [0x10000 \<mapsto> [\<lparr>u_ref = 0x30000, u_cUsage = 1\<rparr>], 0x11000 \<mapsto> []] p = (if p = 0x30000 then 1 else 0)" for p
    by (simp add: total_held_def)
  then have acc: "accounted (\<lambda>_. 0) (img_acct driver3)"
    unfolding a by (auto simp: accounted_def counted_def)
  have "\<exists>s'. ldrRelease 0x10000 0x30000 driver3 = Some s'"
    by (simp add: ldrRelease_def supdrvIOCtl_LdrFree_def img1_def session0_def devext0_def supdrvLdrFree_def
        supdrvLdrUnsetVMMR0EPs_def)
  then obtain s' where r: "ldrRelease 0x10000 0x30000 driver3 = Some s'" by blast
  from ldr_image_destroyed_iff_last[OF acc r] r show ?thesis unfolding a by (simp add: t)
qed

text \<open>Cleaning up a session's images never faults, empties the session's list, leaves every
  object in place up to its destructor, and no object keeps a destructor inside an image that
  the cleanup destroyed; images that stay differ only in their counter.\<close>

theorem ldr_cleanup_leaves_no_dangling_destructor:
  assumes "ldr_inv K s" "sessions s a = Some ss"
  shows "\<exists>s'. supdrvCleanupSession_ldr a s = Some s' \<and> ldr_inv K s' \<and>
    sessions s' = (sessions s)(a \<mapsto> ss\<lparr>s_pLdrUsage := []\<rparr>) \<and> dom (objs s') = dom (objs s) \<and>
    (\<forall>p im q ob. imgs s p = Some im \<longrightarrow> imgs s' p = None \<longrightarrow> objs s' q = Some ob \<longrightarrow> o_pfnDestructor ob \<noteq> 0 \<longrightarrow>
       \<not> in_range (o_pfnDestructor ob) (i_pvImage im) (i_cbImageBits im)) \<and>
    (\<forall>p im'. imgs s' p = Some im' \<longrightarrow> (\<exists>c. imgs s p = Some (im'\<lparr>i_cUsage := c\<rparr>)))"
proof -
  from cleanup_ldr_ok[OF assms] obtain s' where s': "supdrvCleanupSession_ldr a s = Some s'" "ldr_inv K s'"
    "sessions s' = (sessions s)(a \<mapsto> ss\<lparr>s_pLdrUsage := []\<rparr>)" "objs_shrunk s s'"
    "\<forall>p im. imgs s p = Some im \<longrightarrow> imgs s' p = None \<longrightarrow> no_dtor_in im s'"
    "\<forall>p im'. imgs s' p = Some im' \<longrightarrow> (\<exists>c. imgs s p = Some (im'\<lparr>i_cUsage := c\<rparr>))"
    by (elim exE conjE) (rule that)
  have "objs s' q = None \<longleftrightarrow> objs s q = None" for q
    using s'(4) unfolding objs_shrunk_def by (metis option.map_disc_iff)
  then have "dom (objs s') = dom (objs s)" by (auto simp: dom_def)
  with s' show ?thesis unfolding no_dtor_in_def by (intro exI[of _ s']) blast
qed

theorem ldr_cleanup_leaves_no_dangling_destructor_witness:
  "\<exists>s'. supdrvCleanupSession_ldr 0x10000 driver3 = Some s' \<and> ldr_inv UNIV s'"
proof -
  have "sessions driver3 0x10000 = Some (session0\<lparr>s_pLdrUsage := [\<lparr>u_ref = 0x30000, u_cUsage = 1\<rparr>]\<rparr>)" by simp
  from ldr_cleanup_leaves_no_dangling_destructor[OF ldr_inv_driver3 this] show ?thesis by blast
qed

text \<open>C11: A load request is all or nothing.  If it succeeds, an image that this session had opened
  and nobody had loaded becomes loaded, with exactly the bits of the request; if it fails, every
  image that was loaded still is, and the image of the request, if there is one, is open again.
  Objects, sessions and all other images do not change.\<close>

theorem ldr_load_all_or_nothing:
  assumes "ldr_inv K s" "sessions s a = Some ss" "ldrLoadOk K req" "supdrvIOCtl_LdrLoad a req env s = Some (r, s')"
  shows "objs s' = objs s \<and> sessions s' = sessions s \<and>
    (if RT_SUCCESS r
     then \<exists>p im im'. p \<in> u_ref ` set (s_pLdrUsage ss) \<and> imgs s p = Some im \<and> i_uState im = SUP_IOCTL_LDR_OPEN \<and>
        i_pvImage im = ll_pvImageBase req \<and> imgs s' = (imgs s)(p \<mapsto> im') \<and>
        i_uState im' = SUP_IOCTL_LDR_LOAD \<and> i_abBits im' = take (unat (ll_cbImageBits req)) (ll_abImage req)
     else s' = s \<or> (\<exists>p im im'. imgs s p = Some im \<and> i_uState im = SUP_IOCTL_LDR_OPEN \<and>
        imgs s' = (imgs s)(p \<mapsto> im') \<and> i_uState im' = SUP_IOCTL_LDR_OPEN))"
proof -
  from LdrLoad_ok[OF assms(1-3), of env] assms(4) have
    "s' = s \<and> RT_FAILURE r \<or>
     (\<exists>u im. u \<in> set (s_pLdrUsage ss) \<and> imgs s (u_ref u) = Some im \<and> i_uState im = SUP_IOCTL_LDR_OPEN \<and>
        i_pvImage im = ll_pvImageBase req \<and> i_cbImageBits im = ll_cbImageBits req \<and>
        ldr_load_effect (u_ref u) im req r s s')" by auto
  then show ?thesis
  proof
    assume "\<exists>u im. u \<in> set (s_pLdrUsage ss) \<and> imgs s (u_ref u) = Some im \<and> i_uState im = SUP_IOCTL_LDR_OPEN \<and>
        i_pvImage im = ll_pvImageBase req \<and> i_cbImageBits im = ll_cbImageBits req \<and>
        ldr_load_effect (u_ref u) im req r s s'"
    then obtain u :: usage and im where u: "u_ref u \<in> u_ref ` set (s_pLdrUsage ss)" "imgs s (u_ref u) = Some im" "i_uState im = SUP_IOCTL_LDR_OPEN"
      "i_pvImage im = ll_pvImageBase req" "ldr_load_effect (u_ref u) im req r s s'" by blast
    from u(5) obtain im' where e: "objs s' = objs s" "sessions s' = sessions s" "imgs s' = (imgs s)(u_ref u \<mapsto> im')"
      "if RT_SUCCESS r
       then i_uState im' = SUP_IOCTL_LDR_LOAD \<and> i_abBits im' = take (unat (ll_cbImageBits req)) (ll_abImage req)
       else i_uState im' = SUP_IOCTL_LDR_OPEN" unfolding ldr_load_effect_def by blast
    show ?thesis
    proof (cases "RT_SUCCESS r")
      case True
      with u e show ?thesis by (simp only: if_True simp_thms) blast
    next
      case False
      with u e show ?thesis by (simp only: if_False simp_thms) blast
    qed
  qed auto
qed

definition img_open :: SUPDRVLDRIMAGE where
  "img_open = ldr_image_new 0x40000 [0x6d] 28 16"

definition driver4 :: supdrv where
  "driver4 = driver3\<lparr>imgs := [0x30000 \<mapsto> img_open]\<rparr>"

lemma ldr_inv_driver4: "ldr_inv K driver4"
proof -
  have "img_acct driver4 = img_acct driver3"
    by (auto simp: img_acct_def driver4_def img_open_def ldr_image_new_def img1_def)
  moreover have "obj_inv driver4"
    by (rule obj_inv_cong[OF ldr_inv_obj[OF ldr_inv_driver3]]) (simp_all add: driver4_def)
  moreover have "img_ok img_open" by (simp add: img_ok_def img_open_def ldr_image_new_def ep_ok_def)
  moreover have "\<exists>e. accounted e (img_acct driver3)" using ldr_inv_driver3 by (simp add: ldr_inv_def)
  moreover have "imgs driver4 = [0x30000 \<mapsto> img_open]" "devext driver4 = devext0\<lparr>d_pLdrImages := [0x30000]\<rparr>"
    by (simp_all add: driver4_def)
  ultimately show ?thesis
    by (auto simp: ldr_inv_def vmmr0_ok_def devext0_def split: if_splits)
qed

theorem ldr_load_all_or_nothing_witness:
  "\<exists>s' p im'. supdrvIOCtl_LdrLoad 0x10000 load0 ldrenv0 driver4 = Some (VINF_SUCCESS, s') \<and> imgs s' p = Some im' \<and>
     i_uState im' = SUP_IOCTL_LDR_LOAD \<and> length (i_abBits im') = 16"
proof -
  have s: "sessions driver4 0x10000 = Some (session0\<lparr>s_pLdrUsage := [\<lparr>u_ref = 0x30000, u_cUsage = 1\<rparr>]\<rparr>)"
    by (simp add: driver4_def)
  have l: "ldrLoadOk UNIV load0" by (simp add: ldrLoadOk_def load0_def)
  have "\<exists>s'. supdrvIOCtl_LdrLoad 0x10000 load0 ldrenv0 driver4 = Some (VINF_SUCCESS, s')"
    by (simp add: supdrvIOCtl_LdrLoad_def driver4_def img_open_def ldr_image_new_def load0_def ldrenv0_def
       ldrLoad_validate_def ldrLoad_validateEP_def supdrvLdrValidatePointer_def in_range_def
       ldrLoad_tables_def bytes_at_def ldrLoad_bits_def ldrLoad_entry_points_def ldrLoad_finish_def Let_def)
  then obtain s' where r: "supdrvIOCtl_LdrLoad 0x10000 load0 ldrenv0 driver4 = Some (VINF_SUCCESS, s')" by blast
  from ldr_load_all_or_nothing[OF ldr_inv_driver4 s l r] obtain p im' where
    "imgs s' = (imgs driver4)(p \<mapsto> im')" "i_uState im' = SUP_IOCTL_LDR_LOAD" "i_abBits im' = take (unat (ll_cbImageBits load0)) (ll_abImage load0)"
    by auto
  with r show ?thesis
    by (intro exI[of _ s'] exI[of _ p] exI[of _ im']) (simp add: load0_def)
qed

lemma LdrFree_calls:
  assumes "ldr_inv K s" "sessions s a = Some ss" "supdrvIOCtl_LdrFree a b s = Some (r, s')"
  shows "calls s' = calls s \<or> (\<exists>p im. imgs s p = Some im \<and> calls s' = calls s @ term_calls p im)"
proof -
  from LdrFree_ok[OF assms(1,2), of b] obtain r' t where "supdrvIOCtl_LdrFree a b s = Some (r', t)"
    "t = s \<or> (\<exists>u im. u \<in> set (s_pLdrUsage ss) \<and> imgs s (u_ref u) = Some im \<and> i_pvImage im = b \<and>
       acct_release a (u_ref u) (img_acct s) = Some (img_acct t) \<and>
       (imgs t (u_ref u) = None \<longrightarrow> (\<forall>q ob. objs s q = Some ob \<longrightarrow>
          \<not> in_range (o_pfnDestructor ob) (i_pvImage im) (i_cbImageBits im)) \<and>
          calls t = calls s @ term_calls (u_ref u) im) \<and>
       (imgs t (u_ref u) \<noteq> None \<longrightarrow> calls t = calls s))" by (elim exE conjE) (rule that)
  with assms(3) show ?thesis by (cases "t = s") (simp, metis option.inject prod.inject)
qed

text \<open>C12: Every call the loader makes out of the driver - initialisation, termination, service
  request - goes to an address inside the bits of an image that is allocated when the operation
  starts; no loader operation calls anything else.\<close>

theorem ldr_calls_inside_images:
  assumes "ldr_inv K s" "ldrOpOk K op s" "ldrStep op s = Some s'"
  shows "\<exists>cs. calls s' = calls s @ cs \<and> (\<forall>c \<in> set cs. \<exists>p im pfn. imgs s p = Some im \<and>
    in_range pfn (i_pvImage im) (i_cbImageBits im) \<and>
    (c = Call_ModuleInit pfn p \<or> c = Call_ModuleTerm pfn p \<or> (\<exists>a oper arg. c = Call_Service pfn a oper arg)))"
    (is "\<exists>cs. _ \<and> (\<forall>c \<in> set cs. ?ok c)")
proof (cases op)
  case (LOpen a name cbTabs cbBits env)
  then have "calls s' = calls s"
    using assms(3) by (auto simp: supdrvIOCtl_LdrOpen_def supdrvLdrAddUsage_def Let_def
        split: Option.bind_splits option.splits if_splits)
  then show ?thesis by (intro exI[of _ "[]"]) simp
next
  case (LLoad a req env)
  with assms(2) obtain ss where "sessions s a = Some ss" "ldrLoadOk K req" by auto
  from LdrLoad_ok[OF assms(1) this, of env] assms(3) LLoad have
    "s' = s \<or> (\<exists>u im. u \<in> set (s_pLdrUsage ss) \<and> imgs s (u_ref u) = Some im \<and> (calls s' = calls s \<or>
        calls s' = calls s @ [Call_ModuleInit (ll_pfnModuleInit req) (u_ref u)] \<and>
        in_range (ll_pfnModuleInit req) (i_pvImage im) (i_cbImageBits im)))"
    unfolding ldr_load_effect_def by auto
  then show ?thesis
  proof (elim disjE exE conjE)
    fix u :: usage and im
    assume "imgs s (u_ref u) = Some im" "calls s' = calls s @ [Call_ModuleInit (ll_pfnModuleInit req) (u_ref u)]"
      "in_range (ll_pfnModuleInit req) (i_pvImage im) (i_cbImageBits im)"
    then show ?thesis by (intro exI[of _ "[Call_ModuleInit (ll_pfnModuleInit req) (u_ref u)]"]) auto
  qed (intro exI[of _ "[]"]; simp)+
next
  case (LFree a b)
  with assms(2) obtain ss where ss: "sessions s a = Some ss" by auto
  from assms(3) LFree obtain r where r: "supdrvIOCtl_LdrFree a b s = Some (r, s')" by auto
  from LdrFree_calls[OF assms(1) ss r] show ?thesis
  proof (elim disjE exE conjE)
    fix p im
    assume u: "imgs s p = Some im" and c: "calls s' = calls s @ term_calls p im"
    have "\<forall>c \<in> set (term_calls p im). term_call_of (imgs s) c"
      by (rule term_calls_of[where h = "imgs s", OF ldr_inv_img[OF assms(1) u] u])
    with c show ?thesis by (intro exI[of _ "term_calls p im"]) (auto dest!: term_call_of_inside)
  qed (intro exI[of _ "[]"]; simp)
next
  case (LGetSymbol a b szSym)
  with assms(3) have "calls s' = calls s" by auto
  then show ?thesis by (intro exI[of _ "[]"]) simp
next
  case (LService a name oper arg env)
  with assms(2) obtain ss where ss: "sessions s a = Some ss" by auto
  from CallService_ok[OF assms(1) ss, of name oper arg env] assms(3) LService have
    "s' = s \<or> (\<exists>u im. u \<in> set (s_pLdrUsage ss) \<and> imgs s (u_ref u) = Some im \<and>
       in_range (i_pfnServiceReqHandler im) (i_pvImage im) (i_cbImageBits im) \<and>
       s' = log_call (Call_Service (i_pfnServiceReqHandler im) a oper arg) s)" by auto
  then show ?thesis
  proof (elim disjE exE conjE)
    fix u :: usage and im
    assume "imgs s (u_ref u) = Some im" "in_range (i_pfnServiceReqHandler im) (i_pvImage im) (i_cbImageBits im)"
      "s' = log_call (Call_Service (i_pfnServiceReqHandler im) a oper arg) s"
    then show ?thesis by (intro exI[of _ "[Call_Service (i_pfnServiceReqHandler im) a oper arg]"]) auto
  qed (intro exI[of _ "[]"]; simp)
next
  case (LCleanup a)
  with assms(2) obtain ss where ss: "sessions s a = Some ss" by auto
  from cleanup_ldr_ok[OF assms(1) ss] assms(3) LCleanup have
    "\<exists>cs. calls s' = calls s @ cs \<and> (\<forall>c \<in> set cs. term_call_of (imgs s) c)" by auto
  then show ?thesis by (elim exE) (auto dest!: term_call_of_inside)
qed

theorem ldr_calls_inside_images_witness:
  "\<exists>s' cs. ldrStep (LService 0x10000 [0x6d] 1 2 ldrenv0) driver3 = Some s' \<and> calls s' = cs \<and> length cs = 1 \<and>
    (\<forall>c \<in> set cs. \<exists>pfn. in_range pfn 0x40000 16)"
proof -
  have r: "ldrStep (LService 0x10000 [0x6d] 1 2 ldrenv0) driver3 =
      Some (log_call (Call_Service 0x4000c 0x10000 1 2) driver3)" (is "_ = Some ?t")
    by (simp add: supdrvIOCtl_CallServiceModule_def img1_def)
  have o: "ldrOpOk UNIV (LService 0x10000 [0x6d] 1 2 ldrenv0) driver3" by simp
  from ldr_calls_inside_images[OF ldr_inv_driver3 o r]
  have "\<exists>pfn. in_range pfn 0x40000 16" by (auto simp: img1_def split: if_splits)
  with r show ?thesis by (intro exI[of _ ?t] exI[of _ "[Call_Service 0x4000c 0x10000 1 2]"]) simp
qed

text \<open>The symbol search finds the first entry of the table that carries the name, reading only
  inside the string table.\<close>

lemma ldr_sym_first:
  "ldr_sym tab key sys = Some off \<longleftrightarrow>
   (\<exists>i < length sys. sym_offSymbol (sys ! i) = off \<and> bytes_at tab (unat (sym_offName (sys ! i))) (length key) = Some key \<and>
      (\<forall>j < i. bytes_at tab (unat (sym_offName (sys ! j))) (length key) \<noteq> Some key))"
proof (induction sys)
  case (Cons sy sys)
  show ?case
  proof (cases "bytes_at tab (unat (sym_offName sy)) (length key) = Some key")
    case True
    have "(\<exists>i < length (sy # sys). sym_offSymbol ((sy # sys) ! i) = off \<and>
        bytes_at tab (unat (sym_offName ((sy # sys) ! i))) (length key) = Some key \<and>
        (\<forall>j < i. bytes_at tab (unat (sym_offName ((sy # sys) ! j))) (length key) \<noteq> Some key)) \<longleftrightarrow> sym_offSymbol sy = off"
      using True by (auto dest: spec[of _ 0] intro!: exI[of _ 0])
    with True show ?thesis by simp
  next
    case False
    then show ?thesis using Cons.IH by (simp add: Ex_less_Suc2 All_less_Suc2)
  qed
qed simp

text \<open>Symbol lookup for a session never faults, and when it succeeds the image is one the
  session has opened, it is loaded, and the address is the load address plus the offset of the
  first symbol table entry with that name.\<close>

theorem ldr_get_symbol_first_match:
  assumes "ldr_inv K s" "sessions s a = Some ss"
  shows "\<exists>r pv. supdrvIOCtl_LdrGetSymbol a base szSymbol s = Some (r, pv) \<and> (RT_SUCCESS r \<longrightarrow>
    (\<exists>u im i. u \<in> set (s_pLdrUsage ss) \<and> imgs s (u_ref u) = Some im \<and> i_pvImage im = base \<and>
       i_uState im = SUP_IOCTL_LDR_LOAD \<and> i < length (i_paSymbols im) \<and>
       pv = base + scast (sym_offSymbol (i_paSymbols im ! i)) \<and>
       bytes_at (i_pachStrTab im) (unat (sym_offName (i_paSymbols im ! i))) (Suc (length szSymbol)) = Some (szSymbol @ [0]) \<and>
       (\<forall>j < i. bytes_at (i_pachStrTab im) (unat (sym_offName (i_paSymbols im ! j))) (Suc (length szSymbol)) \<noteq> Some (szSymbol @ [0]))))"
proof -
  from LdrGetSymbol_ok[OF assms, of base szSymbol] obtain r pv where
    r: "supdrvIOCtl_LdrGetSymbol a base szSymbol s = Some (r, pv)"
    and ok: "RT_SUCCESS r \<longrightarrow> (\<exists>u im sy. u \<in> set (s_pLdrUsage ss) \<and> imgs s (u_ref u) = Some im \<and> i_pvImage im = base \<and>
       i_uState im = SUP_IOCTL_LDR_LOAD \<and> ldr_sym (i_pachStrTab im) (szSymbol @ [0]) (i_paSymbols im) = Some sy \<and>
       pv = base + scast sy)" by blast
  have key: "length (szSymbol @ [0]) = Suc (length szSymbol)" by simp
  show ?thesis
    using ok unfolding ldr_sym_first key
    by (intro exI[of _ r] exI[of _ pv] conjI r impI) (elim impE exE conjE, assumption, blast)
qed

theorem ldr_get_symbol_first_match_witness:
  "supdrvIOCtl_LdrGetSymbol 0x10000 0x40000 [0x66, 0x6f, 0x6f] driver3 = Some (VINF_SUCCESS, 0x40004) \<and>
   (\<exists>im i. imgs driver3 0x30000 = Some im \<and> i < length (i_paSymbols im) \<and>
     (0x40004 :: addr) = 0x40000 + scast (sym_offSymbol (i_paSymbols im ! i)))"
proof -
  have r: "supdrvIOCtl_LdrGetSymbol 0x10000 0x40000 [0x66, 0x6f, 0x6f] driver3 = Some (VINF_SUCCESS, 0x40004)"
    by (simp add: supdrvIOCtl_LdrGetSymbol_def img1_def bytes_at_def)
  have "sessions driver3 0x10000 = Some (session0\<lparr>s_pLdrUsage := [\<lparr>u_ref = 0x30000, u_cUsage = 1\<rparr>]\<rparr>)" by simp
  from ldr_get_symbol_first_match[where base = "0x40000" and szSymbol = "[0x66, 0x6f, 0x6f]", OF ldr_inv_driver3 this] r
  show ?thesis by (auto split: if_splits)
qed

text \<open>The lookup for other drivers takes a usage record but no reference on the image.  A session
  that only looked up a symbol is left with a record that dangles as soon as the opener frees
  the image: its next loader call that walks the records reads freed memory.\<close>

theorem idc_get_symbol_record_dangles:
  "\<exists>s1 s2. supdrvIDC_LdrGetSymbol 0x11000 0x50000 [0x6d] 0x50040 [0x66, 0x6f, 0x6f] [] ldrenv0 driver3 =
       Some ((VINF_SUCCESS, 0x40004), s1) \<and>
     fst (img_acct s1) = fst (img_acct driver3) \<and>
     supdrvIOCtl_LdrFree 0x10000 0x40000 s1 = Some (VINF_SUCCESS, s2) \<and>
     supdrvIOCtl_LdrFree 0x11000 0x40000 s2 = None"
proof -
  have [simp]: "RT_VALID_PTR 0x50000" "RT_VALID_PTR 0x50040" by (simp_all add: RT_VALID_PTR_def)
  let ?u = "\<lparr>u_ref = 0x30000, u_cUsage = 1\<rparr>"
  let ?s1 = "put_session 0x11000 (session0\<lparr>s_pLdrUsage := [?u]\<rparr>) driver3"
  have 1: "supdrvIDC_LdrGetSymbol 0x11000 0x50000 [0x6d] 0x50040 [0x66, 0x6f, 0x6f] [] ldrenv0 driver3 =
       Some ((VINF_SUCCESS, 0x40004), ?s1)"
    by (simp add: supdrvIDC_LdrGetSymbol_def devext0_def img1_def bytes_at_def supdrvLdrAddUsage_def ldrenv0_def session0_def)
  have "\<exists>s2. supdrvIOCtl_LdrFree 0x10000 0x40000 ?s1 = Some (VINF_SUCCESS, s2) \<and>
      imgs s2 0x30000 = None \<and> sessions s2 0x11000 = Some (session0\<lparr>s_pLdrUsage := [?u]\<rparr>)"
    by (simp add: supdrvIOCtl_LdrFree_def supdrvLdrFree_def supdrvLdrUnsetVMMR0EPs_def devext0_def img1_def)
  then obtain s2 where 2: "supdrvIOCtl_LdrFree 0x10000 0x40000 ?s1 = Some (VINF_SUCCESS, s2)"
    "imgs s2 0x30000 = None" "sessions s2 0x11000 = Some (session0\<lparr>s_pLdrUsage := [?u]\<rparr>)" by blast
  then have "supdrvIOCtl_LdrFree 0x11000 0x40000 s2 = None" by (simp add: supdrvIOCtl_LdrFree_def)
  with 1 2(1) show ?thesis by auto
qed

text \<open>The lookup for other drivers reports success for a symbol that a loaded module does not
  have, and answers the module name's address as the symbol.\<close>

theorem idc_get_symbol_missing_succeeds:
  assumes "RT_VALID_PTR pszSymbol" "length szSymbol < 512" "RT_VALID_PTR pszModule" "length szModule < 64"
    "szModule \<noteq> [0x53, 0x75, 0x70, 0x44, 0x72, 0x76]"
    "ldr_by_name (imgs s) szModule (d_pLdrImages (devext s)) = Some (Some p)" "imgs s p = Some im"
    "i_uState im = SUP_IOCTL_LDR_LOAD" "ldr_sym (i_pachStrTab im) (szSymbol @ [0]) (i_paSymbols im) = None"
  shows "supdrvIDC_LdrGetSymbol a pszModule szModule pszSymbol szSymbol fns env s = Some ((VINF_SUCCESS, pszModule), s)"
proof -
  have "pszModule \<noteq> 0" using assms(3) by auto
  with assms show ?thesis by (simp add: supdrvIDC_LdrGetSymbol_def)
qed

theorem idc_get_symbol_missing_succeeds_witness:
  "supdrvIDC_LdrGetSymbol 0x11000 0x50000 [0x6d] 0x50040 [0x62, 0x61, 0x72] [] ldrenv0 driver3 = Some ((VINF_SUCCESS, 0x50000), driver3)"
proof (rule idc_get_symbol_missing_succeeds)
  show "imgs driver3 0x30000 = Some img1" by simp
qed (simp_all add: RT_VALID_PTR_def devext0_def img1_def bytes_at_def)

text \<open>Opening an image that is already there counts a reference even when the session's usage
  record cannot be allocated, and reports success; the session has no handle to give the
  reference back, so its free request is rejected and the image stays.\<close>

theorem ldr_open_without_record:
  assumes "ldr_inv K s" "sessions s a = Some ss" "imgs s p = Some im"
    "usage_find p (s_pLdrUsage ss) = None" "\<not> le_fUsage env"
    "\<forall>u \<in> set (s_pLdrUsage ss). \<forall>im'. imgs s (u_ref u) = Some im' \<longrightarrow> i_pvImage im' \<noteq> i_pvImage im"
  shows "\<exists>s'. supdrvIOCtl_LdrOpen a (i_szName im) cbTabs cbBits env s =
       Some ((VINF_SUCCESS, i_pvImage im, i_uState im = SUP_IOCTL_LDR_OPEN, i_fNative im), s') \<and>
     imgs s' = (imgs s)(p \<mapsto> im\<lparr>i_cUsage := i_cUsage im + 1\<rparr>) \<and> sessions s' = sessions s \<and>
     supdrvIOCtl_LdrFree a (i_pvImage im) s' = Some (VERR_INVALID_HANDLE, s')"
proof -
  have uniq: "\<And>q im'. imgs s q = Some im' \<Longrightarrow> i_szName im' = i_szName im \<Longrightarrow> q = p"
    using assms(1,3) unfolding ldr_inv_def by blast
  have live: "\<exists>im'. imgs s (u_ref u) = Some im'" if "u \<in> set (s_pLdrUsage ss)" for u
    using ldr_inv_usage[OF assms(1,2) that] by auto
  have pin: "p \<in> set (d_pLdrImages (devext s))" using ldr_inv_list[OF assms(1)] assms(3) by auto
  have "\<exists>r. ldr_by_name (imgs s) (i_szName im) (d_pLdrImages (devext s)) = Some r \<and>
    (case r of None \<Rightarrow> \<forall>p \<in> set (d_pLdrImages (devext s)). \<forall>im'. imgs s p = Some im' \<longrightarrow> i_szName im' \<noteq> i_szName im
      | Some p \<Rightarrow> p \<in> set (d_pLdrImages (devext s)) \<and> (\<exists>im'. imgs s p = Some im' \<and> i_szName im' = i_szName im))"
    by (rule ldr_by_name_ok) (use ldr_inv_list[OF assms(1)] in auto)
  then obtain hit where h: "ldr_by_name (imgs s) (i_szName im) (d_pLdrImages (devext s)) = Some hit"
    "case hit of None \<Rightarrow> \<forall>p \<in> set (d_pLdrImages (devext s)). \<forall>im'. imgs s p = Some im' \<longrightarrow> i_szName im' \<noteq> i_szName im
      | Some p \<Rightarrow> p \<in> set (d_pLdrImages (devext s)) \<and> (\<exists>im'. imgs s p = Some im' \<and> i_szName im' = i_szName im)"
    by (elim exE conjE) (rule that)
  have hit: "hit = Some p"
  proof (cases hit)
    case None
    with h(2) have "\<forall>q \<in> set (d_pLdrImages (devext s)). \<forall>im'. imgs s q = Some im' \<longrightarrow> i_szName im' \<noteq> i_szName im"
      by (simp only: option.case)
    with pin assms(3) show ?thesis by blast
  next
    case (Some q)
    with h(2) obtain im' where "imgs s q = Some im'" "i_szName im' = i_szName im" by auto
    from uniq[OF this] Some show ?thesis by simp
  qed
  let ?s' = "put_img p (im\<lparr>i_cUsage := i_cUsage im + 1\<rparr>) s"
  have find: "ldr_find (imgs ?s') (i_pvImage im) us = Some None"
    if "set us \<subseteq> set (s_pLdrUsage ss)" "usage_find p us = None" for us
    using that
  proof (induction us)
    case (Cons u us)
    from Cons.prems live obtain im' where im': "imgs s (u_ref u) = Some im'" by auto
    with Cons.prems assms(6) have "i_pvImage im' \<noteq> i_pvImage im" by auto
    with im' Cons show ?case by (auto split: if_splits)
  qed simp
  show ?thesis
    using h(1) hit assms find[of "s_pLdrUsage ss"]
    by (intro exI[of _ ?s']) (simp add: supdrvIOCtl_LdrOpen_def supdrvLdrAddUsage_def supdrvIOCtl_LdrFree_def)
qed

theorem ldr_open_without_record_witness:
  "\<exists>s'. supdrvIOCtl_LdrOpen 0x11000 [0x6d] 28 16 (ldrenv0\<lparr>le_fUsage := False\<rparr>) driver3 =
       Some ((VINF_SUCCESS, 0x40000, False, False), s') \<and>
     supdrvIOCtl_LdrFree 0x11000 0x40000 s' = Some (VERR_INVALID_HANDLE, s')"
proof -
  have "sessions driver3 0x11000 = Some session0" "imgs driver3 0x30000 = Some img1"
    "usage_find 0x30000 (s_pLdrUsage session0) = None" "\<not> le_fUsage (ldrenv0\<lparr>le_fUsage := False\<rparr>)"
    "\<forall>u \<in> set (s_pLdrUsage session0). \<forall>im'. imgs driver3 (u_ref u) = Some im' \<longrightarrow> i_pvImage im' \<noteq> i_pvImage img1"
    by (simp_all add: session0_def)
  from ldr_open_without_record[OF ldr_inv_driver3 this, of 28 16] show ?thesis by (auto simp: img1_def)
qed

end
