(* ===== verification/SupFactory.thy ===== *)
theory SupFactory
  imports SupObj
begin

text \<open>
  Component factories: other kernel drivers register a factory structure with the support
  driver, and clients look factories up by name and ask them for an interface.  The structures
  live in the memory of the registering driver (\<^const>\<open>factories\<close>); the driver only keeps pointers
  and the length of the name it has seen at registration.
\<close>

section \<open>Strings\<close>

text \<open>
  \<open>RTStrEnd\<close>: the index of the first terminator among the first \<open>cchMax\<close> bytes, if there is one.
  The list is the readable memory at the pointer; running off its end is a fault.
\<close>

fun RTStrEnd :: "u8 list \<Rightarrow> nat \<Rightarrow> nat option option" where
  "RTStrEnd bs 0 = Some None"
| "RTStrEnd [] (Suc n) = None"
| "RTStrEnd (b # bs) (Suc n) = (if b = 0 then Some (Some 0) else map_option (map_option Suc) (RTStrEnd bs n))"

lemma RTStrEnd_Some:
  "RTStrEnd bs n = Some (Some i) \<Longrightarrow> i < n \<and> i < length bs \<and> bs ! i = 0 \<and> 0 \<notin> set (take i bs)"
proof (induction bs n arbitrary: i rule: RTStrEnd.induct)
  case (3 b bs n)
  then show ?case by (cases "b = 0") (auto simp: less_Suc_eq_0_disj)
qed simp_all

lemma RTStrEnd_no_fault: "n \<le> length bs \<Longrightarrow> \<exists>r. RTStrEnd bs n = Some r"
  by (induction bs n rule: RTStrEnd.induct) auto

lemma RTStrEnd_Cons:
  "0 < n \<Longrightarrow> RTStrEnd (b # bs) n = (if b = 0 then Some (Some 0) else map_option (map_option Suc) (RTStrEnd bs (n - 1)))"
  by (cases n) simp_all

section \<open>Operations\<close>

text \<open>The walk for the registration of a factory structure, and unlinking it.\<close>

fun reg_find :: "addr \<Rightarrow> SUPDRVFACTORYREG list \<Rightarrow> SUPDRVFACTORYREG option" where
  "reg_find p [] = None"
| "reg_find p (r # rs) = (if r_pFactory r = p then Some r else reg_find p rs)"

fun reg_unlink :: "addr \<Rightarrow> SUPDRVFACTORYREG list \<Rightarrow> SUPDRVFACTORYREG list" where
  "reg_unlink p [] = []"
| "reg_unlink p (r # rs) = (if r_pFactory r = p then rs else r # reg_unlink p rs)"

definition set_regs :: "SUPDRVFACTORYREG list \<Rightarrow> supdrv \<Rightarrow> supdrv" where
  "set_regs rs = upd_devext (\<lambda>d. d\<lparr>d_pComponentFactoryHead := rs\<rparr>)"

definition SUPR0ComponentRegisterFactory :: "addr \<Rightarrow> addr \<Rightarrow> bool \<Rightarrow> supdrv \<Rightarrow> (rc \<times> supdrv) option" where
  "SUPR0ComponentRegisterFactory pSession pFactory fAlloc s = do {
     ss \<leftarrow> sessions s pSession;
     if \<not> SUP_IS_SESSION_VALID pSession ss then Some (VERR_INVALID_PARAMETER, s)
     else if s_R0Process ss \<noteq> NIL_RTR0PROCESS then Some (VERR_ACCESS_DENIED, s)
     else if \<not> RT_VALID_PTR pFactory then Some (VERR_INVALID_POINTER, s)
     else do {
       f \<leftarrow> factories s pFactory;
       if \<not> RT_VALID_PTR (f_pfnQueryFactoryInterface f) then Some (VERR_INVALID_POINTER, s)
       else do {
         psz \<leftarrow> RTStrEnd (f_szName f) 56;
         case psz of
           None \<Rightarrow> Some (VERR_INVALID_PARAMETER, s)
         | Some cch \<Rightarrow>
             if \<not> fAlloc then Some (VERR_NO_MEMORY, s)
             else (case reg_find pFactory (d_pComponentFactoryHead (devext s)) of
                 Some _ \<Rightarrow> Some (VERR_ALREADY_EXISTS, s)
               | None \<Rightarrow> Some (VINF_SUCCESS, set_regs (d_pComponentFactoryHead (devext s) @
                     [\<lparr>r_pFactory = pFactory, r_pSession = pSession, r_cchName = cch\<rparr>]) s))
       }
     }
   }"

definition SUPR0ComponentDeregisterFactory :: "addr \<Rightarrow> addr \<Rightarrow> supdrv \<Rightarrow> (rc \<times> supdrv) option" where
  "SUPR0ComponentDeregisterFactory pSession pFactory s = do {
     ss \<leftarrow> sessions s pSession;
     if \<not> SUP_IS_SESSION_VALID pSession ss then Some (VERR_INVALID_PARAMETER, s)
     else if s_R0Process ss \<noteq> NIL_RTR0PROCESS then Some (VERR_ACCESS_DENIED, s)
     else if \<not> RT_VALID_PTR pFactory then Some (VERR_INVALID_POINTER, s)
     else (case reg_find pFactory (d_pComponentFactoryHead (devext s)) of
         Some _ \<Rightarrow> Some (VINF_SUCCESS, set_regs (reg_unlink pFactory (d_pComponentFactoryHead (devext s))) s)
       | None \<Rightarrow> Some (VERR_NOT_FOUND, s))
   }"

text \<open>
  The search over the registrations.  Every factory that bears the name is asked, until one
  answers an interface; \<open>q\<close> is the answer of a query function for a factory (0 for none).  The
  result carries the calls made.
\<close>

fun factory_query :: "(addr \<rightharpoonup> SUPDRVFACTORY) \<Rightarrow> (addr \<Rightarrow> addr \<Rightarrow> addr) \<Rightarrow> addr \<Rightarrow> u8 list \<Rightarrow> rc \<Rightarrow>
    SUPDRVFACTORYREG list \<Rightarrow> (rc \<times> addr \<times> ext_call list) option" where
  "factory_query h q pSession szName rc [] = Some (rc, 0, [])"
| "factory_query h q pSession szName rc (r # rs) =
     (if r_cchName r \<noteq> length szName then factory_query h q pSession szName rc rs
      else do {
        f \<leftarrow> h (r_pFactory r);
        if length (f_szName f) < length szName then None
        else if take (length szName) (f_szName f) \<noteq> szName then factory_query h q pSession szName rc rs
        else do {
          let pv = q (f_pfnQueryFactoryInterface f) (r_pFactory r);
          let c = Call_QueryFactory (f_pfnQueryFactoryInterface f) (r_pFactory r) pSession;
          if pv \<noteq> 0 then Some (VINF_SUCCESS, pv, [c])
          else do {
            (rc', pv', cs) \<leftarrow> factory_query h q pSession szName VERR_SUPDRV_INTERFACE_NOT_SUPPORTED rs;
            Some (rc', pv', c # cs)
          }
        }
      })"

text \<open>
  Name and UUID are given by pointer and by the memory found there.  Answers the status and the
  interface.
\<close>

definition SUPR0ComponentQueryFactory ::
  "addr \<Rightarrow> addr \<Rightarrow> u8 list \<Rightarrow> addr \<Rightarrow> u8 list \<Rightarrow> addr \<Rightarrow> (addr \<Rightarrow> addr \<Rightarrow> addr) \<Rightarrow> supdrv \<Rightarrow> ((rc \<times> addr) \<times> supdrv) option" where
  "SUPR0ComponentQueryFactory pSession pszName abName pszInterfaceUuid abUuid ppvFactoryIf q s = do {
     ss \<leftarrow> sessions s pSession;
     if \<not> SUP_IS_SESSION_VALID pSession ss then Some ((VERR_INVALID_PARAMETER, 0), s)
     else if \<not> RT_VALID_PTR pszName then Some ((VERR_INVALID_POINTER, 0), s)
     else do {
       pszEnd \<leftarrow> RTStrEnd abName 56;
       case pszEnd of
         None \<Rightarrow> Some ((VERR_INVALID_PARAMETER, 0), s)
       | Some cchName \<Rightarrow>
           if \<not> RT_VALID_PTR pszInterfaceUuid then Some ((VERR_INVALID_POINTER, 0), s)
           else do {
             pszEndUuid \<leftarrow> RTStrEnd abUuid 37;
             if pszEndUuid = None then Some ((VERR_INVALID_PARAMETER, 0), s)
             else if \<not> RT_VALID_PTR ppvFactoryIf then Some ((VERR_INVALID_POINTER, 0), s)
             else do {
               (rc, pv, cs) \<leftarrow> factory_query (factories s) q pSession (take cchName abName)
                 VERR_SUPDRV_COMPONENT_NOT_FOUND (d_pComponentFactoryHead (devext s));
               Some ((rc, pv), s\<lparr>calls := calls s @ cs\<rparr>)
             }
           }
     }
   }"

text \<open>The factory part of session cleanup: a walk that unlinks every registration of the session.\<close>

fun regs_cleanup :: "addr \<Rightarrow> SUPDRVFACTORYREG list \<Rightarrow> SUPDRVFACTORYREG list" where
  "regs_cleanup pSession [] = []"
| "regs_cleanup pSession (r # rs) =
     (if r_pSession r = pSession then regs_cleanup pSession rs else r # regs_cleanup pSession rs)"

definition supdrvCleanupSession_factories :: "addr \<Rightarrow> supdrv \<Rightarrow> supdrv" where
  "supdrvCleanupSession_factories pSession s =
     set_regs (regs_cleanup pSession (d_pComponentFactoryHead (devext s))) s"

section \<open>The invariant\<close>

text \<open>
  A registration is for a structure that is there, with the length of its name, by an open
  kernel session; no structure is registered twice.
\<close>

definition reg_ok :: "supdrv \<Rightarrow> SUPDRVFACTORYREG \<Rightarrow> bool" where
  "reg_ok s r \<longleftrightarrow> (\<exists>f. factories s (r_pFactory r) = Some f \<and> RTStrEnd (f_szName f) 56 = Some (Some (r_cchName r)) \<and>
       RT_VALID_PTR (f_pfnQueryFactoryInterface f)) \<and>
     (\<exists>ss. sessions s (r_pSession r) = Some ss \<and> s_R0Process ss = NIL_RTR0PROCESS)"

definition fact_inv :: "supdrv \<Rightarrow> bool" where
  "fact_inv s \<longleftrightarrow> distinct (map r_pFactory (d_pComponentFactoryHead (devext s))) \<and>
     (\<forall>r \<in> set (d_pComponentFactoryHead (devext s)). reg_ok s r)"

lemma set_regs_simps [simp]:
  "d_pComponentFactoryHead (devext (set_regs rs s)) = rs" "sessions (set_regs rs s) = sessions s"
  "objs (set_regs rs s) = objs s" "imgs (set_regs rs s) = imgs s" "memobjs (set_regs rs s) = memobjs s"
  "factories (set_regs rs s) = factories s" "calls (set_regs rs s) = calls s"
  by (simp_all add: set_regs_def)

lemma reg_ok_set_regs [simp]: "reg_ok (set_regs rs s) r = reg_ok s r"
  by (simp add: reg_ok_def)

lemma reg_find_None: "reg_find p rs = None \<longleftrightarrow> p \<notin> r_pFactory ` set rs"
  by (induction rs) auto

lemma reg_unlink_filter: "distinct (map r_pFactory rs) \<Longrightarrow> reg_unlink p rs = filter (\<lambda>r. r_pFactory r \<noteq> p) rs"
proof (induction rs)
  case (Cons r rs)
  show ?case
  proof (cases "r_pFactory r = p")
    case True
    with Cons.prems have "p \<notin> r_pFactory ` set rs" by simp
    then have "\<forall>r' \<in> set rs. r_pFactory r' \<noteq> p" by auto
    then have "filter (\<lambda>r. r_pFactory r \<noteq> p) rs = rs" by (simp add: filter_id_conv)
    with True show ?thesis by simp
  qed (use Cons in simp)
qed simp

lemma reg_append:
  "reg_find p rs = None \<Longrightarrow> r_pFactory r = p \<Longrightarrow> reg_find p (rs @ [r]) = Some r"
  "reg_find p rs = None \<Longrightarrow> r_pFactory r = p \<Longrightarrow> reg_unlink p (rs @ [r]) = rs"
  by (induction rs) (auto split: if_splits)

lemma regs_cleanup_filter: "regs_cleanup a rs = filter (\<lambda>r. r_pSession r \<noteq> a) rs"
  by (induction rs) auto

lemma fact_inv_filter:
  "fact_inv s \<Longrightarrow> fact_inv (set_regs (filter P (d_pComponentFactoryHead (devext s))) s)"
  by (auto simp: fact_inv_def distinct_map_filter)

lemma RegisterFactory_ok:
  assumes inv: "fact_inv s" and ss: "sessions s a \<noteq> None"
    and f: "RT_VALID_PTR p \<longrightarrow> (\<exists>f. factories s p = Some f \<and> length (f_szName f) = 56)"
  shows "\<exists>r s'. SUPR0ComponentRegisterFactory a p al s = Some (r, s') \<and> fact_inv s' \<and>
    (s' = s \<and> RT_FAILURE r \<or> r = VINF_SUCCESS \<and> p \<notin> r_pFactory ` set (d_pComponentFactoryHead (devext s)) \<and>
      (\<exists>cch. s' = set_regs (d_pComponentFactoryHead (devext s) @ [\<lparr>r_pFactory = p, r_pSession = a, r_cchName = cch\<rparr>]) s))"
proof -
  from ss obtain ss where ss: "sessions s a = Some ss" by auto
  show ?thesis
  proof (cases "SUP_IS_SESSION_VALID a ss \<and> s_R0Process ss = NIL_RTR0PROCESS \<and> RT_VALID_PTR p")
    case False
    with ss inv show ?thesis by (auto simp: SUPR0ComponentRegisterFactory_def)
  next
    case True
    with f obtain f where f: "factories s p = Some f" "length (f_szName f) = 56" by blast
    obtain psz where psz: "RTStrEnd (f_szName f) 56 = Some psz" using RTStrEnd_no_fault[of 56 "f_szName f"] f by auto
    show ?thesis
    proof (cases "RT_VALID_PTR (f_pfnQueryFactoryInterface f) \<and> psz \<noteq> None \<and> al \<and> reg_find p (d_pComponentFactoryHead (devext s)) = None")
      case False
      with True ss f psz inv show ?thesis by (auto simp: SUPR0ComponentRegisterFactory_def split: option.split)
    next
      case ok: True
      then obtain cch where cch: "psz = Some cch" by auto
      have new: "p \<notin> r_pFactory ` set (d_pComponentFactoryHead (devext s))" using ok by (simp add: reg_find_None)
      let ?r = "\<lparr>r_pFactory = p, r_pSession = a, r_cchName = cch\<rparr>"
      have "reg_ok s ?r" using True ss f psz cch ok by (auto simp: reg_ok_def)
      with inv new have "fact_inv (set_regs (d_pComponentFactoryHead (devext s) @ [?r]) s)"
        by (auto simp: fact_inv_def)
      with True ss f psz cch ok new show ?thesis by (auto simp: SUPR0ComponentRegisterFactory_def)
    qed
  qed
qed
lemma DeregisterFactory_ok:
  assumes inv: "fact_inv s" and ss: "sessions s a \<noteq> None"
  shows "\<exists>r s'. SUPR0ComponentDeregisterFactory a p s = Some (r, s') \<and> fact_inv s' \<and>
    (s' = s \<and> RT_FAILURE r \<or> r = VINF_SUCCESS \<and>
      s' = set_regs (filter (\<lambda>r. r_pFactory r \<noteq> p) (d_pComponentFactoryHead (devext s))) s)"
proof -
  from ss obtain ss where ss: "sessions s a = Some ss" by auto
  have "reg_unlink p (d_pComponentFactoryHead (devext s)) = filter (\<lambda>r. r_pFactory r \<noteq> p) (d_pComponentFactoryHead (devext s))"
    using inv by (intro reg_unlink_filter) (simp add: fact_inv_def)
  with ss inv fact_inv_filter[OF inv, of "\<lambda>r. r_pFactory r \<noteq> p"] show ?thesis
    by (auto simp: SUPR0ComponentDeregisterFactory_def split: option.split)
qed

text \<open>The registrations that bear a name, in registration order.\<close>

definition reg_named :: "(addr \<rightharpoonup> SUPDRVFACTORY) \<Rightarrow> u8 list \<Rightarrow> SUPDRVFACTORYREG \<Rightarrow> bool" where
  "reg_named h szName r \<longleftrightarrow> r_cchName r = length szName \<and>
     (\<exists>f. h (r_pFactory r) = Some f \<and> take (r_cchName r) (f_szName f) = szName)"

definition reg_answer :: "(addr \<rightharpoonup> SUPDRVFACTORY) \<Rightarrow> (addr \<Rightarrow> addr \<Rightarrow> addr) \<Rightarrow> SUPDRVFACTORYREG \<Rightarrow> addr" where
  "reg_answer h q r = (case h (r_pFactory r) of None \<Rightarrow> 0 | Some f \<Rightarrow> q (f_pfnQueryFactoryInterface f) (r_pFactory r))"

text \<open>What a lookup promises: the first non-null answer among the factories of the name.\<close>

definition query_spec :: "(addr \<rightharpoonup> SUPDRVFACTORY) \<Rightarrow> (addr \<Rightarrow> addr \<Rightarrow> addr) \<Rightarrow> u8 list \<Rightarrow> rc \<Rightarrow>
    SUPDRVFACTORYREG list \<Rightarrow> rc \<times> addr" where
  "query_spec h q szName rc rs = (case filter (\<lambda>r. reg_answer h q r \<noteq> 0) (filter (reg_named h szName) rs) of
     r # _ \<Rightarrow> (VINF_SUCCESS, reg_answer h q r)
   | [] \<Rightarrow> (if filter (reg_named h szName) rs = [] then rc else VERR_SUPDRV_INTERFACE_NOT_SUPPORTED, 0))"

lemma factory_query_spec:
  assumes "\<forall>r \<in> set rs. \<exists>f. h (r_pFactory r) = Some f \<and> r_cchName r < length (f_szName f)"
  shows "\<exists>cs. factory_query h q a szName rc rs = Some (fst (query_spec h q szName rc rs), snd (query_spec h q szName rc rs), cs) \<and>
    (\<forall>c \<in> set cs. \<exists>r \<in> set rs. \<exists>f. h (r_pFactory r) = Some f \<and> c = Call_QueryFactory (f_pfnQueryFactoryInterface f) (r_pFactory r) a)"
  using assms
proof (induction rs arbitrary: rc)
  case Nil
  then show ?case by (simp add: query_spec_def)
next
  case (Cons r rs)
  from Cons.prems obtain f where f: "h (r_pFactory r) = Some f" "r_cchName r < length (f_szName f)" by auto
  have ih: "\<exists>cs. factory_query h q a szName rc rs = Some (fst (query_spec h q szName rc rs), snd (query_spec h q szName rc rs), cs) \<and>
    (\<forall>c \<in> set cs. \<exists>r' \<in> set (r # rs). \<exists>f. h (r_pFactory r') = Some f \<and> c = Call_QueryFactory (f_pfnQueryFactoryInterface f) (r_pFactory r') a)"
    for rc using Cons.IH[of rc] Cons.prems by fastforce
  show ?case
  proof (cases "reg_named h szName r")
    case False
    with f have "factory_query h q a szName rc (r # rs) = factory_query h q a szName rc rs"
      by (auto simp: reg_named_def)
    moreover have "query_spec h q szName rc (r # rs) = query_spec h q szName rc rs"
      using False by (simp add: query_spec_def)
    ultimately show ?thesis using ih by simp
  next
    case True
    with f have n: "r_cchName r = length szName" "take (length szName) (f_szName f) = szName"
      "\<not> length (f_szName f) < length szName" by (auto simp: reg_named_def)
    let ?pv = "q (f_pfnQueryFactoryInterface f) (r_pFactory r)"
    have pv: "reg_answer h q r = ?pv" using f by (simp add: reg_answer_def)
    show ?thesis
    proof (cases "?pv = 0")
      case False
      then have "query_spec h q szName rc (r # rs) = (VINF_SUCCESS, ?pv)" using True pv by (simp add: query_spec_def)
      with False f n show ?thesis by (auto simp: Let_def)
    next
      case z: True
      then have "query_spec h q szName rc (r # rs) = query_spec h q szName VERR_SUPDRV_INTERFACE_NOT_SUPPORTED rs"
        using True pv by (simp add: query_spec_def split: list.split)
      moreover obtain cs where "factory_query h q a szName VERR_SUPDRV_INTERFACE_NOT_SUPPORTED rs =
          Some (fst (query_spec h q szName VERR_SUPDRV_INTERFACE_NOT_SUPPORTED rs), snd (query_spec h q szName VERR_SUPDRV_INTERFACE_NOT_SUPPORTED rs), cs)"
        "\<forall>c \<in> set cs. \<exists>r' \<in> set (r # rs). \<exists>f. h (r_pFactory r') = Some f \<and> c = Call_QueryFactory (f_pfnQueryFactoryInterface f) (r_pFactory r') a"
        using ih[of VERR_SUPDRV_INTERFACE_NOT_SUPPORTED] by blast
      ultimately show ?thesis using z f n by (auto simp: Let_def)
    qed
  qed
qed

lemma reg_ok_name: "reg_ok s r \<Longrightarrow> \<exists>f. factories s (r_pFactory r) = Some f \<and> r_cchName r < length (f_szName f)"
  unfolding reg_ok_def using RTStrEnd_Some by blast

section \<open>The factory API as a whole\<close>

text \<open>
  Besides the three calls and session cleanup, a step may be the client driver bringing a factory
  structure into memory or taking it away, which it may only do when it is not registered.
\<close>

datatype fact_op =
    FRegister addr addr bool
  | FDeregister addr addr
  | FQuery addr addr "u8 list" addr "u8 list" addr "addr \<Rightarrow> addr \<Rightarrow> addr"
  | FCleanup addr
  | FLoad addr SUPDRVFACTORY
  | FUnload addr

fun factStep :: "fact_op \<Rightarrow> supdrv \<Rightarrow> supdrv option" where
  "factStep (FRegister a p al) s = map_option snd (SUPR0ComponentRegisterFactory a p al s)"
| "factStep (FDeregister a p) s = map_option snd (SUPR0ComponentDeregisterFactory a p s)"
| "factStep (FQuery a pn n pu u ppv q) s = map_option snd (SUPR0ComponentQueryFactory a pn n pu u ppv q s)"
| "factStep (FCleanup a) s = Some (supdrvCleanupSession_factories a s)"
| "factStep (FLoad p f) s = Some (s\<lparr>factories := (factories s)(p \<mapsto> f)\<rparr>)"
| "factStep (FUnload p) s = Some (s\<lparr>factories := (factories s)(p := None)\<rparr>)"

fun factOpOk :: "fact_op \<Rightarrow> supdrv \<Rightarrow> bool" where
  "factOpOk (FRegister a p al) s \<longleftrightarrow> sessions s a \<noteq> None \<and>
     (RT_VALID_PTR p \<longrightarrow> (\<exists>f. factories s p = Some f \<and> length (f_szName f) = 56))"
| "factOpOk (FDeregister a p) s \<longleftrightarrow> sessions s a \<noteq> None"
| "factOpOk (FQuery a pn n pu u ppv q) s \<longleftrightarrow> sessions s a \<noteq> None \<and>
     RTStrEnd n 56 \<noteq> None \<and> RTStrEnd u 37 \<noteq> None"
| "factOpOk (FCleanup a) s \<longleftrightarrow> sessions s a \<noteq> None"
| "factOpOk (FLoad p f) s \<longleftrightarrow> p \<notin> r_pFactory ` set (d_pComponentFactoryHead (devext s))"
| "factOpOk (FUnload p) s \<longleftrightarrow> p \<notin> r_pFactory ` set (d_pComponentFactoryHead (devext s))"

lemma fact_inv_calls [simp]: "fact_inv (s\<lparr>calls := cs\<rparr>) = fact_inv s"
  by (simp add: fact_inv_def reg_ok_def)

lemma fact_inv_memory:
  "p \<notin> r_pFactory ` set (d_pComponentFactoryHead (devext s)) \<Longrightarrow> fact_inv (s\<lparr>factories := (factories s)(p := v)\<rparr>) = fact_inv s"
  by (auto simp: fact_inv_def reg_ok_def image_iff)

lemma QueryFactory_ok:
  assumes inv: "fact_inv s" and ss: "sessions s a = Some ss"
    and n: "RTStrEnd n 56 = Some en" and u: "RTStrEnd u 37 = Some eu"
  shows "\<exists>r pv cs. SUPR0ComponentQueryFactory a pn n pu u ppv q s = Some ((r, pv), s\<lparr>calls := calls s @ cs\<rparr>) \<and>
    (if SUP_IS_SESSION_VALID a ss \<and> RT_VALID_PTR pn \<and> RT_VALID_PTR pu \<and> RT_VALID_PTR ppv \<and> en \<noteq> None \<and> eu \<noteq> None
     then (r, pv) = query_spec (factories s) q (take (the en) n) VERR_SUPDRV_COMPONENT_NOT_FOUND (d_pComponentFactoryHead (devext s))
     else r \<in> {VERR_INVALID_PARAMETER, VERR_INVALID_POINTER} \<and> pv = 0 \<and> cs = [])"
proof (cases "SUP_IS_SESSION_VALID a ss \<and> RT_VALID_PTR pn \<and> RT_VALID_PTR pu \<and> RT_VALID_PTR ppv \<and> en \<noteq> None \<and> eu \<noteq> None")
  case False
  with ss n u show ?thesis by (auto simp: SUPR0ComponentQueryFactory_def intro!: exI[of _ "[]"] split: option.split)
next
  case True
  then obtain cch where cch: "en = Some cch" by auto
  have "\<forall>r \<in> set (d_pComponentFactoryHead (devext s)). \<exists>f. factories s (r_pFactory r) = Some f \<and> r_cchName r < length (f_szName f)"
    using inv reg_ok_name by (auto simp: fact_inv_def)
  from factory_query_spec[OF this, of q a "take cch n" VERR_SUPDRV_COMPONENT_NOT_FOUND] obtain cs where
    "factory_query (factories s) q a (take cch n) VERR_SUPDRV_COMPONENT_NOT_FOUND (d_pComponentFactoryHead (devext s)) =
     Some (fst (query_spec (factories s) q (take cch n) VERR_SUPDRV_COMPONENT_NOT_FOUND (d_pComponentFactoryHead (devext s))),
           snd (query_spec (factories s) q (take cch n) VERR_SUPDRV_COMPONENT_NOT_FOUND (d_pComponentFactoryHead (devext s))), cs)"
    by blast
  moreover obtain rr vv where
    "query_spec (factories s) q (take cch n) VERR_SUPDRV_COMPONENT_NOT_FOUND (d_pComponentFactoryHead (devext s)) = (rr, vv)"
    by fastforce
  ultimately show ?thesis using True cch ss n u
    by (intro exI[of _ rr] exI[of _ vv] exI[of _ cs]) (auto simp: SUPR0ComponentQueryFactory_def)
qed

lemma factStep_safe: "fact_inv s \<Longrightarrow> factOpOk e s \<Longrightarrow> \<exists>s'. factStep e s = Some s' \<and> fact_inv s'"
proof (cases e)
  case (FRegister a p al)
  assume "fact_inv s" "factOpOk e s"
  with FRegister RegisterFactory_ok[of s a p al] show ?thesis by fastforce
next
  case (FDeregister a p)
  assume "fact_inv s" "factOpOk e s"
  with FDeregister DeregisterFactory_ok[of s a p] show ?thesis by fastforce
next
  case (FQuery a pn n pu u ppv q)
  assume "fact_inv s" "factOpOk e s"
  with FQuery obtain ss en eu where "sessions s a = Some ss" "RTStrEnd n 56 = Some en" "RTStrEnd u 37 = Some eu" by auto
  from QueryFactory_ok[OF \<open>fact_inv s\<close> this, of pn pu ppv q] \<open>fact_inv s\<close> FQuery show ?thesis by auto
next
  case (FCleanup a)
  assume "fact_inv s" "factOpOk e s"
  with FCleanup fact_inv_filter show ?thesis by (simp add: supdrvCleanupSession_factories_def regs_cleanup_filter)
qed (simp_all add: fact_inv_memory)

interpretation factapi: guarded_api factStep factOpOk fact_inv
  by unfold_locales (rule factStep_safe)

section \<open>Properties\<close>

text \<open>A kernel session and a user session, with the factory structures of two network filters in memory, both called \<open>n\<close>.\<close>

definition factory_n :: "addr \<Rightarrow> SUPDRVFACTORY" where
  "factory_n pfn = \<lparr>f_szName = 0x6e # 0 # replicate 54 0, f_pfnQueryFactoryInterface = pfn\<rparr>"

definition driver_f :: supdrv where
  "driver_f = driver0\<lparr>sessions := [0x10000 \<mapsto> session0\<lparr>s_R0Process := NIL_RTR0PROCESS\<rparr>, 0x11000 \<mapsto> session0],
     factories := [0x70000 \<mapsto> factory_n 0x71000, 0x72000 \<mapsto> factory_n 0x73000]\<rparr>"

definition driver_f2 :: supdrv where
  "driver_f2 = set_regs [\<lparr>r_pFactory = 0x70000, r_pSession = 0x10000, r_cchName = 1\<rparr>,
     \<lparr>r_pFactory = 0x72000, r_pSession = 0x10000, r_cchName = 1\<rparr>] driver_f"

lemma driver_f_simps [simp]:
  "devext driver_f = devext0" "factories driver_f = [0x70000 \<mapsto> factory_n 0x71000, 0x72000 \<mapsto> factory_n 0x73000]"
  "sessions driver_f = [0x10000 \<mapsto> session0\<lparr>s_R0Process := NIL_RTR0PROCESS\<rparr>, 0x11000 \<mapsto> session0]"
  by (simp_all add: driver_f_def)

lemma RTStrEnd_factory_n: "RTStrEnd (f_szName (factory_n pfn)) 56 = Some (Some 1)"
  by (simp add: factory_n_def RTStrEnd_Cons)

lemma fact_inv_driver_f: "fact_inv driver_f"
  by (simp add: fact_inv_def devext0_def)

lemma fact_inv_driver_f2: "fact_inv driver_f2"
proof -
  have "RTStrEnd (f_szName (factory_n pfn)) 56 = Some (Some (Suc 0))" for pfn using RTStrEnd_factory_n by simp
  then show ?thesis by (simp add: fact_inv_def driver_f2_def reg_ok_def) (simp add: factory_n_def RT_VALID_PTR_def)
qed

text \<open>Every run of registrations, deregistrations, lookups and session cleanups executes
  without a memory fault, provided client drivers keep a factory structure in memory while it is
  registered.  No structure is ever registered twice, each registration is by an open kernel
  session, and the recorded name length stays that of the structure's name.\<close>

theorem fact_api_safe:
  "fact_inv s \<Longrightarrow> run_ok factStep factOpOk ops s \<Longrightarrow> \<exists>s'. run_steps factStep ops s = Some s' \<and> fact_inv s'"
  by (rule factapi.run_safe)

theorem fact_api_safe_witness:
  "\<exists>s'. run_steps factStep [FRegister 0x10000 0x70000 True, FDeregister 0x10000 0x70000, FUnload 0x70000] driver_f = Some s' \<and> fact_inv s'"
  apply (rule fact_api_safe[OF fact_inv_driver_f])
  apply (simp add: SUPR0ComponentRegisterFactory_def SUPR0ComponentDeregisterFactory_def RTStrEnd_factory_n devext0_def
     SUP_IS_SESSION_VALID_def session0_def RT_VALID_PTR_def)
  apply (simp add: factory_n_def)
  done

text \<open>A lookup with sound arguments answers the first non-null interface among the registered
  factories whose name is exactly the given one, in registration order; without such an answer
  the status says whether no factory bears the name or none of them supports the interface.
  With unsound arguments it is rejected and calls nobody.\<close>

theorem query_finds_first:
  assumes "fact_inv s" "sessions s a = Some ss" "RTStrEnd n 56 = Some en" "RTStrEnd u 37 = Some eu"
  shows "\<exists>r pv cs. SUPR0ComponentQueryFactory a pn n pu u ppv q s = Some ((r, pv), s\<lparr>calls := calls s @ cs\<rparr>) \<and>
    (if SUP_IS_SESSION_VALID a ss \<and> RT_VALID_PTR pn \<and> RT_VALID_PTR pu \<and> RT_VALID_PTR ppv \<and> en \<noteq> None \<and> eu \<noteq> None
     then (r, pv) = query_spec (factories s) q (take (the en) n) VERR_SUPDRV_COMPONENT_NOT_FOUND (d_pComponentFactoryHead (devext s))
     else r \<in> {VERR_INVALID_PARAMETER, VERR_INVALID_POINTER} \<and> pv = 0 \<and> cs = [])"
  by (rule QueryFactory_ok[OF assms])

theorem query_finds_first_witness:
  "\<exists>r pv cs. SUPR0ComponentQueryFactory 0x11000 0x80000 [0x6e, 0] 0x81000 [0x31, 0] 0x82000
     (\<lambda>pfn p. if pfn = 0x73000 then 0x90000 else 0) driver_f2 = Some ((r, pv), driver_f2\<lparr>calls := calls driver_f2 @ cs\<rparr>) \<and>
   r = VINF_SUCCESS \<and> pv = 0x90000"
proof -
  have ss: "sessions driver_f2 0x11000 = Some session0" by (simp add: driver_f2_def)
  have e: "RTStrEnd [0x6e, 0] 56 = Some (Some 1)" "RTStrEnd [0x31, 0] 37 = Some (Some 1)"
    by (simp_all add: RTStrEnd_Cons)
  have q: "query_spec (factories driver_f2) (\<lambda>pfn p. if pfn = 0x73000 then 0x90000 else 0) [0x6e]
     VERR_SUPDRV_COMPONENT_NOT_FOUND (d_pComponentFactoryHead (devext driver_f2)) = (VINF_SUCCESS, 0x90000)"
    by (simp add: query_spec_def reg_named_def reg_answer_def driver_f2_def factory_n_def)
  show ?thesis
    using query_finds_first[OF fact_inv_driver_f2 ss e, of "0x80000" "0x81000" "0x82000" "\<lambda>pfn p. if pfn = 0x73000 then 0x90000 else 0"] q
    by (simp add: SUP_IS_SESSION_VALID_def session0_def RT_VALID_PTR_def)
qed

text \<open>Registering a factory and deregistering it, by the same or any other kernel session,
  leaves the driver exactly as it was; registering it a second time is refused and changes
  nothing.\<close>

theorem register_deregister:
  assumes "fact_inv s" "SUPR0ComponentRegisterFactory a p al s = Some (VINF_SUCCESS, s')"
    and "sessions s b = Some sb" "SUP_IS_SESSION_VALID b sb" "s_R0Process sb = NIL_RTR0PROCESS"
  shows "SUPR0ComponentDeregisterFactory b p s' = Some (VINF_SUCCESS, s) \<and>
    SUPR0ComponentRegisterFactory a p True s' = Some (VERR_ALREADY_EXISTS, s')"
proof -
  let ?rs = "d_pComponentFactoryHead (devext s)"
  from assms(2) obtain cch where r: "SUP_IS_SESSION_VALID a (the (sessions s a))" "RT_VALID_PTR p" "reg_find p ?rs = None"
    and s': "s' = set_regs (?rs @ [\<lparr>r_pFactory = p, r_pSession = a, r_cchName = cch\<rparr>]) s"
    by (auto simp: SUPR0ComponentRegisterFactory_def split: Option.bind_splits option.splits if_splits)
  have app: "reg_find p (?rs @ [r]) = Some r" "reg_unlink p (?rs @ [r]) = ?rs" if "r_pFactory r = p" for r
    by (rule reg_append[OF r(3) that])+
  have "set_regs ?rs (set_regs rs s) = s" for rs
    by (simp add: set_regs_def upd_devext_def)
  with s' r app assms(3-5) have "SUPR0ComponentDeregisterFactory b p s' = Some (VINF_SUCCESS, s)"
    by (simp add: SUPR0ComponentDeregisterFactory_def)
  moreover have "SUPR0ComponentRegisterFactory a p True s' = Some (VERR_ALREADY_EXISTS, s')"
    using assms(2) s' app
    by (auto simp: SUPR0ComponentRegisterFactory_def split: Option.bind_splits option.splits if_splits)
  ultimately show ?thesis ..
qed

theorem register_deregister_witness:
  "\<exists>s'. SUPR0ComponentRegisterFactory 0x10000 0x70000 True driver_f = Some (VINF_SUCCESS, s') \<and>
    SUPR0ComponentDeregisterFactory 0x10000 0x70000 s' = Some (VINF_SUCCESS, driver_f)"
proof -
  have v: "SUP_IS_SESSION_VALID 0x10000 (session0\<lparr>s_R0Process := NIL_RTR0PROCESS\<rparr>)"
    by (simp add: SUP_IS_SESSION_VALID_def session0_def RT_VALID_PTR_def)
  have p: "RT_VALID_PTR 0x70000" "RT_VALID_PTR (f_pfnQueryFactoryInterface (factory_n 0x71000))"
    by (simp_all add: RT_VALID_PTR_def factory_n_def)
  have r: "SUPR0ComponentRegisterFactory 0x10000 0x70000 True driver_f = Some (VINF_SUCCESS,
      set_regs [\<lparr>r_pFactory = 0x70000, r_pSession = 0x10000, r_cchName = 1\<rparr>] driver_f)"
    by (simp add: SUPR0ComponentRegisterFactory_def RTStrEnd_factory_n v p)(simp add: devext0_def)
  show ?thesis using register_deregister[OF fact_inv_driver_f r, of "0x10000"] v r by simp
qed

text \<open>Cleaning up a session withdraws exactly the factories it registered, keeps the order of the
  others, and touches nothing but the registration list; afterwards no registration names it.\<close>

theorem cleanup_factories_exact:
  "supdrvCleanupSession_factories a s =
     set_regs (filter (\<lambda>r. r_pSession r \<noteq> a) (d_pComponentFactoryHead (devext s))) s \<and>
   a \<notin> r_pSession ` set (d_pComponentFactoryHead (devext (supdrvCleanupSession_factories a s)))"
  by (auto simp: supdrvCleanupSession_factories_def regs_cleanup_filter)

end
