(* ===== verification/SupGipPage.thy ===== *)
theory SupGipPage
  imports SupTypes
begin

text \<open>
  The global information page (GIP): a page shared read-only with ring 3 that carries, for each
  CPU, a pair of time stamps (TSC and nanoseconds) and the measured update interval.  This
  theory has the operations on the page itself: initialisation, the update made by the timer
  tick, the CPU table, and the choice of the update mode.  Readings of the TSC and the system
  clock are arguments.
\<close>

section \<open>Constants\<close>

abbreviation "SUPGLOBALINFOPAGE_MAGIC \<equiv> (0x19590106::u32)"
abbreviation "SUPGLOBALINFOPAGE_VERSION \<equiv> (0x00030000::u32)"
abbreviation "GIP_UPDATEHZ_RECALC_FREQ \<equiv> (0x800::u32)"
abbreviation "RTCPUSET_MAX_CPUS \<equiv> (256::nat)"
abbreviation "NIL_RTCPUID \<equiv> (- 1::u32)"
abbreviation "UINT16_MAX \<equiv> (- 1::16 word)"
abbreviation "FourG \<equiv> (0x100000000::u64)"

section \<open>CPU ids and CPU sets\<close>

text \<open>\<open>NR_CPUS\<close> is the constant the host kernel was built with.\<close>

definition RTMpCpuIdToSetIndex :: "nat \<Rightarrow> u32 \<Rightarrow> int" where
  "RTMpCpuIdToSetIndex NR_CPUS idCpu =
     (if unat idCpu < RTCPUSET_MAX_CPUS \<and> unat idCpu < NR_CPUS then int (unat idCpu) else -1)"

definition RTMpCpuIdFromSetIndex :: "nat \<Rightarrow> nat \<Rightarrow> u32" where
  "RTMpCpuIdFromSetIndex NR_CPUS iCpu = (if iCpu < NR_CPUS then of_nat iCpu else NIL_RTCPUID)"

definition RTCpuSetAddByIndex :: "int \<Rightarrow> RTCPUSET \<Rightarrow> RTCPUSET" where
  "RTCpuSetAddByIndex iCpu S = (if iCpu < 0 \<or> int RTCPUSET_MAX_CPUS \<le> iCpu then S else set_bit (nat iCpu) S)"

definition RTCpuSetDelByIndex :: "int \<Rightarrow> RTCPUSET \<Rightarrow> RTCPUSET" where
  "RTCpuSetDelByIndex iCpu S = (if iCpu < 0 \<or> int RTCPUSET_MAX_CPUS \<le> iCpu then S else unset_bit (nat iCpu) S)"

definition RTCpuSetIsMember :: "nat \<Rightarrow> RTCPUSET \<Rightarrow> u32 \<Rightarrow> bool" where
  "RTCpuSetIsMember NR_CPUS S idCpu =
     (let iCpu = RTMpCpuIdToSetIndex NR_CPUS idCpu in 0 \<le> iCpu \<and> bit S (nat iCpu))"

section \<open>The per CPU data\<close>

text \<open>A zero divisor is a divide error, which faults.\<close>

definition supdrvGipInitCpu :: "SUPGLOBALINFOPAGE \<Rightarrow> u64 \<Rightarrow> u64 \<Rightarrow> SUPGIPCPU \<Rightarrow> SUPGIPCPU option" where
  "supdrvGipInitCpu pGip u64NanoTS TSC c =
     (if g_u32UpdateHz pGip = 0 then None
      else let v = ucast (FourG div ucast (g_u32UpdateHz pGip)) :: u32 in
        Some (c\<lparr>gc_u32TransactionId := 2, gc_u64NanoTS := u64NanoTS, gc_u64TSC := TSC,
          gc_enmState := SUPGIPCPUSTATE_INVALID, gc_idCpu := NIL_RTCPUID, gc_iCpuSet := - 1,
          gc_idApic := UINT16_MAX, gc_u64CpuHz := FourG + 1, gc_u32UpdateIntervalTSC := v,
          gc_au32TSCHistory := replicate 8 v\<rparr>))"

definition supdrvGipReInitCpu :: "u64 \<Rightarrow> u64 \<Rightarrow> SUPGIPCPU \<Rightarrow> SUPGIPCPU" where
  "supdrvGipReInitCpu u64NanoTS TSC c =
     c\<lparr>gc_u64TSC := TSC - ucast (gc_u32UpdateIntervalTSC c), gc_u64NanoTS := u64NanoTS\<rparr>"

text \<open>
  The update interval and its slack, from the update frequency, the history, the index of its
  newest entry and the newest entry itself.
\<close>

definition gip_interval :: "u32 \<Rightarrow> u32 list \<Rightarrow> u32 \<Rightarrow> u32 \<Rightarrow> u32 \<times> u32" where
  "gip_interval u32UpdateHz au32TSCHistory iTSCHistoryHead u32TSCDelta =
     (if 1000 \<le> u32UpdateHz then
        let u32 = drop_bit 2 (au32TSCHistory ! 0 + au32TSCHistory ! 1 + au32TSCHistory ! 2 + au32TSCHistory ! 3);
            v = drop_bit 2 (au32TSCHistory ! 4 + au32TSCHistory ! 5 + au32TSCHistory ! 6 + au32TSCHistory ! 7);
            v = drop_bit 1 (v + u32)
        in (v, drop_bit 14 v)
      else if 90 \<le> u32UpdateHz then
        let v = drop_bit 1 (u32TSCDelta + au32TSCHistory ! unat ((iTSCHistoryHead - 1) AND 7))
        in (v, drop_bit 7 v)
      else (u32TSCDelta, drop_bit 6 u32TSCDelta))"

definition supdrvGipDoUpdateCpu :: "u32 \<Rightarrow> SUPGIPCPU \<Rightarrow> u64 \<Rightarrow> u64 \<Rightarrow> u64 \<Rightarrow> SUPGIPCPU" where
  "supdrvGipDoUpdateCpu u32UpdateHz c u64NanoTS u64TSC iTick =
     (let u64TSCDelta = u64TSC - gc_u64TSC c;
          fBad = drop_bit 32 u64TSCDelta \<noteq> 0;
          u64TSCDelta = (if fBad then ucast (gc_u32UpdateIntervalTSC c) else u64TSCDelta);
          u32TSCDelta = ucast u64TSCDelta :: u32;
          hist = (if (gc_u32TransactionId c = 5 \<or> gc_u32TransactionId c = 7) \<and> (iTick = 2 \<or> iTick = 3)
                  then replicate 8 u32TSCDelta else gc_au32TSCHistory c);
          head = (gc_iTSCHistoryHead c + 1) AND 7;
          hist = hist[unat head := u32TSCDelta];
          (v, slack) = gip_interval u32UpdateHz hist head u32TSCDelta
      in c\<lparr>gc_u32PrevUpdateIntervalNS := ucast (u64NanoTS - gc_u64NanoTS c), gc_u64NanoTS := u64NanoTS,
           gc_u64TSC := u64TSC, gc_cErrors := (if fBad then gc_cErrors c + 1 else gc_cErrors c),
           gc_au32TSCHistory := hist, gc_iTSCHistoryHead := head,
           gc_u32UpdateIntervalTSC := v + slack, gc_u64CpuHz := ucast v * ucast u32UpdateHz\<rparr>)"

section \<open>The update by a timer tick\<close>

text \<open>Access to an entry of the CPU table.\<close>

definition gip_cpu :: "SUPGLOBALINFOPAGE \<Rightarrow> nat \<Rightarrow> SUPGIPCPU option" where
  "gip_cpu g i = (if i < length (g_aCPUs g) then Some (g_aCPUs g ! i) else None)"

definition set_cpu :: "nat \<Rightarrow> SUPGIPCPU \<Rightarrow> SUPGLOBALINFOPAGE \<Rightarrow> SUPGLOBALINFOPAGE" where
  "set_cpu i c g = g\<lparr>g_aCPUs := (g_aCPUs g)[i := c]\<rparr>"

text \<open>Recalculation of the update frequency, every 0x800th update.\<close>

definition gip_recalc_hz :: "u64 \<Rightarrow> SUPGLOBALINFOPAGE \<Rightarrow> SUPGLOBALINFOPAGE option" where
  "gip_recalc_hz u64NanoTS g =
     (if g_u64NanoTSLastUpdateHz g \<noteq> 0 then
        let u64Delta = u64NanoTS - g_u64NanoTSLastUpdateHz g in
        if u64Delta = 0 then None
        else let u32UpdateHz = ucast ((1000000000 * ucast GIP_UPDATEHZ_RECALC_FREQ) div u64Delta) :: u32 in
          Some ((if u32UpdateHz \<le> 2000 \<and> 30 \<le> u32UpdateHz
                 then g\<lparr>g_u32UpdateHz := u32UpdateHz, g_u32UpdateIntervalNS := 1000000000 div u32UpdateHz\<rparr> else g)
                \<lparr>g_u64NanoTSLastUpdateHz := u64NanoTS\<rparr>)
      else Some (g\<lparr>g_u64NanoTSLastUpdateHz := u64NanoTS\<rparr>))"

text \<open>
  The transaction on entry \<open>i\<close>: the id is made odd, the data is written, the id is made even.
  An id that was odd already is counted as an error.  \<open>fRecalc\<close> is whether the common data is
  maintained too.
\<close>

definition gip_transaction :: "bool \<Rightarrow> nat \<Rightarrow> u64 \<Rightarrow> u64 \<Rightarrow> u64 \<Rightarrow> SUPGLOBALINFOPAGE \<Rightarrow> SUPGLOBALINFOPAGE option" where
  "gip_transaction fRecalc i u64NanoTS u64TSC iTick g = do {
     c \<leftarrow> gip_cpu g i;
     let c1 = c\<lparr>gc_u32TransactionId := gc_u32TransactionId c + 1\<rparr>;
     if gc_u32TransactionId c1 AND 1 = 0
     then Some (set_cpu i (c1\<lparr>gc_u32TransactionId := gc_u32TransactionId c1 + 1, gc_cErrors := gc_cErrors c + 1\<rparr>) g)
     else do {
       g1 \<leftarrow> (if fRecalc \<and> gc_u32TransactionId c1 AND (GIP_UPDATEHZ_RECALC_FREQ * 2 - 2) = 0
              then gip_recalc_hz u64NanoTS g else Some g);
       let c2 = supdrvGipDoUpdateCpu (g_u32UpdateHz g1) c1 u64NanoTS u64TSC iTick;
       Some (set_cpu i (c2\<lparr>gc_u32TransactionId := gc_u32TransactionId c2 + 1\<rparr>) g1)
     }
   }"

text \<open>The tick of the GIP master; \<open>idApic\<close> is the APIC id of the CPU it runs on.\<close>

definition supdrvGipUpdate :: "u64 \<Rightarrow> u64 \<Rightarrow> u32 \<Rightarrow> u8 \<Rightarrow> u64 \<Rightarrow> SUPGLOBALINFOPAGE \<Rightarrow> SUPGLOBALINFOPAGE option" where
  "supdrvGipUpdate u64NanoTS u64TSC idCpu idApic iTick g =
     (if g_u32Mode g \<noteq> SUPGIPMODE_ASYNC_TSC then gip_transaction True 0 u64NanoTS u64TSC iTick g
      else let iCpu = unat (g_aiCpuFromApicId g ! unat idApic) in
        if unat (g_cCpus g) \<le> iCpu then Some g
        else do {
          c \<leftarrow> gip_cpu g iCpu;
          if gc_idCpu c \<noteq> idCpu then Some g else gip_transaction True iCpu u64NanoTS u64TSC iTick g
        })"

section \<open>The CPU table\<close>

text \<open>The first entry of a CPU, and the first unused one.\<close>

fun cpu_find :: "u32 \<Rightarrow> SUPGIPCPU list \<Rightarrow> nat option" where
  "cpu_find idCpu [] = None"
| "cpu_find idCpu (c # cs) = (if gc_idCpu c = idCpu then Some 0 else map_option Suc (cpu_find idCpu cs))"

text \<open>
  The search for an entry.  The outer loop repeats the search for an unused entry 33 times;
  when all fail a release assertion stops the host, which faults.  A table shorter than its
  count faults, too.
\<close>

fun cpu_claim :: "nat \<Rightarrow> u32 \<Rightarrow> SUPGIPCPU list \<Rightarrow> (nat \<times> SUPGIPCPU list) option" where
  "cpu_claim 0 idCpu cs = None"
| "cpu_claim (Suc n) idCpu cs = (case cpu_find NIL_RTCPUID cs of
       Some i \<Rightarrow> Some (i, cs[i := (cs ! i)\<lparr>gc_idCpu := idCpu\<rparr>])
     | None \<Rightarrow> cpu_claim n idCpu cs)"

definition supdrvGipCpuIndexFromCpuId :: "u32 \<Rightarrow> SUPGLOBALINFOPAGE \<Rightarrow> (nat \<times> SUPGLOBALINFOPAGE) option" where
  "supdrvGipCpuIndexFromCpuId idCpu g =
     (if length (g_aCPUs g) < unat (g_cCpus g) then None
      else let cs = take (unat (g_cCpus g)) (g_aCPUs g) in
        case cpu_find idCpu cs of
          Some i \<Rightarrow> Some (i, g)
        | None \<Rightarrow> do {
            (i, cs') \<leftarrow> cpu_claim 33 idCpu cs;
            Some (i, g\<lparr>g_aCPUs := cs' @ drop (unat (g_cCpus g)) (g_aCPUs g)\<rparr>)
          })"

text \<open>
  What a CPU that comes online finds out about itself and the system: its id and APIC id, its
  TSC, the system clock, and the numbers of present and online CPUs.
\<close>

record mpenv =
  me_idCpu :: u32
  me_idApic :: u8
  me_TSC :: u64
  me_NanoTS :: u64
  me_cPresent :: "16 word"
  me_cOnline :: "16 word"

text \<open>
  The part of \<open>supdrvGipMpEventOnline\<close> under the spinlock.  An index of -1 writes in front of
  the table \<open>aiCpuFromCpuSetIdx\<close>, which faults.
\<close>

definition gip_online :: "nat \<Rightarrow> mpenv \<Rightarrow> u32 \<Rightarrow> SUPGLOBALINFOPAGE \<Rightarrow> SUPGLOBALINFOPAGE option" where
  "gip_online NR_CPUS env idCpu g = do {
     let iCpuSet = RTMpCpuIdToSetIndex NR_CPUS idCpu;
     let g1 = g\<lparr>g_cPresentCpus := me_cPresent env, g_cOnlineCpus := me_cOnline env\<rparr>;
     let g2 = (if 0 \<le> iCpuSet
               then g1\<lparr>g_OnlineCpuSet := RTCpuSetAddByIndex iCpuSet (g_OnlineCpuSet g1),
                       g_PresentCpuSet := RTCpuSetAddByIndex iCpuSet (g_PresentCpuSet g1)\<rparr>
               else g1);
     (i, g3) \<leftarrow> supdrvGipCpuIndexFromCpuId idCpu g2;
     c \<leftarrow> gip_cpu g3 i;
     c1 \<leftarrow> supdrvGipInitCpu g3 (me_NanoTS env - ucast (g_u32UpdateIntervalNS g3)) (me_TSC env) c;
     let c2 = c1\<lparr>gc_idApic := ucast (me_idApic env), gc_iCpuSet := of_int iCpuSet, gc_idCpu := idCpu,
                 gc_enmState := SUPGIPCPUSTATE_ONLINE\<rparr>;
     if iCpuSet < 0 then None
     else Some ((set_cpu i c2 g3)
            \<lparr>g_aiCpuFromApicId := (g_aiCpuFromApicId g3)[unat (me_idApic env) := of_nat i],
             g_aiCpuFromCpuSetIdx := (g_aiCpuFromCpuSetIdx g3)[nat iCpuSet := of_nat i]\<rparr>)
   }"

text \<open>
  The part of \<open>supdrvGipMpEventOffline\<close> under the spinlock; the answer is whether the lock is
  released again.
\<close>

definition gip_offline :: "nat \<Rightarrow> u32 \<Rightarrow> SUPGLOBALINFOPAGE \<Rightarrow> (bool \<times> SUPGLOBALINFOPAGE) option" where
  "gip_offline NR_CPUS idCpu g =
     (let iCpuSet = RTMpCpuIdToSetIndex NR_CPUS idCpu in
      if iCpuSet < 0 then Some (False, g)
      else let i = unat (g_aiCpuFromCpuSetIdx g ! nat iCpuSet) in
        if \<not> i < unat (g_cCpus g) then Some (False, g)
        else do {
          c \<leftarrow> gip_cpu g i;
          if gc_idCpu c \<noteq> idCpu then Some (False, g)
          else Some (True, (set_cpu i (c\<lparr>gc_enmState := SUPGIPCPUSTATE_OFFLINE\<rparr>) g)
                 \<lparr>g_OnlineCpuSet := RTCpuSetDelByIndex iCpuSet (g_OnlineCpuSet g)\<rparr>)
        })"

text \<open>The search for a new master among the online CPUs, by set index.\<close>

fun master_search :: "nat \<Rightarrow> RTCPUSET \<Rightarrow> u32 \<Rightarrow> nat \<Rightarrow> nat \<Rightarrow> u32" where
  "master_search NR_CPUS OnlineCpus idGipMaster i 0 = NIL_RTCPUID"
| "master_search NR_CPUS OnlineCpus idGipMaster i (Suc n) =
     (let idCurCpu = RTMpCpuIdFromSetIndex NR_CPUS i in
      if RTCpuSetIsMember NR_CPUS OnlineCpus idCurCpu \<and> idCurCpu \<noteq> idGipMaster then idCurCpu
      else master_search NR_CPUS OnlineCpus idGipMaster (Suc i) n)"

section \<open>Choosing the update mode\<close>

text \<open>
  \<open>supdrvDetermineAsyncTsc\<close>: the TSCs of all CPUs are read in up to 8 rounds; each reading must
  be greater than the one before.  A round is the list of its calls, each with its status and
  the TSC it read.  The state is the previous TSC, the smallest and the largest difference; the
  answer of a round says whether the loop was left, and with which verdict.
\<close>

fun tsc_cpus :: "nat \<Rightarrow> nat \<Rightarrow> (rc \<times> u64) list \<Rightarrow> u64 \<times> u64 \<times> u64 \<Rightarrow> bool \<times> bool \<times> u64 \<times> u64 \<times> u64" where
  "tsc_cpus cLoops iCpu [] (PrevTsc, offMin, offMax) = (False, False, PrevTsc, offMin, offMax)"
| "tsc_cpus cLoops iCpu ((rc, CurTsc) # rest) (PrevTsc, offMin, offMax) =
     (if RT_SUCCESS rc then
        if CurTsc \<le> PrevTsc then (True, True, PrevTsc, PrevTsc - CurTsc, PrevTsc - CurTsc)
        else let off = CurTsc - PrevTsc in
          tsc_cpus cLoops (Suc iCpu) rest
            (if iCpu \<noteq> 0 \<or> cLoops \<noteq> 7
             then (CurTsc, if off < offMin then off else offMin, if offMax < off then off else offMax)
             else (CurTsc, offMin, offMax))
      else if rc = VERR_NOT_SUPPORTED then (True, False, PrevTsc, offMin, offMax)
      else tsc_cpus cLoops (Suc iCpu) rest (PrevTsc, offMin, offMax))"

fun tsc_loops :: "nat \<Rightarrow> (nat \<Rightarrow> (rc \<times> u64) list) \<Rightarrow> u64 \<times> u64 \<times> u64 \<Rightarrow> bool \<times> u64" where
  "tsc_loops 0 rounds (PrevTsc, offMin, offMax) = (False, offMin)"
| "tsc_loops (Suc cLoops) rounds st =
     (case tsc_cpus cLoops 0 (rounds cLoops) st of
        (left, fAsync, st') \<Rightarrow> if left then (fAsync, fst (snd st')) else tsc_loops cLoops rounds st')"

definition supdrvDetermineAsyncTsc :: "u64 \<Rightarrow> (nat \<Rightarrow> (rc \<times> u64) list) \<Rightarrow> bool \<times> u64" where
  "supdrvDetermineAsyncTsc PrevTsc rounds = tsc_loops 8 rounds (PrevTsc, - 1, 0)"

text \<open>
  \<open>cpuid leaf\<close> is the answer (EAX, EBX, ECX, EDX) of the instruction, \<open>isAmd\<close> the vendor test.
\<close>

definition supdrvGipDeterminTscMode ::
  "nat \<Rightarrow> bool \<Rightarrow> bool \<Rightarrow> (u32 \<Rightarrow> u32 \<times> u32 \<times> u32 \<times> u32) \<Rightarrow> (u32 \<Rightarrow> u32 \<Rightarrow> u32 \<Rightarrow> bool) \<Rightarrow> SUPGIPMODE" where
  "supdrvGipDeterminTscMode cCpus fForced fAsyncTsc cpuid isAmd =
     (if 1 < cCpus then
        if fForced then SUPGIPMODE_ASYNC_TSC
        else if fAsyncTsc then SUPGIPMODE_ASYNC_TSC
        else (case cpuid 0 of (uEAX, uEBX, uECX, uEDX) \<Rightarrow>
          if 1 \<le> uEAX \<and> isAmd uEBX uECX uEDX then
            if 0x80000007 \<le> fst (cpuid 0x80000000) then
              (case cpuid 0x80000007 of (_, _, _, uEDX) \<Rightarrow>
                if \<not> bit uEDX 8 \<and> uEDX AND 0x3e \<noteq> 0 then SUPGIPMODE_ASYNC_TSC else SUPGIPMODE_SYNC_TSC)
            else SUPGIPMODE_SYNC_TSC
          else SUPGIPMODE_SYNC_TSC)
      else SUPGIPMODE_SYNC_TSC)"

section \<open>Initialisation and termination of the page\<close>

text \<open>
  The page is cleared first, so its entries start from zero.  \<open>iv\<close> are the system's CPU
  counts, \<open>PossibleCpus\<close> its set of CPUs.
\<close>

record cpucounts =
  cc_cOnline :: "16 word"
  cc_cPresent :: "16 word"
  cc_cPossible :: "16 word"
  cc_idCpuMax :: u32
  cc_Possible :: RTCPUSET

definition gipcpu_zero :: SUPGIPCPU where
  "gipcpu_zero = \<lparr>gc_u32TransactionId = 0, gc_u32UpdateIntervalTSC = 0, gc_u64NanoTS = 0, gc_u64TSC = 0,
     gc_u64CpuHz = 0, gc_cErrors = 0, gc_iTSCHistoryHead = 0, gc_au32TSCHistory = replicate 8 0,
     gc_u32PrevUpdateIntervalNS = 0, gc_enmState = SUPGIPCPUSTATE_INVALID, gc_idCpu = 0, gc_iCpuSet = 0,
     gc_idApic = 0\<rparr>"

text \<open>The offset of \<open>aCPUs[cCpus]\<close> in the page: a header of 0x500 bytes and 128 bytes per entry.\<close>

definition gip_size :: "nat \<Rightarrow> nat" where
  "gip_size cCpus = 0x500 + 128 * cCpus"

definition supdrvGipInit ::
  "SUPGIPMODE \<Rightarrow> cpucounts \<Rightarrow> u64 \<Rightarrow> (nat \<Rightarrow> u64) \<Rightarrow> u32 \<Rightarrow> nat \<Rightarrow> SUPGLOBALINFOPAGE option" where
  "supdrvGipInit mode cc u64NanoTS TSC uUpdateHz cCpus =
     (if uUpdateHz = 0 then None
      else do {
        let g = \<lparr>g_u32Magic = SUPGLOBALINFOPAGE_MAGIC, g_u32Version = SUPGLOBALINFOPAGE_VERSION, g_u32Mode = mode,
          g_cCpus = of_nat cCpus, g_cPages = of_nat ((gip_size cCpus + 0xfff) div 0x1000),
          g_u32UpdateHz = uUpdateHz, g_u32UpdateIntervalNS = 1000000000 div uUpdateHz,
          g_u64NanoTSLastUpdateHz = u64NanoTS, g_OnlineCpuSet = 0, g_PresentCpuSet = 0,
          g_PossibleCpuSet = cc_Possible cc, g_cOnlineCpus = cc_cOnline cc, g_cPresentCpus = cc_cPresent cc,
          g_cPossibleCpus = cc_cPossible cc, g_idCpuMax = cc_idCpuMax cc,
          g_aiCpuFromApicId = replicate 256 0, g_aiCpuFromCpuSetIdx = replicate 256 UINT16_MAX,
          g_aCPUs = []\<rparr>;
        cs \<leftarrow> those (map (\<lambda>i. supdrvGipInitCpu g u64NanoTS (TSC i) gipcpu_zero) [0..<cCpus]);
        Some (g\<lparr>g_aCPUs := cs\<rparr>)
      })"

text \<open>The loop runs over the declared size of \<open>aCPUs\<close>, which is 1.\<close>

definition supdrvGipTerm :: "SUPGLOBALINFOPAGE \<Rightarrow> SUPGLOBALINFOPAGE" where
  "supdrvGipTerm g = g\<lparr>g_u32Magic := 0,
     g_aCPUs := (g_aCPUs g)[0 := (g_aCPUs g ! 0)\<lparr>gc_u64NanoTS := 0, gc_u64TSC := 0, gc_iTSCHistoryHead := 0\<rparr>]\<rparr>"

text \<open>
  The update interval for a given timer granularity: the loop adds the granularity until 10 ms
  are reached.  A granularity of 0 never gets there.
\<close>

partial_function (option) gip_grow_interval :: "u32 \<Rightarrow> u32 \<Rightarrow> u32 option" where
  "gip_grow_interval u32SystemResolution u32Interval =
     (if u32Interval < 10000000 then gip_grow_interval u32SystemResolution (u32Interval + u32SystemResolution)
      else Some u32Interval)"

section \<open>The update interval\<close>

lemma unat_drop_bit: "unat (drop_bit n (x :: u32)) = unat x div 2 ^ n"
  by (simp only: unat_drop_bit_eq) (simp add: drop_bit_eq_div)

lemma unat_add_small: "unat a + unat b < 4294967296 \<Longrightarrow> unat (a + b :: u32) = unat a + unat b"
  by (simp add: unat_word_ariths)

lemma unat_sum4:
  fixes a b c d :: u32
  assumes "unat a \<le> hi" "unat b \<le> hi" "unat c \<le> hi" "unat d \<le> hi" "4 * hi < 4294967296"
  shows "unat (a + b + c + d) = unat a + unat b + unat c + unat d"
  using assms by (simp add: unat_add_small)

text \<open>The interval is an average of the history: it lies between its bounds when four entries do
  not overflow 32 bits.\<close>

lemma gip_interval_bounds:
  assumes h: "length h = 8" "\<forall>x \<in> set h. lo \<le> unat x \<and> unat x \<le> hi" and d: "lo \<le> unat d" "unat d \<le> hi"
    and hi: "hi < 2 ^ 30" and head: "unat head < 8"
  shows "case gip_interval hz h head d of (v, slack) \<Rightarrow>
    lo \<le> unat v \<and> unat v \<le> hi \<and> unat (v + slack) = unat v + unat slack \<and> unat slack \<le> unat v div 64"
proof -
  have n: "lo \<le> unat (h ! i) \<and> unat (h ! i) \<le> hi" if "i < 8" for i using h that nth_mem by fastforce
  have *: "lo \<le> unat (drop_bit 2 (h ! i + h ! j + h ! k + h ! l)) \<and> unat (drop_bit 2 (h ! i + h ! j + h ! k + h ! l)) \<le> hi"
    if "i < 8" "j < 8" "k < 8" "l < 8" for i j k l
  proof -
    have "unat (h ! i + h ! j + h ! k + h ! l) = unat (h ! i) + unat (h ! j) + unat (h ! k) + unat (h ! l)"
      by (rule unat_sum4[where hi = hi]) (use n that hi in auto)
    then show ?thesis using n[OF that(1)] n[OF that(2)] n[OF that(3)] n[OF that(4)] by (auto simp: unat_drop_bit)
  qed
  have two: "lo \<le> unat (drop_bit 1 (a + b)) \<and> unat (drop_bit 1 (a + b)) \<le> hi"
    if "lo \<le> unat a \<and> unat a \<le> hi" "lo \<le> unat b \<and> unat b \<le> hi" for a b :: u32
    using that hi by (auto simp: unat_drop_bit unat_add_small)
  have sl: "unat (v + drop_bit k v) = unat v + unat (drop_bit k v) \<and> unat (drop_bit k v) \<le> unat v div 64"
    if "unat v \<le> hi" "6 \<le> k" for v :: u32 and k
  proof -
    have "(64::nat) \<le> 2 ^ k" using power_increasing[OF that(2), of "2::nat"] by simp
    then have "unat v div 2 ^ k \<le> unat v div 64" by (intro div_le_mono2) simp_all
    moreover have "unat v div 64 \<le> unat v" by simp
    ultimately show ?thesis using that hi by (auto simp: unat_drop_bit unat_add_small)
  qed
  have hd: "unat ((head - 1) AND 7) < 8"
    using word_and_le1[of "head - 1" 7] by (simp add: word_le_nat_alt)
  let ?A = "drop_bit 2 (h ! 0 + h ! 1 + h ! 2 + h ! 3)" and ?B = "drop_bit 2 (h ! 4 + h ! 5 + h ! 6 + h ! 7)"
  consider (high) "1000 \<le> hz" | (mid) "\<not> 1000 \<le> hz" "90 \<le> hz" | (low) "\<not> 1000 \<le> hz" "\<not> 90 \<le> hz" by blast
  then show ?thesis
  proof cases
    case high
    have v: "lo \<le> unat (drop_bit 1 (?B + ?A)) \<and> unat (drop_bit 1 (?B + ?A)) \<le> hi"
      by (rule two) (rule *; simp)+
    with high sl[of "drop_bit 1 (?B + ?A)" 14] show ?thesis by (simp add: gip_interval_def Let_def)
  next
    case mid
    have v: "lo \<le> unat (drop_bit 1 (d + h ! unat ((head - 1) AND 7))) \<and> unat (drop_bit 1 (d + h ! unat ((head - 1) AND 7))) \<le> hi"
      by (rule two) (use n[OF hd] d in auto)
    with mid sl[of "drop_bit 1 (d + h ! unat ((head - 1) AND 7))" 7] show ?thesis by (simp add: gip_interval_def Let_def)
  next
    case low
    with d sl[of d 6] show ?thesis by (simp add: gip_interval_def Let_def)
  qed
qed

section \<open>The page invariant\<close>

definition cpu_ok :: "SUPGIPCPU \<Rightarrow> bool" where
  "cpu_ok c \<longleftrightarrow> length (gc_au32TSCHistory c) = 8 \<and> unat (gc_iTSCHistoryHead c) < 8 \<and> even (gc_u32TransactionId c)"

text \<open>The CPU ids in use.\<close>

definition cpu_ids :: "SUPGLOBALINFOPAGE \<Rightarrow> u32 list" where
  "cpu_ids g = filter (\<lambda>i. i \<noteq> NIL_RTCPUID) (map gc_idCpu (g_aCPUs g))"

definition page_ok :: "SUPGLOBALINFOPAGE \<Rightarrow> bool" where
  "page_ok g \<longleftrightarrow> 0 < unat (g_cCpus g) \<and> length (g_aCPUs g) = unat (g_cCpus g) \<and> (\<forall>c \<in> set (g_aCPUs g). cpu_ok c) \<and>
     distinct (cpu_ids g) \<and>
     length (g_aiCpuFromApicId g) = 256 \<and> (\<forall>i \<in> set (g_aiCpuFromApicId g). i < g_cCpus g) \<and>
     length (g_aiCpuFromCpuSetIdx g) = 256 \<and> (\<forall>i \<in> set (g_aiCpuFromCpuSetIdx g). i < g_cCpus g \<or> i = UINT16_MAX) \<and>
     g_u32UpdateHz g \<noteq> 0 \<and> g_u32UpdateIntervalNS g = 1000000000 div g_u32UpdateHz g"

lemma and7_less: "unat ((x :: u32) AND 7) < 8"
  using word_and_le1[of x 7] by (simp add: word_le_nat_alt)

lemma DoUpdateCpu_simps [simp]:
  "gc_u32TransactionId (supdrvGipDoUpdateCpu hz c ts tsc t) = gc_u32TransactionId c"
  "gc_idCpu (supdrvGipDoUpdateCpu hz c ts tsc t) = gc_idCpu c"
  "gc_enmState (supdrvGipDoUpdateCpu hz c ts tsc t) = gc_enmState c"
  "gc_u64NanoTS (supdrvGipDoUpdateCpu hz c ts tsc t) = ts"
  "gc_u64TSC (supdrvGipDoUpdateCpu hz c ts tsc t) = tsc"
  "length (gc_au32TSCHistory c) = 8 \<Longrightarrow> length (gc_au32TSCHistory (supdrvGipDoUpdateCpu hz c ts tsc t)) = 8"
  "unat (gc_iTSCHistoryHead (supdrvGipDoUpdateCpu hz c ts tsc t)) < 8"
  by (simp_all add: supdrvGipDoUpdateCpu_def Let_def and7_less split: prod.split)

lemma set_cpu_simps [simp]:
  "g_cCpus (set_cpu i c g) = g_cCpus g" "g_aCPUs (set_cpu i c g) = (g_aCPUs g)[i := c]"
  "g_aiCpuFromApicId (set_cpu i c g) = g_aiCpuFromApicId g"
  "g_aiCpuFromCpuSetIdx (set_cpu i c g) = g_aiCpuFromCpuSetIdx g"
  "g_u32UpdateHz (set_cpu i c g) = g_u32UpdateHz g" "g_u32UpdateIntervalNS (set_cpu i c g) = g_u32UpdateIntervalNS g"
  "g_u32Mode (set_cpu i c g) = g_u32Mode g" "g_u32Magic (set_cpu i c g) = g_u32Magic g"
  "g_u64NanoTSLastUpdateHz (set_cpu i c g) = g_u64NanoTSLastUpdateHz g"
  by (simp_all add: set_cpu_def)

text \<open>Writing an entry that keeps its CPU id.\<close>

lemma cpu_ids_set_cpu: "i < length (g_aCPUs g) \<Longrightarrow> gc_idCpu c = gc_idCpu (g_aCPUs g ! i) \<Longrightarrow> cpu_ids (set_cpu i c g) = cpu_ids g"
  using list_update_id[of "map gc_idCpu (g_aCPUs g)" i] by (simp add: cpu_ids_def map_update)

lemma page_ok_set_cpu:
  "page_ok g \<Longrightarrow> i < length (g_aCPUs g) \<Longrightarrow> cpu_ok c \<Longrightarrow> gc_idCpu c = gc_idCpu (g_aCPUs g ! i) \<Longrightarrow> page_ok (set_cpu i c g)"
  by (auto simp: page_ok_def cpu_ids_set_cpu dest: set_update_subset_insert[THEN subsetD])

text \<open>What the system clock owes to the recalculation of the frequency: it has moved on.\<close>

definition clock_moved :: "u64 \<Rightarrow> SUPGLOBALINFOPAGE \<Rightarrow> bool" where
  "clock_moved u64NanoTS g \<longleftrightarrow> u64NanoTS \<noteq> g_u64NanoTSLastUpdateHz g \<or> u64NanoTS = 0"

lemma gip_recalc_hz_ok:
  assumes "clock_moved ts g"
  shows "\<exists>g'. gip_recalc_hz ts g = Some g' \<and> g_aCPUs g' = g_aCPUs g \<and> (page_ok g \<longrightarrow> page_ok g') \<and>
    g_u64NanoTSLastUpdateHz g' = ts \<and>
    (g_u32UpdateHz g' = g_u32UpdateHz g \<or> 30 \<le> g_u32UpdateHz g' \<and> g_u32UpdateHz g' \<le> 2000)"
  using assms by (auto simp: gip_recalc_hz_def clock_moved_def Let_def page_ok_def cpu_ids_def)

lemma gip_transaction_ok:
  assumes g: "page_ok g" and i: "i < length (g_aCPUs g)" and clk: "fRecalc \<Longrightarrow> clock_moved ts g"
  shows "\<exists>g'. gip_transaction fRecalc i ts tsc t g = Some g' \<and> page_ok g' \<and>
    (\<forall>j. j \<noteq> i \<longrightarrow> g_aCPUs g' ! j = g_aCPUs g ! j) \<and>
    (let c = g_aCPUs g ! i; c' = g_aCPUs g' ! i in
      gc_u32TransactionId c' = gc_u32TransactionId c + 2 \<and> gc_u64NanoTS c' = ts \<and> gc_u64TSC c' = tsc \<and>
      c' = (supdrvGipDoUpdateCpu (g_u32UpdateHz g') (c\<lparr>gc_u32TransactionId := gc_u32TransactionId c + 1\<rparr>) ts tsc t)
             \<lparr>gc_u32TransactionId := gc_u32TransactionId c + 2\<rparr>)"
proof -
  let ?c = "g_aCPUs g ! i" and ?c1 = "(g_aCPUs g ! i)\<lparr>gc_u32TransactionId := gc_u32TransactionId (g_aCPUs g ! i) + 1\<rparr>"
  have c: "cpu_ok ?c" using g i by (auto simp: page_ok_def)
  then have odd: "\<not> (gc_u32TransactionId ?c + 1) AND 1 = 0"
    by (simp add: cpu_ok_def and_one_eq mod_2_eq_odd)
  have "\<exists>g1. (if fRecalc \<and> (gc_u32TransactionId ?c + 1) AND (GIP_UPDATEHZ_RECALC_FREQ * 2 - 2) = 0
              then gip_recalc_hz ts g else Some g) = Some g1 \<and> g_aCPUs g1 = g_aCPUs g \<and> page_ok g1"
    using gip_recalc_hz_ok[OF clk] g by auto
  then obtain g1 where g1: "(if fRecalc \<and> (gc_u32TransactionId ?c + 1) AND (GIP_UPDATEHZ_RECALC_FREQ * 2 - 2) = 0
              then gip_recalc_hz ts g else Some g) = Some g1" "g_aCPUs g1 = g_aCPUs g" "page_ok g1" by blast
  let ?c2 = "supdrvGipDoUpdateCpu (g_u32UpdateHz g1) ?c1 ts tsc t"
  let ?g' = "set_cpu i (?c2\<lparr>gc_u32TransactionId := gc_u32TransactionId ?c2 + 1\<rparr>) g1"
  have "page_ok ?g'"
    by (rule page_ok_set_cpu[OF g1(3)]) (use i g1(2) c in \<open>simp_all add: cpu_ok_def\<close>)
  moreover have "gip_transaction fRecalc i ts tsc t g = Some ?g'"
    using i odd g1(1) by (simp add: gip_transaction_def gip_cpu_def Let_def)
  ultimately show ?thesis using i g1(2) by (intro exI[of _ ?g']) (simp add: Let_def)
qed

section \<open>The CPU table\<close>

lemma cpu_find_Some: "cpu_find x cs = Some i \<Longrightarrow> i < length cs \<and> gc_idCpu (cs ! i) = x"
  by (induction cs arbitrary: i) (auto split: if_splits)

lemma cpu_find_None: "cpu_find x cs = None \<longleftrightarrow> x \<notin> gc_idCpu ` set cs"
  by (induction cs) auto

lemma cpu_claim_eq:
  "cpu_claim n x cs = (if n = 0 then None else case cpu_find NIL_RTCPUID cs of None \<Rightarrow> None
     | Some i \<Rightarrow> Some (i, cs[i := (cs ! i)\<lparr>gc_idCpu := x\<rparr>]))"
  by (induction n) (auto split: option.split)

text \<open>There is an entry for a CPU, or one to spare.\<close>

definition cpu_room :: "u32 \<Rightarrow> SUPGLOBALINFOPAGE \<Rightarrow> bool" where
  "cpu_room idCpu g \<longleftrightarrow> idCpu \<noteq> NIL_RTCPUID \<and> (idCpu \<in> gc_idCpu ` set (g_aCPUs g) \<or> NIL_RTCPUID \<in> gc_idCpu ` set (g_aCPUs g))"

lemma distinct_filter_update:
  assumes "distinct (filter P xs)" "i < length xs" "x \<notin> set xs \<or> xs ! i = x"
  shows "distinct (filter P (xs[i := x]))"
proof (cases "xs ! i = x")
  case True
  with assms show ?thesis by (metis list_update_id)
next
  case False
  with assms(3) have x: "x \<notin> set xs" by blast
  have "distinct (filter P (take i xs @ xs ! i # drop (Suc i) xs))"
    by (simp only: id_take_nth_drop[OF assms(2), symmetric] assms(1))
  then have d: "distinct (filter P (take i xs))" "distinct (filter P (drop (Suc i) xs))"
    "set (filter P (take i xs)) \<inter> set (filter P (drop (Suc i) xs)) = {}"
    by (simp_all only: filter_append filter.simps distinct_append) (auto split: if_splits)
  have "xs[i := x] = take i xs @ x # drop (Suc i) xs" using assms(2) by (rule upd_conv_take_nth_drop)
  then show ?thesis using d x by (auto dest: in_set_takeD in_set_dropD)
qed

lemma CpuIndex_ok:
  assumes g: "page_ok g" and room: "cpu_room x g"
  shows "\<exists>i g'. supdrvGipCpuIndexFromCpuId x g = Some (i, g') \<and> page_ok g' \<and> i < length (g_aCPUs g) \<and>
    gc_idCpu (g_aCPUs g' ! i) = x \<and> g' = set_cpu i ((g_aCPUs g ! i)\<lparr>gc_idCpu := x\<rparr>) g \<and>
    (gc_idCpu (g_aCPUs g ! i) = x \<or> gc_idCpu (g_aCPUs g ! i) = NIL_RTCPUID \<and> x \<notin> set (cpu_ids g))"
proof (cases "cpu_find x (g_aCPUs g)")
  case (Some i)
  note i = cpu_find_Some[OF Some]
  then have "(g_aCPUs g ! i)\<lparr>gc_idCpu := x\<rparr> = g_aCPUs g ! i" by (cases "g_aCPUs g ! i") simp
  then have "set_cpu i ((g_aCPUs g ! i)\<lparr>gc_idCpu := x\<rparr>) g = g" by (simp add: set_cpu_def)
  moreover have "supdrvGipCpuIndexFromCpuId x g = Some (i, g)"
    using Some g by (simp add: supdrvGipCpuIndexFromCpuId_def page_ok_def)
  ultimately show ?thesis using i g by auto
next
  case None
  with room obtain i where i: "cpu_find NIL_RTCPUID (g_aCPUs g) = Some i"
    unfolding cpu_room_def cpu_find_None by (cases "cpu_find NIL_RTCPUID (g_aCPUs g)") (simp_all add: cpu_find_None)
  note i' = cpu_find_Some[OF i]
  let ?g' = "set_cpu i ((g_aCPUs g ! i)\<lparr>gc_idCpu := x\<rparr>) g"
  have new: "x \<notin> gc_idCpu ` set (g_aCPUs g)" using None by (simp add: cpu_find_None)
  have "distinct (filter (\<lambda>i. i \<noteq> NIL_RTCPUID) ((map gc_idCpu (g_aCPUs g))[i := x]))"
    by (rule distinct_filter_update) (use g i' new in \<open>auto simp: page_ok_def cpu_ids_def\<close>)
  then have "distinct (cpu_ids ?g')" by (simp add: cpu_ids_def map_update)
  moreover have "cpu_ok (g_aCPUs g ! i)" using g i' by (auto simp: page_ok_def)
  ultimately have "page_ok ?g'" using g
    by (auto simp: page_ok_def cpu_ok_def dest: set_update_subset_insert[THEN subsetD])
  moreover have "supdrvGipCpuIndexFromCpuId x g = Some (i, ?g')"
    using None i g by (simp add: supdrvGipCpuIndexFromCpuId_def cpu_claim_eq page_ok_def set_cpu_def Let_def)
  moreover have "x \<notin> set (cpu_ids g)" using new by (auto simp: cpu_ids_def)
  ultimately show ?thesis using i' by (intro exI[of _ i] exI[of _ ?g']) simp
qed

lemma InitCpu_ok:
  "g_u32UpdateHz g \<noteq> 0 \<Longrightarrow> unat (gc_iTSCHistoryHead c) < 8 \<Longrightarrow>
   \<exists>c'. supdrvGipInitCpu g ts tsc c = Some c' \<and> cpu_ok c' \<and> gc_idCpu c' = NIL_RTCPUID"
  by (simp add: supdrvGipInitCpu_def Let_def cpu_ok_def)

text \<open>The index tables.\<close>

lemma gip_tables_ok:
  assumes "page_ok g" "i < length (g_aCPUs g)"
  shows "page_ok (g\<lparr>g_aiCpuFromApicId := (g_aiCpuFromApicId g)[j := of_nat i],
     g_aiCpuFromCpuSetIdx := (g_aiCpuFromCpuSetIdx g)[k := of_nat i]\<rparr>)"
proof -
  have "of_nat i < g_cCpus g"
    using assms unsigned_less[of "g_cCpus g", where 'a = nat]
    by (simp add: page_ok_def word_less_nat_alt take_bit_nat_eq_self unsigned_of_nat)
  with assms show ?thesis
    by (auto simp: page_ok_def cpu_ids_def dest!: set_update_subset_insert[THEN subsetD])
qed

lemma page_ok_frame:
  "page_ok g \<Longrightarrow> page_ok (g\<lparr>g_cPresentCpus := a, g_cOnlineCpus := b\<rparr>)"
  "page_ok g \<Longrightarrow> page_ok (g\<lparr>g_OnlineCpuSet := c\<rparr>)"
  "page_ok g \<Longrightarrow> page_ok (g\<lparr>g_OnlineCpuSet := c, g_PresentCpuSet := d\<rparr>)"
  by (simp_all add: page_ok_def cpu_ids_def)

lemma gip_online_ok:
  assumes g: "page_ok g" and room: "cpu_room x g" and idx: "0 \<le> RTMpCpuIdToSetIndex nr x"
  shows "\<exists>g' i. gip_online nr env x g = Some g' \<and> page_ok g' \<and> i < length (g_aCPUs g) \<and> g_cCpus g' = g_cCpus g \<and>
    (\<forall>j. j \<noteq> i \<longrightarrow> g_aCPUs g' ! j = g_aCPUs g ! j) \<and> gc_idCpu (g_aCPUs g ! i) \<in> {x, NIL_RTCPUID} \<and> gc_idCpu (g_aCPUs g' ! i) = x \<and>
    gc_enmState (g_aCPUs g' ! i) = SUPGIPCPUSTATE_ONLINE \<and> gc_u32TransactionId (g_aCPUs g' ! i) = 2 \<and>
    g_aiCpuFromApicId g' ! unat (me_idApic env) = of_nat i \<and>
    g_aiCpuFromCpuSetIdx g' ! unat x = of_nat i \<and> bit (g_OnlineCpuSet g') (unat x)"
proof -
  have x: "unat x < 256" "RTMpCpuIdToSetIndex nr x = int (unat x)"
    using idx by (auto simp: RTMpCpuIdToSetIndex_def split: if_splits)
  from x(1) have "int (unat x) < 256" by linarith
  then have ux: "uint x < 256" by simp
  let ?g1 = "g\<lparr>g_cPresentCpus := me_cPresent env, g_cOnlineCpus := me_cOnline env\<rparr>"
  let ?g2 = "?g1\<lparr>g_OnlineCpuSet := set_bit (unat x) (g_OnlineCpuSet g), g_PresentCpuSet := set_bit (unat x) (g_PresentCpuSet g)\<rparr>"
  have g2: "page_ok ?g2" by (rule page_ok_frame(3)[OF page_ok_frame(1)[OF g]])
  have "cpu_room x ?g2" using room by (simp add: cpu_room_def)
  from CpuIndex_ok[OF g2 this] obtain i g3 where i: "supdrvGipCpuIndexFromCpuId x ?g2 = Some (i, g3)" "page_ok g3"
    "i < length (g_aCPUs g)" "g3 = set_cpu i ((g_aCPUs g ! i)\<lparr>gc_idCpu := x\<rparr>) ?g2"
    "gc_idCpu (g_aCPUs g ! i) \<in> {x, NIL_RTCPUID}" by auto
  have idi: "gc_idCpu (g_aCPUs g3 ! i) = x" "i < length (g_aCPUs g3)" using i(3,4) by simp_all
  have "cpu_ok (g_aCPUs g3 ! i)" "g_u32UpdateHz g3 \<noteq> 0" using i(2) idi(2) by (simp_all add: page_ok_def)
  then obtain c1 where c1: "supdrvGipInitCpu g3 (me_NanoTS env - ucast (g_u32UpdateIntervalNS g3)) (me_TSC env) (g_aCPUs g3 ! i) = Some c1"
    "cpu_ok c1" "gc_u32TransactionId c1 = 2" by (auto simp: cpu_ok_def supdrvGipInitCpu_def Let_def)
  let ?c2 = "c1\<lparr>gc_idApic := ucast (me_idApic env), gc_iCpuSet := of_int (int (unat x)), gc_idCpu := x, gc_enmState := SUPGIPCPUSTATE_ONLINE\<rparr>"
  let ?g4 = "set_cpu i ?c2 g3"
  let ?g5 = "?g4\<lparr>g_aiCpuFromApicId := (g_aiCpuFromApicId g3)[unat (me_idApic env) := of_nat i],
     g_aiCpuFromCpuSetIdx := (g_aiCpuFromCpuSetIdx g3)[unat x := of_nat i]\<rparr>"
  have "page_ok ?g4" by (rule page_ok_set_cpu[OF i(2) idi(2)]) (use c1(2) idi in \<open>simp_all add: cpu_ok_def\<close>)
  then have "page_ok ?g5" using gip_tables_ok[of ?g4 i, where j = "unat (me_idApic env)" and k = "unat x"] idi by simp
  moreover have "gip_online nr env x g = Some ?g5"
    using x ux i(1) idi c1(1) by (simp add: gip_online_def gip_cpu_def RTCpuSetAddByIndex_def Let_def)
  moreover have "unat (me_idApic env) < 256" using unsigned_less[of "me_idApic env", where 'a = nat] by simp
  ultimately show ?thesis using i x g c1(3)
    by (intro exI[of _ ?g5] exI[of _ i]) (simp add: page_ok_def set_cpu_def bit_set_bit_iff)
qed

lemma gip_offline_ok:
  assumes g: "page_ok g"
  shows "\<exists>r g'. gip_offline nr x g = Some (r, g') \<and> page_ok g' \<and> g_cCpus g' = g_cCpus g \<and>
     map gc_idCpu (g_aCPUs g') = map gc_idCpu (g_aCPUs g) \<and>
    (r \<longleftrightarrow> 0 \<le> RTMpCpuIdToSetIndex nr x \<and> g_aiCpuFromCpuSetIdx g ! unat x < g_cCpus g \<and>
      gc_idCpu (g_aCPUs g ! unat (g_aiCpuFromCpuSetIdx g ! unat x)) = x) \<and>
    (\<not> r \<longrightarrow> g' = g) \<and> (r \<longrightarrow> \<not> bit (g_OnlineCpuSet g') (unat x) \<and>
      gc_enmState (g_aCPUs g' ! unat (g_aiCpuFromCpuSetIdx g ! unat x)) = SUPGIPCPUSTATE_OFFLINE)"
proof (cases "0 \<le> RTMpCpuIdToSetIndex nr x \<and> g_aiCpuFromCpuSetIdx g ! unat x < g_cCpus g \<and>
      gc_idCpu (g_aCPUs g ! unat (g_aiCpuFromCpuSetIdx g ! unat x)) = x")
  case False
  have "unat (g_aiCpuFromCpuSetIdx g ! unat x) < unat (g_cCpus g) \<Longrightarrow> unat (g_aiCpuFromCpuSetIdx g ! unat x) < length (g_aCPUs g)"
    using g by (simp add: page_ok_def)
  moreover from False have "\<not> 0 \<le> RTMpCpuIdToSetIndex nr x \<or> \<not> g_aiCpuFromCpuSetIdx g ! unat x < g_cCpus g \<or>
      gc_idCpu (g_aCPUs g ! unat (g_aiCpuFromCpuSetIdx g ! unat x)) \<noteq> x" by blast
  ultimately have "gip_offline nr x g = Some (False, g)"
    by (auto simp: gip_offline_def Let_def gip_cpu_def word_less_nat_alt RTMpCpuIdToSetIndex_def)
  with False g show ?thesis by auto
next
  case True
  then have x: "RTMpCpuIdToSetIndex nr x = int (unat x)" "unat x < 256"
    by (auto simp: RTMpCpuIdToSetIndex_def split: if_splits)
  from x(2) have "int (unat x) < 256" by linarith
  then have ux: "uint x < 256" by simp
  let ?i = "unat (g_aiCpuFromCpuSetIdx g ! unat x)"
  have i: "?i < length (g_aCPUs g)" using True g by (simp add: page_ok_def word_less_nat_alt)
  let ?g' = "(set_cpu ?i ((g_aCPUs g ! ?i)\<lparr>gc_enmState := SUPGIPCPUSTATE_OFFLINE\<rparr>) g)
      \<lparr>g_OnlineCpuSet := unset_bit (unat x) (g_OnlineCpuSet g)\<rparr>"
  have "cpu_ok (g_aCPUs g ! ?i)" using g i by (simp add: page_ok_def)
  then have "page_ok (set_cpu ?i ((g_aCPUs g ! ?i)\<lparr>gc_enmState := SUPGIPCPUSTATE_OFFLINE\<rparr>) g)"
    by (intro page_ok_set_cpu[OF g i]) (simp_all add: cpu_ok_def)
  then have "page_ok ?g'" by (rule page_ok_frame(2))
  moreover have "gip_offline nr x g = Some (True, ?g')"
    using True x ux i by (simp add: gip_offline_def Let_def gip_cpu_def RTCpuSetDelByIndex_def word_less_nat_alt)
  moreover have "map gc_idCpu ((g_aCPUs g)[?i := (g_aCPUs g ! ?i)\<lparr>gc_enmState := SUPGIPCPUSTATE_OFFLINE\<rparr>]) = map gc_idCpu (g_aCPUs g)"
    using list_update_id[of "map gc_idCpu (g_aCPUs g)" ?i] i by (simp add: map_update)
  ultimately show ?thesis using True i
    by (intro exI[of _ True] exI[of _ ?g']) (simp add: bit_unset_bit_iff)
qed

text \<open>The CPUs that can be the next master, by set index; the search finds the first of them.\<close>

definition master_candidates :: "nat \<Rightarrow> RTCPUSET \<Rightarrow> u32 \<Rightarrow> nat set" where
  "master_candidates nr S m = {y. y < RTCPUSET_MAX_CPUS \<and> y < nr \<and> bit S y \<and> of_nat y \<noteq> m}"

lemma master_search_eq:
  "master_search nr S m i n = (case find (\<lambda>c. RTCpuSetIsMember nr S c \<and> c \<noteq> m) (map (RTMpCpuIdFromSetIndex nr) [i..<i + n]) of
     None \<Rightarrow> NIL_RTCPUID | Some c \<Rightarrow> c)"
  by (induction n arbitrary: i) (auto simp: upt_conv_Cons Let_def simp del: upt_Suc split: option.split)

lemma find_upt_Min: "List.find P [0..<n] = (if {y. y < n \<and> P y} = {} then None else Some (Min {y. y < n \<and> P y}))"
proof (cases "List.find P [0..<n]")
  case None
  then show ?thesis by (auto simp: find_None_iff)
next
  case (Some k)
  then have k: "k < n" "P k" "\<forall>j < k. \<not> P j" by (auto simp: find_Some_iff)
  have "Min {y. y < n \<and> P y} = k" by (rule Min_eqI) (use k leI in auto)
  with k Some show ?thesis by auto
qed

lemma find_map_option: "List.find P (map f xs) = map_option f (List.find (P \<circ> f) xs)"
  by (induction xs) auto

lemma find_set_cong: "(\<And>x. x \<in> set xs \<Longrightarrow> P x = Q x) \<Longrightarrow> List.find P xs = List.find Q xs"
  by (induction xs) auto

lemma master_search_Min:
  "master_search nr S m 0 RTCPUSET_MAX_CPUS =
    (if master_candidates nr S m = {} then NIL_RTCPUID else of_nat (Min (master_candidates nr S m)))"
proof -
  have id: "unat (of_nat y :: u32) = y" if "y < 256" for y
    using that by (simp add: unsigned_of_nat take_bit_nat_eq_self)
  let ?P = "\<lambda>c. RTCpuSetIsMember nr S c \<and> c \<noteq> m" and ?Q = "\<lambda>y. y < nr \<and> bit S y \<and> of_nat y \<noteq> m"
  have e: "(?P \<circ> RTMpCpuIdFromSetIndex nr) y = ?Q y" if "y \<in> set [0..<256]" for y
    using that id[of y] by (auto simp: RTCpuSetIsMember_def RTMpCpuIdToSetIndex_def RTMpCpuIdFromSetIndex_def Let_def)
  have "List.find ?P (map (RTMpCpuIdFromSetIndex nr) [0..<256]) = map_option (RTMpCpuIdFromSetIndex nr) (List.find ?Q [0..<256])"
    by (simp only: find_map_option find_set_cong[of "[0..<256]", OF e])
  moreover have "Min (master_candidates nr S m) < nr" if "master_candidates nr S m \<noteq> {}"
  proof -
    have "finite (master_candidates nr S m)" unfolding master_candidates_def by (rule finite_subset[of _ "{..<256}"]) auto
    from Min_in[OF this that] show ?thesis by (simp add: master_candidates_def)
  qed
  ultimately show ?thesis
    by (simp add: master_search_eq find_upt_Min RTMpCpuIdFromSetIndex_def flip: master_candidates_def)
qed

section \<open>The update mode\<close>

text \<open>
  The specification of the TSC test: of the calls in the order they are made, those from the first one that
  answers \<open>VERR_NOT_SUPPORTED\<close> on do not count, and a call that fails otherwise (the CPU is offline, or there
  is none with that set index) contributes nothing.  What is left are the readings.  The mode is asynchronous
  when they are not strictly increasing.
\<close>

definition tsc_read :: "(rc \<times> u64) list \<Rightarrow> u64 list" where
  "tsc_read rs = map snd (filter (\<lambda>r. RT_SUCCESS (fst r)) (takeWhile (\<lambda>r. fst r \<noteq> VERR_NOT_SUPPORTED) rs))"

definition tsc_calls :: "(nat \<Rightarrow> (rc \<times> u64) list) \<Rightarrow> nat \<Rightarrow> (rc \<times> u64) list" where
  "tsc_calls rounds n = concat (map rounds (rev [0..<n]))"

lemma tsc_calls_Suc: "tsc_calls rounds (Suc n) = rounds n @ tsc_calls rounds n"
  by (simp add: tsc_calls_def)

lemma tsc_read_append:
  "tsc_read (xs @ ys) = (if VERR_NOT_SUPPORTED \<in> fst ` set xs then tsc_read xs else tsc_read xs @ tsc_read ys)"
proof (cases "VERR_NOT_SUPPORTED \<in> fst ` set xs")
  case True
  then obtain r where "r \<in> set xs" "fst r = VERR_NOT_SUPPORTED" by auto
  then show ?thesis using True by (simp add: tsc_read_def)
next
  case False
  then have "\<forall>r \<in> set xs. fst r \<noteq> VERR_NOT_SUPPORTED" by (metis image_eqI)
  then have tw: "takeWhile (\<lambda>r. fst r \<noteq> VERR_NOT_SUPPORTED) (xs @ ys) = xs @ takeWhile (\<lambda>r. fst r \<noteq> VERR_NOT_SUPPORTED) ys"
    "takeWhile (\<lambda>r. fst r \<noteq> VERR_NOT_SUPPORTED) xs = xs" by (simp_all add: takeWhile_append2 takeWhile_eq_all_conv)
  from False show ?thesis by (simp only: tsc_read_def tw if_False filter_append map_append)
qed

lemma tsc_read_Cons:
  "tsc_read ((c, t) # rs) = (if c = VERR_NOT_SUPPORTED then [] else if RT_SUCCESS c then t # tsc_read rs else tsc_read rs)"
  by (simp add: tsc_read_def)

lemma sorted_less_Cons2: "sorted_wrt (<) (p # x # zs) \<longleftrightarrow> p < x \<and> sorted_wrt (<) (x # zs)" for p :: "'a::linorder"
  by (rule sorted_wrt2) simp

lemma tsc_cpus_spec:
  "case tsc_cpus cl i rs (prev, mn, mx) of (left, fAsync, prev', _) \<Rightarrow>
    left = (fAsync \<or> VERR_NOT_SUPPORTED \<in> fst ` set rs) \<and> fAsync = (\<not> sorted_wrt (<) (prev # tsc_read rs)) \<and>
    (\<not> left \<longrightarrow> prev' = last (prev # tsc_read rs))"
proof (induction rs arbitrary: i prev mn mx)
  case Nil
  show ?case by (simp add: tsc_read_def)
next
  case (Cons r rs)
  obtain c t where r: "r = (c, t)" by fastforce
  show ?case
  proof (cases "RT_SUCCESS c")
    case False
    with Cons.IH[where i = "Suc i"] r show ?thesis by (cases "c = VERR_NOT_SUPPORTED") (auto simp: tsc_read_Cons)
  next
    case c: True
    then have ns: "c \<noteq> VERR_NOT_SUPPORTED" by auto
    then have rd: "tsc_read (r # rs) = t # tsc_read rs" using c r by (simp add: tsc_read_Cons)
    show ?thesis
    proof (cases "t \<le> prev")
      case True
      with c r rd show ?thesis by auto
    next
      case False
      then have s: "sorted_wrt (<) (prev # t # tsc_read rs) = sorted_wrt (<) (t # tsc_read rs)"
        by (simp only: sorted_less_Cons2 not_le simp_thms)
      let ?st = "if i \<noteq> 0 \<or> cl \<noteq> 7 then (t, if t - prev < mn then t - prev else mn, if mx < t - prev then t - prev else mx) else (t, mn, mx)"
      obtain mn' mx' where st: "?st = (t, mn', mx')" by (cases "i \<noteq> 0 \<or> cl \<noteq> 7") auto
      have "tsc_cpus cl i (r # rs) (prev, mn, mx) = tsc_cpus cl (Suc i) rs (t, mn', mx')"
        using c r False by (simp only: tsc_cpus.simps Let_def st if_True if_False)
      then show ?thesis using Cons.IH[where i = "Suc i" and prev = t and mn = mn' and mx = mx'] r s rd ns by auto
    qed
  qed
qed

lemma sorted_wrt_less_append:
  "sorted_wrt (<) (p # xs @ ys) \<longleftrightarrow> sorted_wrt (<) (p # xs) \<and> sorted_wrt (<) (last (p # xs) # ys)" for xs :: "'a::linorder list"
proof (induction xs arbitrary: p)
  case (Cons x xs)
  have "last (p # x # xs) = last (x # xs)" by simp
  with Cons[of x] show ?case by (simp only: append_Cons sorted_less_Cons2 conj_assoc)
qed simp

lemma tsc_loops_spec:
  "fst (tsc_loops n rounds (prev, mn, mx)) = (\<not> sorted_wrt (<) (prev # tsc_read (tsc_calls rounds n)))"
proof (induction n arbitrary: prev mn mx)
  case 0
  show ?case by (simp add: tsc_calls_def tsc_read_def)
next
  case (Suc n)
  obtain l f p' mn' mx' where t: "tsc_cpus n 0 (rounds n) (prev, mn, mx) = (l, f, p', mn', mx')"
    by (cases "tsc_cpus n 0 (rounds n) (prev, mn, mx)") auto
  have sp: "l = (f \<or> VERR_NOT_SUPPORTED \<in> fst ` set (rounds n)) \<and> f = (\<not> sorted_wrt (<) (prev # tsc_read (rounds n))) \<and>
      (\<not> l \<longrightarrow> p' = last (prev # tsc_read (rounds n)))"
    using tsc_cpus_spec[where cl = n and i = 0 and rs = "rounds n" and prev = prev and mn = mn and mx = mx]
    unfolding t prod.case .
  show ?case
    using sp Suc.IH[where prev = p' and mn = mn' and mx = mx'] t
    by (cases "VERR_NOT_SUPPORTED \<in> fst ` set (rounds n)")
      (simp_all only: tsc_calls_Suc tsc_read_append sorted_wrt_less_append tsc_loops.simps prod.case if_True if_False simp_thms fst_conv, auto)
qed

section \<open>The first update interval\<close>

lemma grow_interval_steps:
  assumes "0 < unat res" "unat res < 10000000" "k * unat res < 10000000 + unat res" "0 < k"
  shows "gip_grow_interval res (of_nat (k * unat res)) =
    Some (of_nat ((10000000 + unat res - 1) div unat res * unat res))"
  using assms(3,4)
proof (induction "20000000 - k * unat res" arbitrary: k rule: less_induct)
  case less
  let ?n = "(10000000 + unat res - 1) div unat res"
  have le: "k * unat res < 20000000" using less.prems assms(2) by linarith
  then have u: "unat (of_nat (k * unat res) :: u32) = k * unat res"
    using take_bit_nat_eq_self[of "k * unat res" 32] by (simp only: unsigned_of_nat of_nat_id) simp
  show ?case
  proof (cases "k * unat res < 10000000")
    case True
    then have lt: "(of_nat (k * unat res) :: u32) < 10000000" using u by (simp add: word_less_nat_alt)
    have nx: "of_nat (k * unat res) + res = (of_nat (Suc k * unat res) :: u32)" by simp
    have "gip_grow_interval res (of_nat (Suc k * unat res)) = Some (of_nat (?n * unat res))"
      by (rule less.hyps) (use True assms le in auto)
    with lt nx show ?thesis by (subst gip_grow_interval.simps) (simp only: if_True)
  next
    case False
    then have ge: "\<not> (of_nat (k * unat res) :: u32) < 10000000" using u by (simp add: word_less_nat_alt)
    have "?n = k"
    proof (rule div_nat_eqI)
      show "unat res * k \<le> 10000000 + unat res - 1" using less.prems(1) by (simp add: mult.commute)
      show "10000000 + unat res - 1 < unat res * Suc k" using False assms(1) by (simp add: mult.commute)
    qed
    with ge show ?thesis by (subst gip_grow_interval.simps) simp
  qed
qed

lemma grow_interval_zero: "x < 10000000 \<Longrightarrow> gip_grow_interval 0 x = None"
proof -
  have "gip_grow_interval r x = Some y \<Longrightarrow> r = 0 \<longrightarrow> \<not> x < 10000000" for r x y
    by (rule gip_grow_interval.raw_induct[where P = "\<lambda>r x y. r = 0 \<longrightarrow> \<not> x < 10000000"])
      (auto split: if_splits)
  then show "x < 10000000 \<Longrightarrow> gip_grow_interval 0 x = None" by (cases "gip_grow_interval 0 x") auto
qed

section \<open>Initialisation\<close>

lemma those_map_Some: "(\<And>x. x \<in> set xs \<Longrightarrow> \<exists>y. f x = Some y) \<Longrightarrow> \<exists>ys. those (map f xs) = Some ys \<and> length ys = length xs \<and>
    (\<forall>i < length xs. f (xs ! i) = Some (ys ! i))"
proof (induction xs)
  case (Cons x xs)
  obtain y where y: "f x = Some y" using Cons.prems[of x] by auto
  from Cons obtain ys where ys: "those (map f xs) = Some ys" "length ys = length xs" "\<forall>i < length xs. f (xs ! i) = Some (ys ! i)" by auto
  with y show ?case by (intro exI[of _ "y # ys"]) (auto simp: nth_Cons split: nat.split)
qed simp

lemma GipInit_ok:
  assumes "hz \<noteq> 0" "0 < n" "n \<le> 256"
  shows "\<exists>g. supdrvGipInit mode cc ts TSC hz n = Some g \<and> page_ok g \<and> g_u32Magic g = SUPGLOBALINFOPAGE_MAGIC \<and>
    g_u32Mode g = mode \<and> unat (g_cCpus g) = n \<and> cpu_ids g = [] \<and> g_u32UpdateHz g = hz \<and> g_u64NanoTSLastUpdateHz g = ts"
proof -
  let ?g = "\<lparr>g_u32Magic = SUPGLOBALINFOPAGE_MAGIC, g_u32Version = SUPGLOBALINFOPAGE_VERSION, g_u32Mode = mode,
          g_cCpus = of_nat n, g_cPages = of_nat ((gip_size n + 0xfff) div 0x1000),
          g_u32UpdateHz = hz, g_u32UpdateIntervalNS = 1000000000 div hz,
          g_u64NanoTSLastUpdateHz = ts, g_OnlineCpuSet = 0, g_PresentCpuSet = 0,
          g_PossibleCpuSet = cc_Possible cc, g_cOnlineCpus = cc_cOnline cc, g_cPresentCpus = cc_cPresent cc,
          g_cPossibleCpus = cc_cPossible cc, g_idCpuMax = cc_idCpuMax cc,
          g_aiCpuFromApicId = replicate 256 0, g_aiCpuFromCpuSetIdx = replicate 256 UINT16_MAX, g_aCPUs = []\<rparr>"
  have ini: "\<exists>c. supdrvGipInitCpu ?g ts (TSC i) gipcpu_zero = Some c \<and> cpu_ok c \<and> gc_idCpu c = NIL_RTCPUID" for i
    by (rule InitCpu_ok) (use assms in \<open>simp_all add: gipcpu_zero_def\<close>)
  from those_map_Some[of "[0..<n]" "\<lambda>i. supdrvGipInitCpu ?g ts (TSC i) gipcpu_zero"] ini obtain cs where
    cs: "those (map (\<lambda>i. supdrvGipInitCpu ?g ts (TSC i) gipcpu_zero) [0..<n]) = Some cs" "length cs = n"
    "\<forall>i < n. supdrvGipInitCpu ?g ts (TSC i) gipcpu_zero = Some (cs ! i)" by auto
  have "\<forall>c \<in> set cs. cpu_ok c \<and> gc_idCpu c = NIL_RTCPUID"
    using cs(2,3) ini by (metis in_set_conv_nth option.inject)
  moreover have "unat (of_nat n :: 16 word) = n" using assms by (simp add: unsigned_of_nat take_bit_nat_eq_self)
  moreover have "(0::16 word) < of_nat n" using assms calculation(2) by (simp add: word_less_nat_alt)
  ultimately have "page_ok (?g\<lparr>g_aCPUs := cs\<rparr>)" "cpu_ids (?g\<lparr>g_aCPUs := cs\<rparr>) = []"
    using assms cs(2) by (simp_all add: page_ok_def cpu_ids_def filter_empty_conv)
  then show ?thesis using assms cs(1) \<open>unat (of_nat n :: 16 word) = n\<close>
    by (intro exI[of _ "?g\<lparr>g_aCPUs := cs\<rparr>"]) (simp add: supdrvGipInit_def Let_def)
qed

section \<open>Properties\<close>

text \<open>The published update interval is an average of the recent TSC deltas: whatever the update
  frequency, when all deltas on record lie between two bounds below 2^30 the interval without its
  slack lies between the same bounds, and adding the slack, at most a 64th, does not wrap.\<close>

theorem update_interval_bounds:
  assumes "length h = 8" "\<forall>x \<in> set h. lo \<le> unat x \<and> unat x \<le> hi" "lo \<le> unat d" "unat d \<le> hi" "hi < 2 ^ 30"
    and "unat head < 8"
  shows "case gip_interval hz h head d of (v, slack) \<Rightarrow>
    lo \<le> unat v \<and> unat v \<le> hi \<and> unat (v + slack) = unat v + unat slack \<and> unat slack \<le> unat v div 64"
  by (rule gip_interval_bounds[OF assms])

theorem update_interval_bounds_witness:
  "case gip_interval 1000 [10, 20, 30, 40, 10, 20, 30, 40] 3 40 of (v, slack) \<Rightarrow> 10 \<le> unat v \<and> unat v \<le> 40"
  using update_interval_bounds[of "[10, 20, 30, 40, 10, 20, 30, 40]" 10 40 40 3 1000] by (auto split: prod.splits)

text \<open>A timer transaction on an entry whose id is even completes: it stores the new time stamps, moves
  the transaction id on by exactly two, so that it is even again, leaves every other entry alone
  and keeps the page well-formed.  It needs nothing but a clock that has moved since the last
  recalculation of the frequency.\<close>

theorem transaction_completes:
  assumes "page_ok g" "i < length (g_aCPUs g)" "fRecalc \<Longrightarrow> clock_moved ts g"
  shows "\<exists>g'. gip_transaction fRecalc i ts tsc t g = Some g' \<and> page_ok g' \<and>
    (\<forall>j. j \<noteq> i \<longrightarrow> g_aCPUs g' ! j = g_aCPUs g ! j) \<and>
    (let c = g_aCPUs g ! i; c' = g_aCPUs g' ! i in
      gc_u32TransactionId c' = gc_u32TransactionId c + 2 \<and> gc_u64NanoTS c' = ts \<and> gc_u64TSC c' = tsc \<and>
      c' = (supdrvGipDoUpdateCpu (g_u32UpdateHz g') (c\<lparr>gc_u32TransactionId := gc_u32TransactionId c + 1\<rparr>) ts tsc t)
             \<lparr>gc_u32TransactionId := gc_u32TransactionId c + 2\<rparr>)"
  by (rule gip_transaction_ok[OF assms])

definition gip_sample :: SUPGLOBALINFOPAGE where
  "gip_sample = \<lparr>g_u32Magic = SUPGLOBALINFOPAGE_MAGIC, g_u32Version = SUPGLOBALINFOPAGE_VERSION, g_u32Mode = SUPGIPMODE_SYNC_TSC,
     g_cCpus = 1, g_cPages = 1, g_u32UpdateHz = 100, g_u32UpdateIntervalNS = 10000000, g_u64NanoTSLastUpdateHz = 1000,
     g_OnlineCpuSet = 0, g_PresentCpuSet = 0, g_PossibleCpuSet = 1, g_cOnlineCpus = 1, g_cPresentCpus = 1,
     g_cPossibleCpus = 1, g_idCpuMax = 0, g_aiCpuFromApicId = replicate 256 0,
     g_aiCpuFromCpuSetIdx = replicate 256 UINT16_MAX, g_aCPUs = [gipcpu_zero\<lparr>gc_idCpu := NIL_RTCPUID\<rparr>]\<rparr>"

lemma page_ok_gip_sample: "page_ok gip_sample"
  by (simp add: page_ok_def gip_sample_def cpu_ok_def gipcpu_zero_def cpu_ids_def)

theorem transaction_completes_witness:
  "\<exists>g'. gip_transaction True 0 5000 700 1 gip_sample = Some g' \<and> gc_u32TransactionId (g_aCPUs g' ! 0) = 2 \<and>
    gc_u64TSC (g_aCPUs g' ! 0) = 700"
proof -
  have "0 < length (g_aCPUs gip_sample)" "clock_moved 5000 gip_sample" "gc_u32TransactionId (g_aCPUs gip_sample ! 0) = 0"
    by (simp_all add: gip_sample_def clock_moved_def gipcpu_zero_def)
  with transaction_completes[OF page_ok_gip_sample this(1), of True 5000 700 1] show ?thesis by (auto simp: Let_def)
qed

text \<open>C27: The TSC test agrees with its specification for every answer of every call: the update mode is made
  asynchronous exactly when the readings, the one taken at the start included, fail to increase strictly.  The
  readings are those of the calls that succeed, in the order of the up to eight rounds over the CPU set, before
  the first call that answers \<open>VERR_NOT_SUPPORTED\<close>; CPUs that are offline or missing are passed over.\<close>

theorem async_tsc_iff_not_increasing:
  "fst (supdrvDetermineAsyncTsc PrevTsc rounds) \<longleftrightarrow> \<not> sorted_wrt (<) (PrevTsc # tsc_read (tsc_calls rounds 8))"
  unfolding supdrvDetermineAsyncTsc_def by (rule tsc_loops_spec)

text \<open>A second CPU that is offline does not matter, and neither does what follows a call that is not supported.\<close>

theorem async_tsc_iff_not_increasing_witness:
  "\<not> fst (supdrvDetermineAsyncTsc 5 (\<lambda>k. if k = 7 then [(0, 10), (- 600, 1), (0, 20)]
     else if k = 6 then [(0, 30), (VERR_NOT_SUPPORTED, 0), (0, 7)] else []))"
proof -
  let ?r = "\<lambda>k::nat. if k = 7 then [(0::rc, 10::u64), (- 600, 1), (0, 20)]
     else if k = 6 then [(0, 30), (VERR_NOT_SUPPORTED, 0), (0, 7)] else []"
  have "rev [0..<8] = [7, 6, 5, 4, 3, 2, 1, 0::nat]" by (simp add: eval_nat_numeral)
  then have "tsc_read (tsc_calls ?r 8) = [10, 20, 30]" by (simp add: tsc_calls_def tsc_read_def)
  then show ?thesis by (simp only: async_tsc_iff_not_increasing) simp
qed

text \<open>The computation of the update interval ends exactly when the timer granularity is not zero, and
  then gives the granularity itself, if that is 10 ms or more, or else its least multiple that
  reaches 10 ms, which is less than 20 ms.\<close>

theorem grow_interval_terminates:
  "gip_grow_interval res res =
    (if res = 0 then None
     else if 10000000 \<le> unat res then Some res
     else Some (of_nat ((10000000 + unat res - 1) div unat res * unat res))) \<and>
   (10000000 + unat res - 1) div unat res * unat res < 10000000 + unat res"
proof -
  consider "res = 0" | "10000000 \<le> unat res" | "0 < unat res" "unat res < 10000000"
    by (metis gr0I not_le unat_eq_0)
  then have "gip_grow_interval res res = (if res = 0 then None
     else if 10000000 \<le> unat res then Some res
     else Some (of_nat ((10000000 + unat res - 1) div unat res * unat res)))"
  proof cases
    case 1
    then show ?thesis by (simp add: grow_interval_zero)
  next
    case 2
    then have "\<not> res < 10000000" by (simp add: word_less_nat_alt)
    with 2 show ?thesis by (subst gip_grow_interval.simps) auto
  next
    case 3
    then have "gip_grow_interval res (of_nat (1 * unat res)) = Some (of_nat ((10000000 + unat res - 1) div unat res * unat res))"
      by (intro grow_interval_steps) simp_all
    with 3 show ?thesis by auto
  qed
  moreover have "(10000000 + unat res - 1) div unat res * unat res \<le> 10000000 + unat res - 1" by simp
  then have "(10000000 + unat res - 1) div unat res * unat res < 10000000 + unat res" by linarith
  ultimately show ?thesis by blast
qed

text \<open>A CPU that comes online ends up with exactly one entry, its old one or an unused one, marked
  online, with both index tables leading to it; no other entry changes and the page stays
  well-formed.\<close>

theorem online_registers_cpu:
  assumes "page_ok g" "cpu_room x g" "0 \<le> RTMpCpuIdToSetIndex nr x"
  shows "\<exists>g' i. gip_online nr env x g = Some g' \<and> page_ok g' \<and> i < length (g_aCPUs g) \<and> g_cCpus g' = g_cCpus g \<and>
    (\<forall>j. j \<noteq> i \<longrightarrow> g_aCPUs g' ! j = g_aCPUs g ! j) \<and> gc_idCpu (g_aCPUs g ! i) \<in> {x, NIL_RTCPUID} \<and> gc_idCpu (g_aCPUs g' ! i) = x \<and>
    gc_enmState (g_aCPUs g' ! i) = SUPGIPCPUSTATE_ONLINE \<and> gc_u32TransactionId (g_aCPUs g' ! i) = 2 \<and>
    g_aiCpuFromApicId g' ! unat (me_idApic env) = of_nat i \<and>
    g_aiCpuFromCpuSetIdx g' ! unat x = of_nat i \<and> bit (g_OnlineCpuSet g') (unat x)"
  by (rule gip_online_ok[OF assms])

theorem online_registers_cpu_witness:
  "\<exists>g' i. gip_online 8 \<lparr>me_idCpu = 0, me_idApic = 0, me_TSC = 1, me_NanoTS = 2, me_cPresent = 1, me_cOnline = 1\<rparr> 0 gip_sample =
     Some g' \<and> gc_enmState (g_aCPUs g' ! i) = SUPGIPCPUSTATE_ONLINE"
proof -
  have "cpu_room 0 gip_sample" "0 \<le> RTMpCpuIdToSetIndex 8 0"
    by (simp_all add: cpu_room_def gip_sample_def RTMpCpuIdToSetIndex_def)
  from online_registers_cpu[OF page_ok_gip_sample this] show ?thesis by blast
qed

end
