(* ===== verification/SupGip.thy ===== *)
theory SupGip
  imports SupGipPage SupObj
begin

text \<open>
  The GIP in the driver: creating and destroying the page, mapping it into sessions and counting
  its users, the timer ticks and the CPU online and offline events.  The page lives at
  \<^const>\<open>d_pGip\<close> in \<^const>\<open>gips\<close>.  Here \<^term>\<open>None\<close> also stands for a spinlock that is acquired
  while it is held: that call never returns.
\<close>

section \<open>Mapping the page\<close>

text \<open>
  What the system answers during \<open>SUPR0GipMap\<close> and \<open>SUPR0GipUnmap\<close>: the native mapping (status,
  handle, address, process), the timer granularity it grants for a request, the clock, the number
  of online CPUs, the CPU, APIC id and TSC of each call that \<open>RTMpOnAll\<close> makes, the status of
  starting the timer, and native frees.
\<close>

record gipenv =
  ge_rcMap :: rc
  ge_hMap :: addr
  ge_pvMap :: addr
  ge_R0Process :: u64
  ge_fGrow :: bool
  ge_grant :: "u32 \<Rightarrow> u32 option"
  ge_NanoTS :: u64
  ge_cOnline :: nat
  ge_TSC :: u64
  ge_onAll :: "(u32 \<times> u8 \<times> u64) list"
  ge_rcStart :: rc
  ge_nf :: "addr \<Rightarrow> rc"

definition supdrvGipReInitCpuCallback :: "u64 \<Rightarrow> u32 \<times> u8 \<times> u64 \<Rightarrow> SUPGLOBALINFOPAGE \<Rightarrow> SUPGLOBALINFOPAGE option" where
  "supdrvGipReInitCpuCallback u64NanoTS call g = (case call of (idCpu, idApic, TSC) \<Rightarrow>
     let iCpu = unat (g_aiCpuFromApicId g ! unat idApic) in
     if iCpu < unat (g_cCpus g) then do {
       c \<leftarrow> gip_cpu g iCpu;
       Some (if gc_idCpu c = idCpu then set_cpu iCpu (supdrvGipReInitCpu u64NanoTS TSC c) g else g)
     }
     else Some g)"

fun on_all :: "('c \<Rightarrow> 's \<Rightarrow> 's option) \<Rightarrow> 'c list \<Rightarrow> 's \<Rightarrow> 's option" where
  "on_all f [] g = Some g"
| "on_all f (c # cs) g = do { g1 \<leftarrow> f c g; on_all f cs g1 }"

text \<open>The first granted granularity of the four that are requested.\<close>

definition gip_granularity :: "(u32 \<Rightarrow> u32 option) \<Rightarrow> u32 \<Rightarrow> u32" where
  "gip_granularity grant old =
     (case List.find (\<lambda>r. grant r \<noteq> None) [976563, 1000000, 1953125, 2000000] of
        None \<Rightarrow> old | Some r \<Rightarrow> the (grant r))"

text \<open>
  Restarting the transaction ids, when it is not the first time: they are rounded up to a multiple
  of twice the recalculation frequency.  The loop runs over the declared size of \<open>aCPUs\<close>, which
  is 1.
\<close>

definition gip_restart_ids :: "SUPGLOBALINFOPAGE \<Rightarrow> SUPGLOBALINFOPAGE option" where
  "gip_restart_ids g = do {
     c \<leftarrow> gip_cpu g 0;
     Some (if gc_u32TransactionId c \<noteq> 2
           then (set_cpu 0 (c\<lparr>gc_u32TransactionId :=
                    (gc_u32TransactionId c + GIP_UPDATEHZ_RECALC_FREQ * 2) AND NOT (GIP_UPDATEHZ_RECALC_FREQ * 2 - 1)\<rparr>) g)
                  \<lparr>g_u64NanoTSLastUpdateHz := 0\<rparr>
           else g)
   }"

text \<open>The first user: timer granularity, transaction ids, time stamps, timer.\<close>

definition gip_resume :: "gipenv \<Rightarrow> supdrv \<Rightarrow> supdrv option" where
  "gip_resume env s = do {
     g \<leftarrow> gips s (d_pGip (devext s));
     g1 \<leftarrow> gip_restart_ids g;
     let u64NanoTS = ge_NanoTS env - ucast (g_u32UpdateIntervalNS g1);
     g2 \<leftarrow> (if g_u32Mode g1 = SUPGIPMODE_SYNC_TSC \<or> ge_cOnline env = 1
             then do { c \<leftarrow> gip_cpu g1 0; Some (set_cpu 0 (supdrvGipReInitCpu u64NanoTS (ge_TSC env) c) g1) }
             else on_all (supdrvGipReInitCpuCallback u64NanoTS) (ge_onAll env) g1);
     Some (put_gip (d_pGip (devext s)) g2
       (upd_devext (\<lambda>d. d\<lparr>d_u32SystemTimerGranularityGrant :=
            gip_granularity (ge_grant env) (d_u32SystemTimerGranularityGrant d),
          d_fGipTimerRunning := d_fGipTimerRunning d \<or> RT_SUCCESS (ge_rcStart env)\<rparr>) s))
   }"

text \<open>Answers the status, the ring-3 address and the physical address.\<close>

definition SUPR0GipMap :: "addr \<Rightarrow> addr \<Rightarrow> addr \<Rightarrow> gipenv \<Rightarrow> supdrv \<Rightarrow> ((rc \<times> addr \<times> u64) \<times> supdrv) option" where
  "SUPR0GipMap pSession ppGipR3 pHCPhysGip env s = do {
     ss \<leftarrow> sessions s pSession;
     if \<not> SUP_IS_SESSION_VALID pSession ss then Some ((VERR_INVALID_PARAMETER, 0, NIL_RTHCPHYS), s)
     else if ppGipR3 \<noteq> 0 \<and> \<not> RT_VALID_PTR ppGipR3 then Some ((VERR_INVALID_POINTER, 0, NIL_RTHCPHYS), s)
     else if pHCPhysGip \<noteq> 0 \<and> \<not> RT_VALID_PTR pHCPhysGip then Some ((VERR_INVALID_POINTER, 0, NIL_RTHCPHYS), s)
     else if d_pGip (devext s) = 0 then Some ((VERR_GENERAL_FAILURE, 0, NIL_RTHCPHYS), s)
     else do {
       (rc, MapObj, h) \<leftarrow> (if ppGipR3 \<noteq> 0 \<and> s_GipMapObjR3 ss = NIL_RTR0MEMOBJ
          then do {
            cb \<leftarrow> RTR0MemObjSize (memobjs s) (d_GipMemObj (devext s));
            memobj_map (ge_rcMap env) (ge_hMap env)
              (memobj_new MO_MAPPING cb (ge_pvMap env) (ge_R0Process env) (\<lambda>_. d_HCPhysGip (devext s)))
              (ge_fGrow env) (d_GipMemObj (devext s)) (memobjs s)
          }
          else Some (VINF_SUCCESS, s_GipMapObjR3 ss, memobjs s));
       pGipR3 \<leftarrow> (if ppGipR3 \<noteq> 0 \<and> RT_SUCCESS rc then RTR0MemObjAddressR3 h MapObj else Some 0);
       let HCPhys = (if pHCPhysGip \<noteq> 0 \<and> RT_SUCCESS rc then d_HCPhysGip (devext s) else NIL_RTHCPHYS);
       let ss1 = ss\<lparr>s_GipMapObjR3 := MapObj\<rparr>;
       if \<not> s_fGipReferenced ss \<and> RT_SUCCESS rc
       then do {
         let s1 = upd_devext (\<lambda>d. d\<lparr>d_cGipUsers := d_cGipUsers d + 1\<rparr>)
                    (put_session pSession (ss1\<lparr>s_fGipReferenced := True\<rparr>) (s\<lparr>memobjs := h\<rparr>));
         if d_cGipUsers (devext s1) = 1
         then do { s2 \<leftarrow> gip_resume env s1; Some ((VINF_SUCCESS, pGipR3, HCPhys), s2) }
         else Some ((rc, pGipR3, HCPhys), s1)
       }
       else Some ((rc, pGipR3, HCPhys), put_session pSession ss1 (s\<lparr>memobjs := h\<rparr>))
     }
   }"

text \<open>The last user gone: the timer is stopped (\<open>rcStop\<close>) and the granularity given back.\<close>

definition gip_suspend :: "rc \<Rightarrow> supdrv \<Rightarrow> supdrv" where
  "gip_suspend rcStop = upd_devext (\<lambda>d. d\<lparr>d_fGipTimerRunning := d_fGipTimerRunning d \<and> RT_FAILURE rcStop,
     d_u32SystemTimerGranularityGrant := 0\<rparr>)"

definition SUPR0GipUnmap :: "addr \<Rightarrow> (addr \<Rightarrow> rc) \<Rightarrow> rc \<Rightarrow> supdrv \<Rightarrow> (rc \<times> supdrv) option" where
  "SUPR0GipUnmap pSession nf rcStop s = do {
     ss \<leftarrow> sessions s pSession;
     if \<not> SUP_IS_SESSION_VALID pSession ss then Some (VERR_INVALID_PARAMETER, s)
     else do {
       (rc, MapObj, h) \<leftarrow> (if s_GipMapObjR3 ss \<noteq> NIL_RTR0MEMOBJ
          then do {
            (rc, h) \<leftarrow> RTR0MemObjFree nf (s_GipMapObjR3 ss) False (memobjs s);
            Some (rc, if RT_SUCCESS rc then NIL_RTR0MEMOBJ else s_GipMapObjR3 ss, h)
          }
          else Some (VINF_SUCCESS, NIL_RTR0MEMOBJ, memobjs s));
       let ss1 = ss\<lparr>s_GipMapObjR3 := MapObj\<rparr>;
       if s_fGipReferenced ss \<and> rc = 0
       then
         let s1 = put_session pSession (ss1\<lparr>s_fGipReferenced := False\<rparr>) (s\<lparr>memobjs := h\<rparr>) in
         if 0 < d_cGipUsers (devext s1)
         then let s2 = upd_devext (\<lambda>d. d\<lparr>d_cGipUsers := d_cGipUsers d - 1\<rparr>) s1 in
              Some (VINF_SUCCESS, if d_cGipUsers (devext s2) = 0 then gip_suspend rcStop s2 else s2)
         else Some (rc, s1)
       else Some (rc, put_session pSession ss1 (s\<lparr>memobjs := h\<rparr>))
     }
   }"

text \<open>The GIP part of session cleanup.\<close>

definition supdrvCleanupSession_gip :: "addr \<Rightarrow> (addr \<Rightarrow> rc) \<Rightarrow> rc \<Rightarrow> supdrv \<Rightarrow> supdrv option" where
  "supdrvCleanupSession_gip pSession nf rcStop s = do {
     ss \<leftarrow> sessions s pSession;
     if s_GipMapObjR3 ss \<noteq> NIL_RTR0MEMOBJ
     then do {
       (_, s1) \<leftarrow> SUPR0GipUnmap pSession nf rcStop s;
       ss1 \<leftarrow> sessions s1 pSession;
       Some (put_session pSession (ss1\<lparr>s_fGipReferenced := False\<rparr>) s1)
     }
     else Some s
   }"

section \<open>Ticks and CPU events\<close>

text \<open>Writing the page back.\<close>

definition with_gip :: "(SUPGLOBALINFOPAGE \<Rightarrow> SUPGLOBALINFOPAGE option) \<Rightarrow> supdrv \<Rightarrow> supdrv option" where
  "with_gip f s = do { g \<leftarrow> gips s (d_pGip (devext s)); g' \<leftarrow> f g; Some (put_gip (d_pGip (devext s)) g' s) }"

definition supdrvGipMpEventOnline :: "nat \<Rightarrow> mpenv \<Rightarrow> u32 \<Rightarrow> supdrv \<Rightarrow> supdrv option" where
  "supdrvGipMpEventOnline NR_CPUS env idCpu s =
     (if \<not> RT_VALID_PTR (d_pGip (devext s)) then Some s
      else if idCpu \<noteq> me_idCpu env then None
      else if d_hGipSpinlock (devext s) then None
      else with_gip (gip_online NR_CPUS env idCpu) s)"

definition supdrvGipMpEventOffline :: "nat \<Rightarrow> u32 \<Rightarrow> supdrv \<Rightarrow> supdrv option" where
  "supdrvGipMpEventOffline NR_CPUS idCpu s =
     (if \<not> RT_VALID_PTR (d_pGip (devext s)) then Some s
      else if d_hGipSpinlock (devext s) then None
      else do {
        g \<leftarrow> gips s (d_pGip (devext s));
        (fReleased, g') \<leftarrow> gip_offline NR_CPUS idCpu g;
        Some (upd_devext (\<lambda>d. d\<lparr>d_hGipSpinlock := \<not> fReleased\<rparr>) (put_gip (d_pGip (devext s)) g' s))
      })"

datatype RTMPEVENT = RTMPEVENT_ONLINE | RTMPEVENT_OFFLINE

definition supdrvGipMpEvent :: "nat \<Rightarrow> RTMPEVENT \<Rightarrow> mpenv \<Rightarrow> RTCPUSET \<Rightarrow> u32 \<Rightarrow> supdrv \<Rightarrow> supdrv option" where
  "supdrvGipMpEvent NR_CPUS enmEvent env OnlineCpus idCpu s = do {
     s1 \<leftarrow> (if d_pGip (devext s) \<noteq> 0
            then (case enmEvent of
                RTMPEVENT_ONLINE \<Rightarrow> (if idCpu \<noteq> me_idCpu env then None else supdrvGipMpEventOnline NR_CPUS env idCpu s)
              | RTMPEVENT_OFFLINE \<Rightarrow> supdrvGipMpEventOffline NR_CPUS idCpu s)
            else Some s);
     Some (if enmEvent = RTMPEVENT_OFFLINE \<and> d_idGipMaster (devext s1) = idCpu
           then upd_devext (\<lambda>d. d\<lparr>d_idGipMaster := master_search NR_CPUS OnlineCpus idCpu 0 RTCPUSET_MAX_CPUS\<rparr>) s1
           else s1)
   }"

text \<open>The tick of a CPU that is not the master; no check of the page pointer is made here.\<close>

definition supdrvGipUpdatePerCpu :: "nat \<Rightarrow> mpenv \<Rightarrow> u64 \<Rightarrow> u64 \<Rightarrow> u32 \<Rightarrow> u8 \<Rightarrow> u64 \<Rightarrow> supdrv \<Rightarrow> supdrv option" where
  "supdrvGipUpdatePerCpu NR_CPUS env u64NanoTS u64TSC idCpu idApic iTick s = do {
     s1 \<leftarrow> (if iTick = 1 then do {
         g \<leftarrow> gips s (d_pGip (devext s));
         (iCpu, g1) \<leftarrow> supdrvGipCpuIndexFromCpuId idCpu g;
         c \<leftarrow> gip_cpu g1 iCpu;
         let s1 = put_gip (d_pGip (devext s)) g1 s;
         if gc_enmState c = SUPGIPCPUSTATE_OFFLINE then supdrvGipMpEventOnline NR_CPUS env idCpu s1 else Some s1
       } else Some s);
     with_gip (\<lambda>g. let iCpu = unat (g_aiCpuFromApicId g ! unat idApic) in
       if iCpu < unat (g_cCpus g) then do {
         c \<leftarrow> gip_cpu g iCpu;
         if gc_idCpu c = idCpu then gip_transaction False iCpu u64NanoTS u64TSC iTick g else Some g
       }
       else Some g) s1
   }"

text \<open>The two timer callbacks.\<close>

definition supdrvGipSyncTimer :: "u64 \<Rightarrow> u64 \<Rightarrow> u8 \<Rightarrow> u64 \<Rightarrow> supdrv \<Rightarrow> supdrv option" where
  "supdrvGipSyncTimer NanoTS u64TSC idApic iTick s =
     (if \<not> RT_VALID_PTR (d_pGip (devext s)) then Some s
      else with_gip (supdrvGipUpdate NanoTS u64TSC NIL_RTCPUID idApic iTick) s)"

definition supdrvGipAsyncTimer :: "nat \<Rightarrow> mpenv \<Rightarrow> u64 \<Rightarrow> u64 \<Rightarrow> u64 \<Rightarrow> supdrv \<Rightarrow> supdrv option" where
  "supdrvGipAsyncTimer NR_CPUS env NanoTS u64TSC iTick s =
     (if d_idGipMaster (devext s) = me_idCpu env
      then (if \<not> RT_VALID_PTR (d_pGip (devext s)) then Some s
            else with_gip (supdrvGipUpdate NanoTS u64TSC (me_idCpu env) (me_idApic env) iTick) s)
      else supdrvGipUpdatePerCpu NR_CPUS env NanoTS u64TSC (me_idCpu env) (me_idApic env) iTick s)"

section \<open>Creating and destroying the page\<close>

definition supdrvGipDestroy :: "(addr \<Rightarrow> rc) \<Rightarrow> supdrv \<Rightarrow> supdrv option" where
  "supdrvGipDestroy nf s = do {
     s1 \<leftarrow> (if d_pGip (devext s) \<noteq> 0 then do {
         g \<leftarrow> gips s (d_pGip (devext s));
         Some (upd_devext (\<lambda>d. d\<lparr>d_pGip := 0\<rparr>) (put_gip (d_pGip (devext s)) (supdrvGipTerm g) s))
       } else Some s);
     let s2 = upd_devext (\<lambda>d. d\<lparr>d_pGipTimer := 0, d_fGipTimerRunning := False\<rparr>) (s1\<lparr>g_pSUPGlobalInfoPage := 0\<rparr>);
     s3 \<leftarrow> (if d_GipMemObj (devext s2) \<noteq> NIL_RTR0MEMOBJ then do {
         (rc, h) \<leftarrow> RTR0MemObjFree nf (d_GipMemObj (devext s2)) True (memobjs s2);
         Some (upd_devext (\<lambda>d. d\<lparr>d_GipMemObj := NIL_RTR0MEMOBJ\<rparr>)
                (s2\<lparr>memobjs := h, gips := (if RT_SUCCESS rc then (gips s2)(d_pGip (devext s) := None) else gips s2)\<rparr>))
       } else Some s2);
     Some (upd_devext (\<lambda>d. d\<lparr>d_u32SystemTimerGranularityGrant := 0\<rparr>) s3)
   }"

text \<open>
  What the system answers during creation: the size of the CPU array, the allocation (status,
  handle, address, physical address), the timer granularity, the clock and the TSC readings, the
  update mode that was determined, the CPU counts, the timer creations (on all CPUs and plain),
  the registration of the event callback, and the CPUs on which \<open>RTMpOnAll\<close> runs.
\<close>

record gipcreate =
  gce_cCpus :: nat
  gce_rcAlloc :: rc
  gce_hMem :: addr
  gce_pv :: addr
  gce_HCPhys :: u64
  gce_res :: u32
  gce_NanoTS :: u64
  gce_TSC :: "nat \<Rightarrow> u64"
  gce_mode :: SUPGIPMODE
  gce_counts :: cpucounts
  gce_rcTimerAll :: rc
  gce_rcTimer :: rc
  gce_pTimer :: addr
  gce_rcNotify :: rc
  gce_onAll :: "mpenv list"
  gce_rcOnAll :: rc
  gce_nf :: "addr \<Rightarrow> rc"

abbreviation "VERR_TOO_MANY_CPUS \<equiv> (-1019::rc)"

text \<open>The timer, with the fallback to synchronous mode.  Answers the status and the mode.\<close>

definition gip_create_timer :: "gipcreate \<Rightarrow> SUPGIPMODE \<Rightarrow> rc \<times> SUPGIPMODE" where
  "gip_create_timer env mode =
     (if mode = SUPGIPMODE_ASYNC_TSC
      then if gce_rcTimerAll env = VERR_NOT_SUPPORTED then (gce_rcTimer env, SUPGIPMODE_SYNC_TSC)
           else (gce_rcTimerAll env, mode)
      else (gce_rcTimer env, mode))"

definition supdrvGipCreate :: "nat \<Rightarrow> gipcreate \<Rightarrow> supdrv \<Rightarrow> (rc \<times> supdrv) option" where
  "supdrvGipCreate NR_CPUS env s =
     (if RTCPUSET_MAX_CPUS < gce_cCpus env \<or> 256 < gce_cCpus env then Some (VERR_TOO_MANY_CPUS, s)
      else do {
        let (rc, MemObj, h) = memobj_alloc (gce_rcAlloc env) (gce_hMem env)
              (memobj_new MO_CONT (of_nat ((gip_size (gce_cCpus env) + 0xfff) div 0x1000 * 0x1000)) (gce_pv env)
                NIL_RTR0PROCESS (\<lambda>i. gce_HCPhys env + 0x1000 * i)) (memobjs s);
        if RT_FAILURE rc then Some (rc, upd_devext (\<lambda>d. d\<lparr>d_GipMemObj := MemObj\<rparr>) (s\<lparr>memobjs := h\<rparr>))
        else do {
          pGip \<leftarrow> RTR0MemObjAddress h MemObj;
          HCPhysGip \<leftarrow> RTR0MemObjGetPagePhysAddr h MemObj 0;
          u32Interval \<leftarrow> gip_grow_interval (gce_res env) (gce_res env);
          g \<leftarrow> supdrvGipInit (gce_mode env) (gce_counts env) (gce_NanoTS env) (gce_TSC env)
                 (1000000000 div u32Interval) (gce_cCpus env);
          let (rc, mode) = gip_create_timer env (gce_mode env);
          let s1 = put_gip pGip (g\<lparr>g_u32Mode := mode\<rparr>)
                (upd_devext (\<lambda>d. d\<lparr>d_GipMemObj := MemObj, d_pGip := pGip, d_HCPhysGip := HCPhysGip, d_cGipUsers := 0,
                   d_pGipTimer := (if RT_SUCCESS rc then gce_pTimer env else d_pGipTimer d)\<rparr>) (s\<lparr>memobjs := h\<rparr>));
          if RT_FAILURE rc then do { s2 \<leftarrow> supdrvGipDestroy (gce_nf env) s1; Some (rc, s2) }
          else if RT_FAILURE (gce_rcNotify env) then do { s2 \<leftarrow> supdrvGipDestroy (gce_nf env) s1; Some (gce_rcNotify env, s2) }
          else do {
            s2 \<leftarrow> on_all (\<lambda>e. supdrvGipMpEventOnline NR_CPUS e (me_idCpu e)) (gce_onAll env) s1;
            if RT_SUCCESS (gce_rcOnAll env)
            then Some (VINF_SUCCESS, s2\<lparr>g_pSUPGlobalInfoPage := pGip\<rparr>)
            else do { s3 \<leftarrow> supdrvGipDestroy (gce_nf env) s2; Some (gce_rcOnAll env, s3) }
          }
        }
      })"

section \<open>The invariant\<close>

definition gip_users :: "(addr \<rightharpoonup> SUPDRVSESSION) \<Rightarrow> nat" where
  "gip_users ses = card {a. \<exists>ss. ses a = Some ss \<and> s_fGipReferenced ss}"

definition gip_count :: "promise set \<Rightarrow> u32 \<Rightarrow> nat \<Rightarrow> bool" where
  "gip_count K c n \<longleftrightarrow> n \<le> unat c \<and> (GIP_Ref_Mapped \<in> K \<longrightarrow> unat c = n)"

text \<open>
  The page is there and well-formed, its memory object is an object, the user counter is at least
  the number of sessions that hold a reference, the timer runs exactly when the counter is not zero,
  every ring-3 mapping belongs to a session with a reference and to no other session, and the
  spinlock is free.  The counter is exact when every session that is closed with a reference has a
  mapping too: without one, session cleanup forgets to give the reference back.
\<close>

definition gip_inv :: "promise set \<Rightarrow> supdrv \<Rightarrow> bool" where
  "gip_inv K s \<longleftrightarrow> heap_ok (memobjs s) \<and> finite (dom (sessions s)) \<and> \<not> d_hGipSpinlock (devext s) \<and>
     RT_VALID_PTR (d_pGip (devext s)) \<and> (\<exists>g. gips s (d_pGip (devext s)) = Some g \<and> page_ok g) \<and>
     obj_at (memobjs s) (d_GipMemObj (devext s)) \<and> gip_count K (d_cGipUsers (devext s)) (gip_users (sessions s)) \<and>
     (d_fGipTimerRunning (devext s) \<longleftrightarrow> d_cGipUsers (devext s) \<noteq> 0) \<and>
     (\<forall>a ss. sessions s a = Some ss \<longrightarrow> s_GipMapObjR3 ss \<noteq> 0 \<longrightarrow> s_fGipReferenced ss \<and>
        is_child (memobjs s) (d_GipMemObj (devext s)) (s_GipMapObjR3 ss) \<and>
        (\<forall>b sb. b \<noteq> a \<longrightarrow> sessions s b = Some sb \<longrightarrow> s_GipMapObjR3 sb \<noteq> s_GipMapObjR3 ss))"

lemma gip_users_update:
  assumes "finite (dom ses)" "ses a = Some ss"
  shows "gip_users (ses(a \<mapsto> ss')) =
    (if s_fGipReferenced ss = s_fGipReferenced ss' then gip_users ses
     else if s_fGipReferenced ss' then Suc (gip_users ses) else gip_users ses - 1)"
proof -
  let ?U = "{a. \<exists>ss. ses a = Some ss \<and> s_fGipReferenced ss}" and ?V = "{b. \<exists>ss. (ses(a \<mapsto> ss')) b = Some ss \<and> s_fGipReferenced ss}"
  have fin: "finite ?U" by (rule finite_subset[OF _ assms(1)]) auto
  have "?V = (if s_fGipReferenced ss' then insert a ?U else ?U - {a})" by auto
  moreover have "a \<in> ?U \<longleftrightarrow> s_fGipReferenced ss" using assms(2) by auto
  ultimately show ?thesis using fin by (auto simp: gip_users_def insert_absorb)
qed

lemma gip_users_pos: "finite (dom ses) \<Longrightarrow> ses a = Some ss \<Longrightarrow> s_fGipReferenced ss \<Longrightarrow> 0 < gip_users ses"
proof -
  assume fin: "finite (dom ses)" and a: "ses a = Some ss" "s_fGipReferenced ss"
  let ?U = "{a. \<exists>ss. ses a = Some ss \<and> s_fGipReferenced ss}"
  have "finite ?U" by (rule finite_subset[OF _ fin]) auto
  moreover from a have "?U \<noteq> {}" by blast
  ultimately show ?thesis unfolding gip_users_def by (simp add: card_gt_0_iff)
qed

lemma on_all_ok:
  "(\<And>c g. c \<in> set cs \<Longrightarrow> P g \<Longrightarrow> \<exists>g'. f c g = Some g' \<and> P g') \<Longrightarrow> P g \<Longrightarrow> \<exists>g'. on_all f cs g = Some g' \<and> P g'"
proof (induction cs arbitrary: g)
  case (Cons c cs)
  from Cons.prems(1)[OF _ Cons.prems(2), of c] obtain g1 where "f c g = Some g1" "P g1" by auto
  with Cons.IH[of g1] Cons.prems(1) show ?case by auto
qed simp

lemma page_ok_apic: "page_ok g \<Longrightarrow> unat (g_aiCpuFromApicId g ! unat (a :: u8)) < length (g_aCPUs g)"
proof -
  assume g: "page_ok g"
  have "unat a < 256" using unsigned_less[of a, where 'a = nat] by simp
  with g have "g_aiCpuFromApicId g ! unat a \<in> set (g_aiCpuFromApicId g)" by (simp add: page_ok_def)
  with g show ?thesis by (auto simp: page_ok_def word_less_nat_alt)
qed

lemma page_ok_cpu0: "page_ok g \<Longrightarrow> gip_cpu g 0 = Some (g_aCPUs g ! 0) \<and> cpu_ok (g_aCPUs g ! 0) \<and> 0 < length (g_aCPUs g)"
  by (auto simp: page_ok_def gip_cpu_def)

lemma ReInitCpu_ok: "page_ok g \<Longrightarrow> i < length (g_aCPUs g) \<Longrightarrow> page_ok (set_cpu i (supdrvGipReInitCpu ts tsc (g_aCPUs g ! i)) g)"
  by (rule page_ok_set_cpu) (auto simp: page_ok_def cpu_ok_def supdrvGipReInitCpu_def)

lemma ReInitCpuCallback_ok:
  "page_ok g \<Longrightarrow> \<exists>g'. supdrvGipReInitCpuCallback ts c g = Some g' \<and> page_ok g' \<and> g_u32Mode g' = g_u32Mode g"
  using page_ok_apic[of g "fst (snd c)"] ReInitCpu_ok[of g]
  by (auto simp: supdrvGipReInitCpuCallback_def gip_cpu_def Let_def split: prod.split)

lemma even_and_not_mask: "even ((x :: u32) AND NOT 0xFFF)"
proof -
  have "\<not> bit (x AND NOT 0xFFF) 0" by (simp add: bit_and_iff bit_not_iff)
  then show ?thesis by (simp add: bit_0)
qed

lemma gip_restart_ids_ok: "page_ok g \<Longrightarrow> \<exists>g'. gip_restart_ids g = Some g' \<and> page_ok g' \<and> g_u32Mode g' = g_u32Mode g \<and>
    (g_u64NanoTSLastUpdateHz g' = g_u64NanoTSLastUpdateHz g \<or> g_u64NanoTSLastUpdateHz g' = 0)"
proof -
  assume g: "page_ok g"
  let ?c = "(g_aCPUs g ! 0)\<lparr>gc_u32TransactionId := (gc_u32TransactionId (g_aCPUs g ! 0) + 0x1000) AND NOT 0xFFF\<rparr>"
  have "page_ok (set_cpu 0 ?c g)"
    by (rule page_ok_set_cpu[OF g]) (use page_ok_cpu0[OF g] in \<open>simp_all add: cpu_ok_def even_and_not_mask[simplified]\<close>)
  then have "page_ok ((set_cpu 0 ?c g)\<lparr>g_u64NanoTSLastUpdateHz := 0\<rparr>)" by (simp add: page_ok_def cpu_ids_def)
  with g page_ok_cpu0[OF g] show ?thesis by (simp add: gip_restart_ids_def)
qed

lemma gip_resume_ok:
  assumes "gips s (d_pGip (devext s)) = Some g" "page_ok g"
  shows "\<exists>g'. gip_resume env s = Some (put_gip (d_pGip (devext s)) g'
     (upd_devext (\<lambda>d. d\<lparr>d_u32SystemTimerGranularityGrant := gip_granularity (ge_grant env) (d_u32SystemTimerGranularityGrant d),
          d_fGipTimerRunning := d_fGipTimerRunning d \<or> RT_SUCCESS (ge_rcStart env)\<rparr>) s)) \<and> page_ok g'"
proof -
  from gip_restart_ids_ok[OF assms(2)] obtain g1 where g1: "gip_restart_ids g = Some g1" "page_ok g1" by auto
  let ?ts = "ge_NanoTS env - ucast (g_u32UpdateIntervalNS g1)"
  have "\<exists>g2. (if g_u32Mode g1 = SUPGIPMODE_SYNC_TSC \<or> ge_cOnline env = 1
             then do { c \<leftarrow> gip_cpu g1 0; Some (set_cpu 0 (supdrvGipReInitCpu ?ts (ge_TSC env) c) g1) }
             else on_all (supdrvGipReInitCpuCallback ?ts) (ge_onAll env) g1) = Some g2 \<and> page_ok g2"
  proof (cases "g_u32Mode g1 = SUPGIPMODE_SYNC_TSC \<or> ge_cOnline env = 1")
    case True
    with page_ok_cpu0[OF g1(2)] ReInitCpu_ok[OF g1(2), of 0] show ?thesis by auto
  next
    case False
    with on_all_ok[of "ge_onAll env" page_ok "supdrvGipReInitCpuCallback ?ts" g1] ReInitCpuCallback_ok g1(2)
    show ?thesis by (metis (no_types, lifting))
  qed
  then obtain g2 where g2: "(if g_u32Mode g1 = SUPGIPMODE_SYNC_TSC \<or> ge_cOnline env = 1
             then do { c \<leftarrow> gip_cpu g1 0; Some (set_cpu 0 (supdrvGipReInitCpu ?ts (ge_TSC env) c) g1) }
             else on_all (supdrvGipReInitCpuCallback ?ts) (ge_onAll env) g1) = Some g2" "page_ok g2" by blast
  show ?thesis using assms(1) g1(1) g2
    by (intro exI[of _ g2]) (simp add: gip_resume_def Let_def del: on_all.simps)
qed

section \<open>The operations keep the invariant\<close>

lemma gip_inv_session: "gip_inv K s \<Longrightarrow> sessions s a = Some ss \<Longrightarrow> s_GipMapObjR3 ss \<noteq> 0 \<Longrightarrow>
    s_fGipReferenced ss \<and> is_child (memobjs s) (d_GipMemObj (devext s)) (s_GipMapObjR3 ss) \<and>
    (\<forall>b sb. b \<noteq> a \<longrightarrow> sessions s b = Some sb \<longrightarrow> s_GipMapObjR3 sb \<noteq> s_GipMapObjR3 ss)"
  unfolding gip_inv_def by blast

lemma gip_inv_page: "gip_inv K s \<Longrightarrow> \<exists>g. gips s (d_pGip (devext s)) = Some g \<and> page_ok g"
  by (simp add: gip_inv_def)

text \<open>Storing a page, and operations that only write the page.\<close>

lemma gip_inv_put_gip: "gip_inv K s \<Longrightarrow> page_ok g \<Longrightarrow> gip_inv K (put_gip (d_pGip (devext s)) g s)"
  unfolding gip_inv_def by simp

lemma with_gip_ok:
  assumes "gip_inv K s" "\<And>g. gips s (d_pGip (devext s)) = Some g \<Longrightarrow> page_ok g \<Longrightarrow> \<exists>g'. f g = Some g' \<and> page_ok g'"
  shows "\<exists>s'. with_gip f s = Some s' \<and> gip_inv K s' \<and> sessions s' = sessions s \<and> devext s' = devext s \<and> memobjs s' = memobjs s"
  using gip_inv_page[OF assms(1)] assms(2) gip_inv_put_gip[OF assms(1)] by (fastforce simp: with_gip_def)

text \<open>What the environment of a mapping owes: a fresh handle, a timer that starts, fewer than \<open>2 ^ 32 - 1\<close> users.\<close>

definition gipenv_ok :: "gipenv \<Rightarrow> supdrv \<Rightarrow> bool" where
  "gipenv_ok env s \<longleftrightarrow> (RT_SUCCESS (ge_rcMap env) \<longrightarrow> memobjs s (ge_hMap env) = None \<and> RT_VALID_PTR (ge_hMap env)) \<and>
     RT_SUCCESS (ge_rcStart env) \<and> d_cGipUsers (devext s) \<noteq> - 1"

lemma gip_fresh_handle:
  assumes "gip_inv K s" "sessions s a = Some ss" "memobjs s p = None" "p \<noteq> 0"
  shows "s_GipMapObjR3 ss \<noteq> p"
  using gip_inv_session[OF assms(1,2)] assms(3,4) by (auto simp: is_child_def)

lemma gip_map_part:
  assumes inv: "gip_inv K s" and ss: "sessions s a = Some ss" and env: "gipenv_ok env s"
  shows "\<exists>rc M h. (if ppGipR3 \<noteq> 0 \<and> s_GipMapObjR3 ss = NIL_RTR0MEMOBJ
          then do {
            cb \<leftarrow> RTR0MemObjSize (memobjs s) (d_GipMemObj (devext s));
            memobj_map (ge_rcMap env) (ge_hMap env)
              (memobj_new MO_MAPPING cb (ge_pvMap env) (ge_R0Process env) (\<lambda>_. d_HCPhysGip (devext s)))
              (ge_fGrow env) (d_GipMemObj (devext s)) (memobjs s)
          }
          else Some (VINF_SUCCESS, s_GipMapObjR3 ss, memobjs s)) = Some (rc, M, h) \<and> heap_ok h \<and>
      (\<forall>q. obj_at (memobjs s) q \<longrightarrow> obj_at h q) \<and> (\<forall>b c. is_child (memobjs s) b c \<longrightarrow> is_child h b c) \<and>
      (if RT_SUCCESS rc then (M \<noteq> 0 \<longrightarrow> is_child h (d_GipMemObj (devext s)) M \<and>
           (\<forall>b sb. b \<noteq> a \<longrightarrow> sessions s b = Some sb \<longrightarrow> s_GipMapObjR3 sb \<noteq> M)) \<and> (ppGipR3 \<noteq> 0 \<longrightarrow> M \<noteq> 0)
       else M = 0 \<and> h = memobjs s)"
proof (cases "ppGipR3 \<noteq> 0 \<and> s_GipMapObjR3 ss = NIL_RTR0MEMOBJ")
  case True
  have o: "obj_at (memobjs s) (d_GipMemObj (devext s))" and heap: "heap_ok (memobjs s)" using inv by (simp_all add: gip_inv_def)
  obtain cb where cb: "RTR0MemObjSize (memobjs s) (d_GipMemObj (devext s)) = Some cb"
    using accessors_no_fault(3)[of "memobjs s"] o by blast
  have fresh: "RT_SUCCESS (ge_rcMap env) \<Longrightarrow> memobjs s (ge_hMap env) = None \<and> RT_VALID_PTR (ge_hMap env)"
    using env by (simp add: gipenv_ok_def)
  obtain rc M h where m: "memobj_map (ge_rcMap env) (ge_hMap env)
      (memobj_new MO_MAPPING cb (ge_pvMap env) (ge_R0Process env) (\<lambda>_. d_HCPhysGip (devext s)))
      (ge_fGrow env) (d_GipMemObj (devext s)) (memobjs s) = Some (rc, M, h)" "heap_ok h"
    "if RT_SUCCESS rc then M = ge_hMap env \<and> is_child h (d_GipMemObj (devext s)) (ge_hMap env) \<and> ge_hMap env \<noteq> 0
     else h = memobjs s \<and> M = 0"
    "\<forall>q. obj_at (memobjs s) q \<longrightarrow> obj_at h q" "\<forall>b c. is_child (memobjs s) b c \<longrightarrow> is_child h b c"
    using fresh memobj_map_ok[OF heap o, where r = "ge_rcMap env" and p = "ge_hMap env" and cb = cb and pv = "ge_pvMap env" and pr = "ge_R0Process env"
        and ph = "\<lambda>_. d_HCPhysGip (devext s)" and fGrow = "ge_fGrow env"]
    by blast
  have "RT_SUCCESS (ge_rcMap env)" if "RT_SUCCESS rc"
    using m(1) that by (auto simp: memobj_map_def split: Option.bind_splits if_splits)
  then have "s_GipMapObjR3 sb \<noteq> M" if "RT_SUCCESS rc" "sessions s b = Some sb" for b sb
    using gip_fresh_handle[OF inv that(2)] fresh m(3) that(1) by auto
  with True cb m show ?thesis by auto
next
  case False
  with gip_inv_session[OF inv ss] inv show ?thesis by (auto simp: gip_inv_def)
qed

text \<open>
  Replacing a session and the heap, as mapping and unmapping do, keeps the invariant when the
  counter follows the reference and the timer follows the counter.
\<close>

lemma gip_inv_step:
  assumes inv: "gip_inv K s" and ss: "sessions s a = Some ss"
    and heap: "heap_ok (memobjs s')" and obj: "obj_at (memobjs s') (d_GipMemObj (devext s))"
    and child: "\<And>b sb. b \<noteq> a \<Longrightarrow> sessions s b = Some sb \<Longrightarrow> s_GipMapObjR3 sb \<noteq> 0 \<Longrightarrow>
        is_child (memobjs s') (d_GipMemObj (devext s)) (s_GipMapObjR3 sb)"
    and s': "sessions s' = (sessions s)(a \<mapsto> ss')" "d_GipMemObj (devext s') = d_GipMemObj (devext s)"
      "d_pGip (devext s') = d_pGip (devext s)" "d_hGipSpinlock (devext s') = d_hGipSpinlock (devext s)"
      "\<exists>g. gips s' (d_pGip (devext s)) = Some g \<and> page_ok g"
    and users: "gip_count K (d_cGipUsers (devext s')) (gip_users (sessions s'))"
      "d_fGipTimerRunning (devext s') \<longleftrightarrow> d_cGipUsers (devext s') \<noteq> 0"
    and new: "s_GipMapObjR3 ss' \<noteq> 0 \<Longrightarrow> s_fGipReferenced ss' \<and>
        is_child (memobjs s') (d_GipMemObj (devext s)) (s_GipMapObjR3 ss') \<and>
        (\<forall>b sb. b \<noteq> a \<longrightarrow> sessions s b = Some sb \<longrightarrow> s_GipMapObjR3 sb \<noteq> s_GipMapObjR3 ss')"
  shows "gip_inv K s'"
proof -
  have "s_fGipReferenced sb \<and> is_child (memobjs s') (d_GipMemObj (devext s)) (s_GipMapObjR3 sb) \<and>
      (\<forall>c sc. c \<noteq> b \<longrightarrow> sessions s' c = Some sc \<longrightarrow> s_GipMapObjR3 sc \<noteq> s_GipMapObjR3 sb)"
    if b: "sessions s' b = Some sb" "s_GipMapObjR3 sb \<noteq> 0" for b sb
  proof (cases "b = a")
    case True
    with b new s'(1) show ?thesis by auto
  next
    case False
    with b s'(1) have sb: "sessions s b = Some sb" by simp
    note i = gip_inv_session[OF inv sb b(2)]
    have "s_GipMapObjR3 ss' \<noteq> s_GipMapObjR3 sb" using new False sb b(2) by (cases "s_GipMapObjR3 ss' = 0") auto
    with i child[OF False sb b(2)] s'(1) show ?thesis by auto
  qed
  with inv s' users heap obj show ?thesis unfolding gip_inv_def by simp
qed

lemma GipMap_ok:
  assumes inv: "gip_inv K s" and ss: "sessions s a = Some ss" and env: "gipenv_ok env s"
  shows "\<exists>rc p3 pp s'. SUPR0GipMap a ppGipR3 pHCPhysGip env s = Some ((rc, p3, pp), s') \<and> gip_inv K s' \<and>
    (RT_SUCCESS rc \<longrightarrow> (\<exists>ss'. sessions s' = (sessions s)(a \<mapsto> ss') \<and> s_fGipReferenced ss' \<and> s_u32Cookie ss' = s_u32Cookie ss \<and>
       (ppGipR3 \<noteq> 0 \<longrightarrow> s_GipMapObjR3 ss' \<noteq> 0) \<and> (pHCPhysGip \<noteq> 0 \<longrightarrow> pp = d_HCPhysGip (devext s)) \<and>
       d_cGipUsers (devext s') = d_cGipUsers (devext s) + (if s_fGipReferenced ss then 0 else 1))) \<and>
    (RT_FAILURE rc \<longrightarrow> sessions s' = (sessions s)(a \<mapsto> ss) \<and> d_cGipUsers (devext s') = d_cGipUsers (devext s))"
proof (cases "SUP_IS_SESSION_VALID a ss \<and> (ppGipR3 = 0 \<or> RT_VALID_PTR ppGipR3) \<and> (pHCPhysGip = 0 \<or> RT_VALID_PTR pHCPhysGip)")
  case False
  with ss inv show ?thesis by (auto simp: SUPR0GipMap_def fun_upd_idem)
next
  case True
  have gip: "d_pGip (devext s) \<noteq> 0" using inv by (auto simp: gip_inv_def)
  obtain g where g: "gips s (d_pGip (devext s)) = Some g" "page_ok g" using gip_inv_page[OF inv] by blast
  let ?map = "if ppGipR3 \<noteq> 0 \<and> s_GipMapObjR3 ss = NIL_RTR0MEMOBJ
          then do {
            cb \<leftarrow> RTR0MemObjSize (memobjs s) (d_GipMemObj (devext s));
            memobj_map (ge_rcMap env) (ge_hMap env)
              (memobj_new MO_MAPPING cb (ge_pvMap env) (ge_R0Process env) (\<lambda>_. d_HCPhysGip (devext s)))
              (ge_fGrow env) (d_GipMemObj (devext s)) (memobjs s)
          }
          else Some (VINF_SUCCESS, s_GipMapObjR3 ss, memobjs s)"
  obtain rc M h where m: "?map = Some (rc, M, h)" and h: "heap_ok h" "\<And>q. obj_at (memobjs s) q \<Longrightarrow> obj_at h q"
      "\<And>b c. is_child (memobjs s) b c \<Longrightarrow> is_child h b c"
    and M: "if RT_SUCCESS rc then (M \<noteq> 0 \<longrightarrow> is_child h (d_GipMemObj (devext s)) M \<and>
           (\<forall>b sb. b \<noteq> a \<longrightarrow> sessions s b = Some sb \<longrightarrow> s_GipMapObjR3 sb \<noteq> M)) \<and> (ppGipR3 \<noteq> 0 \<longrightarrow> M \<noteq> 0)
       else M = 0 \<and> h = memobjs s"
    using gip_map_part[OF inv ss env, of ppGipR3] by blast
  have p3: "\<exists>p3. (if ppGipR3 \<noteq> 0 \<and> RT_SUCCESS rc then RTR0MemObjAddressR3 h M else Some 0) = Some p3"
    using M accessors_no_fault(2)[of h M "d_GipMemObj (devext s)"] by auto
  then obtain p3 where p3: "(if ppGipR3 \<noteq> 0 \<and> RT_SUCCESS rc then RTR0MemObjAddressR3 h M else Some 0) = Some p3" by blast
  have fin: "finite (dom (sessions s))" and cnt: "gip_count K (d_cGipUsers (devext s)) (gip_users (sessions s))"
    and run: "d_fGipTimerRunning (devext s) \<longleftrightarrow> d_cGipUsers (devext s) \<noteq> 0"
    and o: "obj_at (memobjs s) (d_GipMemObj (devext s))" using inv by (simp_all add: gip_inv_def)
  have others: "is_child h (d_GipMemObj (devext s)) (s_GipMapObjR3 sb)"
    if "sessions s b = Some sb" "s_GipMapObjR3 sb \<noteq> 0" for b sb
    using gip_inv_session[OF inv that] h(3) by blast
  note U = gip_users_update[OF fin ss]
  show ?thesis
  proof (cases "\<not> s_fGipReferenced ss \<and> RT_SUCCESS rc")
    case False
    let ?ss1 = "ss\<lparr>s_GipMapObjR3 := M\<rparr>" and ?s1 = "put_session a (ss\<lparr>s_GipMapObjR3 := M\<rparr>) (s\<lparr>memobjs := h\<rparr>)"
    have keep: "?ss1 = ss" if "RT_FAILURE rc"
    proof -
      have "s_GipMapObjR3 ss = 0" using m that by (cases "s_GipMapObjR3 ss = 0") auto
      with M that show ?thesis by (simp add: not_le)
    qed
    have "gip_inv K ?s1"
      by (rule gip_inv_step[OF inv ss]) (use h o others g cnt run U M False in \<open>auto split: if_splits\<close>)
    then show ?thesis using True False gip m p3 ss M keep
      by (auto simp: SUPR0GipMap_def Let_def split: if_splits)
  next
    case ref: True
    let ?ss1 = "ss\<lparr>s_GipMapObjR3 := M, s_fGipReferenced := True\<rparr>"
    let ?s1 = "upd_devext (\<lambda>d. d\<lparr>d_cGipUsers := d_cGipUsers d + 1\<rparr>) (put_session a ?ss1 (s\<lparr>memobjs := h\<rparr>))"
    have nm: "d_cGipUsers (devext s) \<noteq> - 1" using env by (simp add: gipenv_ok_def)
    then have inc: "gip_count K (d_cGipUsers (devext s) + 1) (Suc (gip_users (sessions s)))"
      using cnt unat_inc[OF nm] by (simp add: gip_count_def)
    have nz: "d_cGipUsers (devext s) + 1 \<noteq> 0" using unat_inc[OF nm] by (metis nat.distinct(1) unat_0)
    show ?thesis
    proof (cases "d_cGipUsers (devext s) + 1 = 1")
      case False
      then have n: "d_cGipUsers (devext s) \<noteq> 0" by auto
      have "gip_inv K ?s1"
        by (rule gip_inv_step[OF inv ss]) (use h o others g inc run U M ref n nz in auto)
      then show ?thesis using True False gip m p3 ss M ref
        by (auto simp: SUPR0GipMap_def Let_def)
    next
      case one: True
      have "gips ?s1 (d_pGip (devext ?s1)) = Some g" using g by simp
      from gip_resume_ok[OF this g(2), of env] obtain g' where r: "gip_resume env ?s1 = Some (put_gip (d_pGip (devext ?s1)) g'
         (upd_devext (\<lambda>d. d\<lparr>d_u32SystemTimerGranularityGrant := gip_granularity (ge_grant env) (d_u32SystemTimerGranularityGrant d),
            d_fGipTimerRunning := d_fGipTimerRunning d \<or> RT_SUCCESS (ge_rcStart env)\<rparr>) ?s1))" "page_ok g'" by blast
      let ?s2 = "the (gip_resume env ?s1)"
      have "gip_inv K ?s2"
        by (rule gip_inv_step[OF inv ss]) (use h o others r inc U M ref nz env in \<open>auto simp: gipenv_ok_def\<close>)
      then show ?thesis using True one gip m p3 ss M ref r(1)
        by (auto simp: SUPR0GipMap_def Let_def)
    qed
  qed
qed

lemma GipUnmap_ok:
  assumes inv: "gip_inv K s" and ss: "sessions s a = Some ss" and stop: "RT_SUCCESS rcStop"
  shows "\<exists>rc s' ss'. SUPR0GipUnmap a nf rcStop s = Some (rc, s') \<and> gip_inv K s' \<and> sessions s' = (sessions s)(a \<mapsto> ss') \<and>
    d_GipMemObj (devext s') = d_GipMemObj (devext s) \<and>
    (SUP_IS_SESSION_VALID a ss \<longrightarrow> s_GipMapObjR3 ss = 0 \<or> nf (s_GipMapObjR3 ss) = 0 \<longrightarrow>
       rc = VINF_SUCCESS \<and> \<not> s_fGipReferenced ss' \<and> s_GipMapObjR3 ss' = 0) \<and>
    d_cGipUsers (devext s') = d_cGipUsers (devext s) - (if s_fGipReferenced ss' = s_fGipReferenced ss then 0 else 1)"
proof (cases "SUP_IS_SESSION_VALID a ss")
  case False
  with ss inv show ?thesis
    by (intro exI[of _ VERR_INVALID_PARAMETER] exI[of _ s] exI[of _ ss]) (simp add: SUPR0GipUnmap_def fun_upd_idem)
next
  case True
  obtain g where g: "gips s (d_pGip (devext s)) = Some g" "page_ok g" using gip_inv_page[OF inv] by blast
  have fin: "finite (dom (sessions s))" and cnt: "gip_count K (d_cGipUsers (devext s)) (gip_users (sessions s))"
    and run: "d_fGipTimerRunning (devext s) \<longleftrightarrow> d_cGipUsers (devext s) \<noteq> 0" and heap: "heap_ok (memobjs s)"
    and o: "obj_at (memobjs s) (d_GipMemObj (devext s))" using inv by (simp_all add: gip_inv_def)
  let ?M = "s_GipMapObjR3 ss" and ?b = "d_GipMemObj (devext s)"
  note mine = gip_inv_session[OF inv ss]
  have "\<exists>rc M h. (if ?M \<noteq> NIL_RTR0MEMOBJ
          then do {
            (rc, h) \<leftarrow> RTR0MemObjFree nf ?M False (memobjs s);
            Some (rc, if RT_SUCCESS rc then NIL_RTR0MEMOBJ else ?M, h)
          }
          else Some (VINF_SUCCESS, NIL_RTR0MEMOBJ, memobjs s)) = Some (rc, M, h) \<and> heap_ok h \<and> obj_at h ?b \<and>
      (\<forall>c. is_child (memobjs s) ?b c \<longrightarrow> c \<noteq> ?M \<longrightarrow> is_child h ?b c) \<and>
      (M = 0 \<or> M = ?M \<and> h = memobjs s) \<and> (rc = 0 \<longrightarrow> M = 0) \<and> (?M = 0 \<or> nf ?M = 0 \<longrightarrow> rc = 0)"
  proof (cases "?M = 0")
    case False
    with mine have child: "is_child (memobjs s) ?b ?M" by simp
    then obtain m where m: "memobjs s ?M = Some m" "mo_enmType m = MO_MAPPING" "mo_live m" "mo_pParent m = ?b"
      by (auto simp: is_child_def)
    obtain par where par: "memobjs s (mo_pParent m) = Some par" "mo_enmType par \<noteq> MO_MAPPING"
      using o m(4) by (auto simp: obj_at_def)
    note f = RTR0MemObjFree_mapping[OF heap m(1-3) par(1), of nf False]
    obtain r h where r: "RTR0MemObjFree nf ?M False (memobjs s) = Some (r, h)" "heap_ok h" "keeps_others ?M (memobjs s) h"
      using free_mapping_ok[OF heap child, of nf False] by blast
    have ne: "?b \<noteq> ?M" using obj_at_not_child[OF o child] .
    have "r = nf ?M \<and> (RT_FAILURE r \<longrightarrow> h = memobjs s)" using f r(1) by (auto split: if_splits)
    with False r ne o show ?thesis by (auto simp: keeps_others_def)
  qed (use heap o in auto)
  then obtain rc M h where fr: "(if ?M \<noteq> NIL_RTR0MEMOBJ
          then do {
            (rc, h) \<leftarrow> RTR0MemObjFree nf ?M False (memobjs s);
            Some (rc, if RT_SUCCESS rc then NIL_RTR0MEMOBJ else ?M, h)
          }
          else Some (VINF_SUCCESS, NIL_RTR0MEMOBJ, memobjs s)) = Some (rc, M, h)" and h: "heap_ok h" "obj_at h ?b"
    "\<And>c. is_child (memobjs s) ?b c \<Longrightarrow> c \<noteq> ?M \<Longrightarrow> is_child h ?b c" and M: "M = 0 \<or> M = ?M \<and> h = memobjs s"
    and rc: "rc = 0 \<longrightarrow> M = 0" "?M = 0 \<or> nf ?M = 0 \<longrightarrow> rc = 0"
    by blast
  have others: "is_child h ?b (s_GipMapObjR3 sb)" if "b \<noteq> a" "sessions s b = Some sb" "s_GipMapObjR3 sb \<noteq> 0" for b sb
  proof -
    note i = gip_inv_session[OF inv that(2,3)]
    then have "?M \<noteq> s_GipMapObjR3 sb" using that(1) ss by auto
    with i h(3) show ?thesis by simp
  qed
  note U = gip_users_update[OF fin ss]
  show ?thesis
  proof (cases "s_fGipReferenced ss \<and> rc = 0")
    case False
    let ?s1 = "put_session a (ss\<lparr>s_GipMapObjR3 := M\<rparr>) (s\<lparr>memobjs := h\<rparr>)"
    have u: "gip_count K (d_cGipUsers (devext ?s1)) (gip_users (sessions ?s1))" using cnt U by simp
    have new: "s_GipMapObjR3 (ss\<lparr>s_GipMapObjR3 := M\<rparr>) \<noteq> 0 \<Longrightarrow> s_fGipReferenced (ss\<lparr>s_GipMapObjR3 := M\<rparr>) \<and>
        is_child (memobjs ?s1) (d_GipMemObj (devext s)) (s_GipMapObjR3 (ss\<lparr>s_GipMapObjR3 := M\<rparr>)) \<and>
        (\<forall>b sb. b \<noteq> a \<longrightarrow> sessions s b = Some sb \<longrightarrow> s_GipMapObjR3 sb \<noteq> s_GipMapObjR3 (ss\<lparr>s_GipMapObjR3 := M\<rparr>))"
      using M mine by auto
    have st: "sessions ?s1 = (sessions s)(a \<mapsto> ss\<lparr>s_GipMapObjR3 := M\<rparr>)" by simp
    have oth: "is_child (memobjs ?s1) ?b (s_GipMapObjR3 sb)" if "b \<noteq> a" "sessions s b = Some sb" "s_GipMapObjR3 sb \<noteq> 0" for b sb
      using others[OF that] by simp
    have "gip_inv K ?s1"
      by (rule gip_inv_step[OF inv ss _ _ oth st _ _ _ _ u _ new]) (simp_all add: h(1,2) g run)
    moreover have "SUPR0GipUnmap a nf rcStop s = Some (rc, ?s1)"
      using True False ss fr by (auto simp: SUPR0GipUnmap_def Let_def)
    ultimately show ?thesis using False rc
      by (intro exI[of _ rc] exI[of _ ?s1] exI[of _ "ss\<lparr>s_GipMapObjR3 := M\<rparr>"]) auto
  next
    case ref: True
    let ?ss1 = "ss\<lparr>s_GipMapObjR3 := M, s_fGipReferenced := False\<rparr>"
    let ?s2 = "upd_devext (\<lambda>d. d\<lparr>d_cGipUsers := d_cGipUsers d - 1\<rparr>) (put_session a ?ss1 (s\<lparr>memobjs := h\<rparr>))"
    have pos: "0 < gip_users (sessions s)" by (rule gip_users_pos[OF fin ss]) (use ref in simp)
    then have nz: "d_cGipUsers (devext s) \<noteq> 0" using cnt by (auto simp: gip_count_def)
    then have gt: "0 < d_cGipUsers (devext s)" using word_neq_0_conv by blast
    have dec: "gip_count K (d_cGipUsers (devext s) - 1) (gip_users (sessions s) - 1)"
      using cnt nz by (auto simp: gip_count_def unat_dec)
    let ?s3 = "if d_cGipUsers (devext s) - 1 = 0 then gip_suspend rcStop ?s2 else ?s2"
    have "gip_inv K ?s3"
      by (rule gip_inv_step[OF inv ss]) (use h others g dec run U M rc ref nz stop in \<open>auto simp: gip_suspend_def\<close>)
    moreover have "SUPR0GipUnmap a nf rcStop s = Some (rc, ?s3)"
      using True ref ss fr gt by (auto simp: SUPR0GipUnmap_def Let_def gip_suspend_def split: if_splits)
    moreover have "sessions ?s3 = (sessions s)(a \<mapsto> ?ss1)" "d_GipMemObj (devext ?s3) = ?b"
      "d_cGipUsers (devext ?s3) = d_cGipUsers (devext s) - 1" by (simp_all add: gip_suspend_def)
    ultimately show ?thesis using ref rc
      by (intro exI[of _ rc] exI[of _ ?s3] exI[of _ ?ss1]) (simp del: if_split)
  qed
qed

lemma cleanup_gip_ok:
  assumes inv: "gip_inv K s" and ss: "sessions s a = Some ss" and stop: "RT_SUCCESS rcStop"
    and own: "SUP_IS_SESSION_VALID a ss" "nf (s_GipMapObjR3 ss) = 0"
  shows "\<exists>s' ss'. supdrvCleanupSession_gip a nf rcStop s = Some s' \<and> gip_inv K s' \<and> sessions s' = (sessions s)(a \<mapsto> ss') \<and>
    (s_fGipReferenced ss' \<longrightarrow> s_fGipReferenced ss \<and> s_GipMapObjR3 ss = 0) \<and> s_GipMapObjR3 ss' = 0"
proof (cases "s_GipMapObjR3 ss = 0")
  case True
  with ss inv own show ?thesis
    by (intro exI[of _ s] exI[of _ ss]) (simp add: supdrvCleanupSession_gip_def fun_upd_idem)
next
  case False
  obtain rc s1 ss1 where u: "SUPR0GipUnmap a nf rcStop s = Some (rc, s1)" "gip_inv K s1" "sessions s1 = (sessions s)(a \<mapsto> ss1)"
    "\<not> s_fGipReferenced ss1" "s_GipMapObjR3 ss1 = 0"
    using GipUnmap_ok[OF inv ss stop, of nf] own False by auto
  have e: "put_session a (ss1\<lparr>s_fGipReferenced := False\<rparr>) s1 = s1"
  proof -
    have "ss1\<lparr>s_fGipReferenced := False\<rparr> = ss1" using u(4) by (cases ss1) simp
    moreover have "(sessions s1)(a \<mapsto> ss1) = sessions s1" using u(3) by (simp add: fun_upd_idem)
    ultimately show ?thesis by (simp add: put_session_def)
  qed
  with False ss u show ?thesis
    by (intro exI[of _ s1] exI[of _ ss1]) (simp add: supdrvCleanupSession_gip_def)
qed

text \<open>Ticks.\<close>

lemma GipUpdate_ok:
  assumes g: "page_ok g" and clk: "clock_moved ts g"
  shows "\<exists>g'. supdrvGipUpdate ts tsc idCpu idApic t g = Some g' \<and> page_ok g' \<and>
    (g' = g \<or> (\<exists>i < length (g_aCPUs g). gip_transaction True i ts tsc t g = Some g'))"
proof -
  let ?i = "unat (g_aiCpuFromApicId g ! unat idApic)"
  have i: "?i < length (g_aCPUs g)" by (rule page_ok_apic[OF g])
  have z: "0 < length (g_aCPUs g)" using page_ok_cpu0[OF g] by simp
  from gip_transaction_ok[OF g i clk, of True tsc t] gip_transaction_ok[OF g z clk, of True tsc t]
  obtain g1 g0 where "gip_transaction True ?i ts tsc t g = Some g1" "page_ok g1"
    "gip_transaction True 0 ts tsc t g = Some g0" "page_ok g0" by auto
  with g i z show ?thesis by (auto simp: supdrvGipUpdate_def gip_cpu_def Let_def)
qed

lemma UpdatePerCpu_page:
  assumes g: "page_ok g"
  shows "\<exists>g'. (let iCpu = unat (g_aiCpuFromApicId g ! unat (idApic :: u8)) in
       if iCpu < unat (g_cCpus g) then do {
         c \<leftarrow> gip_cpu g iCpu;
         if gc_idCpu c = idCpu then gip_transaction False iCpu ts tsc t g else Some g
       }
       else Some g) = Some g' \<and> page_ok g'"
proof -
  let ?i = "unat (g_aiCpuFromApicId g ! unat idApic)"
  have i: "?i < length (g_aCPUs g)" by (rule page_ok_apic[OF g])
  from gip_transaction_ok[OF g i, of False ts tsc t] g i show ?thesis by (auto simp: gip_cpu_def Let_def)
qed

lemma MpEventOnline_ok:
  assumes inv: "gip_inv K s" and g: "gips s (d_pGip (devext s)) = Some g" and me: "x = me_idCpu env"
    and room: "cpu_room x g" and idx: "0 \<le> RTMpCpuIdToSetIndex nr x"
  shows "\<exists>s'. supdrvGipMpEventOnline nr env x s = Some s' \<and> gip_inv K s' \<and> sessions s' = sessions s \<and> devext s' = devext s"
proof -
  have "\<exists>g'. gip_online nr env x g0 = Some g' \<and> page_ok g'"
    if "gips s (d_pGip (devext s)) = Some g0" "page_ok g0" for g0
    using gip_online_ok[OF that(2) _ idx, of env] room g that(1) by auto
  with with_gip_ok[OF inv, of "gip_online nr env x"] obtain s' where "with_gip (gip_online nr env x) s = Some s'" "gip_inv K s'"
    "sessions s' = sessions s" "devext s' = devext s" by blast
  moreover have "\<not> d_hGipSpinlock (devext s)" using inv by (simp add: gip_inv_def)
  ultimately show ?thesis using me inv by (simp add: supdrvGipMpEventOnline_def)
qed

text \<open>A CPU that goes offline is known: its set index leads to its entry.\<close>

definition cpu_known :: "nat \<Rightarrow> u32 \<Rightarrow> SUPGLOBALINFOPAGE \<Rightarrow> bool" where
  "cpu_known nr x g \<longleftrightarrow> 0 \<le> RTMpCpuIdToSetIndex nr x \<and> g_aiCpuFromCpuSetIdx g ! unat x < g_cCpus g \<and>
      gc_idCpu (g_aCPUs g ! unat (g_aiCpuFromCpuSetIdx g ! unat x)) = x"

lemma MpEventOffline_eq:
  assumes inv: "gip_inv K s" and g: "gips s (d_pGip (devext s)) = Some g" "page_ok g"
  shows "\<exists>g'. supdrvGipMpEventOffline nr x s =
      Some (upd_devext (\<lambda>d. d\<lparr>d_hGipSpinlock := \<not> cpu_known nr x g\<rparr>) (put_gip (d_pGip (devext s)) g' s)) \<and> page_ok g' \<and>
    (cpu_known nr x g \<longrightarrow> \<not> bit (g_OnlineCpuSet g') (unat x)) \<and> (\<not> cpu_known nr x g \<longrightarrow> g' = g)"
proof -
  from gip_offline_ok[OF g(2), of nr x] obtain r g' where "gip_offline nr x g = Some (r, g')" "page_ok g'"
    "r \<longleftrightarrow> cpu_known nr x g" "\<not> r \<longrightarrow> g' = g" "r \<longrightarrow> \<not> bit (g_OnlineCpuSet g') (unat x)"
    unfolding cpu_known_def by blast
  with inv g(1) show ?thesis by (auto simp: supdrvGipMpEventOffline_def gip_inv_def)
qed

lemma gip_inv_devext:
  "gip_inv K s \<Longrightarrow> gip_inv K (upd_devext (\<lambda>d. d\<lparr>d_idGipMaster := m\<rparr>) s)"
  "gip_inv K s \<Longrightarrow> gip_inv K (upd_devext (\<lambda>d. d\<lparr>d_hGipSpinlock := False\<rparr>) s)"
  by (simp_all add: gip_inv_def)

section \<open>The GIP as a whole\<close>

datatype gip_op =
    GMap addr addr addr gipenv
  | GUnmap addr "addr \<Rightarrow> rc" rc
  | GCleanup addr "addr \<Rightarrow> rc" rc
  | GSyncTick u64 u64 u8 u64
  | GAsyncTick nat mpenv u64 u64 u64
  | GMpEvent nat RTMPEVENT mpenv RTCPUSET u32

fun gipStep :: "gip_op \<Rightarrow> supdrv \<Rightarrow> supdrv option" where
  "gipStep (GMap a p3 pp env) s = map_option snd (SUPR0GipMap a p3 pp env s)"
| "gipStep (GUnmap a nf rcStop) s = map_option snd (SUPR0GipUnmap a nf rcStop s)"
| "gipStep (GCleanup a nf rcStop) s = supdrvCleanupSession_gip a nf rcStop s"
| "gipStep (GSyncTick ts tsc apic t) s = supdrvGipSyncTimer ts tsc apic t s"
| "gipStep (GAsyncTick nr env ts tsc t) s = supdrvGipAsyncTimer nr env ts tsc t s"
| "gipStep (GMpEvent nr ev env S x) s = supdrvGipMpEvent nr ev env S x s"

definition gip_page :: "supdrv \<Rightarrow> SUPGLOBALINFOPAGE" where
  "gip_page s = the (gips s (d_pGip (devext s)))"

fun gipOpOk :: "promise set \<Rightarrow> gip_op \<Rightarrow> supdrv \<Rightarrow> bool" where
  "gipOpOk K (GMap a p3 pp env) s \<longleftrightarrow> sessions s a \<noteq> None \<and> gipenv_ok env s"
| "gipOpOk K (GUnmap a nf rcStop) s \<longleftrightarrow> sessions s a \<noteq> None \<and> RT_SUCCESS rcStop"
| "gipOpOk K (GCleanup a nf rcStop) s \<longleftrightarrow> RT_SUCCESS rcStop \<and> (\<exists>ss. sessions s a = Some ss \<and> SUP_IS_SESSION_VALID a ss \<and>
     nf (s_GipMapObjR3 ss) = 0)"
| "gipOpOk K (GSyncTick ts tsc apic t) s \<longleftrightarrow> clock_moved ts (gip_page s)"
| "gipOpOk K (GAsyncTick nr env ts tsc t) s \<longleftrightarrow> clock_moved ts (gip_page s) \<and>
     cpu_room (me_idCpu env) (gip_page s) \<and> 0 \<le> RTMpCpuIdToSetIndex nr (me_idCpu env)"
| "gipOpOk K (GMpEvent nr ev env S x) s \<longleftrightarrow>
     (case ev of RTMPEVENT_ONLINE \<Rightarrow> x = me_idCpu env \<and> cpu_room x (gip_page s) \<and> 0 \<le> RTMpCpuIdToSetIndex nr x
      | RTMPEVENT_OFFLINE \<Rightarrow> cpu_known nr x (gip_page s))"

lemma gip_inv_gip_page: "gip_inv K s \<Longrightarrow> gips s (d_pGip (devext s)) = Some (gip_page s) \<and> page_ok (gip_page s)"
  by (auto simp: gip_inv_def gip_page_def)

lemma UpdatePerCpu_ok:
  assumes inv: "gip_inv K s" and room: "cpu_room (me_idCpu env) (gip_page s)" and idx: "0 \<le> RTMpCpuIdToSetIndex nr (me_idCpu env)"
  shows "\<exists>s'. supdrvGipUpdatePerCpu nr env ts tsc (me_idCpu env) apic t s = Some s' \<and> gip_inv K s'"
proof -
  note g = gip_inv_gip_page[OF inv]
  have "\<exists>s1. (if t = 1 then do {
         g \<leftarrow> gips s (d_pGip (devext s));
         (iCpu, g1) \<leftarrow> supdrvGipCpuIndexFromCpuId (me_idCpu env) g;
         c \<leftarrow> gip_cpu g1 iCpu;
         let s1 = put_gip (d_pGip (devext s)) g1 s;
         if gc_enmState c = SUPGIPCPUSTATE_OFFLINE then supdrvGipMpEventOnline nr env (me_idCpu env) s1 else Some s1
       } else Some s) = Some s1 \<and> gip_inv K s1"
  proof (cases "t = 1")
    case True
    from CpuIndex_ok[OF conjunct2[OF g] room] obtain i g1 where
      i: "supdrvGipCpuIndexFromCpuId (me_idCpu env) (gip_page s) = Some (i, g1)" "page_ok g1" "i < length (g_aCPUs (gip_page s))"
        "gc_idCpu (g_aCPUs g1 ! i) = me_idCpu env" "length (g_aCPUs g1) = length (g_aCPUs (gip_page s))" by auto
    let ?s1 = "put_gip (d_pGip (devext s)) g1 s"
    have inv1: "gip_inv K ?s1" by (rule gip_inv_put_gip[OF inv i(2)])
    have "g_aCPUs g1 ! i \<in> set (g_aCPUs g1)" using i(3,5) by simp
    with i(4) have "me_idCpu env \<in> gc_idCpu ` set (g_aCPUs g1)" by (metis imageI)
    then have "cpu_room (me_idCpu env) g1" using room by (simp add: cpu_room_def)
    from MpEventOnline_ok[OF inv1 _ _ this idx] obtain s2 where
      "supdrvGipMpEventOnline nr env (me_idCpu env) ?s1 = Some s2" "gip_inv K s2" by auto
    with True g i inv1 show ?thesis by (auto simp: gip_cpu_def Let_def)
  qed (use inv in simp)
  then obtain s1 where s1: "(if t = 1 then do {
         g \<leftarrow> gips s (d_pGip (devext s));
         (iCpu, g1) \<leftarrow> supdrvGipCpuIndexFromCpuId (me_idCpu env) g;
         c \<leftarrow> gip_cpu g1 iCpu;
         let s1 = put_gip (d_pGip (devext s)) g1 s;
         if gc_enmState c = SUPGIPCPUSTATE_OFFLINE then supdrvGipMpEventOnline nr env (me_idCpu env) s1 else Some s1
       } else Some s) = Some s1" "gip_inv K s1" by blast
  from with_gip_ok[OF s1(2) UpdatePerCpu_page] s1(1) show ?thesis
    unfolding supdrvGipUpdatePerCpu_def by fastforce
qed

lemma gipStep_safe: "gip_inv K s \<Longrightarrow> gipOpOk K op s \<Longrightarrow> \<exists>s'. gipStep op s = Some s' \<and> gip_inv K s'"
proof (cases op)
  case (GMap a p3 pp env)
  assume i: "gip_inv K s" "gipOpOk K op s"
  with GMap obtain ss where "sessions s a = Some ss" "gipenv_ok env s" by auto
  from GipMap_ok[OF i(1) this, of p3 pp] GMap show ?thesis by fastforce
next
  case (GUnmap a nf rcStop)
  assume i: "gip_inv K s" "gipOpOk K op s"
  with GUnmap obtain ss where "sessions s a = Some ss" "RT_SUCCESS rcStop" by auto
  from GipUnmap_ok[OF i(1) this, of nf] GUnmap show ?thesis by fastforce
next
  case (GCleanup a nf rcStop)
  assume i: "gip_inv K s" "gipOpOk K op s"
  with GCleanup obtain ss where "sessions s a = Some ss" "RT_SUCCESS rcStop" "SUP_IS_SESSION_VALID a ss"
     "nf (s_GipMapObjR3 ss) = 0" by auto
  from cleanup_gip_ok[OF i(1) this(1-3), where nf = nf] this(4) GCleanup show ?thesis by auto
next
  case (GSyncTick ts tsc apic t)
  assume i: "gip_inv K s" "gipOpOk K op s"
  have "\<exists>g'. supdrvGipUpdate ts tsc NIL_RTCPUID apic t g = Some g' \<and> page_ok g'"
    if "gips s (d_pGip (devext s)) = Some g" "page_ok g" for g
    using GipUpdate_ok[OF that(2), of ts tsc NIL_RTCPUID apic t] i GSyncTick that(1) by (auto simp: gip_page_def)
  with with_gip_ok[OF i(1), of "supdrvGipUpdate ts tsc NIL_RTCPUID apic t"] GSyncTick i(1)
  show ?thesis by (auto simp: supdrvGipSyncTimer_def)
next
  case (GAsyncTick nr env ts tsc t)
  assume i: "gip_inv K s" "gipOpOk K op s"
  have "\<exists>g'. supdrvGipUpdate ts tsc (me_idCpu env) (me_idApic env) t g = Some g' \<and> page_ok g'"
    if "gips s (d_pGip (devext s)) = Some g" "page_ok g" for g
    using GipUpdate_ok[OF that(2), of ts tsc "me_idCpu env" "me_idApic env" t] i GAsyncTick that(1) by (auto simp: gip_page_def)
  with with_gip_ok[OF i(1), of "supdrvGipUpdate ts tsc (me_idCpu env) (me_idApic env) t"] GAsyncTick i UpdatePerCpu_ok[OF i(1), of env nr ts tsc "me_idApic env" t]
  show ?thesis by (auto simp: supdrvGipAsyncTimer_def)
next
  case (GMpEvent nr ev env S x)
  assume i: "gip_inv K s" "gipOpOk K op s"
  note g = gip_inv_gip_page[OF i(1)]
  have nz: "d_pGip (devext s) \<noteq> 0" using i(1) by (auto simp: gip_inv_def)
  show ?thesis
  proof (cases ev)
    case RTMPEVENT_ONLINE
    with GMpEvent i(2) have "x = me_idCpu env" "cpu_room x (gip_page s)" "0 \<le> RTMpCpuIdToSetIndex nr x" by auto
    from MpEventOnline_ok[OF i(1) conjunct1[OF g] this] this(1) GMpEvent RTMPEVENT_ONLINE nz show ?thesis
      by (auto simp: supdrvGipMpEvent_def)
  next
    case RTMPEVENT_OFFLINE
    with GMpEvent i(2) have k: "cpu_known nr x (gip_page s)" by auto
    from MpEventOffline_eq[OF i(1) conjunct1[OF g] conjunct2[OF g], of nr x] k obtain g' where
      o: "supdrvGipMpEventOffline nr x s = Some (upd_devext (\<lambda>d. d\<lparr>d_hGipSpinlock := False\<rparr>) (put_gip (d_pGip (devext s)) g' s))"
        "page_ok g'" by auto
    have "gip_inv K (upd_devext (\<lambda>d. d\<lparr>d_hGipSpinlock := False\<rparr>) (put_gip (d_pGip (devext s)) g' s))"
      by (rule gip_inv_devext(2)[OF gip_inv_put_gip[OF i(1) o(2)]])
    with gip_inv_devext(1)[OF this] o(1) GMpEvent RTMPEVENT_OFFLINE nz show ?thesis
      by (simp add: supdrvGipMpEvent_def)
  qed
qed

interpretation gipapi: guarded_api gipStep "gipOpOk K" "gip_inv K" for K
  by unfold_locales (rule gipStep_safe)

section \<open>Properties\<close>

text \<open>
  A page for two CPUs at 100 Hz with the first CPU online, and a driver with that page, its memory
  object, and two sessions, none of them using it.
\<close>

definition gipcpu0 :: "u32 \<Rightarrow> SUPGIPCPUSTATE \<Rightarrow> SUPGIPCPU" where
  "gipcpu0 x st = gipcpu_zero\<lparr>gc_u32TransactionId := 2, gc_u64NanoTS := 1000, gc_u64TSC := 5000,
     gc_u32UpdateIntervalTSC := 20000, gc_au32TSCHistory := replicate 8 20000, gc_idCpu := x, gc_enmState := st\<rparr>"

definition gip0 :: SUPGLOBALINFOPAGE where
  "gip0 = \<lparr>g_u32Magic = SUPGLOBALINFOPAGE_MAGIC, g_u32Version = SUPGLOBALINFOPAGE_VERSION, g_u32Mode = SUPGIPMODE_ASYNC_TSC,
     g_cCpus = 2, g_cPages = 1, g_u32UpdateHz = 100, g_u32UpdateIntervalNS = 10000000, g_u64NanoTSLastUpdateHz = 1000,
     g_OnlineCpuSet = 1, g_PresentCpuSet = 1, g_PossibleCpuSet = 3, g_cOnlineCpus = 1, g_cPresentCpus = 1,
     g_cPossibleCpus = 2, g_idCpuMax = 1, g_aiCpuFromApicId = replicate 256 0,
     g_aiCpuFromCpuSetIdx = 0 # replicate 255 UINT16_MAX,
     g_aCPUs = [gipcpu0 0 SUPGIPCPUSTATE_ONLINE, gipcpu0 NIL_RTCPUID SUPGIPCPUSTATE_INVALID]\<rparr>"

definition gipmem0 :: RTR0MEMOBJINTERNAL where
  "gipmem0 = memobj_new MO_CONT 0x1000 0x9000 NIL_RTR0PROCESS (\<lambda>_. 0x5000)"

definition driver_g :: supdrv where
  "driver_g = driver0\<lparr>sessions := [0x10000 \<mapsto> session0, 0x11000 \<mapsto> session0], gips := [0x9000 \<mapsto> gip0],
     memobjs := [0x8000 \<mapsto> gipmem0]\<rparr>"

lemma driver_g_simps [simp]:
  "devext driver_g = devext0" "sessions driver_g = [0x10000 \<mapsto> session0, 0x11000 \<mapsto> session0]"
  "gips driver_g = [0x9000 \<mapsto> gip0]" "memobjs driver_g = [0x8000 \<mapsto> gipmem0]"
  by (simp_all add: driver_g_def)

lemma page_ok_gip0: "page_ok gip0"
  by (simp add: page_ok_def gip0_def cpu_ok_def gipcpu0_def gipcpu_zero_def cpu_ids_def)

lemma gip_page_driver_g: "gip_page driver_g = gip0"
  by (simp add: gip_page_def devext0_def)

lemma gip_inv_driver_g: "gip_inv K driver_g"
  using page_ok_gip0
  by (simp add: gip_inv_def gip_count_def devext0_def gipmem0_def RT_VALID_PTR_def heap_ok_def obj_at_def gip_users_def session0_def)

definition gipenv0 :: gipenv where
  "gipenv0 = \<lparr>ge_rcMap = VINF_SUCCESS, ge_hMap = 0xb000, ge_pvMap = 0x7000000, ge_R0Process = 4711, ge_fGrow = True,
     ge_grant = (\<lambda>_. None), ge_NanoTS = 2000, ge_cOnline = 2, ge_TSC = 6000, ge_onAll = [(0, 0, 6000)],
     ge_rcStart = VINF_SUCCESS, ge_nf = (\<lambda>_. VINF_SUCCESS)\<rparr>"

lemma gipenv_ok_driver_g: "gipenv_ok gipenv0 driver_g"
  by (simp add: gipenv_ok_def gipenv0_def RT_VALID_PTR_def devext0_def)

text \<open>C24: Every run of GIP mappings, unmappings, session cleanups, timer ticks and CPU events whose steps are
  as the system makes them executes without a fault and without waiting for a spinlock nobody releases.
  A CPU that goes offline is one that the page knows: for any other the driver returns with the spinlock held
  (\<open>gip_offline_keeps_lock\<close> below).  A CPU that comes online or ticks has a set index, otherwise the driver
  stores in front of the index table, and an entry in the page or a free one.  A tick's clock differs from the
  time of the last frequency update.  Handles of new mappings are fresh, the native free during a session
  cleanup succeeds, starting and stopping the timer succeeds, and there are less than 2^32 - 1 users when a
  session maps the page.  In every state the run reaches the page is well-formed (no update in progress, no
  CPU with two entries, index tables in range, interval and frequency in step), the spinlock is free, the user
  counter is at least the number of sessions with a reference, exactly that number when all keep the
  promise \<^const>\<open>GIP_Ref_Mapped\<close>, and the update timer runs exactly when the counter is not zero.\<close>

theorem gip_api_safe:
  "gip_inv K s \<Longrightarrow> run_ok gipStep (gipOpOk K) ops s \<Longrightarrow> \<exists>s'. run_steps gipStep ops s = Some s' \<and> gip_inv K s'"
  by (rule gipapi.run_safe)

theorem gip_api_safe_witness:
  "\<exists>s'. run_steps gipStep [GSyncTick 2000 25000 0 1, GMap 0x10000 0x60000 0 gipenv0] driver_g = Some s' \<and> gip_inv UNIV s'"
proof (rule gip_api_safe[OF gip_inv_driver_g])
  have c: "clock_moved 2000 gip0" by (simp add: clock_moved_def gip0_def)
  obtain s1 where s1: "gipStep (GSyncTick 2000 25000 0 1) driver_g = Some s1" by (cases "gipStep (GSyncTick 2000 25000 0 1) driver_g")
    (use gipStep_safe[OF gip_inv_driver_g, where op = "GSyncTick 2000 25000 0 1"] c gip_page_driver_g in auto)
  then have d: "sessions s1 = sessions driver_g" "memobjs s1 = memobjs driver_g" "devext s1 = devext driver_g"
    by (auto simp: supdrvGipSyncTimer_def with_gip_def split: if_splits Option.bind_splits)
  show "run_ok gipStep (gipOpOk UNIV) [GSyncTick 2000 25000 0 1, GMap 0x10000 0x60000 0 gipenv0] driver_g"
    using s1 d c gipenv_ok_driver_g gip_page_driver_g by (simp add: gipenv_ok_def split: option.split)
qed

text \<open>Mapping the page and unmapping it again by the same session, on a driver where the session
  held neither reference nor mapping, restores the number of users; after the unmapping the
  session has neither reference nor mapping, and when it was the only user the timer is stopped.\<close>

theorem gip_map_unmap:
  assumes "gip_inv K s" "sessions s a = Some ss" "gipenv_ok env s" "SUP_IS_SESSION_VALID a ss" "\<not> s_fGipReferenced ss"
    and "SUPR0GipMap a p3 pp env s = Some ((VINF_SUCCESS, r3, ph), s1)" "\<And>p. nf p = 0" "RT_SUCCESS rcStop"
  shows "\<exists>s2 ss2. SUPR0GipUnmap a nf rcStop s1 = Some (VINF_SUCCESS, s2) \<and> sessions s2 = (sessions s)(a \<mapsto> ss2) \<and>
    \<not> s_fGipReferenced ss2 \<and> s_GipMapObjR3 ss2 = 0 \<and> gip_inv K s2 \<and>
    d_cGipUsers (devext s2) = d_cGipUsers (devext s) \<and>
    (d_fGipTimerRunning (devext s2) \<longleftrightarrow> d_cGipUsers (devext s) \<noteq> 0)"
proof -
  from GipMap_ok[OF assms(1-3), of p3 pp] assms(6) obtain ss1 where
    m: "gip_inv K s1" "sessions s1 = (sessions s)(a \<mapsto> ss1)" "s_fGipReferenced ss1" "s_u32Cookie ss1 = s_u32Cookie ss"
      "d_cGipUsers (devext s1) = d_cGipUsers (devext s) + 1" using assms(5) by auto
  then have v: "SUP_IS_SESSION_VALID a ss1" using assms(4) by (simp add: SUP_IS_SESSION_VALID_def)
  have s1: "sessions s1 a = Some ss1" using m(2) by simp
  from GipUnmap_ok[OF m(1) s1 assms(8), of nf] v assms(7) obtain s2 ss2 where
    u: "SUPR0GipUnmap a nf rcStop s1 = Some (VINF_SUCCESS, s2)" "gip_inv K s2" "sessions s2 = (sessions s)(a \<mapsto> ss2)"
      "\<not> s_fGipReferenced ss2" "s_GipMapObjR3 ss2 = 0" "d_cGipUsers (devext s2) = d_cGipUsers (devext s1) - 1"
    using m(2,3) by auto
  have "d_cGipUsers (devext s2) = d_cGipUsers (devext s)"
    using u(6) m(5) by simp
  moreover have "d_fGipTimerRunning (devext s2) \<longleftrightarrow> d_cGipUsers (devext s2) \<noteq> 0" using u(2) unfolding gip_inv_def by (elim conjE)
  ultimately show ?thesis using u by (intro exI[of _ s2] exI[of _ ss2]) (simp only: simp_thms)
qed

lemma session0_valid: "SUP_IS_SESSION_VALID 0x10000 session0" "SUP_IS_SESSION_VALID 0x11000 session0"
  by (simp_all add: SUP_IS_SESSION_VALID_def session0_def RT_VALID_PTR_def)

theorem gip_map_unmap_witness:
  "\<exists>s1 s2. SUPR0GipMap 0x10000 0x60000 0 gipenv0 driver_g = Some ((VINF_SUCCESS, 0x7000000, NIL_RTHCPHYS), s1) \<and>
    SUPR0GipUnmap 0x10000 (\<lambda>_. 0) VINF_SUCCESS s1 = Some (VINF_SUCCESS, s2) \<and> \<not> d_fGipTimerRunning (devext s2)"
proof -
  have ss: "sessions driver_g 0x10000 = Some session0" and nr: "\<not> s_fGipReferenced session0" and
    nm: "s_GipMapObjR3 session0 = 0" by (simp_all add: session0_def)
  have v: "RT_VALID_PTR 0x60000" "RT_VALID_PTR 0x8000" "RT_VALID_PTR 0xb000" by (simp_all add: RT_VALID_PTR_def)
  have c0: "gip_cpu gip0 0 = Some (gipcpu0 0 SUPGIPCPUSTATE_ONLINE)" by (simp add: gip_cpu_def gip0_def)
  have r: "gip_restart_ids gip0 = Some gip0" by (simp add: gip_restart_ids_def c0 gipcpu0_def)
  have cb: "g_u32Mode gip0 = SUPGIPMODE_ASYNC_TSC" "supdrvGipReInitCpuCallback ts (0, 0, tsc) gip0 =
      Some (set_cpu 0 (supdrvGipReInitCpu ts tsc (gipcpu0 0 SUPGIPCPUSTATE_ONLINE)) gip0)" for ts tsc
    by (simp_all add: supdrvGipReInitCpuCallback_def gip0_def gip_cpu_def gipcpu0_def gipcpu_zero_def)
  obtain s1 where s1: "SUPR0GipMap 0x10000 0x60000 0 gipenv0 driver_g = Some ((VINF_SUCCESS, 0x7000000, NIL_RTHCPHYS), s1)"
    by (simp add: SUPR0GipMap_def session0_valid(1) v nm nr devext0_def RTR0MemObjSize_def memobj_map_def rtR0MemObjIsMapping_def gipmem0_def
        rtR0MemObjLink_def gipenv0_def Let_def RTR0MemObjAddressR3_def)

      (simp add: gip_resume_def r cb devext0_def Let_def memobj_new_def)
  from gip_map_unmap[OF gip_inv_driver_g ss gipenv_ok_driver_g session0_valid(1) nr s1, of "\<lambda>_. 0" VINF_SUCCESS]
  show ?thesis using s1 by (auto simp: devext0_def)
qed

text \<open>A session that took a GIP reference without a ring-3 mapping (it asked for the physical address
  only) keeps it through session cleanup: cleanup changes nothing, so the user counter stays
  positive and the timer keeps running after the session is gone.\<close>

theorem gip_cleanup_keeps_reference:
  assumes "gip_inv K s" "sessions s a = Some ss" "s_fGipReferenced ss" "s_GipMapObjR3 ss = 0"
  shows "supdrvCleanupSession_gip a nf rcStop s = Some s \<and> d_cGipUsers (devext s) \<noteq> 0 \<and> d_fGipTimerRunning (devext s)"
proof -
  have "0 < gip_users (sessions s)" using assms(1) gip_users_pos[of "sessions s" a ss] assms(2,3) unfolding gip_inv_def by blast
  then have "d_cGipUsers (devext s) \<noteq> 0" using assms(1) by (auto simp: gip_inv_def gip_count_def)
  moreover have "d_fGipTimerRunning (devext s) \<longleftrightarrow> d_cGipUsers (devext s) \<noteq> 0" using assms(1) unfolding gip_inv_def by (elim conjE)
  ultimately show ?thesis using assms(2,4) by (simp add: supdrvCleanupSession_gip_def)
qed

definition driver_g1 :: supdrv where
  "driver_g1 = driver_g\<lparr>devext := devext0\<lparr>d_cGipUsers := 1, d_fGipTimerRunning := True\<rparr>,
     sessions := [0x10000 \<mapsto> session0\<lparr>s_fGipReferenced := True\<rparr>, 0x11000 \<mapsto> session0]\<rparr>"

lemma gip_inv_driver_g1: "gip_inv K driver_g1"
proof -
  have "{a. \<exists>ss. sessions driver_g1 a = Some ss \<and> s_fGipReferenced ss} = {0x10000}"
    by (auto simp: driver_g1_def session0_def split: if_splits)
  then have "gip_users (sessions driver_g1) = 1" by (simp add: gip_users_def)
  then show ?thesis using gip_inv_driver_g by (simp add: gip_inv_def gip_count_def driver_g1_def devext0_def session0_def)
qed

theorem gip_cleanup_keeps_reference_witness:
  "supdrvCleanupSession_gip 0x10000 (\<lambda>_. 0) VINF_SUCCESS driver_g1 = Some driver_g1 \<and> d_fGipTimerRunning (devext driver_g1)"
proof -
  have "sessions driver_g1 0x10000 = Some (session0\<lparr>s_fGipReferenced := True\<rparr>)" by (simp add: driver_g1_def)
  from gip_cleanup_keeps_reference[OF gip_inv_driver_g1 this] show ?thesis by (simp add: session0_def)
qed

text \<open>An offline event for a CPU whose set index does not lead to an entry of that CPU returns with
  the GIP spinlock held: the next CPU event on a present page never gets past the lock.\<close>

theorem gip_offline_keeps_lock:
  assumes "gip_inv K s" "\<not> cpu_known nr x (gip_page s)" "idCpu = me_idCpu env"
  shows "\<exists>s'. supdrvGipMpEventOffline nr x s = Some s' \<and> d_hGipSpinlock (devext s') \<and>
    supdrvGipMpEventOnline nr env idCpu s' = None \<and> supdrvGipMpEventOffline nr idCpu s' = None"
proof -
  note g = gip_inv_gip_page[OF assms(1)]
  have "RT_VALID_PTR (d_pGip (devext s))" using assms(1) by (simp add: gip_inv_def)
  with MpEventOffline_eq[OF assms(1) conjunct1[OF g] conjunct2[OF g], of nr x] assms(2,3) show ?thesis
    by (auto simp: supdrvGipMpEventOnline_def supdrvGipMpEventOffline_def)
qed

definition mpenv1 :: mpenv where
  "mpenv1 = \<lparr>me_idCpu = 1, me_idApic = 1, me_TSC = 7000, me_NanoTS = 3000, me_cPresent = 2, me_cOnline = 2\<rparr>"

theorem gip_offline_keeps_lock_witness:
  "\<exists>s'. supdrvGipMpEventOffline 8 1 driver_g = Some s' \<and> supdrvGipMpEventOnline 8 mpenv1 1 s' = None"
proof -
  have "\<not> cpu_known 8 1 (gip_page driver_g)" by (simp add: cpu_known_def gip_page_driver_g gip0_def)
  from gip_offline_keeps_lock[OF gip_inv_driver_g this, of 1 mpenv1] show ?thesis by (auto simp: mpenv1_def)
qed

text \<open>When the last user has gone and a new one comes, only the first entry of the CPU table has its
  transaction id restarted: every other CPU keeps its own.\<close>

theorem gip_restart_first_only:
  "gip_restart_ids g = Some g' \<Longrightarrow> 0 < i \<Longrightarrow> g_aCPUs g' ! i = g_aCPUs g ! i"
  by (auto simp: gip_restart_ids_def split: Option.bind_splits if_splits)

theorem gip_restart_first_only_witness:
  "\<exists>g'. gip_restart_ids (gip0\<lparr>g_aCPUs := [gipcpu0 0 SUPGIPCPUSTATE_ONLINE\<lparr>gc_u32TransactionId := 0x7777778\<rparr>,
      gipcpu0 1 SUPGIPCPUSTATE_ONLINE\<lparr>gc_u32TransactionId := 0x33334\<rparr>]\<rparr>) = Some g' \<and>
    gc_u32TransactionId (g_aCPUs g' ! 0) = 0x7778000 \<and> gc_u32TransactionId (g_aCPUs g' ! 1) = 0x33334"
proof -
  let ?g = "gip0\<lparr>g_aCPUs := [gipcpu0 0 SUPGIPCPUSTATE_ONLINE\<lparr>gc_u32TransactionId := 0x7777778\<rparr>,
      gipcpu0 1 SUPGIPCPUSTATE_ONLINE\<lparr>gc_u32TransactionId := 0x33334\<rparr>]\<rparr>"
  obtain g' where g': "gip_restart_ids ?g = Some g'" "gc_u32TransactionId (g_aCPUs g' ! 0) = 0x7778000"
    by (simp add: gip_restart_ids_def gip_cpu_def)
  with gip_restart_first_only[OF g'(1), of 1] show ?thesis by simp
qed

text \<open>C28: When a CPU goes offline there is a GIP master again: if it was the master, then after the event the
  master is the first online CPU of the set other than the old one, or nobody when there is none; if it was not,
  the master stays.  The event always returns, also for a CPU that the page does not know.\<close>

theorem gip_new_master:
  assumes "gip_inv K s"
  shows "\<exists>s'. supdrvGipMpEvent nr RTMPEVENT_OFFLINE env OnlineCpus idCpu s = Some s' \<and>
    d_idGipMaster (devext s') =
      (if d_idGipMaster (devext s) \<noteq> idCpu then d_idGipMaster (devext s)
       else if master_candidates nr OnlineCpus idCpu = {} then NIL_RTCPUID
       else of_nat (Min (master_candidates nr OnlineCpus idCpu)))"
proof -
  note g = gip_inv_gip_page[OF assms]
  from MpEventOffline_eq[OF assms conjunct1[OF g] conjunct2[OF g], of nr idCpu] obtain b g' where
    o: "supdrvGipMpEventOffline nr idCpu s = Some (upd_devext (\<lambda>d. d\<lparr>d_hGipSpinlock := b\<rparr>) (put_gip (d_pGip (devext s)) g' s))"
    by blast
  have "d_pGip (devext s) \<noteq> 0" using assms by (auto simp: gip_inv_def)
  with o show ?thesis by (simp add: supdrvGipMpEvent_def master_search_Min)
qed

theorem gip_new_master_witness:
  "\<exists>s'. supdrvGipMpEvent 8 RTMPEVENT_OFFLINE mpenv1 6 0 driver_g = Some s' \<and> d_idGipMaster (devext s') = 1"
proof -
  have "bit (6::256 word) y \<longleftrightarrow> y = 1 \<or> y = 2" if "y < 8" for y
    using that by (auto simp: numeral_eq_Suc less_Suc_eq bit_Suc)
  then have "master_candidates 8 6 0 = {1, 2}" by (auto simp: master_candidates_def)
  moreover have "d_idGipMaster (devext driver_g) = 0" by (simp add: devext0_def)
  ultimately show ?thesis using gip_new_master[OF gip_inv_driver_g, of 8 mpenv1 6 0] by simp
qed

end
