(* ===== verification/SupTime.thy ===== *)
theory SupTime
  imports SupGipPage
begin

text \<open>
  Reading the time from the GIP (\<open>rtTimeNanoTSInternalRef\<close>), on AMD64 with transaction ids: the
  optimistic read of an entry while a timer tick may be rewriting it, the calculation of the time
  from what was read, and the publication of the result in the word that keeps the last time
  handed out, which other threads write too.
\<close>

section \<open>The optimistic read\<close>

subsection \<open>The writes of an update, one by one\<close>

text \<open>
  \<open>supdrvGipDoUpdateCpu\<close> as the sequence of its stores, in program order.  The values are computed
  from what the writer reads, which nobody else writes.
\<close>

definition gip_writes :: "u32 \<Rightarrow> SUPGIPCPU \<Rightarrow> u64 \<Rightarrow> u64 \<Rightarrow> u64 \<Rightarrow> (SUPGIPCPU \<Rightarrow> SUPGIPCPU) list" where
  "gip_writes u32UpdateHz c u64NanoTS u64TSC iTick =
     (let u64TSCDelta = u64TSC - gc_u64TSC c;
          fBad = drop_bit 32 u64TSCDelta \<noteq> 0;
          u64TSCDelta = (if fBad then ucast (gc_u32UpdateIntervalTSC c) else u64TSCDelta);
          u32TSCDelta = ucast u64TSCDelta :: u32;
          fReset = ((gc_u32TransactionId c = 5 \<or> gc_u32TransactionId c = 7) \<and> (iTick = 2 \<or> iTick = 3));
          hist = (if fReset then replicate 8 u32TSCDelta else gc_au32TSCHistory c);
          head = (gc_iTSCHistoryHead c + 1) AND 7;
          (v, slack) = gip_interval u32UpdateHz (hist[unat head := u32TSCDelta]) head u32TSCDelta
      in [\<lambda>c. c\<lparr>gc_u32PrevUpdateIntervalNS := ucast (u64NanoTS - gc_u64NanoTS c)\<rparr>,
          \<lambda>c. c\<lparr>gc_u64NanoTS := u64NanoTS\<rparr>,
          \<lambda>c. c\<lparr>gc_u64TSC := u64TSC\<rparr>] @
         (if fBad then [\<lambda>c. c\<lparr>gc_cErrors := gc_cErrors c + 1\<rparr>] else []) @
         (if fReset then map (\<lambda>i c. c\<lparr>gc_au32TSCHistory := (gc_au32TSCHistory c)[i := u32TSCDelta]\<rparr>) [0..<8] else []) @
         [\<lambda>c. c\<lparr>gc_iTSCHistoryHead := head\<rparr>,
          \<lambda>c. c\<lparr>gc_au32TSCHistory := (gc_au32TSCHistory c)[unat head := u32TSCDelta]\<rparr>,
          \<lambda>c. c\<lparr>gc_u32UpdateIntervalTSC := v + slack\<rparr>,
          \<lambda>c. c\<lparr>gc_u64CpuHz := ucast v * ucast u32UpdateHz\<rparr>])"

text \<open>Carried out without interruption they are the update.\<close>

lemma reset_writes:
  "foldl (\<lambda>c f. f c) c (map (\<lambda>i c. c\<lparr>gc_au32TSCHistory := (gc_au32TSCHistory c)[i := d]\<rparr>) is) =
   c\<lparr>gc_au32TSCHistory := foldl (\<lambda>h i. h[i := d]) (gc_au32TSCHistory c) is\<rparr>"
proof (induction "is" arbitrary: c)
  case (Cons i "is")
  show ?case by (simp only: list.map foldl.simps Cons.IH) simp
qed simp

lemma reset_history: "length h = 8 \<Longrightarrow> foldl (\<lambda>h i. h[i := d]) h [0..<8] = replicate 8 (d :: u32)"
proof -
  assume l: "length h = 8"
  have "length (foldl (\<lambda>h i. h[i := d]) h [0..<n]) = 8 \<and> (\<forall>j < n. j < 8 \<longrightarrow> foldl (\<lambda>h i. h[i := d]) h [0..<n] ! j = d)" for n
    using l by (induction n) (auto simp: nth_list_update less_Suc_eq)
  from this[of 8] show ?thesis by (intro nth_equalityI) auto
qed

lemma gip_writes_update:
  assumes "length (gc_au32TSCHistory c) = 8"
  shows "foldl (\<lambda>c f. f c) c (gip_writes hz c ts tsc t) = supdrvGipDoUpdateCpu hz c ts tsc t"
  using assms
  by (simp add: gip_writes_def supdrvGipDoUpdateCpu_def Let_def reset_writes reset_history del: upt_rec_numeral split: prod.split)

text \<open>No store touches the transaction id or the CPU id.\<close>

lemma gip_writes_id: "f \<in> set (gip_writes hz c ts tsc t) \<Longrightarrow> gc_u32TransactionId (f d) = gc_u32TransactionId d"
  by (auto simp: gip_writes_def Let_def split: prod.splits if_splits)

subsection \<open>Writer and reader as processes\<close>

text \<open>
  One CPU entry with its writer (the tick of the CPU it belongs to) and a reader.  Each step is one
  access to shared memory; accesses are atomic and sequentially consistent, as the exchanges in
  the code enforce.  The writer is idle or has stores left to do; the reader is before its first
  read, or has read the id and then, in turn, the interval, the nanoseconds and the TSC, or has
  passed the check.  Ghosts: \<open>sl_n\<close> counts the increments of the id, \<open>sl_past\<close> holds what every
  complete update left in the entry, oldest first; the reader remembers the count at its first
  read, and at the check.
\<close>

type_synonym snapshot = "u32 \<times> u64 \<times> u64"

definition snap :: "SUPGIPCPU \<Rightarrow> snapshot" where
  "snap c = (gc_u32UpdateIntervalTSC c, gc_u64NanoTS c, gc_u64TSC c)"

datatype writer = WIdle | WBusy "(SUPGIPCPU \<Rightarrow> SUPGIPCPU) list"

datatype reader =
    RIdle
  | RId nat u32
  | RInterval nat u32 u32
  | RNano nat u32 u32 u64
  | RTsc nat u32 u32 u64 u64
  | RDone nat nat snapshot

record seqlock =
  sl_cpu :: SUPGIPCPU
  sl_w :: writer
  sl_r :: reader
  sl_n :: nat
  sl_past :: "snapshot list"

inductive sl_step :: "seqlock \<Rightarrow> seqlock \<Rightarrow> bool" where
  w_begin: "sl_w s = WIdle \<Longrightarrow> c = (sl_cpu s)\<lparr>gc_u32TransactionId := gc_u32TransactionId (sl_cpu s) + 1\<rparr> \<Longrightarrow>
     sl_step s (s\<lparr>sl_cpu := c, sl_w := WBusy (gip_writes hz c ts tsc t), sl_n := sl_n s + 1\<rparr>)"
| w_store: "sl_w s = WBusy (f # fs) \<Longrightarrow> sl_step s (s\<lparr>sl_cpu := f (sl_cpu s), sl_w := WBusy fs\<rparr>)"
| w_end: "sl_w s = WBusy [] \<Longrightarrow>
     sl_step s (s\<lparr>sl_cpu := (sl_cpu s)\<lparr>gc_u32TransactionId := gc_u32TransactionId (sl_cpu s) + 1\<rparr>, sl_w := WIdle,
                  sl_n := sl_n s + 1, sl_past := sl_past s @ [snap (sl_cpu s)]\<rparr>)"
| r_id: "sl_r s = RIdle \<Longrightarrow> sl_step s (s\<lparr>sl_r := RId (sl_n s) (gc_u32TransactionId (sl_cpu s))\<rparr>)"
| r_interval: "sl_r s = RId k x \<Longrightarrow> sl_step s (s\<lparr>sl_r := RInterval k x (gc_u32UpdateIntervalTSC (sl_cpu s))\<rparr>)"
| r_nano: "sl_r s = RInterval k x i \<Longrightarrow> sl_step s (s\<lparr>sl_r := RNano k x i (gc_u64NanoTS (sl_cpu s))\<rparr>)"
| r_tsc: "sl_r s = RNano k x i n \<Longrightarrow> sl_step s (s\<lparr>sl_r := RTsc k x i n (gc_u64TSC (sl_cpu s))\<rparr>)"
| r_accept: "sl_r s = RTsc k x i n t \<Longrightarrow> gc_u32TransactionId (sl_cpu s) = x \<Longrightarrow> even x \<Longrightarrow>
     sl_step s (s\<lparr>sl_r := RDone k (sl_n s) (i, n, t)\<rparr>)"
| r_retry: "sl_r s = RTsc k x i n t \<Longrightarrow> gc_u32TransactionId (sl_cpu s) \<noteq> x \<or> odd x \<Longrightarrow> sl_step s (s\<lparr>sl_r := RIdle\<rparr>)"

inductive_cases sl_stepE: "sl_step s s'"

text \<open>The start: an entry between updates, with an even id, and a reader about to read.\<close>

definition sl_init :: "SUPGIPCPU \<Rightarrow> seqlock" where
  "sl_init c = \<lparr>sl_cpu = c, sl_w = WIdle, sl_r = RIdle, sl_n = 0, sl_past = [snap c]\<rparr>"

inductive sl_reach :: "SUPGIPCPU \<Rightarrow> seqlock \<Rightarrow> bool" for c0 where
  init: "sl_reach c0 (sl_init c0)"
| step: "sl_reach c0 s \<Longrightarrow> sl_step s s' \<Longrightarrow> sl_reach c0 s'"

inductive_simps sl_reach_simps: "sl_reach c0 s"

subsection \<open>The invariant\<close>

text \<open>The writer: the count follows the id and tells whether an update is in progress.\<close>

definition writer_ok :: "SUPGIPCPU \<Rightarrow> seqlock \<Rightarrow> bool" where
  "writer_ok c0 s \<longleftrightarrow> gc_u32TransactionId (sl_cpu s) = gc_u32TransactionId c0 + of_nat (sl_n s) \<and>
     length (sl_past s) = sl_n s div 2 + 1 \<and>
     (case sl_w s of WIdle \<Rightarrow> even (sl_n s) \<and> last (sl_past s) = snap (sl_cpu s)
      | WBusy fs \<Rightarrow> odd (sl_n s) \<and> (\<forall>f \<in> set fs. \<forall>d. gc_u32TransactionId (f d) = gc_u32TransactionId d))"

text \<open>The reader: what it has read is what the entry held, as long as nothing has happened since.\<close>

definition reads_ok :: "SUPGIPCPU \<Rightarrow> seqlock \<Rightarrow> nat \<Rightarrow> u32 \<Rightarrow> (snapshot \<Rightarrow> bool) \<Rightarrow> bool" where
  "reads_ok c0 s k x P \<longleftrightarrow> k \<le> sl_n s \<and> x = gc_u32TransactionId c0 + of_nat k \<and> (even k \<longrightarrow> k = sl_n s \<longrightarrow> P (snap (sl_cpu s)))"

definition reader_ok :: "SUPGIPCPU \<Rightarrow> seqlock \<Rightarrow> bool" where
  "reader_ok c0 s \<longleftrightarrow> (case sl_r s of RIdle \<Rightarrow> True
     | RId k x \<Rightarrow> reads_ok c0 s k x (\<lambda>_. True)
     | RInterval k x i \<Rightarrow> reads_ok c0 s k x (\<lambda>(i', _, _). i' = i)
     | RNano k x i n \<Rightarrow> reads_ok c0 s k x (\<lambda>(i', n', _). i' = i \<and> n' = n)
     | RTsc k x i n t \<Rightarrow> reads_ok c0 s k x (\<lambda>(i', n', t'). i' = i \<and> n' = n \<and> t' = t)
     | RDone k k' sn \<Rightarrow> k \<le> k' \<and> k' \<le> sl_n s \<and> (k' - k < 2 ^ 32 \<longrightarrow> sn = sl_past s ! (k div 2)))"

lemma writer_ok_step: "writer_ok c0 s \<Longrightarrow> sl_step s s' \<Longrightarrow> writer_ok c0 s'"
  by (erule sl_stepE) (auto simp: writer_ok_def snap_def add.assoc div_Suc intro: gip_writes_id split: writer.splits)

lemma reads_ok_frame:
  "reads_ok c0 s k x P \<Longrightarrow> sl_n s' = sl_n s \<Longrightarrow> sl_cpu s' = sl_cpu s \<Longrightarrow> reads_ok c0 s' k x P"
  unfolding reads_ok_def by auto

text \<open>An update in progress or complete releases the reader from its promise.\<close>

lemma reads_ok_writer:
  assumes "reads_ok c0 s k x P" "sl_n s \<le> sl_n s'" "sl_n s' = sl_n s \<Longrightarrow> odd (sl_n s)"
  shows "reads_ok c0 s' k x P"
  using assms by (auto simp: reads_ok_def)

lemma reads_ok_more:
  "reads_ok c0 s k x P \<Longrightarrow> sl_n s' = sl_n s \<Longrightarrow> sl_cpu s' = sl_cpu s \<Longrightarrow> (P (snap (sl_cpu s)) \<Longrightarrow> Q (snap (sl_cpu s))) \<Longrightarrow>
   reads_ok c0 s' k x Q"
  unfolding reads_ok_def by auto

text \<open>The ids of two counts less than \<open>2 ^ 32\<close> apart differ.\<close>

lemma id_distinct:
  assumes "(y :: u32) + of_nat k = y + of_nat k'" "k \<le> k'" "k' - k < 2 ^ 32"
  shows "k' = k"
proof -
  have "of_nat (k' - k) = (0 :: u32)" using assms(1,2) by (simp add: of_nat_diff)
  then have "2 ^ 32 dvd k' - k" by (simp add: word_of_nat_eq_0_iff)
  then show ?thesis using assms(2,3) by (auto dest: dvd_imp_le)
qed

lemma last_nth_half: "length xs = n div 2 + 1 \<Longrightarrow> last xs = xs ! (n div 2)"
  by (subst last_conv_nth) auto

lemma reader_ok_step:
  assumes even: "even (gc_u32TransactionId c0)" and w: "writer_ok c0 s" and r: "reader_ok c0 s" and st: "sl_step s s'"
  shows "reader_ok c0 s'"
  using st
proof (cases rule: sl_step.cases)
  case (w_begin c hz ts tsc t)
  with r show ?thesis unfolding reader_ok_def
    by (auto split: reader.splits elim!: reads_ok_writer)
next
  case (w_store f fs)
  with w have "odd (sl_n s)" by (simp add: writer_ok_def)
  with w_store r show ?thesis unfolding reader_ok_def by (auto split: reader.splits elim!: reads_ok_writer)
next
  case w_end
  have "sl_past s ! (k div 2) = sl_past s' ! (k div 2)" if "k \<le> sl_n s" for k
    using that w w_end(1) by (auto simp: w_end nth_append writer_ok_def div_le_mono less_Suc_eq_le)
  with w_end r show ?thesis unfolding reader_ok_def by (auto split: reader.splits elim!: reads_ok_writer)
next
  case r_id
  with w show ?thesis by (auto simp: reader_ok_def reads_ok_def writer_ok_def)
next
  case (r_interval k x)
  with r show ?thesis by (auto simp: reader_ok_def snap_def elim!: reads_ok_more)
next
  case (r_nano k x i)
  with r show ?thesis by (auto simp: reader_ok_def snap_def elim!: reads_ok_more)
next
  case (r_tsc k x i n)
  with r show ?thesis by (auto simp: reader_ok_def snap_def elim!: reads_ok_more)
next
  case (r_accept k x i n t)
  with r have rd: "k \<le> sl_n s" "x = gc_u32TransactionId c0 + of_nat k"
    "even k \<Longrightarrow> k = sl_n s \<Longrightarrow> snap (sl_cpu s) = (i, n, t)"
    by (auto simp: reader_ok_def reads_ok_def split: prod.splits)
  have "(i, n, t) = sl_past s ! (k div 2)" if d: "sl_n s - k < 2 ^ 32"
  proof -
    have "gc_u32TransactionId c0 + of_nat k = gc_u32TransactionId c0 + (of_nat (sl_n s) :: u32)"
      using w rd(2) r_accept by (simp add: writer_ok_def)
    from id_distinct[OF this rd(1) d] have k: "sl_n s = k" .
    have "even (of_nat k :: u32)" using even rd(2) r_accept by simp
    then have ek: "even k" by (simp only: even_of_nat_iff)
    then have "sl_w s = WIdle" using w k by (auto simp: writer_ok_def split: writer.splits)
    with w k have l: "last (sl_past s) = snap (sl_cpu s)" "length (sl_past s) = k div 2 + 1" by (auto simp: writer_ok_def)
    with rd(3)[OF ek k[symmetric]] last_nth_half[OF l(2)] show ?thesis by simp
  qed
  with r_accept rd(1) show ?thesis by (simp add: reader_ok_def)
next
  case (r_retry k x i n t)
  then show ?thesis by (simp add: reader_ok_def)
qed

lemma sl_reach_ok: "sl_reach c0 s \<Longrightarrow> even (gc_u32TransactionId c0) \<Longrightarrow> writer_ok c0 s \<and> reader_ok c0 s"
proof (induction rule: sl_reach.induct)
  case init
  then show ?case by (simp add: sl_init_def writer_ok_def reader_ok_def)
next
  case (step s s')
  then show ?case using writer_ok_step reader_ok_step by blast
qed

section \<open>The calculation\<close>

text \<open>
  From the interval, the nanoseconds, the TSC and the update interval in nanoseconds (the factor)
  that were read, and the current TSC: the time, and whether the interval had expired.  The
  division instruction faults for a zero divisor and for a quotient of more than 32 bits.
\<close>

definition time_calc :: "u32 \<Rightarrow> u64 \<Rightarrow> u64 \<Rightarrow> u32 \<Rightarrow> u64 \<Rightarrow> (u64 \<times> bool) option" where
  "time_calc u32UpdateIntervalTSC u64NanoTS u64TSC u32NanoTSFactor0 Now =
     (let u64Delta = Now - u64TSC;
          fExpired = (ucast u32UpdateIntervalTSC < u64Delta);
          u64Delta = (if fExpired then ucast u32UpdateIntervalTSC else u64Delta);
          u64Product = ucast (ucast u64Delta :: u32) * ucast u32NanoTSFactor0 :: u64
      in if u32UpdateIntervalTSC = 0 then None
         else let q = u64Product div ucast u32UpdateIntervalTSC in
           if drop_bit 32 q \<noteq> 0 then None else Some (u64NanoTS + q, fExpired))"

text \<open>What the thread's statistics and callbacks see of the comparison with the previous time.\<close>

datatype time_case = TimeAhead | TimeStep | TimeResume | TimeBad

definition time_adjust :: "u64 \<Rightarrow> u32 \<Rightarrow> u64 \<Rightarrow> u64 \<times> time_case" where
  "time_adjust u64NanoTS u32NanoTSFactor0 u64PrevNanoTS =
     (let u64DeltaPrev = u64NanoTS - u64PrevNanoTS in
      if 0 < u64DeltaPrev \<and> u64DeltaPrev < 86000000000000 then (u64NanoTS, TimeAhead)
      else if sint u64DeltaPrev \<le> 0 \<and> 0 \<le> sint u64DeltaPrev + int (unat (u32NanoTSFactor0 * 2))
      then (u64PrevNanoTS + 1, TimeStep)
      else if u64PrevNanoTS = 0 then (u64NanoTS, TimeResume)
      else (u64NanoTS, TimeBad))"

text \<open>
  Publication.  \<open>env k\<close> is what other threads do to the word right before the \<open>k\<close>th of our
  accesses to it; the answer is the word's final value.  The loop makes up to 25 attempts.
\<close>

fun time_retry :: "(nat \<Rightarrow> u64 \<Rightarrow> u64) \<Rightarrow> u64 \<Rightarrow> nat \<Rightarrow> nat \<Rightarrow> u64 \<Rightarrow> u64" where
  "time_retry env u64NanoTS k 0 mem = mem"
| "time_retry env u64NanoTS k (Suc cTries) mem =
     (let u64PrevNanoTS = env k mem in
      if u64NanoTS \<le> u64PrevNanoTS then u64PrevNanoTS
      else let cur = env (k + 1) u64PrevNanoTS in
        if cur = u64PrevNanoTS then u64NanoTS else time_retry env u64NanoTS (k + 2) cTries cur)"

definition time_publish :: "(nat \<Rightarrow> u64 \<Rightarrow> u64) \<Rightarrow> u64 \<Rightarrow> u64 \<Rightarrow> u64 \<Rightarrow> u64" where
  "time_publish env u64NanoTS u64PrevNanoTS mem =
     (let cur = env 0 mem in if cur = u64PrevNanoTS then u64NanoTS else time_retry env u64NanoTS 1 25 cur)"

text \<open>
  One call, from the accepted read on: \<open>r\<close> is what was read of the entry, \<open>f\<close> the factor, \<open>Now\<close>
  the TSC, and the word \<open>mem\<close> was read once as \<open>u64PrevNanoTS\<close>.  Answers the time and the word.
\<close>

definition rtTimeNanoTSInternalRef :: "(nat \<Rightarrow> u64 \<Rightarrow> u64) \<Rightarrow> snapshot \<Rightarrow> u32 \<Rightarrow> u64 \<Rightarrow> u64 \<Rightarrow> (u64 \<times> time_case \<times> u64) option" where
  "rtTimeNanoTSInternalRef env r f Now mem = (case r of (i, n, t) \<Rightarrow> do {
     (u64NanoTS, _) \<leftarrow> time_calc i n t f Now;
     let (u64NanoTS, c) = time_adjust u64NanoTS f mem;
     Some (u64NanoTS, c, time_publish env u64NanoTS mem mem)
   })"

lemma time_calc_ok:
  assumes "i \<noteq> 0"
  shows "\<exists>q. time_calc i n t f now = Some (n + q, ucast i < now - t) \<and> unat q \<le> unat f \<and>
    unat q = (if ucast i < now - t then unat i else unat (now - t)) * unat f div unat i"
proof -
  let ?d = "if ucast i < now - t then ucast i else now - t"
  have d: "unat ?d \<le> unat i" using unat_ucast_u64[of i] by (auto simp: word_less_nat_alt)
  have d32: "unat (ucast ?d :: u32) = unat ?d"
  proof -
    have "unat ?d < 2 ^ 32" using d unat_u32_less[of i] by simp
    then show ?thesis by (simp add: unsigned_ucast_eq take_bit_nat_eq_self)
  qed
  have prod: "unat (ucast (ucast ?d :: u32) * ucast f :: u64) = unat ?d * unat f"
  proof -
    have "unat ?d * unat f < 2 ^ 32 * 2 ^ 32" using d unat_u32_less[of i] unat_u32_less[of f]
      by (intro mult_strict_mono) simp_all
    then have "unat ?d * unat f < 2 ^ 64" by simp
    then show ?thesis by (simp add: unat_word_ariths(2) unat_ucast_u64 d32 del: unsigned_ucast_eq)
  qed
  let ?q = "ucast (ucast ?d :: u32) * ucast f div ucast i :: u64"
  have q: "unat ?q = unat ?d * unat f div unat i" using prod by (simp add: unat_div unat_ucast_u64)
  have "unat ?d * unat f div unat i \<le> unat i * unat f div unat i"
    using d by (intro div_le_mono mult_le_mono1) simp
  also have "\<dots> = unat f" using assms by (simp add: unat_eq_0)
  finally have qf: "unat ?q \<le> unat f" using q by simp
  then have "unat (drop_bit 32 ?q) = 0"
    using unat_u32_less[of f] by (simp only: unat_drop_bit_eq) (simp add: drop_bit_eq_div)
  then have "drop_bit 32 ?q = 0" by (simp only: unat_eq_0)
  moreover have "unat ?d = (if ucast i < now - t then unat i else unat (now - t))" by (simp add: unat_ucast_u64)
  ultimately show ?thesis using assms q qf
    by (intro exI[of _ ?q]) (simp only: time_calc_def Let_def if_False simp_thms)
qed

lemma time_retry_ge:
  assumes rely: "\<And>k x. x \<le> env k x"
  shows "mem \<le> time_retry env ts k n mem"
proof (induction n arbitrary: k mem)
  case (Suc n)
  have le: "mem \<le> env k mem" "env k mem \<le> env (k + 1) (env k mem)" by (rule rely)+
  have "env (k + 1) (env k mem) \<le> time_retry env ts (k + 2) n (env (k + 1) (env k mem))" by (rule Suc.IH)
  with le show ?case by (auto simp: Let_def)
qed simp

lemma time_adjust_ahead:
  assumes "time_adjust ts f prev = (r, c)" "c = TimeAhead \<or> c = TimeStep" "unat prev < 2 ^ 63"
  shows "prev < r"
proof -
  have s: "prev < prev + d" if "0 < d" "d < 86000000000000" for d
  proof -
    have "unat prev + unat d < 2 ^ 64" using assms(3) that by (simp add: word_less_nat_alt)
    then have "unat (prev + d) = unat prev + unat d" by (simp add: unat_word_ariths)
    with that show ?thesis by (simp add: word_less_nat_alt)
  qed
  from assms(1,2) consider "r = ts" "0 < ts - prev" "ts - prev < 86000000000000" | "r = prev + 1"
    by (auto simp: time_adjust_def Let_def split: if_splits)
  then show ?thesis
  proof cases
    case 1
    with s[of "ts - prev"] show ?thesis by simp
  next
    case 2
    with s[of 1] show ?thesis by simp
  qed
qed

section \<open>Properties\<close>

text \<open>The stores an update makes, carried out one after the other, are the update.\<close>

theorem stores_are_the_update:
  assumes "length (gc_au32TSCHistory c) = 8"
  shows "foldl (\<lambda>c f. f c) c (gip_writes hz c ts tsc t) = supdrvGipDoUpdateCpu hz c ts tsc t"
  by (rule gip_writes_update[OF assms])

theorem stores_are_the_update_witness:
  "gc_u64NanoTS (foldl (\<lambda>c f. f c) gipcpu_zero (gip_writes 100 gipcpu_zero 5000 700 1)) = 5000"
proof -
  have "length (gc_au32TSCHistory gipcpu_zero) = 8" by (simp add: gipcpu_zero_def)
  from stores_are_the_update[OF this, of 100 5000 700 1] show ?thesis by simp
qed

text \<open>C25: The optimistic read is consistent: however the writer's stores and the reader's reads
  interleave, when the check passes and fewer than 2^32 id increments happened between the first
  read and the check, the three values read were left in the entry together by one complete
  update, the last one that had completed when the reader began.\<close>

theorem optimistic_read_consistent:
  assumes "sl_reach c0 s" "even (gc_u32TransactionId c0)" "sl_r s = RDone k k' sn" "k' - k < 2 ^ 32"
  shows "sn = sl_past s ! (k div 2) \<and> k div 2 < length (sl_past s)"
proof -
  from sl_reach_ok[OF assms(1,2)] have w: "writer_ok c0 s" and r: "reader_ok c0 s" by blast+
  have "k \<le> sl_n s" using r assms(3) by (simp add: reader_ok_def)
  then have "k div 2 < length (sl_past s)" using w by (simp add: writer_ok_def div_le_mono less_Suc_eq_le)
  with r assms(3,4) show ?thesis by (simp add: reader_ok_def)
qed

text \<open>A run in which the writer completes an update between two attempts of the reader.\<close>

lemma sl_step_eq: "sl_step s t \<Longrightarrow> t = s' \<Longrightarrow> sl_step s s'"
  by simp

theorem optimistic_read_consistent_witness:
  "\<exists>s. sl_reach gipcpu_zero s \<and> sl_r s = RDone 0 0 (0, 0, 0) \<and> sl_past s ! 0 = (0, 0, 0)"
proof -
  let ?s0 = "sl_init gipcpu_zero"
  have z: "gc_u32TransactionId gipcpu_zero = 0" "gc_u32UpdateIntervalTSC gipcpu_zero = 0" "gc_u64NanoTS gipcpu_zero = 0"
    "gc_u64TSC gipcpu_zero = 0" by (simp_all add: gipcpu_zero_def)
  have s1: "sl_step ?s0 (?s0\<lparr>sl_r := RId 0 0\<rparr>)"
    by (rule sl_step_eq[OF sl_step.r_id]) (simp_all add: sl_init_def z)
  have s2: "sl_step (?s0\<lparr>sl_r := RId 0 0\<rparr>) (?s0\<lparr>sl_r := RInterval 0 0 0\<rparr>)"
    by (rule sl_step_eq[OF sl_step.r_interval]) (simp_all add: sl_init_def z)
  have s3: "sl_step (?s0\<lparr>sl_r := RInterval 0 0 0\<rparr>) (?s0\<lparr>sl_r := RNano 0 0 0 0\<rparr>)"
    by (rule sl_step_eq[OF sl_step.r_nano]) (simp_all add: sl_init_def z)
  have s4: "sl_step (?s0\<lparr>sl_r := RNano 0 0 0 0\<rparr>) (?s0\<lparr>sl_r := RTsc 0 0 0 0 0\<rparr>)"
    by (rule sl_step_eq[OF sl_step.r_tsc]) (simp_all add: sl_init_def z)
  have s5: "sl_step (?s0\<lparr>sl_r := RTsc 0 0 0 0 0\<rparr>) (?s0\<lparr>sl_r := RDone 0 0 (0, 0, 0)\<rparr>)"
    by (rule sl_step_eq[OF sl_step.r_accept]) (simp_all only: dvd_0_right, simp_all add: sl_init_def z)
  have reach: "sl_reach gipcpu_zero (?s0\<lparr>sl_r := RDone 0 0 (0, 0, 0)\<rparr>)"
    using sl_reach.step[OF sl_reach.step[OF sl_reach.step[OF sl_reach.step[OF sl_reach.step[OF sl_reach.init s1] s2] s3] s4] s5] .
  have "sl_past (?s0\<lparr>sl_r := RDone 0 0 (0, 0, 0)\<rparr>) ! (0 div 2) = (0, 0, 0)"
    using optimistic_read_consistent[OF reach, of 0 0 "(0, 0, 0)"] z by simp
  with reach show ?thesis by (intro exI[of _ "?s0\<lparr>sl_r := RDone 0 0 (0, 0, 0)\<rparr>"]) simp
qed

text \<open>With a non-zero update interval the calculation never faults: the time it gives lies between the
  time stamp of the entry and one update interval later, and grows in proportion to the TSC
  until the interval is over, where it stops.\<close>

theorem time_calc_bounded:
  assumes "i \<noteq> 0"
  shows "\<exists>q. time_calc i n t f now = Some (n + q, ucast i < now - t) \<and> unat q \<le> unat f \<and>
    unat q = (if ucast i < now - t then unat i else unat (now - t)) * unat f div unat i"
  by (rule time_calc_ok[OF assms])

theorem time_calc_bounded_witness: "\<exists>q. time_calc 2000 1000000 500 10000000 1500 = Some (1000000 + q, False) \<and> unat q = 5000000"
  using time_calc_bounded[of 2000 1000000 500 10000000 1500] by auto

text \<open>C26: Time moves on: a call whose calculation ends ahead of the last time handed out, or behind it by at
  most two update intervals, returns a later time than the last one, and whatever other threads
  do to the shared word, as long as they never set it back, the word is not set back by this call
  either; without interference it ends up holding exactly the time returned.\<close>

theorem time_moves_on:
  assumes "rtTimeNanoTSInternalRef env r f now mem = Some (ts, c, mem')" "c = TimeAhead \<or> c = TimeStep"
    and "unat mem < 2 ^ 63" "\<And>k x. x \<le> env k x"
  shows "mem < ts \<and> mem \<le> mem' \<and> ((\<forall>k x. env k x = x) \<longrightarrow> mem' = ts)"
proof -
  obtain ts0 where a: "time_adjust ts0 f mem = (ts, c)" and p: "mem' = time_publish env ts mem mem"
    using assms(1) by (auto simp: rtTimeNanoTSInternalRef_def split: prod.splits Option.bind_splits)
  have lt: "mem < ts" by (rule time_adjust_ahead[OF a assms(2,3)])
  have "mem \<le> mem'"
  proof (cases "env 0 mem = mem")
    case True
    with p lt show ?thesis by (simp add: time_publish_def)
  next
    case False
    have "env 0 mem \<le> time_retry env ts 1 25 (env 0 mem)" by (rule time_retry_ge[OF assms(4)])
    with assms(4)[of mem 0] False p show ?thesis by (simp add: time_publish_def)
  qed
  with lt p show ?thesis by (simp add: time_publish_def)
qed

theorem time_moves_on_witness:
  "\<exists>ts. rtTimeNanoTSInternalRef (\<lambda>_ x. x) (2000, 1000000, 500) 10000000 1500 5999999 = Some (ts, TimeAhead, ts) \<and> 5999999 < ts"
proof -
  have c: "rtTimeNanoTSInternalRef (\<lambda>_ x. x) (2000, 1000000, 500) 10000000 1500 5999999 = Some (6000000, TimeAhead, 6000000)"
    by (simp add: rtTimeNanoTSInternalRef_def time_calc_def time_adjust_def time_publish_def Let_def)
  from time_moves_on[OF c] show ?thesis using c by simp
qed

end
