(* ===== verification/SupSem.thy ===== *)
theory SupSem
  imports SupObj "HOL-Library.Multiset"
begin

text \<open>
  Event semaphores of a session (\<open>SUPDrvSem.c\<close>): each is an IPRT semaphore wrapped into a
  registered object, which the session's handle table names by a 32 bit handle.  The functions for
  event and for multiple release event semaphores are the same text twice and differ in the object
  type, the handle context, the destructor and the IPRT functions they call; here that is the
  argument \<open>sem_kind\<close>.  What IPRT and the allocators answer is in a \<open>semenv\<close>.
\<close>

section \<open>The handle table of a session\<close>

text \<open>\<open>supdrvSessionObjHandleRetain\<close> and \<open>supdrvSessionObjHandleDelete\<close>, the table's callbacks.\<close>

definition supdrvSessionObjHandleRetain :: "addr \<Rightarrow> addr \<Rightarrow> supdrv \<Rightarrow> (rc \<times> supdrv) option" where
  "supdrvSessionObjHandleRetain pSession pvObj s = SUPR0ObjAddRefEx pvObj pSession True False s"

definition supdrvSessionObjHandleDelete :: "addr \<Rightarrow> u32 \<Rightarrow> addr \<Rightarrow> addr \<Rightarrow> supdrv \<Rightarrow> supdrv option" where
  "supdrvSessionObjHandleDelete pSession h pvObj pvCtx s = map_option snd (SUPR0ObjRelease pvObj pSession s)"

text \<open>The three table functions, applied to \<open>pSession->hHandleTable\<close>.\<close>

definition sess_handle_alloc :: "addr \<Rightarrow> addr \<Rightarrow> addr \<Rightarrow> bool \<Rightarrow> bool \<Rightarrow> supdrv \<Rightarrow> ((rc \<times> u32) \<times> supdrv) option" where
  "sess_handle_alloc pSession pvObj pvCtx fLevel1 fTable s = do {
     ss \<leftarrow> sessions s pSession;
     case s_hHandleTable ss of
       None \<Rightarrow> Some ((VERR_INVALID_HANDLE, 0), s)
     | Some t \<Rightarrow> do {
         (res, t1) \<leftarrow> RTHandleTableAllocWithCtx pvObj pvCtx fLevel1 fTable t;
         Some (res, put_session pSession (ss\<lparr>s_hHandleTable := Some t1\<rparr>) s)
       }
   }"

definition sess_handle_lookup :: "addr \<Rightarrow> u32 \<Rightarrow> addr \<Rightarrow> supdrv \<Rightarrow> (addr \<times> supdrv) option" where
  "sess_handle_lookup pSession h pvCtx s = do {
     ss \<leftarrow> sessions s pSession;
     case s_hHandleTable ss of
       None \<Rightarrow> Some (0, s)
     | Some t \<Rightarrow> RTHandleTableLookupWithCtx (supdrvSessionObjHandleRetain pSession) h pvCtx t s
   }"

definition sess_handle_free :: "addr \<Rightarrow> u32 \<Rightarrow> addr \<Rightarrow> supdrv \<Rightarrow> (addr \<times> supdrv) option" where
  "sess_handle_free pSession h pvCtx s = do {
     ss \<leftarrow> sessions s pSession;
     case s_hHandleTable ss of
       None \<Rightarrow> Some (0, s)
     | Some t \<Rightarrow> do {
         (pvObj, t1, s1) \<leftarrow> RTHandleTableFreeWithCtx (supdrvSessionObjHandleRetain pSession) h pvCtx t s;
         ss1 \<leftarrow> sessions s1 pSession;
         Some (pvObj, put_session pSession (ss1\<lparr>s_hHandleTable := Some t1\<rparr>) s1)
       }
   }"

section \<open>The semaphore functions\<close>

record semenv =
  se_rc :: rc                    \<comment> \<open>what the IPRT semaphore function returns\<close>
  se_hReal :: addr               \<comment> \<open>the semaphore \<open>RTSemEvent[Multi]Create\<close> made\<close>
  se_pNew :: addr                \<comment> \<open>the heap block for the object\<close>
  se_fUsage :: bool              \<comment> \<open>whether there is one for the usage record\<close>
  se_fLevel1 :: bool             \<comment> \<open>whether there is one for a first level array\<close>
  se_fTable :: bool              \<comment> \<open>and one for a second level table\<close>
  se_pfnDestructor :: addr       \<comment> \<open>the address of \<open>supR0SemEvent[Multi]Destructor\<close>\<close>

fun sem_ctx :: "sem_kind \<Rightarrow> addr" where
  "sem_ctx SemEvent = 4"
| "sem_ctx SemEventMulti = 5"

fun sem_type :: "sem_kind \<Rightarrow> int" where
  "sem_type SemEvent = SUPDRVOBJTYPE_SEM_EVENT"
| "sem_type SemEventMulti = SUPDRVOBJTYPE_SEM_EVENT_MULTI"

text \<open>The body of the destructors, as the call it makes.\<close>

definition supR0SemEventDestructor :: "sem_kind \<Rightarrow> addr \<Rightarrow> addr \<Rightarrow> addr \<Rightarrow> ext_call" where
  "supR0SemEventDestructor k pvObj pvUser1 pvUser2 = Call_Sem k SemDestroy pvUser1"

text \<open>
  Creation; the second component is what is stored through \<open>phEvent\<close>, \<open>None\<close> when nothing is.
\<close>

definition sem_create ::
  "sem_kind \<Rightarrow> addr \<Rightarrow> addr \<Rightarrow> semenv \<Rightarrow> supdrv \<Rightarrow> ((rc \<times> u32 option) \<times> supdrv) option" where
  "sem_create k pSession phEvent env s = do {
     ss \<leftarrow> sessions s pSession;
     if \<not> SUP_IS_SESSION_VALID pSession ss then Some ((VERR_INVALID_PARAMETER, None), s)
     else if \<not> RT_VALID_PTR phEvent then Some ((VERR_INVALID_POINTER, None), s)
     else if RT_FAILURE (se_rc env) then Some ((se_rc env, None), s)
     else do {
       (pvObj, s1) \<leftarrow> SUPR0ObjRegister pSession (sem_type k) (se_pfnDestructor env) (se_hReal env) 0
                        (se_pNew env) (se_fUsage env) s;
       if pvObj \<noteq> 0
       then do {
         ((rc, h32), s2) \<leftarrow> sess_handle_alloc pSession pvObj (sem_ctx k) (se_fLevel1 env) (se_fTable env) s1;
         if RT_SUCCESS rc then Some ((VINF_SUCCESS, Some h32), s2)
         else do {
           (_, s3) \<leftarrow> SUPR0ObjRelease pvObj pSession s2;
           Some ((rc, None), s3)
         }
       }
       else Some ((se_rc env, None), log_call (Call_Sem k SemDestroy (se_hReal env)) s1)
     }
   }"

text \<open>The start that signalling, resetting and waiting share: the handle to the object, retained.\<close>

definition sem_lookup :: "sem_kind \<Rightarrow> addr \<Rightarrow> u64 \<Rightarrow> supdrv \<Rightarrow> ((rc \<times> addr) \<times> supdrv) option" where
  "sem_lookup k pSession hEvent s = do {
     ss \<leftarrow> sessions s pSession;
     let h32 = (ucast hEvent :: u32);
     if \<not> SUP_IS_SESSION_VALID pSession ss then Some ((VERR_INVALID_PARAMETER, 0), s)
     else if ucast h32 \<noteq> hEvent then Some ((VERR_INVALID_HANDLE, 0), s)
     else do {
       (pObj, s1) \<leftarrow> sess_handle_lookup pSession h32 (sem_ctx k) s;
       Some (if pObj = 0 then (VERR_INVALID_HANDLE, 0) else (VINF_SUCCESS, pObj), s1)
     }
   }"

text \<open>Their middle: the IPRT function on \<open>pObj->pvUser1\<close>.\<close>

definition sem_do :: "sem_kind \<Rightarrow> sem_call \<Rightarrow> addr \<Rightarrow> supdrv \<Rightarrow> supdrv option" where
  "sem_do k c pObj s = do { ob \<leftarrow> objs s pObj; Some (log_call (Call_Sem k c (o_pvUser1 ob)) s) }"

definition sem_op :: "sem_kind \<Rightarrow> sem_call \<Rightarrow> addr \<Rightarrow> u64 \<Rightarrow> semenv \<Rightarrow> supdrv \<Rightarrow> (rc \<times> supdrv) option" where
  "sem_op k c pSession hEvent env s = do {
     ((rc, pObj), s1) \<leftarrow> sem_lookup k pSession hEvent s;
     if RT_FAILURE rc then Some (rc, s1)
     else do {
       s2 \<leftarrow> sem_do k c pObj s1;
       (_, s3) \<leftarrow> SUPR0ObjRelease pObj pSession s2;
       Some (se_rc env, s3)
     }
   }"

text \<open>Closing, its first part and the whole.\<close>

definition sem_close_begin :: "sem_kind \<Rightarrow> addr \<Rightarrow> u64 \<Rightarrow> supdrv \<Rightarrow> ((rc \<times> addr) \<times> supdrv) option" where
  "sem_close_begin k pSession hEvent s = do {
     ss \<leftarrow> sessions s pSession;
     let h32 = (ucast hEvent :: u32);
     if \<not> SUP_IS_SESSION_VALID pSession ss then Some ((VERR_INVALID_PARAMETER, 0), s)
     else if hEvent = 0 then Some ((VINF_SUCCESS, 0), s)
     else if ucast h32 \<noteq> hEvent then Some ((VERR_INVALID_HANDLE, 0), s)
     else do {
       (pObj, s1) \<leftarrow> sess_handle_free pSession h32 (sem_ctx k) s;
       Some (if pObj = 0 then (VERR_INVALID_HANDLE, 0) else (VINF_SUCCESS, pObj), s1)
     }
   }"

definition sem_close :: "sem_kind \<Rightarrow> addr \<Rightarrow> u64 \<Rightarrow> supdrv \<Rightarrow> (rc \<times> supdrv) option" where
  "sem_close k pSession hEvent s = do {
     ((rc, pObj), s1) \<leftarrow> sem_close_begin k pSession hEvent s;
     if pObj = 0 then Some (rc, s1)
     else do {
       (_, s2) \<leftarrow> SUPR0ObjRelease pObj pSession s1;
       SUPR0ObjRelease pObj pSession s2
     }
   }"

section \<open>The exported functions\<close>

abbreviation "RTSEMWAIT_FLAGS_RELATIVE \<equiv> (1::u32)"
abbreviation "RTSEMWAIT_FLAGS_ABSOLUTE \<equiv> (2::u32)"
abbreviation "RTSEMWAIT_FLAGS_NANOSECS \<equiv> (4::u32)"
abbreviation "RTSEMWAIT_FLAGS_MILLISECS \<equiv> (8::u32)"
abbreviation "RTSEMWAIT_FLAGS_INDEFINITE \<equiv> (16::u32)"
abbreviation "RTSEMWAIT_FLAGS_INTERRUPTIBLE \<equiv> (32::u32)"
abbreviation "RTSEMWAIT_FLAGS_UNINTERRUPTIBLE \<equiv> (64::u32)"
abbreviation "RT_INDEFINITE_WAIT \<equiv> (- 1::u32)"

definition SUPSemEventCreate where
  "SUPSemEventCreate = sem_create SemEvent"
definition SUPSemEventClose where
  "SUPSemEventClose = sem_close SemEvent"
definition SUPSemEventSignal where
  "SUPSemEventSignal = sem_op SemEvent SemSignal"

definition supR0SemEventWaitEx :: "addr \<Rightarrow> u64 \<Rightarrow> u32 \<Rightarrow> u64 \<Rightarrow> semenv \<Rightarrow> supdrv \<Rightarrow> (rc \<times> supdrv) option" where
  "supR0SemEventWaitEx pSession hEvent fFlags uTimeout = sem_op SemEvent (SemWaitEx fFlags uTimeout) pSession hEvent"

text \<open>The flags of a wait in milliseconds.\<close>

definition sem_ms_flags :: "u32 \<Rightarrow> u32 \<Rightarrow> u32" where
  "sem_ms_flags fIntr cMillies =
     (RTSEMWAIT_FLAGS_RELATIVE OR RTSEMWAIT_FLAGS_MILLISECS OR fIntr)
     OR (if cMillies = RT_INDEFINITE_WAIT then RTSEMWAIT_FLAGS_INDEFINITE else 0)"

definition SUPSemEventWait :: "addr \<Rightarrow> u64 \<Rightarrow> u32 \<Rightarrow> semenv \<Rightarrow> supdrv \<Rightarrow> (rc \<times> supdrv) option" where
  "SUPSemEventWait pSession hEvent cMillies =
     supR0SemEventWaitEx pSession hEvent (sem_ms_flags RTSEMWAIT_FLAGS_UNINTERRUPTIBLE cMillies) (ucast cMillies)"

definition SUPSemEventWaitNoResume :: "addr \<Rightarrow> u64 \<Rightarrow> u32 \<Rightarrow> semenv \<Rightarrow> supdrv \<Rightarrow> (rc \<times> supdrv) option" where
  "SUPSemEventWaitNoResume pSession hEvent cMillies =
     supR0SemEventWaitEx pSession hEvent (sem_ms_flags RTSEMWAIT_FLAGS_INTERRUPTIBLE cMillies) (ucast cMillies)"

definition SUPSemEventWaitNsAbsIntr :: "addr \<Rightarrow> u64 \<Rightarrow> u64 \<Rightarrow> semenv \<Rightarrow> supdrv \<Rightarrow> (rc \<times> supdrv) option" where
  "SUPSemEventWaitNsAbsIntr pSession hEvent uNsTimeout =
     supR0SemEventWaitEx pSession hEvent
       (RTSEMWAIT_FLAGS_ABSOLUTE OR RTSEMWAIT_FLAGS_NANOSECS OR RTSEMWAIT_FLAGS_INTERRUPTIBLE) uNsTimeout"

definition SUPSemEventWaitNsRelIntr :: "addr \<Rightarrow> u64 \<Rightarrow> u64 \<Rightarrow> semenv \<Rightarrow> supdrv \<Rightarrow> (rc \<times> supdrv) option" where
  "SUPSemEventWaitNsRelIntr pSession hEvent cNsTimeout =
     supR0SemEventWaitEx pSession hEvent
       (RTSEMWAIT_FLAGS_RELATIVE OR RTSEMWAIT_FLAGS_NANOSECS OR RTSEMWAIT_FLAGS_INTERRUPTIBLE) cNsTimeout"

definition SUPSemEventMultiCreate where
  "SUPSemEventMultiCreate = sem_create SemEventMulti"
definition SUPSemEventMultiClose where
  "SUPSemEventMultiClose = sem_close SemEventMulti"
definition SUPSemEventMultiSignal where
  "SUPSemEventMultiSignal = sem_op SemEventMulti SemSignal"
definition SUPSemEventMultiReset where
  "SUPSemEventMultiReset = sem_op SemEventMulti SemReset"

definition supR0SemEventMultiWaitEx :: "addr \<Rightarrow> u64 \<Rightarrow> u32 \<Rightarrow> u64 \<Rightarrow> semenv \<Rightarrow> supdrv \<Rightarrow> (rc \<times> supdrv) option" where
  "supR0SemEventMultiWaitEx pSession hEventMulti fFlags uTimeout =
     sem_op SemEventMulti (SemWaitEx fFlags uTimeout) pSession hEventMulti"

definition SUPSemEventMultiWait :: "addr \<Rightarrow> u64 \<Rightarrow> u32 \<Rightarrow> semenv \<Rightarrow> supdrv \<Rightarrow> (rc \<times> supdrv) option" where
  "SUPSemEventMultiWait pSession hEventMulti cMillies =
     supR0SemEventMultiWaitEx pSession hEventMulti (sem_ms_flags RTSEMWAIT_FLAGS_UNINTERRUPTIBLE cMillies) (ucast cMillies)"

definition SUPSemEventMultiWaitNoResume :: "addr \<Rightarrow> u64 \<Rightarrow> u32 \<Rightarrow> semenv \<Rightarrow> supdrv \<Rightarrow> (rc \<times> supdrv) option" where
  "SUPSemEventMultiWaitNoResume pSession hEventMulti cMillies =
     supR0SemEventMultiWaitEx pSession hEventMulti (sem_ms_flags RTSEMWAIT_FLAGS_INTERRUPTIBLE cMillies) (ucast cMillies)"

definition SUPSemEventMultiWaitNsAbsIntr :: "addr \<Rightarrow> u64 \<Rightarrow> u64 \<Rightarrow> semenv \<Rightarrow> supdrv \<Rightarrow> (rc \<times> supdrv) option" where
  "SUPSemEventMultiWaitNsAbsIntr pSession hEventMulti uNsTimeout =
     supR0SemEventMultiWaitEx pSession hEventMulti
       (RTSEMWAIT_FLAGS_ABSOLUTE OR RTSEMWAIT_FLAGS_NANOSECS OR RTSEMWAIT_FLAGS_INTERRUPTIBLE) uNsTimeout"

definition SUPSemEventMultiWaitNsRelIntr :: "addr \<Rightarrow> u64 \<Rightarrow> u64 \<Rightarrow> semenv \<Rightarrow> supdrv \<Rightarrow> (rc \<times> supdrv) option" where
  "SUPSemEventMultiWaitNsRelIntr pSession hEventMulti cNsTimeout =
     supR0SemEventMultiWaitEx pSession hEventMulti
       (RTSEMWAIT_FLAGS_RELATIVE OR RTSEMWAIT_FLAGS_NANOSECS OR RTSEMWAIT_FLAGS_INTERRUPTIBLE) cNsTimeout"

section \<open>Handles count as references\<close>

text \<open>How many handles of a table lead to an object.\<close>

definition hcount :: "(u32 \<rightharpoonup> addr \<times> addr) \<Rightarrow> addr \<Rightarrow> nat" where
  "hcount m p = card {h. \<exists>ctx. m h = Some (p, ctx)}"

lemma hcount_empty [simp]: "hcount Map.empty p = 0"
  by (simp add: hcount_def)

lemma hcount_put:
  assumes "m h = None"
  shows "hcount (m(h \<mapsto> (p, ctx))) q = hcount m q + (if q = p then 1 else 0)"
proof (cases "q = p")
  case True
  have "{h'. \<exists>c. (m(h \<mapsto> (p, ctx))) h' = Some (q, c)} = insert h {h'. \<exists>c. m h' = Some (q, c)}"
    using True by auto
  moreover have "h \<notin> {h'. \<exists>c. m h' = Some (q, c)}" using assms by simp
  ultimately show ?thesis using True by (simp add: hcount_def)
next
  case False
  then have "{h'. \<exists>c. (m(h \<mapsto> (p, ctx))) h' = Some (q, c)} = {h'. \<exists>c. m h' = Some (q, c)}"
    using assms by auto
  with False show ?thesis by (simp add: hcount_def)
qed

lemma hcount_del:
  assumes "m h = Some (p, ctx)"
  shows "hcount m q = hcount (m(h := None)) q + (if q = p then 1 else 0)"
proof -
  have "m = (m(h := None))(h \<mapsto> (p, ctx))" using assms by auto
  then show ?thesis using hcount_put[of "m(h := None)" h p ctx q] by simp
qed

lemma hcount_pos: "m h = Some (p, ctx) \<Longrightarrow> 0 < hcount m p"
  using hcount_del[of m h p ctx p] by simp

lemma hcount_none: "hcount m p = 0 \<Longrightarrow> m h \<noteq> Some (p, ctx)"
  using hcount_pos[of m h p ctx] by auto

definition sess_handles :: "SUPDRVSESSION \<Rightarrow> u32 \<rightharpoonup> addr \<times> addr" where
  "sess_handles ss = (case s_hHandleTable ss of None \<Rightarrow> Map.empty | Some t \<Rightarrow> ht_map t)"

lemma sess_handles_upd [simp]:
  "sess_handles (ss\<lparr>s_pUsage := us\<rparr>) = sess_handles ss"
  "sess_handles (ss\<lparr>s_hHandleTable := Some t\<rparr>) = ht_map t"
  "sess_handles (ss\<lparr>s_hHandleTable := None\<rparr>) = Map.empty"
  by (simp_all add: sess_handles_def)

text \<open>
  Threads inside the semaphore functions hold references of their own: \<open>pend\<close> has one entry for
  each, with the session it counts on, the object, and what the thread takes it for.
\<close>

type_synonym pending = "(addr \<times> addr \<times> sem_kind) multiset"

definition pcount :: "pending \<Rightarrow> addr \<Rightarrow> addr \<Rightarrow> nat" where
  "pcount pend a p = count pend (a, p, SemEvent) + count pend (a, p, SemEventMulti)"

lemma pcount_simps [simp]:
  "pcount {#} a p = 0"
  "pcount (add_mset (a', p', k) pend) a p = pcount pend a p + (if a = a' \<and> p = p' then 1 else 0)"
  by (cases k; auto simp: pcount_def)+

lemma pcount_pos: "(a, p, k) \<in># pend \<Longrightarrow> 0 < pcount pend a p"
  by (cases k) (auto simp: pcount_def)

lemma pcount_minus:
  "(a', p', k) \<in># pend \<Longrightarrow> pcount (pend - {#(a', p', k)#}) a p + (if a = a' \<and> p = p' then 1 else 0) = pcount pend a p"
  by (metis pcount_simps(2) insert_DiffM)

text \<open>
  The invariant: object table consistent, sessions valid, handle tables well-formed, every handle
  leads to a live semaphore object of the type its context says, and so does every reference a
  thread holds; and each session's usage records cover its handles and its threads together.
\<close>

definition sem_obj :: "sem_kind \<Rightarrow> addr \<Rightarrow> supdrv \<Rightarrow> bool" where
  "sem_obj k p s \<longleftrightarrow> (\<exists>ob. objs s p = Some ob \<and> o_enmType ob = sem_type k)"

definition sess_sem_ok :: "pending \<Rightarrow> supdrv \<Rightarrow> addr \<Rightarrow> SUPDRVSESSION \<Rightarrow> bool" where
  "sess_sem_ok pend s a ss \<longleftrightarrow> SUP_IS_SESSION_VALID a ss \<and>
     (\<forall>t. s_hHandleTable ss = Some t \<longrightarrow> ht_inv t) \<and>
     (\<forall>h p ctx. sess_handles ss h = Some (p, ctx) \<longrightarrow> (\<exists>k. ctx = sem_ctx k \<and> sem_obj k p s)) \<and>
     (\<forall>p. hcount (sess_handles ss) p + pcount pend a p \<le> held p (s_pUsage ss))"

definition sem_inv :: "pending \<Rightarrow> supdrv \<Rightarrow> bool" where
  "sem_inv pend s \<longleftrightarrow> obj_inv s \<and> (\<forall>a ss. sessions s a = Some ss \<longrightarrow> sess_sem_ok pend s a ss) \<and>
     (\<forall>a p k. (a, p, k) \<in># pend \<longrightarrow> sessions s a \<noteq> None \<and> sem_obj k p s)"

lemma sem_ctx_inj [simp]: "sem_ctx k = sem_ctx k' \<longleftrightarrow> k = k'"
  by (cases k; cases k') simp_all

lemma sess_sem_handle:
  "sess_sem_ok pend s a ss \<Longrightarrow> sess_handles ss h = Some (p, ctx) \<Longrightarrow> \<exists>k. ctx = sem_ctx k \<and> sem_obj k p s"
  unfolding sess_sem_ok_def by blast

lemma sess_sem_handle_kind:
  "sess_sem_ok pend s a ss \<Longrightarrow> sess_handles ss h = Some (p, sem_ctx k) \<Longrightarrow> sem_obj k p s"
  by (drule (1) sess_sem_handle) auto

section \<open>Retaining and releasing what is held\<close>

lemma addref_held:
  assumes inv: "obj_inv s" and a: "sessions s a = Some ss" "SUP_IS_SESSION_VALID a ss" and h: "0 < held p (s_pUsage ss)"
    and m: "map_option o_cUsage (objs s p) \<noteq> Some (- 1)"
  shows "\<exists>s' us ob. SUPR0ObjAddRefEx p a True al s = Some (VINF_SUCCESS, s') \<and> obj_inv s' \<and>
    sessions s' = (sessions s)(a \<mapsto> ss\<lparr>s_pUsage := us\<rparr>) \<and>
    (\<forall>q. held q us = held q (s_pUsage ss) + (if q = p then 1 else 0)) \<and>
    objs s p = Some ob \<and> objs s' = (objs s)(p \<mapsto> ob\<lparr>o_cUsage := o_cUsage ob + 1\<rparr>) \<and> calls s' = calls s"
proof -
  have ok: "usages_ok (s_pUsage ss)" by (rule obj_inv_usages[OF inv a(1)])
  with h obtain u where u: "usage_find p (s_pUsage ss) = Some u" using held_eq_0_iff[of "s_pUsage ss" p] by fastforce
  then have um: "u \<in> set (s_pUsage ss)" "u_ref u = p" by (auto dest: usage_find_SomeD)
  with obj_inv_record[OF inv a(1) um(1)] obtain ob where ob: "objs s p = Some ob" and le: "u_cUsage u \<le> o_cUsage ob" by auto
  have mg: "o_u32Magic ob = SUPDRVOBJ_MAGIC" "RT_VALID_PTR p" using inv ob by (auto simp: obj_inv_def)
  have "unat (o_cUsage ob) < 4294967295" using m ob by (auto intro: u32_wrap_bound)
  moreover have "held p (s_pUsage ss) = unat (u_cUsage u)" using held_find[OF ok, of p] u by simp
  ultimately have lt: "held p (s_pUsage ss) < 4294967295" using le by (simp add: word_le_nat_alt)
  let ?us = "usage_inc p (s_pUsage ss)"
  have "\<exists>s'. SUPR0ObjAddRefEx p a True al s = Some (VINF_SUCCESS, s') \<and>
    sessions s' = (sessions s)(a \<mapsto> ss\<lparr>s_pUsage := ?us\<rparr>) \<and>
    objs s' = (objs s)(p \<mapsto> ob\<lparr>o_cUsage := o_cUsage ob + 1\<rparr>) \<and> calls s' = calls s"
    using a ob mg u by (auto simp: SUPR0ObjAddRefEx_def objAddRefLocked_def Let_def split: list.split)
  then obtain s' where s': "SUPR0ObjAddRefEx p a True al s = Some (VINF_SUCCESS, s')"
    "sessions s' = (sessions s)(a \<mapsto> ss\<lparr>s_pUsage := ?us\<rparr>)"
    "objs s' = (objs s)(p \<mapsto> ob\<lparr>o_cUsage := o_cUsage ob + 1\<rparr>)" "calls s' = calls s" by blast
  have "obj_inv s'" by (rule obj_inv_addref[OF s'(1) inv]) (use m in auto)
  moreover have "held q ?us = held q (s_pUsage ss) + (if q = p then 1 else 0)" for q
    using held_inc[OF ok _ lt, of q] u by simp
  ultimately show ?thesis using s' ob by (intro exI[of _ s'] exI[of _ ?us] exI[of _ ob]) simp
qed

lemma release_held:
  assumes inv: "obj_inv s" and a: "sessions s a = Some ss" "SUP_IS_SESSION_VALID a ss" and h: "0 < held p (s_pUsage ss)"
  shows "\<exists>r s' us. SUPR0ObjRelease p a s = Some (r, s') \<and> RT_SUCCESS r \<and> obj_inv s' \<and>
    sessions s' = (sessions s)(a \<mapsto> ss\<lparr>s_pUsage := us\<rparr>) \<and>
    (\<forall>q. held q us + (if q = p then 1 else 0) = held q (s_pUsage ss)) \<and>
    (\<forall>q. map_option obj_sig (objs s' q) = (if q = p \<and> r = VINF_OBJECT_DESTROYED then None else map_option obj_sig (objs s q)))"
proof -
  have ok: "usages_ok (s_pUsage ss)" by (rule obj_inv_usages[OF inv a(1)])
  with h obtain u where u: "usage_find p (s_pUsage ss) = Some u" using held_eq_0_iff[of "s_pUsage ss" p] by fastforce
  then have um: "u \<in> set (s_pUsage ss)" "u_ref u = p" by (auto dest: usage_find_SomeD)
  with obj_inv_record[OF inv a(1) um(1)] obtain ob where ob: "objs s p = Some ob" and nz: "u_cUsage u \<noteq> 0" by auto
  have mg: "o_u32Magic ob = SUPDRVOBJ_MAGIC" "RT_VALID_PTR p" using inv ob by (auto simp: obj_inv_def)
  have hp: "held p (s_pUsage ss) = unat (u_cUsage u)" using held_find[OF ok, of p] u by simp
  let ?us = "if 1 < u_cUsage u then usage_dec p (s_pUsage ss) else usage_unlink p (s_pUsage ss)"
  have "\<exists>r s'. SUPR0ObjRelease p a s = Some (r, s') \<and> RT_SUCCESS r \<and>
    sessions s' = (sessions s)(a \<mapsto> ss\<lparr>s_pUsage := ?us\<rparr>)"
    using a ob mg u by (auto simp: SUPR0ObjRelease_def Let_def)
  then obtain r s' where s': "SUPR0ObjRelease p a s = Some (r, s')" "RT_SUCCESS r"
    "sessions s' = (sessions s)(a \<mapsto> ss\<lparr>s_pUsage := ?us\<rparr>)" by blast
  have "held q ?us + (if q = p then 1 else 0) = held q (s_pUsage ss)" for q
    using held_dec[OF ok, of p q] held_unlink[OF ok, of q p] u hp h u32_one[OF nz] by (auto simp: word_gt_1)
  moreover have "map_option obj_sig (objs s' q) = (if q = p \<and> r = VINF_OBJECT_DESTROYED then None else map_option obj_sig (objs s q))" for q
  proof (cases "r = VINF_OBJECT_DESTROYED")
    case True
    with objRelease_destroyed s'(1) show ?thesis by fastforce
  next
    case False
    with objRelease_kept[OF s'(1)] show ?thesis by (simp add: same_objs_def)
  qed
  moreover have "obj_inv s'" by (rule obj_inv_release[OF s'(1) inv])
  ultimately show ?thesis using s' by (intro exI[of _ r] exI[of _ s'] exI[of _ ?us]) simp
qed

section \<open>The invariant is kept\<close>

lemma held_alive:
  assumes "obj_inv s" "sessions s a = Some ss" "0 < held p (s_pUsage ss)"
  shows "\<exists>ob. objs s p = Some ob"
  using objref.referenced_alive[of "\<lambda>_. 0" s a "s_pUsage ss" p] obj_inv_balanced[OF assms(1)] assms(2,3) by auto

definition types_kept :: "supdrv \<Rightarrow> supdrv \<Rightarrow> bool" where
  "types_kept s s' \<longleftrightarrow> (\<forall>p ob ob'. objs s p = Some ob \<longrightarrow> objs s' p = Some ob' \<longrightarrow> o_enmType ob' = o_enmType ob)"

lemma types_kept_sig:
  assumes "\<And>p. objs s' p \<noteq> None \<Longrightarrow> map_option obj_sig (objs s' p) = map_option obj_sig (objs s p)"
  shows "types_kept s s'"
  unfolding types_kept_def
proof (intro allI impI)
  fix p ob ob' assume "objs s p = Some ob" "objs s' p = Some ob'"
  with assms[of p] have "obj_sig ob' = obj_sig ob" by simp
  then show "o_enmType ob' = o_enmType ob" by (cases ob; cases ob') (simp add: obj_sig_def)
qed

lemma sem_obj_kept: "types_kept s s' \<Longrightarrow> sem_obj k p s \<Longrightarrow> objs s' p \<noteq> None \<Longrightarrow> sem_obj k p s'"
  by (auto simp: sem_obj_def types_kept_def)

text \<open>One session changed: what has to be shown for the invariant.\<close>

lemma sem_inv_step:
  assumes inv: "sem_inv pend s" and a: "sessions s a = Some ss" and inv': "obj_inv s'" and ty: "types_kept s s'"
    and a': "sessions s' = (sessions s)(a \<mapsto> ss')" "SUP_IS_SESSION_VALID a ss'"
    and t': "\<And>t. s_hHandleTable ss' = Some t \<Longrightarrow> ht_inv t"
    and acc: "\<And>p. hcount (sess_handles ss') p + pcount pend' a p \<le> held p (s_pUsage ss')"
    and oth: "\<And>b p. b \<noteq> a \<Longrightarrow> pcount pend' b p = pcount pend b p"
    and hnd: "\<And>h p ctx. sess_handles ss' h = Some (p, ctx) \<Longrightarrow>
        sess_handles ss h = Some (p, ctx) \<or> (\<exists>k. ctx = sem_ctx k \<and> sem_obj k p s')"
    and pnd: "\<And>b p k. (b, p, k) \<in># pend' \<Longrightarrow> (b, p, k) \<in># pend \<or> b = a \<and> sem_obj k p s'"
  shows "sem_inv pend' s'"
proof -
  have old: "sess_sem_ok pend s b sb" if "sessions s b = Some sb" for b sb
    using inv that by (simp add: sem_inv_def)
  have acc': "hcount (sess_handles sb) p + pcount pend' b p \<le> held p (s_pUsage sb)" if "sessions s' b = Some sb" for b sb p
  proof (cases "b = a")
    case True with acc that a'(1) show ?thesis by simp
  next
    case False
    with that a'(1) have "sessions s b = Some sb" by simp
    from old[OF this] oth[OF False] show ?thesis by (simp add: sess_sem_ok_def)
  qed
  have alive: "objs s' p \<noteq> None" if "sessions s' b = Some sb" "0 < hcount (sess_handles sb) p + pcount pend' b p" for b sb p
    using held_alive[OF inv' that(1), of p] acc'[OF that(1), of p] that(2) by auto
  have "sess_sem_ok pend' s' b sb" if b: "sessions s' b = Some sb" for b sb
  proof -
    have v: "SUP_IS_SESSION_VALID b sb" "\<And>t. s_hHandleTable sb = Some t \<Longrightarrow> ht_inv t"
      using b a' t' old by (auto simp: sess_sem_ok_def split: if_splits)
    have "\<exists>k. ctx = sem_ctx k \<and> sem_obj k p s'" if h: "sess_handles sb h = Some (p, ctx)" for h p ctx
    proof -
      have al: "objs s' p \<noteq> None" using alive[OF b, of p] hcount_pos[of "sess_handles sb" h p ctx] h by simp
      obtain sb0 where "sessions s b = Some sb0" and "sess_handles sb0 h = Some (p, ctx) \<or> (\<exists>k. ctx = sem_ctx k \<and> sem_obj k p s')"
        using b a a'(1) h hnd[of h p ctx] by (cases "b = a") auto
      with sess_sem_handle[OF old, of b sb0 h p ctx] sem_obj_kept[OF ty _ al] show ?thesis by blast
    qed
    with v acc'[OF b] show ?thesis by (auto simp: sess_sem_ok_def)
  qed
  moreover have "sessions s' b \<noteq> None \<and> sem_obj k p s'" if "(b, p, k) \<in># pend'" for b p k
  proof -
    from pnd[OF that] have "sessions s b \<noteq> None" and c: "sem_obj k p s \<or> sem_obj k p s'" using inv a by (auto simp: sem_inv_def)
    then obtain sb where b: "sessions s' b = Some sb" using a'(1) by (cases "b = a") auto
    from alive[OF b, of p] pcount_pos[OF that] have "objs s' p \<noteq> None" by simp
    with b c sem_obj_kept[OF ty] show ?thesis by auto
  qed
  ultimately show ?thesis using inv' by (simp add: sem_inv_def)
qed

lemma sem_inv_session:
  "sem_inv pend s \<Longrightarrow> sessions s a = Some ss \<Longrightarrow> sess_sem_ok pend s a ss"
  by (simp add: sem_inv_def)

lemma sem_inv_pend:
  assumes "sem_inv pend s" "(a, p, k) \<in># pend"
  obtains ss where "sessions s a = Some ss" "sem_obj k p s"
  using assms unfolding sem_inv_def by blast

text \<open>No object counter is at its maximum.\<close>

definition counters_ok :: "supdrv \<Rightarrow> bool" where
  "counters_ok s \<longleftrightarrow> (\<forall>p ob. objs s p = Some ob \<longrightarrow> o_cUsage ob \<noteq> - 1)"

lemma counters_okD: "counters_ok s \<Longrightarrow> objs s p = Some ob \<Longrightarrow> o_cUsage ob \<noteq> - 1"
  by (simp add: counters_ok_def)

text \<open>One more reference counted on an object, and nothing else done to the objects.\<close>

definition retained :: "addr \<Rightarrow> supdrv \<Rightarrow> supdrv \<Rightarrow> bool" where
  "retained p s s' \<longleftrightarrow> calls s' = calls s \<and>
     (\<exists>ob. objs s p = Some ob \<and> objs s' = (objs s)(p \<mapsto> ob\<lparr>o_cUsage := o_cUsage ob + 1\<rparr>))"

text \<open>Retaining on behalf of a thread, and releasing what a thread holds.\<close>

lemma sem_retain:
  assumes inv: "sem_inv pend s" and a: "sessions s a = Some ss" and h: "0 < held p (s_pUsage ss)" and k: "sem_obj k p s"
    and m: "counters_ok s"
  shows "\<exists>s' us. supdrvSessionObjHandleRetain a p s = Some (VINF_SUCCESS, s') \<and> sem_inv (add_mset (a, p, k) pend) s' \<and>
    sessions s' = (sessions s)(a \<mapsto> ss\<lparr>s_pUsage := us\<rparr>) \<and> retained p s s'"
proof -
  note ok = sem_inv_session[OF inv a]
  then have v: "SUP_IS_SESSION_VALID a ss" by (simp add: sess_sem_ok_def)
  have oi: "obj_inv s" using inv by (simp add: sem_inv_def)
  have m': "map_option o_cUsage (objs s p) \<noteq> Some (- 1)" using counters_okD[OF m, of p] by (cases "objs s p") auto
  from addref_held[OF oi a v h m'] obtain s' us ob where s': "SUPR0ObjAddRefEx p a True False s = Some (VINF_SUCCESS, s')"
    "obj_inv s'" "sessions s' = (sessions s)(a \<mapsto> ss\<lparr>s_pUsage := us\<rparr>)"
    "\<And>q. held q us = held q (s_pUsage ss) + (if q = p then 1 else 0)" "objs s p = Some ob"
    "objs s' = (objs s)(p \<mapsto> ob\<lparr>o_cUsage := o_cUsage ob + 1\<rparr>)" "calls s' = calls s" by blast
  have ty: "types_kept s s'" using s'(5,6) by (auto simp: types_kept_def)
  have k': "sem_obj k p s'" using k s'(5,6) by (auto simp: sem_obj_def)
  have acc: "hcount (sess_handles ss) q + pcount pend a q \<le> held q (s_pUsage ss)" for q
    using ok by (simp add: sess_sem_ok_def)
  have "sem_inv (add_mset (a, p, k) pend) s'"
  proof (rule sem_inv_step[OF inv a s'(2) ty s'(3)])
    show "SUP_IS_SESSION_VALID a (ss\<lparr>s_pUsage := us\<rparr>)" using v by (simp add: SUP_IS_SESSION_VALID_def)
    show "ht_inv t" if "s_hHandleTable (ss\<lparr>s_pUsage := us\<rparr>) = Some t" for t using ok that by (simp add: sess_sem_ok_def)
    show "hcount (sess_handles (ss\<lparr>s_pUsage := us\<rparr>)) q + pcount (add_mset (a, p, k) pend) a q \<le> held q (s_pUsage (ss\<lparr>s_pUsage := us\<rparr>))" for q
      using acc[of q] s'(4)[of q] by simp
  qed (use k' in auto)
  with s' show ?thesis by (auto simp: supdrvSessionObjHandleRetain_def retained_def)
qed

lemma sem_release:
  assumes inv: "sem_inv pend s" and p: "(a, p, k) \<in># pend"
  shows "\<exists>r s'. SUPR0ObjRelease p a s = Some (r, s') \<and> RT_SUCCESS r \<and> sem_inv (pend - {#(a, p, k)#}) s'"
proof -
  from inv p obtain ss where a: "sessions s a = Some ss" by (rule sem_inv_pend)
  note ok = sem_inv_session[OF inv a]
  then have v: "SUP_IS_SESSION_VALID a ss" by (simp add: sess_sem_ok_def)
  have acc: "hcount (sess_handles ss) q + pcount pend a q \<le> held q (s_pUsage ss)" for q
    using ok by (simp add: sess_sem_ok_def)
  have h: "0 < held p (s_pUsage ss)" using acc[of p] pcount_pos[OF p] by simp
  have oi: "obj_inv s" using inv by (simp add: sem_inv_def)
  from release_held[OF oi a v h] obtain r s' us where s': "SUPR0ObjRelease p a s = Some (r, s')" "RT_SUCCESS r" "obj_inv s'"
    "sessions s' = (sessions s)(a \<mapsto> ss\<lparr>s_pUsage := us\<rparr>)"
    "\<And>q. held q us + (if q = p then 1 else 0) = held q (s_pUsage ss)"
    "\<And>q. map_option obj_sig (objs s' q) = (if q = p \<and> r = VINF_OBJECT_DESTROYED then None else map_option obj_sig (objs s q))"
    by blast
  have ty: "types_kept s s'"
  proof (rule types_kept_sig)
    fix q assume "objs s' q \<noteq> None"
    with s'(6)[of q] show "map_option obj_sig (objs s' q) = map_option obj_sig (objs s q)" by (auto split: if_splits)
  qed
  have "sem_inv (pend - {#(a, p, k)#}) s'"
  proof (rule sem_inv_step[OF inv a s'(3) ty s'(4)])
    show "SUP_IS_SESSION_VALID a (ss\<lparr>s_pUsage := us\<rparr>)" using v by (simp add: SUP_IS_SESSION_VALID_def)
    show "ht_inv t" if "s_hHandleTable (ss\<lparr>s_pUsage := us\<rparr>) = Some t" for t using ok that by (simp add: sess_sem_ok_def)
    show "hcount (sess_handles (ss\<lparr>s_pUsage := us\<rparr>)) q + pcount (pend - {#(a, p, k)#}) a q \<le> held q (s_pUsage (ss\<lparr>s_pUsage := us\<rparr>))" for q
      using acc[of q] s'(5)[of q] pcount_minus[OF p, of a q] by (auto split: if_splits)
    show "pcount (pend - {#(a, p, k)#}) b q = pcount pend b q" if "b \<noteq> a" for b q
      using pcount_minus[OF p, of b q] that by simp
  qed (auto dest: in_diffD)
  with s' show ?thesis by auto
qed

section \<open>The pieces the functions are made of\<close>

text \<open>What a handle of a session leads to, in a given context.\<close>

definition sem_find :: "supdrv \<Rightarrow> addr \<Rightarrow> sem_kind \<Rightarrow> u32 \<Rightarrow> addr option" where
  "sem_find s a k h = (case sessions s a of None \<Rightarrow> None | Some ss \<Rightarrow>
     (case sess_handles ss h of Some (p, ctx) \<Rightarrow> if ctx = sem_ctx k then Some p else None | None \<Rightarrow> None))"

lemma sem_find_held:
  assumes inv: "sem_inv pend s" and f: "sem_find s a k h = Some p"
  obtains ss where "sessions s a = Some ss" "sess_handles ss h = Some (p, sem_ctx k)" "0 < held p (s_pUsage ss)"
    "sem_obj k p s" "p \<noteq> 0"
proof -
  from f obtain ss where a: "sessions s a = Some ss" and h: "sess_handles ss h = Some (p, sem_ctx k)"
    by (auto simp: sem_find_def split: option.splits if_splits)
  note ok = sem_inv_session[OF inv a]
  have "hcount (sess_handles ss) p + pcount pend a p \<le> held p (s_pUsage ss)" using ok by (simp add: sess_sem_ok_def)
  with hcount_pos[of "sess_handles ss" h p "sem_ctx k"] h have "0 < held p (s_pUsage ss)" by simp
  moreover have "sem_obj k p s" by (rule sess_sem_handle_kind[OF ok h])
  moreover have "p \<noteq> 0" using ok h by (auto simp: sess_sem_ok_def sess_handles_def ht_inv_def split: option.splits)
  ultimately show ?thesis using that a h by blast
qed

lemma ht_inv_ok: "ht_inv t \<Longrightarrow> ht_ok t"
  by (simp add: ht_inv_def)

lemma sess_lookup_spec:
  assumes inv: "sem_inv pend s" and a: "sessions s a \<noteq> None"
    and m: "counters_ok s"
  shows "case sem_find s a k h of
      None \<Rightarrow> sess_handle_lookup a h (sem_ctx k) s = Some (0, s)
    | Some p \<Rightarrow> \<exists>s'. sess_handle_lookup a h (sem_ctx k) s = Some (p, s') \<and> p \<noteq> 0 \<and> sem_inv (add_mset (a, p, k) pend) s' \<and>
        retained p s s'"
proof -
  from a obtain ss where ss: "sessions s a = Some ss" by auto
  note ok = sem_inv_session[OF inv ss]
  show ?thesis
  proof (cases "s_hHandleTable ss")
    case None
    with ss show ?thesis by (simp add: sess_handle_lookup_def sem_find_def sess_handles_def)
  next
    case (Some t)
    with ok have t: "ht_ok t" by (simp add: sess_sem_ok_def ht_inv_def)
    show ?thesis
    proof (cases "sem_find s a k h")
      case None
      with Some ss show ?thesis
        by (auto simp: sess_handle_lookup_def sem_find_def sess_handles_def lookup_spec[OF t] split: option.splits if_splits)
    next
      case (Some p)
      with inv obtain ss1 where f: "sessions s a = Some ss1" "sess_handles ss1 h = Some (p, sem_ctx k)"
        "0 < held p (s_pUsage ss1)" "sem_obj k p s" "p \<noteq> 0" by (rule sem_find_held)
      from sem_retain[OF inv f(1,3,4) m] obtain s' us where
        r: "supdrvSessionObjHandleRetain a p s = Some (VINF_SUCCESS, s')" "sem_inv (add_mset (a, p, k) pend) s'" "retained p s s'"
        by blast
      have "ht_map t h = Some (p, sem_ctx k)" using f(1,2) ss \<open>s_hHandleTable ss = Some t\<close> by (simp add: sess_handles_def)
      with r f(5) Some ss \<open>s_hHandleTable ss = Some t\<close> show ?thesis
        by (simp add: sess_handle_lookup_def lookup_spec[OF t])
    qed
  qed
qed

text \<open>Replacing the handle table of a session by one with the same or fewer handles.\<close>

lemma sem_inv_table:
  assumes inv: "sem_inv pend s" and a: "sessions s a = Some ss" and t': "ht_inv t'"
    and m: "ht_map t' = (sess_handles ss)(h := None)" and h: "sess_handles ss h = Some (p, sem_ctx k)"
  shows "sem_inv (add_mset (a, p, k) pend) (put_session a (ss\<lparr>s_hHandleTable := Some t'\<rparr>) s)"
proof -
  note ok = sem_inv_session[OF inv a]
  have oi: "obj_inv s" using inv by (simp add: sem_inv_def)
  have acc: "hcount (sess_handles ss) q + pcount pend a q \<le> held q (s_pUsage ss)" for q
    using ok by (simp add: sess_sem_ok_def)
  have k: "sem_obj k p s" by (rule sess_sem_handle_kind[OF ok h])
  let ?s = "put_session a (ss\<lparr>s_hHandleTable := Some t'\<rparr>) s"
  have oi': "obj_inv ?s"
  proof -
    have "obj_acct ?s = obj_acct s" using a by (auto simp: obj_acct_def)
    with oi show ?thesis by (simp add: obj_inv_def)
  qed
  have ty: "types_kept s ?s" by (simp add: types_kept_def)
  show ?thesis
  proof (rule sem_inv_step[OF inv a oi' ty])
    show "sessions ?s = (sessions s)(a \<mapsto> ss\<lparr>s_hHandleTable := Some t'\<rparr>)" by simp
    show "SUP_IS_SESSION_VALID a (ss\<lparr>s_hHandleTable := Some t'\<rparr>)" using ok by (simp add: sess_sem_ok_def SUP_IS_SESSION_VALID_def)
    show "ht_inv t" if "s_hHandleTable (ss\<lparr>s_hHandleTable := Some t'\<rparr>) = Some t" for t using that t' by simp
    show "hcount (sess_handles (ss\<lparr>s_hHandleTable := Some t'\<rparr>)) q + pcount (add_mset (a, p, k) pend) a q
        \<le> held q (s_pUsage (ss\<lparr>s_hHandleTable := Some t'\<rparr>))" for q
      using acc[of q] hcount_del[of "sess_handles ss" h p "sem_ctx k" q] h m by (auto split: if_splits)
    show "sess_handles ss h' = Some (q, ctx) \<or> (\<exists>k. ctx = sem_ctx k \<and> sem_obj k q ?s)"
      if "sess_handles (ss\<lparr>s_hHandleTable := Some t'\<rparr>) h' = Some (q, ctx)" for h' q ctx
      using that m by (auto split: if_splits)
    have "sem_obj k p ?s" using k by (simp add: sem_obj_def)
    then show "(b, q, k') \<in># pend \<or> b = a \<and> sem_obj k' q ?s" if "(b, q, k') \<in># add_mset (a, p, k) pend" for b q k'
      using that by auto
  qed auto
qed

lemma sess_free_spec:
  assumes inv: "sem_inv pend s" and a: "sessions s a \<noteq> None"
    and m: "counters_ok s"
  shows "case sem_find s a k h of
      None \<Rightarrow> sess_handle_free a h (sem_ctx k) s = Some (0, s)
    | Some p \<Rightarrow> \<exists>s'. sess_handle_free a h (sem_ctx k) s = Some (p, s') \<and> p \<noteq> 0 \<and>
        sem_inv (add_mset (a, p, k) (add_mset (a, p, k) pend)) s' \<and> retained p s s' \<and> sem_find s' a k h = None"
proof -
  from a obtain ss where ss: "sessions s a = Some ss" by auto
  note ok = sem_inv_session[OF inv ss]
  have same: "put_session a (ss\<lparr>s_hHandleTable := s_hHandleTable ss\<rparr>) s = s"
    using ss by (simp add: put_session_def fun_upd_idem)
  show ?thesis
  proof (cases "s_hHandleTable ss")
    case None
    with ss show ?thesis by (simp add: sess_handle_free_def sem_find_def sess_handles_def)
  next
    case t: (Some t)
    with ok have okt: "ht_ok t" and invt: "ht_inv t" by (auto simp: sess_sem_ok_def ht_inv_def)
    have mp: "sess_handles ss = ht_map t" using t by (simp add: sess_handles_def)
    note f = free_spec[OF okt, where h = h and ctx = "sem_ctx k" and retain = "supdrvSessionObjHandleRetain a" and s = s]
    show ?thesis
    proof (cases "sem_find s a k h")
      case None
      then have "RTHandleTableFreeWithCtx (supdrvSessionObjHandleRetain a) h (sem_ctx k) t s = Some (0, t, s)"
        using f ss mp by (auto simp: sem_find_def split: option.splits if_splits)
      with None t ss same show ?thesis by (simp add: sess_handle_free_def)
    next
      case (Some p)
      with inv obtain ss1 where g: "sessions s a = Some ss1" "sess_handles ss1 h = Some (p, sem_ctx k)"
        "0 < held p (s_pUsage ss1)" "sem_obj k p s" "p \<noteq> 0" by (rule sem_find_held)
      from sem_retain[OF inv g(1,3,4) m] ss g(1) obtain s' us where
        r: "supdrvSessionObjHandleRetain a p s = Some (VINF_SUCCESS, s')" "sem_inv (add_mset (a, p, k) pend) s'"
          "sessions s' = (sessions s)(a \<mapsto> ss\<lparr>s_pUsage := us\<rparr>)" "retained p s s'" by auto
      have hm: "ht_map t h = Some (p, sem_ctx k)" using g ss mp by simp
      with f r(1) g(5) obtain t' where t': "ht_ok t'" "ht_map t' = (ht_map t)(h := None)"
        "RTHandleTableFreeWithCtx (supdrvSessionObjHandleRetain a) h (sem_ctx k) t s = Some (p, t', s')" by auto
      have it: "ht_inv t'" using t'(1,2) invt by (auto simp: ht_inv_def)
      let ?ss = "ss\<lparr>s_pUsage := us\<rparr>"
      have s'a: "sessions s' a = Some ?ss" using r(3) by simp
      have "sem_inv (add_mset (a, p, k) (add_mset (a, p, k) pend)) (put_session a (?ss\<lparr>s_hHandleTable := Some t'\<rparr>) s')"
        by (rule sem_inv_table[OF r(2) s'a it]) (use t'(2) hm mp in simp_all)
      moreover have "sess_handle_free a h (sem_ctx k) s = Some (p, put_session a (?ss\<lparr>s_hHandleTable := Some t'\<rparr>) s')"
        using ss t t'(3) s'a by (simp add: sess_handle_free_def)
      moreover have "sem_find (put_session a (?ss\<lparr>s_hHandleTable := Some t'\<rparr>) s') a k h = None"
        using t'(2) by (simp add: sem_find_def)
      ultimately show ?thesis using Some g(5) r(4) by (simp add: retained_def)
    qed
  qed
qed

lemma sem_register:
  assumes inv: "sem_inv pend s" and f: "fresh_obj p s"
    and r: "SUPR0ObjRegister a (sem_type k) d u1 u2 p al s = Some (r, s')" and nz: "r \<noteq> 0"
  shows "r = p \<and> RT_VALID_PTR p \<and> sem_inv (add_mset (a, p, k) pend) s' \<and> calls s' = calls s \<and>
    (\<exists>ob. objs s' p = Some ob \<and> o_pvUser1 ob = u1 \<and> o_pvUser2 ob = u2 \<and> o_pfnDestructor ob = d) \<and>
    (\<exists>ss us. sessions s a = Some ss \<and> sessions s' = (sessions s)(a \<mapsto> ss\<lparr>s_pUsage := us\<rparr>))"
proof -
  from r nz obtain ss ob where a: "sessions s a = Some ss" and rp: "r = p" and pn: "p \<noteq> 0"
    and s': "sessions s' = (sessions s)(a \<mapsto> ss\<lparr>s_pUsage := \<lparr>u_ref = p, u_cUsage = 1\<rparr> # s_pUsage ss\<rparr>)"
    and ob: "objs s' = (objs s)(p \<mapsto> ob)" "o_enmType ob = sem_type k" "o_pvUser1 ob = u1" "o_pvUser2 ob = u2" "o_pfnDestructor ob = d"
    and c: "calls s' = calls s"
    by (auto simp: SUPR0ObjRegister_def objInsert_def Let_def
        split: Option.bind_splits option.splits if_splits list.splits)
  from f pn have fr: "RT_VALID_PTR p" "objs s p = None" by (auto simp: fresh_obj_def)
  note ok = sem_inv_session[OF inv a]
  have oi: "obj_inv s" using inv by (simp add: sem_inv_def)
  have oi': "obj_inv s'" by (rule obj_inv_register[OF r f oi])
  have h0: "held p (s_pUsage ss) = 0" using held_alive[OF oi a, of p] fr(2) by auto
  have acc: "hcount (sess_handles ss) q + pcount pend a q \<le> held q (s_pUsage ss)" for q
    using ok by (simp add: sess_sem_ok_def)
  have ty: "types_kept s s'" using fr(2) ob(1) by (auto simp: types_kept_def)
  have "sem_inv (add_mset (a, p, k) pend) s'"
  proof (rule sem_inv_step[OF inv a oi' ty s'])
    show "SUP_IS_SESSION_VALID a (ss\<lparr>s_pUsage := \<lparr>u_ref = p, u_cUsage = 1\<rparr> # s_pUsage ss\<rparr>)"
      using ok by (simp add: sess_sem_ok_def SUP_IS_SESSION_VALID_def)
    show "ht_inv t" if "s_hHandleTable (ss\<lparr>s_pUsage := \<lparr>u_ref = p, u_cUsage = 1\<rparr> # s_pUsage ss\<rparr>) = Some t" for t
      using ok that by (simp add: sess_sem_ok_def)
    show "hcount (sess_handles (ss\<lparr>s_pUsage := \<lparr>u_ref = p, u_cUsage = 1\<rparr> # s_pUsage ss\<rparr>)) q + pcount (add_mset (a, p, k) pend) a q
        \<le> held q (s_pUsage (ss\<lparr>s_pUsage := \<lparr>u_ref = p, u_cUsage = 1\<rparr> # s_pUsage ss\<rparr>))" for q
      using acc[of q] h0 by auto
    have "sem_obj k p s'" using ob by (simp add: sem_obj_def)
    then show "(b, q, k') \<in># pend \<or> b = a \<and> sem_obj k' q s'" if "(b, q, k') \<in># add_mset (a, p, k) pend" for b q k'
      using that by auto
  qed auto
  with rp fr(1) c ob a s' show ?thesis by auto
qed

lemma sess_alloc_spec:
  assumes inv: "sem_inv pend s" and p: "(a, p, k) \<in># pend" and al: "\<not> RTHT_IS_FREE p" "p \<noteq> 0"
  shows "\<exists>r h s'. sess_handle_alloc a p (sem_ctx k) fL fT s = Some ((r, h), s') \<and> calls s' = calls s \<and>
    (if RT_SUCCESS r then sem_inv (pend - {#(a, p, k)#}) s' \<and> (\<forall>k'. sem_find s a k' h = None) \<and> sem_find s' a k h = Some p \<and>
       objs s' = objs s else s' = s)"
proof -
  from inv p obtain ss where a: "sessions s a = Some ss" and k: "sem_obj k p s" by (rule sem_inv_pend)
  note ok = sem_inv_session[OF inv a]
  show ?thesis
  proof (cases "s_hHandleTable ss")
    case None
    with a show ?thesis by (simp add: sess_handle_alloc_def)
  next
    case t: (Some t)
    with ok have it: "ht_inv t" by (simp add: sess_sem_ok_def)
    have mp: "sess_handles ss = ht_map t" using t by (simp add: sess_handles_def)
    from alloc_spec[OF ht_inv_ok[OF it] al(1), of "sem_ctx k" fL fT] obtain r h t' where
      e: "RTHandleTableAllocWithCtx p (sem_ctx k) fL fT t = Some ((r, h), t')" "ht_ok t'" and
      c: "r = VINF_SUCCESS \<and> ht_map t h = None \<and> ht_map t' = (ht_map t)(h \<mapsto> (p, sem_ctx k)) \<or> RT_FAILURE r \<and> t' = t"
      by auto
    let ?ss = "ss\<lparr>s_hHandleTable := Some t'\<rparr>"
    let ?s = "put_session a ?ss s"
    have eq: "sess_handle_alloc a p (sem_ctx k) fL fT s = Some ((r, h), ?s)"
      using a t e by (simp add: sess_handle_alloc_def)
    show ?thesis
    proof (cases "RT_SUCCESS r")
      case False
      with c have "t' = t" by auto
      then have "?s = s" using a t by (simp add: put_session_def fun_upd_idem)
      with eq False show ?thesis by auto
    next
      case True
      with c have m: "ht_map t h = None" "ht_map t' = (ht_map t)(h \<mapsto> (p, sem_ctx k))" by auto
      have it': "ht_inv t'" using e(2) m it al(2) by (auto simp: ht_inv_def split: if_splits)
      have oi: "obj_inv s" using inv by (simp add: sem_inv_def)
      have acc: "hcount (sess_handles ss) q + pcount pend a q \<le> held q (s_pUsage ss)" for q
        using ok by (simp add: sess_sem_ok_def)
      have oi': "obj_inv ?s"
      proof -
        have "obj_acct ?s = obj_acct s" using a by (auto simp: obj_acct_def)
        with oi show ?thesis by (simp add: obj_inv_def)
      qed
      have "sem_inv (pend - {#(a, p, k)#}) ?s"
      proof (rule sem_inv_step[OF inv a oi'])
        show "types_kept s ?s" by (simp add: types_kept_def)
        show "sessions ?s = (sessions s)(a \<mapsto> ?ss)" by simp
        show "SUP_IS_SESSION_VALID a ?ss" using ok by (simp add: sess_sem_ok_def SUP_IS_SESSION_VALID_def)
        show "ht_inv x" if "s_hHandleTable ?ss = Some x" for x using that it' by simp
        show "hcount (sess_handles ?ss) q + pcount (pend - {#(a, p, k)#}) a q \<le> held q (s_pUsage ?ss)" for q
          using acc[of q] hcount_put[of "ht_map t" h p "sem_ctx k" q] m pcount_minus[OF p, of a q]
          by (simp add: mp split: if_splits)
        show "pcount (pend - {#(a, p, k)#}) b q = pcount pend b q" if "b \<noteq> a" for b q
          using pcount_minus[OF p, of b q] that by simp
        have "sem_obj k p ?s" using k by (simp add: sem_obj_def)
        then show "sess_handles ss h' = Some (q, ctx) \<or> (\<exists>k. ctx = sem_ctx k \<and> sem_obj k q ?s)"
          if "sess_handles ?ss h' = Some (q, ctx)" for h' q ctx
          using that m(2) mp by (auto split: if_splits)
      qed (auto dest: in_diffD)
      moreover have "sem_find s a k' h = None" for k' using a m(1) mp by (simp add: sem_find_def)
      moreover have "sem_find ?s a k h = Some p" using m(2) by (simp add: sem_find_def)
      ultimately show ?thesis using eq True by auto
    qed
  qed
qed

section \<open>Creating, using, closing\<close>

lemma register_then_release:
  assumes r: "SUPR0ObjRegister a ty d u1 u2 p al s = Some (p, s1)" and nz: "p \<noteq> 0" and f: "fresh_obj p s"
  shows "\<exists>s3. SUPR0ObjRelease p a s1 = Some (VINF_OBJECT_DESTROYED, s3) \<and>
    calls s3 = calls s @ [Call_Destructor d p u1 u2] \<and> objs s3 = objs s \<and> sessions s3 = sessions s"
proof -
  from f nz have fr: "objs s p = None" "RT_VALID_PTR p" by (auto simp: fresh_obj_def)
  have h: "(objs s)(p := None) = objs s" using fr(1) by auto
  from r obtain ss where ss: "sessions s a = Some ss" by (auto simp: SUPR0ObjRegister_def split: Option.bind_splits)
  have d: "d \<noteq> 0" using r nz ss by (auto simp: SUPR0ObjRegister_def split: if_splits)
  have m: "(sessions s)(a \<mapsto> ss) = sessions s" using ss by auto
  show ?thesis using r nz ss d fr h m
    by (auto simp: SUPR0ObjRegister_def objInsert_def Let_def SUPR0ObjRelease_def SUP_IS_SESSION_VALID_def objDestroy_calls
        split: if_splits list.splits)
qed

lemma sem_create_spec:
  assumes inv: "sem_inv pend s" and a: "sessions s a \<noteq> None" and f: "fresh_obj (se_pNew env) s" and al: "\<not> RTHT_IS_FREE (se_pNew env)"
  shows "\<exists>r oh s'. sem_create k a ph env s = Some ((r, oh), s') \<and> sem_inv pend s' \<and>
    (case oh of
       Some h \<Rightarrow> r = VINF_SUCCESS \<and> (\<forall>k'. sem_find s a k' h = None) \<and> sem_find s' a k h = Some (se_pNew env) \<and> calls s' = calls s \<and>
         (\<exists>ob. objs s' (se_pNew env) = Some ob \<and> o_pvUser1 ob = se_hReal env \<and> o_pvUser2 ob = 0 \<and> o_pfnDestructor ob = se_pfnDestructor env)
     | None \<Rightarrow> objs s' = objs s \<and> sessions s' = sessions s \<and>
         (calls s' = calls s @ (if RT_FAILURE (se_rc env) then []
            else if RT_VALID_PTR (se_pfnDestructor env) \<and> se_pNew env \<noteq> 0 \<and> (d_pUsageFree (devext s) \<noteq> [] \<or> se_fUsage env)
            then [Call_Destructor (se_pfnDestructor env) (se_pNew env) (se_hReal env) 0]
            else [Call_Sem k SemDestroy (se_hReal env)]) \<or> \<not> RT_VALID_PTR ph \<and> calls s' = calls s))"
proof -
  let ?p = "se_pNew env"
  from a obtain ss where ss: "sessions s a = Some ss" by auto
  have v: "SUP_IS_SESSION_VALID a ss" using sem_inv_session[OF inv ss] by (simp add: sess_sem_ok_def)
  show ?thesis
  proof (cases "RT_VALID_PTR ph \<and> \<not> RT_FAILURE (se_rc env)")
    case False
    with ss v inv show ?thesis by (auto simp: sem_create_def)
  next
    case True
    then have ok: "RT_VALID_PTR ph" "\<not> RT_FAILURE (se_rc env)" by auto
    from objRegister_no_fault[OF a] obtain q s1 where
      r: "SUPR0ObjRegister a (sem_type k) (se_pfnDestructor env) (se_hReal env) 0 ?p (se_fUsage env) s = Some (q, s1)" by blast
    show ?thesis
    proof (cases "q = 0")
      case q0: True
      have s1: "s1 = s" using r q0 objRegister_fail by blast
      have c: "\<not> (RT_VALID_PTR (se_pfnDestructor env) \<and> ?p \<noteq> 0 \<and> (d_pUsageFree (devext s) \<noteq> [] \<or> se_fUsage env))"
        using r q0 ss v by (cases k) (auto simp: SUPR0ObjRegister_def objInsert_def Let_def split: if_splits list.splits)
      have cr: "sem_create k a ph env s = Some ((se_rc env, None), log_call (Call_Sem k SemDestroy (se_hReal env)) s)"
        using ss v ok r q0 s1 by (simp add: sem_create_def)
      have "sem_inv pend (log_call (Call_Sem k SemDestroy (se_hReal env)) s)"
        using inv by (simp add: sem_inv_def obj_inv_def obj_acct_def sess_sem_ok_def sem_obj_def)
      with cr c ok show ?thesis by auto
    next
      case False
      from sem_register[OF inv f r False] have q: "q = ?p" and inv1: "sem_inv (add_mset (a, ?p, k) pend) s1" and c1: "calls s1 = calls s"
        and o1: "\<exists>ob. objs s1 ?p = Some ob \<and> o_pvUser1 ob = se_hReal env \<and> o_pvUser2 ob = 0 \<and> o_pfnDestructor ob = se_pfnDestructor env"
        and t1: "\<exists>ss us. sessions s a = Some ss \<and> sessions s1 = (sessions s)(a \<mapsto> ss\<lparr>s_pUsage := us\<rparr>)" by auto
      have find1: "sem_find s1 a k' h = sem_find s a k' h" for k' h using t1 by (auto simp: sem_find_def)
      have in1: "(a, ?p, k) \<in># add_mset (a, ?p, k) pend" by simp
      have p0: "?p \<noteq> 0" using q False by simp
      from sess_alloc_spec[OF inv1 in1 al p0, where fL = "se_fLevel1 env" and fT = "se_fTable env"]
      obtain rc h s2 where h: "sess_handle_alloc a ?p (sem_ctx k) (se_fLevel1 env) (se_fTable env) s1 = Some ((rc, h), s2)"
        "calls s2 = calls s1" "if RT_SUCCESS rc then sem_inv pend s2 \<and> (\<forall>k'. sem_find s1 a k' h = None) \<and> sem_find s2 a k h = Some ?p \<and>
          objs s2 = objs s1 else s2 = s1" unfolding add_mset_remove_trivial by blast
      show ?thesis
      proof (cases "RT_SUCCESS rc")
        case True
        then have "sem_create k a ph env s = Some ((VINF_SUCCESS, Some h), s2)"
          using ss v ok r q False h(1) by (simp add: sem_create_def)
        with True h(2,3) c1 o1 find1 show ?thesis by auto
      next
        case fl: False
        from register_then_release[OF r[unfolded q] _ f] False q obtain s3 where
          s3: "SUPR0ObjRelease ?p a s1 = Some (VINF_OBJECT_DESTROYED, s3)"
          "calls s3 = calls s @ [Call_Destructor (se_pfnDestructor env) ?p (se_hReal env) 0]" "objs s3 = objs s" "sessions s3 = sessions s"
          by auto
        from sem_release[OF inv1, of a ?p k] s3(1) have "sem_inv pend s3" by auto
        moreover have "sem_create k a ph env s = Some ((rc, None), s3)"
          using ss v ok r q False h(1,3) fl s3(1) by (simp add: sem_create_def)
        moreover have "RT_VALID_PTR (se_pfnDestructor env) \<and> ?p \<noteq> 0 \<and> (d_pUsageFree (devext s) \<noteq> [] \<or> se_fUsage env)"
          using r False ss v by (auto simp: SUPR0ObjRegister_def objInsert_def Let_def split: if_splits list.splits)
        ultimately show ?thesis using s3 ok by auto
      qed
    qed
  qed
qed

lemma sem_do_inv: "sem_inv pend s \<Longrightarrow> sem_inv pend (log_call c s)"
  by (simp add: sem_inv_def obj_inv_def obj_acct_def sess_sem_ok_def sem_obj_def)

lemma sem_lookup_spec:
  assumes inv: "sem_inv pend s" and a: "sessions s a \<noteq> None"
    and m: "counters_ok s"
  shows "case (if ucast (ucast hE :: u32) = hE then sem_find s a k (ucast hE) else None) of
      None \<Rightarrow> sem_lookup k a hE s = Some ((VERR_INVALID_HANDLE, 0), s)
    | Some p \<Rightarrow> \<exists>s'. sem_lookup k a hE s = Some ((VINF_SUCCESS, p), s') \<and> p \<noteq> 0 \<and> sem_inv (add_mset (a, p, k) pend) s' \<and>
        retained p s s'"
proof -
  from a obtain ss where ss: "sessions s a = Some ss" by auto
  have v: "SUP_IS_SESSION_VALID a ss" using sem_inv_session[OF inv ss] by (simp add: sess_sem_ok_def)
  from sess_lookup_spec[OF inv a m, where k = k and h = "ucast hE"] ss v show ?thesis
    by (auto simp: sem_lookup_def split: option.splits)
qed

lemma sem_close_begin_spec:
  assumes inv: "sem_inv pend s" and a: "sessions s a \<noteq> None"
    and m: "counters_ok s"
  shows "case (if hE \<noteq> 0 \<and> ucast (ucast hE :: u32) = hE then sem_find s a k (ucast hE) else None) of
      None \<Rightarrow> sem_close_begin k a hE s = Some ((if hE = 0 then VINF_SUCCESS else VERR_INVALID_HANDLE, 0), s)
    | Some p \<Rightarrow> \<exists>s'. sem_close_begin k a hE s = Some ((VINF_SUCCESS, p), s') \<and> p \<noteq> 0 \<and>
        sem_inv (add_mset (a, p, k) (add_mset (a, p, k) pend)) s' \<and> retained p s s' \<and> sem_find s' a k (ucast hE) = None"
proof -
  from a obtain ss where ss: "sessions s a = Some ss" by auto
  have v: "SUP_IS_SESSION_VALID a ss" using sem_inv_session[OF inv ss] by (simp add: sess_sem_ok_def)
  from sess_free_spec[OF inv a m, where k = k and h = "ucast hE"] ss v show ?thesis
    by (auto simp: sem_close_begin_def split: option.splits)
qed

section \<open>Interleaved use\<close>

text \<open>
  Threads in the semaphore functions at the same time, cut where other threads can run: between
  finding the object, the IPRT function (which may block), and giving the reference back.
\<close>

datatype sem_sec =
    QCreate sem_kind addr addr semenv
  | QLookup sem_kind addr u64             \<comment> \<open>signal, reset and wait: the start\<close>
  | QCall sem_kind addr addr sem_call     \<comment> \<open>the IPRT function on an object that was looked up\<close>
  | QClose sem_kind addr u64              \<comment> \<open>close: take the handle away; two references to give back\<close>
  | QRelease sem_kind addr addr

fun sem_sec_step :: "sem_sec \<Rightarrow> pending \<times> supdrv \<Rightarrow> (pending \<times> supdrv) option" where
  "sem_sec_step (QCreate k a ph env) (pend, s) = map_option (\<lambda>(_, s'). (pend, s')) (sem_create k a ph env s)"
| "sem_sec_step (QLookup k a hE) (pend, s) =
     map_option (\<lambda>((rc, p), s'). (if p = 0 then pend else add_mset (a, p, k) pend, s')) (sem_lookup k a hE s)"
| "sem_sec_step (QCall k a p c) (pend, s) = map_option (Pair pend) (sem_do k c p s)"
| "sem_sec_step (QClose k a hE) (pend, s) =
     map_option (\<lambda>((rc, p), s'). (if p = 0 then pend else add_mset (a, p, k) (add_mset (a, p, k) pend), s')) (sem_close_begin k a hE s)"
| "sem_sec_step (QRelease k a p) (pend, s) = map_option (\<lambda>(_, s'). (pend - {#(a, p, k)#}, s')) (SUPR0ObjRelease p a s)"

text \<open>
  What is owed: an open session, fresh and aligned heap blocks, counters below their maximum before
  they are incremented; and a thread only uses and releases objects it has looked up.
\<close>

fun sem_sec_ok :: "sem_sec \<Rightarrow> pending \<times> supdrv \<Rightarrow> bool" where
  "sem_sec_ok (QCreate k a ph env) (pend, s) \<longleftrightarrow> sessions s a \<noteq> None \<and> fresh_obj (se_pNew env) s \<and> \<not> RTHT_IS_FREE (se_pNew env)"
| "sem_sec_ok (QLookup k a hE) (pend, s) \<longleftrightarrow> sessions s a \<noteq> None \<and> counters_ok s"
| "sem_sec_ok (QCall k a p c) (pend, s) \<longleftrightarrow> (a, p, k) \<in># pend"
| "sem_sec_ok (QClose k a hE) (pend, s) \<longleftrightarrow> sessions s a \<noteq> None \<and> counters_ok s"
| "sem_sec_ok (QRelease k a p) (pend, s) \<longleftrightarrow> (a, p, k) \<in># pend"

lemma sem_sec_safe:
  assumes inv: "sem_inv (fst st) (snd st)" and ok: "sem_sec_ok sec st"
  shows "\<exists>st'. sem_sec_step sec st = Some st' \<and> sem_inv (fst st') (snd st')"
proof -
  obtain pend s where st: "st = (pend, s)" by fastforce
  with inv have i: "sem_inv pend s" by simp
  show ?thesis
  proof (cases sec)
    case (QCreate k a ph env)
    with ok st sem_create_spec[OF i, of a env k ph] show ?thesis by auto
  next
    case (QLookup k a hE)
    with ok st have a: "sessions s a \<noteq> None" and m: "counters_ok s" by auto
    from sem_lookup_spec[OF i a m, where hE = hE and k = k] QLookup st i show ?thesis by (auto split: option.splits if_splits)
  next
    case (QCall k a p c)
    with ok st have "(a, p, k) \<in># pend" by simp
    with i obtain ss where "sem_obj k p s" by (rule sem_inv_pend)
    with QCall st sem_do_inv[OF i] show ?thesis by (auto simp: sem_obj_def sem_do_def)
  next
    case (QClose k a hE)
    with ok st have a: "sessions s a \<noteq> None" and m: "counters_ok s" by auto
    from sem_close_begin_spec[OF i a m, where hE = hE and k = k] QClose st i show ?thesis by (auto split: option.splits if_splits)
  next
    case (QRelease k a p)
    with ok st have "(a, p, k) \<in># pend" by simp
    from sem_release[OF i this] QRelease st show ?thesis by auto
  qed
qed

interpretation semapi: guarded_api sem_sec_step sem_sec_ok "\<lambda>st. sem_inv (fst st) (snd st)"
  by unfold_locales (rule sem_sec_safe)

section \<open>The last reference\<close>

lemma release_counter:
  assumes inv: "obj_inv s" and rel: "SUPR0ObjRelease p a s = Some (r, s')" and ok: "RT_SUCCESS r" and ob: "objs s p = Some ob"
  shows "if o_cUsage ob = 1
    then r = VINF_OBJECT_DESTROYED \<and> objs s' p = None \<and> calls s' = calls s @ (if o_pfnDestructor ob \<noteq> 0
      then [Call_Destructor (o_pfnDestructor ob) p (o_pvUser1 ob) (o_pvUser2 ob)] else [])
    else r = VINF_SUCCESS \<and> objs s' p = Some (ob\<lparr>o_cUsage := o_cUsage ob - 1\<rparr>) \<and> calls s' = calls s"
proof -
  have bal: "balanced (obj_acct s)" by (rule obj_inv_balanced[OF inv])
  have rl: "objRelease a p s = Some s'" using rel ok by (simp add: objRelease_def)
  have t: "total_held (snd (obj_acct s)) p = unat (o_cUsage ob)" using bal ob
    by (auto simp: balanced_def counted_def dest!: spec[of _ p])
  have last: "objs s' p = None \<longleftrightarrow> unat (o_cUsage ob) = 1"
    using objref.release_destroys_iff_last[OF rl bal] t by simp
  have one: "unat (o_cUsage ob) = 1 \<longleftrightarrow> o_cUsage ob = 1" by (metis unat_1 word_unat_eq_iff)
  show ?thesis
  proof (cases "r = VINF_OBJECT_DESTROYED")
    case True
    from objRelease_destroyed[OF rel[unfolded True]] ob last one True show ?thesis by auto
  next
    case False
    then have same: "same_objs s s'" and r: "r = VINF_SUCCESS" using objRelease_kept[OF rel] ok by auto
    then have "objs s' p \<noteq> None" using ob same_objs_dom[OF same] by auto
    then have n: "o_cUsage ob \<noteq> 1" using last one by simp
    have "objs s' p = Some (ob\<lparr>o_cUsage := o_cUsage ob - 1\<rparr>)"
      using rel False ok ob by (auto simp: SUPR0ObjRelease_def Let_def split: Option.bind_splits option.splits if_splits)
    with n r same show ?thesis by (simp add: same_objs_def)
  qed
qed

lemma obj_counter_pos: "obj_inv s \<Longrightarrow> objs s p = Some ob \<Longrightarrow> o_cUsage ob \<noteq> 0"
  using obj_inv_balanced[of s] by (auto simp: balanced_def dest!: spec[of _ p])

text \<open>Giving back the reference a lookup took, which cannot be the last one.\<close>

lemma release_retained:
  assumes inv: "obj_inv s1" and r: "retained p s s1" and ob: "objs s p = Some ob" "o_cUsage ob \<noteq> 0"
    and rel: "SUPR0ObjRelease p a s2 = Some (rc, s3)" "RT_SUCCESS rc"
    and s2: "objs s2 = objs s1" "obj_inv s2"
  shows "rc = VINF_SUCCESS \<and> objs s3 p = Some ob \<and> calls s3 = calls s2"
proof -
  let ?ob = "ob\<lparr>o_cUsage := o_cUsage ob + 1\<rparr>"
  have o: "objs s2 p = Some ?ob" using r ob(1) s2(1) by (auto simp: retained_def)
  have "o_cUsage ?ob \<noteq> 1" using ob(2) by simp
  with release_counter[OF s2(2) rel o] show ?thesis by simp
qed

lemma sem_find_release:
  assumes "SUPR0ObjRelease p a s = Some (r, s')"
  shows "sem_find s' b k h = sem_find s b k h"
  using assms by (auto simp: SUPR0ObjRelease_def Let_def sem_find_def
      split: Option.bind_splits option.splits if_splits)

lemma sem_close_spec:
  assumes inv: "sem_inv pend s" and f: "sem_find s a k (ucast hE) = Some p" and hE: "hE \<noteq> 0" "ucast (ucast hE :: u32) = hE"
    and m: "counters_ok s" and ob: "objs s p = Some ob"
  shows "\<exists>r s'. sem_close k a hE s = Some (r, s') \<and> sem_inv pend s' \<and> sem_find s' a k (ucast hE) = None \<and>
    (if o_cUsage ob = 1
     then r = VINF_OBJECT_DESTROYED \<and> objs s' p = None \<and> calls s' = calls s @ (if o_pfnDestructor ob \<noteq> 0
       then [Call_Destructor (o_pfnDestructor ob) p (o_pvUser1 ob) (o_pvUser2 ob)] else [])
     else r = VINF_SUCCESS \<and> objs s' p = Some (ob\<lparr>o_cUsage := o_cUsage ob - 1\<rparr>) \<and> calls s' = calls s)"
proof -
  from inv f have a: "sessions s a \<noteq> None" by (rule sem_find_held) simp
  from sem_close_begin_spec[OF inv a m, where hE = hE and k = k] hE f obtain s1 where
    b: "sem_close_begin k a hE s = Some ((VINF_SUCCESS, p), s1)" "p \<noteq> 0" "retained p s s1" "sem_find s1 a k (ucast hE) = None"
    and i1: "sem_inv (add_mset (a, p, k) (add_mset (a, p, k) pend)) s1" by auto
  from sem_release[OF i1, of a p k] obtain r2 s2 where
    r2: "SUPR0ObjRelease p a s1 = Some (r2, s2)" "RT_SUCCESS r2" and i2: "sem_inv (add_mset (a, p, k) pend) s2" by auto
  from sem_release[OF i2, of a p k] obtain r3 s3 where
    r3: "SUPR0ObjRelease p a s2 = Some (r3, s3)" "RT_SUCCESS r3" and i3: "sem_inv pend s3" by auto
  have oi: "obj_inv s" "obj_inv s1" "obj_inv s2" using inv i1 i2 by (auto simp: sem_inv_def)
  from release_retained[OF oi(2) b(3) ob obj_counter_pos[OF oi(1) ob] r2 refl oi(2)]
  have "objs s2 p = Some ob" "calls s2 = calls s" using b(3) by (auto simp: retained_def)
  with release_counter[OF oi(3) r3, of ob] b(1,2,4) r2(1) r3(1) i3 sem_find_release[OF r2(1)] sem_find_release[OF r3(1)]
  show ?thesis by (auto simp: sem_close_def)
qed

lemma sem_op_spec:
  assumes inv: "sem_inv pend s" and a: "sessions s a \<noteq> None" and m: "counters_ok s"
  shows "case (if ucast (ucast hE :: u32) = hE then sem_find s a k (ucast hE) else None) of
      None \<Rightarrow> sem_op k c a hE env s = Some (VERR_INVALID_HANDLE, s)
    | Some p \<Rightarrow> \<exists>ob s'. objs s p = Some ob \<and> o_enmType ob = sem_type k \<and> sem_op k c a hE env s = Some (se_rc env, s') \<and>
        sem_inv pend s' \<and> objs s' p = Some ob \<and> calls s' = calls s @ [Call_Sem k c (o_pvUser1 ob)]"
proof -
  let ?f = "if ucast (ucast hE :: u32) = hE then sem_find s a k (ucast hE) else None"
  note l = sem_lookup_spec[OF inv a m, where hE = hE and k = k]
  show ?thesis
  proof (cases ?f)
    case None
    with l show ?thesis by (simp add: sem_op_def)
  next
    case (Some p)
    with l obtain s1 where s1: "sem_lookup k a hE s = Some ((VINF_SUCCESS, p), s1)" "p \<noteq> 0" "retained p s s1"
      and i1: "sem_inv (add_mset (a, p, k) pend) s1" by auto
    from Some have "sem_find s a k (ucast hE) = Some p" by (auto split: if_splits)
    with inv have "sem_obj k p s" by (rule sem_find_held)
    then obtain ob where ob: "objs s p = Some ob" "o_enmType ob = sem_type k" by (auto simp: sem_obj_def)
    let ?s2 = "log_call (Call_Sem k c (o_pvUser1 ob)) s1"
    have d: "sem_do k c p s1 = Some ?s2" using s1(3) ob by (auto simp: sem_do_def retained_def)
    have i2: "sem_inv (add_mset (a, p, k) pend) ?s2" by (rule sem_do_inv[OF i1])
    from sem_release[OF i2, of a p k] obtain r3 s3 where
      r3: "SUPR0ObjRelease p a ?s2 = Some (r3, s3)" "RT_SUCCESS r3" and i3: "sem_inv pend s3" by auto
    have oi: "obj_inv s" "obj_inv s1" "obj_inv ?s2" using inv i1 i2 by (auto simp: sem_inv_def)
    from release_retained[OF oi(2) s1(3) ob(1) obj_counter_pos[OF oi(1) ob(1)] r3 _ oi(3)] s1(3)
    have "objs s3 p = Some ob" "calls s3 = calls s @ [Call_Sem k c (o_pvUser1 ob)]" by (auto simp: retained_def)
    moreover have "sem_op k c a hE env s = Some (se_rc env, s3)" using s1(1) d r3(1) by (simp add: sem_op_def)
    ultimately show ?thesis using Some ob i3 by auto
  qed
qed

section \<open>Properties\<close>

text \<open>States for the witnesses: a session holding an event semaphore object, with and without a handle.\<close>

definition semobj :: SUPDRVOBJ where
  "semobj = obj1\<lparr>o_enmType := SUPDRVOBJTYPE_SEM_EVENT, o_pvUser1 := 0x66000, o_pvUser2 := 0\<rparr>"

definition driver_sem :: "RTHANDLETABLEINT \<Rightarrow> supdrv" where
  "driver_sem t = driver0\<lparr>devext := devext0\<lparr>d_pObjs := [0x20000]\<rparr>, objs := [0x20000 \<mapsto> semobj],
     sessions := [0x10000 \<mapsto> session0\<lparr>s_hHandleTable := Some t, s_pUsage := [\<lparr>u_ref = 0x20000, u_cUsage = 1\<rparr>]\<rparr>]\<rparr>"

definition semenv0 :: semenv where
  "semenv0 = \<lparr>se_rc = 0, se_hReal = 0x67000, se_pNew = 0x30000, se_fUsage = True, se_fLevel1 = True, se_fTable = True,
     se_pfnDestructor = 0x7000\<rparr>"

lemma driver_sem_simps [simp]:
  "objs (driver_sem t) = [0x20000 \<mapsto> semobj]"
  "sessions (driver_sem t) = [0x10000 \<mapsto> session0\<lparr>s_hHandleTable := Some t, s_pUsage := [\<lparr>u_ref = 0x20000, u_cUsage = 1\<rparr>]\<rparr>]"
  "devext (driver_sem t) = devext0\<lparr>d_pObjs := [0x20000]\<rparr>" "calls (driver_sem t) = []"
  by (simp_all add: driver_sem_def)

lemma semobj_simps [simp]:
  "o_enmType semobj = SUPDRVOBJTYPE_SEM_EVENT" "o_cUsage semobj = 1" "o_u32Magic semobj = SUPDRVOBJ_MAGIC"
  "o_pfnDestructor semobj = 0x7000" "o_pvUser1 semobj = 0x66000" "o_pvUser2 semobj = 0"
  by (simp_all add: semobj_def obj1_def)

lemma sem_inv_driver_sem:
  assumes "ht_inv t" "\<And>h p c. ht_map t h = Some (p, c) \<Longrightarrow> p = 0x20000 \<and> c = 4"
    "\<And>p. hcount (ht_map t) p + pcount pend 0x10000 p \<le> (if p = 0x20000 then 1 else 0)"
    "\<And>a p k. (a, p, k) \<in># pend \<Longrightarrow> a = 0x10000 \<and> p = 0x20000 \<and> k = SemEvent"
  shows "sem_inv pend (driver_sem t)"
proof -
  have "obj_acct (driver_sem t) = ([0x20000 \<mapsto> 1], [0x10000 \<mapsto> [\<lparr>u_ref = 0x20000, u_cUsage = 1\<rparr>]])"
    by (auto simp: obj_acct_def)
  then have "balanced (obj_acct (driver_sem t))"
    by (simp add: balanced_def total_held_def split: option.split)
  then have oi: "obj_inv (driver_sem t)" by (auto simp: obj_inv_def RT_VALID_PTR_def split: if_splits)
  let ?ss = "session0\<lparr>s_hHandleTable := Some t, s_pUsage := [\<lparr>u_ref = 0x20000, u_cUsage = 1\<rparr>]\<rparr>"
  have h: "sess_handles ?ss = ht_map t" by (simp add: sess_handles_def)
  have so: "sem_obj SemEvent 0x20000 (driver_sem t)" by (simp add: sem_obj_def)
  have "\<exists>k. ctx = sem_ctx k \<and> sem_obj k p (driver_sem t)" if "ht_map t hh = Some (p, ctx)" for hh p ctx
    using assms(2)[OF that] so by (intro exI[of _ SemEvent]) simp
  moreover have "hcount (ht_map t) p + pcount pend 0x10000 p \<le> held p (s_pUsage ?ss)" for p
    using assms(3)[of p] by (auto split: if_splits)
  ultimately have "sess_sem_ok pend (driver_sem t) 0x10000 ?ss"
    unfolding sess_sem_ok_def h using assms(1)
    by (auto simp: SUP_IS_SESSION_VALID_def RT_VALID_PTR_def session0_def)
  with oi assms(4) so show ?thesis unfolding sem_inv_def by auto
qed

lemma ht_map_zero: "ht_uBase t = 1 \<Longrightarrow> ht_map t 0 = None"
  by (simp add: ht_map_def)

lemma one_handle:
  obtains t h where "ht_inv t" "ht_map t = [h \<mapsto> (0x20000, 4)]" "h \<noteq> 0"
proof -
  have ok: "ht_ok session_table" by (rule ht_inv_ok[OF session_table_inv(1)])
  have nf: "\<not> RTHT_IS_FREE 0x20000" by (simp add: RTHT_IS_FREE_def)
  have "\<not> ht_full session_table"
    using session_table_inv(2) by (auto simp: ht_full_def session_table_inv(6) intro!: exI[of _ 0])
  with alloc_spec[OF ok nf, where ctx = 4 and fL = True and fT = True] session_table_inv(2) obtain h t where
    t: "ht_ok t" "ht_same session_table t" "ht_map t = [h \<mapsto> (0x20000, 4)]" by auto
  have "ht_map t 0 = None" using ht_map_zero[of t] t(2) session_table_inv(3) by (simp add: ht_same_def)
  then have "h \<noteq> 0" using t(3) by auto
  moreover have "ht_inv t" using t(1,3) by (auto simp: ht_inv_def split: if_splits)
  ultimately show ?thesis using that t(3) by blast
qed

text \<open>C31: However signals, waits, resets, creations and closes of semaphores by several threads interleave,
  none of them faults: in particular a semaphore object stays alive as long as some thread waits on
  it, even when its handle is closed meanwhile.\<close>

theorem sem_api_safe:
  assumes "sem_inv pend s" "run_ok sem_sec_step sem_sec_ok secs (pend, s)"
  shows "\<exists>pend' s'. run_steps sem_sec_step secs (pend, s) = Some (pend', s') \<and> sem_inv pend' s' \<and>
    (\<forall>a p k. (a, p, k) \<in># pend' \<longrightarrow> (\<exists>ob. objs s' p = Some ob \<and> o_enmType ob = sem_type k))"
proof -
  from semapi.run_safe[of "(pend, s)" secs] assms obtain st where
    st: "run_steps sem_sec_step secs (pend, s) = Some st" "sem_inv (fst st) (snd st)" by auto
  have "\<exists>ob. objs (snd st) p = Some ob \<and> o_enmType ob = sem_type k" if "(a, p, k) \<in># fst st" for a p k
  proof -
    from st(2) that obtain ss where "sem_obj k p (snd st)" by (rule sem_inv_pend)
    then show ?thesis by (simp add: sem_obj_def)
  qed
  with st show ?thesis by (intro exI[of _ "fst st"] exI[of _ "snd st"]) simp
qed

theorem sem_api_safe_witness:
  "\<exists>pend' s'. run_steps sem_sec_step
      [QCall SemEvent 0x10000 0x20000 (SemWaitEx 1 50), QRelease SemEvent 0x10000 0x20000, QCreate SemEventMulti 0x10000 0x3000 semenv0]
      ({#(0x10000, 0x20000, SemEvent)#}, driver_sem session_table) = Some (pend', s') \<and> sem_inv pend' s'"
proof -
  have i: "sem_inv {#(0x10000, 0x20000, SemEvent)#} (driver_sem session_table)"
    by (rule sem_inv_driver_sem) (auto simp: session_table_inv split: if_splits)
  have "run_ok sem_sec_step sem_sec_ok
      [QCall SemEvent 0x10000 0x20000 (SemWaitEx 1 50), QRelease SemEvent 0x10000 0x20000, QCreate SemEventMulti 0x10000 0x3000 semenv0]
      ({#(0x10000, 0x20000, SemEvent)#}, driver_sem session_table)"
    by (simp add: sem_do_def SUPR0ObjRelease_def SUP_IS_SESSION_VALID_def RT_VALID_PTR_def session0_def Let_def
        fresh_obj_def semenv0_def RTHT_IS_FREE_def objDestroy_def split: option.splits)
  from sem_api_safe[OF i this] show ?thesis by blast
qed

text \<open>Creating a semaphore never loses one: either its handle, one the session did not use, leads to the
  new object that holds it, or nothing is left of the attempt and the semaphore, if IPRT made one, has
  been destroyed once.\<close>

theorem sem_create_reachable_or_destroyed:
  assumes "sem_inv pend s" "sessions s a \<noteq> None" "fresh_obj (se_pNew env) s" "\<not> RTHT_IS_FREE (se_pNew env)" "RT_VALID_PTR ph"
  shows "\<exists>r oh s'. sem_create k a ph env s = Some ((r, oh), s') \<and> sem_inv pend s' \<and>
    (case oh of
       Some h \<Rightarrow> r = VINF_SUCCESS \<and> (\<forall>k'. sem_find s a k' h = None) \<and> sem_find s' a k h = Some (se_pNew env) \<and> calls s' = calls s
     | None \<Rightarrow> objs s' = objs s \<and> sessions s' = sessions s \<and>
         (\<exists>cs. calls s' = calls s @ cs \<and> (if RT_FAILURE (se_rc env) then cs = []
            else cs = [Call_Sem k SemDestroy (se_hReal env)] \<or>
                 cs = [Call_Destructor (se_pfnDestructor env) (se_pNew env) (se_hReal env) 0])))"
proof -
  from sem_create_spec[OF assms(1-4), of k ph] obtain r oh s' where
    "sem_create k a ph env s = Some ((r, oh), s')" "sem_inv pend s'" and c: "case oh of
       Some h \<Rightarrow> r = VINF_SUCCESS \<and> (\<forall>k'. sem_find s a k' h = None) \<and> sem_find s' a k h = Some (se_pNew env) \<and> calls s' = calls s \<and>
         (\<exists>ob. objs s' (se_pNew env) = Some ob \<and> o_pvUser1 ob = se_hReal env \<and> o_pvUser2 ob = 0 \<and> o_pfnDestructor ob = se_pfnDestructor env)
     | None \<Rightarrow> objs s' = objs s \<and> sessions s' = sessions s \<and>
         (calls s' = calls s @ (if RT_FAILURE (se_rc env) then []
            else if RT_VALID_PTR (se_pfnDestructor env) \<and> se_pNew env \<noteq> 0 \<and> (d_pUsageFree (devext s) \<noteq> [] \<or> se_fUsage env)
            then [Call_Destructor (se_pfnDestructor env) (se_pNew env) (se_hReal env) 0]
            else [Call_Sem k SemDestroy (se_hReal env)]) \<or> \<not> RT_VALID_PTR ph \<and> calls s' = calls s)" by blast
  then show ?thesis using assms(5) by (cases oh) (auto split: if_splits)
qed

theorem sem_create_reachable_or_destroyed_witness:
  "\<exists>r oh s'. sem_create SemEvent 0x10000 0x3000 (semenv0\<lparr>se_rc := - 8\<rparr>) (driver_sem session_table) = Some ((r, oh), s') \<and> calls s' = []"
proof -
  have i: "sem_inv {#} (driver_sem session_table)"
    by (rule sem_inv_driver_sem) (auto simp: session_table_inv split: if_splits)
  have a: "sessions (driver_sem session_table) 0x10000 \<noteq> None" by simp
  have f: "fresh_obj (se_pNew (semenv0\<lparr>se_rc := - 8\<rparr>)) (driver_sem session_table)"
    by (simp add: fresh_obj_def semenv0_def RT_VALID_PTR_def)
  have g: "\<not> RTHT_IS_FREE (se_pNew (semenv0\<lparr>se_rc := - 8\<rparr>))" by (simp add: semenv0_def RTHT_IS_FREE_def)
  have p: "RT_VALID_PTR 0x3000" by (simp add: RT_VALID_PTR_def)
  from sem_create_reachable_or_destroyed[OF i a f g p, of SemEvent] show ?thesis
    by (auto split: option.splits)
qed

text \<open>When the object record of a new semaphore cannot be made, the creation reports success all the
  same: nothing is stored through \<open>phEvent\<close>, and the semaphore is destroyed.\<close>

theorem sem_create_success_without_handle:
  assumes "sessions s a = Some ss" "SUP_IS_SESSION_VALID a ss" "RT_VALID_PTR ph" "se_rc env = VINF_SUCCESS" "se_pNew env = 0"
  shows "sem_create k a ph env s = Some ((VINF_SUCCESS, None), log_call (Call_Sem k SemDestroy (se_hReal env)) s)"
  using assms by (cases k) (auto simp: sem_create_def SUPR0ObjRegister_def)

theorem sem_create_success_without_handle_witness:
  "SUPSemEventCreate 0x10000 0x3000 (semenv0\<lparr>se_pNew := 0\<rparr>) driver0 =
     Some ((VINF_SUCCESS, None), log_call (Call_Sem SemEvent SemDestroy 0x67000) driver0)"
proof -
  have "sessions driver0 0x10000 = Some session0" "SUP_IS_SESSION_VALID 0x10000 session0" "RT_VALID_PTR 0x3000"
    "se_rc (semenv0\<lparr>se_pNew := 0\<rparr>) = VINF_SUCCESS" "se_pNew (semenv0\<lparr>se_pNew := 0\<rparr>) = 0"
    by (simp_all add: session0_def SUP_IS_SESSION_VALID_def RT_VALID_PTR_def semenv0_def)
  from sem_create_success_without_handle[OF this, of SemEvent] show ?thesis
    by (simp add: SUPSemEventCreate_def) (simp add: semenv0_def)
qed

text \<open>Closing a semaphore handle takes the handle away and destroys the semaphore object, with one call of
  its destructor, exactly when the handle was the last reference; otherwise the object stays for those
  that still hold it.\<close>

theorem sem_close_last_reference:
  assumes "sem_inv pend s" "sem_find s a k (ucast hE) = Some p" "hE \<noteq> 0" "ucast (ucast hE :: u32) = hE"
    "counters_ok s" "objs s p = Some ob"
  shows "\<exists>r s'. sem_close k a hE s = Some (r, s') \<and> sem_inv pend s' \<and> sem_find s' a k (ucast hE) = None \<and>
    (if o_cUsage ob = 1
     then r = VINF_OBJECT_DESTROYED \<and> objs s' p = None \<and> calls s' = calls s @ (if o_pfnDestructor ob \<noteq> 0
       then [Call_Destructor (o_pfnDestructor ob) p (o_pvUser1 ob) (o_pvUser2 ob)] else [])
     else r = VINF_SUCCESS \<and> objs s' p = Some (ob\<lparr>o_cUsage := o_cUsage ob - 1\<rparr>) \<and> calls s' = calls s)"
  by (rule sem_close_spec[OF assms])

lemma driver_sem_one:
  assumes "ht_inv t" "ht_map t = [h \<mapsto> (0x20000, 4)]"
  shows "sem_inv {#} (driver_sem t)" "sem_find (driver_sem t) 0x10000 SemEvent h = Some 0x20000" "counters_ok (driver_sem t)"
proof -
  have "hcount [h \<mapsto> (0x20000, 4)] p = (if p = 0x20000 then 1 else 0)" for p
    using hcount_put[of Map.empty h "0x20000" 4 p] by simp
  with assms show "sem_inv {#} (driver_sem t)" by (intro sem_inv_driver_sem) (auto split: if_splits)
  show "sem_find (driver_sem t) 0x10000 SemEvent h = Some 0x20000"
    using assms(2) by (simp add: sem_find_def sess_handles_def)
  show "counters_ok (driver_sem t)" by (simp add: counters_ok_def)
qed

lemma ucast_back: "ucast (ucast h :: u64) = (h :: u32)"
  by (rule bit_word_eqI) (auto simp: bit_simps)

theorem sem_close_last_reference_witness:
  "\<exists>t h s'. SUPSemEventClose 0x10000 (ucast (h :: u32)) (driver_sem t) = Some (VINF_OBJECT_DESTROYED, s') \<and>
    objs s' 0x20000 = None \<and> calls s' = [Call_Destructor 0x7000 0x20000 0x66000 0]"
proof -
  obtain t h where t: "ht_inv t" "ht_map t = [h \<mapsto> (0x20000, 4)]" "h \<noteq> 0" by (rule one_handle)
  have u: "ucast (ucast h :: u64) = h" by (rule ucast_back)
  have nz: "(ucast h :: u64) \<noteq> 0" using t(3) u by (metis unsigned_0)
  have f: "sem_find (driver_sem t) 0x10000 SemEvent (ucast (ucast h :: u64)) = Some 0x20000"
    unfolding u by (rule driver_sem_one(2)[OF t(1,2)])
  have u2: "ucast (ucast (ucast h :: u64) :: u32) = (ucast h :: u64)" by (simp only: u)
  have o: "objs (driver_sem t) 0x20000 = Some semobj" by simp
  from sem_close_last_reference[OF driver_sem_one(1)[OF t(1,2)] f nz u2 driver_sem_one(3)[OF t(1,2)] o]
  obtain s' where "sem_close SemEvent 0x10000 (ucast h) (driver_sem t) = Some (VINF_OBJECT_DESTROYED, s')"
    "objs s' 0x20000 = None" "calls s' = [Call_Destructor 0x7000 0x20000 0x66000 0]" by auto
  then show ?thesis unfolding SUPSemEventClose_def by blast
qed

text \<open>C32: Signalling, resetting and waiting reach a semaphore only through a handle of the session that was made
  for this kind of semaphore; then exactly one IPRT call of that kind is made, on the semaphore inside the
  object, its status is returned, and the object is left as it was.  Any other handle is refused
  without an effect.\<close>

theorem sem_op_type_safe:
  assumes "sem_inv pend s" "sessions s a \<noteq> None" "counters_ok s"
  shows "case (if ucast (ucast hE :: u32) = hE then sem_find s a k (ucast hE) else None) of
      None \<Rightarrow> sem_op k c a hE env s = Some (VERR_INVALID_HANDLE, s)
    | Some p \<Rightarrow> \<exists>ob s'. objs s p = Some ob \<and> o_enmType ob = sem_type k \<and> sem_op k c a hE env s = Some (se_rc env, s') \<and>
        sem_inv pend s' \<and> objs s' p = Some ob \<and> calls s' = calls s @ [Call_Sem k c (o_pvUser1 ob)]"
  by (rule sem_op_spec[OF assms])

theorem sem_op_type_safe_witness:
  "\<exists>t h. (\<exists>s'. SUPSemEventSignal 0x10000 (ucast (h :: u32)) semenv0 (driver_sem t) = Some (0, s') \<and>
      calls s' = [Call_Sem SemEvent SemSignal 0x66000]) \<and>
    SUPSemEventMultiSignal 0x10000 (ucast h) semenv0 (driver_sem t) = Some (VERR_INVALID_HANDLE, driver_sem t)"
proof -
  obtain t h where t: "ht_inv t" "ht_map t = [h \<mapsto> (0x20000, 4)]" "h \<noteq> 0" by (rule one_handle)
  have a: "sessions (driver_sem t) 0x10000 \<noteq> None" by simp
  have f: "sem_find (driver_sem t) 0x10000 SemEvent h = Some 0x20000" by (rule driver_sem_one(2)[OF t(1,2)])
  have g: "sem_find (driver_sem t) 0x10000 SemEventMulti h = None" using t(2) by (simp add: sem_find_def sess_handles_def)
  note T = sem_op_type_safe[OF driver_sem_one(1)[OF t(1,2)] a driver_sem_one(3)[OF t(1,2)], where hE = "ucast h", unfolded ucast_back]
  from T[where k = SemEvent and c = SemSignal and env = semenv0] f
  have "\<exists>s'. SUPSemEventSignal 0x10000 (ucast h) semenv0 (driver_sem t) = Some (0, s') \<and> calls s' = [Call_Sem SemEvent SemSignal 0x66000]"
    by (auto simp: SUPSemEventSignal_def semenv0_def)
  moreover from T[where k = SemEventMulti and c = SemSignal and env = semenv0] g
  have "SUPSemEventMultiSignal 0x10000 (ucast h) semenv0 (driver_sem t) = Some (VERR_INVALID_HANDLE, driver_sem t)"
    by (simp add: SUPSemEventMultiSignal_def)
  ultimately show ?thesis by blast
qed

end
