(* ===== verification/SupSession.thy ===== *)
theory SupSession
  imports SupMem SupLdrApi SupFactory SupGip SupSem
begin

text \<open>
  The life of a session (\<open>SUPDrv.c\<close>): \<open>supdrvCreateSession\<close>, the reference counting of
  \<open>supdrvSessionRetain\<close> and \<open>supdrvSessionRelease\<close>, and \<open>supdrvCloseSession\<close> with the whole of
  \<open>supdrvCleanupSession\<close>, composed of the cleanup parts of the components in the order of the code:
  handle table, objects, memory, component factories, images, GIP.  The combined invariant
  \<open>drv_inv\<close> says that every component is consistent and that their shares of the common heap of
  memory objects are apart; creating and closing sessions keep it.
\<close>

section \<open>Creation\<close>

text \<open>What the operating system answers, and the calling process.\<close>

record sessenv =
  se_pSession :: addr         \<comment> \<open>the block of \<open>RTMemAllocZ\<close>, 0 when there is none\<close>
  se_rcSpinlock :: rc
  se_fTableAlloc :: bool      \<comment> \<open>the heap and the spinlock of the handle table\<close>
  se_rcTableLock :: rc
  se_Process :: u32
  se_CallerR0Process :: u64

definition session_new :: "bool \<Rightarrow> bool \<Rightarrow> RTHANDLETABLEINT option \<Rightarrow> sessenv \<Rightarrow> SUPDRVSESSION" where
  "session_new fUser fUnrestricted t env =
     \<lparr>s_u32Cookie = BIRD_INV, s_fUnrestricted = fUnrestricted, s_cRefs = 1, s_hHandleTable = t, s_pVM = 0,
      s_pLdrUsage = [], s_GipMapObjR3 = 0, s_fGipReferenced = False,
      s_Bundle = [\<lparr>b_aMem = replicate 64 memref0, b_cUsed = 0\<rparr>], s_pUsage = [],
      s_Uid = NIL_RTUID, s_Gid = NIL_RTGID,
      s_Process = (if fUser then se_Process env else NIL_RTPROCESS),
      s_R0Process = (if fUser then se_CallerR0Process env else NIL_RTR0PROCESS)\<rparr>"

text \<open>The second component is what is stored through \<open>ppSession\<close>, \<open>None\<close> when nothing is.\<close>

definition supdrvCreateSession ::
  "bool \<Rightarrow> bool \<Rightarrow> sessenv \<Rightarrow> supdrv \<Rightarrow> (rc \<times> addr option) \<times> supdrv" where
  "supdrvCreateSession fUser fUnrestricted env s =
     (if d_u32Cookie (devext s) \<noteq> BIRD then ((VERR_INVALID_PARAMETER, None), s)
      else if se_pSession env = 0 then ((VERR_NO_MEMORY, Some 0), s)
      else if se_rcSpinlock env \<noteq> 0 then ((se_rcSpinlock env, Some 0), s)
      else
        let (rc, t) = RTHandleTableCreateEx (RTHANDLETABLE_FLAGS_LOCKED_IRQ_SAFE OR RTHANDLETABLE_FLAGS_CONTEXT)
              1 32768 (se_fTableAlloc env) (se_rcTableLock env) in
        if RT_SUCCESS rc
        then ((VINF_SUCCESS, Some (se_pSession env)),
              put_session (se_pSession env) (session_new fUser fUnrestricted t env) s)
        else ((rc, Some 0), s))"

section \<open>Cleanup and close\<close>

text \<open>
  \<open>RTHandleTableDestroy\<close> on the table of the session; the handle is NIL afterwards.
\<close>

definition sess_handle_destroy :: "addr \<Rightarrow> supdrv \<Rightarrow> supdrv option" where
  "sess_handle_destroy pSession s = do {
     ss \<leftarrow> sessions s pSession;
     (rc, t, s1) \<leftarrow> RTHandleTableDestroy (supdrvSessionObjHandleDelete pSession) (s_hHandleTable ss) s;
     ss1 \<leftarrow> sessions s1 pSession;
     Some (put_session pSession (ss1\<lparr>s_hHandleTable := None\<rparr>) s1)
   }"

definition supdrvCleanupSession :: "addr \<Rightarrow> memenv \<Rightarrow> rc \<Rightarrow> supdrv \<Rightarrow> supdrv option" where
  "supdrvCleanupSession pSession env rcStop s = do {
     s1 \<leftarrow> sess_handle_destroy pSession s;
     s2 \<leftarrow> supdrvCleanupSession_objs pSession s1;
     s3 \<leftarrow> supdrvCleanupSession_mem pSession env s2;
     let s4 = supdrvCleanupSession_factories pSession s3;
     s5 \<leftarrow> supdrvCleanupSession_ldr pSession s4;
     supdrvCleanupSession_gip pSession (e_nf env) rcStop s5
   }"

definition session_gone :: "addr \<Rightarrow> supdrv \<Rightarrow> supdrv" where
  "session_gone pSession s = s\<lparr>sessions := (sessions s)(pSession := None)\<rparr>"

definition supdrvCloseSession :: "addr \<Rightarrow> memenv \<Rightarrow> rc \<Rightarrow> supdrv \<Rightarrow> supdrv option" where
  "supdrvCloseSession pSession env rcStop s = do {
     s1 \<leftarrow> supdrvCleanupSession pSession env rcStop s;
     Some (session_gone pSession s1)
   }"

section \<open>References to a session\<close>

abbreviation "UINT32_MAX \<equiv> (- 1::u32)"

definition supdrvSessionRetain :: "addr \<Rightarrow> supdrv \<Rightarrow> (u32 \<times> supdrv) option" where
  "supdrvSessionRetain pSession s =
     (if \<not> RT_VALID_PTR pSession then Some (UINT32_MAX, s)
      else do {
        ss \<leftarrow> sessions s pSession;
        if \<not> SUP_IS_SESSION_VALID pSession ss then Some (UINT32_MAX, s)
        else Some (s_cRefs ss + 1, put_session pSession (ss\<lparr>s_cRefs := s_cRefs ss + 1\<rparr>) s)
      })"

definition supdrvSessionRelease :: "addr \<Rightarrow> memenv \<Rightarrow> rc \<Rightarrow> supdrv \<Rightarrow> (u32 \<times> supdrv) option" where
  "supdrvSessionRelease pSession env rcStop s =
     (if \<not> RT_VALID_PTR pSession then Some (UINT32_MAX, s)
      else do {
        ss \<leftarrow> sessions s pSession;
        if \<not> SUP_IS_SESSION_VALID pSession ss then Some (UINT32_MAX, s)
        else do {
          let cRefs = s_cRefs ss - 1;
          let s1 = put_session pSession (ss\<lparr>s_cRefs := cRefs\<rparr>) s;
          if cRefs = 0 then do { s2 \<leftarrow> supdrvCloseSession pSession env rcStop s1; Some (cRefs, s2) }
          else Some (cRefs, s1)
        }
      })"

section \<open>What a step on the objects leaves alone\<close>

definition obj_only :: "addr \<Rightarrow> supdrv \<Rightarrow> supdrv \<Rightarrow> bool" where
  "obj_only a s t \<longleftrightarrow> imgs t = imgs s \<and> memobjs t = memobjs s \<and> factories t = factories s \<and> gips t = gips s \<and>
     g_pSUPGlobalInfoPage t = g_pSUPGlobalInfoPage s \<and>
     (devext t)\<lparr>d_pObjs := [], d_pUsageFree := []\<rparr> = (devext s)\<lparr>d_pObjs := [], d_pUsageFree := []\<rparr> \<and>
     (\<exists>ss ss'. sessions s a = Some ss \<and> sessions t = (sessions s)(a \<mapsto> ss') \<and>
        ss'\<lparr>s_pUsage := [], s_hHandleTable := None\<rparr> = ss\<lparr>s_pUsage := [], s_hHandleTable := None\<rparr>)"

lemma obj_only_trans: "obj_only a s t \<Longrightarrow> obj_only a t u \<Longrightarrow> obj_only a s u"
  unfolding obj_only_def by auto

lemma obj_only_refl: "sessions s a = Some ss \<Longrightarrow> obj_only a s s"
  by (auto simp: obj_only_def fun_upd_idem intro!: exI[of _ ss])

lemma devext_eqD:
  assumes "(d :: SUPDRVDEVEXT)\<lparr>d_pObjs := [], d_pUsageFree := []\<rparr> = d'\<lparr>d_pObjs := [], d_pUsageFree := []\<rparr>"
  shows "d_u32Cookie d = d_u32Cookie d'" "d_pLdrImages d = d_pLdrImages d'" "d_pvVMMR0 d = d_pvVMMR0 d'"
    "d_pfnVMMR0EntryInt d = d_pfnVMMR0EntryInt d'" "d_pfnVMMR0EntryFast d = d_pfnVMMR0EntryFast d'"
    "d_pfnVMMR0EntryEx d = d_pfnVMMR0EntryEx d'" "d_pComponentFactoryHead d = d_pComponentFactoryHead d'"
    "d_hGipSpinlock d = d_hGipSpinlock d'" "d_pGip d = d_pGip d'" "d_cGipUsers d = d_cGipUsers d'"
    "d_GipMemObj d = d_GipMemObj d'" "d_fGipTimerRunning d = d_fGipTimerRunning d'"
  using assms by (cases d; cases d'; simp)+

lemma session_eqD:
  assumes "(d :: SUPDRVSESSION)\<lparr>s_pUsage := [], s_hHandleTable := None\<rparr> = d'\<lparr>s_pUsage := [], s_hHandleTable := None\<rparr>"
  shows "s_u32Cookie d = s_u32Cookie d'" "s_cRefs d = s_cRefs d'" "s_pLdrUsage d = s_pLdrUsage d'"
    "s_GipMapObjR3 d = s_GipMapObjR3 d'" "s_fGipReferenced d = s_fGipReferenced d'" "s_Bundle d = s_Bundle d'"
    "s_R0Process d = s_R0Process d'"
  using assms by (cases d; cases d'; simp)+

lemma obj_only_release: "SUPR0ObjRelease p a s = Some (r, t) \<Longrightarrow> obj_only a s t"
  by (auto simp: SUPR0ObjRelease_def Let_def obj_only_refl split: Option.bind_splits if_splits option.splits)
    (auto simp: obj_only_def objDestroy_def objUnlink_def log_call_def put_session_def put_obj_def upd_devext_def)

lemma obj_only_cleanupObjs: "cleanupObjs us a s = Some t \<Longrightarrow> sessions s a = Some ss \<Longrightarrow> obj_only a s t"
proof (induction us arbitrary: s ss)
  case Nil
  then show ?case by (auto simp: obj_only_refl)
next
  case (Cons u us)
  then obtain ob where ob: "objs s (u_ref u) = Some ob" by (auto simp: cleanupObjs.simps(2) split: Option.bind_splits)
  let ?t = "objDrop u us a ss ob s"
  have "cleanupObjs us a ?t = Some t" using Cons.prems cleanupObjs_Cons[OF Cons.prems(2) ob] by simp
  moreover have "sessions ?t a = Some (ss\<lparr>s_pUsage := us\<rparr>)" by (simp add: objDrop_def Let_def)
  ultimately have "obj_only a ?t t" by (rule Cons.IH)
  moreover have "obj_only a s ?t"
    using Cons.prems(2) by (auto simp: obj_only_def objDrop_def Let_def objDestroy_def objUnlink_def log_call_def
        put_session_def put_obj_def upd_devext_def)
  ultimately show ?case using obj_only_trans by blast
qed

section \<open>Destroying the handle table\<close>

text \<open>Releasing does not look at the table, so the table may as well be cleared first.\<close>

definition no_table :: "addr \<Rightarrow> supdrv \<Rightarrow> supdrv" where
  "no_table a s = s\<lparr>sessions := (sessions s)(a := map_option (\<lambda>ss. ss\<lparr>s_hHandleTable := None\<rparr>) (sessions s a))\<rparr>"

lemma session_upd_swap: "(ss :: SUPDRVSESSION)\<lparr>s_hHandleTable := t, s_pUsage := us\<rparr> = ss\<lparr>s_pUsage := us, s_hHandleTable := t\<rparr>"
  by (cases ss) simp

lemma release_no_table:
  "SUPR0ObjRelease p a (no_table a s) = map_option (map_prod id (no_table a)) (SUPR0ObjRelease p a s)"
  by (auto simp: SUPR0ObjRelease_def no_table_def Let_def objDestroy_def objUnlink_def log_call_def SUP_IS_SESSION_VALID_def
      put_session_def put_obj_def upd_devext_def session_upd_swap split: Option.bind_splits option.splits)

lemma handle_delete_no_table:
  "supdrvSessionObjHandleDelete a h p c (no_table a s) = map_option (no_table a) (supdrvSessionObjHandleDelete a h p c s)"
  by (cases "SUPR0ObjRelease p a s") (auto simp: supdrvSessionObjHandleDelete_def release_no_table)

lemma delete_no_table:
  "delete_all (supdrvSessionObjHandleDelete a) xs (no_table a s) =
   map_option (no_table a) (delete_all (supdrvSessionObjHandleDelete a) xs s)"
proof (induction xs arbitrary: s)
  case (Cons x xs)
  obtain h p c where x: "x = (h, p, c)" by (cases x)
  show ?case
    by (cases "supdrvSessionObjHandleDelete a h p c s") (simp_all add: x handle_delete_no_table Cons.IH)
qed simp

text \<open>The handles still to be deleted, as references pending on the session.\<close>

definition hkind :: "addr \<Rightarrow> sem_kind" where
  "hkind c = (if c = sem_ctx SemEvent then SemEvent else SemEventMulti)"

lemma hkind_ctx [simp]: "hkind (sem_ctx k) = k"
  by (cases k) (simp_all add: hkind_def)

definition hpend :: "addr \<Rightarrow> (u32 \<times> addr \<times> addr) list \<Rightarrow> pending" where
  "hpend a xs = mset (map (\<lambda>(h, p, c). (a, p, hkind c)) xs)"

lemma hpend_Cons: "hpend a ((h, p, c) # xs) = add_mset (a, p, hkind c) (hpend a xs)"
  by (simp add: hpend_def)

lemma hpend_session: "(b, p, k) \<in># hpend a xs \<Longrightarrow> b = a \<and> (\<exists>h c. (h, p, c) \<in> set xs \<and> k = hkind c)"
  by (auto simp: hpend_def; blast)

lemma pcount_hpend: "pcount (hpend a xs) b p = (if b = a then length (filter (\<lambda>(h, q, c). q = p) xs) else 0)"
  by (induction xs) (auto simp: hpend_Cons hpend_def[of a "[]"])

lemma hcount_live:
  assumes "ht_shape t"
  shows "hcount (ht_map t) p = length (filter (\<lambda>(h, q, c). q = p) (ht_live t))"
proof -
  let ?xs = "filter (\<lambda>(h, q, c). q = p) (ht_live t)"
  have "h \<in> fst ` set ?xs \<longleftrightarrow> (\<exists>c. (h, p, c) \<in> set (ht_live t))" for h by force
  then have "{h. \<exists>ctx. ht_map t h = Some (p, ctx)} = fst ` set ?xs" by (auto simp only: live_map[OF assms])
  moreover have "distinct (map fst ?xs)" using live_distinct[OF assms] by (rule distinct_map_filter)
  from distinct_card[OF this] have "card (fst ` set ?xs) = length ?xs" by (simp only: set_map length_map)
  ultimately show ?thesis by (simp add: hcount_def)
qed

lemma no_table_simps:
  "sessions s a = Some ss \<Longrightarrow> sessions (no_table a s) = (sessions s)(a \<mapsto> ss\<lparr>s_hHandleTable := None\<rparr>)"
  "objs (no_table a s) = objs s" "devext (no_table a s) = devext s"
  by (simp_all add: no_table_def)

lemma obj_only_no_table: "sessions s a = Some ss \<Longrightarrow> obj_only a s (no_table a s)"
  by (auto simp: obj_only_def no_table_def)

lemma sem_inv_no_table:
  assumes inv: "sem_inv {#} s" and a: "sessions s a = Some ss" and t: "s_hHandleTable ss = Some t"
  shows "sem_inv (hpend a (ht_live t)) (no_table a s)"
proof -
  note ok = sem_inv_session[OF inv a]
  have shape: "ht_shape t" using ok t by (auto simp: sess_sem_ok_def ht_inv_def ht_ok_def)
  have h: "sess_handles ss = ht_map t" by (simp add: sess_handles_def t)
  have oi: "obj_inv (no_table a s)"
    by (rule obj_inv_cong[of s]) (use inv a in \<open>auto simp: sem_inv_def no_table_simps(2,3) no_table_def\<close>)
  show ?thesis
  proof (rule sem_inv_step[OF inv a oi _ no_table_simps(1)[OF a]])
    show "types_kept s (no_table a s)" by (simp add: types_kept_def no_table_simps)
    show "SUP_IS_SESSION_VALID a (ss\<lparr>s_hHandleTable := None\<rparr>)"
      using ok by (simp add: sess_sem_ok_def SUP_IS_SESSION_VALID_def)
    show "hcount (sess_handles (ss\<lparr>s_hHandleTable := None\<rparr>)) p + pcount (hpend a (ht_live t)) a p
        \<le> held p (s_pUsage (ss\<lparr>s_hHandleTable := None\<rparr>))" for p
      using ok by (simp add: pcount_hpend hcount_live[OF shape, symmetric] sess_sem_ok_def h)
    show "pcount (hpend a (ht_live t)) b p = pcount {#} b p" if "b \<noteq> a" for b p using that by (simp add: pcount_hpend)
    show "(b, p, k) \<in># {#} \<or> b = a \<and> sem_obj k p (no_table a s)" if "(b, p, k) \<in># hpend a (ht_live t)" for b p k
    proof -
      from hpend_session[OF that] obtain x c where x: "b = a" "(x, p, c) \<in> set (ht_live t)"
        "k = hkind c" by blast
      then have "sess_handles ss x = Some (p, c)" using live_map[OF shape] h by simp
      from sess_sem_handle[OF ok this] obtain k' where "c = sem_ctx k'" "sem_obj k' p s" by blast
      moreover from this x(3) have "k = k'" by simp
      ultimately show ?thesis using x(1) by (simp add: sem_obj_def no_table_simps)
    qed
  qed (use t in \<open>auto simp: sess_handles_def\<close>)
qed

lemma delete_all_ok:
  assumes "sem_inv (hpend a xs) s" "sessions s a \<noteq> None"
  shows "\<exists>s'. delete_all (supdrvSessionObjHandleDelete a) xs s = Some s' \<and> sem_inv {#} s' \<and> obj_only a s s'"
  using assms
proof (induction xs arbitrary: s)
  case Nil
  then show ?case by (auto simp: hpend_def obj_only_refl)
next
  case (Cons x xs)
  obtain h p c where x: "x = (h, p, c)" by (cases x)
  let ?k = "hkind c"
  have p: "(a, p, ?k) \<in># hpend a (x # xs)" unfolding x hpend_Cons by simp
  have m: "hpend a (x # xs) - {#(a, p, ?k)#} = hpend a xs" unfolding x hpend_Cons by simp
  from sem_release[OF Cons.prems(1) p] obtain r t where t: "SUPR0ObjRelease p a s = Some (r, t)" "sem_inv (hpend a xs) t"
    unfolding m by blast
  note o = obj_only_release[OF t(1)]
  then have "sessions t a \<noteq> None" by (auto simp: obj_only_def)
  from Cons.IH[OF t(2) this] obtain s' where s': "delete_all (supdrvSessionObjHandleDelete a) xs t = Some s'"
    "sem_inv {#} s'" "obj_only a t s'" by blast
  have "supdrvSessionObjHandleDelete a h p c s = Some t" using t(1) by (simp add: supdrvSessionObjHandleDelete_def)
  with s' obj_only_trans[OF o s'(3)] show ?case by (simp add: x)
qed

lemma handle_destroy_ok:
  assumes inv: "sem_inv {#} s" and a: "sessions s a = Some ss"
  shows "\<exists>s' ss'. sess_handle_destroy a s = Some s' \<and> sem_inv {#} s' \<and> obj_only a s s' \<and> sessions s' a = Some ss' \<and>
    s_hHandleTable ss' = None"
proof (cases "s_hHandleTable ss")
  case None
  then have "ss\<lparr>s_hHandleTable := None\<rparr> = ss" by simp
  then have "put_session a (ss\<lparr>s_hHandleTable := None\<rparr>) s = s" using a by (simp add: put_session_def fun_upd_idem)
  with None a inv show ?thesis by (auto simp: sess_handle_destroy_def RTHandleTableDestroy_def obj_only_refl)
next
  case (Some t)
  note ok = sem_inv_session[OF inv a]
  have "ht_ok t" using ok Some by (auto simp: sess_sem_ok_def ht_inv_def)
  note d = destroy_spec[OF this, of "supdrvSessionObjHandleDelete a" s]
  have n: "sessions (no_table a s) a \<noteq> None" using a by (simp add: no_table_def)
  from delete_all_ok[OF sem_inv_no_table[OF inv a Some] n] obtain s' where
    s': "delete_all (supdrvSessionObjHandleDelete a) (ht_live t) (no_table a s) = Some s'" "sem_inv {#} s'" "obj_only a (no_table a s) s'"
    by blast
  from s'(1) obtain s1 where s1: "delete_all (supdrvSessionObjHandleDelete a) (ht_live t) s = Some s1" "s' = no_table a s1"
    unfolding delete_no_table by auto
  have o: "obj_only a s s'" using obj_only_trans[OF obj_only_no_table[OF a] s'(3)] .
  then obtain ss1 where ss1: "sessions s1 a = Some ss1" by (auto simp: obj_only_def s1(2) no_table_def fun_eq_iff split: if_splits)
  have "put_session a (ss1\<lparr>s_hHandleTable := None\<rparr>) s1 = s'" by (simp add: s1(2) no_table_def put_session_def ss1)
  then have "sess_handle_destroy a s = Some s'"
    using a Some d s1(1) ss1 by (simp add: sess_handle_destroy_def)
  moreover have "sessions s' a = Some (ss1\<lparr>s_hHandleTable := None\<rparr>)" by (simp add: s1(2) no_table_def ss1)
  ultimately show ?thesis using s'(2) o by auto
qed

section \<open>Releasing the objects\<close>

text \<open>One session changed, but not in what the semaphores look at.\<close>

lemma sem_inv_same:
  assumes inv: "sem_inv {#} s" and a: "sessions s a = Some ss" and a': "sessions t = (sessions s)(a \<mapsto> ss')"
    and eq: "s_u32Cookie ss' = s_u32Cookie ss" "s_hHandleTable ss' = s_hHandleTable ss" "s_pUsage ss' = s_pUsage ss"
    and oi: "obj_inv t" and ty: "types_kept s t"
  shows "sem_inv {#} t"
proof -
  note ok = sem_inv_session[OF inv a]
  have h: "sess_handles ss' = sess_handles ss" by (simp add: sess_handles_def eq)
  show ?thesis
    by (rule sem_inv_step[OF inv a oi ty a']) (use ok in \<open>auto simp: sess_sem_ok_def SUP_IS_SESSION_VALID_def eq h\<close>)
qed

lemma types_kept_same: "objs t = objs s \<Longrightarrow> types_kept s t"
  by (simp add: types_kept_def)

lemma cleanup_objs_ok:
  assumes inv: "sem_inv {#} s" and a: "sessions s a = Some ss" and t: "s_hHandleTable ss = None"
  shows "\<exists>s'. supdrvCleanupSession_objs a s = Some s' \<and> sem_inv {#} s' \<and> obj_only a s s' \<and>
    sessions s' = (sessions s)(a \<mapsto> ss\<lparr>s_pUsage := []\<rparr>)"
proof -
  have oi: "obj_inv s" using inv by (simp add: sem_inv_def)
  from cleanupObjs_spec[OF oi a refl] obtain s' where s': "cleanupObjs (s_pUsage ss) a s = Some s'" "obj_inv s'"
    "sessions s' = (sessions s)(a \<mapsto> ss\<lparr>s_pUsage := []\<rparr>)" "\<And>p. objs s' p = obj_after (s_pUsage ss) p (objs s p)" by blast
  have ty: "types_kept s s'"
    using s'(4) by (auto simp: types_kept_def obj_after_def split: if_splits)
  note ok = sem_inv_session[OF inv a]
  have h: "sess_handles (ss\<lparr>s_pUsage := []\<rparr>) = Map.empty" using t by (simp add: sess_handles_def)
  have "sem_inv {#} s'"
    by (rule sem_inv_step[OF inv a s'(2) ty s'(3)]) (use ok t h in \<open>auto simp: sess_sem_ok_def SUP_IS_SESSION_VALID_def\<close>)
  with s' a obj_only_cleanupObjs[OF s'(1) a] show ?thesis by (simp add: supdrvCleanupSession_objs_def)
qed

section \<open>Frames of the invariants\<close>

lemma obj_only_sessions:
  assumes "obj_only a s t"
  shows "\<exists>ss ss'. sessions s a = Some ss \<and> sessions t = (sessions s)(a \<mapsto> ss') \<and>
    s_u32Cookie ss' = s_u32Cookie ss \<and> s_cRefs ss' = s_cRefs ss \<and> s_pLdrUsage ss' = s_pLdrUsage ss \<and>
    s_GipMapObjR3 ss' = s_GipMapObjR3 ss \<and> s_fGipReferenced ss' = s_fGipReferenced ss \<and> s_Bundle ss' = s_Bundle ss \<and>
    s_R0Process ss' = s_R0Process ss"
  using assms unfolding obj_only_def by (metis session_eqD)

lemma sess_proj:
  "ses a = Some ss \<Longrightarrow> f ss' = f ss \<Longrightarrow> map_option f ((ses(a \<mapsto> ss')) b) = map_option f (ses b)"
  by simp

definition ldr_part :: "promise set \<Rightarrow> supdrv \<Rightarrow> bool" where
  "ldr_part K s \<longleftrightarrow> distinct (d_pLdrImages (devext s)) \<and> set (d_pLdrImages (devext s)) = dom (imgs s) \<and>
     (\<forall>p im. imgs s p = Some im \<longrightarrow> img_ok im) \<and>
     (\<forall>p q im im'. imgs s p = Some im \<longrightarrow> imgs s q = Some im' \<longrightarrow> i_szName im = i_szName im' \<longrightarrow> p = q) \<and>
     (VMMR0_At_Base \<in> K \<longrightarrow> vmmr0_ok (devext s) (imgs s)) \<and> (\<exists>e. accounted e (img_acct s))"

lemma ldr_inv_part: "ldr_inv K s \<longleftrightarrow> obj_inv s \<and> ldr_part K s"
  by (auto simp: ldr_inv_def ldr_part_def)

lemma ldr_part_cong:
  assumes "ldr_part K s" "imgs t = imgs s" "d_pLdrImages (devext t) = d_pLdrImages (devext s)"
    "d_pvVMMR0 (devext t) = d_pvVMMR0 (devext s)" "d_pfnVMMR0EntryInt (devext t) = d_pfnVMMR0EntryInt (devext s)"
    "d_pfnVMMR0EntryFast (devext t) = d_pfnVMMR0EntryFast (devext s)" "d_pfnVMMR0EntryEx (devext t) = d_pfnVMMR0EntryEx (devext s)"
    "\<And>b. map_option s_pLdrUsage (sessions t b) = map_option s_pLdrUsage (sessions s b)"
  shows "ldr_part K t"
proof -
  have "img_acct t = img_acct s" using assms(2,8) by (simp add: img_acct_def)
  moreover have "vmmr0_ok (devext t) (imgs t) = vmmr0_ok (devext s) (imgs s)"
    by (simp only: vmmr0_ok_def assms(2,4-7))
  ultimately show ?thesis using assms(1-3) by (simp add: ldr_part_def)
qed

lemma mem_inv_cong:
  assumes inv: "mem_inv s" and h: "memobjs t = memobjs s"
    and b: "\<And>b. map_option s_Bundle (sessions t b) = map_option s_Bundle (sessions s b)"
  shows "mem_inv t"
proof -
  have ex: "\<exists>sb'. sessions s b = Some sb' \<and> s_Bundle sb' = s_Bundle sb" if "sessions t b = Some sb" for b sb
    using b[of b] that by (cases "sessions s b") auto
  have "sess_mem_ok (memobjs s) (s_Bundle sb)" if "sessions t b = Some sb" for b sb
    using ex[OF that] mem_inv_session[OF inv] by metis
  moreover have "set (mem_handles sb) \<inter> set (mem_handles sc) = {}"
    if bc: "sessions t b = Some sb" "sessions t c = Some sc" "b \<noteq> c" for b c sb sc
  proof -
    from ex[OF bc(1)] ex[OF bc(2)] obtain sb' sc' where e: "sessions s b = Some sb'" "sessions s c = Some sc'"
      "s_Bundle sb' = s_Bundle sb" "s_Bundle sc' = s_Bundle sc" by blast
    have "set (mem_handles sb') \<inter> set (mem_handles sc') = {}"
      using inv e(1,2) bc(3) unfolding mem_inv_def by blast
    then show ?thesis by (simp only: e(3,4))
  qed
  moreover have "heap_ok (memobjs s)" by (rule mem_inv_heap[OF inv])
  ultimately show ?thesis unfolding mem_inv_def h by blast
qed

lemma fact_inv_cong:
  assumes inv: "fact_inv s" and r: "d_pComponentFactoryHead (devext t) = d_pComponentFactoryHead (devext s)"
    and f: "factories t = factories s"
    and b: "\<And>b. map_option s_R0Process (sessions t b) = map_option s_R0Process (sessions s b)"
  shows "fact_inv t"
proof -
  have "reg_ok t r" if "reg_ok s r" for r
    using that b[of "r_pSession r"] unfolding reg_ok_def f by (cases "sessions t (r_pSession r)") auto
  with inv show ?thesis unfolding fact_inv_def r by blast
qed

text \<open>The fields of the device extension the GIP invariant is about.\<close>

definition same_gip :: "supdrv \<Rightarrow> supdrv \<Rightarrow> bool" where
  "same_gip s t \<longleftrightarrow> gips t = gips s \<and> d_hGipSpinlock (devext t) = d_hGipSpinlock (devext s) \<and>
     d_pGip (devext t) = d_pGip (devext s) \<and> d_GipMemObj (devext t) = d_GipMemObj (devext s) \<and>
     d_cGipUsers (devext t) = d_cGipUsers (devext s) \<and> d_fGipTimerRunning (devext t) = d_fGipTimerRunning (devext s)"

lemma gip_users_cong:
  assumes "\<And>b. map_option s_fGipReferenced (ses' b) = map_option s_fGipReferenced (ses b)"
  shows "gip_users ses' = gip_users ses"
proof -
  have "(\<exists>ss. ses' b = Some ss \<and> s_fGipReferenced ss) \<longleftrightarrow> (\<exists>ss. ses b = Some ss \<and> s_fGipReferenced ss)" for b
    using assms[of b] by (cases "ses' b"; cases "ses b") auto
  then show ?thesis by (simp add: gip_users_def)
qed

lemma gip_inv_cong:
  assumes inv: "gip_inv K s" and g: "same_gip s t" and h: "heap_ok (memobjs t)" "obj_at (memobjs t) (d_GipMemObj (devext s))"
    and c: "\<And>a ss. sessions s a = Some ss \<Longrightarrow> is_child (memobjs s) (d_GipMemObj (devext s)) (s_GipMapObjR3 ss) \<Longrightarrow>
        is_child (memobjs t) (d_GipMemObj (devext s)) (s_GipMapObjR3 ss)"
    and b: "\<And>b. map_option (\<lambda>ss. (s_GipMapObjR3 ss, s_fGipReferenced ss)) (sessions t b) =
        map_option (\<lambda>ss. (s_GipMapObjR3 ss, s_fGipReferenced ss)) (sessions s b)"
  shows "gip_inv K t"
proof -
  have ex: "\<exists>sb'. sessions s b = Some sb' \<and> s_GipMapObjR3 sb' = s_GipMapObjR3 sb \<and> s_fGipReferenced sb' = s_fGipReferenced sb"
    if "sessions t b = Some sb" for b sb
    using b[of b] that by (cases "sessions s b") auto
  have u: "gip_users (sessions t) = gip_users (sessions s)"
  proof (rule gip_users_cong)
    show "map_option s_fGipReferenced (sessions t c) = map_option s_fGipReferenced (sessions s c)" for c
      using b[of c] by (cases "sessions t c"; cases "sessions s c") auto
  qed
  have dom: "dom (sessions t) = dom (sessions s)"
  proof (rule set_eqI)
    show "c \<in> dom (sessions t) \<longleftrightarrow> c \<in> dom (sessions s)" for c
      using b[of c] by (cases "sessions t c"; cases "sessions s c") auto
  qed
  have m: "s_fGipReferenced sa \<and> is_child (memobjs t) (d_GipMemObj (devext s)) (s_GipMapObjR3 sa) \<and>
      (\<forall>b sb. b \<noteq> a \<longrightarrow> sessions t b = Some sb \<longrightarrow> s_GipMapObjR3 sb \<noteq> s_GipMapObjR3 sa)"
    if a: "sessions t a = Some sa" "s_GipMapObjR3 sa \<noteq> 0" for a sa
  proof -
    from ex[OF a(1)] obtain sa' where e: "sessions s a = Some sa'" "s_GipMapObjR3 sa' = s_GipMapObjR3 sa"
      "s_fGipReferenced sa' = s_fGipReferenced sa" by blast
    with a(2) have i: "s_fGipReferenced sa' \<and> is_child (memobjs s) (d_GipMemObj (devext s)) (s_GipMapObjR3 sa') \<and>
        (\<forall>b sb. b \<noteq> a \<longrightarrow> sessions s b = Some sb \<longrightarrow> s_GipMapObjR3 sb \<noteq> s_GipMapObjR3 sa')"
      using inv unfolding gip_inv_def by metis
    moreover have "s_GipMapObjR3 sb \<noteq> s_GipMapObjR3 sa" if "b \<noteq> a" "sessions t b = Some sb" for b sb
      using ex[OF that(2)] i that(1) e(2) by metis
    ultimately show ?thesis using c[OF e(1)] e by metis
  qed
  have e: "gips t = gips s" "d_hGipSpinlock (devext t) = d_hGipSpinlock (devext s)" "d_pGip (devext t) = d_pGip (devext s)"
    "d_GipMemObj (devext t) = d_GipMemObj (devext s)" "d_cGipUsers (devext t) = d_cGipUsers (devext s)"
    "d_fGipTimerRunning (devext t) = d_fGipTimerRunning (devext s)" using g by (simp_all add: same_gip_def)
  have i: "finite (dom (sessions s))" "\<not> d_hGipSpinlock (devext s)" "RT_VALID_PTR (d_pGip (devext s))"
    "\<exists>g. gips s (d_pGip (devext s)) = Some g \<and> page_ok g" "gip_count K (d_cGipUsers (devext s)) (gip_users (sessions s))"
    "d_fGipTimerRunning (devext s) \<longleftrightarrow> d_cGipUsers (devext s) \<noteq> 0" using inv unfolding gip_inv_def by blast+
  show ?thesis
    unfolding gip_inv_def e u dom by (intro conjI allI impI i h) (use m in blast)+
qed

section \<open>The combined invariant\<close>

text \<open>
  Every component is consistent, and the memory object of the GIP is in no session's bundles.
\<close>

definition drv_inv :: "promise set \<Rightarrow> supdrv \<Rightarrow> bool" where
  "drv_inv K s \<longleftrightarrow> sem_inv {#} s \<and> ldr_part K s \<and> mem_inv s \<and> fact_inv s \<and> gip_inv K s \<and>
     (\<forall>a ss. sessions s a = Some ss \<longrightarrow> d_GipMemObj (devext s) \<notin> set (mem_handles ss))"

lemma drv_inv_sem: "drv_inv K s \<Longrightarrow> sem_inv {#} s" by (simp add: drv_inv_def)
lemma drv_inv_obj: "drv_inv K s \<Longrightarrow> obj_inv s" by (simp add: drv_inv_def sem_inv_def)
lemma drv_inv_part: "drv_inv K s \<Longrightarrow> ldr_part K s" by (simp add: drv_inv_def)
lemma drv_inv_ldr: "drv_inv K s \<Longrightarrow> ldr_inv K s" by (simp add: ldr_inv_part drv_inv_obj drv_inv_part)
lemma drv_inv_mem: "drv_inv K s \<Longrightarrow> mem_inv s" by (simp add: drv_inv_def)
lemma drv_inv_fact: "drv_inv K s \<Longrightarrow> fact_inv s" by (simp add: drv_inv_def)
lemma drv_inv_gip: "drv_inv K s \<Longrightarrow> gip_inv K s" by (simp add: drv_inv_def)

lemma drv_inv_apart: "drv_inv K s \<Longrightarrow> sessions s a = Some ss \<Longrightarrow> d_GipMemObj (devext s) \<notin> set (mem_handles ss)"
  by (simp add: drv_inv_def)

lemma drv_inv_valid: "drv_inv K s \<Longrightarrow> sessions s a = Some ss \<Longrightarrow> SUP_IS_SESSION_VALID a ss"
  using sem_inv_session[OF drv_inv_sem] by (auto simp: sess_sem_ok_def)

lemma drv_inv_GipMemObj: "drv_inv K s \<Longrightarrow> heap_ok (memobjs s) \<and> obj_at (memobjs s) (d_GipMemObj (devext s))"
  using drv_inv_gip[of K s] by (auto simp: gip_inv_def)

lemmas drv_inv_parts = drv_inv_sem drv_inv_obj drv_inv_part drv_inv_ldr drv_inv_mem drv_inv_fact drv_inv_gip

lemma drv_invI:
  assumes "sem_inv {#} t" "ldr_part K t" "mem_inv t" "fact_inv t" "gip_inv K t"
    and "sessions s a = Some ss" "sessions t = (sessions s)(a \<mapsto> ss')" "drv_inv K s" "d_GipMemObj (devext t) = d_GipMemObj (devext s)"
    and "d_GipMemObj (devext s) \<notin> set (mem_handles ss')"
  shows "drv_inv K t"
  unfolding drv_inv_def
proof (intro conjI allI impI assms(1-5))
  fix b sb assume b: "sessions t b = Some sb"
  show "d_GipMemObj (devext t) \<notin> set (mem_handles sb)"
    using b assms(7,9,10) drv_inv_apart[OF assms(8)] by (auto split: if_splits)
qed

lemma obj_only_drv:
  assumes inv: "drv_inv K s" and o: "obj_only a s t" and sem: "sem_inv {#} t"
  shows "drv_inv K t"
proof -
  from obj_only_sessions[OF o] obtain ss ss' where a: "sessions s a = Some ss" and a': "sessions t = (sessions s)(a \<mapsto> ss')"
    and eq: "s_cRefs ss' = s_cRefs ss" "s_pLdrUsage ss' = s_pLdrUsage ss" "s_GipMapObjR3 ss' = s_GipMapObjR3 ss"
      "s_fGipReferenced ss' = s_fGipReferenced ss" "s_Bundle ss' = s_Bundle ss" "s_R0Process ss' = s_R0Process ss" by blast
  have t: "imgs t = imgs s" "memobjs t = memobjs s" "factories t = factories s" "gips t = gips s"
    and d: "(devext t)\<lparr>d_pObjs := [], d_pUsageFree := []\<rparr> = (devext s)\<lparr>d_pObjs := [], d_pUsageFree := []\<rparr>"
    using o by (auto simp: obj_only_def)
  note f = devext_eqD[OF d]
  show ?thesis
  proof (rule drv_invI[OF sem _ _ _ _ a a' inv])
    show "ldr_part K t" by (rule ldr_part_cong[OF drv_inv_part[OF inv]]) (use t f a a' eq in auto)
    show "mem_inv t" by (rule mem_inv_cong[OF drv_inv_mem[OF inv]]) (use t a a' eq in auto)
    show "fact_inv t" by (rule fact_inv_cong[OF drv_inv_fact[OF inv]]) (use t f a a' eq in auto)
    show "gip_inv K t" by (rule gip_inv_cong[OF drv_inv_gip[OF inv]])
      (use t f a a' eq drv_inv_GipMemObj[OF inv] in \<open>auto simp: same_gip_def\<close>)
    show "d_GipMemObj (devext t) = d_GipMemObj (devext s)" by (rule f)
    show "d_GipMemObj (devext s) \<notin> set (mem_handles ss')" using drv_inv_apart[OF inv a] unfolding eq .
  qed
qed

section \<open>Memory, factories, images and the GIP\<close>

abbreviation "blank_bundle \<equiv> \<lparr>b_aMem = replicate 64 memref0, b_cUsed = 0\<rparr>"

lemma cleanup_mem_drv:
  assumes inv: "drv_inv K s" and a: "sessions s a = Some ss"
  shows "\<exists>s'. supdrvCleanupSession_mem a env s = Some s' \<and> drv_inv K s' \<and>
    sessions s' = (sessions s)(a \<mapsto> ss\<lparr>s_Bundle := [blank_bundle]\<rparr>) \<and> devext s' = devext s \<and> imgs s' = imgs s \<and> objs s' = objs s \<and>
    ((\<forall>q. RT_SUCCESS (e_nf env q)) \<longrightarrow> (\<forall>p \<in> set (mem_handles ss). memobjs s' p = None)) \<and>
    (\<forall>q. memobjs s q = None \<longrightarrow> memobjs s' q = None)"
proof -
  let ?G = "d_GipMemObj (devext s)" and ?ss = "ss\<lparr>s_Bundle := [blank_bundle]\<rparr>"
  note mi = drv_inv_mem[OF inv]
  from cleanup_mem_ok[OF mi a, of env] obtain h' where
    e: "supdrvCleanupSession_mem a env s = Some (s\<lparr>sessions := (sessions s)(a \<mapsto> ?ss), memobjs := h'\<rparr>)"
    and mi': "mem_inv (s\<lparr>sessions := (sessions s)(a \<mapsto> ?ss), memobjs := h'\<rparr>)"
    and fr: "(\<forall>q. RT_SUCCESS (e_nf env q)) \<longrightarrow> (\<forall>p \<in> set (mem_handles ss). h' p = None)" by (elim exE conjE)
  let ?t = "s\<lparr>sessions := (sessions s)(a \<mapsto> ?ss), memobjs := h'\<rparr>"
  have sm: "sess_mem_ok (memobjs s) (s_Bundle ss)" by (rule mem_inv_session[OF mi a])
  then have ok: "\<forall>m \<in> set (all_refs (s_Bundle ss)). entry_ok (memobjs s) m" "distinct (mem_handles ss)"
    by (simp_all add: sess_mem_ok_def)
  from free_bundles_ok[OF mem_inv_heap[OF mi] ok, of "e_nf env"] obtain bs h2 where
    h2: "free_bundles (e_nf env) (s_Bundle ss) (memobjs s) = Some (bs, h2)" "\<forall>q. memobjs s q = None \<longrightarrow> h2 q = None"
    "\<forall>m. entry_ok (memobjs s) m \<longrightarrow> mr_MemObj m \<notin> mr_MemObj ` set (used_refs (s_Bundle ss)) \<longrightarrow> entry_ok h2 m" by blast
  have "put_session a (ss\<lparr>s_Bundle := take 1 bs\<rparr>) (s\<lparr>memobjs := h2\<rparr>) = ?t"
    using e a h2(1) by (simp add: supdrvCleanupSession_mem_def)
  from arg_cong[OF this, of memobjs] have h': "h' = h2" by simp
  have G: "?G \<notin> mr_MemObj ` set (used_refs (s_Bundle ss))" using drv_inv_apart[OF inv a] by simp
  have keep: "entry_ok h' m" if "entry_ok (memobjs s) m" "mr_MemObj m = ?G" for m
    using h2(3) that G h' by metis
  have nz: "?G \<noteq> 0" using drv_inv_GipMemObj[OF inv] obj_at_valid[of "memobjs s" ?G] by (auto simp: RT_VALID_PTR_nonnull)
  have obj: "obj_at h' ?G \<and> (c \<noteq> 0 \<longrightarrow> is_child h' ?G c)" if "c = 0 \<or> is_child (memobjs s) ?G c" for c
  proof -
    let ?m = "\<lparr>mr_MemObj = ?G, mr_MapObjR3 = c, mr_eType = MEMREF_TYPE_LOCKED\<rparr>"
    have "entry_ok (memobjs s) ?m" using that nz drv_inv_GipMemObj[OF inv] by (auto simp: entry_ok_def)
    from keep[OF this] nz show ?thesis by (auto simp: entry_ok_def)
  qed
  have oi: "obj_inv ?t" by (rule obj_inv_cong[OF drv_inv_obj[OF inv]]) (use a in auto)
  have t: "drv_inv K ?t"
  proof (rule drv_invI[OF _ _ mi' _ _ a _ inv])
    show se: "sessions ?t = (sessions s)(a \<mapsto> ?ss)" by simp
    show "sem_inv {#} ?t" by (rule sem_inv_same[OF drv_inv_sem[OF inv] a se _ _ _ oi types_kept_same]) simp_all
    show "ldr_part K ?t" by (rule ldr_part_cong[OF drv_inv_part[OF inv]]) (use a in auto)
    show "fact_inv ?t" by (rule fact_inv_cong[OF drv_inv_fact[OF inv]]) (use a in auto)
    show "gip_inv K ?t"
    proof (rule gip_inv_cong[OF drv_inv_gip[OF inv]])
      show "heap_ok (memobjs ?t)" using mem_inv_heap[OF mi'] .
      show "obj_at (memobjs ?t) ?G" using obj[of 0] by simp
      show "is_child (memobjs ?t) ?G (s_GipMapObjR3 sb)" if "is_child (memobjs s) ?G (s_GipMapObjR3 sb)" for b sb
        using obj[of "s_GipMapObjR3 sb"] that is_child_valid[OF mem_inv_heap[OF mi] that] by (auto simp: RT_VALID_PTR_nonnull)
    qed (use a in \<open>auto simp: same_gip_def\<close>)
  qed (use nz in \<open>auto simp: used_refs_def all_refs_def\<close>)
  show ?thesis using e t fr h2(2) h' by (intro exI[of _ ?t]) simp
qed

lemma set_regs_drv:
  assumes inv: "drv_inv K s" and f: "fact_inv (set_regs rs s)"
  shows "drv_inv K (set_regs rs s)"
proof -
  let ?t = "set_regs rs s"
  have s: "sessions ?t = sessions s" "memobjs ?t = memobjs s" "imgs ?t = imgs s" "objs ?t = objs s"
    "devext ?t = (devext s)\<lparr>d_pComponentFactoryHead := rs\<rparr>" "gips ?t = gips s" "calls ?t = calls s"
    by (simp_all add: set_regs_def)
  have oi: "obj_inv ?t" by (rule obj_inv_cong[OF drv_inv_obj[OF inv]]) (simp_all add: s)
  have "sess_sem_ok {#} ?t a ss = sess_sem_ok {#} s a ss" for a ss
    by (simp add: sess_sem_ok_def sem_obj_def s)
  then have "sem_inv {#} ?t" using drv_inv_sem[OF inv] oi by (simp add: sem_inv_def s)
  moreover have "ldr_part K ?t" by (rule ldr_part_cong[OF drv_inv_part[OF inv]]) (simp_all add: s)
  moreover have "mem_inv ?t" by (rule mem_inv_cong[OF drv_inv_mem[OF inv]]) (simp_all add: s)
  moreover have "gip_inv K ?t"
    by (rule gip_inv_cong[OF drv_inv_gip[OF inv]]) (use drv_inv_GipMemObj[OF inv] in \<open>simp_all add: s same_gip_def\<close>)
  ultimately show ?thesis using f drv_inv_apart[OF inv] by (simp add: drv_inv_def s)
qed

lemma cleanup_factories_drv:
  assumes inv: "drv_inv K s"
  shows "drv_inv K (supdrvCleanupSession_factories a s)"
    "sessions (supdrvCleanupSession_factories a s) = sessions s"
    "memobjs (supdrvCleanupSession_factories a s) = memobjs s"
    "d_GipMemObj (devext (supdrvCleanupSession_factories a s)) = d_GipMemObj (devext s)"
    "a \<notin> r_pSession ` set (d_pComponentFactoryHead (devext (supdrvCleanupSession_factories a s)))"
proof -
  have e: "supdrvCleanupSession_factories a s = set_regs (filter (\<lambda>r. r_pSession r \<noteq> a) (d_pComponentFactoryHead (devext s))) s"
    by (simp add: supdrvCleanupSession_factories_def regs_cleanup_filter)
  from set_regs_drv[OF inv fact_inv_filter[OF drv_inv_fact[OF inv]], of "\<lambda>r. r_pSession r \<noteq> a"]
  show "drv_inv K (supdrvCleanupSession_factories a s)"
    "sessions (supdrvCleanupSession_factories a s) = sessions s"
    "memobjs (supdrvCleanupSession_factories a s) = memobjs s"
    "d_GipMemObj (devext (supdrvCleanupSession_factories a s)) = d_GipMemObj (devext s)"
    "a \<notin> r_pSession ` set (d_pComponentFactoryHead (devext (supdrvCleanupSession_factories a s)))"
    unfolding e by (auto simp: set_regs_def)
qed

text \<open>What freeing images leaves of the device extension.\<close>

definition ldr_frame :: "supdrv \<Rightarrow> supdrv \<Rightarrow> bool" where
  "ldr_frame s t \<longleftrightarrow> same_gip s t \<and> memobjs t = memobjs s \<and>
     d_pComponentFactoryHead (devext t) = d_pComponentFactoryHead (devext s)"

lemma ldr_frame_trans: "ldr_frame s t \<Longrightarrow> ldr_frame t u \<Longrightarrow> ldr_frame s u"
  by (simp add: ldr_frame_def same_gip_def)

lemma ldr_frame_devext: "devext t = devext s \<Longrightarrow> gips t = gips s \<Longrightarrow> memobjs t = memobjs s \<Longrightarrow> ldr_frame s t"
  by (simp add: ldr_frame_def same_gip_def)

lemma clear_dtors_same: "ldr_clear_dtors im ps s = Some s' \<Longrightarrow> devext s' = devext s \<and> gips s' = gips s \<and> memobjs s' = memobjs s"
  by (induction ps arbitrary: s) (auto split: Option.bind_splits if_splits)

lemma LdrFree_frame: "supdrvLdrFree p s = Some t \<Longrightarrow> ldr_frame s t"
  by (auto simp: supdrvLdrFree_def Let_def supdrvLdrUnsetVMMR0EPs_def ldr_frame_def same_gip_def
      split: Option.bind_splits if_splits dest!: clear_dtors_same)

lemma ldr_frame_put_img: "cleanupImgs us (put_img p im s) = Some t \<Longrightarrow> ldr_frame s (put_img p im s)"
  by (simp add: ldr_frame_def same_gip_def)

lemma cleanupImgs_frame: "cleanupImgs us s = Some t \<Longrightarrow> ldr_frame s t"
proof (induction us arbitrary: s)
  case Nil
  then show ?case by (simp add: ldr_frame_def same_gip_def)
next
  case (Cons u us)
  then obtain s1 where s1: "ldr_frame s s1" "cleanupImgs us s1 = Some t"
    by (auto split: Option.bind_splits if_splits dest: LdrFree_frame ldr_frame_put_img)
  from ldr_frame_trans[OF s1(1) Cons.IH[OF s1(2)]] show ?case .
qed

lemma objs_shrunk_types:
  assumes "objs_shrunk s t"
  shows "types_kept s t"
  unfolding types_kept_def
proof (intro allI impI)
  fix p ob ob' assume "objs s p = Some ob" "objs t p = Some ob'"
  moreover have "map_option (\<lambda>ob. ob\<lparr>o_pfnDestructor := 0\<rparr>) (objs t p) = map_option (\<lambda>ob. ob\<lparr>o_pfnDestructor := 0\<rparr>) (objs s p)"
    using assms by (simp add: objs_shrunk_def)
  ultimately have "ob'\<lparr>o_pfnDestructor := 0\<rparr> = ob\<lparr>o_pfnDestructor := 0\<rparr>" by simp
  from arg_cong[OF this, of o_enmType] show "o_enmType ob' = o_enmType ob" by simp
qed

lemma cleanup_ldr_drv:
  assumes inv: "drv_inv K s" and a: "sessions s a = Some ss"
  shows "\<exists>s'. supdrvCleanupSession_ldr a s = Some s' \<and> drv_inv K s' \<and>
    sessions s' = (sessions s)(a \<mapsto> ss\<lparr>s_pLdrUsage := []\<rparr>) \<and> ldr_frame s s'"
proof -
  from cleanup_ldr_ok[OF drv_inv_ldr[OF inv] a] obtain s' where s': "supdrvCleanupSession_ldr a s = Some s'" "ldr_inv K s'"
    "sessions s' = (sessions s)(a \<mapsto> ss\<lparr>s_pLdrUsage := []\<rparr>)" "objs_shrunk s s'" "memobjs s' = memobjs s" "factories s' = factories s"
    by blast
  have "ldr_frame (put_session a (ss\<lparr>s_pLdrUsage := []\<rparr>) s) s'"
    using s'(1) a by (auto simp: supdrvCleanupSession_ldr_def dest: cleanupImgs_frame)
  then have fr: "ldr_frame s s'" by (simp add: ldr_frame_def same_gip_def)
  have parts: "obj_inv s'" "ldr_part K s'" using s'(2) by (simp_all add: ldr_inv_part)
  have "drv_inv K s'"
  proof (rule drv_invI[OF _ parts(2) _ _ _ a s'(3) inv])
    show "sem_inv {#} s'"
      by (rule sem_inv_same[OF drv_inv_sem[OF inv] a s'(3) _ _ _ parts(1) objs_shrunk_types[OF s'(4)]]) simp_all
    show "mem_inv s'" by (rule mem_inv_cong[OF drv_inv_mem[OF inv]]) (use s' a in auto)
    show "fact_inv s'" by (rule fact_inv_cong[OF drv_inv_fact[OF inv]]) (use s' a fr in \<open>auto simp: ldr_frame_def\<close>)
    show "gip_inv K s'"
      by (rule gip_inv_cong[OF drv_inv_gip[OF inv]]) (use drv_inv_GipMemObj[OF inv] s' a fr in \<open>auto simp: ldr_frame_def\<close>)
    show "d_GipMemObj (devext s) \<notin> set (mem_handles (ss\<lparr>s_pLdrUsage := []\<rparr>))"
      using drv_inv_apart[OF inv a] by simp
  qed (use fr in \<open>simp_all add: ldr_frame_def same_gip_def\<close>)
  with s' fr show ?thesis by blast
qed

definition gip_only :: "addr \<Rightarrow> (addr \<Rightarrow> rc) \<Rightarrow> supdrv \<Rightarrow> supdrv \<Rightarrow> bool" where
  "gip_only a nf s t \<longleftrightarrow> objs t = objs s \<and> imgs t = imgs s \<and> factories t = factories s \<and>
     d_pObjs (devext t) = d_pObjs (devext s) \<and> d_pLdrImages (devext t) = d_pLdrImages (devext s) \<and>
     d_pvVMMR0 (devext t) = d_pvVMMR0 (devext s) \<and> d_pfnVMMR0EntryInt (devext t) = d_pfnVMMR0EntryInt (devext s) \<and>
     d_pfnVMMR0EntryFast (devext t) = d_pfnVMMR0EntryFast (devext s) \<and> d_pfnVMMR0EntryEx (devext t) = d_pfnVMMR0EntryEx (devext s) \<and>
     d_pComponentFactoryHead (devext t) = d_pComponentFactoryHead (devext s) \<and> d_GipMemObj (devext t) = d_GipMemObj (devext s) \<and>
     (\<exists>ss ss'. sessions s a = Some ss \<and> sessions t = (sessions s)(a \<mapsto> ss') \<and>
        ss'\<lparr>s_GipMapObjR3 := 0, s_fGipReferenced := False\<rparr> = ss\<lparr>s_GipMapObjR3 := 0, s_fGipReferenced := False\<rparr> \<and>
        (memobjs t = memobjs s \<or> s_GipMapObjR3 ss \<noteq> 0 \<and>
          (\<exists>r. RTR0MemObjFree nf (s_GipMapObjR3 ss) False (memobjs s) = Some (r, memobjs t))))"

lemma gip_only_refl: "sessions s a = Some ss \<Longrightarrow> gip_only a nf s s"
  by (auto simp: gip_only_def fun_upd_idem intro!: exI[of _ ss])

lemma GipUnmap_frame: "SUPR0GipUnmap a nf rcStop s = Some (r, t) \<Longrightarrow> gip_only a nf s t"
  by (auto simp: SUPR0GipUnmap_def Let_def gip_only_refl split: Option.bind_splits if_splits)
    (auto simp: gip_only_def gip_suspend_def put_session_def upd_devext_def)

lemma cleanup_gip_frame:
  assumes "supdrvCleanupSession_gip a nf rcStop s = Some t" "sessions s a = Some ss"
  shows "gip_only a nf s t"
proof (cases "s_GipMapObjR3 ss = 0")
  case True
  with assms show ?thesis by (auto simp: supdrvCleanupSession_gip_def gip_only_refl)
next
  case False
  with assms obtain r u su where u: "SUPR0GipUnmap a nf rcStop s = Some (r, u)" "sessions u a = Some su"
    "t = put_session a (su\<lparr>s_fGipReferenced := False\<rparr>) u"
    by (auto simp: supdrvCleanupSession_gip_def split: Option.bind_splits)
  note gip = GipUnmap_frame[OF u(1)]
  then obtain s0 where s0: "sessions s a = Some s0" "sessions u = (sessions s)(a \<mapsto> su)"
    "su\<lparr>s_GipMapObjR3 := 0, s_fGipReferenced := False\<rparr> = s0\<lparr>s_GipMapObjR3 := 0, s_fGipReferenced := False\<rparr>"
    using u(2) by (auto simp: gip_only_def)
  have "sessions t = (sessions s)(a \<mapsto> su\<lparr>s_fGipReferenced := False\<rparr>)"
    "su\<lparr>s_fGipReferenced := False\<rparr>\<lparr>s_GipMapObjR3 := 0, s_fGipReferenced := False\<rparr> = s0\<lparr>s_GipMapObjR3 := 0, s_fGipReferenced := False\<rparr>"
    using s0 by (simp_all add: u(3))
  with gip s0(1) show ?thesis unfolding gip_only_def u(3) by auto
qed

lemma gip_eqD:
  assumes "(d :: SUPDRVSESSION)\<lparr>s_GipMapObjR3 := 0, s_fGipReferenced := False\<rparr> = d'\<lparr>s_GipMapObjR3 := 0, s_fGipReferenced := False\<rparr>"
  shows "s_u32Cookie d = s_u32Cookie d'" "s_cRefs d = s_cRefs d'" "s_pLdrUsage d = s_pLdrUsage d'" "s_Bundle d = s_Bundle d'"
    "s_R0Process d = s_R0Process d'" "s_pUsage d = s_pUsage d'" "s_hHandleTable d = s_hHandleTable d'"
  using assms by (cases d; cases d'; simp)+

text \<open>Freeing a mapping of one object keeps the bundles of sessions that do not have that object.\<close>

lemma mem_inv_free_foreign:
  assumes mi: "mem_inv s" and k: "keeps_others p (memobjs s) h" "heap_ok h" "is_child (memobjs s) G p"
    and G: "\<And>b sb. sessions s b = Some sb \<Longrightarrow> G \<notin> set (mem_handles sb)" "G \<noteq> 0"
  shows "mem_inv (s\<lparr>memobjs := h\<rparr>)"
  unfolding mem_inv_def
proof (intro conjI allI impI)
  show "heap_ok (memobjs (s\<lparr>memobjs := h\<rparr>))" using k(2) by simp
  fix a ss assume a: "sessions (s\<lparr>memobjs := h\<rparr>) a = Some ss"
  then have a': "sessions s a = Some ss" by simp
  have sm: "sess_mem_ok (memobjs s) (s_Bundle ss)" by (rule mem_inv_session[OF mi a'])
  have "entry_ok h m" if m: "m \<in> set (all_refs (s_Bundle ss))" for m
  proof (rule entry_ok_keep[OF k(1)])
    show "entry_ok (memobjs s) m" using sm m by (simp add: sess_mem_ok_def)
    have "G \<noteq> mr_MemObj m"
    proof (cases "mem_used m")
      case True
      with m have "mr_MemObj m \<in> set (mem_handles ss)" by (simp add: set_used_refs)
      then show ?thesis using G(1)[OF a'] by metis
    qed (use G(2) in simp)
    then show "obj_at (memobjs s) p \<and> p \<noteq> mr_MemObj m \<or> is_child (memobjs s) G p \<and> G \<noteq> mr_MemObj m"
      using k(3) by blast
  qed
  with sm show "sess_mem_ok (memobjs (s\<lparr>memobjs := h\<rparr>)) (s_Bundle ss)" by (simp add: sess_mem_ok_def)
  fix b sb assume "sessions (s\<lparr>memobjs := h\<rparr>) b = Some sb" "a \<noteq> b"
  with mi a' show "set (mem_handles ss) \<inter> set (mem_handles sb) = {}" unfolding mem_inv_def by simp
qed

lemma cleanup_gip_drv:
  assumes inv: "drv_inv K s" and a: "sessions s a = Some ss" and stop: "RT_SUCCESS rcStop"
    and own: "nf (s_GipMapObjR3 ss) = 0"
  shows "\<exists>s' ss'. supdrvCleanupSession_gip a nf rcStop s = Some s' \<and> drv_inv K s' \<and> sessions s' = (sessions s)(a \<mapsto> ss') \<and>
    (s_fGipReferenced ss' \<longrightarrow> s_fGipReferenced ss \<and> s_GipMapObjR3 ss = 0) \<and> s_GipMapObjR3 ss' = 0 \<and> gip_only a nf s s' \<and> (\<forall>q. memobjs s q = None \<longrightarrow> memobjs s' q = None)"
proof -
  let ?G = "d_GipMemObj (devext s)"
  from cleanup_gip_ok[where nf = nf, OF drv_inv_gip[OF inv] a stop drv_inv_valid[OF inv a] own] obtain s' ss' where
    s': "supdrvCleanupSession_gip a nf rcStop s = Some s'" "gip_inv K s'" "sessions s' = (sessions s)(a \<mapsto> ss')"
      "s_fGipReferenced ss' \<longrightarrow> s_fGipReferenced ss \<and> s_GipMapObjR3 ss = 0" "s_GipMapObjR3 ss' = 0" by blast
  note fr = cleanup_gip_frame[OF s'(1) a]
  from fr obtain s0 s1 where f0: "sessions s a = Some s0" "sessions s' = (sessions s)(a \<mapsto> s1)"
    "s1\<lparr>s_GipMapObjR3 := 0, s_fGipReferenced := False\<rparr> = s0\<lparr>s_GipMapObjR3 := 0, s_fGipReferenced := False\<rparr>"
    "memobjs s' = memobjs s \<or> s_GipMapObjR3 s0 \<noteq> 0 \<and> (\<exists>r. RTR0MemObjFree nf (s_GipMapObjR3 s0) False (memobjs s) = Some (r, memobjs s'))"
    unfolding gip_only_def by blast
  have "s0 = ss" using f0(1) a by simp
  moreover have "s1 = ss'" using fun_cong[OF f0(2), of a] s'(3) by simp
  ultimately have "ss'\<lparr>s_GipMapObjR3 := 0, s_fGipReferenced := False\<rparr> = ss\<lparr>s_GipMapObjR3 := 0, s_fGipReferenced := False\<rparr>"
    and m: "memobjs s' = memobjs s \<or> s_GipMapObjR3 ss \<noteq> 0 \<and> (\<exists>r. RTR0MemObjFree nf (s_GipMapObjR3 ss) False (memobjs s) = Some (r, memobjs s'))"
    using f0(3,4) by simp_all
  note eq = gip_eqD[OF this(1)]
  have f: "objs s' = objs s" "imgs s' = imgs s" "factories s' = factories s" "d_pObjs (devext s') = d_pObjs (devext s)"
     "d_GipMemObj (devext s') = ?G" using fr by (auto simp: gip_only_def)
  have oi: "obj_inv s'" by (rule obj_inv_cong[OF drv_inv_obj[OF inv]]) (use s'(3) a eq f in auto)
  have h: "mem_inv (s\<lparr>memobjs := memobjs s'\<rparr>) \<and> (\<forall>q. memobjs s q = None \<longrightarrow> memobjs s' q = None)"
  proof (cases "memobjs s' = memobjs s")
    case True
    with drv_inv_mem[OF inv] show ?thesis by simp
  next
    case False
    with m obtain r where nz: "s_GipMapObjR3 ss \<noteq> 0"
      and r: "RTR0MemObjFree nf (s_GipMapObjR3 ss) False (memobjs s) = Some (r, memobjs s')" by blast
    have c: "is_child (memobjs s) ?G (s_GipMapObjR3 ss)" using gip_inv_session[OF drv_inv_gip[OF inv] a nz] by blast
    from free_mapping_ok[OF conjunct1[OF drv_inv_GipMemObj[OF inv]] c, of nf False] r
    have k: "keeps_others (s_GipMapObjR3 ss) (memobjs s) (memobjs s')" "heap_ok (memobjs s')" by auto
    have "?G \<noteq> 0" using drv_inv_GipMemObj[OF inv] obj_at_valid[of "memobjs s" ?G] by auto
    from mem_inv_free_foreign[OF drv_inv_mem[OF inv] k c drv_inv_apart[OF inv] this] k(1) show ?thesis
      by (simp add: keeps_others_def)
  qed
  have "drv_inv K s'"
  proof (rule drv_invI[OF _ _ _ _ s'(2) a s'(3) inv f(5)])
    show "sem_inv {#} s'" by (rule sem_inv_same[OF drv_inv_sem[OF inv] a s'(3) _ _ _ oi types_kept_same]) (simp_all add: eq f)
    show "ldr_part K s'" by (rule ldr_part_cong[OF drv_inv_part[OF inv]]) (use s'(3) a eq fr in \<open>auto simp: gip_only_def\<close>)
    show "mem_inv s'" by (rule mem_inv_cong[OF conjunct1[OF h]]) (use s'(3) a eq in auto)
    show "fact_inv s'" by (rule fact_inv_cong[OF drv_inv_fact[OF inv]]) (use s'(3) a eq fr in \<open>auto simp: gip_only_def\<close>)
    show "?G \<notin> set (mem_handles ss')" using drv_inv_apart[OF inv a] unfolding eq .
  qed
  with s' fr h show ?thesis by blast
qed

section \<open>The whole cleanup\<close>

lemma gip_only_session:
  assumes "gip_only a nf s t" "sessions s a = Some ss" "sessions t a = Some ss'"
  shows "ss'\<lparr>s_GipMapObjR3 := 0, s_fGipReferenced := False\<rparr> = ss\<lparr>s_GipMapObjR3 := 0, s_fGipReferenced := False\<rparr>"
  using assms by (auto simp: gip_only_def)

definition sess_empty :: "promise set \<Rightarrow> SUPDRVSESSION \<Rightarrow> bool" where
  "sess_empty K ss \<longleftrightarrow> s_hHandleTable ss = None \<and> s_pUsage ss = [] \<and> s_Bundle ss = [blank_bundle] \<and> s_pLdrUsage ss = [] \<and>
     s_GipMapObjR3 ss = 0 \<and> (GIP_Ref_Mapped \<in> K \<longrightarrow> \<not> s_fGipReferenced ss)"

lemma cleanup_session_ok:
  assumes inv: "drv_inv K s" and a: "sessions s a = Some ss" and stop: "RT_SUCCESS rcStop" and nf: "\<And>q. e_nf env q = 0"
    and own: "GIP_Ref_Mapped \<in> K \<longrightarrow> s_fGipReferenced ss \<longrightarrow> s_GipMapObjR3 ss \<noteq> 0"
  shows "\<exists>s' ss'. supdrvCleanupSession a env rcStop s = Some s' \<and> drv_inv K s' \<and> sessions s' = (sessions s)(a \<mapsto> ss') \<and>
    sess_empty K ss' \<and> a \<notin> r_pSession ` set (d_pComponentFactoryHead (devext s')) \<and>
    (\<forall>p \<in> set (mem_handles ss). memobjs s' p = None)"
proof -
  have nfs: "\<forall>q. RT_SUCCESS (e_nf env q)" using nf by simp
  from handle_destroy_ok[OF drv_inv_sem[OF inv] a] obtain s1 ss1 where
    s1: "sess_handle_destroy a s = Some s1" "sem_inv {#} s1" "obj_only a s s1" "sessions s1 a = Some ss1" "s_hHandleTable ss1 = None"
    by blast
  note d1 = obj_only_drv[OF inv s1(3,2)]
  from cleanup_objs_ok[OF s1(2,4,5)] obtain s2 where s2: "supdrvCleanupSession_objs a s1 = Some s2" "sem_inv {#} s2"
    "obj_only a s1 s2" "sessions s2 = (sessions s1)(a \<mapsto> ss1\<lparr>s_pUsage := []\<rparr>)" by blast
  note d2 = obj_only_drv[OF d1 s2(3,2)]
  let ?ss2 = "ss1\<lparr>s_pUsage := []\<rparr>"
  have a2: "sessions s2 a = Some ?ss2" using s2(4) by simp
  from cleanup_mem_drv[OF d2 a2, of env] obtain s3 where s3: "supdrvCleanupSession_mem a env s2 = Some s3" "drv_inv K s3"
    "sessions s3 = (sessions s2)(a \<mapsto> ?ss2\<lparr>s_Bundle := [blank_bundle]\<rparr>)"
    "\<forall>p \<in> set (mem_handles ?ss2). memobjs s3 p = None" using nfs by blast
  let ?ss3 = "?ss2\<lparr>s_Bundle := [blank_bundle]\<rparr>" and ?s4 = "supdrvCleanupSession_factories a s3"
  have a3: "sessions s3 a = Some ?ss3" using s3(3) by simp
  note f = cleanup_factories_drv[OF s3(2), of a]
  have a4: "sessions ?s4 a = Some ?ss3" using f(2) a3 by simp
  from cleanup_ldr_drv[OF f(1) a4] obtain s5 where s5: "supdrvCleanupSession_ldr a ?s4 = Some s5" "drv_inv K s5"
    "sessions s5 = (sessions ?s4)(a \<mapsto> ?ss3\<lparr>s_pLdrUsage := []\<rparr>)" "ldr_frame ?s4 s5" by blast
  let ?ss5 = "?ss3\<lparr>s_pLdrUsage := []\<rparr>"
  have a5: "sessions s5 a = Some ?ss5" using s5(3) by simp
  have ob: "obj_only a s s1" by (rule s1(3))
  then have e1: "s_GipMapObjR3 ss1 = s_GipMapObjR3 ss" "s_fGipReferenced ss1 = s_fGipReferenced ss" "s_Bundle ss1 = s_Bundle ss"
    using a s1(4) obj_only_sessions[OF ob] by auto
  have g1: "GIP_Ref_Mapped \<in> K \<longrightarrow> s_fGipReferenced ?ss5 \<longrightarrow> s_GipMapObjR3 ?ss5 \<noteq> 0" using own e1 by simp
  from cleanup_gip_drv[OF s5(2) a5 stop, where nf = "e_nf env"] nf obtain s6 ss6 where
    s6: "supdrvCleanupSession_gip a (e_nf env) rcStop s5 = Some s6" "drv_inv K s6" "sessions s6 = (sessions s5)(a \<mapsto> ss6)"
      "s_fGipReferenced ss6 \<longrightarrow> s_fGipReferenced ?ss5 \<and> s_GipMapObjR3 ?ss5 = 0" "s_GipMapObjR3 ss6 = 0" "gip_only a (e_nf env) s5 s6" "\<And>q. memobjs s5 q = None \<Longrightarrow> memobjs s6 q = None"
    by auto
  have "sessions s6 a = Some ss6" using s6(3) by simp
  note e6 = gip_eqD[OF gip_only_session[OF s6(6) a5 this]]
  have "sess_empty K ss6" unfolding sess_empty_def using s6(4,5) g1 e6 s1(5) by auto
  moreover have "sessions s1 = (sessions s)(a \<mapsto> ss1)"
    using s1(3,4) by (auto simp: obj_only_def)
  then have "sessions s6 = (sessions s)(a \<mapsto> ss6)" using s6(3) s5(3) f(2) s3(3) s2(4) by simp
  moreover have "supdrvCleanupSession a env rcStop s = Some s6"
    using s1(1) s2(1) s3(1) s5(1) s6(1) by (simp add: supdrvCleanupSession_def)
  moreover have "a \<notin> r_pSession ` set (d_pComponentFactoryHead (devext s6))"
    using f(5) s5(4) s6(6) by (simp add: ldr_frame_def gip_only_def)
  moreover have "memobjs s6 p = None" if "p \<in> set (mem_handles ss)" for p
  proof -
    have "s_Bundle ?ss2 = s_Bundle ss" using e1(3) by simp
    with that have "p \<in> set (mem_handles ?ss2)" by metis
    with s3(4) have "memobjs s3 p = None" by blast
    then have "memobjs s5 p = None" using f(3) s5(4) by (simp add: ldr_frame_def)
    then show ?thesis by (rule s6(7))
  qed
  ultimately show ?thesis using s6(2) by blast
qed

section \<open>A session comes and goes\<close>

lemma drv_gone:
  assumes inv: "drv_inv K s" and a: "sessions s a = Some ss" "sess_empty K ss"
    and f: "a \<notin> r_pSession ` set (d_pComponentFactoryHead (devext s))"
  shows "drv_inv K (session_gone a s)"
proof -
  let ?t = "session_gone a s"
  have t: "sessions ?t = (sessions s)(a := None)" "devext ?t = devext s" "objs ?t = objs s" "imgs ?t = imgs s"
    "memobjs ?t = memobjs s" "factories ?t = factories s" "gips ?t = gips s"
    by (simp_all add: session_gone_def)
  have "acct_close a (obj_acct s) = Some (obj_acct ?t)"
    using a by (auto simp: acct_close_def obj_acct_def t sess_empty_def)
  from acct_close_accounted[OF this] drv_inv_obj[OF inv] have oi: "obj_inv ?t"
    by (simp add: obj_inv_def t)
  have ac: "acct_close a (img_acct s) = Some (img_acct ?t)"
    using a by (auto simp: acct_close_def img_acct_def t sess_empty_def)
  have sub: "sessions s b = Some sb" "b \<noteq> a" if "sessions ?t b = Some sb" for b sb
    using that by (auto simp: t split: if_splits)
  have "sess_sem_ok {#} ?t b sb" if "sessions ?t b = Some sb" for b sb
    using sem_inv_session[OF drv_inv_sem[OF inv] sub(1)[OF that]] by (simp add: sess_sem_ok_def sem_obj_def t(3))
  then have "sem_inv {#} ?t" using oi by (simp add: sem_inv_def)
  moreover have "ldr_part K ?t"
    using drv_inv_part[OF inv] acct_close_accounted[OF ac] unfolding ldr_part_def t by blast
  moreover have "mem_inv ?t"
    using drv_inv_mem[OF inv] sub unfolding mem_inv_def t(5) by blast
  moreover have "fact_inv ?t"
    using drv_inv_fact[OF inv] f unfolding fact_inv_def reg_ok_def t(1,2,6) by (metis fun_upd_other imageI)
  moreover have "gip_inv K ?t"
  proof -
    let ?U = "\<lambda>s. {b. \<exists>sb. sessions s b = Some sb \<and> s_fGipReferenced sb}"
    have sub': "?U ?t \<subseteq> ?U s" and same: "GIP_Ref_Mapped \<in> K \<Longrightarrow> ?U ?t = ?U s"
      using a by (auto simp: t sess_empty_def)
    have fin0: "finite (dom (sessions s))" and c: "gip_count K (d_cGipUsers (devext s)) (gip_users (sessions s))"
      using drv_inv_gip[OF inv] unfolding gip_inv_def by blast+
    have "finite (?U s)" by (rule finite_subset[OF _ fin0]) auto
    from card_mono[OF this sub'] c same have u: "gip_count K (d_cGipUsers (devext s)) (gip_users (sessions ?t))"
      by (auto simp: gip_users_def gip_count_def)
    have fin: "finite (dom (sessions ?t))"
      using fin0 by (simp add: t)
    show ?thesis
      unfolding gip_inv_def t(2,5,7) using u
      using drv_inv_gip[OF inv, unfolded gip_inv_def] fin sub by blast
  qed
  ultimately show ?thesis using inv sub unfolding drv_inv_def t(2) by blast
qed

lemma drv_new:
  assumes inv: "drv_inv K s" and a: "sessions s a = None" "RT_VALID_PTR a"
  shows "drv_inv K (put_session a (session_new fUser fUnrestricted (Some session_table) env) s)"
proof -
  let ?ss = "session_new fUser fUnrestricted (Some session_table) env"
  let ?t = "put_session a ?ss s"
  have n: "s_pUsage ?ss = []" "s_pLdrUsage ?ss = []" "s_Bundle ?ss = [blank_bundle]" "\<not> s_fGipReferenced ?ss" "s_GipMapObjR3 ?ss = 0"
    "s_hHandleTable ?ss = Some session_table" "s_u32Cookie ?ss = BIRD_INV" "s_cRefs ?ss = 1"
    by (simp_all add: session_new_def)
  have bl: "mem_handles ?ss = []" by (simp add: n used_refs_def all_refs_def)
  have "acct_open a (obj_acct s) = Some (obj_acct ?t)" using a by (simp add: acct_open_def n(1))
  from acct_open_accounted[OF this] drv_inv_obj[OF inv] have oi: "obj_inv ?t" by (simp add: obj_inv_def)
  have ac: "acct_open a (img_acct s) = Some (img_acct ?t)" using a by (simp add: acct_open_def n(2))
  have old: "b \<noteq> a \<and> sessions s b = Some sb \<or> b = a \<and> sb = ?ss" if "sessions ?t b = Some sb" for b sb
    using that by (auto split: if_splits)
  have "sess_sem_ok {#} ?t b sb" if "sessions ?t b = Some sb" for b sb
    using old[OF that]
  proof
    assume "b \<noteq> a \<and> sessions s b = Some sb"
    with sem_inv_session[OF drv_inv_sem[OF inv], of b sb] show ?thesis by (auto simp: sess_sem_ok_def sem_obj_def)
  next
    assume b: "b = a \<and> sb = ?ss"
    have "sess_handles ?ss = Map.empty" by (simp add: sess_handles_def n session_table_inv(2))
    with b a n session_table_inv(1) show ?thesis by (simp add: sess_sem_ok_def SUP_IS_SESSION_VALID_def)
  qed
  then have "sem_inv {#} ?t" using oi by (simp add: sem_inv_def)
  moreover have "ldr_part K ?t"
    using drv_inv_part[OF inv] acct_open_accounted[OF ac] unfolding ldr_part_def by auto
  moreover have "mem_inv ?t"
  proof -
    have "sess_mem_ok (memobjs s) (s_Bundle ?ss)"
      by (simp add: n(3) sess_mem_ok_def bundle_ok_def used_refs_def all_refs_def)
    with drv_inv_mem[OF inv] bl show ?thesis unfolding mem_inv_def by (simp del: set_map)
  qed
  moreover have "fact_inv ?t"
    using drv_inv_fact[OF inv] a(1) unfolding fact_inv_def reg_ok_def by (auto; metis option.distinct(1))
  moreover have "gip_inv K ?t"
  proof -
    have "{b. \<exists>sb. sessions ?t b = Some sb \<and> s_fGipReferenced sb} = {b. \<exists>sb. sessions s b = Some sb \<and> s_fGipReferenced sb}"
      using a n(4) by auto
    then have u: "gip_users (sessions ?t) = gip_users (sessions s)" by (simp add: gip_users_def)
    have m: "s_fGipReferenced sb \<and> is_child (memobjs s) (d_GipMemObj (devext s)) (s_GipMapObjR3 sb) \<and>
        (\<forall>c sc. c \<noteq> b \<longrightarrow> sessions ?t c = Some sc \<longrightarrow> s_GipMapObjR3 sc \<noteq> s_GipMapObjR3 sb)"
      if "sessions ?t b = Some sb" "s_GipMapObjR3 sb \<noteq> 0" for b sb
    proof -
      have b: "sessions s b = Some sb" using old[OF that(1)] that(2) n(5) by auto
      have "s_GipMapObjR3 sc \<noteq> s_GipMapObjR3 sb" if "c \<noteq> b" "sessions ?t c = Some sc" for c sc
        using old[OF that(2)] gip_inv_session[OF drv_inv_gip[OF inv] b] that(1) n(5) \<open>s_GipMapObjR3 sb \<noteq> 0\<close> by metis
      then show ?thesis using gip_inv_session[OF drv_inv_gip[OF inv] b that(2)] by blast
    qed
    have fin: "finite (dom (sessions ?t))" using drv_inv_gip[OF inv] by (simp add: gip_inv_def)
    have i: "heap_ok (memobjs s)" "\<not> d_hGipSpinlock (devext s)" "RT_VALID_PTR (d_pGip (devext s))"
      "\<exists>g. gips s (d_pGip (devext s)) = Some g \<and> page_ok g" "obj_at (memobjs s) (d_GipMemObj (devext s))"
      "gip_count K (d_cGipUsers (devext s)) (gip_users (sessions s))" "d_fGipTimerRunning (devext s) \<longleftrightarrow> d_cGipUsers (devext s) \<noteq> 0"
      using drv_inv_gip[OF inv, unfolded gip_inv_def] by blast+
    have same: "devext ?t = devext s" "memobjs ?t = memobjs s" "gips ?t = gips s" by simp_all
    show ?thesis
      unfolding gip_inv_def u same by (intro conjI allI impI i fin) (use m in blast)+
  qed
  ultimately show ?thesis using inv bl unfolding drv_inv_def by auto
qed

text \<open>The table of a new session, whatever lock it got.\<close>

lemma create_table:
  "RTHandleTableCreateEx (RTHANDLETABLE_FLAGS_LOCKED_IRQ_SAFE OR RTHANDLETABLE_FLAGS_CONTEXT) 1 32768 al rcLock =
     (if \<not> al then (VERR_NO_MEMORY, None) else if RT_FAILURE rcLock then (rcLock, None) else (VINF_SUCCESS, Some session_table))"
  using session_base_ok by (simp add: session_table_def RTHandleTableCreateEx_def Let_def)

lemma create_session_eq:
  "d_u32Cookie (devext s) = BIRD \<Longrightarrow> supdrvCreateSession fU fR env s =
     (if se_pSession env = 0 then ((VERR_NO_MEMORY, Some 0), s)
      else if se_rcSpinlock env \<noteq> 0 then ((se_rcSpinlock env, Some 0), s)
      else if \<not> se_fTableAlloc env then ((VERR_NO_MEMORY, Some 0), s)
      else if RT_FAILURE (se_rcTableLock env) then ((se_rcTableLock env, Some 0), s)
      else ((VINF_SUCCESS, Some (se_pSession env)),
            put_session (se_pSession env) (session_new fU fR (Some session_table) env) s))"
  unfolding supdrvCreateSession_def create_table by simp

lemma drv_refs:
  assumes inv: "drv_inv K s" and a: "sessions s a = Some ss"
  shows "drv_inv K (put_session a (ss\<lparr>s_cRefs := c\<rparr>) s)"
proof -
  let ?t = "put_session a (ss\<lparr>s_cRefs := c\<rparr>) s"
  have t: "sessions ?t = (sessions s)(a \<mapsto> ss\<lparr>s_cRefs := c\<rparr>)" by simp
  have oi: "obj_inv ?t" by (rule obj_inv_cong[OF drv_inv_obj[OF inv]]) (use a in auto)
  have "sem_inv {#} ?t" by (rule sem_inv_same[OF drv_inv_sem[OF inv] a t _ _ _ oi types_kept_same]) simp_all
  moreover have "ldr_part K ?t" by (rule ldr_part_cong[OF drv_inv_part[OF inv]]) (use a in auto)
  moreover have "mem_inv ?t" by (rule mem_inv_cong[OF drv_inv_mem[OF inv]]) (use a in auto)
  moreover have "fact_inv ?t" by (rule fact_inv_cong[OF drv_inv_fact[OF inv]]) (use a in auto)
  moreover have "gip_inv K ?t"
    by (rule gip_inv_cong[OF drv_inv_gip[OF inv]]) (use drv_inv_GipMemObj[OF inv] a in \<open>auto simp: same_gip_def\<close>)
  moreover have "d_GipMemObj (devext s) \<notin> set (mem_handles (ss\<lparr>s_cRefs := c\<rparr>))"
    using drv_inv_apart[OF inv a] by simp
  ultimately show ?thesis using inv a unfolding drv_inv_def by (auto split: if_splits)
qed

lemma obj_referenced:
  assumes "obj_inv s" "objs s p = Some ob"
  shows "\<exists>b sb. sessions s b = Some sb \<and> 0 < held p (s_pUsage sb)"
proof (rule ccontr)
  assume no: "\<not> ?thesis"
  have bal: "balanced (obj_acct s)" using assms(1) by (simp add: obj_inv_def)
  have "total_held (snd (obj_acct s)) p = 0"
    using no by (auto simp: total_held_def obj_acct_def dom_def)
  moreover have "counted (obj_acct s) p = total_held (snd (obj_acct s)) p + 0" and nz: "fst (obj_acct s) p \<noteq> Some 0"
    using bal unfolding accounted_def by blast+
  moreover have "counted (obj_acct s) p = unat (o_cUsage ob)" using assms(2) by (simp add: counted_def)
  ultimately have "o_cUsage ob = 0" by (simp only: add_0_right unat_eq_0)
  with nz assms(2) show False by simp
qed

text \<open>
  What the release of the last reference needs from the operating system: it takes back memory and
  stops the timer.  The promise on the GIP reference is asked for only where it is in the set.
\<close>

definition close_ok :: "promise set \<Rightarrow> SUPDRVSESSION \<Rightarrow> memenv \<Rightarrow> rc \<Rightarrow> bool" where
  "close_ok K ss env rcStop \<longleftrightarrow> RT_SUCCESS rcStop \<and> (\<forall>q. e_nf env q = 0) \<and>
     (GIP_Ref_Mapped \<in> K \<longrightarrow> s_fGipReferenced ss \<longrightarrow> s_GipMapObjR3 ss \<noteq> 0)"

definition sess_released :: "addr \<Rightarrow> SUPDRVSESSION \<Rightarrow> supdrv \<Rightarrow> bool" where
  "sess_released a ss s' \<longleftrightarrow> (\<forall>p \<in> set (mem_handles ss). memobjs s' p = None) \<and>
     a \<notin> r_pSession ` set (d_pComponentFactoryHead (devext s')) \<and>
     (\<forall>p ob. objs s' p = Some ob \<longrightarrow> (\<exists>b sb. b \<noteq> a \<and> sessions s' b = Some sb \<and> 0 < held p (s_pUsage sb)))"

lemma close_session_ok:
  assumes inv: "drv_inv K s" and a: "sessions s a = Some ss" and ok: "close_ok K ss env rcStop"
  shows "\<exists>s'. supdrvCloseSession a env rcStop s = Some s' \<and> drv_inv K s' \<and> sessions s' = (sessions s)(a := None) \<and>
    sess_released a ss s'"
proof -
  have o: "RT_SUCCESS rcStop" "\<And>q. e_nf env q = 0" "GIP_Ref_Mapped \<in> K \<longrightarrow> s_fGipReferenced ss \<longrightarrow> s_GipMapObjR3 ss \<noteq> 0"
    using ok by (simp_all add: close_ok_def)
  from cleanup_session_ok[where env = env, OF inv a o] obtain s1 ss1 where s1: "supdrvCleanupSession a env rcStop s = Some s1" "drv_inv K s1"
    "sessions s1 = (sessions s)(a \<mapsto> ss1)" "sess_empty K ss1" "a \<notin> r_pSession ` set (d_pComponentFactoryHead (devext s1))"
    "\<forall>p \<in> set (mem_handles ss). memobjs s1 p = None" by blast
  let ?t = "session_gone a s1"
  have t: "sessions ?t = (sessions s)(a := None)" "devext ?t = devext s1" "memobjs ?t = memobjs s1"
    using s1(3) by (simp_all add: session_gone_def)
  have a1: "sessions s1 a = Some ss1" using s1(3) by simp
  have d: "drv_inv K ?t" by (rule drv_gone[OF s1(2) a1 s1(4,5)])
  have "\<exists>b sb. b \<noteq> a \<and> sessions ?t b = Some sb \<and> 0 < held p (s_pUsage sb)" if "objs ?t p = Some ob" for p ob
    using obj_referenced[OF drv_inv_obj[OF d] that] t(1) by (metis fun_upd_same option.distinct(1))
  then have "sess_released a ss ?t" unfolding sess_released_def t(2,3) using s1(5,6) by blast
  with d t(1) s1(1) show ?thesis by (simp add: supdrvCloseSession_def)
qed

section \<open>Sessions as an API\<close>

datatype sess_op =
    SCreate bool bool sessenv
  | SRetain addr
  | SRelease addr memenv rc

fun sessStep :: "sess_op \<Rightarrow> supdrv \<Rightarrow> supdrv option" where
  "sessStep (SCreate fU fR env) s = Some (snd (supdrvCreateSession fU fR env s))"
| "sessStep (SRetain a) s = map_option snd (supdrvSessionRetain a s)"
| "sessStep (SRelease a env rcStop) s = map_option snd (supdrvSessionRelease a env rcStop s)"

text \<open>Between calls every open session has a reference.\<close>

definition sess_inv :: "promise set \<Rightarrow> supdrv \<Rightarrow> bool" where
  "sess_inv K s \<longleftrightarrow> drv_inv K s \<and> (\<forall>a ss. sessions s a = Some ss \<longrightarrow> s_cRefs ss \<noteq> 0)"

text \<open>
  A new block is fresh; a pointer passed in is an open session or not a kernel pointer; counters do
  not wrap; and the operating system can give back what a closing session has.
\<close>

fun sessOpOk :: "promise set \<Rightarrow> sess_op \<Rightarrow> supdrv \<Rightarrow> bool" where
  "sessOpOk K (SCreate fU fR env) s \<longleftrightarrow>
     (se_pSession env \<noteq> 0 \<longrightarrow> RT_VALID_PTR (se_pSession env) \<and> sessions s (se_pSession env) = None)"
| "sessOpOk K (SRetain a) s \<longleftrightarrow> (RT_VALID_PTR a \<longrightarrow> (\<exists>ss. sessions s a = Some ss \<and> s_cRefs ss \<noteq> - 1))"
| "sessOpOk K (SRelease a env rcStop) s \<longleftrightarrow> (RT_VALID_PTR a \<longrightarrow> (\<exists>ss. sessions s a = Some ss \<and>
     (s_cRefs ss = 1 \<longrightarrow> close_ok K ss env rcStop)))"

lemma release_session_ok:
  assumes inv: "drv_inv K s" and a: "sessions s a = Some ss" and ok: "s_cRefs ss = 1 \<longrightarrow> close_ok K ss env rcStop"
  shows "\<exists>s'. supdrvSessionRelease a env rcStop s = Some (s_cRefs ss - 1, s') \<and> drv_inv K s' \<and>
    (if s_cRefs ss = 1 then sessions s' = (sessions s)(a := None) \<and> sess_released a ss s'
     else s' = put_session a (ss\<lparr>s_cRefs := s_cRefs ss - 1\<rparr>) s)"
proof -
  have v: "SUP_IS_SESSION_VALID a ss" "RT_VALID_PTR a"
    using drv_inv_valid[OF inv a] by (simp_all add: SUP_IS_SESSION_VALID_def)
  let ?ss = "ss\<lparr>s_cRefs := s_cRefs ss - 1\<rparr>"
  let ?s1 = "put_session a ?ss s"
  note inv1 = drv_refs[OF inv a, of "s_cRefs ss - 1"]
  show ?thesis
  proof (cases "s_cRefs ss = 1")
    case False
    then have "s_cRefs ss - 1 \<noteq> 0" by simp
    with False a v inv1 show ?thesis by (simp add: supdrvSessionRelease_def Let_def)
  next
    case True
    have a1: "sessions ?s1 a = Some ?ss" by simp
    have ok1: "close_ok K ?ss env rcStop" using ok True by (simp add: close_ok_def)
    from close_session_ok[OF inv1 a1 ok1] obtain s' where
      s': "supdrvCloseSession a env rcStop ?s1 = Some s'" "drv_inv K s'" "sessions s' = (sessions ?s1)(a := None)" "sess_released a ?ss s'"
      by blast
    have "sess_released a ss s'" using s'(4) by (simp add: sess_released_def)
    with s' True a v show ?thesis by (simp add: supdrvSessionRelease_def Let_def)
  qed
qed

lemma create_session_ok:
  assumes inv: "drv_inv K s" and new: "se_pSession env \<noteq> 0 \<longrightarrow> RT_VALID_PTR (se_pSession env) \<and> sessions s (se_pSession env) = None"
  shows "(\<exists>rc p. supdrvCreateSession fU fR env s = ((rc, p), s) \<and> rc \<noteq> VINF_SUCCESS \<and> (p = None \<or> p = Some 0)) \<or>
    supdrvCreateSession fU fR env s = ((VINF_SUCCESS, Some (se_pSession env)),
       put_session (se_pSession env) (session_new fU fR (Some session_table) env) s) \<and> se_pSession env \<noteq> 0 \<and>
    drv_inv K (put_session (se_pSession env) (session_new fU fR (Some session_table) env) s)"
proof (cases "d_u32Cookie (devext s) = BIRD")
  case True
  with new drv_new[OF inv, of "se_pSession env"] show ?thesis by (auto simp: create_session_eq)
qed (simp add: supdrvCreateSession_def)

lemma session_new_refs: "s_cRefs (session_new fU fR t env) = 1"
  by (simp add: session_new_def)

lemma sessStep_safe:
  assumes "sess_inv K s" "sessOpOk K op s"
  shows "\<exists>s'. sessStep op s = Some s' \<and> sess_inv K s'"
proof -
  have inv: "drv_inv K s" and refs: "\<And>a ss. sessions s a = Some ss \<Longrightarrow> s_cRefs ss \<noteq> 0" using assms(1) by (auto simp: sess_inv_def)
  show ?thesis
  proof (cases op)
    case (SCreate fU fR env)
    with assms(2) create_session_ok[OF inv, of env fU fR] refs assms(1) show ?thesis
      by (auto simp: sess_inv_def session_new_refs split: if_splits)
  next
    case (SRetain a)
    show ?thesis
    proof (cases "RT_VALID_PTR a")
      case True
      with assms(2) SRetain obtain ss where a: "sessions s a = Some ss" "s_cRefs ss \<noteq> - 1" by auto
      have "s_cRefs ss + 1 \<noteq> 0" using a(2) by (rule u32_inc_nonzero)
      with drv_refs[OF inv a(1), of "s_cRefs ss + 1"] True SRetain a(1) drv_inv_valid[OF inv a(1)] refs show ?thesis
        by (auto simp: supdrvSessionRetain_def sess_inv_def)
    qed (use SRetain assms(1) in \<open>simp add: supdrvSessionRetain_def\<close>)
  next
    case (SRelease a env rcStop)
    show ?thesis
    proof (cases "RT_VALID_PTR a")
      case True
      with assms(2) SRelease obtain ss where a: "sessions s a = Some ss" "s_cRefs ss = 1 \<longrightarrow> close_ok K ss env rcStop" by auto
      from release_session_ok[OF inv a] obtain s' where s': "supdrvSessionRelease a env rcStop s = Some (s_cRefs ss - 1, s')" "drv_inv K s'"
        "if s_cRefs ss = 1 then sessions s' = (sessions s)(a := None) \<and> sess_released a ss s'
         else s' = put_session a (ss\<lparr>s_cRefs := s_cRefs ss - 1\<rparr>) s" by blast
      have "s_cRefs sb \<noteq> 0" if "sessions s' b = Some sb" for b sb
        using that s'(3) refs by (auto split: if_splits)
      with s' SRelease show ?thesis by (auto simp: sess_inv_def)
    qed (use SRelease assms(1) in \<open>simp add: supdrvSessionRelease_def\<close>)
  qed
qed

interpretation sessapi: guarded_api sessStep "sessOpOk K" "sess_inv K" for K
  by unfold_locales (rule sessStep_safe)

section \<open>Properties\<close>

text \<open>
  For the witnesses: two sessions, the first one with a locked memory object and two references to
  an object, one of them through a handle.
\<close>

definition session_full :: "RTHANDLETABLEINT \<Rightarrow> SUPDRVSESSION" where
  "session_full t = session0\<lparr>s_Bundle := [bundle1], s_pUsage := [\<lparr>u_ref = 0x20000, u_cUsage = 2\<rparr>], s_hHandleTable := Some t\<rparr>"

definition driver_full :: "RTHANDLETABLEINT \<Rightarrow> supdrv" where
  "driver_full t = driver_g\<lparr>sessions := [0x10000 \<mapsto> session_full t, 0x11000 \<mapsto> session0], objs := [0x20000 \<mapsto> semobj\<lparr>o_cUsage := 2\<rparr>],
     devext := devext0\<lparr>d_pObjs := [0x20000]\<rparr>, memobjs := [0x8000 \<mapsto> gipmem0, 0xA000 \<mapsto> mo1]\<rparr>"

lemma driver_full_simps [simp]:
  "devext (driver_full t) = devext0\<lparr>d_pObjs := [0x20000]\<rparr>"
  "sessions (driver_full t) = [0x10000 \<mapsto> session_full t, 0x11000 \<mapsto> session0]" "objs (driver_full t) = [0x20000 \<mapsto> semobj\<lparr>o_cUsage := 2\<rparr>]"
  "memobjs (driver_full t) = [0x8000 \<mapsto> gipmem0, 0xA000 \<mapsto> mo1]" "imgs (driver_full t) = Map.empty"
  "gips (driver_full t) = [0x9000 \<mapsto> gip0]"
  by (simp_all add: driver_full_def driver_g_def)

lemma session_full_simps [simp]:
  "s_Bundle (session_full t) = [bundle1]" "s_pUsage (session_full t) = [\<lparr>u_ref = 0x20000, u_cUsage = 2\<rparr>]"
  "s_hHandleTable (session_full t) = Some t" "s_pLdrUsage (session_full t) = []" "s_GipMapObjR3 (session_full t) = 0"
  "\<not> s_fGipReferenced (session_full t)" "s_u32Cookie (session_full t) = BIRD_INV" "s_cRefs (session_full t) = 1"
  by (simp_all add: session_full_def session0_def)

lemma session0_simps:
  "s_Bundle session0 = [blank_bundle]" "s_pUsage session0 = []" "s_hHandleTable session0 = Some session_table" "s_pLdrUsage session0 = []"
  "s_GipMapObjR3 session0 = 0" "\<not> s_fGipReferenced session0" "s_u32Cookie session0 = BIRD_INV" "s_cRefs session0 = 1"
  by (simp_all add: session0_def memref0_def)

lemma driver_full_mem: "mem_inv (driver_full t)"
proof -
  let ?h = "[0x8000 \<mapsto> gipmem0, 0xA000 \<mapsto> mo1]"
  have h: "heap_ok ?h"
    by (auto simp: heap_ok_def mo1_def gipmem0_def RT_VALID_PTR_def split: if_splits)
  have "entry_ok ?h m" if "m \<in> set (b_aMem bundle1)" for m
    using that by (auto simp: bundle1_def entry_ok_def obj_at_def mo1_def)
  moreover have "bundle_ok bundle1"
    using bundle1_used by (simp add: bundle_ok_def) (simp add: bundle1_def)
  ultimately have "sess_mem_ok ?h [bundle1]"
    using bundle1_used by (auto simp: sess_mem_ok_def)
  moreover have "sess_mem_ok ?h [blank_bundle]"
    by (simp add: sess_mem_ok_def bundle_ok_def used_refs_def all_refs_def)
  ultimately show ?thesis using h by (auto simp: mem_inv_def session0_simps split: if_splits)
qed

lemma driver_full_ok:
  assumes t: "ht_inv t" "ht_map t = [h \<mapsto> (0x20000, 4)]"
  shows "sess_inv K (driver_full t)"
proof -
  let ?s = "driver_full t"
  have ses: "ss = session_full t \<and> a = 0x10000 \<or> ss = session0 \<and> a = 0x11000" if "sessions ?s a = Some ss" for a ss
    using that by (auto split: if_splits)
  have "obj_acct ?s = ([0x20000 \<mapsto> 2], [0x10000 \<mapsto> [\<lparr>u_ref = 0x20000, u_cUsage = 2\<rparr>], 0x11000 \<mapsto> []])"
    by (auto simp: obj_acct_def session0_simps)
  moreover have "balanced ([0x20000 \<mapsto> 2], [0x10000 \<mapsto> [\<lparr>u_ref = 0x20000, u_cUsage = 2\<rparr>], 0x11000 \<mapsto> []])"
    by (auto simp: balanced_def total_held_def split: option.split if_splits)
  ultimately have oi: "obj_inv ?s" by (auto simp: obj_inv_def RT_VALID_PTR_def split: if_splits)
  have so: "sem_obj SemEvent 0x20000 ?s" by (simp add: sem_obj_def)
  have hf: "sess_handles (session_full t) = [h \<mapsto> (0x20000, 4)]" by (simp add: sess_handles_def t(2))
  have h0: "sess_handles session0 = Map.empty" by (simp add: sess_handles_def session0_simps session_table_inv(2))
  have "sess_sem_ok {#} ?s 0x10000 (session_full t)"
    using t(1) so hcount_put[of Map.empty h "0x20000" 4] unfolding sess_sem_ok_def hf
    by (auto simp: SUP_IS_SESSION_VALID_def RT_VALID_PTR_def intro!: exI[of _ SemEvent] split: if_splits)
  moreover have "sess_sem_ok {#} ?s 0x11000 session0"
    unfolding sess_sem_ok_def h0 by (auto simp: SUP_IS_SESSION_VALID_def RT_VALID_PTR_def session0_simps session_table_inv(1))
  ultimately have "sem_inv {#} ?s" using oi ses unfolding sem_inv_def by auto
  moreover have "ldr_part K ?s"
  proof -
    have a: "img_acct ?s = (Map.empty, [0x10000 \<mapsto> [], 0x11000 \<mapsto> []])"
      by (auto simp: img_acct_def session0_simps)
    have "accounted (\<lambda>_. 0) (img_acct ?s)"
      unfolding a by (auto simp: accounted_def counted_def total_held_def split: if_splits)
    then show ?thesis by (auto simp: ldr_part_def vmmr0_ok_def devext0_def)
  qed
  moreover have "fact_inv ?s" by (simp add: fact_inv_def devext0_def)
  moreover have "gip_inv K ?s"
  proof -
    have e: "gip_users (sessions ?s) = gip_users (sessions driver_g)"
      by (rule gip_users_cong) (simp add: session0_simps)
    have "obj_at [0x8000 \<mapsto> gipmem0, 0xA000 \<mapsto> mo1] 0x8000" by (simp add: obj_at_def gipmem0_def)
    moreover have "gip_users (sessions driver_g) = 0" by (auto simp: gip_users_def session0_simps)
    ultimately show ?thesis using page_ok_gip0 mem_inv_heap[OF driver_full_mem[of t]] e ses
      by (auto simp: gip_inv_def gip_count_def devext0_def RT_VALID_PTR_def session0_simps)
  qed
  moreover have "d_GipMemObj (devext ?s) \<notin> set (mem_handles ss)" if "sessions ?s a = Some ss" for a ss
  proof -
    have "mem_handles (session_full t) = [0xA000]" using bundle1_used by simp
    moreover have "mem_handles session0 = []" by (simp add: session0_simps used_refs_def all_refs_def)
    moreover have "d_GipMemObj (devext ?s) = 0x8000" by (simp add: devext0_def)
    ultimately show ?thesis using ses[OF that] by (elim disjE) (simp_all del: set_map)
  qed
  moreover have "s_cRefs ss \<noteq> 0" if "sessions ?s a = Some ss" for a ss
    using ses[OF that] by (auto simp: session0_simps)
  ultimately show ?thesis using driver_full_mem by (simp add: sess_inv_def drv_inv_def)
qed

text \<open>C4: Sessions come and go safely: in every run of session creations, retains and releases, in the states
  that the calls of all components leave, no call faults; a session that is closed gives up its
  handles, objects, memory, factories, images and GIP mapping without disturbing what other sessions
  have, and all components stay consistent, with their shares of the memory objects apart.  Sessions are new
  blocks, those retained and released are open with a count that does not wrap, and at the last release native
  frees and the stop of the timer succeed.  A session that is closed with a reference to the GIP and no
  mapping of it is covered: the driver keeps the reference (\<open>gip_cleanup_keeps_reference\<close>), and the invariant
  says that the user counter is at least the number of sessions with a reference.  It is exactly that
  number where \<^const>\<open>GIP_Ref_Mapped\<close> is in \<open>K\<close>, and then no such session is closed.\<close>

theorem session_api_safe:
  "sess_inv K s \<Longrightarrow> run_ok sessStep (sessOpOk K) ops s \<Longrightarrow> \<exists>s'. run_steps sessStep ops s = Some s' \<and> sess_inv K s'"
  by (rule sessapi.run_safe)

definition sessenv0 :: sessenv where
  "sessenv0 = \<lparr>se_pSession = 0x12000, se_rcSpinlock = 0, se_fTableAlloc = True, se_rcTableLock = 0, se_Process = 78,
     se_CallerR0Process = 4712\<rparr>"

theorem session_api_safe_witness:
  "\<exists>t s'. run_steps sessStep [SCreate True False sessenv0, SRetain 0x10000, SRelease 0x10000 env0 0] (driver_full t) = Some s' \<and> sess_inv UNIV s'"
proof -
  obtain t h where t: "ht_inv t" "ht_map t = [h \<mapsto> (0x20000, 4)]" "h \<noteq> 0" by (rule one_handle)
  have d: "d_u32Cookie (devext (driver_full t)) = BIRD" by (simp add: devext0_def)
  have "run_ok sessStep (sessOpOk UNIV) [SCreate True False sessenv0, SRetain 0x10000, SRelease 0x10000 env0 0] (driver_full t)"
    by (simp add: create_session_eq[OF d] sessenv0_def RT_VALID_PTR_def supdrvSessionRetain_def SUP_IS_SESSION_VALID_def
        split: option.split)
  from session_api_safe[OF driver_full_ok[OF t(1,2)] this] show ?thesis by blast
qed

text \<open>C5: Releasing a session counts down, and the last release closes it: the session is gone, every
  memory object it held is freed, no factory of it is registered any more, every object that is left
  is held by another session, and the sessions of others are as they were.\<close>

theorem session_last_release_closes:
  assumes "sess_inv K s" "sessions s a = Some ss" "s_cRefs ss = 1 \<longrightarrow> close_ok K ss env rcStop"
  shows "\<exists>s'. supdrvSessionRelease a env rcStop s = Some (s_cRefs ss - 1, s') \<and>
    (if s_cRefs ss = 1
     then sessions s' = (sessions s)(a := None) \<and> (\<forall>p \<in> set (mem_handles ss). memobjs s' p = None) \<and>
       a \<notin> r_pSession ` set (d_pComponentFactoryHead (devext s')) \<and>
       (\<forall>p ob. objs s' p = Some ob \<longrightarrow> (\<exists>b sb. b \<noteq> a \<and> sessions s b = Some sb \<and> 0 < held p (s_pUsage sb)))
     else s' = put_session a (ss\<lparr>s_cRefs := s_cRefs ss - 1\<rparr>) s)"
proof -
  have inv: "drv_inv K s" using assms(1) by (simp add: sess_inv_def)
  from release_session_ok[OF inv assms(2,3)] obtain s' where s': "supdrvSessionRelease a env rcStop s = Some (s_cRefs ss - 1, s')"
    "if s_cRefs ss = 1 then sessions s' = (sessions s)(a := None) \<and> sess_released a ss s'
     else s' = put_session a (ss\<lparr>s_cRefs := s_cRefs ss - 1\<rparr>) s" by blast
  show ?thesis
  proof (cases "s_cRefs ss = 1")
    case True
    with s'(2) have r: "sessions s' = (sessions s)(a := None)" "sess_released a ss s'" by simp_all
    have "\<exists>b sb. b \<noteq> a \<and> sessions s b = Some sb \<and> 0 < held p (s_pUsage sb)" if "objs s' p = Some ob" for p ob
      using r that unfolding sess_released_def by (metis fun_upd_other)
    with True s'(1) r show ?thesis unfolding sess_released_def by auto
  qed (use s' in auto)
qed

theorem session_last_release_closes_witness:
  "\<exists>t s'. supdrvSessionRelease 0x10000 env0 0 (driver_full t) = Some (0, s') \<and> sessions s' = [0x11000 \<mapsto> session0] \<and>
    memobjs s' 0xA000 = None \<and> objs s' 0x20000 = None"
proof -
  obtain t h where t: "ht_inv t" "ht_map t = [h \<mapsto> (0x20000, 4)]" "h \<noteq> 0" by (rule one_handle)
  have a: "sessions (driver_full t) 0x10000 = Some (session_full t)" by simp
  have c: "s_cRefs (session_full t) = 1 \<longrightarrow> close_ok UNIV (session_full t) env0 0" by (simp add: close_ok_def env0_def)
  from session_last_release_closes[OF driver_full_ok[OF t(1,2)] a c] obtain s' where
    s': "supdrvSessionRelease 0x10000 env0 0 (driver_full t) = Some (0, s')"
      "sessions s' = (sessions (driver_full t))(0x10000 := None)"
      "\<forall>p \<in> set (mem_handles (session_full t)). memobjs s' p = None"
      "\<forall>p ob. objs s' p = Some ob \<longrightarrow> (\<exists>b sb. b \<noteq> 0x10000 \<and> sessions (driver_full t) b = Some sb \<and> 0 < held p (s_pUsage sb))"
    by auto
  have "sessions s' = [0x11000 \<mapsto> session0]" using s'(2) by (auto simp: fun_eq_iff)
  moreover have "memobjs s' 0xA000 = None" using s'(3) bundle1_used by simp
  moreover have "objs s' 0x20000 = None" using s'(4) by (cases "objs s' 0x20000") (auto simp: session0_simps split: if_splits)
  ultimately show ?thesis using s'(1) by blast
qed

section \<open>A session that does nothing\<close>

lemma session_table_live: "ht_live session_table = []"
  using live_map[OF session_table_inv(5)] session_table_inv(2) by (cases "ht_live session_table") auto

lemma destroy_session_table: "RTHandleTableDestroy D (Some session_table) s = Some (VINF_SUCCESS, None, s)"
proof -
  have "ht_ok session_table" using session_table_inv(1) by (simp add: ht_inv_def)
  from destroy_spec[OF this, of D s] show ?thesis by (simp add: session_table_live)
qed

lemma free_entries_blank: "free_entries nf (replicate n memref0) h = Some (replicate n memref0, h)"
  by (induction n) simp_all

lemma close_new_session:
  assumes a: "sessions s a = None" and f: "fact_inv s"
    and ss: "s_hHandleTable ss = Some session_table" "s_pUsage ss = []" "s_Bundle ss = [blank_bundle]" "s_pLdrUsage ss = []"
      "s_GipMapObjR3 ss = 0"
  shows "supdrvCloseSession a env rcStop (put_session a ss s) = Some s"
proof -
  let ?ss = "ss\<lparr>s_hHandleTable := None\<rparr>"
  let ?t = "put_session a ?ss s"
  have put: "put_session a x (put_session a y s) = put_session a x s" for x y
    by (simp add: put_session_def)
  have e1: "sess_handle_destroy a (put_session a ss s) = Some ?t"
    by (simp add: sess_handle_destroy_def ss(1) destroy_session_table put)
  have e2: "supdrvCleanupSession_objs a ?t = Some ?t" by (simp add: supdrvCleanupSession_objs_def ss)
  have sb: "?ss\<lparr>s_Bundle := [blank_bundle]\<rparr> = ?ss" using ss(3) by (cases ss) simp
  have sl: "?ss\<lparr>s_pLdrUsage := []\<rparr> = ?ss" using ss(4) by (cases ss) simp
  have h: "s\<lparr>memobjs := memobjs s\<rparr> = s" by simp
  have e3: "supdrvCleanupSession_mem a env ?t = Some ?t"
    by (simp add: supdrvCleanupSession_mem_def ss(3) free_entries_blank sb put_session_def)
  have "filter (\<lambda>r. r_pSession r \<noteq> a) (d_pComponentFactoryHead (devext s)) = d_pComponentFactoryHead (devext s)"
    using f a by (auto simp: filter_id_conv fact_inv_def reg_ok_def)
  then have e4: "supdrvCleanupSession_factories a ?t = ?t"
    by (simp add: supdrvCleanupSession_factories_def regs_cleanup_filter set_regs_def upd_devext_def)
  have e5: "supdrvCleanupSession_ldr a ?t = Some ?t"
    by (simp add: supdrvCleanupSession_ldr_def ss(4) sl put)
  have e6: "supdrvCleanupSession_gip a (e_nf env) rcStop ?t = Some ?t"
    by (simp add: supdrvCleanupSession_gip_def ss(5))
  have "(sessions s)(a := None) = sessions s" using a by (auto simp: fun_eq_iff)
  then have "session_gone a ?t = s" by (simp add: session_gone_def put_session_def)
  then show ?thesis
    by (simp add: supdrvCloseSession_def supdrvCleanupSession_def e1 e2 e3 e4 e5 e6)
qed

lemma release_new_session:
  assumes "RT_VALID_PTR p" "sessions s p = None" "fact_inv s"
  shows "supdrvSessionRelease p menv rcStop (put_session p (session_new fU fR (Some session_table) env) s) = Some (0, s)"
proof -
  let ?ss = "session_new fU fR (Some session_table) env"
  have n: "put_session p x (put_session p y s) = put_session p x s" for x y by (simp add: put_session_def)
  have "supdrvCloseSession p menv rcStop (put_session p (?ss\<lparr>s_cRefs := 0\<rparr>) s) = Some s"
    by (rule close_new_session[OF assms(2,3)]) (simp_all add: session_new_def)
  then show ?thesis using assms(1)
    by (simp add: supdrvSessionRelease_def SUP_IS_SESSION_VALID_def session_new_refs Let_def n) (simp add: session_new_def)
qed

text \<open>Creating a session and releasing it again leaves the driver exactly as it was: no object, image or
  memory object is touched, no call is made, and no registration of others is withdrawn.\<close>

theorem session_create_release:
  assumes "sess_inv K s" "sessOpOk K (SCreate fUser fUnrestricted env) s"
    and "supdrvCreateSession fUser fUnrestricted env s = ((VINF_SUCCESS, Some pSession), s1)"
  shows "supdrvSessionRelease pSession menv rcStop s1 = Some (0, s)"
proof -
  have inv: "drv_inv K s" using assms(1) by (simp add: sess_inv_def)
  let ?p = "se_pSession env" and ?ss = "session_new fUser fUnrestricted (Some session_table) env"
  from create_session_ok[OF inv, of env fUser fUnrestricted] assms(2,3)
  have p: "pSession = ?p" "s1 = put_session ?p ?ss s" "?p \<noteq> 0" by auto
  with assms(2) release_new_session[OF _ _ drv_inv_fact[OF inv]] show ?thesis by simp
qed

theorem session_create_release_witness:
  "\<exists>t s1. supdrvCreateSession True False sessenv0 (driver_full t) = ((VINF_SUCCESS, Some 0x12000), s1) \<and>
    supdrvSessionRelease 0x12000 env0 0 s1 = Some (0, driver_full t)"
proof -
  obtain t h where t: "ht_inv t" "ht_map t = [h \<mapsto> (0x20000, 4)]" "h \<noteq> 0" by (rule one_handle)
  have d: "d_u32Cookie (devext (driver_full t)) = BIRD" by (simp add: devext0_def)
  have ok: "sessOpOk UNIV (SCreate True False sessenv0) (driver_full t)" by (simp add: sessenv0_def RT_VALID_PTR_def)
  have c: "supdrvCreateSession True False sessenv0 (driver_full t) = ((VINF_SUCCESS, Some 0x12000),
      put_session 0x12000 (session_new True False (Some session_table) sessenv0) (driver_full t))"
    by (simp add: create_session_eq[OF d] sessenv0_def)
  from session_create_release[OF driver_full_ok[OF t(1,2)] ok c] c show ?thesis by blast
qed

end
