(* ===== verification/SupReq.thy ===== *)
theory SupReq
  imports SupLdr SupFactory
begin

text \<open>
  Request buffers of the IOCtl interface (\<open>SUPDrvIOC.h\<close>): a buffer is a list of bytes, a field of
  one of its structures is read and written little endian at its offset, and an access that is not
  inside the buffer is a memory fault.  Offsets and sizes are those of the AMD64 layout of the
  structures.  Also the IOCtl codes of Linux, and the strings inside of a request.
\<close>

section \<open>Little endian fields\<close>

type_synonym reqbuf = "u8 list"

fun le_bytes :: "nat \<Rightarrow> 'a::len word \<Rightarrow> u8 list" where
  "le_bytes 0 w = []"
| "le_bytes (Suc n) w = ucast w # le_bytes n (drop_bit 8 w)"

definition le64 :: "u8 list \<Rightarrow> u64" where
  "le64 bs = foldr (\<lambda>b acc. ucast b + push_bit 8 acc) (take 8 bs) 0"

definition rd8 :: "reqbuf \<Rightarrow> nat \<Rightarrow> u8 option" where
  "rd8 b off = (if off < length b then Some (b ! off) else None)"

definition rd32 :: "reqbuf \<Rightarrow> nat \<Rightarrow> u32 option" where
  "rd32 b off = map_option le32 (bytes_at b off 4)"

definition rd64 :: "reqbuf \<Rightarrow> nat \<Rightarrow> u64 option" where
  "rd64 b off = map_option le64 (bytes_at b off 8)"

definition put_bytes :: "reqbuf \<Rightarrow> nat \<Rightarrow> u8 list \<Rightarrow> reqbuf option" where
  "put_bytes b off bs =
     (if off + length bs \<le> length b then Some (take off b @ bs @ drop (off + length bs) b) else None)"

definition wr32 :: "reqbuf \<Rightarrow> nat \<Rightarrow> u32 \<Rightarrow> reqbuf option" where
  "wr32 b off w = put_bytes b off (le_bytes 4 w)"

definition wr64 :: "reqbuf \<Rightarrow> nat \<Rightarrow> u64 \<Rightarrow> reqbuf option" where
  "wr64 b off w = put_bytes b off (le_bytes 8 w)"

fun wr64s :: "reqbuf \<Rightarrow> nat \<Rightarrow> u64 list \<Rightarrow> reqbuf option" where
  "wr64s b off [] = Some b"
| "wr64s b off (w # ws) = do { b1 \<leftarrow> wr64 b off w; wr64s b1 (off + 8) ws }"

section \<open>Laws of reading and writing\<close>

lemma length_le_bytes [simp]: "length (le_bytes n w) = n"
  by (induction n arbitrary: w) simp_all

lemma ucast_take_bit_8: "ucast (ucast w :: u8) = take_bit 8 (w :: 'a::len word)"
  by (rule bit_word_eqI) (auto simp: bit_simps)

lemma le_step: "take_bit 8 (w :: 'a::len word) + push_bit 8 (drop_bit 8 w) = w"
  by (rule bits_ident[THEN trans[rotated]]) (simp add: ac_simps)

lemma le_bytes_fold:
  "foldr (\<lambda>b acc. ucast b + push_bit 8 acc) (le_bytes n w) 0 = take_bit (8 * n) (w :: 'a::len word)"
proof (induction n arbitrary: w)
  case (Suc n)
  have "take_bit (8 * Suc n) w = take_bit 8 w + push_bit 8 (take_bit (8 * n) (drop_bit 8 w))"
  proof -
    have "take_bit 8 (take_bit (8 * Suc n) w) + push_bit 8 (drop_bit 8 (take_bit (8 * Suc n) w)) = take_bit (8 * Suc n) w"
      by (rule le_step)
    then show ?thesis by (simp add: drop_bit_take_bit min_def)
  qed
  with Suc.IH[of "drop_bit 8 w"] show ?case by (simp add: ucast_take_bit_8)
qed simp

lemma le32_le_bytes [simp]: "le32 (le_bytes 4 w) = w"
  using le_bytes_fold[of 4 w] by (simp add: le32_def take_bit_word_eq_self)

lemma le64_le_bytes [simp]: "le64 (le_bytes 8 w) = w"
  using le_bytes_fold[of 8 w] by (simp add: le64_def take_bit_word_eq_self)

lemma put_bytes_length: "put_bytes b off bs = Some b' \<Longrightarrow> length b' = length b"
  by (auto simp: put_bytes_def split: if_splits)

lemma put_bytes_ok: "off + length bs \<le> length b \<Longrightarrow> \<exists>b'. put_bytes b off bs = Some b' \<and> length b' = length b"
  by (simp add: put_bytes_def)

lemma bytes_at_put_same: "put_bytes b off bs = Some b' \<Longrightarrow> bytes_at b' off (length bs) = Some bs"
  by (auto simp: put_bytes_def bytes_at_def split: if_splits)

lemma bytes_at_put_other:
  assumes "put_bytes b off bs = Some b'" "o' + n \<le> off \<or> off + length bs \<le> o'"
  shows "bytes_at b' o' n = bytes_at b o' n"
proof -
  from assms(1) have b': "b' = take off b @ bs @ drop (off + length bs) b" and le: "off + length bs \<le> length b"
    by (auto simp: put_bytes_def split: if_splits)
  from assms(2) show ?thesis
  proof
    assume lo: "o' + n \<le> off"
    have "drop o' b' = take (off - o') (drop o' b) @ bs @ drop (off + length bs) b"
      using lo le unfolding b' by (simp add: drop_take)
    then have "take n (drop o' b') = take n (drop o' b)" using lo le by simp
    moreover have "length b' = length b" using le unfolding b' by simp
    ultimately show ?thesis unfolding bytes_at_def by simp
  next
    assume hi: "off + length bs \<le> o'"
    then have "drop o' b' = drop o' b" using le unfolding b' by simp
    then show ?thesis using le unfolding bytes_at_def b' by simp
  qed
qed

lemma rd_ok:
  "off < length b \<Longrightarrow> \<exists>v. rd8 b off = Some v"
  "off + 4 \<le> length b \<Longrightarrow> \<exists>v. rd32 b off = Some v"
  "off + 8 \<le> length b \<Longrightarrow> \<exists>v. rd64 b off = Some v"
  by (simp_all add: rd8_def rd32_def rd64_def bytes_at_def)

lemma wr_ok:
  "off + 4 \<le> length b \<Longrightarrow> \<exists>b'. wr32 b off v = Some b' \<and> length b' = length b"
  "off + 8 \<le> length b \<Longrightarrow> \<exists>b'. wr64 b off w = Some b' \<and> length b' = length b"
  by (simp_all add: wr32_def wr64_def put_bytes_ok)

lemma wr64s_ok: "off + 8 * length ws \<le> length b \<Longrightarrow> \<exists>b'. wr64s b off ws = Some b' \<and> length b' = length b"
proof (induction ws arbitrary: b off)
  case (Cons w ws)
  from wr_ok(2)[of off b w] Cons.prems obtain b1 where b1: "wr64 b off w = Some b1" "length b1 = length b" by auto
  from Cons.IH[of "off + 8" b1] Cons.prems b1 show ?case by auto
qed simp

lemma rd32_wr32: "wr32 b off w = Some b' \<Longrightarrow> rd32 b' off = Some w"
  using bytes_at_put_same[of b off "le_bytes 4 w" b'] by (simp add: wr32_def rd32_def)

lemma rd64_wr64: "wr64 b off w = Some b' \<Longrightarrow> rd64 b' off = Some w"
  using bytes_at_put_same[of b off "le_bytes 8 w" b'] by (simp add: wr64_def rd64_def)

lemma rd32_wr_other:
  "wr32 b off v = Some b' \<Longrightarrow> o' + 4 \<le> off \<or> off + 4 \<le> o' \<Longrightarrow> rd32 b' o' = rd32 b o'"
  "wr64 b off w = Some b' \<Longrightarrow> o' + 4 \<le> off \<or> off + 8 \<le> o' \<Longrightarrow> rd32 b' o' = rd32 b o'"
  by (auto simp: wr32_def wr64_def rd32_def dest!: bytes_at_put_other[where n = 4])

section \<open>IOCtl codes\<close>

text \<open>
  \<open>_IOC(dir, 'V', nr, size)\<close> of Linux; \<open>SUP_IOCTL_FLAG\<close> is 128 on AMD64.
\<close>

definition SUP_CTL_CODE_SIZE :: "u64 \<Rightarrow> u64 \<Rightarrow> u64" where
  "SUP_CTL_CODE_SIZE Function Size = 0xC0005600 OR (Function OR 128) OR push_bit 16 Size"

definition SUP_CTL_CODE_BIG :: "u64 \<Rightarrow> u64" where
  "SUP_CTL_CODE_BIG Function = 0x5600 OR (Function OR 128)"

definition SUP_CTL_CODE_NO_SIZE :: "u64 \<Rightarrow> u64" where
  "SUP_CTL_CODE_NO_SIZE uIOCtl = uIOCtl AND NOT 0x3fff0000"

abbreviation "SUP_IOCTL_COOKIE \<equiv> SUP_CTL_CODE_SIZE 1 56"
abbreviation "SUP_IOCTL_FAST_DO_RAW_RUN \<equiv> SUP_CTL_CODE_BIG 64"
abbreviation "SUP_IOCTL_FAST_DO_HM_RUN \<equiv> SUP_CTL_CODE_BIG 65"
abbreviation "SUP_IOCTL_FAST_DO_NOP \<equiv> SUP_CTL_CODE_BIG 66"

section \<open>Strings in a request\<close>

text \<open>\<open>RTStrEnd\<close> at an offset of the buffer, and the string before the terminator.\<close>

definition str_end :: "reqbuf \<Rightarrow> nat \<Rightarrow> nat \<Rightarrow> bool option" where
  "str_end b off n = map_option (\<lambda>r. r \<noteq> None) (RTStrEnd (drop off b) n)"

definition cstr :: "u8 list \<Rightarrow> u8 list" where
  "cstr bs = takeWhile (\<lambda>c. c \<noteq> 0) bs"

lemma str_end_ok: "off + n \<le> length b \<Longrightarrow> \<exists>r. str_end b off n = Some r"
  using RTStrEnd_no_fault[of n "drop off b"] by (auto simp: str_end_def)

text \<open>The helper of the dispatcher: whether a string contains one of some characters.\<close>

fun supdrvCheckInvalidChar :: "u8 list \<Rightarrow> u8 list \<Rightarrow> bool" where
  "supdrvCheckInvalidChar [] chars = False"
| "supdrvCheckInvalidChar (c # cs) chars =
     (if c = 0 then False else if c \<in> set chars then True else supdrvCheckInvalidChar cs chars)"

lemma supdrvCheckInvalidChar_cstr:
  "supdrvCheckInvalidChar bs chars \<longleftrightarrow> set (cstr bs) \<inter> set chars \<noteq> {}"
  by (induction bs) (auto simp: cstr_def)

end
