(* ===== verification/SupCpu.thy ===== *)
theory SupCpu
  imports SupPrelude
begin

text \<open>
  What the driver asks the processor: the paging mode of the current CPU (\<open>SUPR0GetPagingMode\<close>) and
  its hardware virtualisation features (\<open>SUPR0QueryVTCaps\<close>).  The registers, CPUID leaves and MSRs
  of the CPU are a record; a write to an MSR is in the result.
\<close>

section \<open>The CPU\<close>

record cpu =
  c_cr0 :: u64
  c_cr4 :: u64
  c_fCpuId :: bool
  c_cpuid :: "u32 \<Rightarrow> u32 \<times> u32 \<times> u32 \<times> u32"   \<comment> \<open>EAX, EBX, ECX, EDX\<close>
  c_rdmsr :: "u32 \<Rightarrow> u64"
  c_wrmsr :: "u32 \<Rightarrow> u64 \<Rightarrow> u64"                 \<comment> \<open>what an MSR reads after a value was written\<close>

definition ASMCpuId_EDX :: "cpu \<Rightarrow> u32 \<Rightarrow> u32" where
  "ASMCpuId_EDX c leaf = (case c_cpuid c leaf of (eax, ebx, ecx, edx) \<Rightarrow> edx)"

definition ASMIsIntelCpuEx :: "u32 \<Rightarrow> u32 \<Rightarrow> u32 \<Rightarrow> bool" where
  "ASMIsIntelCpuEx uEBX uECX uEDX \<longleftrightarrow> uEBX = 0x756e6547 \<and> uECX = 0x6c65746e \<and> uEDX = 0x49656e69"

definition ASMIsAmdCpuEx :: "u32 \<Rightarrow> u32 \<Rightarrow> u32 \<Rightarrow> bool" where
  "ASMIsAmdCpuEx uEBX uECX uEDX \<longleftrightarrow> uEBX = 0x68747541 \<and> uECX = 0x444d4163 \<and> uEDX = 0x69746e65"

definition ASMIsViaCentaurCpuEx :: "u32 \<Rightarrow> u32 \<Rightarrow> u32 \<Rightarrow> bool" where
  "ASMIsViaCentaurCpuEx uEBX uECX uEDX \<longleftrightarrow> uEBX = 0x746e6543 \<and> uECX = 0x736c7561 \<and> uEDX = 0x48727561"

definition ASMIsValidStdRange :: "u32 \<Rightarrow> bool" where
  "ASMIsValidStdRange uEAX \<longleftrightarrow> 1 \<le> uEAX \<and> uEAX \<le> 0x000fffff"

definition ASMIsValidExtRange :: "u32 \<Rightarrow> bool" where
  "ASMIsValidExtRange uEAX \<longleftrightarrow> 0x80000001 \<le> uEAX \<and> uEAX \<le> 0x800fffff"

section \<open>Paging mode\<close>

datatype SUPPAGINGMODE =
    SUPPAGINGMODE_INVALID
  | SUPPAGINGMODE_32_BIT | SUPPAGINGMODE_32_BIT_GLOBAL
  | SUPPAGINGMODE_PAE | SUPPAGINGMODE_PAE_GLOBAL | SUPPAGINGMODE_PAE_NX | SUPPAGINGMODE_PAE_GLOBAL_NX
  | SUPPAGINGMODE_AMD64 | SUPPAGINGMODE_AMD64_GLOBAL | SUPPAGINGMODE_AMD64_NX | SUPPAGINGMODE_AMD64_GLOBAL_NX

text \<open>The C value of the enumeration.\<close>

fun paging_mode_value :: "SUPPAGINGMODE \<Rightarrow> u32" where
  "paging_mode_value SUPPAGINGMODE_INVALID = 0"
| "paging_mode_value SUPPAGINGMODE_32_BIT = 1"
| "paging_mode_value SUPPAGINGMODE_32_BIT_GLOBAL = 2"
| "paging_mode_value SUPPAGINGMODE_PAE = 3"
| "paging_mode_value SUPPAGINGMODE_PAE_GLOBAL = 4"
| "paging_mode_value SUPPAGINGMODE_PAE_NX = 5"
| "paging_mode_value SUPPAGINGMODE_PAE_GLOBAL_NX = 6"
| "paging_mode_value SUPPAGINGMODE_AMD64 = 7"
| "paging_mode_value SUPPAGINGMODE_AMD64_GLOBAL = 8"
| "paging_mode_value SUPPAGINGMODE_AMD64_NX = 9"
| "paging_mode_value SUPPAGINGMODE_AMD64_GLOBAL_NX = 10"

abbreviation "X86_CR0_PE \<equiv> (0x1::u64)"
abbreviation "X86_CR0_PG \<equiv> (0x80000000::u64)"
abbreviation "X86_CR4_PAE \<equiv> (0x20::u64)"
abbreviation "X86_CR4_PGE \<equiv> (0x80::u64)"
abbreviation "X86_CR4_SMXE \<equiv> (0x4000::u64)"
abbreviation "X86_CPUID_EXT_FEATURE_EDX_NX \<equiv> (0x100000::u32)"
abbreviation "X86_CPUID_EXT_FEATURE_EDX_LONG_MODE \<equiv> (0x20000000::u32)"
abbreviation "MSR_K6_EFER \<equiv> (0xc0000080::u32)"
abbreviation "MSR_K6_EFER_LMA \<equiv> (0x400::u64)"
abbreviation "MSR_K6_EFER_NXE \<equiv> (0x800::u64)"

definition paging_nxe_lma :: "cpu \<Rightarrow> u64" where
  "paging_nxe_lma c =
     (if c_cr4 c AND X86_CR4_PAE \<noteq> 0
      then
        let fExtFeatures = ASMCpuId_EDX c 0x80000001 in
        if fExtFeatures AND (X86_CPUID_EXT_FEATURE_EDX_NX OR X86_CPUID_EXT_FEATURE_EDX_LONG_MODE) \<noteq> 0
        then
          let efer = c_rdmsr c MSR_K6_EFER in
          (if fExtFeatures AND X86_CPUID_EXT_FEATURE_EDX_NX \<noteq> 0 \<and> efer AND MSR_K6_EFER_NXE \<noteq> 0 then 1 else 0) OR
          (if fExtFeatures AND X86_CPUID_EXT_FEATURE_EDX_LONG_MODE \<noteq> 0 \<and> efer AND MSR_K6_EFER_LMA \<noteq> 0 then 2 else 0)
        else 0
      else 0)"

definition SUPR0GetPagingMode :: "cpu \<Rightarrow> SUPPAGINGMODE" where
  "SUPR0GetPagingMode c =
     (if c_cr0 c AND (X86_CR0_PG OR X86_CR0_PE) \<noteq> (X86_CR0_PG OR X86_CR0_PE) then SUPPAGINGMODE_INVALID
      else
        let k = (c_cr4 c AND (X86_CR4_PAE OR X86_CR4_PGE)) OR paging_nxe_lma c in
        if k = 0 then SUPPAGINGMODE_32_BIT
        else if k = X86_CR4_PGE then SUPPAGINGMODE_32_BIT_GLOBAL
        else if k = X86_CR4_PAE then SUPPAGINGMODE_PAE
        else if k = (X86_CR4_PAE OR 1) then SUPPAGINGMODE_PAE_NX
        else if k = (X86_CR4_PAE OR X86_CR4_PGE) then SUPPAGINGMODE_PAE_GLOBAL
        else if k = (X86_CR4_PAE OR X86_CR4_PGE OR 1) then SUPPAGINGMODE_PAE_GLOBAL
        else if k = (2 OR X86_CR4_PAE) then SUPPAGINGMODE_AMD64
        else if k = (2 OR X86_CR4_PAE OR 1) then SUPPAGINGMODE_AMD64_NX
        else if k = (2 OR X86_CR4_PAE OR X86_CR4_PGE) then SUPPAGINGMODE_AMD64_GLOBAL
        else if k = (2 OR X86_CR4_PAE OR X86_CR4_PGE OR 1) then SUPPAGINGMODE_AMD64_GLOBAL_NX
        else SUPPAGINGMODE_INVALID)"

section \<open>Virtualisation features\<close>

abbreviation "VERR_UNSUPPORTED_CPU \<equiv> (-1002::rc)"
abbreviation "VERR_VMX_NO_VMX \<equiv> (-4009::rc)"
abbreviation "VERR_VMX_MSR_LOCKING_FAILED \<equiv> (-4013::rc)"
abbreviation "VERR_VMX_MSR_ALL_VMXON_DISABLED \<equiv> (-4028::rc)"
abbreviation "VERR_VMX_MSR_VMXON_DISABLED \<equiv> (-4029::rc)"
abbreviation "VERR_SVM_NO_SVM \<equiv> (-4052::rc)"
abbreviation "VERR_SVM_DISABLED \<equiv> (-4053::rc)"

abbreviation "SUPVTCAPS_AMD_V \<equiv> (1::u32)"
abbreviation "SUPVTCAPS_VT_X \<equiv> (2::u32)"
abbreviation "SUPVTCAPS_NESTED_PAGING \<equiv> (4::u32)"

abbreviation "MSR_IA32_FEATURE_CONTROL \<equiv> (0x3A::u32)"
abbreviation "MSR_IA32_FEATURE_CONTROL_LOCK \<equiv> (1::u64)"
abbreviation "MSR_IA32_FEATURE_CONTROL_SMX_VMXON \<equiv> (2::u64)"
abbreviation "MSR_IA32_FEATURE_CONTROL_VMXON \<equiv> (4::u64)"
abbreviation "MSR_IA32_VMX_PROCBASED_CTLS \<equiv> (0x482::u32)"
abbreviation "MSR_IA32_VMX_PROCBASED_CTLS2 \<equiv> (0x48B::u32)"
abbreviation "MSR_K8_VM_CR \<equiv> (0xc0010114::u32)"
abbreviation "X86_CPUID_FEATURE_ECX_VMX \<equiv> (0x20::u32)"
abbreviation "X86_CPUID_FEATURE_EDX_MSR \<equiv> (0x20::u32)"
abbreviation "X86_CPUID_FEATURE_EDX_FXSR \<equiv> (0x1000000::u32)"
abbreviation "X86_CPUID_AMD_FEATURE_ECX_SVM \<equiv> (4::u32)"
abbreviation "MSR_K8_VM_CR_SVM_DISABLE \<equiv> (0x10::u64)"

text \<open>The locked MSR forbids or allows VMXON; an unlocked one is set and locked, which is the second component.\<close>

definition vmx_msr_status :: "cpu \<Rightarrow> rc \<times> (u32 \<times> u64) list" where
  "vmx_msr_status c =
     (let u64FeatMsr = c_rdmsr c MSR_IA32_FEATURE_CONTROL;
          fMaybeSmxMode = (c_cr4 c AND X86_CR4_SMXE \<noteq> 0);
          fMsrLocked = (u64FeatMsr AND MSR_IA32_FEATURE_CONTROL_LOCK \<noteq> 0);
          fSmxVmxAllowed = (u64FeatMsr AND MSR_IA32_FEATURE_CONTROL_SMX_VMXON \<noteq> 0);
          fVmxAllowed = (u64FeatMsr AND MSR_IA32_FEATURE_CONTROL_VMXON \<noteq> 0) in
      if fMsrLocked
      then (if fVmxAllowed \<and> fSmxVmxAllowed then VINF_SUCCESS
            else if \<not> fVmxAllowed \<and> \<not> fSmxVmxAllowed then VERR_VMX_MSR_ALL_VMXON_DISABLED
            else if \<not> fMaybeSmxMode
            then (if fVmxAllowed then VINF_SUCCESS else VERR_VMX_MSR_VMXON_DISABLED)
            else VINF_SUCCESS, [])
      else
        let u = u64FeatMsr OR (MSR_IA32_FEATURE_CONTROL_LOCK OR MSR_IA32_FEATURE_CONTROL_SMX_VMXON OR
                               MSR_IA32_FEATURE_CONTROL_VMXON);
            u' = c_wrmsr c MSR_IA32_FEATURE_CONTROL u;
            fMsrLocked' = (u' AND MSR_IA32_FEATURE_CONTROL_LOCK \<noteq> 0);
            fSmxVmxAllowed' = (fMsrLocked' \<and> u' AND MSR_IA32_FEATURE_CONTROL_SMX_VMXON \<noteq> 0);
            fVmxAllowed' = (fMsrLocked' \<and> u' AND MSR_IA32_FEATURE_CONTROL_VMXON \<noteq> 0) in
        (if fSmxVmxAllowed' \<and> fVmxAllowed' then VINF_SUCCESS else VERR_VMX_MSR_LOCKING_FAILED,
         [(MSR_IA32_FEATURE_CONTROL, u)]))"

text \<open>\<open>allowed1\<close> of a capability MSR is its high half.\<close>

definition vmx_allowed1 :: "cpu \<Rightarrow> u32 \<Rightarrow> u32" where
  "vmx_allowed1 c idMsr = ucast (drop_bit 32 (c_rdmsr c idMsr))"

definition vmx_caps :: "cpu \<Rightarrow> u32" where
  "vmx_caps c = SUPVTCAPS_VT_X OR
     (if vmx_allowed1 c MSR_IA32_VMX_PROCBASED_CTLS AND 0x80000000 \<noteq> 0 \<and>
         vmx_allowed1 c MSR_IA32_VMX_PROCBASED_CTLS2 AND 2 \<noteq> 0
      then SUPVTCAPS_NESTED_PAGING else 0)"

definition svm_caps :: "cpu \<Rightarrow> u32" where
  "svm_caps c = SUPVTCAPS_AMD_V OR (if ASMCpuId_EDX c 0x8000000a AND 1 \<noteq> 0 then SUPVTCAPS_NESTED_PAGING else 0)"

text \<open>
  Answers the status, the capabilities (stored through \<open>pfCaps\<close>; \<open>None\<close> when nothing is), and the
  MSRs written.  \<open>fValid\<close> and \<open>pfCaps\<close> stand for the validation of the session and the pointer.
\<close>

definition SUPR0QueryVTCaps :: "bool \<Rightarrow> addr \<Rightarrow> cpu \<Rightarrow> rc \<times> u32 option \<times> (u32 \<times> u64) list" where
  "SUPR0QueryVTCaps fValid pfCaps c =
     (if \<not> fValid then (VERR_INVALID_PARAMETER, None, [])
      else if \<not> RT_VALID_PTR pfCaps then (VERR_INVALID_POINTER, None, [])
      else if \<not> c_fCpuId c then (VERR_UNSUPPORTED_CPU, Some 0, [])
      else case c_cpuid c 0 of (uMaxId, uVendorEBX, uVendorECX, uVendorEDX) \<Rightarrow>
        case c_cpuid c 1 of (_, _, fFeaturesECX, fFeaturesEDX) \<Rightarrow>
        if ASMIsValidStdRange uMaxId \<and>
           (ASMIsIntelCpuEx uVendorEBX uVendorECX uVendorEDX \<or> ASMIsViaCentaurCpuEx uVendorEBX uVendorECX uVendorEDX)
        then
          if fFeaturesECX AND X86_CPUID_FEATURE_ECX_VMX \<noteq> 0 \<and> fFeaturesEDX AND X86_CPUID_FEATURE_EDX_MSR \<noteq> 0 \<and>
             fFeaturesEDX AND X86_CPUID_FEATURE_EDX_FXSR \<noteq> 0
          then (case vmx_msr_status c of (rc, wr) \<Rightarrow>
                  (rc, Some (if rc = VINF_SUCCESS then vmx_caps c else 0), wr))
          else (VERR_VMX_NO_VMX, Some 0, [])
        else if ASMIsAmdCpuEx uVendorEBX uVendorECX uVendorEDX \<and> ASMIsValidStdRange uMaxId
        then
          case c_cpuid c 0x80000000 of (uExtMaxId, _, _, _) \<Rightarrow>
          case c_cpuid c 0x80000001 of (_, _, fExtFeaturesEcx, _) \<Rightarrow>
          if ASMIsValidExtRange uExtMaxId \<and> uExtMaxId \<ge> 0x8000000a \<and>
             fExtFeaturesEcx AND X86_CPUID_AMD_FEATURE_ECX_SVM \<noteq> 0 \<and>
             fFeaturesEDX AND X86_CPUID_FEATURE_EDX_MSR \<noteq> 0 \<and> fFeaturesEDX AND X86_CPUID_FEATURE_EDX_FXSR \<noteq> 0
          then
            if c_rdmsr c MSR_K8_VM_CR AND MSR_K8_VM_CR_SVM_DISABLE = 0
            then (VINF_SUCCESS, Some (svm_caps c), [])
            else (VERR_SVM_DISABLED, Some 0, [])
          else (VERR_SVM_NO_SVM, Some 0, [])
        else (VERR_UNSUPPORTED_CPU, Some 0, []))"

section \<open>What they answer\<close>

lemma vmx_msr_status_writes:
  "snd (vmx_msr_status c) =
     (if c_rdmsr c MSR_IA32_FEATURE_CONTROL AND MSR_IA32_FEATURE_CONTROL_LOCK \<noteq> 0 then []
      else [(MSR_IA32_FEATURE_CONTROL, c_rdmsr c MSR_IA32_FEATURE_CONTROL OR 7)])"
  by (simp add: vmx_msr_status_def Let_def)

lemma vmx_msr_status_rc: "fst (vmx_msr_status c) = VINF_SUCCESS \<or> fst (vmx_msr_status c) < 0"
  by (simp add: vmx_msr_status_def Let_def)

lemma caps_values:
  "vmx_caps c \<in> {SUPVTCAPS_VT_X, SUPVTCAPS_VT_X OR SUPVTCAPS_NESTED_PAGING}"
  "svm_caps c \<in> {SUPVTCAPS_AMD_V, SUPVTCAPS_AMD_V OR SUPVTCAPS_NESTED_PAGING}"
  by (simp_all add: vmx_caps_def svm_caps_def)

lemma msr_lock_set: "(v OR 7) AND MSR_IA32_FEATURE_CONTROL_LOCK \<noteq> (0 :: u64)"
proof
  assume "(v OR 7) AND 1 = (0 :: u64)"
  then have "bit ((v OR 7) AND 1) 0 = bit (0 :: u64) 0" by simp
  then show False by (simp add: bit_simps)
qed

text \<open>C17: Capabilities are only reported with success and success only with capabilities: exactly one of
  VT-x and AMD-V, of which nested paging is a feature; a failure reports none.  The only MSR that is
  ever written is the feature control MSR, when its lock bit is clear, and the write sets the lock.\<close>

theorem vt_caps_consistent:
  assumes "SUPR0QueryVTCaps True p c = (r, Some caps, wr)"
  shows "(r = VINF_SUCCESS \<longleftrightarrow> caps \<noteq> 0) \<and> (r \<noteq> VINF_SUCCESS \<longrightarrow> RT_FAILURE r \<and> caps = 0) \<and>
    (caps \<noteq> 0 \<longrightarrow> caps AND NOT SUPVTCAPS_NESTED_PAGING \<in> {SUPVTCAPS_VT_X, SUPVTCAPS_AMD_V}) \<and>
    (wr = [] \<or> c_rdmsr c MSR_IA32_FEATURE_CONTROL AND MSR_IA32_FEATURE_CONTROL_LOCK = 0 \<and>
       (\<exists>v. wr = [(MSR_IA32_FEATURE_CONTROL, v)] \<and> v AND MSR_IA32_FEATURE_CONTROL_LOCK \<noteq> 0))"
proof (cases "c_fCpuId c \<and> RT_VALID_PTR p")
  case False
  with assms show ?thesis by (auto simp: SUPR0QueryVTCaps_def split: if_splits)
next
  case True
  obtain m b x d where l0: "c_cpuid c 0 = (m, b, x, d)" by (metis prod_cases4)
  obtain a1 b1 x1 d1 where l1: "c_cpuid c 1 = (a1, b1, x1, d1)" by (metis prod_cases4)
  obtain a2 b2 x2 d2 where l2: "c_cpuid c 0x80000000 = (a2, b2, x2, d2)" by (metis prod_cases4)
  obtain a3 b3 x3 d3 where l3: "c_cpuid c 0x80000001 = (a3, b3, x3, d3)" by (metis prod_cases4)
  obtain r0 w0 where m: "vmx_msr_status c = (r0, w0)" by fastforce
  have "(caps = 0 \<and> RT_FAILURE r \<and> wr = []) \<or> (r = r0 \<and> wr = w0 \<and> caps = (if r0 = VINF_SUCCESS then vmx_caps c else 0)) \<or>
      (r = VINF_SUCCESS \<and> caps = svm_caps c \<and> wr = [])"
    using assms True by (auto simp: SUPR0QueryVTCaps_def l0 l1 l2 l3 m split: if_splits)
  then show ?thesis
  proof (elim disjE)
    assume v: "r = r0 \<and> wr = w0 \<and> caps = (if r0 = VINF_SUCCESS then vmx_caps c else 0)"
    have "r0 = VINF_SUCCESS \<or> r0 < 0" using vmx_msr_status_rc[of c] m by simp
    moreover have "w0 = [] \<or> c_rdmsr c MSR_IA32_FEATURE_CONTROL AND MSR_IA32_FEATURE_CONTROL_LOCK = 0 \<and>
       (\<exists>v. w0 = [(MSR_IA32_FEATURE_CONTROL, v)] \<and> v AND MSR_IA32_FEATURE_CONTROL_LOCK \<noteq> 0)"
      using vmx_msr_status_writes[of c] m msr_lock_set[of "c_rdmsr c MSR_IA32_FEATURE_CONTROL"] by (auto split: if_splits)
    ultimately show ?thesis using v caps_values(1)[of c] by auto
  qed (use caps_values(2)[of c] in auto)
qed

definition cpu_amd :: cpu where
  "cpu_amd = \<lparr>c_cr0 = 0x80000001, c_cr4 = 0x20, c_fCpuId = True,
     c_cpuid = (\<lambda>leaf. if leaf = 0 then (1, 0x68747541, 0x444d4163, 0x69746e65) else if leaf = 1 then (0, 0, 0, 0x1000020)
        else if leaf = 0x80000000 then (0x8000000a, 0, 0, 0) else if leaf = 0x80000001 then (0, 0, 4, 0) else (0, 0, 0, 1)),
     c_rdmsr = (\<lambda>_. 0), c_wrmsr = (\<lambda>_ v. v)\<rparr>"

theorem vt_caps_consistent_witness:
  "SUPR0QueryVTCaps True 0x50000 cpu_amd = (VINF_SUCCESS, Some 5, []) \<and> (5 :: u32) AND NOT SUPVTCAPS_NESTED_PAGING = SUPVTCAPS_AMD_V"
proof -
  have "SUPR0QueryVTCaps True 0x50000 cpu_amd = (VINF_SUCCESS, Some 5, [])"
    by (simp add: SUPR0QueryVTCaps_def cpu_amd_def RT_VALID_PTR_def ASMIsValidStdRange_def ASMIsValidExtRange_def ASMIsIntelCpuEx_def
        ASMIsViaCentaurCpuEx_def ASMIsAmdCpuEx_def svm_caps_def ASMCpuId_EDX_def)
  moreover from vt_caps_consistent[OF this] have "(5 :: u32) AND NOT SUPVTCAPS_NESTED_PAGING \<in> {SUPVTCAPS_VT_X, SUPVTCAPS_AMD_V}" by simp
  ultimately show ?thesis by simp
qed

text \<open>
  PAE paging with global pages and no-execute is reported without the no-execute feature:
  the mode that has both is never answered.
\<close>

theorem paging_mode_drops_nx:
  "SUPR0GetPagingMode c \<noteq> SUPPAGINGMODE_PAE_GLOBAL_NX"
  by (simp add: SUPR0GetPagingMode_def Let_def)

end
