(* ===== verification/SupIoctl.thy ===== *)
theory SupIoctl
  imports SupSession SupReq SupCpu
begin

text \<open>
  The IOCtl dispatcher (\<open>supdrvIOCtl\<close>, its restricted and unrestricted inner workers and the fast
  path).  Every case of the switch is a definition of its own: it reads its fields from the request
  buffer, makes the checks of the \<open>REQ_CHECK\<close> macros, calls the operation, stores what it answers
  and the status in the buffer.  \<open>None\<close> is a memory fault, an access to the buffer outside of its
  bytes included.  The result of a handler is the status it returns, the buffer and the driver.
\<close>

section \<open>The environment of a request\<close>

text \<open>
  The address of the buffer; what the operating system and the components that are not modelled
  answer: allocations, semaphores, the CPU, the export table, the VMMR0 entry point and what it and a
  service leave of each byte of their request packet, the tracer, the logger and the semaphore
  resolution.
\<close>

record ioctlenv =
  io_pReq :: addr
  io_mem :: memenv
  io_ldr :: ldrenv
  io_gip :: gipenv
  io_rcStop :: rc
  io_sem :: semenv
  io_phEvent :: addr
  io_cpu :: cpu
  io_aFunctions :: "(u8 list \<times> addr) list"
  io_rcEntryEx :: rc
  io_pkt :: "nat \<Rightarrow> u8 \<Rightarrow> u8"
  io_cNsResolution :: u32
  io_rcTracer :: rc
  io_iTracerRet :: u32
  io_rcLogger :: rc

type_synonym io_res = "(rc \<times> reqbuf \<times> supdrv) option"

section \<open>The header and the checks\<close>

abbreviation "OFF_u32Cookie \<equiv> (0::nat)"
abbreviation "OFF_u32SessionCookie \<equiv> (4::nat)"
abbreviation "OFF_cbIn \<equiv> (8::nat)"
abbreviation "OFF_cbOut \<equiv> (12::nat)"
abbreviation "OFF_fFlags \<equiv> (16::nat)"
abbreviation "OFF_rc \<equiv> (20::nat)"

text \<open>\<open>pReq->Hdr.rc = rc; return 0\<close>, and the same with the output shortened to the header on failure.\<close>

definition io_ret :: "rc \<Rightarrow> reqbuf \<Rightarrow> supdrv \<Rightarrow> io_res" where
  "io_ret r b s = do { b1 \<leftarrow> wr32 b OFF_rc (word_of_int r); Some (0, b1, s) }"

definition io_ret_out :: "rc \<Rightarrow> reqbuf \<Rightarrow> supdrv \<Rightarrow> io_res" where
  "io_ret_out r b s = do {
     b1 \<leftarrow> wr32 b OFF_rc (word_of_int r);
     b2 \<leftarrow> (if RT_FAILURE r then wr32 b1 OFF_cbOut 24 else Some b1);
     Some (0, b2, s)
   }"

text \<open>\<open>return pReqHdr->rc = VERR_INVALID_PARAMETER\<close>.\<close>

definition io_fail :: "reqbuf \<Rightarrow> supdrv \<Rightarrow> io_res" where
  "io_fail b s = do {
     b1 \<leftarrow> wr32 b OFF_rc (word_of_int VERR_INVALID_PARAMETER);
     Some (VERR_INVALID_PARAMETER, b1, s)
   }"

definition REQ_CHECK_EXPR :: "bool \<Rightarrow> reqbuf \<Rightarrow> supdrv \<Rightarrow> io_res \<Rightarrow> io_res" where
  "REQ_CHECK_EXPR expr b s k = (if expr then k else io_fail b s)"

definition REQ_CHECK_SIZE_IN :: "nat \<Rightarrow> reqbuf \<Rightarrow> supdrv \<Rightarrow> io_res \<Rightarrow> io_res" where
  "REQ_CHECK_SIZE_IN cbInExpect b s k = do { cbIn \<leftarrow> rd32 b OFF_cbIn; REQ_CHECK_EXPR (unat cbIn = cbInExpect) b s k }"

definition REQ_CHECK_SIZE_OUT :: "nat \<Rightarrow> reqbuf \<Rightarrow> supdrv \<Rightarrow> io_res \<Rightarrow> io_res" where
  "REQ_CHECK_SIZE_OUT cbOutExpect b s k = do { cbOut \<leftarrow> rd32 b OFF_cbOut; REQ_CHECK_EXPR (unat cbOut = cbOutExpect) b s k }"

text \<open>The expected output size may be read from the request; it is when the input size is right.\<close>

definition REQ_CHECK_SIZES_EX :: "nat \<Rightarrow> nat option \<Rightarrow> reqbuf \<Rightarrow> supdrv \<Rightarrow> io_res \<Rightarrow> io_res" where
  "REQ_CHECK_SIZES_EX cbInExpect cbOutExpect b s k =
     REQ_CHECK_SIZE_IN cbInExpect b s (do { n \<leftarrow> cbOutExpect; REQ_CHECK_SIZE_OUT n b s k })"

abbreviation "REQ_CHECK_SIZES cbInExpect cbOutExpect \<equiv> REQ_CHECK_SIZES_EX cbInExpect (Some cbOutExpect)"

section \<open>Cookie, export table\<close>

abbreviation "SUPDRV_IOC_VERSION \<equiv> (0x001a0007::u32)"
abbreviation "SUPCOOKIE_INITIAL_COOKIE \<equiv> (0x69726f74::u32)"

text \<open>\<open>"The Magic Word!"\<close> with its terminator.\<close>

definition SUPCOOKIE_MAGIC :: "u8 list" where
  "SUPCOOKIE_MAGIC = [0x54, 0x68, 0x65, 0x20, 0x4d, 0x61, 0x67, 0x69, 0x63, 0x20, 0x57, 0x6f, 0x72, 0x64, 0x21, 0]"

definition cookie_out :: "reqbuf \<Rightarrow> u32 \<Rightarrow> u32 \<Rightarrow> u32 \<Rightarrow> u32 \<Rightarrow> u32 \<Rightarrow> addr \<Rightarrow> reqbuf option" where
  "cookie_out b u32Cookie u32SessionCookie u32SessionVersion u32DriverVersion cFunctions pSession = do {
     b1 \<leftarrow> wr32 b 24 u32Cookie;
     b2 \<leftarrow> wr32 b1 28 u32SessionCookie;
     b3 \<leftarrow> wr32 b2 32 u32SessionVersion;
     b4 \<leftarrow> wr32 b3 36 u32DriverVersion;
     b5 \<leftarrow> wr32 b4 40 cFunctions;
     wr64 b5 48 pSession
   }"

definition ioctl_COOKIE :: "u32 \<Rightarrow> ioctlenv \<Rightarrow> addr \<Rightarrow> reqbuf \<Rightarrow> supdrv \<Rightarrow> io_res" where
  "ioctl_COOKIE cFunctions env pSession b s = REQ_CHECK_SIZES 48 56 b s (do {
     szMagic \<leftarrow> bytes_at b 24 16;
     if szMagic \<noteq> SUPCOOKIE_MAGIC then io_ret VERR_INVALID_MAGIC b s
     else do {
       u32MinVersion \<leftarrow> rd32 b 44;
       if u32MinVersion > SUPDRV_IOC_VERSION \<or> u32MinVersion AND 0xffff0000 \<noteq> SUPDRV_IOC_VERSION AND 0xffff0000
       then do {
         b1 \<leftarrow> cookie_out b 0xffffffff 0xffffffff 0xffffffff SUPDRV_IOC_VERSION 0 0;
         io_ret VERR_VERSION_MISMATCH b1 s
       }
       else do {
         ss \<leftarrow> sessions s pSession;
         b1 \<leftarrow> cookie_out b (d_u32Cookie (devext s)) (s_u32Cookie ss) SUPDRV_IOC_VERSION SUPDRV_IOC_VERSION cFunctions pSession;
         io_ret VINF_SUCCESS b1 s
       }
     }
   })"

text \<open>The entries of the export table, 40 bytes each: the name, padded, and the address.\<close>

fun func_bytes :: "(u8 list \<times> addr) list \<Rightarrow> u8 list" where
  "func_bytes [] = []"
| "func_bytes ((szName, pfn) # fs) = take 32 (szName @ replicate 32 0) @ le_bytes 8 pfn @ func_bytes fs"

definition ioctl_QUERY_FUNCS :: "ioctlenv \<Rightarrow> addr \<Rightarrow> reqbuf \<Rightarrow> supdrv \<Rightarrow> io_res" where
  "ioctl_QUERY_FUNCS env pSession b s =
     (let n = length (io_aFunctions env) in
      REQ_CHECK_SIZES 24 (32 + 40 * n) b s (do {
        b1 \<leftarrow> wr32 b 24 (of_nat n);
        b2 \<leftarrow> put_bytes b1 32 (func_bytes (io_aFunctions env));
        io_ret VINF_SUCCESS b2 s
      }))"

section \<open>Memory\<close>

text \<open>The page addresses are stored from the last page down, so a failed lock may leave only the last ones.\<close>

definition ioctl_PAGE_LOCK :: "ioctlenv \<Rightarrow> addr \<Rightarrow> reqbuf \<Rightarrow> supdrv \<Rightarrow> io_res" where
  "ioctl_PAGE_LOCK env pSession b s = REQ_CHECK_SIZE_IN 40 b s (do {
     cPages \<leftarrow> rd32 b 32;
     REQ_CHECK_SIZE_OUT (24 + 8 * unat cPages) b s (REQ_CHECK_EXPR (cPages > 0) b s (do {
       pvR3 \<leftarrow> rd64 b 24;
       REQ_CHECK_EXPR (pvR3 \<ge> 0x1000) b s (do {
         ((rc, _, _, aPages), s1) \<leftarrow> SUPR0LockMem pSession pvR3 cPages (io_pReq env + 24) (io_mem env) s;
         b1 \<leftarrow> wr64s b (24 + 8 * (unat cPages - length aPages)) aPages;
         io_ret_out rc b1 s1
       })
     }))
   })"

text \<open>The five requests whose only input is the ring-3 address of what they free.\<close>

definition ioctl_free ::
  "(addr \<Rightarrow> addr \<Rightarrow> memenv \<Rightarrow> supdrv \<Rightarrow> (rc \<times> supdrv) option) \<Rightarrow> ioctlenv \<Rightarrow> addr \<Rightarrow> reqbuf \<Rightarrow> supdrv \<Rightarrow> io_res" where
  "ioctl_free f env pSession b s = REQ_CHECK_SIZES 32 24 b s (do {
     pvR3 \<leftarrow> rd64 b 24;
     (rc, s1) \<leftarrow> f pSession pvR3 (io_mem env) s;
     io_ret rc b s1
   })"

definition ioctl_PAGE_UNLOCK where "ioctl_PAGE_UNLOCK = ioctl_free SUPR0UnlockMem"
definition ioctl_CONT_FREE where "ioctl_CONT_FREE = ioctl_free SUPR0ContFree"
definition ioctl_LOW_FREE where "ioctl_LOW_FREE = ioctl_free SUPR0LowFree"
definition ioctl_PAGE_FREE where "ioctl_PAGE_FREE = ioctl_free SUPR0PageFree"

definition ioctl_CONT_ALLOC :: "ioctlenv \<Rightarrow> addr \<Rightarrow> reqbuf \<Rightarrow> supdrv \<Rightarrow> io_res" where
  "ioctl_CONT_ALLOC env pSession b s = REQ_CHECK_SIZES 28 48 b s (do {
     cPages \<leftarrow> rd32 b 24;
     ((rc, pvR0, pvR3, aPages), s1) \<leftarrow>
       SUPR0ContAlloc pSession cPages (io_pReq env + 24) (io_pReq env + 32) (io_pReq env + 40) (io_mem env) s;
     b1 \<leftarrow> (if RT_SUCCESS rc then wr64s b 24 (pvR0 # pvR3 # aPages) else Some b);
     io_ret_out rc b1 s1
   })"

text \<open>The size macro of this request casts to 32 bits; the checks of the input size come to one.\<close>

definition ioctl_LOW_ALLOC :: "ioctlenv \<Rightarrow> addr \<Rightarrow> reqbuf \<Rightarrow> supdrv \<Rightarrow> io_res" where
  "ioctl_LOW_ALLOC env pSession b s = do {
     cbIn \<leftarrow> rd32 b OFF_cbIn;
     REQ_CHECK_EXPR (unat cbIn \<le> 28) b s
       (REQ_CHECK_SIZES_EX 28 (map_option (\<lambda>cPages. unat (40 + 8 * cPages)) (rd32 b 24)) b s (do {
          cPages \<leftarrow> rd32 b 24;
          ((rc, pvR0, pvR3, aPages), s1) \<leftarrow>
            SUPR0LowAlloc pSession cPages (io_pReq env + 32) (io_pReq env + 24) (io_pReq env + 40) (io_mem env) s;
          b1 \<leftarrow> (if RT_SUCCESS rc then wr64s b 24 (pvR3 # pvR0 # aPages) else Some b);
          io_ret_out rc b1 s1
        }))
   }"

definition ioctl_PAGE_ALLOC_EX :: "ioctlenv \<Rightarrow> addr \<Rightarrow> reqbuf \<Rightarrow> supdrv \<Rightarrow> io_res" where
  "ioctl_PAGE_ALLOC_EX env pSession b s = do {
     cbIn \<leftarrow> rd32 b OFF_cbIn;
     REQ_CHECK_EXPR (unat cbIn \<le> 32) b s
       (REQ_CHECK_SIZES_EX 32 (map_option (\<lambda>cPages. 40 + 8 * unat cPages) (rd32 b 24)) b s (do {
          cPages \<leftarrow> rd32 b 24;
          fKernelMapping \<leftarrow> rd8 b 28;
          fUserMapping \<leftarrow> rd8 b 29;
          fReserved0 \<leftarrow> rd8 b 30;
          fReserved1 \<leftarrow> rd8 b 31;
          REQ_CHECK_EXPR (fKernelMapping \<noteq> 0 \<or> fUserMapping \<noteq> 0) b s
            (REQ_CHECK_EXPR (fUserMapping \<noteq> 0) b s
               (REQ_CHECK_EXPR (fReserved0 = 0 \<and> fReserved1 = 0) b s (do {
                  ((rc, pvR0, pvR3, aPages), s1) \<leftarrow>
                    SUPR0PageAllocEx pSession cPages 0 (if fUserMapping \<noteq> 0 then io_pReq env + 24 else 0)
                      (if fKernelMapping \<noteq> 0 then io_pReq env + 32 else 0) (io_pReq env + 40) (io_mem env) s;
                  b1 \<leftarrow> (if RT_SUCCESS rc \<and> fUserMapping \<noteq> 0 then wr64 b 24 pvR3 else Some b);
                  b2 \<leftarrow> (if RT_SUCCESS rc \<and> fKernelMapping \<noteq> 0 then wr64 b1 32 pvR0 else Some b1);
                  b3 \<leftarrow> (if RT_SUCCESS rc then wr64s b2 40 aPages else Some b2);
                  io_ret_out rc b3 s1
                })))
        }))
   }"

definition ioctl_PAGE_MAP_KERNEL :: "ioctlenv \<Rightarrow> addr \<Rightarrow> reqbuf \<Rightarrow> supdrv \<Rightarrow> io_res" where
  "ioctl_PAGE_MAP_KERNEL env pSession b s = REQ_CHECK_SIZES 48 48 b s (do {
     pvR3 \<leftarrow> rd64 b 24;
     offSub \<leftarrow> rd32 b 32;
     cbSub \<leftarrow> rd32 b 36;
     fFlags \<leftarrow> rd32 b 40;
     REQ_CHECK_EXPR (fFlags = 0) b s (REQ_CHECK_EXPR (offSub AND 0xfff = 0) b s
       (REQ_CHECK_EXPR (cbSub \<noteq> 0 \<and> cbSub AND 0xfff = 0) b s (do {
          (rc, pvR0, s1) \<leftarrow> SUPR0PageMapKernel pSession pvR3 offSub cbSub fFlags (io_pReq env + 24) (io_mem env) s;
          b1 \<leftarrow> (if RT_SUCCESS rc then wr64 b 24 pvR0 else Some b);
          io_ret_out rc b1 s1
        })))
   })"

definition ioctl_PAGE_PROTECT :: "ioctlenv \<Rightarrow> addr \<Rightarrow> reqbuf \<Rightarrow> supdrv \<Rightarrow> io_res" where
  "ioctl_PAGE_PROTECT env pSession b s = REQ_CHECK_SIZES 56 56 b s (do {
     pvR3 \<leftarrow> rd64 b 24;
     pvR0 \<leftarrow> rd64 b 32;
     offSub \<leftarrow> rd32 b 40;
     cbSub \<leftarrow> rd32 b 44;
     fProt \<leftarrow> rd32 b 48;
     REQ_CHECK_EXPR (fProt AND NOT 7 = 0) b s (REQ_CHECK_EXPR (offSub AND 0xfff = 0) b s
       (REQ_CHECK_EXPR (cbSub \<noteq> 0 \<and> cbSub AND 0xfff = 0) b s (do {
          (rc, s1) \<leftarrow> SUPR0PageProtect pSession pvR3 pvR0 offSub cbSub fProt (io_mem env) s;
          io_ret rc b s1
        })))
   })"

section \<open>Images\<close>

text \<open>The characters an image name must not have: \<open>;:()[]{}/\|&*%#@!~`\<close> and the two quotes.\<close>

definition ldr_bad_chars :: "u8 list" where
  "ldr_bad_chars = [0x3b, 0x3a, 0x28, 0x29, 0x5b, 0x5d, 0x7b, 0x7d, 0x2f, 0x5c, 0x7c, 0x26, 0x2a, 0x25, 0x23, 0x40,
     0x21, 0x7e, 0x60, 0x22, 0x27]"

definition ioctl_LDR_OPEN :: "ioctlenv \<Rightarrow> addr \<Rightarrow> reqbuf \<Rightarrow> supdrv \<Rightarrow> io_res" where
  "ioctl_LDR_OPEN env pSession b s = REQ_CHECK_SIZES 328 40 b s (do {
     cbImageWithTabs \<leftarrow> rd32 b 24;
     cbImageBits \<leftarrow> rd32 b 28;
     szName \<leftarrow> bytes_at b 32 32;
     fNameEnd \<leftarrow> str_end b 32 32;
     fFilenameEnd \<leftarrow> str_end b 64 260;
     REQ_CHECK_EXPR (cbImageWithTabs > 0) b s (REQ_CHECK_EXPR (cbImageWithTabs < 0x1000000) b s
       (REQ_CHECK_EXPR (cbImageBits > 0) b s (REQ_CHECK_EXPR (cbImageBits < cbImageWithTabs) b s
          (REQ_CHECK_EXPR (szName ! 0 \<noteq> 0) b s (REQ_CHECK_EXPR fNameEnd b s
             (REQ_CHECK_EXPR (\<not> supdrvCheckInvalidChar szName ldr_bad_chars) b s (REQ_CHECK_EXPR fFilenameEnd b s (do {
                ((rc, pvImageBase, fNeedsLoading, fNativeLoader), s1) \<leftarrow>
                  supdrvIOCtl_LdrOpen pSession (cstr szName) cbImageWithTabs cbImageBits (io_ldr env) s;
                b1 \<leftarrow> (if RT_SUCCESS rc
                      then do { b1 \<leftarrow> wr64 b 24 pvImageBase;
                                put_bytes b1 32 [of_bool fNeedsLoading, of_bool fNativeLoader] }
                      else Some b);
                io_ret rc b1 s1
              }))))))))
   })"

text \<open>The load request as the loader sees it.\<close>

definition ldr_load_EP :: "reqbuf \<Rightarrow> SUPLDRLOADEP option" where
  "ldr_load_EP b = do {
     eEPType \<leftarrow> rd32 b 80;
     p0 \<leftarrow> rd64 b 40;
     p1 \<leftarrow> rd64 b 48;
     p2 \<leftarrow> rd64 b 56;
     p3 \<leftarrow> rd64 b 64;
     Some (if eEPType = 0 then EP_NOTHING else if eEPType = 1 then EP_VMMR0 p0 p1 p2 p3
           else if eEPType = 2 then EP_SERVICE p0 [p1, p2, p3] else EP_OTHER)
   }"

definition ldr_load_req :: "reqbuf \<Rightarrow> SUPLDRLOAD option" where
  "ldr_load_req b = do {
     pfnModuleInit \<leftarrow> rd64 b 24;
     pfnModuleTerm \<leftarrow> rd64 b 32;
     EP \<leftarrow> ldr_load_EP b;
     pvImageBase \<leftarrow> rd64 b 72;
     cbImageBits \<leftarrow> rd32 b 84;
     offSymbols \<leftarrow> rd32 b 88;
     cSymbols \<leftarrow> rd32 b 92;
     offStrTab \<leftarrow> rd32 b 96;
     cbStrTab \<leftarrow> rd32 b 100;
     cbImageWithTabs \<leftarrow> rd32 b 104;
     abImage \<leftarrow> bytes_at b 108 (unat cbImageWithTabs);
     Some \<lparr>ll_pfnModuleInit = pfnModuleInit, ll_pfnModuleTerm = pfnModuleTerm, ll_EP = EP, ll_pvImageBase = pvImageBase,
       ll_cbImageBits = cbImageBits, ll_offSymbols = offSymbols, ll_cSymbols = cSymbols, ll_offStrTab = offStrTab,
       ll_cbStrTab = cbStrTab, ll_cbImageWithTabs = cbImageWithTabs, ll_abImage = abImage\<rparr>
   }"

text \<open>
  The checks of one symbol, and the loop over the \<open>n\<close> symbols from index \<open>i\<close>.  The offset of a name
  is a 32 bit sum.
\<close>

definition ldr_sym_check :: "reqbuf \<Rightarrow> u32 \<Rightarrow> u32 \<Rightarrow> u32 \<Rightarrow> nat \<Rightarrow> bool option" where
  "ldr_sym_check b cbImageWithTabs offStrTab cbStrTab offSym = do {
     offName \<leftarrow> rd32 b offSym;
     offSymbol \<leftarrow> rd32 b (offSym + 4);
     if \<not> offSymbol < cbImageWithTabs then Some False
     else if \<not> offName < cbStrTab then Some False
     else str_end b (108 + unat (offStrTab + offName)) (unat (cbStrTab - offName))
   }"

fun ldr_syms_check :: "reqbuf \<Rightarrow> u32 \<Rightarrow> u32 \<Rightarrow> u32 \<Rightarrow> nat \<Rightarrow> nat \<Rightarrow> bool option" where
  "ldr_syms_check b cbImageWithTabs offStrTab cbStrTab offSym 0 = Some True"
| "ldr_syms_check b cbImageWithTabs offStrTab cbStrTab offSym (Suc n) = do {
     ok \<leftarrow> ldr_sym_check b cbImageWithTabs offStrTab cbStrTab offSym;
     if ok then ldr_syms_check b cbImageWithTabs offStrTab cbStrTab (offSym + 8) n else Some False
   }"

definition ioctl_LDR_LOAD :: "ioctlenv \<Rightarrow> addr \<Rightarrow> reqbuf \<Rightarrow> supdrv \<Rightarrow> io_res" where
  "ioctl_LDR_LOAD env pSession b s = do {
     cbIn \<leftarrow> rd32 b OFF_cbIn;
     REQ_CHECK_EXPR (112 \<le> unat cbIn) b s (do {
       cbImageWithTabs \<leftarrow> rd32 b 104;
       REQ_CHECK_SIZES (108 + unat cbImageWithTabs) 24 b s (do {
         req \<leftarrow> ldr_load_req b;
         let offSymbols = ll_offSymbols req;
         let cSymbols = ll_cSymbols req;
         let offStrTab = ll_offStrTab req;
         let cbStrTab = ll_cbStrTab req;
         REQ_CHECK_EXPR (cSymbols \<le> 16384) b s
           (REQ_CHECK_EXPR (cSymbols = 0 \<or> offSymbols < cbImageWithTabs \<and>
                unat offSymbols + unat cSymbols * 8 \<le> unat cbImageWithTabs) b s
             (REQ_CHECK_EXPR (cbStrTab = 0 \<or> offStrTab < cbImageWithTabs \<and>
                  offStrTab + cbStrTab \<le> cbImageWithTabs \<and> cbStrTab \<le> cbImageWithTabs) b s (do {
                fSyms \<leftarrow> ldr_syms_check b cbImageWithTabs offStrTab cbStrTab (108 + unat offSymbols) (unat cSymbols);
                REQ_CHECK_EXPR fSyms b s (do {
                  (rc, s1) \<leftarrow> supdrvIOCtl_LdrLoad pSession req (io_ldr env) s;
                  io_ret rc b s1
                })
              })))
       })
     })
   }"

definition ioctl_LDR_FREE :: "ioctlenv \<Rightarrow> addr \<Rightarrow> reqbuf \<Rightarrow> supdrv \<Rightarrow> io_res" where
  "ioctl_LDR_FREE env pSession b s = REQ_CHECK_SIZES 32 24 b s (do {
     pvImageBase \<leftarrow> rd64 b 24;
     (rc, s1) \<leftarrow> supdrvIOCtl_LdrFree pSession pvImageBase s;
     io_ret rc b s1
   })"

text \<open>The symbol address is stored when the search was made, also when it found nothing.\<close>

definition ioctl_LDR_GET_SYMBOL :: "ioctlenv \<Rightarrow> addr \<Rightarrow> reqbuf \<Rightarrow> supdrv \<Rightarrow> io_res" where
  "ioctl_LDR_GET_SYMBOL env pSession b s = REQ_CHECK_SIZES 96 32 b s (do {
     pvImageBase \<leftarrow> rd64 b 24;
     szSymbol \<leftarrow> bytes_at b 32 64;
     fEnd \<leftarrow> str_end b 32 64;
     REQ_CHECK_EXPR fEnd b s (do {
       (rc, pvSymbol) \<leftarrow> supdrvIOCtl_LdrGetSymbol pSession pvImageBase (cstr szSymbol) s;
       b1 \<leftarrow> (if rc = VERR_INVALID_HANDLE \<or> rc = VERR_ALREADY_LOADED then Some b else wr64 b 24 pvSymbol);
       io_ret rc b1 s
     })
   })"

section \<open>Calls into VMMR0 and services\<close>

text \<open>What a callee leaves of the \<open>n\<close> bytes of a request packet.\<close>

definition pkt_update :: "(nat \<Rightarrow> u8 \<Rightarrow> u8) \<Rightarrow> nat \<Rightarrow> nat \<Rightarrow> reqbuf \<Rightarrow> reqbuf option" where
  "pkt_update f off n b = do { bs \<leftarrow> bytes_at b off n; put_bytes b off (map (\<lambda>(i, x). f i x) (enumerate 0 bs)) }"

text \<open>The call with the packet of \<open>n\<close> bytes at \<open>pVMMReq\<close>, which is \<open>NULL\<close> when there is none.\<close>

definition call_VMMR0 :: "ioctlenv \<Rightarrow> addr \<Rightarrow> addr \<Rightarrow> nat \<Rightarrow> reqbuf \<Rightarrow> supdrv \<Rightarrow> io_res" where
  "call_VMMR0 env pSession pVMMReq n b s = do {
     pVMR0 \<leftarrow> rd64 b 24;
     idCpu \<leftarrow> rd32 b 32;
     uOperation \<leftarrow> rd32 b 36;
     u64Arg \<leftarrow> rd64 b 40;
     if d_pfnVMMR0EntryEx (devext s) \<noteq> 0
     then do {
       b1 \<leftarrow> pkt_update (io_pkt env) 48 n b;
       io_ret (io_rcEntryEx env) b1
         (log_call (Call_EntryEx (d_pfnVMMR0EntryEx (devext s)) pVMR0 idCpu uOperation pVMMReq u64Arg pSession) s)
     }
     else io_ret VERR_WRONG_ORDER b s
   }"

abbreviation "SUPVMMR0REQHDR_MAGIC \<equiv> (0x19730211::u32)"
abbreviation "SUPR0SERVICEREQHDR_MAGIC \<equiv> (0x19640416::u32)"

text \<open>
  The checks of a request packet at \<open>off\<close>: its header is there, has the magic, and its size accounts
  for the sizes of the request.
\<close>

definition pkt_check :: "nat \<Rightarrow> u32 \<Rightarrow> reqbuf \<Rightarrow> supdrv \<Rightarrow> (u32 \<Rightarrow> io_res) \<Rightarrow> io_res" where
  "pkt_check off uMagic b s k = do {
     cbIn \<leftarrow> rd32 b OFF_cbIn;
     REQ_CHECK_EXPR (off + 8 \<le> unat cbIn) b s (do {
       u32Magic \<leftarrow> rd32 b off;
       REQ_CHECK_EXPR (u32Magic = uMagic) b s (do {
         cbReq \<leftarrow> rd32 b (off + 4);
         REQ_CHECK_SIZES (off + unat cbReq) (off + unat cbReq) b s (k cbReq)
       })
     })
   }"

definition ioctl_CALL_VMMR0 :: "ioctlenv \<Rightarrow> addr \<Rightarrow> reqbuf \<Rightarrow> supdrv \<Rightarrow> io_res" where
  "ioctl_CALL_VMMR0 env pSession b s = do {
     cbIn \<leftarrow> rd32 b OFF_cbIn;
     if unat cbIn = 48
     then REQ_CHECK_SIZES 48 48 b s (call_VMMR0 env pSession 0 0 b s)
     else pkt_check 48 SUPVMMR0REQHDR_MAGIC b s (\<lambda>cbReq. call_VMMR0 env pSession (io_pReq env + 48) (unat cbReq) b s)
   }"

definition ioctl_CALL_VMMR0_BIG :: "ioctlenv \<Rightarrow> addr \<Rightarrow> reqbuf \<Rightarrow> supdrv \<Rightarrow> io_res" where
  "ioctl_CALL_VMMR0_BIG env pSession b s =
     pkt_check 48 SUPVMMR0REQHDR_MAGIC b s (\<lambda>cbReq. call_VMMR0 env pSession (io_pReq env + 48) (unat cbReq) b s)"

text \<open>A service that is called may change its packet; it is called when the log of calls grows.\<close>

definition call_service :: "ioctlenv \<Rightarrow> addr \<Rightarrow> nat \<Rightarrow> reqbuf \<Rightarrow> supdrv \<Rightarrow> io_res" where
  "call_service env pSession n b s = do {
     szName \<leftarrow> bytes_at b 24 28;
     fEnd \<leftarrow> str_end b 24 28;
     uOperation \<leftarrow> rd32 b 52;
     u64Arg \<leftarrow> rd64 b 56;
     REQ_CHECK_EXPR fEnd b s (do {
       (rc, s1) \<leftarrow> supdrvIOCtl_CallServiceModule pSession (cstr szName) uOperation u64Arg (io_ldr env) s;
       b1 \<leftarrow> (if calls s1 \<noteq> calls s then pkt_update (io_pkt env) 64 n b else Some b);
       io_ret rc b1 s1
     })
   }"

definition ioctl_CALL_SERVICE :: "ioctlenv \<Rightarrow> addr \<Rightarrow> reqbuf \<Rightarrow> supdrv \<Rightarrow> io_res" where
  "ioctl_CALL_SERVICE env pSession b s = do {
     cbIn \<leftarrow> rd32 b OFF_cbIn;
     if unat cbIn = 64
     then REQ_CHECK_SIZES 64 64 b s (call_service env pSession 0 b s)
     else pkt_check 64 SUPR0SERVICEREQHDR_MAGIC b s (\<lambda>cbReq. call_service env pSession (unat cbReq) b s)
   }"

section \<open>CPU, GIP, VM\<close>

definition ioctl_GET_PAGING_MODE :: "ioctlenv \<Rightarrow> addr \<Rightarrow> reqbuf \<Rightarrow> supdrv \<Rightarrow> io_res" where
  "ioctl_GET_PAGING_MODE env pSession b s = REQ_CHECK_SIZES 24 28 b s (do {
     b1 \<leftarrow> wr32 b OFF_rc (word_of_int VINF_SUCCESS);
     b2 \<leftarrow> wr32 b1 24 (paging_mode_value (SUPR0GetPagingMode (io_cpu env)));
     Some (0, b2, s)
   })"

definition ioctl_VT_CAPS :: "ioctlenv \<Rightarrow> addr \<Rightarrow> reqbuf \<Rightarrow> supdrv \<Rightarrow> io_res" where
  "ioctl_VT_CAPS env pSession b s = REQ_CHECK_SIZES 24 28 b s (do {
     ss \<leftarrow> sessions s pSession;
     let (rc, Caps, _) = SUPR0QueryVTCaps (SUP_IS_SESSION_VALID pSession ss) (io_pReq env + 24) (io_cpu env);
     b1 \<leftarrow> (case Caps of None \<Rightarrow> Some b | Some fCaps \<Rightarrow> wr32 b 24 fCaps);
     io_ret_out rc b1 s
   })"

text \<open>The two stores of \<open>SUPR0GipMap\<close> are made whenever it accepts its arguments.\<close>

definition ioctl_GIP_MAP :: "ioctlenv \<Rightarrow> addr \<Rightarrow> reqbuf \<Rightarrow> supdrv \<Rightarrow> io_res" where
  "ioctl_GIP_MAP env pSession b s = REQ_CHECK_SIZES 24 48 b s (do {
     ss \<leftarrow> sessions s pSession;
     ((rc, pGipR3, HCPhysGip), s1) \<leftarrow> SUPR0GipMap pSession (io_pReq env + 32) (io_pReq env + 24) (io_gip env) s;
     b1 \<leftarrow> (if SUP_IS_SESSION_VALID pSession ss \<and> (io_pReq env + 32 = 0 \<or> RT_VALID_PTR (io_pReq env + 32)) \<and>
              (io_pReq env + 24 = 0 \<or> RT_VALID_PTR (io_pReq env + 24))
           then do { b1 \<leftarrow> wr64 b 24 HCPhysGip; wr64 b1 32 pGipR3 } else Some b);
     b2 \<leftarrow> (if RT_SUCCESS rc then wr64 b1 40 (d_pGip (devext s1)) else Some b1);
     io_ret rc b2 s1
   })"

definition ioctl_GIP_UNMAP :: "ioctlenv \<Rightarrow> addr \<Rightarrow> reqbuf \<Rightarrow> supdrv \<Rightarrow> io_res" where
  "ioctl_GIP_UNMAP env pSession b s = REQ_CHECK_SIZES 24 24 b s (do {
     (rc, s1) \<leftarrow> SUPR0GipUnmap pSession (e_nf (io_mem env)) (io_rcStop env) s;
     io_ret rc b s1
   })"

definition ioctl_SET_VM_FOR_FAST :: "ioctlenv \<Rightarrow> addr \<Rightarrow> reqbuf \<Rightarrow> supdrv \<Rightarrow> io_res" where
  "ioctl_SET_VM_FOR_FAST env pSession b s = REQ_CHECK_SIZES 32 24 b s (do {
     pVMR0 \<leftarrow> rd64 b 24;
     REQ_CHECK_EXPR (pVMR0 = 0 \<or> RT_VALID_PTR pVMR0 \<and> pVMR0 AND 0xfff = 0) b s (do {
       ss \<leftarrow> sessions s pSession;
       io_ret VINF_SUCCESS b (put_session pSession (ss\<lparr>s_pVM := pVMR0\<rparr>) s)
     })
   })"

section \<open>Semaphores\<close>

abbreviation "VERR_NOT_IMPLEMENTED \<equiv> (-12::rc)"

text \<open>
  The operation codes of \<open>SUP_IOCTL_SEM_OP2\<close>: waits of 0 relative milliseconds, 1 absolute and 2 relative
  nanoseconds, 3 signal, 4 reset, 5 close.
\<close>

definition sem_op2_event :: "u32 \<Rightarrow> addr \<Rightarrow> u64 \<Rightarrow> u64 \<Rightarrow> semenv \<Rightarrow> supdrv \<Rightarrow> (rc \<times> supdrv) option" where
  "sem_op2_event uOp pSession hEvent uArg env s =
     (if uOp = 0 then SUPSemEventWaitNoResume pSession hEvent (ucast uArg) env s
      else if uOp = 1 then SUPSemEventWaitNsAbsIntr pSession hEvent uArg env s
      else if uOp = 2 then SUPSemEventWaitNsRelIntr pSession hEvent uArg env s
      else if uOp = 3 then SUPSemEventSignal pSession hEvent env s
      else if uOp = 5 then SUPSemEventClose pSession hEvent s
      else Some (VERR_INVALID_FUNCTION, s))"

definition sem_op2_multi :: "u32 \<Rightarrow> addr \<Rightarrow> u64 \<Rightarrow> u64 \<Rightarrow> semenv \<Rightarrow> supdrv \<Rightarrow> (rc \<times> supdrv) option" where
  "sem_op2_multi uOp pSession hEventMulti uArg env s =
     (if uOp = 0 then SUPSemEventMultiWaitNoResume pSession hEventMulti (ucast uArg) env s
      else if uOp = 1 then SUPSemEventMultiWaitNsAbsIntr pSession hEventMulti uArg env s
      else if uOp = 2 then SUPSemEventMultiWaitNsRelIntr pSession hEventMulti uArg env s
      else if uOp = 3 then SUPSemEventMultiSignal pSession hEventMulti env s
      else if uOp = 5 then SUPSemEventMultiClose pSession hEventMulti s
      else if uOp = 4 then SUPSemEventMultiReset pSession hEventMulti env s
      else Some (VERR_INVALID_FUNCTION, s))"

definition ioctl_SEM_OP2 :: "ioctlenv \<Rightarrow> addr \<Rightarrow> reqbuf \<Rightarrow> supdrv \<Rightarrow> io_res" where
  "ioctl_SEM_OP2 env pSession b s = REQ_CHECK_SIZES 48 24 b s (do {
     uType \<leftarrow> rd32 b 24;
     hSem \<leftarrow> rd32 b 28;
     uOp \<leftarrow> rd32 b 32;
     uReserved \<leftarrow> rd32 b 36;
     uArg \<leftarrow> rd64 b 40;
     REQ_CHECK_EXPR (uReserved = 0) b s (do {
       (rc, s1) \<leftarrow> (if uType = 0 then sem_op2_event uOp pSession (ucast hSem) uArg (io_sem env) s
                   else if uType = 1 then sem_op2_multi uOp pSession (ucast hSem) uArg (io_sem env) s
                   else Some (VERR_INVALID_PARAMETER, s));
       io_ret rc b s1
     })
   })"

text \<open>Creation: the handle is \<open>NIL\<close> when it was not stored.\<close>

definition sem_op3_create ::
  "(addr \<Rightarrow> addr \<Rightarrow> semenv \<Rightarrow> supdrv \<Rightarrow> ((rc \<times> u32 option) \<times> supdrv) option) \<Rightarrow> ioctlenv \<Rightarrow> addr \<Rightarrow> reqbuf \<Rightarrow> supdrv \<Rightarrow> io_res" where
  "sem_op3_create f env pSession b s = do {
     ((rc, h), s1) \<leftarrow> f pSession (io_phEvent env) (io_sem env) s;
     b1 \<leftarrow> wr32 b OFF_rc (word_of_int rc);
     b2 \<leftarrow> wr32 b1 24 (case h of None \<Rightarrow> 0 | Some h32 \<Rightarrow> h32);
     Some (0, b2, s1)
   }"

text \<open>The resolution query of event semaphores sets the output size, that of multi-event semaphores does not.\<close>

definition ioctl_SEM_OP3 :: "ioctlenv \<Rightarrow> addr \<Rightarrow> reqbuf \<Rightarrow> supdrv \<Rightarrow> io_res" where
  "ioctl_SEM_OP3 env pSession b s = REQ_CHECK_SIZES 48 48 b s (do {
     uType \<leftarrow> rd32 b 24;
     hSem \<leftarrow> rd32 b 28;
     uOp \<leftarrow> rd32 b 32;
     u32Reserved \<leftarrow> rd32 b 36;
     u64Reserved \<leftarrow> rd64 b 40;
     REQ_CHECK_EXPR (u32Reserved = 0 \<and> u64Reserved = 0) b s
       (if uType \<noteq> 0 \<and> uType \<noteq> 1 then io_ret VERR_INVALID_PARAMETER b s
        else if uOp = 0
        then REQ_CHECK_EXPR (hSem = 0) b s
               (sem_op3_create (if uType = 0 then SUPSemEventCreate else SUPSemEventMultiCreate) env pSession b s)
        else if uOp = 1
        then REQ_CHECK_EXPR (hSem = 0) b s (do {
               b1 \<leftarrow> wr32 b OFF_rc (word_of_int VINF_SUCCESS);
               b2 \<leftarrow> (if uType = 0 then wr32 b1 OFF_cbOut 48 else Some b1);
               b3 \<leftarrow> wr32 b2 24 (io_cNsResolution env);
               Some (0, b3, s)
             })
        else io_ret VERR_INVALID_FUNCTION b s)
   })"

section \<open>Logger, tracer, MSRs, keyboards\<close>

text \<open>
  The logger, the tracer and the MSR prober are not modelled: their status is a parameter.  A release
  build has no MSR prober, and only Darwin has suspended keyboards.
\<close>

definition ioctl_LOGGER_SETTINGS :: "ioctlenv \<Rightarrow> addr \<Rightarrow> reqbuf \<Rightarrow> supdrv \<Rightarrow> io_res" where
  "ioctl_LOGGER_SETTINGS env pSession b s = REQ_CHECK_SIZE_OUT 24 b s (do {
     cbIn \<leftarrow> rd32 b OFF_cbIn;
     REQ_CHECK_EXPR (45 \<le> unat cbIn) b s (do {
       let cbStrTab = unat cbIn - 44;
       fWhich \<leftarrow> rd32 b 24;
       fWhat \<leftarrow> rd32 b 28;
       offFlags \<leftarrow> rd32 b 32;
       offGroups \<leftarrow> rd32 b 36;
       offDestination \<leftarrow> rd32 b 40;
       REQ_CHECK_EXPR (unat offGroups < cbStrTab) b s (REQ_CHECK_EXPR (unat offFlags < cbStrTab) b s
         (REQ_CHECK_EXPR (unat offDestination < cbStrTab) b s (do {
            chLast \<leftarrow> rd8 b (44 + (cbStrTab - 1));
            REQ_CHECK_EXPR (chLast = 0) b s (REQ_CHECK_EXPR (fWhich \<le> 1) b s (REQ_CHECK_EXPR (fWhat \<le> 2) b s
              (io_ret (io_rcLogger env) b s)))
          })))
     })
   })"

definition ioctl_TRACER_OPEN :: "ioctlenv \<Rightarrow> addr \<Rightarrow> reqbuf \<Rightarrow> supdrv \<Rightarrow> io_res" where
  "ioctl_TRACER_OPEN env pSession b s = REQ_CHECK_SIZES 40 24 b s (io_ret (io_rcTracer env) b s)"

definition ioctl_TRACER_CLOSE :: "ioctlenv \<Rightarrow> addr \<Rightarrow> reqbuf \<Rightarrow> supdrv \<Rightarrow> io_res" where
  "ioctl_TRACER_CLOSE env pSession b s = REQ_CHECK_SIZES 24 24 b s (io_ret (io_rcTracer env) b s)"

definition ioctl_TRACER_IOCTL :: "ioctlenv \<Rightarrow> addr \<Rightarrow> reqbuf \<Rightarrow> supdrv \<Rightarrow> io_res" where
  "ioctl_TRACER_IOCTL env pSession b s = REQ_CHECK_SIZES 40 28 b s (do {
     b1 \<leftarrow> wr32 b 24 (io_iTracerRet env);
     io_ret (io_rcTracer env) b1 s
   })"

text \<open>An unterminated name is refused without a status in the header.\<close>

definition ioctl_TRACER_UMOD_REG :: "ioctlenv \<Rightarrow> addr \<Rightarrow> reqbuf \<Rightarrow> supdrv \<Rightarrow> io_res" where
  "ioctl_TRACER_UMOD_REG env pSession b s = REQ_CHECK_SIZES 120 24 b s (do {
     fEnd \<leftarrow> str_end b 56 64;
     if \<not> fEnd then Some (VERR_INVALID_PARAMETER, b, s) else io_ret (io_rcTracer env) b s
   })"

definition ioctl_TRACER_UMOD_DEREG :: "ioctlenv \<Rightarrow> addr \<Rightarrow> reqbuf \<Rightarrow> supdrv \<Rightarrow> io_res" where
  "ioctl_TRACER_UMOD_DEREG env pSession b s = REQ_CHECK_SIZES 32 24 b s (io_ret (io_rcTracer env) b s)"

definition ioctl_TRACER_UMOD_FIRE_PROBE :: "ioctlenv \<Rightarrow> addr \<Rightarrow> reqbuf \<Rightarrow> supdrv \<Rightarrow> io_res" where
  "ioctl_TRACER_UMOD_FIRE_PROBE env pSession b s = REQ_CHECK_SIZES 264 24 b s (io_ret VINF_SUCCESS b s)"

definition ioctl_MSR_PROBER :: "ioctlenv \<Rightarrow> addr \<Rightarrow> reqbuf \<Rightarrow> supdrv \<Rightarrow> io_res" where
  "ioctl_MSR_PROBER env pSession b s = REQ_CHECK_SIZES 64 64 b s (do {
     enmOp \<leftarrow> rd32 b 24;
     REQ_CHECK_EXPR (0 < enmOp \<and> enmOp < 5) b s (io_ret VERR_NOT_IMPLEMENTED b s)
   })"

definition ioctl_RESUME_SUSPENDED_KBDS :: "ioctlenv \<Rightarrow> addr \<Rightarrow> reqbuf \<Rightarrow> supdrv \<Rightarrow> io_res" where
  "ioctl_RESUME_SUSPENDED_KBDS env pSession b s = REQ_CHECK_SIZES 24 24 b s (io_ret VERR_NOT_IMPLEMENTED b s)"

section \<open>The switches\<close>

type_synonym handler = "ioctlenv \<Rightarrow> addr \<Rightarrow> reqbuf \<Rightarrow> supdrv \<Rightarrow> io_res"

text \<open>The cases, by code without size, in the order of the code.\<close>

definition ioctl_cases :: "ioctlenv \<Rightarrow> (u64 \<times> handler) list" where
  "ioctl_cases env =
    [(SUP_CTL_CODE_SIZE 1 0, ioctl_COOKIE (of_nat (length (io_aFunctions env)))),
     (SUP_CTL_CODE_BIG 2, ioctl_QUERY_FUNCS),
     (SUP_CTL_CODE_BIG 14, ioctl_PAGE_LOCK),
     (SUP_CTL_CODE_SIZE 15 0, ioctl_PAGE_UNLOCK),
     (SUP_CTL_CODE_SIZE 16 0, ioctl_CONT_ALLOC),
     (SUP_CTL_CODE_SIZE 17 0, ioctl_CONT_FREE),
     (SUP_CTL_CODE_SIZE 3 0, ioctl_LDR_OPEN),
     (SUP_CTL_CODE_BIG 4, ioctl_LDR_LOAD),
     (SUP_CTL_CODE_SIZE 5 0, ioctl_LDR_FREE),
     (SUP_CTL_CODE_SIZE 6 0, ioctl_LDR_GET_SYMBOL),
     (SUP_CTL_CODE_SIZE 7 0, ioctl_CALL_VMMR0),
     (SUP_CTL_CODE_BIG 27, ioctl_CALL_VMMR0_BIG),
     (SUP_CTL_CODE_SIZE 18 0, ioctl_GET_PAGING_MODE),
     (SUP_CTL_CODE_BIG 8, ioctl_LOW_ALLOC),
     (SUP_CTL_CODE_SIZE 9 0, ioctl_LOW_FREE),
     (SUP_CTL_CODE_SIZE 20 0, ioctl_GIP_MAP),
     (SUP_CTL_CODE_SIZE 21 0, ioctl_GIP_UNMAP),
     (SUP_CTL_CODE_SIZE 19 0, ioctl_SET_VM_FOR_FAST),
     (SUP_CTL_CODE_BIG 10, ioctl_PAGE_ALLOC_EX),
     (SUP_CTL_CODE_SIZE 11 0, ioctl_PAGE_MAP_KERNEL),
     (SUP_CTL_CODE_SIZE 12 0, ioctl_PAGE_PROTECT),
     (SUP_CTL_CODE_SIZE 13 0, ioctl_PAGE_FREE),
     (SUP_CTL_CODE_SIZE 22 0, ioctl_CALL_SERVICE),
     (SUP_CTL_CODE_SIZE 23 0, ioctl_LOGGER_SETTINGS),
     (SUP_CTL_CODE_SIZE 24 0, ioctl_SEM_OP2),
     (SUP_CTL_CODE_SIZE 25 0, ioctl_SEM_OP3),
     (SUP_CTL_CODE_SIZE 26 0, ioctl_VT_CAPS),
     (SUP_CTL_CODE_SIZE 28 0, ioctl_TRACER_OPEN),
     (SUP_CTL_CODE_SIZE 29 0, ioctl_TRACER_CLOSE),
     (SUP_CTL_CODE_SIZE 30 0, ioctl_TRACER_IOCTL),
     (SUP_CTL_CODE_SIZE 31 0, ioctl_TRACER_UMOD_REG),
     (SUP_CTL_CODE_SIZE 32 0, ioctl_TRACER_UMOD_DEREG),
     (SUP_CTL_CODE_SIZE 33 0, ioctl_TRACER_UMOD_FIRE_PROBE),
     (SUP_CTL_CODE_SIZE 34 0, ioctl_MSR_PROBER),
     (SUP_CTL_CODE_SIZE 35 0, ioctl_RESUME_SUSPENDED_KBDS)]"

definition ioctl_switch :: "(u64 \<times> handler) list \<Rightarrow> u64 \<Rightarrow> handler" where
  "ioctl_switch cases uIOCtl env pSession b s = (case map_of cases (SUP_CTL_CODE_NO_SIZE uIOCtl) of
       Some h \<Rightarrow> h env pSession b s
     | None \<Rightarrow> Some (VERR_GENERAL_FAILURE, b, s))"

definition supdrvIOCtlInnerUnrestricted :: "u64 \<Rightarrow> ioctlenv \<Rightarrow> addr \<Rightarrow> reqbuf \<Rightarrow> supdrv \<Rightarrow> io_res" where
  "supdrvIOCtlInnerUnrestricted uIOCtl env = ioctl_switch (ioctl_cases env) uIOCtl env"

definition supdrvIOCtlInnerRestricted :: "u64 \<Rightarrow> ioctlenv \<Rightarrow> addr \<Rightarrow> reqbuf \<Rightarrow> supdrv \<Rightarrow> io_res" where
  "supdrvIOCtlInnerRestricted uIOCtl env =
     ioctl_switch [(SUP_CTL_CODE_SIZE 1 0, ioctl_COOKIE 0), (SUP_CTL_CODE_SIZE 26 0, ioctl_VT_CAPS)] uIOCtl env"

section \<open>The entry points\<close>

definition supdrvIOCtl :: "u64 \<Rightarrow> ioctlenv \<Rightarrow> addr \<Rightarrow> reqbuf \<Rightarrow> supdrv \<Rightarrow> io_res" where
  "supdrvIOCtl uIOCtl env pSession b s = do {
     u32Cookie \<leftarrow> rd32 b OFF_u32Cookie;
     u32SessionCookie \<leftarrow> rd32 b OFF_u32SessionCookie;
     cbIn \<leftarrow> rd32 b OFF_cbIn;
     cbOut \<leftarrow> rd32 b OFF_cbOut;
     fFlags \<leftarrow> rd32 b OFF_fFlags;
     if fFlags AND 0xff0000ff \<noteq> 0x42000042 \<or> unat cbIn < 24 \<or> unat cbOut < 24
     then Some (VERR_INVALID_PARAMETER, b, s)
     else if \<not> RT_VALID_PTR pSession then Some (VERR_INVALID_PARAMETER, b, s)
     else do {
       ss \<leftarrow> sessions s pSession;
       if uIOCtl = SUP_IOCTL_COOKIE
       then (if u32Cookie \<noteq> SUPCOOKIE_INITIAL_COOKIE then Some (VERR_INVALID_PARAMETER, b, s)
             else if s_fUnrestricted ss then supdrvIOCtlInnerUnrestricted uIOCtl env pSession b s
             else supdrvIOCtlInnerRestricted uIOCtl env pSession b s)
       else if u32Cookie \<noteq> d_u32Cookie (devext s) \<or> u32SessionCookie \<noteq> s_u32Cookie ss
       then Some (VERR_INVALID_PARAMETER, b, s)
       else if s_fUnrestricted ss then supdrvIOCtlInnerUnrestricted uIOCtl env pSession b s
       else supdrvIOCtlInnerRestricted uIOCtl env pSession b s
     }
   }"

definition supdrvIOCtlFast :: "u64 \<Rightarrow> u32 \<Rightarrow> addr \<Rightarrow> supdrv \<Rightarrow> (rc \<times> supdrv) option" where
  "supdrvIOCtlFast uIOCtl idCpu pSession s =
     (if \<not> RT_VALID_PTR pSession then Some (VERR_INTERNAL_ERROR, s)
      else do {
        ss \<leftarrow> sessions s pSession;
        let pfn = d_pfnVMMR0EntryFast (devext s);
        let run = (\<lambda>uOperation. Some (VINF_SUCCESS, log_call (Call_EntryFast pfn (s_pVM ss) idCpu uOperation) s));
        if s_pVM ss \<noteq> 0 \<and> pfn \<noteq> 0
        then (if uIOCtl = SUP_IOCTL_FAST_DO_RAW_RUN then run 0
              else if uIOCtl = SUP_IOCTL_FAST_DO_HM_RUN then run 1
              else if uIOCtl = SUP_IOCTL_FAST_DO_NOP then run 2
              else Some (VERR_INTERNAL_ERROR, s))
        else Some (VERR_INTERNAL_ERROR, s)
      })"

end
