(* ===== verification/SupOps.thy ===== *)
theory SupOps
  imports SupSession
begin

text \<open>
  Every operation that a request can ask for keeps the combined invariant \<open>drv_inv\<close> and touches no
  session but the calling one.  For the memory operations the proof does not repeat the component's
  own: a memory operation depends on the calling session and the heap of memory objects only, so it
  commutes with every change of the driver that carries these two along (locale \<open>mem_carry\<close>).  One
  such change transplants them into another driver state, which shows what the operation leaves alone;
  another adds a session that owns the memory object of the GIP, whose place in the component's
  invariant shows that the object and its mappings survive.
\<close>

section \<open>What a request leaves alone\<close>

definition own :: "addr \<Rightarrow> supdrv \<Rightarrow> supdrv \<Rightarrow> bool" where
  "own a s t \<longleftrightarrow> (\<exists>ss ss'. sessions s a = Some ss \<and> sessions t = (sessions s)(a \<mapsto> ss') \<and>
     s_u32Cookie ss' = s_u32Cookie ss \<and> s_cRefs ss' = s_cRefs ss \<and> s_fUnrestricted ss' = s_fUnrestricted ss \<and>
     s_R0Process ss' = s_R0Process ss)"

lemma own_refl: "sessions s a = Some ss \<Longrightarrow> sessions t = sessions s \<Longrightarrow> own a s t"
  by (auto simp: own_def fun_upd_idem intro!: exI[of _ ss])

lemma own_trans: "own a s t \<Longrightarrow> own a t u \<Longrightarrow> own a s u"
  unfolding own_def by auto

lemma ownI:
  "sessions s a = Some ss \<Longrightarrow> sessions t = (sessions s)(a \<mapsto> ss') \<Longrightarrow> s_u32Cookie ss' = s_u32Cookie ss \<Longrightarrow>
   s_cRefs ss' = s_cRefs ss \<Longrightarrow> s_fUnrestricted ss' = s_fUnrestricted ss \<Longrightarrow> s_R0Process ss' = s_R0Process ss \<Longrightarrow> own a s t"
  by (auto simp: own_def)

section \<open>Memory operations carry along\<close>

locale mem_carry =
  fixes F :: "supdrv \<Rightarrow> supdrv" and f :: "SUPDRVSESSION \<Rightarrow> SUPDRVSESSION" and a :: addr
  assumes ses: "sessions (F s) a = map_option f (sessions s a)"
    and mem: "memobjs (F s) = memobjs s"
    and heap: "F (s\<lparr>memobjs := h\<rparr>) = (F s)\<lparr>memobjs := h\<rparr>"
    and bnd: "s_Bundle (f ss) = s_Bundle ss"
    and put: "sessions s a = Some ss \<Longrightarrow>
      F (put_session a (ss\<lparr>s_Bundle := bs\<rparr>) s) = put_session a ((f ss)\<lparr>s_Bundle := bs\<rparr>) (F s)"
begin

abbreviation "carry \<equiv> map_option (map_prod id F)"

lemma MemAdd: "supdrvMemAdd m a e (F s) = carry (supdrvMemAdd m a e s)"
  by (cases "sessions s a") (auto simp: supdrvMemAdd_def ses bnd put split: option.split list.split)

lemma MemRelease: "supdrvMemRelease a u ty env (F s) = carry (supdrvMemRelease a u ty env s)"
proof (cases "sessions s a")
  case (Some ss)
  show ?thesis
    by (cases "bundle_find (mem_match (memobjs s) u ty) (s_Bundle ss)")
      (auto simp: supdrvMemRelease_def ses Some bnd mem put[OF Some] heap Let_def split: option.split Option.bind_split)
qed (simp add: supdrvMemRelease_def ses)

lemma map_add:
  "mem_map_add ty m cb a p env (F s) = map_option (map_prod id (map_prod id F)) (mem_map_add ty m cb a p env s)"
  by (auto simp: mem_map_add_def mem heap[symmetric] MemAdd Let_def split: option.split Option.bind_split)

text \<open>The calls themselves: they look at the session's cookie too, once.\<close>

lemma valid: "s_u32Cookie (f ss) = s_u32Cookie ss \<Longrightarrow> SUP_IS_SESSION_VALID a (f ss) = SUP_IS_SESSION_VALID a ss"
  by (simp add: SUP_IS_SESSION_VALID_def)

lemma LockMem:
  "sessions s a = Some ss \<Longrightarrow> s_u32Cookie (f ss) = s_u32Cookie ss \<Longrightarrow>
   SUPR0LockMem a pvR3 n p env (F s) = carry (SUPR0LockMem a pvR3 n p env s)"
  by (auto simp: SUPR0LockMem_def ses valid mem heap[symmetric] MemAdd Let_def split: prod.split Option.bind_split)

lemma ContAlloc:
  "sessions s a = Some ss \<Longrightarrow> s_u32Cookie (f ss) = s_u32Cookie ss \<Longrightarrow>
   SUPR0ContAlloc a n p0 p3 pp env (F s) = carry (SUPR0ContAlloc a n p0 p3 pp env s)"
  by (auto simp: SUPR0ContAlloc_def ses valid mem heap[symmetric] map_add Let_def split: prod.split Option.bind_split)

lemma LowAlloc:
  "sessions s a = Some ss \<Longrightarrow> s_u32Cookie (f ss) = s_u32Cookie ss \<Longrightarrow>
   SUPR0LowAlloc a n p0 p3 pp env (F s) = carry (SUPR0LowAlloc a n p0 p3 pp env s)"
  by (auto simp: SUPR0LowAlloc_def ses valid mem heap[symmetric] map_add Let_def split: prod.split Option.bind_split)

lemma PageAllocEx:
  "sessions s a = Some ss \<Longrightarrow> s_u32Cookie (f ss) = s_u32Cookie ss \<Longrightarrow>
   SUPR0PageAllocEx a n fl p3 p0 pp env (F s) = carry (SUPR0PageAllocEx a n fl p3 p0 pp env s)"
  by (cases "p3 = 0"; cases "p0 = 0"; cases "pp = 0")
    (simp_all add: SUPR0PageAllocEx_def ses valid mem heap[symmetric] map_add Let_def split: prod.split Option.bind_split)

lemma free_fn:
  "sessions s a = Some ss \<Longrightarrow> s_u32Cookie (f ss) = s_u32Cookie ss \<Longrightarrow>
   mem_free_fn ty a u env (F s) = carry (mem_free_fn ty a u env s)"
  by (cases ty) (simp_all add: mem_free_fn_def mem_free_defs ses valid MemRelease)

lemma PageMapKernel:
  "sessions s a = Some ss \<Longrightarrow> s_u32Cookie (f ss) = s_u32Cookie ss \<Longrightarrow>
   SUPR0PageMapKernel a pvR3 off cb fl p0 env (F s) =
     map_option (map_prod id (map_prod id F)) (SUPR0PageMapKernel a pvR3 off cb fl p0 env s)"
  by (auto simp: SUPR0PageMapKernel_def ses valid bnd mem heap[symmetric] Let_def split: option.split prod.split Option.bind_split)

lemma PageProtect:
  "sessions s a = Some ss \<Longrightarrow> s_u32Cookie (f ss) = s_u32Cookie ss \<Longrightarrow>
   SUPR0PageProtect a pvR3 pvR0 off cb fProt env (F s) = carry (SUPR0PageProtect a pvR3 pvR0 off cb fProt env s)"
  by (auto simp: SUPR0PageProtect_def ses valid bnd mem heap[symmetric] Let_def split: option.split prod.split Option.bind_split)

end

definition transplant :: "addr \<Rightarrow> supdrv \<Rightarrow> SUPDRVSESSION \<Rightarrow> supdrv \<Rightarrow> supdrv" where
  "transplant a r ss0 s = r\<lparr>memobjs := memobjs s,
     sessions := (sessions r)(a := map_option (\<lambda>ss. ss0\<lparr>s_Bundle := s_Bundle ss\<rparr>) (sessions s a))\<rparr>"

interpretation transplant: mem_carry "transplant a r ss0" "\<lambda>ss. ss0\<lparr>s_Bundle := s_Bundle ss\<rparr>" a for a r ss0
  by unfold_locales (simp_all add: transplant_def put_session_def)

lemma transplant_frame:
  "devext (transplant a r ss0 s) = devext r" "objs (transplant a r ss0 s) = objs r" "imgs (transplant a r ss0 s) = imgs r"
  "factories (transplant a r ss0 s) = factories r" "gips (transplant a r ss0 s) = gips r" "calls (transplant a r ss0 s) = calls r"
  "g_pSUPGlobalInfoPage (transplant a r ss0 s) = g_pSUPGlobalInfoPage r"
  by (simp_all add: transplant_def)

definition phantom :: "addr \<Rightarrow> SUPDRVSESSION \<Rightarrow> supdrv \<Rightarrow> supdrv" where
  "phantom x sx s = s\<lparr>sessions := (sessions s)(x \<mapsto> sx)\<rparr>"

lemma phantom_carry: "x \<noteq> a \<Longrightarrow> mem_carry (phantom x sx) (\<lambda>ss. ss) a"
  by unfold_locales (auto simp: phantom_def put_session_def fun_upd_twist option.map_ident)

lemma transplant_carry: "mem_carry (transplant a r ss0) (\<lambda>ss. ss0\<lparr>s_Bundle := s_Bundle ss\<rparr>) a"
  by (rule transplant.mem_carry_axioms)

section \<open>Memory operations keep the combined invariant\<close>

text \<open>A session that owns the object \<open>G\<close> with one mapping.\<close>

definition owner_entry :: "addr \<Rightarrow> addr \<Rightarrow> SUPDRVMEMREF" where
  "owner_entry G c = \<lparr>mr_MemObj = G, mr_MapObjR3 = c, mr_eType = MEMREF_TYPE_LOCKED\<rparr>"

definition owner :: "addr \<Rightarrow> addr \<Rightarrow> SUPDRVSESSION \<Rightarrow> SUPDRVSESSION" where
  "owner G c ss = ss\<lparr>s_Bundle := [\<lparr>b_aMem = owner_entry G c # replicate 63 memref0, b_cUsed = 1\<rparr>]\<rparr>"

lemma owner_refs: "G \<noteq> 0 \<Longrightarrow> all_refs (s_Bundle (owner G c ss)) = owner_entry G c # replicate 63 memref0"
  "G \<noteq> 0 \<Longrightarrow> used_refs (s_Bundle (owner G c ss)) = [owner_entry G c]"
  by (simp_all add: owner_def used_refs_def owner_entry_def)

lemma owner_inv:
  assumes inv: "mem_inv s" and G: "G \<noteq> 0" "obj_at (memobjs s) G" "c = 0 \<or> is_child (memobjs s) G c"
    and apart: "\<And>b sb. sessions s b = Some sb \<Longrightarrow> G \<notin> set (mem_handles sb)" and x: "sessions s x = None"
  shows "mem_inv (phantom x (owner G c ss) s)"
proof -
  have e: "entry_ok (memobjs s) (owner_entry G c)" using G by (auto simp: entry_ok_def owner_entry_def)
  have "sess_mem_ok (memobjs s) (s_Bundle (owner G c ss))"
    unfolding sess_mem_ok_def owner_refs[OF G(1)] using e G(1) by (auto simp: owner_def bundle_ok_def owner_entry_def)
  moreover have "set (mem_handles (owner G c ss)) = {G}" by (simp add: owner_refs[OF G(1)]) (simp add: owner_entry_def)
  ultimately show ?thesis
    using inv apart x unfolding mem_inv_def phantom_def by (auto split: if_splits)
qed

text \<open>What the component's proof shows of an operation, in any state with this heap and this session.\<close>

definition mem_op_ok :: "addr \<Rightarrow> SUPDRVSESSION \<Rightarrow> memobjs \<Rightarrow> (supdrv \<Rightarrow> ('r \<times> supdrv) option) \<Rightarrow> bool" where
  "mem_op_ok a ss h opr \<longleftrightarrow> (\<forall>t. mem_inv t \<longrightarrow> sessions t a = Some ss \<longrightarrow> memobjs t = h \<longrightarrow>
     (\<exists>r t'. opr t = Some (r, t') \<and> mem_inv t' \<and> sessions t' a \<noteq> None))"

lemma mem_op_drv:
  assumes inv: "drv_inv K s" and a: "sessions s a = Some ss" and ok: "mem_op_ok a ss (memobjs s) opr"
    and C: "\<And>F f. mem_carry F f a \<Longrightarrow> s_u32Cookie (f ss) = s_u32Cookie ss \<Longrightarrow> opr (F s) = map_option (map_prod id F) (opr s)"
  shows "\<exists>r t. opr s = Some (r, t) \<and> drv_inv K t \<and> own a s t \<and> devext t = devext s \<and> objs t = objs s \<and> imgs t = imgs s \<and> calls t = calls s"
proof -
  let ?G = "d_GipMemObj (devext s)"
  note mi = drv_inv_mem[OF inv]
  from ok mi a obtain r t where t: "opr s = Some (r, t)" "mem_inv t" "sessions t a \<noteq> None" unfolding mem_op_ok_def by blast
  have "transplant a s ss s = s" using a by (simp add: transplant_def fun_upd_idem)
  with C[OF transplant_carry[of a s ss]] t(1) have tt: "transplant a s ss t = t" by simp
  obtain bs where st: "sessions t = (sessions s)(a \<mapsto> ss\<lparr>s_Bundle := bs\<rparr>)"
    using arg_cong[OF tt, of sessions] t(3) by (cases "sessions t a") (auto simp: transplant_def dest: sym)
  have fr: "devext t = devext s" "objs t = objs s" "imgs t = imgs s" "factories t = factories s" "gips t = gips s" "calls t = calls s"
    "g_pSUPGlobalInfoPage t = g_pSUPGlobalInfoPage s"
    using transplant_frame[of a s ss t] unfolding tt by blast+
  have nz: "?G \<noteq> 0" using drv_inv_GipMemObj[OF inv] obj_at_valid[of "memobjs s" ?G] by (auto simp: RT_VALID_PTR_nonnull)
  define x where "x = (0 :: addr)"
  have "sessions s 0 = None" using drv_inv_valid[OF inv, of 0] by (cases "sessions s 0") (auto simp: SUP_IS_SESSION_VALID_def)
  then have x: "x \<noteq> a" "sessions s x = None" using a by (auto simp: x_def)
  have keep: "obj_at (memobjs t) ?G \<and> (c \<noteq> 0 \<longrightarrow> is_child (memobjs t) ?G c) \<and> ?G \<notin> set (mem_handles (ss\<lparr>s_Bundle := bs\<rparr>))"
    if c: "c = 0 \<or> is_child (memobjs s) ?G c" for c
  proof -
    let ?sx = "owner ?G c ss"
    have "mem_inv (phantom x ?sx s)"
    proof (rule owner_inv[OF mi nz _ c _ x(2)])
      show "obj_at (memobjs s) ?G" using drv_inv_GipMemObj[OF inv] ..
    qed (rule drv_inv_apart[OF inv])
    moreover have "sessions (phantom x ?sx s) a = Some ss" "memobjs (phantom x ?sx s) = memobjs s"
      using a x(1) by (simp_all add: phantom_def)
    ultimately obtain r' t' where t': "opr (phantom x ?sx s) = Some (r', t')" "mem_inv t'"
      using ok unfolding mem_op_ok_def by blast
    have "t' = phantom x ?sx t" using C[OF phantom_carry[OF x(1)], of ?sx] t'(1) t(1) by simp
    then have m: "mem_inv (phantom x ?sx t)" using t'(2) by simp
    have sx: "sessions (phantom x ?sx t) x = Some ?sx" "sessions (phantom x ?sx t) a = Some (ss\<lparr>s_Bundle := bs\<rparr>)"
      using x(1) st by (simp_all add: phantom_def)
    have "entry_ok (memobjs t) (owner_entry ?G c)"
      using mem_inv_entry[OF m sx(1), of "owner_entry ?G c"] owner_refs(1)[OF nz] by (simp add: phantom_def)
    moreover have "set (mem_handles ?sx) \<inter> set (mem_handles (ss\<lparr>s_Bundle := bs\<rparr>)) = {}"
      using m sx x(1) unfolding mem_inv_def by blast
    ultimately show ?thesis using nz by (auto simp: owner_refs(2)[OF nz] entry_ok_def owner_entry_def)
  qed
  have oi: "obj_inv t" by (rule obj_inv_cong[OF drv_inv_obj[OF inv]]) (use a fr st in auto)
  have "drv_inv K t"
  proof (rule drv_invI[OF _ _ t(2) _ _ a st inv])
    show "sem_inv {#} t" by (rule sem_inv_same[OF drv_inv_sem[OF inv] a st _ _ _ oi types_kept_same]) (simp_all add: fr)
    show "ldr_part K t" by (rule ldr_part_cong[OF drv_inv_part[OF inv]]) (use a st fr in auto)
    show "fact_inv t" by (rule fact_inv_cong[OF drv_inv_fact[OF inv]]) (use a st fr in auto)
    show "gip_inv K t"
    proof (rule gip_inv_cong[OF drv_inv_gip[OF inv]])
      show "is_child (memobjs t) ?G (s_GipMapObjR3 sb)" if "is_child (memobjs s) ?G (s_GipMapObjR3 sb)" for b sb
        using keep[of "s_GipMapObjR3 sb"] that is_child_valid[OF mem_inv_heap[OF mi] that] by (auto simp: RT_VALID_PTR_nonnull)
    qed (use a st fr keep[of 0] mem_inv_heap[OF t(2)] in \<open>auto simp: same_gip_def\<close>)
  qed (use keep[of 0] fr in simp_all)
  moreover have "own a s t" by (rule ownI[OF a st]) simp_all
  ultimately show ?thesis using t(1) fr by blast
qed

section \<open>The memory operations\<close>

lemma own_open: "own a s t \<Longrightarrow> \<exists>ss. sessions t a = Some ss"
  by (auto simp: own_def)

lemma env_ok_cong: "env_ok env s \<Longrightarrow> memobjs t = memobjs s \<Longrightarrow> env_ok env t"
  by (simp add: env_ok_def)

lemma alloc_op_ok:
  assumes "\<And>t. mem_inv t \<Longrightarrow> sessions t a = Some ss \<Longrightarrow> env_ok env t \<Longrightarrow> alloc_post a ty env t (opr t)" and "env_ok env s"
  shows "mem_op_ok a ss (memobjs s) opr"
  unfolding mem_op_ok_def
proof (intro allI impI)
  fix t assume t: "mem_inv t" "sessions t a = Some ss" "memobjs t = memobjs s"
  then have "alloc_post a ty env t (opr t)" using assms(1)[of t] env_ok_cong[OF assms(2)] by simp
  then show "\<exists>r t'. opr t = Some (r, t') \<and> mem_inv t' \<and> sessions t' a \<noteq> None"
    unfolding alloc_post_def mem_recorded_def using t(2) by (auto split: if_splits)
qed

lemma alloc_drv:
  assumes inv: "drv_inv K s" and a: "sessions s a = Some ss" and env: "env_ok env s"
    and ok: "\<And>t. mem_inv t \<Longrightarrow> sessions t a = Some ss \<Longrightarrow> env_ok env t \<Longrightarrow> alloc_post a ty env t (opr t)"
    and C: "\<And>F f. mem_carry F f a \<Longrightarrow> s_u32Cookie (f ss) = s_u32Cookie ss \<Longrightarrow> opr (F s) = map_option (map_prod id F) (opr s)"
  shows "\<exists>r t. opr s = Some (r, t) \<and> drv_inv K t \<and> own a s t"
proof -
  have "mem_op_ok a ss (memobjs s) opr" by (rule alloc_op_ok[OF _ env]) (rule ok)
  from mem_op_drv[OF inv a this] C show ?thesis by blast
qed

lemma alloc_ops_drv:
  assumes inv: "drv_inv K s" and a: "sessions s a = Some ss" and env: "env_ok env s"
  shows "\<exists>r t. SUPR0LockMem a pvR3 n p env s = Some (r, t) \<and> drv_inv K t \<and> own a s t"
    "\<exists>r t. SUPR0ContAlloc a n p0 p3 p env s = Some (r, t) \<and> drv_inv K t \<and> own a s t"
    "\<exists>r t. SUPR0LowAlloc a n p0 p3 p env s = Some (r, t) \<and> drv_inv K t \<and> own a s t"
    "\<exists>r t. SUPR0PageAllocEx a n fl p3 p0 p env s = Some (r, t) \<and> drv_inv K t \<and> own a s t"
  by (rule alloc_drv[OF inv a env], erule (2) LockMem_ok, erule (1) mem_carry.LockMem[OF _ a])
    (rule alloc_drv[OF inv a env], erule (2) ContAlloc_ok, erule (1) mem_carry.ContAlloc[OF _ a],
     rule alloc_drv[OF inv a env], erule (2) LowAlloc_ok, erule (1) mem_carry.LowAlloc[OF _ a],
     rule alloc_drv[OF inv a env], erule (2) PageAllocEx_ok, erule (1) mem_carry.PageAllocEx[OF _ a])

lemma mem_free_drv:
  assumes inv: "drv_inv K s" and a: "sessions s a = Some ss"
  shows "\<exists>r t. mem_free_fn ty a u env s = Some (r, t) \<and> drv_inv K t \<and> own a s t"
proof -
  have "mem_op_ok a ss (memobjs s) (mem_free_fn ty a u env)"
    unfolding mem_op_ok_def
  proof (intro allI impI)
    fix t assume t: "mem_inv t" "sessions t a = Some ss" "memobjs t = memobjs s"
    show "\<exists>r t'. mem_free_fn ty a u env t = Some (r, t') \<and> mem_inv t' \<and> sessions t' a \<noteq> None"
    proof (cases "ty = MEMREF_TYPE_UNUSED \<or> \<not> SUP_IS_SESSION_VALID a ss")
      case True
      with t show ?thesis by (cases "ty = MEMREF_TYPE_UNUSED") (auto simp: mem_free_fn_eq, simp add: mem_free_fn_def)
    next
      case False
      from supdrvMemRelease_ok[OF t(1,2), of u ty env] obtain r t' where
        "supdrvMemRelease a u ty env t = Some (r, t')" "mem_inv t'"
        "t' = t \<or> (\<exists>ss'. t' = t\<lparr>sessions := (sessions t)(a \<mapsto> ss'), memobjs := memobjs t'\<rparr>)" by blast
      moreover from this(3) have "sessions t' a \<noteq> None"
        using t(2) by (auto dest!: arg_cong[where f = sessions])
      ultimately show ?thesis using False t(2) by (simp add: mem_free_fn_eq)
    qed
  qed
  from mem_op_drv[OF inv a this] mem_carry.free_fn[OF _ a] show ?thesis by blast
qed

lemma mem_map_protect_drv:
  assumes inv: "drv_inv K s" and a: "sessions s a = Some ss"
  shows "env_ok env s \<Longrightarrow> p0 \<noteq> 0 \<Longrightarrow> \<exists>r pv t. SUPR0PageMapKernel a pvR3 off cb fl p0 env s = Some (r, pv, t) \<and> drv_inv K t \<and> own a s t"
    "\<exists>r t. SUPR0PageProtect a pvR3 pvR0 off cb prot env s = Some (r, t) \<and> drv_inv K t \<and> own a s t"
proof -
  let ?f = "\<lambda>s. map_option (\<lambda>(r, pv, t). ((r, pv), t)) (SUPR0PageMapKernel a pvR3 off cb fl p0 env s)"
  assume env: "env_ok env s" and p0: "p0 \<noteq> 0"
  have "mem_op_ok a ss (memobjs s) ?f"
    unfolding mem_op_ok_def
  proof (intro allI impI)
    fix t assume t: "mem_inv t" "sessions t a = Some ss" "memobjs t = memobjs s"
    from PageMapKernel_ok[OF t(1,2) env_ok_cong[OF env t(3)] p0, of pvR3 off cb fl] t(2)
    show "\<exists>r t'. ?f t = Some (r, t') \<and> mem_inv t' \<and> sessions t' a \<noteq> None" by force
  qed
  moreover have "?f (F s) = map_option (map_prod id F) (?f s)"
    if "mem_carry F f a" "s_u32Cookie (f ss) = s_u32Cookie ss" for F f
    by (cases "SUPR0PageMapKernel a pvR3 off cb fl p0 env s") (auto simp: mem_carry.PageMapKernel[OF that(1) a that(2)])
  ultimately show "\<exists>r pv t. SUPR0PageMapKernel a pvR3 off cb fl p0 env s = Some (r, pv, t) \<and> drv_inv K t \<and> own a s t"
    using mem_op_drv[OF inv a, of ?f] by fastforce
next
  have "mem_op_ok a ss (memobjs s) (SUPR0PageProtect a pvR3 pvR0 off cb prot env)"
    unfolding mem_op_ok_def
  proof (intro allI impI)
    fix t assume t: "mem_inv t" "sessions t a = Some ss" "memobjs t = memobjs s"
    from PageProtect_ok[OF t(1,2), of pvR3 pvR0 off cb prot env] t(2)
    show "\<exists>r t'. SUPR0PageProtect a pvR3 pvR0 off cb prot env t = Some (r, t') \<and> mem_inv t' \<and> sessions t' a \<noteq> None" by auto
  qed
  from mem_op_drv[OF inv a this] mem_carry.PageProtect[OF _ a]
  show "\<exists>r t. SUPR0PageProtect a pvR3 pvR0 off cb prot env s = Some (r, t) \<and> drv_inv K t \<and> own a s t" by blast
qed

section \<open>Semaphores\<close>

lemma obj_only_own: "obj_only a s t \<Longrightarrow> own a s t"
proof -
  assume "obj_only a s t"
  then obtain ss ss' where "sessions s a = Some ss" "sessions t = (sessions s)(a \<mapsto> ss')"
    "ss'\<lparr>s_pUsage := [], s_hHandleTable := None\<rparr> = ss\<lparr>s_pUsage := [], s_hHandleTable := None\<rparr>" by (auto simp: obj_only_def)
  then show ?thesis by (cases ss; cases ss') (auto intro!: ownI)
qed

lemma obj_only_open: "obj_only a s t \<Longrightarrow> sessions t a \<noteq> None"
  by (auto simp: obj_only_def)

lemma same_session:
  "m a = Some x \<Longrightarrow> \<exists>ss'. m = m(a \<mapsto> ss') \<and> ss'\<lparr>s_pUsage := [], s_hHandleTable := None\<rparr> = x\<lparr>s_pUsage := [], s_hHandleTable := None\<rparr>"
  by (auto simp: fun_upd_idem intro!: exI[of _ x])

lemma obj_only_register:
  "SUPR0ObjRegister a ty d u1 u2 p al s = Some (q, t) \<Longrightarrow> obj_only a s t"
  by (auto simp: SUPR0ObjRegister_def obj_only_refl split: Option.bind_splits if_splits list.splits)
    (auto simp: obj_only_def objInsert_def Let_def put_session_def put_obj_def upd_devext_def same_session split: list.splits if_splits)

lemma obj_only_retain: "supdrvSessionObjHandleRetain a p s = Some (r, t) \<Longrightarrow> obj_only a s t"
  by (auto simp: supdrvSessionObjHandleRetain_def SUPR0ObjAddRefEx_def objAddRefLocked_def Let_def obj_only_refl
      split: Option.bind_splits if_splits option.splits list.splits)
    (auto simp: obj_only_def put_session_def put_obj_def upd_devext_def same_session)

lemma obj_only_table: "sessions s a = Some ss \<Longrightarrow> obj_only a s (put_session a (ss\<lparr>s_hHandleTable := t\<rparr>) s)"
  by (auto simp: obj_only_def put_session_def)

lemma obj_only_log: "sessions s a \<noteq> None \<Longrightarrow> obj_only a s (log_call c s)"
  by (auto simp: obj_only_def log_call_def same_session)

lemma obj_only_handle_alloc: "sess_handle_alloc a p c fL fT s = Some (r, t) \<Longrightarrow> obj_only a s t"
  by (auto simp: sess_handle_alloc_def obj_only_refl obj_only_table split: Option.bind_splits option.splits)

lemma obj_only_handle_lookup: "sess_handle_lookup a h c s = Some (r, t) \<Longrightarrow> obj_only a s t"
  by (auto simp: sess_handle_lookup_def RTHandleTableLookupWithCtx_def obj_only_refl obj_only_retain
      split: Option.bind_splits option.splits if_splits)

lemma obj_only_table_free:
  "RTHandleTableFreeWithCtx (supdrvSessionObjHandleRetain a) h c tb s = Some (p, tb', u) \<Longrightarrow> sessions s a = Some ss \<Longrightarrow> obj_only a s u"
  by (auto simp: RTHandleTableFreeWithCtx_def obj_only_refl obj_only_retain split: Option.bind_splits option.splits if_splits)

lemma obj_only_handle_free: "sess_handle_free a h c s = Some (r, t) \<Longrightarrow> obj_only a s t"
  by (auto simp: sess_handle_free_def obj_only_refl split: Option.bind_splits option.splits)
    (blast intro: obj_only_trans[OF obj_only_table_free obj_only_table])

lemma obj_only_lookup: "sem_lookup k a hE s = Some (r, t) \<Longrightarrow> obj_only a s t"
  by (auto simp: sem_lookup_def Let_def obj_only_refl dest: obj_only_handle_lookup split: Option.bind_splits if_splits)

lemma obj_only_close_begin: "sem_close_begin k a hE s = Some (r, t) \<Longrightarrow> obj_only a s t"
  by (auto simp: sem_close_begin_def Let_def obj_only_refl dest: obj_only_handle_free split: Option.bind_splits if_splits)

lemma obj_only_create: "sem_create k a ph env s = Some (r, t) \<Longrightarrow> obj_only a s t"
  by (auto simp: sem_create_def obj_only_refl split: Option.bind_splits if_splits)
    (meson obj_only_register obj_only_handle_alloc obj_only_release obj_only_log obj_only_trans obj_only_open)+

lemma obj_only_op: "sem_op k c a hE env s = Some (r, t) \<Longrightarrow> obj_only a s t"
  by (auto simp: sem_op_def sem_do_def split: Option.bind_splits if_splits)
    (meson obj_only_lookup obj_only_release obj_only_log obj_only_trans obj_only_open)+

lemma obj_only_close: "sem_close k a hE s = Some (r, t) \<Longrightarrow> obj_only a s t"
  by (auto simp: sem_close_def split: Option.bind_splits if_splits)
    (meson obj_only_close_begin obj_only_release obj_only_trans)+

text \<open>The calls as a whole: they end with no reference pending.\<close>

lemma sem_create_drv:
  assumes inv: "drv_inv K s" and a: "sessions s a \<noteq> None" and f: "fresh_obj (se_pNew env) s" "\<not> RTHT_IS_FREE (se_pNew env)"
  shows "\<exists>r t. sem_create k a ph env s = Some (r, t) \<and> drv_inv K t \<and> own a s t"
proof -
  from sem_create_spec[OF drv_inv_sem[OF inv] a f, of k ph] obtain r t where
    t: "sem_create k a ph env s = Some (r, t)" "sem_inv {#} t" by blast
  from obj_only_create[OF t(1)] have "obj_only a s t" .
  with t obj_only_drv[OF inv _ t(2)] obj_only_own show ?thesis by blast
qed

lemma sem_op_drv:
  assumes inv: "drv_inv K s" and a: "sessions s a \<noteq> None" and m: "counters_ok s"
  shows "\<exists>r t. sem_op k c a hE env s = Some (r, t) \<and> drv_inv K t \<and> own a s t"
proof -
  note si = drv_inv_sem[OF inv]
  have "\<exists>r t. sem_op k c a hE env s = Some (r, t) \<and> sem_inv {#} t"
  proof (cases "if ucast (ucast hE :: u32) = hE then sem_find s a k (ucast hE) else None")
    case None
    with sem_lookup_spec[OF si a m, of k hE] si show ?thesis by (simp add: sem_op_def)
  next
    case (Some p)
    with sem_lookup_spec[OF si a m, of k hE] obtain t where
      l: "sem_lookup k a hE s = Some ((VINF_SUCCESS, p), t)" "sem_inv {#(a, p, k)#} t" by auto
    have pm: "(a, p, k) \<in># {#(a, p, k)#}" by simp
    obtain ob where "objs t p = Some ob" using sem_inv_pend[OF l(2) pm] by (auto simp: sem_obj_def)
    then obtain t2 where t2: "sem_do k c p t = Some t2" "sem_inv {#(a, p, k)#} t2"
      using sem_do_inv[OF l(2)] by (auto simp: sem_do_def)
    from sem_release[OF t2(2) pm] l(1) t2(1) show ?thesis by (auto simp: sem_op_def)
  qed
  then obtain r t where t: "sem_op k c a hE env s = Some (r, t)" "sem_inv {#} t" by blast
  from obj_only_op[OF t(1)] have "obj_only a s t" .
  with t obj_only_drv[OF inv _ t(2)] obj_only_own show ?thesis by blast
qed

lemma sem_close_drv:
  assumes inv: "drv_inv K s" and a: "sessions s a \<noteq> None" and m: "counters_ok s"
  shows "\<exists>r t. sem_close k a hE s = Some (r, t) \<and> drv_inv K t \<and> own a s t"
proof -
  note si = drv_inv_sem[OF inv]
  have "\<exists>r t. sem_close k a hE s = Some (r, t) \<and> sem_inv {#} t"
  proof (cases "if hE \<noteq> 0 \<and> ucast (ucast hE :: u32) = hE then sem_find s a k (ucast hE) else None")
    case None
    with sem_close_begin_spec[OF si a m, of k hE] si show ?thesis by (simp add: sem_close_def)
  next
    case (Some p)
    with sem_close_begin_spec[OF si a m, of k hE] obtain t where
      l: "sem_close_begin k a hE s = Some ((VINF_SUCCESS, p), t)" "sem_inv {#(a, p, k), (a, p, k)#} t" "p \<noteq> 0" by auto
    from sem_release[OF l(2), of a p k] obtain r2 t2 where
      t2: "SUPR0ObjRelease p a t = Some (r2, t2)" "sem_inv {#(a, p, k)#} t2" by auto
    from sem_release[OF t2(2), of a p k] l t2(1) show ?thesis by (auto simp: sem_close_def)
  qed
  then obtain r t where t: "sem_close k a hE s = Some (r, t)" "sem_inv {#} t" by blast
  from obj_only_close[OF t(1)] have "obj_only a s t" .
  with t obj_only_drv[OF inv _ t(2)] obj_only_own show ?thesis by blast
qed

section \<open>Images\<close>

definition ldr_only :: "addr \<Rightarrow> supdrv \<Rightarrow> supdrv \<Rightarrow> bool" where
  "ldr_only a s t \<longleftrightarrow> ldr_frame s t \<and> factories t = factories s \<and>
     (\<exists>ss us. sessions s a = Some ss \<and> sessions t = (sessions s)(a \<mapsto> ss\<lparr>s_pLdrUsage := us\<rparr>))"

lemma ldr_only_refl: "sessions s a = Some ss \<Longrightarrow> ldr_only a s s"
  by (auto simp: ldr_only_def ldr_frame_def same_gip_def fun_upd_idem intro!: exI[of _ "s_pLdrUsage ss"])

lemma ldr_only_trans: "ldr_only a s t \<Longrightarrow> ldr_only a t u \<Longrightarrow> ldr_only a s u"
  unfolding ldr_only_def using ldr_frame_trans by fastforce

lemma ldr_only_state:
  "sessions s a = Some ss \<Longrightarrow> ldr_frame s t \<Longrightarrow> factories t = factories s \<Longrightarrow> sessions t = sessions s \<Longrightarrow> ldr_only a s t"
  using ldr_only_refl[of s a ss] by (auto simp: ldr_only_def)

lemma ldr_only_usage: "sessions s a = Some ss \<Longrightarrow> ldr_only a s (put_session a (ss\<lparr>s_pLdrUsage := us\<rparr>) s)"
  by (auto simp: ldr_only_def ldr_frame_def same_gip_def)

lemma ldr_frame_steps [intro]:
  "ldr_frame s (put_img p im s)" "ldr_frame s (log_call c s)" "ldr_frame s s"
  "ldr_frame s (upd_devext (d_pLdrImages_update f) s)"
  "ldr_frame s (upd_devext (\<lambda>d. d\<lparr>d_pLdrInitImage := p, d_hLdrInitThread := th\<rparr>) s)"
  "ldr_frame s (supdrvLdrUnsetVMMR0EPs s)"
  by (simp_all add: ldr_frame_def same_gip_def supdrvLdrUnsetVMMR0EPs_def)

lemma ldr_only_add_usage: "supdrvLdrAddUsage a p al s = Some (r, t) \<Longrightarrow> ldr_only a s t"
  by (auto simp: supdrvLdrAddUsage_def ldr_only_usage ldr_only_refl split: Option.bind_splits option.splits if_splits)

lemma ldr_only_drv:
  assumes inv: "drv_inv K s" and l: "ldr_only a s t" and t: "ldr_inv K t" "objs t = objs s"
  shows "drv_inv K t \<and> own a s t"
proof -
  from l obtain ss us where a: "sessions s a = Some ss" and st: "sessions t = (sessions s)(a \<mapsto> ss\<lparr>s_pLdrUsage := us\<rparr>)"
    and fr: "ldr_frame s t" "factories t = factories s" unfolding ldr_only_def by blast
  have parts: "obj_inv t" "ldr_part K t" using t(1) by (simp_all add: ldr_inv_part)
  have "drv_inv K t"
  proof (rule drv_invI[OF _ parts(2) _ _ _ a st inv])
    show "sem_inv {#} t"
      by (rule sem_inv_same[OF drv_inv_sem[OF inv] a st _ _ _ parts(1) types_kept_same[OF t(2)]]) simp_all
    show "mem_inv t" by (rule mem_inv_cong[OF drv_inv_mem[OF inv]]) (use st a fr in \<open>auto simp: ldr_frame_def\<close>)
    show "fact_inv t" by (rule fact_inv_cong[OF drv_inv_fact[OF inv]]) (use st a fr in \<open>auto simp: ldr_frame_def\<close>)
    show "gip_inv K t"
      by (rule gip_inv_cong[OF drv_inv_gip[OF inv]]) (use drv_inv_GipMemObj[OF inv] st a fr in \<open>auto simp: ldr_frame_def\<close>)
    show "d_GipMemObj (devext s) \<notin> set (mem_handles (ss\<lparr>s_pLdrUsage := us\<rparr>))" using drv_inv_apart[OF inv a] by simp
  qed (use fr in \<open>simp_all add: ldr_frame_def same_gip_def\<close>)
  moreover have "own a s t" by (rule ownI[OF a st]) simp_all
  ultimately show ?thesis ..
qed

lemma add_usage_objs: "supdrvLdrAddUsage a p al s = Some (r, t) \<Longrightarrow> objs t = objs s"
  by (auto simp: supdrvLdrAddUsage_def split: Option.bind_splits option.splits if_splits)

lemma LdrOpen_frame:
  assumes "supdrvIOCtl_LdrOpen a n cbTabs cbBits env s = Some (r, t)" "sessions s a = Some ss"
  shows "ldr_only a s t \<and> objs t = objs s"
proof -
  have step: "ldr_only a s t \<and> objs t = objs s"
    if "supdrvLdrAddUsage a p (le_fUsage env) u = Some (q, t)" "ldr_frame s u" "factories u = factories s" "sessions u = sessions s"
      "objs u = objs s" for p u q
    using ldr_only_trans[OF ldr_only_state[OF assms(2) that(2-4)] ldr_only_add_usage[OF that(1)]] add_usage_objs[OF that(1)] that(5) by simp
  from assms(1) consider "t = s"
    | p im q where "supdrvLdrAddUsage a p (le_fUsage env) (put_img p im s) = Some (q, t)"
    | p im q where "supdrvLdrAddUsage a p (le_fUsage env) (upd_devext (\<lambda>d. d\<lparr>d_pLdrImages := p # d_pLdrImages d\<rparr>) (put_img p im s)) = Some (q, t)"
    by (auto simp: supdrvIOCtl_LdrOpen_def Let_def split: Option.bind_splits option.splits if_splits)
  then show ?thesis
  proof cases
    case 1
    then show ?thesis using ldr_only_refl[OF assms(2)] by simp
  next
    case 2
    then show ?thesis by (rule step) (auto intro: ldr_frame_steps)
  next
    case 3
    then show ?thesis by (rule step) (simp_all add: ldr_frame_def same_gip_def)
  qed
qed

lemma LdrOpen_drv:
  assumes inv: "drv_inv K s" and ok: "ldrOpenOk a n cbTabs cbBits env s"
  shows "\<exists>r t. supdrvIOCtl_LdrOpen a n cbTabs cbBits env s = Some (r, t) \<and> drv_inv K t \<and> own a s t"
proof -
  from ok obtain ss where a: "sessions s a = Some ss" by (auto simp: ldrOpenOk_def)
  from LdrOpen_ok[OF drv_inv_ldr[OF inv] ok] obtain r t where t: "supdrvIOCtl_LdrOpen a n cbTabs cbBits env s = Some (r, t)" "ldr_inv K t"
    by blast
  from LdrOpen_frame[OF t(1) a] ldr_only_drv[OF inv _ t(2)] t(1) show ?thesis by blast
qed

lemma clear_dtors_factories: "ldr_clear_dtors im ps s = Some t \<Longrightarrow> factories t = factories s"
  by (induction ps arbitrary: s) (auto split: Option.bind_splits if_splits)

lemma LdrFree_only:
  assumes "supdrvIOCtl_LdrFree a base s = Some (r, t)"
  shows "ldr_only a s t"
proof -
  have im: "ldr_only a u (put_img p im u)" if "sessions u a \<noteq> None" for u p im
    using that by (auto intro: ldr_only_state ldr_frame_steps)
  have fr: "ldr_only a u v" if "supdrvLdrFree p u = Some v" "sessions u a \<noteq> None" for p u v
  proof -
    have "factories v = factories u" using that(1)
      by (auto simp: supdrvLdrFree_def Let_def supdrvLdrUnsetVMMR0EPs_def split: Option.bind_splits if_splits dest!: clear_dtors_factories)
    with that supdrvLdrFree_frame[OF that(1)] LdrFree_frame[OF that(1)] ldr_only_state show ?thesis by blast
  qed
  have s: "ldr_only a s (put_session a (ss\<lparr>s_pLdrUsage := us\<rparr>) u)" if "sessions s a = Some ss" "ldr_only a s u" "sessions u a = Some ss" for ss us u
    using ldr_only_trans[OF that(2) ldr_only_usage[OF that(3)]] .
  show ?thesis using assms
    by (auto simp: supdrvIOCtl_LdrFree_def Let_def ldr_only_refl split: Option.bind_splits option.splits if_splits
        intro!: s im ldr_only_trans[OF ldr_only_usage im] dest: fr elim: ldr_only_trans[OF ldr_only_usage])
qed

lemma LdrFree_drv:
  assumes inv: "drv_inv K s" and a: "sessions s a = Some ss"
  shows "\<exists>r t. supdrvIOCtl_LdrFree a base s = Some (r, t) \<and> drv_inv K t \<and> own a s t"
proof -
  from LdrFree_ok[OF drv_inv_ldr[OF inv] a, of base] obtain r t where
    t: "supdrvIOCtl_LdrFree a base s = Some (r, t)" "ldr_inv K t" "objs t = objs s" by blast
  from LdrFree_only[OF t(1)] ldr_only_drv[OF inv _ t(2,3)] t(1) show ?thesis by blast
qed

lemma LdrLoad_frame:
  assumes "supdrvIOCtl_LdrLoad a req env s = Some (r, t)" "sessions s a = Some ss"
  shows "ldr_only a s t \<and> objs t = objs s"
proof -
  define P where "P = (\<lambda>u. ldr_frame s u \<and> factories u = factories s \<and> sessions u = sessions s \<and> objs u = objs s)"
  have ep: "P v" if "ldrLoad_entry_points im req s = (q, im', v)" for im q im' v
    using that unfolding P_def
    by (auto simp: ldrLoad_entry_points_def supdrvLdrSetVMMR0EPs_def Let_def ldr_frame_def same_gip_def split: SUPLDRLOADEP.splits if_splits)
  have fin: "P v" if "ldrLoad_finish p im q env u = (q', v)" "P u" for p im q u q' v
    using that unfolding P_def
    by (auto simp: ldrLoad_finish_def ldrLoad_init_def supdrvLdrUnsetVMMR0EPs_def Let_def ldr_frame_def same_gip_def split: if_splits)
  have "P s" by (simp add: P_def ldr_frame_def same_gip_def)
  with assms(1) have "P t"
    by (auto simp: supdrvIOCtl_LdrLoad_def split: Option.bind_splits option.splits if_splits prod.splits dest!: ep intro: fin)
  then show ?thesis using ldr_only_state[OF assms(2)] unfolding P_def by blast
qed

lemma LdrLoad_drv:
  assumes inv: "drv_inv K s" and a: "sessions s a = Some ss" and ok: "ldrLoadOk K req"
  shows "\<exists>r t. supdrvIOCtl_LdrLoad a req env s = Some (r, t) \<and> drv_inv K t \<and> own a s t"
proof -
  from LdrLoad_ok[OF drv_inv_ldr[OF inv] a ok, of env] obtain r t where
    t: "supdrvIOCtl_LdrLoad a req env s = Some (r, t)" "ldr_inv K t" by blast
  from LdrLoad_frame[OF t(1) a] ldr_only_drv[OF inv _ t(2)] t(1) show ?thesis by blast
qed

lemma CallService_drv:
  assumes inv: "drv_inv K s" and a: "sessions s a = Some ss"
  shows "\<exists>r t. supdrvIOCtl_CallServiceModule a n op arg env s = Some (r, t) \<and> drv_inv K t \<and> own a s t"
proof -
  from CallService_ok[OF drv_inv_ldr[OF inv] a, of n op arg env] obtain r t where
    t: "supdrvIOCtl_CallServiceModule a n op arg env s = Some (r, t)" "ldr_inv K t" "t = s \<or> (\<exists>c. t = log_call c s)" by blast
  then have "ldr_only a s t" "objs t = objs s" by (auto intro!: ldr_only_state[OF a] intro: ldr_frame_steps)
  with ldr_only_drv[OF inv _ t(2)] t(1) show ?thesis by blast
qed

text \<open>A call to VMMR0 and the handle of the VM and the user ids of a session are no concern of any component.\<close>

lemma log_call_drv:
  assumes inv: "drv_inv K s" and a: "sessions s a = Some ss"
  shows "drv_inv K (log_call c s) \<and> own a s (log_call c s)"
  by (rule ldr_only_drv[OF inv _ ldr_inv_calls[OF drv_inv_ldr[OF inv]]]) (auto intro: ldr_only_state[OF a] ldr_frame_steps)

lemma session_fields_drv:
  fixes pVM :: addr and uid gid :: u32
  assumes inv: "drv_inv K s" and a: "sessions s a = Some ss"
  defines "ss' \<equiv> ss\<lparr>s_pVM := pVM, s_Uid := uid, s_Gid := gid\<rparr>"
  shows "drv_inv K (put_session a ss' s) \<and> own a s (put_session a ss' s)"
proof -
  let ?t = "put_session a ss' s"
  have st: "sessions ?t = (sessions s)(a \<mapsto> ss')" by simp
  have eq: "s_pUsage ss' = s_pUsage ss" "s_u32Cookie ss' = s_u32Cookie ss" "s_hHandleTable ss' = s_hHandleTable ss"
    "s_pLdrUsage ss' = s_pLdrUsage ss" "s_Bundle ss' = s_Bundle ss" "s_R0Process ss' = s_R0Process ss" "s_cRefs ss' = s_cRefs ss"
    "s_GipMapObjR3 ss' = s_GipMapObjR3 ss" "s_fGipReferenced ss' = s_fGipReferenced ss" "s_fUnrestricted ss' = s_fUnrestricted ss"
    by (simp_all add: ss'_def)
  have oi: "obj_inv ?t" by (rule obj_inv_cong[OF drv_inv_obj[OF inv]]) (use a eq in auto)
  have "drv_inv K ?t"
  proof (rule drv_invI[OF _ _ _ _ _ a st inv])
    show "sem_inv {#} ?t" by (rule sem_inv_same[OF drv_inv_sem[OF inv] a st _ _ _ oi types_kept_same]) (simp_all add: eq)
    show "ldr_part K ?t" by (rule ldr_part_cong[OF drv_inv_part[OF inv]]) (use a eq in auto)
    show "mem_inv ?t" by (rule mem_inv_cong[OF drv_inv_mem[OF inv]]) (use a eq in auto)
    show "fact_inv ?t" by (rule fact_inv_cong[OF drv_inv_fact[OF inv]]) (use a eq in auto)
    show "gip_inv K ?t" by (rule gip_inv_cong[OF drv_inv_gip[OF inv]]) (use a drv_inv_GipMemObj[OF inv] eq in \<open>auto simp: same_gip_def\<close>)
    show "d_GipMemObj (devext s) \<notin> set (mem_handles ss')" using drv_inv_apart[OF inv a] unfolding eq .
  qed simp
  then show ?thesis using ownI[OF a st] eq by simp
qed

lemma SetVM_drv:
  assumes inv: "drv_inv K s" and a: "sessions s a = Some ss"
  shows "drv_inv K (put_session a (ss\<lparr>s_pVM := pVM\<rparr>) s) \<and> own a s (put_session a (ss\<lparr>s_pVM := pVM\<rparr>) s)"
  using session_fields_drv[OF assms, where pVM = pVM and uid = "s_Uid ss" and gid = "s_Gid ss"] by (cases ss) simp

section \<open>The GIP\<close>

definition gip_fields :: "addr \<Rightarrow> supdrv \<Rightarrow> supdrv \<Rightarrow> bool" where
  "gip_fields a s t \<longleftrightarrow> objs t = objs s \<and> imgs t = imgs s \<and> factories t = factories s \<and>
     d_pObjs (devext t) = d_pObjs (devext s) \<and> d_pLdrImages (devext t) = d_pLdrImages (devext s) \<and>
     d_pvVMMR0 (devext t) = d_pvVMMR0 (devext s) \<and> d_pfnVMMR0EntryInt (devext t) = d_pfnVMMR0EntryInt (devext s) \<and>
     d_pfnVMMR0EntryFast (devext t) = d_pfnVMMR0EntryFast (devext s) \<and> d_pfnVMMR0EntryEx (devext t) = d_pfnVMMR0EntryEx (devext s) \<and>
     d_pComponentFactoryHead (devext t) = d_pComponentFactoryHead (devext s) \<and> d_GipMemObj (devext t) = d_GipMemObj (devext s) \<and>
     (\<exists>ss ss'. sessions s a = Some ss \<and> sessions t = (sessions s)(a \<mapsto> ss') \<and>
        ss'\<lparr>s_GipMapObjR3 := 0, s_fGipReferenced := False\<rparr> = ss\<lparr>s_GipMapObjR3 := 0, s_fGipReferenced := False\<rparr>)"

lemma gip_only_fields: "gip_only a nf s t \<Longrightarrow> gip_fields a s t"
  unfolding gip_only_def gip_fields_def by blast

lemma gip_fields_drv:
  assumes inv: "drv_inv K s" and f: "gip_fields a s t" and gip: "gip_inv K t" and mem: "mem_inv (s\<lparr>memobjs := memobjs t\<rparr>)"
  shows "drv_inv K t \<and> own a s t"
proof -
  from f obtain ss ss' where a: "sessions s a = Some ss" and st: "sessions t = (sessions s)(a \<mapsto> ss')"
    and e: "ss'\<lparr>s_GipMapObjR3 := 0, s_fGipReferenced := False\<rparr> = ss\<lparr>s_GipMapObjR3 := 0, s_fGipReferenced := False\<rparr>"
    unfolding gip_fields_def by blast
  have eq: "s_pUsage ss' = s_pUsage ss" "s_u32Cookie ss' = s_u32Cookie ss" "s_hHandleTable ss' = s_hHandleTable ss"
    "s_pLdrUsage ss' = s_pLdrUsage ss" "s_Bundle ss' = s_Bundle ss" "s_R0Process ss' = s_R0Process ss" "s_cRefs ss' = s_cRefs ss"
    by (rule gip_eqD[OF e])+
  have unr: "s_fUnrestricted ss' = s_fUnrestricted ss" using e by (cases ss; cases ss') simp
  have g: "objs t = objs s" "d_pObjs (devext t) = d_pObjs (devext s)" "d_GipMemObj (devext t) = d_GipMemObj (devext s)"
    using f by (simp_all add: gip_fields_def)
  have oi: "obj_inv t" by (rule obj_inv_cong[OF drv_inv_obj[OF inv]]) (use st a eq g in auto)
  have "drv_inv K t"
  proof (rule drv_invI[OF _ _ _ _ gip a st inv g(3)])
    show "sem_inv {#} t" by (rule sem_inv_same[OF drv_inv_sem[OF inv] a st _ _ _ oi types_kept_same]) (simp_all add: eq g)
    show "ldr_part K t" by (rule ldr_part_cong[OF drv_inv_part[OF inv]]) (use st a eq f in \<open>auto simp: gip_fields_def\<close>)
    show "mem_inv t" by (rule mem_inv_cong[OF mem]) (use st a eq in auto)
    show "fact_inv t" by (rule fact_inv_cong[OF drv_inv_fact[OF inv]]) (use st a eq f in \<open>auto simp: gip_fields_def\<close>)
    show "d_GipMemObj (devext s) \<notin> set (mem_handles ss')" using drv_inv_apart[OF inv a] unfolding eq .
  qed
  moreover have "own a s t" by (rule ownI[OF a st]) (simp_all add: eq unr)
  ultimately show ?thesis ..
qed

lemma mem_inv_grown:
  assumes mi: "mem_inv s" and h: "heap_ok h" "\<And>q. obj_at (memobjs s) q \<Longrightarrow> obj_at h q" "\<And>b c. is_child (memobjs s) b c \<Longrightarrow> is_child h b c"
  shows "mem_inv (s\<lparr>memobjs := h\<rparr>)"
proof -
  have "sess_mem_ok h bs" if "sess_mem_ok (memobjs s) bs" for bs
    using that entry_ok_mono h(2,3) unfolding sess_mem_ok_def by metis
  with mi h(1) show ?thesis unfolding mem_inv_def by simp
qed

lemma GipMap_frame:
  assumes inv: "drv_inv K s" and ss: "sessions s a = Some ss" and env: "gipenv_ok env s"
    and e: "SUPR0GipMap a p3 pp env s = Some (r, t)"
  shows "gip_fields a s t \<and> mem_inv (s\<lparr>memobjs := memobjs t\<rparr>)"
proof -
  have refl: "gip_fields a s s \<and> mem_inv (s\<lparr>memobjs := memobjs s\<rparr>)"
    using ss drv_inv_mem[OF inv] by (auto simp: gip_fields_def fun_upd_idem intro!: exI[of _ ss])
  have res: "gip_fields a s v \<and> memobjs v = memobjs u" if "gip_resume env u = Some v" "gip_fields a s u" for u v
    using that by (auto simp: gip_resume_def Let_def gip_fields_def split: Option.bind_splits)
  obtain rc M h where m: "(if p3 \<noteq> 0 \<and> s_GipMapObjR3 ss = NIL_RTR0MEMOBJ
          then do {
            cb \<leftarrow> RTR0MemObjSize (memobjs s) (d_GipMemObj (devext s));
            memobj_map (ge_rcMap env) (ge_hMap env)
              (memobj_new MO_MAPPING cb (ge_pvMap env) (ge_R0Process env) (\<lambda>_. d_HCPhysGip (devext s)))
              (ge_fGrow env) (d_GipMemObj (devext s)) (memobjs s)
          }
          else Some (VINF_SUCCESS, s_GipMapObjR3 ss, memobjs s)) = Some (rc, M, h)" and h: "heap_ok h"
      "\<And>q. obj_at (memobjs s) q \<Longrightarrow> obj_at h q" "\<And>b c. is_child (memobjs s) b c \<Longrightarrow> is_child h b c"
    using gip_map_part[OF drv_inv_gip[OF inv] ss env, of p3] by blast
  have mi: "mem_inv (s\<lparr>memobjs := h\<rparr>)" by (rule mem_inv_grown[OF drv_inv_mem[OF inv] h])
  have u: "gip_fields a s (put_session a (ss\<lparr>s_GipMapObjR3 := M\<rparr>) (s\<lparr>memobjs := h\<rparr>))"
    "gip_fields a s (upd_devext (\<lambda>d. d\<lparr>d_cGipUsers := d_cGipUsers d + 1\<rparr>)
       (put_session a (ss\<lparr>s_GipMapObjR3 := M, s_fGipReferenced := True\<rparr>) (s\<lparr>memobjs := h\<rparr>)))"
    by (simp_all add: gip_fields_def ss)
      (rule exI[of _ "ss\<lparr>s_GipMapObjR3 := M\<rparr>"], simp, rule exI[of _ "ss\<lparr>s_GipMapObjR3 := M, s_fGipReferenced := True\<rparr>"], simp)
  show ?thesis using e refl mi u
    by (auto simp: SUPR0GipMap_def ss m Let_def split: Option.bind_splits if_splits dest!: res)
qed

lemma GipMap_drv:
  assumes inv: "drv_inv K s" and a: "sessions s a = Some ss" and env: "gipenv_ok env s"
  shows "\<exists>r t. SUPR0GipMap a p3 pp env s = Some (r, t) \<and> drv_inv K t \<and> own a s t"
proof -
  from GipMap_ok[OF drv_inv_gip[OF inv] a env, of p3 pp] obtain r t where
    t: "SUPR0GipMap a p3 pp env s = Some (r, t)" "gip_inv K t" by blast
  from GipMap_frame[OF inv a env t(1)] gip_fields_drv[OF inv _ t(2)] t(1) show ?thesis by blast
qed

lemma GipUnmap_drv:
  assumes inv: "drv_inv K s" and a: "sessions s a = Some ss" and stop: "RT_SUCCESS rcStop"
  shows "\<exists>r t. SUPR0GipUnmap a nf rcStop s = Some (r, t) \<and> drv_inv K t \<and> own a s t"
proof -
  let ?G = "d_GipMemObj (devext s)"
  from GipUnmap_ok[OF drv_inv_gip[OF inv] a stop, of nf] obtain r t where
    t: "SUPR0GipUnmap a nf rcStop s = Some (r, t)" "gip_inv K t" by blast
  note fr = GipUnmap_frame[OF t(1)]
  have "mem_inv (s\<lparr>memobjs := memobjs t\<rparr>)"
  proof (cases "memobjs t = memobjs s")
    case True
    with drv_inv_mem[OF inv] show ?thesis by simp
  next
    case False
    with fr a obtain q where nz: "s_GipMapObjR3 ss \<noteq> 0"
      and q: "RTR0MemObjFree nf (s_GipMapObjR3 ss) False (memobjs s) = Some (q, memobjs t)" unfolding gip_only_def by auto
    have c: "is_child (memobjs s) ?G (s_GipMapObjR3 ss)" using gip_inv_session[OF drv_inv_gip[OF inv] a nz] by blast
    from free_mapping_ok[OF conjunct1[OF drv_inv_GipMemObj[OF inv]] c, of nf False] q
    have k: "keeps_others (s_GipMapObjR3 ss) (memobjs s) (memobjs t)" "heap_ok (memobjs t)" by auto
    have "?G \<noteq> 0" using drv_inv_GipMemObj[OF inv] obj_at_valid[of "memobjs s" ?G] by auto
    from mem_inv_free_foreign[OF drv_inv_mem[OF inv] k c drv_inv_apart[OF inv] this] show ?thesis .
  qed
  from gip_fields_drv[OF inv gip_only_fields[OF fr] t(2) this] t(1) show ?thesis by blast
qed

section \<open>How many page addresses are stored\<close>

lemma lock_pages_length: "lock_pages h M n acc = Some (r, ps) \<Longrightarrow> length ps \<le> n + length acc"
  by (induction n arbitrary: acc) (fastforce split: Option.bind_splits if_splits)+

lemma phys_pages_length: "phys_pages h M n acc = Some ps \<Longrightarrow> length ps = n + length acc"
  by (induction n arbitrary: acc) (fastforce split: Option.bind_splits)+

lemma alloc_pages_length:
  "SUPR0LockMem a pvR3 n p env s = Some ((r, r0, r3, ps), t) \<Longrightarrow> length ps \<le> unat n"
  "SUPR0ContAlloc a n p0 p3 p env s = Some ((r, r0, r3, ps), t) \<Longrightarrow> length ps \<le> 1"
  "SUPR0LowAlloc a n p0 p3 p env s = Some ((r, r0, r3, ps), t) \<Longrightarrow> length ps \<le> unat n"
  "SUPR0PageAllocEx a n fl p3 p0 p env s = Some ((r, r0, r3, ps), t) \<Longrightarrow> length ps \<le> unat n"
  by (auto simp: SUPR0LockMem_def SUPR0ContAlloc_def SUPR0LowAlloc_def SUPR0PageAllocEx_def Let_def
      split: Option.bind_splits if_splits prod.splits dest!: lock_pages_length phys_pages_length)

end
