(* ===== verification/SupIoctlSafe.thy ===== *)
theory SupIoctlSafe
  imports SupOps SupIoctl
begin

text \<open>
  Safety of the IOCtl dispatcher.  A request whose sizes fit its buffer is answered without a fault,
  which includes that no byte outside of the buffer is read or written; the driver's combined
  invariant is kept, no other session changes, and the buffer keeps its length.  The proof follows the
  code of a handler with one rule per construct: a read or a write of the buffer, a check, a call of
  an operation, a status returned.
\<close>

section \<open>What a handler promises\<close>

definition io_good :: "(supdrv \<Rightarrow> bool) \<Rightarrow> nat \<Rightarrow> io_res \<Rightarrow> bool" where
  "io_good P n res \<longleftrightarrow> (\<exists>r b t. res = Some (r, b, t) \<and> length b = n \<and> P t)"

text \<open>What holds of the driver at each point of a handler, and what the request's header says of its size.\<close>

definition drv_ok :: "promise set \<Rightarrow> addr \<Rightarrow> supdrv \<Rightarrow> supdrv \<Rightarrow> bool" where
  "drv_ok K a s0 s \<longleftrightarrow> drv_inv K s \<and> own a s0 s"

definition sizes_ok :: "nat \<Rightarrow> reqbuf \<Rightarrow> bool" where
  "sizes_ok n b \<longleftrightarrow> length b = n \<and> 24 \<le> n \<and> n \<le> 0x1000000 \<and>
     (case rd32 b OFF_cbIn of None \<Rightarrow> True | Some cbIn \<Rightarrow> unat cbIn \<le> n) \<and>
     (case rd32 b OFF_cbOut of None \<Rightarrow> True | Some cbOut \<Rightarrow> unat cbOut \<le> n)"

text \<open>A store into the buffer that succeeds.\<close>

definition stores :: "nat \<Rightarrow> reqbuf option \<Rightarrow> bool" where
  "stores n m \<longleftrightarrow> (\<exists>b. m = Some b \<and> length b = n)"

named_theorems store_rules "stores into a buffer that succeed"
named_theorems io_rules "one rule per construct of a handler"

lemma stores_Some [store_rules]: "length b = n \<Longrightarrow> stores n (Some b)"
  by (simp add: stores_def)

lemma stores_wr [store_rules]:
  "length b = n \<Longrightarrow> off + 4 \<le> n \<Longrightarrow> stores n (wr32 b off v)"
  "length b = n \<Longrightarrow> off + 8 \<le> n \<Longrightarrow> stores n (wr64 b off w)"
  "length b = n \<Longrightarrow> off + 8 * length ws \<le> n \<Longrightarrow> stores n (wr64s b off ws)"
  "length b = n \<Longrightarrow> off + length bs \<le> n \<Longrightarrow> stores n (put_bytes b off bs)"
  by (auto simp: stores_def wr_ok wr64s_ok put_bytes_ok)

lemma stores_if [store_rules]: "(c \<Longrightarrow> stores n x) \<Longrightarrow> (\<not> c \<Longrightarrow> stores n y) \<Longrightarrow> stores n (if c then x else y)"
  by simp

lemma stores_bind [store_rules]: "stores n m \<Longrightarrow> (\<And>b. length b = n \<Longrightarrow> stores n (k b)) \<Longrightarrow> stores n (m \<bind> k)"
  by (auto simp: stores_def)

lemma stores_option [store_rules]:
  "stores n x \<Longrightarrow> (\<And>v. stores n (y v)) \<Longrightarrow> stores n (case m of None \<Rightarrow> x | Some v \<Rightarrow> y v)"
  by (cases m) simp_all

section \<open>The rules\<close>

lemma sizes_okD: "sizes_ok n b \<Longrightarrow> length b = n" "sizes_ok n b \<Longrightarrow> 24 \<le> n" "sizes_ok n b \<Longrightarrow> n \<le> 0x1000000"
  by (simp_all add: sizes_ok_def)

lemma good_result [io_rules]: "length b = n \<Longrightarrow> P s \<Longrightarrow> io_good P n (Some (r, b, s))"
  by (simp add: io_good_def)

lemma good_store:
  "stores n m \<Longrightarrow> (\<And>b. length b = n \<Longrightarrow> io_good P n (k b)) \<Longrightarrow> io_good P n (m \<bind> k)"
  by (auto simp: stores_def)

lemma good_wr [io_rules]:
  assumes "\<And>b'. length b' = n \<Longrightarrow> io_good P n (k b')"
  shows "length b = n \<Longrightarrow> off + 4 \<le> n \<Longrightarrow> io_good P n (wr32 b off v \<bind> k)"
    "length b = n \<Longrightarrow> off + 8 \<le> n \<Longrightarrow> io_good P n (wr64 b off w \<bind> k)"
    "length b = n \<Longrightarrow> off + 8 * length ws \<le> n \<Longrightarrow> io_good P n (wr64s b off ws \<bind> k)"
    "length b = n \<Longrightarrow> off + length bs \<le> n \<Longrightarrow> io_good P n (put_bytes b off bs \<bind> k)"
    "stores n (if c then x else y) \<Longrightarrow> io_good P n ((if c then x else y) \<bind> k)"
    "stores n (case m of None \<Rightarrow> x | Some v \<Rightarrow> z v) \<Longrightarrow> io_good P n ((case m of None \<Rightarrow> x | Some v \<Rightarrow> z v) \<bind> k)"
  using assms by (blast intro: good_store store_rules)+

lemma good_session:
  "sessions s a = Some ss \<Longrightarrow> io_good P n (k ss) \<Longrightarrow> io_good P n (sessions s a \<bind> k)"
  by simp

lemma good_ret [io_rules]:
  assumes "length b = n" "24 \<le> n" "P s"
  shows "io_good P n (io_ret r b s)" "io_good P n (io_ret_out r b s)" "io_good P n (io_fail b s)"
  unfolding io_ret_def io_ret_out_def io_fail_def by (intro io_rules store_rules assms; use assms in simp)+

lemma good_if [io_rules]:
  "(c \<Longrightarrow> io_good P n x) \<Longrightarrow> (\<not> c \<Longrightarrow> io_good P n y) \<Longrightarrow> io_good P n (if c then x else y)"
  by simp

lemma good_prod [io_rules]:
  "(\<And>x y. p = (x, y) \<Longrightarrow> io_good P n (f x y)) \<Longrightarrow> io_good P n (case p of (x, y) \<Rightarrow> f x y)"
  "(\<And>x y. p = (x, y) \<Longrightarrow> io_good P n (g x y z)) \<Longrightarrow> io_good P n ((case p of (x, y) \<Rightarrow> g x y) z)"
  by (cases p; simp)+

lemma good_expr [io_rules]:
  "length b = n \<Longrightarrow> 24 \<le> n \<Longrightarrow> P s \<Longrightarrow> (expr \<Longrightarrow> io_good P n k) \<Longrightarrow> io_good P n (REQ_CHECK_EXPR expr b s k)"
  by (simp add: REQ_CHECK_EXPR_def good_ret)

lemma good_rd [io_rules]:
  "off + 4 \<le> length b \<Longrightarrow> (\<And>v. rd32 b off = Some v \<Longrightarrow> io_good P n (k v)) \<Longrightarrow> io_good P n (rd32 b off \<bind> k)"
  "off + 8 \<le> length b \<Longrightarrow> (\<And>v. rd64 b off = Some v \<Longrightarrow> io_good P n (k' v)) \<Longrightarrow> io_good P n (rd64 b off \<bind> k')"
  "off < length b \<Longrightarrow> (\<And>v. rd8 b off = Some v \<Longrightarrow> io_good P n (k8 v)) \<Longrightarrow> io_good P n (rd8 b off \<bind> k8)"
  "off + m \<le> length b \<Longrightarrow> (\<And>v. bytes_at b off m = Some v \<Longrightarrow> io_good P n (kb v)) \<Longrightarrow> io_good P n (bytes_at b off m \<bind> kb)"
  "off + m \<le> length b \<Longrightarrow> (\<And>v. io_good P n (ke v)) \<Longrightarrow> io_good P n (str_end b off m \<bind> ke)"
  using rd_ok[where off = off and b = b] str_end_ok[of off m b] by (auto simp: bytes_at_def)

lemma good_cbIn:
  "sizes_ok n b \<Longrightarrow> (\<And>v. rd32 b OFF_cbIn = Some v \<Longrightarrow> unat v \<le> n \<Longrightarrow> io_good P n (k v)) \<Longrightarrow> io_good P n (rd32 b OFF_cbIn \<bind> k)"
  by (rule good_rd(1)) (auto simp: sizes_ok_def)

lemma good_size [io_rules]:
  assumes "sizes_ok n b" "P s" "e \<le> n \<Longrightarrow> io_good P n k"
  shows "io_good P n (REQ_CHECK_SIZE_IN e b s k)" "io_good P n (REQ_CHECK_SIZE_OUT e b s k)"
  unfolding REQ_CHECK_SIZE_IN_def REQ_CHECK_SIZE_OUT_def
  by (intro io_rules assms(2); use assms in \<open>auto simp: sizes_ok_def\<close>)+

text \<open>When the expected output size is itself read from the request.\<close>

lemma good_sizes_ex:
  assumes "sizes_ok n b" "P s"
    and m: "e \<le> n \<Longrightarrow> \<exists>x. m = Some x" "\<And>x. m = Some x \<Longrightarrow> e \<le> n \<Longrightarrow> x \<le> n \<Longrightarrow> io_good P n k"
  shows "io_good P n (REQ_CHECK_SIZES_EX e m b s k)"
  unfolding REQ_CHECK_SIZES_EX_def
proof (rule good_size(1)[where P = P, OF assms(1,2)])
  assume e: "e \<le> n"
  with m(1) obtain x where "m = Some x" by blast
  then show "io_good P n (m \<bind> (\<lambda>x. REQ_CHECK_SIZE_OUT x b s k))"
    using good_size(2)[where P = P, OF assms(1,2) m(2)[OF _ e]] by simp
qed

lemma good_sizes [io_rules]:
  "sizes_ok n b \<Longrightarrow> P s \<Longrightarrow> (e \<le> n \<Longrightarrow> x \<le> n \<Longrightarrow> io_good P n k) \<Longrightarrow> io_good P n (REQ_CHECK_SIZES e x b s k)"
  by (rule good_sizes_ex) auto

text \<open>A call of an operation.\<close>

lemma good_op:
  assumes "drv_ok K a s0 s" "\<exists>r t. m = Some (r, t) \<and> drv_inv K t \<and> own a s t"
    "\<And>r t. m = Some (r, t) \<Longrightarrow> drv_ok K a s0 t \<Longrightarrow> io_good (drv_ok K a s0) n (k (r, t))"
  shows "io_good (drv_ok K a s0) n (m \<bind> k)"
  using assms own_trans[of a s0 s] by (auto simp: drv_ok_def)

lemma good_op3:
  assumes "drv_ok K a s0 s" "\<exists>r v t. m = Some (r, v, t) \<and> drv_inv K t \<and> own a s t"
    "\<And>r v t. m = Some (r, v, t) \<Longrightarrow> drv_ok K a s0 t \<Longrightarrow> io_good (drv_ok K a s0) n (k (r, v, t))"
  shows "io_good (drv_ok K a s0) n (m \<bind> k)"
  using assms own_trans[of a s0 s] by (auto simp: drv_ok_def)

section \<open>Handlers\<close>

text \<open>
  What is assumed of the environment: allocators return blocks that are free, stopping and starting the
  GIP timer succeed, no counter is at its last value, and the buffer has a kernel address.  Of the bytes of
  the request only the promise of VMMR0 loads asks something, where it is in the set: with the empty set
  there is nothing that a request must not hold.
\<close>

definition io_env_ok :: "promise set \<Rightarrow> ioctlenv \<Rightarrow> reqbuf \<Rightarrow> supdrv \<Rightarrow> bool" where
  "io_env_ok K env b s \<longleftrightarrow> RT_VALID_PTR (io_pReq env) \<and> env_ok (io_mem env) s \<and> gipenv_ok (io_gip env) s \<and>
     RT_SUCCESS (io_rcStop env) \<and> fresh_obj (se_pNew (io_sem env)) s \<and> \<not> RTHT_IS_FREE (se_pNew (io_sem env)) \<and> counters_ok s \<and>
     (le_pNew (io_ldr env) = 0 \<or> imgs s (le_pNew (io_ldr env)) = None) \<and>
     (le_pvExec (io_ldr env) = 0 \<or> (le_pvExec (io_ldr env) + 31) AND NOT 31 \<noteq> 0) \<and>
     (\<forall>p \<in> dom (imgs s). fst (img_acct s) p \<noteq> Some (- 1)) \<and>
     (VMMR0_At_Base \<in> K \<longrightarrow> rd32 b 80 = Some 1 \<longrightarrow> rd64 b 40 = rd64 b 72)"

lemma io_env_okD:
  assumes "io_env_ok K env b s"
  shows "env_ok (io_mem env) s" "gipenv_ok (io_gip env) s" "RT_SUCCESS (io_rcStop env)" "counters_ok s"
    "fresh_obj (se_pNew (io_sem env)) s" "\<not> RTHT_IS_FREE (se_pNew (io_sem env))" "io_pReq env + 24 \<noteq> 0"
proof -
  show "io_pReq env + 24 \<noteq> 0"
  proof
    assume "io_pReq env + 24 = 0"
    then have "io_pReq env = - 24" by (simp add: add_eq_0_iff2)
    with assms show False by (simp add: io_env_ok_def RT_VALID_PTR_def)
  qed
qed (use assms in \<open>simp_all add: io_env_ok_def\<close>)

lemma simple_handlers_good:
  assumes st: "drv_ok K a s s" and sz: "sizes_ok n b" and ss: "sessions s a = Some ss"
  shows "io_good (drv_ok K a s) n (ioctl_COOKIE cf env a b s)" "io_good (drv_ok K a s) n (ioctl_QUERY_FUNCS env a b s)"
    "io_good (drv_ok K a s) n (ioctl_GET_PAGING_MODE env a b s)" "io_good (drv_ok K a s) n (ioctl_VT_CAPS env a b s)"
    "io_good (drv_ok K a s) n (ioctl_LOGGER_SETTINGS env a b s)"
    "io_good (drv_ok K a s) n (ioctl_TRACER_OPEN env a b s)" "io_good (drv_ok K a s) n (ioctl_TRACER_CLOSE env a b s)"
    "io_good (drv_ok K a s) n (ioctl_TRACER_IOCTL env a b s)" "io_good (drv_ok K a s) n (ioctl_TRACER_UMOD_REG env a b s)"
    "io_good (drv_ok K a s) n (ioctl_TRACER_UMOD_DEREG env a b s)" "io_good (drv_ok K a s) n (ioctl_TRACER_UMOD_FIRE_PROBE env a b s)"
    "io_good (drv_ok K a s) n (ioctl_MSR_PROBER env a b s)" "io_good (drv_ok K a s) n (ioctl_RESUME_SUSPENDED_KBDS env a b s)"
proof -
  note L = sizes_okD[OF sz]
  have fb: "length (func_bytes fs) = 40 * length fs" for fs by (induction fs rule: func_bytes.induct) auto
  note R = good_cbIn[OF sz] io_rules store_rules st sz good_session[OF ss]
  show "io_good (drv_ok K a s) n (ioctl_COOKIE cf env a b s)"
    unfolding ioctl_COOKIE_def cookie_out_def Option.bind_assoc Let_def by (intro R; use L in \<open>auto simp: fb\<close>)
  show "io_good (drv_ok K a s) n (ioctl_QUERY_FUNCS env a b s)"
    unfolding ioctl_QUERY_FUNCS_def Let_def by (intro R; use L in \<open>auto simp: fb\<close>)
  show "io_good (drv_ok K a s) n (ioctl_GET_PAGING_MODE env a b s)"
    unfolding ioctl_GET_PAGING_MODE_def Let_def by (intro R; use L in \<open>auto simp: fb\<close>)
  show "io_good (drv_ok K a s) n (ioctl_VT_CAPS env a b s)"
    unfolding ioctl_VT_CAPS_def Let_def by (intro R; use L in \<open>auto simp: fb\<close>)
  show "io_good (drv_ok K a s) n (ioctl_LOGGER_SETTINGS env a b s)"
    unfolding ioctl_LOGGER_SETTINGS_def Let_def by (intro R; use L in \<open>auto simp: fb\<close>)
  show "io_good (drv_ok K a s) n (ioctl_TRACER_OPEN env a b s)"
    unfolding ioctl_TRACER_OPEN_def Let_def by (intro R; use L in \<open>auto simp: fb\<close>)
  show "io_good (drv_ok K a s) n (ioctl_TRACER_CLOSE env a b s)"
    unfolding ioctl_TRACER_CLOSE_def Let_def by (intro R; use L in \<open>auto simp: fb\<close>)
  show "io_good (drv_ok K a s) n (ioctl_TRACER_IOCTL env a b s)"
    unfolding ioctl_TRACER_IOCTL_def Let_def by (intro R; use L in \<open>auto simp: fb\<close>)
  show "io_good (drv_ok K a s) n (ioctl_TRACER_UMOD_REG env a b s)"
    unfolding ioctl_TRACER_UMOD_REG_def Let_def by (intro R; use L in \<open>auto simp: fb\<close>)
  show "io_good (drv_ok K a s) n (ioctl_TRACER_UMOD_DEREG env a b s)"
    unfolding ioctl_TRACER_UMOD_DEREG_def Let_def by (intro R; use L in \<open>auto simp: fb\<close>)
  show "io_good (drv_ok K a s) n (ioctl_TRACER_UMOD_FIRE_PROBE env a b s)"
    unfolding ioctl_TRACER_UMOD_FIRE_PROBE_def Let_def by (intro R; use L in \<open>auto simp: fb\<close>)
  show "io_good (drv_ok K a s) n (ioctl_MSR_PROBER env a b s)"
    unfolding ioctl_MSR_PROBER_def Let_def by (intro R; use L in \<open>auto simp: fb\<close>)
  show "io_good (drv_ok K a s) n (ioctl_RESUME_SUSPENDED_KBDS env a b s)"
    unfolding ioctl_RESUME_SUSPENDED_KBDS_def Let_def by (intro R; use L in \<open>auto simp: fb\<close>)
qed

text \<open>The memory requests.\<close>

lemma free_good:
  assumes st: "drv_ok K a s s" and sz: "sizes_ok n b" and ss: "sessions s a = Some ss"
    and f: "f = mem_free_fn ty"
  shows "io_good (drv_ok K a s) n (ioctl_free f env a b s)"
proof -
  note L = sizes_okD[OF sz]
  have inv: "drv_inv K s" using st by (simp add: drv_ok_def)
  show ?thesis
    unfolding ioctl_free_def f
    by (intro io_rules st sz good_op[OF st mem_free_drv[OF inv ss]]; use L in auto)
qed

text \<open>The 32 bit size of a low memory request is exact for the page counts that are accepted.\<close>

lemma low_alloc_fits:
  assumes "SUPR0LowAlloc a n p0 p3 p env s = Some ((r, r0, r3, ps), t)" "unat (40 + 8 * n) \<le> m" "RT_SUCCESS r"
  shows "40 + 8 * length ps \<le> m"
proof -
  have "n < 256" using assms(1,3) by (auto simp: SUPR0LowAlloc_def Let_def split: Option.bind_splits if_splits prod.splits)
  then have "unat (40 + 8 * n) = 40 + 8 * unat n" by (simp add: unat_word_ariths word_less_nat_alt)
  with alloc_pages_length(3)[OF assms(1)] assms(2) show ?thesis by simp
qed

lemma memory_handlers_good:
  assumes st: "drv_ok K a s s" and sz: "sizes_ok n b" and ss: "sessions s a = Some ss" and env: "io_env_ok K env b s"
  shows "io_good (drv_ok K a s) n (ioctl_PAGE_UNLOCK env a b s)" "io_good (drv_ok K a s) n (ioctl_CONT_FREE env a b s)"
    "io_good (drv_ok K a s) n (ioctl_LOW_FREE env a b s)" "io_good (drv_ok K a s) n (ioctl_PAGE_FREE env a b s)"
    "io_good (drv_ok K a s) n (ioctl_PAGE_LOCK env a b s)" "io_good (drv_ok K a s) n (ioctl_CONT_ALLOC env a b s)"
    "io_good (drv_ok K a s) n (ioctl_LOW_ALLOC env a b s)" "io_good (drv_ok K a s) n (ioctl_PAGE_ALLOC_EX env a b s)"
    "io_good (drv_ok K a s) n (ioctl_PAGE_MAP_KERNEL env a b s)" "io_good (drv_ok K a s) n (ioctl_PAGE_PROTECT env a b s)"
proof -
  note L = sizes_okD[OF sz]
  note D = io_env_okD[OF env]
  have inv: "drv_inv K s" using st by (simp add: drv_ok_def)
  note A = alloc_ops_drv[OF inv ss D(1)]
  show "io_good (drv_ok K a s) n (ioctl_PAGE_UNLOCK env a b s)"
    unfolding ioctl_PAGE_UNLOCK_def by (rule free_good[OF st sz ss, where ty = MEMREF_TYPE_LOCKED]) (simp add: mem_free_fn_def fun_eq_iff)
  show "io_good (drv_ok K a s) n (ioctl_CONT_FREE env a b s)"
    unfolding ioctl_CONT_FREE_def by (rule free_good[OF st sz ss, where ty = MEMREF_TYPE_CONT]) (simp add: mem_free_fn_def fun_eq_iff)
  show "io_good (drv_ok K a s) n (ioctl_LOW_FREE env a b s)"
    unfolding ioctl_LOW_FREE_def by (rule free_good[OF st sz ss, where ty = MEMREF_TYPE_LOW]) (simp add: mem_free_fn_def fun_eq_iff)
  show "io_good (drv_ok K a s) n (ioctl_PAGE_FREE env a b s)"
    unfolding ioctl_PAGE_FREE_def by (rule free_good[OF st sz ss, where ty = MEMREF_TYPE_PAGE]) (simp add: mem_free_fn_def fun_eq_iff)
  show "io_good (drv_ok K a s) n (ioctl_PAGE_LOCK env a b s)"
    unfolding ioctl_PAGE_LOCK_def
    by (intro io_rules st sz good_op[OF st A(1)]; use L in \<open>auto dest!: alloc_pages_length\<close>)
  show "io_good (drv_ok K a s) n (ioctl_CONT_ALLOC env a b s)"
    unfolding ioctl_CONT_ALLOC_def
    by (intro good_cbIn[OF sz] io_rules store_rules st sz good_op[OF st A(2)]; use L in \<open>auto dest!: alloc_pages_length\<close>)
  show "io_good (drv_ok K a s) n (ioctl_LOW_ALLOC env a b s)"
    unfolding ioctl_LOW_ALLOC_def
    by (intro good_cbIn[OF sz] io_rules store_rules st sz good_op[OF st A(3)] good_sizes_ex;
        use L in \<open>auto simp: rd_ok dest!: low_alloc_fits\<close>)
  show "io_good (drv_ok K a s) n (ioctl_PAGE_ALLOC_EX env a b s)"
    unfolding ioctl_PAGE_ALLOC_EX_def
    by (intro good_cbIn[OF sz] io_rules store_rules st sz good_op[OF st A(4)] good_sizes_ex; use L in \<open>auto simp: rd_ok dest!: alloc_pages_length\<close>)
  show "io_good (drv_ok K a s) n (ioctl_PAGE_MAP_KERNEL env a b s)"
    unfolding ioctl_PAGE_MAP_KERNEL_def
    by (intro good_cbIn[OF sz] io_rules store_rules st sz good_op3[OF st mem_map_protect_drv(1)[OF inv ss D(1,7)]]; use L in auto)
  show "io_good (drv_ok K a s) n (ioctl_PAGE_PROTECT env a b s)"
    unfolding ioctl_PAGE_PROTECT_def
    by (intro good_cbIn[OF sz] io_rules store_rules st sz good_op[OF st mem_map_protect_drv(2)[OF inv ss]]; use L in \<open>auto dest!: alloc_pages_length\<close>)
qed

text \<open>The image requests.\<close>

lemma good_total:
  "\<exists>v. m = Some v \<Longrightarrow> (\<And>v. m = Some v \<Longrightarrow> io_good P n (k v)) \<Longrightarrow> io_good P n (m \<bind> k)"
  by auto

lemma ldr_load_req_total:
  assumes "rd32 b 104 = Some cb" "108 + unat cb \<le> length b" "112 \<le> length b"
  shows "\<exists>req. ldr_load_req b = Some req"
proof -
  have "\<exists>v. rd32 b 80 = Some v" "\<exists>v. rd32 b 84 = Some v" "\<exists>v. rd32 b 88 = Some v" "\<exists>v. rd32 b 92 = Some v"
    "\<exists>v. rd32 b 96 = Some v" "\<exists>v. rd32 b 100 = Some v" "\<exists>v. rd64 b 24 = Some v" "\<exists>v. rd64 b 32 = Some v"
    "\<exists>v. rd64 b 40 = Some v" "\<exists>v. rd64 b 48 = Some v" "\<exists>v. rd64 b 56 = Some v" "\<exists>v. rd64 b 64 = Some v" "\<exists>v. rd64 b 72 = Some v"
    using assms(3) by (auto intro!: rd_ok)
  with assms show ?thesis by (auto simp: ldr_load_req_def ldr_load_EP_def bytes_at_def)
qed

text \<open>What the parsed request says of the buffer.\<close>

lemma ldr_load_reqD:
  assumes "ldr_load_req b = Some req"
  shows "rd32 b 104 = Some (ll_cbImageWithTabs req)" "length (ll_abImage req) = unat (ll_cbImageWithTabs req)"
    "(rd32 b 80 = Some 1 \<longrightarrow> rd64 b 40 = rd64 b 72) \<Longrightarrow> case ll_EP req of EP_VMMR0 pv _ _ _ \<Rightarrow> pv = ll_pvImageBase req | _ \<Rightarrow> True"
  using assms by (auto simp: ldr_load_req_def ldr_load_EP_def bytes_at_def split: Option.bind_splits if_splits)

lemma sum32_exact: "unat (x :: u32) \<le> 0x1000000 \<Longrightarrow> unat y \<le> 0x1000000 \<Longrightarrow> unat (x + y) = unat x + unat y"
  by (simp add: unat_word_ariths)

lemma ldr_sym_check_total:
  assumes "unat cb \<le> 0x1000000" "off + 8 \<le> length b" "108 + unat cb \<le> length b"
    and "cbStr = 0 \<or> offStr < cb \<and> offStr + cbStr \<le> cb \<and> cbStr \<le> cb"
  shows "ldr_sym_check b cb offStr cbStr off \<noteq> None"
proof -
  obtain nm sy where r: "rd32 b off = Some nm" "rd32 b (off + 4) = Some sy" using rd_ok(2)[of off b] rd_ok(2)[of "off + 4" b] assms(2) by auto
  show ?thesis
  proof (cases "nm < cbStr")
    case True
    then have "offStr < cb \<and> offStr + cbStr \<le> cb \<and> cbStr \<le> cb" using assms(4) by auto
    then have le: "unat offStr < unat cb" "unat (offStr + cbStr) \<le> unat cb" "unat cbStr \<le> unat cb" "unat nm < unat cbStr"
      using True by (simp_all add: word_less_nat_alt word_le_nat_alt)
    then have "unat (offStr + cbStr) = unat offStr + unat cbStr" "unat (offStr + nm) = unat offStr + unat nm"
      "unat (cbStr - nm) = unat cbStr - unat nm"
      using assms(1) True by (auto intro!: sum32_exact unat_sub simp: word_le_nat_alt)
    with le str_end_ok[of "108 + unat (offStr + nm)" "unat (cbStr - nm)" b] assms(3) have
      "\<exists>e. str_end b (108 + unat (offStr + nm)) (unat (cbStr - nm)) = Some e" by simp
    then show ?thesis by (auto simp: ldr_sym_check_def r)
  next
    case False
    then have "ldr_sym_check b cb offStr cbStr off = Some False" by (simp add: ldr_sym_check_def r)
    then show ?thesis by simp
  qed
qed

lemma ldr_syms_check_total:
  assumes "unat cb \<le> 0x1000000" "108 + unat cb \<le> length b" "cbStr = 0 \<or> offStr < cb \<and> offStr + cbStr \<le> cb \<and> cbStr \<le> cb"
  shows "n = 0 \<or> off + 8 * n \<le> length b \<Longrightarrow> ldr_syms_check b cb offStr cbStr off n \<noteq> None"
proof (induction n arbitrary: off)
  case (Suc n)
  then have "off + 8 \<le> length b" by simp
  from ldr_sym_check_total[OF assms(1) this assms(2,3)] obtain r where
    "ldr_sym_check b cb offStr cbStr off = Some r" by blast
  with Suc.IH[of "off + 8"] Suc.prems show ?case by auto
qed simp

text \<open>The 32 bit sum in the check of the string table does not wrap in a buffer of at most 16 MB.\<close>

lemma strtab_inside:
  fixes cb :: u32
  assumes "unat cb \<le> 0x1000000" "cbStr \<noteq> 0" "cbStr = 0 \<or> offStr < cb \<and> offStr + cbStr \<le> cb \<and> cbStr \<le> cb"
  shows "unat offStr + unat cbStr \<le> unat cb"
proof -
  from assms(2,3) have "unat offStr < unat cb" "unat cbStr \<le> unat cb" "unat (offStr + cbStr) \<le> unat cb"
    by (auto simp: word_less_nat_alt word_le_nat_alt)
  with assms(1) sum32_exact[of offStr cbStr] show ?thesis by simp
qed

lemma ldr_load_checks_ok:
  assumes b: "length b \<le> 0x1000000" and req: "ldr_load_req b = Some req" and cb: "108 + unat (ll_cbImageWithTabs req) \<le> length b"
    and ep: "VMMR0_At_Base \<in> K \<longrightarrow> rd32 b 80 = Some 1 \<longrightarrow> rd64 b 40 = rd64 b 72"
    and syms: "ll_cSymbols req = 0 \<or> ll_offSymbols req < ll_cbImageWithTabs req \<and>
        unat (ll_offSymbols req) + unat (ll_cSymbols req) * 8 \<le> unat (ll_cbImageWithTabs req)"
    and strs: "ll_cbStrTab req = 0 \<or> ll_offStrTab req < ll_cbImageWithTabs req \<and>
        ll_offStrTab req + ll_cbStrTab req \<le> ll_cbImageWithTabs req \<and> ll_cbStrTab req \<le> ll_cbImageWithTabs req"
  shows "ldrLoadOk K req"
  using strtab_inside[OF _ _ strs] b cb syms ldr_load_reqD(2,3)[OF req] ep unfolding ldrLoadOk_def by auto

lemma image_handlers_good:
  assumes st: "drv_ok K a s s" and sz: "sizes_ok n b" and ss: "sessions s a = Some ss" and env: "io_env_ok K env b s"
  shows "io_good (drv_ok K a s) n (ioctl_LDR_OPEN env a b s)" "io_good (drv_ok K a s) n (ioctl_LDR_FREE env a b s)"
    "io_good (drv_ok K a s) n (ioctl_LDR_GET_SYMBOL env a b s)" "io_good (drv_ok K a s) n (ioctl_LDR_LOAD env a b s)"
proof -
  note L = sizes_okD[OF sz]
  have inv: "drv_inv K s" using st by (simp add: drv_ok_def)
  note R = good_cbIn[OF sz] io_rules store_rules st sz
  have op: "ldrOpenOk a nm cbTabs cbBits (io_ldr env) s" if "cbBits < cbTabs" for nm cbTabs cbBits
    using env that ss by (auto simp: ldrOpenOk_def io_env_ok_def)
  show "io_good (drv_ok K a s) n (ioctl_LDR_OPEN env a b s)"
    unfolding ioctl_LDR_OPEN_def
    by (intro R good_op[OF st LdrOpen_drv[OF inv op]]; use L in auto)
  show "io_good (drv_ok K a s) n (ioctl_LDR_FREE env a b s)"
    unfolding ioctl_LDR_FREE_def by (intro R good_op[OF st LdrFree_drv[OF inv ss]]; use L in auto)
  have "\<exists>v. supdrvIOCtl_LdrGetSymbol a pv sym s = Some v" for pv sym
    using LdrGetSymbol_ok[OF drv_inv_ldr[OF inv] ss, of pv sym] by blast
  then show "io_good (drv_ok K a s) n (ioctl_LDR_GET_SYMBOL env a b s)"
    unfolding ioctl_LDR_GET_SYMBOL_def by (intro R good_total[of "supdrvIOCtl_LdrGetSymbol _ _ _ _"]; use L in auto)
  show "io_good (drv_ok K a s) n (ioctl_LDR_LOAD env a b s)"
    unfolding ioctl_LDR_LOAD_def Let_def
  proof (intro R, goal_cases)
    case c: (4 cbIn cb)
    show ?case
    proof (rule good_total[OF ldr_load_req_total], goal_cases)
      case (4 req)
      then have cb: "ll_cbImageWithTabs req = cb" using ldr_load_reqD(1)[OF 4(1)] c(4) by simp
      from 4 L c have f: "108 + unat cb \<le> length b" "length b \<le> 0x1000000" by simp_all
      have ep: "VMMR0_At_Base \<in> K \<longrightarrow> rd32 b 80 = Some 1 \<longrightarrow> rd64 b 40 = rd64 b 72" using env by (simp add: io_env_ok_def)
      note ok = ldr_load_checks_ok[OF f(2) 4(1) _ ep, unfolded cb]
      show ?case
        by (intro io_rules good_total[of "ldr_syms_check _ _ _ _ _ _"] ldr_syms_check_total[unfolded not_None_eq]
            good_op[OF st LdrLoad_drv[OF inv ss ok]]; use L f st in auto)
    qed (use c L in auto)
  qed (use L in auto)
qed

text \<open>The calls.\<close>

lemma stores_pkt [store_rules]: "length b = n \<Longrightarrow> off + m \<le> n \<Longrightarrow> stores n (pkt_update f off m b)"
  by (simp add: pkt_update_def bytes_at_def stores_def put_bytes_def)

lemma good_pkt:
  "length b = n \<Longrightarrow> off + m \<le> n \<Longrightarrow> (\<And>b'. length b' = n \<Longrightarrow> io_good P n (k b')) \<Longrightarrow> io_good P n (pkt_update f off m b \<bind> k)"
  by (blast intro: good_store stores_pkt)

lemma good_pkt_check:
  assumes sz: "sizes_ok n b" and st: "P s"
    and k: "\<And>cbReq. off + unat cbReq \<le> n \<Longrightarrow> io_good P n (k cbReq)"
  shows "io_good P n (pkt_check off uMagic b s k)"
  unfolding pkt_check_def by (intro good_cbIn[OF sz] io_rules st sz k; use sizes_okD[OF sz] in auto)

lemma call_handlers_good:
  assumes st: "drv_ok K a s s" and sz: "sizes_ok n b" and ss: "sessions s a = Some ss"
  shows "io_good (drv_ok K a s) n (ioctl_CALL_VMMR0 env a b s)" "io_good (drv_ok K a s) n (ioctl_CALL_VMMR0_BIG env a b s)"
    "io_good (drv_ok K a s) n (ioctl_CALL_SERVICE env a b s)"
proof -
  note L = sizes_okD[OF sz]
  have inv: "drv_inv K s" using st by (simp add: drv_ok_def)
  note R = good_cbIn[OF sz] io_rules st sz
  have lg: "drv_ok K a s (log_call c s)" for c using log_call_drv[OF inv ss] by (simp add: drv_ok_def)
  have vm: "io_good (drv_ok K a s) n (call_VMMR0 env a p m b s)" if "48 + m \<le> n" for p m
    unfolding call_VMMR0_def by (intro R lg good_pkt; use that L in auto)
  then show "io_good (drv_ok K a s) n (ioctl_CALL_VMMR0 env a b s)" "io_good (drv_ok K a s) n (ioctl_CALL_VMMR0_BIG env a b s)"
    unfolding ioctl_CALL_VMMR0_def ioctl_CALL_VMMR0_BIG_def by (intro R good_pkt_check vm; use L in auto)+
  have sv: "io_good (drv_ok K a s) n (call_service env a m b s)" if "64 + m \<le> n" for m
    unfolding call_service_def by (intro R good_op[OF st CallService_drv[OF inv ss]] store_rules; use that L in auto)
  then show "io_good (drv_ok K a s) n (ioctl_CALL_SERVICE env a b s)"
    unfolding ioctl_CALL_SERVICE_def by (intro R good_pkt_check sv; use L in auto)
qed

text \<open>The GIP, the VM and the semaphores.\<close>

lemma gip_vm_handlers_good:
  assumes st: "drv_ok K a s s" and sz: "sizes_ok n b" and ss: "sessions s a = Some ss" and env: "io_env_ok K env b s"
  shows "io_good (drv_ok K a s) n (ioctl_GIP_MAP env a b s)" "io_good (drv_ok K a s) n (ioctl_GIP_UNMAP env a b s)"
    "io_good (drv_ok K a s) n (ioctl_SET_VM_FOR_FAST env a b s)"
proof -
  note L = sizes_okD[OF sz]
  note D = io_env_okD[OF env]
  have inv: "drv_inv K s" using st by (simp add: drv_ok_def)
  note R = io_rules store_rules st sz good_session[OF ss]
  show "io_good (drv_ok K a s) n (ioctl_GIP_MAP env a b s)"
    unfolding ioctl_GIP_MAP_def by (intro R good_op[OF st GipMap_drv[OF inv ss D(2)]]; use L in auto)
  show "io_good (drv_ok K a s) n (ioctl_GIP_UNMAP env a b s)"
    unfolding ioctl_GIP_UNMAP_def by (intro R good_op[OF st GipUnmap_drv[OF inv ss D(3)]]; use L in auto)
  have "drv_ok K a s (put_session a (ss\<lparr>s_pVM := pVM\<rparr>) s)" for pVM using SetVM_drv[OF inv ss] by (simp add: drv_ok_def)
  then show "io_good (drv_ok K a s) n (ioctl_SET_VM_FOR_FAST env a b s)"
    unfolding ioctl_SET_VM_FOR_FAST_def by (intro R; use L in auto)
qed

lemma sem_op2_drv:
  assumes inv: "drv_inv K s" and a: "sessions s a \<noteq> None" and m: "counters_ok s"
  shows "\<exists>r t. sem_op2_event uOp a h uArg env s = Some (r, t) \<and> drv_inv K t \<and> own a s t"
    "\<exists>r t. sem_op2_multi uOp a h uArg env s = Some (r, t) \<and> drv_inv K t \<and> own a s t"
  unfolding sem_op2_event_def sem_op2_multi_def SUPSemEventClose_def SUPSemEventSignal_def supR0SemEventWaitEx_def
    SUPSemEventWaitNoResume_def SUPSemEventWaitNsAbsIntr_def SUPSemEventWaitNsRelIntr_def SUPSemEventMultiClose_def
    SUPSemEventMultiSignal_def SUPSemEventMultiReset_def supR0SemEventMultiWaitEx_def SUPSemEventMultiWaitNoResume_def
    SUPSemEventMultiWaitNsAbsIntr_def SUPSemEventMultiWaitNsRelIntr_def
  using sem_op_drv[OF assms] sem_close_drv[OF assms] own_refl[of s a _ s] inv a by auto

lemma sem_handlers_good:
  assumes st: "drv_ok K a s s" and sz: "sizes_ok n b" and ss: "sessions s a = Some ss" and env: "io_env_ok K env b s"
  shows "io_good (drv_ok K a s) n (ioctl_SEM_OP2 env a b s)" "io_good (drv_ok K a s) n (ioctl_SEM_OP3 env a b s)"
proof -
  note L = sizes_okD[OF sz]
  note D = io_env_okD[OF env]
  have inv: "drv_inv K s" and a: "sessions s a \<noteq> None" using st ss by (simp_all add: drv_ok_def)
  note R = io_rules store_rules st sz
  note S = sem_op2_drv[OF inv a D(4)]
  have op2: "\<exists>r t. (if u = 0 then sem_op2_event uOp a h uArg e s else if u = 1 then sem_op2_multi uOp a h uArg e s
      else Some (VERR_INVALID_PARAMETER, s)) = Some (r, t) \<and> drv_inv K t \<and> own a s t" for u uOp h uArg e
    using S inv st by (simp add: drv_ok_def)
  show "io_good (drv_ok K a s) n (ioctl_SEM_OP2 env a b s)"
    unfolding ioctl_SEM_OP2_def by (intro R good_op[OF st op2]; use L in auto)
  have cr: "io_good (drv_ok K a s) n (sem_op3_create f env a b s)" if "f = sem_create k" "28 \<le> n" for f k
    unfolding sem_op3_create_def that(1)
    by (intro R good_op[OF st sem_create_drv[OF inv a D(5,6)]]; use L that in auto)
  then have cr2: "io_good (drv_ok K a s) n (sem_op3_create (if u then SUPSemEventCreate else SUPSemEventMultiCreate) env a b s)" if "28 \<le> n" for u
    using that by (simp add: SUPSemEventCreate_def SUPSemEventMultiCreate_def)
  show "io_good (drv_ok K a s) n (ioctl_SEM_OP3 env a b s)"
    unfolding ioctl_SEM_OP3_def by (intro R cr2; use L in auto)
qed

section \<open>The dispatcher\<close>

lemma ioctl_cases_good:
  assumes st: "drv_ok K a s s" and sz: "sizes_ok n b" and ss: "sessions s a = Some ss" and env: "io_env_ok K env b s"
    and h: "h \<in> snd ` set (ioctl_cases env)"
  shows "io_good (drv_ok K a s) n (h env a b s)"
proof -
  note all = simple_handlers_good[OF st sz ss] memory_handlers_good[OF st sz ss env] image_handlers_good[OF st sz ss env]
    call_handlers_good[OF st sz ss] gip_vm_handlers_good[OF st sz ss env] sem_handlers_good[OF st sz ss env]
  from h show ?thesis unfolding ioctl_cases_def by (auto intro: all)
qed

lemma switch_good:
  assumes "length b = n" "P s" "\<And>h. h \<in> snd ` set cases \<Longrightarrow> io_good P n (h env a b s)"
  shows "io_good P n (ioctl_switch cases uIOCtl env a b s)"
proof (cases "map_of cases (SUP_CTL_CODE_NO_SIZE uIOCtl)")
  case (Some h)
  then have "h \<in> snd ` set cases" by (force dest: map_of_SomeD)
  with Some assms(3) show ?thesis by (simp add: ioctl_switch_def)
qed (simp add: ioctl_switch_def good_result[where P = P, OF assms(1,2)])

lemma ioctl_good:
  assumes inv: "drv_inv K s" and ss: "sessions s a = Some ss" and sz: "sizes_ok n b" and env: "io_env_ok K env b s"
  shows "io_good (drv_ok K a s) n (supdrvIOCtl uIOCtl env a b s)"
proof -
  have st: "drv_ok K a s s" using inv own_refl[OF ss] by (simp add: drv_ok_def)
  note all = simple_handlers_good[OF st sz ss] ioctl_cases_good[OF st sz ss env]
  have u: "io_good (drv_ok K a s) n (supdrvIOCtlInnerUnrestricted uIOCtl env a b s)"
    unfolding supdrvIOCtlInnerUnrestricted_def by (intro switch_good st all(14) sizes_okD[OF sz])
  have r: "io_good (drv_ok K a s) n (supdrvIOCtlInnerRestricted uIOCtl env a b s)"
    unfolding supdrvIOCtlInnerRestricted_def by (intro switch_good st sizes_okD[OF sz]) (auto intro: all)
  show ?thesis
    unfolding supdrvIOCtl_def
    by (intro io_rules good_session[OF ss] u r st; use sizes_okD[OF sz] in auto)
qed


section \<open>What requests may do\<close>

lemma restricted_unchanged:
  assumes "sessions s a = Some ss" "\<not> s_fUnrestricted ss" "supdrvIOCtl uIOCtl env a b s = Some (r, b', t)"
  shows "t = s"
proof -
  have ret: "t = s" if "io_ret q c s = Some (r, b', t)" for q c using that by (auto simp: io_ret_def split: Option.bind_splits)
  have out: "t = s" if "io_ret_out q c s = Some (r, b', t)" for q c using that by (auto simp: io_ret_out_def split: Option.bind_splits)
  have fl: "t = s" if "io_fail c s = Some (r, b', t)" for c using that by (auto simp: io_fail_def split: Option.bind_splits)
  have ck: "t = s" if "ioctl_COOKIE 0 env a b s = Some (r, b', t)"
    using that unfolding ioctl_COOKIE_def REQ_CHECK_SIZES_EX_def REQ_CHECK_SIZE_IN_def REQ_CHECK_SIZE_OUT_def REQ_CHECK_EXPR_def
    by (auto split: Option.bind_splits if_splits dest: ret fl)
  have vt: "t = s" if "ioctl_VT_CAPS env a b s = Some (r, b', t)"
    using that unfolding ioctl_VT_CAPS_def REQ_CHECK_SIZES_EX_def REQ_CHECK_SIZE_IN_def REQ_CHECK_SIZE_OUT_def REQ_CHECK_EXPR_def
    by (auto split: Option.bind_splits if_splits prod.splits dest: out fl)
  have "t = s" if "supdrvIOCtlInnerRestricted uIOCtl env a b s = Some (r, b', t)"
    using that ck vt unfolding supdrvIOCtlInnerRestricted_def ioctl_switch_def by (auto split: if_splits)
  then show ?thesis
    using assms unfolding supdrvIOCtl_def by (auto split: Option.bind_splits if_splits)
qed

text \<open>C35: A session of the restricted device changes nothing: of all requests it is answered two, the
  version query and the query of the virtualisation capabilities, and neither changes the driver.\<close>

theorem ioctl_restricted_changes_nothing:
  assumes "sessions s a = Some ss" "\<not> s_fUnrestricted ss" "supdrvIOCtl uIOCtl env a b s = Some (r, b', t)"
  shows "t = s \<and> (SUP_CTL_CODE_NO_SIZE uIOCtl \<notin> {SUP_CTL_CODE_SIZE 1 0, SUP_CTL_CODE_SIZE 26 0} \<longrightarrow> b' = b \<and> r \<noteq> VINF_SUCCESS)"
proof -
  have "b' = b \<and> r \<noteq> VINF_SUCCESS" if "supdrvIOCtlInnerRestricted uIOCtl env a b s = Some (r, b', t)"
    "SUP_CTL_CODE_NO_SIZE uIOCtl \<notin> {SUP_CTL_CODE_SIZE 1 0, SUP_CTL_CODE_SIZE 26 0}"
    using that unfolding supdrvIOCtlInnerRestricted_def ioctl_switch_def by auto
  with restricted_unchanged[OF assms] show ?thesis
    using assms unfolding supdrvIOCtl_def by (auto split: Option.bind_splits if_splits)
qed

text \<open>A request that does not prove that it may be made changes nothing and is refused with the same
  status, without a write to its buffer: one with a bad header, with sizes below the header's, or,
  the version query apart, with cookies that are not those of the driver and of the session.\<close>

theorem ioctl_bad_cookies_rejected:
  assumes "sessions s a = Some ss" "rd32 b OFF_u32Cookie = Some ck" "rd32 b OFF_u32SessionCookie = Some sck"
    "rd32 b OFF_cbIn = Some cbIn" "rd32 b OFF_cbOut = Some cbOut" "rd32 b OFF_fFlags = Some fFlags"
    "fFlags AND 0xff0000ff \<noteq> 0x42000042 \<or> cbIn < 24 \<or> cbOut < 24 \<or> \<not> RT_VALID_PTR a \<or>
     (if uIOCtl = SUP_IOCTL_COOKIE then ck \<noteq> SUPCOOKIE_INITIAL_COOKIE
      else ck \<noteq> d_u32Cookie (devext s) \<or> sck \<noteq> s_u32Cookie ss)"
  shows "supdrvIOCtl uIOCtl env a b s = Some (VERR_INVALID_PARAMETER, b, s)"
  using assms(7) by (auto simp: supdrvIOCtl_def assms(1-6) word_less_nat_alt split: if_splits)

text \<open>C36: The version query hands out exactly the cookies that later requests are asked for: after a query
  that succeeded, a request of the session that carries the two cookies from the answer is dispatched,
  to the cases of the session's device.\<close>

theorem ioctl_cookie_roundtrip:
  assumes ss: "sessions s a = Some ss" and v: "RT_VALID_PTR a" and ok: "ioctl_COOKIE cFunctions env a b s = Some (0, b', s)" "rd32 b' OFF_rc = Some 0"
    and req: "uIOCtl \<noteq> SUP_IOCTL_COOKIE" "rd32 c OFF_u32Cookie = rd32 b' 24" "rd32 c OFF_u32SessionCookie = rd32 b' 28"
      "rd32 c OFF_cbIn = Some cbIn" "rd32 c OFF_cbOut = Some cbOut" "rd32 c OFF_fFlags = Some fFlags"
      "24 \<le> cbIn" "24 \<le> cbOut" "fFlags AND 0xff0000ff = 0x42000042"
  shows "supdrvIOCtl uIOCtl env a c s = (if s_fUnrestricted ss then supdrvIOCtlInnerUnrestricted uIOCtl env a c s
    else supdrvIOCtlInnerRestricted uIOCtl env a c s)"
proof -
  have ne: "\<not> (io_ret q c0 s = Some (0, b', s))" if "q \<in> {VERR_INVALID_MAGIC, VERR_VERSION_MISMATCH}" for q c0
    using that ok(2) by (auto simp: io_ret_def split: Option.bind_splits dest!: rd32_wr32)
  obtain b1 where c: "cookie_out b (d_u32Cookie (devext s)) (s_u32Cookie ss) SUPDRV_IOC_VERSION SUPDRV_IOC_VERSION cFunctions a = Some b1"
    "io_ret VINF_SUCCESS b1 s = Some (0, b', s)"
    using ok(1) ne unfolding ioctl_COOKIE_def REQ_CHECK_SIZES_EX_def REQ_CHECK_SIZE_IN_def REQ_CHECK_SIZE_OUT_def REQ_CHECK_EXPR_def
    by (auto simp: ss io_fail_def split: Option.bind_splits if_splits)
  have "rd32 b1 24 = Some (d_u32Cookie (devext s)) \<and> rd32 b1 28 = Some (s_u32Cookie ss)"
    using c(1) by (auto simp: cookie_out_def rd32_wr_other rd32_wr32 split: Option.bind_splits)
  moreover have "rd32 b' o1 = rd32 b1 o1" if "24 \<le> o1" for o1
    using c(2) that by (auto simp: io_ret_def rd32_wr_other split: Option.bind_splits)
  ultimately have "rd32 c OFF_u32Cookie = Some (d_u32Cookie (devext s))" "rd32 c OFF_u32SessionCookie = Some (s_u32Cookie ss)"
    using req(2,3) by simp_all
  with v ss req(1,4-9) show ?thesis by (simp add: supdrvIOCtl_def word_le_nat_alt)
qed

text \<open>The fast path enters the virtual machine monitor exactly for the three fast codes, from a session
  that has set a virtual machine, while an entry point is installed; it then makes that one call, with
  that machine, and nothing else happens.  In every other case it refuses and changes nothing.\<close>

theorem ioctl_fast_enters_iff:
  assumes "sessions s a = Some ss" "RT_VALID_PTR a"
  shows "supdrvIOCtlFast uIOCtl idCpu a s =
    (if s_pVM ss \<noteq> 0 \<and> d_pfnVMMR0EntryFast (devext s) \<noteq> 0 \<and> uIOCtl \<in> SUP_CTL_CODE_BIG ` {64, 65, 66}
     then Some (VINF_SUCCESS, log_call (Call_EntryFast (d_pfnVMMR0EntryFast (devext s)) (s_pVM ss) idCpu
       (ucast (uIOCtl - SUP_IOCTL_FAST_DO_RAW_RUN))) s)
     else Some (VERR_INTERNAL_ERROR, s))"
  using assms by (auto simp: supdrvIOCtlFast_def Let_def SUP_CTL_CODE_BIG_def)

lemma str_end_terminated: "str_end b off n = Some True \<Longrightarrow> 0 \<in> set (take n (drop off b))"
  by (auto simp: str_end_def in_set_conv_nth dest!: RTStrEnd_Some)

lemma ldr_sym_checkD:
  assumes "ldr_sym_check b cb offStr cbStr off = Some True"
  shows "\<exists>nm sy. rd32 b off = Some nm \<and> rd32 b (off + 4) = Some sy \<and> sy < cb \<and> nm < cbStr \<and>
    0 \<in> set (take (unat (cbStr - nm)) (drop (108 + unat (offStr + nm)) b))"
  using assms unfolding ldr_sym_check_def
  by (auto split: Option.bind_splits if_splits dest!: str_end_terminated)

lemma ldr_syms_checkD:
  assumes "ldr_syms_check b cb offStr cbStr off n = Some True" "i < n"
  shows "ldr_sym_check b cb offStr cbStr (off + 8 * i) = Some True"
  using assms
proof (induction n arbitrary: off i)
  case (Suc n)
  then have "ldr_sym_check b cb offStr cbStr off = Some True" "ldr_syms_check b cb offStr cbStr (off + 8) n = Some True"
    by (auto split: Option.bind_splits if_splits)
  with Suc.IH[of "off + 8" "i - 1"] Suc.prems(2) show ?case by (cases i) (simp_all add: algebra_simps)
qed simp

text \<open>Nothing of a load request reaches the loader unchecked: when the request had any effect, its image
  bits, its symbol table and its string table lie inside of the buffer, every symbol lies inside of the
  image, and every symbol name starts and ends inside of the string table.\<close>

theorem ldr_load_request_checked:
  assumes "ioctl_LDR_LOAD env a b s = Some (r, b', t)" "t \<noteq> s" "length b \<le> 0x1000000"
    and sz: "\<And>cbIn. rd32 b OFF_cbIn = Some cbIn \<Longrightarrow> unat cbIn \<le> length b"
  shows "\<exists>req. ldr_load_req b = Some req \<and> 108 + unat (ll_cbImageWithTabs req) \<le> length b \<and>
    (ll_cSymbols req \<noteq> 0 \<longrightarrow> unat (ll_offSymbols req) + 8 * unat (ll_cSymbols req) \<le> unat (ll_cbImageWithTabs req)) \<and>
    (ll_cbStrTab req \<noteq> 0 \<longrightarrow> unat (ll_offStrTab req) + unat (ll_cbStrTab req) \<le> unat (ll_cbImageWithTabs req)) \<and>
    (\<forall>i < unat (ll_cSymbols req). \<exists>nm sy. rd32 b (108 + unat (ll_offSymbols req) + 8 * i) = Some nm \<and>
       rd32 b (108 + unat (ll_offSymbols req) + 8 * i + 4) = Some sy \<and> sy < ll_cbImageWithTabs req \<and> nm < ll_cbStrTab req \<and>
       0 \<in> set (take (unat (ll_cbStrTab req - nm)) (drop (108 + unat (ll_offStrTab req) + unat nm) b)))"
proof -
  have fl: "t = s" if "io_fail c s = Some (r, b', t)" for c using that by (auto simp: io_fail_def split: Option.bind_splits)
  from assms(1,2) obtain cb req where q: "rd32 b 104 = Some cb" "ldr_load_req b = Some req"
    "\<exists>cbIn. rd32 b OFF_cbIn = Some cbIn \<and> unat cbIn = 108 + unat cb"
    "ll_cSymbols req = 0 \<or> ll_offSymbols req < cb \<and> unat (ll_offSymbols req) + unat (ll_cSymbols req) * 8 \<le> unat cb"
    "ll_cbStrTab req = 0 \<or> ll_offStrTab req < cb \<and> ll_offStrTab req + ll_cbStrTab req \<le> cb \<and> ll_cbStrTab req \<le> cb"
    "ldr_syms_check b cb (ll_offStrTab req) (ll_cbStrTab req) (108 + unat (ll_offSymbols req)) (unat (ll_cSymbols req)) = Some True"
    unfolding ioctl_LDR_LOAD_def REQ_CHECK_SIZES_EX_def REQ_CHECK_SIZE_IN_def REQ_CHECK_SIZE_OUT_def REQ_CHECK_EXPR_def Let_def
    by (auto split: Option.bind_splits if_splits dest: fl)
  have cb: "ll_cbImageWithTabs req = cb" using ldr_load_reqD(1)[OF q(2)] q(1) by simp
  have len: "108 + unat cb \<le> length b" using q(3) sz by auto
  have str: "unat (ll_offStrTab req) + unat (ll_cbStrTab req) \<le> unat cb" if "ll_cbStrTab req \<noteq> 0"
    using strtab_inside[OF _ that q(5)] len assms(3) by simp
  have sym: "\<exists>nm sy. rd32 b (108 + unat (ll_offSymbols req) + 8 * i) = Some nm \<and>
       rd32 b (108 + unat (ll_offSymbols req) + 8 * i + 4) = Some sy \<and> sy < cb \<and> nm < ll_cbStrTab req \<and>
       0 \<in> set (take (unat (ll_cbStrTab req - nm)) (drop (108 + unat (ll_offStrTab req) + unat nm) b))"
    if "i < unat (ll_cSymbols req)" for i
  proof -
    from ldr_sym_checkD[OF ldr_syms_checkD[OF q(6) that]] obtain nm sy where
      r: "rd32 b (108 + unat (ll_offSymbols req) + 8 * i) = Some nm" "rd32 b (108 + unat (ll_offSymbols req) + 8 * i + 4) = Some sy"
        "sy < cb" "nm < ll_cbStrTab req"
        "0 \<in> set (take (unat (ll_cbStrTab req - nm)) (drop (108 + unat (ll_offStrTab req + nm)) b))" by blast
    then have "ll_cbStrTab req \<noteq> 0" "unat nm < unat (ll_cbStrTab req)" by (auto simp: word_less_nat_alt)
    with str len assms(3) have "unat (ll_offStrTab req + nm) = unat (ll_offStrTab req) + unat nm" by (intro sum32_exact) auto
    with r show ?thesis by (simp add: add.assoc)
  qed
  have "ll_cSymbols req \<noteq> 0 \<longrightarrow> unat (ll_offSymbols req) + 8 * unat (ll_cSymbols req) \<le> unat cb" using q(4) by auto
  with q(2) len str sym show ?thesis by (intro exI[of _ req]) (simp add: cb)
qed

section \<open>Witnesses\<close>

definition ioctlenv0 :: ioctlenv where
  "ioctlenv0 = \<lparr>io_pReq = 0x60000, io_mem = env0\<lparr>e_hAlloc := 0xC000\<rparr>, io_ldr = ldrenv0, io_gip = gipenv0, io_rcStop = 0,
     io_sem = semenv0, io_phEvent = 0x61000, io_cpu = cpu_amd, io_aFunctions = [], io_rcEntryEx = 0, io_pkt = (\<lambda>_ x. x),
     io_cNsResolution = 1000000, io_rcTracer = VERR_NOT_IMPLEMENTED, io_iTracerRet = 0, io_rcLogger = 0\<rparr>"

text \<open>A header with the cookies of the driver and the session, a request for freeing pages, a version query
  and its answer, and a load request.\<close>

definition hdr_buf :: "u32 \<Rightarrow> u32 \<Rightarrow> reqbuf" where
  "hdr_buf cbIn cbOut = le_bytes 4 BIRD @ le_bytes 4 BIRD_INV @ le_bytes 4 cbIn @ le_bytes 4 cbOut @
     le_bytes 4 (0x42000042 :: u32) @ le_bytes 4 (0 :: u32)"

definition page_free_buf :: reqbuf where
  "page_free_buf = hdr_buf 32 24 @ le_bytes 8 (0x7f0000000000 :: u64)"

definition cookie_buf :: reqbuf where
  "cookie_buf = le_bytes 4 SUPCOOKIE_INITIAL_COOKIE @ le_bytes 4 (0 :: u32) @ le_bytes 4 (48 :: u32) @ le_bytes 4 (56 :: u32) @
     le_bytes 4 (0x42000042 :: u32) @ le_bytes 4 (0 :: u32) @ SUPCOOKIE_MAGIC @ le_bytes 4 SUPDRV_IOC_VERSION @
     le_bytes 4 (0x1a0000 :: u32) @ replicate 8 0"

definition cookie_ans :: reqbuf where
  "cookie_ans = le_bytes 4 SUPCOOKIE_INITIAL_COOKIE @ le_bytes 4 (0 :: u32) @ le_bytes 4 (48 :: u32) @ le_bytes 4 (56 :: u32) @
     le_bytes 4 (0x42000042 :: u32) @ le_bytes 4 (0 :: u32) @ le_bytes 4 BIRD @ le_bytes 4 BIRD_INV @ le_bytes 4 SUPDRV_IOC_VERSION @
     le_bytes 4 SUPDRV_IOC_VERSION @ le_bytes 4 (7 :: u32) @ le_bytes 4 (0x1a0000 :: u32) @ le_bytes 8 (0x10000 :: u64)"

definition load_buf :: reqbuf where
  "load_buf = hdr_buf 136 24 @ le_bytes 8 (0 :: u64) @ le_bytes 8 (0x40008 :: u64) @ replicate 32 0 @ le_bytes 8 (0x40000 :: u64) @
     le_bytes 4 (0 :: u32) @ le_bytes 4 (16 :: u32) @ le_bytes 4 (16 :: u32) @ le_bytes 4 (1 :: u32) @ le_bytes 4 (24 :: u32) @
     le_bytes 4 (4 :: u32) @ le_bytes 4 (28 :: u32) @ ll_abImage load0"

lemma page_free_buf_eval:
  "length page_free_buf = 32 \<and> rd32 page_free_buf 0 = Some BIRD \<and> rd32 page_free_buf 4 = Some BIRD_INV \<and>
   rd32 page_free_buf 8 = Some 32 \<and> rd32 page_free_buf 12 = Some 24 \<and> rd32 page_free_buf 16 = Some 0x42000042 \<and> rd32 page_free_buf 80 = None"
  by code_simp

lemma cookie_buf_eval:
  "length cookie_buf = 56 \<and> rd32 cookie_buf 0 = Some SUPCOOKIE_INITIAL_COOKIE \<and> rd32 cookie_buf 8 = Some 48 \<and>
   rd32 cookie_buf 12 = Some 56 \<and> rd32 cookie_buf 16 = Some 0x42000042 \<and> rd32 cookie_buf 44 = Some 0x1a0000 \<and>
   bytes_at cookie_buf 24 16 = Some SUPCOOKIE_MAGIC"
  by code_simp

lemma cookie_ans_eval:
  "(do { b1 \<leftarrow> cookie_out cookie_buf BIRD BIRD_INV SUPDRV_IOC_VERSION SUPDRV_IOC_VERSION 7 0x10000; wr32 b1 20 0 }) = Some cookie_ans"
  "rd32 cookie_ans 20 = Some 0 \<and> rd32 cookie_ans 24 = Some BIRD \<and> rd32 cookie_ans 28 = Some BIRD_INV"
  by code_simp+

lemma load_buf_eval:
  "ldr_load_req load_buf = Some load0" "ldr_syms_check load_buf 28 24 4 124 1 = Some True"
  "length load_buf = 136 \<and> rd32 load_buf 8 = Some 136 \<and> rd32 load_buf 12 = Some 24 \<and> rd32 load_buf 104 = Some 28 \<and>
   rd32 load_buf 124 = Some 0 \<and> rd32 load_buf 128 = Some 4"
  by code_simp+

lemma io_env_ok_full: "rd32 b 80 = None \<Longrightarrow> io_env_ok K ioctlenv0 b (driver_full t)"
proof -
  have "env_ok (env0\<lparr>e_hAlloc := 0xC000\<rparr>) (driver_full t)" by (simp add: env_ok_def env0_def RT_VALID_PTR_def)
  moreover have "gipenv_ok gipenv0 (driver_full t)" by (simp add: gipenv_ok_def gipenv0_def RT_VALID_PTR_def devext0_def)
  moreover assume "rd32 b 80 = None"
  ultimately show ?thesis
    by (auto simp: io_env_ok_def ioctlenv0_def RT_VALID_PTR_def fresh_obj_def semenv0_def RTHT_IS_FREE_def counters_ok_def ldrenv0_def img_acct_def
        split: if_splits)
qed


text \<open>The session of the restricted device; the pages it asks to free are not freed.\<close>

definition driver_r :: supdrv where
  "driver_r = driver0\<lparr>sessions := [0x10000 \<mapsto> session0\<lparr>s_fUnrestricted := False\<rparr>]\<rparr>"

theorem ioctl_restricted_changes_nothing_witness:
  "supdrvIOCtl (SUP_CTL_CODE_SIZE 13 32) ioctlenv0 0x10000 page_free_buf driver_r = Some (VERR_GENERAL_FAILURE, page_free_buf, driver_r)"
proof -
  have s: "sessions driver_r 0x10000 = Some (session0\<lparr>s_fUnrestricted := False\<rparr>)" "devext driver_r = devext0" by (simp_all add: driver_r_def)
  have e: "supdrvIOCtl (SUP_CTL_CODE_SIZE 13 32) ioctlenv0 0x10000 page_free_buf driver_r = Some (VERR_GENERAL_FAILURE, page_free_buf, driver_r)"
    using page_free_buf_eval s
    by (simp add: supdrvIOCtl_def RT_VALID_PTR_def session0_def devext0_def SUP_CTL_CODE_SIZE_def SUP_CTL_CODE_NO_SIZE_def
        supdrvIOCtlInnerRestricted_def ioctl_switch_def)
  from ioctl_restricted_changes_nothing[OF s(1) _ e] e show ?thesis by simp
qed

theorem ioctl_bad_cookies_rejected_witness:
  "supdrvIOCtl (SUP_CTL_CODE_SIZE 13 32) ioctlenv0 0x10000 (cookie_buf) driver0 = Some (VERR_INVALID_PARAMETER, cookie_buf, driver0)"
proof -
  have s: "sessions driver0 0x10000 = Some session0" by simp
  have sck: "rd32 cookie_buf 4 = Some 0" by code_simp
  show ?thesis
    by (rule ioctl_bad_cookies_rejected[OF s _ sck]) (use cookie_buf_eval in \<open>simp_all add: devext0_def\<close>, simp add: SUP_CTL_CODE_SIZE_def)
qed

theorem ioctl_cookie_roundtrip_witness:
  "supdrvIOCtl (SUP_CTL_CODE_SIZE 13 32) ioctlenv0 0x10000 page_free_buf driver0 =
     supdrvIOCtlInnerUnrestricted (SUP_CTL_CODE_SIZE 13 32) ioctlenv0 0x10000 page_free_buf driver0"
proof -
  have s: "sessions driver0 0x10000 = Some session0" by simp
  have "ioctl_COOKIE 7 ioctlenv0 0x10000 cookie_buf driver0 = Some (0, cookie_ans, driver0)"
  proof -
    obtain b1 where "cookie_out cookie_buf BIRD BIRD_INV SUPDRV_IOC_VERSION SUPDRV_IOC_VERSION 7 0x10000 = Some b1" "wr32 b1 20 0 = Some cookie_ans"
      using cookie_ans_eval(1) by (auto split: Option.bind_splits)
    then show ?thesis
      using cookie_buf_eval by (simp add: ioctl_COOKIE_def REQ_CHECK_SIZES_EX_def REQ_CHECK_SIZE_IN_def REQ_CHECK_SIZE_OUT_def
          REQ_CHECK_EXPR_def io_ret_def session0_def devext0_def)
  qed
  note rt = ioctl_cookie_roundtrip[OF s _ this]
  show ?thesis
    by (rule rt[THEN trans]) (use page_free_buf_eval cookie_ans_eval(2) in \<open>simp_all add: RT_VALID_PTR_def SUP_CTL_CODE_SIZE_def session0_def\<close>, simp_all)
qed

theorem ioctl_fast_enters_iff_witness:
  "supdrvIOCtlFast SUP_IOCTL_FAST_DO_HM_RUN 3 0x10000
     (driver0\<lparr>devext := devext0\<lparr>d_pfnVMMR0EntryFast := 0x40100\<rparr>, sessions := [0x10000 \<mapsto> session0\<lparr>s_pVM := 0x70000\<rparr>]\<rparr>) =
   Some (VINF_SUCCESS, log_call (Call_EntryFast 0x40100 0x70000 3 1)
     (driver0\<lparr>devext := devext0\<lparr>d_pfnVMMR0EntryFast := 0x40100\<rparr>, sessions := [0x10000 \<mapsto> session0\<lparr>s_pVM := 0x70000\<rparr>]\<rparr>))"
  by (subst ioctl_fast_enters_iff[where ss = "session0\<lparr>s_pVM := 0x70000\<rparr>"]) (simp_all add: RT_VALID_PTR_def SUP_CTL_CODE_BIG_def)

theorem ldr_load_request_checked_witness:
  "\<exists>b' t. ioctl_LDR_LOAD ioctlenv0 0x10000 load_buf driver4 = Some (0, b', t) \<and> t \<noteq> driver4 \<and>
     (\<exists>nm sy. rd32 load_buf 124 = Some nm \<and> rd32 load_buf 128 = Some sy \<and> sy < 28 \<and> nm < 4)"
proof -
  obtain s' where r: "supdrvIOCtl_LdrLoad 0x10000 load0 ldrenv0 driver4 = Some (VINF_SUCCESS, s')"
      "imgs s' 0x30000 \<noteq> imgs driver4 0x30000"
    by (simp add: supdrvIOCtl_LdrLoad_def driver4_def img_open_def ldr_image_new_def load0_def ldrenv0_def
       ldrLoad_validate_def ldrLoad_validateEP_def supdrvLdrValidatePointer_def in_range_def
       ldrLoad_tables_def bytes_at_def ldrLoad_bits_def ldrLoad_entry_points_def ldrLoad_finish_def Let_def)
  then have ne: "s' \<noteq> driver4" by auto
  obtain b' where b: "wr32 load_buf 20 0 = Some b'" using wr_ok(1)[of 20 load_buf 0] load_buf_eval(3) by auto
  have e: "ioctl_LDR_LOAD ioctlenv0 0x10000 load_buf driver4 = Some (0, b', s')"
    using load_buf_eval r b
    by (simp add: ioctl_LDR_LOAD_def REQ_CHECK_SIZES_EX_def REQ_CHECK_SIZE_IN_def REQ_CHECK_SIZE_OUT_def REQ_CHECK_EXPR_def io_ret_def
        ioctlenv0_def load0_def)
  from ldr_load_request_checked[OF e ne] load_buf_eval obtain nm sy where
    "rd32 load_buf 124 = Some nm" "rd32 load_buf 128 = Some sy" "sy < 28" "nm < 4"
    by (force simp: load0_def)
  with e ne show ?thesis by blast
qed

end
