(* ===== verification/SupIdc.thy ===== *)
theory SupIdc
  imports SupIoctlSafe
begin

text \<open>
  Communication between drivers (\<open>supdrvIDC\<close>, and the Linux entry point \<open>SUPDrvLinuxIDC\<close>): another
  driver connects, which creates a kernel session, looks up symbols, registers component factories and
  disconnects.  A request is a buffer in the memory of the other driver, with the layout of
  \<open>SUPDrvIDC.h\<close>: size, status and session, then a union of the input and the output.
\<close>

section \<open>Requests\<close>

text \<open>
  What the operating system answers when a session is created or released and when a registration is
  allocated; the revision of the driver; its export table; and the strings of the other driver (without
  their terminators).
\<close>

record idcenv =
  id_sess :: sessenv
  id_mem :: memenv
  id_rcStop :: rc
  id_ldr :: ldrenv
  id_fAlloc :: bool
  id_uRevision :: u32
  id_aFunctions :: "(u8 list \<times> addr) list"
  id_str :: "addr \<Rightarrow> u8 list"

abbreviation "IDC_OFF_cb \<equiv> (0::nat)"
abbreviation "IDC_OFF_rc \<equiv> (4::nat)"
abbreviation "IDC_OFF_pSession \<equiv> (8::nat)"
abbreviation "IDC_OFF_u \<equiv> (16::nat)"

abbreviation "SUPDRV_IDC_VERSION \<equiv> (0x00010000::u32)"
abbreviation "SUPDRVIDCREQ_CONNECT_MAGIC_COOKIE \<equiv> (0x69726f74::u32)"

definition SUP_IDC_CODE :: "u64 \<Rightarrow> u64" where
  "SUP_IDC_CODE Function = 0xc0ffee00 OR (0xff AND Function)"

text \<open>\<open>return pReqHdr->rc = VERR_INVALID_PARAMETER\<close>, and \<open>REQ_CHECK_IDC_SIZE\<close>.\<close>

definition idc_fail :: "reqbuf \<Rightarrow> supdrv \<Rightarrow> io_res" where
  "idc_fail b s = do {
     b1 \<leftarrow> wr32 b IDC_OFF_rc (word_of_int VERR_INVALID_PARAMETER);
     Some (VERR_INVALID_PARAMETER, b1, s)
   }"

definition REQ_CHECK_IDC_SIZE :: "nat \<Rightarrow> reqbuf \<Rightarrow> supdrv \<Rightarrow> io_res \<Rightarrow> io_res" where
  "REQ_CHECK_IDC_SIZE cbExpect b s k = do {
     cb \<leftarrow> rd32 b IDC_OFF_cb;
     if unat cb \<noteq> cbExpect then idc_fail b s else k
   }"

definition connect_out :: "reqbuf \<Rightarrow> u32 \<Rightarrow> u32 \<Rightarrow> reqbuf option" where
  "connect_out b uSessionVersion uRevision = do {
     b1 \<leftarrow> wr64 b 16 0;
     b2 \<leftarrow> wr32 b1 24 uSessionVersion;
     b3 \<leftarrow> wr32 b2 28 SUPDRV_IDC_VERSION;
     wr32 b3 32 uRevision
   }"

text \<open>The new session is stored in the answer and in the header.\<close>

definition idc_connect_session :: "idcenv \<Rightarrow> addr \<Rightarrow> reqbuf \<Rightarrow> supdrv \<Rightarrow> io_res" where
  "idc_connect_session env pSession b s =
     (let ((rc, pp), s1) = supdrvCreateSession False True (id_sess env) s;
          pNew = (case pp of None \<Rightarrow> pSession | Some p \<Rightarrow> p)
      in do {
        b1 \<leftarrow> wr32 b IDC_OFF_rc (word_of_int rc);
        if RT_FAILURE rc then Some (VINF_SUCCESS, b1, s1)
        else do {
          b2 \<leftarrow> wr64 b1 16 pNew;
          b3 \<leftarrow> wr64 b2 IDC_OFF_pSession pNew;
          Some (VINF_SUCCESS, b3, s1)
        }
      })"

definition idc_CONNECT :: "idcenv \<Rightarrow> addr \<Rightarrow> reqbuf \<Rightarrow> supdrv \<Rightarrow> io_res" where
  "idc_CONNECT env pSession b s = REQ_CHECK_IDC_SIZE 40 b s (do {
     pHdrSession \<leftarrow> rd64 b IDC_OFF_pSession;
     u32MagicCookie \<leftarrow> rd32 b 16;
     uReqVersion \<leftarrow> rd32 b 20;
     uMinVersion \<leftarrow> rd32 b 24;
     if pHdrSession \<noteq> 0 then idc_fail b s
     else if u32MagicCookie \<noteq> SUPDRVIDCREQ_CONNECT_MAGIC_COOKIE then idc_fail b s
     else if uMinVersion > uReqVersion \<or> uMinVersion AND 0xffff0000 \<noteq> uReqVersion AND 0xffff0000 then idc_fail b s
     else if pSession \<noteq> 0 then idc_fail b s
     else if uMinVersion > SUPDRV_IDC_VERSION \<or> uMinVersion AND 0xffff0000 \<noteq> SUPDRV_IDC_VERSION AND 0xffff0000
     then do {
       b1 \<leftarrow> connect_out b 0xffffffff (id_uRevision env);
       b2 \<leftarrow> wr32 b1 IDC_OFF_rc (word_of_int VERR_VERSION_MISMATCH);
       Some (VINF_SUCCESS, b2, s)
     }
     else do {
       b1 \<leftarrow> connect_out b SUPDRV_IDC_VERSION (id_uRevision env);
       idc_connect_session env pSession b1 s
     }
   })"

definition idc_DISCONNECT :: "idcenv \<Rightarrow> addr \<Rightarrow> reqbuf \<Rightarrow> supdrv \<Rightarrow> io_res" where
  "idc_DISCONNECT env pSession b s = REQ_CHECK_IDC_SIZE 16 b s (do {
     (cRefs, s1) \<leftarrow> supdrvSessionRelease pSession (id_mem env) (id_rcStop env) s;
     b1 \<leftarrow> wr32 b IDC_OFF_rc (word_of_int VINF_SUCCESS);
     Some (VINF_SUCCESS, b1, s1)
   })"

text \<open>The status of the operation goes to the header; the call itself succeeds.\<close>

definition idc_ret :: "rc \<Rightarrow> reqbuf \<Rightarrow> supdrv \<Rightarrow> io_res" where
  "idc_ret rc b s = do { b1 \<leftarrow> wr32 b IDC_OFF_rc (word_of_int rc); Some (VINF_SUCCESS, b1, s) }"

definition idc_GET_SYMBOL :: "idcenv \<Rightarrow> addr \<Rightarrow> reqbuf \<Rightarrow> supdrv \<Rightarrow> io_res" where
  "idc_GET_SYMBOL env pSession b s = REQ_CHECK_IDC_SIZE 32 b s (do {
     pszModule \<leftarrow> rd64 b 16;
     pszSymbol \<leftarrow> rd64 b 24;
     ((rc, pfnSymbol), s1) \<leftarrow> supdrvIDC_LdrGetSymbol pSession pszModule (id_str env pszModule) pszSymbol (id_str env pszSymbol)
       (id_aFunctions env) (id_ldr env) s;
     b1 \<leftarrow> wr64 b 16 pfnSymbol;
     idc_ret rc b1 s1
   })"

definition idc_REGISTER_FACTORY :: "idcenv \<Rightarrow> addr \<Rightarrow> reqbuf \<Rightarrow> supdrv \<Rightarrow> io_res" where
  "idc_REGISTER_FACTORY env pSession b s = REQ_CHECK_IDC_SIZE 24 b s (do {
     pFactory \<leftarrow> rd64 b 16;
     (rc, s1) \<leftarrow> SUPR0ComponentRegisterFactory pSession pFactory (id_fAlloc env) s;
     idc_ret rc b s1
   })"

definition idc_DEREGISTER_FACTORY :: "idcenv \<Rightarrow> addr \<Rightarrow> reqbuf \<Rightarrow> supdrv \<Rightarrow> io_res" where
  "idc_DEREGISTER_FACTORY env pSession b s = REQ_CHECK_IDC_SIZE 24 b s (do {
     pFactory \<leftarrow> rd64 b 16;
     (rc, s1) \<leftarrow> SUPR0ComponentDeregisterFactory pSession pFactory s;
     idc_ret rc b s1
   })"

definition supdrvIDC :: "u64 \<Rightarrow> idcenv \<Rightarrow> addr \<Rightarrow> reqbuf \<Rightarrow> supdrv \<Rightarrow> io_res" where
  "supdrvIDC uReq env pSession b s = do {
     fUser \<leftarrow> (if pSession \<noteq> 0 then map_option (\<lambda>ss. s_R0Process ss \<noteq> NIL_RTR0PROCESS) (sessions s pSession) else Some False);
     if fUser then Some (VERR_INVALID_PARAMETER, b, s)
     else if uReq = SUP_IDC_CODE 1 then idc_CONNECT env pSession b s
     else if uReq = SUP_IDC_CODE 2 then idc_DISCONNECT env pSession b s
     else if uReq = SUP_IDC_CODE 3 then idc_GET_SYMBOL env pSession b s
     else if uReq = SUP_IDC_CODE 10 then idc_REGISTER_FACTORY env pSession b s
     else if uReq = SUP_IDC_CODE 11 then idc_DEREGISTER_FACTORY env pSession b s
     else Some (VERR_NOT_SUPPORTED, b, s)
   }"

text \<open>
  The entry point.  A session pointer is followed to its device extension, of which there is only one.
\<close>

definition SUPDrvLinuxIDC :: "u64 \<Rightarrow> addr \<Rightarrow> idcenv \<Rightarrow> reqbuf \<Rightarrow> supdrv \<Rightarrow> io_res" where
  "SUPDrvLinuxIDC uReq pReq env b s =
     (if \<not> RT_VALID_PTR pReq then Some (VERR_INVALID_POINTER, b, s)
      else do {
        pSession \<leftarrow> rd64 b IDC_OFF_pSession;
        if pSession \<noteq> 0
        then if \<not> RT_VALID_PTR pSession then Some (VERR_INVALID_PARAMETER, b, s)
             else do { ss \<leftarrow> sessions s pSession; supdrvIDC uReq env pSession b s }
        else if uReq \<noteq> SUP_IDC_CODE 1 then Some (VERR_INVALID_PARAMETER, b, s)
        else supdrvIDC uReq env pSession b s
      })"

section \<open>Safety\<close>

text \<open>
  The request is as long as its size field says and as its header; a session in it is an open one.  What
  an operation needs: a fresh block for a new session; that the system gives back what a closed session
  has; a factory structure in memory.  A lookup that finds its symbol in an image that is loaded takes a
  usage record without a reference (\<open>idc_get_symbol_record_dangles\<close>), so that is the one lookup left
  out: any other one, of the driver's own symbols, of a module that is not there or not loaded, or of a
  symbol that the module has not, is covered.
\<close>

definition idc_buf_ok :: "reqbuf \<Rightarrow> bool" where
  "idc_buf_ok b \<longleftrightarrow> 16 \<le> length b \<and> (\<forall>cb. rd32 b IDC_OFF_cb = Some cb \<longrightarrow> unat cb \<le> length b)"

definition no_such_export :: "u8 list \<Rightarrow> u8 list \<Rightarrow> supdrv \<Rightarrow> bool" where
  "no_such_export szModule szSymbol s \<longleftrightarrow> (\<forall>p im. imgs s p = Some im \<longrightarrow> i_szName im = szModule \<longrightarrow>
     i_uState im = SUP_IOCTL_LDR_LOAD \<longrightarrow> ldr_sym (i_pachStrTab im) (szSymbol @ [0]) (i_paSymbols im) = None)"

definition idc_env_ok :: "promise set \<Rightarrow> u64 \<Rightarrow> idcenv \<Rightarrow> reqbuf \<Rightarrow> supdrv \<Rightarrow> bool" where
  "idc_env_ok K uReq env b s \<longleftrightarrow> sessOpOk K (SCreate False True (id_sess env)) s \<and>
     (\<forall>a. rd64 b IDC_OFF_pSession = Some a \<longrightarrow> RT_VALID_PTR a \<longrightarrow> sessions s a \<noteq> None \<and>
        (uReq = SUP_IDC_CODE 2 \<longrightarrow> sessOpOk K (SRelease a (id_mem env) (id_rcStop env)) s)) \<and>
     (uReq = SUP_IDC_CODE 3 \<longrightarrow> (\<forall>m y. rd64 b IDC_OFF_u = Some m \<longrightarrow> rd64 b (IDC_OFF_u + 8) = Some y \<longrightarrow>
        m = 0 \<or> id_str env m = [0x53, 0x75, 0x70, 0x44, 0x72, 0x76] \<or> no_such_export (id_str env m) (id_str env y) s)) \<and>
     (uReq = SUP_IDC_CODE 10 \<longrightarrow> (\<forall>p. rd64 b IDC_OFF_u = Some p \<longrightarrow> RT_VALID_PTR p \<longrightarrow>
        (\<exists>f. factories s p = Some f \<and> length (f_szName f) = 56)))"

lemma idc_fail_good: "16 \<le> length b \<Longrightarrow> P s \<Longrightarrow> io_good P (length b) (idc_fail b s)"
  unfolding idc_fail_def by (intro io_rules) auto

lemma idc_ret_good: "length b = n \<Longrightarrow> 16 \<le> n \<Longrightarrow> P s \<Longrightarrow> io_good P n (idc_ret rc b s)"
  unfolding idc_ret_def by (intro io_rules) auto

lemma idc_size_good:
  assumes "idc_buf_ok b" "P s" "cb \<le> length b \<Longrightarrow> io_good P (length b) k"
  shows "io_good P (length b) (REQ_CHECK_IDC_SIZE cb b s k)"
  unfolding REQ_CHECK_IDC_SIZE_def
  by (intro io_rules idc_fail_good assms(2)) (use assms in \<open>auto simp: idc_buf_ok_def\<close>)

lemma good_step:
  "\<exists>r t. m = Some (r, t) \<and> P t \<Longrightarrow> (\<And>r t. m = Some (r, t) \<Longrightarrow> P t \<Longrightarrow> io_good P n (k (r, t))) \<Longrightarrow> io_good P n (m \<bind> k)"
  by auto

lemma connect_session_good:
  assumes inv: "sess_inv K s" and new: "sessOpOk K (SCreate False True (id_sess env)) s" and b: "length b = n" "40 \<le> n"
  shows "io_good (sess_inv K) n (idc_connect_session env p b s)"
proof -
  have "sess_inv K (snd (supdrvCreateSession False True (id_sess env) s))"
    using sessStep_safe[OF inv new] by simp
  then show ?thesis
    unfolding idc_connect_session_def Let_def by (intro io_rules) (use b in auto)
qed

lemma idc_lookup_good:
  assumes inv: "sess_inv K s"
    and ok: "m = 0 \<or> mn = [0x53, 0x75, 0x70, 0x44, 0x72, 0x76] \<or> no_such_export mn sn s"
  shows "\<exists>r. supdrvIDC_LdrGetSymbol a m mn y sn fs le s = Some (r, s)"
proof -
  have ldr: "ldr_inv K s" using inv by (simp add: sess_inv_def drv_inv_ldr)
  have "\<And>p. p \<in> set (d_pLdrImages (devext s)) \<Longrightarrow> imgs s p \<noteq> None" using ldr_inv_list[OF ldr] by blast
  from ldr_by_name_ok[OF this] obtain hit where hit: "ldr_by_name (imgs s) mn (d_pLdrImages (devext s)) = Some hit"
    and h: "case hit of None \<Rightarrow> True | Some p \<Rightarrow> \<exists>im. imgs s p = Some im \<and> i_szName im = mn"
    by (fastforce split: option.splits)
  show ?thesis
  proof (cases "m = 0 \<or> mn = [0x53, 0x75, 0x70, 0x44, 0x72, 0x76]")
    case True
    then show ?thesis using inv by (auto simp: supdrvIDC_LdrGetSymbol_def split: option.split)
  next
    case False
    with ok have n: "no_such_export mn sn s" by simp
    show ?thesis
    proof (cases hit)
      case None
      with False hit inv show ?thesis by (simp add: supdrvIDC_LdrGetSymbol_def)
    next
      case (Some p)
      with h obtain im where im: "imgs s p = Some im" "i_szName im = mn" by auto
      with n have "i_uState im = SUP_IOCTL_LDR_LOAD \<Longrightarrow> ldr_sym (i_pachStrTab im) (sn @ [0]) (i_paSymbols im) = None"
        by (simp add: no_such_export_def)
      with False hit Some im(1) inv show ?thesis by (auto simp: supdrvIDC_LdrGetSymbol_def)
    qed
  qed
qed

lemma idc_handlers_good:
  assumes inv: "sess_inv K s" and b: "idc_buf_ok b" and env: "idc_env_ok K uReq env b s"
  shows "io_good (sess_inv K) (length b) (idc_CONNECT env p b s)"
    "uReq = SUP_IDC_CODE 2 \<Longrightarrow> RT_VALID_PTR a \<Longrightarrow> rd64 b IDC_OFF_pSession = Some a \<Longrightarrow> io_good (sess_inv K) (length b) (idc_DISCONNECT env a b s)"
    "uReq = SUP_IDC_CODE 3 \<Longrightarrow> io_good (sess_inv K) (length b) (idc_GET_SYMBOL env a b s)"
    "uReq = SUP_IDC_CODE 10 \<Longrightarrow> sessions s a \<noteq> None \<Longrightarrow> io_good (sess_inv K) (length b) (idc_REGISTER_FACTORY env a b s)"
    "sessions s a \<noteq> None \<Longrightarrow> io_good (sess_inv K) (length b) (idc_DEREGISTER_FACTORY env a b s)"
proof -
  have len: "16 \<le> length b" using b by (simp add: idc_buf_ok_def)
  have drv: "drv_inv K s" using inv by (simp add: sess_inv_def)
  note R = idc_size_good[where P = "sess_inv K", OF b inv] io_rules idc_fail_good idc_ret_good inv
  have new: "sessOpOk K (SCreate False True (id_sess env)) s" using env by (simp add: idc_env_ok_def)
  show "io_good (sess_inv K) (length b) (idc_CONNECT env p b s)"
    unfolding idc_CONNECT_def connect_out_def Option.bind_assoc
    by (intro R connect_session_good new) auto
  show "io_good (sess_inv K) (length b) (idc_DISCONNECT env a b s)"
    if "uReq = SUP_IDC_CODE 2" "RT_VALID_PTR a" "rd64 b IDC_OFF_pSession = Some a"
  proof -
    have "sessOpOk K (SRelease a (id_mem env) (id_rcStop env)) s" using env that by (simp add: idc_env_ok_def)
    from sessStep_safe[OF inv this] have "\<exists>r t. supdrvSessionRelease a (id_mem env) (id_rcStop env) s = Some (r, t) \<and> sess_inv K t" by auto
    then show ?thesis unfolding idc_DISCONNECT_def by (intro R good_step) auto
  qed
  have reg: "sess_inv K (set_regs rs s)" if "fact_inv (set_regs rs s)" for rs
    using set_regs_drv[OF drv that] inv by (simp add: sess_inv_def)
  show "io_good (sess_inv K) (length b) (idc_GET_SYMBOL env a b s)" if "uReq = SUP_IDC_CODE 3"
  proof -
    have "\<exists>r t. supdrvIDC_LdrGetSymbol a m (id_str env m) y (id_str env y) fs le s = Some (r, t) \<and> sess_inv K t"
      if "rd64 b 16 = Some m" "rd64 b 24 = Some y" for m y fs le
    proof -
      have "m = 0 \<or> id_str env m = [0x53, 0x75, 0x70, 0x44, 0x72, 0x76] \<or> no_such_export (id_str env m) (id_str env y) s"
        using env \<open>uReq = _\<close> that by (simp add: idc_env_ok_def)
      from idc_lookup_good[OF inv this] inv show ?thesis by blast
    qed
    then show ?thesis unfolding idc_GET_SYMBOL_def by (intro R good_step) auto
  qed
  show "io_good (sess_inv K) (length b) (idc_REGISTER_FACTORY env a b s)" if "uReq = SUP_IDC_CODE 10" "sessions s a \<noteq> None"
  proof -
    have "\<exists>r t. SUPR0ComponentRegisterFactory a p (id_fAlloc env) s = Some (r, t) \<and> sess_inv K t" if "rd64 b 16 = Some p" for p
      using RegisterFactory_ok[OF drv_inv_fact[OF drv] \<open>sessions s a \<noteq> None\<close>, of p "id_fAlloc env"] env that \<open>uReq = _\<close> reg inv
      by (auto simp: idc_env_ok_def)
    then show ?thesis unfolding idc_REGISTER_FACTORY_def by (intro R good_step) auto
  qed
  show "io_good (sess_inv K) (length b) (idc_DEREGISTER_FACTORY env a b s)" if "sessions s a \<noteq> None"
  proof -
    have "\<exists>r t. SUPR0ComponentDeregisterFactory a p s = Some (r, t) \<and> sess_inv K t" for p
      using DeregisterFactory_ok[OF drv_inv_fact[OF drv] that, of p] reg inv by auto
    then show ?thesis unfolding idc_DEREGISTER_FACTORY_def by (intro R good_step) auto
  qed
qed

lemma idc_good:
  assumes inv: "sess_inv K s" and b: "idc_buf_ok b" and env: "idc_env_ok K uReq env b s"
  shows "io_good (sess_inv K) (length b) (SUPDrvLinuxIDC uReq pReq env b s)"
proof -
  have len: "16 \<le> length b" using b by (simp add: idc_buf_ok_def)
  note H = idc_handlers_good[OF inv b env]
  have opn: "\<exists>ss. sessions s a = Some ss" if "rd64 b IDC_OFF_pSession = Some a" "RT_VALID_PTR a" for a
    using env that by (auto simp: idc_env_ok_def)
  have w: "io_good (sess_inv K) (length b) (supdrvIDC uReq env a b s)"
    if h: "rd64 b IDC_OFF_pSession = Some a" "RT_VALID_PTR a \<or> a = 0 \<and> uReq = SUP_IDC_CODE 1" for a
  proof -
    obtain v where "(if a \<noteq> 0 then map_option (\<lambda>ss. s_R0Process ss \<noteq> NIL_RTR0PROCESS) (sessions s a) else Some False) = Some v"
      using opn[OF h(1)] h(2) by (cases "a = 0") auto
    then show ?thesis
      using h opn[OF h(1)] unfolding supdrvIDC_def
      by (auto intro!: good_if good_result inv H simp: SUP_IDC_CODE_def)
  qed
  obtain a where a: "rd64 b IDC_OFF_pSession = Some a" using rd_ok(3)[of IDC_OFF_pSession b] len by auto
  have "io_good (sess_inv K) (length b) (SUPDrvLinuxIDC uReq pReq env b s)"
    using w[OF a] opn[OF a] unfolding SUPDrvLinuxIDC_def a by (auto intro: good_result inv)
  then show ?thesis .
qed

text \<open>C37: Requests of other drivers are safe: whatever the code of a request is, it is answered
  without a memory fault and without an access outside of the request, and the driver stays consistent,
  provided that the request covers its stated size, that a session in it is open and that a factory in it is in memory.
  One kind of request is left out, because it breaks the invariant (\<open>idc_get_symbol_record_dangles\<close>): the lookup of a
  symbol that a loaded image of another module exports.  Lookups of the driver's own symbols, in modules that
  are not there or not loaded, and of symbols that the module has not, are covered.\<close>

theorem idc_safe:
  assumes inv: "sess_inv K s" and b: "idc_buf_ok b" and env: "idc_env_ok K uReq env b s"
  shows "\<exists>r b' t. SUPDrvLinuxIDC uReq pReq env b s = Some (r, b', t) \<and> length b' = length b \<and> sess_inv K t"
  using idc_good[OF assms] by (simp add: io_good_def)

lemma linux_idc_connect:
  assumes "SUPDrvLinuxIDC (SUP_IDC_CODE 1) pReq env b s = Some (0, b1, s1)"
  shows "\<exists>p. idc_CONNECT env p b s = Some (0, b1, s1)"
proof -
  have w: "\<exists>p. idc_CONNECT env p b s = Some (0, b1, s1)" if "supdrvIDC (SUP_IDC_CODE 1) env p b s = Some (0, b1, s1)" for p
    using that unfolding supdrvIDC_def Option.bind_eq_Some_conv by (auto split: if_splits)
  show ?thesis
    using assms unfolding SUPDrvLinuxIDC_def by (auto simp: Option.bind_eq_Some_conv split: if_splits intro: w)
qed

lemma idc_fail_status: "idc_fail b s = Some (r, b1, s1) \<Longrightarrow> r = VERR_INVALID_PARAMETER"
  by (auto simp: idc_fail_def Option.bind_eq_Some_conv)

lemma rd64_wr_other:
  "wr32 b off v = Some b' \<Longrightarrow> o' + 8 \<le> off \<or> off + 4 \<le> o' \<Longrightarrow> rd64 b' o' = rd64 b o'"
  "wr64 b off w = Some b' \<Longrightarrow> o' + 8 \<le> off \<or> off + 8 \<le> o' \<Longrightarrow> rd64 b' o' = rd64 b o'"
  by (auto simp: wr32_def wr64_def rd64_def dest!: bytes_at_put_other[where n = 8])

lemma connect_out_session: "connect_out b v r = Some c \<Longrightarrow> rd64 c 16 = Some 0"
  by (auto simp: connect_out_def Option.bind_eq_Some_conv rd64_wr_other rd64_wr64)

lemma idc_CONNECT_success:
  assumes "idc_CONNECT env p b s = Some (0, b1, s1)" "rd64 b1 16 \<noteq> Some 0"
  shows "\<exists>c. idc_connect_session env 0 c s = Some (0, b1, s1) \<and> rd64 c 16 = Some 0"
proof -
  have ne: "\<not> idc_fail b s = Some (0, b1, s1)" using idc_fail_status by fastforce
  from assms(1) ne obtain c v where c: "connect_out b v (id_uRevision env) = Some c"
    "wr32 c IDC_OFF_rc (word_of_int VERR_VERSION_MISMATCH) = Some b1 \<or> idc_connect_session env 0 c s = Some (0, b1, s1)"
    unfolding idc_CONNECT_def REQ_CHECK_IDC_SIZE_def by (auto simp: Option.bind_eq_Some_conv split: if_splits)
  from c(2) show ?thesis
  proof
    assume "wr32 c IDC_OFF_rc (word_of_int VERR_VERSION_MISMATCH) = Some b1"
    from rd64_wr_other(1)[OF this, of 16] connect_out_session[OF c(1)] assms(2) show ?thesis by simp
  qed (use connect_out_session[OF c(1)] in blast)
qed

lemma idc_connect_session_success:
  assumes "idc_connect_session env 0 c s = Some (0, b1, s1)" "rd64 c 16 = Some 0" "rd64 b1 16 \<noteq> Some 0"
    and drv: "drv_inv K s" and new: "sessOpOk K (SCreate False True (id_sess env)) s"
  shows "s1 = put_session (se_pSession (id_sess env)) (session_new False True (Some session_table) (id_sess env)) s \<and>
    se_pSession (id_sess env) \<noteq> 0 \<and>
    rd64 b1 16 = Some (se_pSession (id_sess env)) \<and> rd64 b1 IDC_OFF_pSession = Some (se_pSession (id_sess env))"
proof -
  have n: "se_pSession (id_sess env) \<noteq> 0 \<longrightarrow> RT_VALID_PTR (se_pSession (id_sess env)) \<and> sessions s (se_pSession (id_sess env)) = None"
    using new by simp
  note cs = create_session_ok[OF drv n, of False True]
  have st: "rd64 b1 16 = Some 0" if "supdrvCreateSession False True (id_sess env) s = ((rc, q), s)" "q = None \<or> q = Some 0" for rc q
    using assms(1,2) that unfolding idc_connect_session_def Let_def
    by (auto simp: Option.bind_eq_Some_conv rd64_wr_other rd64_wr64 split: if_splits)
  from cs st assms(3) have e: "supdrvCreateSession False True (id_sess env) s = ((VINF_SUCCESS, Some (se_pSession (id_sess env))),
      put_session (se_pSession (id_sess env)) (session_new False True (Some session_table) (id_sess env)) s)"
    "se_pSession (id_sess env) \<noteq> 0" by blast+
  with assms(1) show ?thesis unfolding idc_connect_session_def Let_def
    by (auto simp: Option.bind_eq_Some_conv rd64_wr_other rd64_wr64)
qed

text \<open>A driver that connects gets a session of its own and can give it back: a connect request that answers
  a session has it also in its header, where the disconnect request finds it; the session is new, and
  after the disconnect request the driver is as it was.\<close>

theorem idc_connect_disconnect:
  assumes inv: "sess_inv K s" and new: "sessOpOk K (SCreate False True (id_sess env)) s" and p: "RT_VALID_PTR pReq"
    and con: "SUPDrvLinuxIDC (SUP_IDC_CODE 1) pReq env b s = Some (0, b1, s1)" "rd64 b1 16 \<noteq> Some 0"
    and dis: "rd32 b2 IDC_OFF_cb = Some 16" "rd64 b2 IDC_OFF_pSession = rd64 b1 IDC_OFF_pSession"
  shows "\<exists>a b3. rd64 b1 16 = Some a \<and> sessions s a = None \<and>
    s1 = put_session a (session_new False True (Some session_table) (id_sess env)) s \<and>
    SUPDrvLinuxIDC (SUP_IDC_CODE 2) pReq env b2 s1 = Some (0, b3, s) \<and> rd32 b3 IDC_OFF_rc = Some 0"
proof -
  have drv: "drv_inv K s" using inv by (simp add: sess_inv_def)
  let ?a = "se_pSession (id_sess env)" and ?ss = "session_new False True (Some session_table) (id_sess env)"
  from linux_idc_connect[OF con(1)] idc_CONNECT_success con(2) idc_connect_session_success[OF _ _ con(2) drv new] have
    s1: "s1 = put_session ?a ?ss s" "?a \<noteq> 0" "rd64 b1 16 = Some ?a" "rd64 b1 IDC_OFF_pSession = Some ?a" by blast+
  then have a: "RT_VALID_PTR ?a" "sessions s ?a = None" using new by simp_all
  have rel: "supdrvSessionRelease ?a (id_mem env) (id_rcStop env) s1 = Some (0, s)"
    unfolding s1(1) by (rule release_new_session[OF a drv_inv_fact[OF drv]])
  have len: "16 \<le> length b2" using dis s1(4) by (auto simp: rd64_def bytes_at_def split: if_splits)
  then obtain b3 where b3: "wr32 b2 IDC_OFF_rc 0 = Some b3" using wr_ok(1)[of IDC_OFF_rc b2 0] by auto
  have o: "sessions s1 ?a = Some ?ss" by (simp add: s1(1))
  have "SUPDrvLinuxIDC (SUP_IDC_CODE 2) pReq env b2 s1 = Some (0, b3, s)"
    using p a(1) s1(2,4) dis rel b3 o
    by (simp add: SUPDrvLinuxIDC_def supdrvIDC_def SUP_IDC_CODE_def idc_DISCONNECT_def REQ_CHECK_IDC_SIZE_def session_new_def)
  with s1 a(2) rd32_wr32[OF b3] show ?thesis by blast
qed

section \<open>Witnesses\<close>

definition idcenv0 :: idcenv where
  "idcenv0 = \<lparr>id_sess = sessenv0, id_mem = env0, id_rcStop = 0, id_ldr = ldrenv0, id_fAlloc = True, id_uRevision = 0,
     id_aFunctions = [], id_str = (\<lambda>_. [])\<rparr>"

definition connect_buf :: reqbuf where
  "connect_buf = le_bytes 4 (40 :: u32) @ le_bytes 4 (0 :: u32) @ le_bytes 8 (0 :: u64) @ le_bytes 4 SUPDRVIDCREQ_CONNECT_MAGIC_COOKIE @
     le_bytes 4 SUPDRV_IDC_VERSION @ le_bytes 4 SUPDRV_IDC_VERSION @ replicate 12 0"

definition connect_ans :: reqbuf where
  "connect_ans = le_bytes 4 (40 :: u32) @ le_bytes 4 (0 :: u32) @ le_bytes 8 (0x12000 :: u64) @ le_bytes 8 (0x12000 :: u64) @
     le_bytes 4 SUPDRV_IDC_VERSION @ le_bytes 4 SUPDRV_IDC_VERSION @ replicate 8 0"

definition disconnect_buf :: reqbuf where
  "disconnect_buf = le_bytes 4 (16 :: u32) @ le_bytes 4 (0 :: u32) @ le_bytes 8 (0x12000 :: u64)"

lemma connect_buf_eval:
  "length connect_buf = 40 \<and> rd32 connect_buf 0 = Some 40 \<and> rd64 connect_buf 8 = Some 0 \<and>
   rd32 connect_buf 16 = Some SUPDRVIDCREQ_CONNECT_MAGIC_COOKIE \<and> rd32 connect_buf 20 = Some SUPDRV_IDC_VERSION \<and>
   rd32 connect_buf 24 = Some SUPDRV_IDC_VERSION"
  "(do { c \<leftarrow> connect_out connect_buf SUPDRV_IDC_VERSION 0; b1 \<leftarrow> wr32 c 4 0; b2 \<leftarrow> wr64 b1 16 0x12000; wr64 b2 8 0x12000 }) = Some connect_ans"
  "rd64 connect_ans 16 = Some 0x12000 \<and> rd64 connect_ans 8 = Some 0x12000"
  "rd32 disconnect_buf 0 = Some 16 \<and> rd64 disconnect_buf 8 = Some 0x12000"
  by code_simp+

lemma sessenv0_new: "sessOpOk K (SCreate False True (id_sess idcenv0)) (driver_full t)"
  by (simp add: idcenv0_def sessenv0_def RT_VALID_PTR_def)

theorem idc_safe_witness:
  "\<exists>t r b' u. SUPDrvLinuxIDC (SUP_IDC_CODE 1) 0x60000 idcenv0 connect_buf (driver_full t) = Some (r, b', u) \<and> length b' = 40 \<and> sess_inv UNIV u"
proof -
  obtain t h where t: "ht_inv t" "ht_map t = [h \<mapsto> (0x20000, 4)]" "h \<noteq> 0" by (rule one_handle)
  have b: "idc_buf_ok connect_buf" using connect_buf_eval(1) by (simp add: idc_buf_ok_def)
  have "idc_env_ok UNIV (SUP_IDC_CODE 1) idcenv0 connect_buf (driver_full t)"
    using connect_buf_eval(1) sessenv0_new by (simp add: idc_env_ok_def SUP_IDC_CODE_def)
  from idc_safe[OF driver_full_ok[OF t(1,2)] b this, of "0x60000"] connect_buf_eval(1) show ?thesis by metis
qed

theorem idc_connect_disconnect_witness:
  "\<exists>t u b3. SUPDrvLinuxIDC (SUP_IDC_CODE 1) 0x60000 idcenv0 connect_buf (driver_full t) = Some (0, connect_ans, u) \<and>
     sessions u 0x12000 \<noteq> None \<and> SUPDrvLinuxIDC (SUP_IDC_CODE 2) 0x60000 idcenv0 disconnect_buf u = Some (0, b3, driver_full t)"
proof -
  obtain t h where t: "ht_inv t" "ht_map t = [h \<mapsto> (0x20000, 4)]" "h \<noteq> 0" by (rule one_handle)
  let ?u = "put_session 0x12000 (session_new False True (Some session_table) sessenv0) (driver_full t)"
  have d: "d_u32Cookie (devext (driver_full t)) = BIRD" by (simp add: devext0_def)
  have p: "RT_VALID_PTR 0x60000" by (simp add: RT_VALID_PTR_def)
  obtain c b1 b2 where c: "connect_out connect_buf SUPDRV_IDC_VERSION 0 = Some c" "wr32 c 4 0 = Some b1" "wr64 b1 16 0x12000 = Some b2"
    "wr64 b2 8 0x12000 = Some connect_ans" using connect_buf_eval(2) by (auto simp: Option.bind_eq_Some_conv)
  have con: "SUPDrvLinuxIDC (SUP_IDC_CODE 1) 0x60000 idcenv0 connect_buf (driver_full t) = Some (0, connect_ans, ?u)"
    using connect_buf_eval(1) p c
    by (simp add: SUPDrvLinuxIDC_def supdrvIDC_def idc_CONNECT_def REQ_CHECK_IDC_SIZE_def idc_connect_session_def idcenv0_def
        create_session_eq[OF d] sessenv0_def Let_def)
  from idc_connect_disconnect[OF driver_full_ok[OF t(1,2)] sessenv0_new p con] connect_buf_eval(3,4) obtain b3 where
    "SUPDrvLinuxIDC (SUP_IDC_CODE 2) 0x60000 idcenv0 disconnect_buf ?u = Some (0, b3, driver_full t)" by force
  moreover have "sessions ?u 0x12000 \<noteq> None" by simp
  ultimately show ?thesis using con by blast
qed

end
