(* ===== verification/SupLinux.thy ===== *)
theory SupLinux
  imports SupIdc
begin

text \<open>
  The Linux device files (\<open>linux/SUPDrv-linux.c\<close>): opening and closing \<open>/dev/vboxdrv\<close> and
  \<open>/dev/vboxdrvu\<close>, and the IOCtl entry point, which copies a request from user memory, has the
  dispatcher answer it, and copies the answer back.  User memory may change between two reads of it, so
  what each copy reads is a parameter.  The power events are not modelled.
\<close>

section \<open>Status codes\<close>

type_synonym errno = int

abbreviation "EPERM \<equiv> (1::errno)"
abbreviation "ENXIO \<equiv> (6::errno)"
abbreviation "E2BIG \<equiv> (7::errno)"
abbreviation "ENOMEM \<equiv> (12::errno)"
abbreviation "EACCES \<equiv> (13::errno)"
abbreviation "EFAULT \<equiv> (14::errno)"
abbreviation "EEXIST \<equiv> (17::errno)"
abbreviation "EINVAL \<equiv> (22::errno)"
abbreviation "ENOLCK \<equiv> (37::errno)"
abbreviation "ENOSYS \<equiv> (38::errno)"
abbreviation "EILSEQ \<equiv> (84::errno)"

abbreviation "VERR_LOCK_FAILED \<equiv> (-5::rc)"
abbreviation "VERR_IDT_FAILED \<equiv> (-7::rc)"

definition VBoxDrvLinuxErr2LinuxErr :: "rc \<Rightarrow> errno" where
  "VBoxDrvLinuxErr2LinuxErr rc =
     (if rc = VINF_SUCCESS then 0
      else if rc = VERR_GENERAL_FAILURE then - EACCES
      else if rc = VERR_INVALID_PARAMETER then - EINVAL
      else if rc = VERR_INVALID_MAGIC then - EILSEQ
      else if rc = VERR_INVALID_HANDLE then - ENXIO
      else if rc = VERR_INVALID_POINTER then - EFAULT
      else if rc = VERR_LOCK_FAILED then - ENOLCK
      else if rc = VERR_ALREADY_LOADED then - EEXIST
      else if rc = VERR_PERMISSION_DENIED then - EPERM
      else if rc = VERR_VERSION_MISMATCH then - ENOSYS
      else if rc = VERR_IDT_FAILED then - 1000
      else - EPERM)"

section \<open>Open and close\<close>

text \<open>
  Who opens the file, and whether the build has the hardening of \<open>VBOX_WITH_HARDENING\<close>.  The answer is
  the status and the private data of the file, \<open>None\<close> when it is not set.
\<close>

record linuxuser =
  lu_fHardening :: bool
  lu_euid :: u32
  lu_uid :: u32
  lu_gid :: u32

definition vboxdrvLinuxCreateCommon :: "bool \<Rightarrow> linuxuser \<Rightarrow> sessenv \<Rightarrow> supdrv \<Rightarrow> (errno \<times> addr option) \<times> supdrv" where
  "vboxdrvLinuxCreateCommon fUnrestricted user env s =
     (if lu_fHardening user \<and> fUnrestricted \<and> lu_euid user \<noteq> 0 then ((- EPERM, None), s)
      else
        let ((rc, pSession), s1) = supdrvCreateSession True fUnrestricted env s;
            s2 = (case pSession of None \<Rightarrow> s1 | Some p \<Rightarrow>
                    if rc = 0
                    then (case sessions s1 p of None \<Rightarrow> s1
                          | Some ss \<Rightarrow> put_session p (ss\<lparr>s_Uid := lu_uid user, s_Gid := lu_gid user\<rparr>) s1)
                    else s1)
        in ((VBoxDrvLinuxErr2LinuxErr rc, pSession), s2))"

definition VBoxDrvLinuxCreateSys where "VBoxDrvLinuxCreateSys = vboxdrvLinuxCreateCommon True"
definition VBoxDrvLinuxCreateUsr where "VBoxDrvLinuxCreateUsr = vboxdrvLinuxCreateCommon False"

text \<open>The answer is the status; the private data of the file is \<open>NULL\<close> afterwards.\<close>

definition VBoxDrvLinuxClose :: "addr \<Rightarrow> memenv \<Rightarrow> rc \<Rightarrow> supdrv \<Rightarrow> (errno \<times> supdrv) option" where
  "VBoxDrvLinuxClose pSession env rcStop s = do {
     (cRefs, s1) \<leftarrow> supdrvSessionRelease pSession env rcStop s;
     Some (0, s1)
   }"

section \<open>IOCtls\<close>

text \<open>
  What \<open>copy_from_user\<close> reads first, the header, and what it reads second, so many bytes from the same
  address (\<open>None\<close> when it fails); what a heap block of so many bytes holds when it is allocated (\<open>None\<close>
  when there is none); and whether \<open>copy_to_user\<close> succeeds.
\<close>

record linuxcopy =
  lc_Hdr :: "u8 list option"
  lc_Req :: "nat \<Rightarrow> u8 list option"
  lc_Heap :: "nat \<Rightarrow> u8 list option"
  lc_fOut :: bool

definition IOC_SIZE :: "u32 \<Rightarrow> u32" where
  "IOC_SIZE uCmd = drop_bit 16 uCmd AND 0x3fff"

text \<open>The answer is the status and the bytes that are copied back to the user.\<close>

definition VBoxDrvLinuxIOCtlSlow ::
  "u32 \<Rightarrow> linuxcopy \<Rightarrow> ioctlenv \<Rightarrow> addr \<Rightarrow> supdrv \<Rightarrow> ((errno \<times> u8 list) \<times> supdrv) option" where
  "VBoxDrvLinuxIOCtlSlow uCmd copy env pSession s =
     (case lc_Hdr copy of
        None \<Rightarrow> Some ((- EFAULT, []), s)
      | Some Hdr \<Rightarrow> do {
          cbIn \<leftarrow> rd32 Hdr OFF_cbIn;
          cbOut \<leftarrow> rd32 Hdr OFF_cbOut;
          fFlags \<leftarrow> rd32 Hdr OFF_fFlags;
          let cbBuf = max cbIn cbOut;
          if fFlags AND 0xff0000ff \<noteq> 0x42000042 then Some ((- EINVAL, []), s)
          else if cbBuf > 0x1000000 then Some ((- E2BIG, []), s)
          else if cbBuf \<noteq> IOC_SIZE uCmd \<and> IOC_SIZE uCmd \<noteq> 0 then Some ((- EINVAL, []), s)
          else (case lc_Heap copy (unat cbBuf) of
              None \<Rightarrow> Some ((- ENOMEM, []), s)
            | Some block \<Rightarrow> (case lc_Req copy (unat cbIn) of
                None \<Rightarrow> Some ((- EFAULT, []), s)
              | Some bytes \<Rightarrow> do {
                  b \<leftarrow> put_bytes block 0 bytes;
                  (rc, b1, s1) \<leftarrow> supdrvIOCtl (ucast uCmd) env pSession b s;
                  if rc = 0
                  then do {
                    cbOut1 \<leftarrow> rd32 b1 OFF_cbOut;
                    let cbCopy = min cbOut1 cbBuf;
                    if lc_fOut copy then Some ((rc, take (unat cbCopy) b1), s1) else Some ((- EFAULT, []), s1)
                  }
                  else Some ((- EINVAL, []), s1)
                }))
        })"

definition VBoxDrvLinuxIOCtl ::
  "u32 \<Rightarrow> u64 \<Rightarrow> linuxcopy \<Rightarrow> ioctlenv \<Rightarrow> addr \<Rightarrow> supdrv \<Rightarrow> ((errno \<times> u8 list) \<times> supdrv) option" where
  "VBoxDrvLinuxIOCtl uCmd ulArg copy env pSession s =
     (if ucast uCmd \<in> {SUP_IOCTL_FAST_DO_RAW_RUN, SUP_IOCTL_FAST_DO_HM_RUN, SUP_IOCTL_FAST_DO_NOP}
      then do {
        ss \<leftarrow> sessions s pSession;
        if s_fUnrestricted ss
        then do { (rc, s1) \<leftarrow> supdrvIOCtlFast (ucast uCmd) (ucast ulArg) pSession s; Some ((rc, []), s1) }
        else VBoxDrvLinuxIOCtlSlow uCmd copy env pSession s
      }
      else VBoxDrvLinuxIOCtlSlow uCmd copy env pSession s)"

section \<open>Safety\<close>

text \<open>
  The copies have the lengths asked for.
\<close>

definition copy_lengths :: "linuxcopy \<Rightarrow> bool" where
  "copy_lengths copy \<longleftrightarrow> (\<forall>h. lc_Hdr copy = Some h \<longrightarrow> length h = 24) \<and>
     (\<forall>n h. lc_Req copy n = Some h \<longrightarrow> length h = n) \<and> (\<forall>n h. lc_Heap copy n = Some h \<longrightarrow> length h = n)"

text \<open>The buffer that the dispatcher gets.\<close>

definition copy_buf :: "linuxcopy \<Rightarrow> reqbuf option" where
  "copy_buf copy = do {
     Hdr \<leftarrow> lc_Hdr copy;
     cbIn \<leftarrow> rd32 Hdr OFF_cbIn;
     cbOut \<leftarrow> rd32 Hdr OFF_cbOut;
     block \<leftarrow> lc_Heap copy (unat (max cbIn cbOut));
     bytes \<leftarrow> lc_Req copy (unat cbIn);
     put_bytes block 0 bytes
   }"

text \<open>
  What the entry point does not check, and what all its safety rests on: the buffer, after the second
  copy, holds a whole header, and the two sizes in it are not larger than the buffer.  The driver
  takes the size of the buffer from the first copy of the header.  A user who gives less than a
  header breaks the first (\<open>linux_short_request_faults\<close>), one who makes the sizes larger between the
  two copies the second (\<open>linux_double_fetch_faults\<close>).  A whole header that does not change is enough.
\<close>

definition copy_sized :: "linuxcopy \<Rightarrow> bool" where
  "copy_sized copy \<longleftrightarrow> (\<forall>b. copy_buf copy = Some b \<longrightarrow> length b \<le> 0x1000000 \<longrightarrow> sizes_ok (length b) b)"

definition copy_stable :: "linuxcopy \<Rightarrow> bool" where
  "copy_stable copy \<longleftrightarrow> (\<forall>h cbIn bytes. lc_Hdr copy = Some h \<longrightarrow> rd32 h OFF_cbIn = Some cbIn \<longrightarrow> lc_Req copy (unat cbIn) = Some bytes \<longrightarrow>
     24 \<le> cbIn \<and> take 24 bytes = h)"

lemma rd32_take: "take 24 b = h \<Longrightarrow> off + 4 \<le> 24 \<Longrightarrow> length h = 24 \<Longrightarrow> rd32 b off = rd32 h off"
  by (auto simp: rd32_def bytes_at_def drop_take min_def split: if_splits)

lemma copied_buf:
  assumes l: "copy_lengths copy" and blk: "lc_Heap copy (unat (max cbIn cbOut)) = Some block" "lc_Req copy (unat cbIn) = Some bytes"
  shows "put_bytes block 0 bytes = Some (bytes @ drop (unat cbIn) block)"
    "length (bytes @ drop (unat cbIn) block) = unat (max cbIn cbOut)"
proof -
  have len: "length block = unat (max cbIn cbOut)" "length bytes = unat cbIn"
    using l blk unfolding copy_lengths_def by blast+
  moreover have "unat cbIn \<le> unat (max cbIn cbOut)" by (auto simp: max_def word_le_nat_alt)
  ultimately show "put_bytes block 0 bytes = Some (bytes @ drop (unat cbIn) block)"
    "length (bytes @ drop (unat cbIn) block) = unat (max cbIn cbOut)" by (simp_all add: put_bytes_def)
qed

text \<open>A whole header that is the same in both copies is enough.\<close>

lemma stable_sized:
  assumes l: "copy_lengths copy" and st: "copy_stable copy"
  shows "copy_sized copy"
  unfolding copy_sized_def
proof (intro allI impI)
  fix b assume "copy_buf copy = Some b" and le: "length b \<le> 0x1000000"
  then obtain h cbIn cbOut block bytes where h: "lc_Hdr copy = Some h" "rd32 h OFF_cbIn = Some cbIn" "rd32 h OFF_cbOut = Some cbOut"
    and blk: "lc_Heap copy (unat (max cbIn cbOut)) = Some block" "lc_Req copy (unat cbIn) = Some bytes"
    and b: "put_bytes block 0 bytes = Some b" by (auto simp: copy_buf_def split: Option.bind_splits)
  note c = copied_buf[OF l blk]
  have eq: "b = bytes @ drop (unat cbIn) block" using b c(1) by simp
  have len: "length h = 24" "length bytes = unat cbIn" "length b = unat (max cbIn cbOut)"
    using l h(1) blk c(2) eq unfolding copy_lengths_def by blast+
  have s: "24 \<le> cbIn" "take 24 bytes = h" using st h(1,2) blk(2) unfolding copy_stable_def by blast+
  have n: "unat cbIn \<le> length b" "unat cbOut \<le> length b" "24 \<le> unat cbIn"
    using s(1) len(3) by (auto simp: max_def word_le_nat_alt)
  have "take 24 b = h" using s(2) n(3) len(2) by (simp add: eq)
  from rd32_take[OF this _ len(1)] h have r: "rd32 b OFF_cbIn = Some cbIn" "rd32 b OFF_cbOut = Some cbOut" by simp_all
  then show "sizes_ok (length b) b" using le n by (auto simp: sizes_ok_def)
qed

lemma slow_good:
  assumes inv: "drv_inv K s" and a: "sessions s a = Some ss" and l: "copy_lengths copy" and st: "copy_sized copy"
    and env: "\<And>b. copy_buf copy = Some b \<Longrightarrow> io_env_ok K env b s"
  shows "\<exists>rc out t. VBoxDrvLinuxIOCtlSlow uCmd copy env a s = Some ((rc, out), t) \<and> drv_ok K a s t \<and>
    (\<forall>h cbIn cbOut. lc_Hdr copy = Some h \<longrightarrow> rd32 h OFF_cbIn = Some cbIn \<longrightarrow> rd32 h OFF_cbOut = Some cbOut \<longrightarrow> length out \<le> unat (max cbIn cbOut))"
proof (cases "lc_Hdr copy")
  case None
  with inv own_refl[OF a] show ?thesis by (simp add: VBoxDrvLinuxIOCtlSlow_def drv_ok_def)
next
  case h: (Some h)
  have ok: "drv_ok K a s s" using inv own_refl[OF a] by (simp add: drv_ok_def)
  have "length h = 24" using l h by (simp add: copy_lengths_def)
  then obtain cbIn cbOut fl where r: "rd32 h OFF_cbIn = Some cbIn" "rd32 h OFF_cbOut = Some cbOut" "rd32 h OFF_fFlags = Some fl"
    using rd_ok(2)[of OFF_cbIn h] rd_ok(2)[of OFF_cbOut h] rd_ok(2)[of OFF_fFlags h] by auto
  let ?n = "max cbIn cbOut"
  show ?thesis
  proof (cases "fl AND 0xff0000ff \<noteq> 0x42000042 \<or> ?n > 0x1000000 \<or> (?n \<noteq> IOC_SIZE uCmd \<and> IOC_SIZE uCmd \<noteq> 0) \<or>
      lc_Heap copy (unat ?n) = None \<or> lc_Req copy (unat cbIn) = None")
    case True
    with h r ok show ?thesis by (auto simp: VBoxDrvLinuxIOCtlSlow_def Let_def split: option.split)
  next
    case False
    then obtain block bytes where blk: "lc_Heap copy (unat ?n) = Some block" "lc_Req copy (unat cbIn) = Some bytes" by auto
    have "?n \<le> 0x1000000" using False by (blast intro: leI)
    moreover define b where "b = bytes @ drop (unat cbIn) block"
    note c = copied_buf[OF l blk, folded b_def]
    have "copy_buf copy = Some b" using h r blk c(1) by (simp add: copy_buf_def)
    moreover from this st c(2) \<open>?n \<le> 0x1000000\<close> have "sizes_ok (unat ?n) b" by (auto simp: copy_sized_def word_le_nat_alt)
    ultimately have b: "put_bytes block 0 bytes = Some b" "sizes_ok (unat ?n) b" and cb: "copy_buf copy = Some b" using c(1) by simp_all
    from ioctl_good[OF inv a b(2) env[OF cb], of "ucast uCmd"] obtain rc b1 t where
      t: "supdrvIOCtl (ucast uCmd) env a b s = Some (rc, b1, t)" "length b1 = unat ?n" "drv_ok K a s t"
      by (auto simp: io_good_def)
    from sizes_okD[OF b(2)] t(2) obtain cbOut1 where "rd32 b1 OFF_cbOut = Some cbOut1" using rd_ok(2)[of OFF_cbOut b1] by auto
    with False h r blk b(1) t show ?thesis by (auto simp: VBoxDrvLinuxIOCtlSlow_def Let_def)
  qed
qed


section \<open>The life of the device files\<close>

lemma create_common_cases:
  assumes inv: "sess_inv K s" and new: "sessOpOk K (SCreate True fU env) s"
    and e: "vboxdrvLinuxCreateCommon fU user env s = ((rc, p), t)"
  shows "sess_inv K t \<and> (t = s \<and> rc \<noteq> 0 \<or> rc = 0 \<and> p = Some (se_pSession env) \<and> \<not> (lu_fHardening user \<and> fU \<and> lu_euid user \<noteq> 0) \<and>
    sessions s (se_pSession env) = None \<and>
    t = put_session (se_pSession env) ((session_new True fU (Some session_table) env)\<lparr>s_Uid := lu_uid user, s_Gid := lu_gid user\<rparr>) s)"
proof -
  let ?a = "se_pSession env" and ?ss = "session_new True fU (Some session_table) env"
  let ?u = "?ss\<lparr>s_Uid := lu_uid user, s_Gid := lu_gid user\<rparr>"
  have drv: "drv_inv K s" using inv by (simp add: sess_inv_def)
  have n: "?a \<noteq> 0 \<longrightarrow> RT_VALID_PTR ?a \<and> sessions s ?a = None" using new by simp
  have err: "VBoxDrvLinuxErr2LinuxErr rc \<noteq> 0" if "rc \<noteq> 0" for rc using that by (simp add: VBoxDrvLinuxErr2LinuxErr_def)
  from create_session_ok[OF drv n, of True fU] consider
      (fail) r q where "supdrvCreateSession True fU env s = ((r, q), s)" "r \<noteq> VINF_SUCCESS"
    | (ok) "supdrvCreateSession True fU env s = ((VINF_SUCCESS, Some ?a), put_session ?a ?ss s)" "?a \<noteq> 0" "drv_inv K (put_session ?a ?ss s)"
    by blast
  then show ?thesis
  proof cases
    case fail
    then have "t = s" "rc \<noteq> 0" using e err by (auto simp: vboxdrvLinuxCreateCommon_def Let_def split: if_splits option.splits)
    with inv show ?thesis by simp
  next
    case c: ok
    have pp: "put_session ?a x (put_session ?a y s) = put_session ?a x s" for x y by (simp add: put_session_def)
    have a: "sessions (put_session ?a ?ss s) ?a = Some ?ss" by simp
    have "drv_inv K (put_session ?a ?u s)"
      using session_fields_drv[OF c(3) a, where pVM = 0 and uid = "lu_uid user" and gid = "lu_gid user"]
      by (simp add: pp session_new_def)
    then have "sess_inv K (put_session ?a ?u s)" using inv by (auto simp: sess_inv_def session_new_refs)
    with c(1,2) n e inv show ?thesis
      by (auto simp: vboxdrvLinuxCreateCommon_def pp VBoxDrvLinuxErr2LinuxErr_def split: if_splits)
  qed
qed

datatype linux_op =
    LOpen bool linuxuser sessenv
  | LClose addr memenv rc
  | LIOCtl u32 u64 linuxcopy ioctlenv addr
  | LIdc u64 addr idcenv reqbuf

fun linuxStep :: "linux_op \<Rightarrow> supdrv \<Rightarrow> supdrv option" where
  "linuxStep (LOpen fU user env) s = Some (snd (if fU then VBoxDrvLinuxCreateSys user env s else VBoxDrvLinuxCreateUsr user env s))"
| "linuxStep (LClose a env rcStop) s = map_option snd (VBoxDrvLinuxClose a env rcStop s)"
| "linuxStep (LIOCtl uCmd ulArg copy env a) s = map_option snd (VBoxDrvLinuxIOCtl uCmd ulArg copy env a s)"
| "linuxStep (LIdc uReq pReq env b) s = map_option (\<lambda>(rc, b1, s1). s1) (SUPDrvLinuxIDC uReq pReq env b s)"

fun linuxOpOk :: "promise set \<Rightarrow> linux_op \<Rightarrow> supdrv \<Rightarrow> bool" where
  "linuxOpOk K (LOpen fU user env) s \<longleftrightarrow> sessOpOk K (SCreate True fU env) s"
| "linuxOpOk K (LClose a env rcStop) s \<longleftrightarrow> sessOpOk K (SRelease a env rcStop) s"
| "linuxOpOk K (LIOCtl uCmd ulArg copy env a) s \<longleftrightarrow> sessions s a \<noteq> None \<and> copy_lengths copy \<and> copy_sized copy \<and>
     (\<forall>b. copy_buf copy = Some b \<longrightarrow> io_env_ok K env b s)"
| "linuxOpOk K (LIdc uReq pReq env b) s \<longleftrightarrow> idc_buf_ok b \<and> idc_env_ok K uReq env b s"

lemma own_sess_inv: "drv_inv K t \<Longrightarrow> own a s t \<Longrightarrow> sess_inv K s \<Longrightarrow> sess_inv K t"
  by (auto simp: sess_inv_def own_def split: if_splits)

lemma ioctl_step:
  assumes inv: "sess_inv K s" and ok: "linuxOpOk K (LIOCtl uCmd ulArg copy env a) s"
  shows "\<exists>t. linuxStep (LIOCtl uCmd ulArg copy env a) s = Some t \<and> sess_inv K t"
proof -
  have drv: "drv_inv K s" using inv by (simp add: sess_inv_def)
  obtain ss where a: "sessions s a = Some ss" using ok by auto
  have fast: "\<exists>rc t. supdrvIOCtlFast u i a s = Some (rc, t) \<and> sess_inv K t" for u i
    using log_call_drv[OF drv a] inv own_sess_inv[OF _ _ inv] by (auto simp: supdrvIOCtlFast_def a Let_def)
  from slow_good[OF drv a, of copy env] ok obtain rc out t where
    "VBoxDrvLinuxIOCtlSlow uCmd copy env a s = Some ((rc, out), t)" "sess_inv K t"
    using own_sess_inv[OF _ _ inv] by (force simp: drv_ok_def)
  with fast[of "ucast uCmd" "ucast ulArg"] show ?thesis
    by (auto simp: VBoxDrvLinuxIOCtl_def a)
qed

lemma linuxStep_safe:
  assumes inv: "sess_inv K s" and ok: "linuxOpOk K op s"
  shows "\<exists>t. linuxStep op s = Some t \<and> sess_inv K t"
proof (cases op)
  case (LOpen fU user env)
  obtain rc p t where "vboxdrvLinuxCreateCommon fU user env s = ((rc, p), t)" by (metis surj_pair)
  with create_common_cases[OF inv _ this] ok LOpen show ?thesis
    by (cases fU) (simp_all add: VBoxDrvLinuxCreateSys_def VBoxDrvLinuxCreateUsr_def)
next
  case (LClose a env rcStop)
  with sessStep_safe[OF inv, of "SRelease a env rcStop"] ok show ?thesis by (auto simp: VBoxDrvLinuxClose_def)
next
  case (LIOCtl uCmd ulArg copy env a)
  with ioctl_step[OF inv] ok show ?thesis by blast
next
  case (LIdc uReq pReq env b)
  with idc_good[OF inv] ok show ?thesis by (fastforce simp: io_good_def)
qed

interpretation linuxapi: guarded_api linuxStep "linuxOpOk K" "sess_inv K" for K
  by unfold_locales (rule linuxStep_safe)

section \<open>Properties\<close>


text \<open>C34: A process without root privileges cannot change the driver: when the build is hardened, the file
  that such a process has opened is the restricted one, and no request on it, at any later time,
  changes anything.\<close>

theorem linux_unprivileged_readonly:
  assumes inv: "sess_inv K s" and new: "sessOpOk K (SCreate True fU env) s" and user: "lu_fHardening user" "lu_euid user \<noteq> 0"
    and op: "vboxdrvLinuxCreateCommon fU user env s = ((0, Some a), t)"
    and later: "sessions u a = Some su" "map_option s_fUnrestricted (sessions t a) = Some (s_fUnrestricted su)"
    and req: "VBoxDrvLinuxIOCtl uCmd ulArg copy ienv a u = Some (r, v)"
  shows "\<not> fU \<and> v = u"
proof -
  have fU: "\<not> fU" using op user by (auto simp: vboxdrvLinuxCreateCommon_def)
  from create_common_cases[OF inv new op] have "map_option s_fUnrestricted (sessions t a) = Some fU"
    by (auto simp: session_new_def)
  with later(2) fU have su: "\<not> s_fUnrestricted su" by simp
  have slow: "v = u" if "VBoxDrvLinuxIOCtlSlow uCmd copy ienv a u = Some (r, v)"
    using that unfolding VBoxDrvLinuxIOCtlSlow_def Let_def
    by (auto split: Option.bind_splits option.splits if_splits dest!: restricted_unchanged[OF later(1) su])
  have "VBoxDrvLinuxIOCtlSlow uCmd copy ienv a u = Some (r, v)"
    using req later(1) su by (simp add: VBoxDrvLinuxIOCtl_def split: if_splits)
  with fU slow show ?thesis by blast
qed

text \<open>
  The entry point does not require a whole header: a request of fewer than 20 bytes makes the dispatcher
  read the flags behind the end of the buffer.
\<close>

theorem linux_short_request_faults:
  assumes "lc_Hdr copy = Some h" "rd32 h OFF_cbIn = Some cbIn" "rd32 h OFF_cbOut = Some cbOut" "rd32 h OFF_fFlags = Some fFlags"
    "fFlags AND 0xff0000ff = 0x42000042" "max cbIn cbOut < 20" "IOC_SIZE uCmd = 0"
    "lc_Heap copy (unat (max cbIn cbOut)) = Some block" "length block = unat (max cbIn cbOut)"
    "lc_Req copy (unat cbIn) = Some bytes" "length bytes = unat cbIn"
  shows "VBoxDrvLinuxIOCtlSlow uCmd copy env a s = None"
proof -
  obtain b where b: "put_bytes block 0 bytes = Some b" "length b = length block"
    using put_bytes_ok[of 0 bytes block] assms(9,11) by (auto simp: max_def word_le_nat_alt split: if_splits)
  have "length b < 20" using b(2) assms(6,9) by (simp add: word_less_nat_alt)
  then have "rd32 b OFF_fFlags = None" by (simp add: rd32_def bytes_at_def)
  then have "supdrvIOCtl u env a b s = None" for u
    by (cases "rd32 b OFF_u32Cookie"; cases "rd32 b OFF_u32SessionCookie"; cases "rd32 b OFF_cbIn"; cases "rd32 b OFF_cbOut")
      (simp_all add: supdrvIOCtl_def)
  moreover have "\<not> max cbIn cbOut > 0x1000000" using assms(6) by (auto simp: word_less_nat_alt)
  ultimately show ?thesis using assms b(1) by (simp add: VBoxDrvLinuxIOCtlSlow_def Let_def)
qed

text \<open>
  The header is read twice.  When the user changes it in between, the sizes that the dispatcher checks are
  not those of the buffer: here a buffer of 24 bytes, and a request that claims 28 and 48.
\<close>

definition raced_copy :: linuxcopy where
  "raced_copy = \<lparr>lc_Hdr = Some (hdr_buf 24 24), lc_Req = (\<lambda>n. Some (take n (hdr_buf 28 48 @ replicate n 0))), lc_Heap = (\<lambda>n. Some (replicate n 0)), lc_fOut = True\<rparr>"

lemma raced_copy_eval:
  "length (hdr_buf 24 24) = 24 \<and> rd32 (hdr_buf 24 24) 8 = Some 24 \<and> rd32 (hdr_buf 24 24) 12 = Some 24 \<and> rd32 (hdr_buf 24 24) 16 = Some 0x42000042"
  "length (hdr_buf 28 48) = 24 \<and> rd32 (hdr_buf 28 48) 0 = Some BIRD \<and> rd32 (hdr_buf 28 48) 4 = Some BIRD_INV \<and>
   rd32 (hdr_buf 28 48) 8 = Some 28 \<and> rd32 (hdr_buf 28 48) 12 = Some 48 \<and> rd32 (hdr_buf 28 48) 16 = Some 0x42000042 \<and> rd32 (hdr_buf 28 48) 24 = None"
  "put_bytes (replicate 24 0) 0 (hdr_buf 28 48) = Some (hdr_buf 28 48)"
  by code_simp+

theorem linux_double_fetch_faults:
  "copy_lengths raced_copy \<and> VBoxDrvLinuxIOCtlSlow (ucast (SUP_CTL_CODE_SIZE 16 24)) raced_copy ioctlenv0 0x10000 driver0 = None"
proof -
  have "copy_lengths raced_copy" using raced_copy_eval(1,2) by (auto simp: copy_lengths_def raced_copy_def)
  moreover have "supdrvIOCtl (SUP_CTL_CODE_SIZE 16 24) ioctlenv0 0x10000 (hdr_buf 28 48) driver0 = None"
    using raced_copy_eval(2)
    by (simp add: supdrvIOCtl_def RT_VALID_PTR_def devext0_def session0_def SUP_CTL_CODE_SIZE_def SUP_CTL_CODE_NO_SIZE_def SUP_CTL_CODE_BIG_def
        supdrvIOCtlInnerUnrestricted_def ioctl_switch_def ioctl_cases_def ioctl_CONT_ALLOC_def REQ_CHECK_SIZES_EX_def REQ_CHECK_SIZE_IN_def
        REQ_CHECK_SIZE_OUT_def REQ_CHECK_EXPR_def)
  ultimately show ?thesis
    using raced_copy_eval by (simp add: VBoxDrvLinuxIOCtlSlow_def raced_copy_def Let_def IOC_SIZE_def SUP_CTL_CODE_SIZE_def)
qed

text \<open>
  The buffer is not cleared when it is allocated, and the output size of a request may exceed its input
  size: a version query with a wrong magic is answered with the last 8 bytes of the heap block, as
  they were.
\<close>

definition bad_magic_buf :: reqbuf where
  "bad_magic_buf = le_bytes 4 SUPCOOKIE_INITIAL_COOKIE @ le_bytes 4 (0 :: u32) @ le_bytes 4 (48 :: u32) @ le_bytes 4 (56 :: u32) @
     le_bytes 4 (0x42000042 :: u32) @ replicate 28 0"

definition bad_magic_copy :: "u8 list \<Rightarrow> linuxcopy" where
  "bad_magic_copy block = \<lparr>lc_Hdr = Some (take 24 bad_magic_buf), lc_Req = (\<lambda>n. Some (take n bad_magic_buf)), lc_Heap = (\<lambda>n. Some (take n block)),
     lc_fOut = True\<rparr>"

lemma bad_magic_eval:
  "length bad_magic_buf = 48 \<and> rd32 bad_magic_buf 0 = Some SUPCOOKIE_INITIAL_COOKIE \<and> rd32 bad_magic_buf 4 = Some 0 \<and> rd32 bad_magic_buf 8 = Some 48 \<and>
   rd32 bad_magic_buf 12 = Some 56 \<and> rd32 bad_magic_buf 16 = Some 0x42000042 \<and> bytes_at bad_magic_buf 24 16 = Some (replicate 16 0) \<and>
   rd32 (take 24 bad_magic_buf) 8 = Some 48 \<and> rd32 (take 24 bad_magic_buf) 12 = Some 56 \<and> rd32 (take 24 bad_magic_buf) 16 = Some 0x42000042"
  "replicate 16 0 \<noteq> SUPCOOKIE_MAGIC"
  by code_simp+

lemma bytes_at_append: "off + n \<le> length b \<Longrightarrow> bytes_at (b @ c) off n = bytes_at b off n"
  by (simp add: bytes_at_def)

lemma rd32_append: "off + 4 \<le> length b \<Longrightarrow> rd32 (b @ c) off = rd32 b off"
  by (simp add: rd32_def bytes_at_append)

theorem linux_answer_leaks_heap:
  assumes "length block = 56"
  shows "\<exists>out t. VBoxDrvLinuxIOCtlSlow (ucast SUP_IOCTL_COOKIE) (bad_magic_copy block) ioctlenv0 0x10000 driver0 = Some ((0, out), t) \<and>
    length out = 56 \<and> drop 48 out = drop 48 block"
proof -
  let ?b = "bad_magic_buf @ drop 48 block"
  obtain v where v: "v = le_bytes 4 (word_of_int VERR_INVALID_MAGIC :: u32)" "length v = 4" by simp
  let ?c = "take 20 ?b @ v @ drop 24 ?b"
  have len: "length bad_magic_buf = 48" using bad_magic_eval(1) by simp
  have b: "put_bytes block 0 bad_magic_buf = Some ?b" using assms len by (simp add: put_bytes_def)
  have c: "wr32 ?b 20 (word_of_int VERR_INVALID_MAGIC) = Some ?c" using assms len v by (simp add: wr32_def put_bytes_def)
  have "supdrvIOCtl SUP_IOCTL_COOKIE ioctlenv0 0x10000 ?b driver0 = Some (0, ?c, driver0)"
    using bad_magic_eval len c
    by (simp add: supdrvIOCtl_def rd32_append bytes_at_append RT_VALID_PTR_def session0_def devext0_def supdrvIOCtlInnerUnrestricted_def ioctl_switch_def
        ioctl_cases_def SUP_CTL_CODE_SIZE_def SUP_CTL_CODE_NO_SIZE_def ioctl_COOKIE_def REQ_CHECK_SIZES_EX_def REQ_CHECK_SIZE_IN_def
        REQ_CHECK_SIZE_OUT_def REQ_CHECK_EXPR_def io_ret_def del: append_assoc)
  moreover have "rd32 ?c 12 = Some 56"
    using rd32_wr_other(1)[OF c, of 12] bad_magic_eval(1) len by (simp add: rd32_append)
  moreover have "take 56 ?c = ?c" "length ?c = 56" "drop 48 ?c = drop 48 block" using assms len v(2) by simp_all
  ultimately show ?thesis
    using assms len b bad_magic_eval(1)
    by (simp add: VBoxDrvLinuxIOCtlSlow_def bad_magic_copy_def Let_def IOC_SIZE_def SUP_CTL_CODE_SIZE_def)
qed

section \<open>Witnesses\<close>

definition page_free_copy :: linuxcopy where
  "page_free_copy = \<lparr>lc_Hdr = Some (take 24 page_free_buf), lc_Req = (\<lambda>n. Some (take n (page_free_buf @ replicate n 0))),
     lc_Heap = (\<lambda>n. Some (replicate n 0)), lc_fOut = True\<rparr>"

lemma page_free_copy_eval:
  "length page_free_buf = 32 \<and> rd32 (take 24 page_free_buf) 8 = Some 32 \<and> rd32 (take 24 page_free_buf) 12 = Some 24 \<and>
   rd32 (take 24 page_free_buf) 16 = Some 0x42000042"
  "put_bytes (replicate 32 0) 0 (take 32 (page_free_buf @ replicate 32 0)) = Some page_free_buf"
  by code_simp+

lemma page_free_copy_ok: "copy_lengths page_free_copy" "copy_sized page_free_copy" "copy_buf page_free_copy = Some page_free_buf"
proof -
  show l: "copy_lengths page_free_copy" and "copy_buf page_free_copy = Some page_free_buf"
    using page_free_copy_eval by (auto simp: copy_lengths_def copy_buf_def page_free_copy_def)
  have "copy_stable page_free_copy"
    using page_free_copy_eval by (auto simp: copy_stable_def page_free_copy_def)
  then show "copy_sized page_free_copy" by (rule stable_sized[OF l])
qed


definition root_user :: linuxuser where
  "root_user = \<lparr>lu_fHardening = True, lu_euid = 0, lu_uid = 0, lu_gid = 0\<rparr>"

definition plain_user :: linuxuser where
  "plain_user = \<lparr>lu_fHardening = True, lu_euid = 1000, lu_uid = 1000, lu_gid = 1000\<rparr>"


theorem linux_unprivileged_readonly_witness:
  "\<exists>t u r. vboxdrvLinuxCreateCommon False plain_user sessenv0 (driver_full t) = ((0, Some 0x12000), u) \<and>
     VBoxDrvLinuxIOCtl (ucast (SUP_CTL_CODE_SIZE 13 32)) 0 page_free_copy ioctlenv0 0x12000 u = Some (r, u)"
proof -
  obtain t h where t: "ht_inv t" "ht_map t = [h \<mapsto> (0x20000, 4)]" "h \<noteq> 0" by (rule one_handle)
  let ?s = "driver_full t"
  have d: "d_u32Cookie (devext ?s) = BIRD" by (simp add: devext0_def)
  have new: "sessOpOk UNIV (SCreate True False sessenv0) ?s" by (simp add: sessenv0_def RT_VALID_PTR_def)
  obtain u where u: "vboxdrvLinuxCreateCommon False plain_user sessenv0 ?s = ((0, Some 0x12000), u)"
    by (simp add: vboxdrvLinuxCreateCommon_def create_session_eq[OF d] sessenv0_def VBoxDrvLinuxErr2LinuxErr_def)
  have inv: "sess_inv UNIV ?s" by (rule driver_full_ok[OF t(1,2)])
  from create_common_cases[OF inv new u] obtain su where
    c: "sess_inv UNIV u" "sessions u 0x12000 = Some su" "\<not> s_fUnrestricted su" "s_u32Cookie su = BIRD_INV" "d_u32Cookie (devext u) = BIRD"
    by (auto simp: sessenv0_def session_new_def devext0_def)
  have "supdrvIOCtl (SUP_CTL_CODE_SIZE 13 32) ioctlenv0 0x12000 page_free_buf u = Some (VERR_GENERAL_FAILURE, page_free_buf, u)"
    using c page_free_buf_eval by (simp add: supdrvIOCtl_def RT_VALID_PTR_def SUP_CTL_CODE_SIZE_def SUP_CTL_CODE_NO_SIZE_def
        supdrvIOCtlInnerRestricted_def ioctl_switch_def)
  then obtain r v where rv: "VBoxDrvLinuxIOCtl (ucast (SUP_CTL_CODE_SIZE 13 32)) 0 page_free_copy ioctlenv0 0x12000 u = Some (r, v)"
    using page_free_copy_eval page_free_buf_eval
    by (simp add: VBoxDrvLinuxIOCtl_def VBoxDrvLinuxIOCtlSlow_def page_free_copy_def Let_def IOC_SIZE_def SUP_CTL_CODE_SIZE_def SUP_CTL_CODE_BIG_def)
  from linux_unprivileged_readonly[OF inv new _ _ u c(2) _ rv] c(2) have "v = u" by (simp add: plain_user_def)
  with u rv show ?thesis by blast
qed

end
