(* ===== verification/SupInit.thy ===== *)
theory SupInit
  imports SupLinux
begin

text \<open>
  Loading and unloading the driver: \<open>supdrvInitDevExt\<close> and \<open>supdrvDeleteDevExt\<close> of \<open>SUPDrv.c\<close>, and
  the module entry points of \<open>linux/SUPDrv-linux.c\<close>.  The properties close the circle: a driver that is
  loaded satisfies the invariant that every operation keeps, and unloading it gives everything back.
\<close>

section \<open>The device extension\<close>

text \<open>After the \<open>memset\<close>.\<close>

definition devext_zero :: SUPDRVDEVEXT where
  "devext_zero = \<lparr>d_u32Cookie = 0, d_pObjs = [], d_pUsageFree = [], d_pvVMMR0 = 0, d_pfnVMMR0EntryInt = 0,
     d_pfnVMMR0EntryFast = 0, d_pfnVMMR0EntryEx = 0, d_pLdrImages = [], d_pLdrInitImage = 0, d_hLdrInitThread = 0,
     d_hGipSpinlock = False, d_pGip = 0, d_HCPhysGip = 0, d_cGipUsers = 0, d_GipMemObj = 0, d_pGipTimer = 0,
     d_fGipTimerRunning = False, d_u32SystemTimerGranularityGrant = 0, d_idGipMaster = 0, d_pComponentFactoryHead = []\<rparr>"

text \<open>
  What the driver has besides the device extension: the locks that exist, and the table of exported
  functions, which is a global variable.
\<close>

datatype devlock = DevSpinlock | GipSpinlock | MtxLdr | MtxComponentFactory | MtxGip

record drvglobals =
  dg_locks :: "devlock set"
  dg_aFunctions :: "(u8 list \<times> addr) list"

text \<open>
  What the system answers during initialisation: the status of each lock, the creation of the GIP,
  the status of the tracer, and the segment registers \<open>CS SS DS ES FS GS\<close>.
\<close>

record initenv =
  in_rcLock :: "devlock \<Rightarrow> rc"
  in_gip :: gipcreate
  in_rcTracer :: rc
  in_CS :: "16 word"
  in_SS :: "16 word"
  in_DS :: "16 word"
  in_ES :: "16 word"
  in_FS :: "16 word"
  in_GS :: "16 word"

text \<open>The first ten entries of the table, in the order the fix-up code relies on.\<close>

definition abs_symbols :: "initenv \<Rightarrow> addr list" where
  "abs_symbols env = [1, ucast (in_CS env), ucast (in_SS env), ucast (in_DS env),
     ucast (in_CS env), ucast (in_SS env), ucast (in_DS env), ucast (in_ES env), ucast (in_FS env), ucast (in_GS env)]"

definition fix_symbols :: "addr list \<Rightarrow> (u8 list \<times> addr) list \<Rightarrow> (u8 list \<times> addr) list" where
  "fix_symbols vs fs = map2 (\<lambda>f v. (fst f, v)) (take (length vs) fs) vs @ drop (length vs) fs"

text \<open>
  Creating a lock, doing the rest of the initialisation, and destroying the lock again when the rest
  has failed.
\<close>

definition with_lock :: "initenv \<Rightarrow> devlock \<Rightarrow> (drvglobals \<Rightarrow> supdrv \<Rightarrow> ((rc \<times> drvglobals) \<times> supdrv) option) \<Rightarrow>
    drvglobals \<Rightarrow> supdrv \<Rightarrow> ((rc \<times> drvglobals) \<times> supdrv) option" where
  "with_lock env l body G s =
     (if RT_FAILURE (in_rcLock env l) then Some ((in_rcLock env l, G), s)
      else do {
        ((rc, G1), s1) \<leftarrow> body (G\<lparr>dg_locks := insert l (dg_locks G)\<rparr>) s;
        Some ((rc, if RT_FAILURE rc then G1\<lparr>dg_locks := dg_locks G1 - {l}\<rparr> else G1), s1)
      })"

text \<open>The GIP, the tracer, and the last fields.\<close>

definition init_rest :: "nat \<Rightarrow> initenv \<Rightarrow> drvglobals \<Rightarrow> supdrv \<Rightarrow> ((rc \<times> drvglobals) \<times> supdrv) option" where
  "init_rest NR_CPUS env G s = do {
     (rc, s1) \<leftarrow> supdrvGipCreate NR_CPUS (in_gip env) s;
     if RT_FAILURE rc then Some ((rc, G), s1)
     else if RT_FAILURE (in_rcTracer env)
     then do { s2 \<leftarrow> supdrvGipDestroy (gce_nf (in_gip env)) s1; Some ((in_rcTracer env, G), s2) }
     else Some ((VINF_SUCCESS, G\<lparr>dg_aFunctions := fix_symbols (abs_symbols env) (dg_aFunctions G)\<rparr>),
            upd_devext (\<lambda>d. d\<lparr>d_pLdrInitImage := 0, d_hLdrInitThread := NIL_RTNATIVETHREAD, d_u32Cookie := BIRD\<rparr>) s1)
   }"

definition supdrvInitDevExt :: "nat \<Rightarrow> initenv \<Rightarrow> drvglobals \<Rightarrow> supdrv \<Rightarrow> ((rc \<times> drvglobals) \<times> supdrv) option" where
  "supdrvInitDevExt NR_CPUS env G s =
     with_lock env DevSpinlock (with_lock env GipSpinlock (with_lock env MtxLdr (with_lock env MtxComponentFactory
       (with_lock env MtxGip (init_rest NR_CPUS env))))) G (s\<lparr>devext := devext_zero\<rparr>)"

text \<open>
  Objects and usage records are freed along their lists; a list with a dangling pointer is a fault.
  \<open>nf\<close> is the status of native frees.
\<close>

fun free_objs :: "addr list \<Rightarrow> (addr \<rightharpoonup> SUPDRVOBJ) \<Rightarrow> (addr \<rightharpoonup> SUPDRVOBJ) option" where
  "free_objs [] h = Some h"
| "free_objs (p # ps) h = do { ob \<leftarrow> h p; free_objs ps (h(p := None)) }"

definition supdrvDeleteDevExt :: "(addr \<Rightarrow> rc) \<Rightarrow> drvglobals \<Rightarrow> supdrv \<Rightarrow> (drvglobals \<times> supdrv) option" where
  "supdrvDeleteDevExt nf G s = do {
     h \<leftarrow> free_objs (d_pObjs (devext s)) (objs s);
     s1 \<leftarrow> supdrvGipDestroy nf (upd_devext (\<lambda>d. d\<lparr>d_pObjs := [], d_pUsageFree := []\<rparr>) (s\<lparr>objs := h\<rparr>));
     Some (G\<lparr>dg_locks := dg_locks G - {MtxGip, MtxLdr, DevSpinlock, MtxComponentFactory, GipSpinlock}\<rparr>, s1)
   }"

section \<open>The module\<close>

text \<open>
  What is registered with the kernel, and whether IPRT is initialised.  \<open>li_fMisc\<close> and \<open>li_fSuspend\<close>
  are the build options \<open>CONFIG_VBOXDRV_AS_MISC\<close> and \<open>VBOX_WITH_SUSPEND_NOTIFICATION\<close>; the other fields
  are what the kernel and IPRT answer.
\<close>

datatype lxreg = DevSys | DevUsr | PlatformDriver | PlatformDevice

record linuxmod =
  lm_regs :: "lxreg set"
  lm_fRuntime :: bool

record linuxinit =
  li_fMisc :: bool
  li_fSuspend :: bool
  li_rcSys :: errno
  li_rcUsr :: errno
  li_rcRuntime :: rc
  li_dev :: initenv
  li_rcDriver :: errno
  li_rcDevice :: errno

definition lx_add :: "lxreg \<Rightarrow> linuxmod \<Rightarrow> linuxmod" where
  "lx_add r m = m\<lparr>lm_regs := insert r (lm_regs m)\<rparr>"

definition lx_del :: "lxreg set \<Rightarrow> linuxmod \<Rightarrow> linuxmod" where
  "lx_del rs m = m\<lparr>lm_regs := lm_regs m - rs\<rparr>"

text \<open>The devices.  Answers the status, and whether the rest of the initialisation is done.\<close>

definition linux_devices :: "linuxinit \<Rightarrow> linuxmod \<Rightarrow> (errno \<times> bool) \<times> linuxmod" where
  "linux_devices env m =
     (if li_fMisc env
      then if li_rcSys env \<noteq> 0 then ((li_rcSys env, False), m)
           else if li_rcUsr env \<noteq> 0 then ((li_rcUsr env, False), lx_del {DevSys} (lx_add DevSys m))
           else ((0, True), lx_add DevUsr (lx_add DevSys m))
      else if li_rcSys env < 0 then ((li_rcSys env, False), m)
           else if li_rcUsr env < 0 then ((li_rcUsr env, False), lx_add DevSys m)
           else ((0, True), lx_add DevUsr (lx_add DevSys m)))"

text \<open>The suspend notifications.  Answers whether they are registered.\<close>

definition linux_platform :: "linuxinit \<Rightarrow> linuxmod \<Rightarrow> bool \<times> linuxmod" where
  "linux_platform env m =
     (if \<not> li_fSuspend env then (True, m)
      else if li_rcDriver env \<noteq> 0 then (False, m)
      else if li_rcDevice env \<noteq> 0 then (False, lx_del {PlatformDriver} (lx_add PlatformDriver m))
      else (True, lx_add PlatformDevice (lx_add PlatformDriver m)))"

definition linux_fail :: "linuxmod \<Rightarrow> linuxmod" where
  "linux_fail m = lx_del {DevSys, DevUsr} (m\<lparr>lm_fRuntime := False\<rparr>)"

definition VBoxDrvLinuxInit :: "nat \<Rightarrow> linuxinit \<Rightarrow> linuxmod \<Rightarrow> drvglobals \<Rightarrow> supdrv \<Rightarrow>
    ((errno \<times> linuxmod \<times> drvglobals) \<times> supdrv) option" where
  "VBoxDrvLinuxInit NR_CPUS env m G s =
     (let ((rc, fGo), m1) = linux_devices env m in
      if \<not> fGo then Some ((rc, m1, G), s)
      else if RT_FAILURE (li_rcRuntime env) then Some ((- EINVAL, lx_del {DevSys, DevUsr} m1, G), s)
      else do {
        ((rc, G1), s1) \<leftarrow> supdrvInitDevExt NR_CPUS (li_dev env) G s;
        if RT_FAILURE rc then Some ((- EINVAL, linux_fail (m1\<lparr>lm_fRuntime := True\<rparr>), G1), s1)
        else let (ok, m2) = linux_platform env (m1\<lparr>lm_fRuntime := True\<rparr>) in
          if ok
          then do { g \<leftarrow> gips s1 (d_pGip (devext s1)); Some ((if li_fSuspend env then 0 else rc, m2, G1), s1) }
          else Some ((- EINVAL, linux_fail m2, G1), s1)
      })"

definition VBoxDrvLinuxUnload :: "bool \<Rightarrow> (addr \<Rightarrow> rc) \<Rightarrow> linuxmod \<Rightarrow> drvglobals \<Rightarrow> supdrv \<Rightarrow>
    ((linuxmod \<times> drvglobals) \<times> supdrv) option" where
  "VBoxDrvLinuxUnload fSuspend nf m G s = do {
     (G1, s1) \<leftarrow> supdrvDeleteDevExt nf G s;
     Some (((lx_del ((if fSuspend then {PlatformDevice, PlatformDriver} else {}) \<union> {DevUsr, DevSys}) m)\<lparr>lm_fRuntime := False\<rparr>, G1), s1)
   }"

section \<open>The GIP is created and destroyed\<close>

text \<open>Registered CPUs: an entry of the page is theirs and marked online.\<close>

definition cpu_online :: "SUPGLOBALINFOPAGE \<Rightarrow> u32 \<Rightarrow> bool" where
  "cpu_online g x \<longleftrightarrow> (\<exists>i < length (g_aCPUs g). gc_idCpu (g_aCPUs g ! i) = x \<and> gc_enmState (g_aCPUs g ! i) = SUPGIPCPUSTATE_ONLINE)"

lemma set_cpu_ids: "x \<in> set (cpu_ids g) \<longleftrightarrow> x \<noteq> NIL_RTCPUID \<and> (\<exists>i < length (g_aCPUs g). gc_idCpu (g_aCPUs g ! i) = x)"
  unfolding cpu_ids_def set_filter set_map mem_Collect_eq image_iff by (metis in_set_conv_nth)

lemma room_by_count:
  assumes "page_ok g" "card (set (cpu_ids g)) < length (g_aCPUs g)" "x \<noteq> NIL_RTCPUID"
  shows "cpu_room x g"
proof (rule ccontr)
  assume "\<not> cpu_room x g"
  with assms(3) have "\<forall>y \<in> set (map gc_idCpu (g_aCPUs g)). y \<noteq> NIL_RTCPUID" unfolding cpu_room_def set_map by blast
  then have "cpu_ids g = map gc_idCpu (g_aCPUs g)" by (simp add: cpu_ids_def filter_id_conv)
  moreover have "card (set (cpu_ids g)) = length (cpu_ids g)" using assms(1) by (simp add: page_ok_def distinct_card)
  ultimately show False using assms(2) by simp
qed

lemma online_registers:
  assumes g: "page_ok g" and x: "0 \<le> RTMpCpuIdToSetIndex nr x" and n: "card (set (cpu_ids g)) < length (g_aCPUs g)"
  shows "\<exists>g'. gip_online nr env x g = Some g' \<and> page_ok g' \<and> length (g_aCPUs g') = length (g_aCPUs g) \<and>
    set (cpu_ids g') = insert x (set (cpu_ids g)) \<and> (\<forall>y. cpu_online g y \<or> y = x \<longrightarrow> y \<noteq> NIL_RTCPUID \<longrightarrow> cpu_online g' y)"
proof -
  have xn: "x \<noteq> NIL_RTCPUID" using x by (auto simp: RTMpCpuIdToSetIndex_def)
  from gip_online_ok[OF g room_by_count[OF g n xn] x, of env] obtain g' i where
    g': "gip_online nr env x g = Some g'" "page_ok g'" "i < length (g_aCPUs g)" "g_cCpus g' = g_cCpus g"
      "\<forall>j. j \<noteq> i \<longrightarrow> g_aCPUs g' ! j = g_aCPUs g ! j" "gc_idCpu (g_aCPUs g ! i) \<in> {x, NIL_RTCPUID}"
      "gc_idCpu (g_aCPUs g' ! i) = x" "gc_enmState (g_aCPUs g' ! i) = SUPGIPCPUSTATE_ONLINE" by blast
  have len: "length (g_aCPUs g') = length (g_aCPUs g)" using g g'(2,4) by (simp add: page_ok_def)
  have "y \<in> set (cpu_ids g') \<longleftrightarrow> y \<in> insert x (set (cpu_ids g))" for y
    unfolding insert_iff set_cpu_ids len using g'(3,5,6,7) xn by (metis insertE singletonD)
  moreover have "cpu_online g' y" if "cpu_online g y \<or> y = x" "y \<noteq> NIL_RTCPUID" for y
    unfolding cpu_online_def len using that g'(3,5,6,7,8) by (metis cpu_online_def insertE singletonD)
  ultimately show ?thesis using g'(1,2) len by (intro exI[of _ g']) blast
qed

lemma online_all:
  assumes "gip_inv K s" "gips s (d_pGip (devext s)) = Some g" "\<forall>y \<in> set (cpu_ids g). cpu_online g y"
    "\<forall>e \<in> set es. 0 \<le> RTMpCpuIdToSetIndex nr (me_idCpu e)" "distinct (map me_idCpu es)"
    "set (cpu_ids g) \<inter> me_idCpu ` set es = {}" "card (set (cpu_ids g)) + length es \<le> length (g_aCPUs g)"
  shows "\<exists>g'. on_all (\<lambda>e. supdrvGipMpEventOnline nr e (me_idCpu e)) es s = Some (put_gip (d_pGip (devext s)) g' s) \<and>
    gip_inv K (put_gip (d_pGip (devext s)) g' s) \<and> (\<forall>y \<in> set (cpu_ids g) \<union> me_idCpu ` set es. cpu_online g' y)"
  using assms
proof (induction es arbitrary: s g)
  case Nil
  have "put_gip (d_pGip (devext s)) g s = s" using Nil.prems(2) by (simp add: put_gip_def fun_upd_idem)
  with Nil show ?case by (intro exI[of _ g]) simp
next
  case (Cons e es)
  let ?x = "me_idCpu e" and ?p = "d_pGip (devext s)"
  have g: "page_ok g" "RT_VALID_PTR ?p" "\<not> d_hGipSpinlock (devext s)" using Cons.prems(1,2) by (auto simp: gip_inv_def)
  have "0 \<le> RTMpCpuIdToSetIndex nr ?x" "card (set (cpu_ids g)) < length (g_aCPUs g)" using Cons.prems by simp_all
  from online_registers[OF g(1) this, of e] obtain g1 where
    g1: "gip_online nr e ?x g = Some g1" "page_ok g1" "length (g_aCPUs g1) = length (g_aCPUs g)"
      "set (cpu_ids g1) = insert ?x (set (cpu_ids g))" "\<forall>y. cpu_online g y \<or> y = ?x \<longrightarrow> y \<noteq> NIL_RTCPUID \<longrightarrow> cpu_online g1 y" by blast
  let ?s = "put_gip ?p g1 s"
  have inv: "gip_inv K ?s" by (rule gip_inv_put_gip[OF Cons.prems(1) g1(2)])
  have e1: "supdrvGipMpEventOnline nr e ?x s = Some ?s"
    using g g1(1) Cons.prems(2) by (simp add: supdrvGipMpEventOnline_def with_gip_def)
  have on: "\<forall>y \<in> set (cpu_ids g1). cpu_online g1 y"
    using Cons.prems(3) g1(4,5) by (auto simp: set_cpu_ids[of _ g1] set_cpu_ids)
  have "?x \<notin> set (cpu_ids g)" "?x \<notin> me_idCpu ` set es" using Cons.prems(5,6) by auto
  then have "set (cpu_ids g1) \<inter> me_idCpu ` set es = {}" "card (set (cpu_ids g1)) + length es \<le> length (g_aCPUs g1)"
    using Cons.prems(6,7) by (auto simp: g1(3,4))
  from Cons.IH[of ?s g1, OF inv _ on _ _ this] Cons.prems(4,5) obtain g' where
    "on_all (\<lambda>e. supdrvGipMpEventOnline nr e (me_idCpu e)) es ?s = Some (put_gip ?p g' ?s)" "gip_inv K (put_gip ?p g' ?s)"
    "\<forall>y \<in> set (cpu_ids g1) \<union> me_idCpu ` set es. cpu_online g' y" by auto
  moreover have "put_gip ?p g' ?s = put_gip ?p g' s" by (simp add: put_gip_def)
  ultimately show ?case using e1 g1(4) by (intro exI[of _ g']) simp
qed

lemma GipDestroy_ok:
  assumes h: "heap_ok (memobjs s)" and p: "d_pGip (devext s) \<noteq> 0 \<Longrightarrow> gips s (d_pGip (devext s)) \<noteq> None"
    and m: "d_GipMemObj (devext s) \<noteq> 0 \<Longrightarrow> obj_at (memobjs s) (d_GipMemObj (devext s))"
  shows "\<exists>r h gs. RTR0MemObjFree nf (d_GipMemObj (devext s)) True (memobjs s) = Some (r, h) \<and> heap_ok h \<and>
    supdrvGipDestroy nf s = Some (s\<lparr>memobjs := h, gips := gs, g_pSUPGlobalInfoPage := 0, devext := (devext s)\<lparr>d_pGip := 0,
      d_pGipTimer := 0, d_fGipTimerRunning := False, d_GipMemObj := 0, d_u32SystemTimerGranularityGrant := 0\<rparr>\<rparr>)"
proof -
  from free_ok[OF h, of "d_GipMemObj (devext s)" 0 nf True] m obtain r h' where
    f: "RTR0MemObjFree nf (d_GipMemObj (devext s)) True (memobjs s) = Some (r, h')" "heap_ok h'" by blast
  let ?gs1 = "if d_pGip (devext s) = 0 then gips s
    else (gips s)(d_pGip (devext s) \<mapsto> supdrvGipTerm (the (gips s (d_pGip (devext s)))))"
  let ?gs = "if d_GipMemObj (devext s) \<noteq> 0 \<and> RT_SUCCESS r then ?gs1(d_pGip (devext s) := None) else ?gs1"
  have "h' = memobjs s" if "d_GipMemObj (devext s) = 0" using f(1) that by (simp add: RTR0MemObjFree_def)
  with p f(1) have "supdrvGipDestroy nf s = Some (s\<lparr>memobjs := h', gips := ?gs, g_pSUPGlobalInfoPage := 0, devext := (devext s)\<lparr>d_pGip := 0,
      d_pGipTimer := 0, d_fGipTimerRunning := False, d_GipMemObj := 0, d_u32SystemTimerGranularityGrant := 0\<rparr>\<rparr>)"
    by (cases "d_GipMemObj (devext s) = 0"; cases "d_pGip (devext s) = 0"; cases "gips s (d_pGip (devext s))")
      (simp_all add: supdrvGipDestroy_def Let_def upd_devext_def put_gip_def not_less supdrv.equality SUPDRVDEVEXT.equality)
  with f show ?thesis by blast
qed

text \<open>
  What the system owes: a fresh handle and kernel addresses; a timer granularity of at most a second
  and not zero; CPU ids in range, each CPU called once, at most as many as the array has; frees that
  succeed.
\<close>

definition gipcreate_ok :: "nat \<Rightarrow> gipcreate \<Rightarrow> supdrv \<Rightarrow> bool" where
  "gipcreate_ok NR_CPUS env s \<longleftrightarrow> 1 \<le> gce_cCpus env \<and>
     (RT_SUCCESS (gce_rcAlloc env) \<longrightarrow> memobjs s (gce_hMem env) = None \<and> RT_VALID_PTR (gce_hMem env) \<and> RT_VALID_PTR (gce_pv env)) \<and>
     0 < unat (gce_res env) \<and> unat (gce_res env) \<le> 1000000000 \<and>
     (\<forall>e \<in> set (gce_onAll env). 0 \<le> RTMpCpuIdToSetIndex NR_CPUS (me_idCpu e)) \<and>
     distinct (map me_idCpu (gce_onAll env)) \<and> length (gce_onAll env) \<le> gce_cCpus env \<and> (\<forall>q. RT_SUCCESS (gce_nf env q))"

lemma update_hz_ok:
  assumes "0 < unat res" "unat res \<le> 1000000000"
  shows "\<exists>v. gip_grow_interval res res = Some v \<and> 1000000000 div v \<noteq> 0"
proof (cases "10000000 \<le> unat res")
  case True
  then have "gip_grow_interval res res = Some res" by (subst gip_grow_interval.simps) (simp add: word_less_nat_alt)
  moreover have "unat (1000000000 div res) \<noteq> 0" using assms by (simp add: unat_div div_eq_0_iff)
  ultimately show ?thesis by auto
next
  case False
  let ?k = "(10000000 + unat res - 1) div unat res"
  have "gip_grow_interval res (of_nat (1 * unat res)) = Some (of_nat (?k * unat res))"
    using assms False by (intro grow_interval_steps) simp_all
  then have e: "gip_grow_interval res res = Some (of_nat (?k * unat res))" by simp
  have "?k * unat res \<le> 10000000 + unat res - 1" by simp
  then have le: "?k * unat res < 20000000" using False by linarith
  have "1 \<le> ?k" using assms(1) by (simp add: Suc_le_eq div_greater_zero_iff)
  then have pos: "0 < ?k * unat res" using assms(1) by simp
  have u: "unat (of_nat (?k * unat res) :: u32) = ?k * unat res"
    using le by (simp only: unsigned_of_nat of_nat_id) (simp add: take_bit_nat_eq_self)
  have "unat (1000000000 div (of_nat (?k * unat res) :: u32)) = 1000000000 div (?k * unat res)" by (simp only: unat_div u) simp
  also have "\<dots> \<noteq> 0" using le pos by (simp add: div_eq_0_iff)
  finally show ?thesis using e by auto
qed

text \<open>The outcome of a creation: the page with all CPUs registered, or no trace but a stale physical address.\<close>

definition gip_blank :: "SUPDRVDEVEXT \<Rightarrow> SUPDRVDEVEXT" where
  "gip_blank d = d\<lparr>d_pGip := 0, d_HCPhysGip := 0, d_GipMemObj := 0, d_pGipTimer := 0\<rparr>"

definition gip_created :: "promise set \<Rightarrow> gipcreate \<Rightarrow> rc \<Rightarrow> supdrv \<Rightarrow> supdrv \<Rightarrow> bool" where
  "gip_created K env rc s t \<longleftrightarrow> (\<exists>h gs q d. t = s\<lparr>memobjs := h, gips := gs, g_pSUPGlobalInfoPage := q, devext := d\<rparr> \<and>
     gip_blank d = devext_zero \<and>
     (if RT_SUCCESS rc
      then rc = 0 \<and> gip_inv K t \<and> q = gce_pv env \<and> d_pGip d = gce_pv env \<and> d_GipMemObj d = gce_hMem env \<and>
        memobjs s (gce_hMem env) = None \<and> RT_VALID_PTR (gce_hMem env) \<and>
        (\<exists>m. h = (memobjs s)(gce_hMem env \<mapsto> m) \<and> mo_enmType m \<noteq> MO_MAPPING \<and> mo_papMappings m = [] \<and> mo_live m) \<and>
        (\<exists>g. gs (gce_pv env) = Some g \<and> (\<forall>e \<in> set (gce_onAll env). cpu_online g (me_idCpu e)))
      else h = memobjs s \<and> d_pGip d = 0 \<and> d_GipMemObj d = 0 \<and> d_pGipTimer d = 0))"

lemma gip_created_fail:
  assumes d: "devext s = devext_zero" and o: "RT_VALID_PTR hMem" "memobjs s hMem = None" "RT_SUCCESS (gce_nf env hMem)" "RT_FAILURE rc"
    and m: "mo_enmType m \<noteq> MO_MAPPING" "mo_papMappings m = []" "mo_live m" "heap_ok ((memobjs s)(hMem \<mapsto> m))"
    and t: "t = s\<lparr>memobjs := (memobjs s)(hMem \<mapsto> m), gips := gs, g_pSUPGlobalInfoPage := q, devext := d\<rparr>" "gip_blank d = devext_zero" "d_GipMemObj d = hMem"
      "gs (d_pGip d) \<noteq> None"
  shows "\<exists>u. supdrvGipDestroy (gce_nf env) t = Some u \<and> gip_created K env rc s u"
proof -
  have hm: "heap_ok (memobjs t)" "d_pGip (devext t) \<noteq> 0 \<Longrightarrow> gips t (d_pGip (devext t)) \<noteq> None"
    "d_GipMemObj (devext t) \<noteq> 0 \<Longrightarrow> obj_at (memobjs t) (d_GipMemObj (devext t))"
    using m t by (simp_all add: obj_at_def)
  from GipDestroy_ok[OF hm, of "gce_nf env"] obtain r h gs' where
    f: "RTR0MemObjFree (gce_nf env) (d_GipMemObj (devext t)) True (memobjs t) = Some (r, h)"
    "supdrvGipDestroy (gce_nf env) t = Some (t\<lparr>memobjs := h, gips := gs', g_pSUPGlobalInfoPage := 0, devext := (devext t)\<lparr>d_pGip := 0,
      d_pGipTimer := 0, d_fGipTimerRunning := False, d_GipMemObj := 0, d_u32SystemTimerGranularityGrant := 0\<rparr>\<rparr>)" by blast
  have "h = memobjs s" using f(1) free_fresh[where nf = "gce_nf env" and q = hMem and h = "memobjs s" and m = m and f = True] o m by (simp add: t)
  let ?d = "d\<lparr>d_pGip := 0, d_pGipTimer := 0, d_fGipTimerRunning := False, d_GipMemObj := 0, d_u32SystemTimerGranularityGrant := 0\<rparr>"
  have "gip_blank ?d = devext_zero" using t(2) by (cases d) (simp add: gip_blank_def devext_zero_def)
  with \<open>h = memobjs s\<close> o(4) have "gip_created K env rc s (t\<lparr>memobjs := h, gips := gs', g_pSUPGlobalInfoPage := 0, devext := ?d\<rparr>)"
    unfolding gip_created_def t(1)
    by (intro exI[of _ "memobjs s"] exI[of _ gs'] exI[of _ 0] exI[of _ ?d]) simp
  with f(2) t(1) show ?thesis by simp
qed

lemma gip_created_same: "devext s = devext_zero \<Longrightarrow> RT_FAILURE rc \<Longrightarrow> gip_created K env rc s s"
  unfolding gip_created_def
  by (intro exI[of _ "memobjs s"] exI[of _ "gips s"] exI[of _ "g_pSUPGlobalInfoPage s"] exI[of _ devext_zero])
    (simp add: gip_blank_def devext_zero_def)

text \<open>The allocation, the page and the fields, up to the status of the timer.\<close>

lemma GipCreate_prepare:
  assumes d: "devext s = devext_zero" and h: "heap_ok (memobjs s)" and ok: "gipcreate_ok NR_CPUS env s"
    and go: "\<not> (256 < gce_cCpus env \<or> RT_FAILURE (gce_rcAlloc env))"
  obtains m g d1 rcT where "mo_enmType m \<noteq> MO_MAPPING" "mo_papMappings m = []" "mo_live m"
    "heap_ok ((memobjs s)(gce_hMem env \<mapsto> m))" "page_ok g" "cpu_ids g = []" "length (g_aCPUs g) = gce_cCpus env"
    "gip_blank d1 = devext_zero" "d_pGip d1 = gce_pv env" "d_GipMemObj d1 = gce_hMem env" "\<not> d_hGipSpinlock d1"
    "d_cGipUsers d1 = 0" "\<not> d_fGipTimerRunning d1"
    "supdrvGipCreate NR_CPUS env s =
      (let s1 = s\<lparr>memobjs := (memobjs s)(gce_hMem env \<mapsto> m), gips := (gips s)(gce_pv env \<mapsto> g), devext := d1\<rparr> in
       if RT_FAILURE rcT then do { s2 \<leftarrow> supdrvGipDestroy (gce_nf env) s1; Some (rcT, s2) }
       else if RT_FAILURE (gce_rcNotify env) then do { s2 \<leftarrow> supdrvGipDestroy (gce_nf env) s1; Some (gce_rcNotify env, s2) }
       else do {
         s2 \<leftarrow> on_all (\<lambda>e. supdrvGipMpEventOnline NR_CPUS e (me_idCpu e)) (gce_onAll env) s1;
         if RT_SUCCESS (gce_rcOnAll env) then Some (VINF_SUCCESS, s2\<lparr>g_pSUPGlobalInfoPage := gce_pv env\<rparr>)
         else do { s3 \<leftarrow> supdrvGipDestroy (gce_nf env) s2; Some (gce_rcOnAll env, s3) }
       })"
proof -
  let ?nf = "gce_nf env" and ?p = "gce_hMem env" and ?pv = "gce_pv env"
  define m where "m = memobj_new MO_CONT (of_nat ((gip_size (gce_cCpus env) + 0xfff) div 0x1000 * 0x1000)) ?pv NIL_RTR0PROCESS (\<lambda>i. gce_HCPhys env + 0x1000 * i)"
  let ?h = "(memobjs s)(?p \<mapsto> m)"
  have p: "memobjs s ?p = None" "RT_VALID_PTR ?p" "?p \<noteq> 0" "?pv \<noteq> 0" using ok go by (auto simp: gipcreate_ok_def not_less)
  have al: "memobj_alloc (gce_rcAlloc env) ?p m (memobjs s) = (gce_rcAlloc env, ?p, ?h)" using go by (simp add: memobj_alloc_def)
  have m: "mo_enmType m \<noteq> MO_MAPPING" "mo_papMappings m = []" "mo_live m" by (simp_all add: m_def memobj_new_def)
  have hok: "heap_ok ?h" using memobj_alloc_ok[OF h _ _ al[unfolded m_def]] p go by (simp add: m_def)
  have addr: "RTR0MemObjAddress ?h ?p = Some ?pv" using p by (simp add: RTR0MemObjAddress_def memobj_new_def m_def)
  have "RTR0MemObjGetPagePhysAddr ?h ?p 0 \<noteq> None" using p by (simp add: RTR0MemObjGetPagePhysAddr_def)
  then obtain phys where phys: "RTR0MemObjGetPagePhysAddr ?h ?p 0 = Some phys" by blast
  from update_hz_ok[of "gce_res env"] ok obtain v where v: "gip_grow_interval (gce_res env) (gce_res env) = Some v" "1000000000 div v \<noteq> 0"
    by (auto simp: gipcreate_ok_def)
  have "0 < gce_cCpus env" "gce_cCpus env \<le> 256" using ok go by (simp_all add: gipcreate_ok_def)
  from GipInit_ok[OF v(2) this, of "gce_mode env" "gce_counts env" "gce_NanoTS env" "gce_TSC env"] obtain g where
    g: "supdrvGipInit (gce_mode env) (gce_counts env) (gce_NanoTS env) (gce_TSC env) (1000000000 div v) (gce_cCpus env) = Some g"
      "page_ok g" "unat (g_cCpus g) = gce_cCpus env" "cpu_ids g = []" by blast
  obtain rcT mode where tm: "gip_create_timer env (gce_mode env) = (rcT, mode)" by fastforce
  let ?g = "g\<lparr>g_u32Mode := mode\<rparr>"
  define d1 where "d1 = devext_zero\<lparr>d_GipMemObj := ?p, d_pGip := ?pv, d_HCPhysGip := phys, d_cGipUsers := 0,
      d_pGipTimer := (if RT_SUCCESS rcT then gce_pTimer env else 0)\<rparr>"
  have d1: "gip_blank d1 = devext_zero" "d_pGip d1 = ?pv" "d_GipMemObj d1 = ?p" "\<not> d_hGipSpinlock d1" "d_cGipUsers d1 = 0"
    "\<not> d_fGipTimerRunning d1" by (simp_all add: d1_def gip_blank_def devext_zero_def)
  have pg: "page_ok ?g" "cpu_ids ?g = []" "length (g_aCPUs ?g) = gce_cCpus env" using g by (simp_all add: page_ok_def cpu_ids_def)
  have e: "put_gip ?pv ?g (upd_devext (\<lambda>d. d\<lparr>d_GipMemObj := ?p, d_pGip := ?pv, d_HCPhysGip := phys, d_cGipUsers := 0,
      d_pGipTimer := (if RT_SUCCESS rcT then gce_pTimer env else d_pGipTimer d)\<rparr>) (s\<lparr>memobjs := ?h\<rparr>)) =
    s\<lparr>memobjs := ?h, gips := (gips s)(?pv \<mapsto> ?g), devext := d1\<rparr>"
    by (simp add: put_gip_def upd_devext_def d d1_def devext_zero_def)
  show thesis
    by (rule that[of m ?g d1 rcT, OF m hok pg d1], unfold supdrvGipCreate_def Let_def m_def[symmetric] al prod.case addr phys v(1) g(1) tm bind.bind_lunit e)
      (use go in simp)
qed

lemma GipCreate_ok:
  assumes d: "devext s = devext_zero" and se: "sessions s = Map.empty" and h: "heap_ok (memobjs s)" and ok: "gipcreate_ok NR_CPUS env s"
  shows "\<exists>rc t. supdrvGipCreate NR_CPUS env s = Some (rc, t) \<and> gip_created K env rc s t"
proof (cases "256 < gce_cCpus env \<or> RT_FAILURE (gce_rcAlloc env)")
  case True
  have "upd_devext (\<lambda>d. d\<lparr>d_GipMemObj := 0\<rparr>) (s\<lparr>memobjs := memobjs s\<rparr>) = s" using d by (simp add: upd_devext_def devext_zero_def)
  with True gip_created_same[OF d] show ?thesis by (auto simp: supdrvGipCreate_def memobj_alloc_def)
next
  case False
  let ?nf = "gce_nf env" and ?p = "gce_hMem env" and ?pv = "gce_pv env"
  from GipCreate_prepare[OF d h ok False] obtain m g d1 rcT where
    m: "mo_enmType m \<noteq> MO_MAPPING" "mo_papMappings m = []" "mo_live m" "heap_ok ((memobjs s)(?p \<mapsto> m))"
    and pg: "page_ok g" "cpu_ids g = []" "length (g_aCPUs g) = gce_cCpus env"
    and d1: "gip_blank d1 = devext_zero" "d_pGip d1 = ?pv" "d_GipMemObj d1 = ?p" "\<not> d_hGipSpinlock d1"
      "d_cGipUsers d1 = 0" "\<not> d_fGipTimerRunning d1"
    and eq: "supdrvGipCreate NR_CPUS env s =
      (let s1 = s\<lparr>memobjs := (memobjs s)(?p \<mapsto> m), gips := (gips s)(?pv \<mapsto> g), devext := d1\<rparr> in
       if RT_FAILURE rcT then do { s2 \<leftarrow> supdrvGipDestroy ?nf s1; Some (rcT, s2) }
       else if RT_FAILURE (gce_rcNotify env) then do { s2 \<leftarrow> supdrvGipDestroy ?nf s1; Some (gce_rcNotify env, s2) }
       else do {
         s2 \<leftarrow> on_all (\<lambda>e. supdrvGipMpEventOnline NR_CPUS e (me_idCpu e)) (gce_onAll env) s1;
         if RT_SUCCESS (gce_rcOnAll env) then Some (VINF_SUCCESS, s2\<lparr>g_pSUPGlobalInfoPage := ?pv\<rparr>)
         else do { s3 \<leftarrow> supdrvGipDestroy ?nf s2; Some (gce_rcOnAll env, s3) }
       })" .
  let ?s1 = "s\<lparr>memobjs := (memobjs s)(?p \<mapsto> m), gips := (gips s)(?pv \<mapsto> g), devext := d1\<rparr>"
  have p: "memobjs s ?p = None" "RT_VALID_PTR ?p" "RT_VALID_PTR ?pv" "RT_SUCCESS (?nf ?p)" using ok False by (auto simp: gipcreate_ok_def not_less)
  have inv: "gip_inv K ?s1" using p m pg(1) se d1 by (simp add: gip_inv_def gip_count_def gip_users_def obj_at_def)
  from online_all[OF inv, of g "gce_onAll env" NR_CPUS] pg d1(2) ok obtain g2 where
    on: "on_all (\<lambda>e. supdrvGipMpEventOnline NR_CPUS e (me_idCpu e)) (gce_onAll env) ?s1 = Some (put_gip ?pv g2 ?s1)"
      "gip_inv K (put_gip ?pv g2 ?s1)" "\<forall>e \<in> set (gce_onAll env). cpu_online g2 (me_idCpu e)"
    by (auto simp: gipcreate_ok_def)
  have s2: "put_gip ?pv g2 ?s1 = s\<lparr>memobjs := (memobjs s)(?p \<mapsto> m), gips := (gips s)(?pv \<mapsto> g2), devext := d1\<rparr>" by (simp add: put_gip_def)
  have fail: "\<exists>u. supdrvGipDestroy ?nf (s\<lparr>memobjs := (memobjs s)(?p \<mapsto> m), gips := gs, devext := d1\<rparr>) = Some u \<and> gip_created K env rc s u"
    if "RT_FAILURE rc" "gs ?pv \<noteq> None" for rc gs
    by (rule gip_created_fail[OF d p(2,1,4) that(1) m _ d1(1,3), where q = "g_pSUPGlobalInfoPage s"]) (use that d1(2) in simp_all)
  have f1: "\<exists>u. supdrvGipDestroy ?nf ?s1 = Some u \<and> gip_created K env rc s u" if "RT_FAILURE rc" for rc by (rule fail[OF that]) simp
  have f2: "\<exists>u. supdrvGipDestroy ?nf (put_gip ?pv g2 ?s1) = Some u \<and> gip_created K env rc s u" if "RT_FAILURE rc" for rc
    unfolding s2 by (rule fail[OF that]) simp
  have "gip_inv K (put_gip ?pv g2 ?s1\<lparr>g_pSUPGlobalInfoPage := ?pv\<rparr>)" using on(2) by (simp add: gip_inv_def)
  then have good: "gip_created K env VINF_SUCCESS s (put_gip ?pv g2 ?s1\<lparr>g_pSUPGlobalInfoPage := ?pv\<rparr>)"
    unfolding gip_created_def s2 using on(3) d1 m p(1,2)
    by (intro exI[of _ "(memobjs s)(?p \<mapsto> m)"] exI[of _ "(gips s)(?pv \<mapsto> g2)"] exI[of _ ?pv] exI[of _ d1]) auto
  show ?thesis unfolding eq Let_def on(1) bind.bind_lunit
    using f1[of rcT] f1[of "gce_rcNotify env"] f2[of "gce_rcOnAll env"] good by (auto simp: not_less)
qed

section \<open>The device extension is initialised\<close>

text \<open>No session, object or image: the driver has not been loaded, or has been unloaded.\<close>

definition unloaded :: "supdrv \<Rightarrow> bool" where
  "unloaded s \<longleftrightarrow> sessions s = Map.empty \<and> objs s = Map.empty \<and> imgs s = Map.empty \<and> heap_ok (memobjs s)"

definition drv_loaded :: "promise set \<Rightarrow> initenv \<Rightarrow> supdrv \<Rightarrow> supdrv \<Rightarrow> bool" where
  "drv_loaded K env s t \<longleftrightarrow> (\<exists>t0. gip_created K (in_gip env) VINF_SUCCESS s t0 \<and>
     t = upd_devext (\<lambda>d. d\<lparr>d_pLdrInitImage := 0, d_hLdrInitThread := NIL_RTNATIVETHREAD, d_u32Cookie := BIRD\<rparr>) t0)"

definition init_result :: "promise set \<Rightarrow> (u8 list \<times> addr) list \<Rightarrow> devlock set \<Rightarrow> supdrv \<Rightarrow> initenv \<Rightarrow> ((rc \<times> drvglobals) \<times> supdrv) option \<Rightarrow> bool" where
  "init_result K fs L s env r \<longleftrightarrow> (\<exists>rc G t. r = Some ((rc, G), t) \<and>
     (if RT_SUCCESS rc
      then rc = 0 \<and> dg_locks G = UNIV \<and> dg_aFunctions G = fix_symbols (abs_symbols env) fs \<and> drv_loaded K env s t
      else dg_locks G = L \<and> dg_aFunctions G = fs \<and> gip_created K (in_gip env) rc s t))"

lemma UNIV_devlock: "UNIV = {DevSpinlock, GipSpinlock, MtxLdr, MtxComponentFactory, MtxGip}"
  using devlock.exhaust by blast

lemma with_lock_result:
  assumes "l \<notin> L" "devext s = devext_zero" "dg_locks G = L" "dg_aFunctions G = fs"
    and body: "\<And>G. dg_locks G = insert l L \<Longrightarrow> dg_aFunctions G = fs \<Longrightarrow> init_result K fs (insert l L) s env (body G s)"
  shows "init_result K fs L s env (with_lock env l body G s)"
proof (cases "RT_FAILURE (in_rcLock env l)")
  case True
  with assms(2-4) gip_created_same[OF assms(2) True, where env = "in_gip env"] show ?thesis
    by (simp add: with_lock_def init_result_def)
next
  case False
  from body[of "G\<lparr>dg_locks := insert l (dg_locks G)\<rparr>"] assms(3,4) obtain rc G1 t where
    b: "body (G\<lparr>dg_locks := insert l (dg_locks G)\<rparr>) s = Some ((rc, G1), t)"
    "if RT_SUCCESS rc
      then rc = 0 \<and> dg_locks G1 = UNIV \<and> dg_aFunctions G1 = fix_symbols (abs_symbols env) fs \<and> drv_loaded K env s t
      else dg_locks G1 = insert l L \<and> dg_aFunctions G1 = fs \<and> gip_created K (in_gip env) rc s t"
    by (auto simp: init_result_def)
  with False assms(1) show ?thesis
    by (cases "RT_SUCCESS rc") (simp_all add: with_lock_def init_result_def)
qed

lemma init_rest_result:
  assumes d: "devext s = devext_zero" "sessions s = Map.empty" "heap_ok (memobjs s)" and ok: "gipcreate_ok NR_CPUS (in_gip env) s"
    and G: "dg_locks G = UNIV" "dg_aFunctions G = fs"
  shows "init_result K fs UNIV s env (init_rest NR_CPUS env G s)"
proof -
  from GipCreate_ok[OF d ok] obtain rc t where c: "supdrvGipCreate NR_CPUS (in_gip env) s = Some (rc, t)" "gip_created K (in_gip env) rc s t"
    by blast
  consider "RT_FAILURE rc" | "RT_SUCCESS rc" "RT_FAILURE (in_rcTracer env)" | "RT_SUCCESS rc" "RT_SUCCESS (in_rcTracer env)" by force
  then show ?thesis
  proof cases
    case 1
    with c G show ?thesis by (simp add: init_rest_def init_result_def)
  next
    case 2
    from c(2) 2(1) obtain h gs q e m where t: "t = s\<lparr>memobjs := h, gips := gs, g_pSUPGlobalInfoPage := q, devext := e\<rparr>"
      "gip_blank e = devext_zero" "gip_inv K t" "d_GipMemObj e = gce_hMem (in_gip env)"
      "memobjs s (gce_hMem (in_gip env)) = None" "RT_VALID_PTR (gce_hMem (in_gip env))"
      "h = (memobjs s)(gce_hMem (in_gip env) \<mapsto> m)" "mo_enmType m \<noteq> MO_MAPPING" "mo_papMappings m = []" "mo_live m"
      by (auto simp: gip_created_def)
    have nf: "RT_SUCCESS (gce_nf (in_gip env) (gce_hMem (in_gip env)))" using ok by (simp add: gipcreate_ok_def)
    have h: "heap_ok ((memobjs s)(gce_hMem (in_gip env) \<mapsto> m))" "gs (d_pGip e) \<noteq> None" using t(1,3,7) by (auto simp: gip_inv_def)
    have "\<exists>u. supdrvGipDestroy (gce_nf (in_gip env)) t = Some u \<and> gip_created K (in_gip env) (in_rcTracer env) s u"
      by (rule gip_created_fail[where gs = gs, OF d(1) t(6,5) nf 2(2) t(8-10) h(1) _ t(2,4) h(2)]) (use t(1,7) in simp)
    then obtain u where
      "supdrvGipDestroy (gce_nf (in_gip env)) t = Some u" "gip_created K (in_gip env) (in_rcTracer env) s u" by blast
    with c(1) 2 G show ?thesis by (simp add: init_rest_def init_result_def not_less)
  next
    case 3
    then have "rc = 0" using c(2) by (auto simp: gip_created_def)
    with c G 3 show ?thesis by (auto simp: init_rest_def init_result_def drv_loaded_def)
  qed
qed

lemma loaded_inv:
  assumes "unloaded s" "drv_loaded K env (s\<lparr>devext := devext_zero\<rparr>) t"
  shows "sess_inv K t \<and> sessions t = Map.empty \<and> d_u32Cookie (devext t) = BIRD \<and>
    g_pSUPGlobalInfoPage t = d_pGip (devext t) \<and>
    (\<exists>g. gips t (d_pGip (devext t)) = Some g \<and> (\<forall>e \<in> set (gce_onAll (in_gip env)). cpu_online g (me_idCpu e)))"
proof -
  from assms obtain h gs d where
    t: "t = s\<lparr>memobjs := h, gips := gs, g_pSUPGlobalInfoPage := gce_pv (in_gip env),
         devext := d\<lparr>d_pLdrInitImage := 0, d_hLdrInitThread := NIL_RTNATIVETHREAD, d_u32Cookie := BIRD\<rparr>\<rparr>"
    and d: "gip_blank d = devext_zero" "d_pGip d = gce_pv (in_gip env)"
      "gip_inv K (s\<lparr>memobjs := h, gips := gs, g_pSUPGlobalInfoPage := gce_pv (in_gip env), devext := d\<rparr>)"
      "\<exists>g. gs (gce_pv (in_gip env)) = Some g \<and> (\<forall>e \<in> set (gce_onAll (in_gip env)). cpu_online g (me_idCpu e))"
    by (auto simp: drv_loaded_def gip_created_def upd_devext_def)
  have f: "d_pObjs d = []" "d_pLdrImages d = []" "d_pComponentFactoryHead d = []" "d_pvVMMR0 d = 0"
    "d_pfnVMMR0EntryInt d = 0" "d_pfnVMMR0EntryFast d = 0" "d_pfnVMMR0EntryEx d = 0"
    using d(1) by (cases d; simp add: gip_blank_def devext_zero_def)+
  have s: "sessions t = Map.empty" "objs t = Map.empty" "imgs t = Map.empty" using assms(1) by (simp_all add: t unloaded_def)
  have gip: "gip_inv K t" using d(3) by (simp add: gip_inv_def t)
  have acct: "accounted (\<lambda>_. 0) (Map.empty, Map.empty)" by (simp add: accounted_def counted_def total_held_def)
  have "sem_inv {#} t" using f s acct by (simp add: sem_inv_def obj_inv_def obj_acct_def t)
  moreover have "img_acct t = (Map.empty, Map.empty)" using s by (simp add: img_acct_def)
  then have "ldr_part K t" using f s acct by (auto simp: ldr_part_def vmmr0_ok_def t)
  moreover have "mem_inv t" "fact_inv t" using gip f s by (simp_all add: mem_inv_def gip_inv_def fact_inv_def t)
  ultimately have "drv_inv K t" using gip s by (simp add: drv_inv_def)
  with s d(2,4) show ?thesis by (auto simp: sess_inv_def t)
qed

lemma InitDevExt_result:
  assumes "unloaded s" "gipcreate_ok NR_CPUS (in_gip env) s" "dg_locks G = {}"
  shows "init_result K (dg_aFunctions G) {} (s\<lparr>devext := devext_zero\<rparr>) env (supdrvInitDevExt NR_CPUS env G s)"
proof -
  let ?s = "s\<lparr>devext := devext_zero\<rparr>" and ?fs = "dg_aFunctions G"
  have d: "devext ?s = devext_zero" "sessions ?s = Map.empty" "heap_ok (memobjs ?s)" "gipcreate_ok NR_CPUS (in_gip env) ?s"
    using assms(1,2) by (simp_all add: unloaded_def gipcreate_ok_def)
  have rest: "init_result K ?fs {MtxGip, MtxComponentFactory, MtxLdr, GipSpinlock, DevSpinlock} ?s env (init_rest NR_CPUS env H ?s)"
    if "dg_locks H = {MtxGip, MtxComponentFactory, MtxLdr, GipSpinlock, DevSpinlock}" "dg_aFunctions H = ?fs" for H
  proof -
    have u: "{MtxGip, MtxComponentFactory, MtxLdr, GipSpinlock, DevSpinlock} = UNIV" unfolding UNIV_devlock by auto
    from init_rest_result[OF d, of H ?fs] that u show ?thesis by simp
  qed
  show ?thesis unfolding supdrvInitDevExt_def
    by (rule with_lock_result; (rule d(1))?; (simp add: assms(3); fail)?)+ (rule rest; assumption)
qed

section \<open>The driver is unloaded\<close>

lemma no_sessions_no_objs:
  assumes "drv_inv K s" "sessions s = Map.empty"
  shows "d_pObjs (devext s) = [] \<and> objs s = Map.empty"
proof -
  have o: "set (d_pObjs (devext s)) = dom (objs s)" "balanced (obj_acct s)"
    using drv_inv_obj[OF assms(1)] by (simp_all add: obj_inv_def)
  have "objs s p = None" for p
  proof (cases "objs s p")
    case (Some ob)
    have "counted (obj_acct s) p = total_held (snd (obj_acct s)) p" "fst (obj_acct s) p \<noteq> Some 0"
      using o(2) by (simp_all add: accounted_def)
    with Some assms(2) show ?thesis by (simp add: obj_acct_def counted_def total_held_def unat_eq_0)
  qed
  then have "objs s = Map.empty" by blast
  with o(1) show ?thesis by simp
qed

lemma DeleteDevExt_ok:
  assumes inv: "drv_inv K s" and se: "sessions s = Map.empty" and nf: "\<forall>q. RT_SUCCESS (nf q)"
  shows "\<exists>t. supdrvDeleteDevExt nf G s = Some (G\<lparr>dg_locks := {}\<rparr>, t) \<and> sessions t = Map.empty \<and> objs t = Map.empty \<and>
    imgs t = imgs s \<and> heap_ok (memobjs t) \<and> memobjs t (d_GipMemObj (devext s)) = None \<and>
    d_GipMemObj (devext t) = 0 \<and> d_pGip (devext t) = 0 \<and> d_pGipTimer (devext t) = 0 \<and> d_pUsageFree (devext t) = [] \<and>
    g_pSUPGlobalInfoPage t = 0"
proof -
  have l: "dg_locks G - {MtxGip, MtxLdr, DevSpinlock, MtxComponentFactory, GipSpinlock} = {}" using UNIV_devlock by blast
  have o: "d_pObjs (devext s) = []" "objs s = Map.empty" using no_sessions_no_objs[OF inv se] by simp_all
  let ?s = "upd_devext (\<lambda>d. d\<lparr>d_pObjs := [], d_pUsageFree := []\<rparr>) (s\<lparr>objs := Map.empty\<rparr>)" and ?p = "d_GipMemObj (devext s)"
  have g: "heap_ok (memobjs s)" "gips s (d_pGip (devext s)) \<noteq> None" "obj_at (memobjs s) ?p"
    using drv_inv_gip[OF inv] by (auto simp: gip_inv_def)
  have hyps: "heap_ok (memobjs ?s)" "d_pGip (devext ?s) \<noteq> 0 \<Longrightarrow> gips ?s (d_pGip (devext ?s)) \<noteq> None"
    "d_GipMemObj (devext ?s) \<noteq> 0 \<Longrightarrow> obj_at (memobjs ?s) (d_GipMemObj (devext ?s))" using g by simp_all
  from GipDestroy_ok[OF hyps, of nf] obtain r h gs where f: "RTR0MemObjFree nf ?p True (memobjs s) = Some (r, h)" "heap_ok h"
    "supdrvGipDestroy nf ?s = Some (?s\<lparr>memobjs := h, gips := gs, g_pSUPGlobalInfoPage := 0, devext := (devext ?s)\<lparr>d_pGip := 0,
      d_pGipTimer := 0, d_fGipTimerRunning := False, d_GipMemObj := 0, d_u32SystemTimerGranularityGrant := 0\<rparr>\<rparr>)" by auto
  have "RT_VALID_PTR ?p" using g(1,3) by (auto simp: obj_at_def heap_ok_def)
  then have "RT_SUCCESS r" using RTR0MemObjFree_success[OF nf _ f(1)] by blast
  then have "h ?p = None" using free_object_ok[OF g(1,3), of nf True] f(1) by auto
  moreover have "supdrvDeleteDevExt nf G s = Some (G\<lparr>dg_locks := {}\<rparr>, ?s\<lparr>memobjs := h, gips := gs, g_pSUPGlobalInfoPage := 0,
      devext := (devext ?s)\<lparr>d_pGip := 0, d_pGipTimer := 0, d_fGipTimerRunning := False, d_GipMemObj := 0,
      d_u32SystemTimerGranularityGrant := 0\<rparr>\<rparr>)"
    unfolding supdrvDeleteDevExt_def l o free_objs.simps bind.bind_lunit f(3) by simp
  ultimately show ?thesis using f(2) se by auto
qed

section \<open>The module is loaded\<close>

text \<open>What a loaded module has, and what one leaves that could not be loaded.\<close>

definition mod_loaded :: "promise set \<Rightarrow> linuxinit \<Rightarrow> (u8 list \<times> addr) list \<Rightarrow> linuxmod \<Rightarrow> drvglobals \<Rightarrow> supdrv \<Rightarrow> bool" where
  "mod_loaded K env fs m G t \<longleftrightarrow> sess_inv K t \<and> sessions t = Map.empty \<and> dg_locks G = UNIV \<and>
     lm_regs m = {DevSys, DevUsr} \<union> (if li_fSuspend env then {PlatformDriver, PlatformDevice} else {}) \<and> lm_fRuntime m \<and>
     dg_aFunctions G = fix_symbols (abs_symbols (li_dev env)) fs \<and>
     d_u32Cookie (devext t) = BIRD \<and> g_pSUPGlobalInfoPage t = d_pGip (devext t) \<and>
     (\<exists>g. gips t (d_pGip (devext t)) = Some g \<and> (\<forall>e \<in> set (gce_onAll (in_gip (li_dev env))). cpu_online g (me_idCpu e)))"

definition mod_absent :: "linuxmod \<Rightarrow> drvglobals \<Rightarrow> supdrv \<Rightarrow> supdrv \<Rightarrow> bool" where
  "mod_absent m G s t \<longleftrightarrow> lm_regs m = {} \<and> \<not> lm_fRuntime m \<and> dg_locks G = {} \<and> memobjs t = memobjs s \<and> unloaded t"

text \<open>The builds and answers for which a failed initialisation undoes everything.\<close>

definition init_undoes :: "linuxinit \<Rightarrow> bool" where
  "init_undoes env \<longleftrightarrow> (li_fMisc env \<or> 0 \<le> li_rcUsr env) \<and> (li_fSuspend env \<longrightarrow> li_rcDriver env = 0 \<and> li_rcDevice env = 0)"

lemma linux_devices_cases:
  "(\<exists>rc m1. linux_devices env m = ((rc, False), m1) \<and> rc \<noteq> 0 \<and> lm_fRuntime m1 = lm_fRuntime m \<and>
      (init_undoes env \<longrightarrow> lm_regs m1 = lm_regs m \<or> lm_regs m1 = lm_regs m - {DevSys})) \<or>
   linux_devices env m = ((0, True), lx_add DevUsr (lx_add DevSys m))"
  by (auto simp: linux_devices_def lx_add_def lx_del_def init_undoes_def)

lemma linux_platform_cases:
  "(\<exists>m1. linux_platform env m = (True, m1) \<and> lm_fRuntime m1 = lm_fRuntime m \<and>
      lm_regs m1 = (if li_fSuspend env then {PlatformDriver, PlatformDevice} else {}) \<union> lm_regs m) \<or>
   (\<exists>m1. linux_platform env m = (False, m1) \<and> \<not> init_undoes env)"
  by (auto simp: linux_platform_def lx_add_def lx_del_def init_undoes_def)

lemma linux_init_result:
  assumes un: "unloaded s" and ok: "gipcreate_ok NR_CPUS (in_gip (li_dev env)) s" and m: "mod_absent m G s s"
  shows "\<exists>rc m1 G1 t. VBoxDrvLinuxInit NR_CPUS env m G s = Some ((rc, m1, G1), t) \<and>
    (rc = 0 \<longrightarrow> mod_loaded K env (dg_aFunctions G) m1 G1 t) \<and> (rc \<noteq> 0 \<longrightarrow> init_undoes env \<longrightarrow> mod_absent m1 G1 s t)"
proof -
  have m0: "lm_regs m = {}" "\<not> lm_fRuntime m" "dg_locks G = {}" using m by (simp_all add: mod_absent_def)
  from linux_devices_cases[of env m] show ?thesis
  proof (elim disjE exE conjE)
    fix rc m1
    assume "linux_devices env m = ((rc, False), m1)" "rc \<noteq> 0" "lm_fRuntime m1 = lm_fRuntime m"
      "init_undoes env \<longrightarrow> lm_regs m1 = lm_regs m \<or> lm_regs m1 = lm_regs m - {DevSys}"
    then show ?thesis using un m0 by (auto simp: VBoxDrvLinuxInit_def mod_absent_def)
  next
    assume dv: "linux_devices env m = ((0, True), lx_add DevUsr (lx_add DevSys m))"
    let ?m1 = "(lx_add DevUsr (lx_add DevSys m))\<lparr>lm_fRuntime := True\<rparr>"
    show ?thesis
    proof (cases "RT_FAILURE (li_rcRuntime env)")
      case True
      with dv m0 un show ?thesis by (auto simp: VBoxDrvLinuxInit_def mod_absent_def lx_add_def lx_del_def)
    next
      case False
      from InitDevExt_result[where K = K, OF un ok m0(3)] obtain rc G1 t where
        i: "supdrvInitDevExt NR_CPUS (li_dev env) G s = Some ((rc, G1), t)"
        "if RT_SUCCESS rc then rc = 0 \<and> dg_locks G1 = UNIV \<and> dg_aFunctions G1 = fix_symbols (abs_symbols (li_dev env)) (dg_aFunctions G) \<and>
           drv_loaded K (li_dev env) (s\<lparr>devext := devext_zero\<rparr>) t
         else dg_locks G1 = {} \<and> gip_created K (in_gip (li_dev env)) rc (s\<lparr>devext := devext_zero\<rparr>) t"
        unfolding init_result_def by force
      show ?thesis
      proof (cases "RT_SUCCESS rc")
        case False
        with i(2) un have "memobjs t = memobjs s" "unloaded t" "dg_locks G1 = {}" by (auto simp: gip_created_def unloaded_def)
        with False i(1) dv m0 \<open>\<not> RT_FAILURE (li_rcRuntime env)\<close> show ?thesis
          by (auto simp: VBoxDrvLinuxInit_def mod_absent_def lx_add_def lx_del_def linux_fail_def)
      next
        case True
        with i(2) have l: "rc = 0" "dg_locks G1 = UNIV" "dg_aFunctions G1 = fix_symbols (abs_symbols (li_dev env)) (dg_aFunctions G)"
          "drv_loaded K (li_dev env) (s\<lparr>devext := devext_zero\<rparr>) t" by simp_all
        note ld = loaded_inv[OF un l(4)]
        then obtain g where "gips t (d_pGip (devext t)) = Some g" by blast
        with linux_platform_cases[of env ?m1] l ld i(1) dv m0(1) \<open>\<not> RT_FAILURE (li_rcRuntime env)\<close> show ?thesis
          by (auto simp: VBoxDrvLinuxInit_def mod_loaded_def lx_add_def linux_fail_def)
      qed
    qed
  qed
qed

text \<open>Initialisation succeeds when everything it asks for is granted.\<close>

definition gip_granted :: "gipcreate \<Rightarrow> bool" where
  "gip_granted env \<longleftrightarrow> gce_cCpus env \<le> 256 \<and> RT_SUCCESS (gce_rcAlloc env) \<and> RT_SUCCESS (gce_rcTimer env) \<and>
     (RT_SUCCESS (gce_rcTimerAll env) \<or> gce_rcTimerAll env = VERR_NOT_SUPPORTED) \<and> RT_SUCCESS (gce_rcNotify env) \<and> RT_SUCCESS (gce_rcOnAll env)"

definition init_granted :: "linuxinit \<Rightarrow> bool" where
  "init_granted env \<longleftrightarrow> li_rcSys env = 0 \<and> li_rcUsr env = 0 \<and> RT_SUCCESS (li_rcRuntime env) \<and>
     (\<forall>l. RT_SUCCESS (in_rcLock (li_dev env) l)) \<and> gip_granted (in_gip (li_dev env)) \<and> RT_SUCCESS (in_rcTracer (li_dev env)) \<and>
     (li_fSuspend env \<longrightarrow> li_rcDriver env = 0 \<and> li_rcDevice env = 0)"

lemma GipCreate_granted: "supdrvGipCreate NR_CPUS env s = Some (rc, t) \<Longrightarrow> gip_granted env \<Longrightarrow> rc = 0"
  by (auto simp: supdrvGipCreate_def gip_granted_def memobj_alloc_def gip_create_timer_def Let_def not_less
      split: Option.bind_splits if_splits)

lemma init_rest_granted:
  "init_rest NR_CPUS env G s = Some ((rc, G1), t) \<Longrightarrow> gip_granted (in_gip env) \<Longrightarrow> RT_SUCCESS (in_rcTracer env) \<Longrightarrow> rc = 0"
  by (auto simp: init_rest_def not_less split: Option.bind_splits if_splits dest!: GipCreate_granted)

lemma with_lock_granted:
  "with_lock env l body G s = Some ((rc, G1), t) \<Longrightarrow> RT_SUCCESS (in_rcLock env l) \<Longrightarrow>
   (\<And>G G1 t. body G s = Some ((rc, G1), t) \<Longrightarrow> rc = 0) \<Longrightarrow> rc = 0"
  by (auto simp: with_lock_def not_less split: Option.bind_splits)

lemma InitDevExt_granted:
  assumes "supdrvInitDevExt NR_CPUS env G s = Some ((rc, G1), t)" "gip_granted (in_gip env)" "RT_SUCCESS (in_rcTracer env)"
    "\<forall>l. RT_SUCCESS (in_rcLock env l)"
  shows "rc = 0"
  using assms(1) unfolding supdrvInitDevExt_def
  by (elim with_lock_granted init_rest_granted) (use assms(2-4) in auto)

lemma linux_init_granted:
  "VBoxDrvLinuxInit NR_CPUS env m G s = Some ((rc, m1, G1), t) \<Longrightarrow> init_granted env \<Longrightarrow> rc = 0"
  unfolding init_granted_def VBoxDrvLinuxInit_def linux_devices_def linux_platform_def Let_def
  by (auto simp: not_less split: Option.bind_splits if_splits dest!: InitDevExt_granted)

section \<open>Properties\<close>

lemma loaded_unloads:
  assumes "sess_inv K u" "sessions u = Map.empty" "\<forall>q. RT_SUCCESS (nf q)"
    and "lm_regs m = {DevSys, DevUsr} \<union> (if fSuspend then {PlatformDriver, PlatformDevice} else {})"
  shows "\<exists>m1 v. VBoxDrvLinuxUnload fSuspend nf m G u = Some ((m1, G\<lparr>dg_locks := {}\<rparr>), v) \<and> lm_regs m1 = {} \<and> \<not> lm_fRuntime m1 \<and>
    sessions v = Map.empty \<and> objs v = Map.empty \<and> memobjs v (d_GipMemObj (devext u)) = None \<and>
    d_GipMemObj (devext v) = 0 \<and> d_pGip (devext v) = 0 \<and> d_pGipTimer (devext v) = 0 \<and> g_pSUPGlobalInfoPage v = 0"
proof -
  have "drv_inv K u" using assms(1) by (simp add: sess_inv_def)
  from DeleteDevExt_ok[OF this assms(2,3), of G] assms(4) show ?thesis by (auto simp: VBoxDrvLinuxUnload_def lx_del_def)
qed


text \<open>C40: Loading the module is all or nothing: it succeeds when everything it asks for is granted; then the
  driver is consistent and has no session, every CPU on which it was told to do so has registered in
  the GIP, and all locks and registrations are there.  When it fails, no lock, no registration and no
  memory is left behind, except in two cases: without \<open>CONFIG_VBOXDRV_AS_MISC\<close> when the second device
  cannot be registered, and when the registration of the suspend notifications fails.\<close>

theorem linux_init_all_or_nothing:
  assumes "unloaded s" "gipcreate_ok NR_CPUS (in_gip (li_dev env)) s" "mod_absent m G s s"
  shows "\<exists>rc m1 G1 t. VBoxDrvLinuxInit NR_CPUS env m G s = Some ((rc, m1, G1), t) \<and>
    (init_granted env \<longrightarrow> rc = 0) \<and> (rc = 0 \<longrightarrow> mod_loaded K env (dg_aFunctions G) m1 G1 t) \<and>
    (rc \<noteq> 0 \<longrightarrow> init_undoes env \<longrightarrow> mod_absent m1 G1 s t)"
  using linux_init_result[OF assms] linux_init_granted by blast

text \<open>The names of the first ten exports, which the fix-up code does not look at.\<close>

definition abs_names :: "u8 list list" where
  "abs_names = map (map of_char) [''SUPR0AbsIs64bit'', ''SUPR0Abs64bitKernelCS'', ''SUPR0Abs64bitKernelSS'',
     ''SUPR0Abs64bitKernelDS'', ''SUPR0AbsKernelCS'', ''SUPR0AbsKernelSS'', ''SUPR0AbsKernelDS'', ''SUPR0AbsKernelES'',
     ''SUPR0AbsKernelFS'', ''SUPR0AbsKernelGS'']"

lemma fix_symbols_zip: "length vs \<le> length fs \<Longrightarrow> fix_symbols vs fs = zip (map fst (take (length vs) fs)) vs @ drop (length vs) fs"
  by (simp add: fix_symbols_def zip_map1)

lemma distinct_abs_names: "distinct abs_names"
  by code_simp

text \<open>The fix-up of the exported symbols relies on the order of the table, and with the table's order it
  is right: a driver that looks up one of the ten absolute symbols gets the segment register (or the
  constant) of that name, and every other symbol is what it was.\<close>

theorem init_absolute_symbols:
  assumes names: "map fst (take 10 fs) = abs_names" and ok: "unloaded s" "gipcreate_ok NR_CPUS (in_gip env) s" "dg_locks G = {}"
    "dg_aFunctions G = fs" and ini: "supdrvInitDevExt NR_CPUS env G s = Some ((0, G1), t)"
  shows "(\<forall>i < 10. map_of (dg_aFunctions G1) (abs_names ! i) = Some (abs_symbols env ! i)) \<and>
    (\<forall>n. n \<notin> set abs_names \<longrightarrow> map_of (dg_aFunctions G1) n = map_of fs n)"
proof -
  have len: "length (abs_symbols env) = 10" "length abs_names = 10" by (simp_all add: abs_symbols_def abs_names_def)
  then have "10 \<le> length fs" using arg_cong[OF names, of length] by simp
  moreover have "dg_aFunctions G1 = fix_symbols (abs_symbols env) fs"
    using InitDevExt_result[OF ok(1-3)] ini ok(4) by (auto simp: init_result_def)
  ultimately have G1: "dg_aFunctions G1 = zip abs_names (abs_symbols env) @ drop 10 fs"
    using fix_symbols_zip[of "abs_symbols env" fs] len names by simp
  have "map_of (dg_aFunctions G1) (abs_names ! i) = Some (abs_symbols env ! i)" if "i < 10" for i
    using that len distinct_abs_names unfolding G1 map_of_append
    by (intro map_add_find_right) (simp add: map_of_zip_nth)
  moreover have "map_of (dg_aFunctions G1) n = map_of fs n" if n: "n \<notin> set abs_names" for n
  proof -
    have "n \<notin> fst ` set (take 10 fs)" using n names by (metis set_map)
    then have "map_of (take 10 fs @ drop 10 fs) n = map_of (drop 10 fs) n"
      by (simp only: map_of_append map_add_dom_app_simps(3) map_of_eq_None_iff[symmetric] domIff not_not)
    moreover have "map_of (zip abs_names (abs_symbols env)) n = None"
      using n len by (auto simp: map_of_eq_None_iff dest: set_zip_leftD)
    ultimately show ?thesis unfolding G1 by (simp add: map_add_def split: option.split)
  qed
  ultimately show ?thesis by blast
qed

text \<open>The two exceptions of the all-or-nothing property.\<close>

lemma linux_init_leaks_device:
  assumes "\<not> li_fMisc env" "0 \<le> li_rcSys env" "li_rcUsr env < 0"
  shows "\<exists>m1. VBoxDrvLinuxInit NR_CPUS env m G s = Some ((li_rcUsr env, m1, G), s) \<and> DevSys \<in> lm_regs m1"
  using assms by (simp add: VBoxDrvLinuxInit_def linux_devices_def lx_add_def)

lemma linux_init_leaks_gip:
  assumes "unloaded s" "gipcreate_ok NR_CPUS (in_gip (li_dev env)) s" "mod_absent m G s s"
    and "init_granted (env\<lparr>li_rcDriver := 0\<rparr>)" "li_fSuspend env" "li_rcDriver env \<noteq> 0"
  shows "\<exists>m1 G1 t. VBoxDrvLinuxInit NR_CPUS env m G s = Some ((- EINVAL, m1, G1), t) \<and>
    dg_locks G1 = UNIV \<and> \<not> lm_fRuntime m1 \<and> obj_at (memobjs t) (d_GipMemObj (devext t))"
proof -
  have L: "dg_locks G = {}" using assms(3) by (simp add: mod_absent_def)
  from InitDevExt_result[where K = "{}", OF assms(1,2) L] obtain rc G1 t where
    i: "supdrvInitDevExt NR_CPUS (li_dev env) G s = Some ((rc, G1), t)"
      "rc = 0 \<longrightarrow> dg_locks G1 = UNIV \<and> drv_loaded {} (li_dev env) (s\<lparr>devext := devext_zero\<rparr>) t"
    unfolding init_result_def by force
  have "rc = 0" by (rule InitDevExt_granted[OF i(1)]) (use assms(4) in \<open>simp_all add: init_granted_def\<close>)
  with i loaded_inv[OF assms(1)] have "obj_at (memobjs t) (d_GipMemObj (devext t))" "dg_locks G1 = UNIV"
    using drv_inv_gip[where K = "{}"] by (auto simp: sess_inv_def gip_inv_def)
  with i(1) assms(4-6) \<open>rc = 0\<close> show ?thesis
    by (auto simp: VBoxDrvLinuxInit_def linux_devices_def linux_platform_def init_granted_def linux_fail_def lx_add_def lx_del_def)
qed

section \<open>Witnesses\<close>

definition unloaded0 :: supdrv where
  "unloaded0 = \<lparr>devext = devext_zero, sessions = Map.empty, objs = Map.empty, imgs = Map.empty, memobjs = Map.empty,
     factories = Map.empty, gips = Map.empty, g_pSUPGlobalInfoPage = 0, calls = []\<rparr>"

definition linuxinit0 :: linuxinit where
  "linuxinit0 = \<lparr>li_fMisc = True, li_fSuspend = True, li_rcSys = 0, li_rcUsr = 0, li_rcRuntime = 0,
     li_dev = \<lparr>in_rcLock = (\<lambda>_. 0),
       in_gip = \<lparr>gce_cCpus = 2, gce_rcAlloc = 0, gce_hMem = 0xA000, gce_pv = 0xffff800000100000, gce_HCPhys = 0x100000,
         gce_res = 1000000, gce_NanoTS = 5000, gce_TSC = (\<lambda>_. 700), gce_mode = SUPGIPMODE_ASYNC_TSC,
         gce_counts = \<lparr>cc_cOnline = 2, cc_cPresent = 2, cc_cPossible = 2, cc_idCpuMax = 1, cc_Possible = 3\<rparr>,
         gce_rcTimerAll = 0, gce_rcTimer = 0, gce_pTimer = 0xB000, gce_rcNotify = 0,
         gce_onAll = [\<lparr>me_idCpu = 0, me_idApic = 0, me_TSC = 1, me_NanoTS = 2, me_cPresent = 2, me_cOnline = 2\<rparr>,
           \<lparr>me_idCpu = 1, me_idApic = 2, me_TSC = 1, me_NanoTS = 2, me_cPresent = 2, me_cOnline = 2\<rparr>],
         gce_rcOnAll = 0, gce_nf = (\<lambda>_. 0)\<rparr>,
       in_rcTracer = 0, in_CS = 0x10, in_SS = 0x18, in_DS = 0, in_ES = 0, in_FS = 0, in_GS = 0\<rparr>,
     li_rcDriver = 0, li_rcDevice = 0\<rparr>"

definition linuxmod0 :: linuxmod where "linuxmod0 = \<lparr>lm_regs = {}, lm_fRuntime = False\<rparr>"
definition drvglobals0 :: drvglobals where "drvglobals0 = \<lparr>dg_locks = {}, dg_aFunctions = map (\<lambda>n. (n, 0)) abs_names\<rparr>"

lemma unloaded0_ok: "unloaded unloaded0" "gipcreate_ok 8 (in_gip (li_dev linuxinit0)) unloaded0"
  "mod_absent linuxmod0 drvglobals0 unloaded0 unloaded0" "init_granted linuxinit0"
  by (simp_all add: unloaded_def unloaded0_def heap_ok_def gipcreate_ok_def linuxinit0_def RT_VALID_PTR_def
      RTMpCpuIdToSetIndex_def mod_absent_def linuxmod0_def drvglobals0_def init_granted_def gip_granted_def)

theorem linux_init_all_or_nothing_witness:
  "\<exists>m1 G1 t. VBoxDrvLinuxInit 8 linuxinit0 linuxmod0 drvglobals0 unloaded0 = Some ((0, m1, G1), t) \<and>
     mod_loaded UNIV linuxinit0 (map (\<lambda>n. (n, 0)) abs_names) m1 G1 t"
  using linux_init_all_or_nothing[where K = UNIV, OF unloaded0_ok(1-3)] unloaded0_ok(4) by (auto simp: drvglobals0_def)

lemma load0:
  obtains m1 G1 t where "VBoxDrvLinuxInit 8 linuxinit0 linuxmod0 drvglobals0 unloaded0 = Some ((0, m1, G1), t)"
    "mod_loaded K linuxinit0 (map (\<lambda>n. (n, 0)) abs_names) m1 G1 t"
  using linux_init_result[where K = K, OF unloaded0_ok(1-3)] linux_init_granted unloaded0_ok(4) by (metis drvglobals.select_convs(2) drvglobals0_def)


theorem init_absolute_symbols_witness:
  "\<exists>G1 t. supdrvInitDevExt 8 (li_dev linuxinit0) drvglobals0 unloaded0 = Some ((0, G1), t) \<and>
     map_of (dg_aFunctions G1) (abs_names ! 4) = Some 0x10"
proof -
  have L: "dg_locks drvglobals0 = {}" "dg_aFunctions drvglobals0 = map (\<lambda>n. (n, 0)) abs_names" by (simp_all add: drvglobals0_def)
  from InitDevExt_result[where K = "{}", OF unloaded0_ok(1,2) L(1)] obtain rc G1 t where
    i: "supdrvInitDevExt 8 (li_dev linuxinit0) drvglobals0 unloaded0 = Some ((rc, G1), t)" by (auto simp: init_result_def)
  have "rc = 0" by (rule InitDevExt_granted[OF i]) (use unloaded0_ok(4) in \<open>simp_all add: init_granted_def\<close>)
  with i have i0: "supdrvInitDevExt 8 (li_dev linuxinit0) drvglobals0 unloaded0 = Some ((0, G1), t)" by simp
  have n: "map fst (take 10 (map (\<lambda>n. (n, 0)) abs_names)) = abs_names" by (simp add: abs_names_def)
  have "map_of (dg_aFunctions G1) (abs_names ! 4) = Some (abs_symbols (li_dev linuxinit0) ! 4)"
    using init_absolute_symbols[OF n unloaded0_ok(1,2) L i0] by simp
  moreover have "abs_symbols (li_dev linuxinit0) ! 4 = 0x10" by (simp add: abs_symbols_def linuxinit0_def)
  ultimately show ?thesis using i0 by auto
qed

end
