(* ===== verification/SupIdcClient.thy ===== *)
theory SupIdcClient
  imports SupInit
begin

text \<open>
  The client library of the communication between drivers (\<open>SUPR0IdcClient.c\<close>, \<open>SUPR0IdcClientComponent.c\<close>,
  \<open>SUPR0IdcClientStubs.c\<close> and \<open>linux/SUPR0IdcClient-linux.c\<close>), which is linked into the other drivers.
  It builds the requests that \<^const>\<open>SUPDrvLinuxIDC\<close> answers; the properties are about the two together.
\<close>

section \<open>State\<close>

text \<open>
  The handles in the memory of the other driver, each with its session; the first handle that was
  opened (\<open>g_pMainHandle\<close>); and the function pointers that the stubs have resolved, by name.
\<close>

record idcclient =
  ic_handles :: "addr \<rightharpoonup> addr"
  ic_main :: addr
  ic_pfn :: "u8 list \<Rightarrow> addr"

text \<open>Where a request lies on the stack and what so many bytes of the stack hold; what the system answers.\<close>

record idccall =
  cl_pReq :: addr
  cl_stack :: "nat \<Rightarrow> reqbuf"
  cl_idc :: idcenv

definition set_handle :: "addr \<Rightarrow> addr \<Rightarrow> idcclient \<Rightarrow> idcclient" where
  "set_handle pHandle pSession c = c\<lparr>ic_handles := (ic_handles c)(pHandle \<mapsto> pSession)\<rparr>"

section \<open>Requests\<close>

text \<open>The status of a request that is delivered is the one in its header.\<close>

definition supR0IdcNativeCall :: "u64 \<Rightarrow> idccall \<Rightarrow> reqbuf \<Rightarrow> supdrv \<Rightarrow> io_res" where
  "supR0IdcNativeCall iReq env b s = do {
     (rc, b1, s1) \<leftarrow> SUPDrvLinuxIDC iReq (cl_pReq env) (cl_idc env) b s;
     if RT_SUCCESS rc then do { v \<leftarrow> rd32 b1 IDC_OFF_rc; Some (sint v, b1, s1) }
     else Some (rc, b1, s1)
   }"

definition supR0IdcNativeOpen :: "idccall \<Rightarrow> reqbuf \<Rightarrow> supdrv \<Rightarrow> io_res" where
  [simp]: "supR0IdcNativeOpen = supR0IdcNativeCall (SUP_IDC_CODE 1)"

definition supR0IdcNativeClose :: "idccall \<Rightarrow> reqbuf \<Rightarrow> supdrv \<Rightarrow> io_res" where
  [simp]: "supR0IdcNativeClose = supR0IdcNativeCall (SUP_IDC_CODE 2)"

definition req_header :: "reqbuf \<Rightarrow> u32 \<Rightarrow> addr \<Rightarrow> reqbuf option" where
  "req_header b cb pSession = do {
     b1 \<leftarrow> wr32 b IDC_OFF_cb cb;
     b2 \<leftarrow> wr32 b1 IDC_OFF_rc (word_of_int VERR_WRONG_ORDER);
     wr64 b2 IDC_OFF_pSession pSession
   }"

definition connect_req :: "reqbuf \<Rightarrow> u32 \<Rightarrow> u32 \<Rightarrow> reqbuf option" where
  "connect_req b uReqVersion uMinVersion = do {
     b1 \<leftarrow> req_header b 40 0;
     b2 \<leftarrow> wr32 b1 16 SUPDRVIDCREQ_CONNECT_MAGIC_COOKIE;
     b3 \<leftarrow> wr32 b2 24 uMinVersion;
     wr32 b3 20 uReqVersion
   }"

section \<open>Open and close\<close>

definition SUPR0IdcClose :: "addr \<Rightarrow> idccall \<Rightarrow> idcclient \<Rightarrow> supdrv \<Rightarrow> (rc \<times> idcclient \<times> supdrv) option" where
  "SUPR0IdcClose pHandle env c s =
     (if \<not> RT_VALID_PTR pHandle then Some (VERR_INVALID_POINTER, c, s)
      else do {
        pSession \<leftarrow> ic_handles c pHandle;
        if pSession = 0 then Some (VERR_INVALID_HANDLE, c, s)
        else if \<not> RT_VALID_PTR pSession then Some (VERR_INVALID_HANDLE, c, s)
        else do {
          b \<leftarrow> req_header (cl_stack env 16) 16 pSession;
          (rc, b1, s1) \<leftarrow> supR0IdcNativeClose env b s;
          if RT_SUCCESS rc
          then Some (rc, (set_handle pHandle 0 c)\<lparr>ic_main := (if ic_main c = pHandle then 0 else ic_main c)\<rparr>, s1)
          else Some (rc, c, s1)
        }
      })"

text \<open>A store through an optional pointer, in the list of stores.\<close>

definition out_ptr :: "addr \<Rightarrow> u32 \<Rightarrow> (addr \<times> u32) list \<Rightarrow> (addr \<times> u32) list" where
  "out_ptr p v ws = (if p \<noteq> 0 then ws @ [(p, v)] else ws)"

abbreviation "IDC_MAJOR v \<equiv> v AND (0xffff0000::u32)"

text \<open>The defaults for the versions.\<close>

definition idc_version :: "u32 \<Rightarrow> u32" where
  "idc_version v = (let uDefaultMinVersion = IDC_MAJOR SUPDRV_IDC_VERSION in
     if v = 0 \<or> v < uDefaultMinVersion then uDefaultMinVersion else v)"

text \<open>After the driver has answered: the handle and the versions are stored, and checked.\<close>

definition idc_opened :: "addr \<Rightarrow> u32 \<Rightarrow> addr \<Rightarrow> addr \<Rightarrow> addr \<Rightarrow> (addr \<times> u32) list \<Rightarrow> rc \<Rightarrow> reqbuf \<Rightarrow> idccall \<Rightarrow> idcclient \<Rightarrow> supdrv \<Rightarrow>
    ((rc \<times> (addr \<times> u32) list) \<times> idcclient \<times> supdrv) option" where
  "idc_opened pHandle uMinVersion puSession puDriver puRevision ws rc b env c s = do {
     pSession \<leftarrow> rd64 b 16;
     uSessionVersion \<leftarrow> rd32 b 24;
     uDriverVersion \<leftarrow> rd32 b 28;
     uDriverRevision \<leftarrow> rd32 b 32;
     let c1 = set_handle pHandle pSession c;
     let ws1 = out_ptr puRevision uDriverRevision (out_ptr puDriver uDriverVersion (out_ptr puSession uSessionVersion ws));
     if RT_VALID_PTR pSession \<and> uSessionVersion \<ge> uMinVersion \<and> IDC_MAJOR uSessionVersion = IDC_MAJOR SUPDRV_IDC_VERSION
     then Some ((rc, ws1), c1\<lparr>ic_main := (if ic_main c1 = 0 then pHandle else ic_main c1)\<rparr>, s)
     else do {
       (rc2, c2, s2) \<leftarrow> SUPR0IdcClose pHandle env c1 s;
       Some ((VERR_VERSION_MISMATCH, ws1), c2, s2)
     }
   }"

definition SUPR0IdcOpen :: "addr \<Rightarrow> u32 \<Rightarrow> u32 \<Rightarrow> addr \<Rightarrow> addr \<Rightarrow> addr \<Rightarrow> idccall \<Rightarrow> idcclient \<Rightarrow> supdrv \<Rightarrow>
    ((rc \<times> (addr \<times> u32) list) \<times> idcclient \<times> supdrv) option" where
  "SUPR0IdcOpen pHandle uReqVersion uMinVersion puSession puDriver puRevision env c s =
     (if \<not> RT_VALID_PTR pHandle then Some ((VERR_INVALID_POINTER, []), c, s)
      else do {
        _ \<leftarrow> ic_handles c pHandle;
        let c1 = set_handle pHandle 0 c;
        if puSession \<noteq> 0 \<and> \<not> RT_VALID_PTR puSession then Some ((VERR_INVALID_POINTER, []), c1, s)
        else let w1 = out_ptr puSession 0 [] in
        if puDriver \<noteq> 0 \<and> \<not> RT_VALID_PTR puDriver then Some ((VERR_INVALID_POINTER, w1), c1, s)
        else let w2 = out_ptr puDriver 0 w1 in
        if puRevision \<noteq> 0 \<and> \<not> RT_VALID_PTR puRevision then Some ((VERR_INVALID_POINTER, w2), c1, s)
        else let w3 = out_ptr puRevision 0 w2 in
        if uMinVersion \<noteq> 0 \<and> IDC_MAJOR uMinVersion \<noteq> IDC_MAJOR SUPDRV_IDC_VERSION then Some ((VERR_INVALID_PARAMETER, w3), c1, s)
        else if uReqVersion \<noteq> 0 \<and> IDC_MAJOR uReqVersion \<noteq> IDC_MAJOR SUPDRV_IDC_VERSION then Some ((VERR_INVALID_PARAMETER, w3), c1, s)
        else do {
          b \<leftarrow> connect_req (cl_stack env 40) (idc_version uReqVersion) (idc_version uMinVersion);
          (rc, b1, s1) \<leftarrow> supR0IdcNativeOpen env b s;
          if RT_SUCCESS rc
          then idc_opened pHandle (idc_version uMinVersion) puSession puDriver puRevision w3 rc b1 env c1 s1
          else Some ((rc, w3), c1, s1)
        }
      })"

definition SUPR0IdcGetSession :: "addr \<Rightarrow> idcclient \<Rightarrow> addr option" where
  "SUPR0IdcGetSession pHandle c =
     (if \<not> RT_VALID_PTR pHandle then Some 0
      else do { pSession \<leftarrow> ic_handles c pHandle; Some (if RT_VALID_PTR pSession then pSession else 0) })"

definition supR0IdcGetHandleFromSession :: "addr \<Rightarrow> idcclient \<Rightarrow> addr option" where
  "supR0IdcGetHandleFromSession pSession c =
     (if RT_VALID_PTR (ic_main c)
      then do { p \<leftarrow> ic_handles c (ic_main c); Some (if p = pSession then ic_main c else 0) }
      else Some 0)"

section \<open>Components and symbols\<close>

text \<open>The two component requests differ in their code (10 and 11) only.\<close>

definition component_req :: "u64 \<Rightarrow> addr \<Rightarrow> addr \<Rightarrow> idccall \<Rightarrow> idcclient \<Rightarrow> supdrv \<Rightarrow> (rc \<times> supdrv) option" where
  "component_req code pHandle pFactory env c s =
     (if \<not> RT_VALID_PTR pHandle then Some (VERR_INVALID_HANDLE, s)
      else do {
        pSession \<leftarrow> ic_handles c pHandle;
        if \<not> RT_VALID_PTR pSession then Some (VERR_INVALID_HANDLE, s)
        else do {
          b \<leftarrow> req_header (cl_stack env 24) 24 pSession;
          b1 \<leftarrow> wr64 b 16 pFactory;
          (rc, b2, s1) \<leftarrow> supR0IdcNativeCall (SUP_IDC_CODE code) env b1 s;
          Some (rc, s1)
        }
      })"

definition SUPR0IdcComponentRegisterFactory where "SUPR0IdcComponentRegisterFactory = component_req 10"
definition SUPR0IdcComponentDeregisterFactory where "SUPR0IdcComponentDeregisterFactory = component_req 11"

text \<open>The symbol, if the request succeeds; \<open>pszName\<close> is where its name lies.\<close>

definition supR0IdcGetSymbol :: "addr \<Rightarrow> addr \<Rightarrow> idccall \<Rightarrow> idcclient \<Rightarrow> supdrv \<Rightarrow> (addr option \<times> supdrv) option" where
  "supR0IdcGetSymbol pHandle pszName env c s = do {
     pSession \<leftarrow> ic_handles c pHandle;
     b \<leftarrow> req_header (cl_stack env 32) 32 pSession;
     b1 \<leftarrow> wr64 b 24 pszName;
     b2 \<leftarrow> wr64 b1 16 0;
     (rc, b3, s1) \<leftarrow> supR0IdcNativeCall (SUP_IDC_CODE 3) env b2 s;
     if RT_SUCCESS rc then do { pfn \<leftarrow> rd64 b3 16; Some (Some pfn, s1) } else Some (None, s1)
   }"

definition supR0IdcGetSymbolBySession :: "addr \<Rightarrow> u8 list \<Rightarrow> addr \<Rightarrow> idccall \<Rightarrow> idcclient \<Rightarrow> supdrv \<Rightarrow> (idcclient \<times> supdrv) option" where
  "supR0IdcGetSymbolBySession pSession name pszName env c s = do {
     pHandle \<leftarrow> supR0IdcGetHandleFromSession pSession c;
     if pHandle = 0 then Some (c, s)
     else do {
       (pfn, s1) \<leftarrow> supR0IdcGetSymbol pHandle pszName env c s;
       Some (case pfn of None \<Rightarrow> c | Some p \<Rightarrow> c\<lparr>ic_pfn := (ic_pfn c)(name := p)\<rparr>, s1)
     }
   }"

text \<open>
  A stub: the function that it calls with its own arguments, \<open>0\<close> when it fails.  There is one for each of
  \<open>SUPR0ObjRegister\<close>, \<open>SUPR0ObjAddRef\<close>, \<open>SUPR0ObjRelease\<close> and \<open>SUPR0ObjVerifyAccess\<close>, which only differ in
  the name and the status of the failure.
\<close>

definition idc_stub :: "u8 list \<Rightarrow> addr \<Rightarrow> addr \<Rightarrow> idccall \<Rightarrow> idcclient \<Rightarrow> supdrv \<Rightarrow> (addr \<times> idcclient \<times> supdrv) option" where
  "idc_stub name pszName pSession env c s =
     (if ic_pfn c name \<noteq> 0 then Some (ic_pfn c name, c, s)
      else do {
        (c1, s1) \<leftarrow> supR0IdcGetSymbolBySession pSession name pszName env c s;
        Some (ic_pfn c1 name, c1, s1)
      })"

definition SUPR0ObjRegister_stub where "SUPR0ObjRegister_stub = idc_stub (map of_char ''SUPR0ObjRegister'')"
definition SUPR0ObjAddRef_stub where "SUPR0ObjAddRef_stub = idc_stub (map of_char ''SUPR0ObjAddRef'')"
definition SUPR0ObjRelease_stub where "SUPR0ObjRelease_stub = idc_stub (map of_char ''SUPR0ObjRelease'')"
definition SUPR0ObjVerifyAccess_stub where "SUPR0ObjVerifyAccess_stub = idc_stub (map of_char ''SUPR0ObjVerifyAccess'')"

section \<open>The requests arrive\<close>

lemmas wr_other = rd32_wr_other rd64_wr_other

lemma req_header_ok:
  assumes "16 \<le> length b"
  shows "\<exists>b'. req_header b cb p = Some b' \<and> length b' = length b \<and> rd32 b' IDC_OFF_cb = Some cb \<and> rd64 b' IDC_OFF_pSession = Some p"
proof -
  from wr_ok(1)[of 0 b cb] assms obtain b1 where b1: "wr32 b 0 cb = Some b1" "length b1 = length b" by auto
  from wr_ok(1)[of 4 b1] assms b1 obtain b2 where b2: "wr32 b1 4 (word_of_int VERR_WRONG_ORDER) = Some b2" "length b2 = length b" by auto
  from wr_ok(2)[of 8 b2 p] assms b2 obtain b3 where b3: "wr64 b2 8 p = Some b3" "length b3 = length b" by auto
  have "rd32 b3 0 = Some cb" using rd32_wr32[OF b1(1)] rd32_wr_other(1)[OF b2(1), of 0] rd32_wr_other(2)[OF b3(1), of 0] by simp
  with b1 b2 b3 rd64_wr64[OF b3(1)] show ?thesis by (simp add: req_header_def)
qed

lemma connect_req_ok:
  assumes "length b = 40"
  shows "\<exists>b'. connect_req b uReq uMin = Some b' \<and> length b' = 40 \<and> rd32 b' IDC_OFF_cb = Some 40 \<and>
    rd64 b' IDC_OFF_pSession = Some 0 \<and> rd32 b' 16 = Some SUPDRVIDCREQ_CONNECT_MAGIC_COOKIE \<and> rd32 b' 20 = Some uReq \<and>
    rd32 b' 24 = Some uMin"
proof -
  from req_header_ok[of b 40 0] assms obtain b1 where
    b1: "req_header b 40 0 = Some b1" "length b1 = 40" "rd32 b1 0 = Some 40" "rd64 b1 8 = Some 0" by auto
  from wr_ok(1)[of 16 b1] b1 obtain b2 where b2: "wr32 b1 16 SUPDRVIDCREQ_CONNECT_MAGIC_COOKIE = Some b2" "length b2 = 40" by auto
  from wr_ok(1)[of 24 b2] b2 obtain b3 where b3: "wr32 b2 24 uMin = Some b3" "length b3 = 40" by auto
  from wr_ok(1)[of 20 b3] b3 obtain b4 where b4: "wr32 b3 20 uReq = Some b4" "length b4 = 40" by auto
  have "rd32 b4 0 = Some 40" "rd64 b4 8 = Some 0" "rd32 b4 24 = Some uMin" "rd32 b4 20 = Some uReq"
    "rd32 b4 16 = Some SUPDRVIDCREQ_CONNECT_MAGIC_COOKIE"
    using b1(3,4) rd32_wr32[OF b2(1)] rd32_wr32[OF b3(1)] rd32_wr32[OF b4(1)] wr_other(1)[OF b2(1)] wr_other(1)[OF b3(1)] wr_other(1)[OF b4(1)]
      wr_other(3)[OF b2(1)] wr_other(3)[OF b3(1)] wr_other(3)[OF b4(1)] by simp_all
  with b1 b2 b3 b4 show ?thesis by (simp add: connect_req_def)
qed

text \<open>The driver answers a connect request without a session in its answer, or with a new one.\<close>

lemma connect_session_cases:
  assumes drv: "drv_inv K s" and new: "sessOpOk K (SCreate False True (id_sess env)) s"
    and c: "length c = 40" "rd64 c 16 = Some 0" "rd32 c 24 = Some v"
  shows "\<exists>b1 s1. idc_connect_session env 0 c s = Some (0, b1, s1) \<and> length b1 = 40 \<and>
    (s1 = s \<and> rd64 b1 16 = Some 0 \<or>
     s1 = put_session (se_pSession (id_sess env)) (session_new False True (Some session_table) (id_sess env)) s \<and>
     rd32 b1 IDC_OFF_rc = Some 0 \<and> rd64 b1 16 = Some (se_pSession (id_sess env)) \<and> RT_VALID_PTR (se_pSession (id_sess env)) \<and>
     rd32 b1 24 = Some v)"
proof -
  let ?a = "se_pSession (id_sess env)"
  have n: "?a \<noteq> 0 \<longrightarrow> RT_VALID_PTR ?a \<and> sessions s ?a = None" using new by simp
  from create_session_ok[OF drv n, of False True] obtain r q s1 where
    e: "supdrvCreateSession False True (id_sess env) s = ((r, q), s1)"
    "r \<noteq> 0 \<and> s1 = s \<and> (q = None \<or> q = Some 0) \<or> r = 0 \<and> q = Some ?a \<and> ?a \<noteq> 0 \<and>
       s1 = put_session ?a (session_new False True (Some session_table) (id_sess env)) s" by blast
  from wr_ok(1)[of 4 c] c(1) obtain b1 where b1: "wr32 c 4 (word_of_int r) = Some b1" "length b1 = 40" by auto
  let ?p = "case q of None \<Rightarrow> 0 | Some p \<Rightarrow> p"
  from wr_ok(2)[of 16 b1 ?p] b1 obtain b2 where b2: "wr64 b1 16 ?p = Some b2" "length b2 = 40" by auto
  from wr_ok(2)[of 8 b2 ?p] b2 obtain b3 where b3: "wr64 b2 8 ?p = Some b3" "length b3 = 40" by auto
  have "rd64 b1 16 = Some 0" using c(2) wr_other(3)[OF b1(1), of 16] by simp
  moreover have "rd64 b3 16 = Some ?p" using rd64_wr64[OF b2(1)] wr_other(4)[OF b3(1), of 16] by simp
  moreover have "rd32 b3 24 = Some v" "rd32 b3 4 = Some (word_of_int r)"
    using c(3) rd32_wr32[OF b1(1)] wr_other(1)[OF b1(1)] wr_other(2)[OF b2(1)] wr_other(2)[OF b3(1)] by simp_all
  ultimately show ?thesis using e b1 b2 b3 n
    by (cases "RT_FAILURE r") (auto simp: idc_connect_session_def Let_def)
qed

lemma connect_out_ok:
  assumes "length b = 40"
  shows "\<exists>c. connect_out b v r = Some c \<and> length c = 40 \<and> rd64 c 16 = Some 0 \<and> rd32 c 24 = Some v"
proof -
  from wr_ok(2)[of 16 b 0] assms obtain b1 where b1: "wr64 b 16 0 = Some b1" "length b1 = 40" by auto
  from wr_ok(1)[of 24 b1 v] b1 obtain b2 where b2: "wr32 b1 24 v = Some b2" "length b2 = 40" by auto
  from wr_ok(1)[of 28 b2] b2 obtain b3 where b3: "wr32 b2 28 SUPDRV_IDC_VERSION = Some b3" "length b3 = 40" by auto
  from wr_ok(1)[of 32 b3 r] b3 obtain b4 where b4: "wr32 b3 32 r = Some b4" "length b4 = 40" by auto
  have "rd64 b4 16 = Some 0" "rd32 b4 24 = Some v"
    using rd64_wr64[OF b1(1)] rd32_wr32[OF b2(1)] wr_other(3)[OF b2(1)] wr_other(3)[OF b3(1)] wr_other(3)[OF b4(1)]
      wr_other(1)[OF b3(1)] wr_other(1)[OF b4(1)] by simp_all
  with b1 b2 b3 b4 show ?thesis by (simp add: connect_out_def)
qed

lemma idc_connect_cases:
  assumes drv: "drv_inv K s" and new: "sessOpOk K (SCreate False True (id_sess env)) s"
    and b: "length b = 40" "rd32 b IDC_OFF_cb = Some 40" "rd64 b IDC_OFF_pSession = Some 0" "rd32 b 24 = Some uMin"
  shows "\<exists>r b1 s1. SUPDrvLinuxIDC (SUP_IDC_CODE 1) pReq env b s = Some (r, b1, s1) \<and> length b1 = 40 \<and>
    (s1 = s \<and> (RT_SUCCESS r \<longrightarrow> rd64 b1 16 = Some 0) \<or>
     r = 0 \<and> s1 = put_session (se_pSession (id_sess env)) (session_new False True (Some session_table) (id_sess env)) s \<and>
     rd32 b1 IDC_OFF_rc = Some 0 \<and> rd64 b1 16 = Some (se_pSession (id_sess env)) \<and> RT_VALID_PTR (se_pSession (id_sess env)) \<and>
     rd32 b1 24 = Some SUPDRV_IDC_VERSION \<and> uMin \<le> SUPDRV_IDC_VERSION)" (is "?P (SUPDrvLinuxIDC _ _ _ _ _)")
proof (cases "RT_VALID_PTR pReq")
  case False
  with b show ?thesis by (auto simp: SUPDrvLinuxIDC_def)
next
  case True
  obtain mc uR where rd: "rd32 b 16 = Some mc" "rd32 b 20 = Some uR" using rd_ok(2)[of 16 b] rd_ok(2)[of 20 b] b(1) by auto
  from wr_ok(1)[of 4 b "word_of_int VERR_INVALID_PARAMETER"] b(1) obtain b0 where
    w0: "wr32 b 4 (word_of_int VERR_INVALID_PARAMETER) = Some b0" "length b0 = 40" by auto
  then have b0: "idc_fail b s = Some (VERR_INVALID_PARAMETER, b0, s)" unfolding idc_fail_def w0(1) by simp
  obtain c where c: "connect_out b 0xffffffff (id_uRevision env) = Some c" "length c = 40" "rd64 c 16 = Some 0"
    using connect_out_ok[OF b(1)] by blast
  from wr_ok(1)[of 4 c "word_of_int VERR_VERSION_MISMATCH"] c(2) obtain c1 where
    c1: "wr32 c 4 (word_of_int VERR_VERSION_MISMATCH) = Some c1" "length c1 = 40" by auto
  have c2: "rd64 c1 16 = Some 0" using wr_other(3)[OF c1(1), of 16] c(3) by simp
  obtain d where d: "connect_out b SUPDRV_IDC_VERSION (id_uRevision env) = Some d" "length d = 40" "rd64 d 16 = Some 0"
    "rd32 d 24 = Some SUPDRV_IDC_VERSION" using connect_out_ok[OF b(1)] by blast
  have e: "SUPDrvLinuxIDC (SUP_IDC_CODE 1) pReq env b s = idc_CONNECT env 0 b s"
    using True b(3) by (simp add: SUPDrvLinuxIDC_def supdrvIDC_def)
  show ?thesis unfolding e idc_CONNECT_def REQ_CHECK_IDC_SIZE_def
    using connect_session_cases[OF drv new d(2-4)] b rd b0 w0(2) c c1 c2 d by (auto simp: not_less simp del: word_of_int_minus)
qed

section \<open>The library and the driver\<close>

definition main_set :: "addr \<Rightarrow> idcclient \<Rightarrow> idcclient" where
  "main_set h c = c\<lparr>ic_main := (if ic_main c = 0 then h else ic_main c)\<rparr>"

definition main_clear :: "addr \<Rightarrow> idcclient \<Rightarrow> idcclient" where
  "main_clear h c = c\<lparr>ic_main := (if ic_main c = h then 0 else ic_main c)\<rparr>"

lemma set_handle_simps [simp]:
  "ic_handles (set_handle h a c) = (ic_handles c)(h \<mapsto> a)" "ic_main (set_handle h a c) = ic_main c" "ic_pfn (set_handle h a c) = ic_pfn c"
  "set_handle h a (set_handle h b c) = set_handle h a c"
  "ic_handles (main_set h c) = ic_handles c" "ic_handles (main_clear h c) = ic_handles c"
  by (simp_all add: set_handle_def main_set_def main_clear_def)

abbreviation idc_session :: "idccall \<Rightarrow> SUPDRVSESSION" where
  "idc_session env \<equiv> session_new False True (Some session_table) (id_sess (cl_idc env))"

lemma client_open_ok:
  assumes inv: "sess_inv K s" and new: "sessOpOk K (SCreate False True (id_sess (cl_idc env))) s"
    and h: "RT_VALID_PTR h" "ic_handles c h = Some x" and st: "\<forall>n. length (cl_stack env n) = n"
  shows "\<exists>rc ws c1 s1. SUPR0IdcOpen h uReq uMin pS pD pR env c s = Some ((rc, ws), c1, s1) \<and>
    (RT_FAILURE rc \<and> c1 = set_handle h 0 c \<and> s1 = s \<or>
     rc = 0 \<and> c1 = main_set h (set_handle h (se_pSession (id_sess (cl_idc env))) c) \<and> RT_VALID_PTR (se_pSession (id_sess (cl_idc env))) \<and>
     s1 = put_session (se_pSession (id_sess (cl_idc env))) (idc_session env) s)"
proof -
  let ?a = "se_pSession (id_sess (cl_idc env))"
  have drv: "drv_inv K s" using inv by (simp add: sess_inv_def)
  from connect_req_ok[of "cl_stack env 40" "idc_version uReq" "idc_version uMin"] st obtain b where
    b: "connect_req (cl_stack env 40) (idc_version uReq) (idc_version uMin) = Some b" "length b = 40" "rd32 b 0 = Some 40"
      "rd64 b 8 = Some 0" "rd32 b 24 = Some (idc_version uMin)" by auto
  from idc_connect_cases[OF drv new b(2-5), of "cl_pReq env"] obtain r b1 s1 where
    r: "SUPDrvLinuxIDC (SUP_IDC_CODE 1) (cl_pReq env) (cl_idc env) b s = Some (r, b1, s1)" "length b1 = 40"
    "s1 = s \<and> (RT_SUCCESS r \<longrightarrow> rd64 b1 16 = Some 0) \<or> r = 0 \<and> s1 = put_session ?a (idc_session env) s \<and>
     rd32 b1 4 = Some 0 \<and> rd64 b1 16 = Some ?a \<and> RT_VALID_PTR ?a \<and> rd32 b1 24 = Some SUPDRV_IDC_VERSION \<and> idc_version uMin \<le> SUPDRV_IDC_VERSION"
    by blast
  from rd_ok(2)[of 4 b1] rd_ok(2)[of 24 b1] rd_ok(2)[of 28 b1] rd_ok(2)[of 32 b1] r(2) obtain v4 v24 v28 v32 where
    v: "rd32 b1 4 = Some v4" "rd32 b1 24 = Some v24" "rd32 b1 28 = Some v28" "rd32 b1 32 = Some v32" by auto
  have call: "supR0IdcNativeCall (SUP_IDC_CODE 1) env b s = Some (if RT_SUCCESS r then sint v4 else r, b1, s1)"
    by (simp add: supR0IdcNativeCall_def r(1) v(1))
  have close: "SUPR0IdcClose h env (set_handle h 0 c') t = Some (VERR_INVALID_HANDLE, set_handle h 0 c', t)" for c' t
    using h(1) by (simp add: SUPR0IdcClose_def)
  have opened: "\<exists>rc ws c1. idc_opened h (idc_version uMin) pS pD pR ws0 r0 b1 env (set_handle h 0 c) s1 = Some ((rc, ws), c1, s1) \<and>
      (RT_FAILURE rc \<and> c1 = set_handle h 0 c \<and> s1 = s \<or> rc = r0 \<and> c1 = main_set h (set_handle h ?a c) \<and> RT_VALID_PTR ?a \<and> r = 0 \<and> v4 = 0 \<and>
       s1 = put_session ?a (idc_session env) s)" if "RT_SUCCESS r" for ws0 r0
    using r(3) that v close[of c s]
    by (auto simp: idc_opened_def Let_def main_set_def RT_VALID_PTR_def)
  let ?P = "\<lambda>q. \<exists>rc ws c1 s1. q = Some ((rc, ws), c1, s1) \<and>
    (RT_FAILURE rc \<and> c1 = set_handle h 0 c \<and> s1 = s \<or>
     rc = 0 \<and> c1 = main_set h (set_handle h ?a c) \<and> RT_VALID_PTR ?a \<and> s1 = put_session ?a (idc_session env) s)"
  have fail: "?P (Some ((rc, ws), set_handle h 0 c, s))" if "RT_FAILURE rc" for rc ws using that by simp
  have served: "?P (if RT_SUCCESS q then idc_opened h (idc_version uMin) pS pD pR ws0 q b1 env (set_handle h 0 c) s1
      else Some ((q, ws0), set_handle h 0 c, s1))" if q: "q = (if RT_SUCCESS r then sint v4 else r)" for ws0 q
  proof (cases "RT_SUCCESS q")
    case False
    with q r(3) v(1) have "s1 = s" by (auto split: if_splits)
    with False fail show ?thesis by simp
  next
    case True
    with q have "RT_SUCCESS r" by (auto split: if_splits)
    with opened[OF this, of ws0 q] True q show ?thesis by auto
  qed
  have E: "SUPR0IdcOpen h uReq uMin pS pD pR env c s = (let ws3 = out_ptr pR 0 (out_ptr pD 0 (out_ptr pS 0 [])) in
      if pS \<noteq> 0 \<and> \<not> RT_VALID_PTR pS then Some ((VERR_INVALID_POINTER, []), set_handle h 0 c, s)
      else if pD \<noteq> 0 \<and> \<not> RT_VALID_PTR pD then Some ((VERR_INVALID_POINTER, out_ptr pS 0 []), set_handle h 0 c, s)
      else if pR \<noteq> 0 \<and> \<not> RT_VALID_PTR pR then Some ((VERR_INVALID_POINTER, out_ptr pD 0 (out_ptr pS 0 [])), set_handle h 0 c, s)
      else if uMin \<noteq> 0 \<and> IDC_MAJOR uMin \<noteq> IDC_MAJOR SUPDRV_IDC_VERSION then Some ((VERR_INVALID_PARAMETER, ws3), set_handle h 0 c, s)
      else if uReq \<noteq> 0 \<and> IDC_MAJOR uReq \<noteq> IDC_MAJOR SUPDRV_IDC_VERSION then Some ((VERR_INVALID_PARAMETER, ws3), set_handle h 0 c, s)
      else let q = (if RT_SUCCESS r then sint v4 else r) in
        if RT_SUCCESS q then idc_opened h (idc_version uMin) pS pD pR ws3 q b1 env (set_handle h 0 c) s1
        else Some ((q, ws3), set_handle h 0 c, s1))"
    using h by (simp only: SUPR0IdcOpen_def supR0IdcNativeOpen_def Let_def b(1) bind.bind_lunit call h(2) prod.case simp_thms if_False if_True)
  have V: "RT_FAILURE VERR_INVALID_POINTER" "RT_FAILURE VERR_INVALID_PARAMETER" by simp_all
  have pick: "?P (if t then x else y)" if "?P x" "?P y" for t x y using that by presburger
  show ?thesis unfolding E Let_def
    by (rule pick[OF fail[OF V(1)] pick[OF fail[OF V(1)] pick[OF fail[OF V(1)] pick[OF fail[OF V(2)] pick[OF fail[OF V(2)] served[OF refl]]]]]])
qed

text \<open>What a request with an open session, or with none, does to the sessions: only a disconnect request that
  succeeds changes them, and only its own.\<close>

lemma release_others:
  assumes "drv_inv K s" "sessOpOk K (SRelease a menv rcStop) s" "supdrvSessionRelease a menv rcStop s = Some (r, t)" "x \<noteq> a"
  shows "sessions t x = sessions s x"
proof (cases "RT_VALID_PTR a")
  case True
  with assms(2) obtain ss where a: "sessions s a = Some ss" "s_cRefs ss = 1 \<longrightarrow> close_ok K ss menv rcStop" by auto
  from release_session_ok[OF assms(1) a] assms(3,4) show ?thesis by (auto split: if_splits)
qed (use assms(3) in \<open>simp add: supdrvSessionRelease_def\<close>)

lemma idc_sessions:
  assumes inv: "sess_inv K s" and env: "idc_env_ok K (SUP_IDC_CODE k) env b s" and a: "rd64 b IDC_OFF_pSession = Some a"
    and k: "k \<in> {2, 3, 10, 11}" and e: "SUPDrvLinuxIDC (SUP_IDC_CODE k) pReq env b s = Some (r, b1, t)"
  shows "(\<forall>x. x \<noteq> a \<longrightarrow> sessions t x = sessions s x) \<and>
    (sessions t = sessions s \<or> k = 2 \<and> RT_SUCCESS r \<and> rd32 b1 IDC_OFF_rc = Some 0)"
proof -
  have drv: "drv_inv K s" using inv by (simp add: sess_inv_def)
  note facts = env[unfolded idc_env_ok_def]
  have w: "t = s \<or> (k = 2 \<and> idc_DISCONNECT env a b s = Some (r, b1, t) \<and> RT_VALID_PTR a \<or> k = 3 \<and> idc_GET_SYMBOL env a b s = Some (r, b1, t) \<or>
      k = 10 \<and> idc_REGISTER_FACTORY env a b s = Some (r, b1, t) \<and> sessions s a \<noteq> None \<or>
      k = 11 \<and> idc_DEREGISTER_FACTORY env a b s = Some (r, b1, t) \<and> sessions s a \<noteq> None)"
    using e k unfolding SUPDrvLinuxIDC_def supdrvIDC_def a bind.bind_lunit
    by (auto simp: SUP_IDC_CODE_def split: if_splits Option.bind_splits)
  have f: "idc_fail b s = Some (r, b1, t) \<Longrightarrow> t = s" by (auto simp: idc_fail_def split: Option.bind_splits)
  have dis: "(\<forall>x. x \<noteq> a \<longrightarrow> sessions t x = sessions s x) \<and> (t = s \<or> RT_SUCCESS r \<and> rd32 b1 IDC_OFF_rc = Some 0)"
    if "k = 2" "idc_DISCONNECT env a b s = Some (r, b1, t)" "RT_VALID_PTR a"
  proof -
    have ok: "sessOpOk K (SRelease a (id_mem env) (id_rcStop env)) s" using facts a that(1,3) by blast
    from that(2) f consider "t = s"
      | cR s1 where "supdrvSessionRelease a (id_mem env) (id_rcStop env) s = Some (cR, s1)" "t = s1" "r = 0" "wr32 b 4 0 = Some b1"
      by (auto simp: idc_DISCONNECT_def REQ_CHECK_IDC_SIZE_def split: if_splits Option.bind_splits)
    then show ?thesis
      by cases (use release_others[OF drv ok] in \<open>auto simp: rd32_wr32\<close>)
  qed
  have sym: "t = s" if "k = 3" "idc_GET_SYMBOL env a b s = Some (r, b1, t)"
  proof -
    have "u = s" if "rd64 b 16 = Some m" "rd64 b 24 = Some y"
      "supdrvIDC_LdrGetSymbol a m (id_str env m) y (id_str env y) fs le s = Some (q, u)" for m y fs le q u
    proof -
      have "m = 0 \<or> id_str env m = [0x53, 0x75, 0x70, 0x44, 0x72, 0x76] \<or> no_such_export (id_str env m) (id_str env y) s"
        using env \<open>k = 3\<close> that(1,2) by (simp add: idc_env_ok_def)
      from idc_lookup_good[OF inv this, of a y fs le] that(3) show ?thesis by auto
    qed
    with that(2) f show ?thesis
      by (auto simp: idc_GET_SYMBOL_def REQ_CHECK_IDC_SIZE_def idc_ret_def split: if_splits Option.bind_splits)
  qed
  have reg: "sessions t = sessions s" if "idc_REGISTER_FACTORY env a b s = Some (r, b1, t)"
    using that f
    by (auto simp: idc_REGISTER_FACTORY_def REQ_CHECK_IDC_SIZE_def idc_ret_def SUPR0ComponentRegisterFactory_def set_regs_def upd_devext_def
        split: if_splits Option.bind_splits option.splits)
  have dereg: "sessions t = sessions s" if "idc_DEREGISTER_FACTORY env a b s = Some (r, b1, t)"
    using that f
    by (auto simp: idc_DEREGISTER_FACTORY_def REQ_CHECK_IDC_SIZE_def idc_ret_def SUPR0ComponentDeregisterFactory_def set_regs_def upd_devext_def
        split: if_splits Option.bind_splits option.splits)
  show ?thesis using w dis sym reg dereg by metis
qed

lemma native_ok:
  assumes inv: "sess_inv K s" and b: "idc_buf_ok b" and env: "idc_env_ok K (SUP_IDC_CODE k) (cl_idc env) b s"
    and a: "rd64 b IDC_OFF_pSession = Some a" and k: "k \<in> {2, 3, 10, 11}"
  shows "\<exists>r b1 t. supR0IdcNativeCall (SUP_IDC_CODE k) env b s = Some (r, b1, t) \<and> length b1 = length b \<and> sess_inv K t \<and>
    (\<forall>x. x \<noteq> a \<longrightarrow> sessions t x = sessions s x) \<and> (sessions t = sessions s \<or> k = 2 \<and> RT_SUCCESS r)"
proof -
  from idc_good[OF inv b env, of "cl_pReq env"] obtain r b1 t where
    r: "SUPDrvLinuxIDC (SUP_IDC_CODE k) (cl_pReq env) (cl_idc env) b s = Some (r, b1, t)" "length b1 = length b" "sess_inv K t"
    by (auto simp: io_good_def)
  moreover obtain v where "rd32 b1 4 = Some v" using rd_ok(2)[of 4 b1] r(2) b by (auto simp: idc_buf_ok_def)
  ultimately show ?thesis
    using idc_sessions[OF inv env a k r(1)] by (auto simp: supR0IdcNativeCall_def)
qed

section \<open>Runs of a client\<close>

text \<open>
  A handle is in memory and zero until it is opened.  An open handle has a session of its own, and it is open; the
  main handle is in memory.
\<close>

definition client_inv :: "promise set \<Rightarrow> idcclient \<times> supdrv \<Rightarrow> bool" where
  "client_inv K cs \<longleftrightarrow> (case cs of (c, s) \<Rightarrow> sess_inv K s \<and>
     (\<forall>h p. ic_handles c h = Some p \<longrightarrow> RT_VALID_PTR p \<longrightarrow> sessions s p \<noteq> None) \<and>
     (\<forall>h h' p. ic_handles c h = Some p \<longrightarrow> ic_handles c h' = Some p \<longrightarrow> RT_VALID_PTR p \<longrightarrow> h = h') \<and>
     (ic_main c \<noteq> 0 \<longrightarrow> ic_handles c (ic_main c) \<noteq> None))"

datatype client_op =
    COpen addr u32 u32 addr addr addr idccall
  | CClose addr idccall
  | CRegister addr addr idccall
  | CDeregister addr addr idccall
  | CStub "u8 list" addr addr idccall

fun clientStep :: "client_op \<Rightarrow> idcclient \<times> supdrv \<Rightarrow> (idcclient \<times> supdrv) option" where
  "clientStep (COpen h uReq uMin pS pD pR env) (c, s) = map_option snd (SUPR0IdcOpen h uReq uMin pS pD pR env c s)"
| "clientStep (CClose h env) (c, s) = map_option snd (SUPR0IdcClose h env c s)"
| "clientStep (CRegister h p env) (c, s) = map_option (\<lambda>(rc, t). (c, t)) (SUPR0IdcComponentRegisterFactory h p env c s)"
| "clientStep (CDeregister h p env) (c, s) = map_option (\<lambda>(rc, t). (c, t)) (SUPR0IdcComponentDeregisterFactory h p env c s)"
| "clientStep (CStub name pszName pSession env) (c, s) = map_option snd (idc_stub name pszName pSession env c s)"

text \<open>
  What is left for a call to be in order: a handle that is passed is in memory, the stack has room, a new session
  gets a fresh block, the system gives back what a session that is closed has, and a factory is in memory.
\<close>

definition call_ok :: "promise set \<Rightarrow> idccall \<Rightarrow> supdrv \<Rightarrow> bool" where
  "call_ok K env s \<longleftrightarrow> (\<forall>n. length (cl_stack env n) = n) \<and> sessOpOk K (SCreate False True (id_sess (cl_idc env))) s"

abbreviation handle_ok :: "addr \<Rightarrow> idcclient \<Rightarrow> bool" where
  "handle_ok h c \<equiv> RT_VALID_PTR h \<longrightarrow> ic_handles c h \<noteq> None"

fun clientOpOk :: "promise set \<Rightarrow> client_op \<Rightarrow> idcclient \<times> supdrv \<Rightarrow> bool" where
  "clientOpOk K (COpen h uReq uMin pS pD pR env) (c, s) \<longleftrightarrow> call_ok K env s \<and> handle_ok h c"
| "clientOpOk K (CClose h env) (c, s) \<longleftrightarrow> call_ok K env s \<and> handle_ok h c \<and>
     (\<forall>p ss. ic_handles c h = Some p \<longrightarrow> sessions s p = Some ss \<longrightarrow> s_cRefs ss = 1 \<longrightarrow> close_ok K ss (id_mem (cl_idc env)) (id_rcStop (cl_idc env)))"
| "clientOpOk K (CRegister h p env) (c, s) \<longleftrightarrow> call_ok K env s \<and> handle_ok h c \<and>
     (RT_VALID_PTR p \<longrightarrow> (\<exists>f. factories s p = Some f \<and> length (f_szName f) = 56))"
| "clientOpOk K (CDeregister h p env) (c, s) \<longleftrightarrow> call_ok K env s \<and> handle_ok h c"
| "clientOpOk K (CStub name pszName pSession env) (c, s) \<longleftrightarrow> call_ok K env s"

lemma client_invD:
  assumes "client_inv K (c, s)"
  shows "sess_inv K s" "ic_handles c h = Some p \<Longrightarrow> RT_VALID_PTR p \<Longrightarrow> \<exists>ss. sessions s p = Some ss"
    "ic_handles c h = Some p \<Longrightarrow> ic_handles c h' = Some p \<Longrightarrow> RT_VALID_PTR p \<Longrightarrow> h = h'"
    "ic_main c \<noteq> 0 \<Longrightarrow> \<exists>p. ic_handles c (ic_main c) = Some p"
  using assms unfolding client_inv_def by auto

lemma client_inv_sessions:
  assumes "client_inv K (c, s)" "sess_inv K t" "sessions t = sessions s"
  shows "client_inv K (c, t)"
  using assms by (simp add: client_inv_def)

text \<open>A request of so many bytes with the session of a handle in it.\<close>

lemma handle_req_ok:
  assumes inv: "client_inv K (c, s)" and h: "ic_handles c h = Some p" and env: "call_ok K env s" and n: "16 \<le> n" "n < 2 ^ 32"
  shows "\<exists>b. req_header (cl_stack env n) (of_nat n) p = Some b \<and> length b = n \<and> rd32 b IDC_OFF_cb = Some (of_nat n) \<and>
    rd64 b IDC_OFF_pSession = Some p"
  using req_header_ok[of "cl_stack env n" "of_nat n" p] env n by (auto simp: call_ok_def)

lemma close_cases:
  assumes inv: "client_inv K (c, s)" and ok: "clientOpOk K (CClose h env) (c, s)"
  shows "\<exists>rc c1 t. SUPR0IdcClose h env c s = Some (rc, c1, t) \<and> sess_inv K t \<and>
    (c1 = c \<and> sessions t = sessions s \<or>
     (\<exists>p. ic_handles c h = Some p \<and> RT_VALID_PTR p \<and> c1 = main_clear h (set_handle h 0 c) \<and> (\<forall>x. x \<noteq> p \<longrightarrow> sessions t x = sessions s x)))"
proof (cases "RT_VALID_PTR h")
  case False
  with inv show ?thesis by (simp add: SUPR0IdcClose_def client_invD(1))
next
  case True
  with ok obtain p where p: "ic_handles c h = Some p" by auto
  have env: "call_ok K env s" using ok by simp
  show ?thesis
  proof (cases "RT_VALID_PTR p")
    case False
    with inv True p show ?thesis by (simp add: SUPR0IdcClose_def client_invD(1))
  next
    case v: True
    from client_invD(2)[OF inv p v] obtain ss where ss: "sessions s p = Some ss" by blast
    from handle_req_ok[OF inv p env, of 16] obtain b where
      b: "req_header (cl_stack env 16) 16 p = Some b" "length b = 16" "rd32 b 0 = Some 16" "rd64 b 8 = Some p" by auto
    have e: "idc_env_ok K (SUP_IDC_CODE 2) (cl_idc env) b s"
      using env ok p ss b by (auto simp: idc_env_ok_def call_ok_def SUP_IDC_CODE_def)
    have "idc_buf_ok b" using b by (simp add: idc_buf_ok_def)
    from native_ok[OF client_invD(1)[OF inv] this e b(4)] obtain r b1 t where
      r: "supR0IdcNativeCall (SUP_IDC_CODE 2) env b s = Some (r, b1, t)" "sess_inv K t" "\<forall>x. x \<noteq> p \<longrightarrow> sessions t x = sessions s x"
        "sessions t = sessions s \<or> RT_SUCCESS r" by auto
    show ?thesis
    proof (cases "RT_SUCCESS r")
      case suc: True
      then have "SUPR0IdcClose h env c s = Some (r, main_clear h (set_handle h 0 c), t)"
        using True p v b(1) r(1) by (auto simp: SUPR0IdcClose_def main_clear_def set_handle_def RT_VALID_PTR_def)
      with p v r show ?thesis by blast
    next
      case bad: False
      then have "SUPR0IdcClose h env c s = Some (r, c, t)"
        using True p v b(1) r(1) by (auto simp: SUPR0IdcClose_def RT_VALID_PTR_def)
      with bad r show ?thesis by blast
    qed
  qed
qed

lemma component_ok:
  assumes inv: "client_inv K (c, s)" and env: "call_ok K env s" and h: "handle_ok h c" and k: "k \<in> {10, 11}"
    and f: "k = 10 \<Longrightarrow> RT_VALID_PTR p \<Longrightarrow> \<exists>f. factories s p = Some f \<and> length (f_szName f) = 56"
  shows "\<exists>rc t. component_req k h p env c s = Some (rc, t) \<and> client_inv K (c, t)"
proof (cases "RT_VALID_PTR h")
  case True
  with h obtain a where a: "ic_handles c h = Some a" by auto
  show ?thesis
  proof (cases "RT_VALID_PTR a")
    case v: True
    from client_invD(2)[OF inv a v] obtain ss where ss: "sessions s a = Some ss" by blast
    from handle_req_ok[OF inv a env, of 24] obtain b where
      b: "req_header (cl_stack env 24) 24 a = Some b" "length b = 24" "rd32 b 0 = Some 24" "rd64 b 8 = Some a" by auto
    from wr_ok(2)[of 16 b p] b(2) obtain b1 where b1: "wr64 b 16 p = Some b1" "length b1 = 24" by auto
    have r: "rd32 b1 0 = Some 24" "rd64 b1 8 = Some a" "rd64 b1 16 = Some p"
      using b(3,4) wr_other(2)[OF b1(1)] wr_other(4)[OF b1(1)] rd64_wr64[OF b1(1)] by simp_all
    have e: "idc_env_ok K (SUP_IDC_CODE k) (cl_idc env) b1 s"
      using env k f r ss by (auto simp: idc_env_ok_def call_ok_def SUP_IDC_CODE_def)
    have "idc_buf_ok b1" using b1 r by (simp add: idc_buf_ok_def)
    from native_ok[OF client_invD(1)[OF inv] this e r(2)] k obtain rc b2 t where
      t: "supR0IdcNativeCall (SUP_IDC_CODE k) env b1 s = Some (rc, b2, t)" "sess_inv K t" "sessions t = sessions s" by auto
    have "component_req k h p env c s = Some (rc, t)" using True a v b(1) b1(1) t(1) by (simp add: component_req_def)
    with client_inv_sessions[OF inv t(2,3)] show ?thesis by blast
  qed (use True a inv in \<open>simp add: component_req_def\<close>)
qed (use inv in \<open>simp add: component_req_def\<close>)

lemma get_symbol_ok:
  assumes inv: "client_inv K (c, s)" and env: "call_ok K env s" and a: "ic_handles c h = Some a"
  shows "\<exists>r t. supR0IdcGetSymbol h pszName env c s = Some (r, t) \<and> client_inv K (c, t)"
proof -
  from handle_req_ok[OF inv a env, of 32] obtain b where
    b: "req_header (cl_stack env 32) 32 a = Some b" "length b = 32" "rd32 b 0 = Some 32" "rd64 b 8 = Some a" by auto
  from wr_ok(2)[of 24 b pszName] b(2) obtain b1 where b1: "wr64 b 24 pszName = Some b1" "length b1 = 32" by auto
  from wr_ok(2)[of 16 b1 0] b1(2) obtain b2 where b2: "wr64 b1 16 0 = Some b2" "length b2 = 32" by auto
  have r: "rd32 b2 0 = Some 32" "rd64 b2 8 = Some a" "rd64 b2 16 = Some 0"
    using b(3,4) wr_other(2)[OF b1(1)] wr_other(4)[OF b1(1)] wr_other(2)[OF b2(1)] wr_other(4)[OF b2(1)] rd64_wr64[OF b2(1)] by simp_all
  have e: "idc_env_ok K (SUP_IDC_CODE 3) (cl_idc env) b2 s"
    using env r client_invD(2)[OF inv a] by (auto simp: idc_env_ok_def call_ok_def SUP_IDC_CODE_def)
  have "idc_buf_ok b2" using b2 r by (simp add: idc_buf_ok_def)
  from native_ok[OF client_invD(1)[OF inv] this e r(2)] obtain rc b3 t where
    t: "supR0IdcNativeCall (SUP_IDC_CODE 3) env b2 s = Some (rc, b3, t)" "length b3 = length b2" "sess_inv K t" "sessions t = sessions s" by auto
  obtain v where "rd64 b3 16 = Some v" using rd_ok(3)[of 16 b3] t(2) b2(2) by auto
  with b(1) b1(1) b2(1) t(1) a have "\<exists>r. supR0IdcGetSymbol h pszName env c s = Some (r, t)"
    by (auto simp: supR0IdcGetSymbol_def)
  with client_inv_sessions[OF inv t(3,4)] show ?thesis by blast
qed

lemma stub_ok:
  assumes inv: "client_inv K (c, s)" and env: "call_ok K env s"
  shows "\<exists>r c1 t. idc_stub name pszName pSession env c s = Some (r, c1, t) \<and> client_inv K (c1, t)"
proof -
  have q: "client_inv K (c\<lparr>ic_pfn := f\<rparr>, t) = client_inv K (c, t)" for f t by (simp add: client_inv_def)
  obtain h where h: "supR0IdcGetHandleFromSession pSession c = Some h" "h \<noteq> 0 \<Longrightarrow> h = ic_main c"
  proof (cases "RT_VALID_PTR (ic_main c)")
    case True
    then have "ic_main c \<noteq> 0" by (auto simp: RT_VALID_PTR_def)
    from client_invD(4)[OF inv this] obtain p where "ic_handles c (ic_main c) = Some p" by blast
    with True show thesis by (intro that[of "if p = pSession then ic_main c else 0"]) (auto simp: supR0IdcGetHandleFromSession_def)
  qed (use that in \<open>simp add: supR0IdcGetHandleFromSession_def\<close>)
  show ?thesis
  proof (cases "ic_pfn c name \<noteq> 0 \<or> h = 0")
    case True
    with h(1) inv show ?thesis by (auto simp: idc_stub_def supR0IdcGetSymbolBySession_def)
  next
    case False
    with h(2) client_invD(4)[OF inv] obtain a where "ic_handles c h = Some a" by auto
    from get_symbol_ok[OF inv env this, of pszName] obtain r t where
      "supR0IdcGetSymbol h pszName env c s = Some (r, t)" "client_inv K (c, t)" by blast
    with False h(1) q show ?thesis by (auto simp: idc_stub_def supR0IdcGetSymbolBySession_def split: option.split)
  qed
qed

lemma client_inv_set_0: "client_inv K (c, s) \<Longrightarrow> client_inv K (set_handle h 0 c, s)"
  by (auto simp: client_inv_def split: if_splits)

lemma client_inv_main:
  "client_inv K (c, s) \<Longrightarrow> ic_handles c h \<noteq> None \<Longrightarrow> client_inv K (main_set h c, s)"
  "client_inv K (c, s) \<Longrightarrow> client_inv K (main_clear h c, s)"
  by (auto simp: client_inv_def main_set_def main_clear_def)

lemma client_inv_open:
  assumes inv: "client_inv K (c, s)" and a: "sessions s a = None" and t: "sess_inv K (put_session a ss s)"
  shows "client_inv K (set_handle h a c, put_session a ss s)"
proof -
  have "ic_handles c h' \<noteq> Some a" if "RT_VALID_PTR a" for h' using client_invD(2)[OF inv _ that] a by force
  with inv t show ?thesis unfolding client_inv_def by (auto split: if_splits)
qed

lemma client_inv_close:
  assumes inv: "client_inv K (c, s)" and p: "ic_handles c h = Some p" and t: "sess_inv K t" "\<forall>x. x \<noteq> p \<longrightarrow> sessions t x = sessions s x"
  shows "client_inv K (set_handle h 0 c, t)"
proof -
  have "sessions t x \<noteq> None" if "ic_handles c h' = Some x" "h' \<noteq> h" "RT_VALID_PTR x" for h' x
  proof -
    have "x \<noteq> p" using client_invD(3)[OF inv _ p, of h'] that by blast
    with client_invD(2)[OF inv that(1,3)] t(2) show ?thesis by auto
  qed
  with inv t(1) show ?thesis unfolding client_inv_def by (auto split: if_splits)
qed

lemma clientStep_safe:
  assumes inv: "client_inv K cs" and ok: "clientOpOk K op cs"
  shows "\<exists>cs'. clientStep op cs = Some cs' \<and> client_inv K cs'"
proof -
  obtain c s where cs: "cs = (c, s)" by force
  note inv = inv[unfolded cs] and ok = ok[unfolded cs]
  show ?thesis
  proof (cases op)
    case (COpen h uReq uMin pS pD pR env)
    show ?thesis
    proof (cases "RT_VALID_PTR h")
      case False
      with inv COpen show ?thesis by (simp add: cs SUPR0IdcOpen_def)
    next
      case True
      with ok COpen obtain x where x: "ic_handles c h = Some x" by auto
      have new: "sessOpOk K (SCreate False True (id_sess (cl_idc env))) s" and st: "\<forall>n. length (cl_stack env n) = n"
        using ok COpen by (simp_all add: call_ok_def)
      let ?a = "se_pSession (id_sess (cl_idc env))"
      from client_open_ok[OF client_invD(1)[OF inv] new True x st, of uReq uMin pS pD pR] obtain rc ws c1 t where
        t: "SUPR0IdcOpen h uReq uMin pS pD pR env c s = Some ((rc, ws), c1, t)"
        "c1 = set_handle h 0 c \<and> t = s \<or> c1 = main_set h (set_handle h ?a c) \<and> RT_VALID_PTR ?a \<and> t = put_session ?a (idc_session env) s" by blast
      have "client_inv K (main_set h (set_handle h ?a c), put_session ?a (idc_session env) s)" if v: "RT_VALID_PTR ?a"
      proof -
        have z: "?a \<noteq> 0" using v by (auto simp: RT_VALID_PTR_def)
        then have n: "sessions s ?a = None" using new by simp
        have "drv_inv K s" using client_invD(1)[OF inv] by (simp add: sess_inv_def)
        from drv_new[OF this n v] have "sess_inv K (put_session ?a (idc_session env) s)"
          using client_invD(1)[OF inv] by (auto simp: sess_inv_def session_new_refs)
        from client_inv_open[OF inv n this] show ?thesis by (auto intro: client_inv_main)
      qed
      with t client_inv_set_0[OF inv] COpen show ?thesis by (auto simp: cs)
    qed
  next
    case (CClose h env)
    with close_cases[OF inv] ok obtain rc c1 t where t: "SUPR0IdcClose h env c s = Some (rc, c1, t)" "sess_inv K t"
      "c1 = c \<and> sessions t = sessions s \<or>
       (\<exists>p. ic_handles c h = Some p \<and> c1 = main_clear h (set_handle h 0 c) \<and> (\<forall>x. x \<noteq> p \<longrightarrow> sessions t x = sessions s x))" by blast
    then have "client_inv K (c1, t)"
      using client_inv_sessions[OF inv] client_inv_close[OF inv] client_inv_main(2) by blast
    with t(1) CClose show ?thesis by (simp add: cs)
  next
    case (CRegister h p env)
    with component_ok[OF inv, of env h 10 p] ok show ?thesis by (auto simp: cs SUPR0IdcComponentRegisterFactory_def)
  next
    case (CDeregister h p env)
    with component_ok[OF inv, of env h 11 p] ok show ?thesis by (auto simp: cs SUPR0IdcComponentDeregisterFactory_def)
  next
    case (CStub name pszName pSession env)
    with stub_ok[OF inv, of env] ok show ?thesis by (fastforce simp: cs)
  qed
qed

interpretation clientapi: guarded_api clientStep "clientOpOk K" "client_inv K" for K
  by unfold_locales (rule clientStep_safe)

section \<open>A connection\<close>

text \<open>With the default versions, opening a handle succeeds when the driver can create a session.\<close>

lemma client_open_default:
  assumes drv: "d_u32Cookie (devext s) = BIRD" and h: "RT_VALID_PTR h" "ic_handles c h = Some x" and st: "\<forall>n. length (cl_stack env n) = n"
    and p: "RT_VALID_PTR (cl_pReq env)" and a: "RT_VALID_PTR (se_pSession (id_sess (cl_idc env)))"
    and os: "se_rcSpinlock (id_sess (cl_idc env)) = 0" "se_fTableAlloc (id_sess (cl_idc env))" "RT_SUCCESS (se_rcTableLock (id_sess (cl_idc env)))"
  shows "SUPR0IdcOpen h 0 0 0 0 0 env c s = Some ((0, []), main_set h (set_handle h (se_pSession (id_sess (cl_idc env))) c),
    put_session (se_pSession (id_sess (cl_idc env))) (idc_session env) s)"
proof -
  let ?e = "cl_idc env" and ?v = "0x10000 :: u32"
  let ?a = "se_pSession (id_sess ?e)"
  let ?t = "put_session ?a (idc_session env) s"
  from connect_req_ok[of "cl_stack env 40" ?v ?v] st obtain b where
    b: "connect_req (cl_stack env 40) ?v ?v = Some b" "length b = 40" "rd32 b 0 = Some 40" "rd64 b 8 = Some 0"
      "rd32 b 16 = Some SUPDRVIDCREQ_CONNECT_MAGIC_COOKIE" "rd32 b 20 = Some ?v" "rd32 b 24 = Some ?v" by auto
  from connect_out_ok[OF b(2)] obtain d where d: "connect_out b ?v (id_uRevision ?e) = Some d" "length d = 40" "rd64 d 16 = Some 0"
    "rd32 d 24 = Some ?v" by blast
  have z: "?a \<noteq> 0" using a by (auto simp: RT_VALID_PTR_def)
  then have cs: "supdrvCreateSession False True (id_sess ?e) s = ((0, Some ?a), ?t)" using os by (simp add: create_session_eq[OF drv])
  from wr_ok(1)[of 4 d 0] d(2) obtain b1 where b1: "wr32 d 4 0 = Some b1" "length b1 = 40" by auto
  from wr_ok(2)[of 16 b1 ?a] b1 obtain b2 where b2: "wr64 b1 16 ?a = Some b2" "length b2 = 40" by auto
  from wr_ok(2)[of 8 b2 ?a] b2 obtain b3 where b3: "wr64 b2 8 ?a = Some b3" "length b3 = 40" by auto
  have r: "rd64 b3 16 = Some ?a" "rd32 b3 4 = Some 0" "rd32 b3 24 = Some ?v"
    using rd64_wr64[OF b2(1)] rd32_wr32[OF b1(1)] wr_other(4)[OF b3(1)] d(4) wr_other(1)[OF b1(1)] wr_other(2)[OF b2(1)] wr_other(2)[OF b3(1)]
    by simp_all
  obtain v28 v32 where v: "rd32 b3 28 = Some v28" "rd32 b3 32 = Some v32"
    using rd_ok(2)[of 28 b3] rd_ok(2)[of 32 b3] b3(2) by auto
  have "SUPDrvLinuxIDC (SUP_IDC_CODE 1) (cl_pReq env) ?e b s = Some (0, b3, ?t)"
    using p b d b1(1) b2(1) b3(1)
    by (simp add: SUPDrvLinuxIDC_def supdrvIDC_def idc_CONNECT_def REQ_CHECK_IDC_SIZE_def idc_connect_session_def Let_def cs)
  then have call: "supR0IdcNativeCall (SUP_IDC_CODE 1) env b s = Some (0, b3, ?t)"
    by (simp add: supR0IdcNativeCall_def r(2))
  have ver: "idc_version 0 = ?v" by (simp add: idc_version_def)
  have "idc_opened h ?v 0 0 0 [] 0 b3 env (set_handle h 0 c) ?t = Some ((0, []), main_set h (set_handle h ?a c), ?t)"
    using r v a by (simp add: idc_opened_def out_ptr_def Let_def main_set_def)
  then show ?thesis
    using h by (simp add: SUPR0IdcOpen_def ver b(1) call out_ptr_def Let_def)
qed

text \<open>Closing a handle whose session nobody else holds.\<close>

lemma client_close_new:
  assumes drv: "drv_inv K s" and h: "RT_VALID_PTR h" "ic_handles c h = Some a" and a: "RT_VALID_PTR a" "sessions s a = None"
    and st: "\<forall>n. length (cl_stack env2 n) = n" and p: "RT_VALID_PTR (cl_pReq env2)"
  shows "SUPR0IdcClose h env2 c (put_session a (idc_session env) s) = Some (0, main_clear h (set_handle h 0 c), s)"
proof -
  let ?t = "put_session a (idc_session env) s"
  have z: "a \<noteq> 0" using a(1) by (auto simp: RT_VALID_PTR_def)
  from req_header_ok[of "cl_stack env2 16" 16 a] st obtain b where
    b: "req_header (cl_stack env2 16) 16 a = Some b" "length b = 16" "rd32 b 0 = Some 16" "rd64 b 8 = Some a" by auto
  from wr_ok(1)[of 4 b 0] b(2) obtain b1 where b1: "wr32 b 4 0 = Some b1" by auto
  have rel: "supdrvSessionRelease a (id_mem (cl_idc env2)) (id_rcStop (cl_idc env2)) ?t = Some (0, s)"
    by (rule release_new_session[OF a drv_inv_fact[OF drv]])
  have "SUPDrvLinuxIDC (SUP_IDC_CODE 2) (cl_pReq env2) (cl_idc env2) b ?t = Some (0, b1, s)"
    using p b z a(1) b1 rel
    by (simp add: SUPDrvLinuxIDC_def supdrvIDC_def SUP_IDC_CODE_def idc_DISCONNECT_def REQ_CHECK_IDC_SIZE_def session_new_def)
  then show ?thesis
    using h b(1) z a(1) rd32_wr32[OF b1] by (simp add: SUPR0IdcClose_def supR0IdcNativeCall_def main_clear_def set_handle_def)
qed

section \<open>Properties\<close>

text \<open>C38: A driver that uses the library makes no request that the support driver cannot serve: in every run of
  opens, closes, registrations and calls through the stubs no call faults, both sides stay
  consistent, and every open handle keeps an open session of its own.\<close>

theorem client_run_safe:
  "client_inv K cs \<Longrightarrow> run_ok clientStep (clientOpOk K) ops cs \<Longrightarrow> \<exists>cs'. run_steps clientStep ops cs = Some cs' \<and> client_inv K cs'"
  by (rule clientapi.run_safe)

text \<open>C39: Opening and closing a handle cancel: after an open that succeeds, whatever versions were asked for, the
  handle has a session that is new to the driver, and closing it puts the driver back and clears the handle.\<close>

theorem client_open_close:
  assumes inv: "sess_inv K s" and ok: "clientOpOk K (COpen h uReq uMin pS pD pR env) (c, s)" and h: "RT_VALID_PTR h"
    and op: "SUPR0IdcOpen h uReq uMin pS pD pR env c s = Some ((rc, ws), c1, s1)" "RT_SUCCESS rc"
    and st: "\<forall>n. length (cl_stack env2 n) = n" and p: "RT_VALID_PTR (cl_pReq env2)"
  shows "\<exists>a c2. SUPR0IdcGetSession h c1 = Some a \<and> a \<noteq> 0 \<and> sessions s a = None \<and> sessions s1 a = Some (idc_session env) \<and>
    SUPR0IdcClose h env2 c1 s1 = Some (0, c2, s) \<and> ic_handles c2 = (ic_handles c)(h \<mapsto> 0) \<and>
    ic_main c2 = (if ic_main c = h then 0 else ic_main c)"
proof -
  let ?a = "se_pSession (id_sess (cl_idc env))"
  obtain x where x: "ic_handles c h = Some x" using ok h by auto
  have new: "sessOpOk K (SCreate False True (id_sess (cl_idc env))) s" and st1: "\<forall>n. length (cl_stack env n) = n"
    using ok by (simp_all add: call_ok_def)
  from client_open_ok[OF inv new h x st1, of uReq uMin pS pD pR] op have
    o: "c1 = main_set h (set_handle h ?a c)" "RT_VALID_PTR ?a" "s1 = put_session ?a (idc_session env) s" by auto
  have z: "?a \<noteq> 0" using o(2) by (auto simp: RT_VALID_PTR_def)
  then have n: "sessions s ?a = None" using new by simp
  have hd: "ic_handles c1 h = Some ?a" by (simp add: o(1))
  from client_close_new[where K = K, OF _ h hd o(2) n st p, of env] inv have
    "SUPR0IdcClose h env2 c1 s1 = Some (0, main_clear h (set_handle h 0 c1), s)" by (simp add: o(3) sess_inv_def)
  moreover have "SUPR0IdcGetSession h c1 = Some ?a" using h o(2) hd by (simp add: SUPR0IdcGetSession_def)
  ultimately show ?thesis
    using z n by (auto simp: o(1,3) main_clear_def main_set_def set_handle_def)
qed

text \<open>A stub calls the driver's own function: for a client that has opened its main handle, the first call
  through a stub resolves the function to what the export table of the driver has under the name
  of the stub, and to none when the table has no such name; it is kept for all later calls, and
  asking changes nothing in the driver.\<close>

theorem client_stub_resolves:
  assumes h: "RT_VALID_PTR (ic_main c)" "ic_handles c (ic_main c) = Some a" and a: "RT_VALID_PTR a" "sessions s a = Some ss" "s_R0Process ss = NIL_RTR0PROCESS"
    and first: "ic_pfn c name = 0" and st: "\<forall>n. length (cl_stack env n) = n" and p: "RT_VALID_PTR (cl_pReq env)"
    and name: "RT_VALID_PTR pszName" "id_str (cl_idc env) pszName = name" "length name < 512"
  shows "let pfn = (case map_of (id_aFunctions (cl_idc env)) name of Some pfn \<Rightarrow> pfn | None \<Rightarrow> 0)
    in idc_stub name pszName a env c s = Some (pfn, c\<lparr>ic_pfn := (ic_pfn c)(name := pfn)\<rparr>, s)"
proof -
  let ?f = "case map_of (id_aFunctions (cl_idc env)) name of Some pfn \<Rightarrow> pfn | None \<Rightarrow> 0"
  have z: "a \<noteq> 0" "ic_main c \<noteq> 0" using a(1) h(1) by (auto simp: RT_VALID_PTR_def)
  from req_header_ok[of "cl_stack env 32" 32 a] st obtain b where
    b: "req_header (cl_stack env 32) 32 a = Some b" "length b = 32" "rd32 b 0 = Some 32" "rd64 b 8 = Some a" by auto
  from wr_ok(2)[of 24 b pszName] b(2) obtain b1 where b1: "wr64 b 24 pszName = Some b1" "length b1 = 32" by auto
  from wr_ok(2)[of 16 b1 0] b1(2) obtain b2 where b2: "wr64 b1 16 0 = Some b2" "length b2 = 32" by auto
  have r: "rd32 b2 0 = Some 32" "rd64 b2 8 = Some a" "rd64 b2 16 = Some 0" "rd64 b2 24 = Some pszName"
    using b(3,4) wr_other(2)[OF b1(1)] wr_other(4)[OF b1(1)] wr_other(2)[OF b2(1)] wr_other(4)[OF b2(1)] rd64_wr64[OF b2(1)] rd64_wr64[OF b1(1)]
    by simp_all
  from wr_ok(2)[of 16 b2 ?f] b2(2) obtain b3 where b3: "wr64 b2 16 ?f = Some b3" "length b3 = 32" by auto
  from wr_ok(1)[of 4 b3 0] b3(2) obtain b4 where b4: "wr32 b3 4 0 = Some b4" by auto
  have r4: "rd32 b4 4 = Some 0" "rd64 b4 16 = Some ?f"
    using rd32_wr32[OF b4] wr_other(3)[OF b4, of 16] rd64_wr64[OF b3(1)] by simp_all
  have "supdrvIDC_LdrGetSymbol a 0 sm pszName name (id_aFunctions (cl_idc env)) e s = Some ((0, ?f), s)" for sm e
    using name(1,3) by (simp add: supdrvIDC_LdrGetSymbol_def split: option.split)
  then have "SUPDrvLinuxIDC (SUP_IDC_CODE 3) (cl_pReq env) (cl_idc env) b2 s = Some (0, b4, s)"
    using p r z(1) a b3(1) b4 name(2)
    by (simp add: SUPDrvLinuxIDC_def supdrvIDC_def SUP_IDC_CODE_def idc_GET_SYMBOL_def REQ_CHECK_IDC_SIZE_def idc_ret_def)
  then have "supR0IdcGetSymbol (ic_main c) pszName env c s = Some (Some ?f, s)"
    using h(2) b(1) b1(1) b2(1) r4 by (simp add: supR0IdcGetSymbol_def supR0IdcNativeCall_def)
  then show ?thesis
    using h z(2) first by (simp add: idc_stub_def supR0IdcGetSymbolBySession_def supR0IdcGetHandleFromSession_def)
qed

section \<open>Witnesses\<close>

definition client0 :: idcclient where
  "client0 = \<lparr>ic_handles = [0x50000 \<mapsto> 0], ic_main = 0, ic_pfn = (\<lambda>_. 0)\<rparr>"

definition idccall0 :: idccall where
  "idccall0 = \<lparr>cl_pReq = 0x60000, cl_stack = (\<lambda>n. replicate n 0), cl_idc = idcenv0\<lparr>id_aFunctions := [(map of_char ''SUPR0ObjAddRef'', 0x77000)], id_str := (\<lambda>_. map of_char ''SUPR0ObjAddRef'')\<rparr>\<rparr>"

lemma call0_ok: "call_ok K idccall0 (driver_full t)"
  using sessenv0_new by (simp add: call_ok_def idccall0_def)

lemma client0_inv: "sess_inv K s \<Longrightarrow> client_inv K (client0, s)"
  by (simp add: client_inv_def client0_def RT_VALID_PTR_def split: if_splits)

abbreviation "full_opened t \<equiv> put_session 0x12000 (idc_session idccall0) (driver_full t)"

lemma client0_open:
  "SUPR0IdcOpen 0x50000 0 0 0 0 0 idccall0 client0 (driver_full t) =
     Some ((0, []), client0\<lparr>ic_handles := [0x50000 \<mapsto> 0x12000], ic_main := 0x50000\<rparr>, full_opened t)"
proof -
  have d: "d_u32Cookie (devext (driver_full t)) = BIRD" by (simp add: devext0_def)
  have "RT_VALID_PTR 0x50000" "ic_handles client0 0x50000 = Some 0" by (simp_all add: RT_VALID_PTR_def client0_def)
  from client_open_default[OF d this, of idccall0] show ?thesis
    by (simp add: idccall0_def idcenv0_def sessenv0_def RT_VALID_PTR_def main_set_def set_handle_def client0_def)
qed

definition idccall1 :: idccall where
  "idccall1 = idccall0\<lparr>cl_idc := (cl_idc idccall0)\<lparr>id_sess := sessenv0\<lparr>se_pSession := 0\<rparr>\<rparr>\<rparr>"

lemma call1_ok: "call_ok K idccall1 s"
  by (simp add: call_ok_def idccall1_def idccall0_def)

theorem client_run_safe_witness:
  "\<exists>t cs. run_steps clientStep [COpen 0x50000 0 0 0 0 0 idccall0, CDeregister 0x50000 0x70000 idccall1] (client0, driver_full t) = Some cs \<and> client_inv UNIV cs"
proof -
  obtain t h where t: "ht_inv t" "ht_map t = [h \<mapsto> (0x20000, 4)]" "h \<noteq> 0" by (rule one_handle)
  let ?ops = "[COpen 0x50000 0 0 0 0 0 idccall0, CDeregister 0x50000 0x70000 idccall1]"
  have h: "ic_handles client0 0x50000 = Some 0" by (simp add: client0_def)
  have "run_ok clientStep (clientOpOk UNIV) ?ops (client0, driver_full t)"
    using call0_ok call1_ok h by (simp add: client0_open split: option.split)
  from client_run_safe[OF client0_inv[OF driver_full_ok[OF t(1,2)]] this] show ?thesis by blast
qed

theorem client_open_close_witness:
  "\<exists>t c1 c2. SUPR0IdcOpen 0x50000 0 0 0 0 0 idccall0 client0 (driver_full t) = Some ((0, []), c1, full_opened t) \<and>
     SUPR0IdcGetSession 0x50000 c1 = Some 0x12000 \<and> SUPR0IdcClose 0x50000 idccall1 c1 (full_opened t) = Some (0, c2, driver_full t)"
proof -
  obtain t h where t: "ht_inv t" "ht_map t = [h \<mapsto> (0x20000, 4)]" "h \<noteq> 0" by (rule one_handle)
  have v: "RT_VALID_PTR 0x50000" "RT_VALID_PTR 0x12000" "RT_VALID_PTR (cl_pReq idccall1)"
    by (simp_all add: RT_VALID_PTR_def idccall1_def idccall0_def)
  have ok: "clientOpOk UNIV (COpen 0x50000 0 0 0 0 0 idccall0) (client0, driver_full t)"
    using call0_ok by (simp add: client0_def)
  have st: "\<forall>n. length (cl_stack idccall1 n) = n" by (simp add: idccall1_def idccall0_def)
  from client_open_close[OF driver_full_ok[OF t(1,2)] ok v(1) client0_open _ st v(3)] obtain a c2 where
    "SUPR0IdcGetSession 0x50000 (client0\<lparr>ic_handles := [0x50000 \<mapsto> 0x12000], ic_main := 0x50000\<rparr>) = Some a"
    "SUPR0IdcClose 0x50000 idccall1 (client0\<lparr>ic_handles := [0x50000 \<mapsto> 0x12000], ic_main := 0x50000\<rparr>) (full_opened t) = Some (0, c2, driver_full t)"
    by auto
  moreover from this(1) have "a = 0x12000" using v by (simp add: SUPR0IdcGetSession_def)
  ultimately show ?thesis using client0_open[of t] by blast
qed

theorem client_stub_resolves_witness:
  "\<exists>t c1 c2. SUPR0IdcOpen 0x50000 0 0 0 0 0 idccall0 client0 (driver_full t) = Some ((0, []), c1, full_opened t) \<and>
     SUPR0ObjAddRef_stub 0x61000 0x12000 idccall1 c1 (full_opened t) = Some (0x77000, c2, full_opened t)"
proof -
  let ?c = "client0\<lparr>ic_handles := [0x50000 \<mapsto> 0x12000], ic_main := 0x50000\<rparr>" and ?n = "map of_char ''SUPR0ObjAddRef'' :: u8 list"
  fix t
  have v: "RT_VALID_PTR (ic_main ?c)" "RT_VALID_PTR 0x12000" "RT_VALID_PTR (cl_pReq idccall1)" "RT_VALID_PTR 0x61000"
    by (simp_all add: RT_VALID_PTR_def idccall1_def idccall0_def)
  have st: "\<forall>n. length (cl_stack idccall1 n) = n" by (simp add: idccall1_def idccall0_def)
  have h: "ic_handles ?c (ic_main ?c) = Some 0x12000" "ic_pfn ?c ?n = 0" by (simp_all add: client0_def)
  have a: "sessions (full_opened t) 0x12000 = Some (idc_session idccall0)" "s_R0Process (idc_session idccall0) = NIL_RTR0PROCESS"
    by (simp_all add: session_new_def)
  have s: "id_str (cl_idc idccall1) 0x61000 = ?n" "id_aFunctions (cl_idc idccall1) = [(?n, 0x77000)]"
    by (simp_all add: idccall1_def idccall0_def)
  have l: "length ?n < 512" by simp
  from client_stub_resolves[OF v(1) h(1) v(2) a h(2) st v(3,4) s(1) l] show ?thesis
    using client0_open[of t] by (auto simp: s(2) SUPR0ObjAddRef_stub_def simp del: list.map)
qed

end
