(* ===== verification/SupVtg.thy ===== *)
theory SupVtg
  imports SupReq
begin

text \<open>
  Tracepoint objects (\<open>SUPDrvTracer.cpp\<close>, \<open>VBoxTpG.h\<close>): a VTG object is a header with the offsets of its
  areas (strings, argument lists, probes, providers, enabled counts) and of an array of probe locations.
  Drivers, ring-0 images and VM processes register such objects, and \<open>supdrvVtgValidate\<close> checks them before
  anything in them is used.  Here memory is a map from addresses to bytes; a byte outside of it is a fault.
  The properties are what a validated object guarantees, and how much memory the validation reads.
\<close>

section \<open>Memory\<close>

type_synonym vmem = "addr \<rightharpoonup> u8"

definition vbytes :: "vmem \<Rightarrow> addr \<Rightarrow> nat \<Rightarrow> u8 list option" where
  "vbytes mem p n = those (map (\<lambda>i. mem (p + of_nat i)) [0..<n])"

definition vr16 :: "vmem \<Rightarrow> addr \<Rightarrow> 16 word option" where
  "vr16 mem p = map_option (\<lambda>bs. ucast (le32 bs)) (vbytes mem p 2)"

definition vr32 :: "vmem \<Rightarrow> addr \<Rightarrow> u32 option" where
  "vr32 mem p = map_option le32 (vbytes mem p 4)"

definition vr64 :: "vmem \<Rightarrow> addr \<Rightarrow> u64 option" where
  "vr64 mem p = map_option le64 (vbytes mem p 8)"

text \<open>A store, to bytes that are there.\<close>

definition vw32 :: "vmem \<Rightarrow> addr \<Rightarrow> u32 \<Rightarrow> vmem option" where
  "vw32 mem p v = do {
     _ \<leftarrow> vbytes mem p 4;
     Some (\<lambda>a. if unat (a - p) < 4 then Some (le_bytes 4 v ! unat (a - p)) else mem a)
   }"

section \<open>Status codes and sizes\<close>

abbreviation "VERR_SUPDRV_VTG_MAGIC \<equiv> (-3704::rc)"
abbreviation "VERR_SUPDRV_VTG_BITS \<equiv> (-3705::rc)"
abbreviation "VERR_SUPDRV_VTG_BAD_HDR_MISC \<equiv> (-3706::rc)"
abbreviation "VERR_SUPDRV_VTG_BAD_HDR_OFF \<equiv> (-3707::rc)"
abbreviation "VERR_SUPDRV_VTG_BAD_HDR_PTR \<equiv> (-3708::rc)"
abbreviation "VERR_SUPDRV_VTG_BAD_HDR_TOO_FEW \<equiv> (-3709::rc)"
abbreviation "VERR_SUPDRV_VTG_BAD_HDR_TOO_MUCH \<equiv> (-3710::rc)"
abbreviation "VERR_SUPDRV_VTG_BAD_HDR_NOT_MULTIPLE \<equiv> (-3711::rc)"
abbreviation "VERR_SUPDRV_VTG_STRTAB_OFF \<equiv> (-3712::rc)"
abbreviation "VERR_SUPDRV_VTG_BAD_STRING \<equiv> (-3713::rc)"
abbreviation "VERR_SUPDRV_VTG_STRING_TOO_LONG \<equiv> (-3714::rc)"
abbreviation "VERR_SUPDRV_VTG_BAD_ATTR \<equiv> (-3715::rc)"
abbreviation "VERR_SUPDRV_VTG_BAD_PROVIDER \<equiv> (-3716::rc)"
abbreviation "VERR_SUPDRV_VTG_BAD_PROBE \<equiv> (-3717::rc)"
abbreviation "VERR_SUPDRV_VTG_BAD_ARGLIST \<equiv> (-3718::rc)"
abbreviation "VERR_SUPDRV_VTG_BAD_PROBE_ENABLED \<equiv> (-3719::rc)"
abbreviation "VERR_SUPDRV_VTG_BAD_PROBE_LOC \<equiv> (-3720::rc)"
abbreviation "VERR_SUPDRV_TRACER_BAD_ARG_FLAGS \<equiv> (-3731::rc)"
abbreviation "VERR_SUPDRV_TRACER_TOO_LARGE \<equiv> (-3733::rc)"

text \<open>\<open>MY_CHECK_RET\<close>.\<close>

definition vchk :: "bool \<Rightarrow> rc \<Rightarrow> rc option \<Rightarrow> rc option" where
  "vchk c rc k = (if \<not> c then Some rc else k)"

text \<open>A call whose status is returned unless it is \<open>VINF_SUCCESS\<close>.\<close>

definition vcall :: "rc option \<Rightarrow> rc option \<Rightarrow> rc option" where
  "vcall m k = do { rc \<leftarrow> m; if rc \<noteq> VINF_SUCCESS then Some rc else k }"

section \<open>Strings\<close>

definition vtg_char :: "u8 \<Rightarrow> bool" where
  "vtg_char ch \<longleftrightarrow> 0x30 \<le> ch \<and> ch \<le> 0x39 \<or> 0x41 \<le> ch \<and> ch \<le> 0x5a \<or> 0x61 \<le> ch \<and> ch \<le> 0x7a \<or>
     ch \<in> {0x20, 0x5f, 0x2d, 0x28, 0x29, 0x2c, 0x2a, 0x26}"

fun vtg_string :: "nat \<Rightarrow> vmem \<Rightarrow> addr \<Rightarrow> rc option" where
  "vtg_string 0 mem psz = Some VERR_SUPDRV_VTG_STRING_TOO_LONG"
| "vtg_string (Suc n) mem psz = do {
     ch \<leftarrow> mem psz;
     if ch = 0 then Some VINF_SUCCESS
     else if \<not> vtg_char ch then Some VERR_SUPDRV_VTG_BAD_STRING
     else vtg_string n mem (psz + 1)
   }"

definition supdrvVtgValidateString :: "vmem \<Rightarrow> addr \<Rightarrow> rc option" where
  "supdrvVtgValidateString = vtg_string 4096"

section \<open>The header\<close>

text \<open>The image that the object lies in, its base and size, if there is one.\<close>

type_synonym vimage = "(addr \<times> u64) option"

definition MY_WITHIN_IMAGE :: "vimage \<Rightarrow> addr \<Rightarrow> bool" where
  "MY_WITHIN_IMAGE img p \<longleftrightarrow> (case img of Some (pbImage, cbImage) \<Rightarrow> \<not> p - pbImage > cbImage | None \<Rightarrow> RT_VALID_PTR p)"

definition MY_VALIDATE_SIZE :: "u32 \<Rightarrow> nat \<Rightarrow> nat \<Rightarrow> nat \<Rightarrow> rc option \<Rightarrow> rc option" where
  "MY_VALIDATE_SIZE cb cMin cMax cbUnit k =
     (if unat cb < cMin * cbUnit then Some VERR_SUPDRV_VTG_BAD_HDR_TOO_FEW
      else if unat cb \<ge> cMax * cbUnit then Some VERR_SUPDRV_VTG_BAD_HDR_TOO_MUCH
      else if unat cb div cbUnit * cbUnit \<noteq> unat cb then Some VERR_SUPDRV_VTG_BAD_HDR_NOT_MULTIPLE
      else k)"

definition MY_VALIDATE_OFF :: "u32 \<Rightarrow> u32 \<Rightarrow> u32 \<Rightarrow> nat \<Rightarrow> nat \<Rightarrow> nat \<Rightarrow> nat \<Rightarrow> rc option \<Rightarrow> rc option" where
  "MY_VALIDATE_OFF cbVtgObj off cb cMin cMax cbUnit cbAlign k =
     (if cb \<ge> cbVtgObj \<or> off > cbVtgObj - cb then Some VERR_SUPDRV_VTG_BAD_HDR_OFF
      else if unat off mod cbAlign \<noteq> 0 then Some VERR_SUPDRV_VTG_BAD_HDR_OFF
      else MY_VALIDATE_SIZE cb cMin cMax cbUnit k)"

text \<open>The fields, by their offsets in the structure (\<open>VTGOBJHDR\<close>, 128 bytes).\<close>

abbreviation "cb_VTGOBJHDR \<equiv> (128::u32)"
abbreviation "cb_VTGDESCPROBE \<equiv> (16::nat)"
abbreviation "cb_VTGDESCPROVIDER \<equiv> (24::nat)"
abbreviation "cb_VTGPROBELOC \<equiv> (32::nat)"

definition hd32 :: "vmem \<Rightarrow> addr \<Rightarrow> u64 \<Rightarrow> u32 option" where
  "hd32 mem pVtgHdr off = vr32 mem (pVtgHdr + off)"

abbreviation "H_cBits \<equiv> (24::u64)"
abbreviation "H_cbObj \<equiv> (28::u64)"
abbreviation "H_offStrTab \<equiv> (32::u64)"
abbreviation "H_cbStrTab \<equiv> (36::u64)"
abbreviation "H_offArgLists \<equiv> (40::u64)"
abbreviation "H_cbArgLists \<equiv> (44::u64)"
abbreviation "H_offProbes \<equiv> (48::u64)"
abbreviation "H_cbProbes \<equiv> (52::u64)"
abbreviation "H_offProviders \<equiv> (56::u64)"
abbreviation "H_cbProviders \<equiv> (60::u64)"
abbreviation "H_offProbeEnabled \<equiv> (64::u64)"
abbreviation "H_cbProbeEnabled \<equiv> (68::u64)"
abbreviation "H_offProbeLocs \<equiv> (72::u64)"
abbreviation "H_cbProbeLocs \<equiv> (76::u64)"
abbreviation "H_uProbeLocs \<equiv> (80::u64)"
abbreviation "H_uProbeLocsEnd \<equiv> (88::u64)"
abbreviation "H_Uuid \<equiv> (96::u64)"
abbreviation "H_au32Reserved1 \<equiv> (120::u64)"

definition VTGOBJHDR_MAGIC :: "u8 list" where
  "VTGOBJHDR_MAGIC = map of_char ''VTG Object Header v1.5'' @ [0, 0]"

text \<open>
  The offset and the size of the probe locations are filled in when the offset is zero.
\<close>

definition vtg_set_probe_locs :: "vmem \<Rightarrow> addr \<Rightarrow> u64 \<Rightarrow> (rc \<times> vmem) option" where
  "vtg_set_probe_locs mem pVtgHdr uVtgHdrAddr = do {
     offProbeLocs \<leftarrow> hd32 mem pVtgHdr H_offProbeLocs;
     if offProbeLocs \<noteq> 0 then Some (VINF_SUCCESS, mem)
     else do {
       uEnd \<leftarrow> vr64 mem (pVtgHdr + H_uProbeLocsEnd);
       uLocs \<leftarrow> vr64 mem (pVtgHdr + H_uProbeLocs);
       if uEnd - uLocs \<ge> 0xffffffff then Some (VERR_SUPDRV_VTG_BAD_HDR_TOO_MUCH, mem)
       else do {
         mem1 \<leftarrow> vw32 mem (pVtgHdr + H_cbProbeLocs) (ucast (uEnd - uLocs));
         let u64Tmp = uLocs - uVtgHdrAddr;
         if u64Tmp \<noteq> scast (ucast u64Tmp :: u32) then Some (VERR_SUPDRV_VTG_BAD_HDR_PTR, mem1)
         else do {
           mem2 \<leftarrow> vw32 mem1 (pVtgHdr + H_offProbeLocs) (ucast u64Tmp);
           Some (VINF_SUCCESS, mem2)
         }
       }
     }
   }"

fun vtg_overlap :: "(u32 \<times> u32) list \<Rightarrow> u32 \<Rightarrow> rc option \<Rightarrow> rc option" where
  "vtg_overlap [] off k = k"
| "vtg_overlap ((offArea, cbArea) # as) off k =
     (if offArea < off then Some VERR_SUPDRV_VTG_BAD_HDR_MISC else vtg_overlap as (offArea + cbArea) k)"

text \<open>The areas, from the fields.\<close>

definition vtg_area_checks :: "vimage \<Rightarrow> u64 \<Rightarrow> bool \<Rightarrow> u32 \<Rightarrow> u32 \<Rightarrow> u32 \<Rightarrow> u32 \<Rightarrow> u32 \<Rightarrow> u32 \<Rightarrow> u32 \<Rightarrow> u32 \<Rightarrow> u32 \<Rightarrow> u32 \<Rightarrow> u32 \<Rightarrow> u32 \<Rightarrow> u32 \<Rightarrow> u32 \<Rightarrow> u64 \<Rightarrow> u64 \<Rightarrow> u32 \<Rightarrow> rc option" where
  "vtg_area_checks img uVtgHdrAddr fUmod cbVtgObj cBits offStrTab cbStrTab offArgLists cbArgLists offProbes cbProbes offProviders cbProviders
       offProbeEnabled cbProbeEnabled offProbeLocs cbProbeLocs uLocs uEnd cbObj =
     MY_VALIDATE_OFF cbVtgObj offStrTab cbStrTab 4 0x100000 1 1 (
     MY_VALIDATE_OFF cbVtgObj offArgLists cbArgLists 1 0x8000 4 4 (
     MY_VALIDATE_OFF cbVtgObj offProbes cbProbes 1 0x8000 cb_VTGDESCPROBE 4 (
     MY_VALIDATE_OFF cbVtgObj offProviders cbProviders 1 16 cb_VTGDESCPROVIDER 4 (
     MY_VALIDATE_OFF cbVtgObj offProbeEnabled cbProbeEnabled 1 0x8000 4 4 (
     (if \<not> fUmod then \<lambda>k. vchk (MY_WITHIN_IMAGE img uLocs) VERR_SUPDRV_VTG_BAD_HDR_PTR
        (vchk (MY_WITHIN_IMAGE img uEnd) VERR_SUPDRV_VTG_BAD_HDR_PTR (MY_VALIDATE_SIZE cbProbeLocs 1 0x20000 cb_VTGPROBELOC k))
      else if cBits = 32 then MY_VALIDATE_SIZE cbProbeLocs 1 0x2000 16
      else MY_VALIDATE_SIZE cbProbeLocs 1 0x2000 32) (
     vchk (uEnd - uLocs = ucast cbProbeLocs \<and> uLocs - uVtgHdrAddr = scast offProbeLocs) VERR_SUPDRV_VTG_BAD_HDR_MISC (
     vchk (unat cbProbes div cb_VTGDESCPROBE = unat cbProbeEnabled div 4) VERR_SUPDRV_VTG_BAD_HDR_MISC (
     vtg_overlap ([(offStrTab, cbStrTab), (offArgLists, cbArgLists), (offProbes, cbProbes), (offProviders, cbProviders),
         (offProbeEnabled, cbProbeEnabled)] @ (if 0 \<le> sint offProbeLocs then [(offProbeLocs, cbProbeLocs)] else [])) cb_VTGOBJHDR (
     vchk (\<not> (0 < sint offProbeLocs \<and> - offProbeLocs < cbProbeLocs)) VERR_SUPDRV_VTG_BAD_HDR_MISC (
     vchk (cbObj = offProbeEnabled + cbProbeEnabled) VERR_SUPDRV_VTG_BAD_HDR_MISC (
     Some VINF_SUCCESS)))))))))))"

text \<open>Everything after the offsets are set.\<close>

definition vtg_hdr_checks :: "vmem \<Rightarrow> addr \<Rightarrow> u64 \<Rightarrow> vimage \<Rightarrow> bool \<Rightarrow> u32 \<Rightarrow> rc option" where
  "vtg_hdr_checks mem p uVtgHdrAddr img fUmod cbVtgObj = do {
     szMagic \<leftarrow> vbytes mem p 24;
     vchk (szMagic = VTGOBJHDR_MAGIC) VERR_SUPDRV_VTG_MAGIC (do {
     cBits \<leftarrow> hd32 mem p H_cBits;
     vchk (\<not> (cBits \<noteq> 64 \<and> (\<not> fUmod \<or> cBits \<noteq> 32 \<and> cBits \<noteq> 64))) VERR_SUPDRV_VTG_BITS (do {
     res0 \<leftarrow> hd32 mem p H_au32Reserved1;
     res1 \<leftarrow> hd32 mem p (H_au32Reserved1 + 4);
     Uuid \<leftarrow> vbytes mem (p + H_Uuid) 16;
     vchk (res0 = 0) VERR_SUPDRV_VTG_BAD_HDR_MISC (
     vchk (res1 = 0) VERR_SUPDRV_VTG_BAD_HDR_MISC (
     vchk (Uuid \<noteq> replicate 16 0) VERR_SUPDRV_VTG_BAD_HDR_MISC (do {
     offStrTab \<leftarrow> hd32 mem p H_offStrTab; cbStrTab \<leftarrow> hd32 mem p H_cbStrTab;
     offArgLists \<leftarrow> hd32 mem p H_offArgLists; cbArgLists \<leftarrow> hd32 mem p H_cbArgLists;
     offProbes \<leftarrow> hd32 mem p H_offProbes; cbProbes \<leftarrow> hd32 mem p H_cbProbes;
     offProviders \<leftarrow> hd32 mem p H_offProviders; cbProviders \<leftarrow> hd32 mem p H_cbProviders;
     offProbeEnabled \<leftarrow> hd32 mem p H_offProbeEnabled; cbProbeEnabled \<leftarrow> hd32 mem p H_cbProbeEnabled;
     offProbeLocs \<leftarrow> hd32 mem p H_offProbeLocs; cbProbeLocs \<leftarrow> hd32 mem p H_cbProbeLocs;
     uLocs \<leftarrow> vr64 mem (p + H_uProbeLocs); uEnd \<leftarrow> vr64 mem (p + H_uProbeLocsEnd);
     cbObj \<leftarrow> hd32 mem p H_cbObj;
     vtg_area_checks img uVtgHdrAddr fUmod cbVtgObj cBits offStrTab cbStrTab offArgLists cbArgLists offProbes cbProbes offProviders cbProviders
       offProbeEnabled cbProbeEnabled offProbeLocs cbProbeLocs uLocs uEnd cbObj
     }))) }) }) }"

text \<open>With no base or no size there is no image.\<close>

definition vtg_image :: "addr \<Rightarrow> u64 \<Rightarrow> vimage" where
  "vtg_image pbImage cbImage = (if pbImage = 0 \<or> cbImage = 0 then None else Some (pbImage, cbImage))"

definition supdrvVtgValidateHdr :: "vmem \<Rightarrow> addr \<Rightarrow> u64 \<Rightarrow> vimage \<Rightarrow> bool \<Rightarrow> (rc \<times> vmem) option" where
  "supdrvVtgValidateHdr mem pVtgHdr uVtgHdrAddr img fUmod =
     (if img \<noteq> None \<and> \<not> MY_WITHIN_IMAGE img pVtgHdr then Some (VERR_SUPDRV_VTG_BAD_HDR_PTR, mem)
      else do {
        cbVtgObj \<leftarrow> hd32 mem pVtgHdr H_cbObj;
        if img \<noteq> None \<and> \<not> MY_WITHIN_IMAGE img (pVtgHdr + ucast cbVtgObj - 1) then Some (VERR_SUPDRV_VTG_BAD_HDR_PTR, mem)
        else if cbVtgObj > 0x100000 then Some (VERR_SUPDRV_TRACER_TOO_LARGE, mem)
        else do {
          (rc, mem1) \<leftarrow> vtg_set_probe_locs mem pVtgHdr uVtgHdrAddr;
          if rc \<noteq> VINF_SUCCESS then Some (rc, mem1)
          else do {
            rc1 \<leftarrow> vtg_hdr_checks mem1 pVtgHdr uVtgHdrAddr img fUmod cbVtgObj;
            Some (rc1, mem1)
          }
        }
      })"

section \<open>Providers, probes and probe locations\<close>

definition MY_VALIDATE_STR :: "vmem \<Rightarrow> addr \<Rightarrow> u32 \<Rightarrow> rc option \<Rightarrow> rc option" where
  "MY_VALIDATE_STR mem p offStr k = do {
     cbStrTab \<leftarrow> hd32 mem p H_cbStrTab;
     offStrTab \<leftarrow> hd32 mem p H_offStrTab;
     vchk (offStr < cbStrTab) VERR_SUPDRV_VTG_STRTAB_OFF
       (vcall (supdrvVtgValidateString mem (p + ucast offStrTab + ucast offStr)) k)
   }"

definition MY_VALIDATE_ATTR :: "vmem \<Rightarrow> addr \<Rightarrow> rc option \<Rightarrow> rc option" where
  "MY_VALIDATE_ATTR mem a k = do {
     u8Code \<leftarrow> mem a; u8Data \<leftarrow> mem (a + 1); u8DataDep \<leftarrow> mem (a + 2);
     vchk (\<not> (u8Code \<le> 0 \<or> u8Code \<ge> 9)) VERR_SUPDRV_VTG_BAD_ATTR (
     vchk (\<not> (u8Data \<le> 0 \<or> u8Data \<ge> 9)) VERR_SUPDRV_VTG_BAD_ATTR (
     vchk (\<not> (u8DataDep \<le> 0 \<or> u8DataDep \<ge> 7)) VERR_SUPDRV_VTG_BAD_ATTR k))
   }"

definition provider_at :: "addr \<Rightarrow> u32 \<Rightarrow> nat \<Rightarrow> addr" where
  "provider_at p offProviders i = p + ucast offProviders + of_nat (cb_VTGDESCPROVIDER * i)"

definition vtg_provider :: "vmem \<Rightarrow> addr \<Rightarrow> nat \<Rightarrow> rc option \<Rightarrow> rc option" where
  "vtg_provider mem p i k = do {
     offProviders \<leftarrow> hd32 mem p H_offProviders;
     cbProbeEnabled \<leftarrow> hd32 mem p H_cbProbeEnabled;
     let pProvider = provider_at p offProviders i;
     offName \<leftarrow> vr32 mem pProvider;
     iFirstProbe \<leftarrow> vr16 mem (pProvider + 4);
     cProbes \<leftarrow> vr16 mem (pProvider + 6);
     bReserved \<leftarrow> mem (pProvider + 23);
     MY_VALIDATE_STR mem p offName (
     vchk (unat iFirstProbe < unat cbProbeEnabled div 4) VERR_SUPDRV_VTG_BAD_PROVIDER (
     vchk (unat iFirstProbe + unat cProbes \<le> unat cbProbeEnabled div 4) VERR_SUPDRV_VTG_BAD_PROVIDER (
     MY_VALIDATE_ATTR mem (pProvider + 8) (
     MY_VALIDATE_ATTR mem (pProvider + 11) (
     MY_VALIDATE_ATTR mem (pProvider + 14) (
     MY_VALIDATE_ATTR mem (pProvider + 17) (
     MY_VALIDATE_ATTR mem (pProvider + 20) (
     vchk (bReserved = 0) VERR_SUPDRV_VTG_BAD_PROVIDER k))))))))
   }"

text \<open>The arguments of a list, last one first; \<open>large\<close> collects whether one of them is large.\<close>

fun vtg_args :: "vmem \<Rightarrow> addr \<Rightarrow> addr \<Rightarrow> nat \<Rightarrow> bool \<Rightarrow> (bool \<Rightarrow> rc option) \<Rightarrow> rc option" where
  "vtg_args mem p pArgList 0 large k = k large"
| "vtg_args mem p pArgList (Suc iArg) large k = do {
     let pArg = pArgList + 4 + of_nat (8 * iArg);
     offType \<leftarrow> vr32 mem pArg;
     fType \<leftarrow> vr32 mem (pArg + 4);
     vchk (fType AND NOT 0xff000fff = 0) VERR_SUPDRV_TRACER_BAD_ARG_FLAGS (
     vchk (fType AND 0xff \<in> {0, 1, 2, 4, 8} \<and> \<not> (fType AND 0xff = 0 \<and> fType AND 0x100 \<noteq> 0)) VERR_SUPDRV_TRACER_BAD_ARG_FLAGS (
     MY_VALIDATE_STR mem p offType
       (vtg_args mem p pArgList iArg (large \<or> fType AND 0xff > 4 \<and> fType AND 0x100 \<noteq> 0) k)))
   }"

definition vtg_arglist :: "vmem \<Rightarrow> addr \<Rightarrow> addr \<Rightarrow> rc option \<Rightarrow> rc option" where
  "vtg_arglist mem p pArgList k = do {
     cArgs \<leftarrow> mem pArgList;
     fHaveLargeArgs \<leftarrow> mem (pArgList + 1);
     res0 \<leftarrow> mem (pArgList + 2);
     res1 \<leftarrow> mem (pArgList + 3);
     vchk (\<not> cArgs > 16) VERR_SUPDRV_VTG_BAD_ARGLIST (
     vchk (\<not> fHaveLargeArgs \<ge> 2) VERR_SUPDRV_VTG_BAD_ARGLIST (
     vchk (res0 = 0 \<and> res1 = 0) VERR_SUPDRV_VTG_BAD_ARGLIST (
     vtg_args mem p pArgList (unat cArgs) False (\<lambda>large.
       vchk (of_bool large = fHaveLargeArgs) VERR_SUPDRV_VTG_BAD_PROBE k))))
   }"

definition probe_at :: "addr \<Rightarrow> u32 \<Rightarrow> nat \<Rightarrow> addr" where
  "probe_at p offProbes i = p + ucast offProbes + of_nat (cb_VTGDESCPROBE * i)"

definition vtg_probe :: "vmem \<Rightarrow> addr \<Rightarrow> nat \<Rightarrow> rc option \<Rightarrow> rc option" where
  "vtg_probe mem p i k = do {
     offProbes \<leftarrow> hd32 mem p H_offProbes;
     offProviders \<leftarrow> hd32 mem p H_offProviders;
     cbProviders \<leftarrow> hd32 mem p H_cbProviders;
     offArgLists \<leftarrow> hd32 mem p H_offArgLists;
     cbArgLists \<leftarrow> hd32 mem p H_cbArgLists;
     let pProbe = probe_at p offProbes i;
     offName \<leftarrow> vr32 mem pProbe;
     offArgList \<leftarrow> vr32 mem (pProbe + 4);
     idxEnabled \<leftarrow> vr16 mem (pProbe + 8);
     idxProvider \<leftarrow> vr16 mem (pProbe + 10);
     offObjHdr \<leftarrow> vr32 mem (pProbe + 12);
     MY_VALIDATE_STR mem p offName (
     vchk (offArgList < cbArgLists) VERR_SUPDRV_VTG_BAD_PROBE (
     vchk (offArgList AND 3 = 0) VERR_SUPDRV_VTG_BAD_PROBE (
     vchk (unat idxEnabled = i) VERR_SUPDRV_VTG_BAD_PROBE (
     vchk (unat idxProvider < unat cbProviders div cb_VTGDESCPROVIDER) VERR_SUPDRV_VTG_BAD_PROBE (do {
       let pProvider = provider_at p offProviders (unat idxProvider);
       iFirstProbe \<leftarrow> vr16 mem (pProvider + 4);
       cProbes \<leftarrow> vr16 mem (pProvider + 6);
       vchk ((of_nat i :: u64) - ucast iFirstProbe < ucast cProbes) VERR_SUPDRV_VTG_BAD_PROBE (
       vchk (scast offObjHdr = p - pProbe) VERR_SUPDRV_VTG_BAD_PROBE (
       vtg_arglist mem p (p + ucast offArgLists + ucast offArgList) k)) })))))
   }"

text \<open>The enabled counts: the loop has no use for its index.\<close>

fun vtg_enabled :: "vmem \<Rightarrow> addr \<Rightarrow> nat \<Rightarrow> rc option \<Rightarrow> rc option" where
  "vtg_enabled mem pcProbeEnabled 0 k = k"
| "vtg_enabled mem pcProbeEnabled (Suc i) k = do {
     c \<leftarrow> vr32 mem pcProbeEnabled;
     vchk (c = 0) VERR_SUPDRV_VTG_BAD_PROBE_ENABLED (vtg_enabled mem pcProbeEnabled i k)
   }"

definition vtg_probe_loc :: "vmem \<Rightarrow> addr \<Rightarrow> vimage \<Rightarrow> addr \<Rightarrow> rc option \<Rightarrow> rc option" where
  "vtg_probe_loc mem p img pLoc k = do {
     offProbes \<leftarrow> hd32 mem p H_offProbes;
     cbProbes \<leftarrow> hd32 mem p H_cbProbes;
     u \<leftarrow> vr32 mem pLoc;
     idProbe \<leftarrow> vr32 mem (pLoc + 4);
     pszFunction \<leftarrow> vr64 mem (pLoc + 8);
     pProbe \<leftarrow> vr64 mem (pLoc + 16);
     vchk (u AND 0x7fffffff < 0x40000000) VERR_SUPDRV_VTG_BAD_PROBE_LOC (
     vchk (\<not> bit u 31) VERR_SUPDRV_VTG_BAD_PROBE_LOC (
     vchk (idProbe = 0) VERR_SUPDRV_VTG_BAD_PROBE_LOC (
     let offTmp = pProbe - ucast offProbes - p in
     vchk (offTmp < ucast cbProbes) VERR_SUPDRV_VTG_BAD_PROBE_LOC (
     vchk (unat offTmp div cb_VTGDESCPROBE * cb_VTGDESCPROBE = unat offTmp) VERR_SUPDRV_VTG_BAD_PROBE_LOC (
     vchk (MY_WITHIN_IMAGE img pszFunction) VERR_SUPDRV_VTG_BAD_PROBE_LOC k)))))
   }"

text \<open>A check of each of \<open>n\<close> entries, last one first.\<close>

fun vtg_each :: "(nat \<Rightarrow> rc option \<Rightarrow> rc option) \<Rightarrow> nat \<Rightarrow> rc option \<Rightarrow> rc option" where
  "vtg_each f 0 k = k"
| "vtg_each f (Suc i) k = f i (vtg_each f i k)"

definition vtg_body :: "vmem \<Rightarrow> addr \<Rightarrow> vimage \<Rightarrow> rc option" where
  "vtg_body mem p img = do {
     cbProviders \<leftarrow> hd32 mem p H_cbProviders;
     cbProbes \<leftarrow> hd32 mem p H_cbProbes;
     offProbeEnabled \<leftarrow> hd32 mem p H_offProbeEnabled;
     cbProbeEnabled \<leftarrow> hd32 mem p H_cbProbeEnabled;
     offProbeLocs \<leftarrow> hd32 mem p H_offProbeLocs;
     cbProbeLocs \<leftarrow> hd32 mem p H_cbProbeLocs;
     vtg_each (vtg_provider mem p) (unat cbProviders div cb_VTGDESCPROVIDER) (
     vtg_each (vtg_probe mem p) (unat cbProbes div cb_VTGDESCPROBE) (
     vtg_enabled mem (p + ucast offProbeEnabled) (unat cbProbeEnabled div 4) (
     vtg_each (\<lambda>i. vtg_probe_loc mem p img (p + scast offProbeLocs + of_nat (cb_VTGPROBELOC * i))) (unat cbProbeLocs div cb_VTGPROBELOC)
       (Some VINF_SUCCESS))))
   }"

definition supdrvVtgValidate :: "vmem \<Rightarrow> addr \<Rightarrow> u64 \<Rightarrow> addr \<Rightarrow> u64 \<Rightarrow> bool \<Rightarrow> (rc \<times> vmem) option" where
  "supdrvVtgValidate mem pVtgHdr uVtgHdrAddr pbImage cbImage fUmod = do {
     let img = vtg_image pbImage cbImage;
     (rc, mem1) \<leftarrow> supdrvVtgValidateHdr mem pVtgHdr uVtgHdrAddr img fUmod;
     if RT_FAILURE rc then Some (rc, mem1)
     else do {
       rc1 \<leftarrow> vtg_body mem1 pVtgHdr img;
       Some (rc1, mem1)
     }
   }"

section \<open>What success says, check by check\<close>

lemma vchk_success: "vchk c rc k = Some 0 \<longleftrightarrow> (if c then k = Some 0 else rc = 0)"
  by (auto simp: vchk_def)

lemma vchk_ok: "vchk c (- numeral w) k = Some 0 \<longleftrightarrow> c \<and> k = Some 0"
  by (auto simp: vchk_def)

lemma vcall_success: "vcall m k = Some 0 \<longleftrightarrow> m = Some 0 \<and> k = Some 0"
  by (auto simp: vcall_def split: Option.bind_split)

lemma size_success:
  "0 < u \<Longrightarrow> MY_VALIDATE_SIZE cb lo hi u k = Some 0 \<longleftrightarrow> lo * u \<le> unat cb \<and> unat cb < hi * u \<and> u dvd unat cb \<and> k = Some 0"
proof -
  have "u dvd c \<longleftrightarrow> c div u * u = c" for c by (metis dvd_div_mult_self dvd_triv_right)
  then show ?thesis by (auto simp: MY_VALIDATE_SIZE_def)
qed

lemma off_success:
  "0 < u \<Longrightarrow> MY_VALIDATE_OFF obj off cb lo hi u al k = Some 0 \<longleftrightarrow> unat cb < unat obj \<and> unat off + unat cb \<le> unat obj \<and> unat off mod al = 0 \<and>
     lo * u \<le> unat cb \<and> unat cb < hi * u \<and> u dvd unat cb \<and> k = Some 0"
  by (auto simp: MY_VALIDATE_OFF_def size_success not_le not_less word_less_nat_alt word_le_nat_alt unat_sub)

definition str_ok :: "vmem \<Rightarrow> addr \<Rightarrow> bool" where
  "str_ok mem psz \<longleftrightarrow> (\<exists>n < 4096. mem (psz + of_nat n) = Some 0 \<and> (\<forall>i < n. \<exists>ch. mem (psz + of_nat i) = Some ch \<and> ch \<noteq> 0 \<and> vtg_char ch))"

lemma vtg_string_success:
  "vtg_string m mem psz = Some 0 \<longleftrightarrow> (\<exists>n < m. mem (psz + of_nat n) = Some 0 \<and> (\<forall>i < n. \<exists>ch. mem (psz + of_nat i) = Some ch \<and> ch \<noteq> 0 \<and> vtg_char ch))"
proof (induction m arbitrary: psz)
  case (Suc m)
  let ?P = "\<lambda>psz n. mem (psz + of_nat n) = Some 0 \<and> (\<forall>i < n. \<exists>ch. mem (psz + of_nat i) = Some ch \<and> ch \<noteq> 0 \<and> vtg_char ch)"
  have step: "?P psz (Suc n) \<longleftrightarrow> (\<exists>ch. mem psz = Some ch \<and> ch \<noteq> 0 \<and> vtg_char ch) \<and> ?P (psz + 1) n" for n
    by (auto simp: All_less_Suc2 add.assoc)
  have "(\<exists>n < Suc m. ?P psz n) \<longleftrightarrow> mem psz = Some 0 \<or> (\<exists>ch. mem psz = Some ch \<and> ch \<noteq> 0 \<and> vtg_char ch) \<and> (\<exists>n < m. ?P (psz + 1) n)"
    unfolding Ex_less_Suc2 step by auto
  then show ?case using Suc.IH[of "psz + 1"] by (auto split: Option.bind_split)
qed simp

lemma string_success: "supdrvVtgValidateString mem psz = Some 0 \<longleftrightarrow> str_ok mem psz"
  by (simp add: supdrvVtgValidateString_def vtg_string_success str_ok_def)

lemma each_success:
  assumes "\<forall>i k. i < m \<longrightarrow> f i k = Some 0 \<longrightarrow> Q i \<and> k = Some 0"
  shows "vtg_each f n k = Some 0 \<Longrightarrow> n \<le> m \<Longrightarrow> (\<forall>i < n. Q i) \<and> k = Some 0"
proof (induction n)
  case (Suc n)
  then show ?case using assms by (simp add: less_Suc_eq) (meson le_refl Suc_leD less_le_trans lessI)
qed simp

lemma enabled_success: "vtg_enabled mem a n k = Some 0 \<Longrightarrow> k = Some 0"
  by (induction n) (auto simp: vchk_ok split: Option.bind_split_asm)

section \<open>What a validated object guarantees\<close>

record VTGOBJHDR =
  h_cbObj :: nat
  h_offStrTab :: nat   h_cbStrTab :: nat
  h_offArgLists :: nat h_cbArgLists :: nat
  h_offProbes :: nat   h_cbProbes :: nat
  h_offProviders :: nat h_cbProviders :: nat
  h_offProbeEnabled :: nat h_cbProbeEnabled :: nat
  h_offProbeLocs :: int h_cbProbeLocs :: nat

definition vtg_hdr :: "vmem \<Rightarrow> addr \<Rightarrow> VTGOBJHDR option" where
  "vtg_hdr mem p = do {
     cbObj \<leftarrow> hd32 mem p H_cbObj;
     offStrTab \<leftarrow> hd32 mem p H_offStrTab; cbStrTab \<leftarrow> hd32 mem p H_cbStrTab;
     offArgLists \<leftarrow> hd32 mem p H_offArgLists; cbArgLists \<leftarrow> hd32 mem p H_cbArgLists;
     offProbes \<leftarrow> hd32 mem p H_offProbes; cbProbes \<leftarrow> hd32 mem p H_cbProbes;
     offProviders \<leftarrow> hd32 mem p H_offProviders; cbProviders \<leftarrow> hd32 mem p H_cbProviders;
     offProbeEnabled \<leftarrow> hd32 mem p H_offProbeEnabled; cbProbeEnabled \<leftarrow> hd32 mem p H_cbProbeEnabled;
     offProbeLocs \<leftarrow> hd32 mem p H_offProbeLocs; cbProbeLocs \<leftarrow> hd32 mem p H_cbProbeLocs;
     Some \<lparr>h_cbObj = unat cbObj, h_offStrTab = unat offStrTab, h_cbStrTab = unat cbStrTab, h_offArgLists = unat offArgLists,
       h_cbArgLists = unat cbArgLists, h_offProbes = unat offProbes, h_cbProbes = unat cbProbes, h_offProviders = unat offProviders,
       h_cbProviders = unat cbProviders, h_offProbeEnabled = unat offProbeEnabled, h_cbProbeEnabled = unat cbProbeEnabled,
       h_offProbeLocs = sint offProbeLocs, h_cbProbeLocs = unat cbProbeLocs\<rparr>
   }"

text \<open>The areas follow each other, are apart, end with the object and hold whole entries.\<close>

definition layout_ok :: "VTGOBJHDR \<Rightarrow> bool" where
  "layout_ok H \<longleftrightarrow> 128 \<le> h_offStrTab H \<and> h_offStrTab H + h_cbStrTab H \<le> h_offArgLists H \<and>
     h_offArgLists H + h_cbArgLists H \<le> h_offProbes H \<and> h_offProbes H + h_cbProbes H \<le> h_offProviders H \<and>
     h_offProviders H + h_cbProviders H \<le> h_offProbeEnabled H \<and> h_offProbeEnabled H + h_cbProbeEnabled H = h_cbObj H \<and>
     h_cbObj H \<le> 0x100000 \<and> 0 < h_cbStrTab H \<and> 0 < h_cbProbes H \<and> 0 < h_cbProviders H \<and>
     cb_VTGDESCPROBE dvd h_cbProbes H \<and> cb_VTGDESCPROVIDER dvd h_cbProviders H \<and> h_cbProbeEnabled H = 4 * (h_cbProbes H div cb_VTGDESCPROBE) \<and>
     h_offArgLists H mod 4 = 0 \<and> h_offProbes H mod 4 = 0 \<and> h_offProviders H mod 4 = 0 \<and> h_offProbeEnabled H mod 4 = 0"

definition n_probes :: "VTGOBJHDR \<Rightarrow> nat" where "n_probes H = h_cbProbes H div cb_VTGDESCPROBE"
definition n_providers :: "VTGOBJHDR \<Rightarrow> nat" where "n_providers H = h_cbProviders H div cb_VTGDESCPROVIDER"

lemma overlap_success:
  "vtg_overlap ((o1, c1) # as) off k = Some 0 \<longleftrightarrow> off \<le> o1 \<and> vtg_overlap as (o1 + c1) k = Some 0"
  by (auto simp: not_less)

lemma overlap_last: "vtg_overlap as off k = Some 0 \<Longrightarrow> k = Some 0"
  by (induction as arbitrary: off) (auto split: if_splits)

lemma unat_add_le:
  assumes "unat (a::u32) + unat b \<le> unat (c::u32)"
  shows "unat (a + b) = unat a + unat b"
proof -
  have "unat a + unat b < 2 ^ 32" using assms unsigned_less[where ?'a = nat, of c] by simp
  then show ?thesis by (simp add: unat_word_ariths)
qed

lemma areas_success:
  assumes e: "vtg_area_checks img uAddr fUmod obj cBits oS cS oA cA oP cP oV cV oE cE oL cL uLocs uEnd cbObj = Some 0"
  shows "unat oS + unat cS \<le> unat obj" "unat oA + unat cA \<le> unat obj" "unat oP + unat cP \<le> unat obj" "unat oV + unat cV \<le> unat obj"
    "unat oE + unat cE \<le> unat obj" "unat oA mod 4 = 0" "unat oP mod 4 = 0" "unat oV mod 4 = 0" "unat oE mod 4 = 0" "4 \<le> unat cS" "16 \<le> unat cP"
    "24 \<le> unat cV" "16 dvd unat cP" "24 dvd unat cV" "4 dvd unat cE" "unat cP div 16 = unat cE div 4" "cbObj = oE + cE"
    "128 \<le> oS" "oS + cS \<le> oA" "oA + cA \<le> oP" "oP + cP \<le> oV" "oV + cV \<le> oE"
    "uEnd - uLocs = ucast cL" "uLocs - uAddr = scast oL"
proof -
  have loc: "k = Some 0" if "(if \<not> fUmod then \<lambda>k. vchk (MY_WITHIN_IMAGE img uLocs) VERR_SUPDRV_VTG_BAD_HDR_PTR
        (vchk (MY_WITHIN_IMAGE img uEnd) VERR_SUPDRV_VTG_BAD_HDR_PTR (MY_VALIDATE_SIZE cL 1 0x20000 cb_VTGPROBELOC k))
      else if cBits = 32 then MY_VALIDATE_SIZE cL 1 0x2000 16 else MY_VALIDATE_SIZE cL 1 0x2000 32) k = Some 0" for k
    using that by (auto simp: vchk_success size_success split: if_splits)
  note e = e[unfolded vtg_area_checks_def]
  note S = off_success[of 1] off_success[of 4] off_success[of 16] off_success[of 24] vchk_success
  let ?as = "[(oS, cS), (oA, cA), (oP, cP), (oV, cV), (oE, cE)] @ (if 0 \<le> sint oL then [(oL, cL)] else [])"
  let ?fin = "vchk (\<not> (0 < sint oL \<and> - oL < cL)) VERR_SUPDRV_VTG_BAD_HDR_MISC (vchk (cbObj = oE + cE) VERR_SUPDRV_VTG_BAD_HDR_MISC (Some VINF_SUCCESS))"
  let ?k = "vchk (uEnd - uLocs = ucast cL \<and> uLocs - uAddr = scast oL) VERR_SUPDRV_VTG_BAD_HDR_MISC
     (vchk (unat cP div 16 = unat cE div 4) VERR_SUPDRV_VTG_BAD_HDR_MISC (vtg_overlap ?as 128 ?fin))"
  have e1: "unat oS + unat cS \<le> unat obj \<and> 4 \<le> unat cS \<and> unat oA + unat cA \<le> unat obj \<and> unat oA mod 4 = 0 \<and>
     unat oP + unat cP \<le> unat obj \<and> unat oP mod 4 = 0 \<and> 16 \<le> unat cP \<and> 16 dvd unat cP \<and>
     unat oV + unat cV \<le> unat obj \<and> unat oV mod 4 = 0 \<and> 24 \<le> unat cV \<and> 24 dvd unat cV \<and>
     unat oE + unat cE \<le> unat obj \<and> unat oE mod 4 = 0 \<and> 4 dvd unat cE"
    using e by (simp only: off_success zero_less_numeral zero_less_one) simp
  have "?k = Some 0" using e by (simp only: off_success zero_less_numeral zero_less_one) (elim conjE, erule loc)
  then have "((uEnd - uLocs = ucast cL \<and> uLocs - uAddr = scast oL) \<and> unat cP div 16 = unat cE div 4) \<and> vtg_overlap ?as 128 ?fin = Some 0"
    by (simp only: vchk_ok simp_thms conj_assoc)
  then have e2: "uEnd - uLocs = ucast cL" "uLocs - uAddr = scast oL" "unat cP div 16 = unat cE div 4" and ov: "vtg_overlap ?as 128 ?fin = Some 0"
    by blast+
  have e3: "128 \<le> oS \<and> oS + cS \<le> oA \<and> oA + cA \<le> oP \<and> oP + cP \<le> oV \<and> oV + cV \<le> oE"
    using ov by (simp only: append.simps overlap_success simp_thms)
  have "?fin = Some 0" using ov by (rule overlap_last)
  then have "cbObj = oE + cE" by (auto simp: vchk_success split: if_splits)
  with e1 e2 e3 show "unat oS + unat cS \<le> unat obj" "unat oA + unat cA \<le> unat obj" "unat oP + unat cP \<le> unat obj" "unat oV + unat cV \<le> unat obj"
    "unat oE + unat cE \<le> unat obj" "unat oA mod 4 = 0" "unat oP mod 4 = 0" "unat oV mod 4 = 0" "unat oE mod 4 = 0" "4 \<le> unat cS" "16 \<le> unat cP"
    "24 \<le> unat cV" "16 dvd unat cP" "24 dvd unat cV" "4 dvd unat cE" "unat cP div 16 = unat cE div 4" "cbObj = oE + cE"
    "128 \<le> oS" "oS + cS \<le> oA" "oA + cA \<le> oP" "oP + cP \<le> oV" "oV + cV \<le> oE" "uEnd - uLocs = ucast cL" "uLocs - uAddr = scast oL"
    by blast+
qed

lemma hdr_checks_success:
  assumes e: "vtg_hdr_checks mem p uAddr img fUmod cbVtgObj = Some 0" and obj: "hd32 mem p H_cbObj = Some cbVtgObj" "cbVtgObj \<le> 0x100000"
  shows "\<exists>H. vtg_hdr mem p = Some H \<and> layout_ok H"
proof -
  from e obtain oS cS oA cA oP cP oV cV oE cE oL cL uLocs uEnd cBits where
    r: "hd32 mem p H_offStrTab = Some oS" "hd32 mem p H_cbStrTab = Some cS" "hd32 mem p H_offArgLists = Some oA" "hd32 mem p H_cbArgLists = Some cA"
      "hd32 mem p H_offProbes = Some oP" "hd32 mem p H_cbProbes = Some cP" "hd32 mem p H_offProviders = Some oV" "hd32 mem p H_cbProviders = Some cV"
      "hd32 mem p H_offProbeEnabled = Some oE" "hd32 mem p H_cbProbeEnabled = Some cE" "hd32 mem p H_offProbeLocs = Some oL"
      "hd32 mem p H_cbProbeLocs = Some cL"
    and a: "vtg_area_checks img uAddr fUmod cbVtgObj cBits oS cS oA cA oP cP oV cV oE cE oL cL uLocs uEnd cbVtgObj = Some 0"
    unfolding vtg_hdr_checks_def obj(1) by (auto simp: vchk_success split: Option.bind_splits if_splits)
  note f = areas_success[OF a]
  note u = f(18-22)[unfolded word_le_nat_alt unat_add_le[OF f(1)] unat_add_le[OF f(2)] unat_add_le[OF f(3)] unat_add_le[OF f(4)]]
  have e: "unat cbVtgObj = unat oE + unat cE" using f(17) unat_add_le[OF f(5)] by simp
  have "unat cbVtgObj \<le> 0x100000" using obj(2) by (simp add: word_le_nat_alt)
  moreover have "unat cE = 4 * (unat cP div 16)" using f(15,16) by simp
  ultimately show ?thesis using f(6-14) u e by (simp add: vtg_hdr_def r obj(1) layout_ok_def)
qed

text \<open>A name; a provider with its range of probes; the arguments of a probe; a probe; a probe location.\<close>

definition name_ok :: "vmem \<Rightarrow> addr \<Rightarrow> VTGOBJHDR \<Rightarrow> u32 \<Rightarrow> bool" where
  "name_ok mem p H off \<longleftrightarrow> unat off < h_cbStrTab H \<and> str_ok mem (p + of_nat (h_offStrTab H) + ucast off)"

definition provider_ok :: "vmem \<Rightarrow> addr \<Rightarrow> VTGOBJHDR \<Rightarrow> nat \<Rightarrow> bool" where
  "provider_ok mem p H i \<longleftrightarrow> (let a = p + of_nat (h_offProviders H + cb_VTGDESCPROVIDER * i) in \<exists>offName iFirst n.
     vr32 mem a = Some offName \<and> name_ok mem p H offName \<and>
     vr16 mem (a + 4) = Some iFirst \<and> vr16 mem (a + 6) = Some n \<and> unat iFirst + unat n \<le> n_probes H)"

definition arglist_ok :: "vmem \<Rightarrow> addr \<Rightarrow> VTGOBJHDR \<Rightarrow> addr \<Rightarrow> bool" where
  "arglist_ok mem p H al \<longleftrightarrow> (\<exists>c. mem al = Some c \<and> unat c \<le> 16 \<and>
     (\<forall>j < unat c. \<exists>off. vr32 mem (al + 4 + of_nat (8 * j)) = Some off \<and> name_ok mem p H off))"

definition probe_ok :: "vmem \<Rightarrow> addr \<Rightarrow> VTGOBJHDR \<Rightarrow> nat \<Rightarrow> bool" where
  "probe_ok mem p H i \<longleftrightarrow> (let a = p + of_nat (h_offProbes H + cb_VTGDESCPROBE * i) in \<exists>offName offArg idx idxProv back iFirst n.
     vr32 mem a = Some offName \<and> name_ok mem p H offName \<and>
     vr32 mem (a + 4) = Some offArg \<and> unat offArg < h_cbArgLists H \<and> arglist_ok mem p H (p + of_nat (h_offArgLists H + unat offArg)) \<and>
     vr16 mem (a + 8) = Some idx \<and> unat idx = i \<and>
     vr16 mem (a + 10) = Some idxProv \<and> unat idxProv < n_providers H \<and>
     vr16 mem (p + of_nat (h_offProviders H + cb_VTGDESCPROVIDER * unat idxProv) + 4) = Some iFirst \<and>
     vr16 mem (p + of_nat (h_offProviders H + cb_VTGDESCPROVIDER * unat idxProv) + 6) = Some n \<and> unat iFirst \<le> i \<and> i < unat iFirst + unat n \<and>
     vr32 mem (a + 12) = Some back \<and> a + scast back = p)"

definition loc_ok :: "vmem \<Rightarrow> addr \<Rightarrow> VTGOBJHDR \<Rightarrow> vimage \<Rightarrow> nat \<Rightarrow> bool" where
  "loc_ok mem p H img j \<longleftrightarrow> (let a = p + of_int (h_offProbeLocs H) + of_nat (cb_VTGPROBELOC * j) in \<exists>u pszFunction pProbe.
     vr32 mem a = Some u \<and> \<not> bit u 31 \<and> vr64 mem (a + 8) = Some pszFunction \<and> MY_WITHIN_IMAGE img pszFunction \<and>
     vr64 mem (a + 16) = Some pProbe \<and> (\<exists>i < n_probes H. pProbe = p + of_nat (h_offProbes H + cb_VTGDESCPROBE * i)))"

definition vtg_ok :: "vmem \<Rightarrow> addr \<Rightarrow> vimage \<Rightarrow> bool" where
  "vtg_ok mem p img \<longleftrightarrow> (\<exists>H. vtg_hdr mem p = Some H \<and> layout_ok H \<and> (\<forall>i < n_providers H. provider_ok mem p H i) \<and>
     (\<forall>i < n_probes H. probe_ok mem p H i) \<and> (\<forall>j < h_cbProbeLocs H div cb_VTGPROBELOC. loc_ok mem p H img j))"

text \<open>The fields of a header that is there.\<close>

lemma vtg_hdrD:
  assumes "vtg_hdr mem p = Some H"
  shows "\<exists>w. hd32 mem p H_cbObj = Some w \<and> unat w = h_cbObj H"
    "\<exists>w. hd32 mem p H_offStrTab = Some w \<and> unat w = h_offStrTab H" "\<exists>w. hd32 mem p H_cbStrTab = Some w \<and> unat w = h_cbStrTab H"
    "\<exists>w. hd32 mem p H_offArgLists = Some w \<and> unat w = h_offArgLists H" "\<exists>w. hd32 mem p H_cbArgLists = Some w \<and> unat w = h_cbArgLists H"
    "\<exists>w. hd32 mem p H_offProbes = Some w \<and> unat w = h_offProbes H" "\<exists>w. hd32 mem p H_cbProbes = Some w \<and> unat w = h_cbProbes H"
    "\<exists>w. hd32 mem p H_offProviders = Some w \<and> unat w = h_offProviders H" "\<exists>w. hd32 mem p H_cbProviders = Some w \<and> unat w = h_cbProviders H"
    "\<exists>w. hd32 mem p H_offProbeEnabled = Some w \<and> unat w = h_offProbeEnabled H"
    "\<exists>w. hd32 mem p H_cbProbeEnabled = Some w \<and> unat w = h_cbProbeEnabled H"
    "\<exists>w. hd32 mem p H_offProbeLocs = Some w \<and> sint w = h_offProbeLocs H" "\<exists>w. hd32 mem p H_cbProbeLocs = Some w \<and> unat w = h_cbProbeLocs H"
  using assms unfolding vtg_hdr_def by (auto split: Option.bind_splits)

lemma ucast_unat: "unat (w :: u32) = n \<Longrightarrow> ucast w = (of_nat n :: u64)"
  by (auto simp: of_nat_unat)

lemma str_success:
  assumes H: "vtg_hdr mem p = Some H" and e: "MY_VALIDATE_STR mem p off k = Some 0"
  shows "name_ok mem p H off \<and> k = Some 0"
proof -
  from vtg_hdrD(2,3)[OF H] obtain o' c where w: "hd32 mem p H_offStrTab = Some o'" "unat o' = h_offStrTab H"
    "hd32 mem p H_cbStrTab = Some c" "unat c = h_cbStrTab H" by blast
  have "off < c" "str_ok mem (p + ucast o' + ucast off)" "k = Some 0"
    using e unfolding MY_VALIDATE_STR_def w(1,3) bind.bind_lunit by (simp_all add: vchk_ok vcall_success string_success)
  then show ?thesis unfolding name_ok_def by (simp add: word_less_nat_alt w(4) ucast_unat[OF w(2), symmetric])
qed

lemma some_bindE: "\<lbrakk>Option.bind m f = Some y; \<And>x. \<lbrakk>m = Some x; f x = Some y\<rbrakk> \<Longrightarrow> P\<rbrakk> \<Longrightarrow> P"
  by (cases m) auto

lemma attr_success: "MY_VALIDATE_ATTR mem a k = Some 0 \<Longrightarrow> k = Some 0"
  by (auto simp: MY_VALIDATE_ATTR_def vchk_success split: Option.bind_splits if_splits)

lemma provider_success:
  assumes H: "vtg_hdr mem p = Some H" "layout_ok H" and e: "vtg_provider mem p i k = Some 0"
  shows "provider_ok mem p H i \<and> k = Some 0"
proof -
  from vtg_hdrD(8,11)[OF H(1)] obtain o' c where w: "hd32 mem p H_offProviders = Some o'" "unat o' = h_offProviders H"
    "hd32 mem p H_cbProbeEnabled = Some c" "unat c = h_cbProbeEnabled H" by blast
  define a where "a = p + of_nat (h_offProviders H + cb_VTGDESCPROVIDER * i)"
  have a: "provider_at p o' i = a"
    by (simp add: provider_at_def ucast_unat[OF w(2)] a_def)
  have n: "unat c div 4 = n_probes H" using H(2) w(4) by (simp add: layout_ok_def n_probes_def)
  from e obtain offName iFirst cp b where r: "vr32 mem a = Some offName" "vr16 mem (a + 4) = Some iFirst" "vr16 mem (a + 6) = Some cp"
    and s: "MY_VALIDATE_STR mem p offName (
     vchk (unat iFirst < n_probes H) VERR_SUPDRV_VTG_BAD_PROVIDER (
     vchk (unat iFirst + unat cp \<le> n_probes H) VERR_SUPDRV_VTG_BAD_PROVIDER (
     MY_VALIDATE_ATTR mem (a + 8) (MY_VALIDATE_ATTR mem (a + 11) (MY_VALIDATE_ATTR mem (a + 14) (
     MY_VALIDATE_ATTR mem (a + 17) (MY_VALIDATE_ATTR mem (a + 20) (vchk ((b::u8) = 0) VERR_SUPDRV_VTG_BAD_PROVIDER k)))))))) = Some 0"
    unfolding vtg_provider_def w(1,3) bind.bind_lunit Let_def a n by (elim some_bindE) (rule that, assumption+)
  from str_success[OF H(1) s] have nm: "name_ok mem p H offName" and
    m: "MY_VALIDATE_ATTR mem (a + 8) (MY_VALIDATE_ATTR mem (a + 11) (MY_VALIDATE_ATTR mem (a + 14) (
     MY_VALIDATE_ATTR mem (a + 17) (MY_VALIDATE_ATTR mem (a + 20) (vchk ((b::u8) = 0) VERR_SUPDRV_VTG_BAD_PROVIDER k))))) = Some 0"
    and rng: "unat iFirst + unat cp \<le> n_probes H"
    unfolding vchk_ok by blast+
  have "vchk (b = 0) VERR_SUPDRV_VTG_BAD_PROVIDER k = Some 0" by (rule m[THEN attr_success, THEN attr_success, THEN attr_success, THEN attr_success, THEN attr_success])
  then have "k = Some 0" unfolding vchk_ok by blast
  then show ?thesis using r nm rng unfolding provider_ok_def Let_def a_def by blast
qed

lemma args_success:
  assumes H: "vtg_hdr mem p = Some H"
  shows "vtg_args mem p al n large k = Some 0 \<Longrightarrow>
    (\<forall>j < n. \<exists>off. vr32 mem (al + 4 + of_nat (8 * j)) = Some off \<and> name_ok mem p H off) \<and> (\<exists>l. k l = Some 0)"
proof (induction n arbitrary: large)
  case 0
  then show ?case by auto
next
  case (Suc n)
  from Suc.prems obtain off ft where r: "vr32 mem (al + 4 + of_nat (8 * n)) = Some off" and
    s: "MY_VALIDATE_STR mem p off (vtg_args mem p al n (large \<or> ft AND 0xff > 4 \<and> ft AND 0x100 \<noteq> (0::u32)) k) = Some 0"
    unfolding vtg_args.simps Let_def by (elim some_bindE) (simp only: vchk_ok, elim conjE, rule that, assumption+)
  from str_success[OF H s] have "name_ok mem p H off" "vtg_args mem p al n (large \<or> ft AND 0xff > 4 \<and> ft AND 0x100 \<noteq> (0::u32)) k = Some 0" by blast+
  with Suc.IH r show ?case by (simp only: less_Suc_eq) blast
qed

lemma arglist_success:
  assumes H: "vtg_hdr mem p = Some H" and e: "vtg_arglist mem p al k = Some 0"
  shows "arglist_ok mem p H al \<and> k = Some 0"
proof -
  from e obtain c l where r: "mem al = Some c" and "\<not> c > 16" and
    s: "vtg_args mem p al (unat c) False (\<lambda>large. vchk (of_bool large = (l::u8)) VERR_SUPDRV_VTG_BAD_PROBE k) = Some 0"
    unfolding vtg_arglist_def by (elim some_bindE) (simp only: vchk_ok, elim conjE, rule that, assumption+)
  from args_success[OF H s] have "k = Some 0" "\<forall>j < unat c. \<exists>off. vr32 mem (al + 4 + of_nat (8 * j)) = Some off \<and> name_ok mem p H off"
    by (simp_all only: vchk_ok) blast+
  moreover have "unat c \<le> 16" using \<open>\<not> c > 16\<close> by (simp add: not_less word_le_nat_alt)
  ultimately show ?thesis using r unfolding arglist_ok_def by blast
qed

lemma range_success:
  assumes "(of_nat i :: u64) - ucast (a :: 16 word) < ucast (b :: 16 word)" and i: "i < 2 ^ 32"
  shows "unat a \<le> i \<and> i < unat a + unat b"
proof -
  have ab: "unat a < 65536" "unat b < 65536" using unsigned_less[where ?'a = nat, of a] unsigned_less[where ?'a = nat, of b] by simp_all
  have n: "unat (of_nat i :: u64) = i" using i by (simp add: unat_of_nat)
  have u: "unat (ucast a :: u64) = unat a" "unat (ucast b :: u64) = unat b" using ab by (simp_all add: unsigned_ucast_eq take_bit_nat_eq_self)
  have l: "unat ((of_nat i :: u64) - ucast a) < unat b" using assms(1) unfolding word_less_nat_alt u .
  show ?thesis
  proof (cases "unat a \<le> i")
    case True
    then have "unat ((of_nat i :: u64) - ucast a) = i - unat a" by (simp add: unat_sub_if' n u)
    with l True show ?thesis by simp
  next
    case False
    then have "unat ((of_nat i :: u64) - ucast a) = i + 2 ^ 64 - unat a" by (simp add: unat_sub_if' n u)
    with l ab False show ?thesis by simp
  qed
qed

lemma probe_success:
  assumes H: "vtg_hdr mem p = Some H" "layout_ok H" and i: "i < n_probes H" and e: "vtg_probe mem p i k = Some 0"
  shows "probe_ok mem p H i \<and> k = Some 0"
proof -
  from vtg_hdrD(4,5,6,8,9)[OF H(1)] obtain oA cA oP oV cV where w: "hd32 mem p H_offArgLists = Some oA" "unat oA = h_offArgLists H"
    "hd32 mem p H_cbArgLists = Some cA" "unat cA = h_cbArgLists H" "hd32 mem p H_offProbes = Some oP" "unat oP = h_offProbes H"
    "hd32 mem p H_offProviders = Some oV" "unat oV = h_offProviders H" "hd32 mem p H_cbProviders = Some cV" "unat cV = h_cbProviders H" by blast
  define a where "a = p + of_nat (h_offProbes H + cb_VTGDESCPROBE * i)"
  have a: "probe_at p oP i = a" by (simp add: probe_at_def ucast_unat[OF w(6)] a_def)
  have v: "provider_at p oV j = p + of_nat (h_offProviders H + cb_VTGDESCPROVIDER * j)" for j
    by (simp add: provider_at_def ucast_unat[OF w(8)])
  have i32: "i < 2 ^ 32" using i H(2) by (simp add: n_probes_def layout_ok_def)
  note e = e[unfolded vtg_probe_def w(1,3,5,7,9) bind.bind_lunit Let_def a v w(10)]
  from e obtain offName offArg idx idxProv bk where r: "vr32 mem a = Some offName" "vr32 mem (a + 4) = Some offArg"
    "vr16 mem (a + 8) = Some idx" "vr16 mem (a + 10) = Some idxProv" "vr32 mem (a + 12) = Some bk" and
    s: "MY_VALIDATE_STR mem p offName (
     vchk (offArg < cA) VERR_SUPDRV_VTG_BAD_PROBE (
     vchk (offArg AND 3 = 0) VERR_SUPDRV_VTG_BAD_PROBE (
     vchk (unat idx = i) VERR_SUPDRV_VTG_BAD_PROBE (
     vchk (unat idxProv < h_cbProviders H div cb_VTGDESCPROVIDER) VERR_SUPDRV_VTG_BAD_PROBE (do {
       iFirstProbe \<leftarrow> vr16 mem (p + of_nat (h_offProviders H + cb_VTGDESCPROVIDER * unat idxProv) + 4);
       cProbes \<leftarrow> vr16 mem (p + of_nat (h_offProviders H + cb_VTGDESCPROVIDER * unat idxProv) + 6);
       vchk ((of_nat i :: u64) - ucast iFirstProbe < ucast cProbes) VERR_SUPDRV_VTG_BAD_PROBE (
       vchk (scast bk = p - a) VERR_SUPDRV_VTG_BAD_PROBE (
       vtg_arglist mem p (p + ucast oA + ucast offArg) k)) }))))) = Some 0"
    by (elim some_bindE) (rule that, assumption+)
  from str_success[OF H(1) s, unfolded vchk_ok] have t: "name_ok mem p H offName" "offArg < cA" "unat idx = i" "unat idxProv < n_providers H"
    and q: "(do {
       iFirstProbe \<leftarrow> vr16 mem (p + of_nat (h_offProviders H + cb_VTGDESCPROVIDER * unat idxProv) + 4);
       cProbes \<leftarrow> vr16 mem (p + of_nat (h_offProviders H + cb_VTGDESCPROVIDER * unat idxProv) + 6);
       vchk ((of_nat i :: u64) - ucast iFirstProbe < ucast cProbes) VERR_SUPDRV_VTG_BAD_PROBE (
       vchk (scast bk = p - a) VERR_SUPDRV_VTG_BAD_PROBE (
       vtg_arglist mem p (p + ucast oA + ucast offArg) k)) }) = Some 0"
    unfolding n_providers_def by blast+
  from q obtain iFirst n where f: "vr16 mem (p + of_nat (h_offProviders H + cb_VTGDESCPROVIDER * unat idxProv) + 4) = Some iFirst"
    "vr16 mem (p + of_nat (h_offProviders H + cb_VTGDESCPROVIDER * unat idxProv) + 6) = Some n"
    "(of_nat i :: u64) - ucast iFirst < ucast n" "scast bk = p - a" "vtg_arglist mem p (p + ucast oA + ucast offArg) k = Some 0"
    by (elim some_bindE) (unfold vchk_ok, elim conjE, rule that, assumption+)
  have "p + ucast oA + ucast offArg = p + of_nat (h_offArgLists H + unat offArg)"
    unfolding ucast_unat[OF w(2)] ucast_unat[OF refl, of offArg] of_nat_add by (rule add.assoc)
  with arglist_success[OF H(1) f(5)] have "arglist_ok mem p H (p + of_nat (h_offArgLists H + unat offArg))" "k = Some 0" by simp_all
  moreover have "unat offArg < h_cbArgLists H" using t(2) w(4) by (simp add: word_less_nat_alt)
  moreover have "a + scast bk = p" using f(4) by simp
  ultimately show ?thesis using r t(1,3,4) f(1,2) range_success[OF f(3) i32] unfolding probe_ok_def Let_def a_def[symmetric] by blast
qed

lemma loc_success:
  assumes H: "vtg_hdr mem p = Some H" "layout_ok H" and a: "a = p + of_int (h_offProbeLocs H) + of_nat (cb_VTGPROBELOC * j)"
    and e: "vtg_probe_loc mem p img a k = Some 0"
  shows "loc_ok mem p H img j \<and> k = Some 0"
proof -
  from vtg_hdrD(6,7)[OF H(1)] obtain oP cP where w: "hd32 mem p H_offProbes = Some oP" "unat oP = h_offProbes H"
    "hd32 mem p H_cbProbes = Some cP" "unat cP = h_cbProbes H" by blast
  from e[unfolded vtg_probe_loc_def w(1,3) bind.bind_lunit Let_def] obtain u f b where
    r: "vr32 mem a = Some u" "vr64 mem (a + 8) = Some f" "vr64 mem (a + 16) = Some b" "\<not> bit u 31" "MY_WITHIN_IMAGE img f" "k = Some 0"
      "b - ucast oP - p < ucast cP" "unat (b - ucast oP - p) div cb_VTGDESCPROBE * cb_VTGDESCPROBE = unat (b - ucast oP - p)"
    by (elim some_bindE) (simp only: vchk_ok, elim conjE, rule that, assumption+)
  define d where "d = unat (b - ucast oP - p)"
  have cP32: "unat (ucast cP :: u64) = h_cbProbes H"
    using unsigned_less[where ?'a = nat, of cP] by (simp add: unsigned_ucast_eq take_bit_nat_eq_self w(4)[symmetric])
  have "d < h_cbProbes H" using r(7) unfolding d_def word_less_nat_alt cP32 .
  moreover have d16: "d div 16 * 16 = d" using r(8) by (simp add: d_def)
  moreover have "16 dvd h_cbProbes H" using H(2) by (simp add: layout_ok_def)
  ultimately have n: "d div 16 < n_probes H" unfolding n_probes_def by (metis dvd_div_mult_self mult_less_cancel2)
  have "b = p + (ucast oP + of_nat d)" unfolding d_def by simp
  also have "\<dots> = p + of_nat (h_offProbes H + cb_VTGDESCPROBE * (d div 16))"
    using d16 unfolding ucast_unat[OF w(2)] of_nat_add[symmetric] by (simp add: mult.commute)
  finally show ?thesis using r(1-6) n unfolding loc_ok_def Let_def a[symmetric] by blast
qed

lemma body_success:
  assumes H: "vtg_hdr mem p = Some H" "layout_ok H" and e: "vtg_body mem p img = Some 0"
  shows "vtg_ok mem p img"
proof -
  from vtg_hdrD(7,9,10,11,12,13)[OF H(1)] obtain cP cV oE cE oL cL where w: "hd32 mem p H_cbProbes = Some cP" "unat cP = h_cbProbes H"
    "hd32 mem p H_cbProviders = Some cV" "unat cV = h_cbProviders H" "hd32 mem p H_offProbeEnabled = Some oE" "hd32 mem p H_cbProbeEnabled = Some cE"
    "hd32 mem p H_offProbeLocs = Some oL" "sint oL = h_offProbeLocs H" "hd32 mem p H_cbProbeLocs = Some cL" "unat cL = h_cbProbeLocs H" by blast
  note e = e[unfolded vtg_body_def w(1,3,5,6,7,9) bind.bind_lunit w(2,4,10) n_probes_def[symmetric] n_providers_def[symmetric]]
  have oL: "scast oL = (of_int (h_offProbeLocs H) :: u64)" unfolding w(8)[symmetric] by simp
  have f: "\<forall>i k. i < n_providers H \<longrightarrow> vtg_provider mem p i k = Some 0 \<longrightarrow> provider_ok mem p H i \<and> k = Some 0"
    using provider_success[OF H] by blast
  have g: "\<forall>i k. i < n_probes H \<longrightarrow> vtg_probe mem p i k = Some 0 \<longrightarrow> probe_ok mem p H i \<and> k = Some 0"
    using probe_success[OF H] by blast
  have l: "\<forall>i k. i < h_cbProbeLocs H div cb_VTGPROBELOC \<longrightarrow> vtg_probe_loc mem p img (p + scast oL + of_nat (cb_VTGPROBELOC * i)) k = Some 0
     \<longrightarrow> loc_ok mem p H img i \<and> k = Some 0"
    using loc_success[OF H] unfolding oL by blast
  note 1 = each_success[OF f e order_refl]
  note 2 = each_success[OF g conjunct2[OF 1] order_refl]
  note 3 = enabled_success[OF conjunct2[OF 2]]
  note 4 = each_success[OF l 3 order_refl]
  show ?thesis unfolding vtg_ok_def using H 1 2 4 by blast
qed

text \<open>The offset and size of the probe locations are written, the rest of the header is not.\<close>

lemma off_far: "k = 44 \<or> k = 48 \<Longrightarrow> i < 4 \<Longrightarrow> \<not> unat (of_nat i - k :: u64) < 4"
  by (auto simp: unat_sub_if' unat_of_nat)

lemma vw32_cbObj:
  assumes "vw32 mem (p + off) v = Some mem'" and off: "off = H_cbProbeLocs \<or> off = H_offProbeLocs"
  shows "hd32 mem' p H_cbObj = hd32 mem p H_cbObj"
proof -
  have m: "mem' = (\<lambda>a. if unat (a - (p + off)) < 4 then Some (le_bytes 4 v ! unat (a - (p + off))) else mem a)"
    using assms(1) unfolding vw32_def by (auto split: Option.bind_splits)
  have "mem' (p + H_cbObj + of_nat i) = mem (p + H_cbObj + of_nat i)" if "i < 4" for i
  proof -
    have "p + H_cbObj + of_nat i - (p + off) = of_nat i - (off - H_cbObj)" by simp
    moreover have "off - H_cbObj = 44 \<or> off - H_cbObj = 48" using off by auto
    ultimately have "\<not> unat (p + H_cbObj + of_nat i - (p + off)) < 4" using off_far that by metis
    then show ?thesis unfolding m by simp
  qed
  then have "vbytes mem' (p + H_cbObj) 4 = vbytes mem (p + H_cbObj) 4"
    unfolding vbytes_def by (intro arg_cong[where f = those] map_cong) auto
  then show ?thesis by (simp add: hd32_def vr32_def)
qed

lemma set_probe_locs_cbObj:
  "vtg_set_probe_locs mem p u = Some (rc, mem1) \<Longrightarrow> hd32 mem1 p H_cbObj = hd32 mem p H_cbObj"
  unfolding vtg_set_probe_locs_def Let_def
  by (auto simp: vw32_cbObj split: Option.bind_splits if_splits)

lemma set_probe_locs_rc: "vtg_set_probe_locs mem p u = Some (rc, mem1) \<Longrightarrow> rc = 0 \<or> RT_FAILURE rc"
  unfolding vtg_set_probe_locs_def Let_def by (auto split: Option.bind_splits if_splits)

text \<open>No positive status.\<close>

definition no_pos :: "rc option \<Rightarrow> bool" where
  "no_pos m \<longleftrightarrow> (\<forall>r. m = Some r \<longrightarrow> r \<le> 0)"

lemma no_pos_intros:
  "no_pos (Some 0)" "no_pos (Some (- numeral w))"
  "\<forall>x. no_pos (h x) \<Longrightarrow> no_pos (Option.bind m h)"
  "no_pos k \<Longrightarrow> no_pos (vchk c (- numeral w) k)"
  "no_pos k \<Longrightarrow> no_pos (MY_VALIDATE_SIZE cb lo hi u k)" "no_pos k \<Longrightarrow> no_pos (MY_VALIDATE_OFF obj off cb lo hi u al k)"
  "no_pos (f k) \<Longrightarrow> no_pos (g k) \<Longrightarrow> no_pos ((if b then f else g) k)"
  by (auto simp: no_pos_def vchk_def MY_VALIDATE_SIZE_def MY_VALIDATE_OFF_def bind_eq_Some_conv)

lemma no_pos_overlap: "no_pos k \<Longrightarrow> no_pos (vtg_overlap as off k)"
  by (induction as off k rule: vtg_overlap.induct) (simp_all add: no_pos_intros)

lemma no_pos_area_checks:
  "no_pos (vtg_area_checks img uAddr fUmod obj cBits oS cS oA cA oP cP oV cV oE cE oL cL uLocs uEnd cbObj)"
  unfolding vtg_area_checks_def by (intro no_pos_intros no_pos_overlap)

lemma no_pos_hdr_checks: "no_pos (vtg_hdr_checks mem p u img fUmod obj)"
  unfolding vtg_hdr_checks_def by (intro no_pos_intros allI no_pos_area_checks)

lemma hdr_success_checks:
  assumes e: "supdrvVtgValidateHdr mem p u img fUmod = Some (rc, mem')" and rc: "\<not> RT_FAILURE rc"
  shows "\<exists>obj rc1. hd32 mem p H_cbObj = Some obj \<and> \<not> obj > 0x100000 \<and> vtg_set_probe_locs mem p u = Some (rc1, mem') \<and>
    vtg_hdr_checks mem' p u img fUmod obj = Some 0"
proof -
  from e rc obtain obj rc1 where o: "hd32 mem p H_cbObj = Some obj" "\<not> obj > 0x100000" "vtg_set_probe_locs mem p u = Some (rc1, mem')"
    and c: "vtg_hdr_checks mem' p u img fUmod obj = Some rc"
    unfolding supdrvVtgValidateHdr_def
    by (auto split: Option.bind_splits if_splits prod.splits dest: set_probe_locs_rc)
  have "rc = 0" using no_pos_hdr_checks[of mem' p u img fUmod obj] c rc by (simp add: no_pos_def)
  with o c show ?thesis by blast
qed

lemma hdr_success:
  assumes e: "supdrvVtgValidateHdr mem p u img fUmod = Some (rc, mem')" and rc: "\<not> RT_FAILURE rc"
  shows "\<exists>H. vtg_hdr mem' p = Some H \<and> layout_ok H"
  using hdr_success_checks[OF assms] hdr_checks_success set_probe_locs_cbObj by (metis not_less)

text \<open>C22: A VTG object that passes the validation has areas that lie one after the other inside the object, names that
  are short and terminated, providers whose probes exist, probes that are at their index, belong to their provider
  and point back to the object, and probe locations that name one of its probes.\<close>

theorem vtg_validated:
  assumes "supdrvVtgValidate mem p u pbImage cbImage fUmod = Some (VINF_SUCCESS, mem')"
  shows "vtg_ok mem' p (vtg_image pbImage cbImage)"
proof -
  from assms obtain rc where h: "supdrvVtgValidateHdr mem p u (vtg_image pbImage cbImage) fUmod = Some (rc, mem')" "\<not> RT_FAILURE rc"
    and b: "vtg_body mem' p (vtg_image pbImage cbImage) = Some 0"
    unfolding supdrvVtgValidate_def Let_def by (auto split: Option.bind_splits if_splits prod.splits)
  from hdr_success[OF h] b show ?thesis using body_success by blast
qed

section \<open>What the validation reads\<close>

definition readable :: "vmem \<Rightarrow> addr \<Rightarrow> nat \<Rightarrow> bool" where
  "readable mem p N \<longleftrightarrow> (\<forall>i < N. mem (p + of_nat i) \<noteq> None)"

lemma those_defined: "those xs \<noteq> None \<longleftrightarrow> None \<notin> set xs"
  by (induction xs) (auto split: option.splits)

lemma rd_bytes:
  assumes "readable mem p N" "n + m \<le> N"
  shows "vbytes mem (p + of_nat n) m \<noteq> None"
proof -
  have "mem (p + of_nat n + of_nat i) \<noteq> None" if "i < m" for i
    using assms that unfolding readable_def by (metis add.assoc add_less_cancel_left less_le_trans of_nat_add)
  then show ?thesis unfolding vbytes_def those_defined set_map image_iff set_upt by (metis atLeastLessThan_iff)
qed

lemma rd_values:
  assumes "readable mem p N"
  shows "n + 1 \<le> N \<Longrightarrow> \<exists>v. mem (p + of_nat n) = Some v" "n + 2 \<le> N \<Longrightarrow> \<exists>v. vr16 mem (p + of_nat n) = Some v"
    "n + 4 \<le> N \<Longrightarrow> \<exists>v. vr32 mem (p + of_nat n) = Some v" "n + 8 \<le> N \<Longrightarrow> \<exists>v. vr64 mem (p + of_nat n) = Some v"
    "n + m \<le> N \<Longrightarrow> \<exists>v. vbytes mem (p + of_nat n) m = Some v"
  using assms rd_bytes[OF assms, of n 2] rd_bytes[OF assms, of n 4] rd_bytes[OF assms, of n 8] rd_bytes[OF assms, of n m]
  by (auto simp: readable_def vr16_def vr32_def vr64_def)

lemma off_num: "p + of_nat n + numeral w = (p + of_nat (n + numeral w) :: u64)"
  by simp

lemma hd32_off: "hd32 mem p (numeral w) = vr32 mem (p + of_nat (numeral w))"
  by (simp add: hd32_def)

lemma runs:
  "(c \<Longrightarrow> k \<noteq> None) \<Longrightarrow> vchk c rc k \<noteq> None" "m \<noteq> None \<Longrightarrow> k \<noteq> None \<Longrightarrow> vcall m k \<noteq> None"
  "k \<noteq> None \<Longrightarrow> MY_VALIDATE_SIZE cb lo hi u k \<noteq> None" "k \<noteq> None \<Longrightarrow> MY_VALIDATE_OFF obj off cb lo hi u al k \<noteq> None"
  "f k \<noteq> None \<Longrightarrow> g k \<noteq> None \<Longrightarrow> (if b then f else g) k \<noteq> None" "Some x \<noteq> None"
  by (auto simp: vchk_def vcall_def MY_VALIDATE_SIZE_def MY_VALIDATE_OFF_def split: Option.bind_splits)

lemma overlap_runs: "k \<noteq> None \<Longrightarrow> vtg_overlap as off k \<noteq> None"
  by (induction as off k rule: vtg_overlap.induct) simp_all

lemma area_runs:
  "vtg_area_checks img uAddr fUmod obj cBits oS cS oA cA oP cP oV cV oE cE oL cL uLocs uEnd cbObj \<noteq> None"
  unfolding vtg_area_checks_def by (intro runs overlap_runs)

lemma bind_runs: "\<exists>v. m = Some v \<Longrightarrow> (\<And>v. m = Some v \<Longrightarrow> f v \<noteq> None) \<Longrightarrow> Option.bind m f \<noteq> None"
  by auto

lemma if_runs: "(c \<Longrightarrow> a \<noteq> None) \<Longrightarrow> (\<not> c \<Longrightarrow> b \<noteq> None) \<Longrightarrow> (if c then a else b) \<noteq> None"
  by simp

lemma hdr_checks_runs:
  assumes "readable mem p 128"
  shows "vtg_hdr_checks mem p u img fUmod obj \<noteq> None"
proof -
  have z: "p = p + of_nat 0" by simp
  have a: "H_au32Reserved1 + 4 = (124 :: u64)" by simp
  have n: "p + numeral w = p + of_nat (numeral w)" for w by simp
  show ?thesis unfolding vtg_hdr_checks_def a hd32_off n
    by (intro bind_runs runs area_runs rd_values[OF assms] rd_values(5)[OF assms, of 0, simplified]) simp_all
qed

lemma vw32_grows: "vw32 mem a v = Some mem' \<Longrightarrow> mem x \<noteq> None \<Longrightarrow> mem' x \<noteq> None"
  unfolding vw32_def by (auto split: Option.bind_splits if_splits)

lemma vw32_runs: "readable mem p N \<Longrightarrow> n + 4 \<le> N \<Longrightarrow> \<exists>mem'. vw32 mem (p + of_nat n) v = Some mem'"
  using rd_values(5)[of mem p N n 4] by (auto simp: vw32_def)

lemma readable_grows: "(\<And>x. mem x \<noteq> None \<Longrightarrow> mem' x \<noteq> None) \<Longrightarrow> readable mem p N \<Longrightarrow> readable mem' p N"
  by (auto simp: readable_def)

lemma set_probe_locs_runs:
  assumes "readable mem p 128"
  shows "vtg_set_probe_locs mem p u \<noteq> None"
proof -
  have n: "p + numeral w = p + of_nat (numeral w)" for w by simp
  show ?thesis unfolding vtg_set_probe_locs_def hd32_off n Let_def
    by (intro bind_runs if_runs runs(6) rd_values[OF assms] vw32_runs[OF assms] vw32_runs[OF readable_grows[OF vw32_grows assms]]; (assumption | simp))
qed

lemma set_probe_locs_grows: "vtg_set_probe_locs mem p u = Some (rc, mem1) \<Longrightarrow> mem x \<noteq> None \<Longrightarrow> mem1 x \<noteq> None"
  unfolding vtg_set_probe_locs_def Let_def by (auto dest: vw32_grows split: Option.bind_splits if_splits)

lemma string_runs: "\<forall>i < m. mem (psz + of_nat i) \<noteq> None \<Longrightarrow> vtg_string m mem psz \<noteq> None"
proof (induction m arbitrary: psz)
  case (Suc m)
  then have "mem psz \<noteq> None" "vtg_string m mem (psz + 1) \<noteq> None"
    by (simp_all add: All_less_Suc2 add.assoc)
  then show ?case by auto
qed simp

lemma str_runs:
  assumes H: "vtg_hdr mem p = Some H" "layout_ok H" and r: "readable mem p 0x102000" and k: "k \<noteq> None"
  shows "MY_VALIDATE_STR mem p off k \<noteq> None"
proof -
  from vtg_hdrD(2,3)[OF H(1)] obtain o' c where w: "hd32 mem p H_offStrTab = Some o'" "unat o' = h_offStrTab H"
    "hd32 mem p H_cbStrTab = Some c" "unat c = h_cbStrTab H" by blast
  have "supdrvVtgValidateString mem (p + ucast o' + ucast off) \<noteq> None" if "off < c"
  proof -
    have "h_offStrTab H + unat off + 4096 \<le> 0x102000"
      using that w(4) H(2) by (simp add: word_less_nat_alt layout_ok_def)
    then have m: "mem (p + of_nat (h_offStrTab H + unat off + i)) \<noteq> None" if "i < 4096" for i
      by (intro r[unfolded readable_def, rule_format]) (use that in arith)
    then show ?thesis unfolding supdrvVtgValidateString_def ucast_unat[OF w(2)] ucast_unat[OF refl, of off]
      by (intro string_runs allI impI) (drule m, simp only: of_nat_add add.assoc simp_thms)
  qed
  then show ?thesis unfolding MY_VALIDATE_STR_def w(1,3) bind.bind_lunit using k by (intro runs)
qed

lemma attr_runs:
  assumes r: "readable mem p N" and n: "n + 3 \<le> N" and k: "k \<noteq> None"
  shows "MY_VALIDATE_ATTR mem (p + of_nat n) k \<noteq> None"
proof -
  have one: "p + of_nat n + 1 = p + of_nat (n + 1)" by simp
  show ?thesis unfolding MY_VALIDATE_ATTR_def one off_num using n k by (intro bind_runs runs rd_values[OF r]) simp_all
qed

lemma each_runs: "\<forall>i < m. \<forall>k. k \<noteq> None \<longrightarrow> f i k \<noteq> None \<Longrightarrow> k \<noteq> None \<Longrightarrow> n \<le> m \<Longrightarrow> vtg_each f n k \<noteq> None"
  by (induction n) (simp_all del: not_None_eq)

lemma in_area: "i < c div u \<Longrightarrow> o' + c \<le> b \<Longrightarrow> o' + u * i + u \<le> (b::nat)"
proof -
  assume "i < c div u" "o' + c \<le> b"
  then have "u * i + u \<le> u * (c div u)" by (metis Suc_leI mult_Suc_right add.commute mult_le_mono2)
  also have "\<dots> \<le> c" by simp
  finally show ?thesis using \<open>o' + c \<le> b\<close> by simp
qed

lemma provider_runs:
  assumes H: "vtg_hdr mem p = Some H" "layout_ok H" and r: "readable mem p 0x102000" and k: "k \<noteq> None" and i: "i < n_providers H"
  shows "vtg_provider mem p i k \<noteq> None"
proof -
  from vtg_hdrD(8,11)[OF H(1)] obtain o' c where w: "hd32 mem p H_offProviders = Some o'" "unat o' = h_offProviders H"
    "hd32 mem p H_cbProbeEnabled = Some c" by blast
  have a: "provider_at p o' i = p + of_nat (h_offProviders H + cb_VTGDESCPROVIDER * i)"
    by (simp add: provider_at_def ucast_unat[OF w(2)])
  have "h_offProviders H + h_cbProviders H \<le> 0x100000" using H(2) by (simp add: layout_ok_def)
  from in_area[OF i[unfolded n_providers_def] this] have n: "h_offProviders H + cb_VTGDESCPROVIDER * i + 24 \<le> 0x100000" .
  show ?thesis unfolding vtg_provider_def w(1,3) bind.bind_lunit Let_def a off_num
    by (intro bind_runs str_runs[OF H r] runs attr_runs[OF r] rd_values[OF r] k) (use n in simp_all)
qed

lemma args_runs:
  assumes H: "vtg_hdr mem p = Some H" "layout_ok H" and r: "readable mem p 0x102000" and k: "\<forall>l. k l \<noteq> None" and n: "o' + 4 + 8 * n \<le> 0x102000"
  shows "vtg_args mem p (p + of_nat o') n large k \<noteq> None"
  using n
proof (induction n arbitrary: large)
  case (Suc n)
  have a: "p + of_nat (o' + 4) + of_nat (8 * n) = p + of_nat (o' + 4 + 8 * n)" by simp
  have "vtg_args mem p (p + of_nat o') n l k \<noteq> None" for l using Suc by simp
  then show ?case unfolding vtg_args.simps Let_def a off_num
    by (intro bind_runs str_runs[OF H r] runs rd_values[OF r]) (use Suc.prems in simp_all)
qed (use k in simp)

lemma arglist_runs:
  assumes H: "vtg_hdr mem p = Some H" "layout_ok H" and r: "readable mem p 0x102000" and k: "k \<noteq> None" and n: "o' \<le> 0x100000"
  shows "vtg_arglist mem p (p + of_nat o') k \<noteq> None"
proof -
  have one: "p + of_nat o' + 1 = p + of_nat (o' + 1)" by simp
  have "vtg_args mem p (p + of_nat o') (unat c) False (\<lambda>large. vchk (of_bool large = l) VERR_SUPDRV_VTG_BAD_PROBE k) \<noteq> None"
    if "\<not> c > 16" for c l :: u8
    using that n k by (intro args_runs[OF H r]) (simp_all add: not_less word_le_nat_alt vchk_def)
  then show ?thesis unfolding vtg_arglist_def one off_num
    by (intro bind_runs runs rd_values[OF r]) (use n in simp_all)
qed

lemma probe_runs:
  assumes H: "vtg_hdr mem p = Some H" "layout_ok H" and r: "readable mem p 0x102000" and k: "k \<noteq> None" and i: "i < n_probes H"
  shows "vtg_probe mem p i k \<noteq> None"
proof -
  from vtg_hdrD(4,5,6,8,9)[OF H(1)] obtain oA cA oP oV cV where w: "hd32 mem p H_offArgLists = Some oA" "unat oA = h_offArgLists H"
    "hd32 mem p H_cbArgLists = Some cA" "unat cA = h_cbArgLists H" "hd32 mem p H_offProbes = Some oP" "unat oP = h_offProbes H"
    "hd32 mem p H_offProviders = Some oV" "unat oV = h_offProviders H" "hd32 mem p H_cbProviders = Some cV" "unat cV = h_cbProviders H" by blast
  have a: "probe_at p oP i = p + of_nat (h_offProbes H + cb_VTGDESCPROBE * i)" by (simp add: probe_at_def ucast_unat[OF w(6)])
  have v: "provider_at p oV j = p + of_nat (h_offProviders H + cb_VTGDESCPROVIDER * j)" for j
    by (simp add: provider_at_def ucast_unat[OF w(8)])
  have b: "h_offProbes H + h_cbProbes H \<le> 0x100000" "h_offProviders H + h_cbProviders H \<le> 0x100000" "h_offArgLists H + h_cbArgLists H \<le> 0x100000"
    using H(2) by (simp_all add: layout_ok_def)
  from in_area[OF i[unfolded n_probes_def] b(1)] have n: "h_offProbes H + cb_VTGDESCPROBE * i + 16 \<le> 0x100000" .
  have arg: "vtg_arglist mem p (p + ucast oA + ucast offArg) k \<noteq> None" if "offArg < cA" for offArg :: u32
  proof -
    have "h_offArgLists H + unat offArg \<le> 0x100000" using that b(3) w(4) by (simp add: word_less_nat_alt)
    from arglist_runs[OF H r k this] show ?thesis unfolding ucast_unat[OF w(2)] ucast_unat[OF refl, of offArg] of_nat_add add.assoc .
  qed
  have rds: "\<exists>v. vr32 mem (p + of_nat (h_offProbes H + cb_VTGDESCPROBE * i)) = Some v"
    "\<exists>v. vr32 mem (p + of_nat (h_offProbes H + cb_VTGDESCPROBE * i) + 4) = Some v"
    "\<exists>v. vr16 mem (p + of_nat (h_offProbes H + cb_VTGDESCPROBE * i) + 8) = Some v"
    "\<exists>v. vr16 mem (p + of_nat (h_offProbes H + cb_VTGDESCPROBE * i) + 10) = Some v"
    "\<exists>v. vr32 mem (p + of_nat (h_offProbes H + cb_VTGDESCPROBE * i) + 12) = Some v"
    unfolding off_num by (intro rd_values[OF r]; use n in simp)+
  have prov: "\<exists>v. vr16 mem (p + of_nat (h_offProviders H + cb_VTGDESCPROVIDER * unat idx) + 4) = Some v"
    "\<exists>v. vr16 mem (p + of_nat (h_offProviders H + cb_VTGDESCPROVIDER * unat idx) + 6) = Some v"
    if "unat idx < unat cV div cb_VTGDESCPROVIDER" for idx :: "16 word"
    using in_area[OF that[unfolded w(10)] b(2)] unfolding off_num by (intro rd_values[OF r]; simp)+
  show ?thesis unfolding vtg_probe_def w(1,3,5,7,9) bind.bind_lunit Let_def a v
    by (intro bind_runs str_runs[OF H r] runs rds prov arg)
qed

lemma enabled_runs:
  assumes "\<exists>v. vr32 mem a = Some v" and k: "k \<noteq> None"
  shows "vtg_enabled mem a n k \<noteq> None"
  by (induction n) (use assms in \<open>auto simp: vchk_def\<close>)

lemma loc_runs:
  assumes H: "vtg_hdr mem p = Some H" and r: "readable mem q N" and n: "32 * i + 32 \<le> N" and k: "k \<noteq> None"
  shows "vtg_probe_loc mem p img (q + of_nat (cb_VTGPROBELOC * i)) k \<noteq> None"
proof -
  from vtg_hdrD(6,7)[OF H(1)] obtain oP cP where w: "hd32 mem p H_offProbes = Some oP" "hd32 mem p H_cbProbes = Some cP" by blast
  show ?thesis unfolding vtg_probe_loc_def w bind.bind_lunit Let_def off_num
    by (intro bind_runs runs rd_values[OF r] k) (use n in simp_all)
qed

lemma body_runs:
  assumes H: "vtg_hdr mem p = Some H" "layout_ok H" and r: "readable mem p 0x102000"
    and l: "readable mem (p + of_int (h_offProbeLocs H)) (h_cbProbeLocs H)"
  shows "vtg_body mem p img \<noteq> None"
proof -
  from vtg_hdrD(7,9,10,11,12,13)[OF H(1)] obtain cP cV oE cE oL cL where w: "hd32 mem p H_cbProbes = Some cP" "unat cP = h_cbProbes H"
    "hd32 mem p H_cbProviders = Some cV" "unat cV = h_cbProviders H" "hd32 mem p H_offProbeEnabled = Some oE" "unat oE = h_offProbeEnabled H"
    "hd32 mem p H_cbProbeEnabled = Some cE" "hd32 mem p H_offProbeLocs = Some oL" "sint oL = h_offProbeLocs H"
    "hd32 mem p H_cbProbeLocs = Some cL" "unat cL = h_cbProbeLocs H" by blast
  have oL: "scast oL = (of_int (h_offProbeLocs H) :: u64)" unfolding w(9)[symmetric] by simp
  have e: "\<exists>v. vr32 mem (p + ucast oE) = Some v"
    unfolding ucast_unat[OF w(6)] using H(2) by (intro rd_values[OF r]) (simp add: layout_ok_def)
  have "32 * i + 32 \<le> h_cbProbeLocs H" if "i < h_cbProbeLocs H div cb_VTGPROBELOC" for i
    using in_area[OF that, of 0] by simp
  then show ?thesis unfolding vtg_body_def w(1,3,5,7,8,10) bind.bind_lunit w(2,4,11) n_probes_def[symmetric] n_providers_def[symmetric] oL
    by (intro each_runs[OF _ _ order_refl] enabled_runs[OF e] runs allI impI provider_runs[OF H r] probe_runs[OF H r] loc_runs[OF H(1) l])
qed

text \<open>The probe locations of an object that is not a user mode one lie in the image.\<close>

lemma areas_locs:
  assumes "vtg_area_checks img uAddr False obj cBits oS cS oA cA oP cP oV cV oE cE oL cL uLocs uEnd cbObj = Some 0"
  shows "MY_WITHIN_IMAGE img uLocs" "MY_WITHIN_IMAGE img uEnd" "unat cL < 0x400000"
proof -
  have "MY_WITHIN_IMAGE img uLocs \<and> MY_WITHIN_IMAGE img uEnd \<and> unat cL < 0x20000 * 32"
    using assms unfolding vtg_area_checks_def
    by (simp only: off_success size_success vchk_ok zero_less_numeral zero_less_one not_False_eq_True if_True)
  then show "MY_WITHIN_IMAGE img uLocs" "MY_WITHIN_IMAGE img uEnd" "unat cL < 0x400000" by simp_all
qed

lemma image_locs_readable:
  assumes uLocs: "\<not> uLocs - b > c" and uEnd: "\<not> uEnd - b > c" and n: "uEnd - uLocs = of_nat n" "n < 0x400000"
    and c: "unat c < 2 ^ 63" and r: "\<forall>x. x - b < c \<longrightarrow> mem x \<noteq> None"
  shows "readable mem uLocs n"
  unfolding readable_def
proof (intro allI impI)
  fix i assume "i < n"
  have l: "unat (uLocs - b) \<le> unat c" "unat (uEnd - b) \<le> unat c" using uLocs uEnd by (simp_all add: not_less word_le_nat_alt)
  have n': "unat (uEnd - uLocs) = n" using n by (simp add: unat_of_nat)
  have "uEnd - uLocs = (uEnd - b) - (uLocs - b)" by simp
  then have d: "unat (uEnd - uLocs) = (if unat (uLocs - b) \<le> unat (uEnd - b) then unat (uEnd - b) - unat (uLocs - b)
      else unat (uEnd - b) + 2 ^ 64 - unat (uLocs - b))"
    by (simp only: unat_sub_if') simp
  have le: "unat (uLocs - b) \<le> unat (uEnd - b)"
  proof (rule ccontr)
    assume "\<not> unat (uLocs - b) \<le> unat (uEnd - b)"
    with d n' n(2) l c show False by simp
  qed
  with d n' have sum: "unat (uLocs - b) + n = unat (uEnd - b)" by simp
  have i64: "unat (of_nat i :: u64) = i" using \<open>i < n\<close> n(2) by (simp add: unat_of_nat)
  have "unat (uLocs + of_nat i - b) = unat ((uLocs - b) + of_nat i)" by (simp add: algebra_simps)
  also have "\<dots> = unat (uLocs - b) + i" unfolding unat_word_ariths i64 using \<open>i < n\<close> sum l c by simp
  also have "\<dots> < unat c" using \<open>i < n\<close> sum l by simp
  finally show "mem (uLocs + of_nat i) \<noteq> None" using r by (simp add: word_less_nat_alt)
qed

lemma hdr_checks_locs:
  assumes e: "vtg_hdr_checks mem p p (Some (b, c)) False obj = Some 0" and H: "vtg_hdr mem p = Some H"
    and c: "unat c < 2 ^ 63" and r: "\<forall>x. x - b < c \<longrightarrow> mem x \<noteq> None"
  shows "readable mem (p + of_int (h_offProbeLocs H)) (h_cbProbeLocs H)"
proof -
  from vtg_hdrD(12,13)[OF H] obtain oL cL where w: "hd32 mem p H_offProbeLocs = Some oL" "sint oL = h_offProbeLocs H"
    "hd32 mem p H_cbProbeLocs = Some cL" "unat cL = h_cbProbeLocs H" by blast
  from e obtain oS cS oA cA oP cP oV cV oE cE uLocs uEnd cBits cbObj where
    a: "vtg_area_checks (Some (b, c)) p False obj cBits oS cS oA cA oP cP oV cV oE cE oL cL uLocs uEnd cbObj = Some 0"
    unfolding vtg_hdr_checks_def w(1,3) by (auto simp: vchk_success split: Option.bind_splits if_splits)
  have oL: "scast oL = (of_int (h_offProbeLocs H) :: u64)" unfolding w(2)[symmetric] by simp
  have "uLocs = p + of_int (h_offProbeLocs H)" using areas_success(24)[OF a] unfolding oL by (simp add: diff_eq_eq add.commute)
  then show ?thesis using image_locs_readable[OF _ _ _ _ c r, of uLocs uEnd "h_cbProbeLocs H"] areas_locs[OF a] areas_success(23)[OF a] w(4)
    by (simp add: MY_WITHIN_IMAGE_def ucast_unat[OF w(4)])
qed

text \<open>C23: Whatever the bytes of a VTG object in an image are, its validation reads and writes only the image and the
  0x102000 bytes from its header on.\<close>

theorem vtg_no_fault:
  assumes img: "pbImage \<noteq> 0" "0 < cbImage" "unat cbImage < 2 ^ 63" "\<forall>x. x - pbImage < cbImage \<longrightarrow> mem x \<noteq> None"
    and r: "readable mem p 0x102000"
  shows "supdrvVtgValidate mem p p pbImage cbImage False \<noteq> None"
proof -
  have i: "vtg_image pbImage cbImage = Some (pbImage, cbImage)" using img(1,2) by (auto simp: vtg_image_def)
  have r0: "readable mem p 128" using r by (simp add: readable_def)
  have o: "\<exists>v. hd32 mem p H_cbObj = Some v" using rd_values(3)[OF r0, of 28] by (simp add: hd32_def)
  have mem1: "readable mem1 p 0x102000" "readable mem1 p 128" "\<forall>x. x - pbImage < cbImage \<longrightarrow> mem1 x \<noteq> None"
    if "vtg_set_probe_locs mem p p = Some (rc, mem1)" for rc mem1
    using set_probe_locs_grows[OF that] r r0 img(4) by (auto simp: readable_def simp del: not_None_eq)
  have h: "supdrvVtgValidateHdr mem p p (Some (pbImage, cbImage)) False \<noteq> None"
  proof -
    have k: "(case x of (rc, mem1) \<Rightarrow> if rc \<noteq> VINF_SUCCESS then Some (rc, mem1) else do {
        rc1 \<leftarrow> vtg_hdr_checks mem1 p p (Some (pbImage, cbImage)) False v; Some (rc1, mem1) }) \<noteq> None"
      if "vtg_set_probe_locs mem p p = Some x" for x v
      using that mem1(2) hdr_checks_runs[of _ p p "Some (pbImage, cbImage)" False v] by (cases x) (auto, fastforce)
    show ?thesis unfolding supdrvVtgValidateHdr_def
      by (intro if_runs bind_runs o runs k) (use set_probe_locs_runs[OF r0] in auto)
  qed
  have b: "vtg_body mem1 p (Some (pbImage, cbImage)) \<noteq> None"
    if e: "supdrvVtgValidateHdr mem p p (Some (pbImage, cbImage)) False = Some (rc, mem1)" "\<not> RT_FAILURE rc" for rc mem1
  proof -
    from hdr_success[OF e] obtain H where H: "vtg_hdr mem1 p = Some H" "layout_ok H" by blast
    from hdr_success_checks[OF e] obtain obj rc1 where c: "vtg_set_probe_locs mem p p = Some (rc1, mem1)"
      "vtg_hdr_checks mem1 p p (Some (pbImage, cbImage)) False obj = Some 0" by blast
    show ?thesis by (rule body_runs[OF H mem1(1)[OF c(1)] hdr_checks_locs[OF c(2) H(1) img(3) mem1(3)[OF c(1)]]])
  qed
  show ?thesis using h b unfolding supdrvVtgValidate_def Let_def i by (auto split: Option.bind_splits prod.splits)
qed

text \<open>A small object: one provider, one probe with no arguments, one location.\<close>

abbreviation "vtg_ex_base \<equiv> (0xffff800000001000 :: addr)"

definition vtg_ex_bytes :: "u8 list" where
  "vtg_ex_bytes = [86, 84, 71, 32, 79, 98, 106, 101, 99, 116, 32, 72, 101, 97, 100, 101, 114, 32, 118, 49, 46, 53, 0, 0, 64, 0, 0, 0, 180, 0, 0, 0,
     128, 0, 0, 0, 4, 0, 0, 0, 132, 0, 0, 0, 4, 0, 0, 0, 136, 0, 0, 0, 16, 0, 0, 0, 152, 0, 0, 0, 24, 0, 0, 0,
     176, 0, 0, 0, 4, 0, 0, 0, 192, 0, 0, 0, 32, 0, 0, 0, 192, 16, 0, 0, 0, 128, 255, 255, 224, 16, 0, 0, 0, 128, 255, 255,
     7, 7, 7, 7, 7, 7, 7, 7, 7, 7, 7, 7, 7, 7, 7, 7, 0, 0, 0, 0, 0, 0, 0, 0, 0, 0, 0, 0, 0, 0, 0, 0,
     97, 0, 0, 0, 0, 0, 0, 0, 0, 0, 0, 0, 0, 0, 0, 0, 0, 0, 0, 0, 120, 255, 255, 255, 0, 0, 0, 0, 0, 0, 1, 0,
     1, 1, 1, 1, 1, 1, 1, 1, 1, 1, 1, 1, 1, 1, 1, 0, 0, 0, 0, 0, 0, 0, 0, 0, 0, 0, 0, 0, 0, 0, 0, 0,
     42, 0, 0, 0, 0, 0, 0, 0, 128, 16, 0, 0, 0, 128, 255, 255, 136, 16, 0, 0, 0, 128, 255, 255, 0, 0, 0, 0, 0, 0, 0, 0]"

definition vtg_ex :: vmem where
  "vtg_ex = (\<lambda>a. if unat (a - vtg_ex_base) < 224 then Some (vtg_ex_bytes ! unat (a - vtg_ex_base)) else None)"

lemma vtg_ex_hd:
  "hd32 vtg_ex vtg_ex_base H_cBits = Some 64"
  "hd32 vtg_ex vtg_ex_base H_cbObj = Some 180"
  "hd32 vtg_ex vtg_ex_base H_offStrTab = Some 128"
  "hd32 vtg_ex vtg_ex_base H_cbStrTab = Some 4"
  "hd32 vtg_ex vtg_ex_base H_offArgLists = Some 132"
  "hd32 vtg_ex vtg_ex_base H_cbArgLists = Some 4"
  "hd32 vtg_ex vtg_ex_base H_offProbes = Some 136"
  "hd32 vtg_ex vtg_ex_base H_cbProbes = Some 16"
  "hd32 vtg_ex vtg_ex_base H_offProviders = Some 152"
  "hd32 vtg_ex vtg_ex_base H_cbProviders = Some 24"
  "hd32 vtg_ex vtg_ex_base H_offProbeEnabled = Some 176"
  "hd32 vtg_ex vtg_ex_base H_cbProbeEnabled = Some 4"
  "hd32 vtg_ex vtg_ex_base H_offProbeLocs = Some 192"
  "hd32 vtg_ex vtg_ex_base H_cbProbeLocs = Some 32"
  "hd32 vtg_ex vtg_ex_base H_au32Reserved1 = Some 0"
  "hd32 vtg_ex vtg_ex_base 124 = Some 0"
  "vr64 vtg_ex 0xffff800000001050 = Some 0xffff8000000010c0"
  "vr64 vtg_ex 0xffff800000001058 = Some 0xffff8000000010e0"
  "vbytes vtg_ex vtg_ex_base 24 = Some VTGOBJHDR_MAGIC"
  "vbytes vtg_ex 0xffff800000001060 16 = Some (replicate 16 7)"
  by code_simp+

lemma vtg_ex_rd:
  "vr32 vtg_ex 0xffff800000001088 = Some 0x0"
  "vr32 vtg_ex 0xffff80000000108c = Some 0x0"
  "vr32 vtg_ex 0xffff800000001094 = Some 0xffffff78"
  "vr32 vtg_ex 0xffff800000001098 = Some 0x0"
  "vr32 vtg_ex 0xffff8000000010b0 = Some 0x0"
  "vr32 vtg_ex 0xffff8000000010c0 = Some 0x2a"
  "vr32 vtg_ex 0xffff8000000010c4 = Some 0x0"
  "vr16 vtg_ex 0xffff800000001090 = Some 0"
  "vr16 vtg_ex 0xffff800000001092 = Some 0"
  "vr16 vtg_ex 0xffff80000000109c = Some 0"
  "vr16 vtg_ex 0xffff80000000109e = Some 1"
  "vr64 vtg_ex 0xffff8000000010c8 = Some 0xffff800000001080"
  "vr64 vtg_ex 0xffff8000000010d0 = Some 0xffff800000001088"
  "vtg_ex 0xffff800000001084 = Some 0"
  "vtg_ex 0xffff800000001085 = Some 0"
  "vtg_ex 0xffff800000001086 = Some 0"
  "vtg_ex 0xffff800000001087 = Some 0"
  "vtg_ex 0xffff8000000010a0 = Some 1"
  "vtg_ex 0xffff8000000010a1 = Some 1"
  "vtg_ex 0xffff8000000010a2 = Some 1"
  "vtg_ex 0xffff8000000010a3 = Some 1"
  "vtg_ex 0xffff8000000010a4 = Some 1"
  "vtg_ex 0xffff8000000010a5 = Some 1"
  "vtg_ex 0xffff8000000010a6 = Some 1"
  "vtg_ex 0xffff8000000010a7 = Some 1"
  "vtg_ex 0xffff8000000010a8 = Some 1"
  "vtg_ex 0xffff8000000010a9 = Some 1"
  "vtg_ex 0xffff8000000010aa = Some 1"
  "vtg_ex 0xffff8000000010ab = Some 1"
  "vtg_ex 0xffff8000000010ac = Some 1"
  "vtg_ex 0xffff8000000010ad = Some 1"
  "vtg_ex 0xffff8000000010ae = Some 1"
  "vtg_ex 0xffff8000000010af = Some 0"
  "supdrvVtgValidateString vtg_ex 0xffff800000001080 = Some 0"
  by code_simp+

lemma vtg_ex_within: "MY_WITHIN_IMAGE (Some (vtg_ex_base, 0x1000)) vtg_ex_base" "MY_WITHIN_IMAGE (Some (vtg_ex_base, 0x1000)) 0xffff8000000010b3"
  "MY_WITHIN_IMAGE (Some (vtg_ex_base, 0x1000)) 0xffff800000001080" "MY_WITHIN_IMAGE (Some (vtg_ex_base, 0x1000)) 0xffff8000000010c0"
  "MY_WITHIN_IMAGE (Some (vtg_ex_base, 0x1000)) 0xffff8000000010e0"
  by code_simp+

lemma vtg_ex_areas:
  "vtg_area_checks (Some (vtg_ex_base, 0x1000)) vtg_ex_base False 180 64 128 4 132 4 136 16 152 24 176 4 192 32 0xffff8000000010c0 0xffff8000000010e0 180 = Some 0"
  by (simp add: vtg_area_checks_def MY_VALIDATE_OFF_def MY_VALIDATE_SIZE_def vchk_def vtg_ex_within word_le_nat_alt word_less_nat_alt)

lemma vtg_ex_hdr: "vtg_hdr_checks vtg_ex vtg_ex_base vtg_ex_base (Some (vtg_ex_base, 0x1000)) False 180 = Some 0"
  by (simp add: vtg_hdr_checks_def vtg_ex_hd vchk_def vtg_ex_areas)

lemma vtg_ex_body: "vtg_body vtg_ex vtg_ex_base (Some (vtg_ex_base, 0x1000)) = Some 0"
  by (simp add: vtg_body_def vtg_ex_hd vtg_ex_rd vchk_def vcall_def vtg_provider_def vtg_probe_def vtg_probe_loc_def vtg_arglist_def provider_at_def
    probe_at_def MY_VALIDATE_STR_def MY_VALIDATE_ATTR_def vtg_ex_within Let_def word_le_nat_alt)

lemma vtg_ex_run: "supdrvVtgValidate vtg_ex vtg_ex_base vtg_ex_base vtg_ex_base 0x1000 False = Some (0, vtg_ex)"
  by (simp add: supdrvVtgValidate_def supdrvVtgValidateHdr_def vtg_set_probe_locs_def vtg_image_def vtg_ex_within vtg_ex_hd vtg_ex_hdr vtg_ex_body)

theorem vtg_validated_witness:
  "supdrvVtgValidate vtg_ex vtg_ex_base vtg_ex_base vtg_ex_base 0x1000 False = Some (VINF_SUCCESS, vtg_ex) \<and>
   vtg_ok vtg_ex vtg_ex_base (vtg_image vtg_ex_base 0x1000)"
  using vtg_ex_run vtg_validated[OF vtg_ex_run] by blast

text \<open>A window of memory for the object and its image.\<close>

definition vtg_window :: vmem where
  "vtg_window = (\<lambda>a. if a - vtg_ex_base < 0x102000 then Some 0 else None)"

lemma vtg_window_readable: "readable vtg_window vtg_ex_base 0x102000"
  by (auto simp: readable_def vtg_window_def word_less_nat_alt unat_of_nat)

theorem vtg_no_fault_witness: "supdrvVtgValidate vtg_window vtg_ex_base vtg_ex_base vtg_ex_base 0x1000 False \<noteq> None"
proof (rule vtg_no_fault[OF _ _ _ _ vtg_window_readable])
  show "\<forall>x. x - vtg_ex_base < 0x1000 \<longrightarrow> vtg_window x \<noteq> None"
    by (auto simp: vtg_window_def word_less_nat_alt)
qed simp_all

section \<open>Two checks that check less than they say\<close>

text \<open>Of the enabled counts only the first is looked at: the loop reads entry 0 each time (line 632).\<close>

theorem vtg_enabled_first_only:
  "vtg_enabled mem a n (Some VINF_SUCCESS) = Some VINF_SUCCESS \<longleftrightarrow> n = 0 \<or> vr32 mem a = Some 0"
  by (induction n) (auto simp: vchk_ok split: Option.bind_splits)

text \<open>
  Locations in front of the header may reach into it: here they end 64 bytes after its start.  The check that is
  there for this case (lines 449-454) asks for a positive offset, for which it can say nothing.
\<close>

theorem vtg_locs_over_header:
  "vtg_area_checks (Some (vtg_ex_base, 0x1000)) (vtg_ex_base + 64) False 180 64 128 4 132 4 136 16 152 24 176 4 (- 64) 128
     vtg_ex_base (vtg_ex_base + 128) 180 = Some 0"
proof -
  have "MY_WITHIN_IMAGE (Some (vtg_ex_base, 0x1000)) (vtg_ex_base + 128)" by code_simp
  then show ?thesis
    by (simp add: vtg_area_checks_def MY_VALIDATE_OFF_def MY_VALIDATE_SIZE_def vchk_def vtg_ex_within word_le_nat_alt word_less_nat_alt)
qed

end
