(* ===== verification/Spec2Isabelle.thy ===== *)
theory Spec2Isabelle
  imports RTMemObjAlloc SupMem SupLdrApi SupFactory SupGip SupTime SupSem SupSession SupReq SupCpu SupIoctl SupOps SupIoctlSafe SupIdc SupLinux SupInit SupIdcClient SupVtg
begin

text \<open>
  The VirtualBox host support driver (\<open>src/src/VBox/HostDrivers/Support\<close>; paths below are relative to
  \<open>src/src/VBox\<close>), as it is built for Linux on AMD64.

  The program.  The support driver is the part of VirtualBox that runs in the host kernel, and the boundary
  between it and everything else: VM processes and other kernel drivers reach ring 0 only through it.  A
  process opens the device file \<open>/dev/vboxdrv\<close> (or the restricted \<open>/dev/vboxdrvu\<close>) and gets a session.  With
  IOCtls on that file it loads ring-0 images (the VMM), calls into them, allocates, locks and maps memory, maps
  the global information page (GIP) and uses ring-0 semaphores.  Other drivers reach it through a call (IDC)
  and additionally register component factories.  Everything that a session acquires is recorded in the session,
  and is given back when its last reference goes, whatever the process has done before.

  State.  \<^typ>\<open>supdrv\<close> (SupTypes) is the whole state: the device extension \<^typ>\<open>SUPDRVDEVEXT\<close>, and maps from the
  addresses of the heap blocks that the driver allocates (sessions, objects, usage records, images, factories,
  memory objects, GIPs) to their contents.  A linked list of the code is the list of the addresses of its
  records; where the code removes the record, the address leaves the list, and where it frees the block, the
  address leaves the map, so a pointer that dangles is an address outside of the domain, and its use is a
  memory fault.  A C function that touches memory is a function into \<^typ>\<open>'a option\<close>: \<^term>\<open>None\<close> is a fault, a
  lock acquired twice, or a loop that does not end.  Every error of the code is a value, its IPRT status.  Calls
  out of the driver (destructors, entry points of images, services) are recorded in order in an event list.

  The theories.
    \<^item> SupPrelude: machine types, status codes, pointer validation, \<open>guarded_api\<close> (below) and the generic
      lemmas.  SupTypes: the data of \<open>SUPDrvInternal.h\<close> and \<open>sup.h\<close>.
    \<^item> SupUsage: the accounting shared by objects and images, a global counter and one share for each session;
      locale \<open>refcounting\<close> is the resource that is destroyed exactly when the last share goes.
    \<^item> SupObj: \<open>SUPR0ObjRegister\<close>, \<open>SUPR0ObjAddRefEx\<close>, \<open>SUPR0ObjRelease\<close>, \<open>SUPR0ObjVerifyAccess\<close> and the
      object part of \<open>supdrvCleanupSession\<close> (\<open>SUPDrv.c\<close>, as all that follow unless a file is named).
    \<^item> SupLdr, SupLdrApi: the image loader, \<open>supdrvIOCtl_LdrOpen\<close>, \<open>LdrLoad\<close>, \<open>LdrFree\<close>, \<open>LdrGetSymbol\<close>,
      \<open>supdrvIDC_LdrGetSymbol\<close>, \<open>supdrvIOCtl_CallServiceModule\<close> and the VMMR0 entry points.
    \<^item> SupMem: the session memory, \<open>SUPR0LockMem\<close>, \<open>ContAlloc\<close>, \<open>LowAlloc\<close>, \<open>MemAlloc\<close>, \<open>PageAllocEx\<close> and so on,
      over RTMemObj and RTMemObjAlloc, the IPRT ring-0 memory objects (\<open>Runtime/r0drv/memobj-r0drv.cpp\<close>).
    \<^item> SupFactory: the component factories (\<open>SUPR0ComponentRegisterFactory\<close> and so on).
    \<^item> SupGipPage, SupGip: the GIP itself and what the driver does with it: creation, mapping, the timer tick,
      CPU events, the choice of the update mode.  SupTime: its readers (\<open>Runtime/common/time/timesupref.h\<close>).
    \<^item> RTHandleTable: IPRT handle tables (\<open>Runtime/common/misc/handletable*.cpp\<close>).  SupSem: the semaphores
      of a session, which are handles in such a table (\<open>SUPDrvSem.c\<close>).
    \<^item> SupCpu: the paging mode and the hardware virtualisation features.
    \<^item> SupSession: creation, reference count and cleanup of a session; the combined invariant \<^const>\<open>drv_inv\<close> of all
      components, and \<^const>\<open>sess_inv\<close>, which adds the sessions' own.
    \<^item> SupReq, SupIoctl: the request buffers byte by byte (\<open>SUPDrvIOC.h\<close>) and the dispatcher \<open>supdrvIOCtl\<close>, one
      definition for each case of its switches.  SupOps, SupIoctlSafe: the operations against the combined
      invariant, and the safety of the dispatcher.
    \<^item> SupIdc: the requests of other drivers (\<open>SUPDrvIDC.h\<close>, \<open>supdrvIDC\<close>).
    \<^item> SupLinux: the device files (\<open>linux/SUPDrv-linux.c\<close>).  SupInit: \<open>supdrvInitDevExt\<close>, \<open>supdrvDeleteDevExt\<close>
      and the module's entry points.
    \<^item> SupIdcClient: the library with which other drivers make their requests (\<open>SUPR0IdcClient*.c\<close>), composed with
      the driver.
    \<^item> SupVtg: the validation of tracepoint objects (\<open>supdrvVtgValidate\<close>, \<open>SUPDrvTracer.cpp\<close>), over a memory of bytes:
      what a validated object guarantees, and that nothing outside of the object and its image is read.

  What is shown.  Each component has its invariant, its operations as the steps of an API, and the lemma that
  a call which is in order does not fault and keeps the invariant; the interpretation of \<open>guarded_api\<close> on these
  definitions extends it to every run.  The components compose: \<^const>\<open>drv_inv\<close> is their conjunction, with their shares
  of the common heap of memory objects apart, the dispatcher keeps it for every request whose sizes fit its
  buffer, and loading the driver establishes it.  The device files keep it for every request whose kernel buffer covers the
  header and the two sizes in it after the second copy from user memory.  They do not check this: a request shorter
  than a header and sizes that grow between the two copies make the driver access memory that is not its own, which
  \<open>linux_short_request_faults\<close> and \<open>linux_double_fetch_faults\<close> prove.  Requests of other drivers keep it,
  except the lookup of a symbol that a loaded image of another module has (\<open>idc_get_symbol_record_dangles\<close>).
  Two more things can go wrong when callers do what the driver does not check, and for these the invariants
  have a parameter, the set of \<^typ>\<open>promise\<close>s that are kept: VMMR0 load requests name their own load address
  (\<^const>\<open>VMMR0_At_Base\<close>), and sessions that are closed with a reference to the GIP also map it
  (\<^const>\<open>GIP_Ref_Mapped\<close>).  All theorems hold for every set.  With the empty one nothing is asked of callers and no call
  faults; the first promise adds that the VMMR0 entry points stay inside a loaded image, the second that the user
  counter of the GIP is exact, where otherwise it is only an upper bound.  On top of safety the properties are functional: the counter of an object is what its sessions have taken and not given back, and its
  destructor runs once, with the last reference; an image is destroyed exactly then; a load that fails leaves no trace, and callbacks are
  made only to addresses inside of loaded images; cleanup frees all memory of the session with its mappings, and no other; what an unprivileged session can
  do; a reader of the GIP sees the values of one update; the table of handles is a finite map; cookies,
  sizes and strings of a request are checked before use.

  Bounds and fuel.  Loops that walk a list are structural recursion.  \<open>cpu_claim\<close> tries 33 times and the publication of
  the time 25 times, as in the code, which gives up then too; the measurement of the TSC takes 8
  rounds, as in the code.  The loop that grows the GIP's update interval and the allocation loop of the handle table have no bound
  in the code and are \<open>partial_function\<close>; that they return is proved.  A request has at most 16 MB, the
  bound of the Linux entry point.  Words have the width of the C type, and wrap.

  Parameters.  What is not in the driver is an argument: the addresses that allocators return (fresh, or 0), native memory objects, what the
  destructors, the images and the services do, clock, TSC and timers, the registers of the CPU, IPRT semaphores and
  spinlock creation, the tracer, the logger, the contents of user memory at each copy, and the
  registration functions of the kernel.  A premise such as \<open>sessOpOk\<close> says what is assumed of them
  for a call: a new block does not overlap a live one, memory that is given back is taken, the timer starts and stops,
  a counter is not at its last value, and a CPU that goes offline is in the GIP (otherwise the driver returns
  with the spinlock held, \<open>gip_offline_keeps_lock\<close>).

  Not modelled.  An operation is atomic where the code holds the lock of its component for all of it; its phases that
  release the lock are not interleaved with other threads, except for the readers and
  the writer of the GIP, whose loads and stores interleave.  The lock hierarchy itself is checked only for double acquisition.  Debug
  builds (MSR prober, \<open>SUPDRV_WITH_MSR_PROBER\<close>), the registration of tracers and tracepoint objects (the rest of \<open>SUPDrvTracer.cpp\<close>), the logger settings, the simple handle
  table, the variants of the time reader without transaction ids, and other hosts than Linux are left out: they add
  cases, not behaviour the rest depends on.  The ring-3 library (\<open>SUPLib*.cpp\<close>), the hardened
  start-up and all other parts of VirtualBox are clients of what is modelled here.
\<close>

end
